(* ===== verification/Prelude.thy ===== *)
theory Prelude
  imports Main "HOL-Library.Word" "HOL-Library.Monad_Syntax"
begin

text \<open>
  Shared vocabulary of the development: the C integer types of the 16-bit build, memory and
  disk blocks as byte functions, the little-endian encodings of the on-disk structures, and
  the lemmas about options, words and byte strings that the component theories share.

  A kernel function is modelled as a function of the kernel state that returns
  \<open>(result \<times> state) option\<close>; the value None stands for a call that never returns
  to its caller (the kernel has panicked, the process has exited, or it sleeps for ever).
  The do-notation of the option monad then reads like the C statements.
\<close>

unbundle bit_operations_syntax

type_synonym u8 = "8 word"
type_synonym u16 = "16 word"
type_synonym u32 = "32 word"

text \<open>A disk block or a stretch of memory: a byte for every offset.\<close>

type_synonym block = "nat \<Rightarrow> u8"

named_theorems codec
named_theorems frame

subsection \<open>Panics\<close>

text \<open>
  Kernel/process.c panic(): the message goes to the console and the machine stops in
  trap\_monitor(). The message is kept as the argument so that each panic of the source is
  visible as a branch of its own.
\<close>

definition panic :: "string \<Rightarrow> 's \<Rightarrow> ('a \<times> 's) option" where
  "panic deathcry s = None"

lemma panic_None [simp]: "panic m s = None"
  by (simp add: panic_def)

subsection \<open>Options and loops over a table\<close>

lemma bind_SomeD:
  assumes "Option.bind m f = Some y"
  obtains x where "m = Some x" and "f x = Some y"
  using assms by (auto simp: bind_eq_Some_conv)

text \<open>
  A C loop \<^verbatim>\<open>for (i = a; i < b; i++) body\<close> whose body may panic: the body is run for
  each index in turn and the state is threaded through.
\<close>

fun for_each :: "nat list \<Rightarrow> (nat \<Rightarrow> 's \<Rightarrow> (unit \<times> 's) option) \<Rightarrow> 's \<Rightarrow> (unit \<times> 's) option" where
  "for_each [] body s = Some ((), s)"
| "for_each (i # is) body s = do { (_, s) \<leftarrow> body i s; for_each is body s }"

lemma for_each_inv:
  assumes step: "\<And>i s s'. i \<in> set is \<Longrightarrow> I s \<Longrightarrow> body i s = Some ((), s') \<Longrightarrow> I s'"
    and "I s" and "for_each is body s = Some (r, s')"
  shows "I s'"
  using assms
proof (induction "is" arbitrary: s)
  case Nil
  then show ?case by simp
next
  case (Cons i "is")
  from Cons.prems(3) obtain t where t: "body i s = Some ((), t)"
    and rest: "for_each is body t = Some (r, s')"
    by (auto simp: bind_eq_Some_conv)
  from Cons.prems(1,2) t have "I t" by auto
  with Cons.IH [of t] Cons.prems(1) rest show ?case by auto
qed

lemma for_each_total:
  assumes "\<And>i s. i \<in> set is \<Longrightarrow> I s \<Longrightarrow> \<exists>s'. body i s = Some ((), s') \<and> I s'" and "I s"
  shows "\<exists>s'. for_each is body s = Some ((), s') \<and> I s'"
  using assms
proof (induction "is" arbitrary: s)
  case Nil
  then show ?case by simp
next
  case (Cons i "is")
  from Cons.prems obtain t where "body i s = Some ((), t)" and t: "I t" by fastforce
  moreover have "\<exists>s'. for_each is body t = Some ((), s') \<and> I s'"
    using Cons.IH [of t] Cons.prems(1) t by auto
  ultimately show ?case by auto
qed

lemma for_each_append:
  "for_each (xs @ ys) body s = do { (_, s) \<leftarrow> for_each xs body s; for_each ys body s }"
  by (induction xs arbitrary: s) (auto split: bind_splits)

lemma for_each_upt:
  assumes "P 0 s" and "\<And>i u. i < n \<Longrightarrow> P i u \<Longrightarrow> \<exists>t. body i u = Some ((), t) \<and> P (Suc i) t"
  shows "\<exists>t. for_each [0..<n] body s = Some ((), t) \<and> P n t"
  using assms(2)
proof (induction n)
  case 0
  then show ?case using assms(1) by simp
next
  case (Suc n)
  then obtain u where u: "for_each [0..<n] body s = Some ((), u)" "P n u" by auto
  moreover obtain t where "body n u = Some ((), t)" "P (Suc n) t" using Suc.prems u(2) by blast
  ultimately show ?case by (auto simp: for_each_append)
qed

text \<open>The first index of a table scan that satisfies a test, as the C loops with \<^verbatim>\<open>break\<close> find it.\<close>

definition first_index :: "nat \<Rightarrow> (nat \<Rightarrow> bool) \<Rightarrow> nat option" where
  "first_index n P = List.find P [0..<n]"

lemma first_index_Some:
  "first_index n P = Some i \<Longrightarrow> i < n \<and> P i \<and> (\<forall>j<i. \<not> P j)"
  unfolding first_index_def
  by (auto simp: find_Some_iff)

lemma first_index_None: "first_index n P = None \<longleftrightarrow> (\<forall>i<n. \<not> P i)"
  unfolding first_index_def by (auto simp: find_None_iff)

lemma first_index_unique:
  "i < n \<Longrightarrow> P i \<Longrightarrow> (\<And>j. j < n \<Longrightarrow> P j \<Longrightarrow> j = i) \<Longrightarrow> first_index n P = Some i"
  by (metis first_index_None first_index_Some not_None_eq)

subsection \<open>Bytes of a block\<close>

definition get_bytes :: "block \<Rightarrow> nat \<Rightarrow> nat \<Rightarrow> u8 list" where
  "get_bytes b off n = map b [off..<off + n]"

definition put_bytes :: "block \<Rightarrow> nat \<Rightarrow> u8 list \<Rightarrow> block" where
  "put_bytes b off bs = (\<lambda>i. if off \<le> i \<and> i < off + length bs then bs ! (i - off) else b i)"

definition zero_block :: block where
  "zero_block = (\<lambda>_. 0)"

lemma length_get_bytes [simp]: "length (get_bytes b off n) = n"
  by (simp add: get_bytes_def)

lemma nth_get_bytes [simp]: "i < n \<Longrightarrow> get_bytes b off n ! i = b (off + i)"
  by (simp add: get_bytes_def)

lemma get_put_bytes_same [codec]:
  "n = length bs \<Longrightarrow> get_bytes (put_bytes b off bs) off n = bs"
  by (intro nth_equalityI) (auto simp: put_bytes_def)

lemma get_put_bytes_other [codec]:
  "off' + n \<le> off \<or> off + length bs \<le> off' \<Longrightarrow>
    get_bytes (put_bytes b off bs) off' n = get_bytes b off' n"
  by (auto simp: get_bytes_def put_bytes_def)

subsection \<open>Word values as numbers\<close>

lemma u8_bound: "unat (x :: u8) < 256"
  using unsigned_less [of x, where ?'a = nat] by simp

lemma u16_bound: "unat (x :: u16) < 65536"
  using unsigned_less [of x, where ?'a = nat] by simp

lemma u32_bound: "unat (x :: u32) < 4294967296"
  using unsigned_less [of x, where ?'a = nat] by simp

lemma unat_ucast_u16: "unat (ucast (v :: u16) :: u32) = unat v"
  using u16_bound [of v] by (simp add: unsigned_ucast_eq take_bit_nat_eq_self)

lemma unat_inc: "unat (w + 1 :: 'a::len word) = (if w + 1 = 0 then 0 else Suc (unat w))"
  using unatSuc [of w] by (auto simp: add.commute)

lemma unat_dec: "w \<noteq> 0 \<Longrightarrow> unat (w - 1 :: 'a::len word) = unat w - 1"
  by (simp add: unat_minus_one)

subsection \<open>Little-endian words\<close>

definition le16 :: "u16 \<Rightarrow> u8 list" where
  "le16 v = [ucast v, ucast (drop_bit 8 v)]"

definition le32 :: "u32 \<Rightarrow> u8 list" where
  "le32 v = [ucast v, ucast (drop_bit 8 v), ucast (drop_bit 16 v), ucast (drop_bit 24 v)]"

definition rd16 :: "u8 list \<Rightarrow> nat \<Rightarrow> u16" where
  "rd16 bs k = ucast (bs ! k) OR push_bit 8 (ucast (bs ! (k + 1)))"

definition rd32 :: "u8 list \<Rightarrow> nat \<Rightarrow> u32" where
  "rd32 bs k = ucast (bs ! k) OR push_bit 8 (ucast (bs ! (k + 1)))
     OR push_bit 16 (ucast (bs ! (k + 2))) OR push_bit 24 (ucast (bs ! (k + 3)))"

lemma length_le16 [simp]: "length (le16 v) = 2"
  by (simp add: le16_def)

lemma length_le32 [simp]: "length (le32 v) = 4"
  by (simp add: le32_def)

lemma join16: "(ucast (ucast v :: u8) :: u16) OR push_bit 8 (ucast (ucast (drop_bit 8 v) :: u8)) = v"
  by (rule bit_word_eqI) (auto simp: bit_simps)

lemma join32:
  "(ucast (ucast v :: u8) :: u32) OR push_bit 8 (ucast (ucast (drop_bit 8 v) :: u8))
     OR push_bit 16 (ucast (ucast (drop_bit 16 v) :: u8))
     OR push_bit 24 (ucast (ucast (drop_bit 24 v) :: u8)) = v"
proof (rule bit_word_eqI)
  fix n assume "n < LENGTH(32)"
  then consider "n < 8" | "8 \<le> n" "n < 16" | "16 \<le> n" "n < 24" | "24 \<le> n" "n < 32"
    by fastforce
  then show "bit ((ucast (ucast v :: u8) :: u32) OR push_bit 8 (ucast (ucast (drop_bit 8 v) :: u8))
     OR push_bit 16 (ucast (ucast (drop_bit 16 v) :: u8))
     OR push_bit 24 (ucast (ucast (drop_bit 24 v) :: u8))) n = bit v n"
    by cases (auto simp: bit_simps)
qed

lemma rd16_le16 [codec]: "rd16 (le16 v @ bs) 0 = v"
  by (simp add: rd16_def le16_def join16)

lemma rd32_le32 [codec]: "rd32 (le32 v @ bs) 0 = v"
  by (simp add: rd32_def le32_def join32 numeral_2_eq_2 numeral_3_eq_3)

lemma rd16_skip: "length xs \<le> k \<Longrightarrow> rd16 (xs @ bs) k = rd16 bs (k - length xs)"
  by (simp add: rd16_def nth_append Suc_diff_le)

lemma rd32_skip: "length xs \<le> k \<Longrightarrow> rd32 (xs @ bs) k = rd32 bs (k - length xs)"
  by (simp add: rd32_def nth_append Suc_diff_le)

lemma length_concat_le16 [simp]: "length (concat (map le16 vs)) = 2 * length vs"
  by (induction vs) auto

lemma rd16_concat [codec]:
  "j < length vs \<Longrightarrow> rd16 (concat (map le16 vs) @ bs) (2 * j) = vs ! j"
proof (induction vs arbitrary: j)
  case Nil
  then show ?case by simp
next
  case (Cons v vs)
  show ?case
  proof (cases j)
    case 0
    then show ?thesis by (simp add: rd16_le16)
  next
    case (Suc i)
    with Cons show ?thesis by (simp add: rd16_skip)
  qed
qed

end
