(* ===== verification/CharQueue.thy ===== *)
theory CharQueue
  imports Prelude
begin

text \<open>
  The character queues of Kernel/devio.c (insq, remq, clrq, uninsq on struct s\_queue), the ring
  buffers between the terminal interrupt code and the readers of a tty. Pointers are addresses
  (integers); the bytes the ring occupies are the memory function \<open>q_mem\<close>. Each operation runs
  with interrupts off, so it is atomic and the model leaves the interrupt flag out.

  The interface locales say what a terminal relies on: a bounded first-in first-out queue, and a
  queue whose last byte can be taken back (line editing). The ring buffer is an instance of both.
\<close>

record s_queue =
  q_base :: int
  q_head :: int
  q_tail :: int
  q_size :: int
  q_count :: int
  q_wakeup :: int
  q_mem :: "int \<Rightarrow> u8"

definition insq :: "s_queue \<Rightarrow> u8 \<Rightarrow> bool \<times> s_queue" where
  "insq q c =
     (if q_count q = q_size q then (False, q)
      else
        let q = q\<lparr>q_mem := (q_mem q)(q_tail q := c)\<rparr>;
            q = q\<lparr>q_count := q_count q + 1\<rparr>;
            q = q\<lparr>q_tail := q_tail q + 1\<rparr>;
            q = (if q_tail q \<ge> q_base q + q_size q then q\<lparr>q_tail := q_base q\<rparr> else q)
        in (True, q))"

definition remq :: "s_queue \<Rightarrow> u8 option \<times> s_queue" where
  "remq q =
     (if q_count q = 0 then (None, q)
      else
        let c = q_mem q (q_head q);
            q = q\<lparr>q_count := q_count q - 1\<rparr>;
            q = q\<lparr>q_head := q_head q + 1\<rparr>;
            q = (if q_head q \<ge> q_base q + q_size q then q\<lparr>q_head := q_base q\<rparr> else q)
        in (Some c, q))"

definition clrq :: "s_queue \<Rightarrow> s_queue" where
  "clrq q = q\<lparr>q_head := q_base q, q_tail := q_base q, q_count := 0\<rparr>"

definition uninsq :: "s_queue \<Rightarrow> u8 option \<times> s_queue" where
  "uninsq q =
     (if q_count q = 0 then (None, q)
      else
        let q = q\<lparr>q_count := q_count q - 1\<rparr>;
            q = q\<lparr>q_tail := q_tail q - 1\<rparr>;
            q = (if q_tail q < q_base q then q\<lparr>q_tail := q_base q + q_size q - 1\<rparr> else q)
        in (Some (q_mem q (q_tail q)), q))"

subsection \<open>The interface\<close>

text \<open>Inserting bytes one after the other; the result lists which were accepted.\<close>

fun insert_many :: "('q \<Rightarrow> 'a \<Rightarrow> bool \<times> 'q) \<Rightarrow> 'q \<Rightarrow> 'a list \<Rightarrow> bool list \<times> 'q" where
  "insert_many enq q [] = ([], q)"
| "insert_many enq q (x # xs) =
     (let (r, q) = enq q x; (rs, q) = insert_many enq q xs in (r # rs, q))"

text \<open>Removing up to \<open>n\<close> bytes, stopping when the queue is empty.\<close>

fun remove_many :: "('q \<Rightarrow> 'a option \<times> 'q) \<Rightarrow> nat \<Rightarrow> 'q \<Rightarrow> 'a list \<times> 'q" where
  "remove_many deq 0 q = ([], q)"
| "remove_many deq (Suc n) q =
     (case deq q of
        (None, q) \<Rightarrow> ([], q)
      | (Some x, q) \<Rightarrow> (let (xs, q) = remove_many deq n q in (x # xs, q)))"

locale bounded_fifo =
  fixes enq :: "'q \<Rightarrow> 'a \<Rightarrow> bool \<times> 'q"
    and deq :: "'q \<Rightarrow> 'a option \<times> 'q"
    and contents :: "'q \<Rightarrow> 'a list"
    and room :: "'q \<Rightarrow> nat"
    and invar :: "'q \<Rightarrow> bool"
  assumes enq_full: "invar q \<Longrightarrow> room q = 0 \<Longrightarrow> enq q x = (False, q)"
    and enq_room: "invar q \<Longrightarrow> 0 < room q \<Longrightarrow> fst (enq q x)"
    and contents_enq: "invar q \<Longrightarrow> 0 < room q \<Longrightarrow> contents (snd (enq q x)) = contents q @ [x]"
    and room_enq: "invar q \<Longrightarrow> 0 < room q \<Longrightarrow> room (snd (enq q x)) = room q - 1"
    and deq_empty: "invar q \<Longrightarrow> contents q = [] \<Longrightarrow> deq q = (None, q)"
    and deq_first: "invar q \<Longrightarrow> contents q = x # xs \<Longrightarrow> fst (deq q) = Some x"
    and contents_deq: "invar q \<Longrightarrow> contents q = x # xs \<Longrightarrow> contents (snd (deq q)) = xs"
    and room_deq: "invar q \<Longrightarrow> contents q = x # xs \<Longrightarrow> room (snd (deq q)) = Suc (room q)"
    and invar_enq: "invar q \<Longrightarrow> invar (snd (enq q x))"
    and invar_deq: "invar q \<Longrightarrow> invar (snd (deq q))"
begin

lemma enq_room_pair:
  "invar q \<Longrightarrow> 0 < room q \<Longrightarrow> \<exists>q'. enq q x = (True, q') \<and> invar q' \<and>
     contents q' = contents q @ [x] \<and> room q' = room q - 1"
  using enq_room [of q x] contents_enq [of q x] room_enq [of q x] invar_enq [of q x]
  by (cases "enq q x") auto

lemma deq_pair:
  "invar q \<Longrightarrow> contents q = x # xs \<Longrightarrow> \<exists>q'. deq q = (Some x, q') \<and> invar q' \<and>
     contents q' = xs \<and> room q' = Suc (room q)"
  using deq_first [of q x xs] contents_deq [of q x xs] room_deq [of q x xs] invar_deq [of q]
  by (cases "deq q") auto

text \<open>What does not fit is refused byte by byte; what fits is appended in order.\<close>

lemma insert_many_spec:
  assumes "invar q"
  shows "\<exists>q'. insert_many enq q xs =
           (replicate (min (length xs) (room q)) True @ replicate (length xs - room q) False, q')
         \<and> invar q' \<and> contents q' = contents q @ take (room q) xs"
  using assms
proof (induction xs arbitrary: q)
  case Nil
  then show ?case by simp
next
  case (Cons x xs)
  show ?case
  proof (cases "room q = 0")
    case True
    with Cons.prems have "enq q x = (False, q)" by (simp add: enq_full)
    with Cons.IH [OF Cons.prems] True show ?thesis by auto
  next
    case False
    then obtain q1 where q1: "enq q x = (True, q1)" "invar q1"
      "contents q1 = contents q @ [x]" "room q1 = room q - 1"
      using enq_room_pair [of q x] Cons.prems by auto
    from False obtain m where m: "room q = Suc m" by (cases "room q") auto
    from Cons.IH [OF q1(2)] q1 m show ?thesis by auto
  qed
qed

lemma remove_many_spec:
  assumes "invar q"
  shows "\<exists>q'. remove_many deq n q = (take n (contents q), q')
         \<and> invar q' \<and> contents q' = drop n (contents q)"
  using assms
proof (induction n arbitrary: q)
  case 0
  then show ?case by simp
next
  case (Suc n)
  show ?case
  proof (cases "contents q")
    case Nil
    with Suc.prems show ?thesis by (simp add: deq_empty)
  next
    case (Cons x xs)
    then obtain q1 where "deq q = (Some x, q1)" "invar q1" "contents q1 = xs"
      using deq_pair [OF Suc.prems] by auto
    with Suc.IH [of q1] Cons show ?thesis by auto
  qed
qed

text \<open>Bytes come out in the order they went in, none lost, none invented.\<close>

lemma fifo_order:
  assumes "invar q" and "contents q = []" and "length xs \<le> room q"
    and "insert_many enq q xs = (rs, q1)"
  shows "list_all (\<lambda>r. r) rs \<and> fst (remove_many deq (length xs) q1) = xs"
proof -
  obtain q' where q': "insert_many enq q xs =
      (replicate (min (length xs) (room q)) True @ replicate (length xs - room q) False, q')"
    "invar q'" "contents q' = take (room q) xs"
    using insert_many_spec [OF assms(1), of xs] assms(2) by auto
  with assms(3,4) have "rs = replicate (length xs) True" "q1 = q'" by auto
  moreover have "fst (remove_many deq (length xs) q') = take (length xs) (contents q')"
    using remove_many_spec [OF q'(2), of "length xs"] by auto
  ultimately show ?thesis using q'(3) assms(3) by (auto simp: list_all_iff)
qed

end

text \<open>A queue whose newest element can be taken back and that can be emptied.\<close>

locale editable_fifo = bounded_fifo enq deq contents room invar
  for enq :: "'q \<Rightarrow> 'a \<Rightarrow> bool \<times> 'q" and deq contents room invar +
  fixes unenq :: "'q \<Rightarrow> 'a option \<times> 'q"
    and clear :: "'q \<Rightarrow> 'q"
  assumes unenq_empty: "invar q \<Longrightarrow> contents q = [] \<Longrightarrow> unenq q = (None, q)"
    and unenq_last: "invar q \<Longrightarrow> contents q = xs @ [x] \<Longrightarrow> fst (unenq q) = Some x"
    and contents_unenq: "invar q \<Longrightarrow> contents q = xs @ [x] \<Longrightarrow> contents (snd (unenq q)) = xs"
    and room_unenq: "invar q \<Longrightarrow> contents q = xs @ [x] \<Longrightarrow> room (snd (unenq q)) = Suc (room q)"
    and invar_unenq: "invar q \<Longrightarrow> invar (snd (unenq q))"
    and contents_clear: "invar q \<Longrightarrow> contents (clear q) = []"
    and room_clear: "invar q \<Longrightarrow> room (clear q) = room q + length (contents q)"
    and invar_clear: "invar q \<Longrightarrow> invar (clear q)"
begin

lemma unenq_pair:
  "invar q \<Longrightarrow> contents q = xs @ [x] \<Longrightarrow> \<exists>q'. unenq q = (Some x, q') \<and> invar q' \<and>
     contents q' = xs \<and> room q' = Suc (room q)"
  using unenq_last [of q xs x] contents_unenq [of q xs x] room_unenq [of q xs x] invar_unenq [of q]
  by (cases "unenq q") auto

text \<open>Typing a byte and rubbing it out leaves the line as it was.\<close>

lemma unenq_enq:
  assumes "invar q" and "0 < room q"
  shows "fst (unenq (snd (enq q x))) = Some x"
    and "contents (snd (unenq (snd (enq q x)))) = contents q"
    and "room (snd (unenq (snd (enq q x)))) = room q"
proof -
  obtain q1 where q1: "enq q x = (True, q1)" "invar q1" "contents q1 = contents q @ [x]"
    "room q1 = room q - 1"
    using enq_room_pair [OF assms] by auto
  obtain q2 where q2: "unenq q1 = (Some x, q2)" "contents q2 = contents q" "room q2 = Suc (room q1)"
    using unenq_pair [OF q1(2,3)] by auto
  from q1 q2 assms(2) show "fst (unenq (snd (enq q x))) = Some x"
    and "contents (snd (unenq (snd (enq q x)))) = contents q"
    and "room (snd (unenq (snd (enq q x)))) = room q"
    by auto
qed

lemma clear_then_fill:
  assumes "invar q" and "length xs \<le> room q + length (contents q)"
    and "insert_many enq (clear q) xs = (rs, q1)"
  shows "list_all (\<lambda>r. r) rs \<and> fst (remove_many deq (length xs) q1) = xs"
  using fifo_order [of "clear q" xs rs q1] assms
  by (simp add: invar_clear contents_clear room_clear)

end

subsection \<open>The ring buffer is such a queue\<close>

definition q_wf :: "s_queue \<Rightarrow> bool" where
  "q_wf q \<longleftrightarrow> 0 < q_size q \<and> 0 \<le> q_count q \<and> q_count q \<le> q_size q \<and>
     q_base q \<le> q_head q \<and> q_head q < q_base q + q_size q \<and>
     q_tail q = q_base q + (q_head q - q_base q + q_count q) mod q_size q"

definition q_list :: "s_queue \<Rightarrow> u8 list" where
  "q_list q = map (\<lambda>k. q_mem q (q_base q + (q_head q - q_base q + int k) mod q_size q))
     [0..<nat (q_count q)]"

definition q_room :: "s_queue \<Rightarrow> nat" where
  "q_room q = nat (q_size q - q_count q)"

text \<open>One step around the ring, as the C code wraps its pointers.\<close>

lemma ring_succ:
  fixes k n :: int
  assumes "0 < n" "0 \<le> k"
  shows "(if k mod n + 1 \<ge> n then 0 else k mod n + 1) = (k + 1) mod n"
proof -
  have r: "0 \<le> k mod n" "k mod n < n" using assms by auto
  have "(k + 1) mod n = (k mod n + 1) mod n" by (simp add: mod_add_left_eq)
  also have "\<dots> = (if k mod n + 1 \<ge> n then 0 else k mod n + 1)"
  proof (cases "k mod n + 1 \<ge> n")
    case True
    with r have "k mod n + 1 = n" by linarith
    then show ?thesis by simp
  next
    case False
    with r show ?thesis by simp
  qed
  finally show ?thesis by simp
qed

lemma ring_pred:
  fixes k n :: int
  assumes "0 < n" "0 < k"
  shows "(if k mod n - 1 < 0 then n - 1 else k mod n - 1) = (k - 1) mod n"
proof -
  have r: "0 \<le> k mod n" "k mod n < n" using assms by auto
  have "(k - 1) mod n = (k mod n - 1) mod n" by (simp add: mod_diff_left_eq)
  also have "\<dots> = (if k mod n - 1 < 0 then n - 1 else k mod n - 1)"
  proof (cases "k mod n = 0")
    case True
    with assms show ?thesis by (simp add: zmod_minus1)
  next
    case False
    with r show ?thesis by simp
  qed
  finally show ?thesis by simp
qed

text \<open>Two different distances below the size are different places of the ring.\<close>

lemma ring_inj:
  fixes a j k n :: int
  assumes "0 \<le> j" "j < n" "0 \<le> k" "k < n" "(a + j) mod n = (a + k) mod n"
  shows "j = k"
proof -
  from assms(5) have "n dvd (j - k)"
    by (metis add_diff_cancel_left mod_eq_dvd_iff)
  moreover have "\<bar>j - k\<bar> < n" using assms(1-4) by linarith
  ultimately have "j - k = 0" using zdvd_imp_le [of n "\<bar>j - k\<bar>"] by fastforce
  then show ?thesis by simp
qed

lemma length_q_list [simp]: "length (q_list q) = nat (q_count q)"
  by (simp add: q_list_def)

lemma q_list_empty: "q_wf q \<Longrightarrow> q_list q = [] \<longleftrightarrow> q_count q = 0"
  by (auto simp: q_list_def q_wf_def)

lemma q_room_0: "q_wf q \<Longrightarrow> q_room q = 0 \<longleftrightarrow> q_count q = q_size q"
  by (auto simp: q_room_def q_wf_def)

lemma insq_step:
  assumes wf: "q_wf q" and room: "0 < q_room q"
  shows "fst (insq q c)" and "q_wf (snd (insq q c))"
    and "q_list (snd (insq q c)) = q_list q @ [c]"
    and "q_room (snd (insq q c)) = q_room q - 1"
proof -
  define d where "d = q_head q - q_base q"
  define n where "n = q_count q"
  define z where "z = q_size q"
  have b: "0 < z" "0 \<le> n" "n < z" "0 \<le> d" "d < z" "q_tail q = q_base q + (d + n) mod z"
    using wf room by (auto simp: q_wf_def q_room_def d_def n_def z_def)
  have nf: "q_count q \<noteq> q_size q" using b by (simp add: n_def z_def)
  have wrap: "(if q_tail q + 1 \<ge> q_base q + q_size q then q_base q else q_tail q + 1)
      = q_base q + (d + (n + 1)) mod z"
    using ring_succ [of z "d + n"] b by (auto simp: z_def add.assoc split: if_splits)
  have q': "snd (insq q c) = q\<lparr>q_mem := (q_mem q)(q_tail q := c), q_count := n + 1,
      q_tail := q_base q + (d + (n + 1)) mod z\<rparr>"
    using nf wrap by (auto simp: insq_def Let_def n_def)
  show "fst (insq q c)" using nf by (simp add: insq_def Let_def)
  show "q_wf (snd (insq q c))" using b wf by (auto simp: q' q_wf_def d_def n_def z_def)
  show "q_room (snd (insq q c)) = q_room q - 1"
    using b by (auto simp: q' q_room_def n_def z_def)
  have old: "(d + int k) mod z \<noteq> (d + n) mod z" if "k < nat n" for k
  proof
    assume eq: "(d + int k) mod z = (d + n) mod z"
    have "int k = n"
      by (rule ring_inj [where a = d and n = z]) (use that b eq in linarith)+
    with that show False by simp
  qed
  show "q_list (snd (insq q c)) = q_list q @ [c]"
  proof (rule nth_equalityI)
    show "length (q_list (snd (insq q c))) = length (q_list q @ [c])"
      using b by (simp add: q' n_def)
  next
    fix k assume "k < length (q_list (snd (insq q c)))"
    then have k: "k < nat (n + 1)" by (simp add: q')
    show "q_list (snd (insq q c)) ! k = (q_list q @ [c]) ! k"
    proof (cases "k < nat n")
      case True
      with k old [OF True] b(6) show ?thesis
        by (simp add: q' q_list_def nth_append d_def n_def z_def)
    next
      case False
      with k b have kn: "k = nat n" by linarith
      then have "int k = n" using b by simp
      with b have "q_list (snd (insq q c)) ! k = c"
        using k by (simp add: q' q_list_def d_def n_def z_def)
      moreover have "(q_list q @ [c]) ! k = c"
        using kn by (simp add: nth_append n_def)
      ultimately show ?thesis by simp
    qed
  qed
qed

lemma remq_step:
  assumes wf: "q_wf q" and ne: "q_list q = x # xs"
  shows "fst (remq q) = Some x" and "q_wf (snd (remq q))"
    and "q_list (snd (remq q)) = xs" and "q_room (snd (remq q)) = Suc (q_room q)"
proof -
  define d where "d = q_head q - q_base q"
  define n where "n = q_count q"
  define z where "z = q_size q"
  have b: "0 < z" "0 < n" "n \<le> z" "0 \<le> d" "d < z" "q_tail q = q_base q + (d + n) mod z"
    using wf ne q_list_empty [OF wf] by (auto simp: q_wf_def d_def n_def z_def)
  define d' where "d' = (d + 1) mod z"
  have wrap: "(if q_head q + 1 \<ge> q_base q + q_size q then q_base q else q_head q + 1)
      = q_base q + d'"
    using ring_succ [of z d] b by (auto simp: d'_def z_def d_def split: if_splits)
  have q': "snd (remq q) = q\<lparr>q_count := n - 1, q_head := q_base q + d'\<rparr>"
    using b wrap by (auto simp: remq_def Let_def n_def)
  have d': "0 \<le> d'" "d' < z" using b by (auto simp: d'_def)
  have shift: "(d' + i) mod z = (d + (i + 1)) mod z" for i
    unfolding d'_def by (metis add.assoc add.commute mod_add_left_eq)
  show "q_wf (snd (remq q))"
    using b d' wf shift [of "n - 1"] by (simp add: q' q_wf_def d_def n_def z_def)
  show "q_room (snd (remq q)) = Suc (q_room q)"
    using b by (auto simp: q' q_room_def n_def z_def)
  have x: "x = q_mem q (q_head q)"
    using arg_cong [OF ne, of "\<lambda>l. l ! 0"] b by (simp add: q_list_def n_def d_def z_def)
  then show "fst (remq q) = Some x" using b by (simp add: remq_def Let_def n_def)
  show "q_list (snd (remq q)) = xs"
  proof (rule nth_equalityI)
    show "length (q_list (snd (remq q))) = length xs"
      using arg_cong [OF ne, of length] b by (simp add: q' n_def)
  next
    fix k assume "k < length (q_list (snd (remq q)))"
    then have k: "k < nat (n - 1)" by (simp add: q')
    have "xs ! k = q_list q ! Suc k" by (simp add: ne)
    with k shift [of "int k"] b show "q_list (snd (remq q)) ! k = xs ! k"
      by (simp add: q' q_list_def d_def n_def z_def ac_simps)
  qed
qed

lemma uninsq_step:
  assumes wf: "q_wf q" and ne: "q_list q = xs @ [x]"
  shows "fst (uninsq q) = Some x" and "q_wf (snd (uninsq q))"
    and "q_list (snd (uninsq q)) = xs" and "q_room (snd (uninsq q)) = Suc (q_room q)"
proof -
  define d where "d = q_head q - q_base q"
  define n where "n = q_count q"
  define z where "z = q_size q"
  have b: "0 < z" "0 < n" "n \<le> z" "0 \<le> d" "d < z" "q_tail q = q_base q + (d + n) mod z"
    using wf ne q_list_empty [OF wf] by (auto simp: q_wf_def d_def n_def z_def)
  have wrap: "(if q_tail q - 1 < q_base q then q_base q + q_size q - 1 else q_tail q - 1)
      = q_base q + (d + (n - 1)) mod z"
    using ring_pred [of z "d + n"] b by (auto simp: z_def algebra_simps split: if_splits)
  have q': "snd (uninsq q) = q\<lparr>q_count := n - 1, q_tail := q_base q + (d + (n - 1)) mod z\<rparr>"
    using b wrap by (auto simp: uninsq_def Let_def n_def)
  show "q_wf (snd (uninsq q))" using b wf by (simp add: q' q_wf_def d_def n_def z_def)
  show "q_room (snd (uninsq q)) = Suc (q_room q)"
    using b by (auto simp: q' q_room_def n_def z_def)
  have len: "length xs = nat (n - 1)"
    using arg_cong [OF ne, of length] b by (simp add: n_def)
  have "x = q_list q ! nat (n - 1)" by (simp add: ne len [symmetric])
  then have "x = q_mem q (q_base q + (d + (n - 1)) mod z)"
    using b by (simp add: q_list_def d_def n_def z_def)
  then show "fst (uninsq q) = Some x"
    using b q' by (auto simp: uninsq_def Let_def n_def)
  show "q_list (snd (uninsq q)) = xs"
  proof (rule nth_equalityI)
    show "length (q_list (snd (uninsq q))) = length xs" using len by (simp add: q')
  next
    fix k assume "k < length (q_list (snd (uninsq q)))"
    then have k: "k < nat (n - 1)" by (simp add: q')
    with len have "xs ! k = q_list q ! k" by (simp add: ne nth_append)
    with k show "q_list (snd (uninsq q)) ! k = xs ! k"
      by (simp add: q' q_list_def d_def n_def z_def)
  qed
qed

lemma clrq_step:
  assumes "q_wf q"
  shows "q_wf (clrq q)" and "q_list (clrq q) = []"
    and "q_room (clrq q) = q_room q + length (q_list q)"
  using assms by (auto simp: clrq_def q_wf_def q_list_def q_room_def)

interpretation ttyq: editable_fifo insq remq q_list q_room q_wf uninsq clrq
proof unfold_locales
  fix q :: s_queue and x :: u8 and xs :: "u8 list"
  assume wf: "q_wf q"
  { assume "q_room q = 0" then show "insq q x = (False, q)"
      using wf by (simp add: q_room_0 insq_def) }
  { assume r: "0 < q_room q"
    show "fst (insq q x)" by (rule insq_step [OF wf r])
    show "q_list (snd (insq q x)) = q_list q @ [x]" by (rule insq_step [OF wf r])
    show "q_room (snd (insq q x)) = q_room q - 1" by (rule insq_step [OF wf r]) }
  { assume "q_list q = []"
    then show "remq q = (None, q)" and "uninsq q = (None, q)"
      using wf by (auto simp: q_list_empty remq_def uninsq_def) }
  { assume l: "q_list q = x # xs"
    show "fst (remq q) = Some x" by (rule remq_step [OF wf l])
    show "q_list (snd (remq q)) = xs" by (rule remq_step [OF wf l])
    show "q_room (snd (remq q)) = Suc (q_room q)" by (rule remq_step [OF wf l]) }
  { assume l: "q_list q = xs @ [x]"
    show "fst (uninsq q) = Some x" by (rule uninsq_step [OF wf l])
    show "q_list (snd (uninsq q)) = xs" by (rule uninsq_step [OF wf l])
    show "q_room (snd (uninsq q)) = Suc (q_room q)" by (rule uninsq_step [OF wf l]) }
  show "q_wf (snd (insq q x))"
    using insq_step(2) [OF wf] wf by (cases "q_room q = 0") (auto simp: q_room_0 insq_def)
  show "q_wf (snd (remq q))"
    using remq_step(2) [OF wf] wf by (cases "q_list q") (auto simp: q_list_empty remq_def)
  show "q_wf (snd (uninsq q))"
    using uninsq_step(2) [OF wf] wf
    by (cases "q_list q" rule: rev_cases) (auto simp: q_list_empty uninsq_def)
  show "q_list (clrq q) = []" "q_room (clrq q) = q_room q + length (q_list q)" "q_wf (clrq q)"
    by (rule clrq_step [OF wf])+
qed

end
