(* ===== verification/KernelState.thy ===== *)
theory KernelState
  imports CharQueue
begin

text \<open>
  The data model of the kernel: the structures and constants of Kernel/include/kernel.h and the
  global tables of Kernel/kdata.c, for the 16-bit little-endian build (Kernel/cpu-z80/cpu.h)
  without CONFIG\_LEVEL\_2, CONFIG\_NET and CONFIG\_BLKBUF\_EXTERNAL.

  A pointer into a table (inoptr, ptptr, bufptr, struct mount *) is the index of the entry;
  a pointer that may be NULL is an option. A table is a function of the index, its length is the
  constant or the \<open>_end\<close> variable the C loops use. Fixed-length arrays inside a structure are
  lists. The current process's \<open>udata\<close> block is the first part of the kernel state record, so
  \<^verbatim>\<open>udata.u_error\<close> reads as \<open>u_error s\<close>. The entries of sysinfo, of the profiling and of the
  LEVEL\_2 fields, and the process names, are left out.
\<close>

subsection \<open>Sizes and limits\<close>

abbreviation (input) UFTSIZE :: nat where "UFTSIZE \<equiv> 10"
abbreviation (input) OFTSIZE :: nat where "OFTSIZE \<equiv> 15"
abbreviation (input) ITABSIZE :: nat where "ITABSIZE \<equiv> 20"
abbreviation (input) NMOUNTS :: nat where "NMOUNTS \<equiv> 4"
abbreviation (input) NSIGS :: nat where "NSIGS \<equiv> 32"
abbreviation (input) BLKSIZE :: nat where "BLKSIZE \<equiv> 512"
abbreviation (input) FILESYS_TABSIZE :: nat where "FILESYS_TABSIZE \<equiv> 50"
abbreviation (input) FILENAME_LEN :: nat where "FILENAME_LEN \<equiv> 30"
abbreviation (input) DIR_LEN :: nat where "DIR_LEN \<equiv> 32"

abbreviation (input) MAXTICKS :: u16 where "MAXTICKS \<equiv> 10"
abbreviation (input) MAXPID :: u16 where "MAXPID \<equiv> 32000"
abbreviation (input) ROOTINODE :: u16 where "ROOTINODE \<equiv> 1"
abbreviation (input) CMAGIC :: u16 where "CMAGIC \<equiv> 24721"
abbreviation (input) SMOUNTED :: u16 where "SMOUNTED \<equiv> 12742"
abbreviation (input) NO_DEVICE :: u16 where "NO_DEVICE \<equiv> 0xFFFF"
abbreviation (input) NO_FILE :: u8 where "NO_FILE \<equiv> 0xFF"
abbreviation (input) NULLBLK :: u16 where "NULLBLK \<equiv> 0xFFFF"
abbreviation (input) BLKMASK :: u16 where "BLKMASK \<equiv> 511"

subsection \<open>Mode bits and flags\<close>

abbreviation (input) OTH_EX :: u16 where "OTH_EX \<equiv> 1"
abbreviation (input) OTH_WR :: u16 where "OTH_WR \<equiv> 2"
abbreviation (input) OTH_RD :: u16 where "OTH_RD \<equiv> 4"
abbreviation (input) MODE_MASK :: u16 where "MODE_MASK \<equiv> 0xFFF"
abbreviation (input) F_MASK :: u16 where "F_MASK \<equiv> 0xF000"
abbreviation (input) F_REG :: u16 where "F_REG \<equiv> 0x8000"
abbreviation (input) F_DIR :: u16 where "F_DIR \<equiv> 0x4000"
abbreviation (input) F_PIPE :: u16 where "F_PIPE \<equiv> 0x1000"
abbreviation (input) F_BDEV :: u16 where "F_BDEV \<equiv> 0x6000"
abbreviation (input) F_CDEV :: u16 where "F_CDEV \<equiv> 0x2000"

text \<open>MODE\_R(x): the file type as the byte that getmode() returns.\<close>

abbreviation (input) MODE_R_REG :: u8 where "MODE_R_REG \<equiv> 0x80"
abbreviation (input) MODE_R_DIR :: u8 where "MODE_R_DIR \<equiv> 0x40"
abbreviation (input) MODE_R_PIPE :: u8 where "MODE_R_PIPE \<equiv> 0x10"
abbreviation (input) MODE_R_BDEV :: u8 where "MODE_R_BDEV \<equiv> 0x60"
abbreviation (input) MODE_R_CDEV :: u8 where "MODE_R_CDEV \<equiv> 0x20"

abbreviation (input) CDIRTY :: u8 where "CDIRTY \<equiv> 0x80"
abbreviation (input) CRDONLY :: u8 where "CRDONLY \<equiv> 0x40"
abbreviation (input) CFLOCK :: u8 where "CFLOCK \<equiv> 0x0F"
abbreviation (input) CFLEX :: u8 where "CFLEX \<equiv> 0x0F"
abbreviation (input) CFMAX :: u8 where "CFMAX \<equiv> 0x0E"

abbreviation (input) FMOD_GO_CLEAN :: u8 where "FMOD_GO_CLEAN \<equiv> 0"
abbreviation (input) FMOD_DIRTY :: u8 where "FMOD_DIRTY \<equiv> 1"
abbreviation (input) FMOD_CLEAN :: u8 where "FMOD_CLEAN \<equiv> 2"
abbreviation (input) MS_RDONLY :: u16 where "MS_RDONLY \<equiv> 1"
abbreviation (input) MS_NOSUID :: u16 where "MS_NOSUID \<equiv> 2"
abbreviation (input) MS_REMOUNT :: u16 where "MS_REMOUNT \<equiv> 128"

abbreviation (input) A_TIME :: u8 where "A_TIME \<equiv> 1"
abbreviation (input) M_TIME :: u8 where "M_TIME \<equiv> 2"
abbreviation (input) C_TIME :: u8 where "C_TIME \<equiv> 4"

abbreviation (input) O_RDONLY :: u16 where "O_RDONLY \<equiv> 0"
abbreviation (input) O_WRONLY :: u16 where "O_WRONLY \<equiv> 1"
abbreviation (input) O_RDWR :: u16 where "O_RDWR \<equiv> 2"
abbreviation (input) O_APPEND :: u16 where "O_APPEND \<equiv> 4"
abbreviation (input) O_SYNC :: u16 where "O_SYNC \<equiv> 8"
abbreviation (input) O_NDELAY :: u16 where "O_NDELAY \<equiv> 16"
abbreviation (input) O_FLOCK :: u16 where "O_FLOCK \<equiv> 128"
abbreviation (input) O_CREAT :: u16 where "O_CREAT \<equiv> 256"
abbreviation (input) O_EXCL :: u16 where "O_EXCL \<equiv> 512"
abbreviation (input) O_TRUNC :: u16 where "O_TRUNC \<equiv> 1024"
abbreviation (input) O_NOCTTY :: u16 where "O_NOCTTY \<equiv> 2048"
abbreviation (input) O_CLOEXEC :: u16 where "O_CLOEXEC \<equiv> 4096"
abbreviation (input) O_BADBITS :: u16 where "O_BADBITS \<equiv> 0xE0C0"

subsection \<open>Error numbers\<close>

abbreviation (input) EPERM :: u16 where "EPERM \<equiv> 1"
abbreviation (input) ENOENT :: u16 where "ENOENT \<equiv> 2"
abbreviation (input) ESRCH :: u16 where "ESRCH \<equiv> 3"
abbreviation (input) EINTR :: u16 where "EINTR \<equiv> 4"
abbreviation (input) EIO :: u16 where "EIO \<equiv> 5"
abbreviation (input) ENXIO :: u16 where "ENXIO \<equiv> 6"
abbreviation (input) EBADF :: u16 where "EBADF \<equiv> 9"
abbreviation (input) ECHILD :: u16 where "ECHILD \<equiv> 10"
abbreviation (input) EAGAIN :: u16 where "EAGAIN \<equiv> 11"
abbreviation (input) ENOMEM :: u16 where "ENOMEM \<equiv> 12"
abbreviation (input) EACCES :: u16 where "EACCES \<equiv> 13"
abbreviation (input) EFAULT :: u16 where "EFAULT \<equiv> 14"
abbreviation (input) ENOTBLK :: u16 where "ENOTBLK \<equiv> 15"
abbreviation (input) EBUSY :: u16 where "EBUSY \<equiv> 16"
abbreviation (input) EEXIST :: u16 where "EEXIST \<equiv> 17"
abbreviation (input) EXDEV :: u16 where "EXDEV \<equiv> 18"
abbreviation (input) ENODEV :: u16 where "ENODEV \<equiv> 19"
abbreviation (input) ENOTDIR :: u16 where "ENOTDIR \<equiv> 20"
abbreviation (input) EISDIR :: u16 where "EISDIR \<equiv> 21"
abbreviation (input) EINVAL :: u16 where "EINVAL \<equiv> 22"
abbreviation (input) ENFILE :: u16 where "ENFILE \<equiv> 23"
abbreviation (input) EMFILE :: u16 where "EMFILE \<equiv> 24"
abbreviation (input) ENOTTY :: u16 where "ENOTTY \<equiv> 25"
abbreviation (input) EFBIG :: u16 where "EFBIG \<equiv> 27"
abbreviation (input) ENOSPC :: u16 where "ENOSPC \<equiv> 28"
abbreviation (input) ESPIPE :: u16 where "ESPIPE \<equiv> 29"
abbreviation (input) EROFS :: u16 where "EROFS \<equiv> 30"
abbreviation (input) EMLINK :: u16 where "EMLINK \<equiv> 31"
abbreviation (input) EPIPE :: u16 where "EPIPE \<equiv> 32"
abbreviation (input) ENOLCK :: u16 where "ENOLCK \<equiv> 35"
abbreviation (input) ENOTEMPTY :: u16 where "ENOTEMPTY \<equiv> 36"
abbreviation (input) ENOSYS :: u16 where "ENOSYS \<equiv> 42"

subsection \<open>Signals\<close>

abbreviation (input) SIGHUP :: nat where "SIGHUP \<equiv> 1"
abbreviation (input) SIGKILL :: nat where "SIGKILL \<equiv> 9"
abbreviation (input) SIGPIPE :: nat where "SIGPIPE \<equiv> 13"
abbreviation (input) SIGALRM :: nat where "SIGALRM \<equiv> 14"
abbreviation (input) SIGCHLD :: nat where "SIGCHLD \<equiv> 17"
abbreviation (input) SIGCONT :: nat where "SIGCONT \<equiv> 18"
abbreviation (input) SIGSTOP :: nat where "SIGSTOP \<equiv> 19"
abbreviation (input) SIGTSTP :: nat where "SIGTSTP \<equiv> 20"
abbreviation (input) SIGTTIN :: nat where "SIGTTIN \<equiv> 21"
abbreviation (input) SIGTTOU :: nat where "SIGTTOU \<equiv> 22"
abbreviation (input) SIGURG :: nat where "SIGURG \<equiv> 23"
abbreviation (input) SIGXFSZ :: nat where "SIGXFSZ \<equiv> 25"
abbreviation (input) SIGWINCH :: nat where "SIGWINCH \<equiv> 28"
abbreviation (input) SIGIO :: nat where "SIGIO \<equiv> 29"

abbreviation (input) SIG_DFL :: u16 where "SIG_DFL \<equiv> 0"
abbreviation (input) SIG_IGN :: u16 where "SIG_IGN \<equiv> 1"

definition sigmask :: "nat \<Rightarrow> u32" where
  "sigmask sig = push_bit sig 1"

subsection \<open>Buffers\<close>

datatype bfstate = BF_FREE | BF_BUSY | BF_SUPERBLOCK

record blkbuf =
  bf_data :: block
  bf_dev :: u16
  bf_blk :: u16
  bf_dirty :: bool
  bf_busy :: bfstate
  bf_time :: u16

subsection \<open>Inodes\<close>

record dinode =
  i_mode :: u16
  i_nlink :: u16
  i_uid :: u16
  i_gid :: u16
  i_size :: u32
  i_atime :: u32
  i_mtime :: u32
  i_ctime :: u32
  i_addr :: "u16 list"

record cinode =
  c_magic :: u16
  c_dev :: u16
  c_num :: u16
  c_node :: dinode
  c_refs :: u8
  c_readers :: u8
  c_writers :: u8
  c_flags :: u8

text \<open>struct direct: an inode number and a name padded with zero bytes to FILENAME\_LEN.\<close>

record direct =
  d_ino :: u16
  d_name :: "u8 list"

subsection \<open>Superblocks, mounts and open files\<close>

record filesys =
  s_mounted :: u16
  s_isize :: u16
  s_fsize :: u16
  s_nfree :: u16
  s_free :: "u16 list"
  s_ninode :: u16
  s_inode :: "u16 list"
  s_fmod :: u8
  s_timeh :: u8
  s_time :: u32
  s_tfree :: u16
  s_tinode :: u16
  s_mntpt :: "nat option"

record mount =
  m_dev :: u16
  m_flags :: u16
  m_fs :: filesys

record oft =
  o_ptr :: u32
  o_inode :: "nat option"
  o_access :: u8
  o_refs :: u8

subsection \<open>Processes\<close>

datatype pstatus = P_EMPTY | P_RUNNING | P_READY | P_SLEEP | P_STOPPED | P_FORKING | P_ZOMBIE | P_NOSLEEP

text \<open>The values of the P\_ constants, for the source's range tests.\<close>

fun pnum :: "pstatus \<Rightarrow> nat" where
  "pnum P_EMPTY = 0"
| "pnum P_RUNNING = 1"
| "pnum P_READY = 2"
| "pnum P_SLEEP = 3"
| "pnum P_STOPPED = 4"
| "pnum P_FORKING = 5"
| "pnum P_ZOMBIE = 6"
| "pnum P_NOSLEEP = 7"

text \<open>
  The address a process waits on (\<^verbatim>\<open>void *p_wait\<close>). Sleeping and waking use the address of a kernel
  object only as its identity, so an event names the object: NULL, a process table entry, an
  inode, an inode's flags byte, or the parts of a terminal.
\<close>

datatype event =
    EvNull
  | EvProc nat
  | EvInode nat
  | EvInodeFlags nat
  | EvTtyq nat
  | EvTtyqCount nat
  | EvTtyCflag nat
  | EvTty nat

record p_tab =
  p_status :: pstatus
  p_tty :: u8
  p_pid :: u16
  p_uid :: u16
  p_pptr :: nat
  p_alarm :: u16
  p_exitval :: u16
  p_wait :: event
  p_page :: u16
  p_page2 :: u16
  p_priority :: u16
  p_pending :: u32
  p_ignored :: u32
  p_held :: u32
  p_waitno :: u16
  p_timeout :: u16
  p_pgrp :: u16
  p_nice :: u8
  p_event :: u8
  p_top :: u16

subsection \<open>Terminals\<close>

text \<open>struct termios, winsize and tty of Kernel/include/tty.h; the twelve control characters are a list.\<close>

record termios =
  c_iflag :: u16
  c_oflag :: u16
  c_cflag :: u16
  c_lflag :: u16
  c_cc :: "u8 list"

record winsize =
  ws_row :: u16
  ws_col :: u16
  ws_xpixel :: u16
  ws_ypixel :: u16

record tty =
  t_flag :: u8
  t_users :: u8
  t_pgrp :: u16
  t_termios :: termios
  t_winsize :: winsize

subsection \<open>Platform\<close>

text \<open>
  What the platform directory of a port supplies: which device numbers exist, how the device
  switch (dev\_tab) answers, and addresses fixed by the linker. Block transfers move whole
  blocks between a buffer and the medium and either succeed or fail; the other driver entries
  are known by the value they return, the error they leave in udata.u\_error (0 for none) and,
  for a character read, the bytes they deliver.
\<close>

record platform =
  validdev :: "u16 \<Rightarrow> bool"
  blk_rd_ok :: "u16 \<Rightarrow> u16 \<Rightarrow> bool"
  blk_wr_ok :: "u16 \<Rightarrow> u16 \<Rightarrow> bool"
  drv_open :: "u16 \<Rightarrow> u16 \<Rightarrow> u16 \<times> u16"
  drv_close :: "u16 \<Rightarrow> u16 \<times> u16"
  drv_ioctl :: "u16 \<Rightarrow> u16 \<Rightarrow> u16 \<Rightarrow> u16 \<times> u16"
  drv_cread :: "u16 \<Rightarrow> u8 \<Rightarrow> u16 \<Rightarrow> u8 list \<times> u16 \<times> u16"
  drv_cwrite :: "u16 \<Rightarrow> u8 \<Rightarrow> u8 list \<Rightarrow> u16 \<times> u16"
  itab_addr :: u16
  curentry_addr :: u16
  progbase :: u16
  num_dev_tty :: nat

subsection \<open>The kernel state\<close>

record u_data =
  u_ptab :: nat
  u_page :: u16
  u_page2 :: u16
  u_insys :: bool
  u_callno :: u8
  u_syscall_sp :: u16
  u_error :: u16
  u_ininterrupt :: bool
  u_cursig :: u8
  u_argn :: u16
  u_argn1 :: u16
  u_argn2 :: u16
  u_argn3 :: u16
  u_top :: u16
  u_break :: u16
  u_sigvec :: "nat \<Rightarrow> u16"
  u_base :: u16
  u_count :: u16
  u_offset :: u32
  u_buf :: "nat option"
  u_sysio :: bool
  u_mask :: u16
  u_gid :: u16
  u_euid :: u16
  u_egid :: u16
  u_utime :: u32
  u_stime :: u32
  u_cutime :: u32
  u_cstime :: u32
  u_time :: u32
  u_files :: "nat \<Rightarrow> u8"
  u_cloexec :: u16
  u_cwd :: "nat option"
  u_root :: "nat option"
  u_rename :: "nat option"
  u_ctty :: "nat option"
  u_block :: u16
  u_blkoff :: u16
  u_nblock :: u16

text \<open>The scheduler and clock part of kdata.c.\<close>

record kproc = u_data +
  ptab :: "nat \<Rightarrow> p_tab"
  ptab_end :: nat
  nready :: u8
  nproc :: u16
  waitno :: u16
  nextpid :: u16
  getproc_nextp :: nat
  runticks :: u16
  inswap :: bool
  inint :: bool
  need_resched :: bool
  ticks_this_dsecond :: u8
  ticks_per_dsecond :: u8
  ticks :: u32
  tod_low :: u32
  tod_high :: u32
  tod_deci :: u8
  utick :: u8
  loadavg :: "(u8 \<times> u16) list"

text \<open>
  The storage part: the buffer pool and the media behind it, the inode, mount and open file
  tables, the two memories that I/O copies to and from, and the terminals with their input queues and
  what has been sent to them (the newest last).
\<close>

record kst = kproc +
  plat :: platform
  bufpool :: "nat \<Rightarrow> blkbuf"
  nbufs :: nat
  bufclock :: u16
  disk :: "u16 \<Rightarrow> u16 \<Rightarrow> block"
  i_tab :: "nat \<Rightarrow> cinode"
  fs_tab :: "nat \<Rightarrow> mount"
  of_tab :: "nat \<Rightarrow> oft"
  root_dev :: u16
  umem :: "u16 \<Rightarrow> u8"
  kmem :: "u16 \<Rightarrow> u8"
  ttydata :: "nat \<Rightarrow> tty"
  ttyinq :: "nat \<Rightarrow> s_queue"
  ttyout :: "(nat \<times> u8) list"

text \<open>The table entries, read and written in place as \<^verbatim>\<open>p->field\<close> does.\<close>

definition upd_p :: "nat \<Rightarrow> (p_tab \<Rightarrow> p_tab) \<Rightarrow> kst \<Rightarrow> kst" where
  "upd_p p f s = s\<lparr>ptab := (ptab s)(p := f (ptab s p))\<rparr>"

definition upd_b :: "nat \<Rightarrow> (blkbuf \<Rightarrow> blkbuf) \<Rightarrow> kst \<Rightarrow> kst" where
  "upd_b b f s = s\<lparr>bufpool := (bufpool s)(b := f (bufpool s b))\<rparr>"

definition upd_i :: "nat \<Rightarrow> (cinode \<Rightarrow> cinode) \<Rightarrow> kst \<Rightarrow> kst" where
  "upd_i i f s = s\<lparr>i_tab := (i_tab s)(i := f (i_tab s i))\<rparr>"

definition upd_node :: "nat \<Rightarrow> (dinode \<Rightarrow> dinode) \<Rightarrow> kst \<Rightarrow> kst" where
  "upd_node i f s = upd_i i (\<lambda>c. c\<lparr>c_node := f (c_node c)\<rparr>) s"

definition upd_fs :: "nat \<Rightarrow> (filesys \<Rightarrow> filesys) \<Rightarrow> kst \<Rightarrow> kst" where
  "upd_fs m f s = s\<lparr>fs_tab := (fs_tab s)(m := (fs_tab s m)\<lparr>m_fs := f (m_fs (fs_tab s m))\<rparr>)\<rparr>"

definition upd_t :: "nat \<Rightarrow> (tty \<Rightarrow> tty) \<Rightarrow> kst \<Rightarrow> kst" where
  "upd_t j f s = s\<lparr>ttydata := (ttydata s)(j := f (ttydata s j))\<rparr>"

definition upd_o :: "nat \<Rightarrow> (oft \<Rightarrow> oft) \<Rightarrow> kst \<Rightarrow> kst" where
  "upd_o j f s = s\<lparr>of_tab := (of_tab s)(j := f (of_tab s j))\<rparr>"

text \<open>The current process's own entry.\<close>

abbreviation self :: "kst \<Rightarrow> p_tab" where
  "self s \<equiv> ptab s (u_ptab s)"

end
