(* ===== verification/Timer.thy ===== *)
theory Timer
  imports KernelState
begin

text \<open>
  Kernel/timer.c: the 16-bit tick timers that drivers use for timeouts and the 64-bit time of
  day, kept as two 32-bit words. The software clock (no CONFIG\_RTC) advances the time of day on
  every tenth call; with a real-time clock the seconds counter of the chip is followed instead.
\<close>

text \<open>ticks.h.low: the low half of the 32-bit tick count (little-endian union).\<close>

definition ticks_low :: "kst \<Rightarrow> u16" where
  "ticks_low s = ucast (ticks s)"

definition set_timer_duration :: "u16 \<Rightarrow> kst \<Rightarrow> u16" where
  "set_timer_duration duration s = duration + ticks_low s"

definition timer_expired :: "u16 \<Rightarrow> kst \<Rightarrow> bool" where
  "timer_expired timer_val s \<longleftrightarrow> (timer_val - ticks_low s) AND 0x8000 \<noteq> 0"

definition rdtime :: "kst \<Rightarrow> u32 \<times> u32" where
  "rdtime s = (tod_low s, tod_high s)"

definition rdtime32 :: "kst \<Rightarrow> u32" where
  "rdtime32 s = tod_low s"

definition wrtime :: "u32 \<times> u32 \<Rightarrow> kst \<Rightarrow> kst" where
  "wrtime t s = s\<lparr>tod_low := fst t, tod_high := snd t\<rparr>"

definition updatetod :: "kst \<Rightarrow> kst" where
  "updatetod s =
     (let s = s\<lparr>tod_deci := tod_deci s + 1\<rparr> in
      if tod_deci s \<noteq> 10 then s
      else
        let s = s\<lparr>tod_deci := 0\<rparr>;
            s = s\<lparr>tod_low := tod_low s + 1\<rparr>
        in if tod_low s = 0 then s\<lparr>tod_high := tod_high s + 1\<rparr> else s)"

text \<open>
  The CONFIG\_RTC version without CONFIG\_RTC\_INTERVAL: \<open>rtcnew\<close> is what the platform's
  rtc\_secs() reads, \<open>rtcsec\<close> the value seen last; the new value of \<open>rtcsec\<close> is returned. The
  local \<open>slide\<close> is an int8\_t; in \<^verbatim>\<open>tod.low < slide\<close> it is converted to 32 bits unsigned.
\<close>

definition updatetod_rtc :: "u8 \<Rightarrow> u8 \<Rightarrow> kst \<Rightarrow> u8 \<times> kst" where
  "updatetod_rtc rtcnew rtcsec s =
     (if rtcnew = rtcsec then (rtcsec, s)
      else
        let slide = rtcnew - rtcsec;
            rtcsec = rtcnew;
            slide = (if sint slide < 0 then slide + 60 else slide);
            s = s\<lparr>tod_low := tod_low s + scast slide\<rparr>;
            s = (if tod_low s < scast slide then s\<lparr>tod_high := tod_high s + 1\<rparr> else s)
        in (rtcsec, s))"

definition inittod :: "u8 \<Rightarrow> u8" where
  "inittod rtcnew = rtcnew"

subsection \<open>Timers\<close>

lemma bit15_iff: "(x :: u16) AND 0x8000 \<noteq> 0 \<longleftrightarrow> 0x8000 \<le> unat x"
proof -
  have "(0x8000 :: u16) = 2 ^ 15" by simp
  then have "x AND 0x8000 = 0 \<longleftrightarrow> \<not> bit x 15"
    by (simp only: and_exp_eq_0_iff_not_bit)
  moreover have "bit x 15 \<longleftrightarrow> 0x8000 \<le> unat x"
  proof -
    have "bit x 15 \<longleftrightarrow> odd (unat x div 2 ^ 15)"
    proof -
      have "bit x 15 \<longleftrightarrow> bit (unat x) 15" by (simp add: bit_unsigned_iff)
      also have "\<dots> \<longleftrightarrow> odd (unat x div 2 ^ 15)" by (simp only: bit_iff_odd)
      finally show ?thesis .
    qed
    moreover have "unat x < 2 ^ 16" using unsigned_less [of x] by simp
    then have "unat x div 2 ^ 15 < 2" by (simp add: div_less_iff_less_mult)
    then have "unat x div 2 ^ 15 = 0 \<or> unat x div 2 ^ 15 = 1" by auto
    then have "odd (unat x div 2 ^ 15) \<longleftrightarrow> 0x8000 \<le> unat x"
      by (auto simp: div_eq_0_iff)
    ultimately show ?thesis by simp
  qed
  ultimately show ?thesis by simp
qed

lemma timer_expired_iff:
  "timer_expired v s \<longleftrightarrow> 0x8000 \<le> unat (v - ticks_low s)"
  by (simp add: timer_expired_def bit15_iff)

lemma unat_sub16:
  "unat (x - y :: u16) = (if unat y \<le> unat x then unat x - unat y else 2 ^ 16 + unat x - unat y)"
proof -
  have "unat x < 2 ^ 16" "unat y < 2 ^ 16" using u16_bound by simp_all
  then show ?thesis
    by (auto simp: unat_sub_if')
qed

text \<open>
  A timer set for \<open>d < 0x8000\<close> ticks runs for those \<open>d\<close> ticks and has expired during the
  \<open>0x8000\<close> ticks after that, wherever the 16-bit counter wraps in between.
\<close>

lemma timer_window:
  assumes d: "unat d < 0x8000"
    and now: "ticks_low s' = ticks_low s + of_nat k"
  shows "k \<le> unat d \<Longrightarrow> \<not> timer_expired (set_timer_duration d s) s'"
    and "unat d < k \<Longrightarrow> k \<le> unat d + 0x8000 \<Longrightarrow> timer_expired (set_timer_duration d s) s'"
proof -
  have diff: "set_timer_duration d s - ticks_low s' = d - of_nat k"
    by (simp add: set_timer_duration_def now)
  { assume "k \<le> unat d"
    moreover from this d have "unat (of_nat k :: u16) = k" by (simp add: unat_of_nat)
    ultimately show "\<not> timer_expired (set_timer_duration d s) s'"
      using d by (simp add: timer_expired_iff diff unat_sub16) }
  { assume k: "unat d < k" "k \<le> unat d + 0x8000"
    with d have "unat (of_nat k :: u16) = k" by (simp add: unat_of_nat)
    with k d show "timer_expired (set_timer_duration d s) s'"
      by (simp add: timer_expired_iff diff unat_sub16) }
qed

subsection \<open>Time of day\<close>

text \<open>The two halves as one 64-bit count of seconds.\<close>

definition tod_secs :: "kst \<Rightarrow> nat" where
  "tod_secs s = unat (tod_high s) * 2 ^ 32 + unat (tod_low s)"

lemma unat_top:
  assumes "(w :: u32) + 1 = 0" shows "unat w = 2 ^ 32 - 1"
proof -
  from assms have "w = 0xFFFFFFFF" by (simp add: add_eq_0_iff2)
  then show ?thesis by simp
qed

lemma updatetod_ticks:
  assumes "tod_deci s \<noteq> 9"
  shows "tod_deci (updatetod s) = tod_deci s + 1" and "tod_secs (updatetod s) = tod_secs s"
proof -
  from assms have "tod_deci s + 1 \<noteq> 10"
    by (metis add_diff_cancel diff_numeral_special(9) eq_diff_eq numeral_plus_one semiring_norm(5) semiring_norm(8))
  then show "tod_deci (updatetod s) = tod_deci s + 1" and "tod_secs (updatetod s) = tod_secs s"
    by (simp_all add: updatetod_def Let_def tod_secs_def)
qed

lemma updatetod_second:
  assumes "tod_deci s = 9"
  shows "tod_deci (updatetod s) = 0"
    and "tod_secs (updatetod s) = (tod_secs s + 1) mod 2 ^ 64"
proof -
  show "tod_deci (updatetod s) = 0" using assms by (simp add: updatetod_def Let_def)
  have b: "unat (tod_low s) < 2 ^ 32" "unat (tod_high s) < 2 ^ 32"
    using u32_bound by simp_all
  have s': "updatetod s = (if tod_low s + 1 = 0
      then s\<lparr>tod_deci := 0, tod_low := 0, tod_high := tod_high s + 1\<rparr>
      else s\<lparr>tod_deci := 0, tod_low := tod_low s + 1\<rparr>)"
    using assms by (simp add: updatetod_def Let_def)
  show "tod_secs (updatetod s) = (tod_secs s + 1) mod 2 ^ 64"
  proof (cases "tod_low s + 1 = 0")
    case False
    have "Suc (unat (tod_low s)) < 2 ^ 32"
      using False unat_inc [of "tod_low s"] u32_bound [of "tod_low s + 1"] by simp
    then have "unat (tod_high s) * 2 ^ 32 + Suc (unat (tod_low s)) < 2 ^ 64"
      using b(2) by simp
    then have "(tod_secs s + 1) mod 2 ^ 64 = unat (tod_high s) * 2 ^ 32 + Suc (unat (tod_low s))"
      by (simp add: tod_secs_def)
    with False show ?thesis by (simp add: s' tod_secs_def unat_inc)
  next
    case True
    then have low: "unat (tod_low s) = 2 ^ 32 - 1"
      by (rule unat_top)
    show ?thesis
    proof (cases "tod_high s + 1 = 0")
      case True
      then have "unat (tod_high s) = 2 ^ 32 - 1"
        by (rule unat_top)
      with low True \<open>tod_low s + 1 = 0\<close> show ?thesis by (simp add: s' tod_secs_def)
    next
      case False
      with b have "Suc (unat (tod_high s)) < 2 ^ 32"
        using unat_inc [of "tod_high s"] u32_bound [of "tod_high s + 1"] by simp
      with low False \<open>tod_low s + 1 = 0\<close> show ?thesis
        by (simp add: s' tod_secs_def unat_inc)
    qed
  qed
qed

text \<open>
  Ten calls, wherever the decisecond counter stands below 10, make exactly one second, with
  the carry from the low word to the high word.
\<close>

lemma updatetod_ten:
  assumes "unat (tod_deci s) < 10"
  shows "tod_secs ((updatetod ^^ 10) s) = (tod_secs s + 1) mod 2 ^ 64"
    and "tod_deci ((updatetod ^^ 10) s) = tod_deci s"
proof -
  have run: "k + unat (tod_deci t) < 10 \<Longrightarrow> tod_secs ((updatetod ^^ k) t) = tod_secs t \<and>
      tod_deci ((updatetod ^^ k) t) = tod_deci t + of_nat k" for k t
  proof (induction k)
    case 0
    then show ?case by simp
  next
    case (Suc k)
    let ?t = "(updatetod ^^ k) t"
    from Suc have IH: "tod_secs ?t = tod_secs t" "tod_deci ?t = tod_deci t + of_nat k" by simp_all
    have "unat (tod_deci t + of_nat k) = unat (tod_deci t) + k"
      using Suc.prems by (simp add: unat_word_ariths unat_of_nat)
    then have "tod_deci ?t \<noteq> 9" using Suc.prems IH(2) by auto
    from updatetod_ticks [OF this] IH show ?case by simp
  qed
  define a where "a = 9 - unat (tod_deci s)"
  define b where "b = unat (tod_deci s)"
  have ab: "10 = b + Suc a" using assms by (simp add: a_def b_def)
  let ?u = "(updatetod ^^ a) s"
  have u: "tod_secs ?u = tod_secs s" "tod_deci ?u = 9"
  proof -
    have "tod_deci s + of_nat a = of_nat (b + a)" by (simp add: b_def)
    also have "b + a = 9" using ab by simp
    finally show "tod_deci ?u = 9" "tod_secs ?u = tod_secs s"
      using run [of a s] assms by (simp_all add: a_def)
  qed
  let ?v = "updatetod ?u"
  note v = updatetod_second [OF u(2)]
  have "(updatetod ^^ 10) s = (updatetod ^^ b) ?v"
    by (simp only: ab funpow_add comp_apply funpow.simps)
  moreover have "b + unat (tod_deci ?v) < 10" using assms v by (simp add: b_def)
  ultimately show "tod_secs ((updatetod ^^ 10) s) = (tod_secs s + 1) mod 2 ^ 64"
    and "tod_deci ((updatetod ^^ 10) s) = tod_deci s"
    using run [of b ?v] v u by (simp_all add: b_def)
qed

end
