(* ===== verification/Process.thy ===== *)
theory Process
  imports KernelState Timer
begin

text \<open>
  Kernel/process.c without the exit path (see SysProc): sleeping and waking, the scheduler
  getproc(), process creation, the clock interrupt, the system call dispatcher, and signals.

  switchout() is platform assembly: it runs other processes and comes back when this process is
  scheduled again. It is the argument \<open>sw\<close> of the definitions that reach it; a \<open>sw\<close> that yields
  None never comes back. platform\_idle() waits for an interrupt and is the argument \<open>idle\<close>.
  A signal whose default action ends the process makes chksigs() call doexit(), which never
  returns: the model's chksigs then answers \<open>Inl val\<close> with the argument of doexit().
\<close>

subsection \<open>Sleeping and waking\<close>

text \<open>psleep() up to the point where interrupts are restored and switchout() is called.\<close>

definition psleep_enter :: "event \<Rightarrow> kst \<Rightarrow> (unit \<times> kst) option" where
  "psleep_enter ev s = do {
     (_, s) \<leftarrow> (case p_status (self s) of
         P_SLEEP \<Rightarrow> Some ((), s\<lparr>nready := nready s + 1\<rparr>)
       | P_STOPPED \<Rightarrow> Some ((), s\<lparr>nready := nready s + 1\<rparr>)
       | P_RUNNING \<Rightarrow> Some ((), s)
       | _ \<Rightarrow> panic ''psleep: voodoo'' s);
     let s = upd_p (u_ptab s) (\<lambda>p. p\<lparr>p_status := P_SLEEP\<rparr>) s;
     let s = upd_p (u_ptab s) (\<lambda>p. p\<lparr>p_wait := ev\<rparr>) s;
     let s = s\<lparr>waitno := waitno s + 1\<rparr>;
     let s = upd_p (u_ptab s) (\<lambda>p. p\<lparr>p_waitno := waitno s\<rparr>) s;
     let s = s\<lparr>nready := nready s - 1\<rparr>;
     Some ((), s)
   }"

definition psleep :: "(kst \<Rightarrow> kst option) \<Rightarrow> event \<Rightarrow> kst \<Rightarrow> (unit \<times> kst) option" where
  "psleep sw ev s = do {
     (_, s) \<leftarrow> psleep_enter ev s;
     s \<leftarrow> sw s;
     Some ((), s)
   }"

definition pwake :: "nat \<Rightarrow> kst \<Rightarrow> kst" where
  "pwake p s =
     (if pnum (p_status (ptab s p)) > pnum P_RUNNING \<and> pnum (p_status (ptab s p)) < pnum P_STOPPED
      then
        let s = (if p_status (ptab s p) \<noteq> P_READY
                 then upd_p p (\<lambda>e. e\<lparr>p_status := P_READY\<rparr>) (s\<lparr>nready := nready s + 1\<rparr>)
                 else s)
        in upd_p p (\<lambda>e. e\<lparr>p_wait := EvNull\<rparr>) s
      else s)"

definition wakeup :: "event \<Rightarrow> kst \<Rightarrow> kst" where
  "wakeup ev s =
     fold (\<lambda>p s. if pnum (p_status (ptab s p)) > pnum P_RUNNING \<and> p_wait (ptab s p) = ev
                 then pwake p s else s)
       [0..<ptab_end s] s"

subsection \<open>The scheduler\<close>

text \<open>
  getproc(): step to the next slot, cyclically, until one is ready; after a full turn wait for
  an interrupt. The search starts and the turns are counted from the slot chosen last.
\<close>

partial_function (option) getproc_from :: "(kst \<Rightarrow> kst) \<Rightarrow> nat \<Rightarrow> kst \<Rightarrow> (nat \<times> kst) option" where
  "getproc_from idle haltafter s =
     (let s = s\<lparr>getproc_nextp := getproc_nextp s + 1\<rparr>;
          s = (if getproc_nextp s \<ge> ptab_end s then s\<lparr>getproc_nextp := 0\<rparr> else s)
      in if p_status (ptab s (getproc_nextp s)) = P_RUNNING then panic ''getproc: extra running'' s
         else if p_status (ptab s (getproc_nextp s)) = P_READY then Some (getproc_nextp s, s)
         else if getproc_nextp s = haltafter then
           (if u_ininterrupt s then panic ''getproc: can't ei'' s
            else getproc_from idle haltafter (idle s))
         else getproc_from idle haltafter s)"

definition getproc :: "(kst \<Rightarrow> kst) \<Rightarrow> kst \<Rightarrow> (nat \<times> kst) option" where
  "getproc idle s = getproc_from idle (getproc_nextp s) s"

text \<open>The CONFIG\_SINGLETASK version: stay with the current process, or its parent when it died.\<close>

partial_function (option) getproc_single_from :: "(kst \<Rightarrow> kst) \<Rightarrow> nat \<Rightarrow> kst \<Rightarrow> (nat \<times> kst) option" where
  "getproc_single_from idle p s =
     (case p_status (ptab s p) of
        P_ZOMBIE \<Rightarrow>
          (let p = p_pptr (ptab s p) in Some (p, upd_p p (\<lambda>e. e\<lparr>p_status := P_RUNNING\<rparr>) s))
      | P_READY \<Rightarrow> Some (p, upd_p p (\<lambda>e. e\<lparr>p_status := P_RUNNING\<rparr>) s)
      | P_RUNNING \<Rightarrow> Some (p, s)
      | _ \<Rightarrow> getproc_single_from idle p (idle s))"

definition getproc_single :: "(kst \<Rightarrow> kst) \<Rightarrow> kst \<Rightarrow> (nat \<times> kst) option" where
  "getproc_single idle s = getproc_single_from idle (u_ptab s) s"

subsection \<open>Process creation\<close>

text \<open>The macro i\_ref() of kernel.h.\<close>

definition i_ref :: "nat \<Rightarrow> kst \<Rightarrow> kst" where
  "i_ref ino s = upd_i ino (\<lambda>c. c\<lparr>c_refs := c_refs c + 1\<rparr>) s"

definition i_ref_opt :: "nat option \<Rightarrow> kst \<Rightarrow> kst" where
  "i_ref_opt i s = (case i of None \<Rightarrow> s | Some ino \<Rightarrow> i_ref ino s)"

definition newproc :: "nat \<Rightarrow> kst \<Rightarrow> kst" where
  "newproc p s =
     (let s = s\<lparr>u_page := p_page (ptab s p), u_page2 := p_page2 (ptab s p)\<rparr>;
          s = upd_p p (\<lambda>e. e\<lparr>p_status := P_RUNNING\<rparr>) s;
          s = s\<lparr>nready := nready s + 1\<rparr>;
          s = upd_p p (\<lambda>e. e\<lparr>p_pptr := u_ptab s\<rparr>) s;
          s = upd_p p (\<lambda>e. e\<lparr>p_ignored := p_ignored (self s)\<rparr>) s;
          s = upd_p p (\<lambda>e. e\<lparr>p_tty := p_tty (self s)\<rparr>) s;
          s = upd_p p (\<lambda>e. e\<lparr>p_uid := p_uid (self s)\<rparr>) s;
          s = upd_p p (\<lambda>e. e\<lparr>p_priority := MAXTICKS\<rparr>) s;
          s = s\<lparr>u_ptab := p\<rparr>;
          s = s\<lparr>u_utime := 0, u_stime := 0, u_cutime := 0, u_cstime := 0\<rparr>;
          s = s\<lparr>u_time := rdtime32 s\<rparr>;
          s = i_ref_opt (u_cwd s) s;
          s = i_ref_opt (u_root s) s;
          s = s\<lparr>u_cursig := 0, u_error := 0\<rparr>
      in fold (\<lambda>j s. if u_files s j \<noteq> NO_FILE
                     then upd_o (unat (u_files s j)) (\<lambda>f. f\<lparr>o_refs := o_refs f + 1\<rparr>) s else s)
           [0..<UFTSIZE] s)"

text \<open>memset(newp, 0, sizeof(struct p\_tab)).\<close>

definition zero_ptab :: p_tab where
  "zero_ptab = \<lparr>p_status = P_EMPTY, p_tty = 0, p_pid = 0, p_uid = 0, p_pptr = 0, p_alarm = 0,
     p_exitval = 0, p_wait = EvNull, p_page = 0, p_page2 = 0, p_priority = 0, p_pending = 0,
     p_ignored = 0, p_held = 0, p_waitno = 0, p_timeout = 0, p_pgrp = 0, p_nice = 0, p_event = 0, p_top = 0\<rparr>"

text \<open>\<^verbatim>\<open>if (nextpid++ > MAXPID) nextpid = 20;\<close>\<close>

definition bump_pid :: "u16 \<Rightarrow> u16" where
  "bump_pid n = (if n > MAXPID then 20 else n + 1)"

definition pid_in_use :: "u16 \<Rightarrow> kst \<Rightarrow> bool" where
  "pid_in_use pid s \<longleftrightarrow>
     (\<exists>p<ptab_end s. p_status (ptab s p) \<noteq> P_EMPTY \<and> p_pid (ptab s p) = pid)"

text \<open>The loop \<^verbatim>\<open>while (newp->p_pid == 0)\<close> that looks for an unused process id.\<close>

partial_function (option) select_pid :: "nat \<Rightarrow> kst \<Rightarrow> (unit \<times> kst) option" where
  "select_pid newp s =
     (if p_pid (ptab s newp) = 0 then
        let s = s\<lparr>nextpid := bump_pid (nextpid s)\<rparr>;
            s = upd_p newp (\<lambda>e. e\<lparr>p_pid := nextpid s\<rparr>) s;
            s = (if pid_in_use (nextpid s) s then upd_p newp (\<lambda>e. e\<lparr>p_pid := 0\<rparr>) s else s)
        in select_pid newp s
      else Some ((), s))"

text \<open>
  ptab\_alloc(). The memory map of the new process comes from the port's memory manager, here
  the argument \<open>pagemap_alloc\<close> (0 for success). When it fails the code sets newp to NULL and then
  still stores through it: a store to address 0, for which the model has no value (None).
\<close>

definition ptab_alloc :: "(nat \<Rightarrow> kst \<Rightarrow> u16 \<times> kst) \<Rightarrow> kst \<Rightarrow> (nat option \<times> kst) option" where
  "ptab_alloc pagemap_alloc s = do {
     let s = s\<lparr>u_error := EAGAIN\<rparr>;
     case first_index (ptab_end s) (\<lambda>p. p_status (ptab s p) = P_EMPTY) of
       None \<Rightarrow> Some (None, s)
     | Some newp \<Rightarrow> do {
         let s = upd_p newp (\<lambda>_. zero_ptab) s;
         (_, s) \<leftarrow> select_pid newp s;
         let s = upd_p newp (\<lambda>e. e\<lparr>p_top := u_top s\<rparr>) s;
         let (r, s) = pagemap_alloc newp s;
         if r = 0 then do {
           let s = upd_p newp (\<lambda>e. e\<lparr>p_status := P_FORKING\<rparr>) s;
           let s = s\<lparr>nproc := nproc s + 1\<rparr>;
           let s = upd_p newp (\<lambda>e. e\<lparr>p_pgrp := p_pgrp (self s)\<rparr>) s;
           let s = s\<lparr>u_error := 0\<rparr>;
           Some (Some newp, s)
         } else panic ''store through NULL'' (s\<lparr>u_error := ENOMEM\<rparr>)
       }
   }"

subsection \<open>Load average\<close>

text \<open>
  \<^verbatim>\<open>r->average = ((((r->average - (nr << 8)) * r->exponent) + (((uint32_t)nr) << 16)) >> 8)\<close>
  on a machine whose int has 16 bits: the difference and the product are 16 bits wide, the sum
  is 32 bits wide and the assignment keeps the low 16 bits of the shifted sum.
\<close>

definition load_step :: "u16 \<Rightarrow> u8 \<times> u16 \<Rightarrow> u8 \<times> u16" where
  "load_step nr r =
     (let prod = (snd r - push_bit 8 nr) * (ucast (fst r) :: u16);
          total = (ucast prod :: u32) + push_bit 16 (ucast nr)
      in (fst r, ucast (drop_bit 8 total)))"

text \<open>The same expression where int has 32 bits (the difference may then be negative).\<close>

definition load_step32 :: "u16 \<Rightarrow> u8 \<times> u16 \<Rightarrow> u8 \<times> u16" where
  "load_step32 nr r =
     (let prod = ((ucast (snd r) :: u32) - push_bit 8 (ucast nr)) * (ucast (fst r) :: u32);
          total = prod + push_bit 16 (ucast nr)
      in (fst r, ucast (drop_bit 8 total)))"

definition load_average :: "kst \<Rightarrow> kst" where
  "load_average s =
     (let s = s\<lparr>utick := utick s + 1\<rparr> in
      if utick s < 50 then s
      else
        let s = s\<lparr>utick := 0\<rparr>
        in s\<lparr>loadavg := map (load_step (ucast (nready s))) (loadavg s)\<rparr>)"

subsection \<open>Signals\<close>

text \<open>The SIGSTOP, SIGTTIN, SIGTTOU and SIGTSTP bits, and the signals ignored by default.\<close>

definition stopper :: u32 where
  "stopper = sigmask SIGSTOP OR sigmask SIGTTIN OR sigmask SIGTTOU OR sigmask SIGTSTP"

definition clear_sigs :: u32 where
  "clear_sigs = sigmask SIGSTOP OR sigmask SIGTTIN OR sigmask SIGTTOU OR sigmask SIGTSTP
     OR sigmask SIGCHLD OR sigmask SIGURG OR sigmask SIGWINCH OR sigmask SIGIO OR sigmask SIGCONT"

definition ssig :: "nat \<Rightarrow> nat \<Rightarrow> kst \<Rightarrow> kst" where
  "ssig proc sig s =
     (let sigm = sigmask sig in
      if p_status (ptab s proc) \<noteq> P_EMPTY then
        let s = (if sig = SIGCONT then
                   let s = (if p_status (ptab s proc) = P_STOPPED
                            then upd_p proc (\<lambda>e. e\<lparr>p_status := P_READY, p_event := 0\<rparr>)
                                   (s\<lparr>nready := nready s + 1\<rparr>)
                            else s)
                   in upd_p proc (\<lambda>e. e\<lparr>p_pending := p_pending e AND NOT stopper\<rparr>) s
                 else s);
            s = (if SIGSTOP \<le> sig \<and> sig \<le> SIGTTOU
                 then upd_p proc (\<lambda>e. e\<lparr>p_pending := p_pending e AND NOT (sigmask SIGCONT)\<rparr>) s
                 else s)
        in if p_ignored (ptab s proc) AND sigm = 0 then
             let s = (if p_held (ptab s proc) AND sigm = 0 then
                        let s = (if p_status (ptab s proc) = P_SLEEP
                                 then upd_p proc (\<lambda>e. e\<lparr>p_status := P_READY\<rparr>)
                                        (s\<lparr>nready := nready s + 1\<rparr>)
                                 else s)
                        in upd_p proc (\<lambda>e. e\<lparr>p_wait := EvNull\<rparr>) s
                      else s)
             in upd_p proc (\<lambda>e. e\<lparr>p_pending := p_pending e OR sigm\<rparr>) s
           else s
      else s)"

definition sgrpsig :: "u16 \<Rightarrow> nat \<Rightarrow> kst \<Rightarrow> kst" where
  "sgrpsig pgrp sig s =
     (if pgrp \<noteq> 0
      then fold (\<lambda>p s. if p_pgrp (ptab s p) = pgrp then ssig p sig s else s) [0..<ptab_end s] s
      else s)"

text \<open>
  The scan of chksigs(). \<open>j = 0\<close> is the label \<^verbatim>\<open>rescan\<close>, \<open>j > 0\<close> the loop body for signal \<open>j\<close>, and
  \<open>svec\<close> the index the handler pointer has reached. As in the code, going back to \<^verbatim>\<open>rescan\<close> neither
  recomputes \<open>pending\<close> nor resets \<open>svec\<close>. Without CONFIG\_LEVEL\_2 dump\_core(sig) is sig.
\<close>

partial_function (option) chksigs_from ::
  "(kst \<Rightarrow> kst option) \<Rightarrow> u32 \<Rightarrow> nat \<Rightarrow> nat \<Rightarrow> kst \<Rightarrow> ((u16 + u8) \<times> kst) option" where
  "chksigs_from sw pending svec j s =
     (if j = 0 then
        (if u_cursig s \<noteq> 0 \<or> pending = 0 \<or> p_status (self s) = P_STOPPED
         then Some (Inr (u_cursig s), s)
         else chksigs_from sw pending svec 1 s)
      else if \<not> j < NSIGS then Some (Inr (u_cursig s), s)
      else
        let svec = svec + 1; m = sigmask j in
        if m AND pending = 0 then chksigs_from sw pending svec (j + 1) s
        else if u_sigvec s svec = SIG_DFL then
          (if m AND stopper \<noteq> 0 then
             let s = s\<lparr>nready := nready s - 1\<rparr>;
                 s = upd_p (u_ptab s) (\<lambda>e. e\<lparr>p_status := P_STOPPED, p_event := of_nat j,
                       p_pending := p_pending e AND NOT m\<rparr>) s
             in do { s \<leftarrow> sw s; chksigs_from sw pending svec 0 s }
           else
             let s = upd_p (u_ptab s) (\<lambda>e. e\<lparr>p_pending := p_pending e AND NOT m\<rparr>) s in
             if m AND clear_sigs \<noteq> 0 \<or> p_pid (self s) = 1
             then chksigs_from sw pending svec (j + 1) s
             else
               let s = (if p_status (self s) = P_SLEEP
                        then upd_p (u_ptab s) (\<lambda>e. e\<lparr>p_status := P_RUNNING\<rparr>)
                               (s\<lparr>nready := nready s + 1\<rparr>)
                        else s)
               in Some (Inl (of_nat j), s))
        else if u_sigvec s svec \<noteq> SIG_IGN then
          let s = upd_p (u_ptab s) (\<lambda>e. e\<lparr>p_pending := p_pending e AND NOT m\<rparr>) s;
              s = s\<lparr>u_cursig := of_nat j\<rparr>
          in Some (Inr (u_cursig s), s)
        else chksigs_from sw pending svec (j + 1) s)"

definition chksigs :: "(kst \<Rightarrow> kst option) \<Rightarrow> kst \<Rightarrow> ((u16 + u8) \<times> kst) option" where
  "chksigs sw s = chksigs_from sw (p_pending (self s) AND NOT (p_held (self s))) 0 0 s"

text \<open>For a caller inside the kernel: when the signal ends the process, no call returns.\<close>

definition chksigs_ret :: "(kst \<Rightarrow> kst option) \<Rightarrow> kst \<Rightarrow> (u8 \<times> kst) option" where
  "chksigs_ret sw s = do {
     (r, s) \<leftarrow> chksigs sw s;
     case r of Inl _ \<Rightarrow> None | Inr sig \<Rightarrow> Some (sig, s)
   }"

subsection \<open>Sleeping in a device\<close>

text \<open>psleep\_flags\_io() of devio.c: the answer is True for the code's -1; \<open>n\<close> is \<^verbatim>\<open>*n\<close>.\<close>

definition psleep_flags_io ::
  "(kst \<Rightarrow> kst option) \<Rightarrow> event \<Rightarrow> u8 \<Rightarrow> u16 \<Rightarrow> kst \<Rightarrow> ((bool \<times> u16) \<times> kst) option" where
  "psleep_flags_io sw ev flags n s =
     (if flags AND ucast O_NDELAY \<noteq> 0 then
        (if n = 0 then Some ((True, 0xFFFF), s\<lparr>u_error := EAGAIN\<rparr>) else Some ((True, n), s))
      else do {
        (_, s) \<leftarrow> psleep sw ev s;
        (sig, s) \<leftarrow> chksigs_ret sw s;
        if sig \<noteq> 0 then
          (if n = 0 then Some ((True, 0xFFFF), s\<lparr>u_error := EINTR\<rparr>) else Some ((True, n), s))
        else Some ((False, n), s)
      })"

definition psleep_flags :: "(kst \<Rightarrow> kst option) \<Rightarrow> event \<Rightarrow> u8 \<Rightarrow> kst \<Rightarrow> (bool \<times> kst) option" where
  "psleep_flags sw ev flags s = do {
     ((r, _), s) \<leftarrow> psleep_flags_io sw ev flags 0 s;
     Some (r, s)
   }"

subsection \<open>The clock interrupt\<close>

text \<open>The alarm clock and the timeout of one process, once per decisecond.\<close>

definition tick_proc :: "nat \<Rightarrow> kst \<Rightarrow> kst" where
  "tick_proc p s =
     (let s = (if p_alarm (ptab s p) \<noteq> 0 then
                 let s = upd_p p (\<lambda>e. e\<lparr>p_alarm := p_alarm e - 1\<rparr>) s
                 in if p_alarm (ptab s p) = 0 then ssig p SIGALRM s else s
               else s)
      in if p_timeout (ptab s p) > 1 then
           let s = upd_p p (\<lambda>e. e\<lparr>p_timeout := p_timeout e - 1\<rparr>) s
           in if p_timeout (ptab s p) = 1 then pwake p s else s
         else s)"

text \<open>The three parts of timer\_interrupt(): charge the running process, the decisecond work, and the
  end of a time slice.\<close>

definition charge_tick :: "kst \<Rightarrow> kst" where
  "charge_tick s =
     (if \<not> inswap s \<and> p_status (self s) = P_RUNNING then
        (if u_insys s then s\<lparr>u_stime := u_stime s + 1\<rparr> else s\<lparr>u_utime := u_utime s + 1\<rparr>)
      else s)"

definition dsecond_tick :: "kst \<Rightarrow> kst" where
  "dsecond_tick s =
     (let s = s\<lparr>ticks_this_dsecond := ticks_this_dsecond s + 1\<rparr> in
      if ticks_this_dsecond s = ticks_per_dsecond s then
        let s = s\<lparr>ticks_this_dsecond := 0\<rparr>;
            s = s\<lparr>ticks := ticks s + 1\<rparr>;
            s = fold tick_proc [0..<ptab_end s] s;
            s = updatetod s
        in load_average s
      else s)"

definition check_slice :: "kst \<Rightarrow> kst" where
  "check_slice s =
     (if \<not> inswap s then
        let s = s\<lparr>runticks := runticks s + 1\<rparr>
        in if runticks s \<ge> p_priority (self s) \<and> \<not> u_insys s \<and> inint s \<and> nready s > 1
           then s\<lparr>need_resched := True\<rparr> else s
      else s)"

definition timer_interrupt :: "kst \<Rightarrow> kst" where
  "timer_interrupt s = check_slice (dsecond_tick (charge_tick s))"

subsection \<open>System call dispatch\<close>

text \<open>
  unix\_syscall(): \<open>dispatch\<close> is the table syscall\_dispatch of kdata.c, \<open>ncalls\<close> its length
  FUZIX\_SYSCALL\_COUNT. u\_retval is the first component of the answer; the second is the outcome
  of the final chksigs().
\<close>

definition unix_syscall ::
  "(kst \<Rightarrow> kst option) \<Rightarrow> nat \<Rightarrow> (nat \<Rightarrow> kst \<Rightarrow> (u16 \<times> kst) option) \<Rightarrow> kst
     \<Rightarrow> ((u16 option \<times> (u16 + u8)) \<times> kst) option" where
  "unix_syscall sw ncalls dispatch s = do {
     let s = s\<lparr>u_error := 0\<rparr>;
     (rv, s) \<leftarrow> (if unat (u_callno s) \<ge> ncalls then Some (None, s\<lparr>u_error := ENOSYS\<rparr>)
                 else do { (r, s) \<leftarrow> dispatch (unat (u_callno s)) s; Some (Some r, s) });
     let s = upd_p (u_ptab s) (\<lambda>e. e\<lparr>p_timeout := 0\<rparr>) s;
     s \<leftarrow> (if runticks s \<ge> p_priority (self s) \<and> nready s > 1
           then sw (upd_p (u_ptab s) (\<lambda>e. e\<lparr>p_status := P_READY\<rparr>) s)
           else Some s);
     (r, s) \<leftarrow> chksigs sw s;
     Some ((rv, r), s)
   }"

end
