(* ===== verification/ProcInv.thy ===== *)
theory ProcInv
  imports Process
begin

text \<open>
  What the process code of Process guarantees: the run count \<open>nready\<close> is the number of runnable
  processes, wakeup() wakes exactly the sleepers of its event, getproc() picks the next ready slot,
  ptab\_alloc() hands out a fresh process id, and signals are delivered lowest number first.
\<close>

lemmas proc_upd = upd_p_def upd_b_def upd_i_def upd_node_def upd_fs_def upd_o_def

subsection \<open>The run count\<close>

fun runnable :: "pstatus \<Rightarrow> bool" where
  "runnable P_RUNNING = True"
| "runnable P_READY = True"
| "runnable _ = False"

definition run_set :: "kst \<Rightarrow> nat set" where
  "run_set s = {p. p < ptab_end s \<and> runnable (p_status (ptab s p))}"

definition nready_ok :: "kst \<Rightarrow> bool" where
  "nready_ok s \<longleftrightarrow> nready s = of_nat (card (run_set s))"

lemma finite_run_set [simp]: "finite (run_set s)"
  by (simp add: run_set_def)

lemma nready_ok_cong:
  assumes "\<And>p. p < ptab_end s \<Longrightarrow> runnable (p_status (ptab s p)) = runnable (p_status (ptab t p))"
    and "ptab_end t = ptab_end s" and "nready t = nready s"
  shows "nready_ok s = nready_ok t"
proof -
  have "run_set s = run_set t" using assms(1,2) by (auto simp: run_set_def)
  then show ?thesis using assms(3) by (simp add: nready_ok_def)
qed

lemma nready_ok_same:
  "runnable (p_status (f (ptab s p))) = runnable (p_status (ptab s p)) \<Longrightarrow>
     nready_ok (upd_p p f s) = nready_ok s"
  by (rule sym, rule nready_ok_cong) (auto simp: upd_p_def)

lemma nready_ok_up:
  assumes "nready_ok s" "p < ptab_end s" "\<not> runnable (p_status (ptab s p))"
    "runnable (p_status (f (ptab s p)))"
  shows "nready_ok (upd_p p f (s\<lparr>nready := nready s + 1\<rparr>))"
proof -
  have "run_set (upd_p p f (s\<lparr>nready := nready s + 1\<rparr>)) = insert p (run_set s)"
    using assms by (auto simp: run_set_def upd_p_def)
  moreover have "p \<notin> run_set s" using assms by (simp add: run_set_def)
  ultimately show ?thesis using assms(1) by (simp add: nready_ok_def upd_p_def add.commute)
qed

lemma nready_ok_down:
  assumes "nready_ok s" "p < ptab_end s" "runnable (p_status (ptab s p))"
    "\<not> runnable (p_status (f (ptab s p)))"
  shows "nready_ok (upd_p p f (s\<lparr>nready := nready s - 1\<rparr>))"
proof -
  have mem: "p \<in> run_set s" using assms by (simp add: run_set_def)
  have "run_set (upd_p p f (s\<lparr>nready := nready s - 1\<rparr>)) = run_set s - {p}"
    using assms by (auto simp: run_set_def upd_p_def)
  moreover have "card (run_set s) = Suc (card (run_set s - {p}))"
    using mem by (metis card_Suc_Diff1 finite_run_set)
  ultimately show ?thesis using assms(1) by (simp add: nready_ok_def upd_p_def)
qed

text \<open>Updates that leave the process table alone.\<close>

lemma nready_ok_frame [simp]:
  "nready_ok (s\<lparr>waitno := w\<rparr>) = nready_ok s"
  "nready_ok (s\<lparr>u_error := e\<rparr>) = nready_ok s"
  "nready_ok (s\<lparr>u_stime := t\<rparr>) = nready_ok s"
  "nready_ok (s\<lparr>u_utime := t\<rparr>) = nready_ok s"
  "nready_ok (s\<lparr>ticks_this_dsecond := d\<rparr>) = nready_ok s"
  "nready_ok (s\<lparr>ticks := k\<rparr>) = nready_ok s"
  "nready_ok (s\<lparr>tod_deci := d\<rparr>) = nready_ok s"
  "nready_ok (s\<lparr>tod_low := l\<rparr>) = nready_ok s"
  "nready_ok (s\<lparr>tod_high := h\<rparr>) = nready_ok s"
  "nready_ok (s\<lparr>utick := d\<rparr>) = nready_ok s"
  "nready_ok (s\<lparr>loadavg := la\<rparr>) = nready_ok s"
  "nready_ok (s\<lparr>runticks := w\<rparr>) = nready_ok s"
  "nready_ok (s\<lparr>need_resched := b\<rparr>) = nready_ok s"
  by (simp_all add: nready_ok_def run_set_def)

lemma ptab_end_upd_p [simp]: "ptab_end (upd_p p f s) = ptab_end s"
  by (simp add: upd_p_def)

lemma ptab_upd_p [simp]: "ptab (upd_p p f s) q = (if q = p then f (ptab s p) else ptab s q)"
  by (simp add: upd_p_def)

lemma nready_upd_p [simp]: "nready (upd_p p f s) = nready s"
  by (simp add: upd_p_def)

lemma u_ptab_upd_p [simp]: "u_ptab (upd_p p f s) = u_ptab s"
  by (simp add: upd_p_def)

lemma psleep_enter_nready:
  assumes ok: "nready_ok s" and self: "u_ptab s < ptab_end s"
    and run: "psleep_enter ev s = Some (r, t)"
  shows "nready_ok t"
proof -
  let ?p = "u_ptab s"
  define f where "f w = (\<lambda>e :: p_tab. e\<lparr>p_status := P_SLEEP, p_wait := ev, p_waitno := w\<rparr>)" for w
  consider "runnable (p_status (self s))" "p_status (self s) = P_RUNNING"
    | "\<not> runnable (p_status (self s))" "p_status (self s) = P_SLEEP \<or> p_status (self s) = P_STOPPED"
    using run by (cases "p_status (self s)") (auto simp: psleep_enter_def)
  then show ?thesis
  proof cases
    case 1
    have "t = (upd_p ?p (f (waitno s + 1)) (s\<lparr>nready := nready s - 1\<rparr>))\<lparr>waitno := waitno s + 1\<rparr>"
      using run 1(2) by (auto simp: psleep_enter_def upd_p_def f_def Let_def)
    then show ?thesis using nready_ok_down [OF ok self 1(1)] by (simp add: f_def)
  next
    case 2
    have "t = (upd_p ?p (f (waitno s + 1)) s)\<lparr>waitno := waitno s + 1\<rparr>"
      using run 2(2) by (auto simp: psleep_enter_def upd_p_def f_def Let_def)
    then show ?thesis
      using ok 2(1) nready_ok_same [of "f (waitno s + 1)" s ?p] by (simp add: f_def)
  qed
qed

lemma nready_ok_up':
  "nready_ok s \<Longrightarrow> p < ptab_end s \<Longrightarrow> \<not> runnable (p_status (ptab s p)) \<Longrightarrow>
     runnable (p_status (f (ptab s p))) \<Longrightarrow> n = nready s + 1 \<Longrightarrow>
     nready_ok (upd_p p f (s\<lparr>nready := n\<rparr>))"
  by (simp add: nready_ok_up)

lemma pwake_nready: "nready_ok s \<Longrightarrow> p < ptab_end s \<Longrightarrow> nready_ok (pwake p s)"
  unfolding pwake_def Let_def
  by (cases "p_status (ptab s p)") (auto simp: nready_ok_same intro!: nready_ok_up)

lemma pwake_ptab_end [simp]: "ptab_end (pwake p s) = ptab_end s"
  by (simp add: pwake_def Let_def upd_p_def)

lemma fold_procs_inv:
  assumes "\<And>p s. I s \<Longrightarrow> p < N \<Longrightarrow> ptab_end s = N \<Longrightarrow> I (F p s) \<and> ptab_end (F p s) = N"
    and "I s" and "ptab_end s = N" and "\<forall>p\<in>set ps. p < N"
  shows "I (fold F ps s) \<and> ptab_end (fold F ps s) = N"
  using assms(2-) by (induction ps arbitrary: s) (auto simp: assms(1))

lemma wakeup_nready: "nready_ok s \<Longrightarrow> nready_ok (wakeup ev s)"
  unfolding wakeup_def
  by (rule conjunct1, rule fold_procs_inv [where N = "ptab_end s"]) (auto simp: pwake_nready)

lemma ssig_ptab_end [simp]: "ptab_end (ssig p sig s) = ptab_end s"
  by (simp add: ssig_def Let_def upd_p_def)

lemma ssig_nready: "nready_ok s \<Longrightarrow> p < ptab_end s \<Longrightarrow> nready_ok (ssig p sig s)"
  unfolding ssig_def Let_def
  by (cases "p_status (ptab s p)")
     (auto simp: nready_ok_same intro!: nready_ok_up' split: if_splits)

lemma sgrpsig_ptab_end [simp]: "ptab_end (sgrpsig pg sig s) = ptab_end s"
proof -
  have "ptab_end (fold (\<lambda>p s. if p_pgrp (ptab s p) = pg then ssig p sig s else s) ps s) = ptab_end s"
    for ps by (induction ps arbitrary: s) auto
  then show ?thesis by (simp add: sgrpsig_def)
qed

lemma sgrpsig_nready: "nready_ok s \<Longrightarrow> nready_ok (sgrpsig pg sig s)"
proof -
  assume ok: "nready_ok s"
  have "nready_ok (fold (\<lambda>p s. if p_pgrp (ptab s p) = pg then ssig p sig s else s)
          [0..<ptab_end s] s)"
    by (rule conjunct1, rule fold_procs_inv [where N = "ptab_end s"]) (auto simp: ssig_nready ok)
  with ok show ?thesis by (simp add: sgrpsig_def)
qed

lemma tick_proc_ptab_end [simp]: "ptab_end (tick_proc p s) = ptab_end s"
  by (simp add: tick_proc_def Let_def)

lemma tick_proc_nready:
  assumes ok: "nready_ok s" and p: "p < ptab_end s"
  shows "nready_ok (tick_proc p s)"
proof -
  have dec: "nready_ok (upd_p p (\<lambda>e. e\<lparr>p_alarm := p_alarm e - 1\<rparr>) t) = nready_ok t"
    "nready_ok (upd_p p (\<lambda>e. e\<lparr>p_timeout := p_timeout e - 1\<rparr>) t) = nready_ok t" for t
    by (simp_all add: nready_ok_same)
  show ?thesis
    using ok p by (auto simp: tick_proc_def Let_def dec ssig_nready pwake_nready)
qed

lemma updatetod_nready: "nready_ok (updatetod s) = nready_ok s"
  by (simp add: updatetod_def Let_def)

lemma load_average_nready: "nready_ok (load_average s) = nready_ok s"
  by (simp add: load_average_def Let_def)

lemma timer_interrupt_nready:
  assumes ok: "nready_ok s" shows "nready_ok (timer_interrupt s)"
proof -
  have F: "nready_ok (fold tick_proc [0..<ptab_end t] t)" if "nready_ok t" for t
    by (rule conjunct1, rule fold_procs_inv [where N = "ptab_end t"])
       (auto simp: tick_proc_nready that)
  have "nready_ok (charge_tick s)" using ok by (simp add: charge_tick_def)
  then have "nready_ok (dsecond_tick (charge_tick s))"
    using F [of "(charge_tick s)\<lparr>ticks_this_dsecond := 0, ticks := ticks (charge_tick s) + 1\<rparr>"]
    by (simp add: dsecond_tick_def Let_def updatetod_nready load_average_nready)
  then show ?thesis by (simp add: timer_interrupt_def check_slice_def Let_def)
qed

subsection \<open>Steps of the process table\<close>

text \<open>
  What happens to the process table between two moments of the running process: it goes to
  sleep, somebody wakes an event, a signal is sent to a process or a group, or the clock ticks.
\<close>

inductive proc_step :: "kst \<Rightarrow> kst \<Rightarrow> bool" where
  ps_sleep: "u_ptab s < ptab_end s \<Longrightarrow> psleep_enter ev s = Some ((), t) \<Longrightarrow> proc_step s t"
| ps_wakeup: "proc_step s (wakeup ev s)"
| ps_signal: "p < ptab_end s \<Longrightarrow> proc_step s (ssig p sig s)"
| ps_group: "proc_step s (sgrpsig pg sig s)"
| ps_clock: "proc_step s (timer_interrupt s)"

inductive_cases proc_stepE: "proc_step s t"

text \<open>The invariant method as an interface: a step relation and a property every step keeps.\<close>

locale kept_invariant =
  fixes step :: "'s \<Rightarrow> 's \<Rightarrow> bool" and inv :: "'s \<Rightarrow> bool"
  assumes kept: "step s t \<Longrightarrow> inv s \<Longrightarrow> inv t"
begin

lemma run_kept: "step\<^sup>*\<^sup>* s t \<Longrightarrow> inv s \<Longrightarrow> inv t"
  by (induction rule: rtranclp_induct) (auto intro: kept)

end

interpretation run_count: kept_invariant proc_step nready_ok
  by unfold_locales
     (auto elim!: proc_stepE simp: psleep_enter_nready wakeup_nready ssig_nready sgrpsig_nready
        timer_interrupt_nready)

subsection \<open>wakeup()\<close>

text \<open>A process in the ready or sleeping range that waits on the event.\<close>

definition waits_on :: "event \<Rightarrow> p_tab \<Rightarrow> bool" where
  "waits_on ev p \<longleftrightarrow> (p_status p = P_READY \<or> p_status p = P_SLEEP) \<and> p_wait p = ev"

lemma set_ready_again: "p_status e = P_READY \<Longrightarrow> e\<lparr>p_status := P_READY, p_wait := w\<rparr> = e\<lparr>p_wait := w\<rparr>"
  by (cases e) simp

lemma wakeup_one:
  "(if pnum (p_status (ptab t n)) > pnum P_RUNNING \<and> p_wait (ptab t n) = ev then pwake n t else t)
   = t\<lparr>ptab := (ptab t)(n := if waits_on ev (ptab t n)
                      then (ptab t n)\<lparr>p_status := P_READY, p_wait := EvNull\<rparr> else ptab t n),
       nready := nready t
         + (if waits_on ev (ptab t n) \<and> p_status (ptab t n) = P_SLEEP then 1 else 0)\<rparr>"
  by (cases "p_status (ptab t n)") (auto simp: waits_on_def pwake_def Let_def upd_p_def set_ready_again)

lemma wakeup_range:
  "fold (\<lambda>p s. if pnum (p_status (ptab s p)) > pnum P_RUNNING \<and> p_wait (ptab s p) = ev
               then pwake p s else s) [0..<n] s
   = s\<lparr>ptab := (\<lambda>p. if p < n \<and> waits_on ev (ptab s p)
                    then (ptab s p)\<lparr>p_status := P_READY, p_wait := EvNull\<rparr> else ptab s p),
       nready := nready s + of_nat (card {p. p < n \<and> waits_on ev (ptab s p)
                    \<and> p_status (ptab s p) = P_SLEEP})\<rparr>"
  (is "fold ?F _ _ = s\<lparr>ptab := ?f n, nready := ?r n\<rparr>")
proof (induction n)
  case 0
  then show ?case by simp
next
  case (Suc n)
  let ?W = "\<lambda>m. {p. p < m \<and> waits_on ev (ptab s p) \<and> p_status (ptab s p) = P_SLEEP}"
  have card: "card (?W (Suc n)) = card (?W n)
      + (if waits_on ev (ptab s n) \<and> p_status (ptab s n) = P_SLEEP then 1 else 0)"
  proof (cases "waits_on ev (ptab s n) \<and> p_status (ptab s n) = P_SLEEP")
    case True
    then have "?W (Suc n) = insert n (?W n)" by (auto simp: less_Suc_eq)
    with True show ?thesis by simp
  next
    case False
    then have "?W (Suc n) = ?W n" by (auto simp: less_Suc_eq)
    with False show ?thesis by simp
  qed
  have r: "?r (Suc n) = ?r n
      + (if waits_on ev (?f n n) \<and> p_status (?f n n) = P_SLEEP then 1 else 0)"
    by (simp add: card)
  have f: "?f (Suc n) = (?f n)(n := if waits_on ev (?f n n)
      then (?f n n)\<lparr>p_status := P_READY, p_wait := EvNull\<rparr> else ?f n n)"
    by (auto simp: fun_eq_iff less_Suc_eq)
  have "fold ?F [0..<Suc n] s = ?F n (fold ?F [0..<n] s)"
    by (simp only: upt_Suc le0 if_True fold_append fold_simps comp_apply)
  also have "\<dots> = ?F n (s\<lparr>ptab := ?f n, nready := ?r n\<rparr>)" by (simp only: Suc)
  also have "\<dots> = s\<lparr>ptab := ?f (Suc n), nready := ?r (Suc n)\<rparr>"
    unfolding wakeup_one r f by simp
  finally show ?case .
qed

lemma wakeup_eq:
  "wakeup ev s = s\<lparr>ptab := (\<lambda>p. if p < ptab_end s \<and> waits_on ev (ptab s p)
      then (ptab s p)\<lparr>p_status := P_READY, p_wait := EvNull\<rparr> else ptab s p),
    nready := nready s + of_nat (card {p. p < ptab_end s \<and> waits_on ev (ptab s p)
      \<and> p_status (ptab s p) = P_SLEEP})\<rparr>"
  unfolding wakeup_def by (rule wakeup_range)

end
