(* ===== verification/ProcSpec.thy ===== *)
theory ProcSpec
  imports ProcInv
begin

text \<open>
  Functional behaviour of the scheduler, of process id allocation and of signal dispatch:
  getproc() finds the first ready slot after the one chosen last, the pid search ends with an
  id no live process has, and chksigs() acts on the lowest pending signal that is not ignored.
\<close>

subsection \<open>Round robin\<close>

lemma getproc_step:
  assumes "getproc_nextp s < ptab_end s"
    and n: "n = (getproc_nextp s + 1) mod ptab_end s"
    and "p_status (ptab s n) \<noteq> P_RUNNING"
  shows "getproc_from idle h s =
     (if p_status (ptab s n) = P_READY then Some (n, s\<lparr>getproc_nextp := n\<rparr>)
      else if n = h then
        (if u_ininterrupt s then None else getproc_from idle h (idle (s\<lparr>getproc_nextp := n\<rparr>)))
      else getproc_from idle h (s\<lparr>getproc_nextp := n\<rparr>))"
proof (cases "getproc_nextp s + 1 \<ge> ptab_end s")
  case True
  with assms(1) have "getproc_nextp s + 1 = ptab_end s" by simp
  with n have "n = 0" by simp
  with True assms(3) show ?thesis
    by (subst getproc_from.simps) (simp add: Let_def)
next
  case False
  with n have "n = getproc_nextp s + 1" by simp
  with False assms(3) show ?thesis
    by (subst getproc_from.simps) (simp add: Let_def)
qed

lemma getproc_from_first:
  assumes "c < N" and "0 < d" and "getproc_nextp s = c" and "ptab_end s = N"
    and "\<forall>p<N. p_status (ptab s p) \<noteq> P_RUNNING"
    and "\<forall>k. 0 < k \<and> k < d \<longrightarrow> (c + k) mod N \<noteq> h \<and> p_status (ptab s ((c + k) mod N)) \<noteq> P_READY"
    and "p_status (ptab s ((c + d) mod N)) = P_READY"
  shows "getproc_from idle h s = Some ((c + d) mod N, s\<lparr>getproc_nextp := (c + d) mod N\<rparr>)"
  using assms
proof (induction d arbitrary: c s)
  case 0
  then show ?case by simp
next
  case (Suc d)
  define n where "n = (c + 1) mod N"
  have N: "n < N" using Suc.prems(1) by (simp add: n_def)
  have notrun: "p_status (ptab s n) \<noteq> P_RUNNING" using Suc.prems(5) N by simp
  note step = getproc_step [where n = n, OF _ _ notrun, of idle h, unfolded Suc.prems(3,4), OF Suc.prems(1) n_def]
  show ?case
  proof (cases "d = 0")
    case True
    with Suc.prems(7) have "p_status (ptab s n) = P_READY" by (simp add: n_def)
    with step True show ?thesis by (simp add: n_def)
  next
    case False
    have shift: "(n + k) mod N = (c + Suc k) mod N" for k
      by (simp add: n_def mod_simps)
    have "n \<noteq> h" "p_status (ptab s n) \<noteq> P_READY"
      using Suc.prems(6) [rule_format, of 1] False by (simp_all add: n_def)
    with step have "getproc_from idle h s = getproc_from idle h (s\<lparr>getproc_nextp := n\<rparr>)" by simp
    also have "\<dots> = Some ((n + d) mod N, s\<lparr>getproc_nextp := n, getproc_nextp := (n + d) mod N\<rparr>)"
    proof (rule Suc.IH)
      show "\<forall>k. 0 < k \<and> k < d \<longrightarrow> (n + k) mod N \<noteq> h
          \<and> p_status (ptab (s\<lparr>getproc_nextp := n\<rparr>) ((n + k) mod N)) \<noteq> P_READY"
      proof (intro allI impI)
        fix k assume "0 < k \<and> k < d"
        with Suc.prems(6) [rule_format, of "Suc k"]
        show "(n + k) mod N \<noteq> h \<and> p_status (ptab (s\<lparr>getproc_nextp := n\<rparr>) ((n + k) mod N)) \<noteq> P_READY"
          unfolding shift by simp
      qed
      show "p_status (ptab (s\<lparr>getproc_nextp := n\<rparr>) ((n + d) mod N)) = P_READY"
        unfolding shift using Suc.prems(7) by simp
    qed (use N False Suc.prems in auto)
    finally show ?thesis using shift [of d] by simp
  qed
qed

lemma getproc_first:
  assumes "getproc_nextp s < ptab_end s" and "0 < d" and "d \<le> ptab_end s"
    and "\<forall>p<ptab_end s. p_status (ptab s p) \<noteq> P_RUNNING"
    and "\<forall>k. 0 < k \<and> k < d \<longrightarrow> p_status (ptab s ((getproc_nextp s + k) mod ptab_end s)) \<noteq> P_READY"
    and "p_status (ptab s ((getproc_nextp s + d) mod ptab_end s)) = P_READY"
  shows "getproc idle s = Some ((getproc_nextp s + d) mod ptab_end s,
           s\<lparr>getproc_nextp := (getproc_nextp s + d) mod ptab_end s\<rparr>)"
  unfolding getproc_def
proof (rule getproc_from_first [OF assms(1,2) refl refl assms(4) _ assms(6)], intro allI impI conjI)
  fix k assume k: "0 < k \<and> k < d"
  with assms(5) show "p_status (ptab s ((getproc_nextp s + k) mod ptab_end s)) \<noteq> P_READY" by simp
  show "(getproc_nextp s + k) mod ptab_end s \<noteq> getproc_nextp s"
  proof
    assume "(getproc_nextp s + k) mod ptab_end s = getproc_nextp s"
    then have "(getproc_nextp s + k) mod ptab_end s = getproc_nextp s mod ptab_end s"
      using assms(1) by simp
    then have "ptab_end s dvd (getproc_nextp s + k) - getproc_nextp s"
      by (intro mod_eq_dvd_iff_nat [THEN iffD1]) simp_all
    then have "ptab_end s dvd k" by simp
    with k assms(3) show False by (auto dest: dvd_imp_le)
  qed
qed

text \<open>Some distance to a ready slot exists as soon as some slot is ready.\<close>

lemma ready_distance:
  fixes c r N :: nat
  assumes "c < N" and "r < N" and "P r"
  shows "\<exists>d. 0 < d \<and> d \<le> N \<and> P ((c + d) mod N) \<and> (\<forall>k. 0 < k \<and> k < d \<longrightarrow> \<not> P ((c + k) mod N))"
proof -
  let ?Q = "\<lambda>d. 0 < d \<and> d \<le> N \<and> P ((c + d) mod N)"
  have "?Q (if c < r then r - c else N + r - c)"
  proof (cases "c < r")
    case True
    with assms show ?thesis by simp
  next
    case False
    then have "c + (N + r - c) = N + r" using assms(1) by linarith
    with False assms show ?thesis by simp
  qed
  then obtain d where d: "?Q d" "\<And>k. k < d \<Longrightarrow> \<not> ?Q k"
    using exists_least_iff [of ?Q] by blast
  have "\<not> P ((c + k) mod N)" if "0 < k \<and> k < d" for k
    using d(1) d(2) [of k] that by linarith
  with d(1) show ?thesis by blast
qed

subsection \<open>Process ids\<close>

lemma bump_run: "unat n + k \<le> 32001 \<Longrightarrow> (bump_pid ^^ k) n = n + of_nat k"
proof (induction k)
  case 0
  then show ?case by simp
next
  case (Suc k)
  then have u: "unat (n + of_nat k) = unat n + k"
    by (simp add: unat_word_ariths unat_of_nat)
  then have "\<not> n + of_nat k > 32000"
    using Suc.prems by (simp add: word_less_nat_alt)
  with Suc show ?case by (simp add: bump_pid_def add_ac)
qed

lemma bump_reaches:
  assumes "20 \<le> unat v" "unat v \<le> 32001"
  shows "\<exists>k. (bump_pid ^^ Suc k) n = v"
proof -
  have top: "\<exists>k. (bump_pid ^^ Suc k) m = v" if "m > 32000" for m
  proof -
    have "(bump_pid ^^ Suc (unat v - 20)) m = (bump_pid ^^ (unat v - 20)) 20"
      using that by (simp only: funpow_Suc_right comp_apply) (simp add: bump_pid_def)
    also have "\<dots> = 20 + of_nat (unat v - 20)" using assms by (intro bump_run) simp
    also have "\<dots> = v"
    proof -
      have "unat (20 + of_nat (unat v - 20) :: u16) = unat v"
        using assms by (simp add: unat_word_ariths unat_of_nat)
      then show ?thesis by (rule word_unat_eq_iff [THEN iffD2])
    qed
    finally show ?thesis by blast
  qed
  show ?thesis
  proof (cases "n > 32000")
    case True
    then show ?thesis by (rule top)
  next
    case False
    define k where "k = 32001 - unat n"
    from False have n: "unat n \<le> 32000" by (simp add: word_less_nat_alt)
    then have "(bump_pid ^^ k) n = n + of_nat k" by (intro bump_run) (simp add: k_def)
    moreover have "unat (n + of_nat k) = 32001"
      using n by (simp add: unat_word_ariths unat_of_nat k_def)
    ultimately have "(bump_pid ^^ k) n > 32000" by (simp add: word_less_nat_alt)
    from top [OF this] obtain i where "(bump_pid ^^ Suc i) ((bump_pid ^^ k) n) = v" by blast
    then have "(bump_pid ^^ Suc (i + k)) n = v" by (simp add: funpow_add)
    then show ?thesis by blast
  qed
qed

lemma bump_range: "bump_pid n \<noteq> 0 \<and> unat (bump_pid n) \<le> 32001"
proof (cases "n > 32000")
  case True
  then show ?thesis by (simp add: bump_pid_def)
next
  case False
  then have "unat n \<le> 32000" by (simp add: word_less_nat_alt)
  then have "unat (n + 1) = unat n + 1" by (simp add: unat_word_ariths)
  with False \<open>unat n \<le> 32000\<close> show ?thesis by (auto simp: bump_pid_def)
qed

definition live_pids :: "kst \<Rightarrow> u16 set" where
  "live_pids s = {p_pid (ptab s p) | p. p < ptab_end s \<and> p_status (ptab s p) \<noteq> P_EMPTY}"

lemma pid_in_use_live: "pid_in_use n s \<longleftrightarrow> n \<in> live_pids s"
  by (auto simp: pid_in_use_def live_pids_def)

lemma card_live_pids: "card (live_pids s) \<le> ptab_end s"
proof -
  have "live_pids s \<subseteq> (\<lambda>p. p_pid (ptab s p)) ` {..<ptab_end s}" by (auto simp: live_pids_def)
  then have "card (live_pids s) \<le> card {..<ptab_end s}" by (rule surj_card_le [rotated]) simp
  then show ?thesis by simp
qed

lemma free_pid_exists:
  assumes "ptab_end s < 31000"
  shows "\<exists>k. (bump_pid ^^ Suc k) n \<notin> live_pids s"
proof -
  let ?V = "of_nat ` {20..32001} :: u16 set"
  have inj: "inj_on (of_nat :: nat \<Rightarrow> u16) {20..32001}"
  proof (rule inj_onI)
    fix x y :: nat assume "x \<in> {20..32001}" "y \<in> {20..32001}" "(of_nat x :: u16) = of_nat y"
    then have "x < 65536" "y < 65536" "unat (of_nat x :: u16) = unat (of_nat y :: u16)" by auto
    then show "x = y" by (simp add: unat_of_nat)
  qed
  have "card ?V = 31982" using card_image [OF inj] by simp
  moreover have "finite (live_pids s)" by (rule finite_subset [OF _ finite_imageI]) (auto simp: live_pids_def)
  ultimately have "\<not> ?V \<subseteq> live_pids s"
    using card_live_pids [of s] assms card_mono [of "live_pids s" ?V] by linarith
  then obtain v where v: "v \<in> {20..32001}" "(of_nat v :: u16) \<notin> live_pids s" by blast
  have "unat (of_nat v :: u16) = v" using v by (simp add: unat_of_nat)
  with bump_reaches [of "of_nat v" n] v show ?thesis by (metis atLeastAtMost_iff)
qed

lemma live_pids_cong:
  assumes "ptab_end t = ptab_end s"
    and "\<And>p. p < ptab_end s \<Longrightarrow> p_status (ptab t p) = p_status (ptab s p)"
    and "\<And>p. p < ptab_end s \<Longrightarrow> p_status (ptab s p) \<noteq> P_EMPTY \<Longrightarrow> p_pid (ptab t p) = p_pid (ptab s p)"
  shows "live_pids t = live_pids s"
  using assms unfolding live_pids_def by (intro Collect_cong) (metis (no_types, lifting))

text \<open>
  The search ends, and the id it leaves in the slot belongs to no live process and lies between
  1 and 32001. (MAXPID is 32000: the test is made before the increment.)
\<close>

lemma select_pid_finds:
  assumes "p_status (ptab s p) = P_EMPTY" and "p_pid (ptab s p) = 0"
    and "(bump_pid ^^ Suc k) (nextpid s) \<notin> live_pids s"
  shows "\<exists>n. select_pid p s = Some ((), upd_p p (\<lambda>e. e\<lparr>p_pid := n\<rparr>) (s\<lparr>nextpid := n\<rparr>))
           \<and> n \<notin> live_pids s \<and> n \<noteq> 0 \<and> unat n \<le> 32001"
  using assms
proof (induction k arbitrary: s)
  case 0
  let ?n = "bump_pid (nextpid s)"
  have "live_pids (upd_p p (\<lambda>e. e\<lparr>p_pid := ?n\<rparr>) (s\<lparr>nextpid := ?n\<rparr>)) = live_pids s"
    using 0 by (intro live_pids_cong) (auto simp: upd_p_def)
  then have "\<not> pid_in_use ?n (upd_p p (\<lambda>e. e\<lparr>p_pid := ?n\<rparr>) (s\<lparr>nextpid := ?n\<rparr>))"
    using 0 by (simp add: pid_in_use_live)
  then have "select_pid p s = Some ((), upd_p p (\<lambda>e. e\<lparr>p_pid := ?n\<rparr>) (s\<lparr>nextpid := ?n\<rparr>))"
    using 0 bump_range [of "nextpid s"]
    by (subst select_pid.simps) (simp add: Let_def upd_p_def select_pid.simps)
  with 0 bump_range [of "nextpid s"] show ?case by auto
next
  case (Suc k)
  let ?n = "bump_pid (nextpid s)"
  let ?t = "upd_p p (\<lambda>e. e\<lparr>p_pid := ?n\<rparr>) (s\<lparr>nextpid := ?n\<rparr>)"
  have live: "live_pids ?t = live_pids s"
    using Suc.prems by (intro live_pids_cong) (auto simp: upd_p_def)
  show ?case
  proof (cases "?n \<in> live_pids s")
    case False
    with live have "\<not> pid_in_use ?n ?t" by (simp add: pid_in_use_live)
    then have "select_pid p s = Some ((), ?t)"
      using Suc.prems bump_range [of "nextpid s"]
      by (subst select_pid.simps) (simp add: Let_def upd_p_def select_pid.simps)
    with False bump_range [of "nextpid s"] show ?thesis by auto
  next
    case True
    let ?u = "s\<lparr>nextpid := ?n\<rparr>"
    have zero: "upd_p p (\<lambda>e. e\<lparr>p_pid := 0\<rparr>) ?t = ?u"
    proof -
      have "(ptab s p)\<lparr>p_pid := 0\<rparr> = ptab s p" using Suc.prems(2) by (cases "ptab s p") simp
      then show ?thesis by (simp add: upd_p_def fun_upd_idem_iff)
    qed
    from True live have "pid_in_use ?n ?t" by (simp add: pid_in_use_live)
    then have loop: "select_pid p s = select_pid p ?u"
      using Suc.prems(2) zero by (subst select_pid.simps) (simp add: Let_def upd_p_def)
    have "live_pids ?u = live_pids s" by (simp add: live_pids_def)
    moreover have "(bump_pid ^^ Suc k) (nextpid ?u) \<notin> live_pids s"
      using Suc.prems(3) by (simp only: funpow_Suc_right comp_apply) simp
    ultimately show ?thesis
      using Suc.IH [of ?u] Suc.prems(1,2) loop by (simp add: upd_p_def)
  qed
qed

lemma select_pid_total:
  assumes "ptab_end s < 31000" and "p_status (ptab s p) = P_EMPTY" and "p_pid (ptab s p) = 0"
  shows "\<exists>n. select_pid p s = Some ((), upd_p p (\<lambda>e. e\<lparr>p_pid := n\<rparr>) (s\<lparr>nextpid := n\<rparr>))
           \<and> n \<notin> live_pids s \<and> n \<noteq> 0 \<and> unat n \<le> 32001"
  using free_pid_exists [OF assms(1), of "nextpid s"] select_pid_finds [OF assms(2,3)] by blast

text \<open>What ptab\_alloc() needs of the port's pagemap\_alloc(): it succeeds and writes only the page fields.\<close>

definition pagemap_gives :: "(nat \<Rightarrow> kst \<Rightarrow> u16 \<times> kst) \<Rightarrow> bool" where
  "pagemap_gives pm \<longleftrightarrow>
     (\<forall>p t. \<exists>pg pg2. pm p t = (0, upd_p p (\<lambda>e. e\<lparr>p_page := pg, p_page2 := pg2\<rparr>) t))"

lemma ptab_alloc_fresh:
  assumes pm: "pagemap_gives pm" and bound: "ptab_end s < 31000"
    and free: "\<exists>p<ptab_end s. p_status (ptab s p) = P_EMPTY"
  shows "\<exists>p t. ptab_alloc pm s = Some (Some p, t) \<and> p < ptab_end s
     \<and> p_status (ptab s p) = P_EMPTY \<and> p_status (ptab t p) = P_FORKING
     \<and> p_pid (ptab t p) \<notin> live_pids s \<and> p_pid (ptab t p) \<noteq> 0
     \<and> (\<forall>q. q \<noteq> p \<longrightarrow> ptab t q = ptab s q) \<and> ptab_end t = ptab_end s
     \<and> nproc t = nproc s + 1 \<and> u_error t = 0"
proof -
  obtain p where p: "first_index (ptab_end s) (\<lambda>p. p_status (ptab s p) = P_EMPTY) = Some p"
    using free by (cases "first_index (ptab_end s) (\<lambda>p. p_status (ptab s p) = P_EMPTY)")
      (auto simp: first_index_None)
  then have p': "p < ptab_end s" "p_status (ptab s p) = P_EMPTY"
    by (auto dest: first_index_Some)
  define z where "z = upd_p p (\<lambda>_. zero_ptab) (s\<lparr>u_error := EAGAIN\<rparr>)"
  have z: "p_status (ptab z p) = P_EMPTY" "p_pid (ptab z p) = 0" "ptab_end z = ptab_end s"
    by (simp_all add: z_def zero_ptab_def)
  obtain n where n: "select_pid p z = Some ((), upd_p p (\<lambda>e. e\<lparr>p_pid := n\<rparr>) (z\<lparr>nextpid := n\<rparr>))"
    "n \<notin> live_pids z" "n \<noteq> 0"
    using select_pid_total [of z p] z bound by auto
  have live: "live_pids z = live_pids s"
    using p' by (intro live_pids_cong) (auto simp: z_def zero_ptab_def upd_p_def)
  define w where "w = upd_p p (\<lambda>e. e\<lparr>p_top := u_top s\<rparr>)
      (upd_p p (\<lambda>e. e\<lparr>p_pid := n\<rparr>) (z\<lparr>nextpid := n\<rparr>))"
  obtain pg pg2 where "pm p w = (0, upd_p p (\<lambda>e. e\<lparr>p_page := pg, p_page2 := pg2\<rparr>) w)"
    using pm unfolding pagemap_gives_def by blast
  then have "\<exists>t. ptab_alloc pm s = Some (Some p, t) \<and> p_status (ptab t p) = P_FORKING
      \<and> p_pid (ptab t p) = n \<and> (\<forall>q. q \<noteq> p \<longrightarrow> ptab t q = ptab s q) \<and> ptab_end t = ptab_end s
      \<and> nproc t = nproc s + 1 \<and> u_error t = 0"
    using p n(1) unfolding w_def z_def
    by (simp add: ptab_alloc_def Let_def upd_p_def)
  with p' n live show ?thesis by blast
qed

definition pid_unique :: "kst \<Rightarrow> bool" where
  "pid_unique s \<longleftrightarrow> (\<forall>p<ptab_end s. \<forall>q<ptab_end s.
     p_status (ptab s p) \<noteq> P_EMPTY \<and> p_status (ptab s q) \<noteq> P_EMPTY
     \<and> p_pid (ptab s p) = p_pid (ptab s q) \<longrightarrow> p = q)"

lemma pid_unique_new:
  assumes "pid_unique s" and "ptab_end t = ptab_end s" and "\<forall>q. q \<noteq> p \<longrightarrow> ptab t q = ptab s q"
    and "p_pid (ptab t p) \<notin> live_pids s"
  shows "pid_unique t"
proof -
  have fresh: "p_pid (ptab t q) \<noteq> p_pid (ptab t p)"
    if "q < ptab_end s" "q \<noteq> p" "p_status (ptab t q) \<noteq> P_EMPTY" for q
    using assms(3,4) that by (auto simp: live_pids_def)
  show ?thesis
    unfolding pid_unique_def assms(2)
  proof (intro allI impI)
    fix q r assume "q < ptab_end s" "r < ptab_end s" and
      eq: "p_status (ptab t q) \<noteq> P_EMPTY \<and> p_status (ptab t r) \<noteq> P_EMPTY
        \<and> p_pid (ptab t q) = p_pid (ptab t r)"
    then show "q = r"
      using fresh [of q] fresh [of r] assms(1,3) unfolding pid_unique_def
      by (cases "q = p"; cases "r = p") auto
  qed
qed

subsection \<open>Signal dispatch\<close>

lemma chksigs_skip:
  assumes "\<forall>i. j \<le> i \<and> i < j + k \<longrightarrow> sigmask i AND pending = 0 \<or> u_sigvec s i = SIG_IGN"
    and "0 < j" and "j + k \<le> NSIGS"
  shows "chksigs_from sw pending (j - 1) j s = chksigs_from sw pending (j + k - 1) (j + k) s"
  using assms
proof (induction k)
  case 0
  then show ?case by simp
next
  case (Suc k)
  let ?i = "j + k"
  have "chksigs_from sw pending (j - 1) j s = chksigs_from sw pending (?i - 1) ?i s"
    using Suc by auto
  moreover have "sigmask ?i AND pending = 0 \<or> u_sigvec s ?i = SIG_IGN"
    using Suc.prems by auto
  then have "chksigs_from sw pending (?i - 1) ?i s = chksigs_from sw pending ?i (Suc ?i) s"
    using Suc.prems(2,3) by (subst chksigs_from.simps) (elim disjE; simp add: Let_def del: chksigs_from.simps)
  ultimately show ?case by simp
qed

text \<open>\<open>j\<close> is the lowest pending, unheld signal that is not ignored.\<close>

definition next_signal :: "nat \<Rightarrow> kst \<Rightarrow> bool" where
  "next_signal j s \<longleftrightarrow>
     (let pending = p_pending (self s) AND NOT (p_held (self s)) in
      0 < j \<and> j < NSIGS \<and> sigmask j AND pending \<noteq> 0 \<and> u_sigvec s j \<noteq> SIG_IGN \<and>
      (\<forall>i. 0 < i \<and> i < j \<longrightarrow> sigmask i AND pending = 0 \<or> u_sigvec s i = SIG_IGN))"

lemma chksigs_at:
  assumes "next_signal j s" and "u_cursig s = 0" and "p_status (self s) \<noteq> P_STOPPED"
  shows "chksigs sw s =
    chksigs_from sw (p_pending (self s) AND NOT (p_held (self s))) (j - 1) j s"
proof -
  let ?P = "p_pending (self s) AND NOT (p_held (self s))"
  from assms(1) have j: "0 < j" "j < NSIGS" "sigmask j AND ?P \<noteq> 0"
    "\<forall>i. 0 < i \<and> i < j \<longrightarrow> sigmask i AND ?P = 0 \<or> u_sigvec s i = SIG_IGN"
    by (auto simp: next_signal_def Let_def)
  from j(3) have "?P \<noteq> 0" by auto
  then have "chksigs sw s = chksigs_from sw ?P 0 1 s"
    using assms(2,3) unfolding chksigs_def by (subst chksigs_from.simps) simp
  also have "\<dots> = chksigs_from sw ?P (j - 1) j s"
  proof -
    have one: "1 + (j - 1) = j" using j(1) by simp
    show ?thesis
      using chksigs_skip [of 1 "j - 1" ?P s sw, unfolded one] j by simp
  qed
  finally show ?thesis .
qed

lemma chksigs_handler:
  assumes "next_signal j s" and "u_cursig s = 0" and "p_status (self s) \<noteq> P_STOPPED"
    and "u_sigvec s j \<noteq> SIG_DFL"
  shows "chksigs sw s = Some (Inr (of_nat j),
    (upd_p (u_ptab s) (\<lambda>e. e\<lparr>p_pending := p_pending e AND NOT (sigmask j)\<rparr>) s)\<lparr>u_cursig := of_nat j\<rparr>)"
proof -
  from assms(1) have j: "0 < j" "j < NSIGS" "u_sigvec s j \<noteq> SIG_IGN"
    "sigmask j AND (p_pending (self s) AND NOT (p_held (self s))) \<noteq> 0"
    by (auto simp: next_signal_def Let_def)
  then show ?thesis
    unfolding chksigs_at [OF assms(1-3)] using assms(4)
    by (subst chksigs_from.simps) (simp add: Let_def)
qed

lemma chksigs_fatal:
  assumes "next_signal j s" and "u_cursig s = 0"
    and "p_status (self s) \<noteq> P_STOPPED" and "p_status (self s) \<noteq> P_SLEEP"
    and "u_sigvec s j = SIG_DFL" and "sigmask j AND clear_sigs = 0" and "p_pid (self s) \<noteq> 1"
  shows "chksigs sw s = Some (Inl (of_nat j),
    upd_p (u_ptab s) (\<lambda>e. e\<lparr>p_pending := p_pending e AND NOT (sigmask j)\<rparr>) s)"
proof -
  from assms(1) have j: "0 < j" "j < NSIGS" "u_sigvec s j \<noteq> SIG_IGN"
    "sigmask j AND (p_pending (self s) AND NOT (p_held (self s))) \<noteq> 0"
    by (auto simp: next_signal_def Let_def)
  have "clear_sigs AND stopper = stopper"
    by (simp add: stopper_def clear_sigs_def sigmask_def)
  then have "sigmask j AND stopper = (sigmask j AND clear_sigs) AND stopper"
    by (simp only: and.assoc)
  then have stop: "sigmask j AND stopper = 0"
    using assms(6) by simp
  have pend: "p_pid (self t) = p_pid (self s)" "p_status (self t) = p_status (self s)"
    if "t = upd_p (u_ptab s) (\<lambda>e. e\<lparr>p_pending := p_pending e AND NOT (sigmask j)\<rparr>) s" for t
    using that by simp_all
  have "j \<noteq> 0" "Suc (j - 1) = j" using j(1) by auto
  then show ?thesis
    unfolding chksigs_at [OF assms(1-3)]
    apply (subst chksigs_from.simps)
    apply (simp only: Let_def pend [OF refl] if_False if_True Suc_eq_plus1 [symmetric] j assms stop)
    apply (simp add: j stop assms)
    done
qed

end
