(* ===== verification/Sample.thy ===== *)
theory Sample
  imports KernelState
begin

text \<open>
  A concrete kernel state, the starting point of the states at which the properties are evaluated:
  one running process (slot 0, process id 1), an empty buffer pool of two buffers, no mounted
  file system, and a platform on which every device exists and every transfer succeeds.
\<close>

definition sample_plat :: platform where
  "sample_plat = \<lparr>validdev = (\<lambda>_. True), blk_rd_ok = (\<lambda>_ _. True), blk_wr_ok = (\<lambda>_ _. True),
     drv_open = (\<lambda>_ _. (0, 0)), drv_close = (\<lambda>_. (0, 0)), drv_ioctl = (\<lambda>_ _ _. (0, 0)),
     drv_cread = (\<lambda>_ _ _. ([], 0, 0)), drv_cwrite = (\<lambda>_ _ _. (0, 0)),
     itab_addr = 0x8000, curentry_addr = 0xF000, progbase = 0x100, num_dev_tty = 2\<rparr>"

definition sample_ptab :: p_tab where
  "sample_ptab = \<lparr>p_status = P_EMPTY, p_tty = 0, p_pid = 0, p_uid = 0, p_pptr = 0, p_alarm = 0,
     p_exitval = 0, p_wait = EvNull, p_page = 0, p_page2 = 0, p_priority = 0, p_pending = 0,
     p_ignored = 0, p_held = 0, p_waitno = 0, p_timeout = 0, p_pgrp = 0, p_nice = 0, p_event = 0, p_top = 0\<rparr>"

definition sample_buf :: blkbuf where
  "sample_buf = \<lparr>bf_data = zero_block, bf_dev = NO_DEVICE, bf_blk = 0, bf_dirty = False,
     bf_busy = BF_FREE, bf_time = 0\<rparr>"

definition sample_dinode :: dinode where
  "sample_dinode = \<lparr>i_mode = 0, i_nlink = 0, i_uid = 0, i_gid = 0, i_size = 0, i_atime = 0,
     i_mtime = 0, i_ctime = 0, i_addr = replicate 20 0\<rparr>"

definition sample_cinode :: cinode where
  "sample_cinode = \<lparr>c_magic = 0, c_dev = 0, c_num = 0, c_node = sample_dinode, c_refs = 0,
     c_readers = 0, c_writers = 0, c_flags = 0\<rparr>"

definition sample_filesys :: filesys where
  "sample_filesys = \<lparr>s_mounted = 0, s_isize = 0, s_fsize = 0, s_nfree = 0, s_free = replicate 50 0,
     s_ninode = 0, s_inode = replicate 50 0, s_fmod = 0, s_timeh = 0, s_time = 0, s_tfree = 0,
     s_tinode = 0, s_mntpt = None\<rparr>"

definition sample_mount :: mount where
  "sample_mount = \<lparr>m_dev = NO_DEVICE, m_flags = 0, m_fs = sample_filesys\<rparr>"

definition sample_oft :: oft where
  "sample_oft = \<lparr>o_ptr = 0, o_inode = None, o_access = 0, o_refs = 0\<rparr>"

definition sample_tty :: tty where
  "sample_tty = \<lparr>t_flag = 0, t_users = 0, t_pgrp = 0,
     t_termios = \<lparr>c_iflag = 2, c_oflag = 5, c_cflag = 0x800, c_lflag = 0x57,
       c_cc = [4, 0, 8, 3, 21, 28, 17, 19, 26, 25, 22, 15]\<rparr>,
     t_winsize = \<lparr>ws_row = 24, ws_col = 80, ws_xpixel = 0, ws_ypixel = 0\<rparr>\<rparr>"

definition sample_queue :: s_queue where
  "sample_queue = \<lparr>q_base = 0, q_head = 0, q_tail = 0, q_size = 132, q_count = 0, q_wakeup = 66,
     q_mem = (\<lambda>_. 0)\<rparr>"

definition sample :: kst where
  "sample = \<lparr>u_ptab = 0, u_page = 0, u_page2 = 0, u_insys = False, u_callno = 0,
     u_syscall_sp = 0, u_error = 0, u_ininterrupt = False, u_cursig = 0, u_argn = 0, u_argn1 = 0,
     u_argn2 = 0, u_argn3 = 0, u_top = 0x8000, u_break = 0x200, u_sigvec = (\<lambda>_. SIG_DFL),
     u_base = 0, u_count = 0, u_offset = 0, u_buf = None, u_sysio = False, u_mask = 0, u_gid = 0,
     u_euid = 0, u_egid = 0, u_utime = 0, u_stime = 0, u_cutime = 0, u_cstime = 0, u_time = 0,
     u_files = (\<lambda>_. NO_FILE), u_cloexec = 0, u_cwd = None, u_root = None, u_rename = None,
     u_ctty = None, u_block = 0, u_blkoff = 0, u_nblock = 0,
     ptab = (\<lambda>p. if p = 0 then sample_ptab\<lparr>p_status := P_RUNNING, p_pid := 1\<rparr> else sample_ptab),
     ptab_end = 4, nready = 1, nproc = 1, waitno = 0, nextpid = 1, getproc_nextp = 0, runticks = 0,
     inswap = False, inint = False, need_resched = False, ticks_this_dsecond = 0,
     ticks_per_dsecond = 5, ticks = 0, tod_low = 0, tod_high = 0, tod_deci = 0, utick = 0,
     loadavg = [(235, 0), (251, 0), (254, 0)],
     plat = sample_plat, bufpool = (\<lambda>_. sample_buf), nbufs = 2, bufclock = 0,
     disk = (\<lambda>_ _. zero_block), i_tab = (\<lambda>_. sample_cinode), fs_tab = (\<lambda>_. sample_mount),
     of_tab = (\<lambda>_. sample_oft), root_dev = 0, umem = (\<lambda>_. 0), kmem = (\<lambda>_. 0),
     ttydata = (\<lambda>_. sample_tty), ttyinq = (\<lambda>_. sample_queue), ttyout = []\<rparr>"

lemmas sample_defs = sample_def sample_plat_def sample_ptab_def sample_buf_def sample_dinode_def
  sample_cinode_def sample_filesys_def sample_mount_def sample_oft_def
  sample_tty_def sample_queue_def

end
