(* ===== verification/ProcProps.thy ===== *)
theory ProcProps
  imports CharQueue ProcSpec Sample
begin

text \<open>
  The properties of the process, clock and character queue code, stated over the definitions of
  Process, Timer and CharQueue, each with the concrete run that its hypotheses allow.
\<close>

subsection \<open>The process table\<close>

lemma sample_ptab_fields [simp]:
  "p_status sample_ptab = P_EMPTY" "p_pid sample_ptab = 0" "p_wait sample_ptab = EvNull"
  "p_pending sample_ptab = 0" "p_held sample_ptab = 0"
  by (simp_all add: sample_ptab_def)

lemma sample_fields [simp]:
  "u_ptab sample = 0" "ptab_end sample = 4" "u_cursig sample = 0" "u_sigvec sample = (\<lambda>_. 0)"
  "ptab sample 0 = sample_ptab\<lparr>p_status := P_RUNNING, p_pid := 1\<rparr>"
  by (simp_all add: sample_def)

text \<open>C8: The count of runnable processes is right in every reachable state: starting from a state where
  nready is the number of running and ready slots, any sequence of sleeps, wakeups, signals to
  processes or groups and clock interrupts leaves it so.\<close>

theorem nready_kept:
  assumes "proc_step\<^sup>*\<^sup>* s t" and "nready_ok s"
  shows "nready_ok t"
  using assms by (rule run_count.run_kept)

lemma sample_nready: "nready_ok sample"
proof -
  have "run_set sample = {0}" by (auto simp: run_set_def sample_defs split: if_splits)
  then show ?thesis by (simp add: nready_ok_def sample_def)
qed

theorem nready_kept_witness: "nready_ok (timer_interrupt (ssig 0 15 sample))"
proof (rule nready_kept)
  have "proc_step sample (ssig 0 15 sample)" by (rule ps_signal) (simp add: sample_def)
  then show "proc_step\<^sup>*\<^sup>* sample (timer_interrupt (ssig 0 15 sample))"
    by (meson ps_clock converse_rtranclp_into_rtranclp r_into_rtranclp)
qed (rule sample_nready)

text \<open>wakeup() makes ready exactly the processes that wait on the event, clears their wait address,
  counts the sleepers among them into nready, and changes nothing else.\<close>

theorem wakeup_exact:
  "wakeup ev s = s\<lparr>ptab := (\<lambda>p. if p < ptab_end s \<and> waits_on ev (ptab s p)
      then (ptab s p)\<lparr>p_status := P_READY, p_wait := EvNull\<rparr> else ptab s p),
    nready := nready s + of_nat (card {p. p < ptab_end s \<and> waits_on ev (ptab s p)
      \<and> p_status (ptab s p) = P_SLEEP})\<rparr>"
  by (rule wakeup_eq)

text \<open>C32: The scheduler is a round robin that cannot miss a ready process: when no slot is marked running
  and some slot is ready, getproc() returns, without idling, the first ready slot in cyclic order after
  the slot it chose last, and remembers it.\<close>

theorem getproc_round_robin:
  assumes "getproc_nextp s < ptab_end s" and "\<forall>p<ptab_end s. p_status (ptab s p) \<noteq> P_RUNNING"
    and "r < ptab_end s" and "p_status (ptab s r) = P_READY"
  shows "\<exists>d. 0 < d \<and> d \<le> ptab_end s
    \<and> getproc idle s = Some ((getproc_nextp s + d) mod ptab_end s,
          s\<lparr>getproc_nextp := (getproc_nextp s + d) mod ptab_end s\<rparr>)
    \<and> p_status (ptab s ((getproc_nextp s + d) mod ptab_end s)) = P_READY
    \<and> (\<forall>k. 0 < k \<and> k < d \<longrightarrow> p_status (ptab s ((getproc_nextp s + k) mod ptab_end s)) \<noteq> P_READY)"
proof -
  obtain d where d: "0 < d" "d \<le> ptab_end s"
    "p_status (ptab s ((getproc_nextp s + d) mod ptab_end s)) = P_READY"
    "\<forall>k. 0 < k \<and> k < d \<longrightarrow> p_status (ptab s ((getproc_nextp s + k) mod ptab_end s)) \<noteq> P_READY"
    using ready_distance [OF assms(1,3), of "\<lambda>p. p_status (ptab s p) = P_READY"] assms(4) by blast
  with getproc_first [OF assms(1) d(1,2) assms(2) d(4,3)] show ?thesis by blast
qed

theorem getproc_round_robin_witness:
  "\<exists>n t. getproc (\<lambda>s. s) (sample\<lparr>ptab := (\<lambda>p. if p = 2 then sample_ptab\<lparr>p_status := P_READY\<rparr> else sample_ptab)\<rparr>)
     = Some (n, t) \<and> n < 4"
proof -
  let ?s = "sample\<lparr>ptab := (\<lambda>p. if p = 2 then sample_ptab\<lparr>p_status := P_READY\<rparr> else sample_ptab)\<rparr>"
  have e: "ptab_end ?s = 4" "getproc_nextp ?s = 0" by (simp_all add: sample_def)
  have "p_status (ptab ?s p) \<noteq> P_RUNNING" for p by simp
  then obtain d t where "getproc (\<lambda>s. s) ?s = Some ((getproc_nextp ?s + d) mod ptab_end ?s, t)"
    using getproc_round_robin [of ?s 2 "\<lambda>s. s"] e by auto
  then show ?thesis using e by auto
qed

text \<open>C33: Process creation never reuses the id of a live process: with a free slot, fewer slots than process
  ids and a memory manager that can place the process, ptab\_alloc() returns a slot that was empty, marks
  it forking, counts it, gives it a non-zero id that no live process has, and so keeps the ids of all
  live processes distinct; the other slots are untouched.\<close>

theorem ptab_alloc_distinct:
  assumes "\<exists>p<ptab_end s. p_status (ptab s p) = P_EMPTY" and "ptab_end s < 31000"
    and "pagemap_gives pm" and "pid_unique s"
  shows "\<exists>p t. ptab_alloc pm s = Some (Some p, t) \<and> p < ptab_end s \<and> p_status (ptab s p) = P_EMPTY
     \<and> p_status (ptab t p) = P_FORKING \<and> p_pid (ptab t p) \<noteq> 0 \<and> p_pid (ptab t p) \<notin> live_pids s
     \<and> (\<forall>q. q \<noteq> p \<longrightarrow> ptab t q = ptab s q) \<and> pid_unique t \<and> nproc t = nproc s + 1 \<and> u_error t = 0"
proof -
  obtain p t where t: "ptab_alloc pm s = Some (Some p, t)" "p < ptab_end s"
    "p_status (ptab s p) = P_EMPTY" "p_status (ptab t p) = P_FORKING"
    "p_pid (ptab t p) \<notin> live_pids s" "p_pid (ptab t p) \<noteq> 0"
    "\<forall>q. q \<noteq> p \<longrightarrow> ptab t q = ptab s q" "ptab_end t = ptab_end s"
    "nproc t = nproc s + 1" "u_error t = 0"
    using ptab_alloc_fresh [OF assms(3,2,1)] by blast
  moreover have "pid_unique t" by (rule pid_unique_new [OF assms(4) t(8,7,5)])
  ultimately show ?thesis by blast
qed

theorem ptab_alloc_distinct_witness:
  "\<exists>p t. ptab_alloc (\<lambda>p s. (0, upd_p p (\<lambda>e. e\<lparr>p_page := 1, p_page2 := 2\<rparr>) s)) sample = Some (Some p, t)
     \<and> p_pid (ptab t p) \<noteq> 1"
proof -
  let ?pm = "\<lambda>p s. (0 :: u16, upd_p p (\<lambda>e. e\<lparr>p_page := 1, p_page2 := 2\<rparr>) s)"
  have "pagemap_gives ?pm" by (auto simp: pagemap_gives_def)
  moreover have "\<exists>p<ptab_end sample. p_status (ptab sample p) = P_EMPTY"
    by (rule exI [of _ 1]) (simp add: sample_def)
  moreover have "pid_unique sample" by (auto simp: pid_unique_def sample_def split: if_splits)
  moreover have "ptab_end sample < 31000" by (simp add: sample_def)
  ultimately obtain p t where "ptab_alloc ?pm sample = Some (Some p, t)"
    "p_pid (ptab t p) \<notin> live_pids sample"
    using ptab_alloc_distinct [of sample ?pm] by blast
  moreover have "1 \<in> live_pids sample" by (auto simp: live_pids_def sample_def intro!: exI [of _ 0])
  ultimately show ?thesis by metis
qed

subsection \<open>Signals\<close>

text \<open>C34: chksigs() delivers the lowest numbered pending signal that is neither held nor ignored: if the
  process has a handler for it, exactly that signal stops being pending and becomes the current
  signal.\<close>

theorem signal_to_handler:
  assumes "next_signal j s" and "u_cursig s = 0" and "p_status (self s) \<noteq> P_STOPPED"
    and "u_sigvec s j \<noteq> SIG_DFL"
  shows "chksigs sw s = Some (Inr (of_nat j),
    (upd_p (u_ptab s) (\<lambda>e. e\<lparr>p_pending := p_pending e AND NOT (sigmask j)\<rparr>) s)\<lparr>u_cursig := of_nat j\<rparr>)"
  by (rule chksigs_handler [OF assms])

lemma only_pending:
  "0 < j \<Longrightarrow> j < 32 \<Longrightarrow> sigmask j AND sigmask j \<noteq> 0 \<and> (\<forall>i. i < j \<longrightarrow> sigmask i AND sigmask j = 0)"
proof -
  assume j: "0 < j" "j < 32"
  have b: "n < 32 \<Longrightarrow> bit (sigmask i) n \<longleftrightarrow> n = i" for i n
    by (auto simp: sigmask_def bit_exp_iff)
  have "bit (sigmask j AND sigmask j) j" using j by (simp add: b)
  then have "sigmask j AND sigmask j \<noteq> 0" by (metis bit_0_eq bot_apply bot_bool_def)
  moreover have "sigmask i AND sigmask j = 0" if "i < j" for i
    using that by (intro bit_word_eqI) (auto simp: bit_and_iff b)
  ultimately show ?thesis by blast
qed

theorem signal_to_handler_witness:
  "\<exists>t. chksigs (\<lambda>s. Some s) (upd_p 0 (\<lambda>e. e\<lparr>p_pending := sigmask 15\<rparr>) (sample\<lparr>u_sigvec := (\<lambda>_. 0x400)\<rparr>))
     = Some (Inr 15, t)"
proof -
  let ?s = "upd_p 0 (\<lambda>e. e\<lparr>p_pending := sigmask 15\<rparr>) (sample\<lparr>u_sigvec := (\<lambda>_. 0x400)\<rparr>)"
  have f: "u_ptab ?s = 0" "p_pending (ptab ?s 0) = sigmask 15" "p_held (ptab ?s 0) = 0"
    "u_cursig ?s = 0" "p_status (ptab ?s 0) = P_RUNNING" "u_sigvec ?s = (\<lambda>_. 0x400)"
    by (simp_all add: sample_defs upd_p_def)
  have "next_signal 15 ?s" using only_pending [of 15] by (simp add: next_signal_def Let_def f)
  then show ?thesis using signal_to_handler [of 15 ?s "\<lambda>s. Some s"] by (simp add: f)
qed

text \<open>When that signal has its default action and is not one of the stop or ignored-by-default signals,
  chksigs() ends a process other than init with that signal number, whatever else is pending.\<close>

theorem signal_default_kills:
  assumes "next_signal j s" and "u_cursig s = 0"
    and "p_status (self s) \<noteq> P_STOPPED" and "p_status (self s) \<noteq> P_SLEEP"
    and "u_sigvec s j = SIG_DFL" and "sigmask j AND clear_sigs = 0" and "p_pid (self s) \<noteq> 1"
  shows "chksigs sw s = Some (Inl (of_nat j),
    upd_p (u_ptab s) (\<lambda>e. e\<lparr>p_pending := p_pending e AND NOT (sigmask j)\<rparr>) s)"
  by (rule chksigs_fatal [OF assms])

theorem signal_default_kills_witness:
  "\<exists>t. chksigs (\<lambda>s. Some s) (upd_p 0 (\<lambda>e. e\<lparr>p_pending := sigmask 15, p_pid := 7\<rparr>) sample) = Some (Inl 15, t)"
proof -
  let ?s = "upd_p 0 (\<lambda>e. e\<lparr>p_pending := sigmask 15, p_pid := 7\<rparr>) sample"
  have f: "u_ptab ?s = 0" "p_pending (ptab ?s 0) = sigmask 15" "p_held (ptab ?s 0) = 0"
    "u_cursig ?s = 0" "p_status (ptab ?s 0) = P_RUNNING" "u_sigvec ?s = (\<lambda>_. 0)"
    "p_pid (ptab ?s 0) = 7"
    by (simp_all add: sample_defs upd_p_def)
  have "next_signal 15 ?s" using only_pending [of 15] by (simp add: next_signal_def Let_def f)
  moreover have "sigmask 15 AND clear_sigs = 0" by (simp add: sigmask_def clear_sigs_def)
  ultimately show ?thesis using signal_default_kills [of 15 ?s "\<lambda>s. Some s"] by (simp add: f)
qed

lemma chksigs_skip_clear:
  assumes "\<forall>i. j \<le> i \<and> i < j + k \<longrightarrow> sigmask i AND pending = 0" and "0 < j" and "j + k \<le> NSIGS"
  shows "chksigs_from sw pending v j s = chksigs_from sw pending (v + k) (j + k) s"
  using assms
proof (induction k)
  case 0
  then show ?case by simp
next
  case (Suc k)
  let ?i = "j + k"
  have "chksigs_from sw pending v j s = chksigs_from sw pending (v + k) ?i s"
    using Suc.IH Suc.prems by simp
  moreover have "sigmask ?i AND pending = 0" using Suc.prems(1) by simp
  then have "chksigs_from sw pending (v + k) ?i s = chksigs_from sw pending (Suc (v + k)) (Suc ?i) s"
    using Suc.prems(2,3) by (subst chksigs_from.simps) (simp add: Let_def del: chksigs_from.simps)
  ultimately show ?case by simp
qed

text \<open>After a stop the scan goes wrong: a process with only SIGTSTP (20) pending and the default action is
  stopped; when it runs again chksigs() looks at the stale \<^verbatim>\<open>pending\<close> with the handler pointer still
  advanced, so signal 20, which is no longer pending, is judged by entry 40 of a table of 32.
  Whatever lies there, if it is not 0 or 1, makes SIGTSTP the current signal.\<close>

theorem stop_rescan_overrun:
  assumes "p_pending (self s) AND NOT (p_held (self s)) = sigmask SIGTSTP" and "u_cursig s = 0"
    and "p_status (self s) \<noteq> P_STOPPED" and "u_sigvec s SIGTSTP = SIG_DFL"
    and "sw (upd_p (u_ptab s) (\<lambda>e. e\<lparr>p_status := P_STOPPED, p_event := 20,
           p_pending := p_pending e AND NOT (sigmask SIGTSTP)\<rparr>) (s\<lparr>nready := nready s - 1\<rparr>)) = Some t"
    and "u_cursig t = 0" and "p_status (self t) \<noteq> P_STOPPED"
    and "u_sigvec t 40 \<noteq> SIG_DFL" and "u_sigvec t 40 \<noteq> SIG_IGN"
  shows "\<exists>u. chksigs sw s = Some (Inr 20, u)"
proof -
  let ?P = "sigmask SIGTSTP"
  have one: "sigmask 20 AND sigmask 20 \<noteq> 0" "\<forall>i. i < 20 \<longrightarrow> sigmask i AND ?P = 0" "?P \<noteq> 0"
    using only_pending [of 20] by auto
  have st: "sigmask 20 AND stopper \<noteq> 0" by (simp add: sigmask_def stopper_def)
  have skip: "chksigs_from sw ?P v 1 r = chksigs_from sw ?P (v + 19) 20 r" for v r
    using chksigs_skip_clear [of 1 19 ?P sw v r] one by simp
  have "chksigs sw s = chksigs_from sw ?P 0 0 s" unfolding chksigs_def assms(1) ..
  also have "\<dots> = chksigs_from sw ?P 0 1 s"
    using assms(2,3) one by (subst chksigs_from.simps) simp
  also have "\<dots> = chksigs_from sw ?P 19 20 s" using skip [of 0 s] by simp
  also have "\<dots> = chksigs_from sw ?P 20 0 t"
    using one st assms(4,5) by (subst chksigs_from.simps) (simp add: Let_def)
  also have "\<dots> = chksigs_from sw ?P 20 1 t"
    using assms(6,7) one by (subst chksigs_from.simps) simp
  also have "\<dots> = chksigs_from sw ?P 39 20 t" using skip [of 20 t] by simp
  finally have eq: "chksigs sw s = chksigs_from sw ?P 39 20 t" .
  show ?thesis
    unfolding eq using one assms(8,9) by (subst chksigs_from.simps) (simp add: Let_def)
qed

theorem stop_rescan_overrun_witness:
  "\<exists>u. chksigs (\<lambda>s. Some (upd_p 0 (\<lambda>e. e\<lparr>p_status := P_RUNNING\<rparr>) s))
     (upd_p 0 (\<lambda>e. e\<lparr>p_pending := sigmask 20\<rparr>) (sample\<lparr>u_sigvec := (\<lambda>i. if i < 32 then 0 else 0x1234)\<rparr>))
     = Some (Inr 20, u)"
proof -
  let ?s = "upd_p 0 (\<lambda>e. e\<lparr>p_pending := sigmask 20\<rparr>)
    (sample\<lparr>u_sigvec := (\<lambda>i. if i < 32 then 0 else 0x1234)\<rparr>)"
  let ?t = "upd_p 0 (\<lambda>e. e\<lparr>p_status := P_RUNNING, p_event := 20,
     p_pending := p_pending e AND NOT (sigmask 20)\<rparr>) (?s\<lparr>nready := nready ?s - 1\<rparr>)"
  show ?thesis
    by (rule stop_rescan_overrun [where t = ?t]) (simp_all add: upd_p_def sample_ptab_def)
qed

subsection \<open>Load average\<close>

text \<open>With a 32-bit int the update is the intended exponential decay, rounded down: for at most 255
  runnable processes the new average is (average * exponent + nr * 256 * (256 - exponent)) / 256.
  With the 16-bit int of the Z80 build the product wraps: one runnable process on an idle system
  yields 277 instead of 21.\<close>

theorem load_average_step:
  assumes "unat nr < 256"
  shows "unat (snd (load_step32 nr (e, a)))
      = ((unat a * unat e + unat nr * 256 * (256 - unat e)) div 256) mod 65536
    \<and> load_step 1 (235, 0) = (235, 277) \<and> load_step32 1 (235, 0) = (235, 21)"
proof -
  have b: "unat a < 65536" "unat e < 256" using u16_bound u8_bound by auto
  let ?A = "ucast a :: u32" and ?E = "ucast e :: u32" and ?N = "ucast nr :: u32"
  have E: "(ucast (ucast e :: u16) :: u32) = ?E" by (rule bit_word_eqI) (auto simp: bit_simps dest: bit_imp_le_length)
  define T where "T = unat a * unat e + unat nr * 256 * (256 - unat e)"
  have Tb: "T < 2 ^ 32"
  proof -
    have "unat a * unat e \<le> 65535 * 255" using b by (intro mult_mono) auto
    moreover have "unat nr * 256 * (256 - unat e) \<le> 255 * 256 * 256"
      using assms by (intro mult_mono) auto
    ultimately show ?thesis by (simp add: T_def)
  qed
  have "(?A - push_bit 8 ?N) * ?E + push_bit 16 ?N = ?A * ?E + ?N * 256 * (256 - ?E)"
    by (simp add: push_bit_eq_mult algebra_simps)
  also have "\<dots> = of_nat T"
    using b by (simp add: T_def of_nat_diff)
  finally have tot: "(?A - push_bit 8 ?N) * ?E + push_bit 16 ?N = of_nat T" .
  have "unat (of_nat T :: u32) = T" using Tb by (simp add: unat_of_nat take_bit_nat_eq_self)
  moreover have "unat (ucast w :: u16) = unat w mod 65536" for w :: u32
    by (simp add: unsigned_ucast_eq take_bit_eq_mod)
  moreover have "unat (drop_bit 8 w) = unat w div 256" for w :: u32
    unfolding unsigned_drop_bit_eq using u32_bound [of w]
    by (simp add: drop_bit_eq_div take_bit_nat_eq_self)
  ultimately have "unat (ucast (drop_bit 8 (of_nat T :: u32)) :: u16) = (T div 256) mod 65536"
    by (simp only:)
  moreover have "snd (load_step32 nr (e, a)) = ucast (drop_bit 8 (of_nat T :: u32))"
    using tot E by (simp add: load_step32_def Let_def)
  ultimately have main: "unat (snd (load_step32 nr (e, a))) = (T div 256) mod 65536" by simp
  show ?thesis
    unfolding main T_def by (simp add: load_step_def load_step32_def Let_def)
qed

theorem load_average_step_witness: "snd (load_step32 2 (251, 10)) = 19"
  using load_average_step [of 2 251 10] by (simp add: load_step32_def Let_def)

subsection \<open>Clock\<close>

text \<open>A timer set for fewer than 0x8000 ticks does not report expiry during those ticks and does report
  it during the following 0x8000 ticks, also when the 16-bit tick counter wraps in between.\<close>

theorem timer_interval:
  assumes "unat d < 0x8000" and "ticks_low s' = ticks_low s + of_nat k" and "k \<le> unat d + 0x8000"
  shows "timer_expired (set_timer_duration d s) s' \<longleftrightarrow> unat d < k"
  using timer_window [OF assms(1,2)] assms(3) by (cases "k \<le> unat d") auto

theorem timer_interval_witness:
  "timer_expired (set_timer_duration 5 (sample\<lparr>ticks := 0xFFFE\<rparr>)) (sample\<lparr>ticks := 0x10004\<rparr>)"
  using timer_interval [of 5 "sample\<lparr>ticks := 0x10004\<rparr>" "sample\<lparr>ticks := 0xFFFE\<rparr>" 6]
  by (simp add: ticks_low_def)

text \<open>Ten decisecond updates advance the 64-bit time of day by exactly one second, carrying from the low
  to the high word, wherever within the second they start.\<close>

theorem tod_advances:
  assumes "unat (tod_deci s) < 10"
  shows "tod_secs ((updatetod ^^ 10) s) = (tod_secs s + 1) mod 2 ^ 64
    \<and> tod_deci ((updatetod ^^ 10) s) = tod_deci s"
  using updatetod_ten [OF assms] by blast

theorem tod_advances_witness:
  "tod_secs ((updatetod ^^ 10) (sample\<lparr>tod_low := 0xFFFFFFFF, tod_deci := 3\<rparr>)) = 2 ^ 32"
  using tod_advances [of "sample\<lparr>tod_low := 0xFFFFFFFF, tod_deci := 3\<rparr>"]
  by (simp add: tod_secs_def sample_def)

subsection \<open>Character queues\<close>

definition sample_queue :: s_queue where
  "sample_queue = \<lparr>q_base = 100, q_head = 102, q_tail = 102, q_size = 4, q_count = 0,
     q_wakeup = 0, q_mem = (\<lambda>_. 0)\<rparr>"

text \<open>The terminal queues are FIFOs over the ring: bytes put into an empty queue with insq(), as many as it
  has room for, are all accepted, and remq() returns the same bytes in the same order, wherever the
  pointers stand in the ring.\<close>

theorem queue_fifo:
  assumes "q_wf q" and "q_list q = []" and "length xs \<le> q_room q"
    and "insert_many insq q xs = (rs, q1)"
  shows "list_all (\<lambda>r. r) rs \<and> fst (remove_many remq (length xs) q1) = xs"
  by (rule ttyq.fifo_order [OF assms])

lemma sample_queue_wf: "q_wf sample_queue" "q_list sample_queue = []" "q_room sample_queue = 4"
  by (simp_all add: q_wf_def q_list_def q_room_def sample_queue_def)

theorem queue_fifo_witness:
  "fst (remove_many remq (length [1, 2, 3 :: u8]) (snd (insert_many insq sample_queue [1, 2, 3])))
     = [1, 2, 3]"
proof -
  obtain rs q where q: "insert_many insq sample_queue [1, 2, 3] = (rs, q)" by fastforce
  have "length [1, 2, 3 :: u8] \<le> q_room sample_queue" using sample_queue_wf(3) by simp
  from queue_fifo [OF sample_queue_wf(1,2) this q] show ?thesis unfolding q snd_conv by (rule conjunct2)
qed

text \<open>uninsq() takes back the byte typed last: after insq() into a queue with room it returns that byte
  and the queue holds what it held before, with the same room.\<close>

theorem queue_erase:
  assumes "q_wf q" and "0 < q_room q"
  shows "fst (uninsq (snd (insq q c))) = Some c \<and> q_list (snd (uninsq (snd (insq q c)))) = q_list q
    \<and> q_room (snd (uninsq (snd (insq q c)))) = q_room q"
  using ttyq.unenq_enq [OF assms] by blast

theorem queue_erase_witness: "fst (uninsq (snd (insq sample_queue 65))) = Some 65"
  using queue_erase [OF sample_queue_wf(1), of 65] sample_queue_wf(3) by simp

end
