(* ===== verification/UserMem.thy ===== *)
theory UserMem
  imports KernelState Sample
begin

text \<open>
  Kernel/usermem.c: the checked copies between user and kernel memory. User addresses are 16-bit
  words into \<open>umem\<close>; kernel data is passed as a list of bytes. The low level copies are those of the
  CONFIG\_USERMEM\_C code.
\<close>

definition get_range :: "(u16 \<Rightarrow> u8) \<Rightarrow> u16 \<Rightarrow> nat \<Rightarrow> u8 list" where
  "get_range m base n = map (\<lambda>i. m (base + of_nat i)) [0..<n]"

definition put_range :: "u16 \<Rightarrow> u8 list \<Rightarrow> (u16 \<Rightarrow> u8) \<Rightarrow> u16 \<Rightarrow> u8" where
  "put_range base bs m = (\<lambda>a. if unat (a - base) < length bs then bs ! unat (a - base) else m a)"

lemma length_get_range [simp]: "length (get_range m base n) = n"
  by (simp add: get_range_def)

lemma put_range_Nil [simp]: "put_range base [] m = m"
  by (simp add: put_range_def)

lemma get_put_range:
  assumes "length bs = n" "n \<le> 65536"
  shows "get_range (put_range base bs m) base n = bs"
proof (rule nth_equalityI)
  fix i assume "i < length (get_range (put_range base bs m) base n)"
  then have "i < n" by simp
  moreover from this assms have "unat (of_nat i :: u16) = i"
    by (simp add: unat_of_nat take_bit_nat_eq_self)
  ultimately show "get_range (put_range base bs m) base n ! i = bs ! i"
    using assms by (simp add: get_range_def put_range_def)
qed (use assms in simp)

lemma put_range_outside:
  "length bs \<le> unat (a - base) \<Longrightarrow> put_range base bs m a = m a"
  by (simp add: put_range_def)

subsection \<open>Address checks\<close>

definition valaddr :: "u16 \<Rightarrow> u16 \<Rightarrow> kst \<Rightarrow> u16 \<times> kst" where
  "valaddr base sz s =
     (let sz = (if base = 0 \<or> base < progbase (plat s) \<or> base + sz < base then 0
                  else if base + sz > u_top s then u_top s - base
                  else sz);
          s = (if sz = 0 then s\<lparr>u_error := EFAULT\<rparr> else s)
      in (sz, s))"

subsection \<open>Copies from user memory\<close>

text \<open>\_uget(): the bytes that end up at the kernel destination.\<close>

fun uget_raw :: "(u16 \<Rightarrow> u8) \<Rightarrow> u16 \<Rightarrow> nat \<Rightarrow> u8 list" where
  "uget_raw m user 0 = []"
| "uget_raw m user (Suc count) = m user # uget_raw m (user + 1) count"

text \<open>
  uget(): None for the return value -1 (nothing is copied), else the \<open>count\<close> bytes that
  \<^verbatim>\<open>dst\<close> receives.
\<close>

definition uget :: "u16 \<Rightarrow> u16 \<Rightarrow> kst \<Rightarrow> u8 list option \<times> kst" where
  "uget user count s =
     (let (ok, s) = valaddr user count s
      in if ok = 0 then (None, s) else (Some (uget_raw (umem s) user (unat count)), s))"

definition ugetc :: "u16 \<Rightarrow> kst \<Rightarrow> u16 \<times> kst" where
  "ugetc user s =
     (let (ok, s) = valaddr user 1 s
      in if ok = 0 then (0xFFFF, s) else (ucast (umem s user), s))"

definition ugetw :: "u16 \<Rightarrow> kst \<Rightarrow> u16 \<times> kst" where
  "ugetw user s =
     (let (ok, s) = valaddr user 2 s
      in if ok = 0 then (0xFFFF, s) else (rd16 [umem s user, umem s (user + 1)] 0, s))"

text \<open>
  \_ugets(): the bytes stored at the destination and whether a zero byte was found; without one the
  last byte is overwritten by a zero.
\<close>

fun ugets_raw :: "(u16 \<Rightarrow> u8) \<Rightarrow> u16 \<Rightarrow> nat \<Rightarrow> u8 list \<times> bool" where
  "ugets_raw m user 0 = ([], False)"
| "ugets_raw m user (Suc count) =
     (if m user = 0 then ([0], True)
      else if count = 0 then ([0], False)
      else let (bs, ok) = ugets_raw m (user + 1) count in (m user # bs, ok))"

text \<open>ugets(): None where it returns -1, else the string with its terminating zero byte.\<close>

definition ugets :: "u16 \<Rightarrow> u16 \<Rightarrow> kst \<Rightarrow> u8 list option \<times> kst" where
  "ugets user maxlen s =
     (let (maxlen, s) = valaddr user maxlen s
      in if maxlen = 0 then (None, s)
         else let (bs, ok) = ugets_raw (umem s) user (unat maxlen)
              in if ok then (Some bs, s) else (None, s\<lparr>u_error := EFAULT\<rparr>))"

subsection \<open>Copies to user memory\<close>

fun uput_raw :: "u8 list \<Rightarrow> u16 \<Rightarrow> (u16 \<Rightarrow> u8) \<Rightarrow> (u16 \<Rightarrow> u8)" where
  "uput_raw [] user m = m"
| "uput_raw (b # bs) user m = uput_raw bs (user + 1) (m(user := b))"

text \<open>uput(), uputc(), uputw(), uzero(): the answer is True for the return value -1.\<close>

definition uput :: "u8 list \<Rightarrow> u16 \<Rightarrow> u16 \<Rightarrow> kst \<Rightarrow> bool \<times> kst" where
  "uput source user count s =
     (let (ok, s) = valaddr user count s
      in if ok = 0 then (True, s)
         else (False, s\<lparr>umem := uput_raw (take (unat count) source) user (umem s)\<rparr>))"

definition uputc :: "u16 \<Rightarrow> u16 \<Rightarrow> kst \<Rightarrow> bool \<times> kst" where
  "uputc value user s =
     (let (ok, s) = valaddr user 1 s
      in if ok = 0 then (True, s) else (False, s\<lparr>umem := (umem s)(user := ucast value)\<rparr>))"

definition uputw :: "u16 \<Rightarrow> u16 \<Rightarrow> kst \<Rightarrow> bool \<times> kst" where
  "uputw value user s =
     (let (ok, s) = valaddr user 2 s
      in if ok = 0 then (True, s) else (False, s\<lparr>umem := uput_raw (le16 value) user (umem s)\<rparr>))"

text \<open>
  \_uzero() of CONFIG\_USERMEM\_C has the two bank switches the wrong way round: the loop runs with
  the kernel bank mapped, so it is the kernel's memory that is cleared.
\<close>

definition uzero :: "u16 \<Rightarrow> u16 \<Rightarrow> kst \<Rightarrow> bool \<times> kst" where
  "uzero user count s =
     (let (ok, s) = valaddr user count s
      in if ok = 0 then (True, s)
         else (False, s\<lparr>kmem := uput_raw (replicate (unat count) 0) user (kmem s)\<rparr>))"

subsection \<open>The copies as ranges\<close>

lemma uget_raw_range: "uget_raw m user n = get_range m user n"
proof (induction n arbitrary: user)
  case 0
  then show ?case by (simp add: get_range_def)
next
  case (Suc n)
  have "[0..<Suc n] = 0 # map Suc [0..<n]" by (simp add: map_Suc_upt upt_conv_Cons del: upt_Suc)
  then show ?case using Suc by (simp add: get_range_def add.assoc del: upt_Suc)
qed

lemma uput_raw_other:
  "length bs \<le> unat (a - user) \<Longrightarrow> length bs \<le> 65536 \<Longrightarrow> uput_raw bs user m a = m a"
proof (induction bs arbitrary: user m)
  case Nil
  then show ?case by simp
next
  case (Cons b bs)
  from Cons.prems have ne: "a \<noteq> user" by auto
  have "a - (user + 1) = (a - user) - 1" by simp
  then have "unat (a - (user + 1)) = unat (a - user) - 1"
    using unat_dec [of "a - user"] ne by (simp only: right_minus_eq not_False_eq_True simp_thms)
  then show ?case using Cons ne by simp
qed

lemma uput_raw_range:
  assumes "length bs \<le> 65536"
  shows "uput_raw bs user m = put_range user bs m"
proof (rule ext)
  fix a show "uput_raw bs user m a = put_range user bs m a"
    using assms
  proof (induction bs arbitrary: user m)
    case Nil
    then show ?case by simp
  next
    case (Cons b bs)
    show ?case
    proof (cases "a = user")
      case True
      have "a - (user + 1) = - 1" using True by simp
      then have "length bs \<le> unat (a - (user + 1))" using Cons.prems by (simp add: unsigned_minus_1_eq_mask mask_eq_exp_minus_1)
      then show ?thesis using True Cons.prems by (simp add: uput_raw_other put_range_def)
    next
      case False
      have "a - (user + 1) = (a - user) - 1" by simp
      then have "unat (a - user) = Suc (unat (a - (user + 1)))"
        using unat_dec [of "a - user"] False unat_gt_0 [of "a - user"]
        by (simp only: right_minus_eq not_False_eq_True simp_thms)
      then show ?thesis using False Cons by (simp add: put_range_def)
    qed
  qed
qed

lemma ugets_raw_string:
  "ugets_raw m user n = (bs, True) \<longleftrightarrow>
     (\<exists>k<n. m (user + of_nat k) = 0 \<and> (\<forall>j<k. m (user + of_nat j) \<noteq> 0) \<and>
        bs = get_range m user (Suc k))"
proof (induction n arbitrary: user bs)
  case 0
  then show ?case by simp
next
  case (Suc n)
  have range: "get_range m user (Suc k) = m user # get_range m (user + 1) k" for k
    by (metis uget_raw.simps(2) uget_raw_range)
  show ?case
  proof (cases "m user = 0")
    case True
    have "\<exists>k<Suc n. m (user + of_nat k) = 0 \<and> (\<forall>j<k. m (user + of_nat j) \<noteq> 0) \<and>
        bs = get_range m user (Suc k)" if "bs = [0]"
      by (rule exI [of _ 0]) (use that True range [of 0] in \<open>simp add: get_range_def\<close>)
    moreover have "bs = [0]" if "k < Suc n" "\<forall>j<k. m (user + of_nat j) \<noteq> 0"
      "bs = get_range m user (Suc k)" for k
      using that True by (cases k) (auto simp: get_range_def)
    ultimately show ?thesis using True by auto
  next
    case False
    show ?thesis
    proof
      assume "ugets_raw m user (Suc n) = (bs, True)"
      then obtain cs where cs: "ugets_raw m (user + 1) n = (cs, True)" "bs = m user # cs"
        using False by (auto split: if_splits prod.splits)
      then obtain k where "k < n" "m (user + 1 + of_nat k) = 0"
        "\<forall>j<k. m (user + 1 + of_nat j) \<noteq> 0" "cs = get_range m (user + 1) (Suc k)"
        using Suc.IH [of "user + 1" cs] by blast
      moreover from this False have "\<forall>j<Suc k. m (user + of_nat j) \<noteq> 0"
        by (auto simp: less_Suc_eq_0_disj add.assoc)
      ultimately show "\<exists>k<Suc n. m (user + of_nat k) = 0 \<and> (\<forall>j<k. m (user + of_nat j) \<noteq> 0) \<and>
        bs = get_range m user (Suc k)"
        using cs(2) range [of "Suc k" for k] by (intro exI [of _ "Suc k"]) (auto simp: add.assoc)
    next
      assume "\<exists>k<Suc n. m (user + of_nat k) = 0 \<and> (\<forall>j<k. m (user + of_nat j) \<noteq> 0) \<and>
        bs = get_range m user (Suc k)"
      then obtain k where k: "k < Suc n" "m (user + of_nat k) = 0"
        "\<forall>j<k. m (user + of_nat j) \<noteq> 0" "bs = get_range m user (Suc k)" by blast
      with False obtain i where i: "k = Suc i" by (cases k) auto
      have "ugets_raw m (user + 1) n = (get_range m (user + 1) (Suc i), True)"
        using k i Suc.IH [of "user + 1" "get_range m (user + 1) (Suc i)"]
        by (auto simp: add.assoc intro!: exI [of _ i])
      then show "ugets_raw m user (Suc n) = (bs, True)"
        using False k i range [of "Suc i"] by auto
    qed
  qed
qed

subsection \<open>What valaddr() accepts\<close>

lemma add_no_wrap: "\<not> x + y < x \<Longrightarrow> unat (x + y :: u16) = unat x + unat y"
  by unat_arith

lemma valaddr_cases:
  assumes "base \<le> u_top s"
  shows "fst (valaddr base sz s) = 0
    \<or> (progbase (plat s) \<le> base \<and> base \<noteq> 0 \<and> fst (valaddr base sz s) \<le> sz
        \<and> unat base + unat (fst (valaddr base sz s)) \<le> unat (u_top s))"
proof (cases "base = 0 \<or> base < progbase (plat s) \<or> base + sz < base")
  case True
  then show ?thesis by (auto simp: valaddr_def Let_def)
next
  case False
  then have sum: "unat (base + sz) = unat base + unat sz" using add_no_wrap by blast
  have top: "unat (u_top s - base) = unat (u_top s) - unat base"
    using assms by (simp add: unat_sub)
  from False have v: "fst (valaddr base sz s) = (if base + sz > u_top s then u_top s - base else sz)"
    by (simp add: valaddr_def Let_def)
  show ?thesis
  proof (cases "base + sz > u_top s")
    case True
    then have "unat (u_top s) < unat base + unat sz" using sum by (simp add: word_less_nat_alt)
    then have "u_top s - base \<le> sz" using top by (simp add: word_le_nat_alt)
    then show ?thesis using True False v top assms
      by (auto simp: word_le_nat_alt word_less_nat_alt)
  next
    case nowrap: False
    then show ?thesis using False v sum by (auto simp: word_le_nat_alt word_less_nat_alt)
  qed
qed

text \<open>C36: valaddr() confines a user buffer that starts inside the process: for a base address not
  above u\_top the length it returns is 0, with EFAULT set, or a length no greater than the one asked for
  whose range lies between PROGBASE and u\_top. It changes nothing but u\_error.\<close>

theorem valaddr_confines:
  assumes "base \<le> u_top s"
  shows "(case valaddr base sz s of (n, t) \<Rightarrow>
     t = (if n = 0 then s\<lparr>u_error := EFAULT\<rparr> else s) \<and> n \<le> sz \<and>
     (n \<noteq> 0 \<longrightarrow> progbase (plat s) \<le> base \<and> unat base + unat n \<le> unat (u_top s)))"
proof -
  have "snd (valaddr base sz s) = (if fst (valaddr base sz s) = 0 then s\<lparr>u_error := EFAULT\<rparr> else s)"
    by (simp add: valaddr_def Let_def)
  then show ?thesis
    using valaddr_cases [OF assms, of sz] by (auto simp: case_prod_beta)
qed

theorem valaddr_confines_witness:
  "valaddr 0x7FF0 0x20 sample = (0x10, sample)"
  using valaddr_confines [of "0x7FF0" sample "0x20"] by (simp add: valaddr_def Let_def sample_defs)

text \<open>A base address above u\_top is not refused: when the range does not wrap round, the trimmed
  length \<open>u_top - base\<close> wraps to a non-zero value, so valaddr() accepts an address outside the
  process and reports no error.\<close>

theorem valaddr_above_top:
  assumes "u_top s < base" and "progbase (plat s) \<le> base" and "\<not> base + sz < base"
  shows "valaddr base sz s = (u_top s - base, s) \<and> u_top s - base \<noteq> 0"
proof -
  have "base \<noteq> 0" using assms(1) by auto
  moreover have "u_top s < base + sz" using assms(1,3) by auto
  ultimately show ?thesis using assms by (auto simp: valaddr_def Let_def)
qed

theorem valaddr_above_top_witness: "valaddr 0xF000 0x10 sample = (0x9000, sample)"
  using valaddr_above_top [of sample "0xF000" "0x10"] by (simp add: sample_defs)

text \<open>A successful ugets() delivers exactly the user's string: the bytes from the address given up
  to and including the first zero byte, which lies within the length that valaddr() allows.\<close>

theorem ugets_string:
  assumes "ugets user maxlen s = (Some bs, t)"
  shows "t = s \<and> (\<exists>k < unat (fst (valaddr user maxlen s)).
     bs = get_range (umem s) user (Suc k) \<and> umem s (user + of_nat k) = 0 \<and>
     (\<forall>j<k. umem s (user + of_nat j) \<noteq> 0))"
proof -
  obtain n u where v: "valaddr user maxlen s = (n, u)" by fastforce
  then have u: "n \<noteq> 0 \<Longrightarrow> u = s" by (auto simp: valaddr_def Let_def split: if_splits)
  from assms v have n: "n \<noteq> 0" and "t = u" "ugets_raw (umem u) user (unat n) = (bs, True)"
    by (auto simp: ugets_def split: if_splits prod.splits)
  then show ?thesis using u v ugets_raw_string [of "umem s" user "unat n" bs] by auto
qed

theorem ugets_string_witness:
  "\<exists>bs. ugets 0x200 4 (sample\<lparr>umem := (\<lambda>a. if a = 0x200 then 1 else 0)\<rparr>) = (Some bs, sample\<lparr>umem := (\<lambda>a. if a = 0x200 then 1 else 0)\<rparr>)
     \<and> length bs = 2"
proof -
  let ?s = "sample\<lparr>umem := (\<lambda>a. if a = 0x200 then 1 else 0)\<rparr>"
  have "ugets 0x200 4 ?s = (Some [1, 0], ?s)"
  proof -
    have "valaddr 0x200 4 ?s = (4, ?s)" by (simp add: valaddr_def Let_def sample_defs)
    moreover have "ugets_raw (umem ?s) 0x200 4 = ([1, 0], True)"
      by (simp add: numeral_eq_Suc)
    ultimately show ?thesis by (simp add: ugets_def)
  qed
  then show ?thesis using ugets_string [of "0x200" 4 ?s "[1, 0]" ?s] by auto
qed

end
