(* ===== verification/BufCache.thy ===== *)
theory BufCache
  imports KernelState UserMem
begin

text \<open>
  The buffer pool of Kernel/devio.c and the device switch below it. A bufptr is the index of a
  buffer; a NULL bufptr is None. The C int results of the drivers are 16-bit words, -1 being 0xFFFF.
\<close>

subsection \<open>The device switch\<close>

definition validchk :: "u16 \<Rightarrow> string \<Rightarrow> kst \<Rightarrow> (unit \<times> kst) option" where
  "validchk dev p s = (if \<not> validdev (plat s) dev then panic (p @ '': invalid dev'') s else Some ((), s))"

text \<open>A driver that fails leaves its error in udata.u\_error.\<close>

definition drv_error :: "u16 \<Rightarrow> kst \<Rightarrow> kst" where
  "drv_error e s = (if e = 0 then s else s\<lparr>u_error := e\<rparr>)"

definition bdsetup :: "nat \<Rightarrow> kst \<Rightarrow> kst" where
  "bdsetup bp s = s\<lparr>u_buf := Some bp, u_block := bf_blk (bufpool s bp), u_blkoff := 0, u_nblock := 1\<rparr>"

text \<open>
  bdread() and bdwrite(): the driver entry moves the block udata.u\_block of the device from or to
  the buffer udata.u\_buf and returns BLKSIZE, or fails with EIO and returns -1.
\<close>

definition bdread :: "nat \<Rightarrow> kst \<Rightarrow> (u16 \<times> kst) option" where
  "bdread bp s = do {
     let dev = bf_dev (bufpool s bp);
     (_, s) \<leftarrow> validchk dev ''bdread'' s;
     let s = bdsetup bp s;
     if blk_rd_ok (plat s) dev (u_block s)
     then Some (of_nat BLKSIZE, upd_b bp (\<lambda>b. b\<lparr>bf_data := disk s dev (u_block s)\<rparr>) s)
     else Some (0xFFFF, s\<lparr>u_error := EIO\<rparr>)
   }"

definition bdwrite :: "nat \<Rightarrow> kst \<Rightarrow> (u16 \<times> kst) option" where
  "bdwrite bp s = do {
     let dev = bf_dev (bufpool s bp);
     (_, s) \<leftarrow> validchk dev ''bdwrite'' s;
     let s = bdsetup bp s;
     if blk_wr_ok (plat s) dev (u_block s)
     then Some (of_nat BLKSIZE,
       s\<lparr>disk := (disk s)(dev := (disk s dev)(u_block s := bf_data (bufpool s bp)))\<rparr>)
     else Some (0xFFFF, s\<lparr>u_error := EIO\<rparr>)
   }"

text \<open>
  cdread() and cdwrite(): raw transfers between the device and udata.u\_base. A read delivers the
  bytes the driver answers with; udata.u\_sysio selects the kernel's or the user's memory.
\<close>

definition cdread :: "u16 \<Rightarrow> u8 \<Rightarrow> kst \<Rightarrow> (u16 \<times> kst) option" where
  "cdread dev flag s = do {
     (_, s) \<leftarrow> validchk dev ''cdread'' s;
     let (bs, r, e) = drv_cread (plat s) dev flag (u_count s);
     let s = (if u_sysio s then s\<lparr>kmem := put_range (u_base s) bs (kmem s)\<rparr>
              else s\<lparr>umem := put_range (u_base s) bs (umem s)\<rparr>);
     Some (r, drv_error e s)
   }"

definition cdwrite :: "u16 \<Rightarrow> u8 \<Rightarrow> kst \<Rightarrow> (u16 \<times> kst) option" where
  "cdwrite dev flag s = do {
     (_, s) \<leftarrow> validchk dev ''cdwrite'' s;
     let bs = get_range (if u_sysio s then kmem s else umem s) (u_base s) (unat (u_count s));
     let (r, e) = drv_cwrite (plat s) dev flag bs;
     Some (r, drv_error e s)
   }"

definition d_open :: "u16 \<Rightarrow> u16 \<Rightarrow> kst \<Rightarrow> u16 \<times> kst" where
  "d_open dev flag s =
     (if \<not> validdev (plat s) dev then (0xFFFF, s\<lparr>u_error := ENXIO\<rparr>)
      else let (r, e) = drv_open (plat s) dev (flag AND 0xFF) in (r, drv_error e s))"

definition d_ioctl :: "u16 \<Rightarrow> u16 \<Rightarrow> u16 \<Rightarrow> kst \<Rightarrow> u16 \<times> kst" where
  "d_ioctl dev request data s =
     (if \<not> validdev (plat s) dev then (0xFFFF, s\<lparr>u_error := ENXIO\<rparr>)
      else let (ret, e) = drv_ioctl (plat s) dev request data; s = drv_error e s
           in (ret, if ret = 0xFFFF \<and> u_error s = 0 then s\<lparr>u_error := ENOTTY\<rparr> else s))"

abbreviation (input) BLKFLSBUF :: u16 where "BLKFLSBUF \<equiv> 0x4103"

definition d_flush :: "u16 \<Rightarrow> kst \<Rightarrow> u16 \<times> kst" where
  "d_flush dev s =
     (let (r, s) = d_ioctl dev BLKFLSBUF 0 s
      in if r \<noteq> 0 \<and> u_error s = ENOTTY then (0, s\<lparr>u_error := 0\<rparr>) else (r, s))"

text \<open>d\_blkoff(): the block range of a raw transfer; \<open>sh\<close> is 7, 8 or 9. True is the code's -1.\<close>

definition d_blkoff :: "nat \<Rightarrow> kst \<Rightarrow> bool \<times> kst" where
  "d_blkoff sh s =
     (let m = [0x7F, 0xFF, 0x1FF] ! (sh - 7);
          s = s\<lparr>u_block := ucast (drop_bit sh (u_offset s))\<rparr>
      in if u_offset s AND ucast (m :: u16) \<noteq> 0 then (True, s\<lparr>u_error := EIO\<rparr>)
         else (False, s\<lparr>u_nblock := drop_bit sh (u_count s + m)\<rparr>))"

text \<open>The default handlers of a device switch entry.\<close>

definition nxio_open :: "u8 \<Rightarrow> u16 \<Rightarrow> kst \<Rightarrow> u16 \<times> kst" where
  "nxio_open minor flag s = (0xFFFF, s\<lparr>u_error := ENXIO\<rparr>)"

definition no_open :: "u8 \<Rightarrow> u16 \<Rightarrow> kst \<Rightarrow> u16 \<times> kst" where
  "no_open minor flag s = (0, s)"

definition no_close :: "u8 \<Rightarrow> kst \<Rightarrow> u16 \<times> kst" where
  "no_close minor s = (0, s)"

definition no_rdwr :: "u8 \<Rightarrow> u8 \<Rightarrow> u8 \<Rightarrow> kst \<Rightarrow> u16 \<times> kst" where
  "no_rdwr minor rawflag flag s = (0xFFFF, s\<lparr>u_error := EINVAL\<rparr>)"

definition no_ioctl :: "u8 \<Rightarrow> u16 \<Rightarrow> u16 \<Rightarrow> kst \<Rightarrow> u16 \<times> kst" where
  "no_ioctl minor a b s = (0xFFFF, s\<lparr>u_error := ENOTTY\<rparr>)"

subsection \<open>The buffer pool\<close>

definition bfind :: "u16 \<Rightarrow> u16 \<Rightarrow> kst \<Rightarrow> nat option" where
  "bfind dev blk s =
     first_index (nbufs s) (\<lambda>bp. bf_dev (bufpool s bp) = dev \<and> bf_blk (bufpool s bp) = blk)"

text \<open>The scan of freebuf() for the oldest free buffer; times are compared as unsigned 16-bit ages.\<close>

definition oldest_step :: "kst \<Rightarrow> nat \<Rightarrow> nat option \<times> u16 \<Rightarrow> nat option \<times> u16" where
  "oldest_step s bp acc =
     (if bufclock s - bf_time (bufpool s bp) \<ge> snd acc \<and> bf_busy (bufpool s bp) = BF_FREE
      then (Some bp, bufclock s - bf_time (bufpool s bp)) else acc)"

definition oldest :: "kst \<Rightarrow> nat option" where
  "oldest s = fst (fold (oldest_step s) [0..<nbufs s] (None, 0))"

definition freebuf :: "kst \<Rightarrow> (nat \<times> kst) option" where
  "freebuf s =
     (case oldest s of
        None \<Rightarrow> panic ''no free buffers'' s
      | Some bp \<Rightarrow>
          if bf_dirty (bufpool s bp) then do {
            (r, s) \<leftarrow> bdwrite bp s;
            let s = (if r = 0xFFFF then s\<lparr>u_error := EIO\<rparr> else s);
            let s = upd_b bp (\<lambda>b. b\<lparr>bf_dirty := False\<rparr>) s;
            Some (bp, s)
          } else Some (bp, s))"

text \<open>\<^verbatim>\<open>bp->bf_time = ++bufclock\<close>\<close>

definition stamp :: "nat \<Rightarrow> kst \<Rightarrow> kst" where
  "stamp bp s =
     (let s = s\<lparr>bufclock := bufclock s + 1\<rparr> in upd_b bp (\<lambda>b. b\<lparr>bf_time := bufclock s\<rparr>) s)"

definition bread :: "u16 \<Rightarrow> u16 \<Rightarrow> bool \<Rightarrow> kst \<Rightarrow> (nat option \<times> kst) option" where
  "bread dev blk rewrite s =
     (case bfind dev blk s of
        Some bp \<Rightarrow>
          (case bf_busy (bufpool s bp) of
             BF_BUSY \<Rightarrow> panic ''want busy block'' s
           | BF_FREE \<Rightarrow> Some (Some bp, stamp bp (upd_b bp (\<lambda>b. b\<lparr>bf_busy := BF_BUSY\<rparr>) s))
           | BF_SUPERBLOCK \<Rightarrow> Some (Some bp, stamp bp s))
      | None \<Rightarrow> do {
          (bp, s) \<leftarrow> freebuf s;
          let s = upd_b bp (\<lambda>b. b\<lparr>bf_dev := dev, bf_blk := blk, bf_busy := BF_BUSY\<rparr>) s;
          if \<not> rewrite then do {
            (r, s) \<leftarrow> bdread bp s;
            if r \<noteq> of_nat BLKSIZE then
              (let s = s\<lparr>u_error := EIO\<rparr>;
                   s = upd_b bp (\<lambda>b. b\<lparr>bf_busy := BF_FREE, bf_dev := NO_DEVICE\<rparr>) s
               in Some (None, s))
            else Some (Some bp, stamp bp s)
          } else Some (Some bp, stamp bp s)
        })"

text \<open>bfree(): the answer is 0 or -1.\<close>

definition bfree :: "nat \<Rightarrow> u8 \<Rightarrow> kst \<Rightarrow> (u16 \<times> kst) option" where
  "bfree bp dirty s = do {
     let s = (if dirty \<noteq> 0 then upd_b bp (\<lambda>b. b\<lparr>bf_dirty := True\<rparr>) s else s);
     let s = (if bf_busy (bufpool s bp) = BF_BUSY then upd_b bp (\<lambda>b. b\<lparr>bf_busy := BF_FREE\<rparr>) s else s);
     if dirty > 1 then do {
       (r, s) \<leftarrow> bdwrite bp s;
       if r \<noteq> of_nat BLKSIZE then Some (0xFFFF, s\<lparr>u_error := EIO\<rparr>)
       else Some (0, upd_b bp (\<lambda>b. b\<lparr>bf_dirty := False\<rparr>) s)
     } else Some (0, s)
   }"

definition brelse :: "nat \<Rightarrow> kst \<Rightarrow> (unit \<times> kst) option" where
  "brelse bp s = do { (_, s) \<leftarrow> bfree bp 0 s; Some ((), s) }"

definition bawrite :: "nat \<Rightarrow> kst \<Rightarrow> (unit \<times> kst) option" where
  "bawrite bp s = do { (_, s) \<leftarrow> bfree bp 1 s; Some ((), s) }"

definition tmpbuf :: "kst \<Rightarrow> (nat \<times> kst) option" where
  "tmpbuf s = do {
     (bp, s) \<leftarrow> freebuf s;
     let s = upd_b bp (\<lambda>b. b\<lparr>bf_dev := NO_DEVICE, bf_busy := BF_BUSY\<rparr>) s;
     Some (bp, stamp bp s)
   }"

definition zerobuf :: "kst \<Rightarrow> (nat \<times> kst) option" where
  "zerobuf s = do {
     (bp, s) \<leftarrow> tmpbuf s;
     Some (bp, upd_b bp (\<lambda>b. b\<lparr>bf_data := zero_block\<rparr>) s)
   }"

definition bdput :: "nat \<Rightarrow> kst \<Rightarrow> (unit \<times> kst) option" where
  "bdput bp s = do {
     (_, s) \<leftarrow> bdwrite bp s;
     let s = (if bf_busy (bufpool s bp) = BF_FREE then upd_b bp (\<lambda>b. b\<lparr>bf_dirty := False\<rparr>) s else s);
     let (_, s) = d_flush (bf_dev (bufpool s bp)) s;
     Some ((), s)
   }"

definition bufsync_step :: "nat \<Rightarrow> kst \<Rightarrow> (unit \<times> kst) option" where
  "bufsync_step bp s =
     (if bf_dev (bufpool s bp) \<noteq> NO_DEVICE \<and> bf_dirty (bufpool s bp) then bdput bp s else Some ((), s))"

definition bufsync :: "kst \<Rightarrow> (unit \<times> kst) option" where
  "bufsync s = for_each [0..<nbufs s] bufsync_step s"

definition bdrop_step :: "u16 \<Rightarrow> nat \<Rightarrow> kst \<Rightarrow> (unit \<times> kst) option" where
  "bdrop_step dev bp s =
     (if bf_dev (bufpool s bp) = dev then do {
        (_, s) \<leftarrow> bdput bp s;
        Some ((), upd_b bp (\<lambda>b. b\<lparr>bf_dev := NO_DEVICE\<rparr>) s)
      } else Some ((), s))"

definition bdrop :: "u16 \<Rightarrow> kst \<Rightarrow> (unit \<times> kst) option" where
  "bdrop dev s = for_each [0..<nbufs s] (bdrop_step dev) s"

definition bufdiscard :: "nat \<Rightarrow> kst \<Rightarrow> kst" where
  "bufdiscard bp s =
     (if \<not> bf_dirty (bufpool s bp) then upd_b bp (\<lambda>b. b\<lparr>bf_time := bufclock s - 1000\<rparr>) s else s)"

definition d_close :: "u16 \<Rightarrow> kst \<Rightarrow> (u16 \<times> kst) option" where
  "d_close dev s = do {
     (_, s) \<leftarrow> validchk dev ''d_close'' s;
     (_, s) \<leftarrow> bdrop dev s;
     let (r, e) = drv_close (plat s) dev;
     Some (r, drv_error e s)
   }"

end
