(* ===== verification/BufSpec.thy ===== *)
theory BufSpec
  imports BufCache
begin

text \<open>
  What the buffer pool guarantees. \<open>view s dev blk\<close> is the content of a block as the kernel sees it:
  the buffer that holds it, or the medium. The invariant \<open>cache_ok\<close> says that no block is in two
  buffers, that a clean buffer agrees with the medium, and that a buffer without a device is
  never dirty (nothing in the kernel makes a buffer BF\_SUPERBLOCK). Reading, writing back, evicting and synchronising keep it and do not change \<open>view\<close>.
\<close>

subsection \<open>Replacement\<close>

definition buf_age :: "kst \<Rightarrow> nat \<Rightarrow> u16" where
  "buf_age s b = bufclock s - bf_time (bufpool s b)"

definition buf_free :: "kst \<Rightarrow> nat \<Rightarrow> bool" where
  "buf_free s b \<longleftrightarrow> b < nbufs s \<and> bf_busy (bufpool s b) = BF_FREE"

lemma oldest_scan:
  "n \<le> nbufs s \<Longrightarrow>
   (case fold (oldest_step s) [0..<n] (None, 0) of
      (None, a) \<Rightarrow> a = 0 \<and> (\<forall>b<n. \<not> buf_free s b)
    | (Some b, a) \<Rightarrow> b < n \<and> buf_free s b \<and> a = buf_age s b
        \<and> (\<forall>c<n. buf_free s c \<longrightarrow> buf_age s c \<le> buf_age s b)
        \<and> (\<forall>c<n. buf_free s c \<and> b < c \<longrightarrow> buf_age s c < buf_age s b))"
proof (induction n)
  case 0
  then show ?case by simp
next
  case (Suc n)
  let ?r = "fold (oldest_step s) [0..<n] (None, 0)"
  have step: "fold (oldest_step s) [0..<Suc n] (None, 0) = oldest_step s n ?r" by simp
  have free: "(bf_busy (bufpool s n) = BF_FREE) = buf_free s n"
    using Suc.prems by (simp add: buf_free_def)
  obtain o' a where r: "?r = (o', a)" by fastforce
  show ?case
  proof (cases o')
    case None
    with Suc r have h: "a = 0" "\<forall>b<n. \<not> buf_free s b" by auto
    show ?thesis
      unfolding step r None using h
      by (auto simp: oldest_step_def free less_Suc_eq buf_age_def [symmetric])
  next
    case (Some b)
    with Suc r have h: "b < n" "buf_free s b" "a = buf_age s b"
      "\<forall>c<n. buf_free s c \<longrightarrow> buf_age s c \<le> buf_age s b"
      "\<forall>c<n. buf_free s c \<and> b < c \<longrightarrow> buf_age s c < buf_age s b" by auto
    show ?thesis
    proof (cases "buf_age s n \<ge> a \<and> buf_free s n")
      case True
      then have "oldest_step s n ?r = (Some n, buf_age s n)"
        by (simp add: oldest_step_def r free buf_age_def)
      with True h show ?thesis
        unfolding step by (auto simp: less_Suc_eq intro: order_trans)
    next
      case False
      then have "oldest_step s n ?r = (Some b, a)"
        by (auto simp: oldest_step_def r Some free buf_age_def)
      with False h show ?thesis
        unfolding step by (auto simp: less_Suc_eq)
    qed
  qed
qed

lemma oldest_Some:
  assumes "oldest s = Some b"
  shows "buf_free s b" and "\<And>c. buf_free s c \<Longrightarrow> buf_age s c \<le> buf_age s b"
proof -
  have "case fold (oldest_step s) [0..<nbufs s] (None, 0) of
      (None, a) \<Rightarrow> True | (Some b, a) \<Rightarrow> buf_free s b
        \<and> (\<forall>c<nbufs s. buf_free s c \<longrightarrow> buf_age s c \<le> buf_age s b)"
    using oldest_scan [of "nbufs s" s] by (auto split: prod.splits option.splits)
  with assms show "buf_free s b" "\<And>c. buf_free s c \<Longrightarrow> buf_age s c \<le> buf_age s b"
    by (auto simp: oldest_def buf_free_def split: prod.splits option.splits)
qed

lemma oldest_None: "oldest s = None \<longleftrightarrow> (\<forall>b. \<not> buf_free s b)"
  using oldest_scan [of "nbufs s" s] oldest_Some(1) [of s]
  by (auto simp: oldest_def buf_free_def split: prod.splits option.splits)

subsection \<open>What a block operation may touch\<close>

text \<open>The kernel state without the fields that a block transfer uses: the rest is unchanged by
  every operation of the buffer pool.\<close>

definition io_core :: "kst \<Rightarrow> kst" where
  "io_core s = s\<lparr>u_buf := None, u_block := 0, u_blkoff := 0, u_nblock := 0, u_error := 0,
     bufpool := (\<lambda>_. sample_buf), bufclock := 0, disk := (\<lambda>_ _. zero_block)\<rparr>"

lemma io_core_upd [simp]:
  "io_core (s\<lparr>u_buf := a1\<rparr>) = io_core s"
  "io_core (s\<lparr>u_block := a2\<rparr>) = io_core s"
  "io_core (s\<lparr>u_blkoff := a3\<rparr>) = io_core s"
  "io_core (s\<lparr>u_nblock := a4\<rparr>) = io_core s"
  "io_core (s\<lparr>u_error := a5\<rparr>) = io_core s"
  "io_core (s\<lparr>bufpool := a6\<rparr>) = io_core s"
  "io_core (s\<lparr>bufclock := a7\<rparr>) = io_core s"
  "io_core (s\<lparr>disk := a8\<rparr>) = io_core s"
  "io_core (upd_b b f s) = io_core s"
  "io_core (bdsetup b s) = io_core s"
  "io_core (stamp b s) = io_core s"
  "io_core (drv_error e s) = io_core s"
  by (simp_all add: io_core_def upd_b_def bdsetup_def stamp_def Let_def drv_error_def)

lemma io_core_fields:
  assumes "io_core t = io_core s"
  shows "i_tab t = i_tab s" "fs_tab t = fs_tab s" "of_tab t = of_tab s" "plat t = plat s"
    "nbufs t = nbufs s" "ptab t = ptab s" "u_euid t = u_euid s" "u_egid t = u_egid s"
    "u_offset t = u_offset s" "u_count t = u_count s" "u_base t = u_base s" "u_sysio t = u_sysio s"
    "umem t = umem s" "kmem t = kmem s" "u_files t = u_files s" "tod_low t = tod_low s"
    "tod_high t = tod_high s" "root_dev t = root_dev s" "u_ptab t = u_ptab s"
    "u_cwd t = u_cwd s" "u_root t = u_root s" "u_rename t = u_rename s" "ptab_end t = ptab_end s"
  using assms [THEN arg_cong, of i_tab] assms [THEN arg_cong, of fs_tab]
    assms [THEN arg_cong, of of_tab] assms [THEN arg_cong, of plat]
    assms [THEN arg_cong, of nbufs] assms [THEN arg_cong, of ptab]
    assms [THEN arg_cong, of u_euid] assms [THEN arg_cong, of u_egid]
    assms [THEN arg_cong, of u_offset] assms [THEN arg_cong, of u_count]
    assms [THEN arg_cong, of u_base] assms [THEN arg_cong, of u_sysio]
    assms [THEN arg_cong, of umem] assms [THEN arg_cong, of kmem]
    assms [THEN arg_cong, of u_files] assms [THEN arg_cong, of tod_low]
    assms [THEN arg_cong, of tod_high] assms [THEN arg_cong, of root_dev]
    assms [THEN arg_cong, of u_ptab] assms [THEN arg_cong, of u_cwd]
    assms [THEN arg_cong, of u_root] assms [THEN arg_cong, of u_rename]
    assms [THEN arg_cong, of ptab_end]
  by (simp_all add: io_core_def)

subsection \<open>Block contents and the invariant\<close>

definition buf_holds :: "kst \<Rightarrow> nat \<Rightarrow> u16 \<Rightarrow> u16 \<Rightarrow> bool" where
  "buf_holds s b d k \<longleftrightarrow> b < nbufs s \<and> bf_dev (bufpool s b) = d \<and> bf_blk (bufpool s b) = k"

definition view :: "kst \<Rightarrow> u16 \<Rightarrow> u16 \<Rightarrow> block" where
  "view s d k = (case bfind d k s of Some b \<Rightarrow> bf_data (bufpool s b) | None \<Rightarrow> disk s d k)"

definition buf_ok :: "kst \<Rightarrow> blkbuf \<Rightarrow> bool" where
  "buf_ok s x \<longleftrightarrow> bf_busy x \<noteq> BF_SUPERBLOCK \<and>
     (if bf_dev x = NO_DEVICE then \<not> bf_dirty x
      else validdev (plat s) (bf_dev x)
        \<and> (\<not> bf_dirty x \<longrightarrow> bf_data x = disk s (bf_dev x) (bf_blk x)))"

definition same_block :: "blkbuf \<Rightarrow> blkbuf \<Rightarrow> bool" where
  "same_block x y \<longleftrightarrow> bf_dev x \<noteq> NO_DEVICE \<and> bf_dev x = bf_dev y \<and> bf_blk x = bf_blk y"

definition cache_ok :: "kst \<Rightarrow> bool" where
  "cache_ok s \<longleftrightarrow>
     (\<forall>b c. b < nbufs s \<and> c < nbufs s \<and> same_block (bufpool s b) (bufpool s c) \<longrightarrow> b = c)
     \<and> (\<forall>b<nbufs s. buf_ok s (bufpool s b))"

lemma cache_unique:
  assumes "cache_ok s" "buf_holds s b d k" "buf_holds s c d k" "d \<noteq> NO_DEVICE"
  shows "b = c"
proof -
  have "same_block (bufpool s b) (bufpool s c)" using assms(2-4) by (simp add: same_block_def buf_holds_def)
  with assms(1-3) show ?thesis unfolding cache_ok_def buf_holds_def by (elim conjE allE [of _ b] allE [of _ c]) simp
qed

lemma cache_buf_ok: "cache_ok s \<Longrightarrow> b < nbufs s \<Longrightarrow> buf_ok s (bufpool s b)"
  by (simp add: cache_ok_def)

lemma bfind_Some: "bfind d k s = Some b \<Longrightarrow> buf_holds s b d k"
  unfolding bfind_def buf_holds_def by (drule first_index_Some) simp

lemma bfind_None: "bfind d k s = None \<longleftrightarrow> (\<forall>b. \<not> buf_holds s b d k)"
  unfolding bfind_def first_index_None buf_holds_def by auto

lemma bfind_holds:
  assumes "cache_ok s" "buf_holds s b d k" "d \<noteq> NO_DEVICE"
  shows "bfind d k s = Some b"
proof (cases "bfind d k s")
  case None
  with assms(2) have False unfolding bfind_None by blast
  then show ?thesis ..
next
  case (Some c)
  with cache_unique [OF assms(1,2) bfind_Some assms(3)] show ?thesis by simp
qed

lemma view_hit: "cache_ok s \<Longrightarrow> buf_holds s b d k \<Longrightarrow> d \<noteq> NO_DEVICE \<Longrightarrow> view s d k = bf_data (bufpool s b)"
  by (simp add: view_def bfind_holds)

lemma view_miss: "bfind d k s = None \<Longrightarrow> view s d k = disk s d k"
  by (simp add: view_def)

lemma bfind_cong:
  assumes "nbufs t = nbufs s"
    and "\<And>b. b < nbufs s \<Longrightarrow> bf_dev (bufpool t b) = bf_dev (bufpool s b) \<and> bf_blk (bufpool t b) = bf_blk (bufpool s b)"
  shows "bfind d k t = bfind d k s"
proof -
  show ?thesis
    unfolding bfind_def first_index_def assms(1) by (rule find_cong) (simp_all add: assms(2))
qed

text \<open>Both depend on the pool, the media and the platform only.\<close>

lemma cache_cong:
  assumes "nbufs t = nbufs s" "bufpool t = bufpool s" "disk t = disk s" "plat t = plat s"
  shows "cache_ok t = cache_ok s" and "view t = view s"
  using assms by (auto simp: cache_ok_def buf_ok_def view_def bfind_def fun_eq_iff split: option.split)

lemma cache_frame [simp]:
  "cache_ok (s\<lparr>u_error := e\<rparr>) = cache_ok s" "view (s\<lparr>u_error := e\<rparr>) = view s"
  "cache_ok (s\<lparr>bufclock := c\<rparr>) = cache_ok s" "view (s\<lparr>bufclock := c\<rparr>) = view s"
  "cache_ok (bdsetup b s) = cache_ok s" "view (bdsetup b s) = view s"
  "cache_ok (drv_error e s) = cache_ok s" "view (drv_error e s) = view s"
  by (intro cache_cong; simp add: bdsetup_def drv_error_def)+

lemma bufpool_upd_b [simp]: "bufpool (upd_b b f s) = (bufpool s)(b := f (bufpool s b))"
  by (simp add: upd_b_def)

lemma buf_holds_upd_b:
  "buf_holds (upd_b b f s) c d k \<longleftrightarrow> c < nbufs s
     \<and> bf_dev (if c = b then f (bufpool s b) else bufpool s c) = d
     \<and> bf_blk (if c = b then f (bufpool s b) else bufpool s c) = k"
  by (auto simp: buf_holds_def upd_b_def)

lemma upd_b_fields [simp]:
  "nbufs (upd_b b f s) = nbufs s" "disk (upd_b b f s) = disk s" "plat (upd_b b f s) = plat s"
  "bufclock (upd_b b f s) = bufclock s" "u_error (upd_b b f s) = u_error s"
  "i_tab (upd_b b f s) = i_tab s" "fs_tab (upd_b b f s) = fs_tab s"
  by (simp_all add: upd_b_def)

subsection \<open>Changing one buffer\<close>

text \<open>\<open>touch\<close>: a buffer keeps its name; \<open>install\<close>: a nameless buffer gets the name of a block that is
  not cached; \<open>forget\<close>: a buffer whose content is on the medium loses its name.\<close>

lemma cache_upd_b:
  assumes ok: "cache_ok s" and x: "buf_ok s (f (bufpool s b))"
    and new: "\<And>c. c < nbufs s \<Longrightarrow> c \<noteq> b \<Longrightarrow> \<not> same_block (f (bufpool s b)) (bufpool s c)"
  shows "cache_ok (upd_b b f s)"
proof -
  have sym: "same_block y z \<Longrightarrow> same_block z y" for y z by (auto simp: same_block_def)
  have uniq: "c = c'" if "c < nbufs s" "c' < nbufs s"
    "same_block (bufpool (upd_b b f s) c) (bufpool (upd_b b f s) c')" for c c'
  proof (cases "c = b \<or> c' = b")
    case True
    then show ?thesis
      using that new [of c] new [of c'] sym [of "bufpool s c" "f (bufpool s b)"]
      by (cases "c = b"; cases "c' = b") simp_all
  next
    case False
    then show ?thesis using that ok by (simp add: cache_ok_def)
  qed
  have "buf_ok (upd_b b f s) y = buf_ok s y" for y by (simp add: buf_ok_def)
  then have "buf_ok (upd_b b f s) (bufpool (upd_b b f s) c)" if "c < nbufs s" for c
    using that x cache_buf_ok [OF ok that] by simp
  with uniq show ?thesis unfolding cache_ok_def upd_b_fields by blast
qed

lemma touch:
  assumes ok: "cache_ok s" and b: "b < nbufs s"
    and key: "bf_dev (f (bufpool s b)) = bf_dev (bufpool s b)"
      "bf_blk (f (bufpool s b)) = bf_blk (bufpool s b)"
    and x: "buf_ok s (f (bufpool s b))"
  shows "cache_ok (upd_b b f s)"
    and "d \<noteq> NO_DEVICE \<Longrightarrow> view (upd_b b f s) d k =
      (if buf_holds s b d k then bf_data (f (bufpool s b)) else view s d k)"
proof -
  show "cache_ok (upd_b b f s)"
  proof (rule cache_upd_b [where f = f, OF ok x])
    fix c assume "c < nbufs s" "c \<noteq> b"
    then show "\<not> same_block (f (bufpool s b)) (bufpool s c)"
      using ok b key unfolding cache_ok_def same_block_def by metis
  qed
  have same: "bfind d k (upd_b b f s) = bfind d k s"
    by (rule bfind_cong) (auto simp: key)
  assume d: "d \<noteq> NO_DEVICE"
  show "view (upd_b b f s) d k =
      (if buf_holds s b d k then bf_data (f (bufpool s b)) else view s d k)"
  proof (cases "buf_holds s b d k")
    case True
    then show ?thesis using bfind_holds [OF ok True d] same by (simp add: view_def)
  next
    case False
    then have "bfind d k s \<noteq> Some b" using bfind_Some by blast
    then show ?thesis using False same by (cases "bfind d k s") (simp_all add: view_def)
  qed
qed

lemma bfind_rename:
  assumes ok: "cache_ok s" and ok': "cache_ok (upd_b b f s)" and d: "d \<noteq> NO_DEVICE"
    and old: "\<not> buf_holds s b d k" and new: "\<not> buf_holds (upd_b b f s) b d k"
  shows "view (upd_b b f s) d k = view s d k"
proof (cases "bfind d k s")
  case None
  then have "\<not> buf_holds (upd_b b f s) c d k" for c
    using new unfolding bfind_None by (cases "c = b") (auto simp: buf_holds_upd_b buf_holds_def)
  then have "bfind d k (upd_b b f s) = None" by (simp only: bfind_None) blast
  with None show ?thesis by (simp add: view_miss)
next
  case (Some c)
  with bfind_Some [OF Some] old have "c \<noteq> b" "buf_holds s c d k" by auto
  moreover from this have "bfind d k (upd_b b f s) = Some c"
    using bfind_holds [OF ok' _ d, of c k] by (simp add: buf_holds_upd_b buf_holds_def)
  ultimately show ?thesis using Some by (simp add: view_def)
qed

lemma install:
  assumes ok: "cache_ok s" and b: "b < nbufs s" and nod: "bf_dev (bufpool s b) = NO_DEVICE"
    and miss: "bfind d k s = None" and d: "d \<noteq> NO_DEVICE"
    and x: "bf_dev (f (bufpool s b)) = d" "bf_blk (f (bufpool s b)) = k" "buf_ok s (f (bufpool s b))"
  shows "cache_ok (upd_b b f s)"
    and "e \<noteq> NO_DEVICE \<Longrightarrow> view (upd_b b f s) e l =
      (if e = d \<and> l = k then bf_data (f (bufpool s b)) else view s e l)"
proof -
  have none: "\<not> buf_holds s c d k" for c using miss unfolding bfind_None by blast
  show ok': "cache_ok (upd_b b f s)"
  proof (rule cache_upd_b [where f = f, OF ok x(3)])
    fix c assume "c < nbufs s" "c \<noteq> b"
    then show "\<not> same_block (f (bufpool s b)) (bufpool s c)"
      using none [of c] x by (auto simp: same_block_def buf_holds_def)
  qed
  assume e: "e \<noteq> NO_DEVICE"
  show "view (upd_b b f s) e l =
      (if e = d \<and> l = k then bf_data (f (bufpool s b)) else view s e l)"
  proof (cases "e = d \<and> l = k")
    case True
    then show ?thesis using view_hit [OF ok', of b e l] b x e by (simp add: buf_holds_upd_b)
  next
    case False
    then show ?thesis
      using bfind_rename [OF ok ok' e, of l] nod e x by (auto simp: buf_holds_upd_b buf_holds_def)
  qed
qed

lemma forget:
  assumes ok: "cache_ok s" and b: "b < nbufs s"
    and x: "bf_dev (f (bufpool s b)) = NO_DEVICE" "\<not> bf_dirty (f (bufpool s b))"
      "bf_busy (f (bufpool s b)) \<noteq> BF_SUPERBLOCK"
    and data: "bf_dev (bufpool s b) \<noteq> NO_DEVICE \<Longrightarrow>
      bf_data (bufpool s b) = disk s (bf_dev (bufpool s b)) (bf_blk (bufpool s b))"
  shows "cache_ok (upd_b b f s)"
    and "d \<noteq> NO_DEVICE \<Longrightarrow> view (upd_b b f s) d k = view s d k"
proof -
  show ok': "cache_ok (upd_b b f s)"
    using x by (intro cache_upd_b [OF ok]) (auto simp: buf_ok_def same_block_def)
  assume d: "d \<noteq> NO_DEVICE"
  show "view (upd_b b f s) d k = view s d k"
  proof (cases "buf_holds s b d k")
    case True
    have "\<not> buf_holds (upd_b b f s) c d k" for c
      using cache_unique [OF ok _ True d, of c] x d by (cases "c = b") (auto simp: buf_holds_upd_b buf_holds_def)
    then have "bfind d k (upd_b b f s) = None" by (simp only: bfind_None) blast
    then show ?thesis using True d data view_hit [OF ok True d] by (simp add: view_miss buf_holds_def)
  next
    case False
    then show ?thesis using bfind_rename [OF ok ok' d] x d by (simp add: buf_holds_upd_b)
  qed
qed

subsection \<open>Writing a buffer back\<close>

lemma bdwrite_cases:
  assumes "bdwrite b s = Some (r, t)"
  shows "validdev (plat s) (bf_dev (bufpool s b))" and "io_core t = io_core s"
    and "bufpool t = bufpool s" and "bufclock t = bufclock s"
    and "r = 512 \<and> u_error t = u_error s \<and> disk t = (disk s)(bf_dev (bufpool s b) :=
           (disk s (bf_dev (bufpool s b)))(bf_blk (bufpool s b) := bf_data (bufpool s b)))
       \<or> r = 0xFFFF \<and> u_error t = EIO \<and> disk t = disk s
         \<and> \<not> blk_wr_ok (plat s) (bf_dev (bufpool s b)) (bf_blk (bufpool s b))"
  using assms
  by (auto simp: bdwrite_def validchk_def bdsetup_def io_core_def Let_def split: if_splits)

lemma io_cache_cong:
  assumes "io_core t = io_core s" "bufpool t = bufpool s" "disk t = disk s"
  shows "cache_ok t = cache_ok s" "view t = view s"
  using cache_cong [of t s] io_core_fields [OF assms(1)] assms by simp_all

lemma flush_disk:
  assumes ok: "cache_ok s" and b: "buf_holds s b d k" and d: "d \<noteq> NO_DEVICE"
    and t: "t = s\<lparr>disk := (disk s)(d := (disk s d)(k := bf_data (bufpool s b)))\<rparr>"
  shows "cache_ok t" and "view t e l = view s e l"
proof -
  have buf: "buf_ok t (bufpool s c)" if "c < nbufs s" for c
  proof (cases "buf_holds s c d k")
    case True
    then have "c = b" using cache_unique [OF ok True b d] by simp
    with True cache_buf_ok [OF ok that] d show ?thesis by (simp add: t buf_ok_def buf_holds_def)
  next
    case False
    then have "\<not> (bf_dev (bufpool s c) = d \<and> bf_blk (bufpool s c) = k)"
      using that by (simp add: buf_holds_def)
    then show ?thesis using cache_buf_ok [OF ok that] by (auto simp: t buf_ok_def)
  qed
  show "cache_ok t" using ok buf unfolding cache_ok_def by (simp add: t)
  have f: "bfind e l t = bfind e l s" by (rule bfind_cong) (simp_all add: t)
  show "view t e l = view s e l"
  proof (cases "bfind e l s")
    case None
    then have "\<not> (e = d \<and> l = k)" using b unfolding bfind_None by blast
    then show ?thesis using None f by (auto simp: view_def t)
  next
    case (Some c)
    then show ?thesis using f by (simp add: view_def t)
  qed
qed

subsection \<open>Eviction\<close>

text \<open>Every block can be written to the medium.\<close>

definition media_ok :: "kst \<Rightarrow> bool" where
  "media_ok s \<longleftrightarrow> (\<forall>d k. blk_wr_ok (plat s) d k)"

definition drop_name :: "nat \<Rightarrow> kst \<Rightarrow> kst" where
  "drop_name b s = upd_b b (\<lambda>x. x\<lparr>bf_dev := NO_DEVICE\<rparr>) s"

lemma upd_b_upd_b [simp]: "upd_b b g (upd_b b f s) = upd_b b (\<lambda>x. g (f x)) s"
  by (simp add: upd_b_def)

lemma freebuf_frame:
  assumes "freebuf s = Some (b, t)"
  shows "buf_free s b" and "io_core t = io_core s" and "bufclock t = bufclock s"
    and "bufpool t = (bufpool s)(b := (bufpool s b)\<lparr>bf_dirty := False\<rparr>)"
proof -
  from assms have old: "oldest s = Some b"
    by (auto simp: freebuf_def Let_def split: option.splits if_splits elim!: bind_SomeD)
  then show "buf_free s b" by (rule oldest_Some)
  have "io_core t = io_core s \<and> bufclock t = bufclock s
    \<and> bufpool t = (bufpool s)(b := (bufpool s b)\<lparr>bf_dirty := False\<rparr>)"
  proof (cases "bf_dirty (bufpool s b)")
    case True
    with assms old obtain r u where u: "bdwrite b s = Some (r, u)"
      "t = upd_b b (\<lambda>x. x\<lparr>bf_dirty := False\<rparr>) (if r = 0xFFFF then u\<lparr>u_error := EIO\<rparr> else u)"
      by (auto simp: freebuf_def Let_def elim!: bind_SomeD)
    then show ?thesis using bdwrite_cases(2-4) [OF u(1)] by simp
  next
    case False
    with assms old have "t = s" by (simp add: freebuf_def)
    moreover have "bufpool s = (bufpool s)(b := (bufpool s b)\<lparr>bf_dirty := False\<rparr>)"
      using False by (simp add: fun_eq_iff)
    ultimately show ?thesis by simp
  qed
  then show "io_core t = io_core s" "bufclock t = bufclock s"
    "bufpool t = (bufpool s)(b := (bufpool s b)\<lparr>bf_dirty := False\<rparr>)" by auto
qed

lemma freebuf_view:
  assumes ok: "cache_ok s" and run: "freebuf s = Some (b, t)"
  shows "cache_ok (drop_name b t)"
    and "u_error t = u_error s \<and> (\<forall>d k. d \<noteq> NO_DEVICE \<longrightarrow> view (drop_name b t) d k = view s d k)
       \<or> u_error t = EIO \<and> \<not> media_ok s \<and> (\<forall>d k. d \<noteq> NO_DEVICE \<and> \<not> buf_holds s b d k
            \<longrightarrow> view (drop_name b t) d k = view s d k)"
proof -
  let ?x = "bufpool s b" let ?d = "bf_dev (bufpool s b)" let ?k = "bf_blk (bufpool s b)"
  have b: "b < nbufs s" "bf_busy ?x = BF_FREE"
    using freebuf_frame(1) [OF run] by (auto simp: buf_free_def)
  then have ol: "oldest s = Some b" and x: "buf_ok s ?x"
    using run cache_buf_ok [OF ok]
    by (auto simp: freebuf_def Let_def split: option.splits if_splits elim!: bind_SomeD)
  let ?f = "\<lambda>x :: blkbuf. x\<lparr>bf_dirty := False, bf_dev := NO_DEVICE\<rparr>"
  have "cache_ok (drop_name b t) \<and>
    (u_error t = u_error s \<and> (\<forall>d k. d \<noteq> NO_DEVICE \<longrightarrow> view (drop_name b t) d k = view s d k)
       \<or> u_error t = EIO \<and> \<not> media_ok s \<and> (\<forall>d k. d \<noteq> NO_DEVICE \<and> \<not> buf_holds s b d k
            \<longrightarrow> view (drop_name b t) d k = view s d k))"
  proof (cases "bf_dirty ?x")
    case False
    then have t: "t = s" using run ol by (simp add: freebuf_def)
    have data: "?d \<noteq> NO_DEVICE \<Longrightarrow> bf_data ?x = disk s ?d ?k"
      using x b(2) False by (simp add: buf_ok_def)
    show ?thesis
      unfolding t drop_name_def
      using forget [OF ok b(1), of "\<lambda>x. x\<lparr>bf_dev := NO_DEVICE\<rparr>"] False b(2) data by simp
  next
    case True
    then have d: "?d \<noteq> NO_DEVICE" using x by (auto simp: buf_ok_def)
    obtain r u where u: "bdwrite b s = Some (r, u)"
      "t = upd_b b (\<lambda>x. x\<lparr>bf_dirty := False\<rparr>) (if r = 0xFFFF then u\<lparr>u_error := EIO\<rparr> else u)"
      using run ol True by (auto simp: freebuf_def Let_def elim!: bind_SomeD)
    have dn: "drop_name b t = upd_b b ?f (if r = 0xFFFF then u\<lparr>u_error := EIO\<rparr> else u)"
      unfolding u(2) drop_name_def upd_b_upd_b ..
    note w = bdwrite_cases [OF u(1)]
    from w(5) show ?thesis
    proof (elim disjE conjE)
      assume r: "r = 512" and e: "u_error u = u_error s"
        and disk: "disk u = (disk s)(?d := (disk s ?d)(?k := bf_data ?x))"
      define v where "v = s\<lparr>disk := (disk s)(?d := (disk s ?d)(?k := bf_data ?x))\<rparr>"
      have holds: "buf_holds s b ?d ?k" using b(1) by (simp add: buf_holds_def)
      note fd = flush_disk [OF ok holds d v_def]
      have same: "cache_ok u = cache_ok v" "view u = view v" "nbufs u = nbufs s"
        using cache_cong [of u v] io_core_fields [OF w(2)] w(3) disk by (simp_all add: v_def)
      have "bf_data (bufpool u b) = disk u ?d ?k" using w(3) disk by simp
      then have "cache_ok (upd_b b ?f u)" "\<And>d k. d \<noteq> NO_DEVICE \<Longrightarrow> view (upd_b b ?f u) d k = view s d k"
        using forget [of u b ?f] same fd b w(3) by simp_all
      then show ?thesis unfolding dn using r e by (simp add: u(2))
    next
      assume r: "r = 0xFFFF" and e: "u_error u = EIO" and disk: "disk u = disk s"
        and "\<not> blk_wr_ok (plat s) ?d ?k"
      then have bad: "\<not> media_ok s" by (auto simp: media_ok_def)
      note same = io_cache_cong [OF w(2,3) disk]
      have cu: "cache_ok u" using ok same by simp
      have cf: "cache_ok (upd_b b ?f u)"
        using b(2) w(3) by (intro cache_upd_b [OF cu]) (simp_all add: buf_ok_def same_block_def)
      have "view (upd_b b ?f u) d k = view s d k" if "d \<noteq> NO_DEVICE" "\<not> buf_holds s b d k" for d k
        using bfind_rename [OF cu cf that(1), of k] that same w(3) io_core_fields(5) [OF w(2)]
        by (simp add: buf_holds_upd_b buf_holds_def)
      moreover have same_u: "u\<lparr>u_error := EIO\<rparr> = u" using e by (cases u) simp
      have "drop_name b t = upd_b b ?f u" unfolding dn using r same_u by simp
      moreover have "u_error t = EIO" unfolding u(2) using r e by simp
      ultimately show ?thesis using cf bad by simp
    qed
  qed
  then show "cache_ok (drop_name b t)"
    "u_error t = u_error s \<and> (\<forall>d k. d \<noteq> NO_DEVICE \<longrightarrow> view (drop_name b t) d k = view s d k)
       \<or> u_error t = EIO \<and> \<not> media_ok s \<and> (\<forall>d k. d \<noteq> NO_DEVICE \<and> \<not> buf_holds s b d k
            \<longrightarrow> view (drop_name b t) d k = view s d k)" by blast+
qed

subsection \<open>bread() and bfree()\<close>

definition busy_set :: "kst \<Rightarrow> nat set" where
  "busy_set s = {b. b < nbufs s \<and> bf_busy (bufpool s b) \<noteq> BF_FREE}"

lemma stamp_fields [simp]:
  "nbufs (stamp b s) = nbufs s" "disk (stamp b s) = disk s" "plat (stamp b s) = plat s"
  "u_error (stamp b s) = u_error s"
  "bufpool (stamp b s) = (bufpool s)(b := (bufpool s b)\<lparr>bf_time := bufclock s + 1\<rparr>)"
  by (simp_all add: stamp_def Let_def)

lemma stamp_cache:
  assumes "cache_ok s" "b < nbufs s"
  shows "cache_ok (stamp b s)" and "d \<noteq> NO_DEVICE \<Longrightarrow> view (stamp b s) d k = view s d k"
    and "busy_set (stamp b s) = busy_set s" and "buf_holds (stamp b s) c d' k' = buf_holds s c d' k'"
proof -
  have t: "stamp b s = upd_b b (\<lambda>x. x\<lparr>bf_time := bufclock s + 1\<rparr>) (s\<lparr>bufclock := bufclock s + 1\<rparr>)"
    by (simp add: stamp_def Let_def)
  have ok: "cache_ok (s\<lparr>bufclock := bufclock s + 1\<rparr>)" using assms by simp
  have x: "buf_ok (s\<lparr>bufclock := bufclock s + 1\<rparr>)
      ((bufpool (s\<lparr>bufclock := bufclock s + 1\<rparr>) b)\<lparr>bf_time := bufclock s + 1\<rparr>)"
    using cache_buf_ok [OF assms] by (simp add: buf_ok_def)
  note tt = touch [where f = "\<lambda>x. x\<lparr>bf_time := bufclock s + 1\<rparr>", OF ok _ _ _ x]
  show "cache_ok (stamp b s)" unfolding t by (rule tt(1)) (use assms in simp_all)
  show "d \<noteq> NO_DEVICE \<Longrightarrow> view (stamp b s) d k = view s d k"
    unfolding t using tt(2) [of d k] view_hit [OF assms(1), of b d k] assms(2)
    by (auto simp: buf_holds_def)
  show "busy_set (stamp b s) = busy_set s" by (auto simp: busy_set_def)
  show "buf_holds (stamp b s) c d' k' = buf_holds s c d' k'" by (simp add: buf_holds_def)
qed

text \<open>
  What bread() answers, and what is left alone. A bread() with the rewrite flag may hand out a buffer
  with arbitrary content \<open>J\<close>: it is then the same buffer as after a read, overwritten with \<open>J\<close>.
\<close>

definition bread_post :: "u16 \<Rightarrow> u16 \<Rightarrow> kst \<Rightarrow> nat option \<Rightarrow> kst \<Rightarrow> bool" where
  "bread_post d k s r t \<longleftrightarrow> io_core t = io_core s \<and> cache_ok t \<and>
     (\<forall>c\<in>busy_set s. bufpool t c = bufpool s c) \<and>
     (case r of
        None \<Rightarrow> \<not> blk_rd_ok (plat s) d k \<and> u_error t = EIO \<and> busy_set t = busy_set s
      | Some b \<Rightarrow> buf_holds t b d k \<and> b \<notin> busy_set s \<and> busy_set t = insert b (busy_set s) \<and>
          view t d k = view s d k) \<and>
     (u_error t = EIO \<and> \<not> media_ok s \<or>
      u_error t = (if r = None then EIO else u_error s) \<and>
        (\<forall>e l. e \<noteq> NO_DEVICE \<longrightarrow> view t e l = view s e l))"

definition set_data :: "nat \<Rightarrow> block \<Rightarrow> kst \<Rightarrow> kst" where
  "set_data b D s = upd_b b (\<lambda>x. x\<lparr>bf_data := D\<rparr>) s"

lemma bread_hit:
  assumes ok: "cache_ok s" and d: "d \<noteq> NO_DEVICE" and hit: "bfind d k s = Some b"
    and run: "bread d k rw s = Some (r, t)"
  shows "r = Some b" and "bread_post d k s r t"
proof -
  have holds: "buf_holds s b d k" by (rule bfind_Some [OF hit])
  then have b: "b < nbufs s" by (simp add: buf_holds_def)
  have x: "buf_ok s (bufpool s b)" by (rule cache_buf_ok [OF ok b])
  then have sb: "bf_busy (bufpool s b) \<noteq> BF_SUPERBLOCK" by (simp add: buf_ok_def)
  have "bf_busy (bufpool s b) \<noteq> BF_BUSY" using run hit by (auto simp: bread_def)
  with sb have free: "bf_busy (bufpool s b) = BF_FREE" by (cases "bf_busy (bufpool s b)") auto
  define u where "u = upd_b b (\<lambda>x. x\<lparr>bf_busy := BF_BUSY\<rparr>) s"
  from run hit free have r: "r = Some b" "t = stamp b u" by (auto simp: bread_def u_def)
  have xb: "buf_ok s ((\<lambda>x. x\<lparr>bf_busy := BF_BUSY\<rparr>) (bufpool s b))"
    using x by (simp add: buf_ok_def)
  have cu: "cache_ok u" and vu: "e \<noteq> NO_DEVICE \<Longrightarrow> view u e l = view s e l" for e l
    using touch [where f = "\<lambda>x. x\<lparr>bf_busy := BF_BUSY\<rparr>", OF ok b _ _ xb] view_hit [OF ok, of b e l]
    by (auto simp: u_def)
  have nb: "b < nbufs u" using b by (simp add: u_def)
  note st = stamp_cache [OF cu nb]
  have "buf_holds u b d k" using holds by (simp add: u_def buf_holds_def)
  moreover have "busy_set u = insert b (busy_set s)" using b by (auto simp: busy_set_def u_def)
  moreover have "b \<notin> busy_set s" using free by (simp add: busy_set_def)
  moreover from this have "\<forall>c\<in>busy_set s. bufpool t c = bufpool s c"
    by (auto simp: r u_def)
  ultimately show "bread_post d k s r t" and "r = Some b"
    using st vu d r by (auto simp: bread_post_def u_def)
qed

lemma bread_miss:
  assumes ok: "cache_ok s" and d: "d \<noteq> NO_DEVICE" "validdev (plat s) d"
    and miss: "bfind d k s = None" and run: "bread d k rw s = Some (r, t)"
  shows "if rw then \<exists>b J u. r = Some b \<and> bread_post d k s (Some b) u \<and> t = set_data b J u
    else bread_post d k s r t"
proof -
  obtain b s1 where fb: "freebuf s = Some (b, s1)"
    using run miss by (auto simp: bread_def elim!: bind_SomeD)
  note ff = freebuf_frame [OF fb] and fv = freebuf_view [OF ok fb]
  define u where "u = drop_name b s1"
  have b: "b < nbufs s" "bf_busy (bufpool s b) = BF_FREE" using ff(1) by (auto simp: buf_free_def)
  have u: "io_core u = io_core s" "cache_ok u" "bf_dev (bufpool u b) = NO_DEVICE" "nbufs u = nbufs s"
    "u_error u = u_error s1" "plat u = plat s" "busy_set u = busy_set s" "disk u = disk s1"
    using ff fv(1) io_core_fields [OF ff(2)]
    by (auto simp: u_def drop_name_def busy_set_def)
  have nob: "\<not> buf_holds s b d k" using miss unfolding bfind_None by blast
  have vu: "view u d k = view s d k" and
    vo: "u_error u = u_error s \<and> (\<forall>e l. e \<noteq> NO_DEVICE \<longrightarrow> view u e l = view s e l)
      \<or> u_error u = EIO \<and> \<not> media_ok s"
    using fv(2) d(1) nob unfolding u_def [symmetric] by (auto simp: u(5))
  have um: "bfind d k u = None"
  proof -
    have "\<not> buf_holds u c d k" for c
      using miss d(1) ff(4) unfolding bfind_None u_def drop_name_def
      by (auto simp: buf_holds_def io_core_fields(5) [OF ff(2)])
    then show ?thesis unfolding bfind_None by blast
  qed
  have bu: "b < nbufs u" using b u by simp
  have keepb: "c \<noteq> b \<and> bufpool u c = bufpool s c" if "c \<in> busy_set s" for c
    using that b ff(4) by (auto simp: busy_set_def u_def drop_name_def)
  have dv: "validdev (plat u) d" using d u by simp
  let ?n = "\<lambda>x :: blkbuf. x\<lparr>bf_dev := d, bf_blk := k, bf_busy := BF_BUSY\<rparr>"
  let ?m = "\<lambda>x. (?n x)\<lparr>bf_data := disk u d k\<rparr>"
  have keep: "upd_b b ?n s1 = upd_b b ?n u" by (simp add: u_def drop_name_def)
  have post: "bread_post d k s (Some b) (stamp b (upd_b b ?m w))"
    if w: "io_core w = io_core u" "bufpool w = bufpool u" "disk w = disk u" "u_error w = u_error u"
    for w
  proof -
    have cw: "cache_ok w" "view w = view u" using io_cache_cong [OF w(1-3)] u(2) by simp_all
    have wf: "nbufs w = nbufs u" "plat w = plat u" using io_core_fields [OF w(1)] by simp_all
    have mw: "bfind d k w = None" using um bfind_cong [of w u d k] w(2) wf(1) by simp
    have bk: "buf_ok w (?m (bufpool w b))"
      using dv wf d(1) w(2,3) by (simp add: buf_ok_def)
    have ins: "cache_ok (upd_b b ?m w)"
      "e \<noteq> NO_DEVICE \<Longrightarrow> view (upd_b b ?m w) e l =
         (if e = d \<and> l = k then disk u d k else view w e l)" for e l
      using install [OF cw(1) _ _ mw d(1), of b ?m] bu wf u(3) w(2) bk by simp_all
    have bw: "b < nbufs (upd_b b ?m w)" using bu wf by simp
    note st = stamp_cache [OF ins(1) bw]
    have "busy_set (upd_b b ?m w) = insert b (busy_set s)"
      unfolding u(7) [symmetric] using bu wf w(2) by (auto simp: busy_set_def)
    moreover have "b \<notin> busy_set s" using b by (simp add: busy_set_def)
    moreover have "buf_holds (upd_b b ?m w) b d k"
      using bu wf w(2) by (simp add: buf_holds_def)
    moreover have "view (upd_b b ?m w) d k = view s d k"
      using ins(2) [OF d(1), of k] vu view_miss [OF um] by simp
    moreover have "u_error (stamp b (upd_b b ?m w)) = u_error u" using w(4) by simp
    moreover have "\<forall>c\<in>busy_set s. bufpool (stamp b (upd_b b ?m w)) c = bufpool s c"
      using keepb w(2) by simp
    ultimately show ?thesis
      using st ins vo cw w(1) u(1) d(1) unfolding bread_post_def by auto
  qed
  show ?thesis
  proof (cases rw)
    case True
    then have "r = Some b" "t = stamp b (upd_b b ?n u)"
      using run miss fb keep by (simp_all add: bread_def Let_def)
    moreover have "stamp b (upd_b b ?n u) = set_data b (bf_data (bufpool u b)) (stamp b (upd_b b ?m u))"
      by (simp add: stamp_def set_data_def upd_b_def Let_def)
    ultimately show ?thesis using True post [of u] by auto
  next
    case False
    obtain r1 v where br: "bdread b (upd_b b ?n u) = Some (r1, v)"
      using run miss fb False keep by (auto simp: bread_def Let_def elim!: bind_SomeD)
    show ?thesis
    proof (cases "blk_rd_ok (plat s) d k")
      case True
      define w where "w = u\<lparr>u_buf := Some b, u_block := k, u_blkoff := 0, u_nblock := 1\<rparr>"
      have "r1 = 512" "v = upd_b b ?m w"
        using br True dv u(6) by (simp_all add: bdread_def validchk_def bdsetup_def Let_def upd_b_def w_def)
      then have "r = Some b" "t = stamp b (upd_b b ?m w)"
        using run miss fb False keep br by (simp_all add: bread_def Let_def)
      with post [of w] False show ?thesis by (simp add: w_def)
    next
      case bad: False
      define w where
        "w = u\<lparr>u_buf := Some b, u_block := k, u_blkoff := 0, u_nblock := 1, u_error := EIO\<rparr>"
      let ?f = "\<lambda>x. (?n x)\<lparr>bf_busy := BF_FREE, bf_dev := NO_DEVICE\<rparr>"
      have "r1 = 0xFFFF" "v = upd_b b ?n w"
        using br bad dv u(6)
        by (auto simp: bdread_def validchk_def bdsetup_def Let_def upd_b_def w_def intro!: kst.equality)
      then have r: "r = None" "t = upd_b b ?f w"
        using run miss fb False keep br by (simp_all add: bread_def Let_def upd_b_def w_def bdsetup_def)
      have wu: "io_core w = io_core u" "bufpool w = bufpool u" "disk w = disk u" by (simp_all add: w_def)
      have bp: "bufpool w = bufpool u" "nbufs w = nbufs u" "cache_ok w" "view w = view u"
        "io_core w = io_core u" "u_error w = EIO"
        using u(2) wu io_cache_cong [OF wu] by (simp_all add: w_def)
      have "\<not> bf_dirty (bufpool u b)" using ff(4) by (simp add: u_def drop_name_def)
      then have fo: "cache_ok t" "\<And>e l. e \<noteq> NO_DEVICE \<Longrightarrow> view t e l = view u e l"
        unfolding r(2) using forget [OF bp(3), of b ?f] bu bp u(3) by simp_all
      have "busy_set t = busy_set s"
        unfolding u(7) [symmetric] r(2) using b(2) bp ff(4)
        by (auto simp: busy_set_def u_def drop_name_def)
      moreover have "\<forall>c\<in>busy_set s. bufpool t c = bufpool s c"
        unfolding r(2) using keepb bp(1) by simp
      ultimately show ?thesis
        using fo False bad bp u(1) vo unfolding bread_post_def r by (simp, blast)
    qed
  qed
qed

lemma bread_ok:
  assumes "cache_ok s" and "d \<noteq> NO_DEVICE" "validdev (plat s) d" and "bread d k False s = Some (r, t)"
  shows "bread_post d k s r t"
  using bread_hit [OF assms(1,2) _ assms(4)] bread_miss [OF assms(1-3) _ assms(4)]
  by (cases "bfind d k s") auto

lemma bread_rewrite_ok:
  assumes "cache_ok s" and "d \<noteq> NO_DEVICE" "validdev (plat s) d" and "bread d k True s = Some (r, t)"
  obtains b J u where "r = Some b" and "bread_post d k s (Some b) u" and "t = set_data b J u"
proof (cases "bfind d k s")
  case None
  then show ?thesis using bread_miss [OF assms(1-3) _ assms(4)] that by auto
next
  case (Some b)
  note h = bread_hit [OF assms(1,2) Some assms(4)]
  have "t = set_data b (bf_data (bufpool t b)) t" by (simp add: set_data_def upd_b_def)
  with h that show ?thesis by blast
qed

subsection \<open>Giving a buffer back\<close>

lemma busy_set_upd_b:
  "b < nbufs s \<Longrightarrow> busy_set (upd_b b f s) =
     (if bf_busy (f (bufpool s b)) = BF_FREE then busy_set s - {b} else insert b (busy_set s))"
  by (auto simp: busy_set_def)

lemma bfree_clean:
  assumes ok: "cache_ok s" and b: "b < nbufs s" and run: "bfree b 0 s = Some (r, t)"
  shows "r = 0" "cache_ok t" "d \<noteq> NO_DEVICE \<Longrightarrow> view t d k = view s d k"
    "busy_set t = busy_set s - {b}" "io_core t = io_core s" "u_error t = u_error s"
    "c \<noteq> b \<Longrightarrow> bufpool t c = bufpool s c"
proof -
  let ?f = "\<lambda>x :: blkbuf. x\<lparr>bf_busy := BF_FREE\<rparr>"
  have x: "buf_ok s (bufpool s b)" by (rule cache_buf_ok [OF ok b])
  then have fx: "buf_ok s (?f (bufpool s b))" by (simp add: buf_ok_def)
  have same: "upd_b b ?f s = s" if "bf_busy (bufpool s b) = BF_FREE"
    using that by (simp add: upd_b_def fun_upd_idem)
  have "bf_busy (bufpool s b) \<noteq> BF_SUPERBLOCK" using x by (simp add: buf_ok_def)
  then have "t = upd_b b ?f s" "r = 0"
    using run same by (cases "bf_busy (bufpool s b)"; simp add: bfree_def Let_def)+
  moreover have "cache_ok (upd_b b ?f s)" "d \<noteq> NO_DEVICE \<Longrightarrow> view (upd_b b ?f s) d k = view s d k"
    using touch [where f = ?f, OF ok b _ _ fx] view_hit [OF ok, of b d k] by simp_all
  ultimately show "r = 0" "cache_ok t" "d \<noteq> NO_DEVICE \<Longrightarrow> view t d k = view s d k"
    "busy_set t = busy_set s - {b}" "io_core t = io_core s" "u_error t = u_error s"
    "c \<noteq> b \<Longrightarrow> bufpool t c = bufpool s c"
    by (simp_all add: busy_set_upd_b b)
qed

text \<open>A buffer that has been filled with \<open>D\<close> and is released dirty, or written through at once.\<close>

lemma bfree_dirty:
  assumes ok: "cache_ok s" and holds: "buf_holds s b d k" and d: "d \<noteq> NO_DEVICE"
    and n: "n = 1 \<or> n = 2" and run: "bfree b n (set_data b D s) = Some (r, t)"
  shows "cache_ok t"
    and "e \<noteq> NO_DEVICE \<Longrightarrow> view t e l = (if e = d \<and> l = k then D else view s e l)"
    and "busy_set t = busy_set s - {b}" and "io_core t = io_core s"
    and "r = 0 \<and> u_error t = u_error s \<and> (n = 2 \<longrightarrow> disk t d k = D)
       \<or> r = 0xFFFF \<and> n = 2 \<and> \<not> blk_wr_ok (plat s) d k \<and> u_error t = EIO"
    and "c \<noteq> b \<Longrightarrow> bufpool t c = bufpool s c"
proof -
  let ?f = "\<lambda>x :: blkbuf. x\<lparr>bf_data := D, bf_dirty := True, bf_busy := BF_FREE\<rparr>"
  define u where "u = upd_b b ?f s"
  have b: "b < nbufs s" and key: "bf_dev (bufpool s b) = d" "bf_blk (bufpool s b) = k"
    using holds by (auto simp: buf_holds_def)
  have x: "buf_ok s (bufpool s b)" by (rule cache_buf_ok [OF ok b])
  then have fx: "buf_ok s (?f (bufpool s b))" and dv: "validdev (plat s) d"
    using key d by (auto simp: buf_ok_def)
  have sb: "bf_busy (bufpool s b) \<noteq> BF_SUPERBLOCK" using x by (simp add: buf_ok_def)
  let ?g = "\<lambda>x :: blkbuf. x\<lparr>bf_data := D, bf_dirty := True\<rparr>"
  have step: "(if bf_busy (bufpool v b) = BF_BUSY then upd_b b (\<lambda>x. x\<lparr>bf_busy := BF_FREE\<rparr>) v else v) = u"
    if v: "v = upd_b b ?g s" for v
  proof (cases "bf_busy (bufpool s b) = BF_BUSY")
    case True
    then show ?thesis by (simp add: v u_def)
  next
    case False
    with sb have free: "bf_busy (bufpool s b) = BF_FREE" by (cases "bf_busy (bufpool s b)") auto
    then have "?f (bufpool s b) = ?g (bufpool s b)" by (cases "bufpool s b") simp
    then have "upd_b b ?f s = upd_b b ?g s" unfolding upd_b_def by (rule arg_cong)
    with free show ?thesis by (simp add: v u_def)
  qed
  have cu: "cache_ok u" and
    vu: "\<And>e l. e \<noteq> NO_DEVICE \<Longrightarrow> view u e l = (if e = d \<and> l = k then D else view s e l)"
    using touch [where f = ?f, OF ok b _ _ fx] b key by (auto simp: u_def buf_holds_def)
  have bu: "busy_set u = busy_set s - {b}" "io_core u = io_core s" "u_error u = u_error s"
    by (simp_all add: u_def busy_set_upd_b b)
  have uh: "buf_holds u b d k" "bf_data (bufpool u b) = D" "plat u = plat s"
    using b key by (simp_all add: u_def buf_holds_def)
  have "cache_ok t \<and> (\<forall>e l. e \<noteq> NO_DEVICE \<longrightarrow> view t e l = (if e = d \<and> l = k then D else view s e l))
    \<and> busy_set t = busy_set s - {b} \<and> io_core t = io_core s
    \<and> (\<forall>c. c \<noteq> b \<longrightarrow> bufpool t c = bufpool s c)
    \<and> (r = 0 \<and> u_error t = u_error s \<and> (n = 2 \<longrightarrow> disk t d k = D)
       \<or> r = 0xFFFF \<and> n = 2 \<and> \<not> blk_wr_ok (plat s) d k \<and> u_error t = EIO)"
  proof (cases "n = 1")
    case True
    then have "t = u" "r = 0" using run step by (simp_all add: bfree_def set_data_def Let_def)
    then show ?thesis using True cu vu bu by (simp add: u_def)
  next
    case False
    with n have n2: "n = 2" by simp
    obtain r1 v where w: "bdwrite b u = Some (r1, v)"
      and t: "(r, t) = (if r1 \<noteq> 512 then (0xFFFF, v\<lparr>u_error := EIO\<rparr>)
        else (0, upd_b b (\<lambda>x. x\<lparr>bf_dirty := False\<rparr>) v))"
      using run step n2 by (auto simp: bfree_def set_data_def Let_def elim!: bind_SomeD split: if_splits)
    note c = bdwrite_cases [OF w]
    have kv: "bf_dev (bufpool u b) = d" "bf_blk (bufpool u b) = k" using uh(1) by (simp_all add: buf_holds_def)
    show ?thesis
    proof (cases "r1 = 512")
      case True
      define y where "y = u\<lparr>disk := (disk u)(d := (disk u d)(k := bf_data (bufpool u b)))\<rparr>"
      have disk: "disk v = disk y" "u_error v = u_error u"
        using c(5) True kv by (auto simp: y_def)
      note fd = flush_disk [OF cu uh(1) d y_def]
      have cv: "cache_ok v" "view v = view y" "nbufs v = nbufs u"
        using cache_cong [of v y] io_core_fields [OF c(2)] c(3) disk fd(1) by (simp_all add: y_def)
      have bv: "b < nbufs v" using cv(3) b by (simp add: u_def)
      let ?h = "\<lambda>x :: blkbuf. x\<lparr>bf_dirty := False\<rparr>"
      have "buf_ok v (bufpool v b)" by (rule cache_buf_ok [OF cv(1) bv])
      then have hx: "buf_ok v (?h (bufpool v b))"
        using c(3) kv disk(1) d uh(2) by (simp add: buf_ok_def y_def)
      have tt: "t = upd_b b ?h v" "r = 0" using t True by simp_all
      have "cache_ok t" "\<And>e l. e \<noteq> NO_DEVICE \<Longrightarrow> view t e l = view v e l"
        unfolding tt using touch [where f = ?h, OF cv(1) bv _ _ hx] view_hit [OF cv(1), of b]
        by auto
      moreover have "busy_set t = busy_set u"
        unfolding tt by (simp add: busy_set_def cv(3) c(3)) auto
      moreover have "disk t d k = D" using tt disk(1) uh(2) by (simp add: y_def)
      moreover have "\<forall>a. a \<noteq> b \<longrightarrow> bufpool t a = bufpool s a" using tt c(3) by (simp add: u_def)
      ultimately show ?thesis using tt n2 cv(2) fd(2) vu bu c(2) disk(2) by simp
    next
      case False
      with c(5) have f: "disk v = disk u" "r1 = 0xFFFF" "u_error v = EIO" by auto
      have nwr: "\<not> blk_wr_ok (plat s) d k"
        using w f(2) dv kv uh(3) by (auto simp: bdwrite_def validchk_def bdsetup_def Let_def split: if_splits)
      note cc = io_cache_cong [OF c(2,3) f(1)]
      have "busy_set v = busy_set u" using io_core_fields [OF c(2)] c(3) by (simp add: busy_set_def)
      moreover have "\<forall>a. a \<noteq> b \<longrightarrow> bufpool v a = bufpool s a" using c(3) by (simp add: u_def)
      ultimately show ?thesis using t False n2 nwr cc cu vu bu c(2) by (simp add: busy_set_def)
    qed
  qed
  then show "cache_ok t" "e \<noteq> NO_DEVICE \<Longrightarrow> view t e l = (if e = d \<and> l = k then D else view s e l)"
    "busy_set t = busy_set s - {b}" "io_core t = io_core s"
    "r = 0 \<and> u_error t = u_error s \<and> (n = 2 \<longrightarrow> disk t d k = D)
       \<or> r = 0xFFFF \<and> n = 2 \<and> \<not> blk_wr_ok (plat s) d k \<and> u_error t = EIO"
    "c \<noteq> b \<Longrightarrow> bufpool t c = bufpool s c" by blast+
qed

subsection \<open>When bread() returns\<close>

lemma freebuf_total:
  assumes ok: "cache_ok s" and "buf_free s c"
  shows "\<exists>b t. freebuf s = Some (b, t)"
proof -
  obtain b where b: "oldest s = Some b"
    using assms(2) oldest_None by (cases "oldest s") auto
  then have "b < nbufs s" using oldest_Some(1) [OF b] by (simp add: buf_free_def)
  with cache_buf_ok [OF ok] have "buf_ok s (bufpool s b)" by simp
  then show ?thesis
    using b by (auto simp: freebuf_def bdwrite_def validchk_def buf_ok_def Let_def split: if_splits)
qed

lemma bread_total:
  assumes ok: "cache_ok s" and "validdev (plat s) d" and free: "buf_free s c"
    and "\<And>b. buf_holds s b d k \<Longrightarrow> b \<notin> busy_set s"
  shows "\<exists>r t. bread d k rw s = Some (r, t)"
proof (cases "bfind d k s")
  case (Some b)
  then have "buf_holds s b d k" by (rule bfind_Some)
  with assms(4) have "bf_busy (bufpool s b) = BF_FREE" by (auto simp: busy_set_def buf_holds_def)
  with Some show ?thesis by (simp add: bread_def)
next
  case None
  obtain b t where fb: "freebuf s = Some (b, t)" using freebuf_total [OF ok free] by blast
  have "validdev (plat t) d" using assms(2) io_core_fields(4) [OF freebuf_frame(2) [OF fb]] by simp
  then show ?thesis
    using None fb by (simp add: bread_def bdread_def validchk_def Let_def bdsetup_def)
qed

text \<open>
  Reading and overwriting as the file system uses them: on a good medium, with a free buffer
  and the block not in use, bread() returns a buffer.
\<close>

definition disk_ok :: "kst \<Rightarrow> u16 \<Rightarrow> bool" where
  "disk_ok s d \<longleftrightarrow> cache_ok s \<and> media_ok s \<and> d \<noteq> NO_DEVICE \<and> validdev (plat s) d
     \<and> (\<forall>k. blk_rd_ok (plat s) d k)"

definition avail :: "kst \<Rightarrow> u16 \<Rightarrow> u16 \<Rightarrow> bool" where
  "avail s d k \<longleftrightarrow> (\<exists>c. buf_free s c) \<and> (\<forall>b. buf_holds s b d k \<longrightarrow> b \<notin> busy_set s)"

definition same_view :: "kst \<Rightarrow> kst \<Rightarrow> bool" where
  "same_view s t \<longleftrightarrow> (\<forall>e l. e \<noteq> NO_DEVICE \<longrightarrow> view t e l = view s e l)"

lemma bread_read:
  assumes d: "disk_ok s d" and a: "avail s d k"
  obtains b t where "bread d k False s = Some (Some b, t)" "buf_holds t b d k"
    "bf_data (bufpool t b) = view s d k" "cache_ok t" "io_core t = io_core s"
    "busy_set t = insert b (busy_set s)" "b \<notin> busy_set s" "u_error t = u_error s"
    "same_view s t" "\<forall>c\<in>busy_set s. bufpool t c = bufpool s c"
proof -
  have ok: "cache_ok s" "media_ok s" "d \<noteq> NO_DEVICE" "validdev (plat s) d" "blk_rd_ok (plat s) d k"
    using d by (auto simp: disk_ok_def)
  obtain c where "buf_free s c" using a by (auto simp: avail_def)
  then obtain r t where t: "bread d k False s = Some (r, t)"
    using bread_total [OF ok(1,4)] a by (meson avail_def)
  have p: "bread_post d k s r t" by (rule bread_ok [OF ok(1,3,4) t])
  with ok obtain b where b: "r = Some b" by (cases r) (auto simp: bread_post_def)
  have "bf_data (bufpool t b) = view s d k"
    using p b view_hit [of t b d k] ok(3) by (simp add: bread_post_def)
  with t p b ok(2) that show ?thesis by (auto simp: bread_post_def same_view_def)
qed

lemma bread_over:
  assumes d: "disk_ok s d" and a: "avail s d k"
  obtains b J t where "bread d k True s = Some (Some b, set_data b J t)" "buf_holds t b d k"
    "cache_ok t" "io_core t = io_core s" "busy_set t = insert b (busy_set s)" "b \<notin> busy_set s"
    "u_error t = u_error s" "same_view s t" "\<forall>c\<in>busy_set s. bufpool t c = bufpool s c"
proof -
  have ok: "cache_ok s" "media_ok s" "d \<noteq> NO_DEVICE" "validdev (plat s) d"
    using d by (auto simp: disk_ok_def)
  obtain c where "buf_free s c" using a by (auto simp: avail_def)
  then obtain r w where w: "bread d k True s = Some (r, w)"
    using bread_total [OF ok(1,4)] a by (meson avail_def)
  obtain b J u where "r = Some b" "bread_post d k s (Some b) u" "w = set_data b J u"
    by (rule bread_rewrite_ok [OF ok(1,3,4) w])
  with w ok(2) that show ?thesis by (auto simp: bread_post_def same_view_def)
qed

subsection \<open>Synchronising\<close>

lemma d_flush_frame [simp]:
  "io_core (snd (d_flush d s)) = io_core s" "bufpool (snd (d_flush d s)) = bufpool s"
  "disk (snd (d_flush d s)) = disk s" "nbufs (snd (d_flush d s)) = nbufs s"
  by (auto simp: d_flush_def d_ioctl_def drv_error_def Let_def split: prod.splits)

lemma bdput_ok:
  assumes ok: "cache_ok s" and b: "buf_holds s b d k" and d: "d \<noteq> NO_DEVICE"
    and free: "b \<notin> busy_set s" and wr: "blk_wr_ok (plat s) d k"
  shows "\<exists>t. bdput b s = Some ((), t) \<and> cache_ok t \<and> (\<forall>e l. e \<noteq> NO_DEVICE \<longrightarrow> view t e l = view s e l)
    \<and> io_core t = io_core s \<and> bufpool t = (bufpool s)(b := (bufpool s b)\<lparr>bf_dirty := False\<rparr>)"
proof -
  have key: "b < nbufs s" "bf_dev (bufpool s b) = d" "bf_blk (bufpool s b) = k"
    using b by (simp_all add: buf_holds_def)
  have bf: "bf_busy (bufpool s b) = BF_FREE" using free key by (simp add: busy_set_def)
  have x: "buf_ok s (bufpool s b)" by (rule cache_buf_ok [OF ok key(1)])
  define y where "y = s\<lparr>disk := (disk s)(d := (disk s d)(k := bf_data (bufpool s b)))\<rparr>"
  note fd = flush_disk [OF ok b d y_def]
  define v where "v = (bdsetup b s)\<lparr>disk := disk y\<rparr>"
  have w: "bdwrite b s = Some (512, v)"
    using x key d wr by (simp add: bdwrite_def validchk_def buf_ok_def bdsetup_def Let_def v_def y_def)
  have vf: "io_core v = io_core s" "bufpool v = bufpool s" "nbufs v = nbufs s" "plat v = plat s"
    by (simp_all add: v_def) (simp_all add: bdsetup_def)
  have cv: "cache_ok v" "view v = view y"
    using cache_cong [of v y] fd vf by (simp_all add: y_def v_def)
  let ?h = "\<lambda>x :: blkbuf. x\<lparr>bf_dirty := False\<rparr>"
  have "disk v d k = bf_data (bufpool s b)" by (simp add: v_def y_def)
  then have hx: "buf_ok v (?h (bufpool v b))"
    using x key d by (simp add: buf_ok_def vf)
  define u where "u = upd_b b ?h v"
  have u: "cache_ok u" "\<And>e l. e \<noteq> NO_DEVICE \<Longrightarrow> view u e l = view v e l"
    using touch [where f = ?h, OF cv(1) _ _ _ hx] view_hit [OF cv(1), of b] key vf by (auto simp: u_def)
  define t where "t = snd (d_flush d u)"
  have "bdput b s = Some ((), t)"
    using w bf key vf by (simp add: bdput_def Let_def case_prod_beta t_def u_def)
  moreover have "cache_ok t = cache_ok u" "view t = view u"
    using io_cache_cong [of t u] by (simp_all add: t_def)
  moreover have "bufpool t = (bufpool s)(b := ?h (bufpool s b))" "io_core t = io_core s"
    using vf by (simp_all add: t_def u_def)
  ultimately show ?thesis using u cv(2) fd(2) by (intro exI [of _ t]) simp
qed

definition all_synced :: "nat \<Rightarrow> kst \<Rightarrow> bool" where
  "all_synced n s \<longleftrightarrow> (\<forall>b<n. \<not> bf_dirty (bufpool s b))"

lemma bufsync_run:
  assumes ok: "cache_ok s" and quiet: "busy_set s = {}" and wr: "media_ok s"
  shows "\<exists>t. bufsync s = Some ((), t) \<and> io_core t = io_core s \<and> cache_ok t \<and> busy_set t = {}
    \<and> (\<forall>e l. e \<noteq> NO_DEVICE \<longrightarrow> view t e l = view s e l) \<and> all_synced (nbufs s) t"
proof -
  let ?P = "\<lambda>i t. io_core t = io_core s \<and> cache_ok t \<and> busy_set t = {}
    \<and> (\<forall>e l. e \<noteq> NO_DEVICE \<longrightarrow> view t e l = view s e l) \<and> all_synced i t"
  have "\<exists>t. for_each [0..<nbufs s] bufsync_step s = Some ((), t) \<and> ?P (nbufs s) t"
  proof (rule for_each_upt)
    show "?P 0 s" using ok quiet by (simp add: all_synced_def)
  next
    fix i u assume i: "i < nbufs s" and P: "?P i u"
    have f: "nbufs u = nbufs s" "plat u = plat s" using io_core_fields [of u s] P by simp_all
    show "\<exists>t. bufsync_step i u = Some ((), t) \<and> ?P (Suc i) t"
    proof (cases "bf_dev (bufpool u i) \<noteq> NO_DEVICE \<and> bf_dirty (bufpool u i)")
      case True
      have h: "buf_holds u i (bf_dev (bufpool u i)) (bf_blk (bufpool u i))"
        using i f by (simp add: buf_holds_def)
      obtain t where t: "bdput i u = Some ((), t)" "cache_ok t" "io_core t = io_core u"
        "\<forall>e l. e \<noteq> NO_DEVICE \<longrightarrow> view t e l = view u e l"
        "bufpool t = (bufpool u)(i := (bufpool u i)\<lparr>bf_dirty := False\<rparr>)"
        using bdput_ok [OF _ h] P True wr f by (auto simp: media_ok_def)
      have "busy_set t = busy_set u" using io_core_fields(5) [OF t(3)] t(5) by (auto simp: busy_set_def)
      then show ?thesis
        using t P True by (auto simp: bufsync_step_def all_synced_def less_Suc_eq)
    next
      case False
      then have "\<not> bf_dirty (bufpool u i)"
        using cache_buf_ok [of u i] P i f by (auto simp: buf_ok_def)
      with False P show ?thesis by (auto simp: bufsync_step_def all_synced_def less_Suc_eq)
    qed
  qed
  then show ?thesis by (simp add: bufsync_def)
qed

lemma synced_view:
  assumes "cache_ok t" "all_synced (nbufs t) t" "d \<noteq> NO_DEVICE"
  shows "view t d k = disk t d k"
proof (cases "bfind d k t")
  case None
  then show ?thesis by (rule view_miss)
next
  case (Some b)
  then have h: "buf_holds t b d k" by (rule bfind_Some)
  then have "buf_ok t (bufpool t b)" using cache_buf_ok [OF assms(1)] by (simp add: buf_holds_def)
  then show ?thesis
    using h assms view_hit [OF assms(1) h] by (auto simp: buf_ok_def buf_holds_def all_synced_def)
qed

end
