(* ===== verification/Storage.thy ===== *)
theory Storage
  imports BufSpec
begin

text \<open>
  The contract of the buffer pool towards the file system: a store of blocks that can be read and
  overwritten. The locale \<open>block_store\<close> states it for any such store, its lemmas are about sequences of
  writes; the interpretation shows that bread(), brelse() and bawrite() keep it. The properties of the
  pool stand at the end.
\<close>

subsection \<open>The interface\<close>

text \<open>Reading a block and giving the buffer back, and overwriting a block, as the callers do it.\<close>

definition fetch :: "u16 \<Rightarrow> u16 \<Rightarrow> kst \<Rightarrow> (block option \<times> kst) option" where
  "fetch d k s = do {
     (r, s) \<leftarrow> bread d k False s;
     case r of None \<Rightarrow> Some (None, s)
     | Some b \<Rightarrow> do { let D = bf_data (bufpool s b); (_, s) \<leftarrow> brelse b s; Some (Some D, s) }
   }"

definition store :: "u16 \<Rightarrow> u16 \<Rightarrow> block \<Rightarrow> kst \<Rightarrow> (bool \<times> kst) option" where
  "store d k D s = do {
     (r, s) \<leftarrow> bread d k True s;
     case r of None \<Rightarrow> Some (False, s)
     | Some b \<Rightarrow> do { (_, s) \<leftarrow> bawrite b (set_data b D s); Some (True, s) }
   }"

locale block_store =
  fixes inv :: "'s \<Rightarrow> bool" and good :: "'s \<Rightarrow> 'd \<Rightarrow> bool" and content :: "'s \<Rightarrow> 'd \<Rightarrow> 'k \<Rightarrow> 'b"
    and rd :: "'d \<Rightarrow> 'k \<Rightarrow> 's \<Rightarrow> ('b option \<times> 's) option"
    and wr :: "'d \<Rightarrow> 'k \<Rightarrow> 'b \<Rightarrow> 's \<Rightarrow> (bool \<times> 's) option"
  assumes rd_law: "inv s \<Longrightarrow> good s d \<Longrightarrow> rd d k s = Some (r, t) \<Longrightarrow>
      inv t \<and> good t = good s \<and> (\<forall>e l. good s e \<longrightarrow> content t e l = content s e l)
        \<and> (\<forall>D. r = Some D \<longrightarrow> D = content s d k)"
    and wr_law: "inv s \<Longrightarrow> good s d \<Longrightarrow> wr d k D s = Some (ok, t) \<Longrightarrow>
      inv t \<and> good t = good s \<and> ok
        \<and> (\<forall>e l. good s e \<longrightarrow> content t e l = (if e = d \<and> l = k then D else content s e l))"
begin

fun wr_all :: "('d \<times> 'k \<times> 'b) list \<Rightarrow> 's \<Rightarrow> (unit \<times> 's) option" where
  "wr_all [] s = Some ((), s)"
| "wr_all ((d, k, D) # ws) s = do { (_, s) \<leftarrow> wr d k D s; wr_all ws s }"

fun after :: "('d \<times> 'k \<times> 'b) list \<Rightarrow> ('d \<Rightarrow> 'k \<Rightarrow> 'b) \<Rightarrow> 'd \<Rightarrow> 'k \<Rightarrow> 'b" where
  "after [] c = c"
| "after ((d, k, D) # ws) c = after ws (\<lambda>e l. if e = d \<and> l = k then D else c e l)"

lemma after_good:
  assumes "\<And>e l. g e \<Longrightarrow> c e l = c' e l" and "g e"
  shows "after ws c e l = after ws c' e l"
  using assms(1)
proof (induction ws arbitrary: c c')
  case Nil
  with assms(2) show ?case by simp
next
  case (Cons w ws)
  obtain d k D where w: "w = (d, k, D)" by (cases w)
  show ?case unfolding w after.simps by (rule Cons.IH) (simp add: Cons.prems)
qed

lemma wr_all_content:
  "inv s \<Longrightarrow> \<forall>(d, k, D) \<in> set ws. good s d \<Longrightarrow> wr_all ws s = Some (u, t) \<Longrightarrow>
     inv t \<and> good t = good s \<and> (\<forall>e l. good s e \<longrightarrow> content t e l = after ws (content s) e l)"
proof (induction ws arbitrary: s)
  case Nil
  then show ?case by simp
next
  case (Cons w ws)
  obtain d k D where w: "w = (d, k, D)" by (cases w)
  from Cons.prems(3) obtain ok v where v: "wr d k D s = Some (ok, v)" "wr_all ws v = Some (u, t)"
    unfolding w by (auto simp: bind_eq_Some_conv)
  from Cons.prems(2) w have "good s d" by simp
  note law = wr_law [OF Cons.prems(1) this v(1)]
  have IH: "inv t \<and> good t = good v \<and> (\<forall>e l. good v e \<longrightarrow> content t e l = after ws (content v) e l)"
    using Cons.IH [OF _ _ v(2)] law Cons.prems(2) by auto
  have "after ws (content v) e l = after ws (\<lambda>e l. if e = d \<and> l = k then D else content s e l) e l"
    if "good s e" for e l
    by (rule after_good [where g = "good s"]) (use law that in auto)
  with IH law show ?case by (simp add: w)
qed

lemma rd_after_wr_all:
  assumes "inv s" "\<forall>(d, k, D) \<in> set ws. good s d" "good s e"
    and "wr_all ws s = Some (u, t)" "rd e l t = Some (Some D, v)"
  shows "D = after ws (content s) e l"
proof -
  note w = wr_all_content [OF assms(1,2,4)]
  then have "D = content t e l" using rd_law [of t e l "Some D" v] assms(3,5) by simp
  with w assms(3) show ?thesis by simp
qed

end

subsection \<open>The pool is such a store\<close>

definition store_inv :: "kst \<Rightarrow> bool" where
  "store_inv s \<longleftrightarrow> cache_ok s \<and> busy_set s = {} \<and> media_ok s"

definition store_dev :: "kst \<Rightarrow> u16 \<Rightarrow> bool" where
  "store_dev s d \<longleftrightarrow> d \<noteq> NO_DEVICE \<and> validdev (plat s) d"

lemma fetch_ok:
  assumes "store_inv s" "store_dev s d" "fetch d k s = Some (r, t)"
  shows "store_inv t" "io_core t = io_core s" "e \<noteq> NO_DEVICE \<Longrightarrow> view t e l = view s e l"
    "case r of None \<Rightarrow> \<not> blk_rd_ok (plat s) d k \<and> u_error t = EIO
      | Some D \<Rightarrow> D = view s d k \<and> u_error t = u_error s"
proof -
  have ok: "cache_ok s" "d \<noteq> NO_DEVICE" "validdev (plat s) d" "media_ok s" "busy_set s = {}"
    using assms(1,2) by (auto simp: store_inv_def store_dev_def)
  obtain r1 u where b: "bread d k False s = Some (r1, u)"
    using assms(3) by (auto simp: fetch_def elim!: bind_SomeD)
  note post = bread_ok [OF ok(1-3) b]
  have mo: "media_ok u" if "io_core u = io_core s" for u
    using ok(4) io_core_fields(4) [OF that] by (simp add: media_ok_def)
  have "store_inv t \<and> io_core t = io_core s \<and> (\<forall>e l. e \<noteq> NO_DEVICE \<longrightarrow> view t e l = view s e l) \<and>
    (case r of None \<Rightarrow> \<not> blk_rd_ok (plat s) d k \<and> u_error t = EIO
      | Some D \<Rightarrow> D = view s d k \<and> u_error t = u_error s)"
  proof (cases r1)
    case None
    then have "r = None" "t = u" using assms(3) b by (auto simp: fetch_def)
    then show ?thesis using post None ok mo by (auto simp: bread_post_def store_inv_def)
  next
    case (Some c)
    then obtain v where v: "bfree c 0 u = Some (v, t)" and r: "r = Some (bf_data (bufpool u c))"
      using assms(3) b by (auto simp: fetch_def brelse_def Let_def elim!: bind_SomeD)
    have c: "buf_holds u c d k" "cache_ok u" "io_core u = io_core s" "busy_set u = {c}"
      using post Some ok by (auto simp: bread_post_def)
    then have cn: "c < nbufs u" by (simp add: buf_holds_def)
    note bf = bfree_clean [OF c(2) cn v]
    have "bf_data (bufpool u c) = view s d k"
      using view_hit [OF c(2,1) ok(2)] post Some by (simp add: bread_post_def)
    then show ?thesis
      using bf c post Some ok mo [of t] r by (auto simp: bread_post_def store_inv_def)
  qed
  then show "store_inv t" "io_core t = io_core s" "e \<noteq> NO_DEVICE \<Longrightarrow> view t e l = view s e l"
    "case r of None \<Rightarrow> \<not> blk_rd_ok (plat s) d k \<and> u_error t = EIO
      | Some D \<Rightarrow> D = view s d k \<and> u_error t = u_error s" by blast+
qed

lemma set_data_set_data [simp]: "set_data b D (set_data b J s) = set_data b D s"
  by (simp add: set_data_def)

lemma store_ok:
  assumes "store_inv s" "store_dev s d" "store d k D s = Some (r, t)"
  shows "store_inv t" "io_core t = io_core s" "r" "u_error t = u_error s"
    "e \<noteq> NO_DEVICE \<Longrightarrow> view t e l = (if e = d \<and> l = k then D else view s e l)"
proof -
  have ok: "cache_ok s" "d \<noteq> NO_DEVICE" "validdev (plat s) d" "media_ok s" "busy_set s = {}"
    using assms(1,2) by (auto simp: store_inv_def store_dev_def)
  obtain r1 w where b: "bread d k True s = Some (r1, w)"
    using assms(3) by (auto simp: store_def elim!: bind_SomeD)
  obtain c J u where c: "r1 = Some c" "bread_post d k s (Some c) u" "w = set_data c J u"
    by (rule bread_rewrite_ok [OF ok(1-3) b])
  then obtain v where v: "bfree c 1 (set_data c D u) = Some (v, t)" and r: "r"
    using assms(3) b by (auto simp: store_def bawrite_def elim!: bind_SomeD)
  have p: "buf_holds u c d k" "cache_ok u" "io_core u = io_core s" "busy_set u = {c}"
    "u_error u = u_error s" "\<And>e l. e \<noteq> NO_DEVICE \<Longrightarrow> view u e l = view s e l"
    using c(2) ok by (auto simp: bread_post_def)
  have one: "(1 :: u8) = 1 \<or> (1 :: u8) = 2" by simp
  note bf = bfree_dirty [OF p(2,1) ok(2) one v]
  have "media_ok t"
    using ok(4) io_core_fields(4) [of t s] bf(4) p(3) by (simp add: media_ok_def)
  then show "store_inv t" "io_core t = io_core s" "r" "u_error t = u_error s"
    "e \<noteq> NO_DEVICE \<Longrightarrow> view t e l = (if e = d \<and> l = k then D else view s e l)"
    using bf p r by (auto simp: store_inv_def)
qed

interpretation pool: block_store store_inv store_dev view fetch store
proof unfold_locales
  fix s d k r t assume a: "store_inv s" "store_dev s d" "fetch d k s = Some (r, t)"
  note f = fetch_ok [OF a]
  have "store_dev t = store_dev s" using io_core_fields(4) [OF f(2)] by (simp add: store_dev_def fun_eq_iff)
  with f show "store_inv t \<and> store_dev t = store_dev s
      \<and> (\<forall>e l. store_dev s e \<longrightarrow> view t e l = view s e l) \<and> (\<forall>D. r = Some D \<longrightarrow> D = view s d k)"
    by (auto simp: store_dev_def)
next
  fix s d k D ok t assume a: "store_inv s" "store_dev s d" "store d k D s = Some (ok, t)"
  note f = store_ok [OF a]
  have "store_dev t = store_dev s" using io_core_fields(4) [OF f(2)] by (simp add: store_dev_def fun_eq_iff)
  with f show "store_inv t \<and> store_dev t = store_dev s \<and> ok
      \<and> (\<forall>e l. store_dev s e \<longrightarrow> view t e l = (if e = d \<and> l = k then D else view s e l))"
    by (auto simp: store_dev_def)
qed

subsection \<open>Properties of the pool\<close>

text \<open>C1: A successful bread() hands out a buffer that was free, is now busy, and holds the block's
  current content, whether the block was cached or had to be read after evicting another one; the pool
  stays coherent, and when every eviction can be written no block changes its content.\<close>

theorem bread_content:
  assumes "cache_ok s" "d \<noteq> NO_DEVICE" "validdev (plat s) d"
    and "bread d k False s = Some (Some b, t)"
  shows "bf_data (bufpool t b) = view s d k \<and> b \<notin> busy_set s \<and> busy_set t = insert b (busy_set s)
    \<and> cache_ok t \<and> (media_ok s \<longrightarrow> (\<forall>e l. e \<noteq> NO_DEVICE \<longrightarrow> view t e l = view s e l))"
proof -
  have p: "bread_post d k s (Some b) t" by (rule bread_ok [OF assms])
  then have "cache_ok t" "buf_holds t b d k" by (auto simp: bread_post_def)
  then have "view t d k = bf_data (bufpool t b)" using view_hit assms(2) by simp
  with p show ?thesis by (auto simp: bread_post_def)
qed

lemma sample_cache: "cache_ok sample" "busy_set sample = {}" "media_ok sample"
  by (auto simp: sample_defs cache_ok_def buf_ok_def same_block_def busy_set_def media_ok_def)

lemma sample_bread:
  "\<exists>t. bread 0 5 False sample = Some (Some 1, t)"
  by (simp add: bread_def bfind_def first_index_def freebuf_def oldest_def oldest_step_def bdread_def
      validchk_def bdsetup_def sample_defs upt_rec upd_b_def Let_def)

theorem bread_content_witness:
  "\<exists>t. bread 0 5 False sample = Some (Some 1, t) \<and> bf_data (bufpool t 1) = view sample 0 5"
proof -
  obtain t where "bread 0 5 False sample = Some (Some 1, t)" using sample_bread by blast
  then show ?thesis
    using bread_content [OF sample_cache(1), of 0 5 1 t] by (auto simp: sample_defs)
qed

text \<open>freebuf() never takes a busy buffer, and among the free buffers it takes one that was stamped
  longest ago: no free buffer is older, in 16-bit clock ticks since its time stamp.\<close>

theorem freebuf_lru:
  assumes "freebuf s = Some (b, t)"
  shows "buf_free s b \<and> (\<forall>c. buf_free s c \<longrightarrow> buf_age s c \<le> buf_age s b)"
proof -
  have "oldest s = Some b"
    using assms by (auto simp: freebuf_def Let_def split: option.splits if_splits elim!: bind_SomeD)
  then show ?thesis using oldest_Some by blast
qed

theorem freebuf_lru_witness:
  "\<exists>t. freebuf (sample\<lparr>bufpool := (\<lambda>_. sample_buf)(0 := sample_buf\<lparr>bf_time := 7\<rparr>), bufclock := 9\<rparr>)
     = Some (1, t)
   \<and> buf_age (sample\<lparr>bufpool := (\<lambda>_. sample_buf)(0 := sample_buf\<lparr>bf_time := 7\<rparr>), bufclock := 9\<rparr>) 0 \<le> 9"
proof -
  let ?s = "sample\<lparr>bufpool := (\<lambda>_. sample_buf)(0 := sample_buf\<lparr>bf_time := 7\<rparr>), bufclock := 9\<rparr>"
  have "freebuf ?s = Some (1, ?s)"
    by (simp add: freebuf_def oldest_def oldest_step_def sample_defs upt_rec)
  moreover have "buf_free ?s 0" "buf_age ?s 1 = 9" by (simp_all add: buf_free_def buf_age_def sample_defs)
  ultimately show ?thesis using freebuf_lru [of ?s 1 ?s] by auto
qed

text \<open>bufsync() terminates normally and leaves every block of every device on the medium exactly as
  the kernel saw it before, when no buffer is in use and the writes succeed; the pool stays
  coherent and clean.\<close>

theorem bufsync_media:
  assumes "cache_ok s" "busy_set s = {}" "media_ok s"
  shows "\<exists>t. bufsync s = Some ((), t) \<and> cache_ok t \<and> io_core t = io_core s \<and>
    (\<forall>d k. d \<noteq> NO_DEVICE \<longrightarrow> disk t d k = view s d k \<and> view t d k = view s d k)"
proof -
  obtain t where t: "bufsync s = Some ((), t)" "io_core t = io_core s" "cache_ok t"
    "\<forall>e l. e \<noteq> NO_DEVICE \<longrightarrow> view t e l = view s e l" "all_synced (nbufs s) t"
    using bufsync_run [OF assms] by blast
  have "nbufs t = nbufs s" by (rule io_core_fields(5) [OF t(2)])
  then have "disk t d k = view s d k" if "d \<noteq> NO_DEVICE" for d k
    using synced_view [OF t(3) _ that] t(4,5) that by metis
  with t show ?thesis by blast
qed

theorem bufsync_media_witness:
  "\<exists>t. bufsync sample = Some ((), t) \<and> disk t 3 4 = view sample 3 4"
  using bufsync_media [OF sample_cache] by force

text \<open>C2: After any sequence of overwrites through the pool, reading a block yields the last content
  written to it, or the content it had before if it was not overwritten, whatever evictions and write-backs
  happened in between.\<close>

theorem pool_last_write:
  assumes "store_inv s" "\<forall>(d, k, D) \<in> set ws. store_dev s d" "store_dev s e"
    and "block_store.wr_all store ws s = Some (u, t)" "fetch e l t = Some (Some D, v)"
  shows "D = block_store.after ws (view s) e l"
  by (rule pool.rd_after_wr_all [OF assms])

theorem pool_last_write_witness:
  "\<exists>u t D v. block_store.wr_all store [(0, 5, \<lambda>_. 1)] sample = Some (u, t)
     \<and> fetch 0 5 t = Some (Some D, v) \<and> D = (\<lambda>_. 1)"
proof -
  have inv: "store_inv sample" using sample_cache by (simp add: store_inv_def)
  have dev: "store_dev sample 0" by (simp add: store_dev_def sample_defs)
  have free: "buf_free w 0" if "busy_set w = {}" "io_core w = io_core sample" for w
    using that io_core_fields(5) [OF that(2)] by (auto simp: buf_free_def busy_set_def sample_defs)
  have dv: "validdev (plat w) 0" if "io_core w = io_core sample" for w
    using io_core_fields(4) [OF that] by (simp add: sample_defs)
  obtain t where t: "store 0 5 (\<lambda>_. 1) sample = Some (True, t)"
    by (simp add: store_def bread_def bfind_def first_index_def freebuf_def oldest_def oldest_step_def
        bawrite_def bfree_def stamp_def set_data_def sample_defs upt_rec upd_b_def Let_def)
  note st = store_ok [OF inv dev t]
  have bt: "\<exists>r w. bread 0 5 False t = Some (r, w)"
    by (rule bread_total [OF _ _ free]) (use st dv in \<open>auto simp: store_inv_def\<close>)
  then obtain r w where w: "bread 0 5 False t = Some (r, w)" by blast
  have "blk_rd_ok (plat t) 0 5" using io_core_fields(4) [OF st(2)] by (simp add: sample_defs)
  then obtain b where b: "r = Some b" "buf_holds w b 0 5"
    using bread_ok [OF _ _ _ w] st(1) dv [OF st(2)]
    by (cases r) (auto simp: bread_post_def store_inv_def)
  obtain v where v: "fetch 0 5 t = Some (Some (bf_data (bufpool w b)), v)"
    using w b(1) by (simp add: fetch_def brelse_def bfree_def Let_def)
  have "block_store.wr_all store [(0, 5, \<lambda>_. 1)] sample = Some ((), t)"
    using t by (simp add: pool.wr_all.simps)
  moreover from this have "bf_data (bufpool w b) = (\<lambda>_. 1)"
    using pool_last_write [OF inv _ dev _ v, of "[(0, 5, \<lambda>_. 1)]" "()"] dev
    by (simp add: pool.after.simps)
  ultimately show ?thesis using v by blast
qed

text \<open>C35: The error path loses data: when freebuf() evicts a dirty buffer and the write fails, it marks
  the buffer clean and bread() reuses it, so the block reverts to what the medium holds. Only u\_error
  = EIO remains of the update, in a call that may be about another block altogether.\<close>

theorem eviction_loses_data:
  assumes "cache_ok s" and "freebuf s = Some (b, t)" and "bf_dirty (bufpool s b)"
    and "buf_holds s b d k" and "\<not> blk_wr_ok (plat s) d k"
  shows "u_error t = EIO \<and> \<not> bf_dirty (bufpool t b) \<and> view (drop_name b t) d k = disk s d k"
proof -
  have ol: "oldest s = Some b"
    using assms(2) by (auto simp: freebuf_def Let_def split: option.splits if_splits elim!: bind_SomeD)
  obtain r u where u: "bdwrite b s = Some (r, u)"
    "t = upd_b b (\<lambda>x. x\<lparr>bf_dirty := False\<rparr>) (if r = 0xFFFF then u\<lparr>u_error := EIO\<rparr> else u)"
    using assms(2,3) ol by (auto simp: freebuf_def Let_def elim!: bind_SomeD)
  have key: "b < nbufs s" "bf_dev (bufpool s b) = d" "bf_blk (bufpool s b) = k"
    using assms(4) by (auto simp: buf_holds_def)
  have r: "r = 0xFFFF" "disk u = disk s"
    using u(1) assms(5) key
    by (auto simp: bdwrite_def validchk_def bdsetup_def Let_def split: if_splits)
  have d: "d \<noteq> NO_DEVICE"
    using cache_buf_ok [OF assms(1) key(1)] assms(3) key by (auto simp: buf_ok_def)
  have f: "nbufs t = nbufs s" "bufpool t = (bufpool s)(b := (bufpool s b)\<lparr>bf_dirty := False\<rparr>)"
    using freebuf_frame(4) [OF assms(2)] io_core_fields(5) [OF freebuf_frame(2) [OF assms(2)]]
    by simp_all
  have "\<not> buf_holds (drop_name b t) c d k" for c
  proof (cases "c = b")
    case True
    then show ?thesis using d by (simp add: buf_holds_def drop_name_def)
  next
    case False
    then have "\<not> buf_holds s c d k" using cache_unique [OF assms(1) _ assms(4) d, of c] by blast
    then show ?thesis using False f by (simp add: buf_holds_def drop_name_def)
  qed
  then have "bfind d k (drop_name b t) = None" unfolding bfind_None by blast
  then show ?thesis
    using u(2) r f by (simp add: view_miss drop_name_def)
qed

theorem eviction_loses_data_witness:
  "\<exists>s b t. freebuf s = Some (b, t) \<and> view s 0 5 = (\<lambda>_. 1) \<and> view (drop_name b t) 0 5 = zero_block"
proof -
  let ?b = "sample_buf\<lparr>bf_dev := 0, bf_blk := 5, bf_dirty := True, bf_data := \<lambda>_. 1\<rparr>"
  let ?s = "sample\<lparr>nbufs := 1, bufpool := (\<lambda>_. ?b), plat := sample_plat\<lparr>blk_wr_ok := (\<lambda>_ _. False)\<rparr>\<rparr>"
  have ok: "cache_ok ?s" by (simp add: sample_defs cache_ok_def buf_ok_def)
  obtain t where t: "freebuf ?s = Some (0, t)"
    by (simp add: freebuf_def oldest_def oldest_step_def bdwrite_def validchk_def bdsetup_def
        sample_defs Let_def)
  have h: "buf_holds ?s 0 0 5" by (simp add: buf_holds_def sample_defs)
  have "view (drop_name 0 t) 0 5 = disk ?s 0 5"
    using eviction_loses_data [OF ok t _ h] by (simp add: sample_plat_def)
  moreover have "view ?s 0 5 = (\<lambda>_. 1)" using view_hit [OF ok h] by simp
  moreover have "disk ?s 0 5 = zero_block" by (simp add: sample_defs)
  ultimately show ?thesis using t by metis
qed

end
