(* ===== verification/FsBase.thy ===== *)
theory FsBase
  imports BufCache Timer
begin

text \<open>
  The parts of Kernel/filesys.c and Kernel/inode.c that the rest of the file system stands on: the
  on-disk form of inodes and superblocks, the mount table, writing inodes back, sync(), and
  the allocation of blocks and inode numbers. A store outside a fixed table of the superblock, or
  through a NULL pointer, has no value in the model (None), like a panic.
\<close>

subsection \<open>On-disk structures\<close>

definition dinode_bytes :: "dinode \<Rightarrow> u8 list" where
  "dinode_bytes d = le16 (i_mode d) @ le16 (i_nlink d) @ le16 (i_uid d) @ le16 (i_gid d)
     @ le32 (i_size d) @ le32 (i_atime d) @ le32 (i_mtime d) @ le32 (i_ctime d)
     @ concat (map le16 (i_addr d))"

definition dinode_of :: "u8 list \<Rightarrow> dinode" where
  "dinode_of bs = \<lparr>i_mode = rd16 bs 0, i_nlink = rd16 bs 2, i_uid = rd16 bs 4, i_gid = rd16 bs 6,
     i_size = rd32 bs 8, i_atime = rd32 bs 12, i_mtime = rd32 bs 16, i_ctime = rd32 bs 20,
     i_addr = map (\<lambda>j. rd16 bs (24 + 2 * j)) [0..<20]\<rparr>"

text \<open>The free list as it is kept in the superblock and in the blocks of the chain.\<close>

definition free_list_bytes :: "filesys \<Rightarrow> u8 list" where
  "free_list_bytes f = le16 (s_nfree f) @ concat (map le16 (s_free f))"

definition load_free_list :: "u8 list \<Rightarrow> filesys \<Rightarrow> filesys" where
  "load_free_list bs f = f\<lparr>s_nfree := rd16 bs 0,
     s_free := map (\<lambda>j. rd16 bs (2 + 2 * j)) [0..<FILESYS_TABSIZE]\<rparr>"

text \<open>
  The whole superblock. \<open>s_mntpt\<close> is stored as the address of the inode table entry (each is 74
  bytes long); when a superblock is read, fmount() sets the field at once, so it is read as NULL.
\<close>

definition mntpt_addr :: "u16 \<Rightarrow> nat option \<Rightarrow> u16" where
  "mntpt_addr itab m = (case m of None \<Rightarrow> 0 | Some i \<Rightarrow> itab + 74 * of_nat i)"

definition filesys_bytes :: "u16 \<Rightarrow> filesys \<Rightarrow> u8 list" where
  "filesys_bytes itab f = le16 (s_mounted f) @ le16 (s_isize f) @ le16 (s_fsize f) @ free_list_bytes f
     @ le16 (s_ninode f) @ concat (map le16 (s_inode f)) @ [s_fmod f, s_timeh f] @ le32 (s_time f)
     @ le16 (s_tfree f) @ le16 (s_tinode f) @ le16 (mntpt_addr itab (s_mntpt f))"

definition filesys_of :: "u8 list \<Rightarrow> filesys" where
  "filesys_of bs = \<lparr>s_mounted = rd16 bs 0, s_isize = rd16 bs 2, s_fsize = rd16 bs 4,
     s_nfree = rd16 bs 6, s_free = map (\<lambda>j. rd16 bs (8 + 2 * j)) [0..<FILESYS_TABSIZE],
     s_ninode = rd16 bs 108, s_inode = map (\<lambda>j. rd16 bs (110 + 2 * j)) [0..<FILESYS_TABSIZE],
     s_fmod = bs ! 210, s_timeh = bs ! 211, s_time = rd32 bs 212, s_tfree = rd16 bs 216,
     s_tinode = rd16 bs 218, s_mntpt = None\<rparr>"

subsection \<open>Inode attributes\<close>

definition magic :: "nat \<Rightarrow> kst \<Rightarrow> (unit \<times> kst) option" where
  "magic ino s = (if c_magic (i_tab s ino) \<noteq> CMAGIC then panic ''corrupt inode'' s else Some ((), s))"

definition isdevice :: "nat \<Rightarrow> kst \<Rightarrow> bool" where
  "isdevice ino s \<longleftrightarrow> i_mode (c_node (i_tab s ino)) AND F_CDEV \<noteq> 0"

definition devnum :: "nat \<Rightarrow> kst \<Rightarrow> u16" where
  "devnum ino s = i_addr (c_node (i_tab s ino)) ! 0"

definition getmode :: "nat \<Rightarrow> kst \<Rightarrow> u8" where
  "getmode ino s = ucast (drop_bit 8 (i_mode (c_node (i_tab s ino)) AND F_MASK))"

definition super :: "kst \<Rightarrow> bool" where
  "super s \<longleftrightarrow> u_euid s = 0"

text \<open>esuper() answers True when the caller is not the superuser.\<close>

definition esuper :: "kst \<Rightarrow> bool \<times> kst" where
  "esuper s = (if u_euid s \<noteq> 0 then (True, s\<lparr>u_error := EPERM\<rparr>) else (False, s))"

definition getperm :: "nat \<Rightarrow> kst \<Rightarrow> u16" where
  "getperm ino s =
     (if super s then 7
      else
        let d = c_node (i_tab s ino);
            mode = (if i_uid d = u_euid s then drop_bit 6 (i_mode d)
                    else if i_gid d = u_egid s then drop_bit 3 (i_mode d)
                    else i_mode d)
        in mode AND 7)"

definition setftime :: "nat \<Rightarrow> u8 \<Rightarrow> kst \<Rightarrow> kst" where
  "setftime ino flag s =
     (if c_flags (i_tab s ino) AND CRDONLY \<noteq> 0 then s
      else
        let s = upd_i ino (\<lambda>c. c\<lparr>c_flags := c_flags c OR CDIRTY\<rparr>) s;
            s = (if flag AND A_TIME \<noteq> 0 then upd_node ino (\<lambda>d. d\<lparr>i_atime := rdtime32 s\<rparr>) s else s);
            s = (if flag AND M_TIME \<noteq> 0 then upd_node ino (\<lambda>d. d\<lparr>i_mtime := rdtime32 s\<rparr>) s else s)
        in if flag AND C_TIME \<noteq> 0 then upd_node ino (\<lambda>d. d\<lparr>i_ctime := rdtime32 s\<rparr>) s else s)"

subsection \<open>The mount table\<close>

definition fs_tab_get :: "u16 \<Rightarrow> kst \<Rightarrow> nat option" where
  "fs_tab_get dev s = first_index NMOUNTS (\<lambda>i. m_dev (fs_tab s i) = dev)"

definition newfstab :: "kst \<Rightarrow> nat option" where
  "newfstab s = first_index NMOUNTS (\<lambda>i. m_dev (fs_tab s i) = NO_DEVICE)"

abbreviation fs_at :: "kst \<Rightarrow> nat \<Rightarrow> filesys" where
  "fs_at s m \<equiv> m_fs (fs_tab s m)"

definition getdev :: "u16 \<Rightarrow> kst \<Rightarrow> (nat \<times> kst) option" where
  "getdev dev s =
     (case fs_tab_get dev s of
        None \<Rightarrow> panic ''getdev: bad dev'' s
      | Some m \<Rightarrow>
          if s_mounted (fs_at s m) = 0 then panic ''getdev: bad dev'' s
          else Some (m,
            if m_flags (fs_tab s m) AND MS_RDONLY = 0
            then upd_fs m (\<lambda>f. f\<lparr>s_time := fst (rdtime s), s_timeh := ucast (snd (rdtime s)),
                   s_fmod := FMOD_DIRTY\<rparr>) s
            else s))"

definition baddev :: "filesys \<Rightarrow> bool" where
  "baddev f \<longleftrightarrow> s_mounted f \<noteq> SMOUNTED"

definition validblk :: "u16 \<Rightarrow> u16 \<Rightarrow> kst \<Rightarrow> (unit \<times> kst) option" where
  "validblk dev num s =
     (case fs_tab_get dev s of
        None \<Rightarrow> panic ''validblk: not mounted'' s
      | Some m \<Rightarrow>
          if s_mounted (fs_at s m) = 0 then panic ''validblk: not mounted'' s
          else if num < s_isize (fs_at s m) \<or> num \<ge> s_fsize (fs_at s m)
          then panic ''validblk: invalid blk'' s
          else Some ((), s))"

definition corrupt_fs :: "u16 \<Rightarrow> kst \<Rightarrow> (unit \<times> kst) option" where
  "corrupt_fs dev s =
     (case fs_tab_get dev s of
        None \<Rightarrow> panic ''store through NULL'' s
      | Some m \<Rightarrow> Some ((), upd_fs m (\<lambda>f. f\<lparr>s_mounted := 1\<rparr>) s))"

subsection \<open>Writing back\<close>

text \<open>Overwriting a stretch of a buffer (blkfromk).\<close>

definition blkfromk :: "u8 list \<Rightarrow> nat \<Rightarrow> nat \<Rightarrow> kst \<Rightarrow> kst" where
  "blkfromk bs bp off s = upd_b bp (\<lambda>b. b\<lparr>bf_data := put_bytes (bf_data b) off bs\<rparr>) s"

text \<open>Where an inode lives: its block and its offset in the block.\<close>

definition inode_blk :: "u16 \<Rightarrow> u16" where
  "inode_blk num = drop_bit 3 num + 2"

definition inode_off :: "u16 \<Rightarrow> nat" where
  "inode_off num = 64 * unat (num AND 7)"

definition wr_inode :: "nat \<Rightarrow> kst \<Rightarrow> (unit \<times> kst) option" where
  "wr_inode ino s = do {
     (_, s) \<leftarrow> magic ino s;
     let c = i_tab s ino;
     (r, s) \<leftarrow> bread (c_dev c) (inode_blk (c_num c)) False s;
     case r of
       Some bp \<Rightarrow> do {
         let s = blkfromk (dinode_bytes (c_node c)) bp (inode_off (c_num c)) s;
         (_, s) \<leftarrow> bfree bp 2 s;
         Some ((), upd_i ino (\<lambda>c. c\<lparr>c_flags := c_flags c AND NOT CDIRTY\<rparr>) s)
       }
     | None \<Rightarrow> corrupt_fs (c_dev c) s
   }"

definition sync_inode :: "nat \<Rightarrow> kst \<Rightarrow> (unit \<times> kst) option" where
  "sync_inode ino s =
     (if c_refs (i_tab s ino) > 0 \<and> c_flags (i_tab s ino) AND CDIRTY \<noteq> 0 then do {
        (_, s) \<leftarrow> wr_inode ino s;
        Some ((), upd_i ino (\<lambda>c. c\<lparr>c_flags := c_flags c AND NOT CDIRTY\<rparr>) s)
      } else Some ((), s))"

definition sync_mount :: "nat \<Rightarrow> kst \<Rightarrow> (unit \<times> kst) option" where
  "sync_mount m s =
     (if m_dev (fs_tab s m) \<noteq> NO_DEVICE \<and> s_fmod (fs_at s m) \<noteq> FMOD_CLEAN then do {
        let s = (if s_fmod (fs_at s m) = FMOD_GO_CLEAN
                 then upd_fs m (\<lambda>f. f\<lparr>s_fmod := FMOD_CLEAN\<rparr>) s else s);
        (r, s) \<leftarrow> bread (m_dev (fs_tab s m)) 1 True s;
        case r of
          Some bp \<Rightarrow> do {
            let s = blkfromk (filesys_bytes (itab_addr (plat s)) (fs_at s m)) bp 0 s;
            (_, s) \<leftarrow> bfree bp 2 s;
            Some ((), s)
          }
        | None \<Rightarrow> Some ((), s)
      } else Some ((), s))"

definition sync :: "kst \<Rightarrow> (unit \<times> kst) option" where
  "sync s = do {
     (_, s) \<leftarrow> for_each [0..<ITABSIZE] sync_inode s;
     (_, s) \<leftarrow> for_each [0..<NMOUNTS] sync_mount s;
     bufsync s
   }"

subsection \<open>Block allocation\<close>

text \<open>The labels \<^verbatim>\<open>corrupt\<close> and \<^verbatim>\<open>corrupt2\<close> of blk\_alloc() and i\_alloc().\<close>

definition alloc_corrupt2 :: "kst \<Rightarrow> (u16 \<times> kst) option" where
  "alloc_corrupt2 s = Some (0, s\<lparr>u_error := ENOSPC\<rparr>)"

definition alloc_corrupt :: "nat \<Rightarrow> kst \<Rightarrow> (u16 \<times> kst) option" where
  "alloc_corrupt m s = alloc_corrupt2 (upd_fs m (\<lambda>f. f\<lparr>s_mounted := 1\<rparr>) s)"

text \<open>Refilling the free list from the block just taken; False when the block cannot be read.\<close>

definition refill :: "u16 \<Rightarrow> nat \<Rightarrow> u16 \<Rightarrow> kst \<Rightarrow> (bool \<times> kst) option" where
  "refill dev m newno s =
     (if s_nfree (fs_at s m) = 0 then do {
        (r, s) \<leftarrow> bread dev newno False s;
        case r of
          None \<Rightarrow> Some (False, s)
        | Some bp \<Rightarrow> do {
            let s = upd_fs m (load_free_list (get_bytes (bf_data (bufpool s bp)) 0 102)) s;
            (_, s) \<leftarrow> brelse bp s;
            Some (True, s)
          }
      } else Some (True, s))"

text \<open>Zeroing the new block; False when no buffer can be had.\<close>

definition zero_blk :: "u16 \<Rightarrow> u16 \<Rightarrow> kst \<Rightarrow> (bool \<times> kst) option" where
  "zero_blk dev newno s = do {
     (r, s) \<leftarrow> bread dev newno True s;
     case r of
       None \<Rightarrow> Some (False, s)
     | Some bp \<Rightarrow> do {
         let s = upd_b bp (\<lambda>b. b\<lparr>bf_data := zero_block\<rparr>) s;
         (_, s) \<leftarrow> bawrite bp s;
         Some (True, s)
       }
   }"

definition blk_alloc :: "u16 \<Rightarrow> kst \<Rightarrow> (u16 \<times> kst) option" where
  "blk_alloc devno s = do {
     (m, s) \<leftarrow> getdev devno s;
     if baddev (fs_at s m) then alloc_corrupt2 s
     else if s_nfree (fs_at s m) = 0 \<or> s_nfree (fs_at s m) > of_nat FILESYS_TABSIZE then alloc_corrupt m s
     else do {
       let s = upd_fs m (\<lambda>f. f\<lparr>s_nfree := s_nfree f - 1\<rparr>) s;
       let newno = s_free (fs_at s m) ! unat (s_nfree (fs_at s m));
       if newno = 0 then
         (if s_tfree (fs_at s m) \<noteq> 0 then alloc_corrupt m s
          else Some (0, upd_fs m (\<lambda>f. f\<lparr>s_nfree := s_nfree f + 1\<rparr>) (s\<lparr>u_error := ENOSPC\<rparr>)))
       else do {
         (ok, s) \<leftarrow> refill devno m newno s;
         if \<not> ok then alloc_corrupt m s
         else do {
           (_, s) \<leftarrow> validblk devno newno s;
           if s_tfree (fs_at s m) = 0 then alloc_corrupt m s
           else do {
             let s = upd_fs m (\<lambda>f. f\<lparr>s_tfree := s_tfree f - 1\<rparr>) s;
             (ok, s) \<leftarrow> zero_blk devno newno s;
             if \<not> ok then alloc_corrupt m s else Some (newno, s)
           }
         }
       }
     }
   }"

text \<open>Storing a full free list in the block being freed.\<close>

definition spill :: "u16 \<Rightarrow> nat \<Rightarrow> u16 \<Rightarrow> kst \<Rightarrow> (unit \<times> kst) option" where
  "spill dev m blk s =
     (if s_nfree (fs_at s m) = of_nat FILESYS_TABSIZE then do {
        (r, s) \<leftarrow> bread dev blk True s;
        case r of
          Some bp \<Rightarrow> do {
            let s = blkfromk (free_list_bytes (fs_at s m)) bp 0 s;
            (_, s) \<leftarrow> bawrite bp s;
            Some ((), upd_fs m (\<lambda>f. f\<lparr>s_nfree := 0\<rparr>) s)
          }
        | None \<Rightarrow> Some ((), upd_fs m (\<lambda>f. f\<lparr>s_mounted := 1\<rparr>) s)
      } else Some ((), s))"

definition blk_free :: "u16 \<Rightarrow> u16 \<Rightarrow> kst \<Rightarrow> (unit \<times> kst) option" where
  "blk_free devno blk s =
     (if blk = 0 then Some ((), s)
      else do {
        (m, s) \<leftarrow> getdev devno s;
        if baddev (fs_at s m) then Some ((), s)
        else do {
          (_, s) \<leftarrow> validblk devno blk s;
          (_, s) \<leftarrow> spill devno m blk s;
          let s = upd_fs m (\<lambda>f. f\<lparr>s_tfree := s_tfree f + 1\<rparr>) s;
          let n = unat (s_nfree (fs_at s m));
          if n < FILESYS_TABSIZE
          then Some ((), upd_fs m (\<lambda>f. f\<lparr>s_free := (s_free f)[n := blk], s_nfree := s_nfree f + 1\<rparr>) s)
          else panic ''store outside s_free'' s
        }
      })"

subsection \<open>Inode numbers\<close>

text \<open>The end of i\_alloc(): take the last number of the table.\<close>

definition take_inode :: "nat \<Rightarrow> kst \<Rightarrow> (u16 \<times> kst) option" where
  "take_inode m s =
     (if s_tinode (fs_at s m) = 0 then alloc_corrupt m s
      else
        let s = upd_fs m (\<lambda>f. f\<lparr>s_ninode := s_ninode f - 1\<rparr>) s;
            n = unat (s_ninode (fs_at s m))
        in if \<not> n < FILESYS_TABSIZE then panic ''read outside s_inode'' s
           else
             let ino = s_inode (fs_at s m) ! n
             in if ino < 2 \<or> ino \<ge> (s_isize (fs_at s m) - 2) * 8 then alloc_corrupt m s
                else Some (ino, upd_fs m (\<lambda>f. f\<lparr>s_tinode := s_tinode f - 1\<rparr>) s))"

text \<open>One inode block: the numbers of its unused inodes go into the table until it is full.\<close>

fun scan_block :: "block \<Rightarrow> u16 \<Rightarrow> nat list \<Rightarrow> nat \<times> u16 list \<Rightarrow> nat \<times> u16 list" where
  "scan_block D blk [] (k, tab) = (k, tab)"
| "scan_block D blk (j # js) (k, tab) =
     (let di = dinode_of (get_bytes D (64 * j) 64);
          (k, tab) = (if i_mode di = 0 \<and> i_nlink di = 0
                      then (Suc k, tab[k := 8 * (blk - 2) + of_nat j]) else (k, tab))
      in if k = FILESYS_TABSIZE then (k, tab) else scan_block D blk js (k, tab))"

text \<open>The scan over the inode blocks: the count of numbers found, None when a block cannot be read.\<close>

fun scan_blocks :: "u16 \<Rightarrow> nat \<Rightarrow> nat list \<Rightarrow> nat \<Rightarrow> kst \<Rightarrow> (nat option \<times> kst) option" where
  "scan_blocks dev m [] k s = Some (Some k, s)"
| "scan_blocks dev m (blk # blks) k s = do {
     (r, s) \<leftarrow> bread dev (of_nat blk) False s;
     case r of
       None \<Rightarrow> Some (None, s)
     | Some bp \<Rightarrow> do {
         let (k, tab) = scan_block (bf_data (bufpool s bp)) (of_nat blk) [0..<8] (k, s_inode (fs_at s m));
         let s = upd_fs m (\<lambda>f. f\<lparr>s_inode := tab\<rparr>) s;
         (_, s) \<leftarrow> brelse bp s;
         if k = FILESYS_TABSIZE then Some (Some k, s) else scan_blocks dev m blks k s
       }
   }"

definition i_alloc :: "u16 \<Rightarrow> kst \<Rightarrow> (u16 \<times> kst) option" where
  "i_alloc devno s = do {
     (m, s) \<leftarrow> getdev devno s;
     if baddev (fs_at s m) then alloc_corrupt m s
     else if s_ninode (fs_at s m) \<noteq> 0 then take_inode m s
     else do {
       (_, s) \<leftarrow> sync s;
       (r, s) \<leftarrow> scan_blocks devno m [2..<unat (s_isize (fs_at s m))] 0 s;
       case r of
         None \<Rightarrow> alloc_corrupt m s
       | Some k \<Rightarrow>
           if k = 0 then
             (if s_tinode (fs_at s m) \<noteq> 0 then alloc_corrupt m s
              else Some (0, s\<lparr>u_error := ENOSPC\<rparr>))
           else take_inode m (upd_fs m (\<lambda>f. f\<lparr>s_ninode := of_nat k\<rparr>) s)
     }
   }"

definition i_free :: "u16 \<Rightarrow> u16 \<Rightarrow> kst \<Rightarrow> (unit \<times> kst) option" where
  "i_free devno ino s = do {
     (m, s) \<leftarrow> getdev devno s;
     if baddev (fs_at s m) then Some ((), s)
     else if ino < 2 \<or> ino \<ge> (s_isize (fs_at s m) - 2) * 8 then panic ''i_free: bad ino'' s
     else do {
       let s = upd_fs m (\<lambda>f. f\<lparr>s_tinode := s_tinode f + 1\<rparr>) s;
       let n = s_ninode (fs_at s m);
       if sint n < int FILESYS_TABSIZE then
         (if 0 \<le> sint n
          then Some ((), upd_fs m (\<lambda>f. f\<lparr>s_inode := (s_inode f)[unat n := ino], s_ninode := n + 1\<rparr>) s)
          else panic ''store outside s_inode'' s)
       else Some ((), s)
     }
   }"

end
