(* ===== verification/Inode.thy ===== *)
theory Inode
  imports FsBase Process
begin

text \<open>
  The in-core inode table and the block map of a file, from Kernel/filesys.c: i\_open(), i\_deref(),
  f\_trunc(), freeblk(), bmap(). An inoptr is the index of an inode table entry, NULLINODE is None.
\<close>

subsection \<open>Truncation\<close>

text \<open>The block number stored at entry \<open>j\<close> of an indirect block.\<close>

definition blk_entry :: "block \<Rightarrow> nat \<Rightarrow> u16" where
  "blk_entry D j = rd16 (get_bytes D (2 * j) 2) 0"

fun freeblk :: "u16 \<Rightarrow> nat \<Rightarrow> u16 \<Rightarrow> kst \<Rightarrow> (unit \<times> kst) option" where
  "freeblk dev 0 blk s = (if blk = 0 then Some ((), s) else blk_free dev blk s)"
| "freeblk dev (Suc level) blk s =
     (if blk = 0 then Some ((), s)
      else do {
        (r, s) \<leftarrow> bread dev blk False s;
        case r of
          None \<Rightarrow> corrupt_fs dev s
        | Some bp \<Rightarrow> do {
            (_, s) \<leftarrow> for_each (rev [0..<256])
                       (\<lambda>j s. freeblk dev level (blk_entry (bf_data (bufpool s bp)) j) s) s;
            (_, s) \<leftarrow> brelse bp s;
            blk_free dev blk s
          }
      })"

text \<open>f\_trunc(): the answer is True for the return value -1.\<close>

definition f_trunc :: "nat \<Rightarrow> kst \<Rightarrow> (bool \<times> kst) option" where
  "f_trunc ino s =
     (if c_flags (i_tab s ino) AND CRDONLY \<noteq> 0 then Some (True, s\<lparr>u_error := EROFS\<rparr>)
      else do {
        let dev = c_dev (i_tab s ino);
        (_, s) \<leftarrow> freeblk dev 2 (i_addr (c_node (i_tab s ino)) ! 19) s;
        (_, s) \<leftarrow> freeblk dev 1 (i_addr (c_node (i_tab s ino)) ! 18) s;
        (_, s) \<leftarrow> for_each (rev [0..<18]) (\<lambda>j s. freeblk dev 0 (i_addr (c_node (i_tab s ino)) ! j) s) s;
        let s = upd_node ino (\<lambda>d. d\<lparr>i_addr := replicate 20 0\<rparr>) s;
        let s = upd_i ino (\<lambda>c. c\<lparr>c_flags := c_flags c OR CDIRTY\<rparr>) s;
        let s = upd_node ino (\<lambda>d. d\<lparr>i_size := 0\<rparr>) s;
        Some (False, s)
      })"

subsection \<open>The block map\<close>

text \<open>Storing a new block number in the inode.\<close>

definition set_addr :: "nat \<Rightarrow> nat \<Rightarrow> u16 \<Rightarrow> kst \<Rightarrow> kst" where
  "set_addr ip j nb s = upd_i ip (\<lambda>c. c\<lparr>c_flags := c_flags c OR CDIRTY\<rparr>)
     (upd_node ip (\<lambda>d. d\<lparr>i_addr := (i_addr d)[j := nb]\<rparr>) s)"

text \<open>
  The loop through the indirect blocks, one shift count for each level. \<open>Inl r\<close> stands for a
  \<^verbatim>\<open>return(r)\<close> out of the loop, \<open>Inr nb\<close> for its normal end.
\<close>

fun bmap_walk :: "nat \<Rightarrow> u16 \<Rightarrow> u16 \<Rightarrow> bool \<Rightarrow> nat list \<Rightarrow> u16 \<Rightarrow> kst \<Rightarrow> ((u16 + u16) \<times> kst) option" where
  "bmap_walk ip dev bn rwflg [] nb s = Some (Inr nb, s)"
| "bmap_walk ip dev bn rwflg (sh # shs) nb s = do {
     (r, s) \<leftarrow> bread dev nb False s;
     case r of
       None \<Rightarrow> do {
         (_, s) \<leftarrow> corrupt_fs (c_dev (i_tab s ip)) s;
         Some (Inl 0, s)
       }
     | Some bp \<Rightarrow> do {
         let i = unat (drop_bit sh bn AND 0xFF);
         let nb = blk_entry (bf_data (bufpool s bp)) i;
         if nb \<noteq> 0 then do {
           (_, s) \<leftarrow> brelse bp s;
           bmap_walk ip dev bn rwflg shs nb s
         } else do {
           (nb, s) \<leftarrow> (if rwflg then Some (0, s) else blk_alloc dev s);
           if nb = 0 then do {
             (_, s) \<leftarrow> brelse bp s;
             Some (Inl NULLBLK, s)
           } else do {
             let s = blkfromk (le16 nb) bp (i * 2) s;
             (_, s) \<leftarrow> bawrite bp s;
             bmap_walk ip dev bn rwflg shs nb s
           }
         }
       }
   }"

text \<open>bmap(): \<open>rwflg\<close> is True for reading, as in the code (1): no block is then created.\<close>

definition bmap :: "nat \<Rightarrow> u16 \<Rightarrow> bool \<Rightarrow> kst \<Rightarrow> (u16 \<times> kst) option" where
  "bmap ip bn rwflg s =
     (if getmode ip s = MODE_R_BDEV then Some (bn, s)
      else do {
        let dev = c_dev (i_tab s ip);
        if bn < 18 then do {
          let nb = i_addr (c_node (i_tab s ip)) ! unat bn;
          if nb = 0 then do {
            (nb, s) \<leftarrow> (if rwflg then Some (0, s) else blk_alloc dev s);
            if nb = 0 then Some (NULLBLK, s) else Some (nb, set_addr ip (unat bn) nb s)
          } else Some (nb, s)
        } else do {
          let bn = bn - 18;
          let (bn, j, shs) = (if bn AND 0xFF00 \<noteq> 0 then (bn - 256, 1, [8, 0]) else (bn, 2, [0]));
          let nb = i_addr (c_node (i_tab s ip)) ! (20 - j);
          (nb, s) \<leftarrow> (if nb = 0 then do {
                        (nb, s) \<leftarrow> (if rwflg then Some (0, s) else blk_alloc dev s);
                        if nb = 0 then Some (0, s) else Some (nb, set_addr ip (20 - j) nb s)
                      } else Some (nb, s));
          if nb = 0 then Some (NULLBLK, s)
          else do {
            (r, s) \<leftarrow> bmap_walk ip dev bn rwflg shs nb s;
            Some (case r of Inl r \<Rightarrow> r | Inr nb \<Rightarrow> nb, s)
          }
        }
      })"

subsection \<open>Opening\<close>

text \<open>The entry for an inode that is in the table, and the last entry without references.\<close>

definition i_find :: "u16 \<Rightarrow> u16 \<Rightarrow> kst \<Rightarrow> nat option" where
  "i_find dev ino s = first_index ITABSIZE (\<lambda>j. c_dev (i_tab s j) = dev \<and> c_num (i_tab s j) = ino)"

definition i_unused :: "kst \<Rightarrow> nat option" where
  "i_unused s = List.find (\<lambda>j. c_refs (i_tab s j) = 0) (rev [0..<ITABSIZE])"

text \<open>The label \<^verbatim>\<open>found\<close> of i\_open().\<close>

definition i_found :: "bool \<Rightarrow> nat \<Rightarrow> kst \<Rightarrow> (nat option \<times> kst) option" where
  "i_found isnew nindex s =
     (let d = c_node (i_tab s nindex) in
      if isnew then
        (if i_nlink d \<noteq> 0 \<or> i_mode d AND F_MASK \<noteq> 0 then Some (None, s)
         else Some (Some nindex, i_ref nindex s))
      else
        (if \<not> (i_nlink d \<noteq> 0 \<and> i_mode d AND F_MASK \<noteq> 0) then Some (None, s)
         else Some (Some nindex, i_ref nindex s)))"

definition i_open :: "u16 \<Rightarrow> u16 \<Rightarrow> kst \<Rightarrow> (nat option \<times> kst) option" where
  "i_open dev ino s = do {
     (_, s) \<leftarrow> validchk dev ''i_open'' s;
     let isnew = (ino = 0);
     (ino, s) \<leftarrow> (if isnew then i_alloc dev s else Some (ino, s));
     if ino = 0 then Some (None, s\<lparr>u_error := ENOSPC\<rparr>)
     else
       case fs_tab_get dev s of
         None \<Rightarrow> panic ''read through NULL'' s
       | Some m \<Rightarrow>
           if ino < ROOTINODE \<or> ino \<ge> (s_isize (fs_at s m) - 2) * 8 then Some (None, s)
           else
             case i_find dev ino s of
               Some nindex \<Rightarrow> i_found isnew nindex s
             | None \<Rightarrow>
                 case i_unused s of
                   None \<Rightarrow> Some (None, s\<lparr>u_error := ENFILE\<rparr>)
                 | Some nindex \<Rightarrow> do {
                     (r, s) \<leftarrow> bread dev (inode_blk ino) False s;
                     case r of
                       None \<Rightarrow> Some (None, s)
                     | Some bp \<Rightarrow> do {
                         let s = upd_i nindex (\<lambda>c. c\<lparr>c_node :=
                                   dinode_of (get_bytes (bf_data (bufpool s bp)) (inode_off ino) 64)\<rparr>) s;
                         (_, s) \<leftarrow> brelse bp s;
                         let s = upd_i nindex (\<lambda>c. c\<lparr>c_dev := dev, c_num := ino, c_magic := CMAGIC,
                                   c_flags := (if m_flags (fs_tab s m) AND MS_RDONLY \<noteq> 0
                                               then CRDONLY else 0)\<rparr>) s;
                         i_found isnew nindex s
                       }
                   }
   }"

subsection \<open>Dropping a reference\<close>

definition i_deref :: "nat \<Rightarrow> kst \<Rightarrow> (unit \<times> kst) option" where
  "i_deref ino s = do {
     (_, s) \<leftarrow> magic ino s;
     if c_refs (i_tab s ino) = 0 then panic ''inode freed'' s
     else do {
       let s = (if i_mode (c_node (i_tab s ino)) AND F_MASK = F_PIPE then wakeup (EvInode ino) s else s);
       let s = upd_i ino (\<lambda>c. c\<lparr>c_refs := c_refs c - 1\<rparr>) s;
       let fmt = i_mode (c_node (i_tab s ino)) AND F_MASK;
       (_, s) \<leftarrow> (if \<not> (c_refs (i_tab s ino) \<noteq> 0 \<or> i_nlink (c_node (i_tab s ino)) \<noteq> 0)
                      \<and> (fmt = F_REG \<or> fmt = F_DIR \<or> fmt = F_PIPE)
                   then do { (_, s) \<leftarrow> f_trunc ino s; Some ((), s) } else Some ((), s));
       if c_refs (i_tab s ino) = 0 \<and> c_flags (i_tab s ino) AND CDIRTY \<noteq> 0 then do {
         (_, s) \<leftarrow> (if i_nlink (c_node (i_tab s ino)) = 0 then do {
                       let s = upd_node ino (\<lambda>d. d\<lparr>i_mode := 0\<rparr>) s;
                       i_free (c_dev (i_tab s ino)) (c_num (i_tab s ino)) s
                     } else Some ((), s));
         wr_inode ino s
       } else Some ((), s)
     }
   }"

definition i_deref_opt :: "nat option \<Rightarrow> kst \<Rightarrow> (unit \<times> kst) option" where
  "i_deref_opt i s = (case i of None \<Rightarrow> panic ''read through NULL'' s | Some ino \<Rightarrow> i_deref ino s)"

end
