(* ===== verification/FreeSpec.thy ===== *)
theory FreeSpec
  imports FsBase BufSpec
begin

text \<open>
  The free blocks of a file system as an abstract list, in the order blk\_alloc() will hand them out,
  and the proof that blk\_alloc() and blk\_free() are pop and push on it. The list is spread over the
  in-memory superblock and a chain of blocks of the free area itself, as seen through the buffer pool.
\<close>

subsection \<open>Frame of the mount table updates\<close>

lemma upd_fs_fields [simp]:
  "bufpool (upd_fs m f s) = bufpool s" "nbufs (upd_fs m f s) = nbufs s"
  "disk (upd_fs m f s) = disk s" "plat (upd_fs m f s) = plat s" "u_error (upd_fs m f s) = u_error s"
  "i_tab (upd_fs m f s) = i_tab s" "bufclock (upd_fs m f s) = bufclock s"
  "tod_low (upd_fs m f s) = tod_low s" "tod_high (upd_fs m f s) = tod_high s"
  "m_dev (fs_tab (upd_fs m f s) i) = m_dev (fs_tab s i)"
  "m_flags (fs_tab (upd_fs m f s) i) = m_flags (fs_tab s i)"
  "fs_at (upd_fs m f s) i = (if i = m then f (fs_at s m) else fs_at s i)"
  by (simp_all add: upd_fs_def)

lemma upd_fs_cache [simp]:
  "cache_ok (upd_fs m f s) = cache_ok s" "view (upd_fs m f s) = view s"
  "busy_set (upd_fs m f s) = busy_set s" "buf_holds (upd_fs m f s) b d k = buf_holds s b d k"
  "buf_free (upd_fs m f s) b = buf_free s b" "media_ok (upd_fs m f s) = media_ok s"
  "disk_ok (upd_fs m f s) d = disk_ok s d" "avail (upd_fs m f s) d k = avail s d k"
  "fs_tab_get d (upd_fs m f s) = fs_tab_get d s"
  using cache_cong [of "upd_fs m f s" s]
  by (simp_all add: busy_set_def buf_holds_def buf_free_def media_ok_def disk_ok_def avail_def
      fs_tab_get_def)

lemma upd_fs_upd_fs [simp]: "upd_fs m f (upd_fs m g s) = upd_fs m (\<lambda>x. f (g x)) s"
  by (simp add: upd_fs_def)

lemma err_fields [simp]:
  "busy_set (s\<lparr>u_error := e\<rparr>) = busy_set s" "buf_holds (s\<lparr>u_error := e\<rparr>) b d k = buf_holds s b d k"
  "disk_ok (s\<lparr>u_error := e\<rparr>) d' = disk_ok s d'" "avail (s\<lparr>u_error := e\<rparr>) d' k' = avail s d' k'"
  by (simp_all add: busy_set_def buf_holds_def disk_ok_def avail_def media_ok_def buf_free_def)

lemma io_core_fs_tab: "io_core t = io_core s \<Longrightarrow> fs_tab t = fs_tab s"
  by (rule io_core_fields)

lemma fs_tab_get_cong: "fs_tab t = fs_tab s \<Longrightarrow> fs_tab_get d t = fs_tab_get d s"
  by (simp add: fs_tab_get_def)

lemma disk_ok_trans:
  "disk_ok s d \<Longrightarrow> io_core t = io_core s \<Longrightarrow> cache_ok t \<Longrightarrow> disk_ok t d"
  using io_core_fields(4) [of t s] by (simp add: disk_ok_def media_ok_def)

subsection \<open>Reading and overwriting whole blocks\<close>

text \<open>What one step of the file system does to the pool: the invariant, the busy buffers and the
  errors stay; \<open>V\<close> is the new view.\<close>

definition io_step :: "kst \<Rightarrow> kst \<Rightarrow> (u16 \<Rightarrow> u16 \<Rightarrow> block) \<Rightarrow> bool" where
  "io_step s t V \<longleftrightarrow> cache_ok t \<and> busy_set t = busy_set s \<and> plat t = plat s \<and> nbufs t = nbufs s
     \<and> (\<forall>c\<in>busy_set s. bufpool t c = bufpool s c) \<and> (\<forall>e l. e \<noteq> NO_DEVICE \<longrightarrow> view t e l = V e l)"

lemma io_step_disk: "io_step s t V \<Longrightarrow> disk_ok s d \<Longrightarrow> disk_ok t d"
  by (simp add: io_step_def disk_ok_def media_ok_def)

text \<open>A free buffer remains as long as no more buffers are in use.\<close>

lemma avail_busy:
  "avail s d k \<longleftrightarrow> (\<exists>c<nbufs s. c \<notin> busy_set s) \<and> (\<forall>b\<in>busy_set s.
     \<not> (bf_dev (bufpool s b) = d \<and> bf_blk (bufpool s b) = k))"
  by (auto simp: avail_def buf_free_def busy_set_def buf_holds_def)

lemma io_step_avail: "io_step s t V \<Longrightarrow> avail t d k \<longleftrightarrow> avail s d k"
  by (auto simp: avail_busy io_step_def)

lemma read_then_release:
  assumes d: "disk_ok s d" and a: "avail s d k"
  obtains b t where "bread d k False s = Some (Some b, t)" "bf_data (bufpool t b) = view s d k"
    "io_core t = io_core s" "u_error t = u_error s"
    "\<forall>m f. \<exists>u. brelse b (upd_fs m f t) = Some ((), upd_fs m f u) \<and> brelse b t = Some ((), u)
       \<and> io_core u = io_core s \<and> u_error u = u_error s \<and> io_step s u (view s)"
proof -
  obtain b t where t: "bread d k False s = Some (Some b, t)" "buf_holds t b d k"
    "bf_data (bufpool t b) = view s d k" "cache_ok t" "io_core t = io_core s"
    "busy_set t = insert b (busy_set s)" "b \<notin> busy_set s" "u_error t = u_error s"
    "same_view s t" "\<forall>c\<in>busy_set s. bufpool t c = bufpool s c"
    by (rule bread_read [OF d a])
  have b: "b < nbufs t" using t(2) by (simp add: buf_holds_def)
  have "\<exists>u. brelse b (upd_fs m f t) = Some ((), upd_fs m f u) \<and> brelse b t = Some ((), u)
       \<and> io_core u = io_core s \<and> u_error u = u_error s \<and> io_step s u (view s)" for m f
  proof -
    define u where "u = (if bf_busy (bufpool t b) = BF_BUSY
      then upd_b b (\<lambda>x. x\<lparr>bf_busy := BF_FREE\<rparr>) t else t)"
    have run: "bfree b 0 t = Some (0, u)" "bfree b 0 (upd_fs m f t) = Some (0, upd_fs m f u)"
      by (simp_all add: bfree_def Let_def u_def upd_fs_def upd_b_def)
    note bf = bfree_clean [OF t(4) b run(1)]
    have "view u e l = view s e l" if "e \<noteq> NO_DEVICE" for e l
      using bf(3) [OF that] t(9) that by (simp add: same_view_def)
    moreover have "bufpool u c = bufpool s c" if "c \<in> busy_set s" for c
      using bf(7) [of c] t(7,10) that by metis
    ultimately have "io_step s u (view s)"
      using bf t io_core_fields(4,5) [of u s] by (auto simp: io_step_def)
    with run bf t show ?thesis by (auto simp: brelse_def)
  qed
  with t that show ?thesis by blast
qed

text \<open>Overwriting a block with \<open>D\<close> through the pool.\<close>

lemma over_then_write:
  assumes d: "disk_ok s d" and a: "avail s d k"
  obtains b w where "bread d k True s = Some (Some b, w)" "io_core w = io_core s" "u_error w = u_error s"
    "\<forall>D. \<exists>u. bawrite b (set_data b D w) = Some ((), u)
       \<and> io_core u = io_core s \<and> u_error u = u_error s
       \<and> io_step s u (\<lambda>e l. if e = d \<and> l = k then D else view s e l)"
proof -
  obtain b J t where t: "bread d k True s = Some (Some b, set_data b J t)" "buf_holds t b d k"
    "cache_ok t" "io_core t = io_core s" "busy_set t = insert b (busy_set s)" "b \<notin> busy_set s"
    "u_error t = u_error s" "same_view s t" "\<forall>c\<in>busy_set s. bufpool t c = bufpool s c"
    by (rule bread_over [OF d a])
  have dn: "d \<noteq> NO_DEVICE" using d by (simp add: disk_ok_def)
  have one: "(1 :: u8) = 1 \<or> (1 :: u8) = 2" by simp
  have "\<exists>u. bawrite b (set_data b D (set_data b J t)) = Some ((), u)
       \<and> io_core u = io_core s \<and> u_error u = u_error s
       \<and> io_step s u (\<lambda>e l. if e = d \<and> l = k then D else view s e l)" for D
  proof -
    obtain r u where run: "bfree b 1 (set_data b D t) = Some (r, u)"
      by (simp add: bfree_def Let_def)
    note bf = bfree_dirty [OF t(3,2) dn one run]
    have "view u e l = (if e = d \<and> l = k then D else view s e l)" if "e \<noteq> NO_DEVICE" for e l
      using bf(2) [OF that] t(8) that by (simp add: same_view_def)
    moreover have "bufpool u c = bufpool s c" if "c \<in> busy_set s" for c
      using bf(6) [of c] t(6,9) that by metis
    ultimately have "io_step s u (\<lambda>e l. if e = d \<and> l = k then D else view s e l)"
      using bf t io_core_fields(4,5) [of u s] by (auto simp: io_step_def)
    moreover have "set_data b D (set_data b J t) = set_data b D t" by (simp add: set_data_def)
    ultimately show ?thesis using run bf(4,5) t(4,7) by (auto simp: bawrite_def)
  qed
  with t that show ?thesis by (simp add: set_data_def)
qed

subsection \<open>The chain of free blocks\<close>

text \<open>The in-memory entries above the first, last one first.\<close>

definition on_top :: "u16 \<Rightarrow> u16 list \<Rightarrow> u16 list" where
  "on_top n tab = rev (take (unat n - 1) (drop 1 tab))"

definition link_count :: "block \<Rightarrow> u16" where
  "link_count D = rd16 (get_bytes D 0 102) 0"

definition link_table :: "block \<Rightarrow> u16 list" where
  "link_table D = map (\<lambda>j. rd16 (get_bytes D 0 102) (2 + 2 * j)) [0..<FILESYS_TABSIZE]"

text \<open>\<open>chain C n tab bs\<close>: the list \<open>n\<close>, \<open>tab\<close> and the blocks it links to hold the free blocks \<open>bs\<close>.\<close>

inductive chain :: "(u16 \<Rightarrow> block) \<Rightarrow> u16 \<Rightarrow> u16 list \<Rightarrow> u16 list \<Rightarrow> bool" for C where
  chain_end: "0 < n \<Longrightarrow> n \<le> 50 \<Longrightarrow> length tab = FILESYS_TABSIZE \<Longrightarrow> tab ! 0 = 0 \<Longrightarrow>
     chain C n tab (on_top n tab)"
| chain_link: "0 < n \<Longrightarrow> n \<le> 50 \<Longrightarrow> length tab = FILESYS_TABSIZE \<Longrightarrow> tab ! 0 = L \<Longrightarrow> L \<noteq> 0 \<Longrightarrow>
     chain C (link_count (C L)) (link_table (C L)) bs \<Longrightarrow> chain C n tab (on_top n tab @ L # bs)"

lemma chain_basic:
  assumes "chain C n tab bs"
  shows "0 < n" "n \<le> 50" "length tab = FILESYS_TABSIZE"
  using assms by (auto elim: chain.cases)

lemma chain_dest:
  assumes "chain C n tab bs"
  shows "tab ! 0 = 0 \<and> bs = on_top n tab \<or>
    (\<exists>cs. tab ! 0 \<noteq> 0 \<and> bs = on_top n tab @ tab ! 0 # cs
       \<and> chain C (link_count (C (tab ! 0))) (link_table (C (tab ! 0))) cs)"
  using assms by cases auto

lemma chain_cong:
  assumes "chain C n tab bs" and "\<And>L. L \<in> set bs \<Longrightarrow> C' L = C L"
  shows "chain C' n tab bs"
  using assms
proof (induction rule: chain.induct)
  case (chain_end n tab)
  then show ?case by (simp add: chain.chain_end)
next
  case (chain_link n tab L bs)
  have "C' L = C L" using chain_link.prems by simp
  then show ?case using chain_link by (intro chain.chain_link) simp_all
qed

lemma count_dec: "1 < n \<Longrightarrow> unat (n - 1 :: u16) = unat n - 1 \<and> 0 < n - 1 \<and> (n \<le> 50 \<longrightarrow> n - 1 \<le> 50)"
  by unat_arith

lemma count_inc:
  assumes "n < (50 :: u16)"
  shows "unat (n + 1) = Suc (unat n)" "0 < n + 1" "n + 1 \<le> 50" "0 < n \<Longrightarrow> 1 < n + 1"
proof -
  from assms have n: "unat n < 50" by (simp add: word_less_nat_alt)
  then show u: "unat (n + 1) = Suc (unat n)" by (simp add: unat_word_ariths)
  then show "0 < n + 1" "n + 1 \<le> 50" "0 < n \<Longrightarrow> 1 < n + 1"
    using n by (simp_all add: word_less_nat_alt word_le_nat_alt)
qed

lemma count_one: "\<not> 1 < n \<Longrightarrow> 0 < n \<Longrightarrow> n = (1 :: u16)"
  by unat_arith

lemma on_top_step:
  assumes "1 < n" "n \<le> 50" "length tab = FILESYS_TABSIZE"
  shows "on_top n tab = tab ! unat (n - 1) # on_top (n - 1) tab"
proof -
  have n: "1 < unat n" "unat n \<le> 50"
    using assms(1,2) by (simp_all add: word_less_nat_alt word_le_nat_alt)
  have dec: "unat (n - 1) = unat n - 1" using count_dec [OF assms(1)] by simp
  obtain k where k: "unat n = Suc (Suc k)" using n(1) by (metis One_nat_def less_imp_Suc_add plus_1_eq_Suc add_Suc)
  have "take (Suc k) (drop 1 tab) = take k (drop 1 tab) @ [tab ! Suc k]"
    using n(2) k assms(3) by (simp add: take_Suc_conv_app_nth)
  then show ?thesis unfolding on_top_def dec k by simp
qed

text \<open>The list one entry shorter, and one entry longer.\<close>

lemma chain_pop:
  assumes "chain C n tab (b # bs)" and "1 < n"
  shows "b = tab ! unat (n - 1)" and "chain C (n - 1) tab bs"
proof -
  note basic = chain_basic [OF assms(1)]
  note top = on_top_step [OF assms(2) basic(2,3)]
  have n: "0 < n - 1" "n - 1 \<le> 50" using count_dec [OF assms(2)] basic(2) by simp_all
  have "b = tab ! unat (n - 1) \<and> chain C (n - 1) tab bs"
    using chain_dest [OF assms(1)]
  proof (elim disjE exE conjE)
    assume z: "tab ! 0 = 0" and "b # bs = on_top n tab"
    with top have "bs = on_top (n - 1) tab" "b = tab ! unat (n - 1)" by simp_all
    with n z basic(3) show ?thesis by (simp add: chain.chain_end)
  next
    fix cs assume L: "tab ! 0 \<noteq> 0" "chain C (link_count (C (tab ! 0))) (link_table (C (tab ! 0))) cs"
      and "b # bs = on_top n tab @ tab ! 0 # cs"
    with top have "bs = on_top (n - 1) tab @ tab ! 0 # cs" "b = tab ! unat (n - 1)" by simp_all
    with n L basic(3) show ?thesis by (simp add: chain.chain_link)
  qed
  then show "b = tab ! unat (n - 1)" "chain C (n - 1) tab bs" by auto
qed

lemma on_top_1: "on_top 1 tab = []"
  by (simp add: on_top_def)

lemma chain_pop_last:
  assumes "chain C 1 tab (b # bs)"
  shows "b = tab ! 0" "b \<noteq> 0" "chain C (link_count (C b)) (link_table (C b)) bs"
  using chain_dest [OF assms] by (auto simp: on_top_1)

lemma chain_empty:
  assumes "chain C n tab []"
  shows "n = 1" "tab ! 0 = 0"
proof -
  have "on_top n tab = []" "tab ! 0 = 0" using chain_dest [OF assms] by auto
  moreover have "on_top n tab \<noteq> []" if "1 < n"
    using on_top_step [OF that chain_basic(2,3) [OF assms]] by simp
  ultimately show "n = 1" "tab ! 0 = 0"
    using count_one chain_basic(1) [OF assms] by auto
qed

lemma on_top_push:
  assumes "0 < n" "n < 50" "length tab = FILESYS_TABSIZE"
  shows "on_top (n + 1) (tab[unat n := b]) = b # on_top n tab"
proof -
  have n: "0 < unat n" "unat n < 50" using assms by (simp_all add: word_less_nat_alt unat_gt_0)
  note inc = count_inc [OF assms(2)]
  have "1 < n + 1" "n + 1 \<le> 50" using inc assms(1) by simp_all
  then have "on_top (n + 1) (tab[unat n := b]) = b # on_top n (tab[unat n := b])"
    using on_top_step [of "n + 1" "tab[unat n := b]"] assms(3) n by simp
  moreover have "on_top n (tab[unat n := b]) = on_top n tab"
    using n by (simp add: on_top_def drop_update_swap)
  ultimately show ?thesis by simp
qed

lemma chain_push:
  assumes ch: "chain C n tab bs" and n: "n < 50"
  shows "chain C (n + 1) (tab[unat n := b]) (b # bs)"
proof -
  note basic = chain_basic [OF ch]
  note top = on_top_push [OF basic(1) n basic(3), of b] and inc = count_inc [OF n]
  have "unat n \<noteq> 0" using basic(1) by (simp add: unat_gt_0)
  then have first: "tab[unat n := b] ! 0 = tab ! 0" by simp
  from chain_dest [OF ch] show ?thesis
  proof (elim disjE exE conjE)
    assume z: "tab ! 0 = 0" and bs: "bs = on_top n tab"
    have "chain C (n + 1) (tab[unat n := b]) (on_top (n + 1) (tab[unat n := b]))"
      using inc first z basic(3) by (intro chain.chain_end) simp_all
    with bs top show ?thesis by simp
  next
    fix cs assume L: "tab ! 0 \<noteq> 0" "chain C (link_count (C (tab ! 0))) (link_table (C (tab ! 0))) cs"
      and bs: "bs = on_top n tab @ tab ! 0 # cs"
    have "chain C (n + 1) (tab[unat n := b]) (on_top (n + 1) (tab[unat n := b]) @ tab ! 0 # cs)"
      using inc first L basic(3) by (intro chain.chain_link) simp_all
    with bs top show ?thesis by simp
  qed
qed

text \<open>A full list goes into the freed block, which becomes the first entry of a new one.\<close>

lemma free_list_decode:
  assumes "length (s_free f) = FILESYS_TABSIZE" and "get_bytes D 0 102 = free_list_bytes f"
  shows "link_count D = s_nfree f" "link_table D = s_free f"
proof -
  show "link_count D = s_nfree f"
    unfolding link_count_def assms(2) free_list_bytes_def by (rule rd16_le16)
  show "link_table D = s_free f"
    unfolding link_table_def assms(2) free_list_bytes_def
  proof (rule nth_equalityI)
    fix j assume "j < length (map (\<lambda>j. rd16 (le16 (s_nfree f) @ concat (map le16 (s_free f))) (2 + 2 * j))
      [0..<FILESYS_TABSIZE])"
    then have "j < length (s_free f)" using assms(1) by simp
    then show "map (\<lambda>j. rd16 (le16 (s_nfree f) @ concat (map le16 (s_free f))) (2 + 2 * j))
        [0..<FILESYS_TABSIZE] ! j = s_free f ! j"
      using rd16_concat [of j "s_free f" "[]"] assms(1) by (simp add: rd16_skip)
  qed (use assms in simp)
qed

lemma chain_spill:
  assumes ch: "chain C 50 tab bs" and b: "b \<noteq> 0" "b \<notin> set bs"
    and D: "link_count D = 50" "link_table D = tab" and len: "length tab' = FILESYS_TABSIZE"
  shows "chain (C(b := D)) 1 (tab'[0 := b]) (b # bs)"
proof -
  have "chain (C(b := D)) 50 tab bs" using b by (intro chain_cong [OF ch]) auto
  with D b len have "chain (C(b := D)) 1 (tab'[0 := b]) (on_top 1 (tab'[0 := b]) @ b # bs)"
    by (intro chain.chain_link) simp_all
  then show ?thesis by (simp add: on_top_1)
qed

subsection \<open>getdev()\<close>

definition stamp_fs :: "kst \<Rightarrow> nat \<Rightarrow> filesys \<Rightarrow> filesys" where
  "stamp_fs s m f = (if m_flags (fs_tab s m) AND MS_RDONLY = 0
     then f\<lparr>s_time := tod_low s, s_timeh := ucast (tod_high s), s_fmod := FMOD_DIRTY\<rparr> else f)"

text \<open>The fields that allocation leaves alone.\<close>

definition fs_static :: "filesys \<Rightarrow> filesys \<Rightarrow> bool" where
  "fs_static f g \<longleftrightarrow> s_isize g = s_isize f \<and> s_fsize g = s_fsize f \<and> s_mntpt g = s_mntpt f
     \<and> s_ninode g = s_ninode f \<and> s_inode g = s_inode f \<and> s_tinode g = s_tinode f"

lemma stamp_fs_fields [simp]:
  "s_nfree (stamp_fs s m f) = s_nfree f" "s_free (stamp_fs s m f) = s_free f"
  "s_tfree (stamp_fs s m f) = s_tfree f" "s_mounted (stamp_fs s m f) = s_mounted f"
  "s_isize (stamp_fs s m f) = s_isize f" "s_fsize (stamp_fs s m f) = s_fsize f"
  "s_ninode (stamp_fs s m f) = s_ninode f" "s_inode (stamp_fs s m f) = s_inode f"
  "s_tinode (stamp_fs s m f) = s_tinode f" "s_mntpt (stamp_fs s m f) = s_mntpt f"
  by (simp_all add: stamp_fs_def)

lemma upd_fs_id: "f (fs_at s m) = fs_at s m \<Longrightarrow> upd_fs m f s = s"
  by (cases "fs_tab s m") (auto simp: upd_fs_def fun_upd_idem)

lemma upd_fs_cong: "f (fs_at s m) = g (fs_at s m) \<Longrightarrow> upd_fs m f s = upd_fs m g s"
  by (simp add: upd_fs_def)

lemma getdev_mounted:
  assumes "fs_tab_get dev s = Some m" and "s_mounted (fs_at s m) \<noteq> 0"
  shows "getdev dev s = Some (m, upd_fs m (stamp_fs s m) s)"
proof (cases "m_flags (fs_tab s m) AND MS_RDONLY = 0")
  case True
  then have "upd_fs m (stamp_fs s m) s = upd_fs m (\<lambda>f. f\<lparr>s_time := fst (rdtime s),
      s_timeh := ucast (snd (rdtime s)), s_fmod := FMOD_DIRTY\<rparr>) s"
    by (simp add: stamp_fs_def rdtime_def upd_fs_def)
  with True assms show ?thesis by (simp add: getdev_def)
next
  case False
  then have "upd_fs m (stamp_fs s m) s = s" by (intro upd_fs_id) (simp add: stamp_fs_def)
  with False assms show ?thesis by (simp add: getdev_def)
qed

subsection \<open>The free blocks of a file system\<close>

definition free_ok :: "kst \<Rightarrow> u16 \<Rightarrow> nat \<Rightarrow> u16 list \<Rightarrow> bool" where
  "free_ok s dev m bs \<longleftrightarrow> fs_tab_get dev s = Some m \<and> s_mounted (fs_at s m) = SMOUNTED
     \<and> chain (view s dev) (s_nfree (fs_at s m)) (s_free (fs_at s m)) bs
     \<and> distinct bs \<and> (\<forall>b\<in>set bs. s_isize (fs_at s m) \<le> b \<and> b < s_fsize (fs_at s m))
     \<and> 0 < s_isize (fs_at s m) \<and> unat (s_tfree (fs_at s m)) = length bs"

text \<open>An operation that works on one superblock and the pool only.\<close>

definition fs_frame :: "nat \<Rightarrow> kst \<Rightarrow> kst \<Rightarrow> bool" where
  "fs_frame m s t \<longleftrightarrow> io_core (t\<lparr>fs_tab := fs_tab s\<rparr>) = io_core s
     \<and> (\<forall>i. m_dev (fs_tab t i) = m_dev (fs_tab s i) \<and> m_flags (fs_tab t i) = m_flags (fs_tab s i)
          \<and> (i \<noteq> m \<longrightarrow> fs_at t i = fs_at s i))
     \<and> fs_static (fs_at s m) (fs_at t m)"

lemma fs_tab_set [simp]:
  "io_core (upd_fs m f s\<lparr>fs_tab := T\<rparr>) = io_core (s\<lparr>fs_tab := T\<rparr>)"
  by (simp add: io_core_def upd_fs_def)

lemma fs_tab_core: "io_core t = io_core s \<Longrightarrow> io_core (t\<lparr>fs_tab := T\<rparr>) = io_core (s\<lparr>fs_tab := T\<rparr>)"
proof -
  have "io_core (t\<lparr>fs_tab := T\<rparr>) = (io_core t)\<lparr>fs_tab := T\<rparr>" for t by (simp add: io_core_def)
  then show "io_core t = io_core s \<Longrightarrow> io_core (t\<lparr>fs_tab := T\<rparr>) = io_core (s\<lparr>fs_tab := T\<rparr>)" by simp
qed

lemma fs_frame_io:
  assumes "io_core u = io_core (upd_fs m g s)" and "fs_static (fs_at s m) (f (fs_at u m))"
  shows "fs_frame m s (upd_fs m f u)"
proof -
  have "io_core (u\<lparr>fs_tab := fs_tab s\<rparr>) = io_core (s\<lparr>fs_tab := fs_tab s\<rparr>)"
    using fs_tab_core [OF assms(1)] by simp
  moreover have "fs_tab u = fs_tab (upd_fs m g s)" by (rule io_core_fs_tab [OF assms(1)])
  ultimately show ?thesis using assms(2) by (simp add: fs_frame_def)
qed

lemma fs_frame_fields:
  assumes "fs_frame m s t"
  shows "i_tab t = i_tab s" "of_tab t = of_tab s" "plat t = plat s" "nbufs t = nbufs s"
    "u_euid t = u_euid s" "u_offset t = u_offset s" "fs_tab_get d t = fs_tab_get d s"
  using io_core_fields [of "t\<lparr>fs_tab := fs_tab s\<rparr>" s] assms
  by (auto simp: fs_frame_def fs_tab_get_def)

lemma validblk_ok:
  assumes "fs_tab_get dev s = Some m" "s_mounted (fs_at s m) = SMOUNTED"
    "s_isize (fs_at s m) \<le> b" "b < s_fsize (fs_at s m)"
  shows "validblk dev b s = Some ((), s)"
  using assms by (auto simp: validblk_def)

subsection \<open>blk\_alloc() pops\<close>

lemma zero_blk_ok:
  assumes "disk_ok s dev" "avail s dev b"
  shows "\<exists>t. zero_blk dev b s = Some (True, t) \<and> io_core t = io_core s \<and> u_error t = u_error s
    \<and> io_step s t (\<lambda>e l. if e = dev \<and> l = b then zero_block else view s e l)"
proof -
  obtain bp w where w: "bread dev b True s = Some (Some bp, w)"
    "\<forall>D. \<exists>u. bawrite bp (set_data bp D w) = Some ((), u)
       \<and> io_core u = io_core s \<and> u_error u = u_error s
       \<and> io_step s u (\<lambda>e l. if e = dev \<and> l = b then D else view s e l)"
    by (rule over_then_write [OF assms])
  obtain u where "bawrite bp (set_data bp zero_block w) = Some ((), u)"
    "io_core u = io_core s" "u_error u = u_error s"
    "io_step s u (\<lambda>e l. if e = dev \<and> l = b then zero_block else view s e l)"
    using w(2) by blast
  with w(1) show ?thesis by (simp add: zero_blk_def set_data_def)
qed

text \<open>Taking one entry off the list, with the refill when it was the last one.\<close>

lemma refill_ok:
  assumes d: "disk_ok s dev" and a: "avail s dev b" and b: "s_free (fs_at s m) ! unat (n - 1) = b"
    and ch: "chain (view s dev) n (s_free (fs_at s m)) (b # bs)"
  shows "\<exists>t g. refill dev m b (upd_fs m (\<lambda>f. f\<lparr>s_nfree := n - 1\<rparr>) s) = Some (True, upd_fs m g t)
    \<and> io_core t = io_core s \<and> u_error t = u_error s \<and> io_step s t (view s)
    \<and> (\<forall>f. fs_static f (g f) \<and> s_mounted (g f) = s_mounted f \<and> s_tfree (g f) = s_tfree f)
    \<and> chain (view s dev) (s_nfree (g (fs_at s m))) (s_free (g (fs_at s m))) bs"
proof (cases "1 < n")
  case True
  then have "n - 1 \<noteq> 0" using count_dec [of n] by auto
  moreover have "chain (view s dev) (n - 1) (s_free (fs_at s m)) bs" by (rule chain_pop [OF ch True])
  moreover have "io_step s s (view s)" using d by (simp add: io_step_def disk_ok_def)
  ultimately show ?thesis
    by (intro exI [of _ s] exI [of _ "\<lambda>f. f\<lparr>s_nfree := n - 1\<rparr>"])
      (simp add: refill_def fs_static_def)
next
  case False
  then have n: "n = 1" using count_one chain_basic(1) [OF ch] by blast
  let ?s = "upd_fs m (\<lambda>f. f\<lparr>s_nfree := 0\<rparr>) s"
  have d': "disk_ok ?s dev" "avail ?s dev b" using d a by simp_all
  obtain bp t where t: "bread dev b False ?s = Some (Some bp, t)" "bf_data (bufpool t bp) = view ?s dev b"
    "io_core t = io_core ?s" "u_error t = u_error ?s"
    and rel: "\<forall>m f. \<exists>u. brelse bp (upd_fs m f t) = Some ((), upd_fs m f u) \<and> brelse bp t = Some ((), u)
       \<and> io_core u = io_core ?s \<and> u_error u = u_error ?s \<and> io_step ?s u (view ?s)"
    by (rule read_then_release [OF d'])
  let ?D = "view s dev b"
  let ?g = "load_free_list (get_bytes ?D 0 102)"
  obtain u where u: "brelse bp (upd_fs m ?g t) = Some ((), upd_fs m ?g u)" "io_core u = io_core ?s"
    "u_error u = u_error ?s" "io_step ?s u (view ?s)"
    using rel by blast
  have run: "refill dev m b ?s = Some (True, upd_fs m ?g u)"
    using t u(1) by (simp add: refill_def)
  define v where "v = u\<lparr>fs_tab := fs_tab s\<rparr>"
  have vu: "upd_fs m ?g u = upd_fs m (\<lambda>f. ?g (f\<lparr>s_nfree := 0\<rparr>)) v"
  proof -
    have "fs_tab u = fs_tab ?s" by (rule io_core_fs_tab [OF u(2)])
    then show ?thesis by (simp add: v_def upd_fs_def)
  qed
  have core: "io_core v = io_core s"
    using fs_tab_core [OF u(2), of "fs_tab s"] by (simp add: v_def)
  have same: "cache_ok v = cache_ok u" "view v = view u" "busy_set v = busy_set u"
    using cache_cong [of v u] by (simp_all add: v_def busy_set_def)
  have "io_step s v (view s)" using u(4) same by (simp add: io_step_def v_def)
  moreover have "chain (view s dev) (s_nfree (?g f)) (s_free (?g f)) bs" for f
    using chain_pop_last [of "view s dev" "s_free (fs_at s m)" b bs] ch n
    by (simp add: load_free_list_def link_count_def link_table_def)
  moreover have "u_error v = u_error s" using u(3) by (simp add: v_def)
  ultimately show ?thesis
    using run core n vu
    by (intro exI [of _ v] exI [of _ "\<lambda>f. ?g (f\<lparr>s_nfree := 0\<rparr>)"])
      (simp add: fs_static_def load_free_list_def)
qed

lemma io_step_trans:
  assumes "io_step s u V" "io_step u t W" "\<And>e l. e \<noteq> NO_DEVICE \<Longrightarrow> W e l = X e l"
  shows "io_step s t X"
  using assms by (simp add: io_step_def)

lemma io_step_refl: "cache_ok s \<Longrightarrow> io_step s s (view s)"
  by (simp add: io_step_def)

lemma io_step_upd_fs [simp]:
  "io_step (upd_fs m f s) t V = io_step s t V" "io_step s (upd_fs m f t) V = io_step s t V"
  by (simp_all add: io_step_def)

lemma fs_at_core: "io_core t = io_core s \<Longrightarrow> fs_at t m = fs_at s m"
  using io_core_fs_tab [of t s] by simp

lemma blk_alloc_pop:
  assumes d: "disk_ok s dev" and fr: "free_ok s dev m (b # bs)" and a: "avail s dev b"
  shows "\<exists>t. blk_alloc dev s = Some (b, t) \<and> free_ok t dev m bs \<and> fs_frame m s t
    \<and> u_error t = u_error s
    \<and> io_step s t (\<lambda>e l. if e = dev \<and> l = b then zero_block else view s e l)"
proof -
  let ?F = "fs_at s m"
  let ?s = "upd_fs m (stamp_fs s m) s" and ?n = "s_nfree ?F"
  have fr': "fs_tab_get dev s = Some m" "s_mounted ?F = SMOUNTED"
    "chain (view s dev) ?n (s_free ?F) (b # bs)" "distinct (b # bs)"
    "\<forall>b\<in>set (b # bs). s_isize ?F \<le> b \<and> b < s_fsize ?F" "0 < s_isize ?F"
    "unat (s_tfree ?F) = length (b # bs)"
    using fr unfolding free_ok_def by blast+
  have dn: "dev \<noteq> NO_DEVICE" using d by (simp add: disk_ok_def)
  have b0: "b \<noteq> 0" using fr'(5,6) by auto
  have n: "?n \<noteq> 0" "\<not> ?n > 50" using chain_basic [OF fr'(3)] by auto
  have bt: "s_free ?F ! unat (?n - 1) = b"
  proof (cases "1 < ?n")
    case True
    then show ?thesis using chain_pop(1) [OF fr'(3)] by simp
  next
    case False
    then have "?n = 1" using n count_one by (simp add: word_gt_0)
    then show ?thesis using chain_pop_last(1) [of "view s dev" "s_free ?F" b bs] fr'(3) by simp
  qed
  have gd: "getdev dev s = Some (m, ?s)" by (rule getdev_mounted) (simp_all add: fr')
  obtain t g where tg: "refill dev m b (upd_fs m (\<lambda>f. f\<lparr>s_nfree := ?n - 1\<rparr>) ?s) = Some (True, upd_fs m g t)"
    "io_core t = io_core ?s" "u_error t = u_error ?s" "io_step ?s t (view ?s)"
    "\<forall>f. fs_static f (g f) \<and> s_mounted (g f) = s_mounted f \<and> s_tfree (g f) = s_tfree f"
    "chain (view ?s dev) (s_nfree (g (fs_at ?s m))) (s_free (g (fs_at ?s m))) bs"
    using refill_ok [of ?s dev b m ?n bs] d a bt fr'(3) by auto
  have ft: "fs_at t m = stamp_fs s m ?F" "fs_tab_get dev t = Some m"
    using fs_at_core [OF tg(2)] fs_tab_get_cong [OF io_core_fs_tab [OF tg(2)]] fr'(1) by simp_all
  define G where "G = g (stamp_fs s m ?F)"
  have G: "s_isize G = s_isize ?F" "s_fsize G = s_fsize ?F" "s_mounted G = SMOUNTED"
    "s_tfree G = s_tfree ?F" "fs_static ?F G"
    using tg(5) [rule_format, of "stamp_fs s m ?F"] fr'(2) by (simp_all add: fs_static_def G_def)
  have vb: "validblk dev b (upd_fs m g t) = Some ((), upd_fs m g t)"
    using fr'(5) G ft by (intro validblk_ok) (auto simp: G_def)
  have tf: "s_tfree ?F \<noteq> 0" using fr'(7) by auto
  define h where "h f = (g f)\<lparr>s_tfree := s_tfree (g f) - 1\<rparr>" for f
  have dt: "disk_ok t dev" using io_step_disk [OF tg(4)] d by simp
  have at: "avail t dev b" using io_step_avail [OF tg(4)] a by simp
  obtain w where w: "zero_blk dev b (upd_fs m h t) = Some (True, w)" "io_core w = io_core (upd_fs m h t)"
    "u_error w = u_error t"
    "io_step t w (\<lambda>e l. if e = dev \<and> l = b then zero_block else view t e l)"
    using zero_blk_ok [of "upd_fs m h t" dev b] dt at by (auto cong: if_cong)
  have ws: "fs_at w m = h (stamp_fs s m ?F)" "fs_tab_get dev w = Some m"
    using fs_at_core [OF w(2)] fs_tab_get_cong [OF io_core_fs_tab [OF w(2)]] ft by simp_all
  have step: "io_step s w (\<lambda>e l. if e = dev \<and> l = b then zero_block else view s e l)"
    by (rule io_step_trans [OF _ w(4), of s "view s"])
       (use tg(4) in \<open>auto simp: io_step_def\<close>)
  have eq: "upd_fs m (\<lambda>x. (stamp_fs s m x)\<lparr>s_nfree := s_nfree x - 1\<rparr>) s
      = upd_fs m (\<lambda>x. (stamp_fs s m x)\<lparr>s_nfree := ?n - 1\<rparr>) s"
    by (rule upd_fs_cong) simp
  have "blk_alloc dev s = Some (b, w)"
    using gd tg(1) vb w(1) fr'(2) n bt b0 tf ft(1) G(4)
    by (simp add: blk_alloc_def baddev_def h_def [abs_def] G_def eq)
  moreover have "free_ok w dev m bs"
  proof -
    have "view w dev l = view s dev l" if "l \<noteq> b" for l
      using step that dn by (simp add: io_step_def)
    moreover have "b \<notin> set bs" using fr'(4) by simp
    moreover have "chain (view s dev) (s_nfree G) (s_free G) bs" using tg(6) by (simp add: G_def)
    ultimately have "chain (view w dev) (s_nfree G) (s_free G) bs"
      by (elim chain_cong) metis
    moreover have "unat (s_tfree ?F - 1) = length bs"
      using fr'(7) unat_dec [OF tf] by simp
    ultimately show ?thesis
      using fr' ws G by (simp add: free_ok_def h_def G_def)
  qed
  moreover have "fs_frame m s w"
  proof -
    have "io_core (t\<lparr>fs_tab := fs_tab s\<rparr>) = io_core s"
      using fs_tab_core [OF tg(2), of "fs_tab s"] by simp
    then have "io_core (w\<lparr>fs_tab := fs_tab s\<rparr>) = io_core s"
      using fs_tab_core [OF w(2), of "fs_tab s"] by simp
    moreover have "fs_tab w = fs_tab (upd_fs m h t)" by (rule io_core_fs_tab [OF w(2)])
    moreover have "fs_tab t = fs_tab ?s" by (rule io_core_fs_tab [OF tg(2)])
    ultimately show ?thesis
      using G(5) by (simp add: fs_frame_def fs_static_def h_def G_def)
  qed
  ultimately show ?thesis using step w(3) tg(3) by auto
qed

lemma blk_alloc_none:
  assumes fr: "free_ok s dev m []"
  shows "\<exists>f. blk_alloc dev s = Some (0, upd_fs m f (s\<lparr>u_error := ENOSPC\<rparr>))
    \<and> f (fs_at s m) = stamp_fs s m (fs_at s m)"
proof -
  let ?F = "fs_at s m"
  have fr': "fs_tab_get dev s = Some m" "s_mounted ?F = SMOUNTED"
    "chain (view s dev) (s_nfree ?F) (s_free ?F) []" "unat (s_tfree ?F) = 0"
    using fr by (simp_all add: free_ok_def)
  have n: "s_nfree ?F = 1" "s_free ?F ! 0 = 0" using chain_empty [OF fr'(3)] by auto
  have gd: "getdev dev s = Some (m, upd_fs m (stamp_fs s m) s)"
    by (rule getdev_mounted) (simp_all add: fr')
  have tf: "s_tfree ?F = 0" using fr'(4) by (simp add: unat_eq_zero)
  have sw: "upd_fs m f s\<lparr>u_error := e\<rparr> = upd_fs m f (s\<lparr>u_error := e\<rparr>)" for f e
    by (simp add: upd_fs_def)
  show ?thesis
    by (rule exI [of _ "\<lambda>f. (stamp_fs s m f)\<lparr>s_nfree := s_nfree f\<rparr>"])
       (simp add: blk_alloc_def gd baddev_def fr'(2) n tf sw)
qed

subsection \<open>blk\_free() pushes\<close>

definition other_blocks :: "kst \<Rightarrow> kst \<Rightarrow> u16 \<Rightarrow> u16 \<Rightarrow> bool" where
  "other_blocks s t d k \<longleftrightarrow> (\<forall>e l. e \<noteq> NO_DEVICE \<and> \<not> (e = d \<and> l = k) \<longrightarrow> view t e l = view s e l)"

lemma spill_ok:
  assumes d: "disk_ok s dev" and a: "avail s dev b" and b: "b \<noteq> 0" "b \<notin> set bs"
    and ch: "chain (view s dev) (s_nfree (fs_at s m)) (s_free (fs_at s m)) bs"
  shows "\<exists>t g. spill dev m b s = Some ((), upd_fs m g t)
    \<and> io_core t = io_core s \<and> u_error t = u_error s \<and> io_step s t (view t) \<and> other_blocks s t dev b
    \<and> (\<forall>f. fs_static f (g f) \<and> s_mounted (g f) = s_mounted f \<and> s_tfree (g f) = s_tfree f)
    \<and> s_nfree (g (fs_at s m)) < 50
    \<and> chain (view t dev) (s_nfree (g (fs_at s m)) + 1)
         ((s_free (g (fs_at s m)))[unat (s_nfree (g (fs_at s m))) := b]) (b # bs)"
proof -
  let ?n = "s_nfree (fs_at s m)" and ?tab = "s_free (fs_at s m)"
  note basic = chain_basic [OF ch]
  have dn: "dev \<noteq> NO_DEVICE" using d by (simp add: disk_ok_def)
  show ?thesis
  proof (cases "?n = 50")
    case False
    then have n: "?n < 50" using basic(2) by simp
    have "spill dev m b s = Some ((), s)" using False by (simp add: spill_def)
    moreover have "upd_fs m (\<lambda>f. f) s = s" by (rule upd_fs_id) simp
    moreover have "io_step s s (view s)" using d by (simp add: io_step_def disk_ok_def)
    ultimately show ?thesis
      using n chain_push [OF ch n, of b]
      by (intro exI [of _ s] exI [of _ "\<lambda>f. f"]) (simp add: fs_static_def other_blocks_def)
  next
    case True
    obtain bp w where w: "bread dev b True s = Some (Some bp, w)" "io_core w = io_core s"
      and wr: "\<forall>D. \<exists>u. bawrite bp (set_data bp D w) = Some ((), u)
       \<and> io_core u = io_core s \<and> u_error u = u_error s
       \<and> io_step s u (\<lambda>e l. if e = dev \<and> l = b then D else view s e l)"
      by (rule over_then_write [OF d a])
    let ?bs = "free_list_bytes (fs_at s m)"
    define D where "D = put_bytes (bf_data (bufpool w bp)) 0 ?bs"
    obtain u where u: "bawrite bp (set_data bp D w) = Some ((), u)" "io_core u = io_core s"
      "u_error u = u_error s" "io_step s u (\<lambda>e l. if e = dev \<and> l = b then D else view s e l)"
      using wr by blast
    have fw: "fs_at w m = fs_at s m" by (rule fs_at_core [OF w(2)])
    have "blkfromk ?bs bp 0 w = set_data bp D w"
      by (simp add: blkfromk_def set_data_def D_def upd_b_def)
    then have run: "spill dev m b s = Some ((), upd_fs m (\<lambda>f. f\<lparr>s_nfree := 0\<rparr>) u)"
      using True w(1) u(1) fw by (simp add: spill_def)
    have "length ?bs = 102" using basic(3) by (simp add: free_list_bytes_def)
    then have "get_bytes D 0 102 = ?bs" by (simp add: D_def get_put_bytes_same)
    note dec = free_list_decode [OF basic(3) this]
    have other: "other_blocks s u dev b" using u(4) by (auto simp: io_step_def other_blocks_def)
    have at_b: "view u dev b = D" using u(4) dn by (simp add: io_step_def)
    have "view u dev l = ((view s dev)(b := D)) l" for l
      using u(4) dn by (simp add: io_step_def)
    moreover have "chain ((view s dev)(b := D)) 1 (?tab[0 := b]) (b # bs)"
      using ch dec True b basic(3) by (intro chain_spill) simp_all
    ultimately have "chain (view u dev) 1 (?tab[0 := b]) (b # bs)"
      by (elim chain_cong)
    moreover have "io_step s u (view u)" using u(4) by (simp add: io_step_def)
    ultimately show ?thesis
      using run u(2,3) other
      by (intro exI [of _ u] exI [of _ "\<lambda>f. f\<lparr>s_nfree := 0\<rparr>"]) (simp add: fs_static_def)
  qed
qed

lemma blk_free_push:
  assumes d: "disk_ok s dev" and fr: "free_ok s dev m bs" and a: "avail s dev b"
    and b: "b \<notin> set bs" "s_isize (fs_at s m) \<le> b" "b < s_fsize (fs_at s m)" and len: "length bs < 65535"
  shows "\<exists>t. blk_free dev b s = Some ((), t) \<and> free_ok t dev m (b # bs) \<and> fs_frame m s t
    \<and> u_error t = u_error s \<and> io_step s t (view t) \<and> other_blocks s t dev b"
proof -
  let ?F = "fs_at s m"
  let ?s = "upd_fs m (stamp_fs s m) s"
  have fr': "fs_tab_get dev s = Some m" "s_mounted ?F = SMOUNTED"
    "chain (view s dev) (s_nfree ?F) (s_free ?F) bs" "distinct bs"
    "\<forall>b\<in>set bs. s_isize ?F \<le> b \<and> b < s_fsize ?F" "0 < s_isize ?F"
    "unat (s_tfree ?F) = length bs"
    using fr unfolding free_ok_def by blast+
  have b0: "b \<noteq> 0" using b(2) fr'(6) by auto
  have gd: "getdev dev s = Some (m, ?s)" by (rule getdev_mounted) (simp_all add: fr')
  have vb: "validblk dev b ?s = Some ((), ?s)"
    using fr' b by (intro validblk_ok) auto
  obtain t g where t: "spill dev m b ?s = Some ((), upd_fs m g t)"
    "io_core t = io_core ?s" "u_error t = u_error s" "io_step s t (view t)" "other_blocks s t dev b"
    "\<forall>f. fs_static f (g f) \<and> s_mounted (g f) = s_mounted f \<and> s_tfree (g f) = s_tfree f"
    "s_nfree (g (stamp_fs s m ?F)) < 50"
    "chain (view t dev) (s_nfree (g (stamp_fs s m ?F)) + 1)
         ((s_free (g (stamp_fs s m ?F)))[unat (s_nfree (g (stamp_fs s m ?F))) := b]) (b # bs)"
    using spill_ok [of ?s dev b bs m] d a b0 b(1) fr'(3) by (auto simp: other_blocks_def)
  have ft: "fs_at t m = stamp_fs s m ?F" "fs_tab_get dev t = Some m"
    using fs_at_core [OF t(2)] fs_tab_get_cong [OF io_core_fs_tab [OF t(2)]] fr'(1) by simp_all
  define G where "G = g (stamp_fs s m ?F)"
  have G: "s_isize G = s_isize ?F" "s_fsize G = s_fsize ?F" "s_mounted G = SMOUNTED"
    "s_tfree G = s_tfree ?F" "fs_static ?F G" "unat (s_nfree G) < 50"
    using t(6) [rule_format, of "stamp_fs s m ?F"] fr'(2) t(7)
    by (simp_all add: fs_static_def G_def word_less_nat_alt)
  define w where "w = upd_fs m (\<lambda>f. (g f)\<lparr>s_tfree := s_tfree (g f) + 1,
     s_free := (s_free (g f))[unat (s_nfree G) := b], s_nfree := s_nfree (g f) + 1\<rparr>) t"
  have "blk_free dev b s = Some ((), w)"
    using gd vb t(1) fr'(2) b0 G(6) ft(1)
    by (simp add: blk_free_def baddev_def w_def G_def)
  moreover have "free_ok w dev m (b # bs)"
  proof -
    have "unat (s_tfree ?F + 1) = Suc (length bs)"
      using fr'(7) len by (simp add: unat_word_ariths)
    then show ?thesis
      using fr' b t(8) ft G by (simp add: free_ok_def w_def G_def)
  qed
  moreover have "fs_frame m s w"
  proof -
    have "io_core (t\<lparr>fs_tab := fs_tab s\<rparr>) = io_core s"
      using fs_tab_core [OF t(2), of "fs_tab s"] by simp
    moreover have "fs_tab t = fs_tab ?s" by (rule io_core_fs_tab [OF t(2)])
    ultimately show ?thesis
      using G(5) by (simp add: fs_frame_def fs_static_def w_def G_def)
  qed
  moreover have "io_step s w (view w)" "other_blocks s w dev b" "u_error w = u_error s"
    using t(3-5) by (simp_all add: w_def io_step_def other_blocks_def)
  ultimately show ?thesis by blast
qed

end
