(* ===== verification/FreePool.thy ===== *)
theory FreePool
  imports FreeSpec Sample
begin

text \<open>
  The allocator of blocks as a pool of resources. The locale \<open>free_pool\<close> is the contract the file system
  relies on, the interpretation discharges it for blk\_alloc() and blk\_free(), and the properties
  follow, with the file system image they are evaluated on.
\<close>

subsection \<open>The interface\<close>

locale free_pool =
  fixes holds :: "'s \<Rightarrow> 'b list \<Rightarrow> bool" and item :: "'b \<Rightarrow> bool"
    and alloc :: "'s \<Rightarrow> ('b \<times> 's) option" and release :: "'b \<Rightarrow> 's \<Rightarrow> (unit \<times> 's) option"
  assumes pop: "holds s (b # bs) \<Longrightarrow> \<exists>t. alloc s = Some (b, t) \<and> holds t bs"
    and push: "holds s bs \<Longrightarrow> item b \<Longrightarrow> b \<notin> set bs \<Longrightarrow> \<exists>t. release b s = Some ((), t) \<and> holds t (b # bs)"
    and items: "holds s bs \<Longrightarrow> distinct bs \<and> (\<forall>b\<in>set bs. item b)"
begin

fun alloc_many :: "nat \<Rightarrow> 's \<Rightarrow> ('b list \<times> 's) option" where
  "alloc_many 0 s = Some ([], s)"
| "alloc_many (Suc n) s = do {
     (b, s) \<leftarrow> alloc s;
     (bs, s) \<leftarrow> alloc_many n s;
     Some (b # bs, s)
   }"

fun release_all :: "'b list \<Rightarrow> 's \<Rightarrow> (unit \<times> 's) option" where
  "release_all [] s = Some ((), s)"
| "release_all (b # bs) s = do { (_, s) \<leftarrow> release b s; release_all bs s }"

lemma alloc_many_take:
  "holds s bs \<Longrightarrow> n \<le> length bs \<Longrightarrow>
     \<exists>t. alloc_many n s = Some (take n bs, t) \<and> holds t (drop n bs)"
proof (induction n arbitrary: s bs)
  case 0
  then show ?case by simp
next
  case (Suc n)
  then obtain b cs where bs: "bs = b # cs" by (cases bs) auto
  with Suc.prems pop obtain t where "alloc s = Some (b, t)" "holds t cs" by blast
  with Suc.IH [of t cs] Suc.prems bs show ?case by auto
qed

lemma release_all_rev:
  "holds s bs \<Longrightarrow> distinct (cs @ bs) \<Longrightarrow> \<forall>c\<in>set cs. item c \<Longrightarrow>
     \<exists>t. release_all cs s = Some ((), t) \<and> holds t (rev cs @ bs)"
proof (induction cs arbitrary: s bs)
  case Nil
  then show ?case by simp
next
  case (Cons c cs)
  then obtain t where t: "release c s = Some ((), t)" "holds t (c # bs)" using push [of s bs c] by auto
  have "\<exists>u. release_all cs t = Some ((), u) \<and> holds u (rev cs @ c # bs)"
    using Cons.IH [OF t(2)] Cons.prems by auto
  with t show ?case by auto
qed

text \<open>Taking items and giving them back newest first restores the pool.\<close>

lemma take_and_return:
  assumes "holds s bs" and "n \<le> length bs"
  shows "\<exists>cs t u. alloc_many n s = Some (cs, t) \<and> distinct cs \<and> length cs = n
    \<and> release_all (rev cs) t = Some ((), u) \<and> holds u bs"
proof -
  obtain t where t: "alloc_many n s = Some (take n bs, t)" "holds t (drop n bs)"
    using alloc_many_take [OF assms] by blast
  have "distinct (take n bs @ drop n bs)" "\<forall>b\<in>set (take n bs). item b"
    using items [OF assms(1)] set_take_subset [of n bs] by auto
  then have "distinct (rev (take n bs) @ drop n bs)" "\<forall>b\<in>set (rev (take n bs)). item b"
    by (simp_all del: append_take_drop_id)
  then obtain u where "release_all (rev (take n bs)) t = Some ((), u)"
    "holds u (rev (rev (take n bs)) @ drop n bs)"
    using release_all_rev [OF t(2)] by blast
  with t items [OF assms(1)] assms(2) show ?thesis by auto
qed

end

subsection \<open>blk\_alloc() and blk\_free() are such a pool\<close>

text \<open>A mounted file system at rest: no buffer in use, its data area between \<open>lo\<close> and \<open>hi\<close>.\<close>

definition resting :: "u16 \<Rightarrow> nat \<Rightarrow> u16 \<Rightarrow> u16 \<Rightarrow> kst \<Rightarrow> u16 list \<Rightarrow> bool" where
  "resting dev m lo hi s bs \<longleftrightarrow> disk_ok s dev \<and> busy_set s = {} \<and> 0 < nbufs s \<and> free_ok s dev m bs
     \<and> s_isize (fs_at s m) = lo \<and> s_fsize (fs_at s m) = hi"

lemma resting_avail: "resting dev m lo hi s bs \<Longrightarrow> avail s dev b"
  by (auto simp: resting_def avail_busy)

lemma resting_step:
  assumes "resting dev m lo hi s bs" "io_step s t V" "fs_frame m s t" "free_ok t dev m cs"
  shows "resting dev m lo hi t cs"
  using assms io_step_disk [OF assms(2)] by (auto simp: resting_def io_step_def fs_frame_def fs_static_def)

lemma area_length:
  assumes "distinct bs" "b \<notin> set bs" "\<forall>c\<in>set (b # bs). 0 < (c :: u16)"
  shows "length bs < 65535"
proof -
  have "inj_on unat (set (b # bs))" by (auto simp: inj_on_def word_unat_eq_iff)
  then have "card (set (b # bs)) = card (unat ` set (b # bs))" by (rule card_image [symmetric])
  also have "\<dots> \<le> card {0<..<65536 :: nat}"
  proof (rule card_mono)
    show "unat ` set (b # bs) \<subseteq> {0<..<65536}" using assms(3) u16_bound by (auto simp: unat_gt_0 word_gt_0)
  qed simp
  finally show ?thesis using assms(1,2) distinct_card [of "b # bs"] by simp
qed

interpretation blocks: free_pool "resting dev m lo hi" "\<lambda>b. lo \<le> b \<and> b < hi" "blk_alloc dev" "blk_free dev"
  for dev :: u16 and m :: nat and lo hi :: u16
proof unfold_locales
  fix s b bs assume r: "resting dev m lo hi s (b # bs)"
  then obtain t where "blk_alloc dev s = Some (b, t)" "free_ok t dev m bs" "fs_frame m s t"
    "io_step s t (\<lambda>e l. if e = dev \<and> l = b then zero_block else view s e l)"
    using blk_alloc_pop [of s dev m b bs] resting_avail [OF r] by (auto simp: resting_def)
  then show "\<exists>t. blk_alloc dev s = Some (b, t) \<and> resting dev m lo hi t bs"
    using resting_step [OF r] by blast
next
  fix s bs b assume r: "resting dev m lo hi s bs" and b: "lo \<le> b \<and> b < hi" "b \<notin> set bs"
  have area: "0 < lo" "\<forall>c\<in>set bs. lo \<le> c" "distinct bs" using r by (auto simp: resting_def free_ok_def)
  then have pos: "\<forall>c\<in>set (b # bs). 0 < c" using b by fastforce
  have "length bs < 65535" using area_length [OF area(3) b(2) pos] .
  then obtain t where "blk_free dev b s = Some ((), t)" "free_ok t dev m (b # bs)" "fs_frame m s t"
    "io_step s t (view t)"
    using blk_free_push [of s dev m bs b] resting_avail [OF r] r b by (auto simp: resting_def)
  then show "\<exists>t. blk_free dev b s = Some ((), t) \<and> resting dev m lo hi t (b # bs)"
    using resting_step [OF r] by blast
next
  fix s bs assume "resting dev m lo hi s bs"
  then show "distinct bs \<and> (\<forall>b\<in>set bs. lo \<le> b \<and> b < hi)" by (auto simp: resting_def free_ok_def)
qed

subsection \<open>A file system image\<close>

text \<open>Device 0, mounted in slot 0: inode blocks 2 and 3, data blocks 4 to 99, blocks 50 and 51 free.\<close>

definition sample_fs :: kst where
  "sample_fs = sample\<lparr>fs_tab := (\<lambda>i. if i = 0
     then \<lparr>m_dev = 0, m_flags = 0, m_fs = sample_filesys\<lparr>s_mounted := SMOUNTED, s_isize := 4,
       s_fsize := 100, s_nfree := 3, s_free := (replicate 50 0)[1 := 50, 2 := 51], s_tfree := 2\<rparr>\<rparr>
     else sample_mount)\<rparr>"

lemma sample_fs_fields [simp]:
  "bufpool sample_fs = bufpool sample" "nbufs sample_fs = 2" "plat sample_fs = sample_plat"
  "disk sample_fs = disk sample" "m_dev (fs_tab sample_fs 0) = 0" "m_flags (fs_tab sample_fs 0) = 0"
  "fs_at sample_fs 0 = sample_filesys\<lparr>s_mounted := SMOUNTED, s_isize := 4,
       s_fsize := 100, s_nfree := 3, s_free := (replicate 50 0)[1 := 50, 2 := 51], s_tfree := 2\<rparr>"
  by (simp_all add: sample_fs_def sample_def)

lemma sample_fs_disk: "disk_ok sample_fs 0" "busy_set sample_fs = {}"
  by (auto simp: disk_ok_def cache_ok_def buf_ok_def same_block_def media_ok_def busy_set_def
      sample_defs sample_fs_def)

lemma sample_fs_free: "free_ok sample_fs 0 0 [51, 50]"
proof -
  have "take 2 (drop 1 ((replicate 50 0)[1 := 50, 2 := 51])) = [50, 51 :: u16]" by code_simp
  then have "on_top 3 ((replicate 50 0)[1 := 50, 2 := 51]) = [51, 50]"
    by (simp add: on_top_def)
  moreover have "chain C 3 ((replicate 50 0)[1 := 50, 2 := 51])
      (on_top 3 ((replicate 50 0)[1 := 50, 2 := 51]))" for C
    by (rule chain_end) simp_all
  moreover have "fs_tab_get 0 sample_fs = Some 0"
    by (simp add: fs_tab_get_def first_index_def upt_rec)
  ultimately show ?thesis by (simp add: free_ok_def)
qed

lemma sample_fs_resting: "resting 0 0 4 100 sample_fs [51, 50]"
  using sample_fs_disk sample_fs_free by (simp add: resting_def)

subsection \<open>Properties of block allocation\<close>

text \<open>C27: On a coherent pool and a mounted file system blk\_alloc() takes exactly the first block of the
  abstract free list, also when the in-memory list has to be refilled from the chain: the remaining
  list is the tail, the block now reads as zeroes, no other block, mount table entry or counter
  (but the free count) changes, and no buffer stays in use.\<close>

theorem blk_alloc_takes_first:
  assumes "disk_ok s dev" and "free_ok s dev m (b # bs)" and "avail s dev b"
  shows "\<exists>t. blk_alloc dev s = Some (b, t) \<and> free_ok t dev m bs \<and> fs_frame m s t
    \<and> u_error t = u_error s
    \<and> io_step s t (\<lambda>e l. if e = dev \<and> l = b then zero_block else view s e l)"
  by (rule blk_alloc_pop [OF assms])

theorem blk_alloc_takes_first_witness: "\<exists>t. blk_alloc 0 sample_fs = Some (51, t) \<and> free_ok t 0 0 [50]"
  using blk_alloc_takes_first [OF sample_fs_disk(1) sample_fs_free resting_avail [OF sample_fs_resting]]
  by blast

text \<open>When the abstract free list is empty, blk\_alloc() returns 0 with ENOSPC and changes nothing else
  but the time stamp of the superblock.\<close>

theorem blk_alloc_exhausted:
  assumes "free_ok s dev m []"
  shows "\<exists>f. blk_alloc dev s = Some (0, upd_fs m f (s\<lparr>u_error := ENOSPC\<rparr>))
    \<and> f (fs_at s m) = stamp_fs s m (fs_at s m)"
  by (rule blk_alloc_none [OF assms])

theorem blk_alloc_exhausted_witness:
  "\<exists>t. blk_alloc 0 (upd_fs 0 (\<lambda>f. f\<lparr>s_nfree := 1, s_tfree := 0\<rparr>) sample_fs) = Some (0, t)
     \<and> u_error t = ENOSPC"
proof -
  let ?s = "upd_fs 0 (\<lambda>f. f\<lparr>s_nfree := 1, s_tfree := 0\<rparr>) sample_fs"
  have "chain C 1 ((replicate 50 0)[1 := 50, 2 := 51]) (on_top 1 ((replicate 50 0)[1 := 50, 2 := 51]))" for C
    by (rule chain_end) simp_all
  moreover have "fs_tab_get 0 sample_fs = Some 0" using sample_fs_free by (simp add: free_ok_def)
  ultimately have "free_ok ?s 0 0 []" by (simp add: free_ok_def on_top_1)
  then show ?thesis using blk_alloc_exhausted [of ?s 0 0] by auto
qed

text \<open>C29: blk\_free() puts a block of the data area that is not free yet at the front of the abstract free
  list, also when the full in-memory list has to be spilled into that block, and changes no other
  block.\<close>

theorem blk_free_puts_first:
  assumes "disk_ok s dev" and "free_ok s dev m bs" and "avail s dev b"
    and "b \<notin> set bs" and "s_isize (fs_at s m) \<le> b" and "b < s_fsize (fs_at s m)" and "length bs < 65535"
  shows "\<exists>t. blk_free dev b s = Some ((), t) \<and> free_ok t dev m (b # bs) \<and> fs_frame m s t
    \<and> u_error t = u_error s \<and> other_blocks s t dev b"
  using blk_free_push [OF assms] by blast

theorem blk_free_puts_first_witness: "\<exists>t. blk_free 0 60 sample_fs = Some ((), t) \<and> free_ok t 0 0 [60, 51, 50]"
  using blk_free_puts_first [OF sample_fs_disk(1) sample_fs_free resting_avail [OF sample_fs_resting], of 60]
  by auto

text \<open>Allocation does not leak and does not hand out a block twice: from a file system at rest, taking any
  number of blocks that are free yields distinct blocks, and freeing them newest first brings back
  exactly the free list that was there.\<close>

theorem blocks_returned:
  assumes "resting dev m lo hi s bs" and "n \<le> length bs"
  shows "\<exists>cs t u. free_pool.alloc_many (blk_alloc dev) n s = Some (cs, t) \<and> distinct cs \<and> length cs = n
    \<and> free_pool.release_all (blk_free dev) (rev cs) t = Some ((), u) \<and> resting dev m lo hi u bs"
  by (rule blocks.take_and_return [OF assms])

theorem blocks_returned_witness:
  "\<exists>cs t. free_pool.alloc_many (blk_alloc 0) 2 sample_fs = Some (cs, t) \<and> distinct cs \<and> length cs = 2"
  using blocks_returned [OF sample_fs_resting, of 2] by auto

end
