(* ===== verification/InodeSpec.thy ===== *)
theory InodeSpec
  imports Inode FreePool
begin

text \<open>
  What the inode code guarantees: the on-disk form of an inode is read back as it was written, to the
  byte range of that inode alone; bmap() is the lookup in the tree of direct and indirect blocks,
  and extends it when writing; the inode table holds an inode at most once.
\<close>

subsection \<open>The on-disk form\<close>

lemma length_dinode_bytes: "length (i_addr d) = 20 \<Longrightarrow> length (dinode_bytes d) = 64"
  by (simp add: dinode_bytes_def)

lemma dinode_decode:
  assumes "length (i_addr d) = 20"
  shows "dinode_of (dinode_bytes d) = d"
proof -
  have "map (\<lambda>j. rd16 (dinode_bytes d) (24 + 2 * j)) [0..<20] = i_addr d"
  proof (rule nth_equalityI)
    fix j assume "j < length (map (\<lambda>j. rd16 (dinode_bytes d) (24 + 2 * j)) [0..<20])"
    then have "j < length (i_addr d)" using assms by simp
    then show "map (\<lambda>j. rd16 (dinode_bytes d) (24 + 2 * j)) [0..<20] ! j = i_addr d ! j"
      using rd16_concat [of j "i_addr d" "[]"] assms by (simp add: dinode_bytes_def rd16_skip)
  qed (simp add: assms)
  then show ?thesis
    by (simp add: dinode_of_def) (simp add: dinode_bytes_def rd16_skip rd32_skip rd16_le16 rd32_le32)
qed

lemma rd16_skip2: "2 \<le> k \<Longrightarrow> rd16 (a # b # bs) k = rd16 bs (k - 2)"
  using rd16_skip [of "[a, b]" k bs] by (simp add: numeral_2_eq_2)

lemma rd32_skip2: "2 \<le> k \<Longrightarrow> rd32 (a # b # bs) k = rd32 bs (k - 2)"
  using rd32_skip [of "[a, b]" k bs] by (simp add: numeral_2_eq_2)

lemma length_filesys_bytes:
  assumes "length (s_free f) = FILESYS_TABSIZE" "length (s_inode f) = FILESYS_TABSIZE"
  shows "length (filesys_bytes itab f) = 222"
  using assms by (simp add: filesys_bytes_def free_list_bytes_def)

lemma filesys_decode:
  assumes "length (s_free f) = FILESYS_TABSIZE" "length (s_inode f) = FILESYS_TABSIZE"
  shows "filesys_of (filesys_bytes itab f) = f\<lparr>s_mntpt := None\<rparr>"
proof -
  have free: "map (\<lambda>j. rd16 (filesys_bytes itab f) (8 + 2 * j)) [0..<FILESYS_TABSIZE] = s_free f"
  proof (rule nth_equalityI)
    fix j assume "j < length (map (\<lambda>j. rd16 (filesys_bytes itab f) (8 + 2 * j)) [0..<FILESYS_TABSIZE])"
    then have "j < length (s_free f)" using assms by simp
    then show "map (\<lambda>j. rd16 (filesys_bytes itab f) (8 + 2 * j)) [0..<FILESYS_TABSIZE] ! j = s_free f ! j"
      using assms by (simp add: filesys_bytes_def free_list_bytes_def rd16_skip rd16_concat)
  qed (use assms in simp)
  have inode: "map (\<lambda>j. rd16 (filesys_bytes itab f) (110 + 2 * j)) [0..<FILESYS_TABSIZE] = s_inode f"
  proof (rule nth_equalityI)
    fix j assume "j < length (map (\<lambda>j. rd16 (filesys_bytes itab f) (110 + 2 * j)) [0..<FILESYS_TABSIZE])"
    then have "j < length (s_inode f)" using assms by simp
    then show "map (\<lambda>j. rd16 (filesys_bytes itab f) (110 + 2 * j)) [0..<FILESYS_TABSIZE] ! j = s_inode f ! j"
      using assms by (simp add: filesys_bytes_def free_list_bytes_def rd16_skip rd16_concat)
  qed (use assms in simp)
  show ?thesis
    unfolding filesys_of_def free inode
    using assms
    by (simp add: filesys_bytes_def free_list_bytes_def rd16_skip rd32_skip rd16_le16 rd32_le32
        rd16_skip2 rd32_skip2 nth_append)
qed

text \<open>Different inodes of one block occupy disjoint byte ranges.\<close>

lemma inode_off_bound: "inode_off num + 64 \<le> BLKSIZE"
proof -
  have "num AND 7 \<le> 7" by (rule word_and_le1)
  then have "unat (num AND 7) \<le> 7" by (simp add: word_le_nat_alt)
  then show ?thesis by (simp add: inode_off_def)
qed

lemma inode_place_inj:
  assumes "inode_blk a = inode_blk b" "a \<noteq> b"
  shows "inode_off a + 64 \<le> inode_off b \<or> inode_off b + 64 \<le> inode_off a"
proof -
  have "drop_bit 3 a = drop_bit 3 b" using assms(1) by (simp add: inode_blk_def)
  moreover have "x = push_bit 3 (drop_bit 3 x) OR (x AND 7)" for x :: u16
  proof (rule bit_word_eqI)
    fix n assume "n < LENGTH(16)"
    have "bit (7 :: u16) n \<longleftrightarrow> n < 3"
    proof -
      have "(7 :: u16) = mask 3" by (simp add: mask_eq_exp_minus_1)
      then show ?thesis using \<open>n < LENGTH(16)\<close> by (simp only: bit_mask_iff) simp
    qed
    then show "bit x n = bit (push_bit 3 (drop_bit 3 x) OR (x AND 7)) n"
      using \<open>n < LENGTH(16)\<close> by (auto simp: bit_or_iff bit_and_iff bit_push_bit_iff bit_drop_bit_eq)
  qed
  ultimately have "a AND 7 \<noteq> b AND 7" using assms(2) by metis
  then have "unat (a AND 7) \<noteq> unat (b AND 7)" by (simp add: word_unat_eq_iff)
  then show ?thesis by (auto simp: inode_off_def)
qed

subsection \<open>Frame of the inode table updates\<close>

lemma upd_i_fields [simp]:
  "bufpool (upd_i i f s) = bufpool s" "nbufs (upd_i i f s) = nbufs s" "disk (upd_i i f s) = disk s"
  "plat (upd_i i f s) = plat s" "u_error (upd_i i f s) = u_error s" "fs_tab (upd_i i f s) = fs_tab s"
  "i_tab (upd_i i f s) j = (if j = i then f (i_tab s i) else i_tab s j)"
  by (simp_all add: upd_i_def)

lemma upd_i_cache [simp]:
  "cache_ok (upd_i i f s) = cache_ok s" "view (upd_i i f s) = view s"
  "busy_set (upd_i i f s) = busy_set s" "buf_holds (upd_i i f s) b d k = buf_holds s b d k"
  "disk_ok (upd_i i f s) d = disk_ok s d" "avail (upd_i i f s) d k = avail s d k"
  "free_ok (upd_i i f s) d m bs = free_ok s d m bs" "fs_tab_get d (upd_i i f s) = fs_tab_get d s"
  "getmode j (upd_i i (\<lambda>c. c\<lparr>c_flags := h c\<rparr>) s) = getmode j s"
  using cache_cong [of "upd_i i f s" s]
  by (simp_all add: busy_set_def buf_holds_def buf_free_def media_ok_def disk_ok_def avail_def
      fs_tab_get_def free_ok_def getmode_def)

lemma io_step_upd_i [simp]:
  "io_step (upd_i i f s) t V = io_step s t V" "io_step s (upd_i i f t) V = io_step s t V"
  by (simp_all add: io_step_def)

subsection \<open>Writing an inode\<close>

definition disk_inode :: "kst \<Rightarrow> u16 \<Rightarrow> u16 \<Rightarrow> dinode" where
  "disk_inode s dev num = dinode_of (get_bytes (view s dev (inode_blk num)) (inode_off num) 64)"

lemma wr_inode_written:
  assumes d: "disk_ok s dev" and a: "avail s dev (inode_blk num)"
    and c: "c_magic (i_tab s ino) = CMAGIC" "c_dev (i_tab s ino) = dev" "c_num (i_tab s ino) = num"
      "length (i_addr (c_node (i_tab s ino))) = 20"
  shows "\<exists>t. wr_inode ino s = Some ((), t) \<and> disk_inode t dev num = c_node (i_tab s ino)
    \<and> (\<forall>n. n \<noteq> num \<longrightarrow> disk_inode t dev n = disk_inode s dev n) \<and> other_blocks s t dev (inode_blk num)
    \<and> i_tab t = (i_tab s)(ino := (i_tab s ino)\<lparr>c_flags := c_flags (i_tab s ino) AND NOT CDIRTY\<rparr>)
    \<and> u_error t = u_error s \<and> io_step s t (view t) \<and> disk t dev (inode_blk num) = view t dev (inode_blk num)"
proof -
  let ?k = "inode_blk num" and ?bs = "dinode_bytes (c_node (i_tab s ino))"
  obtain b w where w: "bread dev ?k False s = Some (Some b, w)" "buf_holds w b dev ?k"
    "bf_data (bufpool w b) = view s dev ?k" "cache_ok w" "io_core w = io_core s"
    "busy_set w = insert b (busy_set s)" "b \<notin> busy_set s" "u_error w = u_error s"
    "same_view s w" "\<forall>c\<in>busy_set s. bufpool w c = bufpool s c"
    by (rule bread_read [OF d a])
  have dn: "dev \<noteq> NO_DEVICE" "media_ok s" "validdev (plat s) dev" using d by (auto simp: disk_ok_def)
  have iw: "i_tab w = i_tab s" "plat w = plat s" using io_core_fields [OF w(5)] by simp_all
  define D where "D = put_bytes (view s dev ?k) (inode_off num) ?bs"
  have "blkfromk ?bs b (inode_off num) w = set_data b D w"
    using w(3) by (simp add: blkfromk_def set_data_def D_def upd_b_def)
  have two: "(2 :: u8) = 1 \<or> (2 :: u8) = 2" by simp
  have key: "bf_dev (bufpool w b) = dev" "bf_blk (bufpool w b) = ?k" using w(2) by (auto simp: buf_holds_def)
  have "\<exists>r u. bfree b 2 (set_data b D w) = Some (r, u)"
    using key dn(3) iw(2)
    by (simp add: bfree_def set_data_def bdwrite_def validchk_def bdsetup_def Let_def)
  then obtain r u where u: "bfree b 2 (set_data b D w) = Some (r, u)" by blast
  note bf = bfree_dirty [OF w(4,2) dn(1) two u]
  have wrok: "blk_wr_ok (plat w) dev ?k" using dn(2) iw(2) by (simp add: media_ok_def)
  have un: "r = 0" "u_error u = u_error w" "disk u dev ?k = D" using bf(5) wrok by auto
  have cu: "io_core u = io_core s" using bf(4) w(5) by simp
  define t where "t = upd_i ino (\<lambda>c. c\<lparr>c_flags := c_flags c AND NOT CDIRTY\<rparr>) u"
  have run: "wr_inode ino s = Some ((), t)"
    using w(1) u c iw(1) \<open>blkfromk ?bs b (inode_off num) w = set_data b D w\<close>
    by (simp add: wr_inode_def magic_def t_def)
  have V: "view t e l = (if e = dev \<and> l = ?k then D else view s e l)" if "e \<noteq> NO_DEVICE" for e l
    using bf(2) [OF that] w(9) that by (simp add: t_def same_view_def)
  have "bufpool u c = bufpool s c" if "c \<in> busy_set s" for c
    using bf(6) [of c] w(7,10) that by metis
  then have step: "io_step s t (view t)"
    using bf(1,3) w(6,7,10) io_core_fields(4,5) [OF cu] by (auto simp: io_step_def t_def)
  have len: "length ?bs = 64" using c(4) by (rule length_dinode_bytes)
  have "disk_inode t dev num = c_node (i_tab s ino)"
    using V [OF dn(1)] len dinode_decode [OF c(4)]
    by (simp add: disk_inode_def D_def get_put_bytes_same)
  moreover have "disk_inode t dev n = disk_inode s dev n" if "n \<noteq> num" for n
  proof (cases "inode_blk n = ?k")
    case True
    then show ?thesis
      using V [OF dn(1)] len inode_place_inj [OF True that]
      by (auto simp: disk_inode_def D_def get_put_bytes_other)
  next
    case False
    then show ?thesis using V [OF dn(1)] by (simp add: disk_inode_def)
  qed
  moreover have "other_blocks s t dev ?k" using V by (auto simp: other_blocks_def)
  moreover have "i_tab t = (i_tab s)(ino := (i_tab s ino)\<lparr>c_flags := c_flags (i_tab s ino) AND NOT CDIRTY\<rparr>)"
    using io_core_fields(1) [OF cu] by (simp add: t_def upd_i_def)
  moreover have "u_error t = u_error s" using un w(8) by (simp add: t_def)
  moreover have "disk t dev ?k = view t dev ?k" using un(3) V [OF dn(1)] by (simp add: t_def)
  ultimately show ?thesis using run step by blast
qed

subsection \<open>The block map as a tree\<close>

definition walk_index :: "nat \<Rightarrow> u16 \<Rightarrow> nat" where
  "walk_index sh bn = unat (drop_bit sh bn AND 0xFF)"

fun walk :: "(u16 \<Rightarrow> block) \<Rightarrow> u16 \<Rightarrow> nat list \<Rightarrow> u16 \<Rightarrow> u16" where
  "walk C bn [] nb = nb"
| "walk C bn (sh # shs) nb =
     (let x = blk_entry (C nb) (walk_index sh bn) in if x = 0 then 0 else walk C bn shs x)"

text \<open>The indirect blocks on the way.\<close>

fun nodes :: "(u16 \<Rightarrow> block) \<Rightarrow> u16 \<Rightarrow> nat list \<Rightarrow> u16 \<Rightarrow> u16 set" where
  "nodes C bn [] nb = {}"
| "nodes C bn (sh # shs) nb =
     insert nb (let x = blk_entry (C nb) (walk_index sh bn) in if x = 0 then {} else nodes C bn shs x)"

text \<open>The shape bmap() relies on: the way does not come back to a block, nor into the free list.\<close>

fun way_ok :: "(u16 \<Rightarrow> block) \<Rightarrow> u16 list \<Rightarrow> u16 \<Rightarrow> nat list \<Rightarrow> u16 \<Rightarrow> bool" where
  "way_ok C bs bn [] nb \<longleftrightarrow> nb \<notin> set bs"
| "way_ok C bs bn (sh # shs) nb \<longleftrightarrow> nb \<notin> set bs \<and>
     (let x = blk_entry (C nb) (walk_index sh bn)
      in x \<noteq> 0 \<longrightarrow> nb \<notin> nodes C bn shs x \<and> way_ok C bs bn shs x)"

text \<open>The first block of the way, the relative block number and the shift counts.\<close>

definition tree_at :: "u16 \<Rightarrow> nat \<times> u16 \<times> nat list" where
  "tree_at bn = (if bn < 18 then (unat bn, 0, [])
     else if (bn - 18) AND 0xFF00 \<noteq> 0 then (19, bn - 18 - 256, [8, 0]) else (18, bn - 18, [0]))"

definition lookup :: "kst \<Rightarrow> nat \<Rightarrow> u16 \<Rightarrow> u16" where
  "lookup s ip bn =
     (let (j, k, shs) = tree_at bn; nb = i_addr (c_node (i_tab s ip)) ! j
      in if nb = 0 then 0 else walk (view s (c_dev (i_tab s ip))) k shs nb)"

lemma walk_cong:
  "(\<And>l. l \<in> nodes C bn shs nb \<Longrightarrow> C' l = C l) \<Longrightarrow> walk C' bn shs nb = walk C bn shs nb"
proof (induction shs arbitrary: nb)
  case Nil
  then show ?case by simp
next
  case (Cons sh shs)
  have "C' nb = C nb" using Cons.prems by simp
  then show ?case using Cons.IH Cons.prems by (auto simp: Let_def)
qed

lemma walk_view:
  "(\<And>l. C' l = C l) \<Longrightarrow> walk C' bn shs nb = walk C bn shs nb"
  by (rule walk_cong)

subsection \<open>bmap() for reading\<close>

lemma bmap_walk_read:
  "disk_ok s dev \<Longrightarrow> busy_set s = {} \<Longrightarrow> 0 < nbufs s \<Longrightarrow> nb \<noteq> 0 \<Longrightarrow>
   rd \<or> walk (view s dev) bn shs nb \<noteq> 0 \<Longrightarrow>
   \<exists>t. bmap_walk ip dev bn rd shs nb s
      = Some (if walk (view s dev) bn shs nb = 0 then Inl NULLBLK else Inr (walk (view s dev) bn shs nb), t)
     \<and> io_core t = io_core s \<and> u_error t = u_error s \<and> io_step s t (view s)"
proof (induction shs arbitrary: nb s)
  case Nil
  then show ?case by (auto simp: io_step_def disk_ok_def)
next
  case (Cons sh shs)
  have dn: "dev \<noteq> NO_DEVICE" using Cons.prems(1) by (simp add: disk_ok_def)
  have "avail s dev nb" using Cons.prems(2,3) by (auto simp: avail_busy)
  then obtain b w where w: "bread dev nb False s = Some (Some b, w)" "bf_data (bufpool w b) = view s dev nb"
    and rel: "\<forall>m f. \<exists>u. brelse b (upd_fs m f w) = Some ((), upd_fs m f u) \<and> brelse b w = Some ((), u)
       \<and> io_core u = io_core s \<and> u_error u = u_error s \<and> io_step s u (view s)"
    by (rule read_then_release [OF Cons.prems(1)])
  obtain u where u: "brelse b w = Some ((), u)" "io_core u = io_core s" "u_error u = u_error s"
    "io_step s u (view s)" using rel by blast
  define x where "x = blk_entry (view s dev nb) (walk_index sh bn)"
  show ?case
  proof (cases "x = 0")
    case True
    then have "rd" using Cons.prems(5) by (simp add: x_def)
    then show ?thesis using True w u by (simp add: x_def walk_index_def)
  next
    case False
    have "disk_ok u dev" using io_step_disk [OF u(4) Cons.prems(1)] .
    moreover have "busy_set u = {}" "0 < nbufs u" using u(4) Cons.prems by (simp_all add: io_step_def)
    moreover have same: "walk (view u dev) bn shs x = walk (view s dev) bn shs x"
      by (rule walk_view) (use u(4) dn in \<open>simp add: io_step_def\<close>)
    moreover have "rd \<or> walk (view s dev) bn shs x \<noteq> 0"
      using Cons.prems(5) False by (simp add: x_def Let_def)
    ultimately obtain t where t: "bmap_walk ip dev bn rd shs x u
      = Some (if walk (view u dev) bn shs x = 0 then Inl NULLBLK else Inr (walk (view u dev) bn shs x), t)"
      "io_core t = io_core u" "u_error t = u_error u" "io_step u t (view u)"
      using Cons.IH [of u x] False by auto
    have "io_step s t (view s)"
      by (rule io_step_trans [OF u(4) t(4)]) (use u(4) in \<open>simp add: io_step_def\<close>)
    then show ?thesis
      using w u t False same by (simp add: x_def walk_index_def)
  qed
qed

lemma bmap_read:
  assumes d: "disk_ok s (c_dev (i_tab s ip))" and q: "busy_set s = {}" "0 < nbufs s"
    and mode: "getmode ip s \<noteq> MODE_R_BDEV" and ex: "rd \<or> lookup s ip bn \<noteq> 0"
  shows "\<exists>t. bmap ip bn rd s = Some (if lookup s ip bn = 0 then NULLBLK else lookup s ip bn, t)
    \<and> io_core t = io_core s \<and> u_error t = u_error s \<and> io_step s t (view s)"
proof -
  have here: "io_step s s (view s)" using d by (simp add: io_step_def disk_ok_def)
  show ?thesis
  proof (cases "bn < 18")
    case True
    then show ?thesis using mode ex here by (auto simp: bmap_def lookup_def tree_at_def Let_def)
  next
    case False
    obtain j k shs where tr: "tree_at bn = (j, k, shs)" by (cases "tree_at bn")
    let ?nb = "i_addr (c_node (i_tab s ip)) ! j"
    show ?thesis
    proof (cases "?nb = 0")
      case True
      then show ?thesis
        using False tr mode ex here by (auto simp: bmap_def lookup_def tree_at_def split: if_splits)
    next
      case nz: False
      from bmap_walk_read [OF d q nz, of rd k shs ip] obtain t where t:
        "bmap_walk ip (c_dev (i_tab s ip)) k rd shs ?nb s = Some (if lookup s ip bn = 0 then Inl NULLBLK
           else Inr (lookup s ip bn), t)"
        "io_core t = io_core s" "u_error t = u_error s" "io_step s t (view s)"
        using nz tr ex by (auto simp: lookup_def)
      have "bmap ip bn rd s = Some (if lookup s ip bn = 0 then NULLBLK else lookup s ip bn, t)"
        using False tr nz t(1) mode ex
        by (auto simp: bmap_def tree_at_def Let_def split: if_splits simp del: bmap_walk.simps)
      with t show ?thesis by blast
    qed
  qed
qed

subsection \<open>bmap() for writing\<close>

lemma blk_entry_put_same:
  "blk_entry (put_bytes D (i * 2) (le16 x)) i = x"
  using rd16_le16 [of x "[]"] by (simp add: blk_entry_def get_put_bytes_same mult.commute)

lemma blk_entry_put_other:
  "j \<noteq> i \<Longrightarrow> blk_entry (put_bytes D (i * 2) bs) j = blk_entry D j" if "length bs = 2"
  using that by (simp add: blk_entry_def) (subst get_put_bytes_other, auto)

lemma blk_entry_zero [simp]: "blk_entry zero_block j = 0"
  by (simp add: blk_entry_def get_bytes_def zero_block_def rd16_def upt_rec)

text \<open>A new block entered into an indirect block that is held meanwhile.\<close>

lemma extend_node:
  assumes d: "disk_ok s dev" and q: "busy_set s = {}" "1 < nbufs s"
    and fr: "free_ok s dev m (x # bs)" and nb: "nb \<noteq> x" "nb \<notin> set bs"
  shows "\<exists>b w u t. bread dev nb False s = Some (Some b, w) \<and> bf_data (bufpool w b) = view s dev nb
    \<and> blk_alloc dev w = Some (x, u)
    \<and> bawrite b (blkfromk (le16 x) b (i * 2) u) = Some ((), t)
    \<and> free_ok t dev m bs \<and> fs_frame m s t \<and> u_error t = u_error s
    \<and> io_step s t (\<lambda>e l. if e = dev \<and> l = nb then put_bytes (view s dev nb) (i * 2) (le16 x)
         else if e = dev \<and> l = x then zero_block else view s e l)"
proof -
  have dn: "dev \<noteq> NO_DEVICE" using d by (simp add: disk_ok_def)
  have "avail s dev nb" using q by (auto simp: avail_busy)
  then obtain b w where w: "bread dev nb False s = Some (Some b, w)" "buf_holds w b dev nb"
    "bf_data (bufpool w b) = view s dev nb" "cache_ok w" "io_core w = io_core s"
    "busy_set w = insert b (busy_set s)" "b \<notin> busy_set s" "u_error w = u_error s"
    "same_view s w" "\<forall>c\<in>busy_set s. bufpool w c = bufpool s c"
    by (rule bread_read [OF d])
  have bw: "busy_set w = {b}" "nbufs w = nbufs s" "plat w = plat s" "fs_tab w = fs_tab s"
    using w(6) q io_core_fields [OF w(5)] by simp_all
  have dw: "disk_ok w dev" by (rule disk_ok_trans [OF d w(5,4)])
  have vw: "view w dev l = view s dev l" for l using w(9) dn by (simp add: same_view_def)
  have fw: "free_ok w dev m (x # bs)"
    using fr bw(4) fs_tab_get_cong [OF bw(4)] unfolding free_ok_def
    by (auto intro: chain_cong [of "view s dev"] simp: vw)
  have "\<exists>c<nbufs w. c \<noteq> b" using q(2) bw(2) by (metis One_nat_def less_trans zero_less_one less_numeral_extra(4))
  then have "avail w dev x" using bw(1) w(2) nb(1) by (auto simp: avail_busy buf_holds_def)
  then obtain u where u: "blk_alloc dev w = Some (x, u)" "free_ok u dev m bs" "fs_frame m w u"
    "u_error u = u_error w"
    "io_step w u (\<lambda>e l. if e = dev \<and> l = x then zero_block else view w e l)"
    using blk_alloc_pop [OF dw fw] by blast
  have ub: "bufpool u b = bufpool w b" "busy_set u = {b}" "cache_ok u" "nbufs u = nbufs s" "plat u = plat s"
    using u(5) bw by (auto simp: io_step_def)
  let ?D = "put_bytes (view s dev nb) (i * 2) (le16 x)"
  have "blkfromk (le16 x) b (i * 2) u = set_data b ?D u"
    using ub(1) w(3) by (simp add: blkfromk_def set_data_def upd_b_def)
  moreover obtain r t where t: "bfree b 1 (set_data b ?D u) = Some (r, t)"
    by (simp add: bfree_def Let_def)
  ultimately have run: "bawrite b (blkfromk (le16 x) b (i * 2) u) = Some ((), t)"
    by (simp add: bawrite_def)
  have hu: "buf_holds u b dev nb" using w(2) ub(1,4) bw(2) by (simp add: buf_holds_def)
  have one: "(1 :: u8) = 1 \<or> (1 :: u8) = 2" by simp
  note bf = bfree_dirty [OF ub(3) hu dn one t]
  have core: "io_core t = io_core u" by (rule bf(4))
  have V: "view t e l = (if e = dev \<and> l = nb then ?D else if e = dev \<and> l = x then zero_block
      else view s e l)" if "e \<noteq> NO_DEVICE" for e l
  proof -
    have "view u e l = (if e = dev \<and> l = x then zero_block else view s e l)"
      using u(5) w(9) that by (simp add: io_step_def same_view_def)
    then show ?thesis using bf(2) [OF that, of l] by auto
  qed
  have step: "io_step s t (\<lambda>e l. if e = dev \<and> l = nb then ?D else if e = dev \<and> l = x then zero_block
      else view s e l)"
    using bf(1,3) ub q V io_core_fields(4,5) [OF core] by (simp add: io_step_def)
  have "view t dev l = view u dev l" if "l \<in> set bs" for l
    using bf(2) [OF dn, of l] that nb(2) by auto
  then have "free_ok t dev m bs"
    using u(2) fs_at_core [OF core] fs_tab_get_cong [OF io_core_fs_tab [OF core]]
    unfolding free_ok_def by (auto intro: chain_cong [of "view u dev"])
  moreover have "fs_frame m s t"
  proof -
    have "io_core (w\<lparr>fs_tab := fs_tab w\<rparr>) = io_core w" by simp
    have "io_core (t\<lparr>fs_tab := fs_tab s\<rparr>) = io_core (u\<lparr>fs_tab := fs_tab s\<rparr>)"
      by (rule fs_tab_core [OF core])
    also have "\<dots> = io_core w" using u(3) bw(4) by (simp add: fs_frame_def)
    finally show ?thesis
      using u(3) w(5) bw(4) io_core_fs_tab [OF core] by (simp add: fs_frame_def)
  qed
  moreover have "u_error t = u_error s" using bf(5) u(4) w(8) by auto
  ultimately show ?thesis using w(1,3) u(1) run step by blast
qed

lemma fs_frame_trans: "fs_frame m s u \<Longrightarrow> fs_frame m u t \<Longrightarrow> fs_frame m s t"
proof -
  assume a: "fs_frame m s u" "fs_frame m u t"
  have "io_core (t\<lparr>fs_tab := fs_tab s\<rparr>) = io_core (u\<lparr>fs_tab := fs_tab s\<rparr>)"
    using fs_tab_core [of "t\<lparr>fs_tab := fs_tab u\<rparr>" u "fs_tab s"] a(2) by (simp add: fs_frame_def)
  with a show ?thesis by (auto simp: fs_frame_def fs_static_def)
qed

lemma nodes_cong:
  "(\<And>l. l \<in> nodes C bn shs nb \<Longrightarrow> C' l = C l) \<Longrightarrow> nodes C' bn shs nb = nodes C bn shs nb"
proof (induction shs arbitrary: nb)
  case Nil
  then show ?case by simp
next
  case (Cons sh shs)
  have "C' nb = C nb" using Cons.prems by simp
  then show ?case using Cons.IH Cons.prems by (auto simp: Let_def)
qed

lemma way_ok_cong:
  "(\<And>l. C' l = C l) \<Longrightarrow> way_ok C' bs bn shs nb = way_ok C bs bn shs nb"
proof (induction shs arbitrary: nb)
  case Nil
  then show ?case by simp
next
  case (Cons sh shs)
  have "nodes C' bn shs x = nodes C bn shs x" for x by (rule nodes_cong) (simp add: Cons.prems)
  with Cons show ?case by (simp add: Let_def)
qed

lemma bmap_walk_alloc:
  "disk_ok s dev \<Longrightarrow> busy_set s = {} \<Longrightarrow> 1 < nbufs s \<Longrightarrow> nb \<noteq> 0 \<Longrightarrow> free_ok s dev m bs \<Longrightarrow>
   length shs \<le> length bs \<Longrightarrow> way_ok (view s dev) bs bn shs nb \<Longrightarrow>
   \<exists>x t k. bmap_walk ip dev bn False shs nb s = Some (Inr x, t) \<and> x \<noteq> 0
     \<and> walk (view t dev) bn shs nb = x \<and> free_ok t dev m (drop k bs) \<and> k \<le> length shs
     \<and> (if walk (view s dev) bn shs nb = 0 then x \<in> set (take k bs) \<and> view t dev x = zero_block
        else x = walk (view s dev) bn shs nb)
     \<and> fs_frame m s t \<and> u_error t = u_error s \<and> io_step s t (view t)
     \<and> (\<forall>e l. e \<noteq> NO_DEVICE \<and> \<not> (e = dev \<and> l \<in> nodes (view s dev) bn shs nb \<union> set bs)
          \<longrightarrow> view t e l = view s e l)"
proof (induction shs arbitrary: nb s bs)
  case Nil
  then show ?case
    by (intro exI [of _ nb] exI [of _ s] exI [of _ 0])
      (auto simp: io_step_def disk_ok_def fs_frame_def fs_static_def)
next
  case (Cons sh shs)
  have dn: "dev \<noteq> NO_DEVICE" using Cons.prems(1) by (simp add: disk_ok_def)
  define i where "i = walk_index sh bn"
  define x where "x = blk_entry (view s dev nb) i"
  have nbs: "nb \<notin> set bs" using Cons.prems(7) by simp
  show ?case
  proof (cases "x = 0")
    case False
    have "avail s dev nb" using Cons.prems(2,3) by (auto simp: avail_busy)
    then obtain b w where w: "bread dev nb False s = Some (Some b, w)" "bf_data (bufpool w b) = view s dev nb"
      and rel: "\<forall>m f. \<exists>u. brelse b (upd_fs m f w) = Some ((), upd_fs m f u) \<and> brelse b w = Some ((), u)
         \<and> io_core u = io_core s \<and> u_error u = u_error s \<and> io_step s u (view s)"
      by (rule read_then_release [OF Cons.prems(1)])
    obtain u where u: "brelse b w = Some ((), u)" "io_core u = io_core s" "u_error u = u_error s"
      "io_step s u (view s)" using rel by blast
    have vu: "view u dev l = view s dev l" for l using u(4) dn by (simp add: io_step_def)
    have fu: "free_ok u dev m bs"
      using Cons.prems(5) fs_at_core [OF u(2)] fs_tab_get_cong [OF io_core_fs_tab [OF u(2)]]
      unfolding free_ok_def by (auto intro: chain_cong [of "view s dev"] simp: vu)
    have wy: "way_ok (view u dev) bs bn shs x" "nb \<notin> nodes (view s dev) bn shs x"
      using Cons.prems(7) False way_ok_cong [of "view u dev" "view s dev", OF vu]
      by (simp_all add: x_def i_def Let_def)
    have "busy_set u = {}" "1 < nbufs u" "disk_ok u dev"
      using u(4) Cons.prems io_step_disk [OF u(4)] by (simp_all add: io_step_def)
    then obtain y t k where t: "bmap_walk ip dev bn False shs x u = Some (Inr y, t)" "y \<noteq> 0"
      "walk (view t dev) bn shs x = y" "free_ok t dev m (drop k bs)" "k \<le> length shs"
      "if walk (view u dev) bn shs x = 0 then y \<in> set (take k bs) \<and> view t dev y = zero_block
        else y = walk (view u dev) bn shs x"
      "fs_frame m u t" "u_error t = u_error u" "io_step u t (view t)"
      "\<forall>e l. e \<noteq> NO_DEVICE \<and> \<not> (e = dev \<and> l \<in> nodes (view u dev) bn shs x \<union> set bs)
          \<longrightarrow> view t e l = view u e l"
      using Cons.IH [of u x bs] False fu wy(1) Cons.prems(6) by auto
    have nu: "nodes (view u dev) bn shs x = nodes (view s dev) bn shs x"
      by (rule nodes_cong) (simp add: vu)
    have wu: "walk (view u dev) bn shs x = walk (view s dev) bn shs x"
      by (rule walk_view) (simp add: vu)
    have nbt: "view t dev nb = view s dev nb"
      using t(10) dn wy(2) nbs nu vu by simp
    have "bmap_walk ip dev bn False (sh # shs) nb s = Some (Inr y, t)"
      using w u t(1) False by (simp add: x_def i_def walk_index_def)
    moreover have "walk (view t dev) bn (sh # shs) nb = y"
      using nbt t(3) False by (simp add: x_def i_def)
    moreover have "walk (view s dev) bn (sh # shs) nb = walk (view s dev) bn shs x"
      "nodes (view s dev) bn (sh # shs) nb = insert nb (nodes (view s dev) bn shs x)"
      using False by (simp_all add: x_def i_def Let_def)
    moreover have "fs_frame m s t"
      using t(7) u(2) io_core_fs_tab [OF u(2)] by (simp add: fs_frame_def)
    moreover have "io_step s t (view t)" using t(9) u(4) by (simp add: io_step_def)
    moreover have "\<forall>e l. e \<noteq> NO_DEVICE \<and> \<not> (e = dev \<and> l \<in> insert nb (nodes (view s dev) bn shs x) \<union> set bs)
          \<longrightarrow> view t e l = view s e l"
      using t(10) u(4) nu by (auto simp: io_step_def)
    ultimately show ?thesis
      using t(2,4-6,8) u(3) wu by (intro exI [of _ y] exI [of _ t] exI [of _ k]) auto
  next
    case True
    obtain z cs where bs: "bs = z # cs" using Cons.prems(6) by (cases bs) auto
    have dist: "distinct (z # cs)" "z \<noteq> 0" "0 \<notin> set bs"
      using Cons.prems(5) bs by (auto simp: free_ok_def)
    obtain b w u t1 where e: "bread dev nb False s = Some (Some b, w)"
      "bf_data (bufpool w b) = view s dev nb" "blk_alloc dev w = Some (z, u)"
      "bawrite b (blkfromk (le16 z) b (i * 2) u) = Some ((), t1)"
      "free_ok t1 dev m cs" "fs_frame m s t1" "u_error t1 = u_error s"
      "io_step s t1 (\<lambda>e l. if e = dev \<and> l = nb then put_bytes (view s dev nb) (i * 2) (le16 z)
         else if e = dev \<and> l = z then zero_block else view s e l)"
      using extend_node [OF Cons.prems(1-3), of m z cs nb i] Cons.prems(5) nbs bs by auto
    have vz: "view t1 dev z = zero_block" using e(8) dn nbs bs by (auto simp: io_step_def)
    have nz: "nodes (view t1 dev) bn shs z \<subseteq> {z}" using vz by (cases shs) (auto simp: Let_def)
    have wz: "way_ok (view t1 dev) cs bn shs z" using vz dist by (cases shs) (auto simp: Let_def)
    have "busy_set t1 = {}" "1 < nbufs t1" "disk_ok t1 dev"
      using e(8) Cons.prems io_step_disk [OF e(8)] by (simp_all add: io_step_def)
    then obtain y t k where t: "bmap_walk ip dev bn False shs z t1 = Some (Inr y, t)" "y \<noteq> 0"
      "walk (view t dev) bn shs z = y" "free_ok t dev m (drop k cs)" "k \<le> length shs"
      "if walk (view t1 dev) bn shs z = 0 then y \<in> set (take k cs) \<and> view t dev y = zero_block
        else y = walk (view t1 dev) bn shs z"
      "fs_frame m t1 t" "u_error t = u_error t1" "io_step t1 t (view t)"
      "\<forall>e l. e \<noteq> NO_DEVICE \<and> \<not> (e = dev \<and> l \<in> nodes (view t1 dev) bn shs z \<union> set cs)
          \<longrightarrow> view t e l = view t1 e l"
      using Cons.IH [of t1 z cs] e(5) wz dist(2) Cons.prems(6) bs by auto
    have zn: "nb \<noteq> z" using nbs bs by auto
    have "view t dev nb = view t1 dev nb"
      using t(10) dn nz nbs bs zn by auto
    then have nbt: "blk_entry (view t dev nb) i = z"
      using e(8) dn by (simp add: io_step_def blk_entry_put_same)
    have run: "bmap_walk ip dev bn False (sh # shs) nb s = Some (Inr y, t)"
      using e(1-4) t(1) True dist(2) by (simp add: x_def i_def walk_index_def)
    have wk: "walk (view t dev) bn (sh # shs) nb = y" using nbt t(3) dist(2) by (simp add: i_def)
    have w0: "walk (view s dev) bn (sh # shs) nb = 0" using True by (simp add: x_def i_def)
    have yz: "y \<in> set (take (Suc k) bs) \<and> view t dev y = zero_block"
    proof (cases shs)
      case Nil
      then have "y = z" "t = t1" using t(1) by auto
      then show ?thesis using vz bs by simp
    next
      case (Cons sh' shs')
      then have "walk (view t1 dev) bn shs z = 0" using vz by simp
      then show ?thesis using t(6) bs by simp
    qed
    have other: "view t e' l = view s e' l"
      if "e' \<noteq> NO_DEVICE" "\<not> (e' = dev \<and> l \<in> insert nb (set bs))" for e' l
    proof -
      have "view t e' l = view t1 e' l" using t(10) that nz bs by auto
      also have "\<dots> = view s e' l" using e(8) that bs by (auto simp: io_step_def)
      finally show ?thesis .
    qed
    have "fs_frame m s t" by (rule fs_frame_trans [OF e(6) t(7)])
    moreover have "io_step s t (view t)" using t(9) e(8) by (simp add: io_step_def)
    ultimately show ?thesis
      using run wk w0 yz other t(2,4,5,8) e(7) bs
      by (intro exI [of _ y] exI [of _ t] exI [of _ "Suc k"]) auto
  qed
qed

lemma set_addr_fields [simp]:
  "cache_ok (set_addr ip j nb s) = cache_ok s" "view (set_addr ip j nb s) = view s"
  "busy_set (set_addr ip j nb s) = busy_set s" "disk_ok (set_addr ip j nb s) d = disk_ok s d"
  "free_ok (set_addr ip j nb s) d m bs = free_ok s d m bs" "nbufs (set_addr ip j nb s) = nbufs s"
  "c_dev (i_tab (set_addr ip j nb s) ip) = c_dev (i_tab s ip)"
  "i_addr (c_node (i_tab (set_addr ip j nb s) ip)) = (i_addr (c_node (i_tab s ip)))[j := nb]"
  "u_error (set_addr ip j nb s) = u_error s"
  by (simp_all add: set_addr_def upd_node_def)

text \<open>The result of a writing bmap(): \<open>x\<close> is the block, \<open>c\<close> the number of blocks taken.\<close>

definition mapped :: "kst \<Rightarrow> nat \<Rightarrow> u16 \<Rightarrow> nat \<Rightarrow> u16 list \<Rightarrow> u16 \<Rightarrow> nat \<Rightarrow> kst \<Rightarrow> bool" where
  "mapped s ip bn m bs x c t \<longleftrightarrow> x \<noteq> 0 \<and> lookup t ip bn = x
     \<and> (if lookup s ip bn = 0
        then x \<in> set (take c bs) \<and> x \<noteq> NULLBLK \<and> view t (c_dev (i_tab s ip)) x = zero_block
        else x = lookup s ip bn)
     \<and> free_ok t (c_dev (i_tab s ip)) m (drop c bs) \<and> u_error t = u_error s \<and> busy_set t = {}"

lemma not_nullblk:
  assumes "free_ok s dev m bs" "x \<in> set bs" shows "x \<noteq> NULLBLK"
proof -
  have "x < s_fsize (fs_at s m)" using assms by (auto simp: free_ok_def)
  moreover have "\<not> (0xFFFF :: u16) < y" for y using u16_bound [of y] by (simp add: word_less_nat_alt)
  ultimately show ?thesis by blast
qed

lemma bmap_alloc:
  assumes d: "disk_ok s (c_dev (i_tab s ip))" and q: "busy_set s = {}" "1 < nbufs s"
    and mode: "getmode ip s \<noteq> MODE_R_BDEV" and len: "length (i_addr (c_node (i_tab s ip))) = 20"
    and fr: "free_ok s (c_dev (i_tab s ip)) m bs" and room: "3 \<le> length bs"
    and tr: "tree_at bn = (j, k, shs)"
    and way: "i_addr (c_node (i_tab s ip)) ! j \<noteq> 0 \<Longrightarrow>
      way_ok (view s (c_dev (i_tab s ip))) bs k shs (i_addr (c_node (i_tab s ip)) ! j)"
  shows "\<exists>x t c. bmap ip bn False s = Some (x, t) \<and> mapped s ip bn m bs x c t \<and> c \<le> 3"
proof -
  let ?dev = "c_dev (i_tab s ip)" and ?nb = "i_addr (c_node (i_tab s ip)) ! j"
  have j: "j < 20" using tr by (auto simp: tree_at_def word_less_nat_alt split: if_splits)
  have shs: "length shs \<le> 2" "bn < 18 \<longleftrightarrow> shs = []" "bn < 18 \<Longrightarrow> j = unat bn"
    using tr by (auto simp: tree_at_def split: if_splits)
  have step: "bmap ip bn False s = (if ?nb = 0
      then Option.bind (blk_alloc ?dev s) (\<lambda>(nb, s). if nb = 0 then Some (NULLBLK, s)
        else Option.bind (bmap_walk ip ?dev k False shs nb (set_addr ip j nb s))
          (\<lambda>(r, s). Some (case r of Inl r \<Rightarrow> r | Inr nb \<Rightarrow> nb, s)))
      else Option.bind (bmap_walk ip ?dev k False shs ?nb s)
          (\<lambda>(r, s). Some (case r of Inl r \<Rightarrow> r | Inr nb \<Rightarrow> nb, s)))"
  proof (cases "bn < 18")
    case True
    with shs tr mode show ?thesis
      by (cases "blk_alloc ?dev s") (auto simp: bmap_def Let_def)
  next
    case False
    with tr mode show ?thesis
      by (cases "blk_alloc ?dev s")
        (auto simp: bmap_def tree_at_def Let_def split: if_splits simp del: bmap_walk.simps)
  qed
  show ?thesis
  proof (cases "?nb = 0")
    case False
    then obtain x t c where t: "bmap_walk ip ?dev k False shs ?nb s = Some (Inr x, t)" "x \<noteq> 0"
      "walk (view t ?dev) k shs ?nb = x" "free_ok t ?dev m (drop c bs)" "c \<le> length shs"
      "if walk (view s ?dev) k shs ?nb = 0 then x \<in> set (take c bs) \<and> view t ?dev x = zero_block
        else x = walk (view s ?dev) k shs ?nb"
      "fs_frame m s t" "u_error t = u_error s" "io_step s t (view t)"
      using bmap_walk_alloc [OF d q False fr _ way [OF False], of ip] room shs(1) by auto
    have lk: "lookup s ip bn = walk (view s ?dev) k shs ?nb" "lookup t ip bn = x"
      using tr False t(3) fs_frame_fields(1) [OF t(7)] by (simp_all add: lookup_def)
    have xb: "x \<in> set (take c bs) \<Longrightarrow> x \<noteq> NULLBLK"
      using not_nullblk [OF fr] by (blast dest: in_set_takeD)
    have bq: "busy_set t = {}" using t(9) q(1) by (simp add: io_step_def)
    have "mapped s ip bn m bs x c t"
      unfolding mapped_def lk using t(2,4,6,8) xb bq lk(1) by (simp split: if_splits)
    then show ?thesis using step t(1,5) False shs(1) by auto
  next
    case True
    obtain z cs where bs: "bs = z # cs" using room by (cases bs) auto
    have z: "z \<noteq> 0" "distinct bs" using fr bs by (auto simp: free_ok_def)
    have "avail s ?dev z" using q by (auto simp: avail_busy)
    then obtain u where u: "blk_alloc ?dev s = Some (z, u)" "free_ok u ?dev m cs" "fs_frame m s u"
      "u_error u = u_error s" "io_step s u (\<lambda>e l. if e = ?dev \<and> l = z then zero_block else view s e l)"
      using blk_alloc_pop [OF d] fr bs by blast
    have iu: "i_tab u = i_tab s" by (rule fs_frame_fields [OF u(3)])
    let ?v = "set_addr ip j z u"
    have dn: "?dev \<noteq> NO_DEVICE" using d by (simp add: disk_ok_def)
    have dv: "c_dev (i_tab ?v ip) = ?dev" using iu by simp
    have vz: "view ?v ?dev z = zero_block" using u(5) dn by (simp add: io_step_def)
    have wz: "way_ok (view ?v ?dev) cs k shs z" using vz z bs by (cases shs) (auto simp: Let_def)
    have "disk_ok ?v ?dev" "busy_set ?v = {}" "1 < nbufs ?v" "free_ok ?v ?dev m cs"
      using u(2,5) q io_step_disk [OF u(5) d] by (simp_all add: io_step_def)
    then obtain x t c where t: "bmap_walk ip ?dev k False shs z ?v = Some (Inr x, t)" "x \<noteq> 0"
      "walk (view t ?dev) k shs z = x" "free_ok t ?dev m (drop c cs)" "c \<le> length shs"
      "if walk (view ?v ?dev) k shs z = 0 then x \<in> set (take c cs) \<and> view t ?dev x = zero_block
        else x = walk (view ?v ?dev) k shs z"
      "fs_frame m ?v t" "u_error t = u_error ?v" "io_step ?v t (view t)"
      using bmap_walk_alloc [of ?v ?dev z m cs shs k ip] z(1) wz room shs(1) bs by auto
    have it: "i_tab t = i_tab ?v" by (rule fs_frame_fields [OF t(7)])
    have lt: "lookup t ip bn = x" "lookup s ip bn = 0"
      using tr True t(2,3) it dv j len z(1) iu by (simp_all add: lookup_def)
    have xn: "x \<in> set (take (Suc c) bs) \<and> view t ?dev x = zero_block"
    proof (cases shs)
      case Nil
      then have "x = z" "t = ?v" using t(1) by auto
      then show ?thesis using vz bs by simp
    next
      case (Cons sh' shs')
      then have "walk (view ?v ?dev) k shs z = 0" using vz by (simp del: set_addr_fields)
      then show ?thesis using t(6) bs by simp
    qed
    have xb: "x \<noteq> NULLBLK" using xn not_nullblk [OF fr] by (blast dest: in_set_takeD)
    have bq: "busy_set t = {}" using t(9) u(5) q(1) by (simp add: io_step_def)
    have "mapped s ip bn m bs x (Suc c) t"
      unfolding mapped_def using t(2,4,8) lt xn xb u(4) bs bq by simp
    moreover have "bmap ip bn False s = Some (x, t)"
      using step True u(1) z(1) t(1) by simp
    ultimately show ?thesis using t(5) shs(1) by (intro exI [of _ x] exI [of _ t] exI [of _ "Suc c"]) auto
  qed
qed

subsection \<open>A file on the sample file system\<close>

text \<open>
  Inode 5 of device 0, an ordinary file whose block 0 is block 60, with three free blocks left.
\<close>

definition sample_inode :: cinode where
  "sample_inode = sample_cinode\<lparr>c_magic := CMAGIC, c_num := 5, c_refs := 1,
     c_node := sample_dinode\<lparr>i_mode := F_REG OR 0x1A4, i_nlink := 1, i_size := 512,
       i_addr := (replicate 20 0)[0 := 60]\<rparr>\<rparr>"

definition sample_file :: kst where
  "sample_file = sample\<lparr>fs_tab := (\<lambda>i. if i = 0
     then \<lparr>m_dev = 0, m_flags = 0, m_fs = sample_filesys\<lparr>s_mounted := SMOUNTED, s_isize := 4,
       s_fsize := 100, s_nfree := 4, s_free := (replicate 50 0)[1 := 50, 2 := 51, 3 := 52], s_tfree := 3\<rparr>\<rparr>
     else sample_mount),
     i_tab := (\<lambda>i. if i = 0 then sample_inode else sample_cinode)\<rparr>"

lemma sample_file_fields [simp]:
  "bufpool sample_file = bufpool sample" "nbufs sample_file = 2" "plat sample_file = sample_plat"
  "disk sample_file = disk sample" "m_dev (fs_tab sample_file 0) = 0" "m_flags (fs_tab sample_file 0) = 0"
  "fs_at sample_file 0 = sample_filesys\<lparr>s_mounted := SMOUNTED, s_isize := 4,
       s_fsize := 100, s_nfree := 4, s_free := (replicate 50 0)[1 := 50, 2 := 51, 3 := 52], s_tfree := 3\<rparr>"
  "i_tab sample_file 0 = sample_inode"
  by (simp_all add: sample_file_def sample_def)

lemma sample_inode_fields [simp]:
  "c_magic sample_inode = CMAGIC" "c_dev sample_inode = 0" "c_num sample_inode = 5"
  "c_refs sample_inode = 1" "c_flags sample_inode = 0"
  "c_node sample_inode = sample_dinode\<lparr>i_mode := F_REG OR 0x1A4, i_nlink := 1, i_size := 512,
       i_addr := (replicate 20 0)[0 := 60]\<rparr>"
  by (simp_all add: sample_inode_def sample_cinode_def)

lemma sample_file_disk: "disk_ok sample_file 0" "busy_set sample_file = {}"
  by (auto simp: disk_ok_def cache_ok_def buf_ok_def same_block_def media_ok_def busy_set_def sample_defs)

lemma sample_file_avail: "avail sample_file d k"
  using sample_file_disk(2) by (simp add: avail_busy exI [of _ 0])

lemma sample_file_free: "free_ok sample_file 0 0 [52, 51, 50]"
proof -
  have "take 3 (drop 1 ((replicate 50 0)[1 := 50, 2 := 51, 3 := 52])) = [50, 51, 52 :: u16]" by code_simp
  then have "on_top 4 ((replicate 50 0)[1 := 50, 2 := 51, 3 := 52]) = [52, 51, 50]"
    by (simp add: on_top_def)
  moreover have "chain C 4 ((replicate 50 0)[1 := 50, 2 := 51, 3 := 52])
      (on_top 4 ((replicate 50 0)[1 := 50, 2 := 51, 3 := 52]))" for C
    by (rule chain_end) simp_all
  moreover have "fs_tab_get 0 sample_file = Some 0"
    by (simp add: fs_tab_get_def first_index_def upt_rec)
  ultimately show ?thesis by (simp add: free_ok_def)
qed

lemma sample_file_mode: "getmode 0 sample_file = 0x80"
proof -
  have "ucast (drop_bit 8 (F_REG OR 0x1A4 :: u16) AND 0xF0) = (0x80 :: u8)" by code_simp
  then show ?thesis by (simp add: getmode_def)
qed

subsection \<open>Properties of inodes and block maps\<close>

text \<open>The superblock is read back as it was written: decoding the 222 bytes that sync() stores
  gives every field of the mount table's copy, the full free block and free inode tables included;
  only the mount point, a kernel address, is dropped as fmount() does.\<close>

theorem superblock_roundtrip:
  assumes "length (s_free f) = FILESYS_TABSIZE" and "length (s_inode f) = FILESYS_TABSIZE"
  shows "filesys_of (filesys_bytes itab f) = f\<lparr>s_mntpt := None\<rparr>"
  by (rule filesys_decode [OF assms])

theorem superblock_roundtrip_witness:
  "filesys_of (filesys_bytes 0x8000 (sample_filesys\<lparr>s_fsize := 100\<rparr>)) = sample_filesys\<lparr>s_fsize := 100\<rparr>"
  using superblock_roundtrip [of "sample_filesys\<lparr>s_fsize := 100\<rparr>" "0x8000"]
  by (simp add: sample_filesys_def)

text \<open>wr_inode() puts an in-core inode on the medium: afterwards the inode of that number decodes to
  the in-core copy, every other inode of the device (also those of the same block) and every other
  block is unchanged, the dirty flag is off, and the block on the medium is the one the pool shows.\<close>

theorem inode_written:
  assumes "disk_ok s dev" and "avail s dev (inode_blk num)"
    and "c_magic (i_tab s ino) = CMAGIC" and "c_dev (i_tab s ino) = dev" and "c_num (i_tab s ino) = num"
    and "length (i_addr (c_node (i_tab s ino))) = 20"
  shows "\<exists>t. wr_inode ino s = Some ((), t) \<and> disk_inode t dev num = c_node (i_tab s ino)
    \<and> (\<forall>n. n \<noteq> num \<longrightarrow> disk_inode t dev n = disk_inode s dev n) \<and> other_blocks s t dev (inode_blk num)
    \<and> i_tab t = (i_tab s)(ino := (i_tab s ino)\<lparr>c_flags := c_flags (i_tab s ino) AND NOT CDIRTY\<rparr>)
    \<and> u_error t = u_error s \<and> io_step s t (view t) \<and> disk t dev (inode_blk num) = view t dev (inode_blk num)"
  by (rule wr_inode_written [OF assms])

theorem inode_written_witness:
  "\<exists>t. wr_inode 0 sample_file = Some ((), t) \<and> i_size (disk_inode t 0 5) = 512"
  using inode_written [OF sample_file_disk(1) sample_file_avail, where num = 5 and ino = 0]
  by (auto simp: sample_dinode_def)

text \<open>C22: Reading, bmap() is the lookup in the file's tree of direct and indirect blocks: it returns the
  block the tree holds at that position, NULLBLK where the tree has a hole, and changes neither the
  tree nor any other part of the state that holds data.\<close>

theorem bmap_reads_tree:
  assumes "disk_ok s (c_dev (i_tab s ip))" and "busy_set s = {}" and "0 < nbufs s"
    and "getmode ip s \<noteq> MODE_R_BDEV"
  shows "\<exists>t. bmap ip bn True s = Some (if lookup s ip bn = 0 then NULLBLK else lookup s ip bn, t)
    \<and> io_core t = io_core s \<and> u_error t = u_error s \<and> io_step s t (view s)"
  using bmap_read [OF assms, of True] by simp

theorem bmap_reads_tree_witness:
  "(\<exists>t. bmap 0 0 True sample_file = Some (60, t)) \<and> (\<exists>t. bmap 0 300 True sample_file = Some (NULLBLK, t))"
proof -
  have r: "\<exists>t. bmap 0 bn True sample_file
      = Some (if lookup sample_file 0 bn = 0 then NULLBLK else lookup sample_file 0 bn, t)" for bn
  proof -
    have "getmode 0 sample_file \<noteq> MODE_R_BDEV" by (simp add: sample_file_mode)
    then have "\<exists>t. bmap 0 bn True sample_file
      = Some (if lookup sample_file 0 bn = 0 then NULLBLK else lookup sample_file 0 bn, t)
      \<and> io_core t = io_core sample_file \<and> u_error t = u_error sample_file
      \<and> io_step sample_file t (view sample_file)"
      by (intro bmap_reads_tree) (simp_all add: sample_file_disk)
    then show ?thesis by blast
  qed
  have "lookup sample_file 0 0 = 60" by (simp add: lookup_def tree_at_def)
  moreover have "tree_at 300 = (19, 26, [8, 0])" by code_simp
  then have "lookup sample_file 0 300 = 0" by (simp add: lookup_def sample_dinode_def)
  ultimately show ?thesis using r [of 0] r [of 300] by simp
qed

text \<open>C31: Writing, bmap() makes the position exist: it returns the block that the tree held, or, at a
  hole, a block from the free list that reads as zeroes, after linking in at most two new indirect
  blocks; afterwards the tree holds that block at the position and the free list is what is left.\<close>

theorem bmap_fills_hole:
  assumes "disk_ok s (c_dev (i_tab s ip))" and "busy_set s = {}" and "1 < nbufs s"
    and "getmode ip s \<noteq> MODE_R_BDEV" and "length (i_addr (c_node (i_tab s ip))) = 20"
    and "free_ok s (c_dev (i_tab s ip)) m bs" and "3 \<le> length bs" and "tree_at bn = (j, k, shs)"
    and "i_addr (c_node (i_tab s ip)) ! j \<noteq> 0 \<longrightarrow>
      way_ok (view s (c_dev (i_tab s ip))) bs k shs (i_addr (c_node (i_tab s ip)) ! j)"
  shows "\<exists>x t c. bmap ip bn False s = Some (x, t) \<and> mapped s ip bn m bs x c t \<and> c \<le> 3"
  using bmap_alloc [OF assms(1-8)] assms(9) by blast

theorem bmap_fills_hole_witness:
  "\<exists>x t c. bmap 0 300 False sample_file = Some (x, t) \<and> mapped sample_file 0 300 0 [52, 51, 50] x c t"
proof -
  have "tree_at 300 = (19, 26, [8, 0])" by code_simp
  moreover have "getmode 0 sample_file \<noteq> MODE_R_BDEV" by (simp add: sample_file_mode)
  ultimately show ?thesis
    using bmap_fills_hole [of sample_file 0 0 "[52, 51, 50]" 300 19 26 "[8, 0]"]
      sample_file_disk sample_file_free by (auto simp: sample_dinode_def)
qed

end
