(* ===== verification/IoFrame.thy ===== *)
theory IoFrame
  imports InodeSpec
begin

text \<open>
  What the buffer pool and the file system's own bookkeeping leave alone, on every path of the code
  that returns and without any assumption on the state: the pool operations change only the pool and
  the media; allocation, block maps and write-back change beyond that only superblocks and the
  disk images and flags of inodes.
\<close>

subsection \<open>The buffer pool\<close>

lemma bdwrite_core: "bdwrite b s = Some (r, t) \<Longrightarrow> io_core t = io_core s"
  by (auto simp: bdwrite_def validchk_def Let_def split: if_splits)

lemma bdread_core: "bdread b s = Some (r, t) \<Longrightarrow> io_core t = io_core s"
  by (auto simp: bdread_def validchk_def Let_def split: if_splits)

lemma freebuf_core: "freebuf s = Some (b, t) \<Longrightarrow> io_core t = io_core s"
  by (auto simp: freebuf_def bind_eq_Some_conv split: option.splits if_splits dest!: bdwrite_core)

lemma bread_core: "bread d k w s = Some (r, t) \<Longrightarrow> io_core t = io_core s"
  by (auto simp: bread_def bind_eq_Some_conv Let_def split: option.splits if_splits bfstate.splits
      dest!: freebuf_core bdread_core)

lemma bfree_core: "bfree b f s = Some (r, t) \<Longrightarrow> io_core t = io_core s"
  by (auto simp: bfree_def bind_eq_Some_conv Let_def split: if_splits dest!: bdwrite_core)

lemma brelse_core: "brelse b s = Some (r, t) \<Longrightarrow> io_core t = io_core s"
  by (auto simp: brelse_def bind_eq_Some_conv dest!: bfree_core)

lemma bawrite_core: "bawrite b s = Some (r, t) \<Longrightarrow> io_core t = io_core s"
  by (auto simp: bawrite_def bind_eq_Some_conv dest!: bfree_core)

lemma tmpbuf_core: "tmpbuf s = Some (b, t) \<Longrightarrow> io_core t = io_core s"
  by (auto simp: tmpbuf_def bind_eq_Some_conv dest!: freebuf_core)

lemma zerobuf_core: "zerobuf s = Some (b, t) \<Longrightarrow> io_core t = io_core s"
  by (auto simp: zerobuf_def bind_eq_Some_conv dest!: tmpbuf_core)

lemma d_flush_core: "d_flush d s = (r, t) \<Longrightarrow> io_core t = io_core s"
  by (auto simp: d_flush_def d_ioctl_def Let_def split: prod.splits if_splits)

lemma bdput_core: "bdput b s = Some (r, t) \<Longrightarrow> io_core t = io_core s"
  by (auto simp: bdput_def bind_eq_Some_conv Let_def split: if_splits prod.splits
      dest!: bdwrite_core d_flush_core)

lemma bufsync_core:
  assumes "bufsync s = Some (r, t)" shows "io_core t = io_core s"
  by (rule for_each_inv [where I = "\<lambda>t. io_core t = io_core s", OF _ _ assms [unfolded bufsync_def]])
    (auto simp: bufsync_step_def dest: bdput_core split: if_splits)

subsection \<open>The file system's bookkeeping\<close>

definition fs_hull :: "kst \<Rightarrow> kst" where
  "fs_hull s = (io_core s)\<lparr>fs_tab := (\<lambda>_. sample_mount),
     i_tab := (\<lambda>i. (i_tab s i)\<lparr>c_node := sample_dinode, c_flags := 0\<rparr>)\<rparr>"

lemma fs_hull_core: "io_core t = io_core s \<Longrightarrow> fs_hull t = fs_hull s"
  using io_core_fields(1) [of t s] unfolding fs_hull_def by presburger

lemma fs_hull_upd_i:
  assumes "\<And>c. (f c)\<lparr>c_node := sample_dinode, c_flags := 0\<rparr> = c\<lparr>c_node := sample_dinode, c_flags := 0\<rparr>"
  shows "fs_hull (upd_i i f s) = fs_hull s"
proof -
  have "(\<lambda>j. (((i_tab s)(i := f (i_tab s i))) j)\<lparr>c_node := sample_dinode, c_flags := 0\<rparr>)
      = (\<lambda>j. (i_tab s j)\<lparr>c_node := sample_dinode, c_flags := 0\<rparr>)"
    using assms by (auto simp del: fun_upd_apply simp: fun_upd_apply)
  then show ?thesis by (simp add: fs_hull_def io_core_def upd_i_def del: fun_upd_apply)
qed

lemma fs_hull_upd [simp]:
  "fs_hull (s\<lparr>u_error := e\<rparr>) = fs_hull s"
  "fs_hull (upd_b b f s) = fs_hull s"
  "fs_hull (upd_fs m g s) = fs_hull s"
  by (simp_all add: fs_hull_def io_core_def upd_b_def upd_fs_def)

lemma fs_hull_upd_node [simp]:
  "fs_hull (upd_node i h s) = fs_hull s"
  "fs_hull (upd_i i (\<lambda>c. c\<lparr>c_flags := k c\<rparr>) s) = fs_hull s"
  "fs_hull (upd_i i (\<lambda>c. c\<lparr>c_node := n c\<rparr>) s) = fs_hull s"
  unfolding upd_node_def by (rule fs_hull_upd_i, simp)+

lemma fs_hull_upd_more [simp]:
  "fs_hull (set_addr ip j nb s) = fs_hull s" "fs_hull (blkfromk bs b off s) = fs_hull s"
  by (simp_all add: set_addr_def blkfromk_def)

lemma fs_hull_fields:
  assumes "fs_hull t = fs_hull s"
  shows "c_dev (i_tab t i) = c_dev (i_tab s i)" "c_num (i_tab t i) = c_num (i_tab s i)"
    "c_refs (i_tab t i) = c_refs (i_tab s i)" "c_magic (i_tab t i) = c_magic (i_tab s i)"
    "of_tab t = of_tab s" "u_files t = u_files s" "ptab t = ptab s" "plat t = plat s"
    "u_cwd t = u_cwd s" "u_root t = u_root s" "root_dev t = root_dev s" "umem t = umem s" "kmem t = kmem s"
    "u_euid t = u_euid s" "u_egid t = u_egid s"
  using assms [THEN arg_cong, of "\<lambda>s. c_dev (i_tab s i)"] assms [THEN arg_cong, of "\<lambda>s. c_num (i_tab s i)"]
    assms [THEN arg_cong, of "\<lambda>s. c_refs (i_tab s i)"] assms [THEN arg_cong, of "\<lambda>s. c_magic (i_tab s i)"]
    assms [THEN arg_cong, of of_tab] assms [THEN arg_cong, of u_files] assms [THEN arg_cong, of ptab]
    assms [THEN arg_cong, of plat] assms [THEN arg_cong, of u_cwd] assms [THEN arg_cong, of u_root]
    assms [THEN arg_cong, of root_dev] assms [THEN arg_cong, of umem] assms [THEN arg_cong, of kmem]
    assms [THEN arg_cong, of u_euid] assms [THEN arg_cong, of u_egid]
  by (simp_all add: fs_hull_def io_core_def)

lemmas hull_io = bread_core [THEN fs_hull_core] bfree_core [THEN fs_hull_core]
  brelse_core [THEN fs_hull_core] bawrite_core [THEN fs_hull_core] bufsync_core [THEN fs_hull_core]

lemma corrupt_fs_hull: "corrupt_fs d s = Some (r, t) \<Longrightarrow> fs_hull t = fs_hull s"
  by (auto simp: corrupt_fs_def split: option.splits)

lemma getdev_hull: "getdev d s = Some (m, t) \<Longrightarrow> fs_hull t = fs_hull s"
  by (auto simp: getdev_def split: option.splits if_splits)

lemma validblk_hull: "validblk d n s = Some (r, t) \<Longrightarrow> t = s"
  by (auto simp: validblk_def split: option.splits if_splits)

lemma wr_inode_hull: "wr_inode i s = Some (r, t) \<Longrightarrow> fs_hull t = fs_hull s"
  by (auto simp: wr_inode_def magic_def bind_eq_Some_conv Let_def split: option.splits if_splits
      dest!: hull_io corrupt_fs_hull)

lemma sync_hull:
  assumes "sync s = Some (r, t)" shows "fs_hull t = fs_hull s"
proof -
  have mount: "fs_hull v = fs_hull u" if "sync_mount m u = Some (x, v)" for m u x v
    using that by (auto simp: sync_mount_def bind_eq_Some_conv Let_def split: option.splits if_splits
        dest!: hull_io)
  have ino: "fs_hull v = fs_hull u" if "sync_inode m u = Some (x, v)" for m u x v
    using that by (auto simp: sync_inode_def bind_eq_Some_conv split: if_splits dest!: wr_inode_hull)
  obtain u v where u: "for_each [0..<ITABSIZE] sync_inode s = Some ((), u)"
    and v: "for_each [0..<NMOUNTS] sync_mount u = Some ((), v)" and t: "bufsync v = Some (r, t)"
    using assms by (auto simp: sync_def bind_eq_Some_conv)
  have "fs_hull u = fs_hull s"
    by (rule for_each_inv [where I = "\<lambda>t. fs_hull t = fs_hull s", OF _ _ u]) (auto dest: ino)
  moreover have "fs_hull v = fs_hull s"
    by (rule for_each_inv [where I = "\<lambda>t. fs_hull t = fs_hull s", OF _ calculation v]) (auto dest: mount)
  ultimately show ?thesis using t by (auto dest: hull_io)
qed

lemma alloc_corrupt_hull:
  "alloc_corrupt m s = Some (r, t) \<Longrightarrow> fs_hull t = fs_hull s"
  "alloc_corrupt2 s = Some (r, t) \<Longrightarrow> fs_hull t = fs_hull s"
  by (auto simp: alloc_corrupt_def alloc_corrupt2_def)

lemma refill_hull: "refill d m n s = Some (r, t) \<Longrightarrow> fs_hull t = fs_hull s"
  by (auto simp: refill_def bind_eq_Some_conv Let_def split: option.splits if_splits dest!: hull_io)

lemma zero_blk_hull: "zero_blk d n s = Some (r, t) \<Longrightarrow> fs_hull t = fs_hull s"
  by (auto simp: zero_blk_def bind_eq_Some_conv Let_def split: option.splits if_splits dest!: hull_io)

lemma blk_alloc_hull: "blk_alloc d s = Some (r, t) \<Longrightarrow> fs_hull t = fs_hull s"
  by (auto simp: blk_alloc_def bind_eq_Some_conv Let_def split: if_splits
      dest!: getdev_hull alloc_corrupt_hull refill_hull validblk_hull zero_blk_hull)

lemma spill_hull: "spill d m k s = Some (r, t) \<Longrightarrow> fs_hull t = fs_hull s"
  by (auto simp: spill_def bind_eq_Some_conv Let_def split: option.splits if_splits dest!: hull_io)

lemma blk_free_hull: "blk_free d k s = Some (r, t) \<Longrightarrow> fs_hull t = fs_hull s"
  by (auto simp: blk_free_def bind_eq_Some_conv Let_def split: if_splits
      dest!: getdev_hull validblk_hull spill_hull)

lemma take_inode_hull: "take_inode m s = Some (r, t) \<Longrightarrow> fs_hull t = fs_hull s"
  by (auto simp: take_inode_def Let_def split: if_splits dest!: alloc_corrupt_hull)

lemma scan_blocks_hull: "scan_blocks d m ks k s = Some (r, t) \<Longrightarrow> fs_hull t = fs_hull s"
  by (induction ks arbitrary: k s)
    (auto simp: Let_def elim!: bind_SomeD split: option.splits if_splits prod.splits dest!: hull_io)

lemma i_alloc_hull: "i_alloc d s = Some (r, t) \<Longrightarrow> fs_hull t = fs_hull s"
  by (auto simp: i_alloc_def bind_eq_Some_conv Let_def split: option.splits if_splits
      dest!: getdev_hull alloc_corrupt_hull take_inode_hull sync_hull scan_blocks_hull)

lemma i_free_hull: "i_free d i s = Some (r, t) \<Longrightarrow> fs_hull t = fs_hull s"
  by (auto simp: i_free_def bind_eq_Some_conv Let_def split: if_splits dest!: getdev_hull)

lemma freeblk_hull: "freeblk d l k s = Some (r, t) \<Longrightarrow> fs_hull t = fs_hull s"
proof (induction l arbitrary: k s r t)
  case 0
  then show ?case by (auto split: if_splits dest: blk_free_hull)
next
  case (Suc l)
  have loop: "for_each js (\<lambda>j s. freeblk d l (blk_entry (bf_data (bufpool s bp)) j) s) u = Some (x, v)
      \<Longrightarrow> fs_hull v = fs_hull u" for js bp u v x
    by (rule for_each_inv [where I = "\<lambda>t. fs_hull t = fs_hull u"]) (auto dest: Suc.IH)
  from Suc.prems show ?case
    by (auto simp: bind_eq_Some_conv split: option.splits if_splits
        dest!: hull_io corrupt_fs_hull blk_free_hull loop)
qed

lemma f_trunc_hull:
  assumes "f_trunc i s = Some (r, t)" shows "fs_hull t = fs_hull s"
proof -
  have loop: "for_each js (\<lambda>j s. freeblk d 0 (i_addr (c_node (i_tab s i)) ! j) s) u = Some (x, v)
      \<Longrightarrow> fs_hull v = fs_hull u" for js d u v x
    by (rule for_each_inv [where I = "\<lambda>t. fs_hull t = fs_hull u"]) (auto dest: freeblk_hull simp del: freeblk.simps)
  from assms show ?thesis
    by (auto simp: f_trunc_def bind_eq_Some_conv Let_def simp del: freeblk.simps split: if_splits
        dest!: freeblk_hull loop)
qed

lemma bmap_walk_hull: "bmap_walk ip d bn w shs nb s = Some (r, t) \<Longrightarrow> fs_hull t = fs_hull s"
proof (induction shs arbitrary: w nb s)
  case Nil
  then show ?case by simp
next
  case (Cons sh shs)
  from Cons.prems show ?case
    by (auto simp: Let_def elim!: bind_SomeD split: option.splits if_splits
        dest!: hull_io corrupt_fs_hull blk_alloc_hull Cons.IH)
qed

lemma bmap_hull: "bmap ip bn w s = Some (r, t) \<Longrightarrow> fs_hull t = fs_hull s"
  by (auto simp: bmap_def Let_def simp del: bmap_walk.simps elim!: bind_SomeD split: if_splits prod.splits
      dest!: blk_alloc_hull bmap_walk_hull)

end
