(* ===== verification/InodeTab.thy ===== *)
theory InodeTab
  imports IoFrame
begin

text \<open>
  The in-core inode table: i\_open() never gives one inode two entries and never takes an entry
  that is in use for another inode.
\<close>

definition itab_unique :: "kst \<Rightarrow> bool" where
  "itab_unique s \<longleftrightarrow> (\<forall>i<ITABSIZE. \<forall>j<ITABSIZE. c_num (i_tab s i) \<noteq> 0 \<and> c_num (i_tab s i) = c_num (i_tab s j)
     \<and> c_dev (i_tab s i) = c_dev (i_tab s j) \<longrightarrow> i = j)"

text \<open>Entries in use stay the entries of their inode.\<close>

definition itab_keeps :: "kst \<Rightarrow> kst \<Rightarrow> bool" where
  "itab_keeps s t \<longleftrightarrow> (\<forall>i. c_refs (i_tab s i) \<noteq> 0 \<longrightarrow>
     c_dev (i_tab t i) = c_dev (i_tab s i) \<and> c_num (i_tab t i) = c_num (i_tab s i))"

lemma itab_hull:
  assumes "fs_hull t = fs_hull s"
  shows "itab_unique t = itab_unique s" "itab_keeps u t = itab_keeps u s" "itab_keeps t u = itab_keeps s u"
  using fs_hull_fields(1-3) [OF assms] by (simp_all add: itab_unique_def itab_keeps_def)

lemma itab_unique_err [simp]: "itab_unique (s\<lparr>u_error := e\<rparr>) = itab_unique s"
  by (simp add: itab_unique_def)

lemma i_found_result:
  assumes "i_found n j s = Some (r, t)"
  shows "\<forall>i. c_dev (i_tab t i) = c_dev (i_tab s i) \<and> c_num (i_tab t i) = c_num (i_tab s i)"
    "r = None \<Longrightarrow> t = s"
    "r = Some k \<Longrightarrow> k = j \<and> (\<forall>i. c_refs (i_tab t i) = c_refs (i_tab s i) + (if i = j then 1 else 0))"
  using assms by (auto simp: i_found_def Let_def i_ref_def upd_i_def split: if_splits)

lemma itab_unique_cong:
  assumes "\<forall>i. c_dev (i_tab t i) = c_dev (i_tab s i) \<and> c_num (i_tab t i) = c_num (i_tab s i)"
  shows "itab_unique t = itab_unique s" "itab_keeps u t = itab_keeps u s"
  using assms by (simp_all add: itab_unique_def itab_keeps_def)

lemma i_find_Some: "i_find d n s = Some j \<Longrightarrow> j < ITABSIZE \<and> c_dev (i_tab s j) = d \<and> c_num (i_tab s j) = n"
  unfolding i_find_def by (drule first_index_Some) simp

lemma i_unused_Some: "i_unused s = Some j \<Longrightarrow> j < ITABSIZE \<and> c_refs (i_tab s j) = 0"
  unfolding i_unused_def by (auto simp: find_Some_iff rev_nth)

text \<open>The entry taken for an inode that is not in the table yet.\<close>

lemma install_unique:
  assumes "itab_unique s" "i_find d n s = None" "j < ITABSIZE" "c_refs (i_tab s j) = 0"
    and t: "\<forall>i. i \<noteq> j \<longrightarrow> c_dev (i_tab t i) = c_dev (i_tab s i) \<and> c_num (i_tab t i) = c_num (i_tab s i)"
      "c_dev (i_tab t j) = d" "c_num (i_tab t j) = n"
  shows "itab_unique t" "itab_keeps s t"
proof -
  have none: "\<not> (c_dev (i_tab s i) = d \<and> c_num (i_tab s i) = n)" if "i < ITABSIZE" for i
    using assms(2) that by (simp add: i_find_def first_index_None)
  show "itab_unique t"
    unfolding itab_unique_def
  proof (intro allI impI)
    fix i k assume b: "i < ITABSIZE" "k < ITABSIZE" and e: "c_num (i_tab t i) \<noteq> 0
      \<and> c_num (i_tab t i) = c_num (i_tab t k) \<and> c_dev (i_tab t i) = c_dev (i_tab t k)"
    show "i = k"
    proof (cases "i = j \<or> k = j")
      case True
      then show ?thesis using t none [OF b(1)] none [OF b(2)] e by metis
    next
      case False
      then show ?thesis using assms(1) t(1) b e unfolding itab_unique_def by metis
    qed
  qed
  show "itab_keeps s t" using t(1) assms(4) by (auto simp: itab_keeps_def)
qed

definition i_opened :: "kst \<Rightarrow> u16 \<Rightarrow> u16 \<Rightarrow> nat option \<Rightarrow> kst \<Rightarrow> bool" where
  "i_opened s dev ino r t \<longleftrightarrow> itab_unique t \<and> itab_keeps s t \<and> (case r of
       None \<Rightarrow> \<forall>i. c_refs (i_tab t i) = c_refs (i_tab s i)
     | Some j \<Rightarrow> j < ITABSIZE \<and> c_dev (i_tab t j) = dev \<and> c_num (i_tab t j) \<noteq> 0
         \<and> (ino \<noteq> 0 \<longrightarrow> c_num (i_tab t j) = ino)
         \<and> (\<forall>i. c_refs (i_tab t i) = c_refs (i_tab s i) + (if i = j then 1 else 0)))"

lemma i_open_entry:
  assumes u: "itab_unique s" and o: "i_open dev ino s = Some (r, t)"
  shows "i_opened s dev ino r t"
proof -
  obtain n w where w: "(if ino = 0 then i_alloc dev s else Some (ino, s)) = Some (n, w)"
    and go: "(if n = 0 then Some (None, w\<lparr>u_error := ENOSPC\<rparr>) else
       case fs_tab_get dev w of None \<Rightarrow> panic ''read through NULL'' w
       | Some m \<Rightarrow>
           if n < ROOTINODE \<or> n \<ge> (s_isize (fs_at w m) - 2) * 8 then Some (None, w)
           else case i_find dev n w of
             Some j \<Rightarrow> i_found (ino = 0) j w
           | None \<Rightarrow> case i_unused w of
               None \<Rightarrow> Some (None, w\<lparr>u_error := ENFILE\<rparr>)
             | Some j \<Rightarrow> do {
                 (r, s) \<leftarrow> bread dev (inode_blk n) False w;
                 case r of
                   None \<Rightarrow> Some (None, s)
                 | Some bp \<Rightarrow> do {
                     let s = upd_i j (\<lambda>c. c\<lparr>c_node :=
                               dinode_of (get_bytes (bf_data (bufpool s bp)) (inode_off n) 64)\<rparr>) s;
                     (_, s) \<leftarrow> brelse bp s;
                     let s = upd_i j (\<lambda>c. c\<lparr>c_dev := dev, c_num := n, c_magic := CMAGIC,
                               c_flags := (if m_flags (fs_tab s m) AND MS_RDONLY \<noteq> 0
                                           then CRDONLY else 0)\<rparr>) s;
                     i_found (ino = 0) j s
                   }
               }) = Some (r, t)"
    using o by (auto simp: i_open_def validchk_def Let_def elim!: bind_SomeD split: if_splits)
  have hw: "fs_hull w = fs_hull s" and n: "ino \<noteq> 0 \<Longrightarrow> n = ino"
    using w by (auto dest: i_alloc_hull split: if_splits)
  have uw: "itab_unique w" using u itab_hull(1) [OF hw] by simp
  have kw: "itab_keeps s v = itab_keeps w v" for v using itab_hull(3) [OF hw] by simp
  have rw: "c_refs (i_tab w i) = c_refs (i_tab s i)" for i using fs_hull_fields(3) [OF hw] .
  have unchanged: "i_opened s dev ino None v" if "fs_hull v = fs_hull w" for v
    using that itab_hull(1) [OF that] uw hw fs_hull_fields(1-3) [of v s]
    by (simp add: i_opened_def itab_keeps_def)
  have found: "i_opened s dev ino q v"
    if "n \<noteq> 0" "i_find dev n w = Some j" "i_found (ino = 0) j w = Some (q, v)" for j q v
    using itab_unique_cong [OF i_found_result(1) [OF that(3)]] i_found_result [OF that(3)]
      i_find_Some [OF that(2)] uw that(1) n rw kw itab_hull(2) [OF hw, of s]
    by (auto simp: i_opened_def itab_keeps_def split: option.splits)
  have load: "i_opened s dev ino q v"
    if z: "n \<noteq> 0" "i_find dev n w = None" "i_unused w = Some j" "fs_hull x = fs_hull w"
      and f: "i_found (ino = 0) j (upd_i j (\<lambda>c. c\<lparr>c_dev := dev, c_num := n, c_magic := CMAGIC,
        c_flags := fl\<rparr>) x) = Some (q, v)" for j x fl q v
  proof -
    let ?y = "upd_i j (\<lambda>c. c\<lparr>c_dev := dev, c_num := n, c_magic := CMAGIC, c_flags := fl\<rparr>) x"
    have j: "j < ITABSIZE" "c_refs (i_tab w j) = 0" using i_unused_Some [OF z(3)] by auto
    have o: "\<forall>i. i \<noteq> j \<longrightarrow> c_dev (i_tab ?y i) = c_dev (i_tab w i) \<and> c_num (i_tab ?y i) = c_num (i_tab w i)"
      "\<And>i. c_refs (i_tab ?y i) = c_refs (i_tab w i)" "c_dev (i_tab ?y j) = dev" "c_num (i_tab ?y j) = n"
      using fs_hull_fields(1-3) [OF z(4)] by simp_all
    note new = install_unique [OF uw z(2) j o(1,3,4)]
    show ?thesis
      using itab_unique_cong [OF i_found_result(1) [OF f]] i_found_result [OF f] new o j z(1) n rw kw
      by (auto simp: i_opened_def split: option.splits)
  qed
  from go show ?thesis
    by (auto simp: Let_def elim!: bind_SomeD split: if_splits option.splits dest!: hull_io
        intro: unchanged found) (rule unchanged, assumption | (rule load, assumption+))+
qed

lemma sample_file_unique: "itab_unique sample_file"
  by (auto simp: itab_unique_def sample_file_def sample_cinode_def)

text \<open>C23: On every path that returns, i\_open() keeps the in-core inode table free of duplicates and leaves
  the entries in use to their inodes; when it succeeds it has added exactly one reference, to an
  entry of the inode asked for, and when it fails no reference count has changed.\<close>

theorem i_open_one_entry:
  assumes "itab_unique s" and "i_open dev ino s = Some (r, t)"
  shows "i_opened s dev ino r t"
  by (rule i_open_entry [OF assms])

theorem i_open_one_entry_witness:
  "\<exists>t. i_open 0 5 sample_file = Some (Some 0, t) \<and> i_opened sample_file 0 5 (Some 0) t"
proof -
  have "i_find 0 5 sample_file = Some 0" by (simp add: i_find_def first_index_def upt_rec)
  moreover have "fs_tab_get 0 sample_file = Some 0" by (simp add: fs_tab_get_def first_index_def upt_rec)
  moreover have "\<not> (5 < ROOTINODE \<or> 5 \<ge> (4 - 2) * (8 :: u16))" by code_simp
  moreover have "(F_REG OR 0x1A4) AND F_MASK \<noteq> (0 :: u16)" by code_simp
  ultimately have "i_open 0 5 sample_file = Some (Some 0, i_ref 0 sample_file)"
    by (simp add: i_open_def validchk_def sample_plat_def i_found_def)
  then show ?thesis using i_open_one_entry [OF sample_file_unique] by blast
qed

end
