(* ===== verification/FileIO.thy ===== *)
theory FileIO
  imports InodeTab
begin

text \<open>
  Kernel/inode.c and Kernel/mm.c: reading and writing the data of an inode. The transfer is described
  by udata.u\_base, u\_count, u\_offset and u\_sysio; udata.u\_count holds the result afterwards.
  The build has neither CONFIG\_LARGE\_IO\_DIRECT nor 32 buffers, so all block data goes through the pool.
\<close>

subsection \<open>Between a buffer and memory\<close>

text \<open>
  For user memory blktou and blkfromu are uput() and uget(), whose results are ignored: a bad
  address leaves EFAULT in udata.u\_error, copies nothing, and the transfer goes on.
\<close>

definition uputblk :: "nat \<Rightarrow> nat \<Rightarrow> nat \<Rightarrow> kst \<Rightarrow> kst" where
  "uputblk bp to sz s =
     (let bs = get_bytes (bf_data (bufpool s bp)) to sz
      in if u_sysio s then s\<lparr>kmem := put_range (u_base s) bs (kmem s)\<rparr>
         else snd (uput bs (u_base s) (of_nat sz) s))"

definition ugetblk :: "nat \<Rightarrow> nat \<Rightarrow> nat \<Rightarrow> kst \<Rightarrow> kst" where
  "ugetblk bp from sz s =
     (if u_sysio s then blkfromk (get_range (kmem s) (u_base s) sz) bp from s
      else case uget (u_base s) (of_nat sz) s of
             (None, s) \<Rightarrow> s
           | (Some bs, s) \<Rightarrow> blkfromk bs bp from s)"

subsection \<open>Reading\<close>

abbreviation (input) MODE_R_SOCK :: u8 where "MODE_R_SOCK \<equiv> 0xC0"

text \<open>pipewait(): the answer is False for the return value 0.\<close>

partial_function (option) pipewait :: "(kst \<Rightarrow> kst option) \<Rightarrow> nat \<Rightarrow> u8 \<Rightarrow> kst \<Rightarrow> (bool \<times> kst) option" where
  "pipewait sw ino flag s =
     (if i_size (c_node (i_tab s ino)) = 0 then
        (if c_writers (i_tab s ino) = 0 then Some (False, s\<lparr>u_count := 0\<rparr>)
         else do {
           (r, s) \<leftarrow> psleep_flags sw (EvInode ino) flag s;
           if r then Some (False, s\<lparr>u_count := 0\<rparr>) else pipewait sw ino flag s
         })
      else Some (True, s\<lparr>u_count := ucast (min (ucast (u_count s)) (i_size (c_node (i_tab s ino))))\<rparr>))"

text \<open>BLKOFF and the block number of a file position.\<close>

definition blkoff :: "u32 \<Rightarrow> u16" where
  "blkoff off = ucast off AND BLKMASK"

definition blkpos :: "u32 \<Rightarrow> u16" where
  "blkpos off = ucast (drop_bit 9 off)"

definition amount :: "u16 \<Rightarrow> u32 \<Rightarrow> u16" where
  "amount n off = min n (of_nat BLKSIZE - blkoff off)"

lemma blkoff_bound: "unat (blkoff off) < 512"
proof -
  have "(ucast off :: u16) AND BLKMASK \<le> 511" by (rule word_and_le1)
  then show ?thesis by (simp add: blkoff_def word_le_nat_alt)
qed

lemma amount_bounds:
  assumes "n \<noteq> 0"
  shows "0 < unat (amount n off)" "unat (amount n off) \<le> unat n" "unat (blkoff off) + unat (amount n off) \<le> 512"
proof -
  have b: "unat (blkoff off) < 512" by (rule blkoff_bound)
  have d: "unat (512 - blkoff off) = 512 - unat (blkoff off)"
    using b by (subst unat_sub) (simp_all add: word_le_nat_alt)
  have n: "0 < unat n" using assms by (simp add: unat_gt_0)
  show "0 < unat (amount n off)" "unat (amount n off) \<le> unat n" "unat (blkoff off) + unat (amount n off) \<le> 512"
    using b d n by (auto simp: amount_def min_def word_le_nat_alt)
qed

text \<open>Moving the transfer on after \<open>n\<close> bytes; a pipe's offset wraps within its 18 direct blocks.\<close>

definition advance :: "bool \<Rightarrow> u16 \<Rightarrow> kst \<Rightarrow> kst" where
  "advance ispipe n s =
     (let s = s\<lparr>u_base := u_base s + n, u_offset := u_offset s + ucast n\<rparr>
      in if ispipe \<and> 9216 \<le>s u_offset s then s\<lparr>u_offset := 0\<rparr> else s)"

text \<open>The while loop of readi(): the answer is what is left of \<^verbatim>\<open>toread\<close>.\<close>

function read_loop :: "nat \<Rightarrow> u16 \<Rightarrow> bool \<Rightarrow> u16 \<Rightarrow> kst \<Rightarrow> (u16 \<times> kst) option" where
  "read_loop ino dev ispipe toread s =
     (if toread = 0 then Some (0, s)
      else do {
        let n = amount toread (u_offset s);
        (pblk, s) \<leftarrow> bmap ino (blkpos (u_offset s)) True s;
        (r, s) \<leftarrow> (if pblk = NULLBLK then do { (bp, s) \<leftarrow> zerobuf s; Some (Some bp, s) }
                    else bread dev pblk False s);
        case r of
          None \<Rightarrow> Some (toread, s)
        | Some bp \<Rightarrow> do {
            let s = uputblk bp (unat (blkoff (u_offset s))) (unat n) s;
            (_, s) \<leftarrow> brelse bp s;
            let s = advance ispipe n s;
            let s = (if ispipe then wakeup (EvInode ino)
                       (upd_node ino (\<lambda>d. d\<lparr>i_size := i_size d - ucast n\<rparr>) s) else s);
            read_loop ino dev ispipe (toread - n) s
          }
      })"
  by pat_completeness auto

lemma less_after:
  assumes "n \<noteq> 0" shows "unat (n - amount n off) < unat n"
  using amount_bounds [OF assms, of off] by (simp add: unat_sub word_le_nat_alt)

termination read_loop
  by (relation "measure (\<lambda>(_, _, _, n, _). unat n)") (auto simp: less_after)

declare read_loop.simps [simp del]

text \<open>The common end of a block transfer: \<open>left\<close> bytes were not moved.\<close>

definition finish_count :: "u16 \<Rightarrow> kst \<Rightarrow> kst" where
  "finish_count left s =
     (let s = s\<lparr>u_count := u_count s - left\<rparr>
      in if u_count s = 0 \<and> u_error s \<noteq> 0 then s\<lparr>u_count := 0xFFFF\<rparr> else s)"

definition readi :: "(kst \<Rightarrow> kst option) \<Rightarrow> nat \<Rightarrow> u8 \<Rightarrow> kst \<Rightarrow> (unit \<times> kst) option" where
  "readi sw ino flag s =
     (let dev = c_dev (i_tab s ino); m = getmode ino s in
      if m = MODE_R_DIR \<or> m = MODE_R_REG then do {
        let sz = i_size (c_node (i_tab s ino));
        let s = (if sz \<le> u_offset s then s\<lparr>u_count := 0\<rparr>
                 else s\<lparr>u_count := ucast (min (ucast (u_count s)) (sz - u_offset s))\<rparr>);
        (left, s) \<leftarrow> read_loop ino dev False (u_count s) s;
        Some ((), finish_count left s)
      }
      else if m = MODE_R_PIPE \<or> m = MODE_R_SOCK then do {
        (ok, s) \<leftarrow> pipewait sw ino flag s;
        if \<not> ok then Some ((), s)
        else do {
          (left, s) \<leftarrow> read_loop ino dev True (u_count s) s;
          Some ((), finish_count left s)
        }
      }
      else if m = MODE_R_BDEV then do {
        (left, s) \<leftarrow> read_loop ino (devnum ino s) False (u_count s) s;
        Some ((), finish_count left s)
      }
      else if m = MODE_R_CDEV then do {
        (r, s) \<leftarrow> cdread (devnum ino s) flag s;
        let s = s\<lparr>u_count := r\<rparr>;
        Some ((), if u_count s \<noteq> 0xFFFF then s\<lparr>u_offset := u_offset s + ucast (u_count s)\<rparr> else s)
      }
      else Some ((), s\<lparr>u_error := ENODEV\<rparr>))"

subsection \<open>Writing\<close>

text \<open>The while loop of writei(); \<open>flag\<close> is 2 for a synchronous write, else 1.\<close>

function write_loop :: "nat \<Rightarrow> u16 \<Rightarrow> bool \<Rightarrow> u8 \<Rightarrow> u16 \<Rightarrow> kst \<Rightarrow> (u16 \<times> kst) option" where
  "write_loop ino dev ispipe flag towrite s =
     (if towrite = 0 then Some (0, s)
      else
        let n = amount towrite (u_offset s)
        in if drop_bit 25 (u_offset s) \<noteq> 0
           then Some (towrite, ssig (u_ptab s) SIGXFSZ (s\<lparr>u_error := EFBIG\<rparr>))
           else do {
             (pblk, s) \<leftarrow> bmap ino (blkpos (u_offset s)) False s;
             if pblk = NULLBLK then Some (towrite, s)
             else do {
               (r, s) \<leftarrow> bread dev pblk (n = of_nat BLKSIZE) s;
               case r of
                 None \<Rightarrow> Some (towrite, s)
               | Some bp \<Rightarrow> do {
                   let s = ugetblk bp (unat (blkoff (u_offset s))) (unat n) s;
                   (e, s) \<leftarrow> bfree bp flag s;
                   if e \<noteq> 0 then Some (towrite, s)
                   else do {
                     let s = advance ispipe n s;
                     let s = (if ispipe then wakeup (EvInode ino)
                                (upd_node ino (\<lambda>d. d\<lparr>i_size := i_size d + ucast n\<rparr>) s) else s);
                     write_loop ino dev ispipe flag (towrite - n) s
                   }
                 }
             }
           })"
  by pat_completeness auto

termination write_loop
  by (relation "measure (\<lambda>(_, _, _, _, n, _). unat n)") (auto simp: less_after)

declare write_loop.simps [simp del]

text \<open>The wait for room in a pipe; the answer is False where writei() returns.\<close>

partial_function (option) pipe_room :: "(kst \<Rightarrow> kst option) \<Rightarrow> nat \<Rightarrow> u8 \<Rightarrow> kst \<Rightarrow> (bool \<times> kst) option" where
  "pipe_room sw ino flag s =
     (if ucast (u_count s) > 8192 - i_size (c_node (i_tab s ino)) then
        (if c_readers (i_tab s ino) = 0
         then Some (False, ssig (u_ptab s) SIGPIPE (s\<lparr>u_count := 0xFFFF, u_error := EPIPE\<rparr>))
         else do {
           (r, s) \<leftarrow> psleep_flags sw (EvInode ino) flag s;
           if r then Some (False, s) else pipe_room sw ino flag s
         })
      else Some (True, s))"

definition write_tail :: "nat \<Rightarrow> u16 \<Rightarrow> bool \<Rightarrow> u8 \<Rightarrow> kst \<Rightarrow> (unit \<times> kst) option" where
  "write_tail ino dev ispipe flag s = do {
     (left, s) \<leftarrow> write_loop ino dev ispipe (if flag AND ucast O_SYNC \<noteq> 0 then 2 else 1) (u_count s) s;
     let s = (if \<not> ispipe \<and> u_offset s > i_size (c_node (i_tab s ino))
              then upd_i ino (\<lambda>c. c\<lparr>c_flags := c_flags c OR CDIRTY\<rparr>)
                     (upd_node ino (\<lambda>d. d\<lparr>i_size := u_offset s\<rparr>) s) else s);
     Some ((), finish_count left s)
   }"

definition writei :: "(kst \<Rightarrow> kst option) \<Rightarrow> nat \<Rightarrow> u8 \<Rightarrow> kst \<Rightarrow> (unit \<times> kst) option" where
  "writei sw ino flag s =
     (let dev = c_dev (i_tab s ino); m = getmode ino s in
      if m = MODE_R_BDEV then write_tail ino (devnum ino s) False flag s
      else if m = MODE_R_DIR \<or> m = MODE_R_REG then write_tail ino dev False flag s
      else if m = MODE_R_PIPE then do {
        (ok, s) \<leftarrow> pipe_room sw ino flag s;
        if \<not> ok then Some ((), s) else write_tail ino dev True flag s
      }
      else if m = MODE_R_CDEV then do {
        (r, s) \<leftarrow> cdwrite (devnum ino s) flag s;
        let s = s\<lparr>u_count := r\<rparr>;
        Some ((), if u_count s \<noteq> 0xFFFF then s\<lparr>u_offset := u_offset s + ucast (u_count s)\<rparr> else s)
      }
      else Some ((), s\<lparr>u_error := ENODEV\<rparr>))"

end
