(* ===== verification/FileTable.thy ===== *)
theory FileTable
  imports FileIO
begin

text \<open>
  The open file table and the file descriptors of the process: oft\_alloc(), deflock(), oft\_deref(),
  uf\_alloc() and getinode() of Kernel/filesys.c, rwsetup() and doclose() of Kernel/inode.c,
  dup\_op() and updoff() of Kernel/syscall\_fs.c. A descriptor is an index into udata.u\_files, which holds
  indices into of\_tab; an int result of -1 is 0xFFFF, or None where the result is an index.
\<close>

subsection \<open>The open file table\<close>

definition oft_alloc :: "kst \<Rightarrow> nat option \<times> kst" where
  "oft_alloc s =
     (case first_index OFTSIZE (\<lambda>j. o_refs (of_tab s j) = 0) of
        Some j \<Rightarrow> (Some j, upd_o j (\<lambda>f. f\<lparr>o_refs := 1, o_inode := None\<rparr>) s)
      | None \<Rightarrow> (None, s\<lparr>u_error := ENFILE\<rparr>))"

definition deflock :: "nat \<Rightarrow> kst \<Rightarrow> (unit \<times> kst) option" where
  "deflock j s =
     (case o_inode (of_tab s j) of
        None \<Rightarrow> panic ''read through NULL'' s
      | Some i \<Rightarrow>
          let c = c_flags (i_tab s i) AND CFLOCK in
          Some ((),
            if o_access (of_tab s j) AND ucast O_FLOCK \<noteq> 0 then
              let c = (if c = CFLEX then 0 else c - 1);
                  s = upd_i i (\<lambda>n. n\<lparr>c_flags := (c_flags n AND NOT CFLOCK) OR c\<rparr>) s
              in wakeup (EvInodeFlags i) s
            else s))"

definition oft_deref :: "nat \<Rightarrow> kst \<Rightarrow> (unit \<times> kst) option" where
  "oft_deref j s =
     (let s = upd_o j (\<lambda>f. f\<lparr>o_refs := o_refs f - 1\<rparr>) s in
      if o_refs (of_tab s j) = 0 \<and> o_inode (of_tab s j) \<noteq> None then do {
        (_, s) \<leftarrow> deflock j s;
        (_, s) \<leftarrow> i_deref_opt (o_inode (of_tab s j)) s;
        Some ((), upd_o j (\<lambda>f. f\<lparr>o_inode := None\<rparr>) s)
      } else Some ((), s))"

subsection \<open>File descriptors\<close>

text \<open>
  uf\_alloc\_n(): the loop counter is a byte, so it starts at the base modulo 256. The result of a
  successful call is below UFTSIZE.
\<close>

definition uf_alloc_n :: "u16 \<Rightarrow> kst \<Rightarrow> nat option \<times> kst" where
  "uf_alloc_n base s =
     (case List.find (\<lambda>j. u_files s j = NO_FILE) [unat (ucast base :: u8)..<UFTSIZE] of
        Some j \<Rightarrow> (Some j, s)
      | None \<Rightarrow> (None, s\<lparr>u_error := EMFILE\<rparr>))"

definition uf_alloc :: "kst \<Rightarrow> nat option \<times> kst" where
  "uf_alloc s = uf_alloc_n 0 s"

definition getinode :: "u8 \<Rightarrow> kst \<Rightarrow> (nat option \<times> kst) option" where
  "getinode uindex s =
     (if unat uindex \<ge> UFTSIZE \<or> u_files s (unat uindex) = NO_FILE
      then Some (None, s\<lparr>u_error := EBADF\<rparr>)
      else
        let oftindex = unat (u_files s (unat uindex)) in
        if oftindex \<ge> OFTSIZE then panic ''getinode: bad desc table'' s
        else
          case o_inode (of_tab s oftindex) of
            None \<Rightarrow> panic ''getinode: bad OFT'' s
          | Some i \<Rightarrow>
              if i \<ge> ITABSIZE then panic ''getinode: bad OFT'' s
              else do { (_, s) \<leftarrow> magic i s; Some (Some i, s) })"

text \<open>
  udata.u\_files[fd] and of\_tab[udata.u\_files[fd]] for an int \<open>fd\<close>. Outside the arrays the C code
  accesses whatever memory is there, which the model does not follow (None).
\<close>

definition ufile :: "u16 \<Rightarrow> kst \<Rightarrow> (u8 \<times> kst) option" where
  "ufile fd s = (if unat fd < UFTSIZE then Some (u_files s (unat fd), s) else panic ''outside u_files'' s)"

definition oft_of :: "u16 \<Rightarrow> kst \<Rightarrow> (nat \<times> kst) option" where
  "oft_of fd s = do {
     (f, s) \<leftarrow> ufile fd s;
     if unat f < OFTSIZE then Some (unat f, s) else panic ''outside of_tab'' s
   }"

text \<open>The common end of the dup calls: \<^verbatim>\<open>u_files[newd] = u_files[fd]; ++of_tab[u_files[fd]].o_refs\<close>.\<close>

definition share :: "u16 \<Rightarrow> nat \<Rightarrow> kst \<Rightarrow> (unit \<times> kst) option" where
  "share fd newd s = do {
     (f, s) \<leftarrow> ufile fd s;
     let s = s\<lparr>u_files := (u_files s)(newd := f)\<rparr>;
     (j, s) \<leftarrow> oft_of fd s;
     Some ((), upd_o j (\<lambda>f. f\<lparr>o_refs := o_refs f + 1\<rparr>) s)
   }"

definition dup_op :: "u16 \<Rightarrow> u16 \<Rightarrow> kst \<Rightarrow> (u16 \<times> kst) option" where
  "dup_op fd base s =
     (case uf_alloc_n base s of
        (None, s) \<Rightarrow> Some (0xFFFF, s)
      | (Some newd, s) \<Rightarrow> do { (_, s) \<leftarrow> share fd newd s; Some (of_nat newd, s) })"

definition updoff :: "kst \<Rightarrow> (unit \<times> kst) option" where
  "updoff s = do {
     (j, s) \<leftarrow> oft_of (u_argn s) s;
     Some ((), upd_o j (\<lambda>f. f\<lparr>o_ptr := u_offset s\<rparr>) s)
   }"

subsection \<open>Setting up a transfer\<close>

text \<open>rwsetup(): the inode and the access byte of the open file, or None.\<close>

definition rwsetup :: "bool \<Rightarrow> kst \<Rightarrow> ((nat \<times> u8) option \<times> kst) option" where
  "rwsetup is_read s = do {
     let s = s\<lparr>u_sysio := False, u_base := u_argn1 s, u_count := u_argn2 s\<rparr>;
     (r, s) \<leftarrow> getinode (ucast (u_argn s)) s;
     case r of
       None \<Rightarrow> Some (None, s)
     | Some ino \<Rightarrow> do {
         (j, s) \<leftarrow> oft_of (u_argn s) s;
         let flag = o_access (of_tab s j);
         if flag AND 3 = (if is_read then ucast O_WRONLY else ucast O_RDONLY)
         then Some (None, s\<lparr>u_error := EBADF\<rparr>)
         else do {
           let s = setftime ino (if is_read then A_TIME else A_TIME OR M_TIME OR C_TIME) s;
           let s = (if getmode ino s = MODE_R_REG \<and> \<not> is_read \<and> o_access (of_tab s j) AND ucast O_APPEND \<noteq> 0
                    then upd_o j (\<lambda>f. f\<lparr>o_ptr := i_size (c_node (i_tab s ino))\<rparr>) s else s);
           Some (Some (ino, flag), s\<lparr>u_offset := o_ptr (of_tab s j)\<rparr>)
         }
       }
   }"

subsection \<open>Closing\<close>

text \<open>The last close of an open file: the device, and the counts of readers and writers. The result is
  the device whose cache is flushed afterwards.\<close>

definition last_close :: "nat \<Rightarrow> u8 \<Rightarrow> kst \<Rightarrow> (u16 \<times> kst) option" where
  "last_close ino m s = do {
     (_, s) \<leftarrow> (if isdevice ino s then d_close (devnum ino s) s else Some (0, s));
     let flush_dev = (if getmode ino s = MODE_R_REG \<and> m \<noteq> 0 then c_dev (i_tab s ino) else NO_DEVICE);
     let s = (if m \<noteq> ucast O_RDONLY then upd_i ino (\<lambda>c. c\<lparr>c_writers := c_writers c - 1\<rparr>) s else s);
     let s = (if m \<noteq> ucast O_WRONLY then upd_i ino (\<lambda>c. c\<lparr>c_readers := c_readers c - 1\<rparr>) s else s);
     Some (flush_dev, s)
   }"

definition doclose :: "u8 \<Rightarrow> kst \<Rightarrow> (u16 \<times> kst) option" where
  "doclose uindex s = do {
     (r, s) \<leftarrow> getinode uindex s;
     case r of
       None \<Rightarrow> Some (0xFFFF, s)
     | Some ino \<Rightarrow> do {
         let j = unat (u_files s (unat uindex));
         let m = o_access (of_tab s j) AND 3;
         (flush_dev, s) \<leftarrow> (if o_refs (of_tab s j) = 1 then last_close ino m s else Some (NO_DEVICE, s));
         let s = s\<lparr>u_files := (u_files s)(unat uindex := NO_FILE),
                   u_cloexec := u_cloexec s AND NOT (push_bit (unat uindex) 1)\<rparr>;
         (_, s) \<leftarrow> oft_deref j s;
         let s = (if flush_dev \<noteq> NO_DEVICE then snd (d_flush flush_dev s) else s);
         Some (0, s)
       }
   }"

end
