(* ===== verification/Directory.thy ===== *)
theory Directory
  imports FileTable
begin

text \<open>
  Names and directories, from Kernel/filesys.c: comparing and extracting path components, searching
  a directory, walking a path, entering and removing links, creating files, mounting. A kernel C
  string is the list of its bytes without the terminating zero, so \<^verbatim>\<open>*p\<close> of an exhausted list is 0;
  the slash is 47, the dot 46.
\<close>

subsection \<open>Names\<close>

abbreviation (input) slash :: u8 where "slash \<equiv> 47"
abbreviation (input) dot :: u8 where "dot \<equiv> 46"

definition chr :: "u8 list \<Rightarrow> u8" where
  "chr p = (case p of [] \<Rightarrow> 0 | c # _ \<Rightarrow> c)"

fun namecomp_from :: "nat \<Rightarrow> u8 list \<Rightarrow> u8 list \<Rightarrow> bool" where
  "namecomp_from n n1 n2 =
     (if chr n1 \<noteq> 0 \<and> chr n1 \<noteq> slash then
        (if chr n1 \<noteq> chr n2 then False
         else
           let n1' = tl n1; n2' = tl n2; n' = n - 1
           in if n' = 0 then True else namecomp_from n' n1' n2')
      else chr n2 = 0 \<or> chr n2 = slash)"

definition namecomp :: "u8 list \<Rightarrow> u8 list \<Rightarrow> bool" where
  "namecomp n1 n2 = namecomp_from FILENAME_LEN n1 n2"

text \<open>A directory entry: the inode number and the 30 bytes of the name.\<close>

definition direct_of :: "u8 list \<Rightarrow> direct" where
  "direct_of bs = \<lparr>d_ino = rd16 bs 0, d_name = take FILENAME_LEN (drop 2 bs)\<rparr>"

definition direct_bytes :: "direct \<Rightarrow> u8 list" where
  "direct_bytes d = le16 (d_ino d) @ d_name d"

text \<open>
  filename(): the last component of a user's path name. One trailing slash is dropped. For a path that
  is empty, or is a single slash, the code reads and may write the byte before the buffer, which
  the model does not follow (None). At most FILENAME\_LEN bytes are copied.
\<close>

definition filename :: "u16 \<Rightarrow> kst \<Rightarrow> (u8 list \<times> kst) option" where
  "filename upath s = do {
     (buf, s) \<leftarrow> tmpbuf s;
     let (r, s) = ugets upath 512 s;
     case r of
       None \<Rightarrow> do { (_, s) \<leftarrow> brelse buf s; Some ([], s) }
     | Some bs \<Rightarrow>
         let path = butlast bs;
             path = (if path \<noteq> [] \<and> last path = slash then butlast path else path)
         in if path = [] then panic ''read before the buffer'' s
            else do {
              let name = take FILENAME_LEN (rev (takeWhile (\<lambda>c. c \<noteq> slash) (rev path)));
              (_, s) \<leftarrow> brelse buf s;
              Some (name, s)
            }
   }"

subsection \<open>Searching a directory\<close>

definition dir_entry :: "block \<Rightarrow> nat \<Rightarrow> direct" where
  "dir_entry D j = direct_of (get_bytes D (j * DIR_LEN) DIR_LEN)"

fun srch_blocks :: "nat \<Rightarrow> u8 list \<Rightarrow> nat list \<Rightarrow> kst \<Rightarrow> (nat option \<times> kst) option" where
  "srch_blocks wd compname [] s = Some (None, s)"
| "srch_blocks wd compname (curblock # ks) s = do {
     (pblk, s) \<leftarrow> bmap wd (of_nat curblock) True s;
     (r, s) \<leftarrow> bread (c_dev (i_tab s wd)) pblk False s;
     case r of
       None \<Rightarrow> Some (None, s)
     | Some buf \<Rightarrow>
         (case first_index (512 div DIR_LEN) (\<lambda>j. namecomp compname (d_name (dir_entry (bf_data (bufpool s buf)) j))) of
            Some j \<Rightarrow> do {
              let inum = d_ino (dir_entry (bf_data (bufpool s buf)) j);
              (_, s) \<leftarrow> brelse buf s;
              i_open (c_dev (i_tab s wd)) inum s
            }
          | None \<Rightarrow> do {
              (_, s) \<leftarrow> brelse buf s;
              srch_blocks wd compname ks s
            })
   }"

text \<open>srch\_dir(): the number of blocks is an int, the block counter an unsigned 16-bit number.\<close>

definition srch_dir :: "nat \<Rightarrow> u8 list \<Rightarrow> kst \<Rightarrow> (nat option \<times> kst) option" where
  "srch_dir wd compname s =
     (let nblocks = ucast (drop_bit 9 (i_size (c_node (i_tab s wd)) + ucast BLKMASK)) :: u16
      in srch_blocks wd compname [0..<unat nblocks] s)"

text \<open>srch\_mt(): the mount table entry whose mount point the inode is.\<close>

definition srch_mt :: "nat \<Rightarrow> kst \<Rightarrow> (nat option \<times> kst) option" where
  "srch_mt ino s =
     (case first_index NMOUNTS (\<lambda>j. m_dev (fs_tab s j) \<noteq> NO_DEVICE \<and> s_mntpt (fs_at s j) = Some ino) of
        Some j \<Rightarrow> do {
          (_, s) \<leftarrow> i_deref ino s;
          i_open (m_dev (fs_tab s j)) ROOTINODE s
        }
      | None \<Rightarrow> Some (Some ino, s))"

subsection \<open>Walking a path\<close>

text \<open>
  The result of kn\_open() and n\_open(): the inode, and what the caller's \<open>parent\<close> pointer receives
  when it passes one.
\<close>

type_synonym walk_result = "(nat option \<times> nat option) \<times> kst"

text \<open>The labels after the loop: the normal end, and \<^verbatim>\<open>nodir\<close>.\<close>

definition walk_done :: "bool \<Rightarrow> nat \<Rightarrow> nat option \<Rightarrow> kst \<Rightarrow> walk_result option" where
  "walk_done want wd ninode s = do {
     (par, s) \<leftarrow> (if want then Some (Some wd, s) else do { (_, s) \<leftarrow> i_deref wd s; Some (None, s) });
     let s = (if \<not> (want \<or> ninode \<noteq> None) then s\<lparr>u_error := ENOENT\<rparr> else s);
     Some ((ninode, par), s)
   }"

definition nodir :: "nat \<Rightarrow> u16 \<Rightarrow> kst \<Rightarrow> walk_result option" where
  "nodir wd e s = do { (_, s) \<leftarrow> i_deref wd (s\<lparr>u_error := e\<rparr>); Some ((None, None), s) }"

text \<open>The test for a \<^verbatim>\<open>..\<close> component at the root of the process or of a mounted file system.\<close>

definition dotdot_up :: "nat \<Rightarrow> u8 list \<Rightarrow> kst \<Rightarrow> bool" where
  "dotdot_up wd name s \<longleftrightarrow>
     (u_root s = Some wd \<or> c_num (i_tab s wd) = ROOTINODE \<and> c_dev (i_tab s wd) \<noteq> root_dev s)
     \<and> chr name = dot \<and> chr (tl name) = dot \<and> (chr (tl (tl name)) = slash \<or> chr (tl (tl name)) = 0)"

text \<open>Going up through a mount point: the reference moves to the directory that is covered.\<close>

definition cross_mount :: "nat \<Rightarrow> kst \<Rightarrow> (nat \<times> kst) option" where
  "cross_mount wd s =
     (case fs_tab_get (c_dev (i_tab s wd)) s of
        None \<Rightarrow> panic ''read through NULL'' s
      | Some m \<Rightarrow>
          (case s_mntpt (fs_at s m) of
             None \<Rightarrow> panic ''store through NULL'' s
           | Some temp \<Rightarrow> do {
               let s = i_ref temp s;
               (_, s) \<leftarrow> i_deref wd s;
               Some (temp, s)
             }))"

text \<open>The start of a turn: check the inode, notice a rename into itself, cross a mount point.\<close>

definition walk_enter :: "nat option \<Rightarrow> kst \<Rightarrow> (nat option \<times> kst) option" where
  "walk_enter ninode s = do {
     (_, s) \<leftarrow> (case ninode of Some i \<Rightarrow> magic i s | None \<Rightarrow> Some ((), s));
     let s = (if u_rename s = ninode then s\<lparr>u_rename := None\<rparr> else s);
     (case ninode of Some i \<Rightarrow> srch_mt i s | None \<Rightarrow> Some (None, s))
   }"

lemma dropWhile_length: "length (dropWhile P xs) \<le> length xs"
  by (induction xs) auto

function kn_walk :: "bool \<Rightarrow> nat \<Rightarrow> nat option \<Rightarrow> u8 list \<Rightarrow> kst \<Rightarrow> walk_result option" where
  "kn_walk want wd ninode name s = do {
     (ninode, s) \<leftarrow> walk_enter ninode s;
     let name = dropWhile (\<lambda>c. c = slash) name;
     if name = [] then walk_done want wd ninode s
     else
       case ninode of
         None \<Rightarrow> nodir wd ENOENT s
       | Some ino \<Rightarrow> do {
           (_, s) \<leftarrow> i_deref wd s;
           let wd = ino;
           if getmode wd s \<noteq> MODE_R_DIR then nodir wd ENOTDIR s
           else if getperm wd s AND OTH_EX = 0 then nodir wd EACCES s
           else if dotdot_up wd name s \<and> u_root s = Some wd
           then kn_walk want wd (Some wd) (drop 2 name) s
           else do {
             (wd, s) \<leftarrow> (if dotdot_up wd name s then cross_mount wd s else Some (wd, s));
             (ninode, s) \<leftarrow> srch_dir wd name s;
             kn_walk want wd ninode (dropWhile (\<lambda>c. c \<noteq> slash) name) s
           }
         }
   }"
  by pat_completeness auto

lemma skip_component:
  assumes "n = dropWhile (\<lambda>c. c = slash) name" "n \<noteq> []"
  shows "length (dropWhile (\<lambda>c. c \<noteq> slash) n) < length name" "length n - 2 < length name"
proof -
  obtain c cs where n: "n = c # cs" using assms(2) by (cases n) auto
  then have "c \<noteq> slash" using assms(1) hd_dropWhile [of "\<lambda>c. c = slash" name] by auto
  moreover have "length n \<le> length name" using assms(1) dropWhile_length by metis
  ultimately show "length (dropWhile (\<lambda>c. c \<noteq> slash) n) < length name" "length n - 2 < length name"
    using n dropWhile_length [of "\<lambda>c. c \<noteq> slash" cs] by auto
qed

termination kn_walk
  by (relation "measure (\<lambda>(_, _, _, name, _). length name)") (auto simp: skip_component)

declare kn_walk.simps [simp del]

definition kn_open :: "u8 list \<Rightarrow> bool \<Rightarrow> kst \<Rightarrow> walk_result option" where
  "kn_open name want s =
     (case (if chr name = slash then u_root s else u_cwd s) of
        None \<Rightarrow> panic ''store through NULL'' s
      | Some wd \<Rightarrow> kn_walk want wd (Some wd) name (i_ref wd (i_ref wd s)))"

definition n_open :: "u16 \<Rightarrow> bool \<Rightarrow> kst \<Rightarrow> walk_result option" where
  "n_open uname want s = do {
     (tb, s) \<leftarrow> tmpbuf s;
     let (r, s) = ugets uname 512 s;
     case r of
       None \<Rightarrow> do {
         (_, s) \<leftarrow> brelse tb (s\<lparr>u_error := EFAULT\<rparr>);
         Some ((None, None), s)
       }
     | Some bs \<Rightarrow> do {
         (r, s) \<leftarrow> kn_open (butlast bs) want s;
         (_, s) \<leftarrow> brelse tb s;
         Some (r, s)
       }
   }"

subsection \<open>Links\<close>

text \<open>The local \<^verbatim>\<open>struct direct curentry\<close> of ch\_link() lives at \<open>curentry_addr\<close> in the kernel's memory.\<close>

definition curentry :: "kst \<Rightarrow> direct" where
  "curentry s = direct_of (get_range (kmem s) (curentry_addr (plat s)) DIR_LEN)"

definition set_curentry :: "direct \<Rightarrow> kst \<Rightarrow> kst" where
  "set_curentry d s = s\<lparr>kmem := put_range (curentry_addr (plat s)) (direct_bytes d) (kmem s)\<rparr>"

definition entry_io :: "kst \<Rightarrow> kst" where
  "entry_io s = s\<lparr>u_count := of_nat DIR_LEN, u_base := curentry_addr (plat s), u_sysio := True\<rparr>"

text \<open>The search for the slot; it ends when the name is found or nothing could be read.\<close>

partial_function (option) ch_search :: "(kst \<Rightarrow> kst option) \<Rightarrow> nat \<Rightarrow> u8 list \<Rightarrow> kst \<Rightarrow> (unit \<times> kst) option" where
  "ch_search sw wd oldname s = do {
     (_, s) \<leftarrow> readi sw wd 0 (entry_io s);
     if u_count s = 0 \<or> namecomp oldname (d_name (curentry s)) then Some ((), s)
     else ch_search sw wd oldname s
   }"

definition pad_name :: "u8 list \<Rightarrow> u8 list" where
  "pad_name name = take FILENAME_LEN (name @ replicate FILENAME_LEN 0)"

definition ch_link :: "(kst \<Rightarrow> kst option) \<Rightarrow> nat \<Rightarrow> u8 list \<Rightarrow> u8 list \<Rightarrow> nat option \<Rightarrow> kst \<Rightarrow> (bool \<times> kst) option" where
  "ch_link sw wd oldname newname nindex s =
     (if c_flags (i_tab s wd) AND CRDONLY \<noteq> 0 then Some (False, s\<lparr>u_error := EROFS\<rparr>)
      else if getperm wd s AND OTH_WR = 0 then Some (False, s\<lparr>u_error := EACCES\<rparr>)
      else if chr newname = 0 \<and> nindex \<noteq> None then Some (False, s\<lparr>u_error := EEXIST\<rparr>)
      else do {
        (_, s) \<leftarrow> ch_search sw wd oldname (s\<lparr>u_offset := 0\<rparr>);
        if u_count s = 0 \<and> chr oldname \<noteq> 0 then Some (False, s\<lparr>u_error := ENOENT\<rparr>)
        else do {
          let s = set_curentry \<lparr>d_ino = (case nindex of Some n \<Rightarrow> c_num (i_tab s n) | None \<Rightarrow> 0),
                                d_name = pad_name newname\<rparr> s;
          let s = (if u_count s \<noteq> 0 then s\<lparr>u_offset := u_offset s - of_nat DIR_LEN\<rparr> else s);
          (_, s) \<leftarrow> writei sw wd 0 (entry_io s);
          if u_error s \<noteq> 0 then Some (False, s)
          else do {
            let s = setftime wd (A_TIME OR M_TIME OR C_TIME) s;
            let rest = blkoff (i_size (c_node (i_tab s wd)));
            let s = (if rest \<noteq> 0
                     then upd_node wd (\<lambda>d. d\<lparr>i_size := i_size d + ucast (of_nat BLKSIZE - rest)\<rparr>) s else s);
            Some (True, s)
          }
        }
      })"

text \<open>The label \<^verbatim>\<open>nogood\<close> of newfile().\<close>

definition newfile :: "(kst \<Rightarrow> kst option) \<Rightarrow> nat option \<Rightarrow> u8 list \<Rightarrow> kst \<Rightarrow> (nat option \<times> kst) option" where
  "newfile sw parent name s =
     (let nogood = (\<lambda>s. do { (_, s) \<leftarrow> i_deref_opt parent s; Some (None, s) }) in
      case parent of
        None \<Rightarrow> nogood (s\<lparr>u_error := ENXIO\<rparr>)
      | Some pino \<Rightarrow>
          if c_flags (i_tab s pino) AND CRDONLY \<noteq> 0 then nogood (s\<lparr>u_error := EROFS\<rparr>)
          else if getperm pino s AND OTH_WR = 0 then nogood (s\<lparr>u_error := EPERM\<rparr>)
          else do {
            (r, s) \<leftarrow> i_open (c_dev (i_tab s pino)) 0 s;
            case r of
              None \<Rightarrow> nogood (s\<lparr>u_error := ENFILE\<rparr>)
            | Some nindex \<Rightarrow> do {
                let s = upd_node nindex (\<lambda>d. d\<lparr>i_uid := u_euid s, i_gid := u_egid s, i_mode := F_REG,
                          i_nlink := 1, i_size := 0, i_addr := replicate 20 0\<rparr>) s;
                (_, s) \<leftarrow> wr_inode nindex s;
                (ok, s) \<leftarrow> ch_link sw pino [] name (Some nindex) s;
                if \<not> ok then do { (_, s) \<leftarrow> i_deref nindex s; nogood s }
                else do { (_, s) \<leftarrow> i_deref pino s; Some (Some nindex, s) }
              }
          })"

text \<open>unlinki(): 0 or -1.\<close>

definition unlinki :: "(kst \<Rightarrow> kst option) \<Rightarrow> nat \<Rightarrow> nat \<Rightarrow> u8 list \<Rightarrow> kst \<Rightarrow> (u16 \<times> kst) option" where
  "unlinki sw ino pino fname s =
     (if getmode ino s = MODE_R_DIR then Some (0xFFFF, s\<lparr>u_error := EISDIR\<rparr>)
      else do {
        (ok, s) \<leftarrow> ch_link sw pino fname [] None s;
        if \<not> ok then Some (0xFFFF, s)
        else do {
          let nlink = i_nlink (c_node (i_tab s ino));
          let s = upd_node ino (\<lambda>d. d\<lparr>i_nlink := i_nlink d - 1\<rparr>) s;
          let s = (if nlink = 0 then upd_node ino (\<lambda>d. d\<lparr>i_nlink := i_nlink d + 2\<rparr>) s else s);
          Some (0, setftime ino C_TIME s)
        }
      })"

subsection \<open>Mounting\<close>

text \<open>fmount(): the answer is True where the mount fails.\<close>

definition fmount :: "u16 \<Rightarrow> nat option \<Rightarrow> u16 \<Rightarrow> kst \<Rightarrow> (bool \<times> kst) option" where
  "fmount dev ino flags s =
     (let (r, s) = d_open dev 0 s in
      if r \<noteq> 0 then Some (True, s)
      else
        case newfstab s of
          None \<Rightarrow> Some (True, s\<lparr>u_error := EMFILE\<rparr>)
        | Some m \<Rightarrow> do {
            (r, s) \<leftarrow> bread dev 1 False s;
            case r of
              None \<Rightarrow> Some (True, s)
            | Some buf \<Rightarrow> do {
                let s = upd_fs m (\<lambda>_. filesys_of (get_bytes (bf_data (bufpool s buf)) 0 222)) s;
                (_, s) \<leftarrow> brelse buf s;
                if s_mounted (fs_at s m) \<noteq> SMOUNTED \<or> s_isize (fs_at s m) \<ge> s_fsize (fs_at s m)
                then Some (True, s\<lparr>u_error := EINVAL\<rparr>)
                else do {
                  let flags = (if s_fmod (fs_at s m) = FMOD_DIRTY then flags OR MS_RDONLY else flags);
                  let s = upd_fs m (\<lambda>f. f\<lparr>s_fmod := (if flags AND MS_RDONLY = 0 then FMOD_DIRTY else FMOD_CLEAN)\<rparr>) s;
                  let s = upd_fs m (\<lambda>f. f\<lparr>s_mntpt := ino\<rparr>) s;
                  let s = i_ref_opt ino s;
                  let s = s\<lparr>fs_tab := (fs_tab s)(m := (fs_tab s m)\<lparr>m_flags := flags, m_dev := dev\<rparr>)\<rparr>;
                  (_, s) \<leftarrow> sync s;
                  Some (False, s)
                }
              }
          })"

end
