(* ===== verification/SysFile.thy ===== *)
theory SysFile
  imports Directory
begin

text \<open>
  The system calls on files of Kernel/syscall\_fs.c and Kernel/syscall\_fs2.c. A call takes its arguments from
  u\_argn, u\_argn1 and u\_argn2 of the state; an arg\_t or int result of -1 is 0xFFFF, with the
  error in u\_error. A cast of an argument to a signed type matters where it is compared.
  getinode() takes its descriptor as a byte, while the code indexes u\_files with the argument itself.
\<close>

text \<open>A call that answers -1 with the error set.\<close>

definition fail :: "u16 \<Rightarrow> kst \<Rightarrow> (u16 \<times> kst) option" where
  "fail e s = Some (0xFFFF, s\<lparr>u_error := e\<rparr>)"

text \<open>The end of many calls: drop an inode and return \<open>r\<close>.\<close>

definition deref_ret :: "nat \<Rightarrow> u16 \<Rightarrow> kst \<Rightarrow> (u16 \<times> kst) option" where
  "deref_ret ino r s = do { (_, s) \<leftarrow> i_deref ino s; Some (r, s) }"

subsection \<open>syscall\_fs.c\<close>

definition u_lseek :: "kst \<Rightarrow> (u16 \<times> kst) option" where
  "u_lseek s =
     (let (r, s) = uget (u_argn1 s) 4 s in
      case r of
        None \<Rightarrow> Some (0xFFFF, s)
      | Some bs \<Rightarrow> do {
          let n = rd32 bs 0;
          (r, s) \<leftarrow> getinode (ucast (u_argn s)) s;
          case r of
            None \<Rightarrow> Some (0xFFFF, s)
          | Some ino \<Rightarrow>
              if getmode ino s = MODE_R_PIPE then fail ESPIPE s
              else do {
                (j, s) \<leftarrow> oft_of (u_argn s) s;
                let base = (if u_argn2 s = 0 then 0 else if u_argn2 s = 1 then o_ptr (of_tab s j)
                            else i_size (c_node (i_tab s ino)));
                let p = base + n;
                if u_argn2 s > 2 \<or> p <s 0 then fail EINVAL s
                else
                  let s = upd_o j (\<lambda>f. f\<lparr>o_ptr := p\<rparr>) s;
                      (_, s) = uput (le32 p) (u_argn1 s) 4 s
                  in Some (0, s)
              }
        })"

definition u_sync :: "kst \<Rightarrow> (u16 \<times> kst) option" where
  "u_sync s = do { (_, s) \<leftarrow> sync s; Some (0, s) }"

text \<open>stcpy(): the runs of the members of struct \_uzistat at the offsets 0, 4, 12, 14 and 30.\<close>

definition stcpy :: "nat \<Rightarrow> u16 \<Rightarrow> kst \<Rightarrow> u16 \<times> kst" where
  "stcpy ino buf s =
     (let c = i_tab s ino; n = c_node c;
          (e1, s) = uput (le16 (c_dev c) @ le16 (c_num c)) buf 4 s;
          (e2, s) = uput (le16 (i_mode n) @ le16 (i_nlink n) @ le16 (i_uid n) @ le16 (i_gid n)) (buf + 4) 8 s;
          (e3, s) = uput (le16 (i_addr n ! 0)) (buf + 12) 2 s;
          (e4, s) = uput (le32 (i_size n) @ le32 (i_atime n) @ le32 (i_mtime n) @ le32 (i_ctime n)) (buf + 14) 16 s;
          (e5, s) = uput (le32 0) (buf + 30) 4 s
      in (if e1 \<or> e2 \<or> e3 \<or> e4 \<or> e5 then 0xFFFF else 0, s))"

definition u_stat :: "kst \<Rightarrow> (u16 \<times> kst) option" where
  "u_stat s = do {
     ((r, _), s) \<leftarrow> n_open (u_argn s) False s;
     case r of
       None \<Rightarrow> Some (0xFFFF, s)
     | Some ino \<Rightarrow> let (err, s) = stcpy ino (u_argn1 s) s in deref_ret ino err s
   }"

definition u_fstat :: "kst \<Rightarrow> (u16 \<times> kst) option" where
  "u_fstat s = do {
     (r, s) \<leftarrow> getinode (ucast (u_argn s)) s;
     case r of None \<Rightarrow> Some (0xFFFF, s) | Some ino \<Rightarrow> Some (stcpy ino (u_argn1 s) s)
   }"

definition u_dup :: "kst \<Rightarrow> (u16 \<times> kst) option" where
  "u_dup s = do {
     (r, s) \<leftarrow> getinode (ucast (u_argn s)) s;
     if r = None then Some (0xFFFF, s)
     else case uf_alloc s of
       (None, s) \<Rightarrow> Some (0xFFFF, s)
     | (Some newd, s) \<Rightarrow> do { (_, s) \<leftarrow> share (u_argn s) newd s; Some (of_nat newd, s) }
   }"

definition u_dup2 :: "kst \<Rightarrow> (u16 \<times> kst) option" where
  "u_dup2 s = do {
     (r, s) \<leftarrow> getinode (ucast (u_argn s)) s;
     if r = None then Some (0xFFFF, s)
     else if u_argn1 s <s 0 \<or> of_nat UFTSIZE \<le>s u_argn1 s then fail EBADF s
     else do {
       let newd = unat (u_argn1 s);
       (_, s) \<leftarrow> (if u_files s newd \<noteq> NO_FILE then doclose (ucast (u_argn1 s)) s else Some (0, s));
       (_, s) \<leftarrow> share (u_argn s) newd s;
       Some (0, s)
     }
   }"

definition u_umask :: "kst \<Rightarrow> (u16 \<times> kst) option" where
  "u_umask s = Some (u_mask s, s\<lparr>u_mask := u_argn s AND 0x1FF\<rparr>)"

definition u_ioctl :: "kst \<Rightarrow> (u16 \<times> kst) option" where
  "u_ioctl s =
     (let rclass = (ucast (drop_bit 8 (u_argn1 s)) :: u8) AND 0xC0 in do {
      (r, s) \<leftarrow> getinode (ucast (u_argn s)) s;
      case r of
        None \<Rightarrow> Some (0xFFFF, s)
      | Some ino \<Rightarrow> do {
          (j, s) \<leftarrow> oft_of (u_argn s) s;
          if \<not> isdevice ino s \<or> rclass = 0x80 then fail ENOTTY s
          else
            let (e, s) = (if rclass = 0x40 then esuper s else (False, s)) in
            if e then Some (0xFFFF, s)
            else if rclass = 0xC0 \<and> o_access (of_tab s j) AND 3 = ucast O_RDONLY then fail EPERM s
            else Some (d_ioctl (devnum ino s) (u_argn1 s) (u_argn2 s) s)
        }
      })"

definition u_close :: "kst \<Rightarrow> (u16 \<times> kst) option" where
  "u_close s = doclose (ucast (u_argn s)) s"

text \<open>The labels \<^verbatim>\<open>nogood2\<close> and \<^verbatim>\<open>nogood3\<close> of \_pipe().\<close>

definition pipe_nogood2 :: "nat \<Rightarrow> nat \<Rightarrow> kst \<Rightarrow> (u16 \<times> kst) option" where
  "pipe_nogood2 u1 oft1 s = do {
     (_, s) \<leftarrow> oft_deref oft1 s;
     Some (0xFFFF, s\<lparr>u_files := (u_files s)(u1 := NO_FILE)\<rparr>)
   }"

definition pipe_make :: "nat \<Rightarrow> nat \<Rightarrow> nat \<Rightarrow> nat \<Rightarrow> nat \<Rightarrow> kst \<Rightarrow> u16 \<times> kst" where
  "pipe_make u1 u2 oft1 oft2 ino s =
     (let s = s\<lparr>u_files := (u_files s)(u2 := of_nat oft2)\<rparr>;
          s = upd_o oft1 (\<lambda>f. f\<lparr>o_ptr := 0, o_inode := Some ino, o_access := ucast O_RDONLY\<rparr>) s;
          s = upd_o oft2 (\<lambda>f. f\<lparr>o_ptr := 0, o_inode := Some ino, o_access := ucast O_WRONLY\<rparr>) s;
          s = i_ref ino s;
          s = upd_node ino (\<lambda>d. d\<lparr>i_mode := F_PIPE OR 0x1FF, i_nlink := 0\<rparr>) s;
          s = upd_i ino (\<lambda>c. c\<lparr>c_readers := c_readers c + 1, c_writers := c_writers c + 1\<rparr>) s;
          (_, s) = uputw (of_nat u1) (u_argn s) s;
          (_, s) = uputw (of_nat u2) (u_argn s + 2) s
      in (0, s))"

definition u_pipe :: "kst \<Rightarrow> (u16 \<times> kst) option" where
  "u_pipe s =
     (case uf_alloc s of
        (None, s) \<Rightarrow> Some (0xFFFF, s)
      | (Some u1, s) \<Rightarrow>
     (case oft_alloc s of
        (None, s) \<Rightarrow> Some (0xFFFF, s)
      | (Some oft1, s) \<Rightarrow>
     (let s = s\<lparr>u_files := (u_files s)(u1 := of_nat oft1)\<rparr> in
      case uf_alloc s of
        (None, s) \<Rightarrow> pipe_nogood2 u1 oft1 s
      | (Some u2, s) \<Rightarrow>
     (case oft_alloc s of
        (None, s) \<Rightarrow> pipe_nogood2 u1 oft1 s
      | (Some oft2, s) \<Rightarrow> do {
          (r, s) \<leftarrow> i_open (root_dev s) 0 s;
          case r of
            None \<Rightarrow> do { (_, s) \<leftarrow> oft_deref oft2 s; pipe_nogood2 u1 oft1 s }
          | Some ino \<Rightarrow>
              if c_flags (i_tab s ino) AND CRDONLY \<noteq> 0
              then do { (_, s) \<leftarrow> i_deref ino (s\<lparr>u_error := EROFS\<rparr>); pipe_nogood2 u1 oft1 s }
              else Some (pipe_make u1 u2 oft1 oft2 ino s)
        }))))"

definition u_unlink :: "(kst \<Rightarrow> kst option) \<Rightarrow> kst \<Rightarrow> (u16 \<times> kst) option" where
  "u_unlink sw s = do {
     ((ino, pino), s) \<leftarrow> n_open (u_argn s) True s;
     case (pino, ino) of
       (Some pino, Some ino) \<Rightarrow> do {
         (fname, s) \<leftarrow> filename (u_argn s) s;
         (r, s) \<leftarrow> unlinki sw ino pino fname s;
         (_, s) \<leftarrow> i_deref pino s;
         deref_ret ino r s
       }
     | (Some pino, None) \<Rightarrow> do { (_, s) \<leftarrow> i_deref pino s; fail ENOENT s }
     | (None, _) \<Rightarrow> fail ENOENT s
   }"

definition u_read :: "(kst \<Rightarrow> kst option) \<Rightarrow> kst \<Rightarrow> (u16 \<times> kst) option" where
  "u_read sw s =
     (if u_argn2 s = 0 then Some (0, s)
      else if u_argn2 s <s 0 then fail EINVAL s
      else
        let (n, s) = valaddr (u_argn1 s) (u_argn2 s) s in
        if n = 0 then Some (0xFFFF, s)
        else do {
          (r, s) \<leftarrow> rwsetup True s;
          case r of
            None \<Rightarrow> Some (0xFFFF, s)
          | Some (ino, flag) \<Rightarrow> do {
              (_, s) \<leftarrow> readi sw ino flag s;
              (_, s) \<leftarrow> updoff s;
              Some (u_count s, s)
            }
        })"

definition u_getdirent :: "(kst \<Rightarrow> kst option) \<Rightarrow> kst \<Rightarrow> (u16 \<times> kst) option" where
  "u_getdirent sw s =
     (if u_argn2 s < 32 then fail ENOSPC s else u_read sw (s\<lparr>u_argn2 := of_nat DIR_LEN\<rparr>))"

definition u_write :: "(kst \<Rightarrow> kst option) \<Rightarrow> kst \<Rightarrow> (u16 \<times> kst) option" where
  "u_write sw s =
     (if u_argn2 s = 0 then Some (0, s)
      else if u_argn2 s <s 0 then fail EINVAL s
      else
        let (n, s) = valaddr (u_argn1 s) (u_argn2 s) s in
        if n = 0 then Some (0xFFFF, s)
        else do {
          (r, s) \<leftarrow> rwsetup False s;
          case r of
            None \<Rightarrow> Some (0xFFFF, s)
          | Some (ino, flag) \<Rightarrow> do {
              (_, s) \<leftarrow> writei sw ino flag s;
              (_, s) \<leftarrow> updoff s;
              Some (u_count s, s)
            }
        })"

definition u_nosys :: "kst \<Rightarrow> (u16 \<times> kst) option" where
  "u_nosys s = fail ENOSYS s"

end
