(* ===== verification/SysAttr.thy ===== *)
theory SysAttr
  imports SysFile
begin

text \<open>
  The system calls of Kernel/syscall\_fs2.c: working and root directory, device nodes, permissions,
  owners and times of files, superblock information. in\_group() is 0 below LEVEL\_2, and
  the build has no accounting.
\<close>

text \<open>chdiroot\_op(): \<open>rd\<close> and \<open>wr\<close> access the inode pointer the code is given the address of.\<close>

definition chdiroot_op ::
  "nat \<Rightarrow> (kst \<Rightarrow> nat option) \<Rightarrow> (nat option \<Rightarrow> kst \<Rightarrow> kst) \<Rightarrow> kst \<Rightarrow> (u16 \<times> kst) option" where
  "chdiroot_op ino rd wr s =
     (if getmode ino s \<noteq> MODE_R_DIR then deref_ret ino 0xFFFF (s\<lparr>u_error := ENOTDIR\<rparr>)
      else do {
        (_, s) \<leftarrow> i_deref_opt (rd s) s;
        Some (0, wr (Some ino) s)
      })"

definition set_cwd :: "nat option \<Rightarrow> kst \<Rightarrow> kst" where
  "set_cwd i s = s\<lparr>u_cwd := i\<rparr>"

definition set_root :: "nat option \<Rightarrow> kst \<Rightarrow> kst" where
  "set_root i s = s\<lparr>u_root := i\<rparr>"

definition u_chdir :: "kst \<Rightarrow> (u16 \<times> kst) option" where
  "u_chdir s = do {
     ((r, _), s) \<leftarrow> n_open (u_argn s) False s;
     case r of None \<Rightarrow> Some (0xFFFF, s) | Some newcwd \<Rightarrow> chdiroot_op newcwd u_cwd set_cwd s
   }"

definition u_fchdir :: "kst \<Rightarrow> (u16 \<times> kst) option" where
  "u_fchdir s = do {
     (r, s) \<leftarrow> getinode (ucast (u_argn s)) s;
     case r of None \<Rightarrow> Some (0xFFFF, s) | Some newcwd \<Rightarrow> chdiroot_op newcwd u_cwd set_cwd (i_ref newcwd s)
   }"

definition u_chroot :: "kst \<Rightarrow> (u16 \<times> kst) option" where
  "u_chroot s =
     (let (e, s) = esuper s in
      if e then Some (0xFFFF, s)
      else do {
        ((r, _), s) \<leftarrow> n_open (u_argn s) False s;
        case r of None \<Rightarrow> Some (0xFFFF, s) | Some newroot \<Rightarrow> chdiroot_op newroot u_root set_root s
      })"

definition u_mknod :: "(kst \<Rightarrow> kst option) \<Rightarrow> kst \<Rightarrow> (u16 \<times> kst) option" where
  "u_mknod sw s =
     (let s = s\<lparr>u_error := 0\<rparr> in
      if \<not> super s \<and> u_argn1 s AND F_MASK \<noteq> F_PIPE then fail EPERM s
      else do {
        ((ino, parent), s) \<leftarrow> n_open (u_argn s) True s;
        case ino of
          Some ino \<Rightarrow> do {
            (_, s) \<leftarrow> i_deref ino (s\<lparr>u_error := EEXIST\<rparr>);
            (_, s) \<leftarrow> i_deref_opt parent s;
            Some (0xFFFF, s)
          }
        | None \<Rightarrow>
            if parent = None then fail ENOENT s
            else do {
              (fname, s) \<leftarrow> filename (u_argn s) s;
              (ino, s) \<leftarrow> newfile sw parent fname s;
              case ino of
                None \<Rightarrow> Some (0xFFFF, s)
              | Some ino \<Rightarrow> do {
                  let s = upd_node ino (\<lambda>d. d\<lparr>i_mode := u_argn1 s AND NOT (u_mask s)\<rparr>) s;
                  let dev = (if isdevice ino s then u_argn2 s else 0);
                  let s = upd_node ino (\<lambda>d. d\<lparr>i_addr := (i_addr d)[0 := dev]\<rparr>) s;
                  let s = setftime ino (A_TIME OR M_TIME OR C_TIME) s;
                  (_, s) \<leftarrow> wr_inode ino s;
                  deref_ret ino 0 s
                }
            }
      })"

text \<open>\_access(): the real ids stand in for the effective ones during the lookup and the check.\<close>

definition u_access :: "kst \<Rightarrow> (u16 \<times> kst) option" where
  "u_access s =
     (let (empty, s) = (if u_argn1 s AND 7 \<noteq> 0 then let (c, s) = ugetc (u_argn s) s in (c = 0, s)
                        else (False, s)) in
      if empty then fail ENOENT s
      else
        let euid = u_euid s; egid = u_egid s;
            s = s\<lparr>u_euid := p_uid (self s), u_egid := u_gid s\<rparr> in do {
        ((r, _), s) \<leftarrow> n_open (u_argn s) False s;
        (ret, s) \<leftarrow> (case r of
            None \<Rightarrow> Some (0xFFFF, s)
          | Some ino \<Rightarrow>
              (let bad = (NOT (getperm ino s) AND (u_argn1 s AND 7) \<noteq> 0);
                   s = (if bad then s\<lparr>u_error := EACCES\<rparr> else s)
               in deref_ret ino (if bad then 0xFFFF else 0) s));
        Some (ret, s\<lparr>u_euid := euid, u_egid := egid\<rparr>)
      })"

definition chmod_op :: "nat \<Rightarrow> kst \<Rightarrow> u16 \<times> kst" where
  "chmod_op ino s =
     (let (e, s) = (if i_uid (c_node (i_tab s ino)) \<noteq> u_euid s then esuper s else (False, s)) in
      if e then (0xFFFF, s)
      else if c_flags (i_tab s ino) AND CRDONLY \<noteq> 0 then (0xFFFF, s\<lparr>u_error := EROFS\<rparr>)
      else
        let s = upd_node ino (\<lambda>d. d\<lparr>i_mode := (u_argn1 s AND MODE_MASK) OR (i_mode d AND F_MASK)\<rparr>) s
        in (0, setftime ino C_TIME s))"

definition u_chmod :: "kst \<Rightarrow> (u16 \<times> kst) option" where
  "u_chmod s = do {
     ((r, _), s) \<leftarrow> n_open (u_argn s) False s;
     case r of
       None \<Rightarrow> Some (0xFFFF, s)
     | Some ino \<Rightarrow> let (ret, s) = chmod_op ino s in deref_ret ino ret s
   }"

definition u_fchmod :: "kst \<Rightarrow> (u16 \<times> kst) option" where
  "u_fchmod s = do {
     (r, s) \<leftarrow> getinode (ucast (u_argn s)) s;
     case r of None \<Rightarrow> Some (0xFFFF, s) | Some ino \<Rightarrow> Some (chmod_op ino s)
   }"

definition chown_op :: "nat \<Rightarrow> kst \<Rightarrow> u16 \<times> kst" where
  "chown_op ino s =
     (let (e, s) = (if i_uid (c_node (i_tab s ino)) \<noteq> u_euid s \<or> u_argn2 s \<noteq> u_gid s
                    then esuper s else (False, s)) in
      if e then (0xFFFF, s)
      else if c_flags (i_tab s ino) AND CRDONLY \<noteq> 0 then (0xFFFF, s\<lparr>u_error := EROFS\<rparr>)
      else
        let s = upd_node ino (\<lambda>d. d\<lparr>i_uid := u_argn1 s, i_gid := u_argn2 s\<rparr>) s
        in (0, setftime ino C_TIME s))"

definition u_chown :: "kst \<Rightarrow> (u16 \<times> kst) option" where
  "u_chown s = do {
     ((r, _), s) \<leftarrow> n_open (u_argn s) False s;
     case r of
       None \<Rightarrow> Some (0xFFFF, s)
     | Some ino \<Rightarrow> let (ret, s) = chown_op ino s in deref_ret ino ret s
   }"

definition u_fchown :: "kst \<Rightarrow> (u16 \<times> kst) option" where
  "u_fchown s = do {
     (r, s) \<leftarrow> getinode (ucast (u_argn s)) s;
     case r of None \<Rightarrow> Some (0xFFFF, s) | Some ino \<Rightarrow> Some (chown_op ino s)
   }"

text \<open>\_utime(): the times to set, None at the labels \<^verbatim>\<open>out\<close> and \<^verbatim>\<open>out2\<close>. The uget() cannot fail after valaddr().\<close>

definition utime_times :: "nat \<Rightarrow> kst \<Rightarrow> (u32 \<times> u32) option \<times> kst" where
  "utime_times ino s =
     (if u_argn1 s \<noteq> 0 then
        (let (e, s) = (if i_uid (c_node (i_tab s ino)) \<noteq> u_euid s then esuper s else (False, s)) in
         if e then (None, s\<lparr>u_error := EPERM\<rparr>)
         else
           let (n, s) = valaddr (u_argn1 s) 16 s in
           if n = 0 then (None, s)
           else let (r, s) = uget (u_argn1 s) 16 s
                in (map_option (\<lambda>bs. (rd32 bs 0, rd32 bs 8)) r, s))
      else if getperm ino s AND OTH_WR = 0 then (None, s\<lparr>u_error := EPERM\<rparr>)
      else (Some (fst (rdtime s), fst (rdtime s)), s))"

definition u_utime_call :: "kst \<Rightarrow> (u16 \<times> kst) option" where
  "u_utime_call s = do {
     ((r, _), s) \<leftarrow> n_open (u_argn s) False s;
     case r of
       None \<Rightarrow> Some (0xFFFF, s)
     | Some ino \<Rightarrow>
         if c_flags (i_tab s ino) AND CRDONLY \<noteq> 0 then deref_ret ino 0xFFFF (s\<lparr>u_error := EROFS\<rparr>)
         else
           let (t, s) = utime_times ino s in
           case t of
             None \<Rightarrow> deref_ret ino 0xFFFF s
           | Some (a, m) \<Rightarrow>
               let s = upd_node ino (\<lambda>d. d\<lparr>i_atime := a, i_mtime := m\<rparr>) s
               in deref_ret ino 0 (setftime ino C_TIME s)
   }"

definition u_acct :: "kst \<Rightarrow> (u16 \<times> kst) option" where
  "u_acct s = fail EINVAL s"

definition u_getfsys :: "kst \<Rightarrow> (u16 \<times> kst) option" where
  "u_getfsys s =
     (case fs_tab_get (u_argn s) s of
        None \<Rightarrow> fail ENXIO s
      | Some m \<Rightarrow>
          if m_dev (fs_tab s m) = NO_DEVICE then fail ENXIO s
          else
            let (e, s) = uput (filesys_bytes (itab_addr (plat s)) (fs_at s m)) (u_argn1 s) 222 s
            in Some (if e then 0xFFFF else 0, s))"

end
