(* ===== verification/Tty.thy ===== *)
theory Tty
  imports Directory
begin

text \<open>
  Kernel/tty.c: the line discipline. The platform's driver below it appears as \<open>rdy\<close> (tty\_writeready():
  1 ready, 0 soon, 2 later; polling may let interrupts in, so it returns a new state), \<open>car\<close> (tty\_carrier()),
  and the log \<open>ttyout\<close> of the bytes given to tty\_putc(). tty\_setup() and tty\_sleeping() only program the
  port. The address of struct tty is that of its first member flag, so sleeping on either is
  the event EvTty. The pseudo terminals (CONFIG\_DEV\_PTY) and the LEVEL\_2 job control are not in the build.
\<close>

subsection \<open>Flags\<close>

abbreviation (input) ICRNL :: u16 where "ICRNL \<equiv> 0x0002"
abbreviation (input) IGNCR :: u16 where "IGNCR \<equiv> 0x0008"
abbreviation (input) INLCR :: u16 where "INLCR \<equiv> 0x0020"
abbreviation (input) ISTRIP :: u16 where "ISTRIP \<equiv> 0x0080"
abbreviation (input) IXON :: u16 where "IXON \<equiv> 0x1000"
abbreviation (input) OPOST :: u16 where "OPOST \<equiv> 0x0001"
abbreviation (input) ONLCR :: u16 where "ONLCR \<equiv> 0x0004"
abbreviation (input) OCRNL :: u16 where "OCRNL \<equiv> 0x0008"
abbreviation (input) HUPCL :: u16 where "HUPCL \<equiv> 0x0400"
abbreviation (input) CLOCAL :: u16 where "CLOCAL \<equiv> 0x0800"
abbreviation (input) ECHO :: u16 where "ECHO \<equiv> 0x0001"
abbreviation (input) ECHOE :: u16 where "ECHOE \<equiv> 0x0002"
abbreviation (input) ECHOK :: u16 where "ECHOK \<equiv> 0x0004"
abbreviation (input) ICANON :: u16 where "ICANON \<equiv> 0x0010"
abbreviation (input) ISIG :: u16 where "ISIG \<equiv> 0x0040"
abbreviation (input) VMIN :: nat where "VMIN \<equiv> 0"
abbreviation (input) VEOF :: nat where "VEOF \<equiv> 0"
abbreviation (input) VTIME :: nat where "VTIME \<equiv> 1"
abbreviation (input) VEOL :: nat where "VEOL \<equiv> 1"
abbreviation (input) VERASE :: nat where "VERASE \<equiv> 2"
abbreviation (input) VINTR :: nat where "VINTR \<equiv> 3"
abbreviation (input) VKILL :: nat where "VKILL \<equiv> 4"
abbreviation (input) VQUIT :: nat where "VQUIT \<equiv> 5"
abbreviation (input) VSTART :: nat where "VSTART \<equiv> 6"
abbreviation (input) VSTOP :: nat where "VSTOP \<equiv> 7"
abbreviation (input) VDISCARD :: nat where "VDISCARD \<equiv> 11"
abbreviation (input) TTYF_STOP :: u8 where "TTYF_STOP \<equiv> 1"
abbreviation (input) TTYF_DISCARD :: u8 where "TTYF_DISCARD \<equiv> 2"
abbreviation (input) TTYF_DEAD :: u8 where "TTYF_DEAD \<equiv> 4"
abbreviation (input) NL :: u8 where "NL \<equiv> 10"
abbreviation (input) CR :: u8 where "CR \<equiv> 13"
abbreviation (input) SIGINT :: nat where "SIGINT \<equiv> 2"
abbreviation (input) SIGQUIT :: nat where "SIGQUIT \<equiv> 3"

abbreviation t_cc :: "tty \<Rightarrow> nat \<Rightarrow> u8" where
  "t_cc t j \<equiv> c_cc (t_termios t) ! j"

abbreviation t_is :: "kst \<Rightarrow> nat \<Rightarrow> (termios \<Rightarrow> u16) \<Rightarrow> u16 \<Rightarrow> bool" where
  "t_is s m f b \<equiv> f (t_termios (ttydata s m)) AND b \<noteq> 0"

definition set_flag :: "nat \<Rightarrow> (u8 \<Rightarrow> u8) \<Rightarrow> kst \<Rightarrow> kst" where
  "set_flag m f s = upd_t m (\<lambda>t. t\<lparr>t_flag := f (t_flag t)\<rparr>) s"

definition set_q :: "nat \<Rightarrow> s_queue \<Rightarrow> kst \<Rightarrow> kst" where
  "set_q m q s = s\<lparr>ttyinq := (ttyinq s)(m := q)\<rparr>"

subsection \<open>Output\<close>

definition tty_putc :: "nat \<Rightarrow> u8 \<Rightarrow> kst \<Rightarrow> kst" where
  "tty_putc m c s = s\<lparr>ttyout := ttyout s @ [(m, c)]\<rparr>"

definition need_reschedule :: "kst \<Rightarrow> bool" where
  "need_reschedule s \<longleftrightarrow> nready s \<noteq> 1 \<and> runticks s \<ge> p_priority (self s)"

text \<open>The wait for the transmitter: True when the byte is not to be sent.\<close>

partial_function (option) tty_ready_wait ::
  "(kst \<Rightarrow> kst option) \<Rightarrow> (nat \<Rightarrow> kst \<Rightarrow> u8 \<times> kst) \<Rightarrow> nat \<Rightarrow> u8 \<Rightarrow> kst \<Rightarrow> (bool \<times> kst) option" where
  "tty_ready_wait sw rdy m flag s =
     (let (t, s) = rdy m s in
      if t = 1 then Some (False, s)
      else do {
        (sig, s) \<leftarrow> chksigs_ret sw s;
        if sig \<noteq> 0 then Some (True, s\<lparr>u_error := EINTR\<rparr>)
        else if t = 2 \<and> flag \<noteq> 0 then Some (True, s\<lparr>u_error := EAGAIN\<rparr>)
        else if t \<noteq> 0 \<or> need_reschedule s then do {
          (_, s) \<leftarrow> psleep sw (EvTty m) s;
          tty_ready_wait sw rdy m flag s
        } else tty_ready_wait sw rdy m flag s
      })"

definition tty_putc_maywait ::
  "(kst \<Rightarrow> kst option) \<Rightarrow> (nat \<Rightarrow> kst \<Rightarrow> u8 \<times> kst) \<Rightarrow> nat \<Rightarrow> u8 \<Rightarrow> u8 \<Rightarrow> kst \<Rightarrow> (bool \<times> kst) option" where
  "tty_putc_maywait sw rdy m c flag s = do {
     let flag = flag AND ucast O_NDELAY;
     (stop, s) \<leftarrow> (if \<not> u_ininterrupt s then tty_ready_wait sw rdy m flag s else Some (False, s));
     Some (stop, if stop then s else tty_putc m c s)
   }"

definition tty_putc_wait ::
  "(kst \<Rightarrow> kst option) \<Rightarrow> (nat \<Rightarrow> kst \<Rightarrow> u8 \<times> kst) \<Rightarrow> nat \<Rightarrow> u8 \<Rightarrow> kst \<Rightarrow> (unit \<times> kst) option" where
  "tty_putc_wait sw rdy m c s = do { (_, s) \<leftarrow> tty_putc_maywait sw rdy m c 0 s; Some ((), s) }"

definition tty_echo ::
  "(kst \<Rightarrow> kst option) \<Rightarrow> (nat \<Rightarrow> kst \<Rightarrow> u8 \<times> kst) \<Rightarrow> nat \<Rightarrow> u8 \<Rightarrow> kst \<Rightarrow> (unit \<times> kst) option" where
  "tty_echo sw rdy m c s = (if t_is s m c_lflag ECHO then tty_putc_wait sw rdy m c s else Some ((), s))"

definition tty_erase ::
  "(kst \<Rightarrow> kst option) \<Rightarrow> (nat \<Rightarrow> kst \<Rightarrow> u8 \<times> kst) \<Rightarrow> nat \<Rightarrow> kst \<Rightarrow> (unit \<times> kst) option" where
  "tty_erase sw rdy m s = do {
     (_, s) \<leftarrow> tty_putc_wait sw rdy m 8 s;
     (_, s) \<leftarrow> tty_putc_wait sw rdy m 32 s;
     tty_putc_wait sw rdy m 8 s
   }"

text \<open>The wait while output is stopped: \<open>Inl r\<close> is the return value of tty\_write().\<close>

partial_function (option) tty_flow ::
  "(kst \<Rightarrow> kst option) \<Rightarrow> nat \<Rightarrow> u8 \<Rightarrow> u16 \<Rightarrow> kst \<Rightarrow> ((u16 + unit) \<times> kst) option" where
  "tty_flow sw m flag written s =
     (if t_flag (ttydata s m) AND TTYF_DEAD \<noteq> 0 then Some (Inl 0xFFFF, s\<lparr>u_error := ENXIO\<rparr>)
      else if t_flag (ttydata s m) AND TTYF_STOP = 0 then Some (Inr (), s)
      else do {
        ((r, written), s) \<leftarrow> psleep_flags_io sw (EvTty m) flag written s;
        if r then Some (Inl written, s) else tty_flow sw m flag written s
      })"

text \<open>
  One byte with output processing; True stops the loop. The \<^verbatim>\<open>else if\<close> belongs to the inner
  \<^verbatim>\<open>if\<close>, as C parses it.
\<close>

definition tty_out_byte ::
  "(kst \<Rightarrow> kst option) \<Rightarrow> (nat \<Rightarrow> kst \<Rightarrow> u8 \<times> kst) \<Rightarrow> nat \<Rightarrow> u8 \<Rightarrow> kst \<Rightarrow> (bool \<times> kst) option" where
  "tty_out_byte sw rdy m flag s = do {
     let (c, s) = (if u_sysio s then (kmem s (u_base s), s)
                   else let (r, s) = ugetc (u_base s) s in (ucast r, s));
     ((stop, c), s) \<leftarrow>
       (if t_is s m c_oflag OPOST then
          (if c = NL \<and> t_is s m c_oflag ONLCR then do {
             (r, s) \<leftarrow> tty_putc_maywait sw rdy m CR flag s;
             if r then Some ((True, c), s)
             else if c = CR \<and> t_is s m c_oflag OCRNL then Some ((False, NL), s)
             else Some ((False, c), s)
           } else Some ((False, c), s))
        else Some ((False, c), s));
     if stop then Some (True, s) else tty_putc_maywait sw rdy m c flag s
   }"

partial_function (option) tty_write_loop ::
  "(kst \<Rightarrow> kst option) \<Rightarrow> (nat \<Rightarrow> kst \<Rightarrow> u8 \<times> kst) \<Rightarrow> nat \<Rightarrow> u8 \<Rightarrow> u16 \<Rightarrow> kst \<Rightarrow> (u16 \<times> kst) option" where
  "tty_write_loop sw rdy m flag written s =
     (let n = u_count s; s = s\<lparr>u_count := u_count s - 1\<rparr> in
      if n = 0 then Some (written, s)
      else do {
        (r, s) \<leftarrow> tty_flow sw m flag written s;
        case r of
          Inl r \<Rightarrow> Some (r, s)
        | Inr _ \<Rightarrow> do {
            (stop, s) \<leftarrow> (if t_flag (ttydata s m) AND TTYF_DISCARD = 0
                         then tty_out_byte sw rdy m flag s else Some (False, s));
            if stop then Some (written, s)
            else tty_write_loop sw rdy m flag (written + 1) (s\<lparr>u_base := u_base s + 1\<rparr>)
          }
      })"

definition tty_write ::
  "(kst \<Rightarrow> kst option) \<Rightarrow> (nat \<Rightarrow> kst \<Rightarrow> u8 \<times> kst) \<Rightarrow> nat \<Rightarrow> u8 \<Rightarrow> kst \<Rightarrow> (u16 \<times> kst) option" where
  "tty_write sw rdy m flag s = tty_write_loop sw rdy m flag 0 s"

text \<open>tty\_outproc(): the transmitter has become ready.\<close>

definition tty_outproc :: "nat \<Rightarrow> kst \<Rightarrow> kst" where
  "tty_outproc m s = wakeup (EvTty m) s"

subsection \<open>Input\<close>

text \<open>How the wait for a byte ends: the labels \<^verbatim>\<open>dead\<close> and \<^verbatim>\<open>out\<close>, or a byte.\<close>

datatype read_wait = Dead | Out | Got (got: u8)

partial_function (option) tty_read_wait ::
  "(kst \<Rightarrow> kst option) \<Rightarrow> nat \<Rightarrow> u8 \<Rightarrow> u16 \<Rightarrow> kst \<Rightarrow> ((read_wait \<times> u16) \<times> kst) option" where
  "tty_read_wait sw m flag nread s =
     (let t = ttydata s m; (r, q) = remq (ttyinq s m); raw = (c_lflag (t_termios t) AND ICANON = 0);
          n = t_cc t VTIME in
      if t_flag t AND TTYF_DEAD \<noteq> 0 \<and> q_count (ttyinq s m) = 0 then Some ((Dead, nread), s)
      else if r \<noteq> None then
        (let s = set_q m q s;
             s = (if u_sysio s then s\<lparr>kmem := (kmem s)(u_base s := the r)\<rparr>
                  else snd (uputc (ucast (the r)) (u_base s) s))
         in Some ((Got (the r), nread), s))
      else if raw \<and> (nread \<noteq> 0 \<or> n = 0) \<and> nread \<ge> ucast (t_cc t VMIN) then Some ((Out, nread), s)
      else do {
        let s = (if raw \<and> n \<noteq> 0 then upd_p (u_ptab s) (\<lambda>p. p\<lparr>p_timeout := ucast n + 1\<rparr>) s else s);
        ((r, nread), s) \<leftarrow> psleep_flags_io sw (EvTtyq m) flag nread s;
        if r \<or> p_timeout (self s) = 1 then Some ((Out, nread), s)
        else tty_read_wait sw m flag nread s
      })"

partial_function (option) tty_read_loop ::
  "(kst \<Rightarrow> kst option) \<Rightarrow> nat \<Rightarrow> u8 \<Rightarrow> u16 \<Rightarrow> kst \<Rightarrow> (u16 \<times> kst) option" where
  "tty_read_loop sw m flag nread s =
     (if \<not> nread < u_count s then Some (nread, wakeup (EvTtyqCount m) s)
      else do {
        ((r, nread), s) \<leftarrow> tty_read_wait sw m flag nread s;
        if r = Dead then Some (0xFFFF, s\<lparr>u_error := ENXIO\<rparr>)
        else if r = Out then Some (nread, wakeup (EvTtyqCount m) s)
        else
          let nread = nread + 1; canon = t_is s m c_lflag ICANON in
          if canon \<and> nread = 1 \<and> got r = t_cc (ttydata s m) VEOF then Some (0, wakeup (EvTtyqCount m) s)
          else if canon \<and> (got r = NL \<or> got r = t_cc (ttydata s m) VEOL)
          then Some (nread, wakeup (EvTtyqCount m) s)
          else tty_read_loop sw m flag nread (s\<lparr>u_base := u_base s + 1\<rparr>)
      })"

definition tty_read :: "(kst \<Rightarrow> kst option) \<Rightarrow> nat \<Rightarrow> u8 \<Rightarrow> kst \<Rightarrow> (u16 \<times> kst) option" where
  "tty_read sw m flag s = tty_read_loop sw m flag 0 s"

text \<open>The translation at the head of tty\_inproc(); None where the byte is dropped.\<close>

definition tty_map_in :: "termios \<Rightarrow> u8 \<Rightarrow> u8 option" where
  "tty_map_in t c =
     (let c = (if c_iflag t AND ISTRIP \<noteq> 0 then c AND 0x7F else c) in
      if c_lflag t AND ICANON \<noteq> 0 \<and> c = 0 then None
      else if c = CR \<and> c_iflag t AND IGNCR \<noteq> 0 then None
      else
        let c = (if c = CR \<and> c_iflag t AND ICRNL \<noteq> 0 then NL else c)
        in Some (if c = NL \<and> c_iflag t AND INLCR \<noteq> 0 then CR else c))"

text \<open>The label \<^verbatim>\<open>eraseout\<close>: \<open>wr\<close> is ECHOE to erase one byte, ECHOK to erase the line.\<close>

partial_function (option) tty_eraseout ::
  "(kst \<Rightarrow> kst option) \<Rightarrow> (nat \<Rightarrow> kst \<Rightarrow> u8 \<times> kst) \<Rightarrow> nat \<Rightarrow> u16 \<Rightarrow> kst \<Rightarrow> (unit \<times> kst) option" where
  "tty_eraseout sw rdy m wr s =
     (let (r, q) = uninsq (ttyinq s m) in
      if r = None then Some ((), s)
      else
        let oc = the r; s = set_q m q s in
        if oc = NL \<or> oc = t_cc (ttydata s m) VEOL then Some ((), set_q m (snd (insq q oc)) s)
        else do {
          (_, s) \<leftarrow> (if t_is s m c_lflag wr then tty_erase sw rdy m s else Some ((), s));
          if wr = ECHOE then Some ((), s) else tty_eraseout sw rdy m wr s
        })"

text \<open>From \<^verbatim>\<open>All modes come here\<close>: queue the byte and echo it.\<close>

definition tty_accept ::
  "(kst \<Rightarrow> kst option) \<Rightarrow> (nat \<Rightarrow> kst \<Rightarrow> u8 \<times> kst) \<Rightarrow> nat \<Rightarrow> bool \<Rightarrow> u8 \<Rightarrow> kst \<Rightarrow> (u8 \<times> kst) option" where
  "tty_accept sw rdy m canon c s = do {
     (_, s) \<leftarrow> (if c = NL \<and> c_oflag (t_termios (ttydata s m)) AND (OPOST OR ONLCR) = OPOST OR ONLCR
               then tty_echo sw rdy m CR s else Some ((), s));
     let (wr, q) = insq (ttyinq s m) c;
     let s = set_q m q s;
     (_, s) \<leftarrow> (if wr \<and> (\<not> canon \<or> c \<noteq> t_cc (ttydata s m) VEOF) then tty_echo sw rdy m c s
               else Some ((), tty_putc m 7 s));
     let s = (if \<not> canon \<or> c = t_cc (ttydata s m) VEOL \<or> c = NL \<or> c = t_cc (ttydata s m) VEOF
              then wakeup (EvTtyq m) s else s);
     Some (if wr then 1 else 0, s)
   }"

definition tty_inproc ::
  "(kst \<Rightarrow> kst option) \<Rightarrow> (nat \<Rightarrow> kst \<Rightarrow> u8 \<times> kst) \<Rightarrow> nat \<Rightarrow> u8 \<Rightarrow> kst \<Rightarrow> (u8 \<times> kst) option" where
  "tty_inproc sw rdy m c s =
     (let t = ttydata s m; canon = t_is s m c_lflag ICANON in
      case tty_map_in (t_termios t) c of
        None \<Rightarrow> Some (1, s)
      | Some c \<Rightarrow>
          if t_is s m c_lflag ISIG \<and> (c = t_cc t VINTR \<or> c = t_cc t VQUIT) then
            (let s = sgrpsig (t_pgrp t) (if c = t_cc t VINTR then SIGINT else SIGQUIT) s;
                 s = set_q m (clrq (ttyinq s m)) s
             in Some (1, set_flag m (\<lambda>f. f AND NOT (TTYF_STOP OR TTYF_DISCARD)) s))
          else if t_is s m c_iflag IXON \<and> c = t_cc t VSTOP then Some (1, set_flag m (\<lambda>f. f OR TTYF_STOP) s)
          else if t_is s m c_iflag IXON \<and> c = t_cc t VSTART
          then Some (1, wakeup (EvTty m) (set_flag m (\<lambda>f. f AND NOT TTYF_STOP) s))
          else if canon \<and> c = t_cc t VDISCARD then Some (1, set_flag m (\<lambda>f. f XOR TTYF_DISCARD) s)
          else if canon \<and> c = t_cc t VERASE then do { (_, s) \<leftarrow> tty_eraseout sw rdy m ECHOE s; Some (1, s) }
          else if canon \<and> c = t_cc t VKILL then do { (_, s) \<leftarrow> tty_eraseout sw rdy m ECHOK s; Some (1, s) }
          else tty_accept sw rdy m canon c s)"

subsection \<open>Opening and closing\<close>

text \<open>tty\_open(): 0 or -1.\<close>

definition tty_open ::
  "(kst \<Rightarrow> kst option) \<Rightarrow> (nat \<Rightarrow> kst \<Rightarrow> bool) \<Rightarrow> nat \<Rightarrow> u16 \<Rightarrow> kst \<Rightarrow> (u16 \<times> kst) option" where
  "tty_open sw car m flag s =
     (let more = (\<lambda>s. upd_t m (\<lambda>t. t\<lparr>t_users := t_users t + 1\<rparr>) s) in
      if m > num_dev_tty (plat s) then Some (0xFFFF, s\<lparr>u_error := ENODEV\<rparr>)
      else if t_flag (ttydata s m) AND TTYF_DEAD \<noteq> 0 then Some (0xFFFF, s\<lparr>u_error := ENXIO\<rparr>)
      else if t_users (ttydata s m) \<noteq> 0 then Some (0, more s)
      else if t_is s m c_cflag CLOCAL \<or> flag AND O_NDELAY \<noteq> 0 then Some (0, more s)
      else do {
        (r, s) \<leftarrow> (if \<not> car m s then psleep_flags sw (EvTtyCflag m) (ucast flag) s else Some (False, s));
        if r then Some (0xFFFF, s)
        else if t_flag (ttydata s m) AND TTYF_DEAD \<noteq> 0
        then Some (0xFFFF, set_flag m (\<lambda>f. f AND NOT TTYF_DEAD) (s\<lparr>u_error := ENXIO\<rparr>))
        else Some (0, more s)
      })"

definition tty_post :: "nat \<Rightarrow> nat \<Rightarrow> u16 \<Rightarrow> kst \<Rightarrow> kst" where
  "tty_post ino m flag s =
     (if t_flag (ttydata s m) AND TTYF_DEAD = 0 \<and> p_tty (self s) = 0 \<and> t_pgrp (ttydata s m) = 0
         \<and> flag AND O_NOCTTY = 0
      then
        let s = upd_p (u_ptab s) (\<lambda>p. p\<lparr>p_tty := of_nat m\<rparr>) s;
            s = s\<lparr>u_ctty := Some ino\<rparr>
        in upd_t m (\<lambda>t. t\<lparr>t_pgrp := p_pgrp (self s)\<rparr>) s
      else s)"

definition tty_close :: "nat \<Rightarrow> kst \<Rightarrow> u16 \<times> kst" where
  "tty_close m s =
     (let s = upd_t m (\<lambda>t. t\<lparr>t_users := t_users t - 1\<rparr>) s in
      if t_users (ttydata s m) \<noteq> 0 then (0, s)
      else
        let s = (if of_nat m = p_tty (self s)
                 then (upd_p (u_ptab s) (\<lambda>p. p\<lparr>p_tty := 0\<rparr>) s)\<lparr>u_ctty := None\<rparr> else s);
            s = upd_t m (\<lambda>t. t\<lparr>t_pgrp := 0\<rparr>) s
        in (0, set_flag m (\<lambda>f. f AND NOT TTYF_DEAD) s))"

definition tty_exit :: "kst \<Rightarrow> kst" where
  "tty_exit s =
     (let t = unat (p_tty (self s)); g = t_pgrp (ttydata s t)
      in if t \<noteq> 0 \<and> g = p_pgrp (self s) \<and> g = p_pid (self s) then upd_t t (\<lambda>t. t\<lparr>t_pgrp := 0\<rparr>) s else s)"

definition tty_hangup :: "nat \<Rightarrow> kst \<Rightarrow> kst" where
  "tty_hangup m s =
     (let s = sgrpsig (t_pgrp (ttydata s m)) SIGHUP s;
          s = sgrpsig (t_pgrp (ttydata s m)) SIGCONT s;
          s = upd_t m (\<lambda>t. t\<lparr>t_pgrp := 0\<rparr>) s;
          s = set_flag m (\<lambda>f. f OR TTYF_DEAD) s;
          s = wakeup (EvTtyq m) s
      in wakeup (EvTty m) s)"

definition tty_carrier_drop :: "nat \<Rightarrow> kst \<Rightarrow> kst" where
  "tty_carrier_drop m s = (if t_is s m c_cflag HUPCL then tty_hangup m s else s)"

definition tty_carrier_raise :: "nat \<Rightarrow> kst \<Rightarrow> kst" where
  "tty_carrier_raise m s = wakeup (EvTtyCflag m) s"

subsection \<open>Control\<close>

definition termios_bytes :: "termios \<Rightarrow> u8 list" where
  "termios_bytes t = le16 (c_iflag t) @ le16 (c_oflag t) @ le16 (c_cflag t) @ le16 (c_lflag t) @ c_cc t"

definition termios_of :: "u8 list \<Rightarrow> termios" where
  "termios_of bs = \<lparr>c_iflag = rd16 bs 0, c_oflag = rd16 bs 2, c_cflag = rd16 bs 4, c_lflag = rd16 bs 6,
                    c_cc = take 12 (drop 8 bs)\<rparr>"

definition winsize_bytes :: "winsize \<Rightarrow> u8 list" where
  "winsize_bytes w = le16 (ws_row w) @ le16 (ws_col w) @ le16 (ws_xpixel w) @ le16 (ws_ypixel w)"

definition winsize_of :: "u8 list \<Rightarrow> winsize" where
  "winsize_of bs = \<lparr>ws_row = rd16 bs 0, ws_col = rd16 bs 2, ws_xpixel = rd16 bs 4, ws_ypixel = rd16 bs 6\<rparr>"

abbreviation (input) TCGETS :: u16 where "TCGETS \<equiv> 1"
abbreviation (input) TCSETS :: u16 where "TCSETS \<equiv> 2"
abbreviation (input) TCSETSW :: u16 where "TCSETSW \<equiv> 3"
abbreviation (input) TCSETSF :: u16 where "TCSETSF \<equiv> 4"
abbreviation (input) TIOCINQ :: u16 where "TIOCINQ \<equiv> 5"
abbreviation (input) TIOCFLUSH :: u16 where "TIOCFLUSH \<equiv> 6"
abbreviation (input) TIOCHANGUP :: u16 where "TIOCHANGUP \<equiv> 7"
abbreviation (input) TIOCOSTOP :: u16 where "TIOCOSTOP \<equiv> 8"
abbreviation (input) TIOCOSTART :: u16 where "TIOCOSTART \<equiv> 9"
abbreviation (input) TIOCGWINSZ :: u16 where "TIOCGWINSZ \<equiv> 10"
abbreviation (input) TIOCSWINSZ :: u16 where "TIOCSWINSZ \<equiv> 11"
abbreviation (input) TIOCGPGRP :: u16 where "TIOCGPGRP \<equiv> 12"

text \<open>The answer of the copying primitives as the C int: 0 or -1.\<close>

definition ret_of :: "bool \<times> kst \<Rightarrow> u16 \<times> kst" where
  "ret_of r = (if fst r then 0xFFFF else 0, snd r)"

definition tty_ioctl :: "nat \<Rightarrow> u16 \<Rightarrow> u16 \<Rightarrow> kst \<Rightarrow> u16 \<times> kst" where
  "tty_ioctl m request data s =
     (if t_flag (ttydata s m) AND TTYF_DEAD \<noteq> 0 then (0xFFFF, s\<lparr>u_error := ENXIO\<rparr>)
      else if request = TCGETS then ret_of (uput (termios_bytes (t_termios (ttydata s m))) data 20 s)
      else if request = TCSETSF \<or> request = TCSETSW \<or> request = TCSETS then
        (let s = (if request = TCSETSF then set_q m (clrq (ttyinq s m)) s else s);
             (r, s) = uget data 20 s
         in case r of None \<Rightarrow> (0xFFFF, s)
            | Some bs \<Rightarrow> (0, upd_t m (\<lambda>t. t\<lparr>t_termios := termios_of bs\<rparr>) s))
      else if request = TIOCINQ then ret_of (uput (le16 (word_of_int (q_count (ttyinq s m)))) data 2 s)
      else if request = TIOCFLUSH then (0, set_q m (clrq (ttyinq s m)) s)
      else if request = TIOCHANGUP then (0, tty_hangup m s)
      else if request = TIOCOSTOP then (0, set_flag m (\<lambda>f. f OR TTYF_STOP) s)
      else if request = TIOCOSTART then (0, set_flag m (\<lambda>f. f AND NOT TTYF_STOP) s)
      else if request = TIOCGWINSZ then ret_of (uput (winsize_bytes (t_winsize (ttydata s m))) data 8 s)
      else if request = TIOCSWINSZ then
        (let (r, s) = uget data 8 s
         in case r of None \<Rightarrow> (0xFFFF, s)
            | Some bs \<Rightarrow>
                let s = upd_t m (\<lambda>t. t\<lparr>t_winsize := winsize_of bs\<rparr>) s
                in (0, sgrpsig (t_pgrp (ttydata s m)) SIGWINCH s))
      else if request = TIOCGPGRP then ret_of (uputw (t_pgrp (ttydata s m)) data s)
      else (0xFFFF, s\<lparr>u_error := ENOTTY\<rparr>))"

end
