(* ===== verification/SysOpen.thy ===== *)
theory SysOpen
  imports SysAttr Tty
begin

text \<open>
  The system calls of Kernel/syscall\_fs3.c with dev\_openi() of Kernel/inode.c: open, link, fcntl and flock. \_uname()
  stands in Dispatch.
\<close>

subsection \<open>open\<close>

text \<open>dev\_openi(): the inode pointer it may replace is \<^verbatim>\<open>of_tab[j].o_inode\<close>.\<close>

definition dev_openi :: "nat \<Rightarrow> u16 \<Rightarrow> kst \<Rightarrow> (u16 \<times> kst) option" where
  "dev_openi j flag s =
     (case o_inode (of_tab s j) of
        None \<Rightarrow> panic ''read through NULL'' s
      | Some ino \<Rightarrow> do {
          (r, s) \<leftarrow> (if devnum ino s = 0x0200 then
                      (case u_ctty s of
                         None \<Rightarrow> Some (None, s\<lparr>u_error := ENODEV\<rparr>)
                       | Some c \<Rightarrow> do {
                           (_, s) \<leftarrow> i_deref ino s;
                           let s = upd_o j (\<lambda>f. f\<lparr>o_inode := Some c\<rparr>) s;
                           Some (Some c, i_ref c s)
                         })
                    else Some (Some ino, s));
          case r of
            None \<Rightarrow> Some (0xFFFF, s)
          | Some ino \<Rightarrow>
              let da = devnum ino s; (ret, s) = d_open da flag s in
              if ret \<noteq> 0 \<or> da AND 0xFF00 \<noteq> 0x0200 then Some (ret, s)
              else Some (0, tty_post ino (unat (da AND 0xFF)) flag s)
        })"

text \<open>The labels \<^verbatim>\<open>nooft\<close>, \<^verbatim>\<open>cantopen\<close> and \<^verbatim>\<open>idrop\<close> of \_open().\<close>

definition nooft :: "nat \<Rightarrow> kst \<Rightarrow> (u16 \<times> kst) option" where
  "nooft uindex s = Some (0xFFFF, s\<lparr>u_files := (u_files s)(uindex := NO_FILE)\<rparr>)"

definition cantopen :: "nat \<Rightarrow> nat \<Rightarrow> kst \<Rightarrow> (u16 \<times> kst) option" where
  "cantopen uindex j s = do { (_, s) \<leftarrow> oft_deref j s; nooft uindex s }"

definition idrop :: "nat \<Rightarrow> nat \<Rightarrow> nat \<Rightarrow> kst \<Rightarrow> (u16 \<times> kst) option" where
  "idrop ino uindex j s = do { (_, s) \<leftarrow> i_deref ino s; cantopen uindex j s }"

text \<open>The lookup: \<open>Inr\<close> the inode to open, \<open>Inl\<close> the inode to drop if any, where the call fails.\<close>

definition open_lookup :: "(kst \<Rightarrow> kst option) \<Rightarrow> kst \<Rightarrow> ((nat option + nat) \<times> kst) option" where
  "open_lookup sw s = do {
     let flag = u_argn1 s;
     ((ino, parent), s) \<leftarrow> n_open (u_argn s) True s;
     case ino of
       Some ino \<Rightarrow> do {
         (_, s) \<leftarrow> i_deref_opt parent s;
         if flag AND (O_CREAT OR O_EXCL) = O_CREAT OR O_EXCL
         then Some (Inl (Some ino), s\<lparr>u_error := EEXIST\<rparr>)
         else Some (Inr ino, s)
       }
     | None \<Rightarrow>
         if u_error s = EFAULT \<or> parent = None then Some (Inl None, s)
         else if flag AND O_CREAT = 0 then Some (Inl None, s\<lparr>u_error := ENOENT\<rparr>)
         else do {
           (fname, s) \<leftarrow> filename (u_argn s) s;
           (ino, s) \<leftarrow> newfile sw parent fname s;
           case ino of
             None \<Rightarrow> Some (Inl None, s)
           | Some ino \<Rightarrow> do {
               let s = upd_node ino (\<lambda>d. d\<lparr>i_mode := F_REG OR (u_argn2 s AND MODE_MASK AND NOT (u_mask s))\<rparr>) s;
               let s = setftime ino (A_TIME OR M_TIME OR C_TIME) s;
               (_, s) \<leftarrow> wr_inode ino s;
               Some (Inr ino, s)
             }
         }
   }"

text \<open>The permission checks, as the error they set; 0 for none.\<close>

definition open_check :: "nat \<Rightarrow> u16 \<Rightarrow> kst \<Rightarrow> u16" where
  "open_check ino flag s =
     (let r = (flag + 1) AND 1; w = (flag + 1) AND 2; perm = getperm ino s in
      if r \<noteq> 0 \<and> perm AND OTH_RD = 0 \<or> w \<noteq> 0 \<and> perm AND OTH_WR = 0 then EACCES
      else if w \<noteq> 0 \<and> getmode ino s = MODE_R_DIR then EISDIR
      else if w \<noteq> 0 \<and> \<not> isdevice ino s \<and> c_flags (i_tab s ino) AND CRDONLY \<noteq> 0 then EROFS
      else 0)"

text \<open>Truncation; True where f\_trunc() fails.\<close>

definition open_trunc :: "nat \<Rightarrow> u16 \<Rightarrow> kst \<Rightarrow> (bool \<times> kst) option" where
  "open_trunc ino flag s =
     (if (flag + 1) AND 2 \<noteq> 0 \<and> flag AND O_TRUNC \<noteq> 0 \<and> getmode ino s = MODE_R_REG then do {
        (r, s) \<leftarrow> f_trunc ino s;
        if r then Some (True, s)
        else Some (False, s\<lparr>of_tab := (\<lambda>j. if j < OFTSIZE \<and> o_inode (of_tab s j) = Some ino
                                        then (of_tab s j)\<lparr>o_ptr := 0\<rparr> else of_tab s j)\<rparr>)
      } else Some (False, s))"

text \<open>The successful end: fill in the tables and count the reader or writer.\<close>

definition open_done :: "nat \<Rightarrow> nat \<Rightarrow> nat \<Rightarrow> u16 \<Rightarrow> kst \<Rightarrow> kst" where
  "open_done uindex j ino flag s =
     (let s = s\<lparr>u_files := (u_files s)(uindex := of_nat j)\<rparr>;
          s = upd_o j (\<lambda>f. f\<lparr>o_ptr := 0, o_access := ucast flag\<rparr>) s;
          s = (if flag AND O_CLOEXEC \<noteq> 0 then s\<lparr>u_cloexec := u_cloexec s OR push_bit j 1\<rparr> else s);
          s = (if flag AND 3 \<noteq> O_RDONLY then upd_i ino (\<lambda>c. c\<lparr>c_writers := c_writers c + 1\<rparr>) s else s)
      in if flag AND 3 \<noteq> O_WRONLY then upd_i ino (\<lambda>c. c\<lparr>c_readers := c_readers c + 1\<rparr>) s else s)"

definition u_open :: "(kst \<Rightarrow> kst option) \<Rightarrow> kst \<Rightarrow> (u16 \<times> kst) option" where
  "u_open sw s =
     (let flag = u_argn1 s in
      if flag AND 3 = 3 \<or> flag AND O_BADBITS \<noteq> 0 then fail EINVAL s
      else
     (case uf_alloc s of
        (None, s) \<Rightarrow> Some (0xFFFF, s)
      | (Some uindex, s) \<Rightarrow>
     (case oft_alloc s of
        (None, s) \<Rightarrow> nooft uindex s
      | (Some j, s) \<Rightarrow> do {
          (r, s) \<leftarrow> open_lookup sw s;
          case r of
            Inl (Some ino) \<Rightarrow> idrop ino uindex j s
          | Inl None \<Rightarrow> cantopen uindex j s
          | Inr ino \<Rightarrow> do {
              let s = upd_o j (\<lambda>f. f\<lparr>o_inode := Some ino\<rparr>) s;
              let e = open_check ino flag s;
              if e \<noteq> 0 then cantopen uindex j (s\<lparr>u_error := e\<rparr>)
              else do {
                let special = isdevice ino s;
                (r, s) \<leftarrow> (if special then dev_openi j flag s else Some (0, s));
                if r \<noteq> 0 then cantopen uindex j s
                else do {
                  let ino = (if special then the (o_inode (of_tab s j)) else ino);
                  (r, s) \<leftarrow> open_trunc ino flag s;
                  if r then idrop ino uindex j s
                  else do {
                    let s = open_done uindex j ino flag s;
                    (_, s) \<leftarrow> (if getmode ino s = MODE_R_PIPE \<and> o_refs (of_tab s j) = 1 \<and> flag AND O_NDELAY = 0
                              then psleep sw (EvInode ino) s else Some ((), s));
                    Some (of_nat uindex, s)
                  }
                }
              }
            }
        })))"

subsection \<open>link\<close>

definition u_link :: "(kst \<Rightarrow> kst option) \<Rightarrow> kst \<Rightarrow> (u16 \<times> kst) option" where
  "u_link sw s = do {
     ((r, _), s) \<leftarrow> n_open (u_argn s) False s;
     case r of
       None \<Rightarrow> Some (0xFFFF, s)
     | Some ino \<Rightarrow>
         let (e, s) = (if getmode ino s = MODE_R_DIR then esuper s else (False, s)) in
         if e then deref_ret ino 0xFFFF s
         else if i_nlink (c_node (i_tab s ino)) = 0xFFFF then deref_ret ino 0xFFFF (s\<lparr>u_error := EMLINK\<rparr>)
         else do {
           ((r, parent2), s) \<leftarrow> n_open (u_argn1 s) True s;
           case r of
             Some ino2 \<Rightarrow> do {
               (_, s) \<leftarrow> i_deref ino2 s;
               (_, s) \<leftarrow> i_deref_opt parent2 s;
               deref_ret ino 0xFFFF (s\<lparr>u_error := EEXIST\<rparr>)
             }
           | None \<Rightarrow>
               (case parent2 of
                  None \<Rightarrow> deref_ret ino 0xFFFF s
                | Some p2 \<Rightarrow>
                    if c_dev (i_tab s ino) \<noteq> c_dev (i_tab s p2) then do {
                      (_, s) \<leftarrow> i_deref p2 s;
                      deref_ret ino 0xFFFF (s\<lparr>u_error := EXDEV\<rparr>)
                    } else do {
                      (fname, s) \<leftarrow> filename (u_argn1 s) s;
                      (ok, s) \<leftarrow> ch_link sw p2 [] fname (Some ino) s;
                      if \<not> ok then do { (_, s) \<leftarrow> i_deref p2 s; deref_ret ino 0xFFFF s }
                      else do {
                        let s = upd_node ino (\<lambda>d. d\<lparr>i_nlink := i_nlink d + 1\<rparr>) s;
                        (_, s) \<leftarrow> wr_inode ino s;
                        let s = setftime ino C_TIME s;
                        (_, s) \<leftarrow> i_deref p2 s;
                        deref_ret ino 0 s
                      }
                    })
         }
   }"

subsection \<open>fcntl\<close>

abbreviation (input) F_GETFL :: u16 where "F_GETFL \<equiv> 0"
abbreviation (input) F_SETFL :: u16 where "F_SETFL \<equiv> 1"
abbreviation (input) F_GETFD :: u16 where "F_GETFD \<equiv> 2"
abbreviation (input) F_SETFD :: u16 where "F_SETFD \<equiv> 3"
abbreviation (input) F_DUPFD :: u16 where "F_DUPFD \<equiv> 4"

definition u_fcntl :: "kst \<Rightarrow> (u16 \<times> kst) option" where
  "u_fcntl s =
     (let fd = u_argn s; request = u_argn1 s; data = u_argn2 s; fdbit = push_bit (unat fd) 1 in do {
      (r, s) \<leftarrow> getinode (ucast fd) s;
      if r = None then Some (0xFFFF, s)
      else do {
        (j, s) \<leftarrow> oft_of fd s;
        if request = F_SETFL then
          Some (0, upd_o j (\<lambda>f. f\<lparr>o_access := (o_access f AND NOT (ucast (O_APPEND OR O_NDELAY)))
                                    OR ucast (data AND (O_APPEND OR O_NDELAY))\<rparr>) s)
        else if request = F_GETFL then Some (data, s)
        else if request = F_GETFD then Some (if u_cloexec s AND fdbit \<noteq> 0 then O_CLOEXEC else 0, s)
        else if request = F_SETFD then
          Some (0, s\<lparr>u_cloexec := (if data AND O_CLOEXEC \<noteq> 0 then u_cloexec s OR fdbit else u_cloexec s AND fdbit)\<rparr>)
        else if request = F_DUPFD then
          (case uf_alloc_n data s of
             (None, s) \<Rightarrow> Some (0xFFFF, s)
           | (Some newd, s) \<Rightarrow> do { (_, s) \<leftarrow> share fd newd s; Some (0, s) })
        else fail EINVAL s
      }
    })"

subsection \<open>flock\<close>

abbreviation (input) LOCK_SH :: u8 where "LOCK_SH \<equiv> 0"
abbreviation (input) LOCK_EX :: u8 where "LOCK_EX \<equiv> 1"
abbreviation (input) LOCK_UN :: u8 where "LOCK_UN \<equiv> 2"
abbreviation (input) LOCK_NB :: u16 where "LOCK_NB \<equiv> 16"

text \<open>The loop of \_flock(): the new value of the lock bits, or None where it returns -1.\<close>

partial_function (option) flock_loop ::
  "(kst \<Rightarrow> kst option) \<Rightarrow> nat \<Rightarrow> u8 \<Rightarrow> u8 \<Rightarrow> u8 \<Rightarrow> kst \<Rightarrow> (u8 option \<times> kst) option" where
  "flock_loop sw ino lock slf c s =
     (if c = slf \<and> lock = LOCK_EX then Some (Some CFLEX, s)
      else if c < CFMAX then Some (Some (c + 1), s)
      else if c = CFMAX then Some (None, s\<lparr>u_error := ENOLCK\<rparr>)
      else do {
        (r, s) \<leftarrow> psleep_flags sw (EvInodeFlags ino) (ucast (u_argn1 s AND LOCK_NB)) s;
        if r then Some (None, s)
        else flock_loop sw ino lock slf (c_flags (i_tab s ino) AND CFLOCK) s
      })"

text \<open>The label \<^verbatim>\<open>done\<close>.\<close>

definition flock_done :: "nat \<Rightarrow> nat \<Rightarrow> u8 \<Rightarrow> kst \<Rightarrow> (u16 \<times> kst) option" where
  "flock_done j ino c s = do {
     (_, s) \<leftarrow> (if o_access (of_tab s j) AND ucast O_FLOCK \<noteq> 0 then deflock j s else Some ((), s));
     let s = upd_i ino (\<lambda>n. n\<lparr>c_flags := (c_flags n AND NOT CFLOCK) OR c\<rparr>) s;
     let s = upd_o j (\<lambda>f. f\<lparr>o_access := o_access f OR ucast O_FLOCK\<rparr>) s;
     Some (0, wakeup (EvInodeFlags ino) s)
   }"

definition u_flock :: "(kst \<Rightarrow> kst option) \<Rightarrow> kst \<Rightarrow> (u16 \<times> kst) option" where
  "u_flock sw s =
     (let lock = ucast (u_argn1 s AND NOT LOCK_NB) :: u8 in
      if lock > LOCK_UN then fail EINVAL s
      else do {
        (r, s) \<leftarrow> getinode (ucast (u_argn s)) s;
        case r of
          None \<Rightarrow> Some (0xFFFF, s)
        | Some ino \<Rightarrow> do {
            (j, s) \<leftarrow> oft_of (u_argn s) s;
            let c = c_flags (i_tab s ino) AND CFLOCK;
            let mine = (o_access (of_tab s j) AND ucast O_FLOCK \<noteq> 0);
            if mine \<and> lock = LOCK_SH then flock_done j ino (if c = CFLEX then 1 else c) s
            else if mine \<and> c = CFLEX \<and> lock = LOCK_EX then Some (0, s)
            else if u_argn1 s = ucast LOCK_UN then do {
              let s = upd_o j (\<lambda>f. f\<lparr>o_access := o_access f AND NOT (ucast O_FLOCK)\<rparr>) s;
              (_, s) \<leftarrow> deflock j s;
              Some (0, s)
            } else do {
              (r, s) \<leftarrow> flock_loop sw ino lock (if mine then 1 else 0) c s;
              case r of None \<Rightarrow> Some (0xFFFF, s) | Some c \<Rightarrow> flock_done j ino c s
            }
          }
      })"

end
