(* ===== verification/DescSpec.thy ===== *)
theory DescSpec
  imports SysOpen IoFrame Sample
begin

text \<open>
  The account of open files: every entry of the open file table counts exactly the descriptors that
  refer to it, those of this process and the \<open>ext\<close> ones of the others. dup, dup2, close and fcntl keep
  it, on every path on which they return; \_pipe() loses an entry on one of its error paths.
\<close>

subsection \<open>What the layers below leave alone\<close>

definition desc :: "kst \<Rightarrow> (nat \<Rightarrow> oft) \<times> (nat \<Rightarrow> u8) \<times> u16" where
  "desc s = (of_tab s, u_files s, u_argn s)"

lemma desc_upd [simp]:
  "desc (upd_i i f s) = desc s" "desc (upd_node i h s) = desc s" "desc (upd_p p g s) = desc s"
  "desc (upd_b b k s) = desc s" "desc (s\<lparr>u_error := e\<rparr>) = desc s"
  by (simp_all add: desc_def upd_i_def upd_node_def upd_p_def upd_b_def)

lemma desc_pwake [simp]: "desc (pwake p s) = desc s"
  by (simp add: pwake_def desc_def upd_p_def)

lemma desc_wakeup [simp]: "desc (wakeup ev s) = desc s"
proof -
  have "desc (fold (\<lambda>p s. if P p s then pwake p s else s) ps t) = desc t" for P ps t
    by (induction ps arbitrary: t) auto
  then show ?thesis by (auto simp: wakeup_def Let_def desc_def)
qed

lemma desc_hull:
  assumes "fs_hull t = fs_hull s" shows "desc t = desc s"
proof -
  have "u_argn t = u_argn s"
    using assms [THEN arg_cong, of u_argn] by (simp add: fs_hull_def io_core_def)
  then show ?thesis using fs_hull_fields(5,6) [OF assms] by (simp add: desc_def)
qed

lemma desc_core: "io_core t = io_core s \<Longrightarrow> desc t = desc s"
  by (rule desc_hull) (rule fs_hull_core)

lemma i_deref_desc: "i_deref i s = Some (r, t) \<Longrightarrow> desc t = desc s"
  by (auto simp: i_deref_def magic_def bind_eq_Some_conv Let_def split: if_splits
      dest!: f_trunc_hull [THEN desc_hull] i_free_hull [THEN desc_hull] wr_inode_hull [THEN desc_hull])

lemma bdrop_desc:
  assumes "bdrop d s = Some (r, t)" shows "desc t = desc s"
  by (rule for_each_inv [where I = "\<lambda>t. desc t = desc s", OF _ _ assms [unfolded bdrop_def]])
    (auto simp: bdrop_step_def bind_eq_Some_conv dest!: bdput_core [THEN desc_core] split: if_splits)

lemma desc_drv_error [simp]: "desc (drv_error e s) = desc s"
  by (simp add: drv_error_def)

lemma d_close_desc: "d_close d s = Some (r, t) \<Longrightarrow> desc t = desc s"
  by (auto simp: d_close_def validchk_def bind_eq_Some_conv Let_def split_beta
      split: if_splits dest!: bdrop_desc)

lemma last_close_desc: "last_close i m s = Some (r, t) \<Longrightarrow> desc t = desc s"
  by (auto simp: last_close_def bind_eq_Some_conv Let_def split: if_splits dest!: d_close_desc)

lemma d_flush_desc: "desc (snd (d_flush x w)) = desc w"
  by (cases "d_flush x w") (auto dest: d_flush_core [THEN desc_core])

lemma deflock_desc: "deflock j s = Some (r, t) \<Longrightarrow> desc t = desc s"
  by (auto simp: deflock_def Let_def split: option.splits if_splits)

lemma getinode_Some:
  assumes "getinode f s = Some (Some i, t)"
  shows "t = s" "unat f < UFTSIZE" "u_files s (unat f) \<noteq> NO_FILE"
    "unat (u_files s (unat f)) < OFTSIZE" "o_inode (of_tab s (unat (u_files s (unat f)))) = Some i"
  using assms by (auto simp: getinode_def magic_def bind_eq_Some_conv Let_def split: if_splits option.splits)

lemma getinode_None:
  assumes "getinode f s = Some (None, t)"
  shows "t = s\<lparr>u_error := EBADF\<rparr>"
  using assms by (auto simp: getinode_def magic_def bind_eq_Some_conv Let_def split: if_splits option.splits)

lemma getinode_desc: "getinode f s = Some (r, t) \<Longrightarrow> desc t = desc s"
  by (cases r) (auto dest: getinode_Some getinode_None)

subsection \<open>The account\<close>

definition fd_refs :: "(nat \<Rightarrow> u8) \<Rightarrow> nat \<Rightarrow> nat" where
  "fd_refs fs j = card {f. f < UFTSIZE \<and> fs f = of_nat j}"

definition fds_ok :: "(nat \<Rightarrow> nat) \<Rightarrow> kst \<Rightarrow> bool" where
  "fds_ok ext s \<longleftrightarrow>
     (\<forall>f<UFTSIZE. u_files s f \<noteq> NO_FILE \<longrightarrow> unat (u_files s f) < OFTSIZE) \<and>
     (\<forall>j<OFTSIZE. unat (o_refs (of_tab s j)) = fd_refs (u_files s) j + ext j)"

lemma fds_ok_desc: "desc t = desc s \<Longrightarrow> fds_ok ext t = fds_ok ext s"
  by (simp add: desc_def fds_ok_def)

lemma fd_refs_le: "fd_refs fs j \<le> UFTSIZE"
proof -
  have "{f. f < UFTSIZE \<and> fs f = of_nat j} \<subseteq> {..<UFTSIZE}" by auto
  then have "card {f. f < UFTSIZE \<and> fs f = of_nat j} \<le> card {..<UFTSIZE}"
    by (intro card_mono) auto
  then show ?thesis by (simp add: fd_refs_def)
qed

lemma fd_refs_upd:
  assumes "f < UFTSIZE" "fs f \<noteq> of_nat j"
  shows "fd_refs (fs(f := v)) j = fd_refs fs j + (if v = of_nat j then 1 else 0)"
proof -
  let ?A = "{g. g < UFTSIZE \<and> fs g = of_nat j}"
  have "{g. g < UFTSIZE \<and> (fs(f := v)) g = of_nat j} = (if v = of_nat j then insert f ?A else ?A)"
    using assms by auto
  moreover have "f \<notin> ?A" "finite ?A" using assms by auto
  ultimately show ?thesis by (simp add: fd_refs_def)
qed

lemma fd_refs_drop:
  assumes "f < UFTSIZE" "fs f = of_nat j" "v \<noteq> of_nat j"
  shows "fd_refs fs j = Suc (fd_refs (fs(f := v)) j)"
proof -
  have "fs = (fs(f := v))(f := of_nat j)" using assms by auto
  then have "fd_refs fs j = fd_refs ((fs(f := v))(f := of_nat j)) j" by (rule arg_cong)
  also have "\<dots> = fd_refs (fs(f := v)) j + 1" using assms by (subst fd_refs_upd) auto
  finally show ?thesis by simp
qed

text \<open>A file index and a small number are the same byte.\<close>

lemma byte_index: "j < OFTSIZE \<Longrightarrow> (b = of_nat j) = (unat b = j)" for b :: u8
  by (simp add: word_unat_eq_iff unat_of_nat take_bit_nat_eq_self)

lemma share_fds:
  assumes ok: "fds_ok ext s" and ext: "\<forall>j. ext j + UFTSIZE < 256"
    and newd: "newd < UFTSIZE" "u_files s newd = NO_FILE" and sh: "share fd newd s = Some (r, t)"
  shows "fds_ok ext t"
proof -
  define f where "f = u_files s (unat fd)"
  have fd: "unat fd < UFTSIZE" and j: "unat f < OFTSIZE"
    and t: "t = upd_o (unat f) (\<lambda>x. x\<lparr>o_refs := o_refs x + 1\<rparr>) (s\<lparr>u_files := (u_files s)(newd := f)\<rparr>)"
    using sh by (auto simp: share_def oft_of_def ufile_def f_def bind_eq_Some_conv Let_def split: if_splits)
  have refs: "unat (o_refs (of_tab t k)) = fd_refs (u_files t) k + ext k" if k: "k < OFTSIZE" for k
  proof -
    have "fd_refs (u_files t) k = fd_refs (u_files s) k + (if f = of_nat k then 1 else 0)"
      using newd k by (simp add: t upd_o_def fd_refs_upd byte_index del: of_nat_numeral)
    moreover have "fd_refs (u_files t) k \<le> UFTSIZE" by (rule fd_refs_le)
    moreover have "ext k + UFTSIZE < 256" using ext by blast
    moreover have "unat (o_refs (of_tab s k)) = fd_refs (u_files s) k + ext k"
      using ok k by (simp add: fds_ok_def)
    ultimately show ?thesis using k j
      by (auto simp: t upd_o_def byte_index unat_plus_if_size word_size)
  qed
  moreover have "unat (u_files t g) < OFTSIZE" if "g < UFTSIZE" "u_files t g \<noteq> NO_FILE" for g
    using that ok j by (auto simp: t upd_o_def fds_ok_def split: if_splits)
  ultimately show ?thesis by (simp add: fds_ok_def)
qed

text \<open>Dropping an open file touches nothing else of the account.\<close>

lemma oft_deref_desc:
  assumes "oft_deref j s = Some (r, t)"
  shows "u_files t = u_files s"
    "o_refs (of_tab t k) = (if k = j then o_refs (of_tab s j) - 1 else o_refs (of_tab s k))"
proof -
  let ?u = "upd_o j (\<lambda>f. f\<lparr>o_refs := o_refs f - 1\<rparr>) s"
  have "u_files t = u_files s \<and> o_refs (of_tab t k) = o_refs (of_tab ?u k)"
  proof (cases "o_refs (of_tab ?u j) = 0 \<and> o_inode (of_tab ?u j) \<noteq> None")
    case True
    then obtain v w i where "deflock j ?u = Some ((), v)" "i_deref i v = Some ((), w)"
      "t = upd_o j (\<lambda>f. f\<lparr>o_inode := None\<rparr>) w"
      using assms by (auto simp: oft_deref_def i_deref_opt_def Let_def bind_eq_Some_conv split: option.splits)
    then show ?thesis using deflock_desc [of j ?u] i_deref_desc [of i v]
      by (auto simp: desc_def upd_o_def)
  next
    case False
    then show ?thesis using assms by (auto simp: oft_deref_def Let_def upd_o_def)
  qed
  then show "u_files t = u_files s"
    "o_refs (of_tab t k) = (if k = j then o_refs (of_tab s j) - 1 else o_refs (of_tab s k))"
    by (auto simp: upd_o_def)
qed

text \<open>doclose() once its descriptor is known to be good, step by step.\<close>

lemma doclose_go:
  assumes "getinode u s = Some (Some i, s)"
  shows "doclose u s = do {
         let j = unat (u_files s (unat u));
         let m = o_access (of_tab s j) AND 3;
         (flush_dev, s) \<leftarrow> (if o_refs (of_tab s j) = 1 then last_close i m s else Some (NO_DEVICE, s));
         let s = s\<lparr>u_files := (u_files s)(unat u := NO_FILE),
                   u_cloexec := u_cloexec s AND NOT (push_bit (unat u) 1)\<rparr>;
         (_, s) \<leftarrow> oft_deref j s;
         let s = (if flush_dev \<noteq> NO_DEVICE then snd (d_flush flush_dev s) else s);
         Some (0, s)
       }"
  unfolding doclose_def assms by (simp only: Option.bind.bind_lunit prod.case option.case)

lemma doclose_None:
  assumes "getinode u s = Some (None, v)"
  shows "doclose u s = Some (0xFFFF, v)"
  unfolding doclose_def assms by (simp only: Option.bind.bind_lunit prod.case option.case)

lemma doclose_Some:
  assumes "getinode u s = Some (Some i, s)" "doclose u s = Some (r, t)"
  defines "j \<equiv> unat (u_files s (unat u))"
  obtains x v w where "(if o_refs (of_tab s j) = 1 then last_close i (o_access (of_tab s j) AND 3) s
            else Some (NO_DEVICE, s)) = Some (x, v)"
    "oft_deref j (v\<lparr>u_files := (u_files v)(unat u := NO_FILE),
          u_cloexec := u_cloexec v AND NOT (push_bit (unat u) 1)\<rparr>) = Some ((), w)"
    "t = (if x \<noteq> NO_DEVICE then snd (d_flush x w) else w)" "r = 0"
proof -
  note c = assms(2) [unfolded doclose_go [OF assms(1)] Let_def, folded j_def]
  from c obtain p where p: "(if o_refs (of_tab s j) = 1 then last_close i (o_access (of_tab s j) AND 3) s
            else Some (NO_DEVICE, s)) = Some p" by (rule bind_SomeD)
  obtain x v where xv: "p = (x, v)" by (cases p)
  note c = c [unfolded p xv, simplified Option.bind.bind_lunit prod.case]
  from c obtain q where q: "oft_deref j (v\<lparr>u_files := (u_files v)(unat u := NO_FILE),
          u_cloexec := u_cloexec v AND NOT (push_bit (unat u) 1)\<rparr>) = Some q" by (rule bind_SomeD)
  obtain w where w: "q = ((), w)" by (cases q) auto
  note c = c [unfolded q w, simplified Option.bind.bind_lunit prod.case]
  show ?thesis
    by (rule that [OF p [unfolded xv] q [unfolded w]]) (use c in auto)
qed
lemma doclose_fds:
  assumes ok: "fds_ok ext s" and c: "doclose u s = Some (r, t)"
  shows "fds_ok ext t" "\<And>g. u_files t g = (if r = 0 \<and> g = unat u then NO_FILE else u_files s g)"
proof -
  have *: "fds_ok ext t \<and> (\<forall>g. u_files t g = (if r = 0 \<and> g = unat u then NO_FILE else u_files s g))"
  proof (cases "r = 0")
    case False
    obtain x v where x: "getinode u s = Some (x, v)" using c by (auto simp: doclose_def elim!: bind_SomeD)
    have "x = None"
    proof (rule ccontr)
      assume "x \<noteq> None"
      then obtain i where i: "getinode u s = Some (Some i, s)" using x getinode_Some(1) by (cases x) auto
      show False by (rule doclose_Some [OF i c]) (use False in simp)
    qed
    then have "desc t = desc s" using c x getinode_desc [OF x] doclose_None [of u s v] by simp
    then have "fds_ok ext t" "u_files t = u_files s"
      using ok fds_ok_desc [of t s ext] by (simp_all add: desc_def)
    then show ?thesis using False by simp
  next
    case True
    define j where "j = unat (u_files s (unat u))"
    obtain i v d w where i: "getinode u s = Some (Some i, s)"
      and v: "desc v = desc s" and w: "oft_deref j (v\<lparr>u_files := (u_files v)(unat u := NO_FILE), u_cloexec := d\<rparr>)
        = Some ((), w)" and t: "desc t = desc w"
    proof -
      obtain x y where x: "getinode u s = Some (x, y)" using c by (auto simp: doclose_def elim!: bind_SomeD)
      then obtain i where i: "getinode u s = Some (Some i, s)"
        using doclose_None [of u s y] c True by (cases x) (auto dest: getinode_Some(1))
      then obtain x v w where v: "(if o_refs (of_tab s j) = 1 then last_close i (o_access (of_tab s j) AND 3) s
            else Some (NO_DEVICE, s)) = Some (x, v)"
        and w: "oft_deref j (v\<lparr>u_files := (u_files v)(unat u := NO_FILE),
          u_cloexec := u_cloexec v AND NOT (push_bit (unat u) 1)\<rparr>) = Some ((), w)"
        and t: "t = (if x \<noteq> NO_DEVICE then snd (d_flush x w) else w)"
        using c unfolding j_def by (rule doclose_Some)
      have "desc v = desc s" using v last_close_desc by (auto split: if_splits)
      moreover have "desc t = desc w"
        by (simp add: t d_flush_desc)
      ultimately show ?thesis using that i w by blast
    qed
    note gi = getinode_Some [OF i, folded j_def]
    have fu: "u_files s (unat u) = of_nat j" by (simp add: j_def)
    have ft: "u_files t = (u_files s)(unat u := NO_FILE)"
      using oft_deref_desc(1) [OF w] v t by (simp add: desc_def)
    have "unat (o_refs (of_tab t k)) = fd_refs (u_files t) k + ext k" if k: "k < OFTSIZE" for k
    proof -
      have r: "o_refs (of_tab t k) = (if k = j then o_refs (of_tab s j) - 1 else o_refs (of_tab s k))"
        using oft_deref_desc(2) [OF w, of k] v t by (simp add: desc_def)
      have s: "unat (o_refs (of_tab s k)) = fd_refs (u_files s) k + ext k"
        using ok k by (simp add: fds_ok_def)
      have nf: "NO_FILE \<noteq> (of_nat k :: u8)" using k by (simp add: byte_index)
      show ?thesis
      proof (cases "k = j")
        case True
        then have "fd_refs (u_files s) k = Suc (fd_refs (u_files t) k)"
          using fd_refs_drop [OF gi(2), of "u_files s" k NO_FILE] fu nf by (simp add: ft)
        then show ?thesis using s r True
          by (cases "o_refs (of_tab s j) = 0") (auto simp: unat_minus_one)
      next
        case False
        then have "of_nat j \<noteq> (of_nat k :: u8)" using k gi(4) False byte_index [of j "of_nat j"] byte_index [of k "of_nat j"] by auto
        then show ?thesis using fd_refs_upd [OF gi(2), of "u_files s" k NO_FILE] fu nf s r False
          by (simp add: ft)
      qed
    qed
    moreover have "unat (u_files t g) < OFTSIZE" if "g < UFTSIZE" "u_files t g \<noteq> NO_FILE" for g
      using that ok by (auto simp: ft fds_ok_def split: if_splits)
    ultimately show ?thesis using True by (simp add: fds_ok_def ft)
  qed
  then show "fds_ok ext t" "\<And>g. u_files t g = (if r = 0 \<and> g = unat u then NO_FILE else u_files s g)"
    by auto
qed

lemma oft_deref_argn: "oft_deref j s = Some (r, t) \<Longrightarrow> u_argn t = u_argn s"
  by (auto simp: oft_deref_def i_deref_opt_def upd_o_def desc_def Let_def elim!: bind_SomeD
      split: if_splits option.splits dest!: deflock_desc i_deref_desc)

lemma doclose_argn:
  assumes c: "doclose u s = Some (r, t)" shows "u_argn t = u_argn s"
proof -
  obtain x v where x: "getinode u s = Some (x, v)" using c by (auto simp: doclose_def elim!: bind_SomeD)
  show ?thesis
  proof (cases x)
    case None
    then show ?thesis using doclose_None [of u s v] c x getinode_desc [OF x] by (simp add: desc_def)
  next
    case (Some i)
    then have i: "getinode u s = Some (Some i, s)" using x getinode_Some(1) by auto
    show ?thesis
    proof (rule doclose_Some [OF i c])
      fix x v w
      assume v: "(if o_refs (of_tab s (unat (u_files s (unat u)))) = 1
          then last_close i (o_access (of_tab s (unat (u_files s (unat u)))) AND 3) s
          else Some (NO_DEVICE, s)) = Some (x, v)"
        and w: "oft_deref (unat (u_files s (unat u))) (v\<lparr>u_files := (u_files v)(unat u := NO_FILE),
          u_cloexec := u_cloexec v AND NOT (push_bit (unat u) 1)\<rparr>) = Some ((), w)"
        and t: "t = (if x \<noteq> NO_DEVICE then snd (d_flush x w) else w)"
      have "u_argn v = u_argn s" using v last_close_desc by (auto simp: desc_def split: if_splits)
      moreover have "u_argn w = u_argn v" using oft_deref_argn [OF w] by simp
      moreover have "u_argn t = u_argn w" using d_flush_desc [of x w] by (simp add: t desc_def)
      ultimately show ?thesis by simp
    qed
  qed
qed

subsection \<open>Runs of calls\<close>

text \<open>
  One call with any arguments. The dispatcher clears u\_error first, which the account does not look at.
\<close>

definition with_args :: "u16 \<Rightarrow> u16 \<Rightarrow> u16 \<Rightarrow> kst \<Rightarrow> kst" where
  "with_args a b c s = s\<lparr>u_argn := a, u_argn1 := b, u_argn2 := c\<rparr>"

inductive fd_call :: "kst \<Rightarrow> u16 \<Rightarrow> kst \<Rightarrow> bool" where
  dup: "u_dup (with_args a b c s) = Some (r, t) \<Longrightarrow> fd_call s r t"
| dup2: "u_dup2 (with_args a b c s) = Some (r, t) \<Longrightarrow> fd_call s r t"
| fcntl: "u_fcntl (with_args a b c s) = Some (r, t) \<Longrightarrow> fd_call s r t"
| close: "u_close (with_args a b c s) = Some (r, t) \<Longrightarrow> fd_call s r t"

inductive fd_calls :: "kst \<Rightarrow> u16 list \<Rightarrow> kst \<Rightarrow> bool" where
  none: "fd_calls s [] s"
| more: "fd_calls s rs t \<Longrightarrow> fd_call t r u \<Longrightarrow> fd_calls s (rs @ [r]) u"

lemma uf_alloc_n_Some:
  assumes "uf_alloc_n b s = (Some j, t)"
  shows "t = s" "j < UFTSIZE" "u_files s j = NO_FILE"
  using assms by (auto simp: uf_alloc_n_def find_Some_iff split: option.splits)

lemma uf_alloc_n_None: "uf_alloc_n b s = (None, t) \<Longrightarrow> desc t = desc s"
  by (auto simp: uf_alloc_n_def split: option.splits)

lemma u_dup_fds:
  assumes "fds_ok ext s" "\<forall>j. ext j + UFTSIZE < 256" "u_dup s = Some (r, t)"
  shows "fds_ok ext t"
proof -
  obtain x v where x: "getinode (ucast (u_argn s)) s = Some (x, v)"
    using assms(3) by (auto simp: u_dup_def elim!: bind_SomeD)
  have v: "fds_ok ext v" using assms(1) getinode_desc [OF x] fds_ok_desc [of v s ext] by simp
  show ?thesis
  proof (cases "x = None")
    case True
    then show ?thesis using assms(3) x v by (simp add: u_dup_def)
  next
    case False
    obtain y w where y: "uf_alloc_n 0 v = (y, w)" by fastforce
    show ?thesis
    proof (cases y)
      case None
      then have "t = w" using assms(3) x y False by (simp add: u_dup_def uf_alloc_def)
      then show ?thesis using uf_alloc_n_None [of 0 v w] y None v fds_ok_desc [of w v ext] by simp
    next
      case (Some j)
      note a = uf_alloc_n_Some [OF y [unfolded Some]]
      then obtain w' where "share (u_argn v) j v = Some ((), w')" "t = w'"
        using assms(3) x y False Some by (auto simp: u_dup_def uf_alloc_def elim!: bind_SomeD)
      then show ?thesis using share_fds [OF v assms(2) a(2,3)] by simp
    qed
  qed
qed

lemma getinode_refused:
  "getinode f s = Some (None, t) \<Longrightarrow> unat f \<ge> UFTSIZE \<or> u_files s (unat f) = NO_FILE"
  by (auto simp: getinode_def magic_def bind_eq_Some_conv Let_def split: if_splits option.splits)

lemma small_fd:
  assumes "\<not> (a <s 0 \<or> (10::u16) \<le>s a)"
  shows "unat a < UFTSIZE" "unat (ucast a :: u8) = unat a"
proof -
  have a: "0 \<le> sint a" "sint a < 10" using assms by (auto simp: word_sless_alt word_sle_eq)
  then have "uint a = sint a" by (simp only: uint_sint) (simp add: take_bit_int_eq_self)
  moreover have "int (unat a) = uint a" by simp
  ultimately show "unat a < UFTSIZE" using a by linarith
  then show "unat (ucast a :: u8) = unat a"
    by (simp add: unsigned_ucast_eq take_bit_nat_eq_self)
qed

lemma u_dup2_fds:
  assumes ok: "fds_ok ext s" and ext: "\<forall>j. ext j + UFTSIZE < 256" and c: "u_dup2 s = Some (r, t)"
  shows "fds_ok ext t"
proof -
  obtain x v where x: "getinode (ucast (u_argn s)) s = Some (x, v)"
    using c by (auto simp: u_dup2_def elim!: bind_SomeD)
  have v: "fds_ok ext v" using ok getinode_desc [OF x] fds_ok_desc [of v s ext] by simp
  show ?thesis
  proof (cases "x = None \<or> u_argn1 v <s 0 \<or> of_nat UFTSIZE \<le>s u_argn1 v")
    case True
    then have "desc t = desc v" using c x by (auto simp: u_dup2_def fail_def split: if_splits)
    then show ?thesis using v fds_ok_desc [of t v ext] by simp
  next
    case False
    let ?n = "unat (u_argn1 v)"
    note n = small_fd [of "u_argn1 v"]
    have n': "?n < UFTSIZE" "unat (ucast (u_argn1 v) :: u8) = ?n" using False n by auto
    obtain y w t' where y: "(if u_files v ?n \<noteq> NO_FILE then doclose (ucast (u_argn1 v)) v else Some (0, v)) = Some (y, w)"
      and t': "share (u_argn w) ?n w = Some ((), t')" "t = t'"
      using c x False by (auto simp: u_dup2_def Let_def elim!: bind_SomeD)
    have w: "fds_ok ext w \<and> u_files w ?n = NO_FILE"
    proof (cases "u_files v ?n = NO_FILE")
      case True
      then show ?thesis using y v by simp
    next
      case False
      then have d: "doclose (ucast (u_argn1 v)) v = Some (y, w)" using y by simp
      obtain z u where z: "getinode (ucast (u_argn1 v)) v = Some (z, u)"
        using d by (auto simp: doclose_def elim!: bind_SomeD)
      obtain i where i: "z = Some i"
        using getinode_refused [of "ucast (u_argn1 v)" v u] z n' False by (cases z) auto
      have "getinode (ucast (u_argn1 v)) v = Some (Some i, v)" using z i getinode_Some(1) by auto
      then have "y = 0" using d by (rule doclose_Some)
      then show ?thesis using doclose_fds [OF v d] n' by simp
    qed
    then show ?thesis using share_fds [OF _ ext n'(1) _ t'(1)] t'(2) by simp
  qed
qed

lemma u_fcntl_fds:
  assumes ok: "fds_ok ext s" and ext: "\<forall>j. ext j + UFTSIZE < 256" and c: "u_fcntl s = Some (r, t)"
  shows "fds_ok ext t"
proof -
  obtain x v where x: "getinode (ucast (u_argn s)) s = Some (x, v)"
    using c by (auto simp: u_fcntl_def Let_def elim!: bind_SomeD)
  have v: "fds_ok ext v" using ok getinode_desc [OF x] fds_ok_desc [of v s ext] by simp
  have acc: "fds_ok ext (upd_o j (\<lambda>f. f\<lparr>o_access := g f\<rparr>) v)" for j g
    using v by (auto simp: fds_ok_def upd_o_def)
  show ?thesis
  proof (cases "x = None")
    case True
    then show ?thesis using c x v by (simp add: u_fcntl_def Let_def)
  next
    case False
    obtain j where j: "oft_of (u_argn s) v = Some (j, v)"
      using c x False by (auto simp: u_fcntl_def Let_def oft_of_def ufile_def elim!: bind_SomeD split: if_splits)
    note c' = c [unfolded u_fcntl_def Let_def x Option.bind.bind_lunit prod.case j if_not_P [OF False]]
    show ?thesis
    proof (cases "u_argn1 s = F_DUPFD")
      case True
      obtain y w where y: "uf_alloc_n (u_argn2 s) v = (y, w)" by fastforce
      show ?thesis
      proof (cases y)
        case None
        then have "t = w" using c' y True by simp
        then show ?thesis using uf_alloc_n_None [of "u_argn2 s" v w] y None v fds_ok_desc [of w v ext] by simp
      next
        case (Some k)
        note a = uf_alloc_n_Some [OF y [unfolded Some]]
        then obtain w' where "share (u_argn s) k v = Some ((), w')" "t = w'"
          using c' y True Some by (auto elim!: bind_SomeD)
        then show ?thesis using share_fds [OF v ext a(2,3)] by simp
      qed
    next
      case False
      then have "desc t = desc v \<or> (\<exists>j g. t = upd_o j (\<lambda>f. f\<lparr>o_access := g f\<rparr>) v)"
        using c' by (auto simp: desc_def fail_def split: if_splits)
      then show ?thesis using v acc fds_ok_desc [of t v ext] by auto
    qed
  qed
qed

lemma fd_call_fds:
  assumes "fd_call s r t" "fds_ok ext s" "\<forall>j. ext j + UFTSIZE < 256"
  shows "fds_ok ext t"
proof -
  have a: "fds_ok ext (with_args a b c s)" for a b c using assms(2) by (simp add: with_args_def fds_ok_def)
  from assms(1) show ?thesis
  proof cases
    case (dup a b c)
    then show ?thesis by (rule u_dup_fds [OF a assms(3)])
  next
    case (dup2 a b c)
    then show ?thesis by (rule u_dup2_fds [OF a assms(3)])
  next
    case (fcntl a b c)
    then show ?thesis by (rule u_fcntl_fds [OF a assms(3)])
  next
    case (close a b c)
    then show ?thesis unfolding u_close_def by (rule doclose_fds(1) [OF a])
  qed
qed

text \<open>C7: In any sequence of dup, dup2, fcntl and close calls of a process, with any arguments and
  whatever they return, every entry of the open file table keeps counting exactly the descriptors that refer to
  it (those of this process and those of the other processes), and every descriptor in use stays a valid
  index of the table.\<close>

theorem descriptors_counted:
  assumes "fd_calls s rs t" and "fds_ok ext s" and "\<forall>j. ext j + UFTSIZE < 256"
  shows "fds_ok ext t"
  using assms by (induction rule: fd_calls.induct) (blast intro: fd_call_fds)+

text \<open>One regular file open as descriptor 0.\<close>

definition sample_open :: kst where
  "sample_open = sample\<lparr>i_tab := (\<lambda>_. sample_cinode\<lparr>c_magic := CMAGIC, c_num := 2, c_refs := 1\<rparr>),
     of_tab := (\<lambda>j. if j = 0 then sample_oft\<lparr>o_inode := Some 0, o_refs := 1\<rparr> else sample_oft),
     u_files := (\<lambda>f. if f = 0 then 0 else NO_FILE)\<rparr>"

lemma sample_open_ok: "fds_ok (\<lambda>_. 0) sample_open"
proof -
  have "{f. f < UFTSIZE \<and> (if f = 0 then 0 else NO_FILE) = (of_nat j :: u8)} = (if j = 0 then {0} else {})"
    if "j < OFTSIZE" for j
    using that by (auto simp: byte_index split: if_splits)
  then show ?thesis by (auto simp: fds_ok_def fd_refs_def sample_open_def sample_oft_def sample_def)
qed

lemma sample_dup: "\<exists>t. u_dup (with_args 0 0 0 sample_open) = Some (1, t)
    \<and> u_files t 1 = 0 \<and> o_refs (of_tab t 0) = 2 \<and> o_inode (of_tab t 0) = Some 0
    \<and> i_tab t = i_tab sample_open"
  by (simp add: u_dup_def getinode_def with_args_def sample_open_def sample_defs magic_def uf_alloc_def
      uf_alloc_n_def share_def ufile_def oft_of_def upd_o_def Let_def upt_rec)

lemma sample_close:
  assumes "u_files t 1 = 0" "o_refs (of_tab t 0) = 2" "o_inode (of_tab t 0) = Some 0" "i_tab t = i_tab sample_open"
  shows "\<exists>u. u_close (with_args 1 0 0 t) = Some (0, u)"
  using assms by (simp add: u_close_def doclose_def getinode_def with_args_def sample_open_def sample_defs magic_def
      oft_deref_def upd_o_def Let_def)

theorem descriptors_counted_witness:
  "fds_ok (\<lambda>_. 0) sample_open \<and> (\<exists>t. fd_calls sample_open [1, 0] t \<and> fds_ok (\<lambda>_. 0) t)"
proof -
  obtain t where t: "u_dup (with_args 0 0 0 sample_open) = Some (1, t)" "u_files t 1 = 0"
    "o_refs (of_tab t 0) = 2" "o_inode (of_tab t 0) = Some 0" "i_tab t = i_tab sample_open"
    using sample_dup by blast
  obtain u where u: "u_close (with_args 1 0 0 t) = Some (0, u)" using sample_close [OF t(2-)] by blast
  have "fd_calls sample_open ([] @ [1]) t" by (rule fd_calls.more [OF fd_calls.none]) (rule fd_call.dup [OF t(1)])
  then have "fd_calls sample_open (([] @ [1]) @ [0]) u" by (rule fd_calls.more) (rule fd_call.close [OF u])
  then have run: "fd_calls sample_open [1, 0] u" by simp
  then show ?thesis using descriptors_counted [OF run sample_open_ok] sample_open_ok by auto
qed

text \<open>dup2(fd, fd) on an open descriptor is not the no-op it should be: it closes the descriptor and then takes
  the entry number from the closed slot, so the code increments a count outside the open file table (or the close
  panics); in the model, where that access has no value, the call never returns.\<close>

theorem dup2_onto_itself:
  assumes open_fd: "unat (u_argn s) < UFTSIZE" "u_files s (unat (u_argn s)) \<noteq> NO_FILE"
    and same: "u_argn1 s = u_argn s" and ok: "fds_ok ext s"
  shows "u_dup2 s = None"
proof (rule ccontr)
  let ?n = "unat (u_argn s)" and ?f = "ucast (u_argn s) :: u8"
  assume "u_dup2 s \<noteq> None"
  then obtain r t where c: "u_dup2 s = Some (r, t)" by auto
  have n: "unat ?f = ?n" using open_fd by (simp add: unsigned_ucast_eq take_bit_nat_eq_self)
  obtain x v where x: "getinode ?f s = Some (x, v)"
    using c by (auto simp: u_dup2_def elim!: bind_SomeD)
  then obtain i where i: "getinode ?f s = Some (Some i, s)"
    using getinode_refused [of ?f s v] open_fd n by (cases x) (auto dest: getinode_Some(1))
  have range: "\<not> (u_argn s <s 0 \<or> of_nat UFTSIZE \<le>s u_argn s)"
  proof -
    have "uint (u_argn s) < 10" using open_fd(1) by (metis of_nat_numeral of_nat_less_iff of_nat_unat)
    then have "sint (u_argn s) = uint (u_argn s)"
      by (auto simp: sint_uint signed_take_bit_int_eq_self_iff intro: order_trans [OF _ uint_ge_0])
    then show ?thesis using \<open>uint (u_argn s) < 10\<close> by (simp add: word_sless_alt word_sle_eq)
  qed
  then obtain y w t' where d: "doclose ?f s = Some (y, w)" and sh: "share (u_argn w) ?n w = Some ((), t')"
    using c i same open_fd by (auto simp: u_dup2_def Let_def elim!: bind_SomeD)
  have "y = 0" using i d by (rule doclose_Some)
  then have "u_files w ?n = NO_FILE" using doclose_fds(2) [OF ok d] n by simp
  moreover have "u_argn w = u_argn s" using d by (rule doclose_argn)
  ultimately show False using sh by (auto simp: share_def ufile_def oft_of_def Let_def split: if_splits)
qed

theorem dup2_onto_itself_witness: "u_dup2 (with_args 0 0 0 sample_open) = None"
proof (rule dup2_onto_itself)
  show "fds_ok (\<lambda>_. 0) (with_args 0 0 0 sample_open)"
    using sample_open_ok by (simp add: with_args_def fds_ok_def)
qed (simp_all add: with_args_def sample_open_def sample_def)

end
