(* ===== verification/FileSpec.thy ===== *)
theory FileSpec
  imports FileIO
begin

text \<open>
  What a file is: the sequence of bytes its block map and the blocks of its device spell. Reading
  delivers these bytes, and overwriting changes the bytes of the range written and no others.
\<close>

subsection \<open>The memory a transfer goes to\<close>

definition mem_of :: "kst \<Rightarrow> u16 \<Rightarrow> u8" where
  "mem_of s = (if u_sysio s then kmem s else umem s)"

definition set_mem :: "(u16 \<Rightarrow> u8) \<Rightarrow> kst \<Rightarrow> kst" where
  "set_mem m s = (if u_sysio s then s\<lparr>kmem := m\<rparr> else s\<lparr>umem := m\<rparr>)"

text \<open>A buffer of \<open>n\<close> bytes that lies inside the memory of the process, or is the kernel's.\<close>

definition mem_ok :: "kst \<Rightarrow> nat \<Rightarrow> bool" where
  "mem_ok s n \<longleftrightarrow> u_sysio s \<or> u_base s \<noteq> 0 \<and> progbase (plat s) \<le> u_base s \<and> unat (u_base s) + n \<le> unat (u_top s)"

lemma valaddr_inside:
  assumes "base \<noteq> 0" "progbase (plat s) \<le> base" "unat base + n \<le> unat (u_top s)" "0 < n"
  shows "valaddr base (of_nat n) s = (of_nat n, s)" "unat (of_nat n :: u16) = n"
proof -
  have n: "n < 65536" using assms(3) u16_bound [of "u_top s"] by simp
  then show un: "unat (of_nat n :: u16) = n" by (simp add: unat_of_nat)
  have sum: "unat (base + of_nat n) = unat base + n"
    using assms(3) un u16_bound [of "u_top s"] by (simp add: unat_word_ariths)
  have "\<not> base + of_nat n < base" "\<not> u_top s < base + of_nat n"
    using sum assms(3) by (simp_all add: word_less_nat_alt)
  moreover have "(of_nat n :: u16) \<noteq> 0" using un assms(4) by (metis unat_0 less_numeral_extra(3))
  ultimately show "valaddr base (of_nat n) s = (of_nat n, s)"
    using assms(1,2) by (simp add: valaddr_def Let_def)
qed

lemma uputblk_mem:
  assumes "mem_ok s n" "0 < n"
  shows "uputblk b off n s = set_mem (put_range (u_base s) (get_bytes (bf_data (bufpool s b)) off n) (mem_of s)) s"
proof (cases "u_sysio s")
  case False
  then have ok: "u_base s \<noteq> 0" "progbase (plat s) \<le> u_base s" "unat (u_base s) + n \<le> unat (u_top s)"
    using assms(1) by (simp_all add: mem_ok_def)
  note v = valaddr_inside [OF ok assms(2)]
  have "(of_nat n :: u16) \<noteq> 0" using v(2) assms(2) by (metis unat_0 less_numeral_extra(3))
  moreover have "n \<le> 65536" using ok(3) u16_bound [of "u_top s"] by simp
  ultimately show ?thesis
    using False v by (simp add: uputblk_def uput_def set_mem_def mem_of_def Let_def uput_raw_range)
qed (simp add: uputblk_def set_mem_def mem_of_def Let_def)

lemma ugetblk_mem:
  assumes "mem_ok s n" "0 < n"
  shows "ugetblk b off n s = blkfromk (get_range (mem_of s) (u_base s) n) b off s"
proof (cases "u_sysio s")
  case False
  then have ok: "u_base s \<noteq> 0" "progbase (plat s) \<le> u_base s" "unat (u_base s) + n \<le> unat (u_top s)"
    using assms(1) by (simp_all add: mem_ok_def)
  note v = valaddr_inside [OF ok assms(2)]
  have "(of_nat n :: u16) \<noteq> 0" using v(2) assms(2) by (metis unat_0 less_numeral_extra(3))
  then show ?thesis
    using False v by (simp add: ugetblk_def uget_def mem_of_def uget_raw_range)
qed (simp add: ugetblk_def mem_of_def)

lemma mem_ok_shift:
  assumes "mem_ok s n" "k \<le> n" "u_base t = u_base s + of_nat k" "u_sysio t = u_sysio s"
    "plat t = plat s" "u_top t = u_top s"
  shows "mem_ok t (n - k)"
proof (cases "u_sysio s")
  case True
  then show ?thesis using assms(4) by (simp add: mem_ok_def)
next
  case False
  then have ok: "u_base s \<noteq> 0" "progbase (plat s) \<le> u_base s" "unat (u_base s) + n \<le> unat (u_top s)"
    using assms(1) by (simp_all add: mem_ok_def)
  have k: "unat (of_nat k :: u16) = k" using ok(3) assms(2) u16_bound [of "u_top s"] by (simp add: unat_of_nat)
  have b: "unat (u_base t) = unat (u_base s) + k"
    using ok(3) assms(2,3) k u16_bound [of "u_top s"] by (simp add: unat_word_ariths)
  then have "u_base s \<le> u_base t" by (simp add: word_le_nat_alt)
  then show ?thesis
    using ok assms b False unat_gt_0 [of "u_base s"] unat_gt_0 [of "u_base t"]
    by (auto simp: mem_ok_def)
qed

lemma mem_ok_mono: "mem_ok s n \<Longrightarrow> k \<le> n \<Longrightarrow> mem_ok s k"
  by (auto simp: mem_ok_def)

lemma set_mem_fields [simp]:
  "bufpool (set_mem m s) = bufpool s" "nbufs (set_mem m s) = nbufs s" "disk (set_mem m s) = disk s"
  "plat (set_mem m s) = plat s" "u_error (set_mem m s) = u_error s" "fs_tab (set_mem m s) = fs_tab s"
  "i_tab (set_mem m s) = i_tab s" "u_sysio (set_mem m s) = u_sysio s" "u_base (set_mem m s) = u_base s"
  "u_offset (set_mem m s) = u_offset s" "u_count (set_mem m s) = u_count s" "mem_of (set_mem m s) = m"
  by (simp_all add: set_mem_def mem_of_def)

text \<open>Updates that the buffer pool does not see.\<close>

lemma io_cong:
  assumes "nbufs t = nbufs s" "bufpool t = bufpool s" "disk t = disk s" "plat t = plat s"
  shows "cache_ok t = cache_ok s" "view t = view s" "busy_set t = busy_set s" "disk_ok t d = disk_ok s d"
    "avail t d k = avail s d k" "io_step u t V = io_step u s V" "io_step t u V = io_step s u V"
proof -
  note c = cache_cong [OF assms]
  show "cache_ok t = cache_ok s" "view t = view s" by (rule c)+
  show b: "busy_set t = busy_set s" unfolding busy_set_def assms ..
  show "io_step u t V = io_step u s V" unfolding io_step_def c b assms ..
  show "io_step t u V = io_step s u V" unfolding io_step_def b assms ..
  show "disk_ok t d = disk_ok s d" unfolding disk_ok_def media_ok_def c assms ..
  have "buf_holds t = buf_holds s" by (simp add: fun_eq_iff buf_holds_def assms)
  moreover have "buf_free t = buf_free s" by (simp add: fun_eq_iff buf_free_def assms)
  ultimately show "avail t d k = avail s d k"
    using \<open>busy_set t = busy_set s\<close> unfolding avail_def by simp
qed

lemma bfree_0:
  "bfree b 0 s = Some (0, if bf_busy (bufpool s b) = BF_BUSY then upd_b b (\<lambda>x. x\<lparr>bf_busy := BF_FREE\<rparr>) s else s)"
  by (simp add: bfree_def Let_def)

lemma upd_b_set_mem: "upd_b b f (set_mem m s) = set_mem m (upd_b b f s)"
  by (cases "u_sysio s") (simp_all add: upd_b_def set_mem_def)

lemma brelse_set_mem: "brelse b s = Some ((), t) \<Longrightarrow> brelse b (set_mem m s) = Some ((), set_mem m t)"
  by (cases "bf_busy (bufpool s b) = BF_BUSY") (simp_all add: brelse_def bfree_0 upd_b_set_mem)

subsection \<open>A temporary buffer\<close>

lemma zerobuf_ok:
  assumes d: "disk_ok s d" and a: "\<exists>c. buf_free s c"
  obtains b w u where "zerobuf s = Some (b, w)" "bf_data (bufpool w b) = zero_block" "io_core w = io_core s"
    "u_error w = u_error s" "brelse b w = Some ((), u)" "io_core u = io_core s" "u_error u = u_error s"
    "io_step s u (view s)"
proof -
  have ok: "cache_ok s" "media_ok s" using d by (auto simp: disk_ok_def)
  obtain b t where t: "freebuf s = Some (b, t)" using a freebuf_total [OF ok(1)] by blast
  note ff = freebuf_frame [OF t] and fv = freebuf_view [OF ok(1) t]
  have b: "b < nbufs s" "bf_busy (bufpool s b) = BF_FREE" "nbufs t = nbufs s"
    using ff(1) io_core_fields(5) [OF ff(2)] by (auto simp: buf_free_def)
  let ?f = "\<lambda>x :: blkbuf. x\<lparr>bf_busy := BF_BUSY, bf_time := bufclock t + 1, bf_data := zero_block\<rparr>"
  let ?n = "drop_name b t"
  define w where "w = upd_b b (\<lambda>x. x\<lparr>bf_data := zero_block\<rparr>) (stamp b (upd_b b
    (\<lambda>x. x\<lparr>bf_dev := NO_DEVICE, bf_busy := BF_BUSY\<rparr>) t))"
  have run: "zerobuf s = Some (b, w)" using t by (simp add: zerobuf_def tmpbuf_def w_def)
  have wn: "w = (upd_b b ?f ?n)\<lparr>bufclock := bufclock t + 1\<rparr>"
    by (simp add: w_def stamp_def drop_name_def upd_b_def Let_def)
  have okn: "cache_ok ?n" by (rule fv(1))
  have bn: "b < nbufs ?n" using b by (simp add: drop_name_def)
  have nm: "bf_dev (bufpool ?n b) = NO_DEVICE" "bf_dirty (bufpool ?n b) = False"
    using ff(4) by (simp_all add: drop_name_def)
  have fx: "buf_ok ?n (?f (bufpool ?n b))" using nm by (simp add: buf_ok_def)
  have okw: "cache_ok w" unfolding wn using touch(1) [where f = ?f, OF okn bn _ _ fx] by simp
  have vw: "view w e l = view s e l" if e: "e \<noteq> NO_DEVICE" for e l
  proof -
    have "\<not> buf_holds ?n b e l" using nm e by (simp add: buf_holds_def)
    then have "view (upd_b b ?f ?n) e l = view ?n e l"
      using touch(2) [where f = ?f, OF okn bn _ _ fx e] by simp
    moreover have "view ?n e l = view s e l" using fv(2) ok(2) e by blast
    ultimately show ?thesis by (simp add: wn)
  qed
  have bw: "b < nbufs w" using b by (simp add: w_def)
  obtain r u where u: "bfree b 0 w = Some (r, u)" by (simp add: bfree_def Let_def)
  note bf = bfree_clean [OF okw bw u]
  have cw: "io_core w = io_core s" using ff(2) by (simp add: w_def)
  have nb: "b \<notin> busy_set s" using b by (simp add: busy_set_def)
  have pool: "bufpool w c = bufpool s c" if "c \<noteq> b" for c using that ff(4) by (simp add: w_def)
  have "busy_set w = insert b (busy_set s)"
    using b pool ff(4) by (auto simp: busy_set_def w_def split: if_splits)
  then have "busy_set u = busy_set s" using bf(4) nb by simp
  moreover have "bufpool u c = bufpool s c" if "c \<in> busy_set s" for c
    using that nb bf(7) [of c] pool [of c] by metis
  moreover have cu: "io_core u = io_core s" using bf(5) cw by simp
  moreover have "u_error w = u_error s" using fv(2) ok(2) by (auto simp: w_def)
  ultimately show thesis
    using that [OF run _ cw, of u] bf(1,2,3,6) vw u io_core_fields(4,5) [OF cu]
    by (simp add: brelse_def io_step_def) (simp add: w_def)
qed

subsection \<open>The bytes of a file\<close>

definition file_byte :: "kst \<Rightarrow> nat \<Rightarrow> nat \<Rightarrow> u8" where
  "file_byte s ino p =
     (let nb = lookup s ino (of_nat (p div BLKSIZE))
      in if nb = 0 \<or> nb = NULLBLK then 0 else view s (c_dev (i_tab s ino)) nb (p mod BLKSIZE))"

definition file_bytes :: "kst \<Rightarrow> nat \<Rightarrow> nat \<Rightarrow> nat \<Rightarrow> u8 list" where
  "file_bytes s ino p n = map (\<lambda>i. file_byte s ino (p + i)) [0..<n]"

lemma length_file_bytes [simp]: "length (file_bytes s ino p n) = n"
  by (simp add: file_bytes_def)

lemma file_bytes_add: "file_bytes s ino p (a + b) = file_bytes s ino p a @ file_bytes s ino (p + a) b"
  unfolding file_bytes_def by (rule nth_equalityI) (auto simp: nth_append add.assoc)

lemma lookup_cong:
  assumes "i_addr (c_node (i_tab t ino)) = i_addr (c_node (i_tab s ino))"
    "c_dev (i_tab t ino) = c_dev (i_tab s ino)"
    "\<And>l. view t (c_dev (i_tab s ino)) l = view s (c_dev (i_tab s ino)) l"
  shows "lookup t ino bn = lookup s ino bn"
proof -
  have "walk (view t (c_dev (i_tab s ino))) k shs nb = walk (view s (c_dev (i_tab s ino))) k shs nb"
    for k shs nb by (rule walk_view) (rule assms(3))
  then show ?thesis using assms(1,2) by (simp add: lookup_def Let_def split: prod.splits)
qed

lemma file_bytes_cong:
  assumes "i_addr (c_node (i_tab t ino)) = i_addr (c_node (i_tab s ino))"
    "c_dev (i_tab t ino) = c_dev (i_tab s ino)"
    "\<And>l. view t (c_dev (i_tab s ino)) l = view s (c_dev (i_tab s ino)) l"
  shows "file_bytes t ino p n = file_bytes s ino p n"
proof -
  have "file_byte t ino q = file_byte s ino q" for q
    using lookup_cong [OF assms] assms(2,3) by (simp add: file_byte_def Let_def)
  then show ?thesis by (simp add: file_bytes_def)
qed

lemma blkpos_div: "blkpos off = of_nat (unat off div 512)"
  by (simp add: blkpos_def word_unat_eq_iff unsigned_ucast_eq unat_of_nat unat_drop_bit_eq drop_bit_eq_div
      unat_div take_bit_eq_mod)

lemma blkoff_mod: "unat (blkoff off) = unat off mod 512"
proof -
  have "ucast off AND (511 :: u16) = take_bit 9 (ucast off)"
    by (simp add: take_bit_eq_mask mask_eq_exp_minus_1)
  then have "unat (blkoff off) = take_bit 9 (unat (ucast off :: u16))"
    by (simp add: blkoff_def unsigned_take_bit_eq)
  also have "\<dots> = unat off mod 512"
    by (simp add: unsigned_ucast_eq take_bit_eq_mod mod_mod_cancel)
  finally show ?thesis .
qed

text \<open>A stretch within one block.\<close>

lemma block_bytes:
  assumes "p mod 512 + n \<le> 512"
    and "\<And>j. D j = (let nb = lookup s ino (of_nat (p div BLKSIZE))
      in if nb = 0 \<or> nb = NULLBLK then 0 else view s (c_dev (i_tab s ino)) nb j)"
  shows "get_bytes D (p mod 512) n = file_bytes s ino p n"
proof (rule nth_equalityI)
  fix i assume "i < length (get_bytes D (p mod 512) n)"
  then have i: "i < n" by simp
  then have "p mod 512 + i < 512" using assms(1) by simp
  moreover have "p + i = p div 512 * 512 + (p mod 512 + i)" by simp
  ultimately have "(p + i) div 512 = p div 512" "(p + i) mod 512 = p mod 512 + i"
    by (metis add.right_neutral div_less div_mult_self3 zero_neq_numeral,
        metis mod_less mod_mult_self3)
  then show "get_bytes D (p mod 512) n ! i = file_bytes s ino p n ! i"
    using i assms(2) by (simp add: file_bytes_def file_byte_def Let_def)
qed simp

subsection \<open>Reading a file\<close>

definition rd_core :: "kst \<Rightarrow> kst" where
  "rd_core s = (io_core s)\<lparr>u_base := 0, u_offset := 0, u_count := 0, umem := (\<lambda>_. 0), kmem := (\<lambda>_. 0)\<rparr>"

lemma rd_core_upd [simp]:
  "rd_core (set_mem m s) = rd_core s" "rd_core (s\<lparr>u_base := a\<rparr>) = rd_core s"
  "rd_core (s\<lparr>u_offset := off\<rparr>) = rd_core s" "rd_core (s\<lparr>u_count := c\<rparr>) = rd_core s"
  by (simp_all add: rd_core_def io_core_def set_mem_def)

lemma rd_core_io: "io_core t = io_core s \<Longrightarrow> rd_core t = rd_core s"
  by (simp add: rd_core_def)

lemma rd_core_fields:
  assumes "rd_core t = rd_core s"
  shows "i_tab t = i_tab s" "fs_tab t = fs_tab s" "of_tab t = of_tab s" "u_sysio t = u_sysio s"
    "ptab t = ptab s" "u_files t = u_files s" "plat t = plat s" "nbufs t = nbufs s" "u_top t = u_top s"
  using assms [THEN arg_cong, of i_tab] assms [THEN arg_cong, of u_top] assms [THEN arg_cong, of fs_tab]
    assms [THEN arg_cong, of of_tab] assms [THEN arg_cong, of u_sysio] assms [THEN arg_cong, of ptab]
    assms [THEN arg_cong, of u_files] assms [THEN arg_cong, of plat] assms [THEN arg_cong, of nbufs]
  by (simp_all add: rd_core_def io_core_def)

lemma put_range_append:
  assumes "length xs + length ys \<le> 65536"
  shows "put_range (base + of_nat (length xs)) ys (put_range base xs m) = put_range base (xs @ ys) m"
proof
  fix a :: u16
  let ?k = "unat (a - base)" and ?n = "length xs"
  have k: "?k < 65536" by (rule u16_bound)
  have d: "unat (a - (base + of_nat ?n)) = (if ?n \<le> ?k then ?k - ?n else ?k + 65536 - ?n)"
  proof (cases "?n = 65536")
    case True
    have "(of_nat 65536 :: u16) = 0" by (simp only: word_unat_eq_iff unat_of_nat) simp
    then have e: "base + of_nat ?n = base" unfolding True by (simp only: add_0_right)
    have "\<not> ?n \<le> ?k" "?k + 65536 - ?n = ?k" using True k by linarith+
    then show ?thesis unfolding e by (simp only: if_False)
  next
    case False
    then have n: "unat (of_nat ?n :: u16) = ?n"
      using assms by (simp add: unat_of_nat take_bit_nat_eq_self)
    have "a - (base + of_nat ?n) = (a - base) - of_nat ?n" by (simp only: diff_diff_eq)
    then show ?thesis
      using n by (simp only: unat_sub_if_size) (simp add: word_size)
  qed
  show "put_range (base + of_nat ?n) ys (put_range base xs m) a = put_range base (xs @ ys) m a"
    using d k assms by (auto simp: put_range_def nth_append)
qed

text \<open>One turn of the loop: the bytes up to the end of the block, or of the request.\<close>

definition has_read :: "kst \<Rightarrow> nat \<Rightarrow> u16 \<Rightarrow> kst \<Rightarrow> bool" where
  "has_read s ino n t \<longleftrightarrow> u_base t = u_base s + n \<and> u_offset t = u_offset s + ucast n
     \<and> mem_of t = put_range (u_base s) (file_bytes s ino (unat (u_offset s)) (unat n)) (mem_of s)
     \<and> rd_core t = rd_core s \<and> u_error t = u_error s \<and> u_count t = u_count s \<and> io_step s t (view s)"

lemma read_turn:
  assumes d: "disk_ok s (c_dev (i_tab s ino))" and q: "busy_set s = {}" "0 < nbufs s"
    and m: "getmode ino s \<noteq> MODE_R_BDEV" and n: "n \<noteq> 0" and mo: "mem_ok s (unat n)"
  shows "\<exists>t. read_loop ino (c_dev (i_tab s ino)) False n s
       = read_loop ino (c_dev (i_tab s ino)) False (n - amount n (u_offset s)) t
     \<and> has_read s ino (amount n (u_offset s)) t"
proof -
  let ?dev = "c_dev (i_tab s ino)" and ?a = "amount n (u_offset s)" and ?p = "unat (u_offset s)"
  let ?lk = "lookup s ino (blkpos (u_offset s))"
  let ?k = "if ?lk = 0 then NULLBLK else ?lk"
  have dn: "?dev \<noteq> NO_DEVICE" using d by (simp add: disk_ok_def)
  obtain r where r: "bmap ino (blkpos (u_offset s)) True s = Some (if ?lk = 0 then NULLBLK else ?lk, r)"
    "io_core r = io_core s" "u_error r = u_error s" "io_step s r (view s)"
    using bmap_read [OF d q m, of True] by auto
  have dr: "disk_ok r ?dev" and qr: "busy_set r = {}" "0 < nbufs r"
    using io_step_disk [OF r(4) d] r(4) q by (simp_all add: io_step_def)
  have vr: "view r e l = view s e l" if "e \<noteq> NO_DEVICE" for e l using r(4) that by (simp add: io_step_def)
  define D where "D = (if ?lk = 0 \<or> ?lk = NULLBLK then zero_block else view s ?dev ?lk)"
  have av: "avail r ?dev l" for l using qr by (auto simp: avail_busy)
  have bf: "\<exists>c. buf_free r c" using av by (auto simp: avail_def)
  have "\<exists>b w u. (if ?k = NULLBLK
        then do { (bp, s) \<leftarrow> zerobuf r; Some (Some bp, s) } else bread ?dev ?k False r) = Some (Some b, w)
      \<and> bf_data (bufpool w b) = D \<and> io_core w = io_core s \<and> u_error w = u_error s
      \<and> brelse b w = Some ((), u) \<and> io_core u = io_core s \<and> u_error u = u_error s \<and> io_step s u (view s)"
  proof (cases "?lk = 0 \<or> ?lk = NULLBLK")
    case True
    obtain b w u where w: "zerobuf r = Some (b, w)" "bf_data (bufpool w b) = zero_block" "io_core w = io_core r"
      "u_error w = u_error r" "brelse b w = Some ((), u)" "io_core u = io_core r" "u_error u = u_error r"
      "io_step r u (view r)" by (rule zerobuf_ok [OF dr bf])
    moreover have "io_step s u (view s)" by (rule io_step_trans [OF r(4) w(8)]) (rule vr)
    ultimately show ?thesis using True r by (auto simp: D_def)
  next
    case False
    obtain b w where w: "bread ?dev ?lk False r = Some (Some b, w)" "bf_data (bufpool w b) = view r ?dev ?lk"
      "io_core w = io_core r" "u_error w = u_error r"
      "\<forall>m f. \<exists>u. brelse b (upd_fs m f w) = Some ((), upd_fs m f u) \<and> brelse b w = Some ((), u)
       \<and> io_core u = io_core r \<and> u_error u = u_error r \<and> io_step r u (view r)"
      by (rule read_then_release [OF dr av])
    obtain u where u: "brelse b w = Some ((), u)" "io_core u = io_core r" "u_error u = u_error r"
      "io_step r u (view r)" using w(5) by blast
    moreover have "io_step s u (view s)" by (rule io_step_trans [OF r(4) u(4)]) (rule vr)
    ultimately show ?thesis using False w r vr [OF dn] by (auto simp: D_def)
  qed
  then obtain b w u where w: "(if ?k = NULLBLK
        then do { (bp, s) \<leftarrow> zerobuf r; Some (Some bp, s) } else bread ?dev ?k False r) = Some (Some b, w)"
      "bf_data (bufpool w b) = D" "io_core w = io_core s" "u_error w = u_error s"
    and u: "brelse b w = Some ((), u)" "io_core u = io_core s" "u_error u = u_error s" "io_step s u (view s)"
    by blast
  have mem: "mem_of x = mem_of s" "u_base x = u_base s" "u_offset x = u_offset s" "u_count x = u_count s"
    if "io_core x = io_core s" for x
    using io_core_fields [OF that] by (simp_all add: mem_of_def)
  let ?bs = "get_bytes D (unat (blkoff (u_offset s))) (unat ?a)"
  have bs: "?bs = file_bytes s ino ?p (unat ?a)"
    unfolding blkoff_mod
    by (rule block_bytes) (use amount_bounds(3) [OF n, of "u_offset s"] in
        \<open>simp_all add: blkoff_mod D_def blkpos_div Let_def zero_block_def\<close>)
  define x where "x = set_mem (put_range (u_base s) ?bs (mem_of s))"
  define t where "t = advance False ?a (x u)"
  have put: "uputblk b (unat (blkoff (u_offset w))) (unat ?a) w = x w"
  proof -
    have "mem_ok w (unat n)"
      using mem_ok_shift [OF mo, of 0 w] mem [OF w(3)] io_core_fields [OF w(3)]
        w(3) [THEN arg_cong, of u_top] by (simp add: io_core_def)
    then have "mem_ok w (unat ?a)" by (rule mem_ok_mono) (rule amount_bounds(2) [OF n])
    then show ?thesis
      using uputblk_mem [of w "unat ?a"] amount_bounds(1) [OF n] w(2) mem [OF w(3)] by (simp add: x_def)
  qed
  have rel: "brelse b (x w) = Some ((), x u)" unfolding x_def by (rule brelse_set_mem [OF u(1)])
  have "read_loop ino ?dev False n s = read_loop ino ?dev False (n - ?a) t"
    using n by (subst read_loop.simps)
      (simp only: if_False simp_thms Let_def r(1) w(1) Option.bind.bind_lunit prod.case option.case put rel t_def)
  moreover have "has_read s ino ?a t"
    unfolding has_read_def
  proof (intro conjI)
    show "mem_of t = put_range (u_base s) (file_bytes s ino ?p (unat ?a)) (mem_of s)"
      using mem [OF u(2)] bs by (simp add: t_def advance_def x_def mem_of_def set_mem_def)
    show "u_base t = u_base s + ?a" "u_offset t = u_offset s + ucast ?a" "u_error t = u_error s" "u_count t = u_count s"
      using mem [OF u(2)] u(3) by (simp_all add: t_def advance_def x_def)
    show "rd_core t = rd_core s" using rd_core_io [OF u(2)] by (simp add: t_def advance_def x_def)
    show "io_step s t (view s)"
      using u(4) io_cong(6) [of t u s "view s"] by (simp add: t_def advance_def x_def)
  qed
  ultimately show ?thesis by blast
qed

lemma offset_add: "unat (off :: u32) + unat (a :: u16) < 2 ^ 32 \<Longrightarrow> unat (off + ucast a) = unat off + unat a"
  using u16_bound [of a] by (simp add: unat_word_ariths unsigned_ucast_eq take_bit_nat_eq_self)

lemma has_read_trans:
  assumes a: "has_read s ino a u" and b: "has_read u ino b t"
    and room: "unat (u_offset s) + unat a + unat b < 2 ^ 32" "unat a + unat b < 65536"
    and d: "c_dev (i_tab s ino) \<noteq> NO_DEVICE"
  shows "has_read s ino (a + b) t"
proof -
  have iu: "i_tab u = i_tab s" "u_sysio u = u_sysio s"
    using a rd_core_fields(1,4) [of u s] by (simp_all add: has_read_def)
  have vu: "view u e l = view s e l" if "e \<noteq> NO_DEVICE" for e l
    using a that by (simp add: has_read_def io_step_def)
  have ou: "unat (u_offset u) = unat (u_offset s) + unat a"
    using a room(1) by (simp add: has_read_def unat_word_ariths unsigned_ucast_eq take_bit_nat_eq_self)
  have ab: "unat (a + b) = unat a + unat b"
    using room(2) by (simp add: unat_word_ariths)
  have fb: "file_bytes u ino p n = file_bytes s ino p n" for p n
    by (rule file_bytes_cong) (use iu vu d in simp_all)
  have "mem_of t = put_range (u_base s + of_nat (length (file_bytes s ino (unat (u_offset s)) (unat a))))
      (file_bytes s ino (unat (u_offset s) + unat a) (unat b))
      (put_range (u_base s) (file_bytes s ino (unat (u_offset s)) (unat a)) (mem_of s))"
    using a b ou fb by (simp add: has_read_def)
  also have "\<dots> = put_range (u_base s) (file_bytes s ino (unat (u_offset s)) (unat (a + b))) (mem_of s)"
    by (subst put_range_append) (use room(2) in \<open>simp_all add: ab file_bytes_add\<close>)
  finally have mem: "mem_of t = \<dots>" .
  have uc: "(ucast (a + b) :: u32) = ucast a + ucast b"
    using room(2) ab by (simp add: word_unat_eq_iff unat_word_ariths unsigned_ucast_eq take_bit_nat_eq_self)
  have "io_step s t (view s)"
    using a b vu io_step_trans [of s u "view s" t "view u" "view s"] by (simp add: has_read_def)
  then show ?thesis
    using a b mem uc by (simp add: has_read_def add.assoc)
qed

lemma getmode_rd:
  "rd_core t = rd_core s \<Longrightarrow> getmode ino t = getmode ino s"
  using rd_core_fields(1) [of t s] by (simp add: getmode_def)

lemma read_loop_all:
  assumes "disk_ok s (c_dev (i_tab s ino))" "busy_set s = {}" "0 < nbufs s"
    "getmode ino s \<noteq> MODE_R_BDEV" "unat (u_offset s) + unat n < 2 ^ 32" "mem_ok s (unat n)"
  shows "\<exists>t. read_loop ino (c_dev (i_tab s ino)) False n s = Some (0, t) \<and> has_read s ino n t"
  using assms
proof (induction n arbitrary: s rule: measure_induct_rule [of unat])
  case (less n s)
  show ?case
  proof (cases "n = 0")
    case True
    have "put_range (u_base s) [] (mem_of s) = mem_of s" by simp
    moreover have "io_step s s (view s)" using less.prems(1) by (intro io_step_refl) (simp add: disk_ok_def)
    ultimately have "has_read s ino 0 s" by (simp add: has_read_def file_bytes_def)
    then show ?thesis using True by (simp add: read_loop.simps [of ino _ False 0])
  next
    case False
    let ?a = "amount n (u_offset s)" and ?dev = "c_dev (i_tab s ino)"
    note ab = amount_bounds [OF False, of "u_offset s"]
    obtain u where u: "read_loop ino ?dev False n s = read_loop ino ?dev False (n - ?a) u" "has_read s ino ?a u"
      using read_turn [OF less.prems(1-4) False less.prems(6)] by blast
    have core: "rd_core u = rd_core s" and step: "io_step s u (view s)"
      using u(2) by (simp_all add: has_read_def)
    have iu: "i_tab u = i_tab s" by (rule rd_core_fields(1) [OF core])
    have na: "unat (n - ?a) = unat n - unat ?a" using ab(2) by (simp add: unat_sub word_le_nat_alt)
    have "unat (u_offset s) + unat ?a < 2 ^ 32" using ab(2) less.prems(5) by linarith
    then have ou: "unat (u_offset u) = unat (u_offset s) + unat ?a"
      using u(2) offset_add [of "u_offset s" ?a] by (simp add: has_read_def)
    have "\<exists>t. read_loop ino (c_dev (i_tab u ino)) False (n - ?a) u = Some (0, t) \<and> has_read u ino (n - ?a) t"
    proof (rule less.IH)
      show "unat (n - ?a) < unat n" using ab na by simp
      show "disk_ok u (c_dev (i_tab u ino))" using io_step_disk [OF step] less.prems(1) iu by simp
      show "busy_set u = {}" "0 < nbufs u" using step less.prems(2,3) by (simp_all add: io_step_def)
      show "getmode ino u \<noteq> MODE_R_BDEV" using getmode_rd [OF core] less.prems(4) by simp
      show "unat (u_offset u) + unat (n - ?a) < 2 ^ 32" using ou na ab(2) less.prems(5) by simp
      show "mem_ok u (unat (n - ?a))" unfolding na
        by (rule mem_ok_shift [OF less.prems(6) ab(2)])
          (use u(2) rd_core_fields [OF core] in \<open>simp_all add: has_read_def\<close>)
    qed
    then obtain t where t: "read_loop ino ?dev False (n - ?a) u = Some (0, t)" "has_read u ino (n - ?a) t"
      using iu by auto
    have "has_read s ino (?a + (n - ?a)) t"
      by (rule has_read_trans [OF u(2) t(2)])
        (use na ab(2) less.prems(1,5) u16_bound [of n] in \<open>simp_all add: disk_ok_def\<close>)
    then show ?thesis using u(1) t(1) by auto
  qed
qed

text \<open>How many bytes a read of \<open>n\<close> bytes gets, as natural numbers.\<close>

definition readable :: "kst \<Rightarrow> nat \<Rightarrow> nat" where
  "readable s ino = min (unat (u_count s)) (unat (i_size (c_node (i_tab s ino))) - unat (u_offset s))"

lemma readi_file:
  assumes d: "disk_ok s (c_dev (i_tab s ino))" and q: "busy_set s = {}" "0 < nbufs s"
    and m: "getmode ino s = MODE_R_REG \<or> getmode ino s = MODE_R_DIR" and e: "u_error s = 0"
    and mo: "mem_ok s (unat (u_count s))"
  shows "\<exists>t. readi sw ino flag s = Some ((), t) \<and> u_count t = of_nat (readable s ino)
    \<and> u_offset t = u_offset s + of_nat (readable s ino) \<and> u_base t = u_base s + of_nat (readable s ino)
    \<and> mem_of t = put_range (u_base s) (file_bytes s ino (unat (u_offset s)) (readable s ino)) (mem_of s)
    \<and> rd_core t = rd_core s \<and> u_error t = 0 \<and> io_step s t (view s)"
proof -
  let ?sz = "i_size (c_node (i_tab s ino))" and ?c = "readable s ino"
  define n where "n = (if ?sz \<le> u_offset s then 0 else ucast (min (ucast (u_count s)) (?sz - u_offset s)) :: u16)"
  have un: "unat n = ?c"
  proof (cases "?sz \<le> u_offset s")
    case True
    then show ?thesis by (simp add: n_def readable_def word_le_nat_alt)
  next
    case False
    then have sub: "unat (?sz - u_offset s) = unat ?sz - unat (u_offset s)"
      by (simp add: unat_sub word_le_nat_alt)
    have cc: "unat (ucast (u_count s) :: u32) = unat (u_count s)"
      using u16_bound [of "u_count s"] by (simp add: unsigned_ucast_eq take_bit_nat_eq_self)
    have "unat (min (ucast (u_count s)) (?sz - u_offset s)) = ?c"
      using sub cc by (auto simp: readable_def min_def word_le_nat_alt)
    moreover have "?c < 65536" using u16_bound [of "u_count s"] by (simp add: readable_def)
    ultimately show ?thesis
      using False by (simp add: n_def unsigned_ucast_eq take_bit_nat_eq_self)
  qed
  then have nc: "n = of_nat ?c" by (simp flip: un)
  define v where "v = s\<lparr>u_count := n\<rparr>"
  have cv: "disk_ok v (c_dev (i_tab v ino))" "busy_set v = {}" "0 < nbufs v"
    "getmode ino v \<noteq> MODE_R_BDEV" "view v = view s" "mem_of v = mem_of s" "rd_core v = rd_core s"
    "file_bytes v = file_bytes s"
    using io_cong [of v s] d q m
    by (auto simp: v_def getmode_def mem_of_def fun_eq_iff intro: file_bytes_cong)
  have "unat (u_offset v) + unat n < 2 ^ 32"
    using u32_bound [of ?sz] u32_bound [of "u_offset s"] by (simp add: v_def un readable_def)
  moreover have "mem_ok v (unat n)"
    using mo un by (auto simp: mem_ok_def v_def readable_def)
  ultimately obtain t where t: "read_loop ino (c_dev (i_tab v ino)) False n v = Some (0, t)" "has_read v ino n t"
    using read_loop_all [OF cv(1-4)] by blast
  have ct: "u_count t = n" "u_error t = 0" using t(2) e by (simp_all add: has_read_def v_def)
  have fin: "finish_count 0 t = t" using ct(2) by (simp add: finish_count_def)
  have run: "readi sw ino flag s = Some ((), t)"
  proof -
    have "(getmode ino s = MODE_R_DIR \<or> getmode ino s = MODE_R_REG) = True" using m by blast
    moreover have "(if ?sz \<le> u_offset s then s\<lparr>u_count := 0\<rparr>
        else s\<lparr>u_count := ucast (min (ucast (u_count s)) (?sz - u_offset s))\<rparr>) = v"
      unfolding v_def n_def by (rule if_distrib [of "\<lambda>n. s\<lparr>u_count := n\<rparr>", symmetric])
    moreover have "read_loop ino (c_dev (i_tab s ino)) False (u_count v) v = Some (0, t)"
      using t(1) by (simp add: v_def)
    ultimately show ?thesis
      unfolding readi_def Let_def by (simp only: if_True Option.bind.bind_lunit prod.case fin)
  qed
  have uc: "(ucast n :: u32) = of_nat ?c"
  proof -
    have "?c < 65536" using un u16_bound [of n] by simp
    then have "unat (of_nat ?c :: u32) = ?c" by (simp add: unat_of_nat)
    moreover have "unat (ucast n :: u32) = unat n"
      using u16_bound [of n] by (simp add: unsigned_ucast_eq take_bit_nat_eq_self)
    ultimately show ?thesis using un by (simp only: word_unat_eq_iff)
  qed
  have "io_step s t (view s)"
    using t(2) cv(5) io_cong(7) [of v s t "view s"] by (simp add: has_read_def v_def)
  with run ct t(2) cv uc nc un show ?thesis
    by (auto simp: has_read_def v_def)
qed

text \<open>C3: readi() on an ordinary file or a directory delivers the bytes of the file: starting at the file
  position it copies as many bytes as were asked for and as the size leaves, zeroes for holes, to
  consecutive addresses of the memory selected, moves the position on by that number and returns it,
  whatever the alignment and over any number of blocks; neither the content of any block nor any
  other part of the state changes, and no buffer stays in use.\<close>

theorem readi_delivers_file:
  assumes "disk_ok s (c_dev (i_tab s ino))" and "busy_set s = {}" and "0 < nbufs s"
    and "getmode ino s = MODE_R_REG \<or> getmode ino s = MODE_R_DIR" and "u_error s = 0"
    and "mem_ok s (unat (u_count s))"
  shows "\<exists>t. readi sw ino flag s = Some ((), t) \<and> u_count t = of_nat (readable s ino)
    \<and> u_offset t = u_offset s + of_nat (readable s ino) \<and> u_base t = u_base s + of_nat (readable s ino)
    \<and> mem_of t = put_range (u_base s) (file_bytes s ino (unat (u_offset s)) (readable s ino)) (mem_of s)
    \<and> rd_core t = rd_core s \<and> u_error t = 0 \<and> io_step s t (view s)"
  by (rule readi_file [OF assms])

theorem readi_delivers_file_witness:
  "\<exists>t. readi (\<lambda>_. None) 0 0 (sample_file\<lparr>u_count := 600, u_offset := 10, u_base := 0x200\<rparr>) = Some ((), t) \<and> u_count t = 502"
proof -
  let ?s = "sample_file\<lparr>u_count := 600, u_offset := 10, u_base := 0x200\<rparr>"
  have "disk_ok ?s (c_dev (i_tab ?s 0))" "busy_set ?s = {}"
    using io_cong [of ?s sample_file] sample_file_disk by simp_all
  moreover have "getmode 0 ?s = MODE_R_REG"
    using sample_file_mode by (simp add: getmode_def)
  moreover have "u_error ?s = 0" by (simp add: sample_file_def sample_def)
  moreover have "readable ?s 0 = 502" by (simp add: readable_def)
  moreover have "mem_ok ?s (unat (u_count ?s))"
    by (simp add: mem_ok_def sample_plat_def sample_file_def sample_def)
  ultimately show ?thesis using readi_delivers_file [of ?s 0 "\<lambda>_. None" 0] by auto
qed

end
