(* ===== verification/FileWrite.thy ===== *)
theory FileWrite
  imports FileSpec
begin

text \<open>
  Overwriting a file in place. A file is well formed when its block map gives no block to two
  positions and no data block is also an indirect block of the file.
\<close>

definition map_nodes :: "kst \<Rightarrow> nat \<Rightarrow> u16 \<Rightarrow> u16 set" where
  "map_nodes s ip bn =
     (let (j, k, shs) = tree_at bn; nb = i_addr (c_node (i_tab s ip)) ! j
      in if nb = 0 then {} else nodes (view s (c_dev (i_tab s ip))) k shs nb)"

definition file_wf :: "kst \<Rightarrow> nat \<Rightarrow> bool" where
  "file_wf s ip \<longleftrightarrow> (\<forall>a b. lookup s ip a \<noteq> 0 \<longrightarrow> lookup s ip a \<notin> map_nodes s ip b
     \<and> (lookup s ip a = lookup s ip b \<longrightarrow> a = b))"

lemma lookup_frame:
  assumes "i_tab t = i_tab s" and "\<And>l. l \<in> map_nodes s ip bn \<Longrightarrow> view t (c_dev (i_tab s ip)) l = view s (c_dev (i_tab s ip)) l"
  shows "lookup t ip bn = lookup s ip bn" "map_nodes t ip bn = map_nodes s ip bn"
proof -
  obtain j k shs where tr: "tree_at bn = (j, k, shs)" by (cases "tree_at bn")
  let ?nb = "i_addr (c_node (i_tab s ip)) ! j" and ?C = "view s (c_dev (i_tab s ip))"
    and ?D = "view t (c_dev (i_tab s ip))"
  have eq: "?nb = 0 \<or> (\<forall>l\<in>nodes ?C k shs ?nb. ?D l = ?C l)"
    using assms(2) tr by (auto simp: map_nodes_def)
  then have "?nb = 0 \<or> walk ?D k shs ?nb = walk ?C k shs ?nb" using walk_cong [of ?C k shs ?nb ?D] by auto
  then show "lookup t ip bn = lookup s ip bn" using tr assms(1) by (auto simp: lookup_def Let_def)
  from eq have "?nb = 0 \<or> nodes ?D k shs ?nb = nodes ?C k shs ?nb" using nodes_cong [of ?C k shs ?nb ?D] by auto
  then show "map_nodes t ip bn = map_nodes s ip bn" using tr assms(1) by (auto simp: map_nodes_def Let_def)
qed

text \<open>Writing the data block of one position changes the bytes of that block only.\<close>

definition one_block :: "kst \<Rightarrow> kst \<Rightarrow> u16 \<Rightarrow> u16 \<Rightarrow> block \<Rightarrow> bool" where
  "one_block s t dev nb D \<longleftrightarrow> i_tab t = i_tab s
     \<and> (\<forall>e l. e \<noteq> NO_DEVICE \<and> \<not> (e = dev \<and> l = nb) \<longrightarrow> view t e l = view s e l)
     \<and> (\<forall>j<BLKSIZE. view t dev nb j = D j)"

lemma one_block_file:
  assumes wf: "file_wf s ip" and dev: "c_dev (i_tab s ip) \<noteq> NO_DEVICE"
    and bn: "lookup s ip bn \<noteq> 0" "lookup s ip bn \<noteq> NULLBLK"
    and b: "one_block s t (c_dev (i_tab s ip)) (lookup s ip bn) D"
  shows "lookup t ip a = lookup s ip a" "map_nodes t ip a = map_nodes s ip a" "file_wf t ip"
    "file_byte t ip p = (if of_nat (p div BLKSIZE) = bn then D (p mod BLKSIZE) else file_byte s ip p)"
proof -
  have it: "i_tab t = i_tab s" using b by (simp add: one_block_def)
  have lk: "lookup t ip a = lookup s ip a" and nd: "map_nodes t ip a = map_nodes s ip a" for a
  proof -
    have "view t (c_dev (i_tab s ip)) l = view s (c_dev (i_tab s ip)) l" if "l \<in> map_nodes s ip a" for l
    proof -
      have "lookup s ip bn \<notin> map_nodes s ip a" using wf bn(1) by (simp add: file_wf_def)
      then have "l \<noteq> lookup s ip bn" using that by metis
      then show ?thesis using b dev by (simp add: one_block_def)
    qed
    then show "lookup t ip a = lookup s ip a" "map_nodes t ip a = map_nodes s ip a"
      using lookup_frame [OF it] by blast+
  qed
  then show "lookup t ip a = lookup s ip a" "map_nodes t ip a = map_nodes s ip a" "file_wf t ip"
    using wf by (auto simp: file_wf_def)
  show "file_byte t ip p = (if of_nat (p div BLKSIZE) = bn then D (p mod BLKSIZE) else file_byte s ip p)"
  proof (cases "of_nat (p div BLKSIZE) = bn")
    case True
    then show ?thesis using b bn lk it by (simp add: file_byte_def one_block_def Let_def)
  next
    case False
    let ?l = "lookup s ip (of_nat (p div BLKSIZE))"
    have "?l \<noteq> 0 \<Longrightarrow> ?l \<noteq> lookup s ip bn" using wf False by (auto simp: file_wf_def)
    then show ?thesis using False b dev lk it by (auto simp: file_byte_def one_block_def Let_def)
  qed
qed

subsection \<open>One turn of the loop of writei()\<close>

definition has_written :: "kst \<Rightarrow> nat \<Rightarrow> nat \<Rightarrow> kst \<Rightarrow> bool" where
  "has_written s ino n t \<longleftrightarrow> rd_core t = rd_core s \<and> mem_of t = mem_of s \<and> u_error t = u_error s
     \<and> u_count t = u_count s \<and> busy_set t = busy_set s \<and> cache_ok t \<and> file_wf t ino
     \<and> (\<forall>a. lookup t ino a = lookup s ino a)
     \<and> (\<forall>p<2 ^ 25. file_byte t ino p =
          (if unat (u_offset s) \<le> p \<and> p < unat (u_offset s) + n
           then mem_of s (u_base s + of_nat (p - unat (u_offset s))) else file_byte s ino p))
     \<and> (\<forall>e l. e \<noteq> NO_DEVICE \<and> \<not> (e = c_dev (i_tab s ino) \<and> l \<in> range (lookup s ino))
          \<longrightarrow> view t e l = view s e l)"

text \<open>A buffer for the block to be written: its old content matters unless all of it is replaced.\<close>

lemma bread_for_write:
  assumes d: "disk_ok s dev" and a: "avail s dev nb"
  obtains b J w where "bread dev nb full s = Some (Some b, set_data b J w)" "buf_holds w b dev nb"
    "cache_ok w" "io_core w = io_core s" "busy_set w = insert b (busy_set s)" "b \<notin> busy_set s"
    "u_error w = u_error s" "same_view s w" "full \<or> J = view s dev nb"
proof (cases full)
  case True
  then show thesis using bread_over [OF d a] that by metis
next
  case False
  obtain b t where t: "bread dev nb False s = Some (Some b, t)" "buf_holds t b dev nb"
    "bf_data (bufpool t b) = view s dev nb" "cache_ok t" "io_core t = io_core s"
    "busy_set t = insert b (busy_set s)" "b \<notin> busy_set s" "u_error t = u_error s"
    "same_view s t" "\<forall>c\<in>busy_set s. bufpool t c = bufpool s c"
    by (rule bread_read [OF d a])
  have "t = set_data b (view s dev nb) t" by (simp add: set_data_def upd_b_def flip: t(3))
  then show thesis using False t that by metis
qed

lemma write_block:
  assumes d: "disk_ok s dev" and q: "busy_set s = {}" "0 < nbufs s" and fl: "fl = 1 \<or> fl = 2"
    and fit: "off + n \<le> 512" "full \<longleftrightarrow> n = 512" and mo: "mem_ok s n" "0 < n"
  obtains b w u where "bread dev nb full s = Some (Some b, w)" "u_offset w = u_offset s"
    "bfree b fl (ugetblk b off n w) = Some (0, u)" "io_core u = io_core s"
    "u_error u = u_error s" "busy_set u = {}" "cache_ok u"
    "one_block s u dev nb (put_bytes (view s dev nb) off (get_range (mem_of s) (u_base s) n))"
proof -
  have av: "avail s dev nb" using q by (auto simp: avail_busy)
  have dn: "dev \<noteq> NO_DEVICE" "media_ok s" "validdev (plat s) dev" using d by (auto simp: disk_ok_def)
  obtain b J w where w: "bread dev nb full s = Some (Some b, set_data b J w)" "buf_holds w b dev nb"
    "cache_ok w" "io_core w = io_core s" "busy_set w = insert b (busy_set s)" "b \<notin> busy_set s"
    "u_error w = u_error s" "same_view s w" "full \<or> J = view s dev nb"
    by (rule bread_for_write [OF d av])
  have cf: "umem w = umem s" "kmem w = kmem s" "u_base w = u_base s" "u_offset w = u_offset s"
    "plat w = plat s" "u_sysio w = u_sysio s" "i_tab w = i_tab s" using io_core_fields [OF w(4)] by simp_all
  let ?bs = "get_range (mem_of s) (u_base s) n"
  let ?D = "put_bytes J off ?bs"
  have get: "ugetblk b off n (set_data b J w) = set_data b ?D w"
  proof -
    have "mem_ok (set_data b J w) n"
      using mem_ok_shift [OF mo(1), of 0 "set_data b J w"] cf w(4) [THEN arg_cong, of u_top]
      by (simp add: set_data_def upd_b_def io_core_def)
    then show ?thesis
      using ugetblk_mem [OF _ mo(2)] cf by (simp add: blkfromk_def set_data_def mem_of_def upd_b_def)
  qed
  have key: "bf_dev (bufpool w b) = dev" "bf_blk (bufpool w b) = nb" using w(2) by (auto simp: buf_holds_def)
  have "\<exists>r u. bfree b fl (set_data b ?D w) = Some (r, u)"
    using fl key dn(3) cf(5)
    by (elim disjE) (simp_all add: bfree_def set_data_def bdwrite_def validchk_def bdsetup_def Let_def)
  then obtain r u where u: "bfree b fl (set_data b ?D w) = Some (r, u)" by blast
  note bf = bfree_dirty [OF w(3,2) dn(1) fl u]
  have "r = 0 \<and> u_error u = u_error s" using bf(5) dn(2) cf(5) w(7) by (auto simp: media_ok_def)
  moreover have "view u e l = view s e l" if "e \<noteq> NO_DEVICE \<and> \<not> (e = dev \<and> l = nb)" for e l
    using bf(2) [of e l] w(8) that by (simp add: same_view_def)
  moreover have "?D j = put_bytes (view s dev nb) off ?bs j" if "j < BLKSIZE" for j
    using w(9) fit that by (auto simp: put_bytes_def)
  then have "\<forall>j<BLKSIZE. view u dev nb j = put_bytes (view s dev nb) off ?bs j"
    using bf(2) [OF dn(1), of nb] by simp
  moreover have "i_tab u = i_tab s" using io_core_fields(1) [OF bf(4)] cf(7) by simp
  ultimately show thesis
    using that [OF w(1), of u] u get bf(1,3,4) w(4,5,6) q(1) cf(4)
    by (simp add: one_block_def set_data_def upd_b_def)
qed

lemma in_block:
  fixes p q a :: nat assumes "q mod 512 + a \<le> 512"
  shows "q \<le> p \<and> p < q + a \<longleftrightarrow> p div 512 = q div 512 \<and> q mod 512 \<le> p mod 512 \<and> p mod 512 < q mod 512 + a"
    "p div 512 = q div 512 \<Longrightarrow> p mod 512 - q mod 512 = p - q"
proof -
  obtain P r where p: "p = 512 * P + r" "r < 512" "p div 512 = P" "p mod 512 = r"
    using mod_less_divisor [of 512 p] by (metis mult_div_mod_eq zero_less_numeral)
  obtain Q z where q: "q = 512 * Q + z" "z < 512" "q div 512 = Q" "q mod 512 = z"
    using mod_less_divisor [of 512 q] by (metis mult_div_mod_eq zero_less_numeral)
  have "q \<le> p \<and> p < q + a \<longleftrightarrow> P = Q \<and> z \<le> r \<and> r < z + a"
  proof (cases P Q rule: linorder_cases)
    case less
    then have "512 * P + 512 \<le> 512 * Q" by simp
    then show ?thesis using less p q by linarith
  next
    case greater
    then have "512 * Q + 512 \<le> 512 * P" by simp
    then show ?thesis using greater p q assms by linarith
  qed (use p q in auto)
  then show "q \<le> p \<and> p < q + a \<longleftrightarrow> p div 512 = q div 512 \<and> q mod 512 \<le> p mod 512 \<and> p mod 512 < q mod 512 + a"
    using p(3,4) q(3,4) by simp
  show "p div 512 = q div 512 \<Longrightarrow> p mod 512 - q mod 512 = p - q" using p q by simp
qed

lemma same_position:
  assumes "p < 2 ^ 25" "q < 2 ^ 25"
  shows "(of_nat (p div 512) :: u16) = of_nat (q div 512) \<longleftrightarrow> p div 512 = q div 512"
proof
  have "p div 512 < 65536" "q div 512 < 65536" using assms by (simp_all add: div_less_iff_less_mult)
  moreover assume "(of_nat (p div 512) :: u16) = of_nat (q div 512)"
  then have "unat (of_nat (p div 512) :: u16) = unat (of_nat (q div 512) :: u16)" by simp
  ultimately show "p div 512 = q div 512" by (simp add: unat_of_nat)
qed simp

lemma write_turn:
  assumes d: "disk_ok s (c_dev (i_tab s ino))" and q: "busy_set s = {}" "0 < nbufs s"
    and m: "getmode ino s \<noteq> MODE_R_BDEV" and n: "n \<noteq> 0" and fl: "fl = 1 \<or> fl = 2"
    and wf: "file_wf s ino" and room: "unat (u_offset s) + unat n \<le> 2 ^ 25"
    and ex: "lookup s ino (blkpos (u_offset s)) \<noteq> 0" "lookup s ino (blkpos (u_offset s)) \<noteq> NULLBLK"
    and mo: "mem_ok s (unat n)"
  shows "\<exists>t. write_loop ino (c_dev (i_tab s ino)) False fl n s
       = write_loop ino (c_dev (i_tab s ino)) False fl (n - amount n (u_offset s)) t
     \<and> has_written s ino (unat (amount n (u_offset s))) t
     \<and> u_base t = u_base s + amount n (u_offset s) \<and> u_offset t = u_offset s + ucast (amount n (u_offset s))"
proof -
  let ?dev = "c_dev (i_tab s ino)" and ?a = "amount n (u_offset s)" and ?q = "unat (u_offset s)"
    and ?bn = "blkpos (u_offset s)" and ?nb = "lookup s ino (blkpos (u_offset s))"
    and ?off = "unat (blkoff (u_offset s))"
  have dn: "?dev \<noteq> NO_DEVICE" using d by (simp add: disk_ok_def)
  note ab = amount_bounds [OF n, of "u_offset s"]
  have q25: "?q < 2 ^ 25" using room ab by linarith
  then have big: "drop_bit 25 (u_offset s) = 0"
    by (simp add: word_unat_eq_iff unat_drop_bit_eq drop_bit_eq_div unat_div)
  obtain r where r: "bmap ino ?bn False s = Some (?nb, r)"
    "io_core r = io_core s" "u_error r = u_error s" "io_step s r (view s)"
    using bmap_read [OF d q m, of False ?bn] ex(1) by auto
  have dr: "disk_ok r ?dev" and qr: "busy_set r = {}" "0 < nbufs r"
    using io_step_disk [OF r(4) d] r(4) q by (simp_all add: io_step_def)
  have vr: "view r e l = view s e l" if "e \<noteq> NO_DEVICE" for e l using r(4) that by (simp add: io_step_def)
  have cr: "i_tab r = i_tab s" "mem_of r = mem_of s" "u_base r = u_base s" "u_offset r = u_offset s"
    using io_core_fields [OF r(2)] by (simp_all add: mem_of_def)
  have full: "?a = of_nat BLKSIZE \<longleftrightarrow> unat ?a = 512" by (simp add: word_unat_eq_iff)
  obtain b w u where w: "bread ?dev ?nb (?a = of_nat BLKSIZE) r = Some (Some b, w)" "u_offset w = u_offset r"
    and u: "bfree b fl (ugetblk b ?off (unat ?a) w) = Some (0, u)" "io_core u = io_core r"
    "u_error u = u_error r" "busy_set u = {}" "cache_ok u"
    "one_block r u ?dev ?nb (put_bytes (view r ?dev ?nb) ?off (get_range (mem_of r) (u_base r) (unat ?a)))"
  proof (rule write_block [OF dr qr fl ab(3) full _ ab(1)])
    have "mem_ok r (unat n)"
      using mem_ok_shift [OF mo, of 0 r] io_core_fields [OF r(2)] r(2) [THEN arg_cong, of u_top]
      by (simp add: io_core_def)
    then show "mem_ok r (unat ?a)" by (rule mem_ok_mono) (rule ab(2))
  qed
  define t where "t = advance False ?a u"
  have run: "write_loop ino ?dev False fl n s = write_loop ino ?dev False fl (n - ?a) t"
    using n by (subst write_loop.simps)
      (simp only: if_False if_True simp_thms Let_def big r(1) ex(2) w u(1) cr(4) Option.bind.bind_lunit prod.case option.case t_def)
  let ?D = "put_bytes (view s ?dev ?nb) ?off (get_range (mem_of s) (u_base s) (unat ?a))"
  have vt: "view t = view u" and ct: "cache_ok t = cache_ok u" and bt: "busy_set t = busy_set u"
    using io_cong [of t u] by (simp_all add: t_def advance_def)
  have it: "i_tab t = i_tab s" using io_core_fields(1) [OF u(2)] cr by (simp add: t_def advance_def)
  have one: "one_block s t ?dev ?nb ?D"
    using u(6) vr dn cr it by (simp add: one_block_def vt)
  note of = one_block_file [OF wf dn ex one]
  have fb: "file_byte t ino p = (if ?q \<le> p \<and> p < ?q + unat ?a
      then mem_of s (u_base s + of_nat (p - ?q)) else file_byte s ino p)" if p: "p < 2 ^ 25" for p
  proof (cases "p div 512 = ?q div 512")
    case True
    have "?q mod 512 + unat ?a \<le> 512" using ab(3) by (simp add: blkoff_mod)
    note ib = in_block(1) [OF this, of p] in_block(2) [OF this True]
    have "file_byte s ino p = view s ?dev ?nb (p mod 512)"
      using True ex by (simp add: file_byte_def blkpos_div Let_def)
    moreover have "get_range (mem_of s) (u_base s) (unat ?a) ! (p - ?q) = mem_of s (u_base s + of_nat (p - ?q))"
      if "p < ?q + unat ?a" "?q \<le> p"
    proof -
      have "p - ?q < unat ?a" using that by linarith
      then show ?thesis by (simp add: get_range_def del: of_nat_diff)
    qed
    ultimately show ?thesis
      using True of(4) [of p] ib by (auto simp: blkpos_div put_bytes_def blkoff_mod simp del: of_nat_diff)
  next
    case False
    have "of_nat (p div 512) \<noteq> ?bn" using same_position [OF p q25] False by (simp add: blkpos_div)
    moreover have "\<not> (?q \<le> p \<and> p < ?q + unat ?a)"
      using in_block(1) [of ?q "unat ?a" p] ab(3) False by (simp add: blkoff_mod)
    ultimately show ?thesis using of(4) [of p] by auto
  qed
  have "has_written s ino (unat ?a) t"
    unfolding has_written_def
  proof (intro conjI)
    show "rd_core t = rd_core s"
      using rd_core_io [OF u(2)] rd_core_io [OF r(2)] by (simp add: t_def advance_def)
    show "mem_of t = mem_of s" "u_count t = u_count s"
      using io_core_fields [OF u(2)] io_core_fields [OF r(2)] by (simp_all add: t_def advance_def mem_of_def)
    show "u_error t = u_error s" using u(3) r(3) by (simp add: t_def advance_def)
    show "busy_set t = busy_set s" "cache_ok t" using bt ct u(4,5) q(1) by simp_all
    show "file_wf t ino" "\<forall>a. lookup t ino a = lookup s ino a" using of(1,3) by blast+
    show "\<forall>p<2 ^ 25. file_byte t ino p = (if ?q \<le> p \<and> p < ?q + unat ?a
      then mem_of s (u_base s + of_nat (p - ?q)) else file_byte s ino p)" using fb by blast
    show "\<forall>e l. e \<noteq> NO_DEVICE \<and> \<not> (e = ?dev \<and> l \<in> range (lookup s ino)) \<longrightarrow> view t e l = view s e l"
    proof (intro allI impI)
      fix e l assume el: "e \<noteq> NO_DEVICE \<and> \<not> (e = ?dev \<and> l \<in> range (lookup s ino))"
      have "?nb \<in> range (lookup s ino)" by (rule rangeI)
      then have "\<not> (e = ?dev \<and> l = ?nb)" using el by metis
      then show "view t e l = view s e l" using one el by (simp add: one_block_def)
    qed
  qed
  moreover have "u_base t = u_base s + ?a" "u_offset t = u_offset s + ucast ?a"
    using io_core_fields [OF u(2)] cr by (simp_all add: t_def advance_def)
  ultimately show ?thesis using run by blast
qed

subsection \<open>The whole loop\<close>

lemma has_written_trans:
  assumes a: "has_written s ino a u" and b: "has_written u ino b t"
    and at: "u_base u = u_base s + of_nat a" "unat (u_offset u) = unat (u_offset s) + a"
  shows "has_written s ino (a + b) t"
proof -
  have iu: "i_tab u = i_tab s" using a rd_core_fields(1) [of u s] by (simp add: has_written_def)
  let ?q = "unat (u_offset s)"
  have fb: "file_byte t ino p = (if ?q \<le> p \<and> p < ?q + (a + b)
      then mem_of s (u_base s + of_nat (p - ?q)) else file_byte s ino p)" if p: "p < 2 ^ 25" for p
  proof -
    have 1: "file_byte t ino p = (if ?q + a \<le> p \<and> p < ?q + a + b
        then mem_of s (u_base s + of_nat a + of_nat (p - (?q + a))) else file_byte u ino p)"
      using b a at p by (simp add: has_written_def)
    have 2: "file_byte u ino p = (if ?q \<le> p \<and> p < ?q + a
        then mem_of s (u_base s + of_nat (p - ?q)) else file_byte s ino p)"
      using a p by (simp add: has_written_def)
    have "u_base s + of_nat a + of_nat (p - (?q + a)) = u_base s + of_nat (p - ?q)" if "?q + a \<le> p"
    proof -
      have "(of_nat (p - ?q) :: u16) = of_nat (a + (p - (?q + a)))" using that by simp
      then show ?thesis by (simp add: add.assoc)
    qed
    then show ?thesis using 1 2 by auto
  qed
  have lk: "lookup u ino = lookup s ino" using a by (auto simp: has_written_def)
  have vw: "view t e l = view s e l" if "e \<noteq> NO_DEVICE" "\<not> (e = c_dev (i_tab s ino) \<and> l \<in> range (lookup s ino))" for e l
  proof -
    have "view t e l = view u e l" using b iu that lk by (simp add: has_written_def)
    moreover have "view u e l = view s e l" using a that by (simp add: has_written_def)
    ultimately show ?thesis by simp
  qed
  show ?thesis
    unfolding has_written_def
  proof (intro conjI)
    show "\<forall>p<2 ^ 25. file_byte t ino p = (if ?q \<le> p \<and> p < ?q + (a + b)
      then mem_of s (u_base s + of_nat (p - ?q)) else file_byte s ino p)" using fb by blast
    show "\<forall>e l. e \<noteq> NO_DEVICE \<and> \<not> (e = c_dev (i_tab s ino) \<and> l \<in> range (lookup s ino))
      \<longrightarrow> view t e l = view s e l" using vw by blast
    show "\<forall>a. lookup t ino a = lookup s ino a" using b lk by (simp add: has_written_def)
  qed (use a b in \<open>simp_all add: has_written_def\<close>)
qed

definition mapped_range :: "kst \<Rightarrow> nat \<Rightarrow> nat \<Rightarrow> nat \<Rightarrow> bool" where
  "mapped_range s ino p n \<longleftrightarrow> (\<forall>x. p \<le> x \<and> x < p + n \<longrightarrow>
     lookup s ino (of_nat (x div BLKSIZE)) \<noteq> 0 \<and> lookup s ino (of_nat (x div BLKSIZE)) \<noteq> NULLBLK)"

lemma write_loop_all:
  assumes "disk_ok s (c_dev (i_tab s ino))" "busy_set s = {}" "0 < nbufs s"
    "getmode ino s \<noteq> MODE_R_BDEV" "fl = 1 \<or> fl = 2" "file_wf s ino"
    "unat (u_offset s) + unat n \<le> 2 ^ 25" "mapped_range s ino (unat (u_offset s)) (unat n)"
    "mem_ok s (unat n)"
  shows "\<exists>t. write_loop ino (c_dev (i_tab s ino)) False fl n s = Some (0, t) \<and> has_written s ino (unat n) t
    \<and> u_base t = u_base s + n \<and> u_offset t = u_offset s + ucast n"
  using assms
proof (induction n arbitrary: s rule: measure_induct_rule [of unat])
  case (less n s)
  show ?case
  proof (cases "n = 0")
    case True
    then show ?thesis using less.prems(1,6)
      by (auto simp: write_loop.simps [of ino _ False _ 0] has_written_def disk_ok_def)
  next
    case False
    let ?a = "amount n (u_offset s)" and ?dev = "c_dev (i_tab s ino)" and ?q = "unat (u_offset s)"
    note ab = amount_bounds [OF False, of "u_offset s"]
    have here: "lookup s ino (blkpos (u_offset s)) \<noteq> 0" "lookup s ino (blkpos (u_offset s)) \<noteq> NULLBLK"
      using less.prems(8) ab(1,2) by (auto simp: mapped_range_def blkpos_div)
    obtain u where u: "write_loop ino ?dev False fl n s = write_loop ino ?dev False fl (n - ?a) u"
      "has_written s ino (unat ?a) u" "u_base u = u_base s + ?a" "u_offset u = u_offset s + ucast ?a"
      using write_turn [OF less.prems(1-4) False less.prems(5-7) here less.prems(9)] by blast
    have core: "rd_core u = rd_core s" "busy_set u = busy_set s" "cache_ok u" "file_wf u ino"
      using u(2) by (simp_all add: has_written_def)
    note cf = rd_core_fields [OF core(1)]
    have na: "unat (n - ?a) = unat n - unat ?a" using ab(2) by (simp add: unat_sub word_le_nat_alt)
    have ou: "unat (u_offset u) = ?q + unat ?a"
      unfolding u(4) by (rule offset_add) (use ab(2) less.prems(7) in simp)
    have "\<exists>t. write_loop ino (c_dev (i_tab u ino)) False fl (n - ?a) u = Some (0, t)
      \<and> has_written u ino (unat (n - ?a)) t \<and> u_base t = u_base u + (n - ?a) \<and> u_offset t = u_offset u + ucast (n - ?a)"
    proof (rule less.IH)
      show "unat (n - ?a) < unat n" using ab na by simp
      show "disk_ok u (c_dev (i_tab u ino))" using less.prems(1) core(3) cf by (simp add: disk_ok_def media_ok_def)
      show "busy_set u = {}" "0 < nbufs u" using core(2) cf less.prems(2,3) by simp_all
      show "getmode ino u \<noteq> MODE_R_BDEV" using getmode_rd [OF core(1)] less.prems(4) by simp
      show "unat (u_offset u) + unat (n - ?a) \<le> 2 ^ 25" using ou na ab(2) less.prems(7) by simp
      show "mapped_range u ino (unat (u_offset u)) (unat (n - ?a))"
        using less.prems(8) u(2) ou na ab(2) by (simp add: mapped_range_def has_written_def)
      show "mem_ok u (unat (n - ?a))" unfolding na
        by (rule mem_ok_shift [OF less.prems(9) ab(2)]) (use u(3) cf in simp_all)
    qed (use core less.prems(5) in simp_all)
    then obtain t where t: "write_loop ino ?dev False fl (n - ?a) u = Some (0, t)"
      "has_written u ino (unat (n - ?a)) t" "u_base t = u_base u + (n - ?a)" "u_offset t = u_offset u + ucast (n - ?a)"
      using cf by auto
    have "has_written s ino (unat ?a + unat (n - ?a)) t"
      by (rule has_written_trans [OF u(2) t(2)]) (use u(3) ou in simp_all)
    moreover have "(ucast n :: u32) = ucast ?a + ucast (n - ?a)"
    proof -
      have "unat (ucast ?a + ucast (n - ?a) :: u32) = unat (ucast ?a :: u32) + unat (n - ?a)"
        by (rule offset_add) (use u16_bound [of ?a] u16_bound [of "n - ?a"] in
          \<open>simp add: unsigned_ucast_eq take_bit_nat_eq_self\<close>)
      also have "\<dots> = unat (ucast n :: u32)"
        using na ab(2) u16_bound [of ?a] u16_bound [of n] by (simp add: unsigned_ucast_eq take_bit_nat_eq_self)
      finally show ?thesis by (simp only: word_unat_eq_iff)
    qed
    ultimately show ?thesis using u(1,3,4) t(1,3,4) na ab(2) by (auto simp: add.assoc)
  qed
qed

subsection \<open>Overwriting part of a file\<close>

lemma writei_file:
  assumes d: "disk_ok s (c_dev (i_tab s ino))" and q: "busy_set s = {}" "0 < nbufs s"
    and m: "getmode ino s = MODE_R_REG \<or> getmode ino s = MODE_R_DIR" and e: "u_error s = 0"
    and wf: "file_wf s ino" and room: "unat (u_offset s) + unat (u_count s) \<le> 2 ^ 25"
    and mp: "mapped_range s ino (unat (u_offset s)) (unat (u_count s))"
    and mo: "mem_ok s (unat (u_count s))"
  shows "\<exists>t. writei sw ino flag s = Some ((), t) \<and> u_count t = u_count s \<and> u_error t = 0
    \<and> u_offset t = u_offset s + ucast (u_count s) \<and> mem_of t = mem_of s \<and> busy_set t = {} \<and> cache_ok t
    \<and> i_size (c_node (i_tab t ino)) = max (i_size (c_node (i_tab s ino))) (u_offset s + ucast (u_count s))
    \<and> (\<forall>p<2 ^ 25. file_byte t ino p =
          (if unat (u_offset s) \<le> p \<and> p < unat (u_offset s) + unat (u_count s)
           then mem_of s (u_base s + of_nat (p - unat (u_offset s))) else file_byte s ino p))
    \<and> (\<forall>e l. e \<noteq> NO_DEVICE \<and> \<not> (e = c_dev (i_tab s ino) \<and> l \<in> range (lookup s ino))
          \<longrightarrow> view t e l = view s e l)"
proof -
  let ?n = "u_count s"
  define fl :: u8 where "fl = (if flag AND ucast O_SYNC \<noteq> 0 then 2 else 1)"
  have fl: "fl = 1 \<or> fl = 2" by (simp add: fl_def)
  have nb: "getmode ino s \<noteq> MODE_R_BDEV" using m by auto
  obtain u where u: "write_loop ino (c_dev (i_tab s ino)) False fl ?n s = Some (0, u)"
    "has_written s ino (unat ?n) u" "u_offset u = u_offset s + ucast ?n"
    using write_loop_all [OF d q nb fl wf room mp mo] by blast
  have iu: "i_tab u = i_tab s" using u(2) rd_core_fields(1) [of u s] by (simp add: has_written_def)
  define t where "t = (if u_offset u > i_size (c_node (i_tab u ino))
    then upd_i ino (\<lambda>c. c\<lparr>c_flags := c_flags c OR CDIRTY\<rparr>) (upd_node ino (\<lambda>d. d\<lparr>i_size := u_offset u\<rparr>) u) else u)"
  have keep: "view t = view u" "cache_ok t = cache_ok u" "busy_set t = busy_set u" "u_error t = u_error u"
    "u_count t = u_count u" "u_offset t = u_offset u" "mem_of t = mem_of u"
    "i_addr (c_node (i_tab t ino)) = i_addr (c_node (i_tab s ino))" "c_dev (i_tab t ino) = c_dev (i_tab s ino)"
    using io_cong [of t u] iu by (auto simp: t_def upd_i_def upd_node_def mem_of_def)
  have fb: "file_byte t ino p = file_byte u ino p" for p
  proof -
    have "lookup t ino a = lookup u ino a" for a
      by (rule lookup_cong) (use keep iu in simp_all)
    then show ?thesis using keep iu by (simp add: file_byte_def Let_def)
  qed
  have e0: "u_error u = 0" "u_count u = ?n" using u(2) e by (simp_all add: has_written_def)
  have fin: "finish_count 0 t = t" using keep(4) e0 by (simp add: finish_count_def)
  have "write_tail ino (c_dev (i_tab s ino)) False flag s = Some ((), t)"
    unfolding write_tail_def
    by (simp only: u(1) Option.bind.bind_lunit prod.case Let_def simp_thms fl_def [symmetric]
        t_def [symmetric] fin)
  then have run: "writei sw ino flag s = Some ((), t)" using m nb by (auto simp: writei_def Let_def)
  have "i_size (c_node (i_tab t ino)) = max (i_size (c_node (i_tab s ino))) (u_offset s + ucast ?n)"
    using iu u(3) by (auto simp: t_def upd_i_def upd_node_def max_def)
  with run keep fb u(2,3) e0 q(1) show ?thesis by (auto simp: has_written_def)
qed

text \<open>C4: writei() over a part of an ordinary file or directory whose blocks exist replaces exactly those
  bytes: afterwards the file reads as the bytes of memory within the range, and as before outside of
  it, whatever the alignment and over any number of blocks and indirect blocks; the size grows to the
  end of the range if that lies beyond it, the whole count is returned, and no block outside the
  file changes.\<close>

theorem writei_replaces_range:
  assumes "disk_ok s (c_dev (i_tab s ino))" and "busy_set s = {}" and "0 < nbufs s"
    and "getmode ino s = MODE_R_REG \<or> getmode ino s = MODE_R_DIR" and "u_error s = 0"
    and "file_wf s ino" and "unat (u_offset s) + unat (u_count s) \<le> 2 ^ 25"
    and "mapped_range s ino (unat (u_offset s)) (unat (u_count s))" and "mem_ok s (unat (u_count s))"
  shows "\<exists>t. writei sw ino flag s = Some ((), t) \<and> u_count t = u_count s \<and> u_error t = 0
    \<and> u_offset t = u_offset s + ucast (u_count s) \<and> mem_of t = mem_of s \<and> busy_set t = {} \<and> cache_ok t
    \<and> i_size (c_node (i_tab t ino)) = max (i_size (c_node (i_tab s ino))) (u_offset s + ucast (u_count s))
    \<and> (\<forall>p<2 ^ 25. file_byte t ino p =
          (if unat (u_offset s) \<le> p \<and> p < unat (u_offset s) + unat (u_count s)
           then mem_of s (u_base s + of_nat (p - unat (u_offset s))) else file_byte s ino p))
    \<and> (\<forall>e l. e \<noteq> NO_DEVICE \<and> \<not> (e = c_dev (i_tab s ino) \<and> l \<in> range (lookup s ino))
          \<longrightarrow> view t e l = view s e l)"
  by (rule writei_file [OF assms])

lemma sample_file_lookup: "lookup sample_file 0 a = (if a = 0 then 60 else 0)"
proof (cases "tree_at a")
  case (fields j k shs)
  have "j = 0 \<longleftrightarrow> a = 0" "j < 20" "j = 0 \<Longrightarrow> shs = []"
    using fields by (auto simp: tree_at_def unat_eq_zero word_less_nat_alt split: if_splits)
  then show ?thesis using fields by (simp add: lookup_def sample_dinode_def nth_list_update)
qed

lemma sample_file_nodes: "map_nodes sample_file 0 a = {}"
proof (cases "tree_at a")
  case (fields j k shs)
  have "j = 0 \<Longrightarrow> shs = []" "j < 20"
    using fields by (auto simp: tree_at_def unat_eq_zero word_less_nat_alt split: if_splits)
  then show ?thesis using fields by (cases "j = 0") (simp_all add: map_nodes_def Let_def nth_list_update)
qed

theorem writei_replaces_range_witness:
  "\<exists>t. writei (\<lambda>_. None) 0 0 (sample_file\<lparr>u_count := 300, u_offset := 10, u_base := 0x200, umem := (\<lambda>_. 7)\<rparr>) = Some ((), t)
     \<and> file_byte t 0 309 = 7 \<and> u_count t = 300"
proof -
  let ?s = "sample_file\<lparr>u_count := 300, u_offset := 10, u_base := 0x200, umem := (\<lambda>_. 7)\<rparr>"
  have "disk_ok ?s (c_dev (i_tab ?s 0))" "busy_set ?s = {}"
    using io_cong [of ?s sample_file] sample_file_disk by simp_all
  moreover have lk: "lookup ?s 0 = lookup sample_file 0" "map_nodes ?s 0 = map_nodes sample_file 0"
    using lookup_frame [of ?s sample_file 0] io_cong(2) [of ?s sample_file] by (simp_all add: fun_eq_iff)
  then have "file_wf ?s 0" by (auto simp: file_wf_def sample_file_lookup sample_file_nodes split: if_splits)
  moreover have "mapped_range ?s 0 10 300" using lk by (simp add: mapped_range_def sample_file_lookup)
  moreover have "getmode 0 ?s = MODE_R_REG" using sample_file_mode by (simp add: getmode_def)
  moreover have "u_error ?s = 0" "u_sysio ?s = False" by (simp_all add: sample_file_def sample_def)
  moreover have "mem_ok ?s 300" by (simp add: mem_ok_def sample_plat_def sample_file_def sample_def)
  ultimately obtain t where t: "writei (\<lambda>_. None) 0 0 ?s = Some ((), t)" "u_count t = 300"
    "\<forall>p<2 ^ 25. file_byte t 0 p = (if 10 \<le> p \<and> p < 10 + (300 :: nat)
       then mem_of ?s (u_base ?s + of_nat (p - 10)) else file_byte ?s 0 p)"
    using writei_replaces_range [of ?s 0 "\<lambda>_. None" 0] by auto
  have "file_byte t 0 309 = 7" using t(3) \<open>u_sysio ?s = False\<close> by (simp add: mem_of_def)
  with t(1,2) show ?thesis by blast
qed

end
