(* ===== verification/DirSpec.thy ===== *)
theory DirSpec
  imports Directory FileWrite
begin

text \<open>
  Directories as lists of entries: name comparison against the comparison of path components, the search of a
  directory, and the change of one entry. The n-th entry is the 32 bytes at the position 32 n of the
  directory's file.
\<close>

subsection \<open>Comparing names\<close>

definition component :: "u8 list \<Rightarrow> u8 list" where
  "component n = takeWhile (\<lambda>c. c \<noteq> 0 \<and> c \<noteq> slash) n"

lemma component_cases:
  "component n = [] \<longleftrightarrow> chr n = 0 \<or> chr n = slash"
  "chr n \<noteq> 0 \<Longrightarrow> chr n \<noteq> slash \<Longrightarrow> component n = chr n # component (tl n)"
  by (cases n; simp add: component_def chr_def)+

declare namecomp_from.simps [simp del]

lemma namecomp_from_component:
  "0 < n \<Longrightarrow> namecomp_from n a b \<longleftrightarrow> take n (component a) = take n (component b)"
proof (induction n arbitrary: a b)
  case 0
  then show ?case by simp
next
  case (Suc n)
  show ?case
  proof (cases "chr a \<noteq> 0 \<and> chr a \<noteq> slash")
    case False
    then have "component a = []" by (simp add: component_cases(1))
    then have "take (Suc n) (component a) = take (Suc n) (component b) \<longleftrightarrow> component b = []" by auto
    also have "\<dots> \<longleftrightarrow> chr b = 0 \<or> chr b = slash" by (rule component_cases(1))
    finally show ?thesis using False by (subst namecomp_from.simps) auto
  next
    case True
    then have a: "component a = chr a # component (tl a)" by (simp add: component_cases(2))
    show ?thesis
    proof (cases "chr b = chr a")
      case False
      then have "take 1 (component a) \<noteq> take 1 (component b)"
        using a component_cases [of b] by (cases "component b = []") auto
      then have "take (Suc n) (component a) \<noteq> take (Suc n) (component b)"
        by (metis One_nat_def le_add1 min.absorb1 plus_1_eq_Suc take_take)
      then show ?thesis using True False by (subst namecomp_from.simps) simp
    next
      case same: True
      then have b: "component b = chr b # component (tl b)" using True by (simp add: component_cases(2))
      show ?thesis using Suc.IH [of "tl a" "tl b"] True same a b
        by (subst namecomp_from.simps) (auto simp: Let_def)
    qed
  qed
qed

subsection \<open>The entries of a directory\<close>

definition entry :: "kst \<Rightarrow> nat \<Rightarrow> nat \<Rightarrow> direct" where
  "entry s wd n = direct_of (file_bytes s wd (n * DIR_LEN) DIR_LEN)"

definition dir_list :: "kst \<Rightarrow> nat \<Rightarrow> nat \<Rightarrow> direct list" where
  "dir_list s wd n = map (entry s wd) [0..<n]"

definition named :: "u8 list \<Rightarrow> direct \<Rightarrow> bool" where
  "named name d \<longleftrightarrow> take FILENAME_LEN (component name) = take FILENAME_LEN (component (d_name d))"

lemma namecomp_named: "namecomp name (d_name d) = named name d"
  by (simp add: namecomp_def named_def namecomp_from_component)

definition mapped_blocks :: "kst \<Rightarrow> nat \<Rightarrow> nat list \<Rightarrow> bool" where
  "mapped_blocks s wd ks \<longleftrightarrow> (\<forall>k\<in>set ks. k < 65536 \<and> lookup s wd (of_nat k) \<noteq> 0 \<and> lookup s wd (of_nat k) \<noteq> NULLBLK)"

lemma block_entry:
  assumes "mapped_blocks s wd [k]" "j < 16"
  shows "dir_entry (view s (c_dev (i_tab s wd)) (lookup s wd (of_nat k))) j = entry s wd (16 * k + j)"
proof -
  have p: "((16 * k + j) * 32) div 512 = k" "((16 * k + j) * 32) mod 512 = j * 32"
    using assms(2) by (simp_all add: add_mult_distrib div_add mult.commute [of k])
  have "get_bytes (view s (c_dev (i_tab s wd)) (lookup s wd (of_nat k))) (((16 * k + j) * 32) mod 512) 32
      = file_bytes s wd ((16 * k + j) * 32) 32"
    by (rule block_bytes) (use assms p in \<open>simp_all add: mapped_blocks_def Let_def\<close>)
  then show ?thesis by (simp only: dir_entry_def entry_def p)
qed

lemma find_append:
  "List.find P (xs @ ys) = (case List.find P xs of None \<Rightarrow> List.find P ys | Some x \<Rightarrow> Some x)"
  by (induction xs) auto

lemma find_map: "List.find P (map f xs) = map_option f (List.find (\<lambda>x. P (f x)) xs)"
  by (induction xs) auto

lemma find_cong: "(\<And>x. x \<in> set xs \<Longrightarrow> P x = Q x) \<Longrightarrow> List.find P xs = List.find Q xs"
  by (induction xs) auto

text \<open>The positions of the entries in the given blocks.\<close>

definition positions :: "nat list \<Rightarrow> nat list" where
  "positions ks = concat (map (\<lambda>k. map (\<lambda>j. 16 * k + j) [0..<16]) ks)"

lemma positions_upt: "positions [0..<m] = [0..<16 * m]"
proof (induction m)
  case (Suc m)
  have "map (\<lambda>j. 16 * m + j) [0..<16] = [16 * m..<16 * m + 16]"
    by (simp add: map_add_upt [symmetric] add.commute)
  then show ?case using Suc upt_add_eq_append [of 0 "16 * m" 16] by (simp add: positions_def add.commute [of 16])
qed (simp add: positions_def)

lemma entry_cong:
  assumes "i_tab t = i_tab s" "\<And>l. view t (c_dev (i_tab s wd)) l = view s (c_dev (i_tab s wd)) l"
  shows "entry t wd n = entry s wd n" "mapped_blocks t wd ks = mapped_blocks s wd ks"
proof -
  have a: "i_addr (c_node (i_tab t wd)) = i_addr (c_node (i_tab s wd))" "c_dev (i_tab t wd) = c_dev (i_tab s wd)"
    using assms(1) by simp_all
  show "entry t wd n = entry s wd n"
    unfolding entry_def by (simp only: file_bytes_cong [OF a assms(2)])
  show "mapped_blocks t wd ks = mapped_blocks s wd ks"
    unfolding mapped_blocks_def by (simp only: lookup_cong [OF a assms(2)])
qed

lemma srch_blocks_entries:
  assumes "disk_ok s (c_dev (i_tab s wd))" "busy_set s = {}" "0 < nbufs s" "getmode wd s \<noteq> MODE_R_BDEV"
    "mapped_blocks s wd ks"
  shows "\<exists>t. io_core t = io_core s \<and> u_error t = u_error s \<and> io_step s t (view s)
    \<and> srch_blocks wd name ks s = (case List.find (\<lambda>n. named name (entry s wd n)) (positions ks) of
        None \<Rightarrow> Some (None, t)
      | Some n \<Rightarrow> i_open (c_dev (i_tab s wd)) (d_ino (entry s wd n)) t)"
  using assms
proof (induction ks arbitrary: s)
  case Nil
  then show ?case by (auto simp: positions_def disk_ok_def intro!: exI [of _ s] io_step_refl)
next
  case (Cons k ks)
  let ?dev = "c_dev (i_tab s wd)" and ?lk = "lookup s wd (of_nat k)"
  have lk: "?lk \<noteq> 0" "mapped_blocks s wd [k]" "mapped_blocks s wd ks" using Cons.prems(5) by (auto simp: mapped_blocks_def)
  have dn: "?dev \<noteq> NO_DEVICE" using Cons.prems(1) by (simp add: disk_ok_def)
  obtain r where r: "bmap wd (of_nat k) True s = Some (?lk, r)" "io_core r = io_core s" "u_error r = u_error s"
    "io_step s r (view s)"
    using bmap_read [OF Cons.prems(1-4), of True "of_nat k"] lk(1) by auto
  have dr: "disk_ok r ?dev" and qr: "busy_set r = {}" "0 < nbufs r"
    using io_step_disk [OF r(4) Cons.prems(1)] r(4) Cons.prems(2,3) by (simp_all add: io_step_def)
  have vr: "view r e l = view s e l" if "e \<noteq> NO_DEVICE" for e l using r(4) that by (simp add: io_step_def)
  have av: "avail r ?dev ?lk" using qr by (auto simp: avail_busy)
  obtain b w where w: "bread ?dev ?lk False r = Some (Some b, w)" "bf_data (bufpool w b) = view r ?dev ?lk"
    "io_core w = io_core r" "u_error w = u_error r"
    "\<forall>m f. \<exists>u. brelse b (upd_fs m f w) = Some ((), upd_fs m f u) \<and> brelse b w = Some ((), u)
     \<and> io_core u = io_core r \<and> u_error u = u_error r \<and> io_step r u (view r)"
    by (rule read_then_release [OF dr av])
  obtain u where u: "brelse b w = Some ((), u)" "io_core u = io_core r" "u_error u = u_error r"
    "io_step r u (view r)" using w(5) by blast
  have su: "io_step s u (view s)" by (rule io_step_trans [OF r(4) u(4)]) (rule vr)
  have it: "i_tab r = i_tab s" "i_tab w = i_tab s" "i_tab u = i_tab s"
    using io_core_fields(1) [OF r(2)] io_core_fields(1) [OF w(3)] io_core_fields(1) [OF u(2)] by simp_all
  have D: "dir_entry (bf_data (bufpool w b)) j = entry s wd (16 * k + j)" if "j < 16" for j
    using block_entry [OF lk(2) that] w(2) vr [OF dn] by simp
  have P: "first_index 16 (\<lambda>j. namecomp name (d_name (dir_entry (bf_data (bufpool w b)) j)))
      = List.find (\<lambda>j. named name (entry s wd (16 * k + j))) [0..<16]"
    unfolding first_index_def by (rule find_cong) (simp add: namecomp_named D)
  let ?f = "List.find (\<lambda>j. named name (entry s wd (16 * k + j))) [0..<16]"
  have pos: "List.find (\<lambda>n. named name (entry s wd n)) (positions (k # ks))
      = (case ?f of None \<Rightarrow> List.find (\<lambda>n. named name (entry s wd n)) (positions ks) | Some j \<Rightarrow> Some (16 * k + j))"
    by (simp add: positions_def find_append find_map split: option.splits)
  have step: "srch_blocks wd name (k # ks) s = (case ?f of
      Some j \<Rightarrow> i_open ?dev (d_ino (entry s wd (16 * k + j))) u
    | None \<Rightarrow> srch_blocks wd name ks u)"
  proof (cases ?f)
    case None
    then show ?thesis
      by (simp add: r(1) it w(1) P u(1) del: upt_Suc)
  next
    case (Some j)
    then have "j < 16" by (auto simp: find_Some_iff)
    then show ?thesis using Some
      by (simp add: r(1) it w(1) P u(1) D del: upt_Suc)
  qed
  show ?case
  proof (cases ?f)
    case (Some j)
    then show ?thesis using step pos su u r(2,3) by (intro exI [of _ u]) (simp del: srch_blocks.simps)
  next
    case None
    have cu: "io_core u = io_core s" "u_error u = u_error s" using u(2,3) r(2,3) by simp_all
    have vu: "view u ?dev l = view s ?dev l" for l using su dn by (simp add: io_step_def)
    have "\<exists>t. io_core t = io_core u \<and> u_error t = u_error u \<and> io_step u t (view u)
      \<and> srch_blocks wd name ks u = (case List.find (\<lambda>n. named name (entry u wd n)) (positions ks) of
          None \<Rightarrow> Some (None, t)
        | Some n \<Rightarrow> i_open (c_dev (i_tab u wd)) (d_ino (entry u wd n)) t)"
    proof (rule Cons.IH)
      show "disk_ok u (c_dev (i_tab u wd))" using io_step_disk [OF su Cons.prems(1)] it by simp
      show "busy_set u = {}" "0 < nbufs u" using su Cons.prems(2,3) by (simp_all add: io_step_def)
      show "getmode wd u \<noteq> MODE_R_BDEV" using Cons.prems(4) it by (simp add: getmode_def)
      show "mapped_blocks u wd ks" using entry_cong(2) [OF it(3) vu] lk(3) by simp
    qed
    then obtain t where t: "io_core t = io_core u" "u_error t = u_error u" "io_step u t (view u)"
      "srch_blocks wd name ks u = (case List.find (\<lambda>n. named name (entry u wd n)) (positions ks) of
          None \<Rightarrow> Some (None, t)
        | Some n \<Rightarrow> i_open (c_dev (i_tab u wd)) (d_ino (entry u wd n)) t)" by blast
    have "io_step s t (view s)"
      by (rule io_step_trans [OF su t(3)]) (use su in \<open>simp add: io_step_def\<close>)
    moreover have "srch_blocks wd name (k # ks) s = (case List.find (\<lambda>n. named name (entry s wd n)) (positions (k # ks)) of
        None \<Rightarrow> Some (None, t)
      | Some n \<Rightarrow> i_open ?dev (d_ino (entry s wd n)) t)"
      using step pos None t(4) [unfolded it(3) entry_cong(1) [OF it(3) vu]] by (simp del: srch_blocks.simps)
    ultimately show ?thesis using t(1,2) cu by (intro exI [of _ t]) (simp del: srch_blocks.simps)
  qed
qed

definition dir_blocks :: "kst \<Rightarrow> nat \<Rightarrow> nat" where
  "dir_blocks s wd = (unat (i_size (c_node (i_tab s wd))) + 511) div 512"

lemma srch_dir_entries:
  assumes "disk_ok s (c_dev (i_tab s wd))" "busy_set s = {}" "0 < nbufs s" "getmode wd s \<noteq> MODE_R_BDEV"
    "mapped_blocks s wd [0..<dir_blocks s wd]" and small: "unat (i_size (c_node (i_tab s wd))) \<le> 33553920"
  shows "\<exists>t. io_core t = io_core s \<and> u_error t = u_error s \<and> io_step s t (view s)
    \<and> srch_dir wd name s = (case List.find (\<lambda>n. named name (entry s wd n)) [0..<16 * dir_blocks s wd] of
        None \<Rightarrow> Some (None, t)
      | Some n \<Rightarrow> i_open (c_dev (i_tab s wd)) (d_ino (entry s wd n)) t)"
proof -
  let ?sz = "i_size (c_node (i_tab s wd))"
  have "unat (?sz + 511) = unat ?sz + 511" using small by (simp add: unat_word_ariths)
  then have "unat (ucast (drop_bit 9 (?sz + 511)) :: u16) = dir_blocks s wd"
    using small by (simp add: dir_blocks_def unsigned_ucast_eq drop_bit_eq_div unat_div take_bit_nat_eq_self
        div_less_iff_less_mult)
  then have "srch_dir wd name s = srch_blocks wd name [0..<dir_blocks s wd] s"
    by (simp add: srch_dir_def Let_def)
  then show ?thesis using srch_blocks_entries [OF assms(1-5), of name] by (simp add: positions_upt)
qed

subsection \<open>The search for a slot\<close>

lemma unat_of_nat_len: "n < 2 ^ LENGTH('a) \<Longrightarrow> unat (of_nat n :: 'a::len word) = n"
  by (simp add: unat_of_nat)

lemma getmode_entry_io [simp]: "getmode wd (entry_io s) = getmode wd s"
  by (simp add: getmode_def entry_io_def)

lemma entry_turn:
  assumes d: "disk_ok s (c_dev (i_tab s wd))" and q: "busy_set s = {}" "0 < nbufs s"
    and m: "getmode wd s = MODE_R_DIR" and e: "u_error s = 0"
    and sz: "unat (i_size (c_node (i_tab s wd))) = 32 * n" and at: "u_offset s = of_nat (32 * k)" "k \<le> n"
  shows "\<exists>t. readi sw wd 0 (entry_io s) = Some ((), t) \<and> rd_core t = rd_core (s\<lparr>u_sysio := True\<rparr>)
    \<and> u_error t = 0 \<and> io_step s t (view s) \<and> u_count t = (if k = n then 0 else 32)
    \<and> (k < n \<longrightarrow> u_offset t = of_nat (32 * Suc k) \<and> curentry t = entry s wd k)
    \<and> (k = n \<longrightarrow> u_offset t = of_nat (32 * n))"
proof -
  let ?s = "entry_io s"
  have c: "disk_ok ?s (c_dev (i_tab ?s wd))" "busy_set ?s = {}" "0 < nbufs ?s" "view ?s = view s"
    "io_step s u V = io_step ?s u V" for u V
    using io_cong [of ?s s] d q by (simp_all add: entry_io_def)
  have ev: "u_error ?s = 0" "mem_ok ?s (unat (u_count ?s))" "u_count ?s = 32" "u_sysio ?s"
    "u_offset ?s = of_nat (32 * k)" "i_tab ?s = i_tab s"
    using e at by (simp_all add: entry_io_def mem_ok_def)
  have fb: "file_bytes ?s wd p l = file_bytes s wd p l" for p l
    by (rule file_bytes_cong) (simp_all add: c(4) ev(6))
  have off: "unat (of_nat (32 * k) :: u32) = 32 * k"
    by (rule unat_of_nat_len) (use at(2) sz u32_bound [of "i_size (c_node (i_tab s wd))"] in simp)
  have rd: "readable ?s wd = (if k = n then 0 else 32)"
    using at(2) sz off by (auto simp: readable_def ev)
  obtain t where t: "readi sw wd 0 ?s = Some ((), t)" "u_count t = of_nat (readable ?s wd)"
    "u_offset t = u_offset ?s + of_nat (readable ?s wd)"
    "mem_of t = put_range (u_base ?s) (file_bytes ?s wd (unat (u_offset ?s)) (readable ?s wd)) (mem_of ?s)"
    "rd_core t = rd_core ?s" "u_error t = 0" "io_step ?s t (view ?s)"
    using readi_file [OF c(1-3) _ ev(1,2), of sw 0] m by auto
  have core: "rd_core t = rd_core (s\<lparr>u_sysio := True\<rparr>)"
    using t(5) by (simp add: entry_io_def rd_core_def io_core_def)
  have cur: "curentry t = entry s wd k" if "k < n"
  proof -
    have "plat t = plat s" "u_sysio t" using rd_core_fields(4,7) [OF core] by simp_all
    moreover have "u_base ?s = curentry_addr (plat s)" by (simp add: entry_io_def)
    ultimately have "curentry t = direct_of (get_range (mem_of t) (u_base ?s) 32)"
      by (simp add: curentry_def mem_of_def)
    also have "mem_of t = put_range (u_base ?s) (file_bytes s wd (32 * k) 32) (mem_of ?s)"
      using t(4) rd that ev(5) off by (simp add: fb)
    also have "get_range (put_range (u_base ?s) (file_bytes s wd (32 * k) 32) (mem_of ?s)) (u_base ?s) 32
        = file_bytes s wd (32 * k) 32" by (rule get_put_range) simp_all
    finally show ?thesis by (simp add: entry_def mult.commute)
  qed
  have "io_step s t (view s)" using t(7) c(4,5) by simp
  moreover have "k < n \<Longrightarrow> u_offset t = of_nat (32 * Suc k)" "k = n \<Longrightarrow> u_offset t = of_nat (32 * n)"
    using t(3) rd ev(5) by (simp_all add: add.commute)
  ultimately show ?thesis using t(1,2,6) core cur rd by (intro exI [of _ t]) auto
qed

definition searched :: "kst \<Rightarrow> nat \<Rightarrow> nat \<Rightarrow> nat option \<Rightarrow> kst \<Rightarrow> bool" where
  "searched s wd n r t \<longleftrightarrow> rd_core t = rd_core (s\<lparr>u_sysio := True\<rparr>) \<and> u_error t = 0 \<and> io_step s t (view s)
     \<and> (case r of
          None \<Rightarrow> u_count t = 0 \<and> u_offset t = of_nat (32 * n)
        | Some j \<Rightarrow> u_count t = 32 \<and> u_offset t = of_nat (32 * Suc j) \<and> curentry t = entry s wd j)"

lemma ch_search_from:
  assumes "disk_ok s (c_dev (i_tab s wd))" "busy_set s = {}" "0 < nbufs s"
    "getmode wd s = MODE_R_DIR" "u_error s = 0"
    "unat (i_size (c_node (i_tab s wd))) = 32 * n" "u_offset s = of_nat (32 * k)" "k \<le> n"
  shows "\<exists>t. ch_search sw wd name s = Some ((), t)
    \<and> searched s wd n (List.find (\<lambda>j. named name (entry s wd j)) [k..<n]) t"
  using assms
proof (induction "n - k" arbitrary: k s)
  case 0
  then have k: "k = n" by simp
  obtain t where "readi sw wd 0 (entry_io s) = Some ((), t)" "u_count t = 0" "u_error t = 0"
    "rd_core t = rd_core (s\<lparr>u_sysio := True\<rparr>)" "io_step s t (view s)" "u_offset t = of_nat (32 * n)"
    using entry_turn [OF "0.prems", of sw] k by auto
  then show ?case using k
    by (subst ch_search.simps) (auto simp: searched_def)
next
  case (Suc m)
  then have k: "k < n" by simp
  obtain t where t: "readi sw wd 0 (entry_io s) = Some ((), t)" "u_count t = 32" "u_error t = 0"
    "rd_core t = rd_core (s\<lparr>u_sysio := True\<rparr>)" "io_step s t (view s)"
    "u_offset t = of_nat (32 * Suc k)" "curentry t = entry s wd k"
    using entry_turn [OF Suc.prems, of sw] k by auto
  have up: "[k..<n] = k # [Suc k..<n]" using k by (simp add: upt_conv_Cons)
  show ?case
  proof (cases "named name (entry s wd k)")
    case True
    then have "List.find (\<lambda>j. named name (entry s wd j)) [k..<n] = Some k" by (simp add: up)
    then show ?thesis using True t
      by (subst ch_search.simps) (auto simp: searched_def namecomp_named)
  next
    case False
    have it: "i_tab t = i_tab s" using rd_core_fields(1) [OF t(4)] by simp
    have dn: "c_dev (i_tab s wd) \<noteq> NO_DEVICE" using Suc.prems(1) by (simp add: disk_ok_def)
    have vt: "view t (c_dev (i_tab s wd)) l = view s (c_dev (i_tab s wd)) l" for l
      using t(5) dn by (simp add: io_step_def)
    have "\<exists>u. ch_search sw wd name t = Some ((), u)
      \<and> searched t wd n (List.find (\<lambda>j. named name (entry t wd j)) [Suc k..<n]) u"
    proof (rule Suc.hyps(1))
      show "m = n - Suc k" using Suc.hyps(2) by simp
      show "disk_ok t (c_dev (i_tab t wd))" using io_step_disk [OF t(5) Suc.prems(1)] it by simp
      show "busy_set t = {}" "0 < nbufs t" using t(5) Suc.prems(2,3) by (simp_all add: io_step_def)
      show "getmode wd t = MODE_R_DIR" using Suc.prems(4) it by (simp add: getmode_def)
    qed (use t it k Suc.prems(6) in simp_all)
    then obtain u where u: "ch_search sw wd name t = Some ((), u)"
      "searched t wd n (List.find (\<lambda>j. named name (entry s wd j)) [Suc k..<n]) u"
      by (auto simp: entry_cong(1) [OF it vt])
    have "searched s wd n (List.find (\<lambda>j. named name (entry s wd j)) [Suc k..<n]) u"
    proof -
      have "rd_core (t\<lparr>u_sysio := True\<rparr>) = rd_core (s\<lparr>u_sysio := True\<rparr>)"
      proof -
        have "rd_core (t\<lparr>u_sysio := True\<rparr>) = (rd_core t)\<lparr>u_sysio := True\<rparr>"
          by (simp add: rd_core_def io_core_def)
        also have "\<dots> = rd_core (s\<lparr>u_sysio := True\<rparr>)" unfolding t(4) by (simp add: rd_core_def io_core_def)
        finally show ?thesis .
      qed
      moreover have "io_step s u (view s)" if "io_step t u (view t)"
        by (rule io_step_trans [OF t(5) that]) (use t(5) in \<open>simp add: io_step_def\<close>)
      ultimately show ?thesis using u(2) by (auto simp: searched_def entry_cong(1) [OF it vt] split: option.splits)
    qed
    moreover have "ch_search sw wd name s = ch_search sw wd name t"
      using t False by (subst ch_search.simps) (simp add: namecomp_named)
    ultimately show ?thesis using u(1) False up by simp
  qed
qed

subsection \<open>Changing an entry\<close>

lemma direct_of_bytes:
  assumes "length (d_name d) = FILENAME_LEN" shows "direct_of (direct_bytes d) = d"
  using assms by (cases d) (simp add: direct_of_def direct_bytes_def rd16_le16)

lemma length_direct_bytes: "length (d_name d) = FILENAME_LEN \<Longrightarrow> length (direct_bytes d) = DIR_LEN"
  by (simp add: direct_bytes_def)

lemma length_pad_name [simp]: "length (pad_name n) = FILENAME_LEN"
  by (simp add: pad_name_def)

text \<open>Writing the entry in \<open>curentry\<close> over the j-th one.\<close>

definition entry_written :: "kst \<Rightarrow> nat \<Rightarrow> nat \<Rightarrow> nat \<Rightarrow> direct \<Rightarrow> kst \<Rightarrow> bool" where
  "entry_written s wd n j d t \<longleftrightarrow> u_error t = 0 \<and> busy_set t = {} \<and> cache_ok t
     \<and> dir_list t wd n = (dir_list s wd n)[j := d]
     \<and> (\<forall>e l. e \<noteq> NO_DEVICE \<and> \<not> (e = c_dev (i_tab s wd) \<and> l \<in> range (lookup s wd)) \<longrightarrow> view t e l = view s e l)"

lemma write_entry:
  assumes d: "disk_ok s (c_dev (i_tab s wd))" and q: "busy_set s = {}" "0 < nbufs s"
    and m: "getmode wd s = MODE_R_DIR" and wf: "file_wf s wd"
    and room: "32 * n \<le> 2 ^ 25" "mapped_range s wd 0 (32 * n)" and j: "j < n"
    and len: "length (d_name e) = FILENAME_LEN"
    and t: "rd_core t = rd_core (s\<lparr>u_sysio := True\<rparr>)" "u_error t = 0" "io_step s t (view s)"
      "u_offset t = of_nat (32 * j)"
  shows "\<exists>u. writei sw wd 0 (entry_io (set_curentry e t)) = Some ((), u) \<and> entry_written s wd n j e u"
proof -
  let ?v = "entry_io (set_curentry e t)" and ?dev = "c_dev (i_tab s wd)"
  have dn: "?dev \<noteq> NO_DEVICE" using d by (simp add: disk_ok_def)
  have it: "i_tab t = i_tab s" "plat t = plat s" using rd_core_fields(1,7) [OF t(1)] by simp_all
  have iv: "i_tab ?v = i_tab s" "u_sysio ?v" "u_error ?v = 0" "u_count ?v = 32" "u_offset ?v = of_nat (32 * j)"
    "u_base ?v = curentry_addr (plat s)" "mem_of ?v = put_range (curentry_addr (plat s)) (direct_bytes e) (kmem t)"
    using it t(2,4) by (simp_all add: entry_io_def set_curentry_def mem_of_def)
  have vv: "view ?v x l = view s x l" if "x \<noteq> NO_DEVICE" for x l
    using io_cong(2) [of ?v t] t(3) that by (simp add: entry_io_def set_curentry_def io_step_def)
  have dv: "disk_ok ?v (c_dev (i_tab ?v wd))" and qv: "busy_set ?v = {}" "0 < nbufs ?v"
    using io_cong(3,4) [of ?v t] io_step_disk [OF t(3) d] t(3) q iv(1)
    by (simp_all add: entry_io_def set_curentry_def io_step_def)
  have lk: "lookup ?v wd = lookup s wd" "map_nodes ?v wd = map_nodes s wd"
    using lookup_frame [OF iv(1)] vv [OF dn] by (auto simp: fun_eq_iff)
  have wv: "file_wf ?v wd" using wf by (simp add: file_wf_def lk)
  have off: "unat (of_nat (32 * j) :: u32) = 32 * j"
    by (rule unat_of_nat_len) (use j room(1) in simp)
  have addr: "i_addr (c_node (i_tab ?v wd)) = i_addr (c_node (i_tab s wd))" "c_dev (i_tab ?v wd) = ?dev"
    using iv(1) by simp_all
  have fb: "file_byte ?v wd p = file_byte s wd p" for p
    using file_bytes_cong [OF addr vv [OF dn], of p 1] by (simp add: file_bytes_def)
  obtain u where u: "writei sw wd 0 ?v = Some ((), u)" "u_error u = 0" "busy_set u = {}" "cache_ok u"
    "\<forall>p<2 ^ 25. file_byte u wd p = (if unat (u_offset ?v) \<le> p \<and> p < unat (u_offset ?v) + unat (u_count ?v)
        then mem_of ?v (u_base ?v + of_nat (p - unat (u_offset ?v))) else file_byte ?v wd p)"
    "\<forall>x l. x \<noteq> NO_DEVICE \<and> \<not> (x = c_dev (i_tab ?v wd) \<and> l \<in> range (lookup ?v wd)) \<longrightarrow> view u x l = view ?v x l"
  proof -
    have g: "getmode wd ?v = MODE_R_DIR" using m iv(1) by (simp add: getmode_def)
    have r: "unat (u_offset ?v) + unat (u_count ?v) \<le> 2 ^ 25" using iv(4,5) off j room(1) by simp
    have mp: "mapped_range ?v wd (unat (u_offset ?v)) (unat (u_count ?v))"
      using room(2) iv(4,5) off j lk by (auto simp: mapped_range_def)
    have mo: "mem_ok ?v (unat (u_count ?v))" using iv(2) by (simp add: mem_ok_def)
    show ?thesis
      using that writei_file [OF dv qv _ iv(3) wv r mp mo, of sw 0] g by auto
  qed
  have byte: "file_byte u wd p = (if 32 * j \<le> p \<and> p < 32 * j + 32 then direct_bytes e ! (p - 32 * j) else file_byte s wd p)"
    if p: "p < 32 * n" for p
  proof -
    have p2: "p < 2 ^ 25" using p room(1) by linarith
    have put: "put_range a bs m (a + of_nat k) = bs ! k" if "k < 32" "length bs = 32" for k a bs m
      using that by (simp add: put_range_def unat_of_nat_len)
    note b = u(5) [rule_format, OF p2, unfolded iv(4,5,6,7) off fb]
    have c: "unat (32 :: u16) = 32" by simp
    show ?thesis
    proof (cases "32 * j \<le> p \<and> p < 32 * j + 32")
      case True
      then have "p - 32 * j < 32" by linarith
      from put [OF this length_direct_bytes [OF len]] show ?thesis using b True by (simp only: c if_True simp_thms)
    next
      case False
      then show ?thesis using b by (simp only: c if_False)
    qed
  qed
  have "entry u wd k = (if k = j then e else entry s wd k)" if k: "k < n" for k
  proof -
    have "file_bytes u wd (k * 32) 32 = (if k = j then direct_bytes e else file_bytes s wd (k * 32) 32)"
    proof (rule nth_equalityI)
      show "length (file_bytes u wd (k * 32) 32) = length (if k = j then direct_bytes e else file_bytes s wd (k * 32) 32)"
        using length_direct_bytes [OF len] by simp
    next
      fix i assume "i < length (file_bytes u wd (k * 32) 32)"
      then have i: "i < 32" by simp
      have p: "k * 32 + i < 32 * n"
      proof -
        have "32 * Suc k \<le> 32 * n" using k by (intro mult_le_mono2) simp
        then show ?thesis using i by simp
      qed
      have "32 * j \<le> k * 32 + i \<and> k * 32 + i < 32 * j + 32 \<longleftrightarrow> k = j"
        by (cases k j rule: linorder_cases) (use i in auto)
      then show "file_bytes u wd (k * 32) 32 ! i = (if k = j then direct_bytes e else file_bytes s wd (k * 32) 32) ! i"
        using i byte [OF p] by (simp add: file_bytes_def)
    qed
    then show ?thesis using direct_of_bytes [OF len] by (simp add: entry_def)
  qed
  then have "dir_list u wd n = (dir_list s wd n)[j := e]"
    by (intro nth_equalityI) (auto simp: dir_list_def nth_list_update)
  then have "entry_written s wd n j e u"
    unfolding entry_written_def
  proof (intro conjI allI impI)
    fix x l assume x: "x \<noteq> NO_DEVICE \<and> \<not> (x = ?dev \<and> l \<in> range (lookup s wd))"
    then have "view u x l = view ?v x l" using u(6) [unfolded iv(1) lk] by blast
    also have "\<dots> = view s x l" using x by (intro vv) simp
    finally show "view u x l = view s x l" .
  qed (rule u(2) u(3) u(4) | assumption)+
  then show ?thesis using u(1) by blast
qed

text \<open>Time stamps and the size are not part of the entries.\<close>

lemma entry_written_stamp:
  assumes "entry_written s wd n j e u" and "bufpool t = bufpool u" "nbufs t = nbufs u" "disk t = disk u" "plat t = plat u"
    "u_error t = u_error u"
    "i_addr (c_node (i_tab t wd)) = i_addr (c_node (i_tab u wd))" "c_dev (i_tab t wd) = c_dev (i_tab u wd)"
  shows "entry_written s wd n j e t"
proof -
  note c = io_cong [OF assms(3,2,4,5)]
  have "file_bytes t wd p l = file_bytes u wd p l" for p l
    by (rule file_bytes_cong [OF assms(7,8)]) (simp add: c(2))
  then have "dir_list t wd n = dir_list u wd n" by (simp add: dir_list_def entry_def)
  then show ?thesis using assms(1,6) by (simp add: entry_written_def c(1-3))
qed

lemma setftime_frame:
  "bufpool (setftime i f s) = bufpool s" "nbufs (setftime i f s) = nbufs s" "disk (setftime i f s) = disk s"
  "plat (setftime i f s) = plat s" "u_error (setftime i f s) = u_error s"
  "i_addr (c_node (i_tab (setftime i f s) k)) = i_addr (c_node (i_tab s k))"
  "c_dev (i_tab (setftime i f s) k) = c_dev (i_tab s k)"
  by (simp_all add: setftime_def Let_def upd_node_def upd_i_def)

definition link_entry :: "u8 list \<Rightarrow> nat option \<Rightarrow> kst \<Rightarrow> direct" where
  "link_entry name ino s = \<lparr>d_ino = (case ino of Some i \<Rightarrow> c_num (i_tab s i) | None \<Rightarrow> 0), d_name = pad_name name\<rparr>"

lemma ch_link_entry:
  assumes d: "disk_ok s (c_dev (i_tab s wd))" and q: "busy_set s = {}" "0 < nbufs s"
    and m: "getmode wd s = MODE_R_DIR" and e: "u_error s = 0"
    and sz: "unat (i_size (c_node (i_tab s wd))) = 32 * n" "32 * n \<le> 2 ^ 25"
    and wf: "file_wf s wd" "mapped_range s wd 0 (32 * n)"
    and perm: "c_flags (i_tab s wd) AND CRDONLY = 0" "getperm wd s AND OTH_WR \<noteq> 0"
    and new: "chr new \<noteq> 0 \<or> ino = None"
    and old: "List.find (\<lambda>j. named old (entry s wd j)) [0..<n] = Some j"
  shows "\<exists>t. ch_link sw wd old new ino s = Some (True, t) \<and> entry_written s wd n j (link_entry new ino s) t"
proof -
  let ?s = "s\<lparr>u_offset := 0\<rparr>"
  have c: "disk_ok ?s (c_dev (i_tab ?s wd))" "busy_set ?s = {}" "0 < nbufs ?s" "view ?s = view s"
    using io_cong [of ?s s] d q by simp_all
  have en: "entry ?s wd i = entry s wd i" for i by (rule entry_cong) (simp_all add: c(4))
  obtain t where t: "ch_search sw wd old ?s = Some ((), t)" "searched ?s wd n (Some j) t"
    using ch_search_from [OF c(1-3), of n 0 sw old] m e sz old by (auto simp: getmode_def en)
  have j: "j < n" using old by (auto simp: find_Some_iff)
  have tf: "rd_core t = rd_core (s\<lparr>u_sysio := True\<rparr>)" "u_error t = 0" "io_step s t (view s)"
    "u_count t = 32" "u_offset t = of_nat (32 * Suc j)"
    using t(2) io_cong [of ?s s] by (simp_all add: searched_def rd_core_def io_core_def)
  let ?e = "link_entry new ino s"
  have it: "i_tab t = i_tab s" using rd_core_fields(1) [OF tf(1)] by simp
  define v where "v = (set_curentry ?e t)\<lparr>u_offset := of_nat (32 * j)\<rparr>"
  have v: "v = set_curentry ?e (t\<lparr>u_offset := of_nat (32 * j)\<rparr>)" by (simp add: v_def set_curentry_def)
  have "\<exists>u. writei sw wd 0 (entry_io (set_curentry ?e (t\<lparr>u_offset := of_nat (32 * j)\<rparr>))) = Some ((), u)
      \<and> entry_written s wd n j ?e u"
  proof (rule write_entry [OF d q m wf(1) sz(2) wf(2) j])
    show "io_step s (t\<lparr>u_offset := of_nat (32 * j)\<rparr>) (view s)"
      using tf(3) io_cong(6) [of "t\<lparr>u_offset := of_nat (32 * j)\<rparr>" t s "view s"] by simp
  qed (use tf in \<open>simp_all add: link_entry_def\<close>)
  then obtain u where u: "writei sw wd 0 (entry_io v) = Some ((), u)" "entry_written s wd n j ?e u"
    using v by auto
  have bk: "(set_curentry ?e t)\<lparr>u_offset := u_offset t - of_nat DIR_LEN\<rparr> = v"
    using tf(5) by (simp add: v_def)
  let ?w = "setftime wd (A_TIME OR M_TIME OR C_TIME) u"
  let ?rest = "blkoff (i_size (c_node (i_tab ?w wd)))"
  define x where "x = (if ?rest \<noteq> 0 then upd_node wd (\<lambda>d. d\<lparr>i_size := i_size d + ucast (of_nat BLKSIZE - ?rest)\<rparr>) ?w else ?w)"
  have run: "ch_link sw wd old new ino s = Some (True, x)"
  proof -
    have le: "\<lparr>d_ino = (case ino of Some i \<Rightarrow> c_num (i_tab t i) | None \<Rightarrow> 0), d_name = pad_name new\<rparr> = ?e"
      unfolding link_entry_def it ..
    have ue: "u_error u = 0" using u(2) by (simp add: entry_written_def)
    have sf: "u_count (set_curentry ?e t) = 32" "u_offset (set_curentry ?e t) = u_offset t"
      using tf(4) by (simp_all add: set_curentry_def)
    show ?thesis
      using new perm ue by (simp add: ch_link_def t(1) tf(4) le sf bk [simplified] u(1) Let_def x_def)
  qed
  have "entry_written s wd n j ?e x"
    by (rule entry_written_stamp [OF u(2)]) (simp_all add: x_def setftime_frame upd_node_def upd_i_def)
  then show ?thesis using run by blast
qed

subsection \<open>A sample directory\<close>

text \<open>A directory of one block, in inode slot 0, whose entry 1 is inode 5 under the name \<open>a\<close>.\<close>

definition entry_a :: direct where
  "entry_a = \<lparr>d_ino = 5, d_name = pad_name [97]\<rparr>"

definition sample_dir :: kst where
  "sample_dir = sample_file\<lparr>i_tab := (\<lambda>_. sample_inode\<lparr>c_node := (c_node sample_inode)\<lparr>i_mode := F_DIR OR 0x1FF\<rparr>\<rparr>),
     disk := (\<lambda>_ k. if k = 60 then put_bytes zero_block 32 (direct_bytes entry_a) else zero_block)\<rparr>"

lemma sample_dir_ok: "disk_ok sample_dir 0" "busy_set sample_dir = {}" "0 < nbufs sample_dir"
  by (auto simp: disk_ok_def cache_ok_def buf_ok_def same_block_def media_ok_def busy_set_def sample_dir_def sample_file_def
      sample_defs)

lemma sample_dir_fields: "c_dev (i_tab sample_dir 0) = 0" "u_error sample_dir = 0"
  "i_size (c_node (i_tab sample_dir 0)) = 512" "c_flags (i_tab sample_dir 0) = 0"
  by (simp_all add: sample_dir_def sample_file_def sample_def)

lemma sample_dir_mode: "getmode 0 sample_dir = MODE_R_DIR"
proof -
  have "ucast (drop_bit 8 ((F_DIR OR 0x1FF :: u16) AND F_MASK)) = (0x40 :: u8)" by code_simp
  then show ?thesis by (simp add: getmode_def sample_dir_def)
qed

lemma sample_dir_view: "view sample_dir 0 60 = put_bytes zero_block 32 (direct_bytes entry_a)"
  by (simp add: view_def bfind_def first_index_def sample_dir_def sample_file_def sample_defs upt_rec)

lemma sample_dir_lookup: "lookup sample_dir 0 a = (if a = 0 then 60 else 0)" "map_nodes sample_dir 0 a = {}"
proof -
  obtain j k shs where tr: "tree_at a = (j, k, shs)" by (cases "tree_at a")
  have j: "j = 0 \<longleftrightarrow> a = 0" "j < 20" "j = 0 \<Longrightarrow> shs = []"
    using tr by (auto simp: tree_at_def unat_eq_zero word_less_nat_alt split: if_splits)
  have "i_addr (c_node (i_tab sample_dir 0)) = (replicate 20 0)[0 := 60]" by (simp add: sample_dir_def)
  then show "lookup sample_dir 0 a = (if a = 0 then 60 else 0)" "map_nodes sample_dir 0 a = {}"
    using tr j by (auto simp: lookup_def map_nodes_def Let_def nth_list_update)
qed

lemma sample_dir_mapped: "mapped_blocks sample_dir 0 [0..<dir_blocks sample_dir 0]"
  by (simp add: mapped_blocks_def dir_blocks_def sample_dir_fields sample_dir_lookup)

lemma sample_dir_entries:
  assumes "j < 16"
  shows "entry sample_dir 0 j = (if j = 1 then entry_a else \<lparr>d_ino = 0, d_name = replicate 30 0\<rparr>)"
proof -
  have len: "length (d_name entry_a) = FILENAME_LEN" by (simp add: entry_a_def)
  have "entry sample_dir 0 j = dir_entry (put_bytes zero_block 32 (direct_bytes entry_a)) j"
    using block_entry [of sample_dir 0 0 j] assms
    by (simp add: mapped_blocks_def sample_dir_lookup sample_dir_view sample_dir_fields)
  also have "\<dots> = (if j = 1 then entry_a else \<lparr>d_ino = 0, d_name = replicate 30 0\<rparr>)"
  proof (cases "j = 1")
    case True
    then show ?thesis using length_direct_bytes [OF len] direct_of_bytes [OF len]
      by (simp add: dir_entry_def get_put_bytes_same)
  next
    case False
    then have "j * 32 + 32 \<le> 32 \<or> 32 + 32 \<le> j * 32" by (cases j) auto
    then have "get_bytes (put_bytes zero_block 32 (direct_bytes entry_a)) (j * 32) 32 = get_bytes zero_block (j * 32) 32"
      using length_direct_bytes [OF len] by (intro get_put_bytes_other) simp
    moreover have "get_bytes zero_block (j * 32) 32 = replicate 32 0"
      by (rule nth_equalityI) (simp_all add: zero_block_def)
    ultimately show ?thesis using False by (simp add: dir_entry_def direct_of_def rd16_def)
  qed
  finally show ?thesis .
qed

lemma named_a: "named [97] entry_a" "\<not> named [97] \<lparr>d_ino = 0, d_name = replicate 30 0\<rparr>"
  by (simp_all add: named_def entry_a_def component_def pad_name_def)

lemma sample_dir_find: "List.find (\<lambda>n. named [97] (entry sample_dir 0 n)) [0..<16] = Some 1"
  by (simp add: upt_rec sample_dir_entries named_a)

subsection \<open>The properties\<close>

text \<open>Two names compare equal exactly when their path components (up to a slash or the terminating zero),
  cut to the 30 bytes a directory entry can hold, are the same string.\<close>

theorem namecomp_as_components:
  "namecomp n1 n2 \<longleftrightarrow> take FILENAME_LEN (component n1) = take FILENAME_LEN (component n2)"
  by (simp add: namecomp_def namecomp_from_component)

text \<open>C30: Searching a directory opens the inode of the first entry, in the order of the file, whose name is the
  path component looked for, whatever the number of blocks; without such an entry it returns NULL. Apart
  from that i\_open() nothing but the buffer pool is touched, and no block changes its content.\<close>

theorem srch_dir_first_entry:
  assumes "disk_ok s (c_dev (i_tab s wd))" and "busy_set s = {}" and "0 < nbufs s"
    and "getmode wd s \<noteq> MODE_R_BDEV" and "mapped_blocks s wd [0..<dir_blocks s wd]"
    and "unat (i_size (c_node (i_tab s wd))) \<le> 33553920"
  shows "\<exists>t. io_core t = io_core s \<and> u_error t = u_error s \<and> io_step s t (view s)
    \<and> srch_dir wd name s = (case List.find (\<lambda>n. named name (entry s wd n)) [0..<16 * dir_blocks s wd] of
        None \<Rightarrow> Some (None, t)
      | Some n \<Rightarrow> i_open (c_dev (i_tab s wd)) (d_ino (entry s wd n)) t)"
  by (rule srch_dir_entries [OF assms])

theorem srch_dir_first_entry_witness:
  "\<exists>t. io_core t = io_core sample_dir \<and> srch_dir 0 [97] sample_dir = i_open 0 5 t"
proof -
  have "unat (i_size (c_node (i_tab sample_dir 0))) \<le> 33553920" by (simp add: sample_dir_fields)
  moreover have "16 * dir_blocks sample_dir 0 = 16" by (simp add: dir_blocks_def sample_dir_fields)
  moreover have "d_ino (entry sample_dir 0 1) = 5" by (simp add: sample_dir_entries entry_a_def)
  ultimately show ?thesis
    using srch_dir_first_entry [of sample_dir 0 "[97]"] sample_dir_ok sample_dir_mode sample_dir_mapped
      sample_dir_find by (auto simp: sample_dir_fields)
qed

text \<open>The loop of ch\_link() that looks for a slot ends on every directory that can be read: at the first
  entry with the name, which it leaves in its buffer with the file position behind it, or at the end of the
  directory with nothing read; the content of the disk is unchanged.\<close>

theorem slot_search_ends:
  assumes "disk_ok s (c_dev (i_tab s wd))" and "busy_set s = {}" and "0 < nbufs s"
    and "getmode wd s = MODE_R_DIR" and "u_error s = 0"
    and "unat (i_size (c_node (i_tab s wd))) = 32 * n" and "u_offset s = 0"
  shows "\<exists>t. ch_search sw wd name s = Some ((), t)
    \<and> searched s wd n (List.find (\<lambda>j. named name (entry s wd j)) [0..<n]) t"
  using ch_search_from [OF assms(1-6), of 0] assms(7) by simp

theorem slot_search_ends_witness:
  "\<exists>t. ch_search (\<lambda>_. None) 0 [97] sample_dir = Some ((), t) \<and> curentry t = entry_a \<and> u_offset t = 64"
proof -
  have "u_offset sample_dir = 0" by (simp add: sample_dir_def sample_file_def sample_def)
  moreover have "unat (i_size (c_node (i_tab sample_dir 0))) = 32 * 16" by (simp add: sample_dir_fields)
  moreover have "entry sample_dir 0 1 = entry_a" by (simp add: sample_dir_entries)
  ultimately show ?thesis
    using slot_search_ends [of sample_dir 0 16 "\<lambda>_. None" "[97]"] sample_dir_ok sample_dir_mode sample_dir_find
    by (auto simp: sample_dir_fields searched_def)
qed

text \<open>C9: ch\_link() for a name that is in the directory replaces exactly the first entry of that name, by the new
  name padded with zeroes and the number of the inode given (0 for a removal), and leaves every other entry, the
  order of the entries and all other files as they were.\<close>

theorem ch_link_replaces_entry:
  assumes "disk_ok s (c_dev (i_tab s wd))" and "busy_set s = {}" and "0 < nbufs s"
    and "getmode wd s = MODE_R_DIR" and "u_error s = 0"
    and "unat (i_size (c_node (i_tab s wd))) = 32 * n" and "32 * n \<le> 2 ^ 25"
    and "file_wf s wd" and "mapped_range s wd 0 (32 * n)"
    and "c_flags (i_tab s wd) AND CRDONLY = 0" and "getperm wd s AND OTH_WR \<noteq> 0"
    and "chr new \<noteq> 0 \<or> ino = None"
    and "List.find (\<lambda>j. named old (entry s wd j)) [0..<n] = Some j"
  shows "\<exists>t. ch_link sw wd old new ino s = Some (True, t) \<and> entry_written s wd n j (link_entry new ino s) t"
  by (rule ch_link_entry [OF assms])

theorem ch_link_replaces_entry_witness:
  "\<exists>t. ch_link (\<lambda>_. None) 0 [97] [98] (Some 0) sample_dir = Some (True, t)
     \<and> dir_list t 0 16 = (dir_list sample_dir 0 16)[1 := \<lparr>d_ino = 5, d_name = pad_name [98]\<rparr>]"
proof -
  have "file_wf sample_dir 0" by (auto simp: file_wf_def sample_dir_lookup split: if_splits)
  moreover have "mapped_range sample_dir 0 0 (32 * 16)" by (simp add: mapped_range_def sample_dir_lookup)
  moreover have "getperm 0 sample_dir AND OTH_WR \<noteq> 0"
    by (simp add: getperm_def super_def sample_dir_def sample_file_def sample_def)
  moreover have "unat (i_size (c_node (i_tab sample_dir 0))) = 32 * 16" by (simp add: sample_dir_fields)
  moreover have "link_entry [98] (Some 0) sample_dir = \<lparr>d_ino = 5, d_name = pad_name [98]\<rparr>"
    by (simp add: link_entry_def sample_dir_def)
  ultimately show ?thesis
    using ch_link_replaces_entry [of sample_dir 0 16 "[98]" "Some 0" "[97]" 1 "\<lambda>_. None"] sample_dir_ok sample_dir_mode
      sample_dir_find by (auto simp: sample_dir_fields entry_written_def chr_def)
qed

end
