(* ===== verification/TtySpec.thy ===== *)
theory TtySpec
  imports Tty FileSpec
begin

text \<open>
  The line discipline against an abstract line editor: the input queue of a terminal is the list of the bytes
  typed and not yet read. Input is processed in an interrupt, where sending a byte never waits.
\<close>

subsection \<open>What signals and wake-ups leave alone\<close>

definition tty_part :: "kst \<Rightarrow> (nat \<Rightarrow> s_queue) \<times> (nat \<Rightarrow> tty) \<times> bool
    \<times> (u16 \<Rightarrow> u8) \<times> (u16 \<Rightarrow> u8) \<times> bool" where
  "tty_part s = (ttyinq s, ttydata s, u_ininterrupt s, umem s, kmem s, u_sysio s)"

lemma tty_part_fold: "(\<And>p s. tty_part (f p s) = tty_part s) \<Longrightarrow> tty_part (fold f ps s) = tty_part s"
  by (induction ps arbitrary: s) auto

lemma tty_part_upd_p [simp]: "tty_part (upd_p p f s) = tty_part s" "tty_part (s\<lparr>nready := n\<rparr>) = tty_part s"
  "tty_part (tty_putc m c s) = tty_part s"
  by (simp_all add: tty_part_def upd_p_def tty_putc_def)

lemma tty_part_wakeup [simp]: "tty_part (wakeup ev s) = tty_part s"
  unfolding wakeup_def by (rule tty_part_fold) (simp add: pwake_def Let_def)

lemma tty_part_ssig [simp]: "tty_part (ssig p sig s) = tty_part s"
  by (simp add: ssig_def Let_def)

lemma tty_part_sgrpsig [simp]: "tty_part (sgrpsig g sig s) = tty_part s"
  unfolding sgrpsig_def by (simp, intro impI, rule tty_part_fold) simp

subsection \<open>Output from an interrupt\<close>

lemma putc_irq:
  assumes "u_ininterrupt s"
  shows "tty_putc_wait sw rdy m c s = Some ((), tty_putc m c s)"
    "tty_echo sw rdy m c s = Some ((), if t_is s m c_lflag ECHO then tty_putc m c s else s)"
    "tty_erase sw rdy m s = Some ((), tty_putc m 8 (tty_putc m 32 (tty_putc m 8 s)))"
proof -
  have p: "tty_putc_wait sw rdy m c s = Some ((), tty_putc m c s)" if "u_ininterrupt s" for c s
    using that by (simp add: tty_putc_wait_def tty_putc_maywait_def)
  have i: "u_ininterrupt (tty_putc m c s) = u_ininterrupt s" for c s by (simp add: tty_putc_def)
  show "tty_putc_wait sw rdy m c s = Some ((), tty_putc m c s)" by (rule p [OF assms])
  show "tty_echo sw rdy m c s = Some ((), if t_is s m c_lflag ECHO then tty_putc m c s else s)"
    using p [OF assms] by (simp add: tty_echo_def)
  show "tty_erase sw rdy m s = Some ((), tty_putc m 8 (tty_putc m 32 (tty_putc m 8 s)))"
    using assms by (simp add: tty_erase_def p i)
qed

subsection \<open>The abstract editor\<close>

definition line_end :: "termios \<Rightarrow> u8 \<Rightarrow> bool" where
  "line_end t c \<longleftrightarrow> c = NL \<or> c = c_cc t ! VEOL"

definition rub_out :: "termios \<Rightarrow> u8 list \<Rightarrow> u8 list" where
  "rub_out t xs = (if xs = [] \<or> line_end t (last xs) then xs else butlast xs)"

definition kill_line :: "termios \<Rightarrow> u8 list \<Rightarrow> u8 list" where
  "kill_line t xs = rev (dropWhile (\<lambda>c. \<not> line_end t c) (rev xs))"

text \<open>The queue after the byte \<open>c\<close> has been typed; \<open>room\<close> tells whether another byte fits.\<close>

definition line_edit :: "termios \<Rightarrow> bool \<Rightarrow> u8 list \<Rightarrow> u8 \<Rightarrow> u8 list" where
  "line_edit t room xs c =
     (case tty_map_in t c of
        None \<Rightarrow> xs
      | Some c \<Rightarrow>
          if c_lflag t AND ISIG \<noteq> 0 \<and> (c = c_cc t ! VINTR \<or> c = c_cc t ! VQUIT) then []
          else if c_iflag t AND IXON \<noteq> 0 \<and> (c = c_cc t ! VSTOP \<or> c = c_cc t ! VSTART) then xs
          else if c_lflag t AND ICANON \<noteq> 0 \<and> c = c_cc t ! VDISCARD then xs
          else if c_lflag t AND ICANON \<noteq> 0 \<and> c = c_cc t ! VERASE then rub_out t xs
          else if c_lflag t AND ICANON \<noteq> 0 \<and> c = c_cc t ! VKILL then kill_line t xs
          else if room then xs @ [c] else xs)"

definition capacity :: "s_queue \<Rightarrow> nat" where
  "capacity q = q_room q + length (q_list q)"

text \<open>The terminal \<open>m\<close> holds the bytes \<open>xs\<close>, and otherwise only flags of it have changed.\<close>

definition holds :: "kst \<Rightarrow> nat \<Rightarrow> u8 list \<Rightarrow> kst \<Rightarrow> bool" where
  "holds s m xs t \<longleftrightarrow> q_wf (ttyinq t m) \<and> q_list (ttyinq t m) = xs \<and> capacity (ttyinq t m) = capacity (ttyinq s m)
     \<and> (\<forall>k. t_termios (ttydata t k) = t_termios (ttydata s k)) \<and> (\<forall>k. k \<noteq> m \<longrightarrow> ttyinq t k = ttyinq s k)
     \<and> u_ininterrupt t = u_ininterrupt s"

lemma holds_part:
  "tty_part u = tty_part t \<Longrightarrow> holds s m xs u = holds s m xs t" "tty_part u = tty_part s \<Longrightarrow> holds u m xs t = holds s m xs t"
  by (simp_all add: holds_def tty_part_def)

lemma holds_refl: "q_wf (ttyinq s m) \<Longrightarrow> holds s m (q_list (ttyinq s m)) s"
  by (simp add: holds_def)

lemma holds_flag [simp]: "holds s m xs (set_flag k f t) = holds s m xs t"
  by (auto simp: holds_def set_flag_def upd_t_def)

lemma holds_set_q:
  "holds s m xs (set_q m q s) \<longleftrightarrow> q_wf q \<and> q_list q = xs \<and> capacity q = capacity (ttyinq s m)"
  by (auto simp: holds_def set_q_def)

lemma holds_trans: "holds s m xs t \<Longrightarrow> holds t m ys u \<Longrightarrow> holds s m ys u"
  by (simp add: holds_def)

lemma eraseout_edit:
  assumes "u_ininterrupt s" "q_wf (ttyinq s m)" "wr = ECHOE \<or> wr = ECHOK"
  shows "\<exists>t. tty_eraseout sw rdy m wr s = Some ((), t) \<and>
    holds s m ((if wr = ECHOE then rub_out else kill_line) (t_termios (ttydata s m)) (q_list (ttyinq s m))) t"
  using assms
proof (induction "q_list (ttyinq s m)" arbitrary: s rule: rev_induct)
  case Nil
  then have "uninsq (ttyinq s m) = (None, ttyinq s m)" by (intro ttyq.unenq_empty) auto
  then show ?case using Nil.prems Nil.hyps holds_refl [of s m]
    by (subst tty_eraseout.simps) (auto simp: rub_out_def kill_line_def)
next
  case (snoc x xs)
  obtain q where q: "uninsq (ttyinq s m) = (Some x, q)" "q_wf q" "q_list q = xs" "q_room q = Suc (q_room (ttyinq s m))"
    using ttyq.unenq_pair [OF snoc.prems(2) snoc.hyps(2) [symmetric]] by auto
  have cap: "capacity q = capacity (ttyinq s m)" using q snoc.hyps(2) [symmetric] by (simp add: capacity_def)
  let ?t = "t_termios (ttydata s m)" and ?s = "set_q m q s"
  have l: "q_list (ttyinq s m) = xs @ [x]" using snoc.hyps(2) by simp
  have d: "ttydata ?s = ttydata s" "u_ininterrupt ?s" "ttyinq ?s m = q" using snoc.prems(1) by (simp_all add: set_q_def)
  show ?case
  proof (cases "line_end ?t x")
    case True
    obtain q' where q': "insq q x = (True, q')" "q_wf q'" "q_list q' = xs @ [x]" "q_room q' = q_room q - 1"
      using ttyq.enq_room_pair [OF q(2), of x] q(3,4) by auto
    have "capacity q' = capacity (ttyinq s m)" using q' q l by (simp add: capacity_def)
    then have "holds s m (xs @ [x]) (set_q m q' ?s)" using q' by (simp add: holds_def set_q_def)
    moreover have "tty_eraseout sw rdy m wr s = Some ((), set_q m q' ?s)"
      using True d q(1) q'(1) by (subst tty_eraseout.simps) (auto simp: line_end_def Let_def)
    ultimately show ?thesis using True by (auto simp: l rub_out_def kill_line_def)
  next
    case False
    define u where "u = (if t_is ?s m c_lflag wr then tty_putc m 8 (tty_putc m 32 (tty_putc m 8 ?s)) else ?s)"
    have pu: "tty_part u = tty_part ?s" by (simp add: u_def)
    have step: "tty_eraseout sw rdy m wr s = (if wr = ECHOE then Some ((), u) else tty_eraseout sw rdy m wr u)"
      using False d q(1) putc_irq(3) [OF d(2)]
      by (subst tty_eraseout.simps) (auto simp: line_end_def Let_def u_def)
    have hu: "holds s m xs u" using q cap by (simp add: holds_part(1) [OF pu] holds_set_q)
    show ?thesis
    proof (cases "wr = ECHOE")
      case True
      then show ?thesis using step hu False by (simp add: l rub_out_def)
    next
      case wr: False
      have uu: "u_ininterrupt u" "ttydata u = ttydata s" "ttyinq u m = q"
        using pu d by (simp_all add: tty_part_def)
      obtain t where t: "tty_eraseout sw rdy m wr u = Some ((), t)" "holds u m (kill_line ?t xs) t"
        using snoc.hyps(1) [of u] uu q(2,3) snoc.prems(3) wr by auto
      have "holds s m (kill_line ?t xs) t" by (rule holds_trans [OF hu t(2)])
      then show ?thesis using step t(1) wr False by (simp add: l kill_line_def)
    qed
  qed
qed

subsection \<open>Typing a byte\<close>

lemma set_q_simps [simp]:
  "ttydata (set_q m q s) = ttydata s" "u_ininterrupt (set_q m q s) = u_ininterrupt s"
  "ttyinq (set_q m q s) = (ttyinq s)(m := q)" "ttydata (tty_putc m c s) = ttydata s"
  "ttyinq (tty_putc m c s) = ttyinq s" "u_ininterrupt (tty_putc m c s) = u_ininterrupt s"
  by (simp_all add: set_q_def tty_putc_def)

lemma insq_edit:
  assumes "q_wf q"
  obtains w q' where "insq q c = (w, q')" "q_wf q'" "capacity q' = capacity q" "w \<longleftrightarrow> 0 < q_room q"
    "q_list q' = (if 0 < q_room q then q_list q @ [c] else q_list q)"
proof (cases "0 < q_room q")
  case True
  then obtain q' where "insq q c = (True, q')" "q_wf q'" "q_list q' = q_list q @ [c]" "q_room q' = q_room q - 1"
    using ttyq.enq_room_pair [OF assms True, of c] by auto
  then show ?thesis using True by (intro that) (auto simp: capacity_def)
next
  case False
  then have "insq q c = (False, q)" using ttyq.enq_full [OF assms] by auto
  then show ?thesis using False assms by (intro that) auto
qed

lemma accept_edit:
  assumes "u_ininterrupt s" "q_wf (ttyinq s m)"
  shows "\<exists>r t. tty_accept sw rdy m canon c s = Some (r, t) \<and>
    holds s m (q_list (ttyinq s m) @ (if 0 < q_room (ttyinq s m) then [c] else [])) t"
proof -
  obtain w q where q: "insq (ttyinq s m) c = (w, q)" "q_wf q" "capacity q = capacity (ttyinq s m)"
      "q_list q = (if 0 < q_room (ttyinq s m) then q_list (ttyinq s m) @ [c] else q_list (ttyinq s m))"
    using insq_edit [OF assms(2), of c] by metis
  let ?xs = "q_list (ttyinq s m) @ (if 0 < q_room (ttyinq s m) then [c] else [])"
  define u where "u = (if c = NL \<and> c_oflag (t_termios (ttydata s m)) AND (OPOST OR ONLCR) = OPOST OR ONLCR
    \<and> t_is s m c_lflag ECHO then tty_putc m CR s else s)"
  have u: "tty_part u = tty_part s" "ttyinq u = ttyinq s" "ttydata u = ttydata s" "u_ininterrupt u"
    using assms(1) by (simp_all add: u_def tty_part_def tty_putc_def)
  define v where "v = (if w \<and> (\<not> canon \<or> c \<noteq> t_cc (ttydata s m) VEOF)
    then (if t_is s m c_lflag ECHO then tty_putc m c (set_q m q u) else set_q m q u) else tty_putc m 7 (set_q m q u))"
  define x where "x = (if \<not> canon \<or> c = t_cc (ttydata s m) VEOL \<or> c = NL \<or> c = t_cc (ttydata s m) VEOF
              then wakeup (EvTtyq m) v else v)"
  have v: "ttydata v = ttydata s" by (simp add: v_def u)
  have "tty_part x = tty_part (set_q m q u)" by (simp add: x_def v_def)
  moreover have "holds s m ?xs (set_q m q u)"
    using q(2,3,4) assms(1) by (simp add: holds_def u)
  ultimately have "holds s m ?xs x" using holds_part(1) by blast
  moreover have "tty_accept sw rdy m canon c s = Some (if w then 1 else 0, x)"
  proof -
    have e: "(if c = NL \<and> c_oflag (t_termios (ttydata s m)) AND (OPOST OR ONLCR) = OPOST OR ONLCR
              then tty_echo sw rdy m CR s else Some ((), s)) = Some ((), u)"
      by (simp add: u_def putc_irq(2) [OF assms(1)])
    have f: "(if w \<and> (\<not> canon \<or> c \<noteq> t_cc (ttydata s m) VEOF) then tty_echo sw rdy m c (set_q m q u)
              else Some ((), tty_putc m 7 (set_q m q u))) = Some ((), v)"
      by (cases w; cases canon; cases "c = t_cc (ttydata s m) VEOF") (simp_all add: v_def putc_irq(2) u)
    show ?thesis
      unfolding tty_accept_def e
      by (simp only: Option.bind_lunit prod.case Let_def q(1) u set_q_simps f v x_def)
  qed
  ultimately show ?thesis by blast
qed


text \<open>C10: The line discipline is a line editor (tty\_inproc()): called from an interrupt, it always returns, and the
  input queue of the terminal becomes what the abstract editor makes of the bytes held - the new byte appended while
  there is room, the last byte or the line taken back for the erase and kill characters of canonical mode but never
  past a line already complete, everything dropped for an interrupt or quit character - while the queues of the other
  terminals and all settings stay.\<close>

theorem tty_inproc_edits_line:
  assumes "u_ininterrupt s" "q_wf (ttyinq s m)"
  shows "\<exists>r t. tty_inproc sw rdy m c s = Some (r, t) \<and>
    holds s m (line_edit (t_termios (ttydata s m)) (0 < q_room (ttyinq s m)) (q_list (ttyinq s m)) c) t"
proof (cases "tty_map_in (t_termios (ttydata s m)) c")
  case None
  then show ?thesis using holds_refl [OF assms(2)] by (simp add: tty_inproc_def line_edit_def Let_def)
next
  case (Some d)
  let ?t = "t_termios (ttydata s m)" and ?xs = "q_list (ttyinq s m)"
  let ?sig = "t_is s m c_lflag ISIG \<and> (d = c_cc ?t ! VINTR \<or> d = c_cc ?t ! VQUIT)"
  let ?ix = "t_is s m c_iflag IXON" and ?canon = "t_is s m c_lflag ICANON"
  note def = tty_inproc_def line_edit_def Let_def Some
  have same: "holds s m ?xs s" by (rule holds_refl [OF assms(2)])
  consider (sig) ?sig | (stop) "\<not> ?sig" "?ix" "d = c_cc ?t ! VSTOP"
    | (start) "\<not> ?sig" "?ix" "d \<noteq> c_cc ?t ! VSTOP" "d = c_cc ?t ! VSTART"
    | (rest) "\<not> ?sig" "\<not> (?ix \<and> (d = c_cc ?t ! VSTOP \<or> d = c_cc ?t ! VSTART))"
    by blast
  then show ?thesis
  proof cases
    case sig
    define u where "u = sgrpsig (t_pgrp (ttydata s m)) (if d = c_cc ?t ! VINTR then SIGINT else SIGQUIT) s"
    have u: "tty_part u = tty_part s" by (simp add: u_def)
    then have "ttyinq u = ttyinq s" by (simp add: tty_part_def)
    then have "holds u m [] (set_q m (clrq (ttyinq u m)) u)"
      using ttyq.contents_clear [OF assms(2)] ttyq.room_clear [OF assms(2)] ttyq.invar_clear [OF assms(2)]
      by (simp add: holds_set_q capacity_def)
    then have "holds s m [] (set_q m (clrq (ttyinq u m)) u)" using holds_part(2) [OF u] by blast
    moreover have "line_edit ?t (0 < q_room (ttyinq s m)) ?xs c = []"
      by (simp only: line_edit_def Some option.case sig if_True simp_thms)
    moreover have "tty_inproc sw rdy m c s =
        Some (1, set_flag m (\<lambda>f. f AND NOT (TTYF_STOP OR TTYF_DISCARD)) (set_q m (clrq (ttyinq u m)) u))"
      by (simp only: tty_inproc_def Some option.case sig if_True simp_thms Let_def u_def)
    ultimately show ?thesis by simp
  next
    case stop
    then show ?thesis using same by (auto simp: def)
  next
    case start
    have "holds s m ?xs (wakeup (EvTty m) (set_flag m (\<lambda>f. f AND NOT TTYF_STOP) s))"
      using holds_part(1) [OF tty_part_wakeup] same by simp
    then show ?thesis using start by (auto simp: def)
  next
    case rest
    then have no: "?sig = False" "(?ix \<and> (d = c_cc ?t ! VSTOP \<or> d = c_cc ?t ! VSTART)) = False"
        "(?ix \<and> d = c_cc ?t ! VSTOP) = False" "(?ix \<and> d = c_cc ?t ! VSTART) = False"
      by blast+
    have drop: "line_edit ?t room xs c = (if ?canon \<and> d = c_cc ?t ! VDISCARD then xs
        else if ?canon \<and> d = c_cc ?t ! VERASE then rub_out ?t xs
        else if ?canon \<and> d = c_cc ?t ! VKILL then kill_line ?t xs else if room then xs @ [d] else xs)" for room xs
      by (simp only: line_edit_def Some option.case no if_False)
    have call: "tty_inproc sw rdy m c s =
        (if ?canon \<and> d = c_cc ?t ! VDISCARD then Some (1, set_flag m (\<lambda>f. f XOR TTYF_DISCARD) s)
         else if ?canon \<and> d = c_cc ?t ! VERASE
         then do { (_, s) \<leftarrow> tty_eraseout sw rdy m ECHOE s; Some (1, s) }
         else if ?canon \<and> d = c_cc ?t ! VKILL
         then do { (_, s) \<leftarrow> tty_eraseout sw rdy m ECHOK s; Some (1, s) }
         else tty_accept sw rdy m ?canon d s)"
      by (simp only: tty_inproc_def Some option.case no if_False Let_def)
    obtain e k where ek: "tty_eraseout sw rdy m ECHOE s = Some ((), e)" "holds s m (rub_out ?t ?xs) e"
        "tty_eraseout sw rdy m ECHOK s = Some ((), k)" "holds s m (kill_line ?t ?xs) k"
      using eraseout_edit [OF assms, of ECHOE sw rdy] eraseout_edit [OF assms, of ECHOK sw rdy] by auto
    obtain r a where a: "tty_accept sw rdy m ?canon d s = Some (r, a)"
        "holds s m (?xs @ (if 0 < q_room (ttyinq s m) then [d] else [])) a"
      using accept_edit [OF assms, of sw rdy ?canon d] by blast
    show ?thesis
      using same ek a(2) unfolding drop call a(1) by (cases "?canon") (auto split: if_splits)
  qed
qed


definition sample_typed :: kst where
  "sample_typed = sample\<lparr>u_ininterrupt := True,
     ttyinq := (\<lambda>_. snd (insq (snd (insq sample_queue 97)) 98))\<rparr>"

lemma sample_typed_queue:
  "q_wf (ttyinq sample_typed m)" "q_list (ttyinq sample_typed m) = [97, 98]" "q_room (ttyinq sample_typed m) = 130"
proof -
  have "q_wf sample_queue" by (simp add: q_wf_def sample_queue_def)
  then have "q_wf (snd (insq (snd (insq sample_queue 97)) 98))" by (intro ttyq.invar_enq)
  then show "q_wf (ttyinq sample_typed m)" by (simp add: sample_typed_def)
  show "q_list (ttyinq sample_typed m) = [97, 98]" "q_room (ttyinq sample_typed m) = 130"
    by (simp_all add: sample_typed_def sample_queue_def insq_def q_list_def q_room_def upt_rec)
qed

theorem tty_inproc_edits_line_witness:
  "\<exists>r t. tty_inproc (\<lambda>_. None) (\<lambda>_ s. (1, s)) 1 8 sample_typed = Some (r, t) \<and> q_list (ttyinq t 1) = [97]"
proof -
  have e: "line_edit (t_termios (ttydata sample_typed m)) True [97, 98] 8 = [97]" for m
    by (simp add: line_edit_def tty_map_in_def rub_out_def line_end_def sample_typed_def sample_def sample_tty_def)
  have "u_ininterrupt sample_typed" by (simp add: sample_typed_def)
  from tty_inproc_edits_line [OF this sample_typed_queue(1) [of 1], of "\<lambda>_. None" "\<lambda>_ s. (1, s)" 8]
  show ?thesis by (auto simp: sample_typed_queue e holds_def)
qed

subsection \<open>Reading a line\<close>

lemma set_mem_part [simp]:
  "ttyinq (set_mem k s) = ttyinq s" "ttydata (set_mem k s) = ttydata s" "u_top (set_mem k s) = u_top s"
  by (simp_all add: set_mem_def)

lemma ucast_up_down [simp]: "ucast (ucast x :: u16) = (x :: u8)"
  by transfer simp

lemma put_range_Cons:
  assumes "length xs < 65536"
  shows "put_range (b + 1) xs (k(b := x)) = put_range b (x # xs) k"
  using uput_raw_range [of xs "b + 1"] uput_raw_range [of "x # xs" b] assms by simp

lemma read_wait_byte:
  assumes "q_wf (ttyinq s m)" "q_list (ttyinq s m) = x # xs" "mem_ok s 1"
  obtains q where "q_wf q" "q_list q = xs"
    "tty_read_wait sw m flag nread s = Some ((Got x, nread), set_mem ((mem_of s)(u_base s := x)) (set_q m q s))"
proof -
  obtain q where q: "remq (ttyinq s m) = (Some x, q)" "q_wf q" "q_list q = xs"
    using ttyq.deq_pair [OF assms(1,2)] by auto
  have n: "q_count (ttyinq s m) \<noteq> 0" using assms(2) by (auto simp: q_list_def)
  have "snd (uputc (ucast x) (u_base s) (set_q m q s)) = (set_q m q s)\<lparr>umem := (umem s)(u_base s := x)\<rparr>" if "\<not> u_sysio s"
    using valaddr_inside(1) [of "u_base s" "set_q m q s" 1] assms(3) that by (simp add: uputc_def mem_ok_def set_q_def)
  then have "tty_read_wait sw m flag nread s =
      Some ((Got x, nread), set_mem ((mem_of s)(u_base s := x)) (set_q m q s))"
    using q(1) n by (subst tty_read_wait.simps) (simp add: Let_def set_mem_def mem_of_def set_q_def)
  then show ?thesis using that q by blast
qed


definition line_state :: "kst \<Rightarrow> nat \<Rightarrow> u8 list \<Rightarrow> kst \<Rightarrow> bool" where
  "line_state s m xs t \<longleftrightarrow> q_wf (ttyinq t m) \<and> q_list (ttyinq t m) = xs \<and> ttydata t = ttydata s"

lemma wakeup_line [simp]:
  "mem_of (wakeup ev t) = mem_of t" "ttyinq (wakeup ev t) = ttyinq t" "ttydata (wakeup ev t) = ttydata t"
  using tty_part_wakeup [of ev t] by (simp_all add: tty_part_def mem_of_def)

lemma read_loop_end:
  assumes "\<not> k < u_count s"
  shows "tty_read_loop sw m flag k s = Some (k, wakeup (EvTtyqCount m) s)"
  using assms by (subst tty_read_loop.simps) simp

lemma read_loop_byte:
  assumes "k < u_count s" "t_is s m c_lflag ICANON" "\<not> (k = 0 \<and> x = t_cc (ttydata s m) VEOF)"
    "tty_read_wait sw m flag k s = Some ((Got x, k), t)" "ttydata t = ttydata s"
  shows "tty_read_loop sw m flag k s =
    (if line_end (t_termios (ttydata s m)) x then Some (k + 1, wakeup (EvTtyqCount m) t)
     else tty_read_loop sw m flag (k + 1) (t\<lparr>u_base := u_base t + 1\<rparr>))"
proof -
  have "k + 1 = 1 \<longleftrightarrow> k = 0" by (metis add.left_neutral add_right_cancel)
  then show ?thesis using assms by (subst tty_read_loop.simps) (auto simp: line_end_def Let_def)
qed

lemma read_line_loop:
  assumes "q_wf (ttyinq s m)" "q_list (ttyinq s m) = line @ e # rest" "t_is s m c_lflag ICANON"
    "line_end (t_termios (ttydata s m)) e" "\<forall>c \<in> set line. \<not> line_end (t_termios (ttydata s m)) c"
    "k = 0 \<longrightarrow> hd (line @ [e]) \<noteq> t_cc (ttydata s m) VEOF"
    "n = unat (u_count s) - unat k" "mem_ok s (min n (Suc (length line)))"
  shows "\<exists>t. tty_read_loop sw m flag k s = Some (k + of_nat (min n (Suc (length line))), t)
    \<and> mem_of t = put_range (u_base s) (take n (line @ [e])) (mem_of s) \<and> line_state s m (drop n (line @ [e]) @ rest) t"
  using assms
proof (induction line arbitrary: s k n)
  case Nil
  show ?case
  proof (cases "n = 0")
    case True
    then have "\<not> k < u_count s" using Nil.prems(7) by (simp add: word_less_nat_alt)
    then show ?thesis using True Nil.prems(1,2)
      by (simp add: read_loop_end line_state_def)
  next
    case False
    then have k: "k < u_count s" using Nil.prems(7) by (simp add: word_less_nat_alt)
    have "mem_ok s 1" using Nil.prems(8) False by (auto intro: mem_ok_mono)
    obtain q where q: "q_wf q" "q_list q = rest"
      "tty_read_wait sw m flag k s = Some ((Got e, k), set_mem ((mem_of s)(u_base s := e)) (set_q m q s))"
      by (rule read_wait_byte [OF Nil.prems(1) Nil.prems(2) [unfolded append_Nil] \<open>mem_ok s 1\<close>])
    have "tty_read_loop sw m flag k s =
        Some (k + 1, wakeup (EvTtyqCount m) (set_mem ((mem_of s)(u_base s := e)) (set_q m q s)))"
      using read_loop_byte [OF k Nil.prems(3) _ q(3)] Nil.prems(4,6) by simp
    then show ?thesis using False q(1,2) put_range_Cons [of "[]" "u_base s" "mem_of s" e]
      by (cases n) (auto simp: line_state_def)
  qed
next
  case (Cons c line)
  show ?case
  proof (cases "n = 0")
    case True
    then have "\<not> k < u_count s" using Cons.prems(7) by (simp add: word_less_nat_alt)
    then show ?thesis using True Cons.prems(1,2)
      by (simp add: read_loop_end line_state_def)
  next
    case False
    then have k: "k < u_count s" using Cons.prems(7) by (simp add: word_less_nat_alt)
    have "mem_ok s 1" using Cons.prems(8) False by (auto intro: mem_ok_mono)
    obtain q where q: "q_wf q" "q_list q = line @ e # rest"
      "tty_read_wait sw m flag k s = Some ((Got c, k), set_mem ((mem_of s)(u_base s := c)) (set_q m q s))"
      by (rule read_wait_byte [OF Cons.prems(1) Cons.prems(2) [unfolded append_Cons] \<open>mem_ok s 1\<close>])
    define t where "t = (set_mem ((mem_of s)(u_base s := c)) (set_q m q s))\<lparr>u_base := u_base s + 1\<rparr>"
    have t: "ttydata t = ttydata s" "ttyinq t m = q" "u_base t = u_base s + 1" "u_count t = u_count s"
        "mem_of t = (mem_of s)(u_base s := c)" "u_sysio t = u_sysio s" "plat t = plat s" "u_top t = u_top s"
      by (simp_all add: t_def set_mem_def set_q_def mem_of_def)
    have step: "tty_read_loop sw m flag k s = tty_read_loop sw m flag (k + 1) t"
      using read_loop_byte [OF k Cons.prems(3) _ q(3)] Cons.prems(5,6) by (simp add: t_def set_q_def)
    have k1: "unat (k + 1) = Suc (unat k)"
      using k u16_bound [of "u_count s"] by (simp add: word_less_nat_alt unat_word_ariths)
    then have k2: "k + 1 \<noteq> 0" by (metis nat.distinct(1) unat_0)
    have "mem_ok t (min n (Suc (length (c # line))) - 1)"
      using mem_ok_shift [OF Cons.prems(8), of 1 t] False t by simp
    then have mt: "mem_ok t (min (n - 1) (Suc (length line)))" using False by (cases n) auto
    have "\<exists>u. tty_read_loop sw m flag (k + 1) t = Some (k + 1 + of_nat (min (n - 1) (Suc (length line))), u)
        \<and> mem_of u = put_range (u_base t) (take (n - 1) (line @ [e])) (mem_of t)
        \<and> line_state t m (drop (n - 1) (line @ [e]) @ rest) u"
      by (rule Cons.IH [OF _ _ _ _ _ _ _ mt]) (use q(1,2) Cons.prems(3-7) t(1-4) k1 k2 in auto)
    then obtain u where u: "tty_read_loop sw m flag (k + 1) t = Some (k + 1 + of_nat (min (n - 1) (Suc (length line))), u)"
        "mem_of u = put_range (u_base t) (take (n - 1) (line @ [e])) (mem_of t)"
        "line_state t m (drop (n - 1) (line @ [e]) @ rest) u"
      by blast
    have "length (take (n - 1) (line @ [e])) < 65536" using Cons.prems(7) u16_bound [of "u_count s"] by simp
    then have "put_range (u_base t) (take (n - 1) (line @ [e])) (mem_of t) =
        put_range (u_base s) (take n ((c # line) @ [e])) (mem_of s)"
      using put_range_Cons t False by (cases n) auto
    then show ?thesis using step u t False by (cases n) (auto simp: line_state_def)
  qed
qed

text \<open>C37: A read of a terminal in canonical mode delivers one line (tty\_read()): with a complete line held, it
  returns without sleeping, copies the line with its terminator, cut off at the count asked for, to the
  caller's buffer and nothing else, and leaves in the queue what it did not copy, in order.\<close>

theorem tty_read_line:
  assumes "q_wf (ttyinq s m)" "q_list (ttyinq s m) = line @ e # rest" "t_is s m c_lflag ICANON"
    "line_end (t_termios (ttydata s m)) e" "\<forall>c \<in> set line. \<not> line_end (t_termios (ttydata s m)) c"
    "hd (line @ [e]) \<noteq> t_cc (ttydata s m) VEOF" "mem_ok s (min (unat (u_count s)) (Suc (length line)))"
  shows "\<exists>t. tty_read sw m flag s = Some (of_nat (min (unat (u_count s)) (Suc (length line))), t)
    \<and> mem_of t = put_range (u_base s) (take (unat (u_count s)) (line @ [e])) (mem_of s)
    \<and> q_wf (ttyinq t m) \<and> q_list (ttyinq t m) = drop (unat (u_count s)) (line @ [e]) @ rest"
  using read_line_loop [OF assms(1-5), of 0 "unat (u_count s)" sw flag] assms(6,7)
  by (auto simp: tty_read_def line_state_def)

definition sample_line :: kst where
  "sample_line = sample\<lparr>u_base := 0x200, u_count := 10, ttyinq := (\<lambda>_. snd (insq (snd (insq sample_queue 97)) NL))\<rparr>"

theorem tty_read_line_witness:
  "\<exists>t. tty_read (\<lambda>_. None) 1 0 sample_line = Some (2, t) \<and> q_list (ttyinq t 1) = []
     \<and> mem_of t 0x200 = 97 \<and> mem_of t 0x201 = NL"
proof -
  have "q_wf sample_queue" by (simp add: q_wf_def sample_queue_def)
  then have "q_wf (snd (insq (snd (insq sample_queue 97)) NL))" by (intro ttyq.invar_enq)
  then have w: "q_wf (ttyinq sample_line 1)" by (simp add: sample_line_def)
  have l: "q_list (ttyinq sample_line 1) = [97] @ NL # []"
    by (simp add: sample_line_def sample_queue_def insq_def q_list_def upt_rec)
  have c: "t_is sample_line 1 c_lflag ICANON" "line_end (t_termios (ttydata sample_line 1)) NL"
    "\<forall>c \<in> set [97]. \<not> line_end (t_termios (ttydata sample_line 1)) c"
    "hd ([97] @ [NL]) \<noteq> t_cc (ttydata sample_line 1) VEOF"
    "mem_ok sample_line (min (unat (u_count sample_line)) (Suc (length [97 :: u8])))"
    by (simp_all add: line_end_def sample_line_def sample_defs mem_ok_def)
  from tty_read_line [OF w l c, of "\<lambda>_. None" 0] show ?thesis
    by (auto simp: sample_line_def sample_def put_range_def)
qed

end
