(* ===== verification/SysAdmin.thy ===== *)
theory SysAdmin
  imports SysOpen
begin

text \<open>
  The system calls of Kernel/syscall\_other.c: renaming, directories, mounting, administration and
  priorities. trap\_monitor() and trap\_reboot() do not return (None). The console messages of
  kputs() and kprintf() leave no trace in the state.
\<close>

subsection \<open>rename\<close>

text \<open>The labels \<^verbatim>\<open>nogood3\<close>, \<^verbatim>\<open>nogood2\<close> and \<^verbatim>\<open>nogood\<close> of \_rename().\<close>

definition rename_end :: "nat \<Rightarrow> nat option \<Rightarrow> u16 \<Rightarrow> kst \<Rightarrow> (u16 \<times> kst) option" where
  "rename_end srci srcp ret s = do {
     (_, s) \<leftarrow> i_deref srci s;
     (_, s) \<leftarrow> i_deref_opt srcp s;
     Some (ret, s)
   }"

definition rename_end2 :: "nat \<Rightarrow> nat option \<Rightarrow> nat \<Rightarrow> u16 \<Rightarrow> kst \<Rightarrow> (u16 \<times> kst) option" where
  "rename_end2 srci srcp dstp ret s = do { (_, s) \<leftarrow> i_deref dstp s; rename_end srci srcp ret s }"

definition rename_nogood ::
  "nat \<Rightarrow> nat option \<Rightarrow> nat option \<Rightarrow> nat \<Rightarrow> u16 \<Rightarrow> kst \<Rightarrow> (u16 \<times> kst) option" where
  "rename_nogood srci srcp dsti dstp e s = do {
     let s = (if e \<noteq> 0 then s\<lparr>u_error := e\<rparr> else s);
     (_, s) \<leftarrow> (case dsti of Some d \<Rightarrow> i_deref d s | None \<Rightarrow> Some ((), s));
     rename_end2 srci srcp dstp 0xFFFF s
   }"

text \<open>Moving the link once the destination name is free.\<close>

definition rename_links ::
  "(kst \<Rightarrow> kst option) \<Rightarrow> nat \<Rightarrow> nat \<Rightarrow> nat \<Rightarrow> u8 list \<Rightarrow> kst \<Rightarrow> (u16 \<times> kst) option" where
  "rename_links sw srci srcp dstp fname s = do {
     (ok, s) \<leftarrow> ch_link sw dstp [] fname (Some srci) s;
     if \<not> ok then rename_end2 srci (Some srcp) dstp 0xFFFF s
     else do {
       (fname, s) \<leftarrow> filename (u_argn s) s;
       (ok, s) \<leftarrow> ch_link sw srcp fname [] None s;
       if \<not> ok then rename_end2 srci (Some srcp) dstp 0xFFFF s
       else do {
         (_, s) \<leftarrow> wr_inode dstp s;
         (_, s) \<leftarrow> wr_inode srcp s;
         (_, s) \<leftarrow> sync s;
         rename_end2 srci (Some srcp) dstp 0 s
       }
     }
   }"

definition u_rename_call :: "(kst \<Rightarrow> kst option) \<Rightarrow> kst \<Rightarrow> (u16 \<times> kst) option" where
  "u_rename_call sw s = do {
     ((r, srcp), s) \<leftarrow> n_open (u_argn s) True s;
     case r of
       None \<Rightarrow> do {
         (_, s) \<leftarrow> (case srcp of Some p \<Rightarrow> i_deref p s | None \<Rightarrow> Some ((), s));
         Some (0xFFFF, s)
       }
     | Some srci \<Rightarrow> do {
         let s = s\<lparr>u_rename := Some srci\<rparr>;
         (fname, s) \<leftarrow> filename (u_argn1 s) s;
         ((dsti, dst), s) \<leftarrow> n_open (u_argn1 s) True s;
         if dsti = Some srci then rename_end srci srcp 0 s
         else
           case (dst, srcp) of
             (None, _) \<Rightarrow> rename_end srci srcp 0xFFFF s
           | (_, None) \<Rightarrow> panic ''read through NULL'' s
           | (Some dstp, Some sp) \<Rightarrow>
               if c_dev (i_tab s srci) \<noteq> c_dev (i_tab s dstp) then rename_nogood srci srcp dsti dstp EXDEV s
               else if getmode srci s = MODE_R_DIR then rename_nogood srci srcp dsti dstp EISDIR s
               else if u_rename s = None then rename_nogood srci srcp dsti dstp EINVAL s
               else
                 let (e, s) = (if getperm sp s AND OTH_WR = 0 then esuper s else (False, s)) in
                 if e then rename_nogood srci srcp dsti dstp EACCES s
                 else (case dsti of
                    None \<Rightarrow> rename_links sw srci sp dstp fname s
                  | Some d \<Rightarrow>
                      if getmode d s = MODE_R_DIR then rename_nogood srci srcp dsti dstp EISDIR s
                      else do {
                        (r, s) \<leftarrow> unlinki sw d dstp fname s;
                        if r = 0xFFFF then rename_nogood srci srcp dsti dstp 0 s
                        else do {
                          (_, s) \<leftarrow> i_deref d s;
                          rename_links sw srci sp dstp fname s
                        }
                      })
       }
   }"

subsection \<open>Directories\<close>

text \<open>The label \<^verbatim>\<open>nogood\<close> of \_mkdir() and \_rmdir(), in either order of the two inodes.\<close>

definition deref_both :: "nat \<Rightarrow> nat \<Rightarrow> u16 \<Rightarrow> kst \<Rightarrow> (u16 \<times> kst) option" where
  "deref_both a b r s = do { (_, s) \<leftarrow> i_deref a s; deref_ret b r s }"

text \<open>The label \<^verbatim>\<open>cleanup\<close> of \_mkdir().\<close>

definition mkdir_cleanup ::
  "(kst \<Rightarrow> kst option) \<Rightarrow> nat \<Rightarrow> nat \<Rightarrow> u8 list \<Rightarrow> kst \<Rightarrow> (u16 \<times> kst) option" where
  "mkdir_cleanup sw ino parent fname s = do {
     (_, s) \<leftarrow> ch_link sw parent fname [] None s;
     let s = upd_node ino (\<lambda>d. d\<lparr>i_nlink := 0\<rparr>) s;
     (_, s) \<leftarrow> wr_inode ino s;
     deref_both ino parent 0xFFFF s
   }"

definition mkdir_fill ::
  "(kst \<Rightarrow> kst option) \<Rightarrow> nat \<Rightarrow> nat \<Rightarrow> u8 list \<Rightarrow> kst \<Rightarrow> (u16 \<times> kst) option" where
  "mkdir_fill sw ino parent fname s = do {
     let s = upd_node ino (\<lambda>d. d\<lparr>i_mode := F_DIR OR 0x80\<rparr>) s;
     let s = setftime ino (A_TIME OR M_TIME OR C_TIME) s;
     (ok, s) \<leftarrow> ch_link sw ino [] [dot] (Some ino) s;
     (ok, s) \<leftarrow> (if ok then ch_link sw ino [] [dot, dot] (Some parent) s else Some (False, s));
     if \<not> ok then mkdir_cleanup sw ino parent fname s
     else do {
       let s = upd_node ino (\<lambda>d. d\<lparr>i_nlink := 2\<rparr>) s;
       let s = upd_node parent (\<lambda>d. d\<lparr>i_nlink := i_nlink d + 1\<rparr>) s;
       let s = upd_node ino (\<lambda>d. d\<lparr>i_mode := (u_argn1 s AND NOT (u_mask s) AND MODE_MASK) OR F_DIR\<rparr>) s;
       (_, s) \<leftarrow> i_deref parent s;
       (_, s) \<leftarrow> wr_inode ino s;
       deref_ret ino 0 s
     }
   }"

definition u_mkdir :: "(kst \<Rightarrow> kst option) \<Rightarrow> kst \<Rightarrow> (u16 \<times> kst) option" where
  "u_mkdir sw s = do {
     ((r, par), s) \<leftarrow> n_open (u_argn s) True s;
     case (r, par) of
       (Some ino, None) \<Rightarrow> panic ''read through NULL'' s
     | (Some ino, Some parent) \<Rightarrow> deref_both ino parent 0xFFFF (s\<lparr>u_error := EEXIST\<rparr>)
     | (None, None) \<Rightarrow> fail ENOENT s
     | (None, Some parent) \<Rightarrow>
         if i_nlink (c_node (i_tab s parent)) = 0xFFFF then deref_ret parent 0xFFFF (s\<lparr>u_error := EMLINK\<rparr>)
         else do {
           (fname, s) \<leftarrow> filename (u_argn s) s;
           (r, s) \<leftarrow> newfile sw (Some parent) fname (i_ref parent s);
           case r of
             None \<Rightarrow> deref_both parent parent 0xFFFF s
           | Some ino \<Rightarrow> mkdir_fill sw ino parent fname s
         }
   }"

definition u_rmdir :: "(kst \<Rightarrow> kst option) \<Rightarrow> kst \<Rightarrow> (u16 \<times> kst) option" where
  "u_rmdir sw s = do {
     ((r, par), s) \<leftarrow> n_open (u_argn s) True s;
     case (par, r) of
       (None, _) \<Rightarrow> fail ENOENT s
     | (Some parent, None) \<Rightarrow> do { (_, s) \<leftarrow> i_deref parent s; fail ENOENT s }
     | (Some parent, Some ino) \<Rightarrow>
         if getmode ino s \<noteq> MODE_R_DIR then deref_both parent ino 0xFFFF (s\<lparr>u_error := ENOTDIR\<rparr>)
         else if i_nlink (c_node (i_tab s ino)) \<noteq> 2 then deref_both parent ino 0xFFFF (s\<lparr>u_error := ENOTEMPTY\<rparr>)
         else if getperm parent s AND OTH_WR = 0 then deref_both parent ino 0xFFFF s
         else do {
           (fname, s) \<leftarrow> filename (u_argn s) s;
           (ok, s) \<leftarrow> ch_link sw parent fname [] None s;
           if \<not> ok then deref_both parent ino 0xFFFF s
           else do {
             let s = upd_node ino (\<lambda>d. d\<lparr>i_nlink := 0\<rparr>) s;
             let n = i_nlink (c_node (i_tab s parent));
             let s = upd_node parent (\<lambda>d. d\<lparr>i_nlink := i_nlink d - 1\<rparr>) s;
             let s = (if n = 0 then upd_node parent (\<lambda>d. d\<lparr>i_nlink := i_nlink d + 2\<rparr>) s else s);
             let s = setftime ino C_TIME s;
             (_, s) \<leftarrow> wr_inode parent s;
             (_, s) \<leftarrow> wr_inode ino s;
             deref_both parent ino 0 s
           }
         }
   }"

subsection \<open>Mounting\<close>

definition u_mount :: "(kst \<Rightarrow> kst option) \<Rightarrow> kst \<Rightarrow> (u16 \<times> kst) option" where
  "u_mount sw s =
     (let (e, s) = esuper s in
      if e then Some (0xFFFF, s)
      else do {
        ((r, _), s) \<leftarrow> n_open (u_argn s) False s;
        case r of
          None \<Rightarrow> Some (0xFFFF, s)
        | Some sino \<Rightarrow> do {
            ((r, _), s) \<leftarrow> n_open (u_argn1 s) False s;
            case r of
              None \<Rightarrow> deref_ret sino 0xFFFF s
            | Some dino \<Rightarrow>
                if getmode sino s \<noteq> MODE_R_BDEV then deref_both dino sino 0xFFFF (s\<lparr>u_error := ENOTBLK\<rparr>)
                else if getmode dino s \<noteq> MODE_R_DIR then deref_both dino sino 0xFFFF (s\<lparr>u_error := ENOTDIR\<rparr>)
                else
                  let dev = devnum sino s; flags = u_argn2 s;
                      (r, s) = (if \<not> validdev (plat s) dev then (1, s)
                                else d_open dev (if flags AND MS_RDONLY \<noteq> 0 then O_RDONLY else O_RDWR) s) in
                  if r \<noteq> 0 then deref_both dino sino 0xFFFF (s\<lparr>u_error := ENXIO\<rparr>)
                  else if fs_tab_get dev s \<noteq> None \<or> c_refs (i_tab s dino) \<noteq> 1 \<or> c_num (i_tab s dino) = ROOTINODE
                  then deref_both dino sino 0xFFFF (s\<lparr>u_error := EBUSY\<rparr>)
                  else do {
                    (_, s) \<leftarrow> sync s;
                    (bad, s) \<leftarrow> fmount dev (Some dino) flags s;
                    if bad then deref_both dino sino 0xFFFF (s\<lparr>u_error := EBUSY\<rparr>)
                    else deref_both dino sino 0 s
                  }
          }
      })"

text \<open>
  do\_umount(). The test for a read-only remount compares the constants with each other first, as C
  parses it, so it looks at the lowest bit of the flags only.
\<close>

definition umount_writers :: "u16 \<Rightarrow> kst \<Rightarrow> bool" where
  "umount_writers dev s \<longleftrightarrow>
     (\<exists>i\<in>set [0..<ITABSIZE]. c_dev (i_tab s i) = dev \<and> \<not> isdevice i s \<and>
        (c_writers (i_tab s i) \<noteq> 0 \<or> i_nlink (c_node (i_tab s i)) = 0))"

definition remount_flags :: "u16 \<Rightarrow> u16 \<Rightarrow> kst \<Rightarrow> kst" where
  "remount_flags dev flags s =
     s\<lparr>i_tab := (\<lambda>i. if i < ITABSIZE \<and> c_dev (i_tab s i) = dev
                      then (i_tab s i)\<lparr>c_flags := (if flags AND MS_RDONLY \<noteq> 0 then c_flags (i_tab s i) OR CRDONLY
                                                   else c_flags (i_tab s i) AND NOT CRDONLY)\<rparr>
                      else i_tab s i)\<rparr>"

definition do_umount :: "u16 \<Rightarrow> kst \<Rightarrow> (u16 \<times> kst) option" where
  "do_umount dev s =
     (let flags = u_argn1 s; rm = (flags AND MS_REMOUNT \<noteq> 0) in
      case fs_tab_get dev s of
        None \<Rightarrow> fail EINVAL s
      | Some m \<Rightarrow>
          if flags AND 1 \<noteq> 0 \<and> umount_writers dev s then fail EBUSY s
          else if \<not> rm \<and> (\<exists>i\<in>set [0..<ITABSIZE]. c_dev (i_tab s i) = dev \<and> c_refs (i_tab s i) \<noteq> 0) then fail EBUSY s
          else do {
            let s = (if rm then remount_flags dev flags s else upd_fs m (\<lambda>f. f\<lparr>s_fmod := FMOD_GO_CLEAN\<rparr>) s);
            (_, s) \<leftarrow> sync s;
            if rm then
              (let mf = (m_flags (fs_tab s m) AND NOT (MS_RDONLY OR MS_NOSUID)) OR (flags AND (MS_RDONLY OR MS_NOSUID));
                   s = s\<lparr>fs_tab := (fs_tab s)(m := (fs_tab s m)\<lparr>m_flags := mf\<rparr>)\<rparr>
               in Some (0, if mf AND MS_RDONLY \<noteq> 0 then upd_fs m (\<lambda>f. f\<lparr>s_fmod := FMOD_GO_CLEAN\<rparr>) s else s))
            else do {
              (_, s) \<leftarrow> i_deref_opt (s_mntpt (fs_at s m)) s;
              Some (0, s\<lparr>fs_tab := (fs_tab s)(m := (fs_tab s m)\<lparr>m_dev := NO_DEVICE\<rparr>)\<rparr>)
            }
          })"

definition u_umount :: "kst \<Rightarrow> (u16 \<times> kst) option" where
  "u_umount s =
     (let (e, s) = esuper s in
      if e then Some (0xFFFF, s)
      else do {
        ((r, _), s) \<leftarrow> n_open (u_argn s) False s;
        case r of
          None \<Rightarrow> Some (0xFFFF, s)
        | Some sino \<Rightarrow>
            if getmode sino s \<noteq> MODE_R_BDEV then deref_ret sino 0xFFFF (s\<lparr>u_error := ENOTBLK\<rparr>)
            else if \<not> validdev (plat s) (devnum sino s) then deref_ret sino 0xFFFF (s\<lparr>u_error := ENXIO\<rparr>)
            else do {
              (ret, s) \<leftarrow> do_umount (devnum sino s) s;
              deref_ret sino ret s
            }
      })"

subsection \<open>Administration\<close>

text \<open>The build has no profiling.\<close>

definition u_profil :: "kst \<Rightarrow> (u16 \<times> kst) option" where
  "u_profil s = fail ENOSYS s"

abbreviation (input) A_REBOOT :: u16 where "A_REBOOT \<equiv> 2"
abbreviation (input) A_SHUTDOWN :: u16 where "A_SHUTDOWN \<equiv> 1"
abbreviation (input) A_DUMP :: u16 where "A_DUMP \<equiv> 3"
abbreviation (input) AD_NOSYNC :: u16 where "AD_NOSYNC \<equiv> 1"

definition u_uadmin :: "kst \<Rightarrow> (u16 \<times> kst) option" where
  "u_uadmin s =
     (let (e, s) = esuper s in
      if e then Some (0xFFFF, s)
      else do {
        (_, s) \<leftarrow> (if u_argn1 s \<noteq> AD_NOSYNC then sync s else Some ((), s));
        if u_argn s = A_SHUTDOWN \<or> u_argn s = A_DUMP \<or> u_argn s = A_REBOOT then panic ''the machine stops'' s
        else fail EINVAL s
      })"

text \<open>\_nice(): the sum is a signed 16-bit number of the unsigned byte p\_nice and the argument.\<close>

definition u_nice :: "kst \<Rightarrow> (u16 \<times> kst) option" where
  "u_nice s =
     (let pri = u_argn s;
          (refused, s) = (if pri <s 0 then let (e, s) = esuper s in (\<not> e, s) else (False, s)) in
      if refused then Some (0xFFFF, s)
      else
        let np = ucast (p_nice (self s)) + pri;
            np = (if np <s - 20 then - 20 else if 19 <s np then 19 else np)
        in Some (20 + np, upd_p (u_ptab s) (\<lambda>p. p\<lparr>p_nice := ucast np,
                                          p_priority := MAXTICKS - signed_drop_bit 2 np\<rparr>) s))"

end
