(* ===== verification/SysProc.thy ===== *)
theory SysProc
  imports SysAdmin Timer
begin

text \<open>
  Processes ending, and the system calls of Kernel/syscall\_proc.c. doexit() of process.c ends by switching to
  another process; its model returns the state in which it does so. The port's pagemap\_free() and
  dofork() are the arguments \<open>pmfree\<close> and \<open>dofork\<close>. clock\_t has 32 bits.
\<close>

subsection \<open>Exit\<close>

text \<open>
  At exit two 32-bit times are stored over p\_priority (16 bits), p\_pending (32 bits) and the low half of
  p\_ignored, which lie next to each other; the parent reads them back from there.
\<close>

definition stash_times :: "u32 \<Rightarrow> u32 \<Rightarrow> p_tab \<Rightarrow> p_tab" where
  "stash_times ut st p =
     p\<lparr>p_priority := ucast ut,
       p_pending := drop_bit 16 ut OR push_bit 16 (st AND 0xFFFF),
       p_ignored := (p_ignored p AND 0xFFFF0000) OR drop_bit 16 st\<rparr>"

definition stashed_utime :: "p_tab \<Rightarrow> u32" where
  "stashed_utime p = ucast (p_priority p) OR push_bit 16 (p_pending p AND 0xFFFF)"

definition stashed_stime :: "p_tab \<Rightarrow> u32" where
  "stashed_stime p = drop_bit 16 (p_pending p) OR push_bit 16 (p_ignored p AND 0xFFFF)"

definition signal_parent :: "nat \<Rightarrow> kst \<Rightarrow> kst" where
  "signal_parent p s =
     (if p_ignored (ptab s p) AND sigmask SIGCHLD \<noteq> 0
      then upd_p (u_ptab s) (\<lambda>e. e\<lparr>p_status := P_EMPTY\<rparr>) s
      else
        let s = ssig p SIGCHLD s;
            s = wakeup (EvProc p) s
        in upd_p (u_ptab s) (\<lambda>e. e\<lparr>p_status := P_ZOMBIE\<rparr>) s)"

text \<open>The loop over the other processes: children go to init, members of the group are hung up.\<close>

definition orphan :: "nat \<Rightarrow> kst \<Rightarrow> kst" where
  "orphan p s =
     (if p_status (ptab s p) = P_EMPTY \<or> p = u_ptab s then s
      else
        let s = (if p_pptr (ptab s p) = u_ptab s then
                   let s = upd_p p (\<lambda>e. e\<lparr>p_pptr := 0\<rparr>) s
                   in if p_ignored (ptab s 0) AND sigmask SIGCHLD \<noteq> 0
                      then upd_p p (\<lambda>e. e\<lparr>p_status := P_EMPTY\<rparr>) s
                      else wakeup (EvProc 0) (ssig 0 SIGCHLD s)
                 else s)
        in if p_pgrp (ptab s p) = p_pid (self s)
           then ssig p SIGCONT (ssig p SIGHUP (upd_p p (\<lambda>e. e\<lparr>p_pgrp := 0\<rparr>) s))
           else s)"

definition close_all :: "kst \<Rightarrow> (unit \<times> kst) option" where
  "close_all s = for_each [0..<UFTSIZE]
     (\<lambda>j s. if u_files s j \<noteq> NO_FILE then do { (_, s) \<leftarrow> doclose (of_nat j) s; Some ((), s) } else Some ((), s)) s"

definition doexit :: "(nat \<Rightarrow> kst \<Rightarrow> kst) \<Rightarrow> u16 \<Rightarrow> kst \<Rightarrow> (unit \<times> kst) option" where
  "doexit pmfree val s =
     (if p_pid (self s) = 1 then panic ''killed init'' s
      else do {
        (_, s) \<leftarrow> sync s;
        let s = upd_p (u_ptab s) (\<lambda>p. p\<lparr>p_held := 0xFFFFFFFF\<rparr>) s;
        let s = s\<lparr>u_cursig := 0\<rparr>;
        let s = pmfree (u_ptab s) s;
        (_, s) \<leftarrow> close_all s;
        let s = upd_p (u_ptab s) (\<lambda>p. p\<lparr>p_exitval := val\<rparr>) s;
        (_, s) \<leftarrow> i_deref_opt (u_cwd s) s;
        (_, s) \<leftarrow> i_deref_opt (u_root s) s;
        let s = s\<lparr>u_utime := u_utime s + u_cutime s, u_stime := u_stime s + u_cstime s\<rparr>;
        let s = upd_p (u_ptab s) (stash_times (u_utime s) (u_stime s)) s;
        let s = fold orphan [0..<ptab_end s] s;
        let s = tty_exit s;
        let s = s\<lparr>u_page := 0xFFFF, u_page2 := 0xFFFF\<rparr>;
        let s = signal_parent (p_pptr (self s)) s;
        Some ((), s\<lparr>nready := nready s - 1, nproc := nproc s - 1\<rparr>)
      })"

text \<open>\_\_exit() does not return to its caller.\<close>

definition u_exit :: "(nat \<Rightarrow> kst \<Rightarrow> kst) \<Rightarrow> kst \<Rightarrow> (unit \<times> kst) option" where
  "u_exit pmfree s = doexit pmfree (push_bit 8 (u_argn s)) s"

subsection \<open>Identity\<close>

definition u_getpid :: "kst \<Rightarrow> (u16 \<times> kst) option" where
  "u_getpid s = Some (p_pid (self s), s)"

definition u_getppid :: "kst \<Rightarrow> (u16 \<times> kst) option" where
  "u_getppid s = Some (p_pid (ptab s (p_pptr (self s))), s)"

definition u_getuid :: "kst \<Rightarrow> (u16 \<times> kst) option" where
  "u_getuid s = Some (p_uid (self s), s)"

definition u_geteuid :: "kst \<Rightarrow> (u16 \<times> kst) option" where
  "u_geteuid s = Some (u_euid s, s)"

definition u_getgid :: "kst \<Rightarrow> (u16 \<times> kst) option" where
  "u_getgid s = Some (u_gid s, s)"

definition u_getegid :: "kst \<Rightarrow> (u16 \<times> kst) option" where
  "u_getegid s = Some (u_egid s, s)"

definition u_setuid :: "kst \<Rightarrow> (u16 \<times> kst) option" where
  "u_setuid s =
     (if super s \<or> p_uid (self s) = u_argn s
      then Some (0, (upd_p (u_ptab s) (\<lambda>p. p\<lparr>p_uid := u_argn s\<rparr>) s)\<lparr>u_euid := u_argn s\<rparr>)
      else fail EPERM s)"

definition u_setgid :: "kst \<Rightarrow> (u16 \<times> kst) option" where
  "u_setgid s =
     (if super s \<or> u_gid s = u_argn s then Some (0, s\<lparr>u_gid := u_argn s, u_egid := u_argn s\<rparr>)
      else fail EPERM s)"

definition u_setpgrp :: "kst \<Rightarrow> (u16 \<times> kst) option" where
  "u_setpgrp s = Some (0, upd_p (u_ptab s) (\<lambda>p. p\<lparr>p_pgrp := p_pid p, p_tty := 0\<rparr>) s)"

definition u_getpgrp :: "kst \<Rightarrow> (u16 \<times> kst) option" where
  "u_getpgrp s = Some (p_pgrp (self s), s)"

subsection \<open>Time\<close>

definition u_time_call :: "kst \<Rightarrow> (u16 \<times> kst) option" where
  "u_time_call s =
     (if u_argn1 s > 1 then fail EINVAL s
      else
        let t = (if u_argn1 s = 0 then rdtime s else (ticks s, 0));
            (e, s) = uput (le32 (fst t) @ le32 (snd t)) (u_argn s) 8 s
        in Some (if e then 0xFFFF else 0, s))"

definition u_stime_call :: "kst \<Rightarrow> (u16 \<times> kst) option" where
  "u_stime_call s =
     (if u_argn1 s \<noteq> 0 then fail EINVAL s
      else
        let (r, s) = uget (u_argn s) 8 s in
        case r of
          None \<Rightarrow> Some (0xFFFF, s)
        | Some bs \<Rightarrow>
            let (e, s) = esuper s in
            if e then Some (0xFFFF, s) else Some (0, wrtime (rd32 bs 0, rd32 bs 4) s))"

definition u_times :: "kst \<Rightarrow> (u16 \<times> kst) option" where
  "u_times s =
     (let (_, s) = uput (le32 (u_utime s) @ le32 (u_stime s) @ le32 (u_cutime s) @ le32 (u_cstime s)) (u_argn s) 16 s;
          (_, s) = uput (le32 (ticks s)) (u_argn s + 16) 4 s
      in Some (0, s))"

definition u_alarm :: "kst \<Rightarrow> (u16 \<times> kst) option" where
  "u_alarm s =
     Some (p_alarm (self s) div 10, upd_p (u_ptab s) (\<lambda>p. p\<lparr>p_alarm := u_argn s * 10\<rparr>) s)"

subsection \<open>Memory\<close>

text \<open>brk\_limit() of the Z80 port is \<^verbatim>\<open>udata.u_syscall_sp - 512\<close>.\<close>

definition u_brk :: "kst \<Rightarrow> (u16 \<times> kst) option" where
  "u_brk s =
     (let addr = u_argn s in
      if addr \<ge> u_syscall_sp s - 512 then fail ENOMEM s
      else
        let (_, s) = (if addr > u_break s then uzero (u_break s) (addr - u_break s) s else (False, s))
        in Some (0, s\<lparr>u_break := addr\<rparr>))"

definition u_sbrk :: "kst \<Rightarrow> (u16 \<times> kst) option" where
  "u_sbrk s = do {
     let oldbrk = u_break s;
     (r, s) \<leftarrow> u_brk (s\<lparr>u_argn := u_argn s + oldbrk\<rparr>);
     Some (if r \<noteq> 0 then 0xFFFF else oldbrk, s)
   }"

subsection \<open>Children\<close>

abbreviation (input) WNOHANG :: u16 where "WNOHANG \<equiv> 1"
abbreviation (input) WUNTRACED :: u16 where "WUNTRACED \<equiv> 2"

text \<open>A table entry that ends the wait: a child that is asked for and is a zombie or has stopped.\<close>

definition wait_hit :: "kst \<Rightarrow> nat \<Rightarrow> bool" where
  "wait_hit s p \<longleftrightarrow>
     p_pptr (ptab s p) = u_ptab s
     \<and> (u_argn s = 0xFFFF \<or> p_pid (ptab s p) = u_argn s \<or> p_pgrp (ptab s p) = - u_argn s)
     \<and> (p_status (ptab s p) = P_ZOMBIE \<or> p_event (ptab s p) \<noteq> 0 \<and> u_argn2 s AND WUNTRACED \<noteq> 0)"

definition reap :: "nat \<Rightarrow> kst \<Rightarrow> u16 \<times> kst" where
  "reap p s =
     (if p_status (ptab s p) = P_ZOMBIE then
        let s = (if u_argn1 s \<noteq> 0 then snd (uputw (p_exitval (ptab s p)) (u_argn1 s) s) else s);
            retval = p_pid (ptab s p);
            s = upd_p p (\<lambda>e. e\<lparr>p_status := P_EMPTY\<rparr>) s
        in (retval, s\<lparr>u_cutime := u_cutime s + stashed_utime (ptab s p),
                      u_cstime := u_cstime s + stashed_stime (ptab s p)\<rparr>)
      else (push_bit 8 (ucast (p_event (ptab s p))) OR 0xFF, upd_p p (\<lambda>e. e\<lparr>p_event := 0\<rparr>) s))"

partial_function (option) wait_loop :: "(kst \<Rightarrow> kst option) \<Rightarrow> kst \<Rightarrow> (u16 \<times> kst) option" where
  "wait_loop sw s = do {
     (_, s) \<leftarrow> chksigs_ret sw s;
     if u_cursig s \<noteq> 0 then fail EINTR s
     else
       let r = first_index (ptab_end s) (wait_hit s) in
       if r \<noteq> None then Some (reap (the r) s)
       else if u_argn2 s AND WNOHANG \<noteq> 0 then fail EINTR s
       else do {
         (_, s) \<leftarrow> psleep sw (EvProc (u_ptab s)) s;
         wait_loop sw s
       }
   }"

definition has_child :: "kst \<Rightarrow> bool" where
  "has_child s \<longleftrightarrow> first_index (ptab_end s)
     (\<lambda>p. p_status (ptab s p) \<noteq> P_EMPTY \<and> p_pptr (ptab s p) = u_ptab s \<and> p \<noteq> u_ptab s) \<noteq> None"

definition u_waitpid :: "(kst \<Rightarrow> kst option) \<Rightarrow> kst \<Rightarrow> (u16 \<times> kst) option" where
  "u_waitpid sw s =
     (let (n, s) = (if u_argn1 s \<noteq> 0 then valaddr (u_argn1 s) 2 s else (2, s)) in
      if n = 0 then fail EFAULT s
      else if \<not> has_child s then fail ECHILD s
      else wait_loop sw (if u_argn s = 0 then s\<lparr>u_argn := - p_pgrp (self s)\<rparr> else s))"

text \<open>\_fork(): the failure of dofork() is undone in the table entries and in both counters.\<close>

definition u_fork ::
  "(nat \<Rightarrow> kst \<Rightarrow> u16 \<times> kst) \<Rightarrow> (nat \<Rightarrow> kst \<Rightarrow> kst) \<Rightarrow> (nat \<Rightarrow> kst \<Rightarrow> (u16 \<times> kst) option) \<Rightarrow> kst
     \<Rightarrow> (u16 \<times> kst) option" where
  "u_fork pmalloc pmfree dofork s =
     (if u_argn s \<noteq> 0 then fail EINVAL s
      else do {
        (r, s) \<leftarrow> ptab_alloc pmalloc s;
        case r of
          None \<Rightarrow> Some (0xFFFF, s)
        | Some p \<Rightarrow> do {
            let s = upd_p (u_ptab s) (\<lambda>e. e\<lparr>p_status := P_READY\<rparr>) s;
            (r, s) \<leftarrow> dofork p s;
            Some (r,
              if r = 0xFFFF then
                let s = upd_p (u_ptab s) (\<lambda>e. e\<lparr>p_status := P_RUNNING\<rparr>) s;
                    s = pmfree p s;
                    s = upd_p p (\<lambda>e. e\<lparr>p_status := P_EMPTY\<rparr>) s
                in s\<lparr>u_error := ENOMEM, nproc := nproc s - 1, nready := nready s - 1\<rparr>
              else s)
          }
      })"

definition u_sched_yield :: "(kst \<Rightarrow> kst option) \<Rightarrow> kst \<Rightarrow> (u16 \<times> kst) option" where
  "u_sched_yield sw s = do {
     s \<leftarrow> (if nready s > 1 then sw s else Some s);
     Some (0, s)
   }"

definition u_pause :: "(kst \<Rightarrow> kst option) \<Rightarrow> kst \<Rightarrow> (u16 \<times> kst) option" where
  "u_pause sw s = do {
     let t = u_argn s;
     let s = (if t \<noteq> 0 then upd_p (u_ptab s) (\<lambda>p. p\<lparr>p_timeout := t + 1\<rparr>) s else s);
     (_, s) \<leftarrow> psleep sw EvNull s;
     if u_argn s = 0 \<or> p_timeout (self s) > 1 then fail EINTR s else Some (0, s)
   }"

subsection \<open>Signals\<close>

definition u_signal :: "kst \<Rightarrow> (u16 \<times> kst) option" where
  "u_signal s =
     (let sig = u_argn s; func = u_argn1 s; n = unat sig; fixed = (n = SIGKILL \<or> n = SIGSTOP) in
      if sig <s 1 \<or> of_nat NSIGS \<le>s sig then fail EINVAL s
      else
        let (bad, s) =
          (if func = SIG_IGN then
             (False, if fixed then s else upd_p (u_ptab s) (\<lambda>p. p\<lparr>p_ignored := p_ignored p OR sigmask n\<rparr>) s)
           else
             let (v, s) = (if func \<noteq> SIG_DFL then valaddr func 1 s else (1, s)) in
             if v = 0 then (True, s\<lparr>u_error := EFAULT\<rparr>)
             else (False, upd_p (u_ptab s) (\<lambda>p. p\<lparr>p_ignored := p_ignored p AND NOT (sigmask n)\<rparr>) s)) in
        if bad then Some (0xFFFF, s)
        else Some (u_sigvec s n,
                   (if fixed then s else s\<lparr>u_sigvec := (u_sigvec s)(n := func)\<rparr>)\<lparr>u_cursig := 0\<rparr>))"

definition u_sigdisp :: "kst \<Rightarrow> (u16 \<times> kst) option" where
  "u_sigdisp s =
     (let sig = u_argn s; n = unat sig in
      if sig <s 1 \<or> of_nat NSIGS \<le>s sig \<or> n = SIGKILL \<or> n = SIGSTOP then fail EINVAL s
      else Some (0, (upd_p (u_ptab s) (\<lambda>p. p\<lparr>p_held := (if u_argn1 s = 1 then p_held p OR sigmask n
                                                else p_held p AND NOT (sigmask n))\<rparr>) s)\<lparr>u_cursig := 0\<rparr>))"

definition can_signal :: "nat \<Rightarrow> kst \<Rightarrow> bool" where
  "can_signal p s \<longleftrightarrow> p_uid (self s) = p_uid (ptab s p) \<or> super s"

text \<open>The loop of \_kill(): whether a process was found (\<open>f\<close>) and one was signalled (\<open>d\<close>).\<close>

fun kill_scan :: "nat list \<Rightarrow> nat \<Rightarrow> bool \<Rightarrow> bool \<Rightarrow> kst \<Rightarrow> (bool \<times> bool) \<times> kst" where
  "kill_scan [] sig f d s = ((f, d), s)"
| "kill_scan (p # ps) sig f d s =
     (if - p_pgrp (ptab s p) = u_argn s \<or> p_pid (ptab s p) = u_argn s then
        if can_signal p s then
          let s = (if sig \<noteq> 0 then ssig p sig s else s)
          in if 0 <s u_argn s then ((True, True), s) else kill_scan ps sig True True s
        else kill_scan ps sig True d s
      else kill_scan ps sig f d s)"

definition u_kill :: "kst \<Rightarrow> (u16 \<times> kst) option" where
  "u_kill s =
     (let sig = u_argn1 s in
      if sig <s 0 \<or> of_nat NSIGS \<le>s sig then fail EINVAL s
      else
        let s = (if u_argn s = 0 then s\<lparr>u_argn := - p_pgrp (self s)\<rparr> else s);
            ((f, d), s) = kill_scan [0..<ptab_end s] (unat sig) False False s
        in if d then Some (0, s) else fail (if f then EPERM else ESRCH) s)"

end
