(* ===== verification/LifeSpec.thy ===== *)
theory LifeSpec
  imports SysProc DescSpec ProcInv FileSpec
begin

text \<open>
  The life of a process from exit() to the parent's wait(), and who may signal whom: what doexit() leaves in the
  process table, what waitpid() makes of it, and which entries kill() can reach.
\<close>

subsection \<open>What closing files leaves of the process table\<close>

text \<open>An entry up to being woken and to the port's memory map.\<close>

definition shade :: "p_tab \<Rightarrow> p_tab" where
  "shade e = e\<lparr>p_status := (if p_status e = P_SLEEP then P_READY else p_status e), p_wait := EvNull, p_page := 0, p_page2 := 0\<rparr>"

definition alive :: "kst \<Rightarrow> (nat \<Rightarrow> p_tab) \<times> nat \<times> nat \<times> u32 \<times> u32 \<times> u32 \<times> u32" where
  "alive s = (\<lambda>p. shade (ptab s p), u_ptab s, ptab_end s, u_utime s, u_stime s, u_cutime s, u_cstime s)"

lemma alive_upd [simp]:
  "alive (upd_i i f s) = alive s" "alive (upd_node i h s) = alive s" "alive (upd_b b k s) = alive s"
  "alive (s\<lparr>u_error := e\<rparr>) = alive s" "alive (upd_o j g s) = alive s"
  "alive (s\<lparr>u_files := fs, u_cloexec := d\<rparr>) = alive s" "alive (s\<lparr>u_cursig := w\<rparr>) = alive s"
  by (simp_all add: alive_def upd_i_def upd_node_def upd_b_def upd_o_def)

lemma shade_fields:
  assumes "shade e = shade f"
  shows "p_pid e = p_pid f" "p_pptr e = p_pptr f" "p_ignored e = p_ignored f" "p_pgrp e = p_pgrp f"
    "p_exitval e = p_exitval f" "p_uid e = p_uid f"
    "p_status f \<noteq> P_SLEEP \<Longrightarrow> p_status f \<noteq> P_READY \<Longrightarrow> p_status e = p_status f"
    "p_status e = P_EMPTY \<longleftrightarrow> p_status f = P_EMPTY"
  using assms by (cases e; cases f; auto simp: shade_def split: if_splits)+

lemma alive_wakeup [simp]: "alive (wakeup ev s) = alive s"
  unfolding wakeup_eq alive_def by (auto simp: shade_def waits_on_def fun_eq_iff)

lemma alive_hull:
  assumes "fs_hull t = fs_hull s" shows "alive t = alive s"
proof -
  have "u_ptab t = u_ptab s" "ptab_end t = ptab_end s" "u_utime t = u_utime s" "u_stime t = u_stime s"
    "u_cutime t = u_cutime s" "u_cstime t = u_cstime s"
    using assms [THEN arg_cong, of u_ptab] assms [THEN arg_cong, of ptab_end] assms [THEN arg_cong, of u_utime]
      assms [THEN arg_cong, of u_stime] assms [THEN arg_cong, of u_cutime] assms [THEN arg_cong, of u_cstime]
    by (simp_all add: fs_hull_def io_core_def)
  then show ?thesis using fs_hull_fields(7) [OF assms] by (simp add: alive_def)
qed

lemma alive_core: "io_core t = io_core s \<Longrightarrow> alive t = alive s"
  by (rule alive_hull) (rule fs_hull_core)

lemma i_deref_alive: "i_deref i s = Some (r, t) \<Longrightarrow> alive t = alive s"
  by (auto simp: i_deref_def magic_def bind_eq_Some_conv Let_def split: if_splits
      dest!: f_trunc_hull [THEN alive_hull] i_free_hull [THEN alive_hull] wr_inode_hull [THEN alive_hull])

lemma i_deref_opt_alive: "i_deref_opt i s = Some (r, t) \<Longrightarrow> alive t = alive s"
  by (auto simp: i_deref_opt_def split: option.splits dest: i_deref_alive)

lemma bdrop_alive:
  assumes "bdrop d s = Some (r, t)" shows "alive t = alive s"
  by (rule for_each_inv [where I = "\<lambda>t. alive t = alive s", OF _ _ assms [unfolded bdrop_def]])
    (auto simp: bdrop_step_def bind_eq_Some_conv dest!: bdput_core [THEN alive_core] split: if_splits)

lemma d_close_alive: "d_close d s = Some (r, t) \<Longrightarrow> alive t = alive s"
  by (auto simp: d_close_def validchk_def drv_error_def bind_eq_Some_conv Let_def split_beta
      split: if_splits dest!: bdrop_alive)

lemma last_close_alive: "last_close i m s = Some (r, t) \<Longrightarrow> alive t = alive s"
  by (auto simp: last_close_def bind_eq_Some_conv Let_def split: if_splits dest!: d_close_alive)

lemma d_flush_alive: "alive (snd (d_flush x w)) = alive w"
  by (cases "d_flush x w") (auto dest: d_flush_core [THEN alive_core])

lemma deflock_alive: "deflock j s = Some (r, t) \<Longrightarrow> alive t = alive s"
  by (auto simp: deflock_def Let_def split: option.splits if_splits)

lemma getinode_alive: "getinode f s = Some (r, t) \<Longrightarrow> alive t = alive s"
  by (cases r) (auto dest: getinode_Some getinode_None)

lemma oft_deref_alive: "oft_deref j s = Some (r, t) \<Longrightarrow> alive t = alive s"
  by (auto simp: oft_deref_def Let_def elim!: bind_SomeD
      split: if_splits option.splits dest!: deflock_alive i_deref_opt_alive)

lemma doclose_alive:
  assumes c: "doclose u s = Some (r, t)" shows "alive t = alive s"
proof -
  obtain x v where x: "getinode u s = Some (x, v)" using c by (auto simp: doclose_def elim!: bind_SomeD)
  show ?thesis
  proof (cases x)
    case None
    then show ?thesis using doclose_None [of u s v] c x getinode_alive [OF x] by simp
  next
    case (Some i)
    then have i: "getinode u s = Some (Some i, s)" using x getinode_Some(1) by auto
    show ?thesis
      by (rule doclose_Some [OF i c])
        (auto simp: d_flush_alive dest!: oft_deref_alive last_close_alive split: if_splits)
  qed
qed

lemma close_all_alive:
  assumes "close_all s = Some (r, t)" shows "alive t = alive s"
  by (rule for_each_inv [where I = "\<lambda>t. alive t = alive s", OF _ _ assms [unfolded close_all_def]])
    (auto simp: bind_eq_Some_conv dest!: doclose_alive split: if_splits)

subsection \<open>The times a zombie keeps\<close>

lemma half_masks: "(0xFFFF :: u32) = mask 16" "(0xFFFF0000 :: u32) = NOT (mask 16)"
  by (simp_all add: mask_eq_exp_minus_1)

lemma stashed_times:
  "stashed_utime (stash_times ut st p) = ut" "stashed_stime (stash_times ut st p) = st"
  unfolding stashed_utime_def stashed_stime_def stash_times_def half_masks
  by (rule bit_word_eqI; auto simp: bit_simps)+

subsection \<open>Children of a dead process\<close>

lemma ssig_entry [simp]:
  "q \<noteq> p \<Longrightarrow> ptab (ssig p sig s) q = ptab s q" "u_ptab (ssig p sig s) = u_ptab s"
  "p_pptr (ptab (ssig p sig s) q) = p_pptr (ptab s q)" "p_pid (ptab (ssig p sig s) q) = p_pid (ptab s q)"
  "p_ignored (ptab (ssig p sig s) q) = p_ignored (ptab s q)" "p_uid (ptab (ssig p sig s) q) = p_uid (ptab s q)"
  "p_status (ptab (ssig p sig s) q) = P_EMPTY \<longleftrightarrow> p_status (ptab s q) = P_EMPTY"
  by (simp_all add: ssig_def Let_def)

lemma wakeup_entry [simp]:
  "u_ptab (wakeup ev s) = u_ptab s" "ptab_end (wakeup ev s) = ptab_end s"
  "p_pptr (ptab (wakeup ev s) q) = p_pptr (ptab s q)" "p_pid (ptab (wakeup ev s) q) = p_pid (ptab s q)"
  "p_ignored (ptab (wakeup ev s) q) = p_ignored (ptab s q)"
  "p_pending (ptab (wakeup ev s) q) = p_pending (ptab s q)"
  "p_status (ptab (wakeup ev s) q) = P_EMPTY \<longleftrightarrow> p_status (ptab s q) = P_EMPTY"
  "p_status (ptab s q) = P_RUNNING \<Longrightarrow> ptab (wakeup ev s) q = ptab s q"
  by (auto simp: wakeup_eq waits_on_def)

text \<open>The table after the first \<open>n\<close> entries have been dealt with: no child is left among them.\<close>

definition orphaned :: "kst \<Rightarrow> nat \<Rightarrow> kst \<Rightarrow> bool" where
  "orphaned s n t \<longleftrightarrow> u_ptab t = u_ptab s \<and> ptab_end t = ptab_end s \<and> ptab t (u_ptab s) = self s
     \<and> (\<forall>q. p_ignored (ptab t q) = p_ignored (ptab s q) \<and> p_pid (ptab t q) = p_pid (ptab s q)
       \<and> p_pptr (ptab t q) = (if q < n \<and> q \<noteq> u_ptab s \<and> p_status (ptab s q) \<noteq> P_EMPTY \<and> p_pptr (ptab s q) = u_ptab s
                              then 0 else p_pptr (ptab s q))
       \<and> (p_status (ptab s q) = P_EMPTY \<longrightarrow> p_status (ptab t q) = P_EMPTY)
       \<and> (p_pptr (ptab s q) \<noteq> u_ptab s \<or> n \<le> q \<longrightarrow> (p_status (ptab t q) = P_EMPTY \<longleftrightarrow> p_status (ptab s q) = P_EMPTY)))"

lemma orphaned_ssig: "orphaned s n t \<Longrightarrow> p \<noteq> u_ptab s \<Longrightarrow> orphaned s n (ssig p sig t)"
  by (simp add: orphaned_def)

lemma orphaned_wakeup: "orphaned s n t \<Longrightarrow> p_status (self s) = P_RUNNING \<Longrightarrow> orphaned s n (wakeup ev t)"
  by (simp add: orphaned_def)

lemma orphaned_group: "orphaned s n t \<Longrightarrow> p \<noteq> u_ptab s \<Longrightarrow> orphaned s n (upd_p p (\<lambda>e. e\<lparr>p_pgrp := 0\<rparr>) t)"
  by (simp add: orphaned_def)

lemma orphaned_empty:
  "orphaned s (Suc n) t \<Longrightarrow> p_pptr (ptab s n) = u_ptab s \<Longrightarrow> n \<noteq> u_ptab s
     \<Longrightarrow> orphaned s (Suc n) (upd_p n (\<lambda>e. e\<lparr>p_status := P_EMPTY\<rparr>) t)"
  by (simp add: orphaned_def)

lemma orphaned_other:
  "orphaned s n t \<Longrightarrow> n = u_ptab s \<or> p_status (ptab s n) = P_EMPTY \<or> p_pptr (ptab s n) \<noteq> u_ptab s
     \<Longrightarrow> orphaned s (Suc n) t"
  by (simp add: orphaned_def less_Suc_eq) blast

lemma orphaned_child:
  assumes "orphaned s n t" "n \<noteq> u_ptab s" "p_status (ptab s n) \<noteq> P_EMPTY" "p_pptr (ptab s n) = u_ptab s"
  shows "orphaned s (Suc n) (upd_p n (\<lambda>e. e\<lparr>p_pptr := 0\<rparr>) t)"
  using assms by (simp add: orphaned_def less_Suc_eq) (meson Suc_leD)

lemma orphan_step:
  assumes o: "orphaned s n t" and s: "u_ptab s \<noteq> 0" "p_status (self s) = P_RUNNING"
  shows "orphaned s (Suc n) (orphan n t)"
proof (cases "p_status (ptab t n) = P_EMPTY \<or> n = u_ptab t")
  case True
  then have "orphaned s (Suc n) t"
    using o by (intro orphaned_other) (auto simp: orphaned_def)
  then show ?thesis using True by (simp add: orphan_def)
next
  case False
  have n: "n \<noteq> u_ptab s" "p_status (ptab s n) \<noteq> P_EMPTY" "u_ptab t = u_ptab s"
    "p_pptr (ptab t n) = p_pptr (ptab s n)"
    using False o by (auto simp: orphaned_def)
  define u where "u = (if p_pptr (ptab t n) = u_ptab t then
      let v = upd_p n (\<lambda>e. e\<lparr>p_pptr := 0\<rparr>) t
      in if p_ignored (ptab v 0) AND sigmask SIGCHLD \<noteq> 0 then upd_p n (\<lambda>e. e\<lparr>p_status := P_EMPTY\<rparr>) v
         else wakeup (EvProc 0) (ssig 0 SIGCHLD v) else t)"
  have u: "orphaned s (Suc n) u"
  proof (cases "p_pptr (ptab s n) = u_ptab s")
    case True
    note c = orphaned_child [OF o n(1,2) True]
    show ?thesis
      using orphaned_empty [OF c True n(1)] orphaned_wakeup [OF orphaned_ssig [OF c, of 0] s(2)] s(1) n True
      by (simp add: u_def Let_def)
  next
    case False
    then show ?thesis using orphaned_other [OF o] n by (simp add: u_def)
  qed
  have "orphan n t = (if p_pgrp (ptab u n) = p_pid (self u)
      then ssig n SIGCONT (ssig n SIGHUP (upd_p n (\<lambda>e. e\<lparr>p_pgrp := 0\<rparr>) u)) else u)"
    using False by (simp only: orphan_def u_def Let_def if_False)
  then show ?thesis
    using u orphaned_ssig [OF orphaned_ssig [OF orphaned_group [OF u n(1)] n(1)] n(1)] by simp
qed

lemma orphan_all:
  assumes "u_ptab s \<noteq> 0" "p_status (self s) = P_RUNNING"
  shows "orphaned s n (fold orphan [0..<n] s)"
proof (induction n)
  case 0
  then show ?case by (simp add: orphaned_def)
next
  case (Suc n)
  then show ?case using orphan_step [OF Suc assms] by simp
qed

subsection \<open>exit()\<close>

text \<open>The zombie that \<open>s\<close> leaves for its parent.\<close>

definition zombie_of :: "kst \<Rightarrow> u16 \<Rightarrow> p_tab \<Rightarrow> bool" where
  "zombie_of s val z \<longleftrightarrow> p_status z = P_ZOMBIE \<and> p_pid z = p_pid (self s) \<and> p_pptr z = p_pptr (self s)
     \<and> p_exitval z = val \<and> stashed_utime z = u_utime s + u_cutime s \<and> stashed_stime z = u_stime s + u_cstime s"

text \<open>doexit() from the summing of the times on, the steps that cannot fail.\<close>

definition exit_tail :: "kst \<Rightarrow> kst" where
  "exit_tail e =
     (let s = e\<lparr>u_utime := u_utime e + u_cutime e, u_stime := u_stime e + u_cstime e\<rparr>;
          s = upd_p (u_ptab s) (stash_times (u_utime s) (u_stime s)) s;
          s = fold orphan [0..<ptab_end s] s;
          s = tty_exit s;
          s = s\<lparr>u_page := 0xFFFF, u_page2 := 0xFFFF\<rparr>;
          s = signal_parent (p_pptr (self s)) s
      in s\<lparr>nready := nready s - 1, nproc := nproc s - 1\<rparr>)"

lemma doexit_parts:
  "doexit pmfree val s =
     (if p_pid (self s) = 1 then None
      else do {
        (_, a) \<leftarrow> sync s;
        (_, c) \<leftarrow> close_all (pmfree (u_ptab a) ((upd_p (u_ptab a) (\<lambda>p. p\<lparr>p_held := 0xFFFFFFFF\<rparr>) a)\<lparr>u_cursig := 0\<rparr>));
        (_, d) \<leftarrow> i_deref_opt (u_cwd c) (upd_p (u_ptab c) (\<lambda>p. p\<lparr>p_exitval := val\<rparr>) c);
        (_, e) \<leftarrow> i_deref_opt (u_root d) d;
        Some ((), exit_tail e)
      })"
  unfolding doexit_def exit_tail_def Let_def by (simp add: upd_p_def)

lemma alive_entry:
  assumes "alive t = alive s"
  shows "shade (ptab t q) = shade (ptab s q)" "u_ptab t = u_ptab s" "ptab_end t = ptab_end s"
    "u_utime t = u_utime s" "u_stime t = u_stime s" "u_cutime t = u_cutime s" "u_cstime t = u_cstime s"
  using assms by (auto simp: alive_def dest: fun_cong)

definition relic :: "p_tab \<Rightarrow> p_tab" where
  "relic e = shade (e\<lparr>p_held := 0, p_exitval := 0\<rparr>)"

lemma relic_upd [simp]: "relic (e\<lparr>p_held := h\<rparr>) = relic e" "relic (e\<lparr>p_exitval := v\<rparr>) = relic e"
  by (simp_all add: relic_def)

lemma relic_shade:
  assumes "shade e = shade f" shows "relic e = relic f"
proof -
  have "relic x = (shade x)\<lparr>p_held := 0, p_exitval := 0\<rparr>" for x by (simp add: relic_def shade_def)
  then show ?thesis using assms by simp
qed

lemma times_upd_p [simp]:
  "u_utime (upd_p p f s) = u_utime s" "u_stime (upd_p p f s) = u_stime s"
  "u_cutime (upd_p p f s) = u_cutime s" "u_cstime (upd_p p f s) = u_cstime s"
  by (simp_all add: upd_p_def)

text \<open>The state in which the times are summed: the entry of the dying process holds its exit value, and the
  others are the old ones up to wake-ups.\<close>

lemma doexit_until_tail:
  assumes ex: "doexit pmfree val s = Some (r, t)" and pm: "\<And>p u. alive (pmfree p u) = alive u"
  obtains e where "t = exit_tail e" "u_ptab e = u_ptab s" "ptab_end e = ptab_end s"
    "u_utime e = u_utime s" "u_stime e = u_stime s" "u_cutime e = u_cutime s" "u_cstime e = u_cstime s"
    "p_exitval (self e) = val" "relic (self e) = relic (self s)"
    "\<And>q. q \<noteq> u_ptab s \<Longrightarrow> shade (ptab e q) = shade (ptab s q)"
proof -
  obtain a c d e where a: "sync s = Some ((), a)"
    and c: "close_all (pmfree (u_ptab a) ((upd_p (u_ptab a) (\<lambda>p. p\<lparr>p_held := 0xFFFFFFFF\<rparr>) a)\<lparr>u_cursig := 0\<rparr>)) = Some ((), c)"
    and d: "i_deref_opt (u_cwd c) (upd_p (u_ptab c) (\<lambda>p. p\<lparr>p_exitval := val\<rparr>) c) = Some ((), d)"
    and e: "i_deref_opt (u_root d) d = Some ((), e)" and t: "t = exit_tail e"
    using ex unfolding doexit_parts by (auto elim!: bind_SomeD split: if_splits)
  have A: "alive a = alive s" using sync_hull [OF a] by (rule alive_hull)
  have C: "alive c = alive (upd_p (u_ptab a) (\<lambda>p. p\<lparr>p_held := 0xFFFFFFFF\<rparr>) a)"
    using close_all_alive [OF c] pm by simp
  have E: "alive e = alive (upd_p (u_ptab c) (\<lambda>p. p\<lparr>p_exitval := val\<rparr>) c)"
    using i_deref_opt_alive [OF e] i_deref_opt_alive [OF d] by simp
  show ?thesis
  proof (rule that [OF t])
    note A = alive_entry [OF A] and C = alive_entry [OF C] and E = alive_entry [OF E]
    have u: "u_ptab e = u_ptab s" "u_ptab c = u_ptab s" "u_ptab a = u_ptab s" using A(2) C(2) E(2) by simp_all
    show "u_ptab e = u_ptab s" "ptab_end e = ptab_end s" "u_utime e = u_utime s" "u_stime e = u_stime s"
      "u_cutime e = u_cutime s" "u_cstime e = u_cstime s"
      using A(2-) C(2-) E(2-) by simp_all
    show "p_exitval (self e) = val" using shade_fields(5) [OF E(1)] u by simp
    show "relic (self e) = relic (self s)"
      using relic_shade [OF A(1), of "u_ptab s"] relic_shade [OF C(1), of "u_ptab s"] relic_shade [OF E(1), of "u_ptab s"] u
      by simp
    show "shade (ptab e q) = shade (ptab s q)" if "q \<noteq> u_ptab s" for q
      using A(1) [of q] C(1) [of q] E(1) [of q] u that by simp
  qed
qed


lemma tty_exit_table [simp]:
  "ptab (tty_exit s) = ptab s" "u_ptab (tty_exit s) = u_ptab s" "ptab_end (tty_exit s) = ptab_end s"
  by (simp_all add: tty_exit_def Let_def upd_t_def)

lemma ssig_posts:
  "p_status (ptab s p) \<noteq> P_EMPTY \<Longrightarrow> p_ignored (ptab s p) AND sigmask sig = 0 \<Longrightarrow> sigmask sig \<noteq> 0
     \<Longrightarrow> p_pending (ptab (ssig p sig s) p) AND sigmask sig \<noteq> 0"
  by (auto simp: ssig_def Let_def bit.conj_disj_distrib2)

lemma wakeup_frees: "p < ptab_end s \<Longrightarrow> ev \<noteq> EvNull \<Longrightarrow> \<not> waits_on ev (ptab (wakeup ev s) p)"
  by (simp add: wakeup_eq waits_on_def)

lemma signal_parent_zombie:
  assumes "p \<noteq> u_ptab s" "p_ignored (ptab s p) AND sigmask SIGCHLD = 0" "p_status (ptab s p) \<noteq> P_EMPTY"
    "p < ptab_end s" "p_status (self s) = P_RUNNING"
  shows "ptab (signal_parent p s) (u_ptab s) = (self s)\<lparr>p_status := P_ZOMBIE\<rparr>"
    "p_pending (ptab (signal_parent p s) p) AND sigmask SIGCHLD \<noteq> 0"
    "\<not> waits_on (EvProc p) (ptab (signal_parent p s) p)"
    "p_pptr (ptab (signal_parent p s) q) = p_pptr (ptab s q)"
    "q \<noteq> u_ptab s \<Longrightarrow> p_status (ptab (signal_parent p s) q) = P_EMPTY \<longleftrightarrow> p_status (ptab s q) = P_EMPTY"
proof -
  have eq: "signal_parent p s = upd_p (u_ptab s) (\<lambda>e. e\<lparr>p_status := P_ZOMBIE\<rparr>) (wakeup (EvProc p) (ssig p SIGCHLD s))"
    using assms(2) by (simp add: signal_parent_def Let_def)
  show "ptab (signal_parent p s) (u_ptab s) = (self s)\<lparr>p_status := P_ZOMBIE\<rparr>"
    "p_pptr (ptab (signal_parent p s) q) = p_pptr (ptab s q)"
    "q \<noteq> u_ptab s \<Longrightarrow> p_status (ptab (signal_parent p s) q) = P_EMPTY \<longleftrightarrow> p_status (ptab s q) = P_EMPTY"
    using assms by (auto simp: eq)
  show "p_pending (ptab (signal_parent p s) p) AND sigmask SIGCHLD \<noteq> 0"
    using ssig_posts [of s p SIGCHLD] assms by (simp add: eq sigmask_def)
  show "\<not> waits_on (EvProc p) (ptab (signal_parent p s) p)"
    using wakeup_frees [of p "ssig p SIGCHLD s" "EvProc p"] assms by (simp add: eq)
qed

lemma relic_fields:
  assumes "relic e = relic f"
  shows "p_pid e = p_pid f" "p_pptr e = p_pptr f" "p_status f = P_RUNNING \<Longrightarrow> p_status e = P_RUNNING"
  using shade_fields(1,2,7) [OF assms [unfolded relic_def]] by simp_all

lemma stash_times_fields [simp]:
  "p_pid (stash_times ut st p) = p_pid p" "p_pptr (stash_times ut st p) = p_pptr p"
  "p_status (stash_times ut st p) = p_status p" "p_exitval (stash_times ut st p) = p_exitval p"
  by (simp_all add: stash_times_def)

lemma stashed_status [simp]:
  "stashed_utime (p\<lparr>p_status := v\<rparr>) = stashed_utime p" "stashed_stime (p\<lparr>p_status := v\<rparr>) = stashed_stime p"
  by (simp_all add: stashed_utime_def stashed_stime_def)


lemma for_each_same: "\<forall>i \<in> set is. body i s = Some ((), s) \<Longrightarrow> for_each is body s = Some ((), s)"
  by (induction "is") auto

definition sample_child :: kst where
  "sample_child = sample\<lparr>u_ptab := 1, nready := 2, nproc := 2, ptab := (ptab sample)
     (1 := sample_ptab\<lparr>p_status := P_RUNNING, p_pid := 20, p_pptr := 0\<rparr>, 2 := sample_ptab\<lparr>p_status := P_SLEEP, p_pid := 21, p_pptr := 1\<rparr>),
     u_utime := 5, u_cutime := 2, u_cwd := Some 0, u_root := Some 0,
     i_tab := (\<lambda>_. sample_cinode\<lparr>c_magic := CMAGIC, c_num := 2, c_refs := 3\<rparr>)\<rparr>"

lemma sample_child_sync: "sync sample_child = Some ((), sample_child)"
proof -
  have "for_each [0..<ITABSIZE] sync_inode sample_child = Some ((), sample_child)"
    by (rule for_each_same) (simp add: sync_inode_def sample_child_def sample_defs)
  moreover have "for_each [0..<NMOUNTS] sync_mount sample_child = Some ((), sample_child)"
    by (rule for_each_same) (simp add: sync_mount_def sample_child_def sample_defs)
  moreover have "bufsync sample_child = Some ((), sample_child)"
    unfolding bufsync_def by (rule for_each_same) (simp add: bufsync_step_def sample_child_def sample_defs)
  ultimately show ?thesis by (simp add: sync_def)
qed

lemma sample_child_exits: "\<exists>t. doexit (\<lambda>_ u. u) 7 sample_child = Some ((), t)"
proof -
  have n: "close_all u = Some ((), u)" if "u_files u = (\<lambda>_. NO_FILE)" for u
    unfolding close_all_def by (rule for_each_same) (simp add: that)
  have f: "u_files sample_child = (\<lambda>_. NO_FILE)" "u_cwd sample_child = Some 0" "u_root sample_child = Some 0"
    "i_tab sample_child = (\<lambda>_. sample_cinode\<lparr>c_magic := CMAGIC, c_num := 2, c_refs := 3\<rparr>)"
    by (simp_all add: sample_child_def sample_def)
  have g: "p_pid (self sample_child) = 20" by (simp add: sample_child_def sample_def)
  show ?thesis unfolding doexit_parts
    by (simp add: g sample_child_sync n i_deref_opt_def f i_deref_def magic_def upd_p_def upd_i_def
        sample_cinode_def sample_dinode_def)
qed


subsection \<open>wait()\<close>

lemma no_signal:
  assumes "p_pending (self s) AND NOT (p_held (self s)) = 0"
  shows "chksigs_ret sw s = Some (u_cursig s, s)"
  using assms by (simp add: chksigs_ret_def chksigs_def chksigs_from.simps)

text \<open>What waitpid(0) asks for.\<close>

definition asked :: "kst \<Rightarrow> kst" where
  "asked s = (if u_argn s = 0 then s\<lparr>u_argn := - p_pgrp (self s)\<rparr> else s)"

text \<open>wait() gives the parent what its child left (\_waitpid() and doexit()): when the first entry that
  answers the request is the zombie of the process that ended in state \<open>d\<close> with value \<open>val\<close>, and no
  signal is to be delivered, the call returns that process's id without sleeping, stores the value at the
  address given and nothing else, adds the sum of its times to the parent's, and frees exactly that entry.\<close>

theorem waitpid_collects:
  assumes z: "first_index (ptab_end s) (wait_hit (asked s)) = Some z" "zombie_of d val (ptab s z)" "z \<noteq> u_ptab s"
    and quiet: "p_pending (self s) AND NOT (p_held (self s)) = 0" "u_cursig s = 0"
    and buf: "u_argn1 s \<noteq> 0 \<longrightarrow> progbase (plat s) \<le> u_argn1 s \<and> unat (u_argn1 s) + 2 \<le> unat (u_top s)"
  shows "\<exists>t. u_waitpid sw s = Some (p_pid (self d), t)
    \<and> ptab t = (ptab s)(z := (ptab s z)\<lparr>p_status := P_EMPTY\<rparr>)
    \<and> umem t = (if u_argn1 s = 0 then umem s else put_range (u_argn1 s) (le16 val) (umem s))
    \<and> u_cutime t = u_cutime s + (u_utime d + u_cutime d) \<and> u_cstime t = u_cstime s + (u_stime d + u_cstime d)"
proof -
  let ?s = "asked s" and ?e = "ptab s z"
  have a: "ptab ?s = ptab s" "u_ptab ?s = u_ptab s" "ptab_end ?s = ptab_end s" "u_argn1 ?s = u_argn1 s"
    "u_cursig ?s = u_cursig s" "umem ?s = umem s" "plat ?s = plat s" "u_top ?s = u_top s"
    "u_cutime ?s = u_cutime s" "u_cstime ?s = u_cstime s"
    by (simp_all add: asked_def)
  have hit: "z < ptab_end s" "p_pptr ?e = u_ptab s" and zs: "p_status ?e = P_ZOMBIE"
    using first_index_Some [OF z(1)] z(2) by (auto simp: wait_hit_def a zombie_of_def)
  then have child: "has_child s"
    unfolding has_child_def using z(3) first_index_None [of "ptab_end s"] by auto
  have v: "valaddr (u_argn1 s) 2 s = (2, s)" "valaddr (u_argn1 s) 2 ?s = (2, ?s)" if "u_argn1 s \<noteq> 0"
    using valaddr_inside(1) [of "u_argn1 s" s 2] valaddr_inside(1) [of "u_argn1 s" ?s 2] that buf by (auto simp: a)
  have "u_waitpid sw s = wait_loop sw ?s"
    using child v by (auto simp: u_waitpid_def asked_def)
  also have "\<dots> = Some (reap z ?s)"
    using no_signal [of ?s sw] quiet z(1) by (subst wait_loop.simps) (simp add: a)
  finally have w: "u_waitpid sw s = Some (reap z ?s)" .
  define u where "u = (if u_argn1 s \<noteq> 0 then snd (uputw val (u_argn1 s) ?s) else ?s)"
  have u: "ptab u = ptab s" "u_cutime u = u_cutime s" "u_cstime u = u_cstime s"
    "umem u = (if u_argn1 s = 0 then umem s else put_range (u_argn1 s) (le16 val) (umem s))"
    using v(2) uput_raw_range [of "le16 val" "u_argn1 s" "umem s"] by (simp_all add: u_def uputw_def a)
  have "reap z ?s = (p_pid (self d), (upd_p z (\<lambda>e. e\<lparr>p_status := P_EMPTY\<rparr>) u)\<lparr>u_cutime := u_cutime u + stashed_utime ?e,
      u_cstime := u_cstime u + stashed_stime ?e\<rparr>)"
  proof -
    have "p_exitval ?e = val" using z(2) by (simp add: zombie_of_def)
    then have "(if u_argn1 s \<noteq> 0 then snd (uputw (p_exitval ?e) (u_argn1 s) ?s) else ?s) = u" by (simp add: u_def)
    then have "reap z ?s = (let s = u in (p_pid (ptab s z), (upd_p z (\<lambda>e. e\<lparr>p_status := P_EMPTY\<rparr>) s)\<lparr>
        u_cutime := u_cutime s + stashed_utime (ptab s z), u_cstime := u_cstime s + stashed_stime (ptab s z)\<rparr>))"
      using zs by (simp only: reap_def a if_True Let_def) simp
    then show ?thesis using z(2) by (simp add: u zombie_of_def)
  qed
  then show ?thesis using w z(2) u by (simp add: zombie_of_def upd_p_def)
qed


definition sample_zombie :: kst where
  "sample_zombie = sample\<lparr>u_argn := 0xFFFF, u_argn1 := 0x300, ptab := (ptab sample)(1 := stash_times 7 0
     (sample_ptab\<lparr>p_status := P_ZOMBIE, p_pid := 20, p_pptr := 0, p_exitval := 0x700\<rparr>))\<rparr>"

theorem waitpid_collects_witness:
  "\<exists>t. u_waitpid (\<lambda>_. None) sample_zombie = Some (20, t) \<and> p_status (ptab t 1) = P_EMPTY \<and> u_cutime t = 7 \<and> umem t 0x301 = 7"
proof -
  have z: "zombie_of sample_child 0x700 (ptab sample_zombie 1)"
    by (simp add: zombie_of_def stashed_times sample_zombie_def sample_child_def sample_def sample_ptab_def)
  have h: "first_index (ptab_end sample_zombie) (wait_hit (asked sample_zombie)) = Some 1"
    by (simp add: first_index_def wait_hit_def asked_def sample_zombie_def sample_def sample_ptab_def upt_rec stash_times_def)
  have "\<exists>t. u_waitpid (\<lambda>_. None) sample_zombie = Some (p_pid (self sample_child), t)
      \<and> ptab t = (ptab sample_zombie)(1 := (ptab sample_zombie 1)\<lparr>p_status := P_EMPTY\<rparr>)
      \<and> umem t = (if u_argn1 sample_zombie = 0 then umem sample_zombie
                  else put_range (u_argn1 sample_zombie) (le16 0x700) (umem sample_zombie))
      \<and> u_cutime t = u_cutime sample_zombie + (u_utime sample_child + u_cutime sample_child)
      \<and> u_cstime t = u_cstime sample_zombie + (u_stime sample_child + u_cstime sample_child)"
    by (rule waitpid_collects [OF h z]) (simp_all add: sample_zombie_def sample_def sample_ptab_def sample_plat_def)
  then show ?thesis
    by (auto simp: sample_zombie_def sample_child_def sample_def sample_ptab_def put_range_def le16_def)
qed

subsection \<open>kill()\<close>

text \<open>The entries a call asks for (a process id, or the negated id of a group), as \<open>kill_scan\<close> tests them.\<close>

definition kill_target :: "u16 \<Rightarrow> kst \<Rightarrow> nat \<Rightarrow> bool" where
  "kill_target pid s p \<longleftrightarrow> - p_pgrp (ptab s p) = pid \<or> p_pid (ptab s p) = pid"

text \<open>The entries that get the signal: of a process id the first match only.\<close>

definition may_signal :: "kst \<Rightarrow> nat \<Rightarrow> bool" where
  "may_signal s p \<longleftrightarrow> u_euid s = 0 \<or> p_uid (ptab s p) = p_uid (self s)"

definition kill_chosen :: "nat list \<Rightarrow> u16 \<Rightarrow> kst \<Rightarrow> nat set" where
  "kill_chosen ps pid s =
     (if 0 <s pid then set_option (List.find (\<lambda>p. kill_target pid s p \<and> may_signal s p) ps)
      else {p \<in> set ps. kill_target pid s p \<and> may_signal s p})"

lemma can_signal_iff: "can_signal p s \<longleftrightarrow> may_signal s p"
  by (auto simp: can_signal_def may_signal_def super_def)

lemmas kill_chosen_can = kill_chosen_def [folded can_signal_iff]

lemma ssig_frame [simp]:
  "u_argn (ssig p sig s) = u_argn s" "u_euid (ssig p sig s) = u_euid s" "u_error (ssig p sig s) = u_error s"
  "p_pgrp (ptab (ssig p sig s) q) = p_pgrp (ptab s q)"
  by (simp_all add: ssig_def Let_def upd_p_def)

lemma ssig_kill [simp]:
  "kill_target pid (ssig p sig s) q = kill_target pid s q" "can_signal q (ssig p sig s) = can_signal q s"
  by (simp_all add: kill_target_def can_signal_def super_def)

text \<open>A signal as a change of one entry.\<close>

definition signalled :: "nat \<Rightarrow> p_tab \<Rightarrow> p_tab" where
  "signalled sig e =
     (if p_status e = P_EMPTY then e
      else
        let e = (if sig = SIGCONT then
                   (if p_status e = P_STOPPED then e\<lparr>p_status := P_READY, p_event := 0\<rparr> else e)
                     \<lparr>p_pending := p_pending e AND NOT stopper\<rparr>
                 else e);
            e = (if SIGSTOP \<le> sig \<and> sig \<le> SIGTTOU then e\<lparr>p_pending := p_pending e AND NOT (sigmask SIGCONT)\<rparr> else e)
        in if p_ignored e AND sigmask sig \<noteq> 0 then e
           else
             (if p_held e AND sigmask sig = 0
              then (if p_status e = P_SLEEP then e\<lparr>p_status := P_READY\<rparr> else e)\<lparr>p_wait := EvNull\<rparr> else e)
               \<lparr>p_pending := p_pending e OR sigmask sig\<rparr>)"

lemma ssig_signalled: "ptab (ssig p sig s) p = signalled sig (ptab s p)"
proof (cases "p_status (ptab s p) = P_EMPTY")
  case True
  then show ?thesis by (simp add: ssig_def signalled_def Let_def)
next
  case False
  define s1 where "s1 = (if sig = SIGCONT then
      let s = (if p_status (ptab s p) = P_STOPPED
               then upd_p p (\<lambda>e. e\<lparr>p_status := P_READY, p_event := 0\<rparr>) (s\<lparr>nready := nready s + 1\<rparr>) else s)
      in upd_p p (\<lambda>e. e\<lparr>p_pending := p_pending e AND NOT stopper\<rparr>) s else s)"
  define s2 where "s2 = (if SIGSTOP \<le> sig \<and> sig \<le> SIGTTOU
      then upd_p p (\<lambda>e. e\<lparr>p_pending := p_pending e AND NOT (sigmask SIGCONT)\<rparr>) s1 else s1)"
  let ?e = "ptab s p"
  have e1: "ptab s1 p = (if sig = SIGCONT then
      (if p_status ?e = P_STOPPED then ?e\<lparr>p_status := P_READY, p_event := 0\<rparr> else ?e)
        \<lparr>p_pending := p_pending ?e AND NOT stopper\<rparr> else ?e)"
    by (simp add: s1_def Let_def)
  have e2: "ptab s2 p = (if SIGSTOP \<le> sig \<and> sig \<le> SIGTTOU
      then (ptab s1 p)\<lparr>p_pending := p_pending (ptab s1 p) AND NOT (sigmask SIGCONT)\<rparr> else ptab s1 p)"
    by (simp add: s2_def)
  have "ptab (ssig p sig s) p = (if p_ignored (ptab s2 p) AND sigmask sig \<noteq> 0 then ptab s2 p
      else (if p_held (ptab s2 p) AND sigmask sig = 0
            then (if p_status (ptab s2 p) = P_SLEEP then (ptab s2 p)\<lparr>p_status := P_READY\<rparr> else ptab s2 p)\<lparr>p_wait := EvNull\<rparr>
            else ptab s2 p)\<lparr>p_pending := p_pending (ptab s2 p) OR sigmask sig\<rparr>)"
    unfolding ssig_def Let_def s1_def [unfolded Let_def, symmetric] s2_def [symmetric] using False by simp
  also have "\<dots> = signalled sig ?e"
    using False by (simp only: signalled_def Let_def e1 [symmetric] e2 [symmetric] if_False)
  finally show ?thesis .
qed

lemma kill_scan_spec:
  assumes "distinct ps"
  shows "\<exists>t. kill_scan ps sig f d s =
      ((f \<or> (\<exists>p \<in> set ps. kill_target (u_argn s) s p),
        d \<or> (\<exists>p \<in> set ps. kill_target (u_argn s) s p \<and> can_signal p s)), t)
    \<and> u_error t = u_error s
    \<and> ptab t = (\<lambda>q. if sig \<noteq> 0 \<and> q \<in> kill_chosen ps (u_argn s) s then signalled sig (ptab s q) else ptab s q)"
  using assms
proof (induction ps arbitrary: f d s)
  case Nil
  then show ?case by (auto simp: kill_chosen_can)
next
  case (Cons p ps)
  let ?hit = "kill_target (u_argn s) s" and ?u = "if sig \<noteq> 0 then ssig p sig s else s"
  have u: "u_argn ?u = u_argn s" "u_error ?u = u_error s" "kill_target pid ?u = kill_target pid s"
    "can_signal q ?u = can_signal q s" "q \<noteq> p \<Longrightarrow> ptab ?u q = ptab s q" for q pid
    by (auto intro!: ext)
  note step = kill_scan.simps(2) [of p ps sig f d s, folded kill_target_def]
  have ch: "kill_chosen qs pid ?u = kill_chosen qs pid s" for qs pid
    unfolding kill_chosen_can u(3,4) ..
  consider (no) "\<not> ?hit p" | (denied) "?hit p" "\<not> can_signal p s" | (first) "?hit p" "can_signal p s" "0 <s u_argn s"
    | (group) "?hit p" "can_signal p s" "\<not> 0 <s u_argn s" by blast
  then show ?case
  proof cases
    case no
    then have "kill_chosen (p # ps) (u_argn s) s = kill_chosen ps (u_argn s) s" by (auto simp: kill_chosen_can)
    then show ?thesis using Cons no by (simp add: step del: kill_scan.simps)
  next
    case denied
    then have "kill_chosen (p # ps) (u_argn s) s = kill_chosen ps (u_argn s) s" by (auto simp: kill_chosen_can)
    then show ?thesis using Cons.IH [of True d s] Cons.prems denied by (auto simp: step simp del: kill_scan.simps)
  next
    case first
    then have "kill_chosen (p # ps) (u_argn s) s = {p}" by (simp add: kill_chosen_can)
    then show ?thesis unfolding step using first by (auto simp: ssig_signalled fun_eq_iff Let_def)
  next
    case group
    obtain t where t: "kill_scan ps sig True True ?u = ((True, True), t)" "u_error t = u_error s"
      "ptab t = (\<lambda>q. if sig \<noteq> 0 \<and> q \<in> kill_chosen ps (u_argn s) s then signalled sig (ptab ?u q) else ptab ?u q)"
      using Cons.IH [of True True ?u] Cons.prems unfolding u(1,2) ch by auto
    have "p \<notin> kill_chosen ps (u_argn s) s" "kill_chosen (p # ps) (u_argn s) s = insert p (kill_chosen ps (u_argn s) s)"
      using group Cons.prems by (auto simp: kill_chosen_can)
    note ch = this
    have "ptab t = (\<lambda>q. if sig \<noteq> 0 \<and> q \<in> kill_chosen (p # ps) (u_argn s) s then signalled sig (ptab s q) else ptab s q)"
    proof (rule ext)
      fix q
      show "ptab t q = (if sig \<noteq> 0 \<and> q \<in> kill_chosen (p # ps) (u_argn s) s then signalled sig (ptab s q) else ptab s q)"
        unfolding t(3) using ch u(5) [of q] by (cases "q = p") (auto simp: ssig_signalled)
    qed
    then show ?thesis using group t(1,2) u(1) by (auto simp: step Let_def simp del: kill_scan.simps)
  qed
qed

definition kill_pid :: "kst \<Rightarrow> u16" where
  "kill_pid s = (if u_argn s = 0 then - p_pgrp (self s) else u_argn s)"

definition sig_valid :: "kst \<Rightarrow> bool" where
  "sig_valid s \<longleftrightarrow> \<not> (u_argn1 s <s 0 \<or> of_nat NSIGS \<le>s u_argn1 s)"

text \<open>C28: kill() reaches exactly the processes it may (\_kill()). It always returns. With a signal number in range it gives the
  signal to the first matching process of a positive id, or to every matching member of the group of a negative
  one (its own group for 0), of those with the caller's user id, or of all for the superuser; every other entry
  of the table is unchanged. It fails with EINVAL, ESRCH where nothing matches and EPERM where nothing matching
  may be signalled, and then no entry is changed at all.\<close>

theorem kill_reaches:
  "\<exists>t. u_kill s = Some (if sig_valid s \<and> kill_chosen [0..<ptab_end s] (kill_pid s) s \<noteq> {} then 0 else 0xFFFF, t)
    \<and> ptab t = (\<lambda>q. if sig_valid s \<and> u_argn1 s \<noteq> 0 \<and> q \<in> kill_chosen [0..<ptab_end s] (kill_pid s) s
                    then signalled (unat (u_argn1 s)) (ptab s q) else ptab s q)
    \<and> u_error t = (if \<not> sig_valid s then EINVAL else if kill_chosen [0..<ptab_end s] (kill_pid s) s \<noteq> {} then u_error s
                    else if \<exists>p < ptab_end s. kill_target (kill_pid s) s p then EPERM else ESRCH)"
proof (cases "sig_valid s")
  case False
  then show ?thesis by (auto simp: u_kill_def fail_def sig_valid_def)
next
  case True
  define u where "u = (if u_argn s = 0 then s\<lparr>u_argn := - p_pgrp (self s)\<rparr> else s)"
  have u: "u_argn u = kill_pid s" "ptab u = ptab s" "ptab_end u = ptab_end s" "u_error u = u_error s"
    "kill_target q u = kill_target q s" "can_signal p u = can_signal p s" for q p
    by (auto simp: u_def kill_pid_def kill_target_def can_signal_def super_def fun_eq_iff)
  have ch: "kill_chosen qs q u = kill_chosen qs q s" for qs q
    unfolding kill_chosen_can u(5,6) ..
  have ne: "kill_chosen ps q s \<noteq> {} \<longleftrightarrow> (\<exists>p \<in> set ps. kill_target q s p \<and> can_signal p s)" for ps q
    by (auto simp: kill_chosen_can find_None_iff split: option.splits)
  obtain t where t: "kill_scan [0..<ptab_end s] (unat (u_argn1 s)) False False u =
      ((\<exists>p \<in> set [0..<ptab_end s]. kill_target (kill_pid s) s p, kill_chosen [0..<ptab_end s] (kill_pid s) s \<noteq> {}), t)"
    "u_error t = u_error s"
    "ptab t = (\<lambda>q. if unat (u_argn1 s) \<noteq> 0 \<and> q \<in> kill_chosen [0..<ptab_end s] (kill_pid s) s
                  then signalled (unat (u_argn1 s)) (ptab s q) else ptab s q)"
    using kill_scan_spec [of "[0..<ptab_end s]" "unat (u_argn1 s)" False False u] unfolding u ch ne by auto
  have "u_kill s = (if kill_chosen [0..<ptab_end s] (kill_pid s) s \<noteq> {} then Some (0, t)
      else fail (if \<exists>p \<in> set [0..<ptab_end s]. kill_target (kill_pid s) s p then EPERM else ESRCH) t)"
    using True t(1) u(3) by (simp add: u_kill_def sig_valid_def Let_def u_def [symmetric])
  then show ?thesis using True t(2,3) by (auto simp: fail_def unat_eq_0)
qed

end
