(* ===== verification/TypeSpec.thy ===== *)
theory TypeSpec
  imports IoFrame ProcInv
begin

text \<open>
  The types of the file system's tables. HOL gives an array of the code the type of a list; that it keeps
  the length its declaration gives it, and that a table entry holding an inode carries the magic number
  by which the code recognises one, are invariants of every operation.
\<close>

definition inode_typed :: "cinode \<Rightarrow> bool" where
  "inode_typed c \<longleftrightarrow> length (i_addr (c_node c)) = 20 \<and> (c_refs c \<noteq> 0 \<or> c_num c \<noteq> 0 \<longrightarrow> c_magic c = CMAGIC)"

definition super_typed :: "filesys \<Rightarrow> bool" where
  "super_typed f \<longleftrightarrow> length (s_free f) = FILESYS_TABSIZE \<and> length (s_inode f) = FILESYS_TABSIZE"

definition typed :: "kst \<Rightarrow> bool" where
  "typed s \<longleftrightarrow> (\<forall>i. inode_typed (i_tab s i)) \<and> (\<forall>m. super_typed (fs_at s m))"

subsection \<open>Updates\<close>

lemma typed_upd_fs [simp]:
  "typed s \<Longrightarrow> \<forall>f. super_typed f \<longrightarrow> super_typed (g f) \<Longrightarrow> typed (upd_fs m g s)"
  by (simp add: typed_def upd_fs_def)

lemma typed_upd_i [simp]:
  "typed s \<Longrightarrow> \<forall>c. inode_typed c \<longrightarrow> inode_typed (f c) \<Longrightarrow> typed (upd_i i f s)"
  by (simp add: typed_def upd_i_def)

lemma typed_upd_node [simp]:
  "typed s \<Longrightarrow> \<forall>d. length (i_addr d) = 20 \<longrightarrow> length (i_addr (h d)) = 20 \<Longrightarrow> typed (upd_node i h s)"
  unfolding upd_node_def by (rule typed_upd_i) (auto simp: inode_typed_def)

lemma typed_simps [simp]:
  "typed (s\<lparr>u_error := e\<rparr>) = typed s" "typed (upd_b b k s) = typed s" "typed (upd_p p g s) = typed s"
  "typed (blkfromk bs b off s) = typed s" "typed (s\<lparr>nready := n\<rparr>) = typed s"
  by (simp_all add: typed_def upd_b_def upd_p_def blkfromk_def)

lemma typed_drop [simp]:
  "typed s \<Longrightarrow> c_refs (i_tab s i) \<noteq> 0 \<Longrightarrow> typed (upd_i i (\<lambda>c. c\<lparr>c_refs := c_refs c - 1\<rparr>) s)"
  by (auto simp: typed_def upd_i_def inode_typed_def)

lemma typed_core: "io_core t = io_core s \<Longrightarrow> typed t = typed s"
  using io_core_fields [of t s] by (simp add: typed_def)

lemmas typed_io = bread_core [THEN typed_core] bfree_core [THEN typed_core]
  brelse_core [THEN typed_core] bawrite_core [THEN typed_core] bufsync_core [THEN typed_core]

subsection \<open>The operations\<close>

lemma corrupt_fs_typed: "corrupt_fs d s = Some (r, t) \<Longrightarrow> typed s \<Longrightarrow> typed t"
  by (auto simp: corrupt_fs_def super_typed_def split: option.splits)

lemma getdev_typed: "getdev d s = Some (m, t) \<Longrightarrow> typed s \<Longrightarrow> typed t"
  by (auto simp: getdev_def super_typed_def split: option.splits if_splits)

lemma wr_inode_typed: "wr_inode i s = Some (r, t) \<Longrightarrow> typed s \<Longrightarrow> typed t"
  by (auto simp: wr_inode_def magic_def inode_typed_def bind_eq_Some_conv Let_def split: option.splits if_splits
      dest!: typed_io corrupt_fs_typed)


lemma sync_typed:
  assumes "sync s = Some (r, t)" "typed s" shows "typed t"
proof -
  have mount: "typed v" if "sync_mount m u = Some (x, v)" "typed u" for m u x v
    using that by (auto simp: sync_mount_def super_typed_def bind_eq_Some_conv Let_def split: option.splits if_splits
        dest!: typed_io)
  have ino: "typed v" if "sync_inode m u = Some (x, v)" "typed u" for m u x v
    using that by (auto simp: sync_inode_def inode_typed_def bind_eq_Some_conv split: if_splits dest!: wr_inode_typed)
  obtain u v where u: "for_each [0..<ITABSIZE] sync_inode s = Some ((), u)"
    and v: "for_each [0..<NMOUNTS] sync_mount u = Some ((), v)" and t: "bufsync v = Some (r, t)"
    using assms by (auto simp: sync_def bind_eq_Some_conv)
  have "typed u" by (rule for_each_inv [where I = typed, OF _ assms(2) u]) (auto dest: ino)
  then have "typed v" by (rule for_each_inv [where I = typed, OF _ _ v, rotated]) (auto dest: mount)
  then show ?thesis using t by (auto dest: typed_io)
qed

lemma alloc_corrupt_typed:
  "alloc_corrupt m s = Some (r, t) \<Longrightarrow> typed s \<Longrightarrow> typed t"
  "alloc_corrupt2 s = Some (r, t) \<Longrightarrow> typed s \<Longrightarrow> typed t"
  by (auto simp: alloc_corrupt_def alloc_corrupt2_def super_typed_def)

lemma refill_typed: "refill d m n s = Some (r, t) \<Longrightarrow> typed s \<Longrightarrow> typed t"
  by (auto simp: refill_def super_typed_def load_free_list_def bind_eq_Some_conv Let_def
      split: option.splits if_splits dest!: typed_io)

lemma zero_blk_typed: "zero_blk d n s = Some (r, t) \<Longrightarrow> typed s \<Longrightarrow> typed t"
  by (auto simp: zero_blk_def bind_eq_Some_conv Let_def split: option.splits if_splits dest!: typed_io)

lemma blk_alloc_typed: "blk_alloc d s = Some (r, t) \<Longrightarrow> typed s \<Longrightarrow> typed t"
  by (auto simp: blk_alloc_def super_typed_def bind_eq_Some_conv Let_def split: if_splits
      dest!: getdev_typed alloc_corrupt_typed refill_typed validblk_hull zero_blk_typed)

lemma spill_typed: "spill d m k s = Some (r, t) \<Longrightarrow> typed s \<Longrightarrow> typed t"
  by (auto simp: spill_def super_typed_def bind_eq_Some_conv Let_def split: option.splits if_splits dest!: typed_io)

lemma blk_free_typed: "blk_free d k s = Some (r, t) \<Longrightarrow> typed s \<Longrightarrow> typed t"
  by (auto simp: blk_free_def super_typed_def bind_eq_Some_conv Let_def split: if_splits
      dest!: getdev_typed validblk_hull spill_typed)

lemma take_inode_typed: "take_inode m s = Some (r, t) \<Longrightarrow> typed s \<Longrightarrow> typed t"
  by (auto simp: take_inode_def super_typed_def Let_def split: if_splits dest!: alloc_corrupt_typed)

lemma scan_block_length:
  "scan_block D blk js (k, tab) = (k', tab') \<Longrightarrow> length tab' = length tab"
  by (induction js arbitrary: k tab) (auto simp: Let_def split: if_splits)


lemma typed_scan [simp]:
  assumes "scan_block D blk js (k, s_inode (fs_at s m)) = (k', tab)" "typed s"
  shows "typed (upd_fs m (\<lambda>f. f\<lparr>s_inode := tab\<rparr>) s)"
proof -
  have "length tab = FILESYS_TABSIZE"
    using scan_block_length [OF assms(1)] assms(2) by (simp add: typed_def super_typed_def)
  then show ?thesis using assms(2) by (simp add: super_typed_def)
qed

lemma scan_blocks_typed: "scan_blocks d m ks k s = Some (r, t) \<Longrightarrow> typed s \<Longrightarrow> typed t"
proof (induction ks arbitrary: k s)
  case Nil
  then show ?case by simp
next
  case (Cons blk blks)
  obtain x u where u: "bread d (of_nat blk) False s = Some (x, u)"
    using Cons.prems(1) by (auto elim!: bind_SomeD)
  then have tu: "typed u" using Cons.prems(2) typed_io(1) by blast
  show ?case
  proof (cases x)
    case None
    then show ?thesis using Cons.prems u tu by auto
  next
    case (Some bp)
    obtain k' tab where sc: "scan_block (bf_data (bufpool u bp)) (of_nat blk) [0..<8] (k, s_inode (fs_at u m)) = (k', tab)"
      by fastforce
    let ?v = "upd_fs m (\<lambda>f. f\<lparr>s_inode := tab\<rparr>) u"
    obtain w where w: "brelse bp ?v = Some ((), w)"
      "(if k' = FILESYS_TABSIZE then Some (Some k', w) else scan_blocks d m blks k' w) = Some (r, t)"
      using Cons.prems(1) u Some sc by (auto elim!: bind_SomeD)
    have "typed w" using typed_io(3) [OF w(1)] typed_scan [OF sc tu] by simp
    then show ?thesis using w(2) Cons.IH by (auto split: if_splits)
  qed
qed

lemma i_alloc_typed: "i_alloc d s = Some (r, t) \<Longrightarrow> typed s \<Longrightarrow> typed t"
  by (auto simp: i_alloc_def super_typed_def bind_eq_Some_conv Let_def split: option.splits if_splits
      dest!: getdev_typed alloc_corrupt_typed take_inode_typed sync_typed scan_blocks_typed)

lemma i_free_typed: "i_free d i s = Some (r, t) \<Longrightarrow> typed s \<Longrightarrow> typed t"
  by (auto simp: i_free_def super_typed_def bind_eq_Some_conv Let_def split: if_splits dest!: getdev_typed)

lemma freeblk_typed: "freeblk d l k s = Some (r, t) \<Longrightarrow> typed s \<Longrightarrow> typed t"
proof (induction l arbitrary: k s r t)
  case 0
  then show ?case by (auto split: if_splits dest: blk_free_typed)
next
  case (Suc l)
  have loop: "typed v" if "for_each js (\<lambda>j s. freeblk d l (blk_entry (bf_data (bufpool s bp)) j) s) u = Some (x, v)"
      "typed u" for js bp u v x
    by (rule for_each_inv [where I = typed, OF _ that(2,1)]) (auto dest: Suc.IH)
  from Suc.prems show ?case
    by (auto simp: bind_eq_Some_conv split: option.splits if_splits
        dest!: typed_io corrupt_fs_typed blk_free_typed loop)
qed

lemma f_trunc_typed:
  assumes "f_trunc i s = Some (r, t)" "typed s" shows "typed t"
proof -
  have loop: "typed v" if "for_each js (\<lambda>j s. freeblk d 0 (i_addr (c_node (i_tab s i)) ! j) s) u = Some (x, v)"
      "typed u" for js d u v x
    by (rule for_each_inv [where I = typed, OF _ that(2,1)]) (auto dest: freeblk_typed simp del: freeblk.simps)
  from assms show ?thesis
    by (auto simp: f_trunc_def inode_typed_def bind_eq_Some_conv Let_def simp del: freeblk.simps split: if_splits
        dest!: freeblk_typed loop)
qed

lemma typed_set_addr [simp]: "typed s \<Longrightarrow> typed (set_addr i j nb s)"
  by (simp add: set_addr_def inode_typed_def)

lemma bmap_walk_typed: "bmap_walk ip d bn w shs nb s = Some (r, t) \<Longrightarrow> typed s \<Longrightarrow> typed t"
proof (induction shs arbitrary: w nb s)
  case Nil
  then show ?case by simp
next
  case (Cons sh shs)
  from Cons.prems show ?case
    by (auto simp: Let_def elim!: bind_SomeD split: option.splits if_splits
        dest!: typed_io corrupt_fs_typed blk_alloc_typed Cons.IH)
qed

lemma bmap_typed: "bmap ip bn w s = Some (r, t) \<Longrightarrow> typed s \<Longrightarrow> typed t"
  by (auto simp: bmap_def Let_def simp del: bmap_walk.simps elim!: bind_SomeD split: if_splits prod.splits
      dest!: blk_alloc_typed bmap_walk_typed)


lemma i_ref_typed [simp]: "typed s \<Longrightarrow> c_magic (i_tab s i) = CMAGIC \<Longrightarrow> typed (i_ref i s)"
  by (simp add: i_ref_def typed_def upd_i_def inode_typed_def)

lemma i_found_typed: "i_found new i s = Some (r, t) \<Longrightarrow> typed s \<Longrightarrow> c_magic (i_tab s i) = CMAGIC \<Longrightarrow> typed t"
  by (auto simp: i_found_def Let_def split: if_splits)

lemma i_find_magic:
  assumes "i_find d n s = Some i" "n \<noteq> 0" "typed s" shows "c_magic (i_tab s i) = CMAGIC"
  using first_index_Some [OF assms(1) [unfolded i_find_def]] assms(2,3) by (auto simp: typed_def inode_typed_def)

text \<open>Filling a table entry from the disk.\<close>

lemma typed_fill [simp]:
  assumes "typed s"
  shows "typed (upd_i i (\<lambda>c. c\<lparr>c_node := dinode_of bs\<rparr>) s)"
    "typed (upd_i i (\<lambda>c. c\<lparr>c_dev := d, c_num := n, c_magic := CMAGIC, c_flags := fl\<rparr>) s)"
    "c_magic (i_tab (upd_i i (\<lambda>c. c\<lparr>c_dev := d, c_num := n, c_magic := CMAGIC, c_flags := fl\<rparr>) s) i) = CMAGIC"
proof -
  have "length (i_addr (dinode_of bs)) = 20" by (simp add: dinode_of_def)
  then show "typed (upd_i i (\<lambda>c. c\<lparr>c_node := dinode_of bs\<rparr>) s)" using assms by (simp add: inode_typed_def)
  show "typed (upd_i i (\<lambda>c. c\<lparr>c_dev := d, c_num := n, c_magic := CMAGIC, c_flags := fl\<rparr>) s)"
    using assms by (simp add: inode_typed_def)
  show "c_magic (i_tab (upd_i i (\<lambda>c. c\<lparr>c_dev := d, c_num := n, c_magic := CMAGIC, c_flags := fl\<rparr>) s) i) = CMAGIC"
    by (simp add: upd_i_def)
qed

lemma i_open_typed:
  assumes "i_open d n s = Some (r, t)" "typed s" shows "typed t"
proof -
  obtain k u where u: "(if n = 0 then i_alloc d s else Some (n, s)) = Some (k, u)"
    and rest: "(if k = 0 then Some (None, u\<lparr>u_error := ENOSPC\<rparr>)
     else case fs_tab_get d u of
         None \<Rightarrow> panic ''read through NULL'' u
       | Some m \<Rightarrow>
           if k < ROOTINODE \<or> k \<ge> (s_isize (fs_at u m) - 2) * 8 then Some (None, u)
           else
             case i_find d k u of
               Some j \<Rightarrow> i_found (n = 0) j u
             | None \<Rightarrow>
                 case i_unused u of
                   None \<Rightarrow> Some (None, u\<lparr>u_error := ENFILE\<rparr>)
                 | Some j \<Rightarrow> do {
                     (r, s) \<leftarrow> bread d (inode_blk k) False u;
                     case r of
                       None \<Rightarrow> Some (None, s)
                     | Some bp \<Rightarrow> do {
                         let s = upd_i j (\<lambda>c. c\<lparr>c_node := dinode_of (get_bytes (bf_data (bufpool s bp)) (inode_off k) 64)\<rparr>) s;
                         (_, s) \<leftarrow> brelse bp s;
                         let s = upd_i j (\<lambda>c. c\<lparr>c_dev := d, c_num := k, c_magic := CMAGIC,
                                   c_flags := (if m_flags (fs_tab s m) AND MS_RDONLY \<noteq> 0 then CRDONLY else 0)\<rparr>) s;
                         i_found (n = 0) j s
                       }
                   }) = Some (r, t)"
    using assms(1) unfolding i_open_def validchk_def Let_def by (auto elim!: bind_SomeD split: if_splits)
  have tu: "typed u" using u assms(2) by (auto split: if_splits dest: i_alloc_typed)
  show ?thesis
  proof (cases "k = 0")
    case True
    then show ?thesis using rest tu by auto
  next
    case False
    note find = i_find_magic [OF _ False tu]
    show ?thesis
      using rest tu False find
      by (auto simp: Let_def elim!: bind_SomeD split: option.splits if_splits
          dest!: typed_io i_found_typed)
  qed
qed

lemma wakeup_tables [simp]: "i_tab (wakeup ev s) = i_tab s" "typed (wakeup ev s) = typed s"
  by (simp_all add: wakeup_eq typed_def)

lemma i_deref_typed: "i_deref i s = Some (r, t) \<Longrightarrow> typed s \<Longrightarrow> typed t"
  by (auto simp: i_deref_def magic_def inode_typed_def bind_eq_Some_conv Let_def split: if_splits
      dest!: f_trunc_typed i_free_typed wr_inode_typed)


subsection \<open>Runs of operations\<close>

inductive fs_op :: "kst \<Rightarrow> kst \<Rightarrow> bool" where
  open_inode: "i_open d n s = Some (r, t) \<Longrightarrow> fs_op s t"
| reference: "c_refs (i_tab s i) \<noteq> 0 \<Longrightarrow> fs_op s (i_ref i s)"
| deref: "i_deref i s = Some (u, t) \<Longrightarrow> fs_op s t"
| truncate: "f_trunc i s = Some (b, t) \<Longrightarrow> fs_op s t"
| block_map: "bmap i k w s = Some (k', t) \<Longrightarrow> fs_op s t"
| alloc_block: "blk_alloc d s = Some (k, t) \<Longrightarrow> fs_op s t"
| free_block: "blk_free d k s = Some (u, t) \<Longrightarrow> fs_op s t"
| alloc_inode: "i_alloc d s = Some (n, t) \<Longrightarrow> fs_op s t"
| free_inode: "i_free d n s = Some (u, t) \<Longrightarrow> fs_op s t"
| write_inode: "wr_inode i s = Some (u, t) \<Longrightarrow> fs_op s t"
| write_back: "sync s = Some (u, t) \<Longrightarrow> fs_op s t"
| read_block: "bread d k w s = Some (r', t) \<Longrightarrow> fs_op s t"
| free_buffer: "bfree b f s = Some (v, t) \<Longrightarrow> fs_op s t"

lemma typed_magic: "typed s \<Longrightarrow> c_refs (i_tab s i) \<noteq> 0 \<Longrightarrow> c_magic (i_tab s i) = CMAGIC"
  by (simp add: typed_def inode_typed_def)

lemma fs_op_typed: "fs_op s t \<Longrightarrow> typed s \<Longrightarrow> typed t"
  by (induction rule: fs_op.induct)
    (auto dest: i_open_typed i_deref_typed f_trunc_typed bmap_typed blk_alloc_typed blk_free_typed i_alloc_typed
      i_free_typed wr_inode_typed sync_typed typed_io intro: i_ref_typed typed_magic)



definition sample_node :: kst where
  "sample_node = sample\<lparr>i_tab := (\<lambda>_. sample_cinode\<lparr>c_magic := CMAGIC, c_num := 2, c_refs := 1\<rparr>)\<rparr>"


end
