(* ===== verification/Vt.thy ===== *)
theory Vt
  imports Tty UserMem
begin

text \<open>
  Kernel/vt.c: the VT52 terminal emulation of the consoles, with the character cell screen of
  CONFIG\_VT\_SIMPLE in the same file. What a platform's header defines (VT\_BASE, VT\_WIDTH, VT\_RIGHT,
  VT\_BOTTOM, VT\_MAP\_CHAR) is the record \<open>vt_cfg\<close>; do\_beep() is counted. Screen memory is a map of
  16-bit addresses. An echo that arrives from an interrupt while output is in progress only stores vtpend; the
  argument \<open>irqs\<close> gives, for each turn of the outer loop, the byte stored during it (0 for none).
\<close>

record vt_cfg =
  vt_base :: u16
  vt_width :: u16
  vt_right :: int
  vt_bottom :: int
  vt_map_char :: "u16 \<Rightarrow> u8"

record vt =
  vtmode :: u8
  vtattr :: u8
  vtink :: u8
  vtpaper :: u8
  cursorx :: u8
  cursory :: u8
  ncursory :: u8
  vtpend :: u8
  vtbusy :: u8
  cpos :: "u16 option"
  csave :: u8
  vram :: "u16 \<Rightarrow> u8"
  beeps :: nat

subsection \<open>The screen\<close>

definition char_addr :: "vt_cfg \<Rightarrow> u8 \<Rightarrow> u8 \<Rightarrow> u16" where
  "char_addr c y x = vt_base c + vt_width c * scast y + ucast x"

definition cursor_off :: "vt \<Rightarrow> vt" where
  "cursor_off s = (case cpos s of None \<Rightarrow> s | Some a \<Rightarrow> s\<lparr>vram := (vram s)(a := csave s)\<rparr>)"

definition cursor_on :: "vt_cfg \<Rightarrow> u8 \<Rightarrow> u8 \<Rightarrow> vt \<Rightarrow> vt" where
  "cursor_on c y x s =
     (let a = char_addr c y x
      in s\<lparr>cpos := Some a, csave := vram s a, vram := (vram s)(a := vt_map_char c 0x5F)\<rparr>)"

definition plot_char :: "vt_cfg \<Rightarrow> u8 \<Rightarrow> u8 \<Rightarrow> u16 \<Rightarrow> vt \<Rightarrow> vt" where
  "plot_char c y x ch s = s\<lparr>vram := (vram s)(char_addr c y x := vt_map_char c ch)\<rparr>"

definition vt_memset :: "u16 \<Rightarrow> nat \<Rightarrow> vt \<Rightarrow> vt" where
  "vt_memset a n s = s\<lparr>vram := put_range a (replicate n 0x20) (vram s)\<rparr>"

definition clear_lines :: "vt_cfg \<Rightarrow> u8 \<Rightarrow> u8 \<Rightarrow> vt \<Rightarrow> vt" where
  "clear_lines c y ct s = vt_memset (char_addr c y 0) (unat (scast ct * vt_width c)) s"

definition clear_across :: "vt_cfg \<Rightarrow> u8 \<Rightarrow> u8 \<Rightarrow> u16 \<Rightarrow> vt \<Rightarrow> vt" where
  "clear_across c y x l s = vt_memset (char_addr c y x) (unat l) s"

text \<open>memcpy() as the library of the Z80 build does it, from the lowest address up.\<close>

fun copy_up :: "u16 \<Rightarrow> u16 \<Rightarrow> nat \<Rightarrow> (u16 \<Rightarrow> u8) \<Rightarrow> (u16 \<Rightarrow> u8)" where
  "copy_up d a 0 m = m"
| "copy_up d a (Suc n) m = copy_up (d + 1) (a + 1) n (m(d := m a))"

definition scroll_up :: "vt_cfg \<Rightarrow> vt \<Rightarrow> vt" where
  "scroll_up c s = s\<lparr>vram := copy_up (vt_base c) (vt_base c + vt_width c)
     (unat (vt_width c * of_int (vt_bottom c))) (vram s)\<rparr>"

definition scroll_down :: "vt_cfg \<Rightarrow> vt \<Rightarrow> vt" where
  "scroll_down c s = s\<lparr>vram := copy_up (vt_base c + vt_width c) (vt_base c)
     (unat (vt_width c * of_int (vt_bottom c))) (vram s)\<rparr>"

subsection \<open>Characters\<close>

definition cursor_fix :: "vt_cfg \<Rightarrow> vt \<Rightarrow> vt" where
  "cursor_fix c s =
     (let s = (if cursorx s <s 0 then s\<lparr>cursorx := of_int (vt_right c), cursory := cursory s - 1\<rparr> else s);
          s = (if cursory s <s 0 then s\<lparr>cursory := 0\<rparr> else s);
          s = (if sint (cursorx s) > vt_right c then s\<lparr>cursorx := 0, cursory := cursory s + 1\<rparr> else s)
      in if sint (cursory s) > vt_bottom c
         then
           let s = clear_lines c (of_int (vt_bottom c)) 1 (scroll_up c s)
           in s\<lparr>cursory := cursory s - 1\<rparr>
         else s)"

text \<open>The end of charout(): the character goes to the screen.\<close>

definition charout_plain :: "vt_cfg \<Rightarrow> u8 \<Rightarrow> vt \<Rightarrow> vt" where
  "charout_plain c ch s =
     (let s = plot_char c (cursory s) (cursorx s) (ucast ch) s
      in cursor_fix c (s\<lparr>cursorx := cursorx s + 1\<rparr>))"

text \<open>The loop of the tab character.\<close>

partial_function (option) charout_tab :: "vt_cfg \<Rightarrow> vt \<Rightarrow> vt option" where
  "charout_tab c s =
     (let s = charout_plain c 0x20 s
      in if sint (cursorx s) mod 8 \<noteq> 0 then charout_tab c s else Some s)"

definition charout :: "vt_cfg \<Rightarrow> u8 \<Rightarrow> vt \<Rightarrow> vt option" where
  "charout c ch s =
     (if ch = 7 then Some (s\<lparr>beeps := beeps s + 1\<rparr>)
      else if ch = 8 then Some (cursor_fix c (s\<lparr>cursorx := cursorx s - 1\<rparr>))
      else if ch = 9 then do { s \<leftarrow> charout_tab c s; Some (cursor_fix c s) }
      else if ch = 10 then Some (cursor_fix c (s\<lparr>cursory := cursory s + 1\<rparr>))
      else if ch = 13 then Some (s\<lparr>cursorx := 0\<rparr>)
      else if ch = 0x1B then Some (s\<lparr>vtmode := 1\<rparr>)
      else Some (charout_plain c ch s))"

subsection \<open>Escape sequences\<close>

definition escout :: "vt_cfg \<Rightarrow> u8 \<Rightarrow> vt \<Rightarrow> u8 \<times> vt" where
  "escout c ch s =
     (if ch = 0x41 then (0, if cursory s \<noteq> 0 then s\<lparr>cursory := cursory s - 1\<rparr> else s)
      else if ch = 0x42 then (0, if sint (cursory s) < vt_bottom c then s\<lparr>cursory := cursory s + 1\<rparr> else s)
      else if ch = 0x43 then (0, if sint (cursorx s) < vt_right c then s\<lparr>cursorx := cursorx s + 1\<rparr> else s)
      else if ch = 0x44 then (0, if cursorx s \<noteq> 0 then s\<lparr>cursorx := cursorx s - 1\<rparr> else s)
      else if ch = 0x45 then (0, clear_lines c 0 (of_int (vt_bottom c + 1)) s)
      else if ch = 0x48 then (0, s\<lparr>cursorx := 0, cursory := 0\<rparr>)
      else if ch = 0x49 then
        (0, if cursory s \<noteq> 0 then s\<lparr>cursory := cursory s - 1\<rparr> else clear_lines c 0 1 (scroll_down c s))
      else if ch = 0x4A then
        (let s = clear_across c (cursory s) (cursorx s) (of_int (vt_right c - sint (cursorx s) + 1)) s
         in (0, clear_lines c (cursory s + 1) (of_int (vt_bottom c) - cursory s) s))
      else if ch = 0x4B then
        (0, clear_across c (cursory s) (cursorx s) (of_int (vt_right c - sint (cursorx s) + 1)) s)
      else if ch = 0x59 then (2, s)
      else if ch = 0x61 then (4, s)
      else if ch = 0x62 then (5, s)
      else if ch = 0x63 then (6, s)
      else (0, s))"

text \<open>One turn of the inner loop of vtoutput(). vtattr\_notify() does nothing here.\<close>

definition vt_byte :: "vt_cfg \<Rightarrow> u8 \<Rightarrow> vt \<Rightarrow> vt option" where
  "vt_byte c ch s =
     (if vtmode s = 0 then charout c ch s
      else if vtmode s = 1 then (let (m, s) = escout c ch s in Some (s\<lparr>vtmode := m\<rparr>))
      else if vtmode s = 2 then Some (s\<lparr>ncursory := ch - 0x20, vtmode := vtmode s + 1\<rparr>)
      else if vtmode s = 3 then
        (let n = uint ch - 0x20;
             s = (if 0 \<le>s ncursory s \<and> sint (ncursory s) \<le> vt_bottom c then s\<lparr>cursory := ncursory s\<rparr> else s);
             s = (if 0 \<le> n \<and> n \<le> vt_right c then s\<lparr>cursorx := of_int n\<rparr> else s)
         in Some (s\<lparr>vtmode := 0\<rparr>))
      else if vtmode s = 4 then Some (s\<lparr>vtattr := ch, vtmode := 0\<rparr>)
      else if vtmode s = 5 then Some (s\<lparr>vtink := ch, vtmode := 0\<rparr>)
      else if vtmode s = 6 then Some (s\<lparr>vtpaper := ch, vtmode := 0\<rparr>)
      else Some s)"

fun vt_bytes :: "vt_cfg \<Rightarrow> u8 list \<Rightarrow> vt \<Rightarrow> vt option" where
  "vt_bytes c [] s = Some s"
| "vt_bytes c (ch # chs) s = do { s \<leftarrow> vt_byte c ch s; vt_bytes c chs s }"

text \<open>The outer loop, which goes on until no echo has come in.\<close>

partial_function (option) vt_drain :: "vt_cfg \<Rightarrow> u8 list \<Rightarrow> u8 list \<Rightarrow> vt \<Rightarrow> vt option" where
  "vt_drain c irqs p s = do {
     s \<leftarrow> vt_bytes c p s;
     let s = (if irqs \<noteq> [] \<and> hd irqs \<noteq> 0 then s\<lparr>vtpend := hd irqs\<rparr> else s);
     let cq = vtpend s;
     let s = s\<lparr>vtpend := 0\<rparr>;
     if cq \<noteq> 0 then vt_drain c (tl irqs) [cq] s else Some s
   }"

text \<open>vtoutput(); with no byte at all the code would read beyond its argument when it is busy.\<close>

definition vtoutput :: "vt_cfg \<Rightarrow> u8 list \<Rightarrow> u8 list \<Rightarrow> vt \<Rightarrow> vt option" where
  "vtoutput c irqs p s =
     (if vtbusy s \<noteq> 0 then (if p = [] then None else Some (s\<lparr>vtpend := hd p\<rparr>))
      else do {
        let s = cursor_off (s\<lparr>vtbusy := 1\<rparr>);
        s \<leftarrow> vt_drain c irqs p s;
        Some ((cursor_on c (cursory s) (cursorx s) s)\<lparr>vtbusy := 0\<rparr>)
      })"

definition vtinit :: "vt_cfg \<Rightarrow> vt \<Rightarrow> vt" where
  "vtinit c s = cursor_on c 0 0 (clear_lines c 0 (of_int (vt_bottom c + 1)) (s\<lparr>vtmode := 0\<rparr>))"

subsection \<open>Switching consoles\<close>

record vt_switch =
  sv_mode :: u8
  sv_attr :: u8
  sv_cursorx :: u8
  sv_cursory :: u8
  sv_ncursory :: u8

definition vt_save :: "vt \<Rightarrow> vt_switch" where
  "vt_save s = \<lparr>sv_mode = vtmode s, sv_attr = vtattr s, sv_cursorx = cursorx s, sv_cursory = cursory s,
     sv_ncursory = ncursory s\<rparr>"

definition vt_load :: "vt_switch \<Rightarrow> vt \<Rightarrow> vt" where
  "vt_load v s = s\<lparr>vtmode := sv_mode v, vtattr := sv_attr v, cursorx := sv_cursorx v, cursory := sv_cursory v,
     ncursory := sv_ncursory v\<rparr>"

subsection \<open>The keyboard and control\<close>

text \<open>Function keys (codes above 0x9F) are sent as an escape sequence; KEY\_ESC is 0x1B.\<close>

definition vt_inproc ::
  "(kst \<Rightarrow> kst option) \<Rightarrow> (nat \<Rightarrow> kst \<Rightarrow> u8 \<times> kst) \<Rightarrow> nat \<Rightarrow> u8 \<Rightarrow> kst \<Rightarrow> (u8 \<times> kst) option" where
  "vt_inproc sw rdy m ch s =
     (if ch > 0x9F then do {
        (_, s) \<leftarrow> tty_inproc sw rdy m 0x1B s;
        tty_inproc sw rdy m (ch AND 0x7F) s
      } else tty_inproc sw rdy m ch s)"

abbreviation (input) VTSIZE :: u16 where "VTSIZE \<equiv> 0x22"
abbreviation (input) VTATTRS :: u16 where "VTATTRS \<equiv> 0x24"

definition vt_ioctl :: "vt_cfg \<Rightarrow> nat \<Rightarrow> u8 \<Rightarrow> nat \<Rightarrow> u16 \<Rightarrow> u16 \<Rightarrow> kst \<Rightarrow> u16 \<times> kst" where
  "vt_ioctl c max_vt attr_cap m request data s =
     (if m \<le> max_vt \<and> request = VTSIZE then (push_bit 8 (of_int (vt_bottom c + 1)) OR of_int (vt_right c + 1), s)
      else if m \<le> max_vt \<and> request = VTATTRS then (ucast attr_cap, s)
      else tty_ioctl m request data s)"

end
