(* ===== verification/VtSpec.thy ===== *)
theory VtSpec
  imports Vt
begin

text \<open>
  The terminal emulation stays on its screen: whatever bytes come in, the cursor is a cell of the screen, and memory
  outside the screen is not written.
\<close>

subsection \<open>Small signed numbers\<close>

lemma sint_byte: "- 128 \<le> k \<Longrightarrow> k < 128 \<Longrightarrow> sint (of_int k :: u8) = k"
  by (simp add: signed_of_int signed_take_bit_int_eq_self_iff)

lemma byte_sint: "(of_int (sint x) :: u8) = x"
  by simp

lemma sint_step:
  fixes x :: u8
  shows "sint x < 127 \<Longrightarrow> sint (x + 1) = sint x + 1" "- 128 < sint x \<Longrightarrow> sint (x - 1) = sint x - 1"
proof -
  have r: "- 128 \<le> sint x" "sint x < 128" using sint_range_size [of x] by (simp_all add: word_size)
  have "sint (x + 1) = sint (of_int (sint x + 1) :: u8)" "sint (x - 1) = sint (of_int (sint x - 1) :: u8)" by simp_all
  then show "sint x < 127 \<Longrightarrow> sint (x + 1) = sint x + 1" "- 128 < sint x \<Longrightarrow> sint (x - 1) = sint x - 1"
    using r sint_byte [of "sint x + 1"] sint_byte [of "sint x - 1"] by linarith+
qed

lemma uint_byte: "0 \<le> sint x \<Longrightarrow> uint (x :: u8) = sint x"
  using uint_sint [of x] sint_range_size [of x] by (simp add: word_size take_bit_int_eq_self)

lemma uint_short: "0 \<le> k \<Longrightarrow> k < 65536 \<Longrightarrow> uint (of_int k :: u16) = k"
  by (simp add: unsigned_of_int take_bit_int_eq_self)

lemma scast_short: "(scast (x :: u8) :: u16) = of_int (sint x)"
  by (rule scast_eq)

lemma ucast_short: "(ucast (x :: u8) :: u16) = of_int (uint x)"
  by (rule ucast_eq)

subsection \<open>The screen in memory\<close>

definition vt_cfg_ok :: "vt_cfg \<Rightarrow> bool" where
  "vt_cfg_ok c \<longleftrightarrow> 0 \<le> vt_right c \<and> vt_right c < 127 \<and> 0 \<le> vt_bottom c \<and> vt_bottom c < 127
     \<and> vt_right c < uint (vt_width c) \<and> uint (vt_base c) + uint (vt_width c) * (vt_bottom c + 1) < 65536"

text \<open>The addresses of the screen, its line \<open>y\<close> and column \<open>x\<close>.\<close>

definition screen :: "vt_cfg \<Rightarrow> u16 set" where
  "screen c = {a. uint (vt_base c) \<le> uint a \<and> uint a < uint (vt_base c) + uint (vt_width c) * (vt_bottom c + 1)}"

definition cell :: "vt_cfg \<Rightarrow> int \<Rightarrow> int \<Rightarrow> int" where
  "cell c y x = uint (vt_base c) + uint (vt_width c) * y + x"

lemma cell_bounds:
  assumes "vt_cfg_ok c" "0 \<le> y" "y \<le> vt_bottom c" "0 \<le> x" "x \<le> vt_right c + 1"
  shows "uint (vt_base c) \<le> cell c y x" "cell c y x \<le> uint (vt_base c) + uint (vt_width c) * (vt_bottom c + 1)"
proof -
  have "0 \<le> uint (vt_width c) * y" using assms by simp
  then show "uint (vt_base c) \<le> cell c y x" using assms by (simp add: cell_def)
  have "uint (vt_width c) * (y + 1) \<le> uint (vt_width c) * (vt_bottom c + 1)"
    using assms by (intro mult_left_mono) auto
  moreover have "uint (vt_width c) * (y + 1) = uint (vt_width c) * y + uint (vt_width c)" by (simp add: distrib_left)
  moreover have "x \<le> uint (vt_width c)" using assms by (simp add: vt_cfg_ok_def)
  ultimately show "cell c y x \<le> uint (vt_base c) + uint (vt_width c) * (vt_bottom c + 1)"
    unfolding cell_def by linarith
qed

lemma char_addr_cell:
  assumes "vt_cfg_ok c" "0 \<le> sint y" "sint y \<le> vt_bottom c" "0 \<le> sint x" "sint x \<le> vt_right c"
  shows "uint (char_addr c y x) = cell c (sint y) (sint x)"
proof -
  have "char_addr c y x = of_int (cell c (sint y) (sint x))"
    by (simp only: char_addr_def cell_def scast_short ucast_short of_int_add of_int_mult word_of_int_uint
        uint_byte [OF assms(4)])
  moreover have "uint (vt_base c) \<le> cell c (sint y) (sint x)"
      "cell c (sint y) (sint x) \<le> uint (vt_base c) + uint (vt_width c) * (vt_bottom c + 1)"
    using cell_bounds [of c "sint y" "sint x"] assms by auto
  then have "0 \<le> cell c (sint y) (sint x)" "cell c (sint y) (sint x) < 65536"
    using assms(1) uint_nonnegative [of "vt_base c"] unfolding vt_cfg_ok_def by linarith+
  ultimately show ?thesis using uint_short by metis
qed

lemma near:
  assumes "unat (x - a) < n" "uint a + int n \<le> 65536"
  shows "uint a \<le> uint (x :: u16)" "uint x < uint a + int n"
proof -
  have i: "uint y = int (unat y)" for y :: u16 by simp
  have *: "uint a \<le> uint x \<and> uint x < uint a + int n"
  proof (cases "a \<le> x")
    case True
    then have "unat (x - a) = unat x - unat a" "unat a \<le> unat x" by (simp_all add: unat_sub word_le_nat_alt)
    then show ?thesis using assms(1) unfolding i by linarith
  next
    case False
    then have "unat x < unat a" by unat_arith
    then have "unat (x - a) = unat x + 65536 - unat a"
      using u16_bound [of a] by (simp add: unat_sub_if_size word_size)
    then show ?thesis using assms unfolding i by linarith
  qed
  then show "uint a \<le> uint x" "uint x < uint a + int n" by simp_all
qed

subsection \<open>Writes stay inside\<close>

definition inside :: "vt_cfg \<Rightarrow> vt \<Rightarrow> vt \<Rightarrow> bool" where
  "inside c s t \<longleftrightarrow> (\<forall>a. a \<notin> screen c \<longrightarrow> vram t a = vram s a)"

text \<open>The range of \<open>n\<close> cells from address \<open>a\<close> is on the screen.\<close>

definition fits :: "vt_cfg \<Rightarrow> u16 \<Rightarrow> nat \<Rightarrow> bool" where
  "fits c a n \<longleftrightarrow> n = 0 \<or> uint (vt_base c) \<le> uint a \<and> uint a + int n \<le> uint (vt_base c) + uint (vt_width c) * (vt_bottom c + 1)"

lemma fits_near:
  assumes "vt_cfg_ok c" "fits c a n" "x \<notin> screen c"
  shows "n \<le> unat (x - a)"
proof (rule ccontr)
  assume "\<not> n \<le> unat (x - a)"
  then show False using near [of x a n] assms by (auto simp: fits_def screen_def vt_cfg_ok_def)
qed

lemma copy_up_other: "n \<le> unat (x - d) \<Longrightarrow> n \<le> 65536 \<Longrightarrow> copy_up d a n m x = m x"
proof (induction n arbitrary: d a m)
  case 0
  then show ?case by simp
next
  case (Suc n)
  then have ne: "x \<noteq> d" by auto
  have "x - (d + 1) = (x - d) - 1" by simp
  then have "unat (x - (d + 1)) = unat (x - d) - 1"
    using unat_dec [of "x - d"] ne by (simp only: right_minus_eq not_False_eq_True simp_thms)
  then show ?case using Suc ne by simp
qed

lemma vt_memset_inside:
  assumes "vt_cfg_ok c" "fits c a n" shows "inside c s (vt_memset a n s)"
  using fits_near [OF assms] by (simp add: inside_def vt_memset_def put_range_outside)

lemma write_inside: "a \<in> screen c \<Longrightarrow> inside c s (s\<lparr>vram := (vram s)(a := v)\<rparr>)"
  by (auto simp: inside_def)

lemma inside_trans: "inside c s t \<Longrightarrow> inside c t u \<Longrightarrow> inside c s u"
  by (simp add: inside_def)

definition on_screen :: "vt_cfg \<Rightarrow> vt \<Rightarrow> bool" where
  "on_screen c s \<longleftrightarrow> 0 \<le> sint (cursorx s) \<and> sint (cursorx s) \<le> vt_right c
     \<and> 0 \<le> sint (cursory s) \<and> sint (cursory s) \<le> vt_bottom c \<and> set_option (cpos s) \<subseteq> screen c"

lemma char_addr_screen:
  assumes "vt_cfg_ok c" "0 \<le> sint y" "sint y \<le> vt_bottom c" "0 \<le> sint x" "sint x \<le> vt_right c"
  shows "char_addr c y x \<in> screen c"
proof -
  have "uint (vt_base c) \<le> cell c (sint y) (sint x)" using cell_bounds(1) [OF assms(1-4)] assms(5) by simp
  moreover have "cell c (sint y) (sint x + 1) \<le> uint (vt_base c) + uint (vt_width c) * (vt_bottom c + 1)"
    using cell_bounds(2) [of c "sint y" "sint x + 1"] assms by simp
  ultimately show ?thesis using char_addr_cell [OF assms] by (simp add: screen_def cell_def)
qed

lemma clear_lines_inside:
  assumes ok: "vt_cfg_ok c" and y: "0 \<le> sint y" and ct: "0 \<le> sint ct" "sint y + sint ct \<le> vt_bottom c + 1"
  shows "inside c s (clear_lines c y ct s)"
proof -
  let ?w = "uint (vt_width c)"
  have le: "?w * (sint y + sint ct) \<le> ?w * (vt_bottom c + 1)" using ct by (intro mult_left_mono) auto
  have pos: "0 \<le> ?w * sint y" "0 \<le> ?w * sint ct" using y ct by simp_all
  have dist: "?w * (sint y + sint ct) = ?w * sint y + ?w * sint ct" by (simp add: distrib_left)
  have "(scast ct * vt_width c :: u16) = of_int (?w * sint ct)"
    by (simp only: scast_short of_int_mult word_of_int_uint mult.commute)
  moreover have "?w * sint ct < 65536"
    using le pos dist ok uint_nonnegative [of "vt_base c"] unfolding vt_cfg_ok_def by linarith
  ultimately have n: "int (unat (scast ct * vt_width c :: u16)) = ?w * sint ct"
    using pos uint_short [of "?w * sint ct"] by (simp add: ac_simps)
  have "fits c (char_addr c y 0) (unat (scast ct * vt_width c))"
  proof (cases "sint ct = 0")
    case True
    then show ?thesis using n unfolding fits_def by (metis mult_zero_right of_nat_eq_0_iff)
  next
    case False
    then have "uint (char_addr c y 0) = cell c (sint y) 0"
      using char_addr_cell [OF ok y, of 0] ct ok by (simp add: vt_cfg_ok_def)
    then show ?thesis unfolding fits_def n using le dist pos by (simp add: cell_def)
  qed
  then show ?thesis unfolding clear_lines_def by (rule vt_memset_inside [OF ok])
qed

lemma clear_across_inside:
  assumes ok: "vt_cfg_ok c" and s: "on_screen c s"
  shows "inside c s (clear_across c (cursory s) (cursorx s) (of_int (vt_right c - sint (cursorx s) + 1)) s)"
proof -
  let ?x = "sint (cursorx s)" and ?y = "sint (cursory s)"
  have r: "0 \<le> ?x" "?x \<le> vt_right c" "0 \<le> ?y" "?y \<le> vt_bottom c" using s by (simp_all add: on_screen_def)
  have n: "int (unat (of_int (vt_right c - ?x + 1) :: u16)) = vt_right c - ?x + 1"
    using uint_short [of "vt_right c - ?x + 1"] r ok by (simp add: vt_cfg_ok_def)
  have "cell c ?y (vt_right c + 1) \<le> uint (vt_base c) + uint (vt_width c) * (vt_bottom c + 1)"
    "uint (vt_base c) \<le> cell c ?y ?x"
    using cell_bounds [OF ok r(3,4)] r by auto
  then have "fits c (char_addr c (cursory s) (cursorx s)) (unat (of_int (vt_right c - ?x + 1) :: u16))"
    unfolding fits_def n char_addr_cell [OF ok r(3,4,1,2)] by (simp add: cell_def)
  then show ?thesis unfolding clear_across_def by (rule vt_memset_inside [OF ok])
qed

lemma scroll_inside:
  assumes ok: "vt_cfg_ok c" shows "inside c s (scroll_up c s)" "inside c s (scroll_down c s)"
proof -
  let ?w = "uint (vt_width c)" and ?n = "unat (vt_width c * of_int (vt_bottom c))"
  have pos: "0 \<le> ?w * vt_bottom c" using ok by (simp add: vt_cfg_ok_def)
  have dist: "?w * (vt_bottom c + 1) = ?w * vt_bottom c + ?w" by (simp add: distrib_left)
  have lt: "uint (vt_base c) + (?w * vt_bottom c + ?w) < 65536" using ok dist by (simp add: vt_cfg_ok_def)
  have "vt_width c * of_int (vt_bottom c) = of_int (?w * vt_bottom c)"
    by (simp only: of_int_mult word_of_int_uint)
  then have n: "int ?n = ?w * vt_bottom c"
    using pos lt uint_short [of "?w * vt_bottom c"] uint_nonnegative [of "vt_base c"] uint_nonnegative [of "vt_width c"] by simp
  have "vt_base c + vt_width c = of_int (uint (vt_base c) + ?w)"
    by (simp only: of_int_add word_of_int_uint)
  then have b: "uint (vt_base c + vt_width c) = uint (vt_base c) + ?w"
    using pos lt uint_short [of "uint (vt_base c) + ?w"] uint_nonnegative [of "vt_base c"] uint_nonnegative [of "vt_width c"] by simp
  have "fits c (vt_base c) ?n" "fits c (vt_base c + vt_width c) ?n"
    unfolding fits_def n b dist using uint_nonnegative [of "vt_width c"] by auto
  moreover have "?n \<le> 65536" using u16_bound [of "vt_width c * of_int (vt_bottom c)"] by simp
  ultimately show "inside c s (scroll_up c s)" "inside c s (scroll_down c s)"
    using fits_near [OF ok] by (simp_all add: inside_def scroll_up_def scroll_down_def copy_up_other)
qed

subsection \<open>Every byte keeps the cursor on the screen\<close>

lemma plot_inside:
  assumes "vt_cfg_ok c" "on_screen c s"
  shows "inside c s (plot_char c (cursory s) (cursorx s) ch s)" "char_addr c (cursory s) (cursorx s) \<in> screen c"
proof -
  show a: "char_addr c (cursory s) (cursorx s) \<in> screen c"
    using assms by (intro char_addr_screen) (simp_all add: on_screen_def)
  show "inside c s (plot_char c (cursory s) (cursorx s) ch s)"
    unfolding plot_char_def by (rule write_inside [OF a])
qed

text \<open>What a step leaves: the cursor on the screen, no write outside it, and the state of the echo queue.\<close>

definition vt_kept :: "vt_cfg \<Rightarrow> vt \<Rightarrow> vt \<Rightarrow> bool" where
  "vt_kept c s t \<longleftrightarrow> on_screen c t \<and> inside c s t \<and> vtpend t = vtpend s"

lemma vt_kept_trans: "vt_kept c s t \<Longrightarrow> vt_kept c t u \<Longrightarrow> vt_kept c s u"
  by (auto simp: vt_kept_def intro: inside_trans)

lemma screen_ops [simp]:
  "cursorx (clear_lines c y ct s) = cursorx s" "cursory (clear_lines c y ct s) = cursory s"
  "cpos (clear_lines c y ct s) = cpos s" "vtpend (clear_lines c y ct s) = vtpend s"
  "cursorx (clear_across c y x l s) = cursorx s" "cursory (clear_across c y x l s) = cursory s"
  "cpos (clear_across c y x l s) = cpos s" "vtpend (clear_across c y x l s) = vtpend s"
  "cursorx (scroll_up c s) = cursorx s" "cursory (scroll_up c s) = cursory s"
  "cpos (scroll_up c s) = cpos s" "vtpend (scroll_up c s) = vtpend s"
  "cursorx (scroll_down c s) = cursorx s" "cursory (scroll_down c s) = cursory s"
  "cpos (scroll_down c s) = cpos s" "vtpend (scroll_down c s) = vtpend s"
  "cursorx (plot_char c y x ch s) = cursorx s" "cursory (plot_char c y x ch s) = cursory s"
  "cpos (plot_char c y x ch s) = cpos s" "vtpend (plot_char c y x ch s) = vtpend s"
  by (simp_all add: clear_lines_def clear_across_def scroll_up_def scroll_down_def plot_char_def vt_memset_def)

lemma inside_vram: "vram t = vram u \<Longrightarrow> inside c s t = inside c s u" "vram s = vram u \<Longrightarrow> inside c s t = inside c u t"
  by (simp_all add: inside_def)

lemma edge:
  assumes "vt_cfg_ok c"
  shows "sint (of_int (vt_right c) :: u8) = vt_right c" "sint (of_int (vt_bottom c) :: u8) = vt_bottom c"
  using assms by (auto simp: vt_cfg_ok_def intro!: sint_byte)

lemma cursor_fix_kept:
  assumes ok: "vt_cfg_ok c" and cp: "set_option (cpos s) \<subseteq> screen c"
    and x: "- 1 \<le> sint (cursorx s)" "sint (cursorx s) \<le> vt_right c + 1"
    and y: "0 \<le> sint (cursory s)" "sint (cursory s) \<le> vt_bottom c + 1"
    and one: "sint (cursorx s) \<le> vt_right c \<and> 0 \<le> sint (cursorx s) \<or> sint (cursory s) \<le> vt_bottom c"
  shows "vt_kept c s (cursor_fix c s)"
proof -
  have r: "vt_right c < 127" "vt_bottom c < 127" "0 \<le> vt_right c" "0 \<le> vt_bottom c"
    using ok by (simp_all add: vt_cfg_ok_def)
  define a where "a = (if cursorx s <s 0 then s\<lparr>cursorx := of_int (vt_right c), cursory := cursory s - 1\<rparr> else s)"
  define b where "b = (if cursory a <s 0 then a\<lparr>cursory := 0\<rparr> else a)"
  define d where "d = (if sint (cursorx b) > vt_right c then b\<lparr>cursorx := 0, cursory := cursory b + 1\<rparr> else b)"
  have fix_eq: "cursor_fix c s = (if sint (cursory d) > vt_bottom c
      then (let s = clear_lines c (of_int (vt_bottom c)) 1 (scroll_up c d) in s\<lparr>cursory := cursory s - 1\<rparr>) else d)"
    by (simp only: cursor_fix_def a_def b_def d_def Let_def)
  have rest: "vram d = vram s" "cpos d = cpos s" "vtpend d = vtpend s" by (simp_all add: d_def b_def a_def)
  have "sint (cursorx b) = (if sint (cursorx s) < 0 then vt_right c else sint (cursorx s))"
    using edge [OF ok] by (simp add: b_def a_def word_sless_alt)
  moreover have "0 \<le> sint (cursory b)" "sint (cursory b) \<le> vt_bottom c + 1"
      "sint (cursory b) \<le> vt_bottom c \<or> 0 \<le> sint (cursorx s) \<and> sint (cursorx s) \<le> vt_right c"
    using y one sint_step(2) [of "cursory s"] r by (auto simp: b_def a_def word_sless_alt)
  ultimately have d: "0 \<le> sint (cursorx d)" "sint (cursorx d) \<le> vt_right c" "0 \<le> sint (cursory d)"
      "sint (cursory d) \<le> vt_bottom c + 1"
    using x r sint_step(1) [of "cursory b"] by (auto simp: d_def)
  show ?thesis
  proof (cases "sint (cursory d) > vt_bottom c")
    case False
    then show ?thesis using d cp rest unfolding fix_eq by (simp add: vt_kept_def on_screen_def inside_def)
  next
    case True
    then have y: "sint (cursory d - 1) = vt_bottom c" using d(4) r sint_step(2) [of "cursory d"] by simp
    have "inside c (scroll_up c d) (clear_lines c (of_int (vt_bottom c)) 1 (scroll_up c d))"
      using edge [OF ok] r by (intro clear_lines_inside [OF ok]) simp_all
    then have "inside c d (clear_lines c (of_int (vt_bottom c)) 1 (scroll_up c d))"
      by (rule inside_trans [OF scroll_inside(1) [OF ok]])
    then show ?thesis using True d y cp rest r unfolding fix_eq
      by (simp add: vt_kept_def on_screen_def inside_def Let_def)
  qed
qed

lemma screen_vt_kept:
  "on_screen c s \<Longrightarrow> vt_kept c s s"
  "vt_kept c s t \<Longrightarrow> vt_kept c s (t\<lparr>vtmode := m\<rparr>)"
  by (simp_all add: vt_kept_def on_screen_def inside_def)

lemma charout_plain_kept:
  assumes ok: "vt_cfg_ok c" and s: "on_screen c s"
  shows "vt_kept c s (charout_plain c ch s)"
    "sint (cursorx (charout_plain c ch s)) = (if sint (cursorx s) < vt_right c then sint (cursorx s) + 1 else 0)"
proof -
  let ?p = "plot_char c (cursory s) (cursorx s) (ucast ch) s"
  let ?q = "?p\<lparr>cursorx := cursorx s + 1\<rparr>"
  have x: "sint (cursorx s + 1) = sint (cursorx s) + 1" using s ok by (intro sint_step) (auto simp: on_screen_def vt_cfg_ok_def)
  have f: "charout_plain c ch s = cursor_fix c ?q" by (simp add: charout_plain_def Let_def)
  have "vt_kept c ?q (cursor_fix c ?q)"
    by (rule cursor_fix_kept [OF ok]) (use s x in \<open>auto simp: on_screen_def\<close>)
  then show "vt_kept c s (charout_plain c ch s)"
    using plot_inside(1) [OF ok s] unfolding f by (auto simp: vt_kept_def inside_def)
  show "sint (cursorx (charout_plain c ch s)) = (if sint (cursorx s) < vt_right c then sint (cursorx s) + 1 else 0)"
    using s x unfolding f by (auto simp: cursor_fix_def Let_def on_screen_def word_sless_alt)
qed

lemma charout_tab_kept:
  assumes ok: "vt_cfg_ok c"
  shows "on_screen c s \<Longrightarrow> \<exists>t. charout_tab c s = Some t \<and> vt_kept c s t"
proof (induction "nat (vt_right c - sint (cursorx s))" arbitrary: s rule: less_induct)
  case less
  let ?p = "charout_plain c 0x20 s"
  note p = charout_plain_kept [OF ok less.prems, of "0x20"]
  show ?case
  proof (cases "sint (cursorx ?p) mod 8 = 0")
    case True
    then show ?thesis using p(1) by (subst charout_tab.simps) (simp add: Let_def)
  next
    case False
    then have "sint (cursorx ?p) = sint (cursorx s) + 1" "sint (cursorx s) < vt_right c"
      using p(2) by (auto split: if_splits)
    moreover have "on_screen c ?p" using p(1) by (simp add: vt_kept_def)
    ultimately obtain t where "charout_tab c ?p = Some t" "vt_kept c ?p t"
      using less.hyps [of ?p] by auto
    then show ?thesis using False vt_kept_trans [OF p(1)] by (subst charout_tab.simps) (auto simp: Let_def)
  qed
qed

lemma moved_kept:
  assumes ok: "vt_cfg_ok c" and s: "on_screen c s"
  shows "vt_kept c s (cursor_fix c s)" "vt_kept c s (cursor_fix c (s\<lparr>cursorx := cursorx s - 1\<rparr>))"
    "vt_kept c s (cursor_fix c (s\<lparr>cursory := cursory s + 1\<rparr>))"
proof -
  have r: "0 \<le> sint (cursorx s)" "sint (cursorx s) < 127" "0 \<le> sint (cursory s)" "sint (cursory s) < 127"
    using s ok by (auto simp: on_screen_def vt_cfg_ok_def)
  have i: "vt_kept c (s\<lparr>cursorx := x, cursory := y\<rparr>) t = vt_kept c s t" for x y t
    by (simp add: vt_kept_def inside_def)
  have "vt_kept c (s\<lparr>cursorx := cursorx s - 1, cursory := cursory s\<rparr>)
      (cursor_fix c (s\<lparr>cursorx := cursorx s - 1, cursory := cursory s\<rparr>))"
    using s sint_step(2) [of "cursorx s"] r by (intro cursor_fix_kept [OF ok]) (auto simp: on_screen_def)
  then show "vt_kept c s (cursor_fix c (s\<lparr>cursorx := cursorx s - 1\<rparr>))" unfolding i by simp
  have "vt_kept c (s\<lparr>cursorx := cursorx s, cursory := cursory s + 1\<rparr>)
      (cursor_fix c (s\<lparr>cursorx := cursorx s, cursory := cursory s + 1\<rparr>))"
    using s sint_step(1) [of "cursory s"] r by (intro cursor_fix_kept [OF ok]) (auto simp: on_screen_def)
  then show "vt_kept c s (cursor_fix c (s\<lparr>cursory := cursory s + 1\<rparr>))" unfolding i by simp
  show "vt_kept c s (cursor_fix c s)"
    using s by (intro cursor_fix_kept [OF ok]) (auto simp: on_screen_def)
qed

lemma charout_kept:
  assumes ok: "vt_cfg_ok c" and s: "on_screen c s"
  shows "\<exists>t. charout c ch s = Some t \<and> vt_kept c s t"
proof -
  obtain t where t: "charout_tab c s = Some t" "vt_kept c s t" using charout_tab_kept [OF ok s] by blast
  then have "vt_kept c s (cursor_fix c t)" using moved_kept(1) [OF ok] vt_kept_trans by (metis vt_kept_def)
  moreover have "vt_kept c s (s\<lparr>cursorx := 0\<rparr>)" "vt_kept c s (s\<lparr>vtmode := 1\<rparr>)" "vt_kept c s (s\<lparr>beeps := beeps s + 1\<rparr>)"
    using s ok by (auto simp: vt_kept_def on_screen_def inside_def vt_cfg_ok_def)
  ultimately show ?thesis
    using t moved_kept(2,3) [OF ok s] charout_plain_kept(1) [OF ok s, of ch] by (auto simp: charout_def)
qed

lemma escout_kept:
  assumes ok: "vt_cfg_ok c" and s: "on_screen c s"
  shows "vt_kept c s (snd (escout c ch s))"
proof -
  have r: "0 \<le> sint (cursorx s)" "sint (cursorx s) \<le> vt_right c" "0 \<le> sint (cursory s)" "sint (cursory s) \<le> vt_bottom c"
      "vt_right c < 127" "vt_bottom c < 127" "0 \<le> vt_right c" "0 \<le> vt_bottom c"
    using s ok by (auto simp: on_screen_def vt_cfg_ok_def)
  have nz: "0 < sint x" if "x \<noteq> 0" "0 \<le> sint x" for x :: u8
    using that byte_sint [of x] by (metis less_le of_int_0)
  have move: "vt_kept c s (s\<lparr>cursory := cursory s - 1\<rparr>)" if "cursory s \<noteq> 0"
    using that s r nz [of "cursory s"] sint_step(2) [of "cursory s"] by (auto simp: vt_kept_def on_screen_def inside_def)
  have moves: "sint (cursory s) < vt_bottom c \<Longrightarrow> vt_kept c s (s\<lparr>cursory := cursory s + 1\<rparr>)"
    "sint (cursorx s) < vt_right c \<Longrightarrow> vt_kept c s (s\<lparr>cursorx := cursorx s + 1\<rparr>)"
    "cursorx s \<noteq> 0 \<Longrightarrow> vt_kept c s (s\<lparr>cursorx := cursorx s - 1\<rparr>)" "vt_kept c s (s\<lparr>cursorx := 0, cursory := 0\<rparr>)"
    using s r nz [of "cursorx s"] sint_step by (auto simp: vt_kept_def on_screen_def inside_def)
  have all: "sint (of_int (vt_bottom c + 1) :: u8) = vt_bottom c + 1" using r by (intro sint_byte) auto
  have E: "vt_kept c s (clear_lines c 0 (of_int (vt_bottom c + 1)) s)"
    using s clear_lines_inside [OF ok, of 0 "of_int (vt_bottom c + 1)" s] all r by (simp add: vt_kept_def on_screen_def)
  have I: "vt_kept c s (clear_lines c 0 1 (scroll_down c s))"
    using s r inside_trans [OF scroll_inside(2) [OF ok, of s] clear_lines_inside [OF ok, of 0 1]]
    by (simp add: vt_kept_def on_screen_def)
  have K: "vt_kept c s (clear_across c (cursory s) (cursorx s) (of_int (vt_right c - sint (cursorx s) + 1)) s)"
    using s clear_across_inside [OF ok s] by (simp add: vt_kept_def on_screen_def)
  have below: "sint (of_int (vt_bottom c) - cursory s) = vt_bottom c - sint (cursory s)"
  proof -
    have "of_int (vt_bottom c) - cursory s = of_int (vt_bottom c - sint (cursory s))" by simp
    then show ?thesis using r by (simp only:) (rule sint_byte, auto)
  qed
  have J: "vt_kept c s (clear_lines c (cursory s + 1) (of_int (vt_bottom c) - cursory s) t)"
    if "vt_kept c s t" "cursory t = cursory s" for t
  proof -
    have "inside c t (clear_lines c (cursory s + 1) (of_int (vt_bottom c) - cursory s) t)"
      using r below sint_step(1) [of "cursory s"] by (intro clear_lines_inside [OF ok]) auto
    then show ?thesis using that inside_trans by (auto simp: vt_kept_def on_screen_def)
  qed
  show ?thesis
    using screen_vt_kept(1) [OF s] move moves E I K J [OF K] by (auto simp: escout_def Let_def)
qed

lemma vt_byte_kept:
  assumes ok: "vt_cfg_ok c" and s: "on_screen c s"
  shows "\<exists>t. vt_byte c ch s = Some t \<and> vt_kept c s t"
proof -
  define z where "z = (if 0 \<le>s ncursory s \<and> sint (ncursory s) \<le> vt_bottom c then s\<lparr>cursory := ncursory s\<rparr> else s)"
  have y: "on_screen c z" "inside c s z" "vtpend z = vtpend s"
    using s by (auto simp: z_def on_screen_def inside_def word_sle_eq)
  have n: "sint (of_int (uint ch - 0x20) :: u8) = uint ch - 0x20" if "0 \<le> uint ch - 0x20" "uint ch - 0x20 \<le> vt_right c"
    using that ok by (intro sint_byte) (auto simp: vt_cfg_ok_def)
  have "vt_kept c s (z\<lparr>cursorx := of_int (uint ch - 0x20)\<rparr>)" if "0 \<le> uint ch - 0x20" "uint ch - 0x20 \<le> vt_right c"
    using y n [OF that] that unfolding vt_kept_def on_screen_def inside_def by simp
  then have pos: "vt_kept c s (if 0 \<le> uint ch - 0x20 \<and> uint ch - 0x20 \<le> vt_right c
      then z\<lparr>cursorx := of_int (uint ch - 0x20)\<rparr> else z)"
    using y by (simp add: vt_kept_def)
  have same: "vt_kept c s (s\<lparr>vtattr := v, vtmode := m\<rparr>)" "vt_kept c s (s\<lparr>vtink := v, vtmode := m\<rparr>)"
    "vt_kept c s (s\<lparr>vtpaper := v, vtmode := m\<rparr>)" "vt_kept c s (s\<lparr>ncursory := v, vtmode := m\<rparr>)" for v m
    using s by (simp_all add: vt_kept_def on_screen_def inside_def)
  show ?thesis
  proof (cases "vtmode s = 3")
    case True
    then have "vt_byte c ch s = Some ((if 0 \<le> uint ch - 0x20 \<and> uint ch - 0x20 \<le> vt_right c
      then z\<lparr>cursorx := of_int (uint ch - 0x20)\<rparr> else z)\<lparr>vtmode := 0\<rparr>)"
      by (simp add: vt_byte_def Let_def z_def)
    then show ?thesis using screen_vt_kept(2) [OF pos] by blast
  next
    case False
    then show ?thesis
      using charout_kept [OF ok s] escout_kept [OF ok s, of ch] screen_vt_kept(1) [OF s] same
      by (auto simp: vt_byte_def case_prod_beta intro: screen_vt_kept(2))
  qed
qed

lemma vt_bytes_kept:
  assumes "vt_cfg_ok c"
  shows "on_screen c s \<Longrightarrow> \<exists>t. vt_bytes c p s = Some t \<and> vt_kept c s t"
proof (induction p arbitrary: s)
  case Nil
  then show ?case by (simp add: screen_vt_kept)
next
  case (Cons ch p)
  obtain t where t: "vt_byte c ch s = Some t" "vt_kept c s t" using vt_byte_kept [OF assms Cons.prems] by blast
  then obtain u where "vt_bytes c p t = Some u" "vt_kept c t u" using Cons.IH [of t] by (auto simp: vt_kept_def)
  then show ?case using t vt_kept_trans by auto
qed

lemma vt_drain_kept:
  assumes ok: "vt_cfg_ok c"
  shows "on_screen c s \<Longrightarrow> \<exists>t. vt_drain c irqs p s = Some t \<and> on_screen c t \<and> inside c s t \<and> vtpend t = 0"
proof (induction "2 * length irqs + (if vtpend s = 0 then 0 else 1)" arbitrary: irqs p s rule: less_induct)
  case less
  obtain t where t: "vt_bytes c p s = Some t" "on_screen c t" "inside c s t" "vtpend t = vtpend s"
    using vt_bytes_kept [OF ok less.prems] by (auto simp: vt_kept_def)
  define q where "q = (if irqs \<noteq> [] \<and> hd irqs \<noteq> 0 then hd irqs else vtpend s)"
  have step: "vt_drain c irqs p s = (if q \<noteq> 0 then vt_drain c (tl irqs) [q] (t\<lparr>vtpend := 0\<rparr>) else Some (t\<lparr>vtpend := 0\<rparr>))"
    using t(1,4) by (subst vt_drain.simps) (simp add: q_def Let_def)
  have u: "on_screen c (t\<lparr>vtpend := 0\<rparr>)" "inside c s (t\<lparr>vtpend := 0\<rparr>)"
    using t(2,3) by (simp_all add: on_screen_def inside_def)
  show ?case
  proof (cases "q = 0")
    case True
    then show ?thesis using step u by simp
  next
    case False
    then have "2 * length (tl irqs) < 2 * length irqs + (if vtpend s = 0 then 0 else 1)"
      by (cases irqs) (auto simp: q_def split: if_splits)
    then obtain v where "vt_drain c (tl irqs) [q] (t\<lparr>vtpend := 0\<rparr>) = Some v" "on_screen c v"
        "inside c (t\<lparr>vtpend := 0\<rparr>) v" "vtpend v = 0"
      using less.hyps [of "tl irqs" "t\<lparr>vtpend := 0\<rparr>" "[q]"] u by auto
    then show ?thesis using step u False inside_trans by auto
  qed
qed

text \<open>C24: Whatever is written to a console and whatever echo comes in meanwhile, vtoutput() returns, leaves the cursor on a
  cell of the screen, and writes no byte of memory outside the screen; when it was not entered from itself it
  also leaves nothing pending and the console free.\<close>

theorem vtoutput_stays_on_screen:
  assumes "vt_cfg_ok c" "on_screen c s" "p \<noteq> []"
  shows "\<exists>t. vtoutput c irqs p s = Some t \<and> on_screen c t \<and> (\<forall>a. a \<notin> screen c \<longrightarrow> vram t a = vram s a)
    \<and> (vtbusy s = 0 \<longrightarrow> vtbusy t = 0 \<and> vtpend t = 0)"
proof (cases "vtbusy s = 0")
  case False
  then show ?thesis using assms by (auto simp: vtoutput_def on_screen_def)
next
  case True
  define u where "u = cursor_off (s\<lparr>vtbusy := 1\<rparr>)"
  have u: "on_screen c u" "inside c s u"
    using assms(2) by (auto simp: u_def cursor_off_def on_screen_def inside_def split: option.splits)
  obtain v where v: "vt_drain c irqs p u = Some v" "on_screen c v" "inside c u v" "vtpend v = 0"
    using vt_drain_kept [OF assms(1) u(1)] by blast
  have a: "char_addr c (cursory v) (cursorx v) \<in> screen c" using plot_inside(2) [OF assms(1) v(2)] .
  let ?t = "(cursor_on c (cursory v) (cursorx v) v)\<lparr>vtbusy := 0\<rparr>"
  have "on_screen c ?t" "inside c v ?t" "vtpend ?t = 0" "vtbusy ?t = 0"
    using a v(2,4) by (auto simp: cursor_on_def on_screen_def inside_def Let_def)
  moreover have "vtoutput c irqs p s = Some ?t"
    using True v(1) by (simp add: vtoutput_def Let_def u_def)
  ultimately show ?thesis using inside_trans [OF inside_trans [OF u(2) v(3)]] by (auto simp: inside_def)
qed

definition sample_cfg :: vt_cfg where
  "sample_cfg = \<lparr>vt_base = 0xC000, vt_width = 80, vt_right = 79, vt_bottom = 24, vt_map_char = ucast\<rparr>"

definition sample_vt :: vt where
  "sample_vt = \<lparr>vtmode = 0, vtattr = 0, vtink = 7, vtpaper = 0, cursorx = 79, cursory = 24, ncursory = 0, vtpend = 0,
     vtbusy = 0, cpos = None, csave = 0x20, vram = (\<lambda>_. 0x20), beeps = 0\<rparr>"

theorem vtoutput_stays_on_screen_witness:
  "\<exists>t. vtoutput sample_cfg [0x42] [0x41, 9, 0x1B, 0x4A] sample_vt = Some t \<and> on_screen sample_cfg t \<and> vram t 0x8000 = 0x20"
proof -
  have "vt_cfg_ok sample_cfg" by (simp add: vt_cfg_ok_def sample_cfg_def)
  moreover have "on_screen sample_cfg sample_vt" by (simp add: on_screen_def sample_cfg_def sample_vt_def)
  moreover have "(0x8000 :: u16) \<notin> screen sample_cfg" by (simp add: screen_def sample_cfg_def)
  moreover have "vram sample_vt 0x8000 = 0x20" by (simp add: sample_vt_def)
  ultimately show ?thesis
    using vtoutput_stays_on_screen [of sample_cfg sample_vt "[0x41, 9, 0x1B, 0x4A]" "[0x42]"] by auto
qed

end
