(* ===== verification/SysExec.thy ===== *)
theory SysExec
  imports SysOpen SysProc
begin

text \<open>
  Kernel/syscall\_exec16.c: execve() of the 16-bit machines. The argument block of the code lies in a
  buffer taken from the pool; its content is the record \<open>s_argblk\<close> here (the bytes stored so far and the two
  counts), and the buffer itself is taken and given back as the code does. u\_name, which only ps shows,
  is not part of the state. What a platform configures (PROGLOAD, MAPBASE, ramtop, the address of the
  buffer hdr) is the record \<open>exec_cfg\<close>; pagemap\_realloc() is an argument. doexec() does not return: the
  call then ends with the entry point and the user stack pointer.
\<close>

record exec_cfg =
  x_progload :: u16
  x_mapbase :: u16
  x_ramtop :: u16
  x_hdr :: u16

record s_argblk =
  a_argc :: nat
  a_arglen :: nat
  a_buf :: "u8 list"

datatype exec_result = Exec (entry: u16) (isp: u16) | ExecFailed

abbreviation (input) E2BIG :: u16 where "E2BIG \<equiv> 7"
abbreviation (input) ENOEXEC :: u16 where "ENOEXEC \<equiv> 8"
abbreviation (input) SET_UID :: u16 where "SET_UID \<equiv> 0x800"
abbreviation (input) SET_GID :: u16 where "SET_GID \<equiv> 0x400"
abbreviation (input) SIGKILL :: nat where "SIGKILL \<equiv> 9"

subsection \<open>Arguments\<close>

text \<open>The inner loop of rargs(): one string; None where the 500 bytes are exceeded.\<close>

function rargs_string :: "u16 \<Rightarrow> u8 list \<Rightarrow> kst \<Rightarrow> u8 list option \<times> kst" where
  "rargs_string ptr buf s =
     (let (r, s) = ugetc ptr s; c = ucast r; buf = buf @ [c] in
      if length buf > 500 then (None, s\<lparr>u_error := E2BIG\<rparr>)
      else if c \<noteq> 0 then rargs_string (ptr + 1) buf s
      else (Some buf, s))"
  by pat_completeness auto
termination by (relation "measure (\<lambda>(ptr, buf, s). 501 - length buf)") auto

declare rargs_string.simps [simp del]

lemma rargs_string_longer:
  "rargs_string ptr buf s = (Some out, t) \<Longrightarrow> length buf < length out \<and> length out \<le> 500"
proof (induction ptr buf s rule: rargs_string.induct)
  case (1 ptr buf s)
  obtain r u where r: "ugetc ptr s = (r, u)" by fastforce
  show ?case
  proof (cases "length (buf @ [ucast r]) > 500 \<or> ucast r = (0 :: u8)")
    case True
    then show ?thesis using 1(2) r by (subst (asm) rargs_string.simps) (auto simp: Let_def split: if_splits)
  next
    case False
    then have "rargs_string (ptr + 1) (buf @ [ucast r]) u = (Some out, t)"
      using 1(2) r by (subst (asm) rargs_string.simps) (simp add: Let_def)
    then show ?thesis using 1(1) [OF r [symmetric] refl refl] False by auto
  qed
qed

function rargs_loop :: "u16 \<Rightarrow> nat \<Rightarrow> u8 list \<Rightarrow> kst \<Rightarrow> s_argblk option \<times> kst" where
  "rargs_loop up argc buf s =
     (let (ptr, s) = ugetw up s in
      if ptr = 0 then (Some \<lparr>a_argc = argc, a_arglen = length buf, a_buf = buf\<rparr>, s)
      else
        case rargs_string ptr buf s of
          (None, s) \<Rightarrow> (None, s)
        | (Some buf, s) \<Rightarrow> rargs_loop (up + 2) (argc + 1) buf s)"
  by pat_completeness auto
termination
proof (relation "measure (\<lambda>(up, argc, buf, s). 501 - length buf)", goal_cases)
  case 1
  then show ?case by simp
next
  case 2
  then show ?case by (auto dest!: rargs_string_longer [OF sym])
qed

declare rargs_loop.simps [simp del]

definition rargs :: "u16 \<Rightarrow> kst \<Rightarrow> s_argblk option \<times> kst" where
  "rargs userspace_argv s = rargs_loop userspace_argv 0 [] s"

text \<open>The scan \<^verbatim>\<open>do ++ptr; while (*sptr++)\<close>; None where it leaves the stored bytes.\<close>

fun skip_string :: "u8 list \<Rightarrow> u16 \<Rightarrow> (u8 list \<times> u16) option" where
  "skip_string [] ptr = None"
| "skip_string (c # cs) ptr = (if c \<noteq> 0 then skip_string cs (ptr + 1) else Some (cs, ptr + 1))"

text \<open>The loop over argc.\<close>

fun wargs_ptrs :: "nat \<Rightarrow> u8 list \<Rightarrow> u16 \<Rightarrow> u16 \<Rightarrow> kst \<Rightarrow> (u16 \<times> kst) option" where
  "wargs_ptrs 0 sptr ptr argv s = Some (argv, s)"
| "wargs_ptrs (Suc argc) sptr ptr argv s = do {
     let s = snd (uputw ptr argv s);
     let argv = argv + 2;
     if argc \<noteq> 0 then do {
       (sptr, ptr) \<leftarrow> skip_string sptr ptr;
       wargs_ptrs argc sptr ptr argv s
     } else wargs_ptrs argc sptr ptr argv s
   }"

text \<open>wargs(): the address of the vector. ALIGNUP is the identity on the Z80.\<close>

definition wargs :: "u16 \<Rightarrow> s_argblk \<Rightarrow> kst \<Rightarrow> (u16 \<times> kst) option" where
  "wargs ptr blk s = do {
     let arglen = a_arglen blk;
     let ptr = ptr - of_nat arglen;
     let s = (if arglen \<noteq> 0 then snd (uput (a_buf blk) ptr (of_nat arglen) s) else s);
     let argbase = ptr - 2 * (of_nat (a_argc blk) + 1);
     (argv, s) \<leftarrow> wargs_ptrs (a_argc blk) (a_buf blk) ptr argbase s;
     Some (argbase, snd (uputw 0 argv s))
   }"

subsection \<open>execve\<close>

definition header_ok :: "u8 list \<Rightarrow> bool" where
  "header_ok p \<longleftrightarrow> (p ! 0 = 0xC3 \<or> p ! 0 = 0x18) \<and> p ! 3 = 0x46 \<and> p ! 4 = 0x5A \<and> p ! 5 = 0x58 \<and> p ! 6 = 0x31"

definition close_on_exec :: "kst \<Rightarrow> (unit \<times> kst) option" where
  "close_on_exec s = do {
     (_, s) \<leftarrow> for_each (rev [0..<UFTSIZE])
        (\<lambda>j s. if u_cloexec s AND push_bit j 1 \<noteq> 0 then do { (_, s) \<leftarrow> doclose (of_nat j) s; Some ((), s) }
               else Some ((), s)) s;
     Some ((), s\<lparr>u_cloexec := 0\<rparr>)
   }"

text \<open>The layout the header asks for: load address, top of the process, bss and the size of the file; None for ENOMEM.\<close>

definition exec_layout :: "exec_cfg \<Rightarrow> u8 list \<Rightarrow> u32 \<Rightarrow> (u16 \<times> u16 \<times> u16 \<times> u16) option" where
  "exec_layout x hdr sz =
     (let progload = push_bit 8 (ucast (hdr ! 7));
          progload = (if progload = 0 then x_progload x else progload);
          utop = rd16 hdr 8;
          utop = (if utop = 0 then x_ramtop x else utop + progload);
          bss = rd16 hdr 14;
          bin_size = ucast sz;
          progptr = bin_size + 1024 + bss
      in if utop - progload < progptr \<or> progptr < bin_size then None else Some (progload, utop, bss, bin_size))"

text \<open>The labels nogood2 and nogood, and nogood3.\<close>

definition exec_nogood :: "nat \<Rightarrow> kst \<Rightarrow> (exec_result \<times> kst) option" where
  "exec_nogood ino s = do { (_, s) \<leftarrow> i_deref ino s; Some (ExecFailed, s) }"

definition exec_nogood3 :: "nat \<Rightarrow> nat \<Rightarrow> nat \<Rightarrow> kst \<Rightarrow> (exec_result \<times> kst) option" where
  "exec_nogood3 ino abuf ebuf s = do {
     let s = upd_p (u_ptab s) (\<lambda>p. p\<lparr>p_status := P_RUNNING\<rparr>) s;
     (_, s) \<leftarrow> brelse abuf s;
     (_, s) \<leftarrow> brelse ebuf s;
     exec_nogood ino s
   }"

text \<open>After the program is in place: the stack with the arguments, and the new program runs.\<close>

definition exec_start ::
  "nat \<Rightarrow> nat \<Rightarrow> nat \<Rightarrow> s_argblk \<Rightarrow> s_argblk \<Rightarrow> u16 \<Rightarrow> u16 \<Rightarrow> u16 \<Rightarrow> u16 \<Rightarrow> kst \<Rightarrow> (exec_result \<times> kst) option" where
  "exec_start ino abuf ebuf args env progload progptr bss utop s = do {
     let s = snd (uzero progptr bss s);
     let s = s\<lparr>u_break := progptr + bss\<rparr>;
     let s = s\<lparr>u_sigvec := (\<lambda>_. SIG_DFL)\<rparr>;
     (nargv, s) \<leftarrow> wargs (utop - 2) args s;
     (nenvp, s) \<leftarrow> wargs nargv env s;
     let (p, s) = ugetw nargv s;
     let s = snd (ugets p 8 s);
     (_, s) \<leftarrow> brelse abuf s;
     (_, s) \<leftarrow> brelse ebuf s;
     (_, s) \<leftarrow> i_deref ino s;
     let s = snd (uputw nargv (nenvp - 2) s);
     let s = snd (uputw (of_nat (a_argc args)) (nenvp - 4) s);
     Some (Exec progload (nenvp - 4), upd_p (u_ptab s) (\<lambda>p. p\<lparr>p_status := P_RUNNING\<rparr>) s)
   }"

text \<open>From the point of commitment on.\<close>

definition exec_commit ::
  "(kst \<Rightarrow> kst option) \<Rightarrow> nat \<Rightarrow> nat \<Rightarrow> nat \<Rightarrow> s_argblk \<Rightarrow> s_argblk \<Rightarrow> u8 list \<Rightarrow> u16 \<times> u16 \<times> u16 \<times> u16 \<Rightarrow> kst
     \<Rightarrow> (exec_result \<times> kst) option" where
  "exec_commit sw ino abuf ebuf args env hdr layout s =
     (case layout of (progload, utop, bss, bin_size) \<Rightarrow> do {
        let s = s\<lparr>u_top := utop\<rparr>;
        let s = upd_p (u_ptab s) (\<lambda>p. p\<lparr>p_top := utop\<rparr>) s;
        let d = c_node (i_tab s ino);
        let s = (if i_mode d AND SET_UID \<noteq> 0 then s\<lparr>u_euid := i_uid d\<rparr> else s);
        let s = (if i_mode d AND SET_GID \<noteq> 0 then s\<lparr>u_egid := i_gid d\<rparr> else s);
        let s = snd (uput hdr progload 16 s);
        (_, s) \<leftarrow> close_on_exec s;
        let progptr = progload + 16;
        if bin_size > 16 then do {
          let rest = bin_size - 16;
          (_, s) \<leftarrow> readi sw ino 0 (s\<lparr>u_base := progptr, u_count := rest, u_sysio := False\<rparr>);
          if u_count s \<noteq> rest then exec_nogood3 ino abuf ebuf (ssig (u_ptab s) SIGKILL s)
          else exec_start ino abuf ebuf args env progload (progptr + rest) bss utop s
        } else exec_start ino abuf ebuf args env progload progptr bss utop s
      })"

definition u_execve ::
  "exec_cfg \<Rightarrow> (kst \<Rightarrow> kst option) \<Rightarrow> (u16 \<Rightarrow> kst \<Rightarrow> u16 \<times> kst) \<Rightarrow> kst \<Rightarrow> (exec_result \<times> kst) option" where
  "u_execve x sw prealloc s = do {
     ((r, _), s) \<leftarrow> n_open (u_argn s) False s;
     case r of
       None \<Rightarrow> Some (ExecFailed, s)
     | Some ino \<Rightarrow>
         let m = i_mode (c_node (i_tab s ino)) in
         if \<not> (getperm ino s AND OTH_EX \<noteq> 0 \<and> m AND F_REG \<noteq> 0 \<and> m AND 0x49 \<noteq> 0)
         then exec_nogood ino (s\<lparr>u_error := EACCES\<rparr>)
         else do {
           let s = setftime ino A_TIME s;
           (_, s) \<leftarrow> readi sw ino 0 (s\<lparr>u_offset := 0, u_count := 16, u_base := x_hdr x, u_sysio := True\<rparr>);
           let hdr = get_range (kmem s) (x_hdr x) 16;
           if u_count s \<noteq> 16 \<or> \<not> header_ok hdr then exec_nogood ino (s\<lparr>u_error := ENOEXEC\<rparr>)
           else
             case exec_layout x hdr (i_size (c_node (i_tab s ino))) of
               None \<Rightarrow> exec_nogood ino (s\<lparr>u_error := ENOMEM\<rparr>)
             | Some layout \<Rightarrow> do {
                 let s = upd_p (u_ptab s) (\<lambda>p. p\<lparr>p_status := P_NOSLEEP\<rparr>) s;
                 (abuf, s) \<leftarrow> tmpbuf s;
                 (ebuf, s) \<leftarrow> tmpbuf s;
                 let (args, s) = rargs (u_argn1 s) s;
                 let (env, s) = (if args = None then (None, s) else rargs (u_argn2 s) s);
                 if args = None \<or> env = None then exec_nogood3 ino abuf ebuf s
                 else
                   let (r, s) = prealloc (fst (snd layout) - x_mapbase x) s in
                   if r \<noteq> 0 then exec_nogood3 ino abuf ebuf s
                   else exec_commit sw ino abuf ebuf (the args) (the env) hdr layout s
               }
         }
   }"

text \<open>The 32-bit allocator calls are stubs here.\<close>

definition u_memalloc :: "kst \<Rightarrow> (u16 \<times> kst) option" where
  "u_memalloc s = fail ENOMEM s"

definition u_memfree :: "kst \<Rightarrow> (u16 \<times> kst) option" where
  "u_memfree s = fail ENOMEM s"

end
