(* ===== verification/ExecSpec.thy ===== *)
theory ExecSpec
  imports SysExec FileSpec
begin

text \<open>
  The arguments of execve: the vector of strings that rargs() finds in the old program's memory is the vector that
  wargs() builds in the new one's.
\<close>

subsection \<open>Ranges of user memory\<close>

lemma get_range_append: "get_range m b (i + j) = get_range m b i @ get_range m (b + of_nat i) j"
  by (induction j) (simp_all add: get_range_def add.assoc)

lemma uput_raw_append:
  "uput_raw (xs @ ys) u m = uput_raw ys (u + of_nat (length xs)) (uput_raw xs u m)"
  by (induction xs arbitrary: u m) (simp_all add: add.assoc)

lemma put_range_below:
  assumes "length xs + length ys \<le> 65536"
  shows "put_range b (xs @ ys) m = put_range b xs (put_range (b + of_nat (length xs)) ys m)"
proof (rule ext)
  fix a
  let ?d = "a - b" and ?L = "length xs"
  have e: "a - (b + of_nat ?L) = ?d - of_nat ?L" by simp
  show "put_range b (xs @ ys) m a = put_range b xs (put_range (b + of_nat ?L) ys m) a"
  proof (cases "unat ?d < ?L")
    case True
    then show ?thesis by (simp add: put_range_def nth_append)
  next
    case False
    then have "?L < 65536" using u16_bound [of ?d] by linarith
    then have "unat (of_nat ?L :: u16) = ?L" by (simp add: unat_of_nat take_bit_nat_eq_self)
    then have "unat (?d - of_nat ?L) = unat ?d - ?L" using False by (simp add: unat_sub word_le_nat_alt)
    then show ?thesis using False unfolding put_range_def e by (auto simp: nth_append)
  qed
qed

text \<open>A range of user addresses that valaddr() accepts unchanged.\<close>

definition user_ok :: "kst \<Rightarrow> u16 \<Rightarrow> nat \<Rightarrow> bool" where
  "user_ok s a n \<longleftrightarrow> a \<noteq> 0 \<and> progbase (plat s) \<le> a \<and> unat a + n \<le> unat (u_top s)"

lemma user_ok_part:
  assumes "user_ok s a n" "k + j \<le> n"
  shows "user_ok s (a + of_nat k) j" "unat (a + of_nat k) = unat a + k"
proof -
  have "k < 65536" using assms u16_bound [of "u_top s"] by (simp add: user_ok_def)
  then have k: "unat (of_nat k :: u16) = k" by (simp add: unat_of_nat take_bit_nat_eq_self)
  then show b: "unat (a + of_nat k) = unat a + k"
    using assms u16_bound [of "u_top s"] by (simp add: user_ok_def unat_word_ariths)
  then have "a \<le> a + of_nat k" by (simp add: word_le_nat_alt)
  then show "user_ok s (a + of_nat k) j"
    using assms b unat_gt_0 [of a] unat_gt_0 [of "a + of_nat k"] by (auto simp: user_ok_def)
qed

lemma user_ok_frame [simp]: "user_ok (s\<lparr>umem := m\<rparr>) a n = user_ok s a n"
  by (simp add: user_ok_def)

lemma user_ok_io:
  assumes "user_ok s a n" "0 < n"
  shows "valaddr a (of_nat n) s = (of_nat n, s)" "unat (of_nat n :: u16) = n" "(of_nat n :: u16) \<noteq> 0"
proof -
  note ok = assms(1) [unfolded user_ok_def]
  show "valaddr a (of_nat n) s = (of_nat n, s)" "unat (of_nat n :: u16) = n"
    using valaddr_inside [of a s n] ok assms(2) by auto
  then show "(of_nat n :: u16) \<noteq> 0" using assms(2) by (metis unat_0 less_numeral_extra(3))
qed

lemma ugetc_ok: "user_ok s a n \<Longrightarrow> 0 < n \<Longrightarrow> ugetc a s = (ucast (umem s a), s)"
  using user_ok_io [of s a 1] by (simp add: ugetc_def user_ok_def)

lemma ugetw_ok: "user_ok s a 2 \<Longrightarrow> ugetw a s = (rd16 (get_range (umem s) a 2) 0, s)"
  using user_ok_io [of s a 2] by (simp add: ugetw_def get_range_def numeral_2_eq_2)

lemma uputw_ok: "user_ok s a 2 \<Longrightarrow> snd (uputw v a s) = s\<lparr>umem := uput_raw (le16 v) a (umem s)\<rparr>"
  using user_ok_io [of s a 2] by (simp add: uputw_def)

lemma uput_ok: "user_ok s a (length bs) \<Longrightarrow> bs \<noteq> [] \<Longrightarrow>
    snd (uput bs a (of_nat (length bs)) s) = s\<lparr>umem := uput_raw bs a (umem s)\<rparr>"
  using user_ok_io [of s a "length bs"] by (simp add: uput_def)

subsection \<open>Vectors of strings\<close>

definition flat :: "u8 list list \<Rightarrow> u8 list" where
  "flat args = concat (map (\<lambda>a. a @ [0]) args)"

lemma flat_simps [simp]: "flat [] = []" "flat (a # as) = a @ 0 # flat as"
  by (simp_all add: flat_def)

fun user_vec :: "kst \<Rightarrow> u16 \<Rightarrow> u8 list list \<Rightarrow> bool" where
  "user_vec s up [] \<longleftrightarrow> user_ok s up 2 \<and> rd16 (get_range (umem s) up 2) 0 = 0"
| "user_vec s up (a # as) \<longleftrightarrow> user_ok s up 2 \<and> 0 \<notin> set a \<and>
     (let p = rd16 (get_range (umem s) up 2) 0
      in p \<noteq> 0 \<and> user_ok s p (Suc (length a)) \<and> get_range (umem s) p (Suc (length a)) = a @ [0])
     \<and> user_vec s (up + 2) as"

lemma byte_through_word [simp]: "ucast (ucast x :: u16) = (x :: u8)"
  by transfer simp

lemma get_range_Suc: "get_range m p (Suc n) = m p # get_range m (p + 1) n"
  using get_range_append [of m p 1 n] by (simp add: get_range_def)

lemma rargs_string_ok:
  assumes "user_ok s p (Suc (length a))" "get_range (umem s) p (Suc (length a)) = a @ [0]" "0 \<notin> set a"
    "length buf + Suc (length a) \<le> 500"
  shows "rargs_string p buf s = (Some (buf @ a @ [0]), s)"
  using assms
proof (induction a arbitrary: p buf)
  case Nil
  then have "umem s p = 0" by (simp add: get_range_Suc)
  then show ?case using Nil ugetc_ok [of s p 1] by (subst rargs_string.simps) (simp add: Let_def)
next
  case (Cons c a)
  have p: "user_ok s (p + 1) (Suc (length a))" using user_ok_part(1) [OF Cons.prems(1), of 1 "Suc (length a)"] by simp
  have m: "umem s p = c" "get_range (umem s) (p + 1) (Suc (length a)) = a @ [0]"
    using Cons.prems(2) by (simp_all add: get_range_Suc [of _ p])
  have "rargs_string p buf s = rargs_string (p + 1) (buf @ [c]) s"
    using Cons.prems m(1) ugetc_ok [OF Cons.prems(1)] by (subst rargs_string.simps) (simp add: Let_def)
  then show ?case using Cons.IH [OF p m(2), of "buf @ [c]"] Cons.prems by simp
qed

lemma rargs_loop_ok:
  "user_vec s up args \<Longrightarrow> length (buf @ flat args) \<le> 500 \<Longrightarrow>
    rargs_loop up n buf s = (Some \<lparr>a_argc = n + length args, a_arglen = length (buf @ flat args), a_buf = buf @ flat args\<rparr>, s)"
proof (induction args arbitrary: up n buf)
  case Nil
  then show ?case using ugetw_ok [of s up] by (subst rargs_loop.simps) (simp add: Let_def)
next
  case (Cons a as)
  let ?p = "rd16 (get_range (umem s) up 2) 0"
  have p: "ugetw up s = (?p, s)" "?p \<noteq> 0" using Cons.prems(1) ugetw_ok [of s up] by (simp_all add: Let_def)
  have "rargs_string ?p buf s = (Some (buf @ a @ [0]), s)"
    using Cons.prems by (intro rargs_string_ok) (simp_all add: Let_def)
  then have "rargs_loop up n buf s = rargs_loop (up + 2) (n + 1) (buf @ a @ [0]) s"
    using p by (subst rargs_loop.simps) (simp add: Let_def)
  then show ?case using Cons.IH [of "up + 2" "buf @ a @ [0]" "n + 1"] Cons.prems by (simp add: Let_def)
qed

text \<open>The addresses of strings stored one after the other.\<close>

fun ptrs :: "u16 \<Rightarrow> u8 list list \<Rightarrow> u16 list" where
  "ptrs p [] = []"
| "ptrs p (a # as) = p # ptrs (p + of_nat (length a) + 1) as"

lemma length_ptrs [simp]: "length (ptrs p as) = length as"
  by (induction as arbitrary: p) simp_all

definition vec_image :: "u16 \<Rightarrow> u8 list list \<Rightarrow> u8 list" where
  "vec_image p as = concat (map le16 (ptrs p as)) @ le16 0"

lemma vec_image_simps [simp]: "vec_image p [] = le16 0"
  "vec_image p (a # as) = le16 p @ vec_image (p + of_nat (length a) + 1) as"
  by (simp_all add: vec_image_def)

lemma length_vec_image [simp]: "length (vec_image p as) = 2 * (length as + 1)"
  by (simp add: vec_image_def)

lemma skip_string_ok:
  "0 \<notin> set a \<Longrightarrow> skip_string (a @ 0 # bs) p = Some (bs, p + of_nat (length a) + 1)"
  by (induction a arbitrary: p) (auto simp: ac_simps)

lemma wargs_ptrs_ok:
  "user_ok s argv (2 * length args + 2) \<Longrightarrow> \<forall>a\<in>set args. 0 \<notin> set a \<Longrightarrow>
    wargs_ptrs (length args) (flat args) p argv s
      = Some (argv + 2 * of_nat (length args), s\<lparr>umem := uput_raw (concat (map le16 (ptrs p args))) argv (umem s)\<rparr>)"
proof (induction args arbitrary: p argv s)
  case Nil
  then show ?case by simp
next
  case (Cons a as)
  have w: "user_ok s argv 2" using user_ok_part(1) [OF Cons.prems(1), of 0 2] by simp
  let ?s = "s\<lparr>umem := uput_raw (le16 p) argv (umem s)\<rparr>"
  have n: "user_ok ?s (argv + 2) (2 * length as + 2)"
    using user_ok_part(1) [OF Cons.prems(1), of 2 "2 * length as + 2"] by simp
  have l: "argv + 2 + 2 * of_nat (length as) = argv + 2 * of_nat (length (a # as))" by (simp add: algebra_simps)
  show ?case
  proof (cases as)
    case Nil
    then show ?thesis using w by (simp add: uputw_ok)
  next
    case (Cons b bs)
    then have "wargs_ptrs (length (a # as)) (flat (a # as)) p argv s
        = wargs_ptrs (length as) (flat as) (p + of_nat (length a) + 1) (argv + 2) ?s"
      using w Cons.prems(2) by (simp add: uputw_ok skip_string_ok)
    then show ?thesis
      using Cons.IH [OF n, of "p + of_nat (length a) + 1"] Cons.prems(2) l by (simp add: uput_raw_append)
  qed
qed

lemma vec_built:
  "user_ok s b (2 * length as + 2) \<Longrightarrow> user_ok s p (length (flat as)) \<Longrightarrow> \<forall>a\<in>set as. 0 \<notin> set a \<Longrightarrow>
    get_range (umem s) b (2 * (length as + 1)) = vec_image p as \<Longrightarrow>
    get_range (umem s) p (length (flat as)) = flat as \<Longrightarrow> user_vec s b as"
proof (induction as arbitrary: b p)
  case Nil
  then have "user_ok s b 2" by (simp add: numeral_2_eq_2)
  then show ?case using Nil(4) rd16_le16 [of 0 "[]"] by simp
next
  case (Cons a as)
  let ?q = "p + of_nat (length a) + 1"
  have q: "?q = p + of_nat (Suc (length a))" by simp
  have b: "user_ok s b 2" "user_ok s (b + 2) (2 * length as + 2)"
    using user_ok_part(1) [OF Cons.prems(1), of 0 2] user_ok_part(1) [OF Cons.prems(1), of 2 "2 * length as + 2"]
    by simp_all
  have p: "user_ok s p (Suc (length a))" "user_ok s ?q (length (flat as))"
    using user_ok_part(1) [OF Cons.prems(2), of 0 "Suc (length a)"]
      user_ok_part(1) [OF Cons.prems(2), of "Suc (length a)" "length (flat as)"] unfolding q by simp_all
  have "get_range (umem s) b 2 @ get_range (umem s) (b + 2) (2 * (length as + 1))
      = le16 p @ vec_image ?q as"
    using Cons.prems(4) get_range_append [of "umem s" b 2 "2 * (length as + 1)"] by (simp add: ac_simps)
  then have v: "get_range (umem s) b 2 = le16 p" "get_range (umem s) (b + 2) (2 * (length as + 1)) = vec_image ?q as"
    by simp_all
  have "get_range (umem s) p (Suc (length a)) @ get_range (umem s) ?q (length (flat as)) = (a @ [0]) @ flat as"
    using Cons.prems(5) get_range_append [of "umem s" p "Suc (length a)" "length (flat as)"] by (simp add: ac_simps)
  then have f: "get_range (umem s) p (Suc (length a)) = a @ [0]" "get_range (umem s) ?q (length (flat as)) = flat as"
    by (simp_all del: append_assoc add: append_eq_append_conv)
  show ?case using Cons.IH [OF b(2) p(2) _ v(2) f(2)] Cons.prems(3) b(1) p(1) v(1) f(1) rd16_le16 [of p "[]"]
    by (simp add: Let_def user_ok_def)
qed

subsection \<open>From one program to the next\<close>

lemma user_vec_clean: "user_vec s up args \<Longrightarrow> \<forall>a\<in>set args. 0 \<notin> set a"
  by (induction args arbitrary: up) auto

definition vec_size :: "u8 list list \<Rightarrow> nat" where
  "vec_size args = length (flat args) + 2 * (length args + 1)"

lemma wargs_ok:
  assumes "user_ok s (utop - of_nat (vec_size args)) (vec_size args)" "\<forall>a\<in>set args. 0 \<notin> set a"
  shows "wargs utop \<lparr>a_argc = length args, a_arglen = length (flat args), a_buf = flat args\<rparr> s
    = Some (utop - of_nat (vec_size args),
        s\<lparr>umem := put_range (utop - of_nat (vec_size args)) (vec_image (utop - of_nat (length (flat args))) args @ flat args) (umem s)\<rparr>)"
proof -
  let ?F = "flat args" and ?n = "length args"
  let ?b = "utop - of_nat (vec_size args)" and ?p = "utop - of_nat (length ?F)"
  have tot: "vec_size args = 2 * (?n + 1) + length ?F" by (simp add: vec_size_def)
  have p: "?p = ?b + of_nat (2 * (?n + 1))" by (simp add: tot algebra_simps)
  have b: "?p - 2 * (of_nat ?n + 1) = ?b" by (simp add: tot algebra_simps)
  have le: "vec_size args \<le> 65536" using assms(1) u16_bound [of "u_top s"] by (simp add: user_ok_def)
  have okp: "user_ok s ?p (length ?F)" unfolding p by (rule user_ok_part(1) [OF assms(1)]) (simp add: tot)
  have okb: "user_ok s ?b (2 * ?n + 2)"
    using user_ok_part(1) [OF assms(1), of 0 "2 * ?n + 2"] by (simp add: tot)
  have okz: "user_ok s (?b + 2 * of_nat ?n) 2"
    using user_ok_part(1) [OF assms(1), of "2 * ?n" 2] by (simp add: tot)
  define m1 where "m1 = uput_raw ?F ?p (umem s)"
  have one: "(if length ?F \<noteq> 0 then snd (uput ?F ?p (of_nat (length ?F)) s) else s) = s\<lparr>umem := m1\<rparr>"
    using uput_ok [OF okp] by (simp add: m1_def)
  define m2 where "m2 = uput_raw (concat (map le16 (ptrs ?p args))) ?b m1"
  have two: "wargs_ptrs ?n ?F ?p ?b (s\<lparr>umem := m1\<rparr>) = Some (?b + 2 * of_nat ?n, s\<lparr>umem := m2\<rparr>)"
    using wargs_ptrs_ok [of "s\<lparr>umem := m1\<rparr>" ?b args ?p] okb assms(2) by (simp add: m2_def)
  have three: "snd (uputw 0 (?b + 2 * of_nat ?n) (s\<lparr>umem := m2\<rparr>))
      = s\<lparr>umem := uput_raw (le16 0) (?b + 2 * of_nat ?n) m2\<rparr>"
    using uputw_ok [of "s\<lparr>umem := m2\<rparr>" "?b + 2 * of_nat ?n" 0] okz by simp
  have "uput_raw (le16 0) (?b + 2 * of_nat ?n) m2 = uput_raw (vec_image ?p args) ?b m1"
    by (simp add: m2_def vec_image_def uput_raw_append)
  also have "\<dots> = put_range ?b (vec_image ?p args) (put_range ?p ?F (umem s))"
    using le by (simp add: m1_def uput_raw_range tot)
  also have "\<dots> = put_range ?b (vec_image ?p args @ ?F) (umem s)"
    using put_range_below [of "vec_image ?p args" ?F ?b "umem s", unfolded length_vec_image, folded p] le tot
    by (simp only:)
  finally have z: "uput_raw (le16 0) (?b + 2 * of_nat ?n) m2 = put_range ?b (vec_image ?p args @ ?F) (umem s)" .
  show ?thesis
    unfolding wargs_def Let_def s_argblk.simps one b two
    by (simp only: Option.bind_lunit prod.case three z)
qed

text \<open>execve hands the arguments over. If the old program's vector at \<open>up\<close> holds the strings \<open>args\<close>,
  which fit into the 500 bytes of the argument block, then rargs() succeeds and counts them, and wargs() into
  the new program's memory below \<open>utop\<close> returns the address of a zero-terminated vector of pointers to
  the same strings there; it fills exactly the bytes between that address and \<open>utop\<close> and changes nothing else.\<close>

theorem exec_args_delivered:
  fixes s s' :: kst
  assumes "user_vec s up args" "length (flat args) \<le> 500"
    "bytes = vec_size args" "base = utop - of_nat bytes"
    "user_ok s' base bytes"
  shows "\<exists>blk image t. rargs up s = (Some blk, s) \<and> a_argc blk = length args
    \<and> wargs utop blk s' = Some (base, t) \<and> user_vec t base args
    \<and> length image = bytes \<and> t = s'\<lparr>umem := put_range base image (umem s')\<rparr>"
proof -
  let ?blk = "\<lparr>a_argc = length args, a_arglen = length (flat args), a_buf = flat args\<rparr>"
  let ?p = "utop - of_nat (length (flat args))"
  let ?V = "vec_image ?p args @ flat args"
  let ?t = "s'\<lparr>umem := put_range base ?V (umem s')\<rparr>"
  note clean = user_vec_clean [OF assms(1)]
  have tot: "bytes = 2 * (length args + 1) + length (flat args)" by (simp add: assms(3) vec_size_def)
  have r: "rargs up s = (Some ?blk, s)" using rargs_loop_ok [OF assms(1), of "[]" 0] assms(2) by (simp add: rargs_def)
  have w: "wargs utop ?blk s' = Some (base, ?t)" using wargs_ok [of s' utop args] assms(3-5) clean by simp
  have p: "?p = base + of_nat (2 * (length args + 1))" by (simp add: tot assms(4) algebra_simps)
  have le: "bytes \<le> 65536" using assms(5) u16_bound [of "u_top s'"] by (simp add: user_ok_def)
  have all: "get_range (umem ?t) base (2 * (length args + 1) + length (flat args)) = ?V"
    using get_put_range [of ?V bytes base "umem s'"] le tot by (simp add: ac_simps)
  have g: "get_range (umem ?t) base (2 * (length args + 1)) = vec_image ?p args"
    "get_range (umem ?t) ?p (length (flat args)) = flat args"
    using all [unfolded get_range_append [of "umem ?t" base] p [symmetric]]
    by (simp_all del: kst.simps add: append_eq_append_conv)
  have "user_vec ?t base args"
  proof (rule vec_built [OF _ _ clean g])
    show "user_ok ?t base (2 * length args + 2)"
      using user_ok_part(1) [OF assms(5), of 0 "2 * length args + 2"] tot by simp
    show "user_ok ?t ?p (length (flat args))"
      unfolding p using user_ok_part(1) [OF assms(5), of "2 * (length args + 1)" "length (flat args)"] tot by simp
  qed
  then show ?thesis using r w tot by (intro exI [of _ ?blk] exI [of _ ?V] exI [of _ ?t]) simp
qed

text \<open>Two arguments at 0x200 and 0x300, the vector at 0x400, handed to a program whose top is 0x7ffe.\<close>

definition exec_sample :: kst where
  "exec_sample = sample\<lparr>umem := (\<lambda>_. 0)(0x200 := 0x6C, 0x201 := 0x73, 0x300 := 0x78, 0x401 := 2, 0x403 := 3)\<rparr>"

lemma exec_args_delivered_witness:
  "\<exists>blk image t. rargs 0x400 exec_sample = (Some blk, exec_sample) \<and> a_argc blk = length [[0x6C, 0x73], [0x78 :: u8]]
    \<and> wargs 0x7FFE blk sample = Some (0x7FF3, t) \<and> user_vec t 0x7FF3 [[0x6C, 0x73], [0x78]]
    \<and> length image = 11 \<and> t = sample\<lparr>umem := put_range 0x7FF3 image (umem sample)\<rparr>"
proof (rule exec_args_delivered)
  show "user_vec exec_sample 0x400 [[0x6C, 0x73], [0x78]]"
  proof -
    have ok: "user_ok exec_sample a n \<longleftrightarrow> a \<noteq> 0 \<and> 0x100 \<le> a \<and> unat a + n \<le> 0x8000" for a n
      by (simp add: user_ok_def exec_sample_def sample_def sample_plat_def)
    have m: "get_range (umem exec_sample) 0x400 2 = [0, 2]" "get_range (umem exec_sample) 0x402 2 = [0, 3]"
      "get_range (umem exec_sample) 0x404 2 = [0, 0]" "get_range (umem exec_sample) 0x200 3 = [0x6C, 0x73, 0]"
      "get_range (umem exec_sample) 0x300 2 = [0x78, 0]"
      by (simp_all add: get_range_def exec_sample_def upt_rec)
    have r: "rd16 [0, 2] 0 = 0x200" "rd16 [0, 3] 0 = 0x300" "rd16 [0, 0] 0 = 0"
      by (simp_all add: rd16_def)
    show ?thesis by (simp add: ok m r numeral_2_eq_2 [symmetric] numeral_3_eq_3 [symmetric] Let_def word_le_nat_alt)
  qed
  show "length (flat [[0x6C, 0x73], [0x78]]) \<le> 500" "11 = vec_size [[0x6C, 0x73], [0x78]]" "(0x7FF3 :: u16) = 0x7FFE - of_nat 11"
    by (simp_all add: vec_size_def)
  show "user_ok sample 0x7FF3 11" by (simp add: user_ok_def sample_def sample_plat_def word_le_nat_alt)
qed

end
