(* ===== verification/Banks.thy ===== *)
theory Banks
  imports FsBase
begin

text \<open>
  Kernel/bank16k.c and Kernel/swap.c: memory in 16K banks, and the swapping of whole processes. The state of the
  two modules stands beside the kernel's tables (\<open>krn\<close>) in the record \<open>bst\<close>, together with the content of the
  banks. What the platform configures is the record \<open>bank_cfg\<close>. The four bytes from p\_page on are the pages
  of a process; \<open>pgs\<close> reads them as a list. The swap driver moves whole blocks between the medium and one bank, as
  the code asks for with udata.u\_block, udata.u\_nblock and swappage; it stops at the first block that fails.
  None stands for a panic or an access outside an array.
\<close>

record bank_cfg =
  max_maps :: nat
  max_swaps :: nat
  progtop :: u16
  swapbase :: u16
  swap_size :: u16
  swapdev :: u16
  procmem :: u16

record bst =
  krn :: kst
  pfree :: "nat \<Rightarrow> u8"
  pfptr :: u8
  swapmap :: "nat \<Rightarrow> u8"
  swapptr :: u8
  swapusedk :: u16
  swapk :: u16
  bank :: "u8 \<Rightarrow> nat \<Rightarrow> u8"

abbreviation upd_bp :: "nat \<Rightarrow> (p_tab \<Rightarrow> p_tab) \<Rightarrow> bst \<Rightarrow> bst" where
  "upd_bp p f b \<equiv> b\<lparr>krn := upd_p p f (krn b)\<rparr>"

abbreviation slot :: "bst \<Rightarrow> nat \<Rightarrow> p_tab" where
  "slot b p \<equiv> ptab (krn b) p"

subsection \<open>The page bytes\<close>

definition page_bytes :: "u16 \<Rightarrow> u16 \<Rightarrow> u8 list" where
  "page_bytes w w2 = le16 w @ le16 w2"

definition pgs :: "p_tab \<Rightarrow> u8 list" where
  "pgs e = page_bytes (p_page e) (p_page2 e)"

definition set_pgs :: "u8 list \<Rightarrow> p_tab \<Rightarrow> p_tab" where
  "set_pgs l e = e\<lparr>p_page := rd16 l 0, p_page2 := rd16 l 2\<rparr>"

subsection \<open>The free pages\<close>

definition push_page :: "bank_cfg \<Rightarrow> u8 \<Rightarrow> bst \<Rightarrow> bst option" where
  "push_page c x b =
     (if unat (pfptr b) < max_maps c then Some (b\<lparr>pfree := (pfree b)(unat (pfptr b) := x), pfptr := pfptr b + 1\<rparr>)
      else None)"

definition pop_page :: "bst \<Rightarrow> (u8 \<times> bst) option" where
  "pop_page b = (if pfptr b = 0 then None else Some (pfree b (unat (pfptr b - 1)), b\<lparr>pfptr := pfptr b - 1\<rparr>))"

definition pagemap_add :: "bank_cfg \<Rightarrow> u8 \<Rightarrow> bst \<Rightarrow> bst option" where
  "pagemap_add c page b = (if unat (pfptr b) = max_maps c then None else push_page c page b)"

text \<open>The loop of pagemap\_free(): a page that repeats the one before it is not freed again.\<close>

fun free_loop :: "bank_cfg \<Rightarrow> u8 list \<Rightarrow> u8 \<Rightarrow> bst \<Rightarrow> bst option" where
  "free_loop c [] prev b = Some b"
| "free_loop c (x # xs) prev b =
     (if x \<noteq> prev then do { b \<leftarrow> push_page c x b; free_loop c xs x b } else free_loop c xs prev b)"

definition pagemap_free :: "bank_cfg \<Rightarrow> nat \<Rightarrow> bst \<Rightarrow> bst option" where
  "pagemap_free c p b = free_loop c (pgs (slot b p)) 0xFF b"

definition maps_needed :: "bank_cfg \<Rightarrow> u16 \<Rightarrow> nat" where
  "maps_needed c t = unat (drop_bit 14 (t + 0xFFFF - progtop c)) + 1"

definition pagemap_mem_used :: "bank_cfg \<Rightarrow> bst \<Rightarrow> u16" where
  "pagemap_mem_used c b = procmem c - push_bit 4 (ucast (pfptr b))"

subsection \<open>Swap slots\<close>

definition swapmap_add :: "bank_cfg \<Rightarrow> u8 \<Rightarrow> bst \<Rightarrow> bst option" where
  "swapmap_add c x b =
     (if unat (swapptr b) = max_swaps c then None
      else if max_swaps c < unat (swapptr b) then None
      else Some (b\<lparr>swapmap := (swapmap b)(unat (swapptr b) := x), swapptr := swapptr b + 1,
                   swapusedk := swapusedk b - swap_size c div 2\<rparr>))"

definition swapmap_alloc :: "bank_cfg \<Rightarrow> bst \<Rightarrow> u16 \<times> bst" where
  "swapmap_alloc c b =
     (if swapptr b \<noteq> 0
      then (ucast (swapmap b (unat (swapptr b - 1))),
            b\<lparr>swapusedk := swapusedk b + swap_size c div 2, swapptr := swapptr b - 1\<rparr>)
      else (0, b))"

definition swapmap_init :: "bank_cfg \<Rightarrow> u8 \<Rightarrow> bst \<Rightarrow> bst option" where
  "swapmap_init c x b =
     (if max_swaps c \<le> unat (swapptr b) then None
      else Some (b\<lparr>swapmap := (swapmap b)(unat (swapptr b) := x), swapptr := swapptr b + 1,
                   swapk := swapk b + swap_size c div 2\<rparr>))"

subsection \<open>Transfers\<close>

text \<open>The driver: \<open>n\<close> blocks from block \<open>blk\<close> on, at offset \<open>off\<close> of the bank; False where a block failed.\<close>

definition bank_block :: "(nat \<Rightarrow> u8) \<Rightarrow> nat \<Rightarrow> block" where
  "bank_block m off = (\<lambda>k. if k < 512 then m (off + k) else 0)"

fun swap_out_blocks :: "u16 \<Rightarrow> u8 \<Rightarrow> nat \<Rightarrow> u16 \<Rightarrow> nat \<Rightarrow> bst \<Rightarrow> bool \<times> bst" where
  "swap_out_blocks dev page 0 blk off b = (True, b)"
| "swap_out_blocks dev page (Suc n) blk off b =
     (if blk_wr_ok (plat (krn b)) dev blk
      then let k = krn b in
        swap_out_blocks dev page n (blk + 1) (off + 512)
          (b\<lparr>krn := k\<lparr>disk := (disk k)(dev := (disk k dev)(blk := bank_block (bank b page) off))\<rparr>\<rparr>)
      else (False, b))"

fun swap_in_blocks :: "u16 \<Rightarrow> u8 \<Rightarrow> nat \<Rightarrow> u16 \<Rightarrow> nat \<Rightarrow> bst \<Rightarrow> bool \<times> bst" where
  "swap_in_blocks dev page 0 blk off b = (True, b)"
| "swap_in_blocks dev page (Suc n) blk off b =
     (if blk_rd_ok (plat (krn b)) dev blk
      then let d = disk (krn b) dev blk; m = bank b page in
        swap_in_blocks dev page n (blk + 1) (off + 512)
          (b\<lparr>bank := (bank b)(page := (\<lambda>a. if off \<le> a \<and> a < off + 512 then d (a - off) else m a))\<rparr>)
      else (False, b))"

definition swap_setup :: "u16 \<Rightarrow> u16 \<Rightarrow> bst \<Rightarrow> bst option" where
  "swap_setup blkno nbytes b =
     (if nbytes AND 511 \<noteq> 0 then None
      else Some (b\<lparr>krn := krn b\<lparr>u_block := blkno, u_nblock := drop_bit 9 nbytes\<rparr>\<rparr>))"

text \<open>swapread(), swapwrite(): True for success. The callers ignore the answer.\<close>

definition swapread :: "u16 \<Rightarrow> u16 \<Rightarrow> u16 \<Rightarrow> u16 \<Rightarrow> u8 \<Rightarrow> bst \<Rightarrow> (bool \<times> bst) option" where
  "swapread dev blkno nbytes buf page b = do {
     b \<leftarrow> swap_setup blkno nbytes b;
     let (ok, b) = swap_in_blocks dev page (unat (drop_bit 9 nbytes)) blkno (unat (buf AND 0x3FFF)) b;
     Some (ok, if ok then b else b\<lparr>krn := krn b\<lparr>u_error := EIO\<rparr>\<rparr>)
   }"

definition swapwrite :: "u16 \<Rightarrow> u16 \<Rightarrow> u16 \<Rightarrow> u16 \<Rightarrow> u8 \<Rightarrow> bst \<Rightarrow> (bool \<times> bst) option" where
  "swapwrite dev blkno nbytes buf page b = do {
     b \<leftarrow> swap_setup blkno nbytes b;
     let (ok, b) = swap_out_blocks dev page (unat (drop_bit 9 nbytes)) blkno (unat (buf AND 0x3FFF)) b;
     Some (ok, if ok then b else b\<lparr>krn := krn b\<lparr>u_error := EIO\<rparr>\<rparr>)
   }"

text \<open>
  The loop over the four banks, in swapout() and swapin(): the first transfer starts at SWAPBASE, the last one is cut to
  what is left of SWAP\_SIZE.
\<close>

type_synonym bank_io = "u16 \<Rightarrow> u16 \<Rightarrow> u16 \<Rightarrow> u16 \<Rightarrow> u8 \<Rightarrow> bst \<Rightarrow> (bool \<times> bst) option"

definition last_size :: "bank_cfg \<Rightarrow> u16" where
  "last_size c = swap_size c + drop_bit 9 (swapbase c) - 0x60"

fun bank_loop :: "bank_io \<Rightarrow> bank_cfg \<Rightarrow> nat \<Rightarrow> nat \<Rightarrow> u16 \<Rightarrow> u16 \<Rightarrow> u16 \<Rightarrow> nat \<Rightarrow> bst \<Rightarrow> bst option" where
  "bank_loop io c p i blk base sz 0 b = Some b"
| "bank_loop io c p i blk base sz (Suc n) b = do {
     (_, b) \<leftarrow> io (swapdev c) blk (push_bit 9 sz) base (pgs (slot b p) ! i) b;
     bank_loop io c p (i + 1) (blk + sz) ((base + 0x4000) AND 0xC000) (if i = 2 then last_size c else 0x20) n b
   }"

definition all_banks :: "bank_io \<Rightarrow> bank_cfg \<Rightarrow> nat \<Rightarrow> u16 \<Rightarrow> bst \<Rightarrow> bst option" where
  "all_banks io c p mp b =
     bank_loop io c p 0 (mp * swap_size c) (swapbase c) (drop_bit 9 (0x4000 - swapbase c)) 4 b"

subsection \<open>Swapping out\<close>

definition swapout :: "bank_cfg \<Rightarrow> nat \<Rightarrow> bst \<Rightarrow> (u16 \<times> bst) option" where
  "swapout c p b =
     (if p_page (slot b p) = 0 then None
      else
        let (mp, b) = swapmap_alloc c b in
        if mp = 0 then Some (ENOMEM, b)
        else do {
          b \<leftarrow> all_banks swapwrite c p mp b;
          b \<leftarrow> pagemap_free c p b;
          Some (0, upd_bp p (\<lambda>e. e\<lparr>p_page := 0, p_page2 := mp\<rparr>) b)
        })"

text \<open>
  swapvictim(): one turn of the loop. The second test of the code looks at the status of \<open>p\<close>, the process that needs
  the memory, and not at the candidate's. \<open>p\<close> is NULL when get\_common() asks; then the code reads
  through NULL, here None.
\<close>

definition victim_step :: "nat option \<Rightarrow> bst \<Rightarrow> nat \<Rightarrow> nat option \<times> nat option \<times> u16 \<Rightarrow> (nat option \<times> nat option \<times> u16) option" where
  "victim_step p b c acc =
     (case acc of (r, f, sc) \<Rightarrow>
        if p_page (slot b c) = 0 then Some (r, f, sc)
        else
          let r = (if p_status (slot b c) = P_READY then Some c else r)
          in if pnum (p_status (slot b c)) > pnum P_READY then
               (case p of
                  None \<Rightarrow> None
                | Some p \<Rightarrow>
                    if pnum (p_status (slot b p)) \<le> pnum P_FORKING then
                      let s = waitno (krn b) - p_waitno (slot b c)
                      in if s \<ge> sc then Some (r, Some c, s) else Some (r, f, sc)
                    else Some (r, f, sc))
             else Some (r, f, sc))"

fun victim_scan :: "nat option \<Rightarrow> bst \<Rightarrow> nat list \<Rightarrow> nat option \<times> nat option \<times> u16 \<Rightarrow> (nat option \<times> nat option \<times> u16) option" where
  "victim_scan p b [] acc = Some acc"
| "victim_scan p b (c # cs) acc = do { acc \<leftarrow> victim_step p b c acc; victim_scan p b cs acc }"

text \<open>The slots in the order of the scan: from getproc\_nextp to the end and on from the start.\<close>

definition scan_order :: "bst \<Rightarrow> nat list" where
  "scan_order b = [getproc_nextp (krn b)..<ptab_end (krn b)] @ [0..<getproc_nextp (krn b)]"

definition swapvictim :: "nat option \<Rightarrow> bool \<Rightarrow> bst \<Rightarrow> nat option option" where
  "swapvictim p notself b = do {
     (r, f, sc) \<leftarrow> victim_scan p b (scan_order b) (None, None, 0);
     Some (if f \<noteq> None then f else if \<not> notself then Some (u_ptab (krn b)) else r)
   }"

definition swapneeded :: "bank_cfg \<Rightarrow> nat option \<Rightarrow> bool \<Rightarrow> bst \<Rightarrow> (nat option \<times> bst) option" where
  "swapneeded c p notself b = do {
     v \<leftarrow> swapvictim p notself b;
     case v of
       None \<Rightarrow> Some (None, b)
     | Some n \<Rightarrow> do {
         (r, b) \<leftarrow> swapout c n b;
         Some (if r \<noteq> 0 then None else Some n, b)
       }
   }"

subsection \<open>Allocation\<close>

text \<open>The loop \<^verbatim>\<open>while (needed > pfptr)\<close>; False where nothing more can be swapped out.\<close>

partial_function (option) make_room :: "bank_cfg \<Rightarrow> nat \<Rightarrow> nat \<Rightarrow> bst \<Rightarrow> (bool \<times> bst) option" where
  "make_room c p needed b =
     (if needed > unat (pfptr b) then do {
        (v, b) \<leftarrow> swapneeded c (Some p) True b;
        if v = None then Some (False, b) else make_room c p needed b
      } else Some (True, b))"

fun take_pages :: "nat \<Rightarrow> nat list \<Rightarrow> bst \<Rightarrow> bst option" where
  "take_pages p [] b = Some b"
| "take_pages p (i # is) b = do {
     (x, b) \<leftarrow> pop_page b;
     take_pages p is (upd_bp p (\<lambda>e. set_pgs ((pgs e)[i := x]) e) b)
   }"

text \<open>pagemap\_alloc2(): the pages in the low places, then the last of them (or the given common page) repeated.\<close>

definition pagemap_alloc2 :: "bank_cfg \<Rightarrow> nat \<Rightarrow> u8 \<Rightarrow> bst \<Rightarrow> (u16 \<times> bst) option" where
  "pagemap_alloc2 c p common b = do {
     let needed = maps_needed c (p_top (slot b p)) - (if common \<noteq> 0 then 1 else 0);
     (ok, b) \<leftarrow> make_room c p needed b;
     if \<not> ok then Some (ENOMEM, b)
     else do {
       b \<leftarrow> take_pages p [0..<needed] b;
       let common = (if common = 0 then pgs (slot b p) ! (needed - 1) else common);
       Some (0, upd_bp p (\<lambda>e. set_pgs (take needed (pgs e) @ replicate (4 - needed) common) e) b)
     }
   }"

definition pagemap_alloc :: "bank_cfg \<Rightarrow> nat \<Rightarrow> bst \<Rightarrow> (u16 \<times> bst) option" where
  "pagemap_alloc c p b = pagemap_alloc2 c p 0 b"

subsection \<open>Resizing the running process\<close>

text \<open>Here the pages are those of the user area, a list of four bytes \<open>l\<close>.\<close>

fun shrink_pages :: "bank_cfg \<Rightarrow> nat list \<Rightarrow> u8 list \<Rightarrow> bst \<Rightarrow> (u8 list \<times> bst) option" where
  "shrink_pages c [] l b = Some (l, b)"
| "shrink_pages c (i # is) l b = do {
     b \<leftarrow> push_page c (l ! (i - 1)) b;
     shrink_pages c is (l[i - 1 := l ! 3]) b
   }"

fun grow_pages :: "nat list \<Rightarrow> u8 list \<Rightarrow> bst \<Rightarrow> (u8 list \<times> bst) option" where
  "grow_pages [] l b = Some (l, b)"
| "grow_pages (i # is) l b = do { (x, b) \<leftarrow> pop_page b; grow_pages is (l[i - 1 := x]) b }"

text \<open>The port's program\_vectors() writes into the banks of the process: the argument \<open>vectors\<close>.\<close>

definition pagemap_realloc ::
  "bank_cfg \<Rightarrow> (u8 list \<Rightarrow> (u8 \<Rightarrow> nat \<Rightarrow> u8) \<Rightarrow> u8 \<Rightarrow> nat \<Rightarrow> u8) \<Rightarrow> u16 \<Rightarrow> bst \<Rightarrow> (u16 \<times> bst) option" where
  "pagemap_realloc c vectors sz b = do {
     let have = maps_needed c (u_top (krn b));
     let want = maps_needed c sz;
     let l = page_bytes (u_page (krn b)) (u_page2 (krn b));
     if want = have then Some (0, b)
     else if have < want \<and> want - have > unat (pfptr b) then Some (ENOMEM, b)
     else do {
       (l, b) \<leftarrow> (if have > want then shrink_pages c [want..<have] l b else grow_pages [have..<want] l b);
       let b = b\<lparr>krn := krn b\<lparr>u_page := rd16 l 0, u_page2 := rd16 l 2\<rparr>\<rparr>;
       let b = upd_bp (u_ptab (krn b)) (set_pgs l) b;
       Some (0, if have < want \<or> want = 1 then b\<lparr>bank := vectors l (bank b)\<rparr> else b)
     }
   }"

subsection \<open>Swapping in\<close>

definition swapin :: "bank_cfg \<Rightarrow> nat \<Rightarrow> u16 \<Rightarrow> bst \<Rightarrow> bst option" where
  "swapin c p mp b = (if p_page (slot b p) = 0 then Some b else all_banks swapread c p mp b)"

definition swapper2 :: "bank_cfg \<Rightarrow> nat \<Rightarrow> u16 \<Rightarrow> bst \<Rightarrow> bst option" where
  "swapper2 c p mp b = do { b \<leftarrow> swapin c p mp b; swapmap_add c (ucast mp) b }"

definition swapper :: "bank_cfg \<Rightarrow> nat \<Rightarrow> bst \<Rightarrow> bst option" where
  "swapper c p b = do {
     let mp = p_page2 (slot b p);
     (_, b) \<leftarrow> pagemap_alloc c p b;
     swapper2 c p mp b
   }"

definition swap_finish :: "bank_cfg \<Rightarrow> u8 \<Rightarrow> nat \<Rightarrow> bst \<Rightarrow> bst option" where
  "swap_finish c page p b = do {
     let mp = p_page2 (slot b p);
     (_, b) \<leftarrow> pagemap_alloc2 c p page b;
     swapper2 c p mp b
   }"

text \<open>get\_common(); copy\_common() is the port's.\<close>

definition get_common ::
  "bank_cfg \<Rightarrow> (u8 \<Rightarrow> (u8 \<Rightarrow> nat \<Rightarrow> u8) \<Rightarrow> u8 \<Rightarrow> nat \<Rightarrow> u8) \<Rightarrow> bst \<Rightarrow> (u8 \<times> bst) option" where
  "get_common c copy_common b =
     (if p_status (self (krn b)) = P_ZOMBIE \<or> p_status (self (krn b)) = P_EMPTY then pop_page b
      else if pfptr b \<noteq> 0 then do {
        (ret, b) \<leftarrow> pop_page b;
        Some (ret, b\<lparr>bank := copy_common ret (bank b)\<rparr>)
      } else do {
        (_, b) \<leftarrow> swapneeded c None False b;
        pop_page b
      })"

end
