(* ===== verification/BankSpec.thy ===== *)
theory BankSpec
  imports Banks "HOL-Library.Multiset"
begin

text \<open>
  Pages and swap slots are conserved: every page belongs to the free list or to exactly one live process, every swap slot to
  the free slots or to exactly one swapped process. A process that is swapped out and in again finds its
  memory as it was, wherever its new pages are.
\<close>

subsection \<open>Page bytes\<close>

lemma le16_rd16: "le16 (rd16 (a # x # xs) 0) = [a, x]"
proof -
  have "(ucast (rd16 (a # x # xs) 0) :: u8) = a" "(ucast (drop_bit 8 (rd16 (a # x # xs) 0)) :: u8) = x"
    by (rule bit_word_eqI; auto simp: rd16_def bit_simps dest: bit_imp_le_length)+
  then show ?thesis by (simp add: le16_def)
qed

lemma four: "length (l :: u8 list) = 4 \<Longrightarrow> \<exists>w x y z. l = [w, x, y, z]"
  by (auto simp: length_Suc_conv eval_nat_numeral)

lemma length_pgs [simp]: "length (pgs e) = 4" "length (page_bytes w w2) = 4"
  by (simp_all add: pgs_def page_bytes_def)

lemma page_bytes_rd: "length l = 4 \<Longrightarrow> page_bytes (rd16 l 0) (rd16 l 2) = l"
proof -
  assume "length l = 4"
  then obtain w x y z where l: "l = [w, x, y, z]" using four by blast
  have "rd16 l 2 = rd16 [y, z] 0" by (simp add: l rd16_def numeral_2_eq_2)
  then show ?thesis by (simp add: page_bytes_def l le16_rd16)
qed

lemma pgs_set [simp]: "length l = 4 \<Longrightarrow> pgs (set_pgs l e) = l"
  by (simp add: pgs_def set_pgs_def page_bytes_rd)

lemma set_pgs_frame [simp]:
  "p_status (set_pgs l e) = p_status e" "p_top (set_pgs l e) = p_top e" "p_waitno (set_pgs l e) = p_waitno e"
  by (simp_all add: set_pgs_def)

lemma page_zero: "p_page e = 0 \<Longrightarrow> pgs e ! 0 = 0"
  by (simp add: pgs_def page_bytes_def le16_def)

lemma set_pgs_same [simp]: "set_pgs (pgs e) e = e"
proof -
  have "rd16 (le16 v @ le16 w) 2 = w" for v w
    using rd16_skip [of "le16 v" 2 "le16 w"] rd16_le16 [of w "[]"] by simp
  then show ?thesis by (simp add: set_pgs_def pgs_def page_bytes_def rd16_le16)
qed

lemma set_pgs_set [simp]: "set_pgs l (set_pgs m e) = set_pgs l e"
  by (simp add: set_pgs_def)

subsection \<open>Stacks of numbers\<close>

text \<open>The free pages and the free swap slots are used alike: a number is put on top or taken from the top, and nothing else changes.\<close>

locale number_stack =
  fixes items :: "'s \<Rightarrow> u8 list"
    and others :: "'s \<Rightarrow> 'r"
    and put :: "u8 \<Rightarrow> 's \<Rightarrow> 's option"
    and get :: "'s \<Rightarrow> (u8 \<times> 's) option"
    and cap :: nat
  assumes put_law: "length (items s) < cap \<Longrightarrow> \<exists>t. put x s = Some t \<and> items t = items s @ [x] \<and> others t = others s"
    and get_law: "items s = xs @ [x] \<Longrightarrow> \<exists>t. get s = Some (x, t) \<and> items t = xs \<and> others t = others s"
begin

lemma put_some:
  assumes "length (items s) < cap"
  obtains t where "put x s = Some t" "items t = items s @ [x]" "others t = others s"
  using put_law [OF assms] by blast

lemma get_some:
  assumes "items s \<noteq> []"
  obtains x t where "get s = Some (x, t)" "items s = items t @ [x]" "others t = others s"
proof -
  from assms obtain xs x where "items s = xs @ [x]" by (cases "items s" rule: rev_cases) auto
  then show ?thesis using get_law [OF \<open>items s = xs @ [x]\<close>] that by auto
qed

lemma put_get: "length (items s) < cap \<Longrightarrow> \<exists>t u. put x s = Some t \<and> get t = Some (x, u) \<and> items u = items s \<and> others u = others s"
  using put_law [of s x] get_law by metis

end

definition free_pages :: "bst \<Rightarrow> u8 list" where
  "free_pages b = map (pfree b) [0..<unat (pfptr b)]"

definition free_slots :: "bst \<Rightarrow> u8 list" where
  "free_slots b = map (swapmap b) [0..<unat (swapptr b)]"

lemma length_free [simp]: "length (free_pages b) = unat (pfptr b)" "length (free_slots b) = unat (swapptr b)"
  by (simp_all add: free_pages_def free_slots_def)

lemma stack_push:
  assumes "unat (n :: u8) < k" "k \<le> 255"
  shows "map (f(unat n := x)) [0..<unat (n + 1)] = map f [0..<unat n] @ [x]" "unat (n + 1) = Suc (unat n)"
proof -
  show u: "unat (n + 1) = Suc (unat n)"
    using assms by (simp add: unat_word_ariths)
  show "map (f(unat n := x)) [0..<unat (n + 1)] = map f [0..<unat n] @ [x]" by (simp add: u)
qed

lemma stack_pop:
  assumes "map f [0..<unat (n :: u8)] = xs @ [x]"
  shows "n \<noteq> 0" "f (unat (n - 1)) = x" "map f [0..<unat (n - 1)] = xs"
proof -
  show n: "n \<noteq> 0" using assms by auto
  then have u: "unat n = Suc (unat (n - 1))" using unat_dec [OF n] by (simp add: unat_eq_0 neq0_conv [symmetric])
  show "f (unat (n - 1)) = x" "map f [0..<unat (n - 1)] = xs" using assms unfolding u by simp_all
qed

definition page_rest :: "bst \<Rightarrow> kst \<times> u8 list \<times> (u8 \<Rightarrow> nat \<Rightarrow> u8)" where
  "page_rest b = (krn b, free_slots b, bank b)"

definition slot_rest :: "bst \<Rightarrow> kst \<times> u8 list \<times> (u8 \<Rightarrow> nat \<Rightarrow> u8)" where
  "slot_rest b = (krn b, free_pages b, bank b)"

lemma push_page_stack:
  assumes "length (free_pages b) < k" "k = max_maps c" "k \<le> 255"
  shows "\<exists>t. push_page c x b = Some t \<and> free_pages t = free_pages b @ [x] \<and> page_rest t = page_rest b"
  using assms stack_push(1) [of "pfptr b" k "pfree b" x]
  by (simp add: push_page_def free_pages_def page_rest_def free_slots_def)

lemma pop_page_stack:
  assumes "free_pages b = xs @ [x]"
  shows "\<exists>t. pop_page b = Some (x, t) \<and> free_pages t = xs \<and> page_rest t = page_rest b"
  using stack_pop [OF assms [unfolded free_pages_def]]
  by (simp add: pop_page_def free_pages_def page_rest_def free_slots_def)

text \<open>swapmap\_alloc() answers 0 for an empty stack.\<close>

definition slot_get :: "bank_cfg \<Rightarrow> bst \<Rightarrow> (u8 \<times> bst) option" where
  "slot_get c b = (if swapptr b = 0 then None else let (mp, b) = swapmap_alloc c b in Some (ucast mp, b))"

lemma byte_up_down [simp]: "ucast (ucast x :: u16) = (x :: u8)"
  by transfer simp

lemma byte_up_zero [simp]: "(ucast (x :: u8) :: u16) = 0 \<longleftrightarrow> x = 0"
  by (metis byte_up_down unsigned_0)

lemma swapmap_add_stack:
  assumes "length (free_slots b) < k" "k = max_swaps c" "k \<le> 255"
  shows "\<exists>t. swapmap_add c x b = Some t \<and> free_slots t = free_slots b @ [x] \<and> slot_rest t = slot_rest b"
  using assms stack_push(1) [of "swapptr b" k "swapmap b" x]
  by (simp add: swapmap_add_def free_slots_def slot_rest_def free_pages_def)

lemma slot_get_stack:
  assumes "free_slots b = xs @ [x]"
  shows "\<exists>t. slot_get c b = Some (x, t) \<and> free_slots t = xs \<and> slot_rest t = slot_rest b"
  using stack_pop [OF assms [unfolded free_slots_def]]
  by (simp add: slot_get_def swapmap_alloc_def Let_def free_slots_def slot_rest_def free_pages_def)

interpretation pages: number_stack free_pages page_rest "push_page c" pop_page "min (max_maps c) (if max_maps c \<le> 255 then 255 else 0)" for c
  by unfold_locales (use push_page_stack pop_page_stack in \<open>auto split: if_splits\<close>)

interpretation slots: number_stack free_slots slot_rest "swapmap_add c" "slot_get c" "min (max_swaps c) (if max_swaps c \<le> 255 then 255 else 0)" for c
  by unfold_locales (use swapmap_add_stack slot_get_stack in \<open>auto split: if_splits\<close>)

subsection \<open>The pages of one process\<close>

text \<open>A process of \<open>n\<close> banks holds \<open>n\<close> pages; the last one fills the places that are left.\<close>

definition spread :: "nat \<Rightarrow> u8 list \<Rightarrow> bool" where
  "spread n l \<longleftrightarrow> 1 \<le> n \<and> n \<le> 4 \<and> length l = 4 \<and> drop n l = replicate (4 - n) (l ! (n - 1))"

lemma last_take_nth: "1 \<le> n \<Longrightarrow> n \<le> length l \<Longrightarrow> last (take n l) = l ! (n - 1)"
  by (subst last_conv_nth) auto

lemma spread_last: "spread n l \<Longrightarrow> l = take n l @ replicate (4 - n) (last (take n l))"
  using append_take_drop_id [of n l] by (simp add: spread_def last_take_nth)

lemma spread_top: "spread n l \<Longrightarrow> l ! 3 = l ! (n - 1)"
proof -
  assume s: "spread n l"
  show ?thesis
  proof (cases "n = 4")
    case False
    then have n: "n < 4" using s by (simp add: spread_def)
    have "drop n l ! (3 - n) = l ! (n + (3 - n))" by (rule nth_drop) (use s in \<open>simp add: spread_def\<close>)
    moreover have "drop n l ! (3 - n) = l ! (n - 1)"
      using s n nth_replicate [of "3 - n" "4 - n" "l ! (n - 1)"] by (simp add: spread_def)
    ultimately show ?thesis using n by simp
  qed simp
qed

lemma free_loop_same: "free_loop c (replicate k x) x b = Some b"
  by (induction k) auto

lemma push_some:
  assumes "max_maps c \<le> 255" "length (free_pages b) < max_maps c"
  obtains t where "push_page c x b = Some t" "free_pages t = free_pages b @ [x]" "page_rest t = page_rest b"
  using pages.put_some [of b c] assms by auto

lemma free_loop_own:
  "max_maps c \<le> 255 \<Longrightarrow> distinct (prev # xs) \<Longrightarrow> length (free_pages b) + length xs \<le> max_maps c \<Longrightarrow>
   \<exists>t. free_loop c (xs @ replicate k (last (prev # xs))) prev b = Some t \<and> free_pages t = free_pages b @ xs
     \<and> page_rest t = page_rest b"
proof (induction xs arbitrary: prev b)
  case Nil
  then show ?case by (simp add: free_loop_same)
next
  case (Cons x xs)
  obtain u where u: "push_page c x b = Some u" "free_pages u = free_pages b @ [x]" "page_rest u = page_rest b"
    using push_some [of c b x] Cons.prems by auto
  have "last (prev # x # xs) = last (x # xs)" by simp
  moreover have "length (free_pages u) + length xs \<le> max_maps c" unfolding u(2) using Cons.prems by simp
  ultimately show ?case using Cons.IH [of x u] Cons.prems(1,2) u by auto
qed

lemma shrink_pages_run:
  "max_maps c \<le> 255 \<Longrightarrow> i \<le> h \<Longrightarrow> 1 \<le> i \<Longrightarrow> h \<le> 4 \<Longrightarrow> length l = 4 \<Longrightarrow> length (free_pages b) + (h - i) \<le> max_maps c \<Longrightarrow>
   \<exists>t. shrink_pages c [i..<h] l b = Some (take (i - 1) l @ replicate (h - i) (l ! 3) @ drop (h - 1) l, t)
     \<and> free_pages t = free_pages b @ drop (i - 1) (take (h - 1) l) \<and> page_rest t = page_rest b"
proof (induction "h - i" arbitrary: i l b)
  case 0
  then have i: "i = h" by simp
  show ?case using 0 append_take_drop_id [of "h - 1" l] by (simp add: i)
next
  case (Suc d)
  obtain u where u: "push_page c (l ! (i - 1)) b = Some u" "free_pages u = free_pages b @ [l ! (i - 1)]"
    "page_rest u = page_rest b"
    by (rule push_some [of c b "l ! (i - 1)"]) (use Suc.prems(1,6) Suc.hyps(2) in linarith)+
  let ?m = "l[i - 1 := l ! 3]"
  have i: "i < h" using Suc.hyps(2) by simp
  have room: "length (free_pages u) + (h - Suc i) \<le> max_maps c"
    using Suc.prems(6) i unfolding u(2) by simp
  have m: "?m ! 3 = l ! 3" using Suc.prems i by (simp add: nth_list_update)
  have e1: "take i ?m = take (i - 1) l @ [l ! 3]"
    using Suc.prems i take_Suc_conv_app_nth [of "i - 1" ?m] by simp
  have e2: "drop (h - 1) ?m = drop (h - 1) l" using i Suc.prems by (simp add: drop_update_cancel)
  have e3: "drop i (take (h - 1) ?m) = drop i (take (h - 1) l)"
    using i Suc.prems by (simp add: take_update_swap drop_update_cancel)
  have e4: "drop (i - 1) (take (h - 1) l) = l ! (i - 1) # drop i (take (h - 1) l)"
    using i Suc.prems Cons_nth_drop_Suc [of "i - 1" "take (h - 1) l"] by simp
  have e5: "replicate (h - i) (l ! 3) = l ! 3 # replicate (h - Suc i) (l ! 3)"
    using i by (simp add: Suc_diff_Suc replicate_Suc [symmetric] del: replicate_Suc)
  have d: "d = h - Suc i" and le: "Suc i \<le> h" and one: "1 \<le> Suc i" and len: "length ?m = 4"
    using Suc.hyps(2) Suc.prems(5) by simp_all
  obtain t where t: "shrink_pages c [Suc i..<h] ?m u = Some (take (Suc i - 1) ?m @ replicate (h - Suc i) (?m ! 3) @ drop (h - 1) ?m, t)"
    "free_pages t = free_pages u @ drop (Suc i - 1) (take (h - 1) ?m)" "page_rest t = page_rest u"
    using Suc.hyps(1) [OF d Suc.prems(1) le one Suc.prems(4) len room] by blast
  have "[i..<h] = i # [Suc i..<h]" using i by (rule upt_conv_Cons)
  then show ?case using t u(1,3) e1 e2 e3 e4 e5 m u(2) by simp
qed

lemma grow_pages_run:
  "i \<le> h \<Longrightarrow> 1 \<le> i \<Longrightarrow> h \<le> 4 \<Longrightarrow> length l = 4 \<Longrightarrow> h - i \<le> length (free_pages b) \<Longrightarrow>
   \<exists>t xs. grow_pages [i..<h] l b = Some (take (i - 1) l @ xs @ drop (h - 1) l, t) \<and> length xs = h - i
     \<and> free_pages b = free_pages t @ rev xs \<and> page_rest t = page_rest b"
proof (induction "h - i" arbitrary: i l b)
  case 0
  then have i: "i = h" by simp
  show ?case using 0 append_take_drop_id [of "h - 1" l] by (simp add: i)
next
  case (Suc d)
  have i: "i < h" using Suc.hyps(2) by simp
  obtain x u where u: "pop_page b = Some (x, u)" "free_pages b = free_pages u @ [x]" "page_rest u = page_rest b"
    using pages.get_some [of b] Suc.prems i by (metis diff_is_0_eq le_zero_eq list.size(3) not_le)
  let ?m = "l[i - 1 := x]"
  have room: "h - Suc i \<le> length (free_pages u)" using Suc.prems(5) u(2) i by simp
  have e1: "take i ?m = take (i - 1) l @ [x]"
    using Suc.prems i take_Suc_conv_app_nth [of "i - 1" ?m] by simp
  have e2: "drop (h - 1) ?m = drop (h - 1) l" using i Suc.prems by (simp add: drop_update_cancel)
  have d: "d = h - Suc i" and le: "Suc i \<le> h" and one: "1 \<le> Suc i" and len: "length ?m = 4"
    using Suc.hyps(2) Suc.prems(4) by simp_all
  obtain t xs where t: "grow_pages [Suc i..<h] ?m u = Some (take (Suc i - 1) ?m @ xs @ drop (h - 1) ?m, t)"
    "length xs = h - Suc i" "free_pages u = free_pages t @ rev xs" "page_rest t = page_rest u"
    using Suc.hyps(1) [OF d le one Suc.prems(3) len room] by blast
  have "[i..<h] = i # [Suc i..<h]" using i by (rule upt_conv_Cons)
  then show ?case using t u e1 e2 i by (intro exI [of _ t] exI [of _ "x # xs"]) simp
qed

lemma take_pages_run:
  "i \<le> n \<Longrightarrow> n \<le> 4 \<Longrightarrow> n - i \<le> length (free_pages b) \<Longrightarrow>
   \<exists>t xs. take_pages p [i..<n] b = Some t \<and> length xs = n - i \<and> free_pages b = free_pages t @ rev xs
     \<and> page_rest t = page_rest (upd_bp p (\<lambda>e. set_pgs (take i (pgs e) @ xs @ drop n (pgs e)) e) b)"
proof (induction "n - i" arbitrary: i b)
  case 0
  then have i: "i = n" by simp
  show ?case using 0 by (simp add: i upd_p_def set_pgs_same)
next
  case (Suc d)
  have i: "i < n" using Suc.hyps(2) by simp
  obtain x u where u: "pop_page b = Some (x, u)" "free_pages b = free_pages u @ [x]" "page_rest u = page_rest b"
    using pages.get_some [of b] Suc.prems i by (metis diff_is_0_eq le_zero_eq list.size(3) not_le)
  let ?l = "pgs (slot b p)"
  define v where "v = upd_bp p (\<lambda>e. set_pgs ((pgs e)[i := x]) e) u"
  have v: "free_pages v = free_pages u" "slot v p = set_pgs (?l[i := x]) (slot b p)"
    using u(3) by (simp_all add: v_def free_pages_def page_rest_def upd_p_def)
  have room: "n - Suc i \<le> length (free_pages v)" using Suc.prems(3) u(2) i unfolding v by simp
  have le: "Suc i \<le> n" using i by simp
  have d: "d = n - Suc i" using Suc.hyps(2) by simp
  obtain t xs where t: "take_pages p [Suc i..<n] v = Some t" "length xs = n - Suc i" "free_pages v = free_pages t @ rev xs"
    "page_rest t = page_rest (upd_bp p (\<lambda>e. set_pgs (take (Suc i) (pgs e) @ xs @ drop n (pgs e)) e) v)"
    using Suc.hyps(1) [OF d le Suc.prems(2) room] by blast
  have e: "take (Suc i) (?l[i := x]) = take i ?l @ [x]" "drop n (?l[i := x]) = drop n ?l"
    using i Suc.prems(2) take_Suc_conv_app_nth [of i "?l[i := x]"] by simp_all
  have r: "page_rest (upd_bp p (\<lambda>e. set_pgs (take (Suc i) (pgs e) @ xs @ drop n (pgs e)) e) v)
      = page_rest (upd_bp p (\<lambda>e. set_pgs (take i (pgs e) @ (x # xs) @ drop n (pgs e)) e) b)"
    using u(3) e by (simp add: v_def page_rest_def free_slots_def upd_p_def)
  have "[i..<n] = i # [Suc i..<n]" using i by (rule upt_conv_Cons)
  then have "take_pages p [i..<n] b = Some t" using t(1) u(1) by (simp add: v_def)
  then show ?case using t u(2) v(1) r i by (intro exI [of _ t] exI [of _ "x # xs"]) simp
qed

subsection \<open>Transfers leave the tables alone\<close>

definition mem_core :: "bst \<Rightarrow> (nat \<Rightarrow> p_tab) \<times> nat \<times> nat \<times> u16 \<times> u16 \<times> u16 \<times> u16 \<times> nat \<times> platform" where
  "mem_core b = (let k = krn b in (ptab k, ptab_end k, u_ptab k, u_page k, u_page2 k, u_top k, waitno k, getproc_nextp k, plat k))"

lemma mem_core_fields:
  assumes "mem_core b' = mem_core b"
  shows "ptab (krn b') = ptab (krn b)" "ptab_end (krn b') = ptab_end (krn b)" "u_ptab (krn b') = u_ptab (krn b)"
    "u_page (krn b') = u_page (krn b)" "u_page2 (krn b') = u_page2 (krn b)" "u_top (krn b') = u_top (krn b)"
    "waitno (krn b') = waitno (krn b)" "getproc_nextp (krn b') = getproc_nextp (krn b)" "plat (krn b') = plat (krn b)"
  using assms by (simp_all add: mem_core_def Let_def)

definition moved :: "bst \<Rightarrow> bst \<Rightarrow> bool" where
  "moved b b' \<longleftrightarrow> b' = b\<lparr>krn := krn b', bank := bank b'\<rparr> \<and> mem_core b' = mem_core b"

lemma moved_refl [simp]: "moved b b"
  by (simp add: moved_def)

lemma moved_trans: "moved a b \<Longrightarrow> moved b d \<Longrightarrow> moved a d"
  unfolding moved_def by (metis (no_types, lifting) bst.surjective bst.update_convs(1,8))

lemma moved_free: "moved b b' \<Longrightarrow> free_pages b' = free_pages b \<and> free_slots b' = free_slots b"
  unfolding moved_def free_pages_def free_slots_def by (metis bst.select_convs(2-5) bst.surjective bst.update_convs(1,8))

lemma moved_step:
  "mem_core (b\<lparr>krn := k\<rparr>) = mem_core b \<Longrightarrow> moved b (b\<lparr>krn := k\<rparr>)" "moved b (b\<lparr>bank := m\<rparr>)"
  by (simp_all add: moved_def mem_core_def Let_def)

lemma swap_out_moved: "moved b (snd (swap_out_blocks dev page n blk off b))"
proof (induction n arbitrary: blk off b)
  case (Suc n)
  have "moved b (b\<lparr>krn := krn b\<lparr>disk := d\<rparr>\<rparr>)" for d by (rule moved_step(1)) (simp add: mem_core_def Let_def)
  note m = moved_trans [OF this Suc]
  show ?case by (simp add: Let_def m)
qed simp

lemma swap_in_moved: "moved b (snd (swap_in_blocks dev page n blk off b))"
proof (induction n arbitrary: blk off b)
  case (Suc n)
  show ?case using Suc by (auto simp: Let_def intro: moved_trans [OF moved_step(2)])
qed simp

lemma whole_blocks [simp]: "push_bit 9 sz AND 511 = (0 :: u16)"
proof -
  have "(511 :: u16) = mask 9" by (simp add: mask_eq_exp_minus_1)
  then show ?thesis by (simp only: take_bit_eq_mask [symmetric] take_bit_push_bit) simp
qed

lemma swap_io_moved:
  assumes "io = swapwrite \<or> io = swapread"
  shows "\<exists>r b'. io dev blk (push_bit 9 sz) buf page b = Some (r, b') \<and> moved b b'"
proof -
  let ?k = "krn b\<lparr>u_block := blk, u_nblock := drop_bit 9 (push_bit 9 sz)\<rparr>"
  have s: "swap_setup blk (push_bit 9 sz) b = Some (b\<lparr>krn := ?k\<rparr>)" "moved b (b\<lparr>krn := ?k\<rparr>)"
    by (auto simp: swap_setup_def mem_core_def Let_def intro!: moved_step(1))
  have e: "moved d (d\<lparr>krn := krn d\<lparr>u_error := EIO\<rparr>\<rparr>)" for d
    by (rule moved_step(1)) (simp add: mem_core_def Let_def)
  show ?thesis
    using assms
  proof
    assume io: "io = swapwrite"
    show ?thesis
      using s(2) swap_out_moved [of "b\<lparr>krn := ?k\<rparr>"] e unfolding io swapwrite_def s(1)
      by (auto simp: Let_def split: prod.splits intro: moved_trans)
         (metis (no_types, lifting) moved_trans snd_conv)+
  next
    assume io: "io = swapread"
    show ?thesis
      using s(2) swap_in_moved [of "b\<lparr>krn := ?k\<rparr>"] e unfolding io swapread_def s(1)
      by (auto simp: Let_def split: prod.splits intro: moved_trans)
         (metis (no_types, lifting) moved_trans snd_conv)+
  qed
qed

lemma all_banks_moved:
  assumes "io = swapwrite \<or> io = swapread"
  shows "\<exists>b'. all_banks io c p mp b = Some b' \<and> moved b b'"
proof -
  have "\<exists>b'. bank_loop io c p i blk base sz n b = Some b' \<and> moved b b'" for n i blk base sz
  proof (induction n arbitrary: i blk base sz b)
    case (Suc n)
    obtain r d where d: "io (swapdev c) blk (push_bit 9 sz) base (pgs (slot b p) ! i) b = Some (r, d)" "moved b d"
      using swap_io_moved [OF assms] by blast
    obtain b' where "bank_loop io c p (i + 1) (blk + sz) ((base + 0x4000) AND 0xC000)
        (if i = 2 then last_size c else 0x20) n d = Some b'" "moved d b'"
      using Suc by blast
    then show ?case using d moved_trans by auto
  qed simp
  then show ?thesis by (simp add: all_banks_def)
qed

subsection \<open>Who has which page\<close>

definition live :: "p_tab \<Rightarrow> bool" where
  "live e \<longleftrightarrow> p_status e \<noteq> P_EMPTY \<and> p_status e \<noteq> P_ZOMBIE"

definition holders :: "bst \<Rightarrow> nat set" where
  "holders b = {p. p < ptab_end (krn b) \<and> live (slot b p) \<and> p_page (slot b p) \<noteq> 0}"

definition swapped :: "bst \<Rightarrow> nat set" where
  "swapped b = {p. p < ptab_end (krn b) \<and> live (slot b p) \<and> p_page (slot b p) = 0}"

abbreviation needs :: "bank_cfg \<Rightarrow> p_tab \<Rightarrow> nat" where
  "needs c e \<equiv> maps_needed c (p_top e)"

definition own :: "bank_cfg \<Rightarrow> p_tab \<Rightarrow> u8 list" where
  "own c e = take (needs c e) (pgs e)"

definition slot_of :: "p_tab \<Rightarrow> u8" where
  "slot_of e = ucast (p_page2 e)"

definition mem_cfg :: "bank_cfg \<Rightarrow> u8 set \<Rightarrow> u8 set \<Rightarrow> bool" where
  "mem_cfg c P S \<longleftrightarrow> max_maps c \<le> 255 \<and> card P \<le> max_maps c \<and> 0 \<notin> P \<and> 255 \<notin> P
     \<and> max_swaps c \<le> 255 \<and> card S \<le> max_swaps c \<and> 0 \<notin> S"

definition mem_ok :: "bank_cfg \<Rightarrow> u8 set \<Rightarrow> u8 set \<Rightarrow> bst \<Rightarrow> bool" where
  "mem_ok c P S b \<longleftrightarrow>
     mset (free_pages b) + (\<Sum>p\<in>holders b. mset (own c (slot b p))) = mset_set P
     \<and> (\<forall>p\<in>holders b. spread (needs c (slot b p)) (pgs (slot b p)))
     \<and> mset (free_slots b) + (\<Sum>p\<in>swapped b. {#slot_of (slot b p)#}) = mset_set S
     \<and> (\<forall>p\<in>swapped b. p_page2 (slot b p) = ucast (slot_of (slot b p)))
     \<and> (u_ptab (krn b) \<in> holders b \<longrightarrow>
          pgs (self (krn b)) = page_bytes (u_page (krn b)) (u_page2 (krn b)) \<and> u_top (krn b) = p_top (self (krn b)))
     \<and> getproc_nextp (krn b) < ptab_end (krn b)"

lemma finite_holders [simp]: "finite (holders b)" "finite (swapped b)"
  by (simp_all add: holders_def swapped_def)

lemma needs_range: "1 \<le> maps_needed c t" "maps_needed c t \<le> 4"
proof -
  have "unat (drop_bit 14 (w :: u16)) < 4" for w
    using u16_bound [of w] by (simp add: unat_drop_bit_eq drop_bit_nat_def less_mult_imp_div_less)
  then show "maps_needed c t \<le> 4" by (simp add: maps_needed_def Suc_le_eq)
qed (simp add: maps_needed_def)

lemma part_of_set:
  assumes "mset xs \<subseteq># mset_set P"
  shows "distinct xs" "set xs \<subseteq> P"
proof -
  have le: "count (mset xs) x \<le> 1" for x
    by (rule order_trans [OF mset_subset_eq_count [OF assms]]) (simp add: count_mset_set')
  have "count (mset xs) x = (if x \<in> set xs then 1 else 0)" for x
  proof (cases "x \<in> set xs")
    case True
    then have "0 < count (mset xs) x" by simp
    with le [of x] have "count (mset xs) x = 1" by linarith
    then show ?thesis using True by simp
  next
    case False
    then show ?thesis by (simp add: count_eq_zero_iff)
  qed
  then show "distinct xs" by (simp add: distinct_count_atmost_1)
  show "set xs \<subseteq> P" using set_mset_mono [OF assms] by (cases "finite P") auto
qed

lemma own_part:
  assumes "mem_ok c P S b" "p \<in> holders b"
  shows "mset (free_pages b) + mset (own c (slot b p)) \<subseteq># mset_set P"
proof -
  have "(\<Sum>q\<in>holders b. mset (own c (slot b q))) = mset (own c (slot b p)) + (\<Sum>q\<in>holders b - {p}. mset (own c (slot b q)))"
    using assms(2) by (intro sum.remove) auto
  then have "mset_set P = (mset (free_pages b) + mset (own c (slot b p))) + (\<Sum>q\<in>holders b - {p}. mset (own c (slot b q)))"
    using assms(1) by (simp add: mem_ok_def ac_simps)
  then show ?thesis by simp
qed

lemma pages_room:
  assumes "mem_cfg c P S" "mset xs \<subseteq># mset_set P"
  shows "length xs \<le> max_maps c"
proof -
  have "length xs \<le> size (mset_set P)" using size_mset_mono [OF assms(2)] by simp
  then show ?thesis using assms(1) by (simp add: mem_cfg_def)
qed

text \<open>pagemap\_free() gives back exactly the pages the process has.\<close>

lemma pagemap_free_own:
  assumes "mem_cfg c P S" "mset (free_pages b) + mset (own c (slot b p)) \<subseteq># mset_set P"
    "spread (needs c (slot b p)) (pgs (slot b p))"
  obtains t where "pagemap_free c p b = Some t" "free_pages t = free_pages b @ own c (slot b p)" "page_rest t = page_rest b"
proof -
  let ?n = "needs c (slot b p)" and ?l = "pgs (slot b p)"
  have part: "mset (own c (slot b p)) \<subseteq># mset_set P"
    using assms(2) by (meson mset_subset_eq_add_right subset_mset.order_trans)
  have "255 \<notin> set (own c (slot b p))" using part_of_set(2) [OF part] assms(1) by (auto simp: mem_cfg_def)
  then have d: "distinct (255 # own c (slot b p))" using part_of_set(1) [OF part] by simp
  have room: "length (free_pages b) + length (own c (slot b p)) \<le> max_maps c"
    using pages_room [OF assms(1), of "free_pages b @ own c (slot b p)"] assms(2) by simp
  have ne: "own c (slot b p) \<noteq> []" using assms(3) by (simp add: own_def spread_def) (metis length_pgs(1) list.size(3) zero_neq_numeral)
  have l: "?l = own c (slot b p) @ replicate (4 - ?n) (last (255 # own c (slot b p)))"
    using spread_last [OF assms(3)] ne by (simp add: own_def)
  have c: "max_maps c \<le> 255" using assms(1) by (simp add: mem_cfg_def)
  obtain t where t: "free_loop c (own c (slot b p) @ replicate (4 - ?n) (last (255 # own c (slot b p)))) 255 b = Some t"
    "free_pages t = free_pages b @ own c (slot b p)" "page_rest t = page_rest b"
    using free_loop_own [OF c d room] by blast
  show ?thesis using that [of t] t unfolding pagemap_free_def l [symmetric] by blast
qed

subsection \<open>What a swap-out writes\<close>

text \<open>\<open>n\<close> blocks from \<open>blk\<close> on; a block lies outside when its distance is at least \<open>n\<close>.\<close>

definition writes_only :: "u16 \<Rightarrow> u16 \<Rightarrow> nat \<Rightarrow> bst \<Rightarrow> bst \<Rightarrow> bool" where
  "writes_only dev blk n b b' \<longleftrightarrow>
     (\<forall>d y. d \<noteq> dev \<or> n \<le> unat (y - blk) \<longrightarrow> disk (krn b') d y = disk (krn b) d y)"

lemma writes_only_more: "writes_only dev blk n b b' \<Longrightarrow> n \<le> m \<Longrightarrow> writes_only dev blk m b b'"
  by (auto simp: writes_only_def)

lemma dist_shift:
  assumes "k + n \<le> unat (y - blk :: u16)"
  shows "n \<le> unat (y - (blk + of_nat k))"
proof -
  have k: "k < 65536" using assms u16_bound [of "y - blk"] by linarith
  have e: "y - (blk + of_nat k) = (y - blk) - of_nat k" by simp
  have "unat (of_nat k :: u16) = k" using k by (simp add: unat_of_nat take_bit_nat_eq_self)
  then have "unat ((y - blk) - of_nat k) = unat (y - blk) - k" using assms by (simp add: unat_sub word_le_nat_alt)
  then show ?thesis unfolding e using assms by simp
qed

lemma writes_only_append:
  assumes "writes_only dev blk k a b" "writes_only dev (blk + of_nat k) n b d"
  shows "writes_only dev blk (k + n) a d"
  using assms dist_shift unfolding writes_only_def by (metis add_leD1)

lemma swap_out_writes:
  "writes_only dev blk n b (snd (swap_out_blocks dev page n blk off b))"
proof (induction n arbitrary: blk off b)
  case 0
  then show ?case by (simp add: writes_only_def)
next
  case (Suc n)
  let ?b = "b\<lparr>krn := krn b\<lparr>disk := (disk (krn b))(dev := (disk (krn b) dev)(blk := bank_block (bank b page) off))\<rparr>\<rparr>"
  have "writes_only dev blk 1 b ?b" by (auto simp: writes_only_def)
  then have "writes_only dev blk (1 + n) b (snd (swap_out_blocks dev page n (blk + of_nat 1) (off + 512) ?b))"
    using Suc by (rule writes_only_append)
  then show ?case by (simp add: Let_def) (simp add: writes_only_def)
qed

lemma swap_out_content:
  "\<forall>y. blk_wr_ok (plat (krn b)) dev y \<Longrightarrow> n \<le> 65536 \<Longrightarrow>
    fst (swap_out_blocks dev page n blk off b) \<and>
    (\<forall>k<n. disk (krn (snd (swap_out_blocks dev page n blk off b))) dev (blk + of_nat k) = bank_block (bank b page) (off + 512 * k))"
proof (induction n arbitrary: blk off b)
  case 0
  then show ?case by simp
next
  case (Suc n)
  let ?b = "b\<lparr>krn := krn b\<lparr>disk := (disk (krn b))(dev := (disk (krn b) dev)(blk := bank_block (bank b page) off))\<rparr>\<rparr>"
  let ?r = "swap_out_blocks dev page n (blk + 1) (off + 512) ?b"
  have r: "swap_out_blocks dev page (Suc n) blk off b = ?r" using Suc.prems(1) by (simp add: Let_def)
  have ih: "fst ?r" "k < n \<Longrightarrow> disk (krn (snd ?r)) dev (blk + 1 + of_nat k) = bank_block (bank b page) (off + 512 + 512 * k)" for k
    using Suc.IH [of ?b "blk + 1" "off + 512"] Suc.prems by auto
  have "blk - (blk + 1) = (-1 :: u16)" by simp
  then have "n \<le> unat (blk - (blk + 1))" using Suc.prems(2) by (simp add: unsigned_minus_1_eq_mask mask_eq_exp_minus_1)
  then have z: "disk (krn (snd ?r)) dev blk = bank_block (bank b page) off"
    using swap_out_writes [of dev "blk + 1" n ?b page "off + 512"] by (simp add: writes_only_def)
  have "disk (krn (snd ?r)) dev (blk + of_nat k) = bank_block (bank b page) (off + 512 * k)" if "k < Suc n" for k
  proof (cases k)
    case 0
    then show ?thesis using z by simp
  next
    case (Suc j)
    then show ?thesis using ih(2) [of j] that by (simp add: ac_simps)
  qed
  then show ?case unfolding r using ih(1) by blast
qed

text \<open>
  Bank \<open>j\<close> of a process starts at \<open>bbase\<close> and has \<open>bsz\<close> blocks; on the medium its blocks start \<open>bstart\<close> blocks into the
  slot.
\<close>

definition bbase :: "bank_cfg \<Rightarrow> nat \<Rightarrow> u16" where
  "bbase c j = (if j = 0 then swapbase c else of_nat j * 0x4000)"

definition bsz :: "bank_cfg \<Rightarrow> nat \<Rightarrow> u16" where
  "bsz c j = (if j = 0 then drop_bit 9 (0x4000 - swapbase c) else if j = 3 then last_size c else 0x20)"

definition boff :: "bank_cfg \<Rightarrow> nat \<Rightarrow> nat" where
  "boff c j = unat (bbase c j AND 0x3FFF)"

fun bstart :: "bank_cfg \<Rightarrow> nat \<Rightarrow> nat" where
  "bstart c 0 = 0"
| "bstart c (Suc j) = bstart c j + unat (bsz c j)"

definition geometry :: "bank_cfg \<Rightarrow> u8 set \<Rightarrow> bool" where
  "geometry c S \<longleftrightarrow> swapbase c < 0x4000 \<and> unat (last_size c) \<le> 32 \<and> bstart c 4 = unat (swap_size c)
     \<and> (\<forall>x\<in>S. (unat x + 1) * unat (swap_size c) \<le> 65536)"

lemma bsz_bound: "geometry c S \<Longrightarrow> unat (bsz c j) \<le> 32"
proof -
  assume g: "geometry c S"
  have "unat (0x4000 - swapbase c) \<le> 0x4000"
    using g by (simp add: geometry_def unat_sub_if_size word_less_nat_alt)
  then have "unat (0x4000 - swapbase c) div 512 \<le> 0x4000 div 512" by (rule div_le_mono)
  then have "unat (drop_bit 9 (0x4000 - swapbase c)) \<le> 32" by (simp add: unat_drop_bit_eq drop_bit_nat_def)
  then show ?thesis using g by (simp add: bsz_def geometry_def)
qed

lemma next_base:
  assumes "w < (0x4000 :: u16)"
  shows "(w + 0x4000) AND 0xC000 = 0x4000"
proof -
  have m: "x AND 0xC000 = push_bit 14 (drop_bit 14 x)" for x :: u16
  proof -
    have "x AND NOT (mask 14) = push_bit 14 (drop_bit 14 x)" by (rule bit_word_eqI) (auto simp: bit_simps)
    moreover have "NOT (mask 14) = (0xC000 :: u16)" by (simp add: mask_eq_exp_minus_1)
    ultimately show ?thesis by simp
  qed
  have "unat w < 0x4000" using assms by (simp add: word_less_nat_alt)
  then have "unat (w + 0x4000) div 2 ^ 14 = 1" by (simp add: unat_word_ariths)
  then have "unat (drop_bit 14 (w + 0x4000)) = unat (1 :: u16)" by (simp add: unat_drop_bit_eq drop_bit_nat_def)
  then have "drop_bit 14 (w + 0x4000) = 1" by (simp only: word_unat_eq_iff [symmetric])
  then show ?thesis by (simp only: m) simp
qed

lemma bank_loop_next:
  assumes "i < 3"
  shows "geometry c S \<Longrightarrow> (bbase c i + 0x4000) AND 0xC000 = bbase c (i + 1)"
    and "(if i = 2 then last_size c else 0x20) = bsz c (i + 1)"
proof -
  have i: "i = 0 \<or> i = 1 \<or> i = 2" using assms by auto
  show "(bbase c i + 0x4000) AND 0xC000 = bbase c (i + 1)" if "geometry c S"
    using i that next_base [of "swapbase c"] by (auto simp: bbase_def geometry_def)
  show "(if i = 2 then last_size c else 0x20) = bsz c (i + 1)" using i by (auto simp: bsz_def)
qed

lemma byte_count:
  assumes "unat (sz :: u16) \<le> 32"
  shows "drop_bit 9 (push_bit 9 sz) = sz"
proof -
  have "unat sz * 512 < 65536" using assms by simp
  then have "unat (push_bit 9 sz) = unat sz * 512"
    by (simp add: push_bit_eq_mult unat_word_ariths)
  then have "unat (drop_bit 9 (push_bit 9 sz)) = unat sz" by (simp add: unat_drop_bit_eq drop_bit_nat_def)
  then show ?thesis by (simp add: word_unat_eq_iff)
qed

lemma swapwrite_run:
  assumes "swapwrite dev blk (push_bit 9 sz) buf page b = Some (r, b')" "unat sz \<le> 32"
  shows "moved b b'" "writes_only dev blk (unat sz) b b'"
    "\<forall>y. blk_wr_ok (plat (krn b)) dev y \<Longrightarrow> k < unat sz \<Longrightarrow>
       disk (krn b') dev (blk + of_nat k) = bank_block (bank b page) (unat (buf AND 0x3FFF) + 512 * k)"
    "bank b' = bank b"
proof -
  let ?b = "b\<lparr>krn := krn b\<lparr>u_block := blk, u_nblock := sz\<rparr>\<rparr>"
  let ?r = "swap_out_blocks dev page (unat sz) blk (unat (buf AND 0x3FFF)) ?b"
  show "moved b b'" using swap_io_moved [of swapwrite dev blk sz buf page b] assms(1) by auto
  have e: "disk (krn b') = disk (krn (snd ?r))" "bank b' = bank (snd ?r)"
    using assms by (auto simp: swapwrite_def swap_setup_def byte_count split: prod.splits)
  show "writes_only dev blk (unat sz) b b'"
    using swap_out_writes [of dev blk "unat sz" ?b page "unat (buf AND 0x3FFF)"] by (simp add: writes_only_def e)
  show "disk (krn b') dev (blk + of_nat k) = bank_block (bank b page) (unat (buf AND 0x3FFF) + 512 * k)"
    if "\<forall>y. blk_wr_ok (plat (krn b)) dev y" "k < unat sz"
    using swap_out_content [of ?b dev "unat sz" page blk "unat (buf AND 0x3FFF)"] that assms(2) by (simp add: e)
  have "bank (snd (swap_out_blocks dev page n blk off d)) = bank d" for n blk off d
    by (induction n arbitrary: blk off d) (simp_all add: Let_def)
  then show "bank b' = bank b" by (simp add: e)
qed

lemma dist_before:
  assumes "k < m" "m + n \<le> 65536"
  shows "n \<le> unat ((blk + of_nat k) - (blk + of_nat m) :: u16)"
proof -
  have z: "(of_nat 65536 :: u16) = 0" by (simp only: word_unat_eq_iff unat_of_nat) simp
  have "(of_nat (65536 - (m - k)) :: u16) = of_nat 65536 - of_nat (m - k)" using assms by (intro of_nat_diff) simp
  then have "(blk + of_nat k) - (blk + of_nat m) = (of_nat (65536 - (m - k)) :: u16)"
    unfolding z using assms(1) by (simp add: of_nat_diff)
  moreover have "unat (of_nat x :: u16) = x" if "x < 65536" for x
    using that by (simp add: unat_of_nat take_bit_nat_eq_self)
  then have "unat (of_nat (65536 - (m - k)) :: u16) = 65536 - (m - k)" using assms(1) by simp
  ultimately have "unat ((blk + of_nat k) - (blk + of_nat m)) = 65536 - (m - k)" by (simp only:)
  then show ?thesis using assms by linarith
qed

lemma bstart_mono: "i \<le> j \<Longrightarrow> bstart c i \<le> bstart c j"
  by (induction j) (auto simp: le_Suc_eq)

lemma bank_out:
  assumes geo: "geometry c S"
  shows "i + n = 4 \<Longrightarrow> bank_loop swapwrite c p i blk (bbase c i) (bsz c i) n b = Some b' \<Longrightarrow>
    writes_only (swapdev c) blk (bstart c 4 - bstart c i) b b' \<and> bank b' = bank b \<and> moved b b' \<and>
    ((\<forall>y. blk_wr_ok (plat (krn b)) (swapdev c) y) \<longrightarrow>
      (\<forall>j k. i \<le> j \<and> j < 4 \<and> k < unat (bsz c j) \<longrightarrow>
         disk (krn b') (swapdev c) (blk + of_nat (bstart c j - bstart c i + k))
           = bank_block (bank b (pgs (slot b p) ! j)) (boff c j + 512 * k)))"
proof (induction n arbitrary: i blk b)
  case 0
  then show ?case by (auto simp: writes_only_def)
next
  case (Suc n)
  let ?z = "unat (bsz c i)"
  obtain r d where d: "swapwrite (swapdev c) blk (push_bit 9 (bsz c i)) (bbase c i) (pgs (slot b p) ! i) b = Some (r, d)"
    "bank_loop swapwrite c p (i + 1) (blk + bsz c i) ((bbase c i + 0x4000) AND 0xC000) (if i = 2 then last_size c else 0x20) n d = Some b'"
    using Suc.prems(2) by (auto split: bind_splits)
  note w = swapwrite_run [OF d(1) bsz_bound [OF geo]]
  have s: "slot d p = slot b p" "plat (krn d) = plat (krn b)" using mem_core_fields [of d b] w(1) by (simp_all add: moved_def)
  have e: "blk + bsz c i = blk + of_nat ?z" by simp
  show ?case
  proof (cases "i = 3")
    case True
    then have "n = 0" using Suc.prems(1) by simp
    then have "b' = d" using d(2) by simp
    have b4: "bstart c 4 = bstart c 3 + unat (bsz c 3)" using bstart.simps(2) [of c 3] by simp
    have "disk (krn d) (swapdev c) (blk + of_nat (bstart c j - bstart c i + k))
        = bank_block (bank b (pgs (slot b p) ! j)) (boff c j + 512 * k)"
      if "\<forall>y. blk_wr_ok (plat (krn b)) (swapdev c) y" "i \<le> j" "j < 4" "k < unat (bsz c j)" for j k
    proof -
      have "j = 3" using that(2,3) True by simp
      then show ?thesis using w(3) [OF that(1), of k] that(4) True by (simp add: boff_def)
    qed
    then show ?thesis using w(1,2,4) True \<open>b' = d\<close> b4 by simp
  next
    case False
    then have i: "i < 3" using Suc.prems(1) by simp
    have ih: "writes_only (swapdev c) (blk + of_nat ?z) (bstart c 4 - bstart c (i + 1)) d b' \<and> bank b' = bank d \<and> moved d b' \<and>
      ((\<forall>y. blk_wr_ok (plat (krn d)) (swapdev c) y) \<longrightarrow>
      (\<forall>j k. i + 1 \<le> j \<and> j < 4 \<and> k < unat (bsz c j) \<longrightarrow>
         disk (krn b') (swapdev c) (blk + of_nat ?z + of_nat (bstart c j - bstart c (i + 1) + k))
           = bank_block (bank d (pgs (slot d p) ! j)) (boff c j + 512 * k)))"
      by (rule Suc.IH [OF _ d(2) [unfolded bank_loop_next(1) [OF i geo] bank_loop_next(2) [OF i] e]])
        (use Suc.prems(1) in simp)
    have le: "bstart c (i + 1) \<le> bstart c 4" using i by (intro bstart_mono) simp
    have le': "bstart c (i + 1) = bstart c i + ?z" by simp
    have "writes_only (swapdev c) blk (?z + (bstart c 4 - bstart c (i + 1))) b b'"
      by (rule writes_only_append [OF w(2) ih [THEN conjunct1]])
    then have wo: "writes_only (swapdev c) blk (bstart c 4 - bstart c i) b b'" using le le' by simp
    have cont: "disk (krn b') (swapdev c) (blk + of_nat (bstart c j - bstart c i + k))
           = bank_block (bank b (pgs (slot b p) ! j)) (boff c j + 512 * k)"
      if a: "\<forall>y. blk_wr_ok (plat (krn b)) (swapdev c) y" "i \<le> j" "j < 4" "k < unat (bsz c j)" for j k
    proof (cases "j = i")
      case True
      have room: "?z + (bstart c 4 - bstart c (i + 1)) \<le> 65536"
        using geo le le' u16_bound [of "swap_size c"] unfolding geometry_def by linarith
      have "disk (krn b') (swapdev c) (blk + of_nat k) = disk (krn d) (swapdev c) (blk + of_nat k)"
        using ih dist_before [of k ?z "bstart c 4 - bstart c (i + 1)" blk] a(4) True room
        unfolding writes_only_def by simp
      then show ?thesis using w(3) [OF a(1), of k] a(4) True by (simp add: boff_def)
    next
      case False
      then have j: "i + 1 \<le> j" using a(2) by simp
      have "bstart c (i + 1) \<le> bstart c j" using j by (intro bstart_mono)
      then have e: "blk + of_nat (bstart c j - bstart c i + k) = blk + of_nat ?z + of_nat (bstart c j - bstart c (i + 1) + k)"
        using le' by (simp only: of_nat_add [symmetric] add.assoc) simp
      have "disk (krn b') (swapdev c) (blk + of_nat ?z + of_nat (bstart c j - bstart c (i + 1) + k))
           = bank_block (bank d (pgs (slot d p) ! j)) (boff c j + 512 * k)"
        using ih [THEN conjunct2, THEN conjunct2, THEN conjunct2, unfolded s(2)] a(1,3,4) j by blast
      then show ?thesis using s w(4) unfolding e by simp
    qed
    have "moved b b'" using moved_trans [OF w(1)] ih by blast
    moreover have "bank b' = bank b" using ih w(4) by simp
    ultimately show ?thesis using wo cont by blast
  qed
qed

subsection \<open>What a swap-in reads\<close>

lemma swap_in_content:
  "\<forall>y. blk_rd_ok (plat (krn b)) dev y \<Longrightarrow>
    disk (krn (snd (swap_in_blocks dev page n blk off b))) = disk (krn b) \<and>
    bank (snd (swap_in_blocks dev page n blk off b)) q a =
      (if q = page \<and> off \<le> a \<and> a < off + 512 * n
       then disk (krn b) dev (blk + of_nat ((a - off) div 512)) ((a - off) mod 512) else bank b q a)"
proof (induction n arbitrary: blk off b)
  case 0
  then show ?case by auto
next
  case (Suc n)
  let ?b = "b\<lparr>bank := (bank b)(page := (\<lambda>a. if off \<le> a \<and> a < off + 512 then disk (krn b) dev blk (a - off) else bank b page a))\<rparr>"
  let ?r = "swap_in_blocks dev page n (blk + 1) (off + 512) ?b"
  have r: "swap_in_blocks dev page (Suc n) blk off b = ?r" using Suc.prems(1) by (simp add: Let_def)
  have ih: "disk (krn (snd ?r)) = disk (krn b)" "bank (snd ?r) q a =
      (if q = page \<and> off + 512 \<le> a \<and> a < off + 512 + 512 * n
       then disk (krn b) dev (blk + 1 + of_nat ((a - (off + 512)) div 512)) ((a - (off + 512)) mod 512) else bank ?b q a)"
    using Suc.IH [of ?b "blk + 1" "off + 512"] Suc.prems by auto
  have hi: "(a - off) div 512 = Suc ((a - (off + 512)) div 512)" "(a - off) mod 512 = (a - (off + 512)) mod 512"
    if "off + 512 \<le> a"
  proof -
    have x: "(512 + x) div 512 = Suc (x div 512)" "(512 + x) mod 512 = x mod 512" for x :: nat by simp_all
    have "a - off = 512 + (a - (off + 512))" using that by simp
    then show "(a - off) div 512 = Suc ((a - (off + 512)) div 512)" "(a - off) mod 512 = (a - (off + 512)) mod 512"
      using x by (simp_all only:)
  qed
  have lo: "(a - off) div 512 = 0" "(a - off) mod 512 = a - off" if "off \<le> a" "a < off + 512" using that by simp_all
  consider "q \<noteq> page" | "q = page" "off \<le> a" "a < off + 512" | "q = page" "off + 512 \<le> a" | "q = page" "a < off"
    by linarith
  then show ?case
  proof cases
    case 2
    then show ?thesis unfolding r using ih lo by simp
  next
    case 3
    then show ?thesis unfolding r using ih hi by (simp add: ac_simps)
  qed (use ih in \<open>simp_all add: r\<close>)
qed

lemma swapread_run:
  assumes "swapread dev blk (push_bit 9 sz) buf page b = Some (r, b')" "unat sz \<le> 32" "\<forall>y. blk_rd_ok (plat (krn b)) dev y"
  shows "moved b b'" "disk (krn b') = disk (krn b)"
    "bank b' q a = (if q = page \<and> unat (buf AND 0x3FFF) \<le> a \<and> a < unat (buf AND 0x3FFF) + 512 * unat sz
       then disk (krn b) dev (blk + of_nat ((a - unat (buf AND 0x3FFF)) div 512)) ((a - unat (buf AND 0x3FFF)) mod 512)
       else bank b q a)"
proof -
  let ?b = "b\<lparr>krn := krn b\<lparr>u_block := blk, u_nblock := sz\<rparr>\<rparr>"
  let ?r = "swap_in_blocks dev page (unat sz) blk (unat (buf AND 0x3FFF)) ?b"
  show "moved b b'" using swap_io_moved [of swapread dev blk sz buf page b] assms(1) by auto
  have e: "disk (krn b') = disk (krn (snd ?r))" "bank b' = bank (snd ?r)"
    using assms by (auto simp: swapread_def swap_setup_def byte_count split: prod.splits)
  show "disk (krn b') = disk (krn b)" "bank b' q a = (if q = page \<and> unat (buf AND 0x3FFF) \<le> a \<and> a < unat (buf AND 0x3FFF) + 512 * unat sz
       then disk (krn b) dev (blk + of_nat ((a - unat (buf AND 0x3FFF)) div 512)) ((a - unat (buf AND 0x3FFF)) mod 512)
       else bank b q a)"
    using swap_in_content [of ?b dev page "unat sz" blk "unat (buf AND 0x3FFF)" q a] assms(3) by (simp_all add: e)
qed

text \<open>The addresses \<open>a\<close> of bank \<open>j\<close> that are saved, and the byte of the medium that holds one.\<close>

definition saved :: "bank_cfg \<Rightarrow> nat \<Rightarrow> nat \<Rightarrow> bool" where
  "saved c j a \<longleftrightarrow> j < 4 \<and> boff c j \<le> a \<and> a < boff c j + 512 * unat (bsz c j)"

definition stored :: "bank_cfg \<Rightarrow> kst \<Rightarrow> u16 \<Rightarrow> nat \<Rightarrow> nat \<Rightarrow> u8" where
  "stored c k blk j a = disk k (swapdev c) (blk + of_nat (bstart c j + (a - boff c j) div 512)) ((a - boff c j) mod 512)"

lemma bank_in:
  assumes geo: "geometry c S"
  shows "i + n = 4 \<Longrightarrow> bank_loop swapread c p i (blk + of_nat (bstart c i)) (bbase c i) (bsz c i) n b = Some b' \<Longrightarrow>
    \<forall>y. blk_rd_ok (plat (krn b)) (swapdev c) y \<Longrightarrow>
    \<forall>j. i \<le> j \<and> saved c j a \<and> pgs (slot b p) ! j = q \<longrightarrow> stored c (krn b) blk j a = v \<Longrightarrow>
    (\<exists>j. i \<le> j \<and> saved c j a \<and> pgs (slot b p) ! j = q) \<or> bank b q a = v \<Longrightarrow>
    bank b' q a = v"
proof (induction n arbitrary: i b)
  case 0
  then have "i = 4" by simp
  then show ?case using 0 by (auto simp: saved_def)
next
  case (Suc n)
  let ?z = "unat (bsz c i)" and ?blk = "blk + of_nat (bstart c i)"
  obtain r d where d: "swapread (swapdev c) ?blk (push_bit 9 (bsz c i)) (bbase c i) (pgs (slot b p) ! i) b = Some (r, d)"
    "bank_loop swapread c p (i + 1) (?blk + bsz c i) ((bbase c i + 0x4000) AND 0xC000) (if i = 2 then last_size c else 0x20) n d = Some b'"
    using Suc.prems(2) by (auto split: bind_splits)
  note w = swapread_run [OF d(1) bsz_bound [OF geo] Suc.prems(3)]
  have s: "slot d p = slot b p" "plat (krn d) = plat (krn b)" using mem_core_fields [of d b] w(1) by (simp_all add: moved_def)
  have i4: "i < 4" using Suc.prems(1) by simp
  have bd: "bank d q a = (if pgs (slot b p) ! i = q \<and> saved c i a then stored c (krn b) blk i a else bank b q a)"
    using w(3) [of q a] i4 by (auto simp: saved_def stored_def boff_def add.assoc)
  have st: "stored c (krn d) blk j a = stored c (krn b) blk j a" for j by (simp add: stored_def w(2))
  have val: "bank d q a = v" if "\<not> (\<exists>j. i + 1 \<le> j \<and> saved c j a \<and> pgs (slot b p) ! j = q)"
  proof (cases "pgs (slot b p) ! i = q \<and> saved c i a")
    case True
    then show ?thesis using bd Suc.prems(4) by simp
  next
    case False
    then have "\<not> (\<exists>j. i \<le> j \<and> saved c j a \<and> pgs (slot b p) ! j = q)"
      using that by (metis Suc_eq_plus1 le_antisym not_less_eq_eq)
    then have "bank b q a = v" using Suc.prems(5) by blast
    then show ?thesis using bd False by auto
  qed
  show ?case
  proof (cases "i = 3")
    case True
    then have "n = 0" using Suc.prems(1) by simp
    then have "b' = d" using d(2) by simp
    moreover have "\<not> (\<exists>j. i + 1 \<le> j \<and> saved c j a \<and> pgs (slot b p) ! j = q)" using True by (auto simp: saved_def)
    ultimately show ?thesis using val by simp
  next
    case False
    then have i: "i < 3" using i4 by simp
    have e: "?blk + bsz c i = blk + of_nat (bstart c (i + 1))" by (simp add: add.assoc)
    show ?thesis
    proof (rule Suc.IH [OF _ d(2) [unfolded bank_loop_next(1) [OF i geo] bank_loop_next(2) [OF i] e]])
      show "i + 1 + n = 4" using Suc.prems(1) by simp
      show "\<forall>y. blk_rd_ok (plat (krn d)) (swapdev c) y" using Suc.prems(3) s by simp
      show "\<forall>j. i + 1 \<le> j \<and> saved c j a \<and> pgs (slot d p) ! j = q \<longrightarrow> stored c (krn d) blk j a = v"
        using Suc.prems(4) st s by simp
      show "(\<exists>j. i + 1 \<le> j \<and> saved c j a \<and> pgs (slot d p) ! j = q) \<or> bank d q a = v" using val s by metis
    qed
  qed
qed

subsection \<open>Swapping a process out\<close>

lemma slot_top:
  "slot_get c b = Some (x, t) \<Longrightarrow> swapmap_alloc c b = (ucast (swapmap b (unat (swapptr b - 1))), t) \<and> x = swapmap b (unat (swapptr b - 1))"
  by (auto simp: slot_get_def swapmap_alloc_def Let_def split: if_splits)

text \<open>What a swap-out leaves alone: all but the entry of the victim.\<close>

definition evicted :: "nat \<Rightarrow> u8 \<Rightarrow> bst \<Rightarrow> bst \<Rightarrow> bool" where
  "evicted p x b b' \<longleftrightarrow> mem_core b' = mem_core (upd_bp p (\<lambda>e. e\<lparr>p_page := 0, p_page2 := ucast x\<rparr>) b)
     \<and> free_slots b = free_slots b' @ [x]"

lemma swapout_run:
  assumes cfg: "mem_cfg c P S" and geo: "geometry c S" and ok: "mem_ok c P S b" and p: "p \<in> holders b"
  shows "(free_slots b = [] \<and> swapout c p b = Some (ENOMEM, b)) \<or>
    (\<exists>x b'. swapout c p b = Some (0, b') \<and> x \<in> S \<and> evicted p x b b' \<and> free_pages b' = free_pages b @ own c (slot b p)
      \<and> bank b' = bank b \<and> writes_only (swapdev c) (ucast x * swap_size c) (unat (swap_size c)) b b'
      \<and> ((\<forall>y. blk_wr_ok (plat (krn b)) (swapdev c) y) \<longrightarrow>
           (\<forall>j a. saved c j a \<longrightarrow> stored c (krn b') (ucast x * swap_size c) j a = bank b (pgs (slot b p) ! j) a)))"
proof (cases "free_slots b = []")
  case True
  then have "swapptr b = 0" by (simp add: free_slots_def unat_eq_0)
  then show ?thesis using p True by (simp add: swapout_def swapmap_alloc_def holders_def Let_def)
next
  case False
  obtain x b1 where x: "slot_get c b = Some (x, b1)" "free_slots b = free_slots b1 @ [x]" "slot_rest b1 = slot_rest b"
    using slots.get_some [OF False, of c] by metis
  have k: "krn b1 = krn b" "free_pages b1 = free_pages b" using x(3) by (simp_all add: slot_rest_def)
  have "mset_set S = {#x#} + (mset (free_slots b1) + (\<Sum>p\<in>swapped b. {#slot_of (slot b p)#}))"
    using ok x(2) by (simp add: mem_ok_def)
  then have "x \<in># mset_set S" by simp
  then have "x \<in> S" by (cases "finite S") auto
  then have x0: "x \<noteq> 0" using cfg by (auto simp: mem_cfg_def)
  let ?blk = "ucast x * swap_size c"
  obtain b2 where b2: "all_banks swapwrite c p (ucast x) b1 = Some b2" "moved b1 b2" using all_banks_moved by blast
  have "bank_loop swapwrite c p 0 ?blk (bbase c 0) (bsz c 0) 4 b1 = Some b2"
    using b2(1) by (simp add: all_banks_def bbase_def bsz_def)
  note out = bank_out [OF geo _ this, simplified]
  have geo4: "bstart c 4 = unat (swap_size c)" using geo by (simp add: geometry_def)
  have s2: "slot b2 p = slot b p" "free_pages b2 = free_pages b" "free_slots b2 = free_slots b1"
    using mem_core_fields(1) [of b2 b1] b2(2) moved_free [OF b2(2)] k by (simp_all add: moved_def)
  have spr: "spread (needs c (slot b p)) (pgs (slot b p))" using ok p by (simp add: mem_ok_def)
  obtain b3 where b3: "pagemap_free c p b2 = Some b3" "free_pages b3 = free_pages b @ own c (slot b p)" "page_rest b3 = page_rest b2"
    using pagemap_free_own [OF cfg, of b2 p] own_part [OF ok p] spr unfolding s2 by metis
  have k3: "krn b3 = krn b2" "free_slots b3 = free_slots b1" using b3(3) s2(3) by (simp_all add: page_rest_def)
  let ?f = "\<lambda>e. e\<lparr>p_page := 0, p_page2 := ucast x\<rparr>"
  have run: "swapout c p b = Some (0, upd_bp p ?f b3)"
    using p x(1) x0 b2(1) b3(1) slot_top [OF x(1)] by (auto simp: swapout_def holders_def Let_def)
  have "mem_core b2 = mem_core b" using b2(2) k by (simp add: moved_def mem_core_def)
  then have "mem_core (upd_bp p ?f b3) = mem_core (upd_bp p ?f b)"
    using k3(1) by (simp add: mem_core_def Let_def upd_p_def)
  moreover have "free_slots b = free_slots (upd_bp p ?f b3) @ [x]" using x(2) k3(2) by (simp add: free_slots_def)
  moreover have dk: "disk (krn (upd_bp p ?f b3)) = disk (krn b2)" using k3(1) by (simp add: upd_p_def)
  moreover have "writes_only (swapdev c) ?blk (unat (swap_size c)) b (upd_bp p ?f b3)"
    using out geo4 k(1) dk by (simp add: writes_only_def)
  moreover have "bank (upd_bp p ?f b3) = bank b" using out b3(3) x(3) by (simp add: page_rest_def slot_rest_def)
  moreover have "stored c (krn (upd_bp p ?f b3)) ?blk j a = bank b (pgs (slot b p) ! j) a"
    if "\<forall>y. blk_wr_ok (plat (krn b)) (swapdev c) y" "saved c j a" for j a
  proof -
    have j: "j < 4" and k: "(a - boff c j) div 512 < unat (bsz c j)" and a: "boff c j \<le> a"
      using that(2) by (auto simp: saved_def less_mult_imp_div_less)
    then have "disk (krn b2) (swapdev c) (?blk + of_nat (bstart c j + (a - boff c j) div 512))
        = bank_block (bank b (pgs (slot b p) ! j)) (boff c j + 512 * ((a - boff c j) div 512))"
      using out that(1) \<open>krn b1 = krn b\<close> x(3) by (simp add: slot_rest_def)
    moreover have "bank_block m (boff c j + 512 * ((a - boff c j) div 512)) ((a - boff c j) mod 512) = m a" for m
      using a mult_div_mod_eq [of 512 "a - boff c j"] by (simp add: bank_block_def)
    ultimately show ?thesis using dk by (simp add: stored_def)
  qed
  ultimately show ?thesis using run b3(2) \<open>x \<in> S\<close> by (auto simp: evicted_def free_pages_def)
qed

text \<open>One page table entry changes: what happens to the two sums.\<close>

lemma evicted_tables:
  assumes "evicted p x b b'" "p \<in> holders b"
  shows "ptab_end (krn b') = ptab_end (krn b)" "q \<noteq> p \<Longrightarrow> slot b' q = slot b q"
    "slot b' p = (slot b p)\<lparr>p_page := 0, p_page2 := ucast x\<rparr>"
    "holders b' = holders b - {p}" "swapped b' = insert p (swapped b)" "p \<notin> swapped b"
    "u_ptab (krn b') = u_ptab (krn b)" "getproc_nextp (krn b') = getproc_nextp (krn b)"
    "u_page (krn b') = u_page (krn b)" "u_page2 (krn b') = u_page2 (krn b)" "u_top (krn b') = u_top (krn b)"
    "waitno (krn b') = waitno (krn b)" "plat (krn b') = plat (krn b)"
proof -
  note f = mem_core_fields [OF assms(1) [unfolded evicted_def, THEN conjunct1]]
  show s: "ptab_end (krn b') = ptab_end (krn b)" "q \<noteq> p \<Longrightarrow> slot b' q = slot b q"
    "slot b' p = (slot b p)\<lparr>p_page := 0, p_page2 := ucast x\<rparr>"
    "u_ptab (krn b') = u_ptab (krn b)" "getproc_nextp (krn b') = getproc_nextp (krn b)"
    "u_page (krn b') = u_page (krn b)" "u_page2 (krn b') = u_page2 (krn b)" "u_top (krn b') = u_top (krn b)"
    "waitno (krn b') = waitno (krn b)" "plat (krn b') = plat (krn b)" for q
    using f by (simp_all add: upd_p_def)
  show "p \<notin> swapped b" using assms(2) by (simp add: holders_def swapped_def)
  have "q \<in> holders b' \<longleftrightarrow> q \<in> holders b - {p}" "q \<in> swapped b' \<longleftrightarrow> q \<in> insert p (swapped b)" for q
  proof -
    have "p < ptab_end (krn b)" "live (slot b p)" "p_page (slot b p) \<noteq> 0" "live (slot b' p)" "p_page (slot b' p) = 0"
      using assms(2) s(3) by (simp_all add: holders_def live_def)
    then show "q \<in> holders b' \<longleftrightarrow> q \<in> holders b - {p}" "q \<in> swapped b' \<longleftrightarrow> q \<in> insert p (swapped b)"
      using s(1) s(2) [of q] unfolding holders_def swapped_def by (cases "q = p"; simp)+
  qed
  then show "holders b' = holders b - {p}" "swapped b' = insert p (swapped b)" by blast+
qed

lemma swapout_mem_ok:
  assumes cfg: "mem_cfg c P S" and ok: "mem_ok c P S b" and p: "p \<in> holders b"
    and ev: "evicted p x b b'" and free: "free_pages b' = free_pages b @ own c (slot b p)"
  shows "mem_ok c P S b'"
proof -
  note t = evicted_tables [OF ev p]
  have own: "q \<in> holders b' \<Longrightarrow> slot b' q = slot b q" for q using t(2,4) by auto
  have "(\<Sum>q\<in>holders b. mset (own c (slot b q))) = mset (own c (slot b p)) + (\<Sum>q\<in>holders b - {p}. mset (own c (slot b q)))"
    using p by (intro sum.remove) auto
  moreover have "(\<Sum>q\<in>holders b - {p}. mset (own c (slot b q))) = (\<Sum>q\<in>holders b'. mset (own c (slot b' q)))"
    using own t(4) by (intro sum.cong) auto
  ultimately have pages: "mset (free_pages b') + (\<Sum>q\<in>holders b'. mset (own c (slot b' q))) = mset_set P"
    using ok free by (simp add: mem_ok_def ac_simps)
  have "(\<Sum>q\<in>swapped b'. {#slot_of (slot b' q)#}) = {#slot_of (slot b' p)#} + (\<Sum>q\<in>swapped b. {#slot_of (slot b' q)#})"
    unfolding t(5) using t(6) by (intro sum.insert) auto
  moreover have "slot_of (slot b' p) = x" by (simp add: t(3) slot_of_def)
  moreover have "(\<Sum>q\<in>swapped b. {#slot_of (slot b' q)#}) = (\<Sum>q\<in>swapped b. {#slot_of (slot b q)#})"
  proof (rule sum.cong)
    fix q assume "q \<in> swapped b"
    then have "q \<noteq> p" using t(6) by auto
    then show "{#slot_of (slot b' q)#} = {#slot_of (slot b q)#}" using t(2) by simp
  qed simp
  moreover have "mset (free_slots b) = {#x#} + mset (free_slots b')" using ev by (simp add: evicted_def)
  ultimately have slots: "mset (free_slots b') + (\<Sum>q\<in>swapped b'. {#slot_of (slot b' q)#}) = mset_set S"
    using ok by (simp add: mem_ok_def)
  have sw: "\<forall>q\<in>swapped b'. p_page2 (slot b' q) = ucast (slot_of (slot b' q))"
  proof
    fix q assume "q \<in> swapped b'"
    then show "p_page2 (slot b' q) = ucast (slot_of (slot b' q))"
      using ok t(2,3,5,6) by (cases "q = p") (auto simp: mem_ok_def slot_of_def)
  qed
  have sp: "\<forall>q\<in>holders b'. spread (needs c (slot b' q)) (pgs (slot b' q))"
    using ok own t(4) by (auto simp: mem_ok_def)
  have u: "u_ptab (krn b') \<in> holders b' \<longrightarrow> pgs (self (krn b')) = page_bytes (u_page (krn b')) (u_page2 (krn b'))
      \<and> u_top (krn b') = p_top (self (krn b'))"
    using ok own t(4,7-11) by (auto simp: mem_ok_def)
  show ?thesis using pages slots sw sp u ok t(1,8) unfolding mem_ok_def by simp
qed

subsection \<open>Swap slots do not overlap\<close>

lemma slot_apart:
  assumes geo: "geometry c S" and xy: "x \<in> S" "y \<in> S" "x \<noteq> y" and n: "n < unat (swap_size c)"
  shows "unat (swap_size c) \<le> unat ((ucast x * swap_size c + of_nat n) - ucast y * swap_size c)"
proof -
  let ?z = "unat (swap_size c)"
  have mult: "ucast w * swap_size c = of_nat (unat w * ?z)" for w :: u8
  proof -
    have "unat w < 65536" using unsigned_less [where 'a = nat, of w] by simp
    then have "(ucast w :: u16) = of_nat (unat w)"
      by (simp add: word_unat_eq_iff unsigned_ucast_eq unat_of_nat take_bit_nat_eq_self)
    then show ?thesis by (simp add: of_nat_mult)
  qed
  have bound: "(unat x + 1) * ?z \<le> 65536" "(unat y + 1) * ?z \<le> 65536" using geo xy by (auto simp: geometry_def)
  have e: "(ucast x * swap_size c + of_nat n) - ucast y * swap_size c
      = (of_nat (unat x * ?z + n) - of_nat (unat y * ?z) :: u16)"
    unfolding mult by (simp only: of_nat_add)
  consider "unat x < unat y" | "unat y < unat x" using xy(3) by (meson linorder_neqE_nat word_unat_eq_iff)
  then show ?thesis
  proof cases
    case 1
    then have "(unat x + 1) * ?z \<le> unat y * ?z" by (intro mult_right_mono) auto
    then have "unat x * ?z + n < unat y * ?z" using n by simp
    then show ?thesis
      using dist_before [of "unat x * ?z + n" "unat y * ?z" ?z 0] bound(2) unfolding e by simp
  next
    case 2
    then have "(unat y + 1) * ?z \<le> unat x * ?z" by (intro mult_right_mono) auto
    then have d: "unat y * ?z + ?z \<le> unat x * ?z + n" by simp
    have "unat x * ?z + n < 65536" using bound(1) n by simp
    then have "unat (of_nat (unat x * ?z + n - unat y * ?z) :: u16) = unat x * ?z + n - unat y * ?z"
      by (simp add: unat_of_nat take_bit_nat_eq_self)
    moreover have "(of_nat (unat x * ?z + n) - of_nat (unat y * ?z) :: u16) = of_nat (unat x * ?z + n - unat y * ?z)"
      using d by (simp only: of_nat_diff)
    ultimately show ?thesis using d unfolding e by simp
  qed
qed

text \<open>The blocks of slot \<open>x\<close> are the same.\<close>

definition slot_same :: "bank_cfg \<Rightarrow> u8 \<Rightarrow> kst \<Rightarrow> kst \<Rightarrow> bool" where
  "slot_same c x k k' \<longleftrightarrow> (\<forall>n < unat (swap_size c).
     disk k' (swapdev c) (ucast x * swap_size c + of_nat n) = disk k (swapdev c) (ucast x * swap_size c + of_nat n))"

lemma saved_in_slot:
  assumes "geometry c S" "saved c j a"
  shows "bstart c j + (a - boff c j) div 512 < unat (swap_size c)"
proof -
  have "(a - boff c j) div 512 < unat (bsz c j)" using assms(2) by (auto simp: saved_def less_mult_imp_div_less)
  then have "bstart c j + (a - boff c j) div 512 < bstart c (Suc j)" by simp
  also have "\<dots> \<le> bstart c 4" using assms(2) by (intro bstart_mono) (simp add: saved_def)
  finally show ?thesis using assms(1) by (simp add: geometry_def)
qed

lemma stored_same:
  assumes "geometry c S" "saved c j a" "slot_same c x k k'"
  shows "stored c k' (ucast x * swap_size c) j a = stored c k (ucast x * swap_size c) j a"
  using assms(3) saved_in_slot [OF assms(1,2)] by (simp add: stored_def slot_same_def del: of_nat_add)

subsection \<open>Making room\<close>

text \<open>Zombies keep the number of a page they no longer have; see \<open>zombie_pages_freed_twice\<close> below.\<close>

definition no_stale :: "bst \<Rightarrow> bool" where
  "no_stale b \<longleftrightarrow> (\<forall>q < ptab_end (krn b). p_status (slot b q) = P_ZOMBIE \<longrightarrow> p_page (slot b q) = 0)"

definition candidate :: "bst \<Rightarrow> nat \<Rightarrow> bool" where
  "candidate b n \<longleftrightarrow> p_page (slot b n) \<noteq> 0 \<and> pnum P_READY \<le> pnum (p_status (slot b n))"

lemma victim_scan_run:
  "(\<forall>n. r = Some n \<or> f = Some n \<longrightarrow> n \<in> A \<and> candidate b n) \<Longrightarrow> set cs \<subseteq> A \<Longrightarrow>
   \<exists>r' f' sc'. victim_scan (Some p) b cs (r, f, sc) = Some (r', f', sc') \<and>
     (\<forall>n. r' = Some n \<or> f' = Some n \<longrightarrow> n \<in> A \<and> candidate b n)"
proof (induction cs arbitrary: r f sc)
  case Nil
  then show ?case by simp
next
  case (Cons q cs)
  obtain r1 f1 s1 where s: "victim_step (Some p) b q (r, f, sc) = Some (r1, f1, s1)"
    "\<forall>n. r1 = Some n \<or> f1 = Some n \<longrightarrow> n \<in> A \<and> candidate b n"
  proof -
    let ?c = "\<forall>n. r = Some n \<or> f = Some n \<longrightarrow> n \<in> A \<and> candidate b n"
    have q: "q \<in> A" using Cons.prems(2) by simp
    consider "p_page (slot b q) = 0" | "p_page (slot b q) \<noteq> 0" "p_status (slot b q) = P_READY"
      | "p_page (slot b q) \<noteq> 0" "p_status (slot b q) \<noteq> P_READY" "\<not> candidate b q"
      | "p_page (slot b q) \<noteq> 0" "p_status (slot b q) \<noteq> P_READY" "candidate b q" by blast
    then show ?thesis
    proof cases
      case 1
      then show ?thesis using that Cons.prems(1) by (simp add: victim_step_def)
    next
      case 2
      then have "candidate b q" by (simp add: candidate_def)
      then show ?thesis using that [of "Some q" f sc] 2 Cons.prems(1) q by (simp add: victim_step_def Let_def)
    next
      case 3
      then show ?thesis using that Cons.prems(1) by (simp add: victim_step_def candidate_def Let_def)
    next
      case 4
      then show ?thesis
        using that [of r f sc] that [of r "Some q" "waitno (krn b) - p_waitno (slot b q)"] Cons.prems(1) q
        by (cases "pnum (p_status (slot b p)) \<le> pnum P_FORKING"; cases "sc \<le> waitno (krn b) - p_waitno (slot b q)";
            cases "2 < pnum (p_status (slot b q))") (simp_all add: victim_step_def Let_def)
    qed
  qed
  show ?case using Cons.IH [OF s(2), of s1] Cons.prems(2) s(1) by auto
qed

lemma swapvictim_run:
  assumes "getproc_nextp (krn b) < ptab_end (krn b)"
  shows "\<exists>v. swapvictim (Some p) True b = Some v \<and> (\<forall>n. v = Some n \<longrightarrow> n < ptab_end (krn b) \<and> candidate b n)"
proof -
  have "set (scan_order b) \<subseteq> {..<ptab_end (krn b)}" using assms by (auto simp: scan_order_def)
  then obtain r f sc where "victim_scan (Some p) b (scan_order b) (None, None, 0) = Some (r, f, sc)"
    "\<forall>n. r = Some n \<or> f = Some n \<longrightarrow> n \<in> {..<ptab_end (krn b)} \<and> candidate b n"
    using victim_scan_run [of None None "{..<ptab_end (krn b)}" b "scan_order b" p 0] by auto
  then show ?thesis by (auto simp: swapvictim_def)
qed

lemma candidate_holds:
  assumes "candidate b n" "n < ptab_end (krn b)" "no_stale b"
  shows "n \<in> holders b"
  using assms by (cases "p_status (slot b n)") (auto simp: candidate_def holders_def live_def no_stale_def)

text \<open>What swapping out others leaves alone.\<close>

definition squeezed :: "bank_cfg \<Rightarrow> u8 set \<Rightarrow> bst \<Rightarrow> bst \<Rightarrow> bool" where
  "squeezed c S b b' \<longleftrightarrow>
     ptab_end (krn b') = ptab_end (krn b) \<and> u_ptab (krn b') = u_ptab (krn b) \<and> plat (krn b') = plat (krn b)
     \<and> (\<forall>q. q \<notin> holders b \<longrightarrow> slot b' q = slot b q)
     \<and> (\<forall>q. p_status (slot b' q) = p_status (slot b q))
     \<and> holders b' \<subseteq> holders b \<and> set (free_slots b') \<subseteq> set (free_slots b) \<and> bank b' = bank b
     \<and> (\<forall>x\<in>S. x \<notin> set (free_slots b) \<longrightarrow> slot_same c x (krn b) (krn b'))"

lemma squeezed_refl: "squeezed c S b b"
  by (simp add: squeezed_def slot_same_def)

lemma squeezed_trans: "squeezed c S a b \<Longrightarrow> squeezed c S b d \<Longrightarrow> squeezed c S a d"
  unfolding squeezed_def slot_same_def by (simp add: subset_iff) metis

lemma swapout_squeezed:
  assumes geo: "geometry c S" and ok: "mem_ok c P S b" and p: "p \<in> holders b" and x: "x \<in> S" and ev: "evicted p x b b'"
    and w: "writes_only (swapdev c) (ucast x * swap_size c) (unat (swap_size c)) b b'" and bk: "bank b' = bank b"
  shows "squeezed c S b b'"
proof -
  note t = evicted_tables [OF ev p]
  have st: "p_status (slot b' q) = p_status (slot b q)" for q using t(2,3) by (cases "q = p") auto
  have fs: "set (free_slots b') \<subseteq> set (free_slots b)" "x \<in> set (free_slots b)" using ev by (auto simp: evicted_def)
  have "slot_same c y (krn b) (krn b')" if "y \<in> S" "y \<notin> set (free_slots b)" for y
    using slot_apart [OF geo that(1) x] w that fs(2) by (auto simp: slot_same_def writes_only_def)
  moreover have "slot b' q = slot b q" if "q \<notin> holders b" for q
    using t(2) [of q] that p by (cases "q = p") auto
  ultimately show ?thesis using t(1,4,7,13) fs(1) st bk by (simp add: squeezed_def)
qed

lemma no_stale_squeezed:
  assumes "no_stale b" "squeezed c S b b'"
  shows "no_stale b'"
  unfolding no_stale_def
proof (intro allI impI)
  fix q assume q: "q < ptab_end (krn b')" "p_status (slot b' q) = P_ZOMBIE"
  then have z: "q < ptab_end (krn b)" "p_status (slot b q) = P_ZOMBIE" using assms(2) by (simp_all add: squeezed_def)
  then have "q \<notin> holders b" by (simp add: holders_def live_def)
  then have "slot b' q = slot b q" using assms(2) by (simp add: squeezed_def)
  then show "p_page (slot b' q) = 0" using assms(1) z by (simp add: no_stale_def)
qed

lemma swapneeded_run:
  assumes cfg: "mem_cfg c P S" and geo: "geometry c S" and ok: "mem_ok c P S b" and ns: "no_stale b"
  shows "swapneeded c (Some p) True b = Some (None, b) \<or>
    (\<exists>n b'. swapneeded c (Some p) True b = Some (Some n, b') \<and> n \<in> holders b \<and> holders b' = holders b - {n}
      \<and> mem_ok c P S b' \<and> squeezed c S b b')"
proof -
  obtain v where v: "swapvictim (Some p) True b = Some v" "\<forall>n. v = Some n \<longrightarrow> n < ptab_end (krn b) \<and> candidate b n"
    using swapvictim_run ok unfolding mem_ok_def by blast
  show ?thesis
  proof (cases v)
    case None
    then show ?thesis using v(1) by (simp add: swapneeded_def)
  next
    case (Some n)
    then have n: "n \<in> holders b" using v(2) candidate_holds ns by blast
    from swapout_run [OF cfg geo ok n] show ?thesis
    proof
      assume "free_slots b = [] \<and> swapout c n b = Some (ENOMEM, b)"
      then show ?thesis using v(1) Some by (simp add: swapneeded_def)
    next
      assume "\<exists>x b'. swapout c n b = Some (0, b') \<and> x \<in> S \<and> evicted n x b b' \<and> free_pages b' = free_pages b @ own c (slot b n)
        \<and> bank b' = bank b \<and> writes_only (swapdev c) (ucast x * swap_size c) (unat (swap_size c)) b b'
        \<and> ((\<forall>y. blk_wr_ok (plat (krn b)) (swapdev c) y) \<longrightarrow>
             (\<forall>j a. saved c j a \<longrightarrow> stored c (krn b') (ucast x * swap_size c) j a = bank b (pgs (slot b n) ! j) a))"
      then obtain x b' where r: "swapout c n b = Some (0, b')" "x \<in> S" "evicted n x b b'"
        "free_pages b' = free_pages b @ own c (slot b n)" "bank b' = bank b"
        "writes_only (swapdev c) (ucast x * swap_size c) (unat (swap_size c)) b b'" by blast
      have "swapneeded c (Some p) True b = Some (Some n, b')" using v(1) Some r(1) by (simp add: swapneeded_def)
      then show ?thesis
        using n evicted_tables(4) [OF r(3) n] swapout_mem_ok [OF cfg ok n r(3,4)]
          swapout_squeezed [OF geo ok n r(2,3,6,5)] by blast
    qed
  qed
qed

text \<open>The loop ends: each turn takes the pages of one more process.\<close>

lemma make_room_run:
  assumes cfg: "mem_cfg c P S" and geo: "geometry c S"
  shows "mem_ok c P S b \<Longrightarrow> no_stale b \<Longrightarrow>
    \<exists>r b'. make_room c p needed b = Some (r, b') \<and> mem_ok c P S b' \<and> squeezed c S b b'
      \<and> (r \<longrightarrow> needed \<le> length (free_pages b'))"
proof (induction "card (holders b)" arbitrary: b rule: less_induct)
  case less
  show ?case
  proof (cases "needed > unat (pfptr b)")
    case False
    then show ?thesis using less.prems squeezed_refl by (subst make_room.simps) auto
  next
    case True
    from swapneeded_run [OF cfg geo less.prems, of p] show ?thesis
    proof
      assume "swapneeded c (Some p) True b = Some (None, b)"
      then show ?thesis using True less.prems squeezed_refl by (subst make_room.simps) auto
    next
      assume "\<exists>n b'. swapneeded c (Some p) True b = Some (Some n, b') \<and> n \<in> holders b \<and> holders b' = holders b - {n}
        \<and> mem_ok c P S b' \<and> squeezed c S b b'"
      then obtain n d where d: "swapneeded c (Some p) True b = Some (Some n, d)" "n \<in> holders b" "holders d = holders b - {n}"
        "mem_ok c P S d" "squeezed c S b d" by blast
      have "card (holders d) < card (holders b)" unfolding d(3) by (rule card_Diff1_less [OF finite_holders(1) d(2)])
      then obtain r b' where "make_room c p needed d = Some (r, b')" "mem_ok c P S b'" "squeezed c S d b'"
        "r \<longrightarrow> needed \<le> length (free_pages b')"
        using less.hyps d(4) no_stale_squeezed [OF less.prems(2) d(5)] by blast
      then show ?thesis using True d(1,5) squeezed_trans by (subst make_room.simps) fastforce
    qed
  qed
qed

subsection \<open>Getting pages\<close>

lemma pagemap_alloc_run:
  assumes cfg: "mem_cfg c P S" and geo: "geometry c S" and ok: "mem_ok c P S b" and ns: "no_stale b" and p: "p \<notin> holders b"
  shows "\<exists>r b' d. pagemap_alloc c p b = Some (r, b') \<and> mem_ok c P S d \<and> squeezed c S b d \<and>
    (r = ENOMEM \<and> b' = d \<or>
     r = 0 \<and> (\<exists>l. spread (needs c (slot b p)) l \<and> free_pages d = free_pages b' @ rev (take (needs c (slot b p)) l)
       \<and> page_rest b' = page_rest (upd_bp p (set_pgs l) d)))"
proof -
  let ?n = "needs c (slot b p)"
  obtain r d where d: "make_room c p ?n b = Some (r, d)" "mem_ok c P S d" "squeezed c S b d" "r \<longrightarrow> ?n \<le> length (free_pages d)"
    using make_room_run [OF cfg geo ok ns] by blast
  show ?thesis
  proof (cases r)
    case False
    then have "pagemap_alloc c p b = Some (ENOMEM, d)" using d(1) by (simp add: pagemap_alloc_def pagemap_alloc2_def Let_def)
    then show ?thesis using d(2,3) by blast
  next
    case True
    have n: "1 \<le> ?n" "?n \<le> 4" by (rule needs_range)+
    obtain u xs where u: "take_pages p [0..<?n] d = Some u" "length xs = ?n" "free_pages d = free_pages u @ rev xs"
      "page_rest u = page_rest (upd_bp p (\<lambda>e. set_pgs (take 0 (pgs e) @ xs @ drop ?n (pgs e)) e) d)"
      using take_pages_run [of 0 ?n d p] n d(4) True by auto
    have su: "pgs (slot u p) = xs @ drop ?n (pgs (slot d p))" using u(2,4) n by (simp add: page_rest_def upd_p_def)
    define l where "l = xs @ replicate (4 - ?n) (xs ! (?n - 1))"
    have l4: "length l = 4" using u(2) n by (simp add: l_def)
    have sp: "spread ?n l" using n u(2) by (simp add: spread_def l_def nth_append)
    have x: "pgs (slot u p) ! (?n - 1) = xs ! (?n - 1)" "take ?n (pgs (slot u p)) = xs"
      using n u(2) by (simp_all add: su nth_append)
    have run: "pagemap_alloc c p b = Some (0, upd_bp p (\<lambda>e. set_pgs (take ?n (pgs e) @ replicate (4 - ?n) (xs ! (?n - 1))) e) u)"
      using d(1) True u(1) x(1) by (simp add: pagemap_alloc_def pagemap_alloc2_def Let_def)
    have "page_rest (upd_bp p (\<lambda>e. set_pgs (take ?n (pgs e) @ replicate (4 - ?n) (xs ! (?n - 1))) e) u)
        = page_rest (upd_bp p (set_pgs l) d)"
      using u(4) x(2) by (simp add: page_rest_def upd_p_def l_def free_slots_def)
    moreover have "free_pages d = free_pages (upd_bp p (\<lambda>e. set_pgs (take ?n (pgs e) @ replicate (4 - ?n) (xs ! (?n - 1))) e) u)
        @ rev (take ?n l)"
      using u(2,3) by (simp add: free_pages_def l_def)
    ultimately show ?thesis using run d(2,3) sp by blast
  qed
qed

lemma join_mem_ok:
  assumes cfg: "mem_cfg c P S" and ok: "mem_ok c P S d" and p: "p \<notin> holders d" "p < ptab_end (krn d)" "p \<noteq> u_ptab (krn d)"
    and e: "live e" "spread (needs c e) (pgs e)"
    and fp: "mset (free_pages d) = mset (free_pages b) + mset (own c e)"
    and tab: "ptab (krn b) = (ptab (krn d))(p := e)" "ptab_end (krn b) = ptab_end (krn d)" "u_ptab (krn b) = u_ptab (krn d)"
      "u_page (krn b) = u_page (krn d)" "u_page2 (krn b) = u_page2 (krn d)" "u_top (krn b) = u_top (krn d)"
      "getproc_nextp (krn b) = getproc_nextp (krn d)"
    and sl: "mset (free_slots b) = mset (free_slots d) + (if p \<in> swapped d then {#slot_of (slot d p)#} else {#})"
  shows "mem_ok c P S b" "holders b = insert p (holders d)" "swapped b = swapped d - {p}"
proof -
  have "mset_set P = mset (own c e) + (mset (free_pages b) + (\<Sum>q\<in>holders d. mset (own c (slot d q))))"
    using ok fp by (simp add: mem_ok_def ac_simps)
  then have part: "mset (own c e) \<subseteq># mset_set P" by simp
  have "length (own c e) = needs c e" using e(2) by (simp add: own_def spread_def)
  then have "pgs e ! 0 \<in> set (own c e)" using e(2) needs_range(1) [of c "p_top e"]
    by (metis (no_types, lifting) One_nat_def Suc_le_lessD nth_mem nth_take own_def)
  then have "pgs e ! 0 \<noteq> 0" using part_of_set(2) [OF part] cfg by (auto simp: mem_cfg_def)
  then have pg: "p_page e \<noteq> 0" using page_zero by blast
  have slot: "slot b p = e" "q \<noteq> p \<Longrightarrow> slot b q = slot d q" for q using tab(1) by simp_all
  show h: "holders b = insert p (holders d)"
    using pg e(1) p(2) tab(1,2) by (auto simp: holders_def)
  show s: "swapped b = swapped d - {p}"
    using pg e(1) tab(1,2) by (auto simp: swapped_def)
  have "(\<Sum>q\<in>holders b. mset (own c (slot b q))) = mset (own c e) + (\<Sum>q\<in>holders d. mset (own c (slot b q)))"
    unfolding h using p(1) slot(1) by (subst sum.insert) auto
  moreover have "(\<Sum>q\<in>holders d. mset (own c (slot b q))) = (\<Sum>q\<in>holders d. mset (own c (slot d q)))"
  proof (rule sum.cong)
    fix q assume "q \<in> holders d"
    then have "q \<noteq> p" using p(1) by auto
    then show "mset (own c (slot b q)) = mset (own c (slot d q))" using slot(2) by simp
  qed simp
  ultimately have pages: "mset (free_pages b) + (\<Sum>q\<in>holders b. mset (own c (slot b q))) = mset_set P"
    using ok fp by (simp add: mem_ok_def ac_simps)
  have "(\<Sum>q\<in>swapped d. {#slot_of (slot d q)#})
      = (if p \<in> swapped d then {#slot_of (slot d p)#} else {#}) + (\<Sum>q\<in>swapped b. {#slot_of (slot d q)#})"
    unfolding s by (cases "p \<in> swapped d") (simp_all add: sum.remove)
  moreover have "(\<Sum>q\<in>swapped b. {#slot_of (slot d q)#}) = (\<Sum>q\<in>swapped b. {#slot_of (slot b q)#})"
    using s slot(2) by (intro sum.cong) auto
  ultimately have slots: "mset (free_slots b) + (\<Sum>q\<in>swapped b. {#slot_of (slot b q)#}) = mset_set S"
    using ok sl by (simp add: mem_ok_def ac_simps)
  have "\<forall>q\<in>holders b. spread (needs c (slot b q)) (pgs (slot b q))"
    using ok e(2) h slot by (auto simp: mem_ok_def) (metis slot(2))+
  moreover have "\<forall>q\<in>swapped b. p_page2 (slot b q) = ucast (slot_of (slot b q))"
    using ok s slot(2) by (auto simp: mem_ok_def)
  moreover have "u_ptab (krn b) \<in> holders b \<longrightarrow>
      pgs (self (krn b)) = page_bytes (u_page (krn b)) (u_page2 (krn b)) \<and> u_top (krn b) = p_top (self (krn b))"
    using ok h p(3) slot(2) tab(3-6) by (simp add: mem_ok_def)
  ultimately show "mem_ok c P S b" using pages slots ok tab(2,7) by (simp add: mem_ok_def)
qed

end
