(* ===== verification/BankProps.thy ===== *)
theory BankProps
  imports BankSpec ProcInv Sample
begin

text \<open>
  The steps of the memory manager, what they conserve, and the round trip of a process through the swap device.
\<close>

subsection \<open>Swapping in\<close>

lemma slot_taken:
  assumes "mem_ok c P S b" "p \<in> swapped b"
  shows "slot_of (slot b p) \<in> S" "slot_of (slot b p) \<notin> set (free_slots b)"
    "p_page2 (slot b p) = ucast (slot_of (slot b p))"
proof -
  let ?x = "slot_of (slot b p)"
  have "(\<Sum>q\<in>swapped b. {#slot_of (slot b q)#}) = {#?x#} + (\<Sum>q\<in>swapped b - {p}. {#slot_of (slot b q)#})"
    using assms(2) by (intro sum.remove) auto
  then have "mset_set S = mset (?x # free_slots b) + (\<Sum>q\<in>swapped b - {p}. {#slot_of (slot b q)#})"
    using assms(1) by (simp add: mem_ok_def)
  then have "mset (?x # free_slots b) \<subseteq># mset_set S" by simp
  from part_of_set [OF this] show "?x \<in> S" "?x \<notin> set (free_slots b)" by simp_all
  show "p_page2 (slot b p) = ucast ?x" using assms by (simp add: mem_ok_def)
qed

lemma swapmap_add_some:
  assumes "swapmap_add c x b = Some b'" "max_swaps c \<le> 255"
  shows "free_slots b' = free_slots b @ [x]" "slot_rest b' = slot_rest b"
proof -
  have "length (free_slots b) < max_swaps c" using assms(1) by (auto simp: swapmap_add_def split: if_splits)
  then show "free_slots b' = free_slots b @ [x]" "slot_rest b' = slot_rest b"
    using swapmap_add_stack [OF _ refl assms(2), of b x] assms(1) by auto
qed

lemma swapper_run:
  assumes cfg: "mem_cfg c P S" and geo: "geometry c S" and ok: "mem_ok c P S b" and ns: "no_stale b"
    and p: "p \<in> swapped b" and run: "swapper c p b = Some b'" and got: "p_page (slot b' p) \<noteq> 0"
  obtains d u v l where "mem_ok c P S d" "squeezed c S b d" "spread (needs c (slot b p)) l"
    "free_pages d = free_pages u @ rev (take (needs c (slot b p)) l)" "page_rest u = page_rest (upd_bp p (set_pgs l) d)"
    "all_banks swapread c p (p_page2 (slot b p)) u = Some v" "moved u v"
    "swapmap_add c (slot_of (slot b p)) v = Some b'"
proof -
  let ?w = "p_page2 (slot b p)"
  have ph: "p \<notin> holders b" using p by (simp add: swapped_def holders_def)
  obtain r u d where a: "pagemap_alloc c p b = Some (r, u)" "mem_ok c P S d" "squeezed c S b d"
    "r = ENOMEM \<and> u = d \<or> r = 0 \<and> (\<exists>l. spread (needs c (slot b p)) l \<and> free_pages d = free_pages u @ rev (take (needs c (slot b p)) l)
       \<and> page_rest u = page_rest (upd_bp p (set_pgs l) d))"
    using pagemap_alloc_run [OF cfg geo ok ns ph] by blast
  obtain v where v: "swapin c p ?w u = Some v" "swapmap_add c (slot_of (slot b p)) v = Some b'"
    using run a(1) by (auto simp: swapper_def swapper2_def slot_of_def Let_def bind_eq_Some_conv)
  have rest: "krn b' = krn v" using swapmap_add_some(2) [OF v(2)] cfg by (simp add: mem_cfg_def slot_rest_def)
  have mv: "moved u v"
    using v(1) all_banks_moved [of swapread c p ?w u] by (auto simp: swapin_def split: if_splits)
  have pu: "p_page (slot u p) \<noteq> 0" using got rest mem_core_fields(1) [of v u] mv by (simp add: moved_def)
  have "r \<noteq> ENOMEM"
  proof
    assume "r = ENOMEM"
    then have "u = d" using a(4) by auto
    moreover have "slot d p = slot b p" using a(3) ph by (simp add: squeezed_def)
    ultimately show False using pu p by (simp add: swapped_def)
  qed
  then obtain l where l: "spread (needs c (slot b p)) l" "free_pages d = free_pages u @ rev (take (needs c (slot b p)) l)"
    "page_rest u = page_rest (upd_bp p (set_pgs l) d)" using a(4) by blast
  have "all_banks swapread c p ?w u = Some v" using v(1) pu by (simp add: swapin_def)
  then show ?thesis using that a(2,3) l mv v(2) by blast
qed

lemma swapper_mem_ok:
  assumes cfg: "mem_cfg c P S" and geo: "geometry c S" and ok: "mem_ok c P S b" and ns: "no_stale b"
    and p: "p \<in> swapped b" "p \<noteq> u_ptab (krn b)" and run: "swapper c p b = Some b'" and got: "p_page (slot b' p) \<noteq> 0"
  shows "mem_ok c P S b'"
proof -
  obtain d u v l where d: "mem_ok c P S d" "squeezed c S b d" "spread (needs c (slot b p)) l"
    "free_pages d = free_pages u @ rev (take (needs c (slot b p)) l)" "page_rest u = page_rest (upd_bp p (set_pgs l) d)"
    "moved u v" "swapmap_add c (slot_of (slot b p)) v = Some b'"
    using swapper_run [OF cfg geo ok ns p(1) run got] by metis
  have ph: "p \<notin> holders b" using p by (simp add: swapped_def holders_def)
  have sd: "slot d p = slot b p" "p \<notin> holders d" "p < ptab_end (krn d)" "p \<noteq> u_ptab (krn d)" "live (slot d p)" "p \<in> swapped d"
    using d(2) ph p by (auto simp: squeezed_def swapped_def)
  let ?e = "set_pgs l (slot d p)"
  have l4: "length l = 4" using d(3) by (simp add: spread_def)
  note sa = swapmap_add_some [OF d(7)] 
  have f: "free_slots b' = free_slots v @ [slot_of (slot b p)]" "slot_rest b' = slot_rest v"
    using sa cfg by (simp_all add: mem_cfg_def)
  have tab: "ptab (krn b') = (ptab (krn d))(p := ?e)" "ptab_end (krn b') = ptab_end (krn d)" "u_ptab (krn b') = u_ptab (krn d)"
      "u_page (krn b') = u_page (krn d)" "u_page2 (krn b') = u_page2 (krn d)" "u_top (krn b') = u_top (krn d)"
      "getproc_nextp (krn b') = getproc_nextp (krn d)"
    using mem_core_fields [of v u] d(5,6) f(2) by (simp_all add: moved_def slot_rest_def page_rest_def upd_p_def)
  have fr: "free_pages b' = free_pages u" "free_slots b' = free_slots d @ [slot_of (slot b p)]"
    using moved_free [OF d(6)] f d(5) by (simp_all add: slot_rest_def page_rest_def) (simp add: free_slots_def)
  show ?thesis
  proof (rule join_mem_ok(1) [OF cfg d(1) sd(2-4) _ _ _ tab])
    show "live ?e" using sd(5) by (simp add: live_def)
    show "spread (needs c ?e) (pgs ?e)" using d(3) l4 sd(1) by simp
    show "mset (free_pages d) = mset (free_pages b') + mset (own c ?e)"
      using d(4) l4 sd(1) fr(1) by (simp add: own_def)
    show "mset (free_slots b') = mset (free_slots d) + (if p \<in> swapped d then {#slot_of (slot d p)#} else {#})"
      using fr(2) sd(1,6) by simp
  qed
qed

subsection \<open>Resizing\<close>

lemma repage_mem_ok:
  assumes cfg: "mem_cfg c P S" and ok: "mem_ok c P S b" and p: "p \<in> holders b" "p = u_ptab (krn b)"
    and e: "live e" "spread (needs c e) (pgs e)"
    and fp: "mset (free_pages b) + mset (own c (slot b p)) = mset (free_pages b') + mset (own c e)"
    and tab: "ptab (krn b') = (ptab (krn b))(p := e)" "ptab_end (krn b') = ptab_end (krn b)" "u_ptab (krn b') = u_ptab (krn b)"
      "pgs e = page_bytes (u_page (krn b')) (u_page2 (krn b'))" "u_top (krn b') = p_top e"
      "getproc_nextp (krn b') = getproc_nextp (krn b)"
    and sl: "free_slots b' = free_slots b"
  shows "mem_ok c P S b'"
proof -
  let ?rest = "\<Sum>q\<in>holders b - {p}. mset (own c (slot b q))"
  have "(\<Sum>q\<in>holders b. mset (own c (slot b q))) = mset (own c (slot b p)) + ?rest"
    using p(1) by (intro sum.remove) auto
  then have "mset_set P = (mset (free_pages b) + mset (own c (slot b p))) + ?rest"
    using ok by (simp add: mem_ok_def ac_simps)
  then have total: "mset_set P = mset (own c e) + (mset (free_pages b') + ?rest)"
    unfolding fp by (simp add: ac_simps)
  then have part: "mset (own c e) \<subseteq># mset_set P" by simp
  have "length (own c e) = needs c e" using e(2) by (simp add: own_def spread_def)
  then have "pgs e ! 0 \<in> set (own c e)" using e(2) needs_range(1) [of c "p_top e"]
    by (metis (no_types, lifting) One_nat_def Suc_le_lessD nth_mem nth_take own_def)
  then have "pgs e ! 0 \<noteq> 0" using part_of_set(2) [OF part] cfg by (auto simp: mem_cfg_def)
  then have pg: "p_page e \<noteq> 0" using page_zero by blast
  have s: "slot b' p = e" "q \<noteq> p \<Longrightarrow> slot b' q = slot b q" for q using tab(1) by simp_all
  have pend: "p < ptab_end (krn b)" using p(1) by (simp add: holders_def)
  have h: "holders b' = holders b" using pg e(1) p(1) tab(1,2) by (auto simp: holders_def)
  have w: "swapped b' = swapped b" "p \<notin> swapped b" using pg e(1) p(1) tab(1,2) by (auto simp: holders_def swapped_def)
  have "(\<Sum>q\<in>holders b'. mset (own c (slot b' q))) = mset (own c e) + (\<Sum>q\<in>holders b - {p}. mset (own c (slot b' q)))"
    unfolding h using p(1) s(1) sum.remove [of "holders b" p "\<lambda>q. mset (own c (slot b' q))"] by simp
  moreover have "(\<Sum>q\<in>holders b - {p}. mset (own c (slot b' q))) = ?rest"
    using s(2) by (intro sum.cong) auto
  ultimately have pages: "mset (free_pages b') + (\<Sum>q\<in>holders b'. mset (own c (slot b' q))) = mset_set P"
    using total by (simp add: ac_simps)
  have sw: "slot b' q = slot b q" if "q \<in> swapped b" for q using s(2) [of q] that w(2) by (cases "q = p") auto
  have "(\<Sum>q\<in>swapped b'. {#slot_of (slot b' q)#}) = (\<Sum>q\<in>swapped b. {#slot_of (slot b q)#})"
    unfolding w(1) using sw by (intro sum.cong) auto
  moreover have "spread (needs c (slot b' q)) (pgs (slot b' q))" if "q \<in> holders b'" for q
    using ok e(2) that s(1) s(2) [of q] unfolding h mem_ok_def by (cases "q = p") auto
  moreover have "p_page2 (slot b' q) = ucast (slot_of (slot b' q))" if "q \<in> swapped b'" for q
    using ok sw that unfolding w(1) mem_ok_def by auto
  ultimately show ?thesis using pages ok tab p(2) s(1) sl unfolding mem_ok_def by simp
qed

lemma spread_drop: "spread n l \<Longrightarrow> drop (n - 1) l = replicate (5 - n) (l ! 3)"
proof -
  assume s: "spread n l"
  then have n: "n - 1 < length l" "Suc (n - 1) = n" "5 - n = Suc (4 - n)" by (auto simp: spread_def)
  have "drop (n - 1) l = l ! (n - 1) # drop n l" using Cons_nth_drop_Suc [OF n(1)] n(2) by simp
  then show ?thesis using s n(3) spread_top [OF s] by (simp add: spread_def)
qed

lemma spread_make: "1 \<le> n \<Longrightarrow> n \<le> 4 \<Longrightarrow> length ys = n - 1 \<Longrightarrow> spread n (ys @ replicate (5 - n) z)"
  by (auto simp: spread_def nth_append)

lemma spread_take: "1 \<le> n \<Longrightarrow> n \<le> 4 \<Longrightarrow> length ys = n - 1 \<Longrightarrow> take n (ys @ replicate (5 - n) z) = ys @ [z]"
  by simp

lemma realloc_run:
  assumes cfg: "mem_cfg c P S" and ok: "mem_ok c P S b" and u: "u_ptab (krn b) \<in> holders b"
    and run: "pagemap_realloc c vectors sz b = Some (r, b')" and r: "r = 0" and t: "maps_needed c t = maps_needed c sz"
  shows "mem_ok c P S (upd_bp (u_ptab (krn b)) (\<lambda>e. e\<lparr>p_top := t\<rparr>) (b'\<lparr>krn := krn b'\<lparr>u_top := t\<rparr>\<rparr>))"
proof -
  let ?p = "u_ptab (krn b)" and ?k = "krn b"
  let ?l = "page_bytes (u_page ?k) (u_page2 ?k)" and ?h = "maps_needed c (u_top ?k)" and ?w = "maps_needed c sz"
  have self: "pgs (slot b ?p) = ?l" "u_top ?k = p_top (slot b ?p)" using ok u by (simp_all add: mem_ok_def)
  have "spread (needs c (slot b ?p)) (pgs (slot b ?p))" using ok u unfolding mem_ok_def by blast
  then have sp: "spread ?h ?l" using self by simp
  have hw: "1 \<le> ?h" "?h \<le> 4" "1 \<le> ?w" "?w \<le> 4" by (rule needs_range)+
  have maps: "max_maps c \<le> 255" using cfg by (simp add: mem_cfg_def)
  have l4: "length ?l = 4" by simp
  have "\<exists>l. spread ?w l \<and> krn b' = upd_p ?p (set_pgs l) (?k\<lparr>u_page := rd16 l 0, u_page2 := rd16 l 2\<rparr>)
     \<and> mset (free_pages b) + mset (take ?h ?l) = mset (free_pages b') + mset (take ?w l) \<and> free_slots b' = free_slots b"
  proof (cases "?w = ?h")
    case True
    then have "b' = b" using run by (simp add: pagemap_realloc_def Let_def)
    moreover have "rd16 ?l 0 = u_page ?k" "rd16 ?l 2 = u_page2 ?k"
      using rd16_skip [of "le16 (u_page ?k)" 2 "le16 (u_page2 ?k)"] rd16_le16 [of "u_page2 ?k" "[]"]
      by (simp_all add: page_bytes_def rd16_le16)
    moreover have "set_pgs ?l (slot b ?p) = slot b ?p" using set_pgs_same [of "slot b ?p"] self(1) by simp
    ultimately show ?thesis using sp True by (intro exI [of _ ?l]) (simp add: upd_p_def)
  next
    case False
    note low = spread_drop [OF sp]
    have whole: "?l = take (?h - 1) ?l @ replicate (5 - ?h) (?l ! 3)" using append_take_drop_id [of "?h - 1" ?l] unfolding low by (rule sym)
    have own: "take ?h ?l = take (?h - 1) ?l @ [?l ! 3]"
      by (subst (1) whole, subst spread_take) (use hw l4 in simp_all)
    obtain l v where l: "(if ?h > ?w then shrink_pages c [?w..<?h] ?l b else grow_pages [?h..<?w] ?l b) = Some (l, v)"
      "length l = 4" "spread ?w l" "mset (free_pages b) + mset (take ?h ?l) = mset (free_pages v) + mset (take ?w l)"
      "page_rest v = page_rest b"
    proof (cases "?h > ?w")
      case True
      have "length (free_pages b @ own c (slot b ?p)) \<le> max_maps c"
        using pages_room [OF cfg, of "free_pages b @ own c (slot b ?p)"] own_part [OF ok u] by simp
      then have room: "length (free_pages b) + (?h - ?w) \<le> max_maps c" using self hw by (simp add: own_def)
      let ?m = "take (?w - 1) ?l @ replicate (?h - ?w) (?l ! 3) @ drop (?h - 1) ?l"
      obtain v where v: "shrink_pages c [?w..<?h] ?l b = Some (?m, v)"
        "free_pages v = free_pages b @ drop (?w - 1) (take (?h - 1) ?l)" "page_rest v = page_rest b"
        using shrink_pages_run [OF maps _ hw(3,2) l4 room] True by auto
      have m: "?m = take (?w - 1) ?l @ replicate (5 - ?w) (?l ! 3)"
        using low True hw by (simp add: replicate_add [symmetric])
      have "?w - 1 \<le> ?h - 1" using True by simp
      then have "take (?h - 1) ?l = take (?w - 1) ?l @ drop (?w - 1) (take (?h - 1) ?l)"
        using append_take_drop_id [of "?w - 1" "take (?h - 1) ?l"] by (simp add: min_def)
      then have ms: "mset (take (?h - 1) ?l) = mset (take (?w - 1) ?l) + mset (drop (?w - 1) (take (?h - 1) ?l))"
        by (metis mset_append)
      have w1: "length (take (?w - 1) ?l) = ?w - 1" using hw l4 by simp
      show ?thesis
      proof (rule that [of ?m v])
        show "length ?m = 4" unfolding m using hw l4 by simp
        show "spread ?w ?m" unfolding m by (rule spread_make [OF hw(3,4) w1])
        show "mset (free_pages b) + mset (take ?h ?l) = mset (free_pages v) + mset (take ?w ?m)"
          unfolding m spread_take [OF hw(3,4) w1] own v(2) using ms by simp
      qed (use v True in simp_all)
    next
      case ge: False
      then have lt: "?h \<le> ?w" by simp
      have room: "?w - ?h \<le> length (free_pages b)"
        using run r False lt by (auto simp: pagemap_realloc_def Let_def split: if_splits)
      obtain v xs where v: "grow_pages [?h..<?w] ?l b = Some (take (?h - 1) ?l @ xs @ drop (?w - 1) ?l, v)"
        "length xs = ?w - ?h" "free_pages b = free_pages v @ rev xs" "page_rest v = page_rest b"
        using grow_pages_run [OF lt hw(1,4) l4 room] by blast
      have "drop (?w - 1) ?l = drop (?w - ?h) (drop (?h - 1) ?l)" using lt hw by simp
      then have dw: "drop (?w - 1) ?l = replicate (5 - ?w) (?l ! 3)" unfolding low using lt hw by simp
      let ?m = "(take (?h - 1) ?l @ xs) @ replicate (5 - ?w) (?l ! 3)"
      have w1: "length (take (?h - 1) ?l @ xs) = ?w - 1" using v(2) lt hw l4 by simp
      show ?thesis
      proof (rule that [of ?m v])
        show "(if ?h > ?w then shrink_pages c [?w..<?h] ?l b else grow_pages [?h..<?w] ?l b) = Some (?m, v)"
          using v(1) ge dw by simp
        show "length ?m = 4" using w1 hw by simp
        show "spread ?w ?m" by (rule spread_make [OF hw(3,4) w1])
        show "mset (free_pages b) + mset (take ?h ?l) = mset (free_pages v) + mset (take ?w ?m)"
          unfolding spread_take [OF hw(3,4) w1] own v(3) by simp
      qed (rule v(4))
    qed
    let ?v = "v\<lparr>krn := krn v\<lparr>u_page := rd16 l 0, u_page2 := rd16 l 2\<rparr>\<rparr>"
    have kv: "krn v = krn b" "free_slots v = free_slots b" using l(5) by (simp_all add: page_rest_def)
    have "\<not> (?h < ?w \<and> ?w - ?h > unat (pfptr b))"
      using run r False by (auto simp: pagemap_realloc_def Let_def split: if_splits)
    then have "b' = (let b = upd_bp ?p (set_pgs l) ?v in if ?h < ?w \<or> ?w = 1 then b\<lparr>bank := vectors l (bank b)\<rparr> else b)"
      using run False l(1) kv by (auto simp: pagemap_realloc_def Let_def)
    then have "krn b' = upd_p ?p (set_pgs l) (?k\<lparr>u_page := rd16 l 0, u_page2 := rd16 l 2\<rparr>)" "free_pages b' = free_pages v"
      "free_slots b' = free_slots b"
      using kv by (simp_all add: Let_def free_pages_def free_slots_def)
    then show ?thesis using l(2-4) by (intro exI [of _ l]) simp
  qed
  then obtain l where l: "spread ?w l" "krn b' = upd_p ?p (set_pgs l) (?k\<lparr>u_page := rd16 l 0, u_page2 := rd16 l 2\<rparr>)"
    "mset (free_pages b) + mset (take ?h ?l) = mset (free_pages b') + mset (take ?w l)" "free_slots b' = free_slots b"
    by (elim exE conjE) (rule that; assumption)
  let ?e = "(set_pgs l (slot b ?p))\<lparr>p_top := t\<rparr>"
  have l4': "length l = 4" using l(1) by (simp add: spread_def)
  have pe: "pgs ?e = l" using l4' by (simp add: pgs_def set_pgs_def page_bytes_rd)
  show ?thesis
  proof (rule repage_mem_ok [OF cfg ok u refl, of ?e])
    show "live ?e" using u by (simp add: live_def holders_def)
    show "spread (needs c ?e) (pgs ?e)" using l(1) pe t by simp
    show "mset (free_pages b) + mset (own c (slot b ?p))
      = mset (free_pages (upd_bp ?p (\<lambda>e. e\<lparr>p_top := t\<rparr>) (b'\<lparr>krn := krn b'\<lparr>u_top := t\<rparr>\<rparr>))) + mset (own c ?e)"
      using l(3) pe t self by (simp add: own_def free_pages_def)
  qed (use l pe l4' in \<open>simp_all add: upd_p_def free_slots_def page_bytes_rd\<close>)
qed

subsection \<open>The steps\<close>

text \<open>
  What happens to the memory of the processes: fork (ptab\_alloc() with a cleared entry), exec (the new size is then
  stored as u\_top and p\_top), exit, a swap-in by the scheduler, and changes of the kernel's tables that leave the pages
  of live processes alone: status changes between live states, reaping, clearing an empty entry, and a
  switch to another process, which loads u\_page and u\_page2.
\<close>

definition same_pages :: "kst \<Rightarrow> kst \<Rightarrow> bool" where
  "same_pages k k' \<longleftrightarrow> ptab_end k' = ptab_end k \<and> getproc_nextp k' < ptab_end k'
     \<and> (\<forall>q. live (ptab k' q) = live (ptab k q))
     \<and> (\<forall>q. live (ptab k q) \<longrightarrow> p_page (ptab k' q) = p_page (ptab k q) \<and> p_page2 (ptab k' q) = p_page2 (ptab k q)
          \<and> p_top (ptab k' q) = p_top (ptab k q))
     \<and> u_page k' = p_page (self k') \<and> u_page2 k' = p_page2 (self k') \<and> u_top k' = p_top (self k')"

inductive mem_step :: "bank_cfg \<Rightarrow> (u8 list \<Rightarrow> (u8 \<Rightarrow> nat \<Rightarrow> u8) \<Rightarrow> u8 \<Rightarrow> nat \<Rightarrow> u8) \<Rightarrow> bst \<Rightarrow> bst \<Rightarrow> bool" for c vectors where
  ms_fork: "p < ptab_end (krn b) \<Longrightarrow> p_status (slot b p) = P_EMPTY \<Longrightarrow> p_page (slot b p) = 0 \<Longrightarrow> p \<noteq> u_ptab (krn b) \<Longrightarrow>
     no_stale b \<Longrightarrow> pagemap_alloc c p b = Some (r, b') \<Longrightarrow>
     mem_step c vectors b (if r = 0 then upd_bp p (\<lambda>e. e\<lparr>p_status := P_FORKING\<rparr>) b' else b')"
| ms_resize: "u_ptab (krn b) \<in> holders b \<Longrightarrow> pagemap_realloc c vectors sz b = Some (0, b') \<Longrightarrow> maps_needed c t = maps_needed c sz \<Longrightarrow>
     mem_step c vectors b (upd_bp (u_ptab (krn b)) (\<lambda>e. e\<lparr>p_top := t\<rparr>) (b'\<lparr>krn := krn b'\<lparr>u_top := t\<rparr>\<rparr>))"
| ms_exit: "u_ptab (krn b) \<in> holders b \<Longrightarrow> pagemap_free c (u_ptab (krn b)) b = Some b' \<Longrightarrow>
     mem_step c vectors b (upd_bp (u_ptab (krn b)) (\<lambda>e. e\<lparr>p_status := P_ZOMBIE\<rparr>) b')"
| ms_swapin: "p \<in> swapped b \<Longrightarrow> p \<noteq> u_ptab (krn b) \<Longrightarrow> no_stale b \<Longrightarrow> swapper c p b = Some b' \<Longrightarrow> p_page (slot b' p) \<noteq> 0 \<Longrightarrow>
     mem_step c vectors b b'"
| ms_other: "same_pages (krn b) k \<Longrightarrow> mem_step c vectors b (b\<lparr>krn := k\<rparr>)"

inductive_cases mem_stepE: "mem_step c vectors b b'"

lemma fork_mem_ok:
  assumes cfg: "mem_cfg c P S" and geo: "geometry c S" and ok: "mem_ok c P S b" and ns: "no_stale b"
    and p: "p < ptab_end (krn b)" "p_status (slot b p) = P_EMPTY" "p \<noteq> u_ptab (krn b)"
    and run: "pagemap_alloc c p b = Some (r, b')"
  shows "mem_ok c P S (if r = 0 then upd_bp p (\<lambda>e. e\<lparr>p_status := P_FORKING\<rparr>) b' else b')"
proof -
  have ph: "p \<notin> holders b" "p \<notin> swapped b" using p(2) by (simp_all add: holders_def swapped_def live_def)
  let ?n = "needs c (slot b p)"
  obtain d where d: "mem_ok c P S d" "squeezed c S b d" "r = ENOMEM \<and> b' = d \<or>
     r = 0 \<and> (\<exists>l. spread ?n l \<and> free_pages d = free_pages b' @ rev (take ?n l) \<and> page_rest b' = page_rest (upd_bp p (set_pgs l) d))"
    using pagemap_alloc_run [OF cfg geo ok ns ph(1)] run by auto
  show ?thesis
  proof (cases "r = 0")
    case False
    then show ?thesis using d by auto
  next
    case True
    then obtain l where l: "spread ?n l" "free_pages d = free_pages b' @ rev (take ?n l)" "page_rest b' = page_rest (upd_bp p (set_pgs l) d)"
      using d(3) by auto
    have sd: "slot d p = slot b p" "p \<notin> holders d" "p < ptab_end (krn d)" "p \<noteq> u_ptab (krn d)" "p \<notin> swapped d"
      using d(2) ph p by (auto simp: squeezed_def swapped_def live_def)
    let ?e = "(set_pgs l (slot d p))\<lparr>p_status := P_FORKING\<rparr>"
    have l4: "length l = 4" using l(1) by (simp add: spread_def)
    have pe: "pgs ?e = l" using l4 by (simp add: pgs_def set_pgs_def page_bytes_rd)
    have "mem_ok c P S (upd_bp p (\<lambda>e. e\<lparr>p_status := P_FORKING\<rparr>) b')"
    proof (rule join_mem_ok(1) [OF cfg d(1) sd(2-4), of ?e])
      show "live ?e" by (simp add: live_def)
      show "spread (needs c ?e) (pgs ?e)" using l(1) pe sd(1) by simp
      show "mset (free_pages d) = mset (free_pages (upd_bp p (\<lambda>e. e\<lparr>p_status := P_FORKING\<rparr>) b')) + mset (own c ?e)"
        using l(2) pe sd(1) by (simp add: own_def free_pages_def)
    qed (use l(3) sd(5) in \<open>simp_all add: page_rest_def upd_p_def free_slots_def\<close>)
    then show ?thesis using True by simp
  qed
qed

lemma exit_mem_ok:
  assumes cfg: "mem_cfg c P S" and ok: "mem_ok c P S b" and p: "p \<in> holders b"
    and run: "pagemap_free c p b = Some b'"
  shows "mem_ok c P S (upd_bp p (\<lambda>e. e\<lparr>p_status := P_ZOMBIE\<rparr>) b')"
proof -
  let ?b = "upd_bp p (\<lambda>e. e\<lparr>p_status := P_ZOMBIE\<rparr>) b'"
  have "spread (needs c (slot b p)) (pgs (slot b p))" using ok p unfolding mem_ok_def by blast
  then have f: "free_pages b' = free_pages b @ own c (slot b p)" "page_rest b' = page_rest b"
    using pagemap_free_own [OF cfg own_part [OF ok p]] run by auto
  have fr: "free_pages ?b = free_pages b @ own c (slot b p)" "free_slots ?b = free_slots b"
    using f by (simp_all add: page_rest_def free_slots_def) (simp add: free_pages_def)
  have k: "krn ?b = upd_p p (\<lambda>e. e\<lparr>p_status := P_ZOMBIE\<rparr>) (krn b)" using f(2) by (simp add: page_rest_def)
  have s: "slot ?b p = (slot b p)\<lparr>p_status := P_ZOMBIE\<rparr>" "q \<noteq> p \<Longrightarrow> slot ?b q = slot b q" for q
    unfolding k by (simp_all add: upd_p_def)
  have "q \<in> holders ?b \<longleftrightarrow> q \<in> holders b - {p}" "q \<in> swapped ?b \<longleftrightarrow> q \<in> swapped b" for q
    using p unfolding holders_def swapped_def k by (cases "q = p"; simp add: live_def upd_p_def)+
  then have h: "holders ?b = holders b - {p}" "swapped ?b = swapped b" by blast+
  have pw: "p \<notin> swapped b" using p by (simp add: holders_def swapped_def)
  have "(\<Sum>q\<in>holders b. mset (own c (slot b q))) = mset (own c (slot b p)) + (\<Sum>q\<in>holders b - {p}. mset (own c (slot b q)))"
    using p by (intro sum.remove) auto
  moreover have "(\<Sum>q\<in>holders b - {p}. mset (own c (slot b q))) = (\<Sum>q\<in>holders ?b. mset (own c (slot ?b q)))"
    unfolding h using f(2) by (intro sum.cong) (auto simp: page_rest_def upd_p_def)
  ultimately have pages: "mset (free_pages ?b) + (\<Sum>q\<in>holders ?b. mset (own c (slot ?b q))) = mset_set P"
    using ok unfolding fr(1) by (simp add: mem_ok_def ac_simps)
  have sw: "slot ?b q = slot b q" if "q \<in> swapped b" for q using s(2) [of q] that pw by (cases "q = p") auto
  have "(\<Sum>q\<in>swapped ?b. {#slot_of (slot ?b q)#}) = (\<Sum>q\<in>swapped b. {#slot_of (slot b q)#})"
    unfolding h using sw by (intro sum.cong) auto
  then have slots: "mset (free_slots ?b) + (\<Sum>q\<in>swapped ?b. {#slot_of (slot ?b q)#}) = mset_set S"
    using ok unfolding fr(2) mem_ok_def by simp
  have "spread (needs c (slot ?b q)) (pgs (slot ?b q))" if "q \<in> holders ?b" for q
    using ok that s(2) [of q] unfolding h mem_ok_def by auto
  moreover have "p_page2 (slot ?b q) = ucast (slot_of (slot ?b q))" if "q \<in> swapped ?b" for q
    using ok sw [of q] that unfolding h mem_ok_def by auto
  moreover have "u_ptab (krn ?b) \<in> holders ?b \<longrightarrow>
      pgs (self (krn ?b)) = page_bytes (u_page (krn ?b)) (u_page2 (krn ?b)) \<and> u_top (krn ?b) = p_top (self (krn ?b))"
    using ok unfolding h(1) mem_ok_def k by (auto simp: upd_p_def)
  moreover have "getproc_nextp (krn ?b) < ptab_end (krn ?b)" using ok unfolding mem_ok_def k by (simp add: upd_p_def)
  ultimately show ?thesis unfolding mem_ok_def using pages slots by blast
qed

lemma other_mem_ok:
  assumes ok: "mem_ok c P S b" and k: "same_pages (krn b) k"
  shows "mem_ok c P S (b\<lparr>krn := k\<rparr>)"
proof -
  have h: "holders (b\<lparr>krn := k\<rparr>) = holders b" "swapped (b\<lparr>krn := k\<rparr>) = swapped b"
    using k by (auto simp: holders_def swapped_def same_pages_def)
  have e: "own c (ptab k q) = own c (slot b q)" "pgs (ptab k q) = pgs (slot b q)" "p_top (ptab k q) = p_top (slot b q)"
    "slot_of (ptab k q) = slot_of (slot b q)" "p_page2 (ptab k q) = p_page2 (slot b q)"
    if "q \<in> holders b \<or> q \<in> swapped b" for q
    using k that by (auto simp: same_pages_def holders_def swapped_def own_def pgs_def slot_of_def)
  have f: "free_pages (b\<lparr>krn := k\<rparr>) = free_pages b" "free_slots (b\<lparr>krn := k\<rparr>) = free_slots b"
    by (simp_all add: free_pages_def free_slots_def)
  have "(\<Sum>q\<in>holders b. mset (own c (ptab k q))) = (\<Sum>q\<in>holders b. mset (own c (slot b q)))"
    using e(1) by (intro sum.cong) auto
  moreover have "(\<Sum>q\<in>swapped b. {#slot_of (ptab k q)#}) = (\<Sum>q\<in>swapped b. {#slot_of (slot b q)#})"
    using e(4) by (intro sum.cong) auto
  ultimately show ?thesis
    using ok k e(2,3,5) unfolding mem_ok_def h f by (auto simp: same_pages_def pgs_def e(4))
qed

lemma mem_step_ok:
  assumes cfg: "mem_cfg c P S" and geo: "geometry c S"
  shows "mem_step c vectors b b' \<Longrightarrow> mem_ok c P S b \<Longrightarrow> mem_ok c P S b'"
proof (induction rule: mem_step.induct)
  case (ms_fork p b r b')
  then show ?case using fork_mem_ok [OF cfg geo] by blast
next
  case (ms_resize b sz b' t)
  then show ?case using realloc_run [OF cfg] by blast
next
  case (ms_exit b b')
  then show ?case using exit_mem_ok [OF cfg] by blast
next
  case (ms_swapin p b b')
  then show ?case using swapper_mem_ok [OF cfg geo] by blast
next
  case (ms_other b k)
  then show ?case using other_mem_ok by blast
qed

interpretation pages_kept: kept_invariant "mem_step c vectors" "\<lambda>b. mem_cfg c P S \<and> geometry c S \<and> mem_ok c P S b"
  for c vectors P S
  by unfold_locales (use mem_step_ok in blast)

text \<open>What mem\_ok says of single pages.\<close>

lemma count_sum_le:
  fixes f :: "'a \<Rightarrow> u8 multiset"
  assumes "finite A" "x \<in> A" "y \<in> A" "x \<noteq> y"
  shows "f x + f y \<subseteq># sum f A"
proof -
  have "sum f A = f x + (f y + sum f (A - {x} - {y}))"
    using assms by (simp add: sum.remove [of A x] sum.remove [of "A - {x}" y])
  then show ?thesis by (metis add.assoc mset_subset_eq_add_left)
qed

lemma disjoint_parts:
  assumes "mset xs + mset ys \<subseteq># mset_set P"
  shows "set xs \<inter> set ys = {}"
  using part_of_set(1) [of "xs @ ys" P] assms by simp

lemma mem_ok_sums:
  assumes "mem_ok c P S b"
  shows "(\<Sum>q\<in>holders b. mset (own c (slot b q))) \<subseteq># mset_set P" "(\<Sum>q\<in>swapped b. {#slot_of (slot b q)#}) \<subseteq># mset_set S"
proof -
  have "mset_set P = mset (free_pages b) + (\<Sum>q\<in>holders b. mset (own c (slot b q)))"
    "mset_set S = mset (free_slots b) + (\<Sum>q\<in>swapped b. {#slot_of (slot b q)#})"
    using assms by (simp_all add: mem_ok_def)
  then show "(\<Sum>q\<in>holders b. mset (own c (slot b q))) \<subseteq># mset_set P" "(\<Sum>q\<in>swapped b. {#slot_of (slot b q)#}) \<subseteq># mset_set S"
    by simp_all
qed

lemma mem_ok_apart:
  assumes ok: "mem_ok c P S b"
  shows "p \<in> holders b \<Longrightarrow> q \<in> holders b \<Longrightarrow> p \<noteq> q \<Longrightarrow> set (own c (slot b p)) \<inter> set (own c (slot b q)) = {}"
    and "p \<in> holders b \<Longrightarrow> set (own c (slot b p)) \<inter> set (free_pages b) = {}"
    and "p \<in> swapped b \<Longrightarrow> q \<in> swapped b \<Longrightarrow> p \<noteq> q \<Longrightarrow> p_page2 (slot b p) \<noteq> p_page2 (slot b q)"
proof -
  show "set (own c (slot b p)) \<inter> set (own c (slot b q)) = {}" if "p \<in> holders b" "q \<in> holders b" "p \<noteq> q"
  proof (rule disjoint_parts)
    have "mset (own c (slot b p)) + mset (own c (slot b q)) \<subseteq># (\<Sum>x\<in>holders b. mset (own c (slot b x)))"
      using that by (intro count_sum_le) auto
    then show "mset (own c (slot b p)) + mset (own c (slot b q)) \<subseteq># mset_set P"
      using mem_ok_sums(1) [OF ok] by (rule subset_mset.order_trans)
  qed
  show "set (own c (slot b p)) \<inter> set (free_pages b) = {}" if "p \<in> holders b"
    using disjoint_parts own_part [OF ok that] by blast
  show "p_page2 (slot b p) \<noteq> p_page2 (slot b q)" if "p \<in> swapped b" "q \<in> swapped b" "p \<noteq> q"
  proof -
    have "{#slot_of (slot b p)#} + {#slot_of (slot b q)#} \<subseteq># (\<Sum>x\<in>swapped b. {#slot_of (slot b x)#})"
      using that by (intro count_sum_le) auto
    then have "{#slot_of (slot b p)#} + {#slot_of (slot b q)#} \<subseteq># mset_set S"
      using mem_ok_sums(2) [OF ok] by (rule subset_mset.order_trans)
    then have "mset [slot_of (slot b p), slot_of (slot b q)] \<subseteq># mset_set S" by (simp add: add_mset_commute)
    from part_of_set(1) [OF this] have "slot_of (slot b p) \<noteq> slot_of (slot b q)" by simp
    then show ?thesis by (auto simp: slot_of_def)
  qed
qed


subsection \<open>Out and in again\<close>

text \<open>A byte of the address space of a process that is in memory.\<close>

definition user_byte :: "bst \<Rightarrow> nat \<Rightarrow> nat \<Rightarrow> u8" where
  "user_byte b p a = bank b (pgs (slot b p) ! (a div 0x4000)) (a mod 0x4000)"

lemma saved_address:
  assumes geo: "geometry c S" and al: "512 dvd unat (swapbase c)"
    and a: "unat (swapbase c) \<le> a" "a < 0xC000 + 512 * unat (last_size c)"
  shows "saved c (a div 0x4000) (a mod 0x4000)"
proof -
  let ?s = "unat (swapbase c)"
  have s: "?s < 0x4000" using geo by (simp add: geometry_def word_less_nat_alt)
  then have "take_bit 14 (swapbase c) = swapbase c"
    by (simp add: word_unat_eq_iff unsigned_take_bit_eq take_bit_nat_eq_self)
  then have m: "swapbase c AND 0x3FFF = swapbase c" by (simp add: take_bit_eq_mask mask_eq_exp_minus_1)
  then have b0: "boff c 0 = ?s" by (simp add: boff_def bbase_def)
  have "unat (0x4000 - swapbase c) = 0x4000 - ?s" using s by (simp add: unat_sub word_le_nat_alt)
  then have "unat (bsz c 0) = (0x4000 - ?s) div 512" by (simp add: bsz_def unat_drop_bit_eq drop_bit_nat_def)
  moreover obtain k where "?s = 512 * k" using al by (elim dvdE)
  ultimately have z0: "?s + 512 * unat (bsz c 0) = 0x4000" using s by simp
  have "a div 0x4000 < 4" using a(2) geo by (auto simp: geometry_def less_mult_imp_div_less)
  moreover have am: "a = 0x4000 * (a div 0x4000) + a mod 0x4000" by simp
  ultimately consider "a div 0x4000 = 0" "a mod 0x4000 = a" | "a div 0x4000 = 1" | "a div 0x4000 = 2"
    | "a div 0x4000 = 3" "a mod 0x4000 < 512 * unat (last_size c)" using a(2) by linarith
  then show ?thesis
  proof cases
    case 1
    have "a mod 0x4000 < 0x4000" by simp
    then show ?thesis using 1 b0 z0 a(1) by (simp add: saved_def)
  qed (simp_all add: saved_def boff_def bbase_def bsz_def)
qed

lemma spread_nth: "spread n l \<Longrightarrow> j < 4 \<Longrightarrow> l ! j = l ! (min j (n - 1))"
proof -
  assume s: "spread n l" and j: "j < 4"
  show ?thesis
  proof (cases "j < n")
    case True
    then have "j \<le> n - 1" by simp
    then show ?thesis by (simp add: min_def)
  next
    case False
    then have "drop n l ! (j - n) = l ! (n - 1)" using s j by (simp add: spread_def)
    then show ?thesis using False s j nth_drop [of n l "j - n"] by (simp add: spread_def min_def)
  qed
qed

lemma spread_eq:
  assumes "spread n l" "distinct (take n l)" "spread n m" "i < 4" "j < 4" "l ! i = l ! j"
  shows "m ! i = m ! j"
proof -
  have n: "1 \<le> n" "n \<le> 4" "length l = 4" using assms(1) by (auto simp: spread_def)
  let ?i = "min i (n - 1)" and ?j = "min j (n - 1)"
  have "take n l ! ?i = take n l ! ?j"
    using assms spread_nth [OF assms(1,4)] spread_nth [OF assms(1,5)] n by simp
  moreover have "?i < length (take n l)" "?j < length (take n l)" using n by auto
  ultimately have "?i = ?j" using assms(2) nth_eq_iff_index_eq by blast
  then show ?thesis using spread_nth [OF assms(3,4)] spread_nth [OF assms(3,5)] by simp
qed

lemma swap_in_restores:
  assumes cfg: "mem_cfg c P S" and geo: "geometry c S" and ok: "mem_ok c P S b" and ns: "no_stale b" and p: "p \<in> swapped b"
    and run: "swapper c p b = Some b'" and got: "p_page (slot b' p) \<noteq> 0"
    and rd: "\<forall>y. blk_rd_ok (plat (krn b)) (swapdev c) y"
    and old: "spread (needs c (slot b p)) l0"
    and img: "\<forall>j a. saved c j a \<longrightarrow> stored c (krn b) (p_page2 (slot b p) * swap_size c) j a = m (l0 ! j) a"
    and ja: "saved c j a"
  shows "bank b' (pgs (slot b' p) ! j) a = m (l0 ! j) a"
proof -
  let ?n = "needs c (slot b p)" and ?x = "slot_of (slot b p)"
  obtain d u v l where d: "mem_ok c P S d" "squeezed c S b d" "spread ?n l" "free_pages d = free_pages u @ rev (take ?n l)"
    "page_rest u = page_rest (upd_bp p (set_pgs l) d)" "all_banks swapread c p (p_page2 (slot b p)) u = Some v" "moved u v"
    "swapmap_add c ?x v = Some b'"
    using swapper_run [OF cfg geo ok ns p run got] by metis
  have ph: "p \<notin> holders b" using p by (simp add: swapped_def holders_def)
  have l4: "length l = 4" using d(3) by (simp add: spread_def)
  have x: "?x \<in> S" "?x \<notin> set (free_slots b)" "p_page2 (slot b p) = ucast ?x" by (rule slot_taken [OF ok p])+
  have k: "krn u = upd_p p (set_pgs l) (krn d)" using d(5) by (simp add: page_rest_def)
  have same: "slot_same c ?x (krn b) (krn u)" using d(2) x k by (simp add: squeezed_def slot_same_def upd_p_def)
  have pu: "pgs (slot u p) = l" using k l4 by (simp add: upd_p_def)
  have rdu: "\<forall>y. blk_rd_ok (plat (krn u)) (swapdev c) y" using rd d(2) k by (simp add: squeezed_def upd_p_def)
  have "mset (take ?n l) \<subseteq># mset (free_pages d)" unfolding d(4) by simp
  also have "\<dots> \<subseteq># mset_set P" using d(1) by (simp add: mem_ok_def) (metis mset_subset_eq_add_left)
  finally have dist: "distinct (take ?n l)" using part_of_set(1) by blast
  have loop: "bank_loop swapread c p 0 (p_page2 (slot b p) * swap_size c + of_nat (bstart c 0)) (bbase c 0) (bsz c 0) 4 u = Some v"
    using d(6) by (simp add: all_banks_def bbase_def bsz_def)
  have j: "j < 4" using ja by (simp add: saved_def)
  have "bank v (l ! j) a = m (l0 ! j) a"
  proof (rule bank_in [OF geo _ loop rdu])
    show "\<forall>i. 0 \<le> i \<and> saved c i a \<and> pgs (slot u p) ! i = l ! j \<longrightarrow>
        stored c (krn u) (p_page2 (slot b p) * swap_size c) i a = m (l0 ! j) a"
    proof (intro allI impI)
      fix i assume i: "0 \<le> i \<and> saved c i a \<and> pgs (slot u p) ! i = l ! j"
      then have "i < 4" by (simp add: saved_def)
      then have "l0 ! i = l0 ! j" using spread_eq [OF d(3) dist old _ j] i pu by simp
      then show "stored c (krn u) (p_page2 (slot b p) * swap_size c) i a = m (l0 ! j) a"
        using stored_same [OF geo _ same] img i x(3) by simp
    qed
    show "(\<exists>i. 0 \<le> i \<and> saved c i a \<and> pgs (slot u p) ! i = l ! j) \<or> bank u (l ! j) a = m (l0 ! j) a"
      using ja pu by auto
  qed simp
  moreover have "slot_rest b' = slot_rest v" using swapmap_add_some(2) [OF d(8)] cfg by (simp add: mem_cfg_def)
  moreover have "pgs (slot v p) = l" using mem_core_fields(1) [of v u] d(7) pu by (simp add: moved_def)
  ultimately show ?thesis by (simp add: slot_rest_def)
qed

text \<open>C12: A process survives swapping. It is swapped out (swapout()) from a consistent state and later, when its swap slot and its
  entry are still as they were, the scheduler swaps it in (swapper()) and finds pages for it. Then every byte of its
  address space from SWAPBASE to the end of the swap image is what it was, although the new pages may be
  different ones and other processes may have been swapped out to make room; this holds also where one page fills
  several places of the map and is written and read several times.\<close>

theorem swap_roundtrip:
  assumes "mem_cfg c P S" "geometry c S" "512 dvd unat (swapbase c)"
    "mem_ok c P S b" "p \<in> holders b" "\<forall>y. blk_wr_ok (plat (krn b)) (swapdev c) y" "swapout c p b = Some (0, b1)"
    "mem_ok c P S b2" "no_stale b2" "p \<in> swapped b2" "slot b2 p = slot b1 p"
    "slot_same c (slot_of (slot b1 p)) (krn b1) (krn b2)" "\<forall>y. blk_rd_ok (plat (krn b2)) (swapdev c) y"
    "swapper c p b2 = Some b3" "p_page (slot b3 p) \<noteq> 0"
    "unat (swapbase c) \<le> a" "a < 0xC000 + 512 * unat (last_size c)"
  shows "user_byte b3 p a = user_byte b p a"
proof -
  let ?j = "a div 0x4000" and ?a = "a mod 0x4000"
  obtain x where x: "evicted p x b b1"
    "\<forall>j a. saved c j a \<longrightarrow> stored c (krn b1) (ucast x * swap_size c) j a = bank b (pgs (slot b p) ! j) a"
    using swapout_run [OF assms(1,2,4,5)] assms(6,7) by auto
  have s1: "slot b1 p = (slot b p)\<lparr>p_page := 0, p_page2 := ucast x\<rparr>" using evicted_tables(3) [OF x(1) assms(5)] .
  have p2: "p_page2 (slot b2 p) = ucast x" "p_top (slot b2 p) = p_top (slot b p)" "slot_of (slot b1 p) = x"
    using assms(11) s1 by (simp_all add: slot_of_def)
  have sp: "spread (needs c (slot b2 p)) (pgs (slot b p))" using assms(4,5) p2(2) by (simp add: mem_ok_def)
  have img: "\<forall>j a. saved c j a \<longrightarrow> stored c (krn b2) (p_page2 (slot b2 p) * swap_size c) j a = bank b (pgs (slot b p) ! j) a"
    using x(2) stored_same [OF assms(2) _ assms(12) [unfolded p2(3)]] p2(1) by simp
  show ?thesis
    using swap_in_restores [OF assms(1,2,8,9,10,14,15,13) sp img saved_address [OF assms(2,3,16,17)]]
    by (simp add: user_byte_def)
qed

lemma swapper_returns:
  assumes cfg: "mem_cfg c P S" and geo: "geometry c S" and ok: "mem_ok c P S b" and ns: "no_stale b" and p: "p \<in> swapped b"
    and room: "needs c (slot b p) \<le> length (free_pages b)"
  obtains b' where "swapper c p b = Some b'" "p_page (slot b' p) \<noteq> 0"
proof -
  let ?n = "needs c (slot b p)" and ?x = "slot_of (slot b p)"
  have ph: "p \<notin> holders b" using p by (simp add: swapped_def holders_def)
  obtain r u d where a: "pagemap_alloc c p b = Some (r, u)" "mem_ok c P S d" "squeezed c S b d" "r = ENOMEM \<and> u = d \<or>
     r = 0 \<and> (\<exists>l. spread ?n l \<and> free_pages d = free_pages u @ rev (take ?n l) \<and> page_rest u = page_rest (upd_bp p (set_pgs l) d))"
    using pagemap_alloc_run [OF cfg geo ok ns ph] by blast
  have "make_room c p ?n b = Some (True, b)" using room by (subst make_room.simps) simp
  then have "r = 0" using a(1) by (auto simp: pagemap_alloc_def pagemap_alloc2_def Let_def bind_eq_Some_conv)
  then obtain l where l: "spread ?n l" "free_pages d = free_pages u @ rev (take ?n l)" "page_rest u = page_rest (upd_bp p (set_pgs l) d)"
    using a(4) by auto
  obtain v where v: "all_banks swapread c p (p_page2 (slot b p)) u = Some v" "moved u v" using all_banks_moved by blast
  have x: "?x \<in> S" "?x \<notin> set (free_slots b)" by (rule slot_taken [OF ok p])+
  have l4: "length l = 4" using l(1) by (simp add: spread_def)
  have pu: "pgs (slot u p) = l" using l(3) l4 by (simp add: page_rest_def upd_p_def)
  have fs: "free_slots v = free_slots d" using moved_free [OF v(2)] l(3) by (simp add: page_rest_def) (simp add: free_slots_def)
  have "set (free_slots d) \<subseteq> S - {?x}" "distinct (free_slots d)"
  proof -
    have "mset (free_slots d) \<subseteq># mset_set S" using a(2) by (simp add: mem_ok_def) (metis mset_subset_eq_add_left)
    from part_of_set [OF this] show "set (free_slots d) \<subseteq> S - {?x}" "distinct (free_slots d)"
      using a(3) x(2) by (auto simp: squeezed_def)
  qed
  then have "length (free_slots d) \<le> card (S - {?x})" by (metis card_mono distinct_card finite)
  also have "\<dots> < card S" using x(1) by (intro card_Diff1_less) simp_all
  finally have room2: "length (free_slots v) < max_swaps c" using cfg fs by (simp add: mem_cfg_def)
  then obtain b' where b': "swapmap_add c ?x v = Some b'" "slot_rest b' = slot_rest v"
    using swapmap_add_stack [OF room2 refl] cfg by (auto simp: mem_cfg_def)
  have "mset (take ?n l) \<subseteq># mset (free_pages d)" unfolding l(2) by simp
  also have "\<dots> \<subseteq># mset_set P" using a(2) by (simp add: mem_ok_def) (metis mset_subset_eq_add_left)
  finally have "set (take ?n l) \<subseteq> P" using part_of_set(2) by blast
  moreover have "l ! 0 \<in> set (take ?n l)" using l(1) needs_range(1) [of c "p_top (slot b p)"]
    by (auto simp: spread_def in_set_conv_nth intro!: exI [of _ 0])
  ultimately have "l ! 0 \<noteq> 0" using cfg by (auto simp: mem_cfg_def)
  then have got: "p_page (slot u p) \<noteq> 0" using page_zero pu by metis
  have "swapper c p b = Some b'" using a(1) v(1) b'(1) got
    by (simp add: swapper_def swapper2_def swapin_def slot_of_def Let_def)
  moreover have "p_page (slot b' p) \<noteq> 0"
    using b'(2) mem_core_fields(1) [of v u] v(2) got by (simp add: slot_rest_def moved_def)
  ultimately show ?thesis using that by blast
qed

subsection \<open>An example\<close>

text \<open>Eight pages and two swap slots; process 0 runs in pages 1 to 3, process 1 sleeps in pages 4 to 6.\<close>

definition bank_cfg0 :: bank_cfg where
  "bank_cfg0 = \<lparr>max_maps = 8, max_swaps = 2, progtop = 0xF000, swapbase = 0, swap_size = 0x78, swapdev = 1, procmem = 128\<rparr>"

definition banks0 :: bst where
  "banks0 = \<lparr>krn = sample\<lparr>u_page := 0x0201, u_page2 := 0x0303,
       ptab := (\<lambda>_. sample_ptab)
         (0 := sample_ptab\<lparr>p_status := P_RUNNING, p_pid := 1, p_page := 0x0201, p_page2 := 0x0303, p_top := 0x8000\<rparr>,
          1 := sample_ptab\<lparr>p_status := P_SLEEP, p_pid := 2, p_page := 0x0504, p_page2 := 0x0606, p_top := 0x8000\<rparr>)\<rparr>,
     pfree = (\<lambda>i. if i = 0 then 7 else 8), pfptr = 2, swapmap = (\<lambda>i. if i = 0 then 1 else 2), swapptr = 2,
     swapusedk = 0, swapk = 120, bank = (\<lambda>_ _. 0)\<rparr>"

abbreviation "pages0 \<equiv> {1, 2, 3, 4, 5, 6, 7, 8 :: u8}"
abbreviation "slots0 \<equiv> {1, 2 :: u8}"

lemma bstart4: "bstart c 4 = unat (bsz c 0) + 64 + unat (last_size c)"
proof -
  have four: "(4 :: nat) = Suc (Suc (Suc (Suc 0)))" by simp
  show ?thesis unfolding four bstart.simps by (simp add: bsz_def)
qed

lemma cfg0: "mem_cfg bank_cfg0 pages0 slots0" "geometry bank_cfg0 slots0" "512 dvd unat (swapbase bank_cfg0)"
  by (simp_all add: mem_cfg_def geometry_def bank_cfg0_def last_size_def word_less_nat_alt bsz_def bstart4)

lemma slots_banks0:
  "slot banks0 0 = sample_ptab\<lparr>p_status := P_RUNNING, p_pid := 1, p_page := 0x0201, p_page2 := 0x0303, p_top := 0x8000\<rparr>"
  "slot banks0 1 = sample_ptab\<lparr>p_status := P_SLEEP, p_pid := 2, p_page := 0x0504, p_page2 := 0x0606, p_top := 0x8000\<rparr>"
  "1 < q \<Longrightarrow> slot banks0 q = sample_ptab"
  by (simp_all add: banks0_def)

lemma sets_banks0: "holders banks0 = {0, 1}" "swapped banks0 = {}"
proof -
  have e: "ptab_end (krn banks0) = 4" by (simp add: banks0_def sample_def)
  have "live (slot banks0 0)" "live (slot banks0 1)" "p_page (slot banks0 0) \<noteq> 0" "p_page (slot banks0 1) \<noteq> 0"
    unfolding slots_banks0 by (simp_all add: live_def)
  moreover have "\<not> live (slot banks0 q)" if "1 < q" for q
    unfolding slots_banks0(3) [OF that] by (simp add: live_def sample_ptab_def)
  moreover have "q = 0 \<or> q = 1 \<or> 1 < q" for q :: nat by auto
  ultimately have "q \<in> holders banks0 \<longleftrightarrow> q \<in> {0, 1}" "q \<notin> swapped banks0" for q
    unfolding holders_def swapped_def e by (metis (mono_tags, lifting) insert_iff mem_Collect_eq empty_iff zero_less_numeral
        one_less_numeral_iff semiring_norm(76))+
  then show "holders banks0 = {0, 1}" "swapped banks0 = {}" by blast+
qed

lemma pgs_banks0: "pgs (slot banks0 0) = [1, 2, 3, 3]" "pgs (slot banks0 1) = [4, 5, 6, 6]"
  unfolding slots_banks0 by (simp_all add: pgs_def page_bytes_def le16_def)

lemma needs_banks0: "p < 2 \<Longrightarrow> needs bank_cfg0 (slot banks0 p) = 3"
proof -
  assume "p < 2"
  then have "p = 0 \<or> p = 1" by auto
  then have "p_top (slot banks0 p) = 0x8000" using slots_banks0 by auto
  then show ?thesis by (simp add: maps_needed_def bank_cfg0_def unat_drop_bit_eq drop_bit_nat_def)
qed

lemma own_banks0: "own bank_cfg0 (slot banks0 0) = [1, 2, 3]" "own bank_cfg0 (slot banks0 1) = [4, 5, 6]"
proof -
  have n: "needs bank_cfg0 (slot banks0 0) = 3" "needs bank_cfg0 (slot banks0 1) = 3" by (rule needs_banks0; simp)+
  show "own bank_cfg0 (slot banks0 0) = [1, 2, 3]" "own bank_cfg0 (slot banks0 1) = [4, 5, 6]"
    unfolding own_def n pgs_banks0 by (simp_all add: numeral_3_eq_3)
qed

lemma banks0_ok: "mem_ok bank_cfg0 pages0 slots0 banks0"
proof -
  have f: "free_pages banks0 = [7, 8]" "free_slots banks0 = [1, 2]"
    by (simp_all add: free_pages_def free_slots_def banks0_def upt_rec)
  have k: "u_ptab (krn banks0) = 0" "u_page (krn banks0) = 0x0201" "u_page2 (krn banks0) = 0x0303" "u_top (krn banks0) = 0x8000"
    "getproc_nextp (krn banks0) < ptab_end (krn banks0)"
    by (simp_all add: banks0_def sample_def)
  have s: "(\<Sum>p\<in>{0, 1}. mset (own bank_cfg0 (slot banks0 p))) = mset [1, 2, 3] + mset [4, 5, 6]"
    using own_banks0 by simp
  have sp: "spread 3 (pgs (slot banks0 0))" "spread 3 (pgs (slot banks0 1))"
    unfolding pgs_banks0 by (simp_all add: spread_def numeral_3_eq_3)
  have p: "pgs (slot banks0 0) = page_bytes 0x0201 0x0303" unfolding pgs_banks0 by (simp add: page_bytes_def le16_def)
  have t: "p_top (slot banks0 0) = 0x8000" unfolding slots_banks0 by simp
  have m: "mset [7, 8] + (mset [1, 2, 3] + mset [4, 5, 6]) = mset_set pages0" by (simp add: add_mset_commute)
  have m2: "mset [1, 2] = mset_set slots0" by simp
  show ?thesis
    unfolding mem_ok_def sets_banks0 f k s
    using sp needs_banks0 [of 0] needs_banks0 [of 1] p t m m2 k(5) by simp
qed

lemma banks0_no_stale: "no_stale banks0"
proof -
  have "p_status (slot banks0 q) \<noteq> P_ZOMBIE" for q
  proof -
    consider "q = 0" | "q = 1" | "1 < q" by linarith
    then show ?thesis by cases (simp_all only: slots_banks0, simp_all add: sample_ptab_def)
  qed
  then show ?thesis by (simp add: no_stale_def)
qed


lemma swap_roundtrip_witness:
  "\<exists>b1 b3. swapout bank_cfg0 1 banks0 = Some (0, b1) \<and> swapper bank_cfg0 1 b1 = Some b3
     \<and> user_byte b3 1 0x4321 = user_byte banks0 1 0x4321"
proof -
  have p: "1 \<in> holders banks0" unfolding sets_banks0 by simp
  have pl: "plat (krn banks0) = sample_plat" by (simp add: banks0_def sample_def)
  have wr: "\<forall>y. blk_wr_ok (plat (krn banks0)) (swapdev bank_cfg0) y" unfolding pl by (simp add: sample_plat_def)
  have "free_slots banks0 \<noteq> []" by (simp add: free_slots_def banks0_def)
  then obtain x b1 where o: "swapout bank_cfg0 1 banks0 = Some (0, b1)" "x \<in> slots0" "evicted 1 x banks0 b1"
    "free_pages b1 = free_pages banks0 @ own bank_cfg0 (slot banks0 1)" "bank b1 = bank banks0"
    "writes_only (swapdev bank_cfg0) (ucast x * swap_size bank_cfg0) (unat (swap_size bank_cfg0)) banks0 b1"
    using swapout_run [OF cfg0(1,2) banks0_ok p] by blast
  note t = evicted_tables [OF o(3) p]
  have ok: "mem_ok bank_cfg0 pages0 slots0 b1" by (rule swapout_mem_ok [OF cfg0(1) banks0_ok p o(3,4)])
  have sq: "squeezed bank_cfg0 slots0 banks0 b1" by (rule swapout_squeezed [OF cfg0(2) banks0_ok p o(2,3,6,5)])
  have ns: "no_stale b1" by (rule no_stale_squeezed [OF banks0_no_stale sq])
  have sw: "1 \<in> swapped b1" unfolding t(5) by simp
  have rd: "\<forall>y. blk_rd_ok (plat (krn b1)) (swapdev bank_cfg0) y" unfolding t(13) pl by (simp add: sample_plat_def)
  have "needs bank_cfg0 (slot b1 1) = 3" using needs_banks0 [of 1] t(3) by simp
  moreover have "length (free_pages b1) = 5" unfolding o(4) own_banks0 by (simp add: banks0_def)
  ultimately have room: "needs bank_cfg0 (slot b1 1) \<le> length (free_pages b1)" by simp
  obtain b3 where b3: "swapper bank_cfg0 1 b1 = Some b3" "p_page (slot b3 1) \<noteq> 0"
    using swapper_returns [OF cfg0(1,2) ok ns sw room] by blast
  have "user_byte b3 1 0x4321 = user_byte banks0 1 0x4321"
    by (rule swap_roundtrip [OF cfg0 banks0_ok p wr o(1) ok ns sw refl _ rd b3])
      (simp_all add: slot_same_def bank_cfg0_def last_size_def)
  then show ?thesis using o(1) b3(1) by blast
qed

text \<open>C38: pagemap\_alloc() always returns, although it swaps out process after process until there is room: with 0 and as many pages
  as the size of the process asks for, or with ENOMEM and the division of pages and slots intact.\<close>

theorem pagemap_alloc_returns:
  assumes "mem_cfg c P S" "geometry c S" "mem_ok c P S b" "no_stale b" "p \<notin> holders b"
  shows "\<exists>r b'. pagemap_alloc c p b = Some (r, b')
    \<and> (r = 0 \<and> spread (maps_needed c (p_top (slot b p))) (pgs (slot b' p)) \<or> r = ENOMEM \<and> mem_ok c P S b')"
proof -
  let ?n = "maps_needed c (p_top (slot b p))"
  obtain r b' d where a: "pagemap_alloc c p b = Some (r, b')" "mem_ok c P S d" "r = ENOMEM \<and> b' = d \<or>
     r = 0 \<and> (\<exists>l. spread ?n l \<and> free_pages d = free_pages b' @ rev (take ?n l) \<and> page_rest b' = page_rest (upd_bp p (set_pgs l) d))"
    using pagemap_alloc_run [OF assms] by blast
  have "pgs (slot b' p) = l" if "spread ?n l" "page_rest b' = page_rest (upd_bp p (set_pgs l) d)" for l
    using that by (simp add: page_rest_def upd_p_def spread_def)
  then show ?thesis using a by blast
qed

lemma pagemap_alloc_returns_witness:
  "\<exists>r b'. pagemap_alloc bank_cfg0 2 banks0 = Some (r, b')
    \<and> (r = 0 \<and> spread (maps_needed bank_cfg0 (p_top (slot banks0 2))) (pgs (slot b' 2))
       \<or> r = ENOMEM \<and> mem_ok bank_cfg0 pages0 slots0 b')"
proof -
  have "2 \<notin> holders banks0" unfolding sets_banks0 by simp
  then show ?thesis by (rule pagemap_alloc_returns [OF cfg0(1,2) banks0_ok banks0_no_stale])
qed

subsection \<open>A zombie as victim\<close>

lemma zombie_scan:
  assumes "p_status (slot b z) = P_ZOMBIE" "p_page (slot b z) \<noteq> 0" "\<forall>q \<in> set cs. q \<noteq> z \<longrightarrow> \<not> candidate b q"
    "pnum (p_status (slot b p)) \<le> pnum P_FORKING" "f = None \<and> sc = 0 \<or> f = Some z \<and> z \<notin> set cs" "distinct cs"
  shows "\<exists>sc'. victim_scan (Some p) b cs (None, f, sc) = Some (None, if z \<in> set cs then Some z else f, sc')"
  using assms(3-6)
proof (induction cs arbitrary: f sc)
  case Nil
  then show ?case by simp
next
  case (Cons q cs)
  show ?case
  proof (cases "q = z")
    case True
    then have "victim_step (Some p) b q (None, f, sc) = Some (None, Some z, waitno (krn b) - p_waitno (slot b z))"
      using assms(1,2) Cons.prems(2,3) by (auto simp: victim_step_def Let_def)
    then show ?thesis using Cons.IH [of "Some z" "waitno (krn b) - p_waitno (slot b z)"] Cons.prems True by auto
  next
    case False
    then have "\<not> candidate b q" using Cons.prems(1) by simp
    then have "victim_step (Some p) b q (None, f, sc) = Some (None, f, sc)"
      by (auto simp: victim_step_def candidate_def Let_def)
    then show ?thesis using Cons.IH [of f sc] Cons.prems False by auto
  qed
qed

text \<open>C39: swapvictim() can pick a zombie. exit has put the pages of \<open>z\<close> on the free list, but the entry still names them, and
  the test for the state of the process looks at the wrong one: so with no other process to swap, the zombie is swapped out and its
  pages are put on the free list a second time.\<close>

theorem zombie_pages_freed_twice:
  assumes "max_maps c \<le> 255" "z < ptab_end (krn b)" "getproc_nextp (krn b) < ptab_end (krn b)"
    "p_status (slot b z) = P_ZOMBIE" "p_page (slot b z) \<noteq> 0"
    "spread (maps_needed c (p_top (slot b z))) (pgs (slot b z))" "distinct (255 # own c (slot b z))"
    "set (own c (slot b z)) \<subseteq> set (free_pages b)" "length (free_pages b) + length (own c (slot b z)) \<le> max_maps c"
    "\<forall>q < ptab_end (krn b). q \<noteq> z \<longrightarrow> \<not> candidate b q" "p_status (slot b p) = P_EMPTY"
    "swapptr b \<noteq> 0" "swapmap b (unat (swapptr b - 1)) \<noteq> 0"
  shows "\<exists>b'. swapneeded c (Some p) True b = Some (Some z, b') \<and> \<not> distinct (free_pages b')"
proof -
  have cs: "set (scan_order b) = {..<ptab_end (krn b)}" "distinct (scan_order b)"
    using assms(3) by (auto simp: scan_order_def)
  have "swapvictim (Some p) True b = Some (Some z)"
    using zombie_scan [OF assms(4,5), of "scan_order b" p None 0] cs assms(2,10,11) by (auto simp: swapvictim_def)
  moreover have "\<exists>b'. swapout c z b = Some (0, b') \<and> \<not> distinct (free_pages b')"
  proof -
    let ?x = "swapmap b (unat (swapptr b - 1))"
    define b1 where "b1 = snd (swapmap_alloc c b)"
    have b1: "swapmap_alloc c b = (ucast ?x, b1)" "slot b1 z = slot b z" "free_pages b1 = free_pages b"
      using assms(12) by (simp_all add: b1_def swapmap_alloc_def free_pages_def)
    obtain b2 where b2: "all_banks swapwrite c z (ucast ?x) b1 = Some b2" "moved b1 b2" using all_banks_moved by blast
    have s2: "pgs (slot b2 z) = pgs (slot b z)" "free_pages b2 = free_pages b"
      using mem_core_fields(1) [of b2 b1] b2(2) moved_free [OF b2(2)] b1 by (simp_all add: moved_def)
    have ne: "own c (slot b z) \<noteq> []" using assms(6) by (simp add: own_def spread_def) (metis length_pgs(1) list.size(3) zero_neq_numeral)
    obtain b3 where b3: "free_loop c (own c (slot b z) @ replicate (4 - maps_needed c (p_top (slot b z))) (last (255 # own c (slot b z)))) 255 b2
        = Some b3" "free_pages b3 = free_pages b2 @ own c (slot b z)"
      using free_loop_own [OF assms(1,7), of b2] assms(9) unfolding s2 by blast
    have "pgs (slot b z) = own c (slot b z) @ replicate (4 - maps_needed c (p_top (slot b z))) (last (255 # own c (slot b z)))"
      using spread_last [OF assms(6)] ne by (simp add: own_def)
    then have "pagemap_free c z b2 = Some b3" using b3(1) unfolding pagemap_free_def s2 by simp
    then have "swapout c z b = Some (0, upd_bp z (\<lambda>e. e\<lparr>p_page := 0, p_page2 := ucast ?x\<rparr>) b3)"
      using assms(5,13) b1(1) b2(1) by (simp add: swapout_def Let_def)
    moreover have "\<not> distinct (free_pages (upd_bp z (\<lambda>e. e\<lparr>p_page := 0, p_page2 := ucast ?x\<rparr>) b3))"
    proof -
      have fp: "free_pages (d\<lparr>krn := k\<rparr>) = free_pages d" for d k by (simp add: free_pages_def)
      have "hd (own c (slot b z)) \<in> set (own c (slot b z))" using ne by simp
      moreover from this have "hd (own c (slot b z)) \<in> set (free_pages b)" using assms(8) by blast
      ultimately show ?thesis unfolding fp b3(2) s2(2) distinct_append by blast
    qed
    ultimately show ?thesis by blast
  qed
  ultimately show ?thesis by (auto simp: swapneeded_def)
qed

text \<open>Process 1 of the example exits; then process 0 forks and wants more pages than are free.\<close>

definition banks1 :: bst where
  "banks1 = upd_bp 1 (\<lambda>e. e\<lparr>p_status := P_ZOMBIE\<rparr>)
     (banks0\<lparr>pfree := (\<lambda>i. [4, 5, 6, 7, 8] ! i), pfptr := 5\<rparr>)"

lemma zombie_pages_freed_twice_witness:
  "\<exists>b'. swapneeded bank_cfg0 (Some 2) True banks1 = Some (Some 1, b') \<and> \<not> distinct (free_pages b')"
proof -
  have z: "slot banks1 1 = (slot banks0 1)\<lparr>p_status := P_ZOMBIE\<rparr>" "q \<noteq> 1 \<Longrightarrow> slot banks1 q = slot banks0 q" for q
    by (simp_all add: banks1_def)
  have k: "ptab_end (krn banks1) = 4" "getproc_nextp (krn banks1) = 0" by (simp_all add: banks1_def banks0_def sample_def upd_p_def)
  have f: "free_pages banks1 = [4, 5, 6, 7, 8]" by (simp add: free_pages_def banks1_def upt_rec)
  have n: "maps_needed bank_cfg0 (p_top (slot banks1 1)) = 3" using needs_banks0 [of 1] z(1) by simp
  have g: "pgs (slot banks1 1) = [4, 5, 6, 6]" using pgs_banks0(2) z(1) by (simp add: pgs_def)
  have o: "own bank_cfg0 (slot banks1 1) = [4, 5, 6]" unfolding own_def n g by (simp add: numeral_3_eq_3)
  show ?thesis
  proof (rule zombie_pages_freed_twice)
    show "spread (maps_needed bank_cfg0 (p_top (slot banks1 1))) (pgs (slot banks1 1))"
      unfolding n g by (simp add: spread_def numeral_3_eq_3)
    show "distinct (255 # own bank_cfg0 (slot banks1 1))" "set (own bank_cfg0 (slot banks1 1)) \<subseteq> set (free_pages banks1)"
      "length (free_pages banks1) + length (own bank_cfg0 (slot banks1 1)) \<le> max_maps bank_cfg0"
      unfolding o f by (simp_all add: bank_cfg0_def)
    show "\<forall>q < ptab_end (krn banks1). q \<noteq> 1 \<longrightarrow> \<not> candidate banks1 q"
    proof (intro allI impI)
      fix q :: nat assume "q \<noteq> 1"
      then have "p_status (slot banks1 q) = P_RUNNING \<or> p_status (slot banks1 q) = P_EMPTY"
        using z(2) [of q] slots_banks0(1) slots_banks0(3) [of q] by (cases "q = 0") (auto simp: sample_ptab_def)
      then show "\<not> candidate banks1 q" by (auto simp: candidate_def)
    qed
    show "p_status (slot banks1 2) = P_EMPTY" using z(2) [of 2] slots_banks0(3) [of 2] by (simp add: sample_ptab_def)
    show "p_page (slot banks1 1) \<noteq> 0" unfolding z(1) slots_banks0(2) by simp
  qed (simp_all add: k z(1) bank_cfg0_def, simp_all add: banks1_def banks0_def)
qed

end
