(* ===== verification/Defects.thy ===== *)
theory Defects
  imports SysOpen SysProc
begin

text \<open>
  Behaviour of the calls that is not what their callers expect, as the code has it. Each lemma starts from the point
  where the descriptor or the name has been resolved.
\<close>

subsection \<open>fcntl\<close>

text \<open>F\_SETFD without O\_CLOEXEC: the bit of \<open>fd\<close> stays as it is, every other bit is cleared.\<close>

lemma setfd_clears_others:
  assumes "getinode (ucast (u_argn s)) s = Some (Some i, s)" "oft_of (u_argn s) s = Some (j, s)"
    "u_argn1 s = F_SETFD" "u_argn2 s AND O_CLOEXEC = 0"
  shows "\<exists>s'. u_fcntl s = Some (0, s')
    \<and> (bit (u_cloexec s') (unat (u_argn s)) \<longleftrightarrow> bit (u_cloexec s) (unat (u_argn s)))
    \<and> (\<forall>k. k \<noteq> unat (u_argn s) \<longrightarrow> \<not> bit (u_cloexec s') k)"
  using assms by (auto simp: u_fcntl_def bit_simps dest: bit_imp_le_length)

lemma dupfd_returns_zero:
  assumes "getinode (ucast (u_argn s)) s = Some (Some i, s)" "oft_of (u_argn s) s = Some (j, s)"
    "u_argn1 s = F_DUPFD" "uf_alloc_n (u_argn2 s) s = (Some d, s)" "share (u_argn s) d s = Some ((), s')"
  shows "u_fcntl s = Some (0, s')"
  using assms by (simp add: u_fcntl_def)

lemma getfl_returns_argument:
  assumes "getinode (ucast (u_argn s)) s = Some (Some i, s)" "oft_of (u_argn s) s = Some (j, s)"
    "u_argn1 s = F_GETFL"
  shows "u_fcntl s = Some (u_argn2 s, s)"
  using assms by (simp add: u_fcntl_def)

subsection \<open>flock\<close>

text \<open>LOCK\_UN: the lock count of every inode stays what it is, and nobody is woken.\<close>

lemma unlock_keeps_lock:
  assumes "getinode (ucast (u_argn s)) s = Some (Some i, s)" "oft_of (u_argn s) s = Some (j, s)"
    "u_argn1 s = 2" "o_inode (of_tab s j) = Some i"
  shows "\<exists>s'. u_flock sw s = Some (0, s') \<and> i_tab s' = i_tab s \<and> ptab s' = ptab s"
proof -
  let ?s = "upd_o j (\<lambda>f. f\<lparr>o_access := o_access f AND NOT (ucast O_FLOCK)\<rparr>) s"
  have "(x AND NOT m) AND m = 0" for x m :: u8
    by (rule bit_word_eqI) (simp add: bit_simps)
  from this [of "o_access (of_tab s j)" "128"]
  have "o_access (of_tab ?s j) AND ucast O_FLOCK = 0" by (simp add: upd_o_def)
  then have "deflock j ?s = Some ((), ?s)"
    using assms(4) by (simp add: deflock_def Let_def upd_o_def)
  then show ?thesis
    using assms by (simp add: u_flock_def Let_def upd_o_def)
qed

subsection \<open>open\<close>

text \<open>A missing file without O\_CREAT: after n\_open() nothing touches the inode table any more, so the reference
  to the directory, which \<open>c_refs\<close> counts, stays.\<close>

lemma open_missing_keeps_parent:
  assumes "u_argn1 s AND 3 \<noteq> 3" "u_argn1 s AND O_BADBITS = 0" "u_argn1 s AND O_CREAT = 0"
    "uf_alloc s = (Some u, s)" "oft_alloc s = (Some j, s1)" "u_argn s1 = u_argn s" "u_argn1 s1 = u_argn1 s"
    "n_open (u_argn s) True s1 = Some ((None, Some p), s2)" "u_error s2 \<noteq> EFAULT" "o_inode (of_tab s2 j) = None"
  shows "\<exists>s'. u_open sw s = Some (0xFFFF, s') \<and> u_error s' = ENOENT \<and> i_tab s' = i_tab s2"
  using assms by (simp add: u_open_def open_lookup_def cantopen_def nooft_def oft_deref_def upd_o_def Let_def)

subsection \<open>Processes\<close>

lemma pid_above_max: "bump_pid MAXPID = MAXPID + 1"
  by (simp add: bump_pid_def)

text \<open>A fork without memory: None is the store through the null pointer.\<close>

lemma failed_fork_writes_null:
  assumes "\<forall>p s. fst (pagemap_alloc p s) \<noteq> 0"
    "first_index (ptab_end s) (\<lambda>p. p_status (ptab s p) = P_EMPTY) = Some p"
  shows "ptab_alloc pagemap_alloc s = None"
  using assms by (auto simp: ptab_alloc_def Let_def case_prod_beta split: Option.bind_splits)

end
