(* ===== verification/Dispatch.thy ===== *)
theory Dispatch
  imports SysExec
begin

text \<open>
  The table syscall\_dispatch of Kernel/kdata.c, in the build without LEVEL\_2 and NET, and \_uname(). What the
  calls take from the port is the record \<open>sys_env\<close>: switchout(), pagemap\_alloc(), pagemap\_free(),
  dofork(), the exec configuration, pagemap\_prepare() and the content of the sysinfo block. A call that does
  not come back to unix\_syscall() (exit, a successful execve) has the value None.
\<close>

record sys_env =
  e_sw :: "kst \<Rightarrow> kst option"
  e_pmalloc :: "nat \<Rightarrow> kst \<Rightarrow> u16 \<times> kst"
  e_pmfree :: "nat \<Rightarrow> kst \<Rightarrow> kst"
  e_dofork :: "nat \<Rightarrow> kst \<Rightarrow> (u16 \<times> kst) option"
  e_exec :: exec_cfg
  e_prealloc :: "u16 \<Rightarrow> kst \<Rightarrow> u16 \<times> kst"
  e_sysinfo :: "kst \<Rightarrow> u8 list"

definition u_uname :: "(kst \<Rightarrow> u8 list) \<Rightarrow> kst \<Rightarrow> (u16 \<times> kst) option" where
  "u_uname sysinfo s =
     (let n = min (of_nat (length (sysinfo s))) (u_argn1 s);
          (_, s) = uput (sysinfo s) (u_argn s) n s
      in Some (n, s))"

definition exit_entry :: "sys_env \<Rightarrow> kst \<Rightarrow> (u16 \<times> kst) option" where
  "exit_entry e s = do { (_, s) \<leftarrow> u_exit (e_pmfree e) s; None }"

definition execve_entry :: "sys_env \<Rightarrow> kst \<Rightarrow> (u16 \<times> kst) option" where
  "execve_entry e s = do {
     (r, s) \<leftarrow> u_execve (e_exec e) (e_sw e) (e_prealloc e) s;
     case r of Exec _ _ \<Rightarrow> None | ExecFailed \<Rightarrow> Some (0xFFFF, s)
   }"

definition syscall_table :: "sys_env \<Rightarrow> (kst \<Rightarrow> (u16 \<times> kst) option) list" where
  "syscall_table e = (let sw = e_sw e in
    [exit_entry e, u_open sw, u_close, u_rename_call sw, u_mknod sw, u_link sw, u_unlink sw, u_read sw,
     u_write sw, u_lseek, u_chdir, u_sync, u_access, u_chmod, u_chown, u_stat,
     u_fstat, u_dup, u_getpid, u_getppid, u_getuid, u_umask, u_getfsys, execve_entry e,
     u_getdirent sw, u_setuid, u_setgid, u_time_call, u_stime_call, u_ioctl, u_brk, u_sbrk,
     u_fork (e_pmalloc e) (e_pmfree e) (e_dofork e), u_mount sw, u_umount, u_signal, u_dup2, u_pause sw, u_alarm, u_kill,
     u_pipe, u_getgid, u_times, u_utime_call, u_geteuid, u_getegid, u_chroot, u_fcntl,
     u_fchdir, u_fchmod, u_fchown, u_mkdir sw, u_rmdir sw, u_setpgrp, u_uname (e_sysinfo e), u_waitpid sw,
     u_profil, u_uadmin, u_nice, u_sigdisp, u_flock sw, u_getpgrp, u_sched_yield sw, u_acct,
     u_memalloc, u_memfree])"

abbreviation (input) FUZIX_SYSCALL_COUNT :: nat where "FUZIX_SYSCALL_COUNT \<equiv> 66"

definition syscall_dispatch :: "sys_env \<Rightarrow> nat \<Rightarrow> kst \<Rightarrow> (u16 \<times> kst) option" where
  "syscall_dispatch e n = syscall_table e ! n"

definition system_call :: "sys_env \<Rightarrow> kst \<Rightarrow> ((u16 option \<times> (u16 + u8)) \<times> kst) option" where
  "system_call e s = unix_syscall (e_sw e) FUZIX_SYSCALL_COUNT (syscall_dispatch e) s"

lemma table_length [simp]: "length (syscall_table e) = FUZIX_SYSCALL_COUNT"
  by (simp add: syscall_table_def Let_def)

end
