(* ===== verification/Ident.thy ===== *)
theory Ident
  imports Dispatch IoFrame ProcInv
begin

text \<open>
  Who a process is: its table entry, its real and effective ids and its root directory, and the frame
  lemmas that all the operations behind the system calls leave them alone. A parameter \<open>sw\<close> (switchout())
  comes back to the process with its identity (\<open>sw_ok\<close>).
\<close>

definition ident :: "kst \<Rightarrow> nat \<times> u16 \<times> u16 \<times> u16 \<times> u16 \<times> nat option" where
  "ident s = (u_ptab s, p_uid (self s), u_euid s, u_egid s, u_gid s, u_root s)"

definition sw_ok :: "(kst \<Rightarrow> kst option) \<Rightarrow> bool" where
  "sw_ok sw \<longleftrightarrow> (\<forall>s t. sw s = Some t \<longrightarrow> ident t = ident s)"

lemma sw_okD: "sw s = Some t \<Longrightarrow> sw_ok sw \<Longrightarrow> ident t = ident s"
  by (simp add: sw_ok_def)

subsection \<open>Updates\<close>

lemma ident_upd [simp]:
  "ident (s\<lparr>u_page := x0\<rparr>) = ident s"
  "ident (s\<lparr>u_page2 := x1\<rparr>) = ident s"
  "ident (s\<lparr>u_insys := x2\<rparr>) = ident s"
  "ident (s\<lparr>u_callno := x3\<rparr>) = ident s"
  "ident (s\<lparr>u_syscall_sp := x4\<rparr>) = ident s"
  "ident (s\<lparr>u_error := x5\<rparr>) = ident s"
  "ident (s\<lparr>u_ininterrupt := x6\<rparr>) = ident s"
  "ident (s\<lparr>u_cursig := x7\<rparr>) = ident s"
  "ident (s\<lparr>u_argn := x8\<rparr>) = ident s"
  "ident (s\<lparr>u_argn1 := x9\<rparr>) = ident s"
  "ident (s\<lparr>u_argn2 := x10\<rparr>) = ident s"
  "ident (s\<lparr>u_argn3 := x11\<rparr>) = ident s"
  "ident (s\<lparr>u_top := x12\<rparr>) = ident s"
  "ident (s\<lparr>u_break := x13\<rparr>) = ident s"
  "ident (s\<lparr>u_sigvec := x14\<rparr>) = ident s"
  "ident (s\<lparr>u_base := x15\<rparr>) = ident s"
  "ident (s\<lparr>u_count := x16\<rparr>) = ident s"
  "ident (s\<lparr>u_offset := x17\<rparr>) = ident s"
  "ident (s\<lparr>u_buf := x18\<rparr>) = ident s"
  "ident (s\<lparr>u_sysio := x19\<rparr>) = ident s"
  "ident (s\<lparr>u_mask := x20\<rparr>) = ident s"
  "ident (s\<lparr>u_utime := x21\<rparr>) = ident s"
  "ident (s\<lparr>u_stime := x22\<rparr>) = ident s"
  "ident (s\<lparr>u_cutime := x23\<rparr>) = ident s"
  "ident (s\<lparr>u_cstime := x24\<rparr>) = ident s"
  "ident (s\<lparr>u_time := x25\<rparr>) = ident s"
  "ident (s\<lparr>u_files := x26\<rparr>) = ident s"
  "ident (s\<lparr>u_cloexec := x27\<rparr>) = ident s"
  "ident (s\<lparr>u_cwd := x28\<rparr>) = ident s"
  "ident (s\<lparr>u_rename := x29\<rparr>) = ident s"
  "ident (s\<lparr>u_ctty := x30\<rparr>) = ident s"
  "ident (s\<lparr>u_block := x31\<rparr>) = ident s"
  "ident (s\<lparr>u_blkoff := x32\<rparr>) = ident s"
  "ident (s\<lparr>u_nblock := x33\<rparr>) = ident s"
  "ident (s\<lparr>ptab_end := x34\<rparr>) = ident s"
  "ident (s\<lparr>nready := x35\<rparr>) = ident s"
  "ident (s\<lparr>nproc := x36\<rparr>) = ident s"
  "ident (s\<lparr>waitno := x37\<rparr>) = ident s"
  "ident (s\<lparr>nextpid := x38\<rparr>) = ident s"
  "ident (s\<lparr>getproc_nextp := x39\<rparr>) = ident s"
  "ident (s\<lparr>runticks := x40\<rparr>) = ident s"
  "ident (s\<lparr>inswap := x41\<rparr>) = ident s"
  "ident (s\<lparr>inint := x42\<rparr>) = ident s"
  "ident (s\<lparr>need_resched := x43\<rparr>) = ident s"
  "ident (s\<lparr>ticks_this_dsecond := x44\<rparr>) = ident s"
  "ident (s\<lparr>ticks_per_dsecond := x45\<rparr>) = ident s"
  "ident (s\<lparr>ticks := x46\<rparr>) = ident s"
  "ident (s\<lparr>tod_low := x47\<rparr>) = ident s"
  "ident (s\<lparr>tod_high := x48\<rparr>) = ident s"
  "ident (s\<lparr>tod_deci := x49\<rparr>) = ident s"
  "ident (s\<lparr>utick := x50\<rparr>) = ident s"
  "ident (s\<lparr>loadavg := x51\<rparr>) = ident s"
  "ident (s\<lparr>plat := x52\<rparr>) = ident s"
  "ident (s\<lparr>bufpool := x53\<rparr>) = ident s"
  "ident (s\<lparr>nbufs := x54\<rparr>) = ident s"
  "ident (s\<lparr>bufclock := x55\<rparr>) = ident s"
  "ident (s\<lparr>disk := x56\<rparr>) = ident s"
  "ident (s\<lparr>i_tab := x57\<rparr>) = ident s"
  "ident (s\<lparr>fs_tab := x58\<rparr>) = ident s"
  "ident (s\<lparr>of_tab := x59\<rparr>) = ident s"
  "ident (s\<lparr>root_dev := x60\<rparr>) = ident s"
  "ident (s\<lparr>umem := x61\<rparr>) = ident s"
  "ident (s\<lparr>kmem := x62\<rparr>) = ident s"
  "ident (s\<lparr>ttydata := x63\<rparr>) = ident s"
  "ident (s\<lparr>ttyinq := x64\<rparr>) = ident s"
  "ident (s\<lparr>ttyout := x65\<rparr>) = ident s"
  by (simp_all add: ident_def)

lemma ident_tables [simp]:
  "ident (upd_i i f s) = ident s" "ident (upd_node i h s) = ident s" "ident (upd_b b k s) = ident s"
  "ident (upd_fs m g s) = ident s" "ident (upd_o j l s) = ident s" "ident (upd_t n w s) = ident s"
  "ident (blkfromk bs b off s) = ident s"
  by (simp_all add: ident_def proc_upd upd_t_def blkfromk_def)

lemma ident_upd_p [simp]: "\<forall>e. p_uid (f e) = p_uid e \<Longrightarrow> ident (upd_p p f s) = ident s"
  by (simp add: ident_def upd_p_def)

lemma ident_fold [simp]: "\<forall>x u. ident (g x u) = ident u \<Longrightarrow> ident (fold g xs s) = ident s"
  by (induction xs arbitrary: s) auto

lemma ident_hull:
  assumes "fs_hull t = fs_hull s" shows "ident t = ident s"
  using fs_hull_fields [OF assms] assms [THEN arg_cong, of u_ptab] assms [THEN arg_cong, of u_gid]
  by (simp add: ident_def fs_hull_def io_core_def)

lemma ident_core: "io_core t = io_core s \<Longrightarrow> ident t = ident s"
  by (rule ident_hull) (rule fs_hull_core)

lemmas bread_id = bread_core [THEN ident_core]
lemmas bfree_id = bfree_core [THEN ident_core]
lemmas brelse_id = brelse_core [THEN ident_core]
lemmas bawrite_id = bawrite_core [THEN ident_core]
lemmas tmpbuf_id = tmpbuf_core [THEN ident_core]
lemmas zerobuf_id = zerobuf_core [THEN ident_core]
lemmas bufsync_id = bufsync_core [THEN ident_core]
lemmas bdput_id = bdput_core [THEN ident_core]
lemmas corrupt_fs_id = corrupt_fs_hull [THEN ident_hull]
lemmas getdev_id = getdev_hull [THEN ident_hull]
lemmas wr_inode_id = wr_inode_hull [THEN ident_hull]
lemmas sync_id = sync_hull [THEN ident_hull]
lemmas blk_alloc_id = blk_alloc_hull [THEN ident_hull]
lemmas blk_free_id = blk_free_hull [THEN ident_hull]
lemmas i_alloc_id = i_alloc_hull [THEN ident_hull]
lemmas i_free_id = i_free_hull [THEN ident_hull]
lemmas f_trunc_id = f_trunc_hull [THEN ident_hull]
lemmas bmap_id = bmap_hull [THEN ident_hull]

subsection \<open>The operations\<close>

lemma drv_error_id [simp]: "ident (drv_error e s) = ident s"
  by (auto simp: drv_error_def Let_def split: option.splits if_splits prod.splits sum.splits)

lemma validchk_id: "validchk d p s = Some (res, t) \<Longrightarrow> t = s"
  by (auto simp: validchk_def split: option.splits if_splits prod.splits sum.splits)

lemma magic_id: "magic i s = Some (res, t) \<Longrightarrow> t = s"
  by (auto simp: magic_def split: option.splits if_splits prod.splits sum.splits)

lemma pwake_id [simp]: "ident (pwake p s) = ident s"
  by (auto simp: pwake_def Let_def split: option.splits if_splits prod.splits sum.splits)

lemma wakeup_id [simp]: "ident (wakeup ev s) = ident s"
  by (auto simp: wakeup_def Let_def split: option.splits if_splits prod.splits sum.splits)

lemma ssig_id [simp]: "ident (ssig p g s) = ident s"
  by (auto simp: ssig_def Let_def split: option.splits if_splits prod.splits sum.splits)

lemma sgrpsig_id [simp]: "ident (sgrpsig g n s) = ident s"
  by (auto simp: sgrpsig_def Let_def split: option.splits if_splits prod.splits sum.splits)

lemma setftime_id [simp]: "ident (setftime i f s) = ident s"
  by (auto simp: setftime_def Let_def split: option.splits if_splits prod.splits sum.splits)

lemma i_ref_id [simp]: "ident (i_ref i s) = ident s"
  by (auto simp: i_ref_def Let_def split: option.splits if_splits prod.splits sum.splits)

lemma i_ref_opt_id [simp]: "ident (i_ref_opt i s) = ident s"
  by (auto simp: i_ref_opt_def Let_def split: option.splits if_splits prod.splits sum.splits)

lemma valaddr_id: "valaddr a n s = (res, t) \<Longrightarrow> ident t = ident s"
  by (auto simp: valaddr_def Let_def split: option.splits if_splits prod.splits sum.splits)

lemmas valaddr_snd [simp] = valaddr_id [OF prod.collapse [symmetric]]

lemma uget_id: "uget a n s = (res, t) \<Longrightarrow> ident t = ident s"
  by (auto simp: uget_def Let_def split: option.splits if_splits prod.splits sum.splits dest!: valaddr_id)

lemmas uget_snd [simp] = uget_id [OF prod.collapse [symmetric]]

lemma ugetc_id: "ugetc a s = (res, t) \<Longrightarrow> ident t = ident s"
  by (auto simp: ugetc_def Let_def split: option.splits if_splits prod.splits sum.splits dest!: valaddr_id)

lemmas ugetc_snd [simp] = ugetc_id [OF prod.collapse [symmetric]]

lemma ugetw_id: "ugetw a s = (res, t) \<Longrightarrow> ident t = ident s"
  by (auto simp: ugetw_def Let_def split: option.splits if_splits prod.splits sum.splits dest!: valaddr_id)

lemmas ugetw_snd [simp] = ugetw_id [OF prod.collapse [symmetric]]

lemma ugets_id: "ugets a n s = (res, t) \<Longrightarrow> ident t = ident s"
  by (auto simp: ugets_def Let_def split: option.splits if_splits prod.splits sum.splits dest!: valaddr_id)

lemmas ugets_snd [simp] = ugets_id [OF prod.collapse [symmetric]]

lemma uput_id: "uput bs a n s = (res, t) \<Longrightarrow> ident t = ident s"
  by (auto simp: uput_def Let_def split: option.splits if_splits prod.splits sum.splits dest!: valaddr_id)

lemmas uput_snd [simp] = uput_id [OF prod.collapse [symmetric]]

lemma uputc_id: "uputc v a s = (res, t) \<Longrightarrow> ident t = ident s"
  by (auto simp: uputc_def Let_def split: option.splits if_splits prod.splits sum.splits dest!: valaddr_id)

lemmas uputc_snd [simp] = uputc_id [OF prod.collapse [symmetric]]

lemma uputw_id: "uputw v a s = (res, t) \<Longrightarrow> ident t = ident s"
  by (auto simp: uputw_def Let_def split: option.splits if_splits prod.splits sum.splits dest!: valaddr_id)

lemmas uputw_snd [simp] = uputw_id [OF prod.collapse [symmetric]]

lemma uzero_id: "uzero a n s = (res, t) \<Longrightarrow> ident t = ident s"
  by (auto simp: uzero_def Let_def split: option.splits if_splits prod.splits sum.splits dest!: valaddr_id)

lemmas uzero_snd [simp] = uzero_id [OF prod.collapse [symmetric]]

lemma esuper_id: "esuper s = (res, t) \<Longrightarrow> ident t = ident s"
  by (auto simp: esuper_def Let_def split: option.splits if_splits prod.splits sum.splits)

lemmas esuper_snd [simp] = esuper_id [OF prod.collapse [symmetric]]

lemma d_open_id: "d_open d f s = (res, t) \<Longrightarrow> ident t = ident s"
  by (auto simp: d_open_def Let_def split: option.splits if_splits prod.splits sum.splits)

lemmas d_open_snd [simp] = d_open_id [OF prod.collapse [symmetric]]

lemma d_ioctl_id: "d_ioctl d q a s = (res, t) \<Longrightarrow> ident t = ident s"
  by (auto simp: d_ioctl_def Let_def split: option.splits if_splits prod.splits sum.splits)

lemmas d_ioctl_snd [simp] = d_ioctl_id [OF prod.collapse [symmetric]]

lemma d_flush_id: "d_flush d s = (res, t) \<Longrightarrow> ident t = ident s"
  by (auto simp: d_flush_def Let_def split: option.splits if_splits prod.splits sum.splits dest!: d_ioctl_id)

lemmas d_flush_snd [simp] = d_flush_id [OF prod.collapse [symmetric]]

lemma psleep_enter_id: "psleep_enter ev s = Some (res, t) \<Longrightarrow> ident t = ident s"
  by (auto simp: psleep_enter_def Let_def elim!: bind_SomeD split: option.splits if_splits prod.splits sum.splits pstatus.splits)

lemma psleep_id: "psleep sw ev s = Some (res, t) \<Longrightarrow> sw_ok sw \<Longrightarrow> ident t = ident s"
  by (auto simp: psleep_def Let_def elim!: bind_SomeD split: option.splits if_splits prod.splits sum.splits dest!: psleep_enter_id sw_okD)

lemma chksigs_from_id:
  assumes "chksigs_from sw pend v j s = Some (res, t)" "sw_ok sw" shows "ident t = ident s"
proof -
  have "sw_ok sw \<longrightarrow> ident (snd y) = ident s" if "chksigs_from sw pend v j s = Some y" for sw pend v j s y
    using that by (rule chksigs_from.raw_induct [rotated]) (auto simp: Let_def elim!: bind_SomeD split: option.splits if_splits prod.splits sum.splits dest!: sw_okD)
  then show ?thesis using assms by fastforce
qed

lemma chksigs_id: "chksigs sw s = Some (res, t) \<Longrightarrow> sw_ok sw \<Longrightarrow> ident t = ident s"
  by (auto simp: chksigs_def Let_def elim!: bind_SomeD split: option.splits if_splits prod.splits sum.splits dest!: chksigs_from_id)

lemma chksigs_ret_id: "chksigs_ret sw s = Some (res, t) \<Longrightarrow> sw_ok sw \<Longrightarrow> ident t = ident s"
  by (auto simp: chksigs_ret_def Let_def elim!: bind_SomeD split: option.splits if_splits prod.splits sum.splits dest!: chksigs_id)

lemma psleep_flags_io_id: "psleep_flags_io sw ev f n s = Some (res, t) \<Longrightarrow> sw_ok sw \<Longrightarrow> ident t = ident s"
  by (auto simp: psleep_flags_io_def Let_def elim!: bind_SomeD split: option.splits if_splits prod.splits sum.splits dest!: psleep_id chksigs_ret_id)

lemma psleep_flags_id: "psleep_flags sw ev f s = Some (res, t) \<Longrightarrow> sw_ok sw \<Longrightarrow> ident t = ident s"
  by (auto simp: psleep_flags_def Let_def elim!: bind_SomeD split: option.splits if_splits prod.splits sum.splits dest!: psleep_flags_io_id)

lemma i_found_id: "i_found b i s = Some (res, t) \<Longrightarrow> ident t = ident s"
  by (auto simp: i_found_def Let_def elim!: bind_SomeD split: option.splits if_splits prod.splits sum.splits)

lemma i_open_id: "i_open d n s = Some (res, t) \<Longrightarrow> ident t = ident s"
  by (auto simp: i_open_def Let_def elim!: bind_SomeD split: option.splits if_splits prod.splits sum.splits dest!: bread_id brelse_id i_alloc_id validchk_id i_found_id)

lemma i_deref_id: "i_deref i s = Some (res, t) \<Longrightarrow> ident t = ident s"
  by (auto simp: i_deref_def Let_def elim!: bind_SomeD split: option.splits if_splits prod.splits sum.splits dest!: wr_inode_id i_free_id f_trunc_id magic_id)

lemma i_deref_opt_id: "i_deref_opt i s = Some (res, t) \<Longrightarrow> ident t = ident s"
  by (auto simp: i_deref_opt_def Let_def elim!: bind_SomeD split: option.splits if_splits prod.splits sum.splits dest!: i_deref_id)

lemma uputblk_id [simp]: "ident (uputblk b k n s) = ident s"
  by (auto simp: uputblk_def Let_def split: option.splits if_splits prod.splits sum.splits dest!: uput_id)

lemma ugetblk_id [simp]: "ident (ugetblk b k n s) = ident s"
  by (auto simp: ugetblk_def Let_def split: option.splits if_splits prod.splits sum.splits dest!: uget_id)

lemma advance_id [simp]: "ident (advance b n s) = ident s"
  by (auto simp: advance_def Let_def split: option.splits if_splits prod.splits sum.splits)

lemma finish_count_id [simp]: "ident (finish_count n s) = ident s"
  by (auto simp: finish_count_def Let_def split: option.splits if_splits prod.splits sum.splits)

lemma cdread_id: "cdread d f s = Some (res, t) \<Longrightarrow> ident t = ident s"
  by (auto simp: cdread_def Let_def elim!: bind_SomeD split: option.splits if_splits prod.splits sum.splits dest!: validchk_id)

lemma cdwrite_id: "cdwrite d f s = Some (res, t) \<Longrightarrow> ident t = ident s"
  by (auto simp: cdwrite_def Let_def elim!: bind_SomeD split: option.splits if_splits prod.splits sum.splits dest!: validchk_id)

lemma pipewait_id:
  assumes "pipewait sw i f s = Some (res, t)" "sw_ok sw" shows "ident t = ident s"
proof -
  have "sw_ok sw \<longrightarrow> ident (snd y) = ident s" if "pipewait sw i f s = Some y" for sw i f s y
    using that by (rule pipewait.raw_induct [rotated]) (auto simp: Let_def elim!: bind_SomeD split: option.splits if_splits prod.splits sum.splits dest!: psleep_flags_id)
  then show ?thesis using assms by fastforce
qed

lemma read_loop_id: "read_loop i d b n s = Some (res, t) \<Longrightarrow> ident t = ident s"
proof (induction "unat n" arbitrary: b n s rule: less_induct)
  case less
  have ih: "read_loop i d b (n - amount n off) u = Some (res, t) \<Longrightarrow> n \<noteq> 0 \<Longrightarrow> ident t = ident u" for b u off
    using less.hyps [OF less_after] by blast
  from less.prems show ?case
    by (subst (asm) read_loop.simps) (auto simp: Let_def elim!: bind_SomeD split: option.splits if_splits prod.splits sum.splits dest!: ih bread_id brelse_id zerobuf_id bmap_id)
qed

lemma readi_id: "readi sw i f s = Some (res, t) \<Longrightarrow> sw_ok sw \<Longrightarrow> ident t = ident s"
  by (auto simp: readi_def Let_def elim!: bind_SomeD split: option.splits if_splits prod.splits sum.splits dest!: cdread_id pipewait_id read_loop_id)

lemma write_loop_id: "write_loop i d b f n s = Some (res, t) \<Longrightarrow> ident t = ident s"
proof (induction "unat n" arbitrary: b n s rule: less_induct)
  case less
  have ih: "write_loop i d b f (n - amount n off) u = Some (res, t) \<Longrightarrow> n \<noteq> 0 \<Longrightarrow> ident t = ident u" for b u off
    using less.hyps [OF less_after] by blast
  from less.prems show ?case
    by (subst (asm) write_loop.simps) (auto simp: Let_def elim!: bind_SomeD split: option.splits if_splits prod.splits sum.splits dest!: ih bread_id bfree_id bmap_id)
qed

lemma pipe_room_id:
  assumes "pipe_room sw i f s = Some (res, t)" "sw_ok sw" shows "ident t = ident s"
proof -
  have "sw_ok sw \<longrightarrow> ident (snd y) = ident s" if "pipe_room sw i f s = Some y" for sw i f s y
    using that by (rule pipe_room.raw_induct [rotated]) (auto simp: Let_def elim!: bind_SomeD split: option.splits if_splits prod.splits sum.splits dest!: psleep_flags_id)
  then show ?thesis using assms by fastforce
qed

lemma write_tail_id: "write_tail i d b f s = Some (res, t) \<Longrightarrow> ident t = ident s"
  by (auto simp: write_tail_def Let_def elim!: bind_SomeD split: option.splits if_splits prod.splits sum.splits dest!: write_loop_id)

lemma writei_id: "writei sw i f s = Some (res, t) \<Longrightarrow> sw_ok sw \<Longrightarrow> ident t = ident s"
  by (auto simp: writei_def Let_def elim!: bind_SomeD split: option.splits if_splits prod.splits sum.splits dest!: cdwrite_id pipe_room_id write_tail_id)

lemma oft_alloc_id: "oft_alloc s = (res, t) \<Longrightarrow> ident t = ident s"
  by (auto simp: oft_alloc_def Let_def split: option.splits if_splits prod.splits sum.splits)

lemmas oft_alloc_snd [simp] = oft_alloc_id [OF prod.collapse [symmetric]]

lemma deflock_id: "deflock j s = Some (res, t) \<Longrightarrow> ident t = ident s"
  by (auto simp: deflock_def Let_def elim!: bind_SomeD split: option.splits if_splits prod.splits sum.splits)

lemma oft_deref_id: "oft_deref j s = Some (res, t) \<Longrightarrow> ident t = ident s"
  by (auto simp: oft_deref_def Let_def elim!: bind_SomeD split: option.splits if_splits prod.splits sum.splits dest!: i_deref_opt_id deflock_id)

lemma uf_alloc_n_id: "uf_alloc_n n s = (res, t) \<Longrightarrow> ident t = ident s"
  by (auto simp: uf_alloc_n_def Let_def split: option.splits if_splits prod.splits sum.splits)

lemmas uf_alloc_n_snd [simp] = uf_alloc_n_id [OF prod.collapse [symmetric]]

lemma uf_alloc_id: "uf_alloc s = (res, t) \<Longrightarrow> ident t = ident s"
  by (auto simp: uf_alloc_def Let_def split: option.splits if_splits prod.splits sum.splits dest!: uf_alloc_n_id)

lemmas uf_alloc_snd [simp] = uf_alloc_id [OF prod.collapse [symmetric]]

lemma getinode_id: "getinode x s = Some (res, t) \<Longrightarrow> ident t = ident s"
  by (auto simp: getinode_def Let_def elim!: bind_SomeD split: option.splits if_splits prod.splits sum.splits dest!: magic_id)

lemma ufile_id: "ufile x s = Some (res, t) \<Longrightarrow> ident t = ident s"
  by (auto simp: ufile_def Let_def elim!: bind_SomeD split: option.splits if_splits prod.splits sum.splits)

lemma oft_of_id: "oft_of x s = Some (res, t) \<Longrightarrow> ident t = ident s"
  by (auto simp: oft_of_def Let_def elim!: bind_SomeD split: option.splits if_splits prod.splits sum.splits dest!: ufile_id)

lemma share_id: "share x n s = Some (res, t) \<Longrightarrow> ident t = ident s"
  by (auto simp: share_def Let_def elim!: bind_SomeD split: option.splits if_splits prod.splits sum.splits dest!: ufile_id oft_of_id)

lemma updoff_id: "updoff s = Some (res, t) \<Longrightarrow> ident t = ident s"
  by (auto simp: updoff_def Let_def elim!: bind_SomeD split: option.splits if_splits prod.splits sum.splits dest!: oft_of_id)

lemma rwsetup_id: "rwsetup b s = Some (res, t) \<Longrightarrow> ident t = ident s"
  by (auto simp: rwsetup_def Let_def elim!: bind_SomeD split: option.splits if_splits prod.splits sum.splits dest!: getinode_id oft_of_id)

lemma bdrop_step_id: "bdrop_step d j s = Some (res, t) \<Longrightarrow> ident t = ident s"
  by (auto simp: bdrop_step_def Let_def elim!: bind_SomeD split: option.splits if_splits prod.splits sum.splits dest!: bdput_id)

lemma bdrop_id:
  assumes "bdrop d s = Some (res, t)" shows "ident t = ident s"
  by (rule for_each_inv [where I = "\<lambda>t. ident t = ident s", OF _ _ assms [unfolded bdrop_def]]) (auto dest: bdrop_step_id)

lemma d_close_id: "d_close d s = Some (res, t) \<Longrightarrow> ident t = ident s"
  by (auto simp: d_close_def Let_def elim!: bind_SomeD split: option.splits if_splits prod.splits sum.splits dest!: validchk_id bdrop_id)

lemma last_close_id: "last_close i m s = Some (res, t) \<Longrightarrow> ident t = ident s"
  by (auto simp: last_close_def Let_def elim!: bind_SomeD split: option.splits if_splits prod.splits sum.splits dest!: d_close_id)

lemma doclose_id: "doclose x s = Some (res, t) \<Longrightarrow> ident t = ident s"
  by (auto simp: doclose_def Let_def elim!: bind_SomeD split: option.splits if_splits prod.splits sum.splits dest!: d_flush_id oft_deref_id getinode_id last_close_id)

lemma filename_id: "filename a s = Some (res, t) \<Longrightarrow> ident t = ident s"
  by (auto simp: filename_def Let_def elim!: bind_SomeD split: option.splits if_splits prod.splits sum.splits dest!: brelse_id tmpbuf_id ugets_id)

lemma srch_blocks_id: "srch_blocks i c ks s = Some (res, t) \<Longrightarrow> ident t = ident s"
  by (induction ks arbitrary: s) (auto simp: Let_def elim!: bind_SomeD split: option.splits if_splits prod.splits sum.splits dest!: bread_id brelse_id bmap_id i_open_id)

lemma srch_dir_id: "srch_dir i c s = Some (res, t) \<Longrightarrow> ident t = ident s"
  by (auto simp: srch_dir_def Let_def elim!: bind_SomeD split: option.splits if_splits prod.splits sum.splits dest!: srch_blocks_id)

lemma srch_mt_id: "srch_mt i s = Some (res, t) \<Longrightarrow> ident t = ident s"
  by (auto simp: srch_mt_def Let_def elim!: bind_SomeD split: option.splits if_splits prod.splits sum.splits dest!: i_open_id i_deref_id)

lemma walk_done_id: "walk_done w i n s = Some (res, t) \<Longrightarrow> ident t = ident s"
  by (auto simp: walk_done_def Let_def elim!: bind_SomeD split: option.splits if_splits prod.splits sum.splits dest!: i_deref_id)

lemma nodir_id: "nodir i e s = Some (res, t) \<Longrightarrow> ident t = ident s"
  by (auto simp: nodir_def Let_def elim!: bind_SomeD split: option.splits if_splits prod.splits sum.splits dest!: i_deref_id)

lemma cross_mount_id: "cross_mount i s = Some (res, t) \<Longrightarrow> ident t = ident s"
  by (auto simp: cross_mount_def Let_def elim!: bind_SomeD split: option.splits if_splits prod.splits sum.splits dest!: i_deref_id)

lemma walk_enter_id: "walk_enter i s = Some (res, t) \<Longrightarrow> ident t = ident s"
  by (auto simp: walk_enter_def Let_def elim!: bind_SomeD split: option.splits if_splits prod.splits sum.splits dest!: magic_id srch_mt_id)

lemma kn_walk_id: "kn_walk w i n nm s = Some (res, t) \<Longrightarrow> ident t = ident s"
proof (induction "length nm" arbitrary: i n nm s rule: less_induct)
  case less
  let ?n = "dropWhile (\<lambda>c. c = slash) nm"
  have len: "length (dropWhile (\<lambda>c. c \<noteq> slash) ?n) < length nm" "length (drop 2 ?n) < length nm" if "?n \<noteq> []"
    using skip_component [OF refl that] by simp_all
  have ih: "kn_walk w j m (dropWhile (\<lambda>c. c \<noteq> slash) ?n) u = Some (res, t) \<Longrightarrow> ?n \<noteq> [] \<Longrightarrow> ident t = ident u"
      "kn_walk w j m (drop 2 ?n) u = Some (res, t) \<Longrightarrow> ?n \<noteq> [] \<Longrightarrow> ident t = ident u" for j m u
    using less.hyps [OF len(1)] less.hyps [OF len(2)] by blast+
  from less.prems show ?case
    by (subst (asm) kn_walk.simps) (auto simp: Let_def elim!: bind_SomeD split: option.splits if_splits prod.splits
        dest!: ih i_deref_id srch_dir_id walk_done_id nodir_id cross_mount_id walk_enter_id)
qed

lemma kn_open_id: "kn_open nm w s = Some (res, t) \<Longrightarrow> ident t = ident s"
  by (auto simp: kn_open_def Let_def elim!: bind_SomeD split: option.splits if_splits prod.splits sum.splits dest!: kn_walk_id)

lemma n_open_id: "n_open a w s = Some (res, t) \<Longrightarrow> ident t = ident s"
  by (auto simp: n_open_def Let_def elim!: bind_SomeD split: option.splits if_splits prod.splits sum.splits dest!: brelse_id tmpbuf_id ugets_id kn_open_id)

lemma set_curentry_id [simp]: "ident (set_curentry d s) = ident s"
  by (auto simp: set_curentry_def Let_def split: option.splits if_splits prod.splits sum.splits)

lemma entry_io_id [simp]: "ident (entry_io s) = ident s"
  by (auto simp: entry_io_def Let_def split: option.splits if_splits prod.splits sum.splits)

lemma ch_search_id:
  assumes "ch_search sw i nm s = Some (res, t)" "sw_ok sw" shows "ident t = ident s"
proof -
  have "sw_ok sw \<longrightarrow> ident (snd y) = ident s" if "ch_search sw i nm s = Some y" for sw i nm s y
    using that by (rule ch_search.raw_induct [rotated]) (auto simp: Let_def elim!: bind_SomeD split: option.splits if_splits prod.splits sum.splits dest!: readi_id)
  then show ?thesis using assms by fastforce
qed

lemma ch_link_id: "ch_link sw i a b n s = Some (res, t) \<Longrightarrow> sw_ok sw \<Longrightarrow> ident t = ident s"
  by (auto simp: ch_link_def Let_def elim!: bind_SomeD split: option.splits if_splits prod.splits sum.splits dest!: writei_id ch_search_id)

lemma newfile_id: "newfile sw i nm s = Some (res, t) \<Longrightarrow> sw_ok sw \<Longrightarrow> ident t = ident s"
  by (auto simp: newfile_def Let_def elim!: bind_SomeD split: option.splits if_splits prod.splits sum.splits dest!: wr_inode_id i_open_id i_deref_id i_deref_opt_id ch_link_id)

lemma unlinki_id: "unlinki sw i j nm s = Some (res, t) \<Longrightarrow> sw_ok sw \<Longrightarrow> ident t = ident s"
  by (auto simp: unlinki_def Let_def elim!: bind_SomeD split: option.splits if_splits prod.splits sum.splits dest!: ch_link_id)

lemma fmount_id: "fmount d i f s = Some (res, t) \<Longrightarrow> ident t = ident s"
  by (auto simp: fmount_def Let_def elim!: bind_SomeD split: option.splits if_splits prod.splits sum.splits dest!: bread_id brelse_id sync_id d_open_id)

lemma tty_post_id [simp]: "ident (tty_post i m f s) = ident s"
  by (auto simp: tty_post_def Let_def split: option.splits if_splits prod.splits sum.splits)

lemma dev_openi_id: "dev_openi j f s = Some (res, t) \<Longrightarrow> ident t = ident s"
  by (auto simp: dev_openi_def Let_def elim!: bind_SomeD split: option.splits if_splits prod.splits sum.splits dest!: d_open_id i_deref_id)

lemma nooft_id: "nooft u s = Some (res, t) \<Longrightarrow> ident t = ident s"
  by (auto simp: nooft_def Let_def elim!: bind_SomeD split: option.splits if_splits prod.splits sum.splits)

lemma cantopen_id: "cantopen u j s = Some (res, t) \<Longrightarrow> ident t = ident s"
  by (auto simp: cantopen_def Let_def elim!: bind_SomeD split: option.splits if_splits prod.splits sum.splits dest!: oft_deref_id nooft_id)

lemma idrop_id: "idrop i u j s = Some (res, t) \<Longrightarrow> ident t = ident s"
  by (auto simp: idrop_def Let_def elim!: bind_SomeD split: option.splits if_splits prod.splits sum.splits dest!: i_deref_id cantopen_id)

lemma open_lookup_id: "open_lookup sw s = Some (res, t) \<Longrightarrow> sw_ok sw \<Longrightarrow> ident t = ident s"
  by (auto simp: open_lookup_def Let_def elim!: bind_SomeD split: option.splits if_splits prod.splits sum.splits dest!: wr_inode_id i_deref_opt_id filename_id n_open_id newfile_id)

lemma open_trunc_id: "open_trunc i f s = Some (res, t) \<Longrightarrow> ident t = ident s"
  by (auto simp: open_trunc_def Let_def elim!: bind_SomeD split: option.splits if_splits prod.splits sum.splits dest!: f_trunc_id)

lemma open_done_id [simp]: "ident (open_done u j i f s) = ident s"
  by (auto simp: open_done_def Let_def split: option.splits if_splits prod.splits sum.splits)

lemma fail_id: "fail e s = Some (res, t) \<Longrightarrow> ident t = ident s"
  by (auto simp: fail_def Let_def elim!: bind_SomeD split: option.splits if_splits prod.splits sum.splits)

lemma deref_ret_id: "deref_ret i r s = Some (res, t) \<Longrightarrow> ident t = ident s"
  by (auto simp: deref_ret_def Let_def elim!: bind_SomeD split: option.splits if_splits prod.splits sum.splits dest!: i_deref_id)

lemma u_open_id: "u_open sw s = Some (res, t) \<Longrightarrow> sw_ok sw \<Longrightarrow> ident t = ident s"
  by (auto simp: u_open_def Let_def elim!: bind_SomeD split: option.splits if_splits prod.splits sum.splits dest!: psleep_id oft_alloc_id uf_alloc_id dev_openi_id nooft_id cantopen_id idrop_id open_lookup_id open_trunc_id fail_id)

lemma u_link_id: "u_link sw s = Some (res, t) \<Longrightarrow> sw_ok sw \<Longrightarrow> ident t = ident s"
  by (auto simp: u_link_def Let_def elim!: bind_SomeD split: option.splits if_splits prod.splits sum.splits dest!: wr_inode_id esuper_id i_deref_id i_deref_opt_id filename_id n_open_id ch_link_id deref_ret_id)

lemma u_unlink_id: "u_unlink sw s = Some (res, t) \<Longrightarrow> sw_ok sw \<Longrightarrow> ident t = ident s"
  by (auto simp: u_unlink_def Let_def elim!: bind_SomeD split: option.splits if_splits prod.splits sum.splits dest!: i_deref_id filename_id n_open_id unlinki_id fail_id deref_ret_id)

lemma u_mknod_id: "u_mknod sw s = Some (res, t) \<Longrightarrow> sw_ok sw \<Longrightarrow> ident t = ident s"
  by (auto simp: u_mknod_def Let_def elim!: bind_SomeD split: option.splits if_splits prod.splits sum.splits dest!: wr_inode_id i_deref_id i_deref_opt_id filename_id n_open_id newfile_id fail_id deref_ret_id)

lemma u_read_id: "u_read sw s = Some (res, t) \<Longrightarrow> sw_ok sw \<Longrightarrow> ident t = ident s"
  by (auto simp: u_read_def Let_def elim!: bind_SomeD split: option.splits if_splits prod.splits sum.splits dest!: valaddr_id readi_id updoff_id rwsetup_id fail_id)

lemma u_write_id: "u_write sw s = Some (res, t) \<Longrightarrow> sw_ok sw \<Longrightarrow> ident t = ident s"
  by (auto simp: u_write_def Let_def elim!: bind_SomeD split: option.splits if_splits prod.splits sum.splits dest!: valaddr_id writei_id updoff_id rwsetup_id fail_id)

lemma u_getdirent_id: "u_getdirent sw s = Some (res, t) \<Longrightarrow> sw_ok sw \<Longrightarrow> ident t = ident s"
  by (auto simp: u_getdirent_def Let_def elim!: bind_SomeD split: option.splits if_splits prod.splits sum.splits dest!: fail_id u_read_id)

lemma u_fcntl_id: "u_fcntl s = Some (res, t) \<Longrightarrow> ident t = ident s"
  by (auto simp: u_fcntl_def Let_def elim!: bind_SomeD split: option.splits if_splits prod.splits sum.splits dest!: uf_alloc_n_id getinode_id oft_of_id share_id fail_id)

lemma flock_loop_id:
  assumes "flock_loop sw i l c d s = Some (res, t)" "sw_ok sw" shows "ident t = ident s"
proof -
  have "sw_ok sw \<longrightarrow> ident (snd y) = ident s" if "flock_loop sw i l c d s = Some y" for sw i l c d s y
    using that by (rule flock_loop.raw_induct [rotated]) (auto simp: Let_def elim!: bind_SomeD split: option.splits if_splits prod.splits sum.splits dest!: psleep_flags_id)
  then show ?thesis using assms by fastforce
qed

lemma flock_done_id: "flock_done j i c s = Some (res, t) \<Longrightarrow> ident t = ident s"
  by (auto simp: flock_done_def Let_def elim!: bind_SomeD split: option.splits if_splits prod.splits sum.splits dest!: deflock_id)

lemma u_flock_id: "u_flock sw s = Some (res, t) \<Longrightarrow> sw_ok sw \<Longrightarrow> ident t = ident s"
  by (auto simp: u_flock_def Let_def elim!: bind_SomeD split: option.splits if_splits prod.splits sum.splits dest!: deflock_id getinode_id oft_of_id fail_id flock_loop_id flock_done_id)

lemma stcpy_id: "stcpy i a s = (res, t) \<Longrightarrow> ident t = ident s"
  by (auto simp: stcpy_def Let_def split: option.splits if_splits prod.splits sum.splits dest!: uput_id)

lemmas stcpy_snd [simp] = stcpy_id [OF prod.collapse [symmetric]]

lemma pipe_nogood2_id: "pipe_nogood2 u j s = Some (res, t) \<Longrightarrow> ident t = ident s"
  by (auto simp: pipe_nogood2_def Let_def elim!: bind_SomeD split: option.splits if_splits prod.splits sum.splits dest!: oft_deref_id)

lemma pipe_make_id: "pipe_make u v j k i s = (res, t) \<Longrightarrow> ident t = ident s"
  by (auto simp: pipe_make_def Let_def split: option.splits if_splits prod.splits sum.splits dest!: uputw_id)

lemmas pipe_make_snd [simp] = pipe_make_id [OF prod.collapse [symmetric]]

lemma u_lseek_id: "u_lseek s = Some (res, t) \<Longrightarrow> ident t = ident s"
  by (auto simp: u_lseek_def Let_def elim!: bind_SomeD split: option.splits if_splits prod.splits sum.splits dest!: uget_id uput_id getinode_id oft_of_id fail_id)

lemma u_sync_id: "u_sync s = Some (res, t) \<Longrightarrow> ident t = ident s"
  by (auto simp: u_sync_def Let_def elim!: bind_SomeD split: option.splits if_splits prod.splits sum.splits dest!: sync_id)

lemma u_stat_id: "u_stat s = Some (res, t) \<Longrightarrow> ident t = ident s"
  by (auto simp: u_stat_def Let_def elim!: bind_SomeD split: option.splits if_splits prod.splits sum.splits dest!: n_open_id deref_ret_id stcpy_id)

lemma u_fstat_id: "u_fstat s = Some (res, t) \<Longrightarrow> ident t = ident s"
  by (auto simp: u_fstat_def Let_def elim!: bind_SomeD split: option.splits if_splits prod.splits sum.splits dest!: getinode_id stcpy_id)

lemma u_dup_id: "u_dup s = Some (res, t) \<Longrightarrow> ident t = ident s"
  by (auto simp: u_dup_def Let_def elim!: bind_SomeD split: option.splits if_splits prod.splits sum.splits dest!: uf_alloc_id getinode_id share_id)

lemma u_dup2_id: "u_dup2 s = Some (res, t) \<Longrightarrow> ident t = ident s"
  by (auto simp: u_dup2_def Let_def elim!: bind_SomeD split: option.splits if_splits prod.splits sum.splits dest!: getinode_id share_id doclose_id fail_id)

lemma u_umask_id: "u_umask s = Some (res, t) \<Longrightarrow> ident t = ident s"
  by (auto simp: u_umask_def Let_def elim!: bind_SomeD split: option.splits if_splits prod.splits sum.splits)

lemma u_ioctl_id: "u_ioctl s = Some (res, t) \<Longrightarrow> ident t = ident s"
  by (auto simp: u_ioctl_def Let_def elim!: bind_SomeD split: option.splits if_splits prod.splits sum.splits dest!: esuper_id d_ioctl_id getinode_id oft_of_id fail_id)

lemma u_close_id: "u_close s = Some (res, t) \<Longrightarrow> ident t = ident s"
  by (auto simp: u_close_def Let_def elim!: bind_SomeD split: option.splits if_splits prod.splits sum.splits dest!: doclose_id)

lemma u_pipe_id: "u_pipe s = Some (res, t) \<Longrightarrow> ident t = ident s"
  by (auto simp: u_pipe_def Let_def elim!: bind_SomeD split: option.splits if_splits prod.splits sum.splits dest!: i_open_id i_deref_id oft_alloc_id oft_deref_id uf_alloc_id pipe_nogood2_id pipe_make_id)

lemma chmod_op_id: "chmod_op i s = (res, t) \<Longrightarrow> ident t = ident s"
  by (auto simp: chmod_op_def Let_def split: option.splits if_splits prod.splits sum.splits dest!: esuper_id)

lemmas chmod_op_snd [simp] = chmod_op_id [OF prod.collapse [symmetric]]

lemma chown_op_id: "chown_op i s = (res, t) \<Longrightarrow> ident t = ident s"
  by (auto simp: chown_op_def Let_def split: option.splits if_splits prod.splits sum.splits dest!: esuper_id)

lemmas chown_op_snd [simp] = chown_op_id [OF prod.collapse [symmetric]]

lemma utime_times_id: "utime_times i s = (res, t) \<Longrightarrow> ident t = ident s"
  by (auto simp: utime_times_def Let_def split: option.splits if_splits prod.splits sum.splits dest!: valaddr_id uget_id esuper_id)

lemmas utime_times_snd [simp] = utime_times_id [OF prod.collapse [symmetric]]

lemma set_cwd_id [simp]: "ident (set_cwd i s) = ident s"
  by (auto simp: set_cwd_def Let_def split: option.splits if_splits prod.splits sum.splits)

lemma chdiroot_op_id: "chdiroot_op i u_cwd set_cwd s = Some (res, t) \<Longrightarrow> ident t = ident s"
  by (auto simp: chdiroot_op_def elim!: bind_SomeD split: if_splits dest!: i_deref_opt_id deref_ret_id)

lemma u_chdir_id: "u_chdir s = Some (res, t) \<Longrightarrow> ident t = ident s"
  by (auto simp: u_chdir_def Let_def elim!: bind_SomeD split: option.splits if_splits prod.splits sum.splits dest!: n_open_id chdiroot_op_id)

lemma u_fchdir_id: "u_fchdir s = Some (res, t) \<Longrightarrow> ident t = ident s"
  by (auto simp: u_fchdir_def Let_def elim!: bind_SomeD split: option.splits if_splits prod.splits sum.splits dest!: getinode_id chdiroot_op_id)

lemma u_access_id: "u_access s = Some (res, t) \<Longrightarrow> ident t = ident s"
  by (auto simp: u_access_def Let_def elim!: bind_SomeD split: option.splits if_splits prod.splits sum.splits simp: ident_def dest!: ugetc_id n_open_id fail_id deref_ret_id)

lemma u_chmod_id: "u_chmod s = Some (res, t) \<Longrightarrow> ident t = ident s"
  by (auto simp: u_chmod_def Let_def elim!: bind_SomeD split: option.splits if_splits prod.splits sum.splits dest!: n_open_id deref_ret_id chmod_op_id)

lemma u_fchmod_id: "u_fchmod s = Some (res, t) \<Longrightarrow> ident t = ident s"
  by (auto simp: u_fchmod_def Let_def elim!: bind_SomeD split: option.splits if_splits prod.splits sum.splits dest!: getinode_id chmod_op_id)

lemma u_chown_id: "u_chown s = Some (res, t) \<Longrightarrow> ident t = ident s"
  by (auto simp: u_chown_def Let_def elim!: bind_SomeD split: option.splits if_splits prod.splits sum.splits dest!: n_open_id deref_ret_id chown_op_id)

lemma u_fchown_id: "u_fchown s = Some (res, t) \<Longrightarrow> ident t = ident s"
  by (auto simp: u_fchown_def Let_def elim!: bind_SomeD split: option.splits if_splits prod.splits sum.splits dest!: getinode_id chown_op_id)

lemma u_utime_call_id: "u_utime_call s = Some (res, t) \<Longrightarrow> ident t = ident s"
  by (auto simp: u_utime_call_def Let_def elim!: bind_SomeD split: option.splits if_splits prod.splits sum.splits dest!: n_open_id deref_ret_id utime_times_id)

lemma u_acct_id: "u_acct s = Some (res, t) \<Longrightarrow> ident t = ident s"
  by (auto simp: u_acct_def Let_def elim!: bind_SomeD split: option.splits if_splits prod.splits sum.splits dest!: fail_id)

lemma u_getfsys_id: "u_getfsys s = Some (res, t) \<Longrightarrow> ident t = ident s"
  by (auto simp: u_getfsys_def Let_def elim!: bind_SomeD split: option.splits if_splits prod.splits sum.splits dest!: uput_id fail_id)

lemma wrtime_id [simp]: "ident (wrtime x s) = ident s"
  by (auto simp: wrtime_def Let_def split: option.splits if_splits prod.splits sum.splits)

lemma rename_end_id: "rename_end i p r s = Some (res, t) \<Longrightarrow> ident t = ident s"
  by (auto simp: rename_end_def Let_def elim!: bind_SomeD split: option.splits if_splits prod.splits sum.splits dest!: i_deref_id i_deref_opt_id)

lemma rename_end2_id: "rename_end2 i p d r s = Some (res, t) \<Longrightarrow> ident t = ident s"
  by (auto simp: rename_end2_def Let_def elim!: bind_SomeD split: option.splits if_splits prod.splits sum.splits dest!: i_deref_id rename_end_id)

lemma rename_nogood_id: "rename_nogood i p d e r s = Some (res, t) \<Longrightarrow> ident t = ident s"
  by (auto simp: rename_nogood_def Let_def elim!: bind_SomeD split: option.splits if_splits prod.splits sum.splits dest!: i_deref_id rename_end2_id)

lemma rename_links_id: "rename_links sw i p d nm s = Some (res, t) \<Longrightarrow> sw_ok sw \<Longrightarrow> ident t = ident s"
  by (auto simp: rename_links_def Let_def elim!: bind_SomeD split: option.splits if_splits prod.splits sum.splits dest!: wr_inode_id sync_id filename_id ch_link_id rename_end2_id)

lemma u_rename_call_id: "u_rename_call sw s = Some (res, t) \<Longrightarrow> sw_ok sw \<Longrightarrow> ident t = ident s"
  by (auto simp: u_rename_call_def Let_def elim!: bind_SomeD split: option.splits if_splits prod.splits sum.splits dest!: esuper_id i_deref_id filename_id n_open_id unlinki_id rename_end_id rename_nogood_id rename_links_id)

lemma deref_both_id: "deref_both i j r s = Some (res, t) \<Longrightarrow> ident t = ident s"
  by (auto simp: deref_both_def Let_def elim!: bind_SomeD split: option.splits if_splits prod.splits sum.splits dest!: i_deref_id deref_ret_id)

lemma mkdir_cleanup_id: "mkdir_cleanup sw i j nm s = Some (res, t) \<Longrightarrow> sw_ok sw \<Longrightarrow> ident t = ident s"
  by (auto simp: mkdir_cleanup_def Let_def elim!: bind_SomeD split: option.splits if_splits prod.splits sum.splits dest!: wr_inode_id ch_link_id deref_both_id)

lemma mkdir_fill_id: "mkdir_fill sw i j nm s = Some (res, t) \<Longrightarrow> sw_ok sw \<Longrightarrow> ident t = ident s"
  by (auto simp: mkdir_fill_def Let_def elim!: bind_SomeD split: option.splits if_splits prod.splits sum.splits dest!: wr_inode_id i_deref_id ch_link_id deref_ret_id mkdir_cleanup_id)

lemma u_mkdir_id: "u_mkdir sw s = Some (res, t) \<Longrightarrow> sw_ok sw \<Longrightarrow> ident t = ident s"
  by (auto simp: u_mkdir_def Let_def elim!: bind_SomeD split: option.splits if_splits prod.splits sum.splits dest!: filename_id n_open_id newfile_id fail_id deref_ret_id deref_both_id mkdir_fill_id)

lemma u_rmdir_id: "u_rmdir sw s = Some (res, t) \<Longrightarrow> sw_ok sw \<Longrightarrow> ident t = ident s"
  by (auto simp: u_rmdir_def Let_def elim!: bind_SomeD split: option.splits if_splits prod.splits sum.splits dest!: wr_inode_id i_deref_id filename_id n_open_id ch_link_id fail_id deref_both_id)

lemma u_mount_id: "u_mount sw s = Some (res, t) \<Longrightarrow> sw_ok sw \<Longrightarrow> ident t = ident s"
  by (auto simp: u_mount_def Let_def elim!: bind_SomeD split: option.splits if_splits prod.splits sum.splits dest!: sync_id esuper_id d_open_id n_open_id fmount_id deref_ret_id deref_both_id)

lemma remount_flags_id [simp]: "ident (remount_flags d f s) = ident s"
  by (auto simp: remount_flags_def Let_def split: option.splits if_splits prod.splits sum.splits)

lemma do_umount_id: "do_umount d s = Some (res, t) \<Longrightarrow> ident t = ident s"
  by (auto simp: do_umount_def Let_def elim!: bind_SomeD split: option.splits if_splits prod.splits sum.splits dest!: sync_id i_deref_opt_id fail_id)

lemma u_umount_id: "u_umount s = Some (res, t) \<Longrightarrow> ident t = ident s"
  by (auto simp: u_umount_def Let_def elim!: bind_SomeD split: option.splits if_splits prod.splits sum.splits dest!: esuper_id n_open_id deref_ret_id do_umount_id)

lemma u_profil_id: "u_profil s = Some (res, t) \<Longrightarrow> ident t = ident s"
  by (auto simp: u_profil_def Let_def elim!: bind_SomeD split: option.splits if_splits prod.splits sum.splits dest!: fail_id)

lemma u_uadmin_id: "u_uadmin s = Some (res, t) \<Longrightarrow> ident t = ident s"
  by (auto simp: u_uadmin_def Let_def elim!: bind_SomeD split: option.splits if_splits prod.splits sum.splits dest!: sync_id esuper_id fail_id)

lemma u_nice_id: "u_nice s = Some (res, t) \<Longrightarrow> ident t = ident s"
  by (auto simp: u_nice_def Let_def elim!: bind_SomeD split: option.splits if_splits prod.splits sum.splits dest!: esuper_id)

lemma u_getpid_id: "u_getpid s = Some (res, t) \<Longrightarrow> ident t = ident s"
  by (auto simp: u_getpid_def Let_def elim!: bind_SomeD split: option.splits if_splits prod.splits sum.splits)

lemma u_getppid_id: "u_getppid s = Some (res, t) \<Longrightarrow> ident t = ident s"
  by (auto simp: u_getppid_def Let_def elim!: bind_SomeD split: option.splits if_splits prod.splits sum.splits)

lemma u_getuid_id: "u_getuid s = Some (res, t) \<Longrightarrow> ident t = ident s"
  by (auto simp: u_getuid_def Let_def elim!: bind_SomeD split: option.splits if_splits prod.splits sum.splits)

lemma u_geteuid_id: "u_geteuid s = Some (res, t) \<Longrightarrow> ident t = ident s"
  by (auto simp: u_geteuid_def Let_def elim!: bind_SomeD split: option.splits if_splits prod.splits sum.splits)

lemma u_getgid_id: "u_getgid s = Some (res, t) \<Longrightarrow> ident t = ident s"
  by (auto simp: u_getgid_def Let_def elim!: bind_SomeD split: option.splits if_splits prod.splits sum.splits)

lemma u_getegid_id: "u_getegid s = Some (res, t) \<Longrightarrow> ident t = ident s"
  by (auto simp: u_getegid_def Let_def elim!: bind_SomeD split: option.splits if_splits prod.splits sum.splits)

lemma u_setpgrp_id: "u_setpgrp s = Some (res, t) \<Longrightarrow> ident t = ident s"
  by (auto simp: u_setpgrp_def Let_def elim!: bind_SomeD split: option.splits if_splits prod.splits sum.splits)

lemma u_getpgrp_id: "u_getpgrp s = Some (res, t) \<Longrightarrow> ident t = ident s"
  by (auto simp: u_getpgrp_def Let_def elim!: bind_SomeD split: option.splits if_splits prod.splits sum.splits)

lemma u_time_call_id: "u_time_call s = Some (res, t) \<Longrightarrow> ident t = ident s"
  by (auto simp: u_time_call_def Let_def elim!: bind_SomeD split: option.splits if_splits prod.splits sum.splits dest!: uput_id fail_id)

lemma u_stime_call_id: "u_stime_call s = Some (res, t) \<Longrightarrow> ident t = ident s"
  by (auto simp: u_stime_call_def Let_def elim!: bind_SomeD split: option.splits if_splits prod.splits sum.splits dest!: uget_id esuper_id fail_id)

lemma u_times_id: "u_times s = Some (res, t) \<Longrightarrow> ident t = ident s"
  by (auto simp: u_times_def Let_def elim!: bind_SomeD split: option.splits if_splits prod.splits sum.splits dest!: uput_id)

lemma u_alarm_id: "u_alarm s = Some (res, t) \<Longrightarrow> ident t = ident s"
  by (auto simp: u_alarm_def Let_def elim!: bind_SomeD split: option.splits if_splits prod.splits sum.splits)

lemma u_brk_id: "u_brk s = Some (res, t) \<Longrightarrow> ident t = ident s"
  by (auto simp: u_brk_def Let_def elim!: bind_SomeD split: option.splits if_splits prod.splits sum.splits dest!: uzero_id fail_id)

lemma u_sbrk_id: "u_sbrk s = Some (res, t) \<Longrightarrow> ident t = ident s"
  by (auto simp: u_sbrk_def Let_def elim!: bind_SomeD split: option.splits if_splits prod.splits sum.splits dest!: u_brk_id)

lemma reap_id: "reap p s = (res, t) \<Longrightarrow> ident t = ident s"
  by (auto simp: reap_def Let_def split: option.splits if_splits prod.splits sum.splits dest!: uputw_id)

lemmas reap_snd [simp] = reap_id [OF prod.collapse [symmetric]]

lemma wait_loop_id:
  assumes "wait_loop sw s = Some (res, t)" "sw_ok sw" shows "ident t = ident s"
proof -
  have "sw_ok sw \<longrightarrow> ident (snd y) = ident s" if "wait_loop sw s = Some y" for sw s y
    using that by (rule wait_loop.raw_induct [rotated]) (auto simp: Let_def elim!: bind_SomeD split: option.splits if_splits prod.splits sum.splits dest!: psleep_id chksigs_ret_id fail_id reap_id)
  then show ?thesis using assms by fastforce
qed

lemma u_waitpid_id: "u_waitpid sw s = Some (res, t) \<Longrightarrow> sw_ok sw \<Longrightarrow> ident t = ident s"
  by (auto simp: u_waitpid_def Let_def elim!: bind_SomeD split: option.splits if_splits prod.splits sum.splits dest!: valaddr_id fail_id wait_loop_id)

lemma u_sched_yield_id: "u_sched_yield sw s = Some (res, t) \<Longrightarrow> sw_ok sw \<Longrightarrow> ident t = ident s"
  by (auto simp: u_sched_yield_def Let_def elim!: bind_SomeD split: option.splits if_splits prod.splits sum.splits dest!: sw_okD)

lemma u_pause_id: "u_pause sw s = Some (res, t) \<Longrightarrow> sw_ok sw \<Longrightarrow> ident t = ident s"
  by (auto simp: u_pause_def Let_def elim!: bind_SomeD split: option.splits if_splits prod.splits sum.splits dest!: psleep_id fail_id)

lemma u_signal_id: "u_signal s = Some (res, t) \<Longrightarrow> ident t = ident s"
  by (auto simp: u_signal_def Let_def elim!: bind_SomeD split: option.splits if_splits prod.splits sum.splits dest!: valaddr_id fail_id)

lemma u_sigdisp_id: "u_sigdisp s = Some (res, t) \<Longrightarrow> ident t = ident s"
  by (auto simp: u_sigdisp_def Let_def elim!: bind_SomeD split: option.splits if_splits prod.splits sum.splits dest!: fail_id)

lemma kill_scan_id: "kill_scan ps g f d s = (res, t) \<Longrightarrow> ident t = ident s"
  by (induction ps arbitrary: f d s) (auto simp: Let_def split: if_splits)

lemma u_kill_id: "u_kill s = Some (res, t) \<Longrightarrow> ident t = ident s"
  by (auto simp: u_kill_def Let_def elim!: bind_SomeD split: option.splits if_splits prod.splits sum.splits dest!: fail_id kill_scan_id)

lemma charge_tick_id [simp]: "ident (charge_tick s) = ident s"
  by (auto simp: charge_tick_def Let_def split: option.splits if_splits prod.splits sum.splits)

lemma tick_proc_id [simp]: "ident (tick_proc p s) = ident s"
  by (auto simp: tick_proc_def Let_def split: option.splits if_splits prod.splits sum.splits)

lemma updatetod_id [simp]: "ident (updatetod s) = ident s"
  by (auto simp: updatetod_def Let_def split: option.splits if_splits prod.splits sum.splits)

lemma load_average_id [simp]: "ident (load_average s) = ident s"
  by (auto simp: load_average_def Let_def split: option.splits if_splits prod.splits sum.splits)

lemma dsecond_tick_id [simp]: "ident (dsecond_tick s) = ident s"
  by (auto simp: dsecond_tick_def Let_def split: option.splits if_splits prod.splits sum.splits)

lemma check_slice_id [simp]: "ident (check_slice s) = ident s"
  by (auto simp: check_slice_def Let_def split: option.splits if_splits prod.splits sum.splits)

lemma timer_interrupt_id [simp]: "ident (timer_interrupt s) = ident s"
  by (auto simp: timer_interrupt_def Let_def split: option.splits if_splits prod.splits sum.splits)

lemma u_uname_id: "u_uname x s = Some (res, t) \<Longrightarrow> ident t = ident s"
  by (auto simp: u_uname_def Let_def elim!: bind_SomeD split: option.splits if_splits prod.splits sum.splits dest!: uput_id)

lemma u_memalloc_id: "u_memalloc s = Some (res, t) \<Longrightarrow> ident t = ident s"
  by (auto simp: u_memalloc_def Let_def elim!: bind_SomeD split: option.splits if_splits prod.splits sum.splits dest!: fail_id)

lemma u_memfree_id: "u_memfree s = Some (res, t) \<Longrightarrow> ident t = ident s"
  by (auto simp: u_memfree_def Let_def elim!: bind_SomeD split: option.splits if_splits prod.splits sum.splits dest!: fail_id)

end
