(* ===== verification/Privilege.thy ===== *)
theory Privilege
  imports Ident Sample
begin

text \<open>
  Privileges across the whole system call table: which calls change the ids and the root directory of the
  caller, and that no sequence of calls makes an ordinary process a privileged one.
\<close>

subsection \<open>The calls outside the frame\<close>

definition env_ok :: "sys_env \<Rightarrow> bool" where
  "env_ok e \<longleftrightarrow> sw_ok (e_sw e) \<and> (\<forall>p s. ident (snd (e_pmalloc e p s)) = ident s)
     \<and> (\<forall>p s. ident (e_pmfree e p s) = ident s) \<and> (\<forall>p s r t. e_dofork e p s = Some (r, t) \<longrightarrow> ident t = ident s)"

lemma env_okD:
  assumes "env_ok e"
  shows "sw_ok (e_sw e)" "e_pmalloc e p s = (r, t) \<Longrightarrow> ident t = ident s" "ident (e_pmfree e p s) = ident s"
    "e_dofork e p s = Some (r, t) \<Longrightarrow> ident t = ident s"
  using assms unfolding env_ok_def by (metis snd_conv)+

lemma ident_upd_other: "p \<noteq> u_ptab s \<Longrightarrow> ident (upd_p p f s) = ident s"
  by (simp add: ident_def upd_p_def)

lemma ident_fields:
  "ident t = ident s \<Longrightarrow> u_ptab t = u_ptab s \<and> p_uid (self t) = p_uid (self s) \<and> u_euid t = u_euid s
     \<and> u_egid t = u_egid s \<and> u_gid t = u_gid s \<and> u_root t = u_root s"
  unfolding ident_def prod.inject by blast

lemma select_pid_id: 
  assumes "select_pid p s = Some (r, t)" shows "ident t = ident s"
proof -
  have "ident (snd y) = ident s" if "select_pid p s = Some y" for p s y
    using that by (rule select_pid.raw_induct [rotated]) (auto simp: Let_def split: if_splits)
  then show ?thesis using assms by fastforce
qed

lemma ptab_alloc_id:
  assumes "ptab_alloc pmalloc s = Some (r, t)" "p_status (self s) \<noteq> P_EMPTY"
    "\<And>p u r v. pmalloc p u = (r, v) \<Longrightarrow> ident v = ident u"
  shows "ident t = ident s"
proof -
  have zero: "ident (upd_p p (\<lambda>_. zero_ptab) (s\<lparr>u_error := EAGAIN\<rparr>)) = ident s"
    if "Some p = first_index (ptab_end s) (\<lambda>p. p_status (ptab s p) = P_EMPTY)" for p
    using first_index_Some [OF that [symmetric]] assms(2) by (subst ident_upd_other) auto
  show ?thesis
    using assms(1)
    by (auto simp: ptab_alloc_def Let_def zero zero [OF sym] elim!: bind_SomeD split: option.splits if_splits prod.splits
        dest!: select_pid_id assms(3))
qed

lemma u_fork_id:
  assumes "u_fork (e_pmalloc e) (e_pmfree e) (e_dofork e) s = Some (r, t)" "env_ok e" "p_status (self s) \<noteq> P_EMPTY"
  shows "ident t = ident s"
  using assms(1)
  by (auto simp: u_fork_def Let_def env_okD(3) [OF assms(2)] elim!: bind_SomeD split: option.splits if_splits
      dest!: env_okD(4) [OF assms(2)] fail_id ptab_alloc_id [OF _ assms(3) env_okD(2) [OF assms(2)]])

text \<open>setuid, setgid and chroot: what an ordinary process can do with them.\<close>

lemma u_setuid_ids:
  assumes "u_setuid s = Some (r, t)"
  shows "u_euid s \<noteq> 0 \<Longrightarrow> ident t = ident s \<or> ident t = ident (s\<lparr>u_euid := p_uid (self s)\<rparr>)"
  using assms by (auto simp: u_setuid_def super_def ident_def upd_p_def dest!: fail_id split: if_splits)

lemma u_setgid_ids:
  assumes "u_setgid s = Some (r, t)"
  shows "u_euid s \<noteq> 0 \<Longrightarrow> ident t = ident s \<or> ident t = ident (s\<lparr>u_egid := u_gid s\<rparr>)"
  using assms by (auto simp: u_setgid_def super_def ident_def dest!: fail_id split: if_splits)

lemma u_chroot_id: "u_chroot s = Some (r, t) \<Longrightarrow> u_euid s \<noteq> 0 \<Longrightarrow> ident t = ident s"
  by (auto simp: u_chroot_def esuper_def)

subsection \<open>The whole table\<close>

definition keeps :: "(kst \<Rightarrow> (u16 \<times> kst) option) \<Rightarrow> bool" where
  "keeps f \<longleftrightarrow> (\<forall>s r t. f s = Some (r, t) \<longrightarrow> p_status (self s) \<noteq> P_EMPTY \<longrightarrow> ident t = ident s)"

lemma keeps_calls:
  "keeps u_close" "keeps u_lseek" "keeps u_chdir" "keeps u_sync" "keeps u_access" "keeps u_chmod"
  "keeps u_chown" "keeps u_stat" "keeps u_fstat" "keeps u_dup" "keeps u_getpid" "keeps u_getppid"
  "keeps u_getuid" "keeps u_umask" "keeps u_getfsys" "keeps u_time_call" "keeps u_stime_call" "keeps u_ioctl"
  "keeps u_brk" "keeps u_sbrk" "keeps u_umount" "keeps u_signal" "keeps u_dup2" "keeps u_alarm"
  "keeps u_kill" "keeps u_pipe" "keeps u_getgid" "keeps u_times" "keeps u_utime_call" "keeps u_geteuid"
  "keeps u_getegid" "keeps u_fcntl" "keeps u_fchdir" "keeps u_fchmod" "keeps u_fchown" "keeps u_setpgrp"
  "keeps u_profil" "keeps u_uadmin" "keeps u_nice" "keeps u_sigdisp" "keeps u_getpgrp" "keeps u_acct"
  "keeps u_memalloc" "keeps u_memfree"
  by (simp_all add: keeps_def, (blast dest:
    u_close_id u_lseek_id u_chdir_id u_sync_id u_access_id u_chmod_id u_chown_id u_stat_id u_fstat_id u_dup_id
    u_getpid_id u_getppid_id u_getuid_id u_umask_id u_getfsys_id u_time_call_id u_stime_call_id u_ioctl_id
    u_brk_id u_sbrk_id u_umount_id u_signal_id u_dup2_id u_alarm_id u_kill_id u_pipe_id u_getgid_id u_times_id
    u_utime_call_id u_geteuid_id u_getegid_id u_fcntl_id u_fchdir_id u_fchmod_id u_fchown_id u_setpgrp_id
    u_profil_id u_uadmin_id u_nice_id u_sigdisp_id u_getpgrp_id u_acct_id u_memalloc_id u_memfree_id)+)

lemma keeps_blocking:
  assumes "sw_ok sw"
  shows "keeps (u_open sw)" "keeps (u_rename_call sw)" "keeps (u_mknod sw)" "keeps (u_link sw)" "keeps (u_unlink sw)"
    "keeps (u_read sw)" "keeps (u_write sw)" "keeps (u_getdirent sw)" "keeps (u_mount sw)" "keeps (u_pause sw)"
    "keeps (u_mkdir sw)" "keeps (u_rmdir sw)" "keeps (u_waitpid sw)" "keeps (u_flock sw)" "keeps (u_sched_yield sw)"
  using assms by (simp_all add: keeps_def, (blast dest:
    u_open_id u_rename_call_id u_mknod_id u_link_id u_unlink_id u_read_id u_write_id u_getdirent_id u_mount_id
    u_pause_id u_mkdir_id u_rmdir_id u_waitpid_id u_flock_id u_sched_yield_id)+)

lemma exit_entry_None: "exit_entry e s = None"
  by (auto simp: exit_entry_def split: Option.bind_splits)

lemma keeps_other:
  assumes "env_ok e"
  shows "keeps (exit_entry e)" "keeps (u_fork (e_pmalloc e) (e_pmfree e) (e_dofork e))" "keeps (u_uname f)"
  using assms by (auto simp: keeps_def exit_entry_None dest: u_fork_id u_uname_id)

text \<open>execve, setuid, setgid and chroot are the calls that set the identity.\<close>

lemma dispatch_keeps:
  assumes "env_ok e" "n < FUZIX_SYSCALL_COUNT" "n \<notin> {23, 25, 26, 46}"
  shows "keeps (syscall_dispatch e n)"
proof -
  let ?l = "(syscall_table e)[23 := u_nosys, 25 := u_nosys, 26 := u_nosys, 46 := u_nosys]"
  have "keeps u_nosys" by (auto simp: keeps_def u_nosys_def dest: fail_id)
  then have "\<forall>f \<in> set ?l. keeps f"
    by (simp add: syscall_table_def Let_def keeps_calls keeps_blocking [OF env_okD(1) [OF assms(1)]]
        keeps_other [OF assms(1)])
  moreover have "?l ! n = syscall_table e ! n" using assms(3) by simp
  moreover have "?l ! n \<in> set ?l" using assms(2) by (intro nth_mem) simp
  ultimately show ?thesis by (simp add: syscall_dispatch_def)
qed

text \<open>unix\_syscall() around the call: it may let another process run, and handles the signals.\<close>

lemma system_call_frame:
  assumes "system_call e s = Some (r, t)" "env_ok e"
  shows "ident t = ident s \<or> (\<exists>q v. unat (u_callno s) < FUZIX_SYSCALL_COUNT
     \<and> syscall_dispatch e (unat (u_callno s)) (s\<lparr>u_error := 0\<rparr>) = Some (q, v) \<and> ident t = ident v)"
  using assms(1)
  by (auto simp: system_call_def unix_syscall_def Let_def elim!: bind_SomeD split: if_splits
      dest!: chksigs_id [OF _ env_okD(1) [OF assms(2)]] sw_okD [OF _ env_okD(1) [OF assms(2)]])

lemma system_call_ids:
  assumes "system_call e s = Some (r, t)" "env_ok e" "p_status (self s) \<noteq> P_EMPTY"
    "unat (u_callno s) \<noteq> 23" "u_euid s \<noteq> 0"
  shows "ident t = ident s \<or> ident t = ident (s\<lparr>u_euid := p_uid (self s)\<rparr>)
     \<or> ident t = ident (s\<lparr>u_egid := u_gid s\<rparr>)"
proof -
  let ?n = "unat (u_callno s)" and ?s = "s\<lparr>u_error := 0\<rparr>"
  have "ident v = ident s \<or> ident v = ident (s\<lparr>u_euid := p_uid (self s)\<rparr>) \<or> ident v = ident (s\<lparr>u_egid := u_gid s\<rparr>)"
    if d: "syscall_dispatch e ?n ?s = Some (q, v)" "?n < FUZIX_SYSCALL_COUNT" for q v
  proof (cases "?n \<in> {25, 26, 46}")
    case True
    then have "u_setuid ?s = Some (q, v) \<or> u_setgid ?s = Some (q, v) \<or> u_chroot ?s = Some (q, v)"
      using d(1) by (auto simp: syscall_dispatch_def syscall_table_def Let_def)
    then show ?thesis
      using u_setuid_ids [of ?s q v] u_setgid_ids [of ?s q v] u_chroot_id [of ?s q v] assms(5)
      by (auto simp: ident_def)
  next
    case False
    then have "keeps (syscall_dispatch e ?n)" using assms(2,4) d(2) by (intro dispatch_keeps) auto
    then have "ident v = ident ?s" using d(1) assms(3) unfolding keeps_def by force
    then show ?thesis by simp
  qed
  then show ?thesis using system_call_frame [OF assms(1,2)] by metis
qed

subsection \<open>Runs of an ordinary process\<close>

text \<open>
  What happens to a process: it makes a system call other than execve, or anything else changes the state -
  its own instructions, interrupts, other processes - but not its identity.
\<close>

inductive event_of :: "sys_env \<Rightarrow> kst \<Rightarrow> kst \<Rightarrow> bool" for e where
  calls: "p_status (self s) \<noteq> P_EMPTY \<Longrightarrow> unat (u_callno s) \<noteq> 23 \<Longrightarrow> system_call e s = Some (r, t) \<Longrightarrow> event_of e s t"
| clock: "event_of e s (timer_interrupt s)"
| others: "ident t = ident s \<Longrightarrow> event_of e s t"

definition ordinary :: "kst \<Rightarrow> kst \<Rightarrow> bool" where
  "ordinary s t \<longleftrightarrow> u_ptab t = u_ptab s \<and> p_uid (self t) = p_uid (self s) \<and> u_gid t = u_gid s \<and> u_root t = u_root s
     \<and> u_euid t \<in> {u_euid s, p_uid (self s)} \<and> u_egid t \<in> {u_egid s, u_gid s}"

lemma ordinary_step:
  assumes "event_of e t u" "env_ok e" "ordinary s t" "u_euid s \<noteq> 0" "p_uid (self s) \<noteq> 0"
  shows "ordinary s u"
proof -
  have e: "u_euid t \<noteq> 0" using assms(3-5) by (auto simp: ordinary_def)
  have "ident u = ident t \<or> ident u = ident (t\<lparr>u_euid := p_uid (self t)\<rparr>) \<or> ident u = ident (t\<lparr>u_egid := u_gid t\<rparr>)"
    using assms(1)
  proof (cases rule: event_of.cases)
    case (calls r)
    then show ?thesis using system_call_ids [OF _ assms(2)] e by blast
  qed auto
  then show ?thesis
    using assms(3) unfolding ident_def ordinary_def prod.inject by auto
qed


text \<open>A guest asks for setuid(0).\<close>

definition idle_port :: sys_env where
  "idle_port = \<lparr>e_sw = Some, e_pmalloc = (\<lambda>p s. (0, s)), e_pmfree = (\<lambda>p s. s), e_dofork = (\<lambda>p s. Some (0, s)),
     e_exec = \<lparr>x_progload = 0x100, x_mapbase = 0, x_ramtop = 0x8000, x_hdr = 0xF100\<rparr>,
     e_prealloc = (\<lambda>_ s. (0, s)), e_sysinfo = (\<lambda>_. [])\<rparr>"

definition guest :: kst where
  "guest = sample\<lparr>u_euid := 100, u_callno := 25, u_argn := 0,
     ptab := (\<lambda>_. sample_ptab\<lparr>p_status := P_RUNNING, p_pid := 7, p_uid := 100\<rparr>)\<rparr>"


subsection \<open>The ids after execve\<close>

lemma wargs_ptrs_id: "wargs_ptrs n sp p a s = Some (r, t) \<Longrightarrow> ident t = ident s"
  by (induction n arbitrary: sp p a s) (auto simp: Let_def elim!: bind_SomeD split: if_splits)

lemma wargs_id: "wargs p blk s = Some (r, t) \<Longrightarrow> ident t = ident s"
  by (auto simp: wargs_def Let_def elim!: bind_SomeD split: if_splits dest!: wargs_ptrs_id)

lemma close_on_exec_id:
  assumes "close_on_exec s = Some (r, t)" shows "ident t = ident s"
proof -
  obtain u where u: "for_each (rev [0..<UFTSIZE])
      (\<lambda>j s. if u_cloexec s AND push_bit j 1 \<noteq> 0 then do { (_, s) \<leftarrow> doclose (of_nat j) s; Some ((), s) }
             else Some ((), s)) s = Some ((), u)" "t = u\<lparr>u_cloexec := 0\<rparr>"
    using assms by (auto simp: close_on_exec_def elim!: bind_SomeD)
  have "ident u = ident s"
    by (rule for_each_inv [where I = "\<lambda>t. ident t = ident s", OF _ _ u(1)])
      (auto elim!: bind_SomeD dest!: doclose_id split: if_splits)
  then show ?thesis using u(2) by simp
qed

lemma exec_start_id: "exec_start ino ab eb ar en pl pp bss ut s = Some (r, t) \<Longrightarrow> ident t = ident s"
  by (auto simp: exec_start_def Let_def elim!: bind_SomeD split: prod.splits
      dest!: wargs_id brelse_id i_deref_id ugetw_id)

lemma exec_nogood3_id: "exec_nogood3 ino ab eb s = Some (r, t) \<Longrightarrow> ident t = ident s"
  by (auto simp: exec_nogood3_def exec_nogood_def elim!: bind_SomeD dest!: brelse_id i_deref_id)

lemma exec_commit_ids:
  assumes "exec_commit sw ino ab eb args env hdr lay s = Some (r, t)" "sw_ok sw"
  defines "d \<equiv> c_node (i_tab s ino)"
  shows "ident t = ident (s\<lparr>u_euid := (if i_mode d AND SET_UID \<noteq> 0 then i_uid d else u_euid s),
                           u_egid := (if i_mode d AND SET_GID \<noteq> 0 then i_gid d else u_egid s)\<rparr>)"
proof -
  obtain pl ut bss sz where lay: "lay = (pl, ut, bss, sz)" by (cases lay)
  show ?thesis
    using assms(1)
    by (auto simp: exec_commit_def lay d_def upd_p_def Let_def elim!: bind_SomeD split: if_splits
        dest!: close_on_exec_id exec_start_id exec_nogood3_id readi_id [OF _ assms(2)]) (simp_all add: ident_def)
qed

text \<open>C40: The owner of a file can become root. chown() lets an owner give a file away to anybody as long as the group
  stays, and does not clear the set-user-id bit. So an ordinary process that owns an inode makes it set-user-id
  (chmod 04755), gives it to user 0, and whoever executes it then, this process too, commits to the new program with effective
  user id 0.\<close>

theorem owner_becomes_root:
  assumes "\<not> super s" "i_uid (c_node (i_tab s ino)) = u_euid s" "c_flags (i_tab s ino) AND CRDONLY = 0" "sw_ok sw"
  shows "\<exists>s1 s2. chmod_op ino (s\<lparr>u_argn1 := 0x9ED\<rparr>) = (0, s1)
     \<and> chown_op ino (s1\<lparr>u_argn1 := 0, u_argn2 := u_gid s\<rparr>) = (0, s2) \<and> ident s2 = ident s
     \<and> (\<forall>u ab eb args env hdr lay r t. c_node (i_tab u ino) = c_node (i_tab s2 ino)
          \<longrightarrow> exec_commit sw ino ab eb args env hdr lay u = Some (r, t) \<longrightarrow> super t)"
proof -
  let ?a = "s\<lparr>u_argn1 := 0x9ED\<rparr>"
  obtain s1 where s1: "chmod_op ino ?a = (0, s1)"
    using assms(2,3) by (simp add: chmod_op_def)
  let ?b = "s1\<lparr>u_argn1 := 0, u_argn2 := u_gid s\<rparr>"
  have node1: "i_uid (c_node (i_tab s1 ino)) = u_euid s" "i_mode (c_node (i_tab s1 ino)) AND SET_UID \<noteq> 0"
    "c_flags (i_tab s1 ino) AND CRDONLY = 0"
    using s1 assms(2,3) by (auto simp: chmod_op_def setftime_def proc_upd Let_def bit.conj_disj_distrib2 split: if_splits)
  have i1: "ident s1 = ident s" using chmod_op_id [OF s1] by simp
  then have g1: "u_gid s1 = u_gid s" "u_euid s1 = u_euid s" by (simp_all add: ident_def)
  obtain s2 where s2: "chown_op ino ?b = (0, s2)"
    using node1 g1 by (simp add: chown_op_def)
  have node2: "i_uid (c_node (i_tab s2 ino)) = 0" "i_mode (c_node (i_tab s2 ino)) AND SET_UID \<noteq> 0"
    using s2 node1 g1 by (auto simp: chown_op_def setftime_def proc_upd Let_def split: if_splits)
  have i2: "ident s2 = ident s" using chown_op_id [OF s2] i1 by simp
  have "super t" if "c_node (i_tab u ino) = c_node (i_tab s2 ino)"
      "exec_commit sw ino ab eb args env hdr lay u = Some (r, t)" for u ab eb args env hdr lay r t
    using exec_commit_ids [OF that(2) assms(4)] node2 that(1) by (simp add: super_def ident_def)
  then show ?thesis using s1 s2 i2 by blast
qed

definition owner :: kst where
  "owner = guest\<lparr>i_tab := (\<lambda>_. sample_cinode\<lparr>c_node := sample_dinode\<lparr>i_mode := 0x81ED, i_uid := 100\<rparr>\<rparr>)\<rparr>"

theorem owner_becomes_root_witness:
  "\<forall>args env hdr. \<exists>s1 s2. chmod_op 3 (owner\<lparr>u_argn1 := 0x9ED\<rparr>) = (0, s1)
     \<and> chown_op 3 (s1\<lparr>u_argn1 := 0, u_argn2 := u_gid owner\<rparr>) = (0, s2)
     \<and> (\<forall>r t. exec_commit Some 3 0 1 args env hdr (0x100, 0x4000, 0, 16) s2 = Some (r, t) \<longrightarrow> super t)"
proof -
  have "sw_ok Some" by (simp add: sw_ok_def)
  moreover have "\<not> super owner" "i_uid (c_node (i_tab owner 3)) = u_euid owner" "c_flags (i_tab owner 3) AND CRDONLY = 0"
    by (simp_all add: super_def owner_def guest_def sample_defs)
  ultimately show ?thesis using owner_becomes_root [of owner 3 Some] by blast
qed

end
