(* ===== verification/Start.thy ===== *)
theory Start
  imports SysExec
begin

text \<open>
  Kernel/start.c: bringing the kernel up. The statics of the file (\<open>ro\<close>, \<open>progptr\<close>, \<open>argptr\<close>, the platform's
  \<open>cmdline\<close>) stand beside the kernel's state in the record \<open>boot\<close>; what a port supplies is the record
  \<open>boot_env\<close>: its device names, platform\_param(), the memory manager, device\_init(), platform\_discard() and the
  places of the console device, the program area and \<open>bootline\<close>. Memory starts as zeroes (C's bss). What
  kputs() and kprintf() print is left out.
\<close>

record boot_env =
  be_names :: "u8 list"
  be_param :: "u8 list \<Rightarrow> kst \<Rightarrow> bool \<times> kst"
  be_pmalloc :: "nat \<Rightarrow> kst \<Rightarrow> u16 \<times> kst"
  be_pagemap_init :: "kst \<Rightarrow> kst"
  be_map_init :: "kst \<Rightarrow> kst"
  be_device_init :: "kst \<Rightarrow> kst"
  be_discard :: "kst \<Rightarrow> kst"
  be_ttydev :: u16
  be_progload :: u16
  be_bootline :: u16
  be_tickspersec :: nat
  be_ptabsize :: nat

record boot =
  krn :: kst
  ro :: u8
  progptr :: u16
  argptr :: u16
  cmdline :: "u16 option"

definition BAD_ROOT_DEV :: u16 where
  "BAD_ROOT_DEV = 0xFFFF"

subsection \<open>Tables\<close>

definition ttydflt :: termios where
  "ttydflt = \<lparr>c_iflag = 0x0003, c_oflag = 0x0005, c_cflag = 0x04BB, c_lflag = 0x0077,
     c_cc = [4, 0, 8, 3, 21, 28, 17, 19, 26, 25, 22, 15]\<rparr>"

definition tty_init :: "kst \<Rightarrow> kst" where
  "tty_init s = fold (\<lambda>i. upd_t i (\<lambda>t. t\<lparr>t_termios := ttydflt\<rparr>)) [1..<num_dev_tty (plat s) + 1] s"

definition bufinit :: "kst \<Rightarrow> kst" where
  "bufinit s = fold (\<lambda>b. upd_b b (\<lambda>x. x\<lparr>bf_dev := NO_DEVICE, bf_busy := BF_FREE\<rparr>)) [0..<nbufs s] s"

definition fstabinit :: "kst \<Rightarrow> kst" where
  "fstabinit s = fold (\<lambda>m s. s\<lparr>fs_tab := (fs_tab s)(m := (fs_tab s m)\<lparr>m_dev := NO_DEVICE\<rparr>)\<rparr>) [0..<NMOUNTS] s"

subsection \<open>The arguments of /init\<close>

definition add_argument :: "u8 list \<Rightarrow> boot \<Rightarrow> boot" where
  "add_argument a b =
     (let l = of_nat (length a + 1);
          s = snd (uput (a @ [0]) (progptr b) l (krn b));
          s = snd (uputw (progptr b) (argptr b) s)
      in b\<lparr>krn := s, progptr := progptr b + ((l + 3) AND NOT 3), argptr := argptr b + 2\<rparr>)"

text \<open>"/init".\<close>

definition init_name :: "u8 list" where
  "init_name = [0x2F, 0x69, 0x6E, 0x69, 0x74]"

definition create_init :: "boot_env \<Rightarrow> boot \<Rightarrow> boot option" where
  "create_init e b = do {
     (r, s) \<leftarrow> ptab_alloc (be_pmalloc e) (krn b);
     case r of
       None \<Rightarrow> None
     | Some p \<Rightarrow> do {
         let s = s\<lparr>u_ptab := p, u_top := be_progload e + 4096\<rparr>;
         let s = upd_p p (\<lambda>x. x\<lparr>p_top := u_top s\<rparr>) s;
         let s = newproc p (be_map_init e s);
         let s = s\<lparr>u_insys := True\<rparr>;
         let s = upd_p p (\<lambda>x. x\<lparr>p_status := P_RUNNING\<rparr>) s;
         let s = s\<lparr>u_files := (\<lambda>j. if j < UFTSIZE then NO_FILE else u_files s j)\<rparr>;
         let b = b\<lparr>argptr := be_progload e, progptr := be_progload e + 2048\<rparr>;
         let s = snd (uzero (progptr b) 32 s);
         Some (add_argument init_name (b\<lparr>krn := s\<rparr>))
       }
   }"

text \<open>init's process table entry is the current one's.\<close>

definition complete_init :: "boot_env \<Rightarrow> boot \<Rightarrow> boot" where
  "complete_init e b =
     (let s = snd (uputw 0 (argptr b) (krn b));
          s = s\<lparr>u_argn2 := argptr b, u_argn := be_progload e + 2048, u_argn1 := be_progload e\<rparr>
      in b\<lparr>krn := upd_p (u_ptab s) (\<lambda>x. x\<lparr>p_pgrp := 1\<rparr>) s\<rparr>)"

subsection \<open>The boot line\<close>

text \<open>Characters past the end of a string are never used: they read as 0 here.\<close>

definition at :: "u8 list \<Rightarrow> nat \<Rightarrow> u8" where
  "at p i = (if i < length p then p ! i else 0)"

definition system_param :: "boot_env \<Rightarrow> u8 list \<Rightarrow> boot \<Rightarrow> bool \<times> boot" where
  "system_param e p b =
     (if at p 0 = 0x72 \<and> at p 2 = 0 \<and> at p 1 = 0x6F then (True, b\<lparr>ro := 1\<rparr>)
      else if at p 0 = 0x72 \<and> at p 2 = 0 \<and> at p 1 = 0x77 then (True, b\<lparr>ro := 0\<rparr>)
      else let (r, s) = be_param e p (krn b) in (r, b\<lparr>krn := s\<rparr>))"

definition blank :: "u8 \<Rightarrow> bool" where
  "blank c \<longleftrightarrow> c = 0x20 \<or> c = 0x0A"

text \<open>parse_args() on the string at \<open>p\<close>, with what becomes of the string: the blank after each word is overwritten by 0.\<close>

function parse_args :: "boot_env \<Rightarrow> u8 list \<Rightarrow> boot \<Rightarrow> u8 list \<times> boot" where
  "parse_args e p b =
     (if p = [] then ([], b)
      else
        let skip = takeWhile blank p; p1 = dropWhile blank p;
            s = takeWhile (Not \<circ> blank) p1; p2 = dropWhile (Not \<circ> blank) p1;
            (mark, p3) = (case p2 of [] \<Rightarrow> ([], []) | _ # q \<Rightarrow> ([0], q));
            (known, b) = system_param e s b;
            b = (if known then b else add_argument s b);
            (out, b) = parse_args e p3 b
        in (skip @ s @ mark @ out, b))"
  by pat_completeness auto

lemma parse_args_shorter:
  assumes "p \<noteq> []" "dropWhile (Not \<circ> blank) (dropWhile blank p) = q"
  shows "q = [] \<or> length (tl q) < length p"
proof (cases q)
  case (Cons c q')
  have "length q \<le> length p" using assms(2) length_dropWhile_le [of "Not \<circ> blank" "dropWhile blank p"]
      length_dropWhile_le [of blank p] by simp
  with Cons show ?thesis by simp
qed simp

termination parse_args
  by (relation "measure (\<lambda>(e, p, b). length p)")
    (auto dest!: parse_args_shorter [OF _ sym] split: list.splits)

declare parse_args.simps [simp del]

definition lower :: "u8 \<Rightarrow> u8" where
  "lower c = (if c \<ge> 0x41 \<and> c \<le> 0x5A then c OR 0x20 else c)"

text \<open>The first loop of bootdevice(): where it leaves \<open>p\<close> (relative to devname), \<open>b\<close> and \<open>match\<close>; None for BAD\_ROOT\_DEV.\<close>

fun match_names :: "u8 list \<Rightarrow> u8 list \<Rightarrow> nat \<Rightarrow> u16 \<Rightarrow> bool \<Rightarrow> (nat \<times> u16 \<times> bool) option" where
  "match_names dev [] p b match = Some (p, b, match)"
| "match_names dev (c # bdn) p b match =
     (let pc = lower (at dev p) in
      if c = 0 then Some (p, b, match)
      else if c = 0x2C then
        (if match \<and> p \<noteq> 0 then Some (p, b, match) else match_names dev bdn 0 (b + 0x100) True)
      else if match \<and> c = 0x23 then
        (if pc < 0x61 \<or> pc > 0x70 then None else Some (p + 1, b + push_bit 4 (ucast (pc - 0x61)), match))
      else match_names dev bdn (p + 1) b (match \<and> pc = c))"

definition digit :: "u8 \<Rightarrow> bool" where
  "digit c \<longleftrightarrow> c \<ge> 0x30 \<and> c \<le> 0x39"

definition number :: "u8 list \<Rightarrow> u16" where
  "number ds = foldl (\<lambda>n d. n * 10 + (ucast d - 0x30)) 0 ds"

text \<open>bootdevice() on the string \<open>line\<close>, with what parse_args() makes of it.\<close>

definition bootdevice :: "boot_env \<Rightarrow> u8 list \<Rightarrow> boot \<Rightarrow> (u16 \<times> u8 list) \<times> boot" where
  "bootdevice e line st =
     (let pre = takeWhile (\<lambda>c. c = 0x20) line; dev = dropWhile (\<lambda>c. c = 0x20) line in
      case match_names dev (be_names e) 0 0 True of
        None \<Rightarrow> ((BAD_ROOT_DEV, line), st)
      | Some (p, b, match) \<Rightarrow>
          let (p, b) = (if match then (p, b) else (0, 0));
              ds = takeWhile digit (drop p dev); rest = dropWhile digit (drop p dev);
              match = (match \<or> ds \<noteq> []);
              n = number ds;
              c = at rest 0
          in if c = 0 \<or> c = 0x0A \<or> c = 0x0D then ((if match then b + n else BAD_ROOT_DEV, line), st)
             else if c = 0x20 then
               let (out, st) = parse_args e rest st
               in ((if match then b + n else BAD_ROOT_DEV, pre @ take p dev @ ds @ out), st)
             else ((BAD_ROOT_DEV, line), st))"

text \<open>The C string at an address of kernel memory.\<close>

partial_function (option) cstr :: "(u16 \<Rightarrow> u8) \<Rightarrow> u16 \<Rightarrow> u8 list option" where
  "cstr m a = (if m a = 0 then Some [] else do { r \<leftarrow> cstr m (a + 1); Some (m a # r) })"

definition bootdevice_at :: "boot_env \<Rightarrow> u16 \<Rightarrow> boot \<Rightarrow> (u16 \<times> boot) option" where
  "bootdevice_at e a st = do {
     line \<leftarrow> cstr (kmem (krn st)) a;
     let ((rd, line'), st) = bootdevice e line st;
     Some (rd, st\<lparr>krn := (krn st)\<lparr>kmem := put_range a line' (kmem (krn st))\<rparr>\<rparr>)
   }"

subsection \<open>The root device\<close>

partial_function (option) ask_root_dev :: "boot_env \<Rightarrow> u16 \<Rightarrow> boot \<Rightarrow> (u16 \<times> boot) option" where
  "ask_root_dev e rd st =
     (if rd \<noteq> BAD_ROOT_DEV then Some (rd, st)
      else do {
        let s = (krn st)\<lparr>u_base := be_bootline e, u_sysio := True, u_count := 63, u_euid := 0\<rparr>;
        (_, s) \<leftarrow> cdread (be_ttydev e) 0 s;
        (rd, st) \<leftarrow> bootdevice_at e (be_bootline e) (st\<lparr>krn := s\<rparr>);
        ask_root_dev e rd st
      })"

definition get_root_dev :: "boot_env \<Rightarrow> boot \<Rightarrow> (u16 \<times> boot) option" where
  "get_root_dev e st = do {
     (rd, st) \<leftarrow> (case cmdline st of
         None \<Rightarrow> Some (BAD_ROOT_DEV, st)
       | Some a \<Rightarrow> if kmem (krn st) a = 0 then Some (BAD_ROOT_DEV, st)
           else do { (rd, st) \<leftarrow> bootdevice_at e a st; Some (rd, st\<lparr>cmdline := None\<rparr>) });
     ask_root_dev e rd st
   }"

subsection \<open>fuzix\_main()\<close>

text \<open>The loop that mounts the root file system.\<close>

partial_function (option) mount_root :: "boot_env \<Rightarrow> boot \<Rightarrow> boot option" where
  "mount_root e st = do {
     (rd, st') \<leftarrow> get_root_dev e st;
     let s = (krn st')\<lparr>root_dev := rd\<rparr>;
     (failed, s) \<leftarrow> fmount rd None (ucast (ro st')) s;
     if \<not> failed then Some (st'\<lparr>krn := s\<rparr>)
     else mount_root e (st'\<lparr>krn := s, progptr := progptr st, argptr := argptr st, ro := 0\<rparr>)
   }"

text \<open>From the start to the call of exec\_or\_die().\<close>

definition fuzix_main :: "boot_env \<Rightarrow> boot \<Rightarrow> boot option" where
  "fuzix_main e st = do {
     let s = (krn st)\<lparr>inint := False, u_insys := True\<rparr>;
     let s = tty_init s;
     let (r, s) = d_open (be_ttydev e) 0 s;
     if r \<noteq> 0 then None
     else do {
       let s = s\<lparr>ptab_end := be_ptabsize e\<rparr>;
       let s = be_pagemap_init e (fstabinit (bufinit s));
       st \<leftarrow> create_init e (st\<lparr>krn := s\<rparr>);
       let s = (krn st)\<lparr>ticks_per_dsecond := of_nat (be_tickspersec e div 10)\<rparr>;
       st \<leftarrow> mount_root e (st\<lparr>krn := be_device_init e s\<rparr>);
       (r, s) \<leftarrow> i_open (root_dev (krn st)) ROOTINODE (krn st);
       case r of
         None \<Rightarrow> None
       | Some root \<Rightarrow> do {
           let st = complete_init e (st\<lparr>krn := s\<rparr>);
           let s = i_ref root (i_ref root (krn st));
           let s = s\<lparr>u_cwd := Some root, u_root := Some root, u_time := rdtime32 s\<rparr>;
           Some (st\<lparr>krn := s\<rparr>)
         }
     }
   }"

text \<open>exec\_or\_die() of process.c: the new program runs, or the kernel panics.\<close>

definition exec_or_die ::
  "boot_env \<Rightarrow> exec_cfg \<Rightarrow> (kst \<Rightarrow> kst option) \<Rightarrow> (u16 \<Rightarrow> kst \<Rightarrow> u16 \<times> kst) \<Rightarrow> kst \<Rightarrow> (exec_result \<times> kst) option" where
  "exec_or_die e x sw prealloc s = do {
     (r, s) \<leftarrow> u_execve x sw prealloc (be_discard e s);
     case r of Exec _ _ \<Rightarrow> Some (r, s) | ExecFailed \<Rightarrow> panic ''no /init'' s
   }"

end
