(* ===== verification/StartSpec.thy ===== *)
theory StartSpec
  imports Start ExecSpec
begin

text \<open>
  What the boot code leaves for /init: the argument vector it builds in user memory, and which device a boot
  line names.
\<close>

subsection \<open>User memory by number\<close>

lemma of_nat_diff_u16:
  assumes "x < 65536" "y < 65536"
  shows "unat (of_nat x - of_nat y :: u16) = (if y \<le> x then x - y else 65536 + x - y)"
proof (cases "y \<le> x")
  case True
  then have "of_nat x - of_nat y = (of_nat (x - y) :: u16)" by (simp add: of_nat_diff)
  moreover have "x - y < 65536" using assms by simp
  ultimately show ?thesis using True by (simp add: unat_of_nat del: of_nat_diff)
next
  case False
  then have "of_nat x - of_nat y = (of_nat (65536 + x - y) :: u16)" using assms by (simp add: of_nat_diff)
  moreover have "65536 + x - y < 65536" using False by simp
  ultimately show ?thesis using False by (simp add: unat_of_nat del: of_nat_diff)
qed

lemma get_range_apart:
  assumes "x + n \<le> y \<or> y + length bs \<le> x" "x + n \<le> 65536" "y + length bs \<le> 65536" "y < 65536"
  shows "get_range (uput_raw bs (of_nat y) m) (of_nat x) n = get_range m (of_nat x) n"
proof -
  have "uput_raw bs (of_nat y) m (of_nat x + of_nat i) = m (of_nat x + of_nat i)" if "i < n" for i
  proof (rule uput_raw_other)
    have "unat (of_nat (x + i) - of_nat y :: u16) = (if y \<le> x + i then x + i - y else 65536 + (x + i) - y)"
      using assms(2-4) that by (intro of_nat_diff_u16) simp_all
    then show "length bs \<le> unat (of_nat x + of_nat i - of_nat y :: u16)"
      using assms that by (auto split: if_splits)
  qed (use assms in simp)
  then show ?thesis by (simp add: get_range_def)
qed

lemma get_range_same:
  assumes "length bs \<le> 65536"
  shows "get_range (uput_raw bs a m) a (length bs) = bs"
  using assms by (simp add: uput_raw_range get_put_range)

subsection \<open>The argument vector\<close>

text \<open>Strings take a multiple of four bytes.\<close>

definition padded :: "u8 list \<Rightarrow> nat" where
  "padded a = 4 * ((length a + 4) div 4)"

definition taken :: "u8 list list \<Rightarrow> nat" where
  "taken args = (\<Sum>a\<leftarrow>args. padded a)"

lemma padded_bounds: "length a + 1 \<le> padded a" "padded a \<le> length a + 4"
  by (simp_all add: padded_def)

lemma taken_simps [simp]: "taken [] = 0" "taken (xs @ ys) = taken xs + taken ys" "taken [a] = padded a"
  by (simp_all add: taken_def)

lemma taken_part: "i < length args \<Longrightarrow> taken (take i args) + padded (args ! i) \<le> taken args"
  using id_take_nth_drop [of i args] by (metis append_Cons append_Nil le_add1 add.assoc taken_simps(2,3))

lemma step_padded:
  "((of_nat (length a + 1) + 3) AND NOT 3 :: u16) = of_nat (padded a)"
proof -
  let ?n = "length a + 4"
  have "(of_nat (length a + 1) + 3 :: u16) = of_nat ?n" by (simp add: add.commute)
  moreover have "x AND NOT 3 = x - take_bit 2 x" for x :: u16
  proof -
    have "x AND NOT (mask 2) = push_bit 2 (drop_bit 2 x)"
    proof (rule bit_word_eqI)
      fix n assume "n < LENGTH(16)"
      moreover have "Suc (Suc (n - 2)) = n" if "2 \<le> n" using that by simp
      ultimately show "bit (x AND NOT (mask 2)) n = bit (push_bit 2 (drop_bit 2 x)) n"
        by (cases "2 \<le> n") (auto simp: bit_simps)
    qed
    moreover have "push_bit 2 (drop_bit 2 x) + take_bit 2 x = x" by (rule bits_ident)
    ultimately show ?thesis by (simp add: mask_eq_exp_minus_1 algebra_simps)
  qed
  moreover have "take_bit 2 (of_nat ?n) = (of_nat (?n mod 4) :: u16)"
  proof -
    have "take_bit 2 ?n = ?n mod 4" by (simp add: take_bit_eq_mod)
    then show ?thesis by (metis of_nat_take_bit)
  qed
  moreover have "of_nat ?n - of_nat (?n mod 4) = (of_nat (?n - ?n mod 4) :: u16)" by (simp add: of_nat_diff)
  ultimately show ?thesis unfolding padded_def by (simp only: minus_mod_eq_mult_div)
qed

text \<open>Where the boot code keeps the vector: pointers from P on, strings from P + 2048 on.\<close>

definition argv_at :: "nat \<Rightarrow> u8 list list \<Rightarrow> boot \<Rightarrow> bool" where
  "argv_at P args b \<longleftrightarrow>
     (let m = umem (krn b) in
       argptr b = of_nat (P + 2 * length args) \<and> progptr b = of_nat (P + 2048 + taken args)
       \<and> (\<forall>i<length args. get_range m (of_nat (P + 2 * i)) 2 = le16 (of_nat (P + 2048 + taken (take i args)))
            \<and> get_range m (of_nat (P + 2048 + taken (take i args))) (length (args ! i) + 1) = args ! i @ [0]))"

definition boot_area :: "nat \<Rightarrow> kst \<Rightarrow> bool" where
  "boot_area P s \<longleftrightarrow> 0 < P \<and> unat (progbase (plat s)) \<le> P \<and> P + 4096 < 65536 \<and> u_top s = of_nat (P + 4096)"

lemma boot_area_ok:
  assumes "boot_area P s" "P \<le> x" "x + n \<le> P + 4096"
  shows "user_ok s (of_nat x) n"
proof -
  have x: "x < 65536" using assms by (simp add: boot_area_def)
  have "unat (u_top s) = P + 4096" using assms(1) by (simp add: boot_area_def unat_of_nat del: of_nat_add)
  moreover have "unat (of_nat x :: u16) = x" using x by (simp add: unat_of_nat)
  ultimately show ?thesis using assms by (auto simp: user_ok_def boot_area_def word_le_nat_alt word_unat_eq_iff)
qed

lemma add_argument_step:
  assumes area: "boot_area P (krn b)" and at: "argv_at P args b"
    and room: "2 * length args + 4 \<le> 2048" "taken (args @ [a]) \<le> 2048"
  shows "argv_at P (args @ [a]) (add_argument a b)"
    and "krn (add_argument a b) = krn b\<lparr>umem := umem (krn (add_argument a b))\<rparr>"
    and "ro (add_argument a b) = ro b" "cmdline (add_argument a b) = cmdline b"
proof -
  let ?n = "length args" and ?q = "P + 2048 + taken args" and ?v = "P + 2 * length args"
  let ?m1 = "uput_raw (a @ [0]) (of_nat ?q) (umem (krn b))"
  let ?m = "uput_raw (le16 (of_nat ?q)) (of_nat ?v) ?m1"
  have ptrs: "argptr b = of_nat ?v" "progptr b = of_nat ?q" using at by (simp_all add: argv_at_def Let_def)
  have P: "P + 4096 < 65536" using area by (simp add: boot_area_def)
  have pad: "length a + 1 \<le> padded a" "taken args + padded a \<le> 2048" using padded_bounds [of a] room(2) by simp_all
  have ok: "user_ok (krn b) (of_nat ?q) (length (a @ [0]))" "user_ok (krn b) (of_nat ?v) 2"
    using pad room(1) by (intro boot_area_ok [OF area]; simp)+
  have "snd (uput (a @ [0]) (of_nat ?q) (of_nat (length (a @ [0]))) (krn b)) = krn b\<lparr>umem := ?m1\<rparr>"
    by (rule uput_ok [OF ok(1)]) simp
  moreover have "snd (uputw (of_nat ?q) (of_nat ?v) (krn b\<lparr>umem := ?m1\<rparr>)) = krn b\<lparr>umem := ?m\<rparr>"
    using uputw_ok [of "krn b\<lparr>umem := ?m1\<rparr>" "of_nat ?v" "of_nat ?q"] ok(2) by simp
  ultimately have new: "add_argument a b = b\<lparr>krn := krn b\<lparr>umem := ?m\<rparr>, progptr := of_nat ?q + of_nat (padded a),
      argptr := of_nat ?v + 2\<rparr>"
    using step_padded [of a] by (simp add: add_argument_def Let_def ptrs)
  then show "krn (add_argument a b) = krn b\<lparr>umem := umem (krn (add_argument a b))\<rparr>"
    "ro (add_argument a b) = ro b" "cmdline (add_argument a b) = cmdline b" by simp_all
  have apart: "get_range ?m (of_nat x) n = get_range (umem (krn b)) (of_nat x) n"
    if "x + n \<le> ?v \<or> P + 2048 \<le> x" "x + n \<le> ?q" for x n
  proof -
    have "get_range ?m (of_nat x) n = get_range ?m1 (of_nat x) n"
      by (rule get_range_apart) (use that P room pad in auto)
    also have "\<dots> = get_range (umem (krn b)) (of_nat x) n"
      by (rule get_range_apart) (use that P room pad in auto)
    finally show ?thesis .
  qed
  have ptr: "get_range ?m (of_nat ?v) 2 = le16 (of_nat ?q)" using get_range_same [of "le16 (of_nat ?q)"] by simp
  have str: "get_range ?m (of_nat ?q) (length a + 1) = a @ [0]"
  proof -
    have "get_range ?m (of_nat ?q) (length a + 1) = get_range ?m1 (of_nat ?q) (length a + 1)"
      by (rule get_range_apart) (use P room pad in auto)
    then show ?thesis using get_range_same [of "a @ [0]" "of_nat ?q"] P pad by simp
  qed
  show "argv_at P (args @ [a]) (add_argument a b)"
    unfolding argv_at_def Let_def
  proof (intro conjI allI impI)
    show "argptr (add_argument a b) = of_nat (P + 2 * length (args @ [a]))"
      "progptr (add_argument a b) = of_nat (P + 2048 + taken (args @ [a]))"
      by (simp_all add: new)
  next
    fix i assume i: "i < length (args @ [a])"
    show "get_range (umem (krn (add_argument a b))) (of_nat (P + 2 * i)) 2 = le16 (of_nat (P + 2048 + taken (take i (args @ [a]))))"
      using i apart [of "P + 2 * i" 2] ptr at room by (cases "i = ?n") (simp_all add: new argv_at_def Let_def)
    show "get_range (umem (krn (add_argument a b))) (of_nat (P + 2048 + taken (take i (args @ [a]))))
        (length ((args @ [a]) ! i) + 1) = (args @ [a]) ! i @ [0]"
    proof (cases "i = ?n")
      case True
      then show ?thesis using str by (simp add: new)
    next
      case False
      then have "i < ?n" using i by simp
      moreover have "P + 2048 + taken (take i args) + (length (args ! i) + 1) \<le> ?q"
        using taken_part [OF \<open>i < ?n\<close>] padded_bounds(1) [of "args ! i"] by simp
      ultimately show ?thesis
        using at apart [of "P + 2048 + taken (take i args)" "length (args ! i) + 1"] by (simp add: new argv_at_def Let_def nth_append)
    qed
  qed
qed

text \<open>The vector once it is terminated, as rargs() reads it.\<close>

lemma argv_user_vec:
  assumes area: "boot_area P s" and n: "2 * length args + 2 \<le> 2048" "taken args \<le> 2048" "\<forall>a\<in>set args. 0 \<notin> set a"
    and mem: "\<And>i. i < length args \<Longrightarrow> get_range (umem s) (of_nat (P + 2 * i)) 2 = le16 (of_nat (P + 2048 + taken (take i args)))
        \<and> get_range (umem s) (of_nat (P + 2048 + taken (take i args))) (length (args ! i) + 1) = args ! i @ [0]"
    and z: "get_range (umem s) (of_nat (P + 2 * length args)) 2 = le16 0" and k: "k \<le> length args"
  shows "user_vec s (of_nat (P + 2 * k)) (drop k args)"
  using k
proof (induction "length args - k" arbitrary: k)
  case 0
  then have "k = length args" by simp
  moreover have "user_ok s (of_nat (P + 2 * length args)) 2" using n by (intro boot_area_ok [OF area]) simp_all
  ultimately show ?case using z rd16_le16 [of 0 "[]"] by simp
next
  case (Suc d)
  then have k: "k < length args" by simp
  let ?q = "P + 2048 + taken (take k args)"
  have P: "P + 4096 < 65536" using area by (simp add: boot_area_def)
  have q: "?q + (length (args ! k) + 1) \<le> P + 4096"
    using taken_part [OF k] padded_bounds(1) [of "args ! k"] n(2) by simp
  have "user_ok s (of_nat (P + 2 * k)) 2" "user_ok s (of_nat ?q) (length (args ! k) + 1)"
    using n(1) k q by (intro boot_area_ok [OF area]; simp)+
  moreover have "rd16 (get_range (umem s) (of_nat (P + 2 * k)) 2) 0 = of_nat ?q"
    using mem [OF k] rd16_le16 [of "of_nat ?q" "[]"] by (simp del: of_nat_add)
  moreover have "(of_nat ?q :: u16) \<noteq> 0" using q P by (simp add: word_unat_eq_iff unat_of_nat del: of_nat_add)
  moreover have "user_vec s (of_nat (P + 2 * Suc k)) (drop (Suc k) args)" using Suc.hyps Suc.prems by (intro Suc.hyps(1)) simp_all
  then have "user_vec s (of_nat (P + 2 * k) + 2) (drop (Suc k) args)" by (simp add: algebra_simps)
  ultimately show ?case using mem [OF k] k n(3) by (simp add: Cons_nth_drop_Suc [symmetric] Let_def del: of_nat_add)
qed

lemma complete_init_vec:
  assumes area: "boot_area P (krn b)" and at: "argv_at P args b" and P: "be_progload e = of_nat P"
    and room: "2 * length args + 2 \<le> 2048" "taken args \<le> 2048" "\<forall>a\<in>set args. 0 \<notin> set a"
  shows "user_vec (krn (complete_init e b)) (u_argn1 (krn (complete_init e b))) args"
    "user_vec (krn (complete_init e b)) (u_argn2 (krn (complete_init e b))) []"
    "u_argn (krn (complete_init e b)) = of_nat (P + 2048)"
    "boot_area P (krn (complete_init e b))"
    "args \<noteq> [] \<Longrightarrow> get_range (umem (krn (complete_init e b))) (u_argn (krn (complete_init e b))) (length (hd args) + 1) = hd args @ [0]"
proof -
  let ?v = "P + 2 * length args" and ?s = "krn (complete_init e b)"
  have v: "argptr b = of_nat ?v" using at by (simp add: argv_at_def Let_def)
  have ok: "user_ok (krn b) (of_nat ?v) 2" using room(1) by (intro boot_area_ok [OF area]) simp_all
  have um: "umem ?s = uput_raw (le16 0) (of_nat ?v) (umem (krn b))" "u_argn1 ?s = of_nat P" "u_argn2 ?s = of_nat ?v"
    "u_top ?s = u_top (krn b)" "plat ?s = plat (krn b)"
    and last: "u_argn ?s = of_nat (P + 2048)"
    using uputw_ok [OF ok] by (simp_all add: complete_init_def Let_def v P upd_p_def)
  show a: "boot_area P ?s" using area um(4,5) by (simp add: boot_area_def)
  have Pb: "P + 4096 < 65536" using area by (simp add: boot_area_def)
  have z: "get_range (umem ?s) (of_nat ?v) 2 = le16 0" using get_range_same [of "le16 0"] um by simp
  have keep: "get_range (umem ?s) (of_nat x) n = get_range (umem (krn b)) (of_nat x) n"
    if "x + n \<le> ?v \<or> P + 2048 \<le> x" "x + n \<le> P + 4096" for x n
    unfolding um(1) by (rule get_range_apart) (use that Pb room in auto)
  have mem: "get_range (umem ?s) (of_nat (P + 2 * i)) 2 = le16 (of_nat (P + 2048 + taken (take i args)))
        \<and> get_range (umem ?s) (of_nat (P + 2048 + taken (take i args))) (length (args ! i) + 1) = args ! i @ [0]"
    if i: "i < length args" for i
  proof -
    have "P + 2048 + taken (take i args) + (length (args ! i) + 1) \<le> P + 4096"
      using taken_part [OF i] padded_bounds(1) [of "args ! i"] room(2) by simp
    then show ?thesis
      using i at room keep [of "P + 2 * i" 2] keep [of "P + 2048 + taken (take i args)" "length (args ! i) + 1"]
      by (simp add: argv_at_def Let_def)
  qed
  show "user_vec ?s (u_argn1 ?s) args"
    using argv_user_vec [OF a room mem z, of 0] um(2) by simp
  show "user_vec ?s (u_argn2 ?s) []"
    using argv_user_vec [OF a room mem z, of "length args"] um(3) by simp
  show "u_argn ?s = of_nat (P + 2048)" by (rule last)
  show "get_range (umem ?s) (u_argn ?s) (length (hd args) + 1) = hd args @ [0]" if "args \<noteq> []"
    using mem [of 0] that last by (simp add: hd_conv_nth)
qed

subsection \<open>The words of a boot line\<close>

text \<open>The words as parse\_args() splits them; after trailing blanks there is an empty one.\<close>

lemma rest_shorter:
  assumes "p \<noteq> []"
  shows "length (tl (dropWhile (Not \<circ> blank) (dropWhile blank p))) < length p"
proof -
  have "length (dropWhile (Not \<circ> blank) (dropWhile blank p)) \<le> length p"
    using length_dropWhile_le [of "Not \<circ> blank" "dropWhile blank p"] length_dropWhile_le [of blank p] by simp
  moreover have "0 < length p" using assms by simp
  ultimately show ?thesis by (simp only: length_tl)
qed

function boot_words :: "u8 list \<Rightarrow> u8 list list" where
  "boot_words p =
     (if p = [] then []
      else
        let p1 = dropWhile blank p; p2 = dropWhile (Not \<circ> blank) p1
        in takeWhile (Not \<circ> blank) p1 # boot_words (tl p2))"
  by pat_completeness auto

termination boot_words
  by (relation "measure length") (auto simp del: length_tl intro!: rest_shorter)

declare boot_words.simps [simp del]

definition is_ro :: "u8 list \<Rightarrow> bool" where
  "is_ro w \<longleftrightarrow> at w 0 = 0x72 \<and> at w 2 = 0 \<and> at w 1 = 0x6F"

definition is_rw :: "u8 list \<Rightarrow> bool" where
  "is_rw w \<longleftrightarrow> at w 0 = 0x72 \<and> at w 2 = 0 \<and> at w 1 = 0x77"

text \<open>The words that become arguments of /init, where the platform takes the words \<open>known\<close>.\<close>

definition boot_arg :: "(u8 list \<Rightarrow> bool) \<Rightarrow> u8 list \<Rightarrow> bool" where
  "boot_arg known w \<longleftrightarrow> \<not> is_ro w \<and> \<not> is_rw w \<and> \<not> known w"

definition boot_word :: "(u8 list \<Rightarrow> bool) \<Rightarrow> u8 list \<Rightarrow> boot \<Rightarrow> boot" where
  "boot_word known w b = (if is_ro w then b\<lparr>ro := 1\<rparr> else if is_rw w then b\<lparr>ro := 0\<rparr>
     else if known w then b else add_argument w b)"

lemma parse_args_words:
  assumes "be_param e = (\<lambda>p s. (known p, s))"
  shows "snd (parse_args e p b) = fold (boot_word known) (boot_words p) b"
proof (induction "length p" arbitrary: p b rule: less_induct)
  case less
  show ?case
  proof (cases "p = []")
    case True
    then show ?thesis by (simp add: parse_args.simps boot_words.simps)
  next
    case False
    let ?p1 = "dropWhile blank p"
    let ?w = "takeWhile (Not \<circ> blank) ?p1" and ?p2 = "dropWhile (Not \<circ> blank) ?p1"
    obtain k c where sp: "system_param e ?w b = (k, c)" by (cases "system_param e ?w b") blast
    have param: "boot_word known ?w b = (if k then c else add_argument ?w c)"
      using sp assms by (auto simp: system_param_def boot_word_def is_ro_def is_rw_def split: if_splits)
    have short: "length (tl ?p2) < length p"
      by (rule rest_shorter [OF False])
    have "snd (parse_args e p b) = snd (parse_args e (tl ?p2) (boot_word known ?w b))"
      unfolding param by (cases ?p2)
        (simp_all only: parse_args.simps [of e p b] False if_False Let_def sp prod.case list.case case_prod_beta
          fst_conv snd_conv list.sel)
    also have "\<dots> = fold (boot_word known) (boot_words (tl ?p2)) (boot_word known ?w b)"
      by (rule less [OF short])
    finally show ?thesis using False by (subst boot_words.simps) (simp add: Let_def)
  qed
qed

text \<open>A word contains none of the characters that end words, and no 0 where the line has none.\<close>

lemma boot_words_chars: "w \<in> set (boot_words p) \<Longrightarrow> c \<in> set w \<Longrightarrow> c \<in> set p \<and> \<not> blank c"
proof (induction "length p" arbitrary: p rule: less_induct)
  case less
  then have ne: "p \<noteq> []" by (auto simp: boot_words.simps)
  let ?p1 = "dropWhile blank p"
  let ?w = "takeWhile (Not \<circ> blank) ?p1" and ?p2 = "dropWhile (Not \<circ> blank) ?p1"
  have "set (tl xs) \<subseteq> set xs" for xs :: "u8 list" by (cases xs) auto
  from this [of ?p2] have sub: "set ?p1 \<subseteq> set p" "set (tl ?p2) \<subseteq> set ?p1"
    using set_dropWhileD [of _ blank p] set_dropWhileD [of _ "Not \<circ> blank" ?p1] by blast+
  have "w = ?w \<or> w \<in> set (boot_words (tl ?p2))"
    using less.prems(1) ne by (subst (asm) boot_words.simps) (simp add: Let_def)
  then show ?case
  proof
    assume "w = ?w"
    then show ?thesis using less.prems(2) sub(1) by (auto dest: set_takeWhileD)
  next
    assume w: "w \<in> set (boot_words (tl ?p2))"
    have "length (tl ?p2) < length p"
      by (rule rest_shorter [OF ne])
    then show ?thesis using less.hyps [OF _ w less.prems(2)] sub by blast
  qed
qed

lemma fold_words:
  assumes "boot_area P (krn b)" "argv_at P args b"
    and "2 * length (args @ filter (boot_arg known) ws) + 2 \<le> 2048"
    and "taken (args @ filter (boot_arg known) ws) \<le> 2048"
  shows "argv_at P (args @ filter (boot_arg known) ws) (fold (boot_word known) ws b)
    \<and> (\<exists>m. krn (fold (boot_word known) ws b) = krn b\<lparr>umem := m\<rparr>)
    \<and> cmdline (fold (boot_word known) ws b) = cmdline b"
  using assms
proof (induction ws arbitrary: args b)
  case Nil
  have "\<exists>m. krn b = krn b\<lparr>umem := m\<rparr>" by (rule exI [of _ "umem (krn b)"]) simp
  with Nil show ?case by simp
next
  case (Cons w ws)
  let ?b = "boot_word known w b"
  let ?args = "if boot_arg known w then args @ [w] else args"
  have step: "argv_at P ?args ?b \<and> (\<exists>m. krn ?b = krn b\<lparr>umem := m\<rparr>) \<and> cmdline ?b = cmdline b"
  proof (cases "boot_arg known w")
    case True
    then have r: "2 * length args + 4 \<le> 2048" "taken (args @ [w]) \<le> 2048"
      using Cons.prems(3,4) by (simp_all add: taken_def)
    have "?b = add_argument w b" using True by (simp add: boot_word_def boot_arg_def)
    then show ?thesis using add_argument_step [OF Cons.prems(1,2) r] True by auto
  next
    case False
    have "\<exists>m. krn b = krn b\<lparr>umem := m\<rparr>" by (rule exI [of _ "umem (krn b)"]) simp
    then show ?thesis using False Cons.prems(2) by (auto simp: boot_word_def boot_arg_def argv_at_def)
  qed
  have eq: "?args @ filter (boot_arg known) ws = args @ filter (boot_arg known) (w # ws)" by simp
  have area: "boot_area P (krn ?b)" using step Cons.prems(1) by (auto simp: boot_area_def)
  obtain m where m: "krn ?b = krn b\<lparr>umem := m\<rparr>" using step by blast
  have IH: "argv_at P (args @ filter (boot_arg known) (w # ws)) (fold (boot_word known) ws ?b)
    \<and> (\<exists>m. krn (fold (boot_word known) ws ?b) = krn ?b\<lparr>umem := m\<rparr>)
    \<and> cmdline (fold (boot_word known) ws ?b) = cmdline ?b"
    using Cons.IH [OF area, of ?args] step Cons.prems(3,4) eq by simp
  have shape: "\<exists>m. krn (fold (boot_word known) ws ?b) = krn b\<lparr>umem := m\<rparr>" using IH m by auto
  show ?case using IH step shape by simp
qed

text \<open>The words are not longer than the line.\<close>

lemma boot_words_length: "p \<noteq> [] \<Longrightarrow> (\<Sum>w\<leftarrow>boot_words p. length w + 1) \<le> length p + 1"
proof (induction "length p" arbitrary: p rule: less_induct)
  case less
  let ?p1 = "dropWhile blank p"
  let ?w = "takeWhile (Not \<circ> blank) ?p1" and ?p2 = "dropWhile (Not \<circ> blank) ?p1"
  have w: "(\<Sum>w\<leftarrow>boot_words p. length w + 1) = length ?w + 1 + (\<Sum>w\<leftarrow>boot_words (tl ?p2). length w + 1)"
    using less.prems by (subst boot_words.simps) (simp add: Let_def)
  have len: "length ?w + length ?p2 \<le> length p"
    using length_dropWhile_le [of blank p] by (metis length_append takeWhile_dropWhile_id)
  show ?case
  proof (cases "tl ?p2 = []")
    case True
    then show ?thesis using w len by (simp add: boot_words.simps)
  next
    case False
    then have "Suc (length (tl ?p2)) = length ?p2" by (cases ?p2) simp_all
    then show ?thesis using less.hyps [OF rest_shorter [OF less.prems] False] w len by linarith
  qed
qed

lemma filter_sum: "(\<Sum>w\<leftarrow>filter P ws. f w) \<le> (\<Sum>w\<leftarrow>ws. f w :: nat)"
  by (induction ws) auto

lemma boot_args_fit:
  fixes known :: "u8 list \<Rightarrow> bool"
  assumes "length p \<le> 240"
  defines "args \<equiv> init_name # filter (boot_arg known) (boot_words p)"
  shows "2 * length args + 2 \<le> 2048" "taken args \<le> 2048" "length (flat args) \<le> 500"
proof -
  let ?S = "\<Sum>w\<leftarrow>filter (boot_arg known) (boot_words p). length w + 1"
  have "(\<Sum>w\<leftarrow>boot_words p. length w + 1) \<le> length p + 1"
    using boot_words_length [of p] by (cases "p = []") (simp_all add: boot_words.simps)
  then have S: "?S \<le> 241" using filter_sum [of "\<lambda>w. length w + 1" "boot_arg known" "boot_words p"] assms(1) by linarith
  have "length ws \<le> (\<Sum>w\<leftarrow>ws. length w + 1)" "taken ws \<le> 4 * (\<Sum>w\<leftarrow>ws. length w + 1)"
    "length (flat ws) = (\<Sum>w\<leftarrow>ws. length w + 1)" for ws
    by (induction ws) (auto simp: taken_def padded_def flat_def)
  from this [of "filter (boot_arg known) (boot_words p)"] S
  show "2 * length args + 2 \<le> 2048" "taken args \<le> 2048" "length (flat args) \<le> 500"
    by (simp_all add: args_def taken_def padded_def init_name_def)
qed

lemma argv_at_start:
  assumes "boot_area P (krn b)" "argptr b = of_nat P" "progptr b = of_nat (P + 2048)"
  shows "argv_at P [init_name] (add_argument init_name b)" "\<exists>m. krn (add_argument init_name b) = krn b\<lparr>umem := m\<rparr>"
    "cmdline (add_argument init_name b) = cmdline b" "ro (add_argument init_name b) = ro b"
proof -
  have at: "argv_at P [] b" using assms by (simp add: argv_at_def)
  have "taken ([] @ [init_name]) \<le> 2048" by (simp add: taken_def padded_def init_name_def)
  from add_argument_step [OF assms(1) at _ this]
  show "argv_at P [init_name] (add_argument init_name b)" "\<exists>m. krn (add_argument init_name b) = krn b\<lparr>umem := m\<rparr>"
    "cmdline (add_argument init_name b) = cmdline b" "ro (add_argument init_name b) = ro b" by auto
qed

lemma boot_vector:
  assumes area: "boot_area P (krn b)" and at: "argv_at P [init_name] b"
    and e: "be_param e = (\<lambda>p s. (known p, s))" and p: "length p \<le> 240" "0 \<notin> set p"
  defines "args \<equiv> init_name # filter (boot_arg known) (boot_words p)"
  shows "argv_at P args (snd (parse_args e p b))" "\<exists>m. krn (snd (parse_args e p b)) = krn b\<lparr>umem := m\<rparr>"
    "cmdline (snd (parse_args e p b)) = cmdline b" "\<forall>a\<in>set args. 0 \<notin> set a"
proof -
  note fit = boot_args_fit [OF p(1), of known, folded args_def]
  have eq: "[init_name] @ filter (boot_arg known) (boot_words p) = args" by (simp add: args_def)
  have "argv_at P args (fold (boot_word known) (boot_words p) b)
    \<and> (\<exists>m. krn (fold (boot_word known) (boot_words p) b) = krn b\<lparr>umem := m\<rparr>)
    \<and> cmdline (fold (boot_word known) (boot_words p) b) = cmdline b"
    using fold_words [OF area at, of known "boot_words p"] fit unfolding eq by blast
  then show "argv_at P args (snd (parse_args e p b))" "\<exists>m. krn (snd (parse_args e p b)) = krn b\<lparr>umem := m\<rparr>"
    "cmdline (snd (parse_args e p b)) = cmdline b"
    unfolding parse_args_words [OF e] by simp_all
  show "\<forall>a\<in>set args. 0 \<notin> set a"
    using p(2) boot_words_chars [of _ p 0] by (auto simp: args_def init_name_def)
qed

subsection \<open>Which device a boot line names\<close>

text \<open>BOOTDEVICENAMES as a list: a name and whether a drive letter follows it (\<^verbatim>\<open>#\<close>). The number of the driver counts
  from \<open>b\<close> in steps of 0x100. The first name that begins the line (case does not matter) is taken; the answer is the
  length of the name, the minor number so far and whether there was one, None where a letter is missing.\<close>

definition letter_at :: "u8 list \<Rightarrow> nat \<Rightarrow> u16 \<Rightarrow> (nat \<times> u16 \<times> bool) option" where
  "letter_at dev k b = (let c = lower (at dev k) in
     if c < 0x61 \<or> c > 0x70 then None else Some (k + 1, b + push_bit 4 (ucast (c - 0x61)), True))"

fun boot_pick :: "u8 list \<Rightarrow> (u8 list \<times> bool) list \<Rightarrow> u16 \<Rightarrow> (nat \<times> u16 \<times> bool) option" where
  "boot_pick dev [] b = Some (0, 0, False)"
| "boot_pick dev ((n, h) # rest) b =
     (if map lower (take (length n) dev) = n \<and> h then letter_at dev (length n) b
      else if map lower (take (length n) dev) = n \<and> (n \<noteq> [] \<or> rest = []) then Some (length n, b, True)
      else boot_pick dev rest (b + 0x100))"

fun names_text :: "(u8 list \<times> bool) list \<Rightarrow> u8 list" where
  "names_text [] = []"
| "names_text [(n, h)] = n @ (if h then [0x23] else [])"
| "names_text ((n, h) # rest) = n @ (if h then [0x23] else []) @ 0x2C # names_text rest"

definition plain_name :: "u8 list \<Rightarrow> bool" where
  "plain_name n \<longleftrightarrow> 0 \<notin> set n \<and> 0x2C \<notin> set n \<and> 0x23 \<notin> set n"

definition outcome :: "nat \<times> u16 \<times> bool \<Rightarrow> nat \<times> u16 \<times> bool" where
  "outcome r = (if snd (snd r) then r else (0, 0, False))"

lemma outcome_simps [simp]: "outcome (p, b, True) = (p, b, True)" "outcome (p, b, False) = (0, 0, False)"
  by (simp_all add: outcome_def)

lemma lower_zero [simp]: "lower 0 = 0"
  by (simp add: lower_def)

lemma match_plain:
  "plain_name n \<Longrightarrow> match_names dev (n @ rest) p b m
     = match_names dev rest (p + length n) b (m \<and> map lower (take (length n) (drop p dev)) = n)"
proof (induction n arbitrary: p m)
  case Nil
  then show ?case by simp
next
  case (Cons c n)
  have c: "c \<noteq> 0" "c \<noteq> 0x2C" "c \<noteq> 0x23" "plain_name n" using Cons.prems by (auto simp: plain_name_def)
  have "match_names dev ((c # n) @ rest) p b m = match_names dev (n @ rest) (p + 1) b (m \<and> lower (at dev p) = c)"
    using c by (simp add: Let_def)
  also have "\<dots> = match_names dev rest (p + 1 + length n) b
      ((m \<and> lower (at dev p) = c) \<and> map lower (take (length n) (drop (p + 1) dev)) = n)"
    by (rule Cons.IH [OF c(4)])
  also have "((m \<and> lower (at dev p) = c) \<and> map lower (take (length n) (drop (p + 1) dev)) = n)
      \<longleftrightarrow> (m \<and> map lower (take (length (c # n)) (drop p dev)) = c # n)"
  proof (cases "p < length dev")
    case True
    then have "drop p dev = dev ! p # drop (p + 1) dev" by (simp add: Cons_nth_drop_Suc)
    then show ?thesis using True by (simp add: at_def)
  next
    case False
    then show ?thesis using c(1) by (auto simp: at_def)
  qed
  finally show ?case by simp
qed

lemma pick_matched:
  assumes "M = (map lower (take (length n) dev) = n)"
  shows "boot_pick dev ((n, h) # rest) b =
     (if M \<and> h then letter_at dev (length n) b else if M \<and> (n \<noteq> [] \<or> rest = []) then Some (length n, b, True)
      else boot_pick dev rest (b + 0x100))"
  by (simp add: assms)

lemma match_spec:
  "names \<noteq> [] \<Longrightarrow> \<forall>(n, h)\<in>set names. plain_name n \<Longrightarrow>
     map_option outcome (match_names dev (names_text names) 0 b True) = boot_pick dev names b"
proof (induction names arbitrary: b rule: names_text.induct)
  case 1
  then show ?case by simp
next
  case (2 n h)
  define M where "M = (map lower (take (length n) dev) = n)"
  have "match_names dev (names_text [(n, h)]) 0 b True = match_names dev (if h then [0x23] else []) (length n) b M"
    using match_plain [of n dev "if h then [0x23] else []" 0 b True] 2 by (simp only: M_def) simp
  then show ?case unfolding pick_matched [OF M_def]
    by (cases M; cases h) (auto simp del: names_text.simps simp: Let_def letter_at_def)
next
  case (3 n h m rest)
  define M where "M = (map lower (take (length n) dev) = n)"
  define T where "T = names_text (m # rest)"
  have IH: "map_option outcome (match_names dev T 0 (b + 0x100) True) = boot_pick dev (m # rest) (b + 0x100)"
    using 3 by (auto simp: T_def)
  have "match_names dev (names_text ((n, h) # m # rest)) 0 b True
      = match_names dev ((if h then [0x23] else []) @ 0x2C # T) (length n) b M"
    using match_plain [of n dev "(if h then [0x23] else []) @ 0x2C # T" 0 b True] 3(3) by (simp add: M_def T_def)
  then show ?case unfolding pick_matched [OF M_def] using IH
    by (cases M; cases h) (auto simp del: names_text.simps boot_pick.simps simp: Let_def letter_at_def)
qed

text \<open>What a line asks for: a name, an optional number, and then the end of the line or a blank.\<close>

definition boot_choice :: "(u8 list \<times> bool) list \<Rightarrow> u8 list \<Rightarrow> u16" where
  "boot_choice names line =
     (let dev = dropWhile (\<lambda>c. c = 0x20) line in
      case boot_pick dev names 0 of
        None \<Rightarrow> BAD_ROOT_DEV
      | Some (p, b, found) \<Rightarrow>
          let ds = takeWhile digit (drop p dev); c = at (dropWhile digit (drop p dev)) 0
          in if c \<in> {0, 0x0A, 0x0D, 0x20} \<and> (found \<or> ds \<noteq> []) then b + number ds else BAD_ROOT_DEV)"

lemma bootdevice_choice:
  assumes "be_names e = names_text names" "names \<noteq> []" "\<forall>(n, h)\<in>set names. plain_name n"
  shows "fst (fst (bootdevice e line st)) = boot_choice names line"
proof -
  let ?dev = "dropWhile (\<lambda>c. c = 0x20) line"
  note spec = match_spec [OF assms(2,3), of ?dev 0, folded assms(1)]
  show ?thesis
  proof (cases "match_names ?dev (be_names e) 0 0 True")
    case None
    then have "boot_pick ?dev names 0 = None" using spec by simp
    with None show ?thesis by (simp add: bootdevice_def boot_choice_def Let_def)
  next
    case (Some r)
    obtain p b m where r: "r = (p, b, m)" by (cases r) auto
    have "boot_pick ?dev names 0 = Some (outcome (p, b, m))" using spec Some r by simp
    with Some r show ?thesis
      by (cases m) (auto simp: bootdevice_def boot_choice_def Let_def case_prod_beta split: if_splits)
  qed
qed

text \<open>The part of the line that parse\_args() gets.\<close>

definition boot_tail :: "(u8 list \<times> bool) list \<Rightarrow> u8 list \<Rightarrow> u8 list" where
  "boot_tail names line =
     (let dev = dropWhile (\<lambda>c. c = 0x20) line in
      case boot_pick dev names 0 of
        None \<Rightarrow> []
      | Some (p, b, found) \<Rightarrow> let rest = dropWhile digit (drop p dev) in if at rest 0 = 0x20 then rest else [])"

lemma bootdevice_state:
  assumes "be_names e = names_text names" "names \<noteq> []" "\<forall>(n, h)\<in>set names. plain_name n"
  shows "snd (bootdevice e line st) = snd (parse_args e (boot_tail names line) st)"
proof -
  let ?dev = "dropWhile (\<lambda>c. c = 0x20) line"
  note spec = match_spec [OF assms(2,3), of ?dev 0, folded assms(1)]
  have none: "parse_args e [] st = ([], st)" by (simp add: parse_args.simps)
  show ?thesis
  proof (cases "match_names ?dev (be_names e) 0 0 True")
    case None
    then have "boot_pick ?dev names 0 = None" using spec by simp
    with None show ?thesis by (simp add: bootdevice_def boot_tail_def none)
  next
    case (Some r)
    obtain p b m where r: "r = (p, b, m)" by (cases r) auto
    have "boot_pick ?dev names 0 = Some (outcome (p, b, m))" using spec Some r by simp
    with Some r show ?thesis
      by (cases m) (auto simp: bootdevice_def boot_tail_def Let_def case_prod_beta none split: if_splits)
  qed
qed

lemma boot_tail_part: "length (boot_tail names line) \<le> length line" "set (boot_tail names line) \<subseteq> set line"
proof -
  let ?dev = "dropWhile (\<lambda>c. c = 0x20) line"
  have "length (dropWhile digit (drop p ?dev)) \<le> length line" for p
    using length_dropWhile_le [of digit "drop p ?dev"] length_dropWhile_le [of "\<lambda>c. c = 0x20" line] by simp
  moreover have "set (dropWhile digit (drop p ?dev)) \<subseteq> set line" for p
    by (meson in_set_dropD set_dropWhileD subsetI)
  ultimately show "length (boot_tail names line) \<le> length line" "set (boot_tail names line) \<subseteq> set line"
    by (auto simp: boot_tail_def Let_def split: option.splits)
qed

subsection \<open>Properties of the boot line\<close>

text \<open>A port without memory management of its own and without boot options: names "hd#,fd", the program area from 0x100.\<close>

definition sample_env :: boot_env where
  "sample_env = \<lparr>be_names = [0x68, 0x64, 0x23, 0x2C, 0x66, 0x64], be_param = (\<lambda>p s. (False, s)),
     be_pmalloc = (\<lambda>p s. (0, s)), be_pagemap_init = (\<lambda>s. s), be_map_init = (\<lambda>s. s), be_device_init = (\<lambda>s. s),
     be_discard = (\<lambda>s. s), be_ttydev = 513, be_progload = 0x100, be_bootline = 0xE000, be_tickspersec = 50,
     be_ptabsize = 4\<rparr>"

definition sample_names :: "(u8 list \<times> bool) list" where
  "sample_names = [([0x68, 0x64], True), ([0x66, 0x64], False)]"

definition sample_boot :: boot where
  "sample_boot = \<lparr>krn = sample\<lparr>u_top := 0x1100\<rparr>, ro = 0, progptr = 0x900, argptr = 0x100, cmdline = None\<rparr>"


lemma boot_examples:
  "boot_choice sample_names [0x68, 0x64, 0x61] = 0x0000"
  "boot_choice sample_names [0x68, 0x64, 0x61, 0x31] = 0x0001"
  "boot_choice sample_names [0x20, 0x48, 0x44, 0x43, 0x33, 0x0A] = 0x0023"
  "boot_choice sample_names [0x66, 0x64, 0x31, 0x35] = 0x010F"
  "boot_choice sample_names [0x31, 0x37] = 0x0011"
  "boot_choice sample_names [0x68, 0x64, 0x7A] = BAD_ROOT_DEV"
  "boot_choice sample_names [0x78] = BAD_ROOT_DEV"
  by code_simp+


text \<open>When the list of names ends in a comma, the empty last name matches every line: a number alone does not name
  the device of that number.\<close>

lemma trailing_comma_shifts: "boot_choice (sample_names @ [([], False)]) [0x31, 0x37] = 0x0211"
  by code_simp

text \<open>A blank at the end of the line makes an empty argument.\<close>

lemma trailing_blank_argument: "boot_words [0x20, 0x78, 0x20, 0x20] = [[0x78], []]"
  by (simp add: boot_words.simps blank_def)

text \<open>The words of the boot line arrive in /init. After create\_init() has put "/init" there, parse\_args() on a line of at most
  240 characters and complete\_init() leave in user memory exactly the vector of strings that execve reads: its path
  is "/init", its arguments are "/init" and the words of the line in order, without ro, rw and the words the platform
  keeps for itself, and its environment is empty.\<close>

theorem init_args_delivered:
  fixes known :: "u8 list \<Rightarrow> bool" and p :: "u8 list"
  defines "args \<equiv> init_name # filter (boot_arg known) (boot_words p)"
  assumes "boot_area P (krn b)" and "argptr b = of_nat P" and "progptr b = of_nat (P + 2048)"
    and "be_param e = (\<lambda>p s. (known p, s))" and "be_progload e = of_nat P" and "length p \<le> 240" and "0 \<notin> set p"
    and "s = krn (complete_init e (snd (parse_args e p (add_argument init_name b))))"
  shows "rargs (u_argn1 s) s = (Some \<lparr>a_argc = length args, a_arglen = length (flat args), a_buf = flat args\<rparr>, s)
    \<and> rargs (u_argn2 s) s = (Some \<lparr>a_argc = 0, a_arglen = 0, a_buf = []\<rparr>, s)
    \<and> get_range (umem s) (u_argn s) 6 = init_name @ [0]"
proof -
  let ?b = "add_argument init_name b" and ?c = "snd (parse_args e p (add_argument init_name b))"
  note start = argv_at_start [OF assms(2-4)]
  have area: "boot_area P (krn ?b)" using start(2) assms(2) by (auto simp: boot_area_def)
  note vec = boot_vector [OF area start(1) assms(5,7,8), folded args_def]
  note fit = boot_args_fit [OF assms(7), of known, folded args_def]
  have area2: "boot_area P (krn ?c)" using vec(2) area by (auto simp: boot_area_def)
  note fin = complete_init_vec [OF area2 vec(1) assms(6) fit(1,2) vec(4), folded assms(9)]
  have "rargs (u_argn1 s) s = (Some \<lparr>a_argc = length args, a_arglen = length (flat args), a_buf = flat args\<rparr>, s)"
    using rargs_loop_ok [OF fin(1), of "[]" 0] fit(3) by (simp add: rargs_def)
  moreover have "rargs (u_argn2 s) s = (Some \<lparr>a_argc = 0, a_arglen = 0, a_buf = []\<rparr>, s)"
    using rargs_loop_ok [OF fin(2), of "[]" 0] by (simp add: rargs_def)
  moreover have "get_range (umem s) (u_argn s) 6 = init_name @ [0]" using fin(5) unfolding args_def by (simp add: init_name_def eval_nat_numeral)
  ultimately show ?thesis by blast
qed

theorem init_args_delivered_witness:
  "\<exists>s. s = krn (complete_init sample_env (snd (parse_args sample_env [0x20, 0x72, 0x6F, 0x20, 0x78] (add_argument init_name sample_boot))))
     \<and> fst (rargs (u_argn1 s) s) = Some \<lparr>a_argc = 2, a_arglen = 8, a_buf = [0x2F, 0x69, 0x6E, 0x69, 0x74, 0, 0x78, 0]\<rparr>"
proof -
  define s where "s = krn (complete_init sample_env (snd (parse_args sample_env [0x20, 0x72, 0x6F, 0x20, 0x78] (add_argument init_name sample_boot))))"
  have "boot_area 256 (krn sample_boot)" by (simp add: boot_area_def sample_boot_def sample_def sample_plat_def)
  moreover have "filter (boot_arg (\<lambda>_. False)) (boot_words [0x20, 0x72, 0x6F, 0x20, 0x78]) = [[0x78]]"
    by (simp add: boot_words.simps blank_def boot_arg_def is_ro_def is_rw_def at_def)
  ultimately have "fst (rargs (u_argn1 s) s) = Some \<lparr>a_argc = 2, a_arglen = 8, a_buf = [0x2F, 0x69, 0x6E, 0x69, 0x74, 0, 0x78, 0]\<rparr>"
    using init_args_delivered [of 256 sample_boot sample_env "\<lambda>_. False" "[0x20, 0x72, 0x6F, 0x20, 0x78]" s]
    by (simp add: sample_boot_def sample_env_def init_name_def s_def)
  then show ?thesis unfolding s_def [symmetric] by blast
qed

end
