(* ===== verification/Mkfs.thy ===== *)
theory Mkfs
  imports InodeSpec Directory
begin

text \<open>
  Standalone/mkfs.c with the byte swapping of Standalone/util.c: making an empty file system. The medium is a map from
  block numbers to blocks; \<open>dok\<close> says for which blocks write(2) succeeds (dwrite() ends the program otherwise,
  as swizzle16() does for a number that is too large: None). The structures are those of the kernel, laid out in the same way.
  dwrite() always takes 512 bytes, and so reads past the end of a shorter structure: \<open>junk\<close> is what
  follows \<open>fs_super\<close> in memory.
\<close>

subsection \<open>Byte order\<close>

definition swizzle16 :: "bool \<Rightarrow> u32 \<Rightarrow> u16 option" where
  "swizzle16 swizzling v =
     (let hi = v AND 0xFFFF0000 in
      if hi \<noteq> 0 \<and> hi \<noteq> 0xFFFF0000 then None
      else Some (if swizzling then ucast (push_bit 8 (v AND 0xFF) OR drop_bit 8 (v AND 0xFF00)) else ucast v))"

definition swizzle32 :: "bool \<Rightarrow> u32 \<Rightarrow> u32" where
  "swizzle32 swizzling v =
     (if \<not> swizzling then v
      else push_bit 24 (v AND 0xFF) OR push_bit 8 (v AND 0xFF00) OR drop_bit 8 (v AND 0xFF0000)
        OR drop_bit 24 (v AND 0xFF000000))"

subsection \<open>Memory and medium\<close>

text \<open>The 512 bytes from an address in memory on, where a structure is followed by \<open>junk\<close>.\<close>

definition mem512 :: "u8 list \<Rightarrow> block \<Rightarrow> block" where
  "mem512 bs junk = (\<lambda>i. if i < length bs then bs ! i else junk (i - length bs))"

type_synonym image = "u16 \<Rightarrow> block"

definition dwrite :: "(u16 \<Rightarrow> bool) \<Rightarrow> u16 \<Rightarrow> block \<Rightarrow> image \<Rightarrow> image option" where
  "dwrite dok blk addr img = (if dok blk then Some (img(blk := addr)) else None)"

definition pad30 :: "u8 list \<Rightarrow> u8 list" where
  "pad30 name = name @ replicate (30 - length name) 0"

definition zero_dinode :: dinode where
  "zero_dinode = \<lparr>i_mode = 0, i_nlink = 0, i_uid = 0, i_gid = 0, i_size = 0, i_atime = 0, i_mtime = 0, i_ctime = 0,
     i_addr = replicate 20 0\<rparr>"

text \<open>What the C initialisers leave in the globals: \<open>fs_super\<close> and \<open>inode\<close> are zero, \<open>dirbuf\<close> has two names.\<close>

definition fs_super :: filesys where
  "fs_super = \<lparr>s_mounted = 0, s_isize = 0, s_fsize = 0, s_nfree = 0, s_free = replicate 50 0, s_ninode = 0,
     s_inode = replicate 50 0, s_fmod = 0, s_timeh = 0, s_time = 0, s_tfree = 0, s_tinode = 0, s_mntpt = None\<rparr>"

definition inode :: "dinode list" where
  "inode = replicate 8 zero_dinode"

definition dirbuf :: "direct list" where
  "dirbuf = \<lparr>d_ino = 1, d_name = pad30 [0x2E]\<rparr> # \<lparr>d_ino = 1, d_name = pad30 [0x2E, 0x2E]\<rparr>
     # replicate 62 \<lparr>d_ino = 0, d_name = pad30 []\<rparr>"

subsection \<open>mkfs()\<close>

text \<open>One turn of the loop that frees the data blocks.\<close>

definition add_free ::
    "bool \<Rightarrow> (u16 \<Rightarrow> bool) \<Rightarrow> block \<Rightarrow> nat \<Rightarrow> filesys \<times> image \<Rightarrow> (filesys \<times> image) option" where
  "add_free sw dok junk j = (\<lambda>(f, img). do {
     n \<leftarrow> swizzle16 sw (ucast (s_nfree f));
     (f, img) \<leftarrow> (if n = 50 then do {
         img \<leftarrow> dwrite dok (of_nat j) (mem512 (drop 6 (filesys_bytes 0 f)) junk) img;
         Some (f\<lparr>s_nfree := 0\<rparr>, img)
       } else Some (f, img));
     t \<leftarrow> swizzle16 sw (ucast (s_tfree f));
     t \<leftarrow> swizzle16 sw (ucast t + 1);
     n \<leftarrow> swizzle16 sw (ucast (s_nfree f));
     v \<leftarrow> swizzle16 sw (of_nat j);
     n' \<leftarrow> swizzle16 sw (ucast n + 1);
     Some (f\<lparr>s_tfree := t, s_free := (s_free f)[unat n := v], s_nfree := n'\<rparr>, img)
   })"

fun add_all_free ::
    "bool \<Rightarrow> (u16 \<Rightarrow> bool) \<Rightarrow> block \<Rightarrow> nat list \<Rightarrow> filesys \<times> image \<Rightarrow> (filesys \<times> image) option" where
  "add_all_free sw dok junk [] x = Some x"
| "add_all_free sw dok junk (j # js) x = do { x \<leftarrow> add_free sw dok junk j x; add_all_free sw dok junk js x }"

fun zero_all :: "(u16 \<Rightarrow> bool) \<Rightarrow> nat list \<Rightarrow> image \<Rightarrow> image option" where
  "zero_all dok [] img = Some img"
| "zero_all dok (j # js) img = do { img \<leftarrow> dwrite dok (of_nat j) zero_block img; zero_all dok js img }"

definition mkfs :: "bool \<Rightarrow> (u16 \<Rightarrow> bool) \<Rightarrow> block \<Rightarrow> u16 \<Rightarrow> u16 \<Rightarrow> image \<Rightarrow> image option" where
  "mkfs sw dok junk fsize isize img = do {
     img \<leftarrow> zero_all dok [0..<unat fsize] img;
     magic \<leftarrow> swizzle16 sw 12742;
     is \<leftarrow> swizzle16 sw (ucast isize);
     fs \<leftarrow> swizzle16 sw (ucast fsize);
     one \<leftarrow> swizzle16 sw 1;
     ti \<leftarrow> swizzle16 sw (8 * (ucast isize - 2) - 2);
     let f = fs_super\<lparr>s_mounted := magic, s_isize := is, s_fsize := fs, s_nfree := one,
       s_free := (s_free fs_super)[0 := 0], s_tfree := 0, s_ninode := 0, s_tinode := ti\<rparr>;
     (f, img) \<leftarrow> add_all_free sw dok junk (rev [unat isize + 1..<unat fsize]) (f, img);
     mode \<leftarrow> swizzle16 sw (0x4000 OR (0x1FF AND 0xFFF));
     nlink \<leftarrow> swizzle16 sw 3;
     let root = (inode ! 1)\<lparr>i_mode := mode, i_nlink := nlink, i_size := swizzle32 sw 64,
       i_addr := (i_addr (inode ! 1))[0 := is]\<rparr>;
     let reserved = (inode ! 0)\<lparr>i_nlink := one, i_mode := NOT 0\<rparr>;
     img \<leftarrow> dwrite dok 2 (mem512 (concat (map dinode_bytes (inode[1 := root, 0 := reserved]))) zero_block) img;
     d0 \<leftarrow> swizzle16 sw (ucast (d_ino (dirbuf ! 0)));
     d1 \<leftarrow> swizzle16 sw (ucast (d_ino (dirbuf ! 1)));
     let dirs = dirbuf[0 := (dirbuf ! 0)\<lparr>d_ino := d0\<rparr>, 1 := (dirbuf ! 1)\<lparr>d_ino := d1\<rparr>];
     img \<leftarrow> dwrite dok isize (mem512 (concat (map direct_bytes dirs)) zero_block) img;
     dwrite dok 1 (mem512 (filesys_bytes 0 f) junk) img
   }"

text \<open>main(), after the conversion of its arguments.\<close>

definition mkfs_main :: "bool \<Rightarrow> (u16 \<Rightarrow> bool) \<Rightarrow> block \<Rightarrow> u16 \<Rightarrow> u16 \<Rightarrow> image \<Rightarrow> image option" where
  "mkfs_main sw dok junk isize fsize img =
     (if fsize < 3 \<or> isize < 2 \<or> isize \<ge> fsize then None else mkfs sw dok junk fsize isize img)"

subsection \<open>Words in the order of the machine\<close>

lemma swizzle16_plain:
  assumes "v < 0x10000"
  shows "swizzle16 False v = Some (ucast v)"
proof -
  have hi: "(0xFFFF0000 :: u32) = push_bit 16 (mask 16)" by code_simp
  have "unat v < 2 ^ 16" using assms by (simp add: word_less_nat_alt)
  then have v: "take_bit 16 v = v" by (intro word_unat_eq_iff [THEN iffD2]) (simp add: unsigned_take_bit_eq take_bit_nat_eq_self)
  have "take_bit 16 v AND push_bit 16 (mask 16) = 0" by (rule bit_word_eqI) (auto simp: bit_simps)
  then show ?thesis by (simp add: swizzle16_def hi v)
qed

lemma swizzle16_ucast [simp]: "swizzle16 False (ucast (v :: u16)) = Some v"
proof -
  have "ucast v < (0x10000 :: u32)" using u16_bound [of v] by (simp add: word_less_nat_alt unat_ucast_u16)
  then show ?thesis by (simp add: swizzle16_plain ucast_down_ucast_id is_down)
qed

lemma swizzle16_nat: "j < 65536 \<Longrightarrow> swizzle16 False (of_nat j) = Some (of_nat j)"
  by (subst swizzle16_plain) (simp_all add: word_less_nat_alt unat_of_nat word_unat_eq_iff unsigned_ucast_eq
      take_bit_nat_eq_self)

lemma swizzle16_inc:
  assumes "unat (v :: u16) < 65535"
  shows "swizzle16 False (ucast v + 1) = Some (v + 1)"
proof -
  have "ucast v + 1 = (of_nat (Suc (unat v)) :: u32)" by (simp add: of_nat_unat add.commute)
  then show ?thesis using swizzle16_nat [of "Suc (unat v)"] assms by (simp add: add.commute)
qed

subsection \<open>The free list\<close>

lemma get_mem512:
  assumes "length bs = n" and "bs = take n cs"
  shows "get_bytes (mem512 cs junk) 0 n = bs"
proof (rule nth_equalityI)
  have "n \<le> length cs" using assms by (metis length_take min.absorb_iff2 min.commute)
  then show "\<And>i. i < length (get_bytes (mem512 cs junk) 0 n) \<Longrightarrow> get_bytes (mem512 cs junk) 0 n ! i = bs ! i"
    using assms(2) by (simp add: mem512_def)
qed (simp add: assms(1))

lemma free_list_mem:
  assumes "length (s_free f) = 50"
  shows "get_bytes (mem512 (drop 6 (filesys_bytes 0 f)) junk) 0 102 = free_list_bytes f"
  by (rule get_mem512) (use assms in \<open>simp_all add: filesys_bytes_def free_list_bytes_def le16_def\<close>)

text \<open>Freeing one more block puts it in front of the list.\<close>

lemma add_free_chain:
  assumes ch: "chain img (s_nfree f) (s_free f) bs" and j: "j < 65536" "of_nat j \<noteq> (0 :: u16)" "of_nat j \<notin> set bs"
    and t: "unat (s_tfree f) < 65535" and ok: "dok (of_nat j)"
  obtains n' tab' img' where
    "add_free False dok junk j (f, img) = Some (f\<lparr>s_tfree := s_tfree f + 1, s_free := tab', s_nfree := n'\<rparr>, img')"
    "chain img' n' tab' (of_nat j # bs)" "\<And>k. k \<noteq> of_nat j \<Longrightarrow> img' k = img k"
proof (cases "s_nfree f = 50")
  case True
  let ?D = "mem512 (drop 6 (filesys_bytes 0 f)) junk"
  have len: "length (s_free f) = FILESYS_TABSIZE" by (rule chain_basic [OF ch])
  then have bytes: "get_bytes ?D 0 102 = free_list_bytes f" by (intro free_list_mem) simp
  have "link_count ?D = 50" "link_table ?D = s_free f" using free_list_decode [OF len bytes] True by simp_all
  with ch True j have "chain (img(of_nat j := ?D)) 1 ((s_free f)[0 := of_nat j]) (of_nat j # bs)"
    using len by (intro chain_spill) simp_all
  moreover have "add_free False dok junk j (f, img) =
      Some (f\<lparr>s_tfree := s_tfree f + 1, s_free := (s_free f)[0 := of_nat j], s_nfree := 1\<rparr>, img(of_nat j := ?D))"
    using True ok j(1) t by (simp add: add_free_def dwrite_def swizzle16_inc swizzle16_nat swizzle16_inc [of 0, simplified])
  ultimately show ?thesis using that by auto
next
  case False
  then have n: "s_nfree f < 50" using chain_basic(2) [OF ch] by simp
  then have "unat (s_nfree f) < 65535" by (simp add: word_less_nat_alt)
  with False j(1) t have "add_free False dok junk j (f, img) = Some (f\<lparr>s_tfree := s_tfree f + 1,
      s_free := (s_free f)[unat (s_nfree f) := of_nat j], s_nfree := s_nfree f + 1\<rparr>, img)"
    by (simp add: add_free_def swizzle16_inc swizzle16_nat)
  with that chain_push [OF ch n, of "of_nat j"] show ?thesis by auto
qed

lemma area_u16: "a < b \<Longrightarrow> b < 65536 \<Longrightarrow> of_nat a \<noteq> (of_nat b :: u16)"
  by (simp add: word_unat_eq_iff unat_of_nat)

text \<open>The loop, from \<open>hi - 1\<close> down to \<open>lo\<close>: the list hands out the blocks in ascending order.\<close>

lemma add_all_free_chain:
  assumes "chain img (s_nfree f) (s_free f) []" and "s_tfree f = 0" and "0 < lo" "lo \<le> hi" "hi < 65536" and "\<And>b. dok b"
  shows "\<exists>n' tab' img'. add_all_free False dok junk (rev [lo..<hi]) (f, img)
      = Some (f\<lparr>s_tfree := of_nat (hi - lo), s_free := tab', s_nfree := n'\<rparr>, img')
    \<and> chain img' n' tab' (map of_nat [lo..<hi]) \<and> (\<forall>k. k \<notin> of_nat ` {lo..<hi} \<longrightarrow> img' k = img k)"
proof -
  have split: "add_all_free sw dok junk (xs @ ys) x =
      Option.bind (add_all_free sw dok junk xs x) (add_all_free sw dok junk ys)" for sw xs ys x
    by (induction xs arbitrary: x) (auto split: bind_splits)
  have "\<exists>n' tab' img'. add_all_free False dok junk (rev [lo + k..<hi]) (f, img)
      = Some (f\<lparr>s_tfree := of_nat (hi - (lo + k)), s_free := tab', s_nfree := n'\<rparr>, img')
    \<and> chain img' n' tab' (map of_nat [lo + k..<hi]) \<and> (\<forall>l. l \<notin> of_nat ` {lo + k..<hi} \<longrightarrow> img' l = img l)"
    if "lo + k \<le> hi" for k
    using that
  proof (induction "hi - (lo + k)" arbitrary: k)
    case 0
    then have "lo + k = hi" by simp
    with assms(1,2) show ?case by (intro exI [of _ "s_nfree f"] exI [of _ "s_free f"] exI [of _ img]) simp
  next
    case (Suc d)
    let ?j = "lo + k"
    have j: "?j < hi" using Suc.hyps(2) by simp
    obtain n' tab' img' where IH: "add_all_free False dok junk (rev [?j + 1..<hi]) (f, img)
        = Some (f\<lparr>s_tfree := of_nat (hi - (?j + 1)), s_free := tab', s_nfree := n'\<rparr>, img')"
      "chain img' n' tab' (map of_nat [?j + 1..<hi])" "\<And>l. l \<notin> of_nat ` {?j + 1..<hi} \<Longrightarrow> img' l = img l"
      using Suc.hyps(1) [of "Suc k"] Suc.hyps(2) j by fastforce
    let ?f = "f\<lparr>s_tfree := of_nat (hi - (?j + 1)), s_free := tab', s_nfree := n'\<rparr>"
    have fresh: "of_nat ?j \<notin> set (map of_nat [?j + 1..<hi] :: u16 list)"
      using area_u16 [of ?j] assms(5) by (auto simp: image_iff simp del: of_nat_Suc)
    have nz: "of_nat ?j \<noteq> (0 :: u16)" using area_u16 [of 0 ?j] assms(3,5) j by simp
    have cnt: "unat (of_nat (hi - (?j + 1)) :: u16) < 65535" using assms(3,5) j by (subst unat_of_nat) simp
    obtain n2 tab2 img2 where step: "add_free False dok junk ?j (?f, img')
        = Some (?f\<lparr>s_tfree := s_tfree ?f + 1, s_free := tab2, s_nfree := n2\<rparr>, img2)"
      "chain img2 n2 tab2 (of_nat ?j # map of_nat [?j + 1..<hi])" "\<And>l. l \<noteq> of_nat ?j \<Longrightarrow> img2 l = img' l"
      using add_free_chain [of img' ?f "map of_nat [?j + 1..<hi]" ?j dok junk] IH(2) fresh nz cnt assms(5,6) j by auto
    have frame: "img2 l = img l" if "l \<notin> of_nat ` {?j..<hi}" for l
    proof -
      have "of_nat ?j \<in> of_nat ` {?j..<hi}" "of_nat ` {?j + 1..<hi} \<subseteq> of_nat ` {?j..<hi}"
        using j by (intro imageI image_mono) auto
      then have "l \<noteq> of_nat ?j" "l \<notin> of_nat ` {?j + 1..<hi}" using that by blast+
      then show ?thesis using step(3) IH(3) by simp
    qed
    have "[?j..<hi] = ?j # [?j + 1..<hi]" "Suc (hi - Suc ?j) = hi - ?j"
      using j by (simp_all add: upt_conv_Cons)
    moreover have "(of_nat (hi - (?j + 1)) + 1 :: u16) = of_nat (Suc (hi - Suc ?j))" by (simp add: add.commute)
    ultimately show ?case using IH(1) step(1,2) frame split [of False "rev [?j + 1..<hi]" "[?j]" "(f, img)"]
      by (intro exI [of _ n2] exI [of _ tab2] exI [of _ img2]) simp
  qed
  from this [of 0] assms(4) show ?thesis by simp
qed

subsection \<open>The image\<close>

lemma zero_all_run:
  assumes "\<And>b. dok b" and "n \<le> 65536"
  shows "zero_all dok [0..<n] img = Some (\<lambda>k. if unat k < n then zero_block else img k)"
proof -
  have split: "zero_all d (xs @ ys) i = Option.bind (zero_all d xs i) (zero_all d ys)" for d xs ys i
    by (induction xs arbitrary: i) (auto split: bind_splits)
  show ?thesis using assms(2)
  proof (induction n)
    case 0
    then show ?case by simp
  next
    case (Suc n)
    have "(k = of_nat n) = (unat k = n)" for k :: u16 using Suc.prems by (auto simp: unat_of_nat)
    then show ?case using Suc assms(1) by (auto simp: split dwrite_def fun_eq_iff)
  qed
qed

lemma tinode_swizzle:
  assumes "2 < isize" "isize \<le> 8194"
  shows "swizzle16 False (8 * (ucast (isize :: u16) - 2) - 2) = Some (8 * (isize - 2) - 2)"
proof -
  let ?n = "8 * (unat isize - 2) - 2"
  have b: "2 < unat isize" "unat isize \<le> 8194" using assms by (simp_all add: word_less_nat_alt word_le_nat_alt)
  have "(ucast isize :: u32) = of_nat (unat isize)" by (simp add: of_nat_unat)
  then have "8 * ((ucast isize :: u32) - 2) - 2 = of_nat ?n" using b by (simp add: of_nat_diff)
  moreover have "8 * (isize - 2) - 2 = (of_nat ?n :: u16)" using b by (simp add: of_nat_diff)
  moreover have "?n < 65536" using b by simp
  ultimately show ?thesis by (simp add: swizzle16_nat del: of_nat_diff)
qed

text \<open>What a new file system consists of, as the kernel's decoders read it.\<close>

definition root_dinode :: "u16 \<Rightarrow> dinode" where
  "root_dinode isize = zero_dinode\<lparr>i_mode := 0x41FF, i_nlink := 3, i_size := 64, i_addr := (replicate 20 0)[0 := isize]\<rparr>"

definition reserved_dinode :: dinode where
  "reserved_dinode = zero_dinode\<lparr>i_nlink := 1, i_mode := 0xFFFF\<rparr>"

definition image_super :: "image \<Rightarrow> filesys" where
  "image_super img = filesys_of (get_bytes (img 1) 0 222)"

definition image_inode :: "image \<Rightarrow> u16 \<Rightarrow> dinode" where
  "image_inode img num = dinode_of (get_bytes (img (inode_blk num)) (inode_off num) 64)"

definition root_entries :: "u8 list" where
  "root_entries = concat (map direct_bytes dirbuf)"

text \<open>The free list the superblock holds after the loop.\<close>

definition new_super :: "u16 \<Rightarrow> u16 \<Rightarrow> u16 \<Rightarrow> u16 list \<Rightarrow> filesys" where
  "new_super fsize isize n tab = fs_super\<lparr>s_mounted := SMOUNTED, s_isize := isize, s_fsize := fsize, s_nfree := n,
     s_free := tab, s_tfree := of_nat (unat fsize - (unat isize + 1)), s_tinode := 8 * (isize - 2) - 2\<rparr>"

definition inode_block :: "u16 \<Rightarrow> block" where
  "inode_block isize = mem512 (concat (map dinode_bytes
     (reserved_dinode # root_dinode isize # replicate 6 zero_dinode))) zero_block"

lemma mkfs_run:
  assumes "2 < isize" "isize < fsize" "isize \<le> 8194"
  shows "\<exists>n tab C. mkfs_main False (\<lambda>_. True) junk isize fsize img
      = Some (C(2 := inode_block isize, isize := mem512 root_entries zero_block,
                1 := mem512 (filesys_bytes 0 (new_super fsize isize n tab)) junk))
    \<and> chain C n tab (map of_nat [unat isize + 1..<unat fsize])
    \<and> (\<forall>k. k \<notin> of_nat ` {unat isize + 1..<unat fsize} \<longrightarrow> C k = (if unat k < unat fsize then zero_block else img k))"
proof -
  let ?Z = "\<lambda>k. if unat k < unat fsize then zero_block else img k"
  let ?f = "new_super fsize isize 1 (replicate 50 0)\<lparr>s_tfree := 0\<rparr>"
  have b: "2 < unat isize" "unat isize < unat fsize" "unat fsize < 65536"
    using assms u16_bound [of fsize] by (simp_all add: word_less_nat_alt)
  have "chain ?Z 1 (replicate 50 0) (on_top 1 (replicate 50 0))" by (rule chain_end) simp_all
  then have ch: "chain ?Z (s_nfree ?f) (s_free ?f) []" by (simp add: new_super_def on_top_1)
  obtain n tab C where loop: "add_all_free False (\<lambda>_. True) junk (rev [unat isize + 1..<unat fsize]) (?f, ?Z)
      = Some (?f\<lparr>s_tfree := of_nat (unat fsize - (unat isize + 1)), s_free := tab, s_nfree := n\<rparr>, C)"
    "chain C n tab (map of_nat [unat isize + 1..<unat fsize])"
    "\<forall>k. k \<notin> of_nat ` {unat isize + 1..<unat fsize} \<longrightarrow> C k = ?Z k"
    using add_all_free_chain [OF ch, of "unat isize + 1" "unat fsize" "\<lambda>_. True" junk] b by (auto simp: new_super_def)
  have f0: "fs_super\<lparr>s_mounted := 12742, s_isize := isize, s_fsize := fsize, s_nfree := 1,
       s_free := (s_free fs_super)[0 := 0], s_tfree := 0, s_ninode := 0, s_tinode := 8 * (isize - 2) - 2\<rparr> = ?f"
  proof -
    have "(replicate 50 0)[0 := 0] = replicate 50 (0 :: u16)" by code_simp
    then show ?thesis by (simp add: new_super_def fs_super_def)
  qed
  have nums: "swizzle16 False 12742 = Some 12742" "swizzle16 False 1 = Some 1" "swizzle16 False 3 = Some 3"
    "swizzle16 False 0x41FF = Some 0x41FF" "swizzle32 False 64 = 64"
    using swizzle16_nat [of 12742] swizzle16_nat [of 1] swizzle16_nat [of 3] swizzle16_nat [of "0x41FF"]
    by (simp_all add: swizzle32_def)
  have guards: "\<not> (fsize < 3 \<or> isize < 2 \<or> isize \<ge> fsize)" using b by (simp add: word_less_nat_alt word_le_nat_alt)
  have mode: "(0x4000 OR (0x1FF AND 0xFFF) :: u32) = 0x41FF" by code_simp
  have inodes: "inode[1 := (inode ! 1)\<lparr>i_mode := 0x41FF, i_nlink := 3, i_size := 64, i_addr := (i_addr (inode ! 1))[0 := isize]\<rparr>,
      0 := (inode ! 0)\<lparr>i_nlink := 1, i_mode := NOT 0\<rparr>] = reserved_dinode # root_dinode isize # replicate 6 zero_dinode"
  proof -
    have "replicate 8 z = z # z # replicate 6 z" for z :: dinode by (simp add: numeral_eq_Suc)
    moreover have "NOT 0 = (0xFFFF :: u16)" by code_simp
    ultimately show ?thesis by (simp add: inode_def root_dinode_def reserved_dinode_def zero_dinode_def)
  qed
  have dirs: "dirbuf[0 := (dirbuf ! 0)\<lparr>d_ino := d_ino (dirbuf ! 0)\<rparr>, 1 := (dirbuf ! 1)\<lparr>d_ino := d_ino (dirbuf ! 1)\<rparr>] = dirbuf"
    by simp
  have super: "?f\<lparr>s_tfree := of_nat (unat fsize - (unat isize + 1)), s_free := tab, s_nfree := n\<rparr> = new_super fsize isize n tab"
    by (simp add: new_super_def)
  show ?thesis
    by (intro exI [of _ n] exI [of _ tab] exI [of _ C] conjI loop(2,3))
      (simp only: mkfs_main_def mkfs_def guards if_False zero_all_run [OF TrueI] u16_bound [THEN less_imp_le] nums mode
        tinode_swizzle assms swizzle16_ucast bind.bind_lunit Let_def f0 loop(1) prod.case dwrite_def if_True inodes dirs
        super inode_block_def root_entries_def)
qed

subsection \<open>A fresh file system\<close>

text \<open>An empty file system: all blocks above the root directory are free and handed out in ascending order, the root directory is inode 1
  with the entries for itself and its parent, and every other inode but the reserved one is unused. \<open>m\<close> is its state,
  0 when it is fresh.\<close>

definition empty_fs :: "u8 \<Rightarrow> u16 \<Rightarrow> u16 \<Rightarrow> image \<Rightarrow> bool" where
  "empty_fs m isize fsize img \<longleftrightarrow>
     (let f = image_super img in
       s_mounted f = SMOUNTED \<and> s_isize f = isize \<and> s_fsize f = fsize
       \<and> chain img (s_nfree f) (s_free f) (map of_nat [unat isize + 1..<unat fsize])
       \<and> s_tfree f = fsize - isize - 1 \<and> s_ninode f = 0 \<and> s_tinode f = 8 * (isize - 2) - 2
       \<and> s_fmod f = m \<and> s_mntpt f = None)
     \<and> image_inode img 0 = reserved_dinode \<and> image_inode img 1 = root_dinode isize
     \<and> (\<forall>num. 2 \<le> num \<and> unat num < 8 * (unat isize - 2) \<longrightarrow> image_inode img num = zero_dinode)
     \<and> get_bytes (img isize) 0 BLKSIZE = take BLKSIZE root_entries"

abbreviation fresh_fs :: "u16 \<Rightarrow> u16 \<Rightarrow> image \<Rightarrow> bool" where
  "fresh_fs \<equiv> empty_fs 0"

lemma mem512_nth: "i < length bs \<Longrightarrow> mem512 bs junk i = bs ! i"
  by (simp add: mem512_def)

lemma get_mem512_append:
  "length xs = off \<Longrightarrow> length ys = n \<Longrightarrow> get_bytes (mem512 (xs @ ys @ zs) junk) off n = ys"
  by (intro nth_equalityI) (auto simp: mem512_def nth_append)

lemma length_dinodes [simp]:
  "length (dinode_bytes zero_dinode) = 64" "length (dinode_bytes reserved_dinode) = 64"
  "length (dinode_bytes (root_dinode isize)) = 64"
  by (simp_all add: length_dinode_bytes zero_dinode_def reserved_dinode_def root_dinode_def)

lemma decode_dinodes [simp]:
  "dinode_of (dinode_bytes zero_dinode) = zero_dinode"
  "dinode_of (dinode_bytes reserved_dinode) = reserved_dinode"
  "dinode_of (dinode_bytes (root_dinode isize)) = root_dinode isize"
  by (rule dinode_decode, simp add: zero_dinode_def reserved_dinode_def root_dinode_def)+

lemma inode_block_slots:
  "dinode_of (get_bytes (inode_block isize) 0 64) = reserved_dinode"
  "dinode_of (get_bytes (inode_block isize) 64 64) = root_dinode isize"
  "2 \<le> k \<Longrightarrow> k < 8 \<Longrightarrow> dinode_of (get_bytes (inode_block isize) (64 * k) 64) = zero_dinode"
proof -
  let ?z = "dinode_bytes zero_dinode"
  have "get_bytes (inode_block isize) 0 64 = dinode_bytes reserved_dinode"
    unfolding inode_block_def using get_mem512_append [of "[]" 0 "dinode_bytes reserved_dinode" 64] by simp
  then show "dinode_of (get_bytes (inode_block isize) 0 64) = reserved_dinode" by simp
  have "get_bytes (inode_block isize) 64 64 = dinode_bytes (root_dinode isize)"
    unfolding inode_block_def
    using get_mem512_append [of "dinode_bytes reserved_dinode" 64 "dinode_bytes (root_dinode isize)" 64] by simp
  then show "dinode_of (get_bytes (inode_block isize) 64 64) = root_dinode isize" by simp
  show "dinode_of (get_bytes (inode_block isize) (64 * k) 64) = zero_dinode" if k: "2 \<le> k" "k < 8"
  proof -
    let ?pre = "concat (map dinode_bytes (reserved_dinode # root_dinode isize # replicate (k - 2) zero_dinode))"
    have "replicate 6 zero_dinode = replicate (k - 2) zero_dinode @ zero_dinode # replicate (7 - k) zero_dinode"
      using k by (simp flip: replicate_Suc replicate_add)
    then have "concat (map dinode_bytes (reserved_dinode # root_dinode isize # replicate 6 zero_dinode))
        = ?pre @ ?z @ concat (map dinode_bytes (replicate (7 - k) zero_dinode))" by simp
    moreover have "length (concat (map dinode_bytes (replicate n zero_dinode))) = 64 * n" for n
      by (induction n) simp_all
    then have "length ?pre = 64 * k" using k by simp
    ultimately have "get_bytes (inode_block isize) (64 * k) 64 = ?z"
      unfolding inode_block_def by (simp only: get_mem512_append length_dinodes)
    then show ?thesis by simp
  qed
qed

lemma zero_block_dinode: "dinode_of (get_bytes zero_block off 64) = zero_dinode"
proof -
  have z: "get_bytes zero_block off 64 = replicate 64 0"
    by (intro nth_equalityI) (simp_all add: zero_block_def)
  have "rd16 (replicate 64 0) k = 0" if "k < 63" for k using that by (simp add: rd16_def)
  moreover have "rd32 (replicate 64 0) k = 0" if "k < 61" for k using that by (simp add: rd32_def)
  moreover have "map (\<lambda>j. rd16 (replicate 64 0) (24 + 2 * j)) [0..<20] = replicate 20 0"
    by (rule nth_equalityI) (simp_all add: rd16_def)
  ultimately show ?thesis by (simp add: z dinode_of_def zero_dinode_def)
qed

lemma inode_place:
  "unat (inode_blk num) = unat num div 8 + 2" "inode_off num = 64 * (unat num mod 8)"
proof -
  have "unat (drop_bit 3 num) = unat num div 8" using u16_bound [of num]
    by (subst unsigned_drop_bit_eq) (simp add: drop_bit_eq_div take_bit_nat_eq_self)
  then show "unat (inode_blk num) = unat num div 8 + 2"
    using u16_bound [of num] by (simp add: inode_blk_def unat_word_ariths)
  have "num AND 7 = take_bit 3 num" by (simp add: take_bit_eq_mask mask_eq_exp_minus_1)
  moreover have "unat (take_bit 3 num) = unat num mod 8"
    by (subst unsigned_take_bit_eq) (simp add: take_bit_eq_mod)
  ultimately show "inode_off num = 64 * (unat num mod 8)" by (simp add: inode_off_def)
qed

lemma new_super_lengths:
  assumes "length tab = 50"
  shows "length (s_free (new_super fsize isize n tab)) = FILESYS_TABSIZE"
    "length (s_inode (new_super fsize isize n tab)) = FILESYS_TABSIZE"
  using assms by (simp_all add: new_super_def fs_super_def)

lemma mkfs_builds:
  assumes b: "2 < isize" "isize < fsize" "isize \<le> 8194"
  obtains img' where "mkfs_main False (\<lambda>_. True) junk isize fsize img = Some img'" "fresh_fs isize fsize img'"
    "\<And>k. fsize \<le> k \<Longrightarrow> img' k = img k"
proof -
  obtain n tab C where run: "mkfs_main False (\<lambda>_. True) junk isize fsize img
      = Some (C(2 := inode_block isize, isize := mem512 root_entries zero_block,
                1 := mem512 (filesys_bytes 0 (new_super fsize isize n tab)) junk))"
    and ch: "chain C n tab (map of_nat [unat isize + 1..<unat fsize])"
    and out: "\<And>k. k \<notin> of_nat ` {unat isize + 1..<unat fsize} \<Longrightarrow> C k = (if unat k < unat fsize then zero_block else img k)"
    using mkfs_run [OF b, of junk img] by blast
  define I where "I = C(2 := inode_block isize, isize := mem512 root_entries zero_block,
      1 := mem512 (filesys_bytes 0 (new_super fsize isize n tab)) junk)"
  have nb: "2 < unat isize" "unat isize < unat fsize" "unat fsize < 65536" "unat isize \<le> 8194"
    using b u16_bound [of fsize] by (simp_all add: word_less_nat_alt word_le_nat_alt)
  have area: "k \<in> of_nat ` {unat isize + 1..<unat fsize} \<longleftrightarrow> isize < k \<and> k < fsize" for k :: u16
  proof
    assume "k \<in> of_nat ` {unat isize + 1..<unat fsize}"
    then obtain j where "k = of_nat j" "unat isize < j" "j < unat fsize" by auto
    with nb(3) show "isize < k \<and> k < fsize" by (simp add: word_less_nat_alt unat_of_nat)
  next
    assume "isize < k \<and> k < fsize"
    then have "unat k \<in> {unat isize + 1..<unat fsize}" by (simp add: word_less_nat_alt)
    then show "k \<in> of_nat ` {unat isize + 1..<unat fsize}" by (intro image_eqI [of _ _ "unat k"]) simp
  qed
  have chI: "chain I n tab (map of_nat [unat isize + 1..<unat fsize])"
  proof (rule chain_cong [OF ch])
    fix L assume "L \<in> set (map of_nat [unat isize + 1..<unat fsize] :: u16 list)"
    then have "isize < L" using area [of L] by simp
    then have "L \<noteq> 2" "L \<noteq> 1" "L \<noteq> isize" using nb(1) by (auto simp: word_less_nat_alt)
    then show "I L = C L" by (simp add: I_def)
  qed
  have len: "length tab = 50" using chain_basic(3) [OF ch] by simp
  have small: "isize \<noteq> 2" "isize \<noteq> 1" using nb(1) by auto
  have one: "I 1 = mem512 (filesys_bytes 0 (new_super fsize isize n tab)) junk" by (simp add: I_def)
  have "length (filesys_bytes 0 (new_super fsize isize n tab)) = 222"
    by (intro length_filesys_bytes new_super_lengths len)
  then have "get_bytes (I 1) 0 222 = filesys_bytes 0 (new_super fsize isize n tab)"
    unfolding one by (intro get_mem512) simp_all
  moreover have "filesys_of (filesys_bytes 0 (new_super fsize isize n tab)) = new_super fsize isize n tab"
    using len by (subst filesys_decode [OF new_super_lengths]) (simp_all add: new_super_def fs_super_def)
  ultimately have super: "image_super I = new_super fsize isize n tab" by (simp add: image_super_def)
  have two: "I 2 = inode_block isize" using small by (simp add: I_def)
  have slot: "image_inode I num = dinode_of (get_bytes (inode_block isize) (64 * unat num) 64)" if "unat num < 8" for num
  proof -
    have "inode_blk num = 2" using inode_place(1) [of num] that by (simp add: word_unat_eq_iff)
    then show ?thesis using two inode_place(2) [of num] that by (simp add: image_inode_def)
  qed
  have rest: "image_inode I num = zero_dinode" if num: "2 \<le> num" "unat num < 8 * (unat isize - 2)" for num
  proof (cases "unat num < 8")
    case True
    then show ?thesis using slot [OF True] inode_block_slots(3) [of "unat num"] num by (simp add: word_le_nat_alt)
  next
    case False
    have k: "2 < unat (inode_blk num)" "unat (inode_blk num) < unat isize"
      using inode_place(1) [of num] False num(2) nb(1) by linarith+
    then have "inode_blk num \<notin> of_nat ` {unat isize + 1..<unat fsize}"
      using area [of "inode_blk num"] by (simp add: word_less_nat_alt)
    with k nb have "I (inode_blk num) = zero_block" using out [of "inode_blk num"] by (auto simp: I_def)
    then show ?thesis by (simp add: image_inode_def zero_block_dinode)
  qed
  have dirs: "get_bytes (I isize) 0 BLKSIZE = take BLKSIZE root_entries"
  proof -
    have "length root_entries = 2048" unfolding root_entries_def by code_simp
    then show ?thesis using small by (intro nth_equalityI) (simp_all add: I_def mem512_def)
  qed
  have tfree: "of_nat (unat fsize - (unat isize + 1)) = fsize - isize - 1"
    using nb(2) by (simp add: of_nat_diff of_nat_unat)
  have "fresh_fs isize fsize I"
    using slot [of 0] slot [of 1] inode_block_slots(1,2) [of isize] rest dirs chI tfree
    by (simp add: empty_fs_def super) (simp add: new_super_def fs_super_def)
  moreover have "I k = img k" if "fsize \<le> k" for k
  proof -
    have "k \<notin> of_nat ` {unat isize + 1..<unat fsize}" using area [of k] that by (auto dest: leD)
    moreover have "k \<noteq> 1" "k \<noteq> 2" "k \<noteq> isize" using that nb by (auto simp: word_le_nat_alt)
    ultimately show ?thesis using out [of k] that by (simp add: I_def word_le_nat_alt)
  qed
  ultimately show ?thesis using that run by (simp add: I_def)
qed

text \<open>C13: mkfs writes a consistent empty file system: for every size and number of inode blocks with 2 < isize < fsize
  (and inode numbers that fit 16 bits) it ends, whatever the medium held and whatever follows the superblock in
  memory. The superblock decodes to the sizes asked for, the chain of free lists through the free blocks
  themselves hands out exactly the blocks above the root directory in ascending order, its counters agree, inode 1
  is a directory with that block, all others are unused, and nothing beyond the file system is written.\<close>

theorem mkfs_fresh:
  assumes "2 < isize" and "isize < fsize" and "isize \<le> 8194"
  shows "\<exists>img'. mkfs_main False (\<lambda>_. True) junk isize fsize img = Some img' \<and> fresh_fs isize fsize img'
    \<and> (\<forall>k\<ge>fsize. img' k = img k)"
  using mkfs_builds [OF assms] by metis

theorem mkfs_fresh_witness:
  "\<exists>img'. mkfs_main False (\<lambda>_. True) zero_block 3 200 (\<lambda>_. zero_block) = Some img' \<and> fresh_fs 3 200 img'
     \<and> chain img' (s_nfree (image_super img')) (s_free (image_super img')) (map of_nat [4..<200])"
  using mkfs_fresh [of 3 200 zero_block "\<lambda>_. zero_block"] by (force simp: empty_fs_def Let_def)

subsection \<open>What the checks of main() let through\<close>

text \<open>With one inode block less, isize = 2, main() goes on: the root directory is written over the block that was to hold the
  inodes, so that inode 1 is not a directory, and the count of free inodes is -2.\<close>

lemma isize_two_no_root:
  "\<exists>img'. mkfs_main False (\<lambda>_. True) zero_block 2 3 (\<lambda>_. zero_block) = Some img'
     \<and> i_mode (image_inode img' 1) = 0 \<and> s_tinode (image_super img') = 0xFFFE"
proof -
  have "mkfs_main False (\<lambda>_. True) zero_block 2 3 (\<lambda>_. zero_block) \<noteq> None
     \<and> i_mode (image_inode (the (mkfs_main False (\<lambda>_. True) zero_block 2 3 (\<lambda>_. zero_block))) 1) = 0
     \<and> s_tinode (image_super (the (mkfs_main False (\<lambda>_. True) zero_block 2 3 (\<lambda>_. zero_block)))) = 0xFFFE"
    by code_simp
  then show ?thesis by auto
qed

end
