(* ===== verification/MountSpec.thy ===== *)
theory MountSpec
  imports Directory InodeSpec Mkfs
begin

text \<open>
  Mounting: fmount() of a file system whose superblock is in order takes it into the mount table, marks it dirty
  on the medium and leaves its free list and its inodes as they are on the disk; a file system made by mkfs is one.
\<close>

subsection \<open>sync() with one mounted file system\<close>

lemma for_each_skip: "(\<And>i. i \<in> set is \<Longrightarrow> body i s = Some ((), s)) \<Longrightarrow> for_each is body s = Some ((), s)"
  by (induction "is") auto

lemma fs_at_io: "io_core t = io_core s \<Longrightarrow> fs_tab t = fs_tab s"
  by (rule io_core_fields)

text \<open>A superblock is written over whatever the buffer held.\<close>

lemma sync_mount_writes:
  assumes d: "disk_ok s d" and quiet: "busy_set s = {}" "0 < nbufs s"
    and m: "m_dev (fs_tab s m) = d" "s_fmod (fs_at s m) = FMOD_DIRTY"
  obtains J t where "sync_mount m s = Some ((), t)" "io_core t = io_core s" "cache_ok t" "busy_set t = {}"
    "\<And>e l. e \<noteq> NO_DEVICE \<Longrightarrow> view t e l = (if e = d \<and> l = 1
        then put_bytes J 0 (filesys_bytes (itab_addr (plat s)) (fs_at s m)) else view s e l)"
proof -
  have a: "avail s d 1" using quiet by (auto simp: avail_busy)
  obtain b J t where t: "bread d 1 True s = Some (Some b, set_data b J t)" "buf_holds t b d 1"
    "cache_ok t" "io_core t = io_core s" "busy_set t = insert b (busy_set s)" "b \<notin> busy_set s"
    "u_error t = u_error s" "same_view s t" "\<forall>c\<in>busy_set s. bufpool t c = bufpool s c"
    by (rule bread_over [OF d a])
  have dn: "d \<noteq> NO_DEVICE" "validdev (plat s) d" using d by (auto simp: disk_ok_def)
  have f: "fs_tab t = fs_tab s" "plat t = plat s" using io_core_fields [OF t(4)] by simp_all
  define D where "D = put_bytes J 0 (filesys_bytes (itab_addr (plat s)) (fs_at s m))"
  have blk: "blkfromk (filesys_bytes (itab_addr (plat s)) (fs_at s m)) b 0 (set_data b J t) = set_data b D t"
    by (simp add: blkfromk_def set_data_def D_def upd_b_def)
  have key: "bf_dev (bufpool t b) = d" "bf_blk (bufpool t b) = 1" using t(2) by (auto simp: buf_holds_def)
  have two: "(2 :: u8) = 1 \<or> (2 :: u8) = 2" by simp
  have "\<exists>r u. bfree b 2 (set_data b D t) = Some (r, u)"
    using key dn(2) f(2) by (simp add: bfree_def set_data_def bdwrite_def validchk_def bdsetup_def Let_def)
  then obtain r u where u: "bfree b 2 (set_data b D t) = Some (r, u)" by blast
  note bf = bfree_dirty [OF t(3,2) dn(1) two u]
  have sf: "fs_tab (set_data b J t) = fs_tab s" "plat (set_data b J t) = plat s"
    using f by (simp_all add: set_data_def upd_b_def)
  have run: "sync_mount m s = Some ((), u)"
    using m dn(1) t(1) u blk sf by (simp add: sync_mount_def)
  have V: "view u e l = (if e = d \<and> l = 1 then D else view s e l)" if "e \<noteq> NO_DEVICE" for e l
    using bf(2) [OF that] t(8) that by (simp add: same_view_def)
  have "busy_set u = {}" using bf(3) t(5) quiet by simp
  then show ?thesis by (intro that [of u J, OF run]) (use bf(1,4) t(4) V in \<open>simp_all add: D_def\<close>)
qed

lemma sync_one_mount:
  assumes d: "disk_ok s d" and quiet: "busy_set s = {}" "0 < nbufs s"
    and idle: "\<And>i. i < ITABSIZE \<Longrightarrow> c_refs (i_tab s i) = 0"
    and m: "m_dev (fs_tab s 0) = d" "\<And>m. 0 < m \<Longrightarrow> m < NMOUNTS \<Longrightarrow> m_dev (fs_tab s m) = NO_DEVICE"
    and fmod: "s_fmod (fs_at s 0) = FMOD_DIRTY \<or> s_fmod (fs_at s 0) = FMOD_CLEAN"
  obtains J t where "sync s = Some ((), t)" "io_core t = io_core s" "cache_ok t" "busy_set t = {}"
    "\<And>e l. e \<noteq> NO_DEVICE \<Longrightarrow> view t e l = (if e = d \<and> l = 1 \<and> s_fmod (fs_at s 0) = FMOD_DIRTY
        then put_bytes J 0 (filesys_bytes (itab_addr (plat s)) (fs_at s 0)) else view s e l)"
proof -
  have inodes: "for_each [0..<ITABSIZE] sync_inode s = Some ((), s)"
    using idle by (intro for_each_skip) (simp add: sync_inode_def)
  have rest: "sync_mount i t = Some ((), t)" if "fs_tab t = fs_tab s" "0 < i" "i < NMOUNTS" for i t
    using m(2) that by (simp add: sync_mount_def)
  obtain J t where t: "sync_mount 0 s = Some ((), t)" "io_core t = io_core s" "cache_ok t" "busy_set t = {}"
    "\<And>e l. e \<noteq> NO_DEVICE \<Longrightarrow> view t e l = (if e = d \<and> l = 1 \<and> s_fmod (fs_at s 0) = FMOD_DIRTY
        then put_bytes J 0 (filesys_bytes (itab_addr (plat s)) (fs_at s 0)) else view s e l)"
  proof (cases "s_fmod (fs_at s 0) = FMOD_DIRTY")
    case True
    obtain J t where t: "sync_mount 0 s = Some ((), t)" "io_core t = io_core s" "cache_ok t" "busy_set t = {}"
      "\<And>e l. e \<noteq> NO_DEVICE \<Longrightarrow> view t e l = (if e = d \<and> l = 1
          then put_bytes J 0 (filesys_bytes (itab_addr (plat s)) (fs_at s 0)) else view s e l)"
      by (rule sync_mount_writes [OF d quiet m(1) True]) (rule that, assumption+)
    show ?thesis by (rule that [of t J, OF t(1-4)]) (simp only: t(5) True simp_thms)
  next
    case False
    then have "sync_mount 0 s = Some ((), s)" using fmod by (simp add: sync_mount_def)
    then show ?thesis using False quiet(1) d by (intro that [of s zero_block]) (simp_all add: disk_ok_def)
  qed
  have ft: "fs_tab t = fs_tab s" by (rule fs_at_io [OF t(2)])
  have mounts: "for_each [0..<NMOUNTS] sync_mount s = Some ((), t)"
  proof -
    have "[0..<NMOUNTS] = [0, 1, 2, 3]" by (simp add: upt_rec)
    then show ?thesis using t(1) rest [OF ft] by simp
  qed
  have "media_ok t" using d io_core_fields(4) [OF t(2)] by (simp add: disk_ok_def media_ok_def)
  then obtain u where u: "bufsync t = Some ((), u)" "io_core u = io_core t" "cache_ok u" "busy_set u = {}"
    "\<forall>e l. e \<noteq> NO_DEVICE \<longrightarrow> view u e l = view t e l"
    using bufsync_run [OF t(3,4)] by blast
  have "sync s = Some ((), u)" using inodes mounts u(1) by (simp add: sync_def)
  then show ?thesis by (rule that [of u J]) (use u t in simp_all)
qed

subsection \<open>fmount() of the first file system\<close>

text \<open>What a device must hold to be mounted, and the superblock that mounting makes of it.\<close>

definition mountable :: "image \<Rightarrow> bool" where
  "mountable img \<longleftrightarrow> s_mounted (image_super img) = SMOUNTED \<and> s_isize (image_super img) < s_fsize (image_super img)"

definition mount_flags :: "u16 \<Rightarrow> filesys \<Rightarrow> u16" where
  "mount_flags fl f = (if s_fmod f = FMOD_DIRTY then fl OR MS_RDONLY else fl)"

definition mounted_super :: "u16 \<Rightarrow> filesys \<Rightarrow> filesys" where
  "mounted_super fl f = f\<lparr>s_fmod := (if mount_flags fl f AND MS_RDONLY = 0 then FMOD_DIRTY else FMOD_CLEAN), s_mntpt := None\<rparr>"

text \<open>A kernel that has mounted nothing and uses no inode yet.\<close>

definition nothing_mounted :: "kst \<Rightarrow> bool" where
  "nothing_mounted s \<longleftrightarrow> busy_set s = {} \<and> 0 < nbufs s \<and> (\<forall>m<NMOUNTS. m_dev (fs_tab s m) = NO_DEVICE)
     \<and> (\<forall>i<ITABSIZE. c_refs (i_tab s i) = 0)"

lemma image_super_lengths [simp]:
  "length (s_free (image_super img)) = FILESYS_TABSIZE" "length (s_inode (image_super img)) = FILESYS_TABSIZE"
  "s_mntpt (image_super img) = None"
  by (simp_all add: image_super_def filesys_of_def)

text \<open>The kernel as before, but for the pool, the media, the mount table and scratch fields.\<close>

definition mount_frame :: "kst \<Rightarrow> kst \<Rightarrow> bool" where
  "mount_frame s t \<longleftrightarrow> io_core (t\<lparr>fs_tab := fs_tab s\<rparr>) = io_core s"

lemma mount_frame_fields:
  assumes "mount_frame s t"
  shows "i_tab t = i_tab s" "of_tab t = of_tab s" "plat t = plat s" "nbufs t = nbufs s" "umem t = umem s"
    "kmem t = kmem s" "ptab t = ptab s" "u_files t = u_files s" "u_cwd t = u_cwd s" "u_root t = u_root s"
    "u_ptab t = u_ptab s" "u_top t = u_top s" "root_dev t = root_dev s"
  using io_core_fields [OF assms [unfolded mount_frame_def]]
    assms [unfolded mount_frame_def, THEN arg_cong, of u_top]
  by (simp_all add: io_core_def)

lemma mount_all_fields: "(x :: mount)\<lparr>m_fs := X, m_flags := F, m_dev := D\<rparr> = \<lparr>m_dev = D, m_flags = F, m_fs = X\<rparr>"
  by (cases x) simp

lemma first_free_mount: "nothing_mounted s \<Longrightarrow> newfstab s = Some 0"
  by (simp add: nothing_mounted_def newfstab_def first_index_def upt_rec)

lemma fmount_first:
  assumes d: "disk_ok s dev" and idle: "nothing_mounted s" and op: "fst (d_open dev 0 s) = 0"
    and img: "img = view s dev" and ok: "mountable img"
  obtains J t where "fmount dev None fl s = Some (False, t)" "disk_ok t dev" "busy_set t = {}" "mount_frame s t"
    "fs_tab t = (fs_tab s)(0 := \<lparr>m_dev = dev, m_flags = mount_flags fl (image_super img), m_fs = mounted_super fl (image_super img)\<rparr>)"
    "\<And>k. view t dev k = (if k = 1 \<and> s_fmod (mounted_super fl (image_super img)) = FMOD_DIRTY
        then put_bytes J 0 (filesys_bytes (itab_addr (plat s)) (mounted_super fl (image_super img))) else img k)"
proof -
  let ?f = "image_super img" and ?F = "mounted_super fl (image_super img)"
  obtain e where opn: "d_open dev 0 s = (0, drv_error e s)"
    using op d by (auto simp: d_open_def disk_ok_def case_prod_beta Let_def intro: prod_eqI)
  define s0 where "s0 = drv_error e s"
  have s0: "io_core s0 = io_core s" "bufpool s0 = bufpool s" "disk s0 = disk s"
    by (simp_all add: s0_def drv_error_def)
  have z: "cache_ok s0 = cache_ok s" "view s0 = view s" by (simp_all add: s0_def)
  note c0 = io_core_fields [OF s0(1)]
  have d0: "disk_ok s0 dev" using d z(1) disk_ok_trans [OF d s0(1)] by (simp add: disk_ok_def)
  have q: "busy_set s0 = {}" "0 < nbufs s0" "nothing_mounted s0"
    using idle s0(2) c0(1,2,5) by (simp_all add: nothing_mounted_def busy_set_def)
  have a: "avail s0 dev 1" using q by (auto simp: avail_busy)
  obtain b t where t: "bread dev 1 False s0 = Some (Some b, t)" "bf_data (bufpool t b) = view s0 dev 1"
    "io_core t = io_core s0" "u_error t = u_error s0"
    "\<forall>m f. \<exists>u. brelse b (upd_fs m f t) = Some ((), upd_fs m f u) \<and> brelse b t = Some ((), u)
       \<and> io_core u = io_core s0 \<and> u_error u = u_error s0 \<and> io_step s0 u (view s0)"
    by (rule read_then_release [OF d0 a])
  have f: "filesys_of (get_bytes (bf_data (bufpool t b)) 0 222) = ?f"
    using t(2) z(2) img by (simp add: image_super_def)
  obtain u where u: "brelse b (upd_fs 0 (\<lambda>_. ?f) t) = Some ((), upd_fs 0 (\<lambda>_. ?f) u)"
    "io_core u = io_core s0" "io_step s0 u (view s0)" using t(5) by blast
  define v where "v = u\<lparr>fs_tab := (fs_tab u)(0 := \<lparr>m_dev = dev, m_flags = mount_flags fl ?f, m_fs = ?F\<rparr>)\<rparr>"
  have run: "fmount dev None fl s = do { (_, s) \<leftarrow> sync v; Some (False, s) }"
  proof -
    let ?e = "if mount_flags fl ?f AND MS_RDONLY = 0 then FMOD_DIRTY else FMOD_CLEAN"
    have sup: "s_mounted ?f = SMOUNTED" "(s_fsize ?f \<le> s_isize ?f) = False" using ok by (simp_all add: mountable_def not_le)
    have "s_fmod ?f = FMOD_DIRTY \<Longrightarrow> mount_flags fl ?f = fl OR MS_RDONLY"
      "s_fmod ?f \<noteq> FMOD_DIRTY \<Longrightarrow> mount_flags fl ?f = fl" by (simp_all add: mount_flags_def)
    then show ?thesis
      using opn sup first_free_mount [OF q(3)] t(1) u(1) f
      by (simp add: fmount_def s0_def [symmetric] Let_def i_ref_opt_def v_def mounted_super_def
          upd_fs_def mount_all_fields cong: if_cong)
  qed
  have fu: "fs_tab u = fs_tab s" using io_core_fields(2) [OF u(2)] c0(2) by simp
  have core: "io_core (v\<lparr>fs_tab := T\<rparr>) = io_core (s\<lparr>fs_tab := T\<rparr>)" for T
    using fs_tab_core [OF u(2), of T] fs_tab_core [OF s0(1), of T] by (simp add: v_def)
  have pv: "bufpool v = bufpool u" "nbufs v = nbufs u" "disk v = disk u" "plat v = plat u" by (simp_all add: v_def)
  have cv: "cache_ok v = cache_ok u" "view v = view u" using cache_cong [of v u] pv by simp_all
  have dv: "disk_ok v dev" using io_step_disk [OF u(3) d0] cv(1) pv by (simp add: disk_ok_def media_ok_def)
  have "busy_set v = busy_set u" using pv by (simp add: busy_set_def)
  then have qv: "busy_set v = {}" "0 < nbufs v"
    using u(3) q(1,2) pv(2) by (simp_all add: io_step_def)
  have iv: "c_refs (i_tab v i) = 0" if "i < ITABSIZE" for i
    using that q(3) io_core_fields(1) [OF u(2)] by (simp add: v_def nothing_mounted_def)
  have mv: "m_dev (fs_tab v 0) = dev" "fs_at v 0 = ?F" "m_dev (fs_tab v m) = NO_DEVICE" if "0 < m" "m < NMOUNTS" for m
    using that idle by (simp_all add: v_def fu nothing_mounted_def)
  have fm: "s_fmod (fs_at v 0) = FMOD_DIRTY \<or> s_fmod (fs_at v 0) = FMOD_CLEAN"
    by (simp add: v_def mounted_super_def)
  obtain J w where w: "sync v = Some ((), w)" "io_core w = io_core v" "cache_ok w" "busy_set w = {}"
    "\<And>e l. e \<noteq> NO_DEVICE \<Longrightarrow> view w e l = (if e = dev \<and> l = 1 \<and> s_fmod (fs_at v 0) = FMOD_DIRTY
        then put_bytes J 0 (filesys_bytes (itab_addr (plat v)) (fs_at v 0)) else view v e l)"
    by (rule sync_one_mount [OF dv qv iv _ _ fm]) (use mv [of 1] mv(3) in auto)
  have fw: "fs_tab w = (fs_tab s)(0 := \<lparr>m_dev = dev, m_flags = mount_flags fl ?f, m_fs = ?F\<rparr>)"
    using io_core_fields(2) [OF w(2)] fu by (simp add: v_def)
  have fr: "mount_frame s w"
    using fs_tab_core [OF w(2), of "fs_tab s"] core [of "fs_tab s"] by (simp add: mount_frame_def)
  have dn: "dev \<noteq> NO_DEVICE" using d by (simp add: disk_ok_def)
  have plv: "plat v = plat s" using io_core_fields(4) [OF u(2)] c0(4) pv(4) by simp
  have V: "view w dev k = (if k = 1 \<and> s_fmod ?F = FMOD_DIRTY
        then put_bytes J 0 (filesys_bytes (itab_addr (plat s)) ?F) else img k)" for k
  proof -
    have "view v dev k = img k" using u(3) dn cv(2) z(2) img by (simp add: io_step_def)
    then show ?thesis using w(5) [OF dn, of k] mv(2) [of 1] plv by simp
  qed
  have "fmount dev None fl s = Some (False, w)" using run w(1) by simp
  moreover have "disk_ok w dev" using disk_ok_trans [OF dv w(2,3)] .
  ultimately show ?thesis using w(4) fr fw V by (rule that)
qed

subsection \<open>Opening the root\<close>

text \<open>i\_open() of an existing inode that is not in the table, when the table is empty.\<close>

lemma i_open_loads:
  assumes d: "disk_ok s dev" and quiet: "busy_set s = {}" "0 < nbufs s"
    and m: "fs_tab_get dev s = Some m" "\<not> (n < ROOTINODE \<or> n \<ge> (s_isize (fs_at s m) - 2) * 8)"
    and tab: "\<And>i. i < ITABSIZE \<Longrightarrow> c_refs (i_tab s i) = 0" "\<And>i. i < ITABSIZE \<Longrightarrow> c_num (i_tab s i) \<noteq> n"
    and live: "i_nlink (disk_inode s dev n) \<noteq> 0" "i_mode (disk_inode s dev n) AND F_MASK \<noteq> 0"
  obtains t where "i_open dev n s = Some (Some 19, t)" "io_core (t\<lparr>i_tab := i_tab s\<rparr>) = io_core s" "io_step s t (view s)"
    "i_tab t = (i_tab s)(19 := (i_tab s 19)\<lparr>c_node := disk_inode s dev n, c_dev := dev, c_num := n, c_magic := CMAGIC,
       c_flags := (if m_flags (fs_tab s m) AND MS_RDONLY \<noteq> 0 then CRDONLY else 0), c_refs := 1\<rparr>)"
proof -
  let ?k = "inode_blk n"
  have a: "avail s dev ?k" using quiet by (auto simp: avail_busy)
  have n0: "n \<noteq> 0" using m(2) by auto
  have find: "i_find dev n s = None" "i_unused s = Some 19"
    using tab by (auto simp: i_find_def first_index_None i_unused_def upt_rec)
  have dn: "validdev (plat s) dev" using d by (simp add: disk_ok_def)
  obtain b t where t: "bread dev ?k False s = Some (Some b, t)" "bf_data (bufpool t b) = view s dev ?k"
    "io_core t = io_core s" "u_error t = u_error s"
    "\<forall>m f. \<exists>u. brelse b (upd_fs m f t) = Some ((), upd_fs m f u) \<and> brelse b t = Some ((), u)
       \<and> io_core u = io_core s \<and> u_error u = u_error s \<and> io_step s u (view s)"
    by (rule read_then_release [OF d a])
  obtain u where u: "brelse b t = Some ((), u)" "io_core u = io_core s" "io_step s u (view s)"
    using t(5) by blast
  have commute: "brelse b (upd_i j f t) = Some ((), upd_i j f u)" for j f
  proof -
    have bu: "u = (if bf_busy (bufpool t b) = BF_BUSY then upd_b b (\<lambda>x. x\<lparr>bf_busy := BF_FREE\<rparr>) t else t)"
      using u(1) by (auto simp: brelse_def bfree_def Let_def split: if_splits)
    show ?thesis by (auto simp: brelse_def bfree_def Let_def bu upd_i_def upd_b_def)
  qed
  have iu: "i_tab u = i_tab s" "fs_tab t = fs_tab s" "fs_tab u = fs_tab s" "i_tab t = i_tab s"
    using io_core_fields(1,2) [OF u(2)] io_core_fields(1,2) [OF t(3)] by simp_all
  define w where "w = i_ref 19 (upd_i 19 (\<lambda>c. c\<lparr>c_dev := dev, c_num := n, c_magic := CMAGIC,
      c_flags := (if m_flags (fs_tab s m) AND MS_RDONLY \<noteq> 0 then CRDONLY else 0)\<rparr>)
      (upd_i 19 (\<lambda>c. c\<lparr>c_node := disk_inode s dev n\<rparr>) u))"
  have dec: "dinode_of (get_bytes (view s dev ?k) (inode_off n) 64) = disk_inode s dev n"
    by (simp add: disk_inode_def)
  have "i_open dev n s = Some (Some 19, w)"
    using dn n0 m find t(1,2) commute live
    by (simp add: i_open_def validchk_def Let_def iu dec i_found_def w_def not_le not_less)
  moreover have "io_core (w\<lparr>i_tab := i_tab s\<rparr>) = io_core s"
  proof -
    have "io_core (w\<lparr>i_tab := i_tab s\<rparr>) = (io_core u)\<lparr>i_tab := i_tab s\<rparr>"
      by (simp add: w_def i_ref_def upd_i_def io_core_def)
    also have "\<dots> = (io_core s)\<lparr>i_tab := i_tab s\<rparr>" by (simp add: u(2))
    finally show ?thesis by (simp add: io_core_def)
  qed
  moreover have "io_step s w (view s)" using u(3) by (simp add: w_def i_ref_def)
  moreover have "i_tab w = (i_tab s)(19 := (i_tab s 19)\<lparr>c_node := disk_inode s dev n, c_dev := dev, c_num := n, c_magic := CMAGIC,
       c_flags := (if m_flags (fs_tab s m) AND MS_RDONLY \<noteq> 0 then CRDONLY else 0), c_refs := 1\<rparr>)"
    using tab(1) [of 19] iu by (simp add: w_def i_ref_def upd_i_def)
  ultimately show ?thesis by (rule that)
qed

text \<open>The free list of a medium.\<close>

definition image_free :: "image \<Rightarrow> u16 list \<Rightarrow> bool" where
  "image_free img bs \<longleftrightarrow> (let f = image_super img in
     chain img (s_nfree f) (s_free f) bs \<and> distinct bs \<and> (\<forall>b\<in>set bs. s_isize f \<le> b \<and> b < s_fsize f)
     \<and> 2 < s_isize f \<and> unat (s_tfree f) = length bs)"

lemma mounted_free:
  assumes "disk_ok s dev" "nothing_mounted s" "fst (d_open dev 0 s) = 0" "img = view s dev" "mountable img" "image_free img bs"
  obtains t where "fmount dev None fl s = Some (False, t)" "disk_ok t dev" "busy_set t = {}" "mount_frame s t"
    "fs_tab_get dev t = Some 0" "free_ok t dev 0 bs" "s_isize (fs_at t 0) = s_isize (image_super img)"
    "\<And>k. k \<noteq> 1 \<Longrightarrow> view t dev k = img k"
    "m_flags (fs_tab t 0) = mount_flags fl (image_super img)"
proof -
  let ?f = "image_super img"
  obtain J t where t: "fmount dev None fl s = Some (False, t)" "disk_ok t dev" "busy_set t = {}" "mount_frame s t"
    "fs_tab t = (fs_tab s)(0 := \<lparr>m_dev = dev, m_flags = mount_flags fl ?f, m_fs = mounted_super fl ?f\<rparr>)"
    "\<And>k. view t dev k = (if k = 1 \<and> s_fmod (mounted_super fl ?f) = FMOD_DIRTY
        then put_bytes J 0 (filesys_bytes (itab_addr (plat s)) (mounted_super fl ?f)) else img k)"
    by (rule fmount_first [OF assms(1-5)]) (rule that, assumption+)
  have get: "fs_tab_get dev t = Some 0" using t(5) by (simp add: fs_tab_get_def first_index_def upt_rec)
  have V: "view t dev k = img k" if "k \<noteq> 1" for k using that t(6) by simp
  have f: "s_isize ?f \<le> b" "2 < s_isize ?f" if "b \<in> set bs" for b
    using assms(6) that by (auto simp: image_free_def Let_def)
  have "chain (view t dev) (s_nfree ?f) (s_free ?f) bs"
  proof (rule chain_cong)
    show "chain img (s_nfree ?f) (s_free ?f) bs" using assms(6) by (simp add: image_free_def Let_def)
    fix L assume "L \<in> set bs"
    then have "2 < L" using f [of L] by auto
    then have "L \<noteq> 1" by auto
    then show "view t dev L = img L" by (rule V)
  qed
  moreover have "2 < s_isize ?f" using assms(6) by (simp add: image_free_def Let_def)
  then have "0 < s_isize ?f" by (rule order.strict_trans [rotated]) simp
  ultimately have "free_ok t dev 0 bs"
    using assms(5,6) get t(5) by (auto simp: free_ok_def mountable_def image_free_def Let_def mounted_super_def)
  moreover have "s_isize (fs_at t 0) = s_isize ?f" "m_flags (fs_tab t 0) = mount_flags fl ?f"
    using t(5) by (simp_all add: mounted_super_def)
  ultimately show ?thesis using t(1-4) get V by (intro that [of t])
qed

subsection \<open>A fresh file system as the root\<close>

lemma fresh_image:
  assumes f: "fresh_fs isize fsize img" and b: "2 < isize" "isize < fsize"
  shows "mountable img" "image_free img (map of_nat [unat isize + 1..<unat fsize])"
    "s_fmod (image_super img) = 0" "image_inode img 1 = root_dinode isize"
proof -
  let ?bs = "map of_nat [unat isize + 1..<unat fsize] :: u16 list"
  have nb: "2 < unat isize" "unat isize < unat fsize" "unat fsize < 65536"
    using b u16_bound [of fsize] by (simp_all add: word_less_nat_alt)
  have sup: "s_mounted (image_super img) = SMOUNTED" "s_isize (image_super img) = isize" "s_fsize (image_super img) = fsize"
    "chain img (s_nfree (image_super img)) (s_free (image_super img)) ?bs"
    "s_tfree (image_super img) = fsize - isize - 1" "s_fmod (image_super img) = 0"
    using f by (simp_all add: empty_fs_def Let_def)
  then show "mountable img" "s_fmod (image_super img) = 0" using b(2) by (simp_all add: mountable_def)
  show "image_inode img 1 = root_dinode isize" using f by (simp add: empty_fs_def Let_def)
  have inj: "inj_on (of_nat :: nat \<Rightarrow> u16) {0..<65536}"
    by (rule inj_onI) (simp add: word_unat_eq_iff unat_of_nat)
  have "distinct ?bs"
    using nb by (simp add: distinct_map) (rule inj_on_subset [OF inj], auto)
  moreover have "\<forall>c\<in>set ?bs. isize \<le> c \<and> c < fsize"
    using nb by (auto simp: word_le_nat_alt word_less_nat_alt unat_of_nat)
  moreover have "unat (fsize - isize - 1) = length ?bs"
  proof -
    have "fsize - isize - 1 = of_nat (unat fsize - (unat isize + 1))" using nb(2) by (simp add: of_nat_diff of_nat_unat)
    then show ?thesis using nb by (simp add: unat_of_nat del: of_nat_diff)
  qed
  ultimately show "image_free img ?bs" using sup b(1) by (simp add: image_free_def Let_def)
qed

end
