(* ===== verification/BootSpec.thy ===== *)
theory BootSpec
  imports StartSpec MountSpec ProcSpec
begin

text \<open>
  The whole of fuzix\_main(): from a cold machine and a device that holds a file system to the call of execve for
  /init, with the root of that file system as the current and the root directory.
\<close>

subsection \<open>The tables at the start\<close>

lemma fold_upd_t: "\<exists>T. fold (\<lambda>i. upd_t i f) is s = s\<lparr>ttydata := T\<rparr>"
proof (induction "is" arbitrary: s)
  case Nil
  show ?case by (rule exI [of _ "ttydata s"]) simp
next
  case (Cons i "is")
  obtain T where "fold (\<lambda>i. upd_t i f) is (upd_t i f s) = (upd_t i f s)\<lparr>ttydata := T\<rparr>" using Cons by blast
  moreover have "(upd_t i f s)\<lparr>ttydata := T\<rparr> = s\<lparr>ttydata := T\<rparr>" by (simp add: upd_t_def)
  ultimately show ?case by (intro exI [of _ T]) simp
qed

lemma bufinit_table:
  "bufinit s = s\<lparr>bufpool := (\<lambda>b. if b < nbufs s then (bufpool s b)\<lparr>bf_dev := NO_DEVICE, bf_busy := BF_FREE\<rparr> else bufpool s b)\<rparr>"
proof -
  have "fold (\<lambda>b. upd_b b (\<lambda>x. x\<lparr>bf_dev := NO_DEVICE, bf_busy := BF_FREE\<rparr>)) [0..<n] s
      = s\<lparr>bufpool := (\<lambda>b. if b < n then (bufpool s b)\<lparr>bf_dev := NO_DEVICE, bf_busy := BF_FREE\<rparr> else bufpool s b)\<rparr>" for n
    by (induction n) (auto simp: upd_b_def fun_eq_iff less_Suc_eq intro!: kst.fold_congs)
  then show ?thesis by (simp add: bufinit_def)
qed

lemma fstabinit_table:
  "fstabinit s = s\<lparr>fs_tab := (\<lambda>m. if m < NMOUNTS then (fs_tab s m)\<lparr>m_dev := NO_DEVICE\<rparr> else fs_tab s m)\<rparr>"
proof -
  have "fold (\<lambda>m s. s\<lparr>fs_tab := (fs_tab s)(m := (fs_tab s m)\<lparr>m_dev := NO_DEVICE\<rparr>)\<rparr>) [0..<n] s
      = s\<lparr>fs_tab := (\<lambda>m. if m < n then (fs_tab s m)\<lparr>m_dev := NO_DEVICE\<rparr> else fs_tab s m)\<rparr>" for n
    by (induction n) (auto simp: fun_eq_iff less_Suc_eq intro!: kst.fold_congs)
  then show ?thesis by (simp add: fstabinit_def)
qed

text \<open>What the storage system and the mount code look at.\<close>

definition store_same :: "kst \<Rightarrow> kst \<Rightarrow> bool" where
  "store_same s t \<longleftrightarrow> plat t = plat s \<and> bufpool t = bufpool s \<and> nbufs t = nbufs s \<and> disk t = disk s
     \<and> i_tab t = i_tab s \<and> fs_tab t = fs_tab s \<and> u_cwd t = u_cwd s \<and> u_root t = u_root s"

lemma store_same_keeps:
  assumes "store_same s t"
  shows "disk_ok t d = disk_ok s d" "view t = view s" "nothing_mounted t = nothing_mounted s"
    "fst (d_open d 0 t) = fst (d_open d 0 s)" "busy_set t = busy_set s"
  using assms cache_cong [of t s]
  by (auto simp: store_same_def disk_ok_def media_ok_def nothing_mounted_def busy_set_def d_open_def case_prod_beta Let_def)

lemma store_same_trans: "store_same s t \<Longrightarrow> store_same t u \<Longrightarrow> store_same s u"
  by (simp add: store_same_def)

subsection \<open>The first process\<close>

lemma fold_files:
  "\<exists>T. fold (\<lambda>j s. if u_files s j \<noteq> NO_FILE then upd_o (unat (u_files s j)) f s else s) js s = s\<lparr>of_tab := T\<rparr>"
proof (induction js arbitrary: s)
  case Nil
  show ?case by (rule exI [of _ "of_tab s"]) simp
next
  case (Cons j js)
  let ?t = "if u_files s j \<noteq> NO_FILE then upd_o (unat (u_files s j)) f s else s"
  obtain T where "fold (\<lambda>j s. if u_files s j \<noteq> NO_FILE then upd_o (unat (u_files s j)) f s else s) js ?t = ?t\<lparr>of_tab := T\<rparr>"
    using Cons by blast
  then show ?case by (intro exI [of _ T]) (simp add: upd_o_def)
qed

lemma let_keeps: "P a \<Longrightarrow> (\<And>x. P x \<Longrightarrow> Q (f x)) \<Longrightarrow> Q (Let a f)"
  by (simp add: Let_def)

definition start_same :: "kst \<Rightarrow> kst \<Rightarrow> bool" where
  "start_same s t \<longleftrightarrow> store_same s t \<and> u_top t = u_top s \<and> kmem t = kmem s"

lemma start_same_upd:
  "start_same s t \<Longrightarrow> start_same s (upd_p p f t)" "start_same s t \<Longrightarrow> start_same s (t\<lparr>nready := n\<rparr>)"
  "start_same s t \<Longrightarrow> start_same s (t\<lparr>u_ptab := p\<rparr>)" "start_same s t \<Longrightarrow> start_same s (t\<lparr>u_page := a, u_page2 := b\<rparr>)"
  "start_same s t \<Longrightarrow> start_same s (t\<lparr>u_utime := c, u_stime := d, u_cutime := e, u_cstime := g\<rparr>)"
  "start_same s t \<Longrightarrow> start_same s (t\<lparr>u_time := h\<rparr>)" "start_same s t \<Longrightarrow> start_same s (t\<lparr>u_cursig := i, u_error := k\<rparr>)"
  "start_same s t \<Longrightarrow> start_same s (t\<lparr>of_tab := T\<rparr>)"
  by (simp_all add: start_same_def store_same_def upd_p_def)

lemma newproc_first:
  assumes "u_cwd s = None" "u_root s = None"
  shows "start_same s (newproc p s)"
proof -
  have cwd: "start_same s (i_ref_opt (u_cwd t) t)" "start_same s (i_ref_opt (u_root t) t)" if "start_same s t" for t
    using that assms by (auto simp: start_same_def store_same_def i_ref_opt_def)
  have files: "start_same s (fold (\<lambda>j s. if u_files s j \<noteq> NO_FILE
      then upd_o (unat (u_files s j)) (\<lambda>f. f\<lparr>o_refs := o_refs f + 1\<rparr>) s else s) js t)" if "start_same s t" for js t
    using fold_files [of "\<lambda>f. f\<lparr>o_refs := o_refs f + 1\<rparr>" js t] start_same_upd(8) [OF that] by metis
  have "start_same s s" by (simp add: start_same_def store_same_def)
  then show ?thesis
    unfolding newproc_def
    by (intro let_keeps [where P = "start_same s" and Q = "start_same s"] start_same_upd cwd files)
qed

lemma ptab_alloc_first:
  assumes "pagemap_gives pm" "0 < ptab_end s" "ptab_end s < 31000" "\<forall>p<ptab_end s. p_status (ptab s p) = P_EMPTY"
  shows "\<exists>t. ptab_alloc pm s = Some (Some 0, t) \<and> store_same s t \<and> kmem t = kmem s"
proof -
  have first: "first_index (ptab_end s) (\<lambda>p. p_status (ptab s p) = P_EMPTY) = Some 0"
  proof (cases "first_index (ptab_end s) (\<lambda>p. p_status (ptab s p) = P_EMPTY)")
    case None
    then show ?thesis using assms(2,4) by (auto simp: first_index_None)
  next
    case (Some i)
    then show ?thesis using assms(2,4) first_index_Some [OF Some] by (cases i) auto
  qed
  define u where "u = upd_p 0 (\<lambda>_. zero_ptab) (s\<lparr>u_error := EAGAIN\<rparr>)"
  obtain n where n: "select_pid 0 u = Some ((), upd_p 0 (\<lambda>e. e\<lparr>p_pid := n\<rparr>) (u\<lparr>nextpid := n\<rparr>))"
    using select_pid_total [of u 0] assms(3) by (auto simp: u_def upd_p_def zero_ptab_def)
  define v where "v = upd_p 0 (\<lambda>e. e\<lparr>p_top := u_top s\<rparr>) (upd_p 0 (\<lambda>e. e\<lparr>p_pid := n\<rparr>) (u\<lparr>nextpid := n\<rparr>))"
  have "\<exists>pg pg2. pm 0 v = (0, upd_p 0 (\<lambda>e. e\<lparr>p_page := pg, p_page2 := pg2\<rparr>) v)"
    using assms(1) by (simp only: pagemap_gives_def)
  then obtain pg pg2 where "pm 0 v = (0, upd_p 0 (\<lambda>e. e\<lparr>p_page := pg, p_page2 := pg2\<rparr>) v)" by blast
  then show ?thesis using first n
    by (simp add: ptab_alloc_def u_def v_def Let_def upd_p_def store_same_def)
qed

text \<open>A port whose initialisation does nothing to the kernel's tables, and whose options are the words \<open>known\<close>.\<close>

definition plain_env :: "boot_env \<Rightarrow> (u8 list \<Rightarrow> bool) \<Rightarrow> nat \<Rightarrow> bool" where
  "plain_env e known P \<longleftrightarrow> be_param e = (\<lambda>p s. (known p, s)) \<and> pagemap_gives (be_pmalloc e)
     \<and> be_pagemap_init e = (\<lambda>s. s) \<and> be_map_init e = (\<lambda>s. s) \<and> be_device_init e = (\<lambda>s. s)
     \<and> be_progload e = of_nat P \<and> 0 < P \<and> P + 4096 < 65536 \<and> 0 < be_ptabsize e \<and> be_ptabsize e < 31000"

lemma create_init_builds:
  assumes e: "plain_env e known P" and P: "unat (progbase (plat (krn b))) \<le> P"
    and tab: "ptab_end (krn b) = be_ptabsize e" "\<forall>p<be_ptabsize e. p_status (ptab (krn b) p) = P_EMPTY"
    and none: "u_cwd (krn b) = None" "u_root (krn b) = None"
  obtains b' where "create_init e b = Some b'" "store_same (krn b) (krn b')" "argv_at P [init_name] b'"
    "boot_area P (krn b')" "kmem (krn b') = uput_raw (replicate 32 0) (of_nat (P + 2048)) (kmem (krn b))"
    "cmdline b' = cmdline b" "ro b' = ro b"
proof -
  note env = e [unfolded plain_env_def]
  obtain t where t: "ptab_alloc (be_pmalloc e) (krn b) = Some (Some 0, t)" "store_same (krn b) t" "kmem t = kmem (krn b)"
    using ptab_alloc_first [of "be_pmalloc e" "krn b"] env tab by auto
  define u where "u = upd_p 0 (\<lambda>x. x\<lparr>p_top := be_progload e + 4096\<rparr>) (t\<lparr>u_ptab := 0, u_top := be_progload e + 4096\<rparr>)"
  have u: "store_same (krn b) u" "u_top u = be_progload e + 4096" "kmem u = kmem (krn b)" "u_cwd u = None" "u_root u = None"
    using t none by (simp_all add: u_def upd_p_def store_same_def)
  define v where "v = upd_p 0 (\<lambda>x. x\<lparr>p_status := P_RUNNING\<rparr>) ((newproc 0 u)\<lparr>u_insys := True\<rparr>)"
  define w where "w = v\<lparr>u_files := (\<lambda>j. if j < UFTSIZE then NO_FILE else u_files v j)\<rparr>"
  have "start_same u w"
    using newproc_first [OF u(4,5), of 0] by (simp add: w_def v_def start_same_def store_same_def upd_p_def)
  then have w: "store_same (krn b) w" "u_top w = be_progload e + 4096" "kmem w = kmem (krn b)"
    using u store_same_trans [OF u(1)] by (simp_all add: start_same_def)
  have area: "boot_area P w"
    using env P w(1,2) by (simp add: boot_area_def store_same_def)
  have "user_ok w (of_nat (P + 2048)) 32" by (rule boot_area_ok [OF area]) simp_all
  then have z: "snd (uzero (of_nat (P + 2048)) 32 w) = w\<lparr>kmem := uput_raw (replicate 32 0) (of_nat (P + 2048)) (kmem w)\<rparr>"
    using user_ok_io [of w "of_nat (P + 2048)" 32] by (simp add: uzero_def)
  define c where "c = b\<lparr>argptr := of_nat P, progptr := of_nat (P + 2048), krn := snd (uzero (of_nat (P + 2048)) 32 w)\<rparr>"
  have prog: "be_progload e + 2048 = of_nat (P + 2048)" using env by simp
  have run: "create_init e b = Some (add_argument init_name c)"
    using t(1) env prog unfolding create_init_def c_def w_def v_def u_def
    by (simp add: Let_def upd_p_def del: of_nat_add cong: if_cong)
  have kc: "krn c = w\<lparr>kmem := uput_raw (replicate 32 0) (of_nat (P + 2048)) (kmem w)\<rparr>"
    by (simp add: c_def z del: of_nat_add)
  have areac: "boot_area P (krn c)" using area by (simp add: kc boot_area_def)
  have "argptr c = of_nat P" "progptr c = of_nat (P + 2048)" by (simp_all add: c_def)
  note start = argv_at_start [OF areac this]
  obtain m where m: "krn (add_argument init_name c) = krn c\<lparr>umem := m\<rparr>" using start(2) by blast
  show ?thesis
  proof (rule that [OF run])
    show "store_same (krn b) (krn (add_argument init_name c))"
      using w(1) by (simp add: m kc store_same_def)
    show "boot_area P (krn (add_argument init_name c))" using areac by (simp add: m boot_area_def)
    show "kmem (krn (add_argument init_name c)) = uput_raw (replicate 32 0) (of_nat (P + 2048)) (kmem (krn b))"
      using w(3) by (simp add: m kc)
    show "cmdline (add_argument init_name c) = cmdline b" "ro (add_argument init_name c) = ro b"
      using start(3,4) by (simp_all add: c_def)
  qed (rule start(1))
qed

subsection \<open>The root device from the command line\<close>

lemma get_root_dev_cmdline:
  assumes names: "be_names e = names_text names" "names \<noteq> []" "\<forall>(n, h)\<in>set names. plain_name n"
    and cmd: "cmdline b = Some a" "cstr (kmem (krn b)) a = Some line" "line \<noteq> []"
    and rd: "boot_choice names line \<noteq> BAD_ROOT_DEV"
  shows "\<exists>m. get_root_dev e b = Some (boot_choice names line,
    (snd (parse_args e (boot_tail names line) b))\<lparr>krn := (krn (snd (parse_args e (boot_tail names line) b)))\<lparr>kmem := m\<rparr>, cmdline := None\<rparr>)"
proof -
  have nz: "kmem (krn b) a \<noteq> 0" using cmd(2,3) by (subst (asm) cstr.simps) (auto split: if_splits)
  obtain rd' line' c where bd: "bootdevice e line b = ((rd', line'), c)" by (metis surj_pair)
  have r: "rd' = boot_choice names line" "c = snd (parse_args e (boot_tail names line) b)"
    using bootdevice_choice [OF names, of line b] bootdevice_state [OF names, of line b] bd by simp_all
  let ?m = "put_range a line' (kmem (krn c))"
  have at: "bootdevice_at e a b = Some (rd', c\<lparr>krn := (krn c)\<lparr>kmem := ?m\<rparr>\<rparr>)"
    using cmd(2) bd by (simp add: bootdevice_at_def)
  have "ask_root_dev e rd' x = Some (rd', x)" for x
    using rd r(1) by (subst ask_root_dev.simps) simp
  then have "get_root_dev e b = Some (rd', c\<lparr>krn := (krn c)\<lparr>kmem := ?m\<rparr>, cmdline := None\<rparr>)"
    using nz at cmd(1) by (simp add: get_root_dev_def)
  then show ?thesis unfolding r by blast
qed

subsection \<open>The start as a whole\<close>

definition boot_line :: "boot_env \<Rightarrow> (u8 list \<times> bool) list \<Rightarrow> u8 list \<Rightarrow> bool" where
  "boot_line e names line \<longleftrightarrow> be_names e = names_text names \<and> names \<noteq> [] \<and> (\<forall>(n, h)\<in>set names. plain_name n)
     \<and> line \<noteq> [] \<and> 0 \<notin> set line \<and> length line \<le> 240 \<and> boot_choice names line \<noteq> BAD_ROOT_DEV"

text \<open>The machine before the kernel starts: no process, no inode in use, clean buffers, working devices.\<close>

definition cold :: "boot_env \<Rightarrow> nat \<Rightarrow> u16 \<Rightarrow> kst \<Rightarrow> bool" where
  "cold e P dev s \<longleftrightarrow> unat (progbase (plat s)) \<le> P \<and> fst (d_open (be_ttydev e) 0 s) = 0 \<and> fst (d_open dev 0 s) = 0
     \<and> (\<forall>p<be_ptabsize e. p_status (ptab s p) = P_EMPTY) \<and> u_cwd s = None \<and> u_root s = None
     \<and> 0 < nbufs s \<and> (\<forall>b<nbufs s. \<not> bf_dirty (bufpool s b))
     \<and> (\<forall>i<ITABSIZE. c_refs (i_tab s i) = 0 \<and> c_num (i_tab s i) = 0)
     \<and> media_ok s \<and> dev \<noteq> NO_DEVICE \<and> validdev (plat s) dev \<and> (\<forall>k. blk_rd_ok (plat s) dev k)"

lemma d_open_plat: "plat t = plat s \<Longrightarrow> fst (d_open d f t) = fst (d_open d f s)"
  by (auto simp: d_open_def case_prod_beta Let_def)

lemma d_open_state: "\<exists>x. snd (d_open d f s) = s\<lparr>u_error := x\<rparr>"
proof -
  have "s = s\<lparr>u_error := u_error s\<rparr>" by simp
  then have "\<exists>x. s = s\<lparr>u_error := x\<rparr>" by blast
  then show ?thesis by (auto simp: d_open_def drv_error_def Let_def case_prod_beta)
qed

lemma first_state:
  fixes tty :: u16 and n :: nat
  assumes c: "cold e P dev s"
  defines "t \<equiv> fstabinit (bufinit ((snd (d_open tty 0 (tty_init (s\<lparr>inint := False, u_insys := True\<rparr>))))\<lparr>ptab_end := n\<rparr>))"
  shows "disk_ok t dev" "nothing_mounted t" "view t dev = disk s dev" "fst (d_open dev 0 t) = 0" "plat t = plat s"
    "i_tab t = i_tab s" "ptab t = ptab s" "ptab_end t = n" "u_cwd t = None" "u_root t = None" "kmem t = kmem s"
proof -
  obtain T where "tty_init (s\<lparr>inint := False, u_insys := True\<rparr>) = s\<lparr>inint := False, u_insys := True, ttydata := T\<rparr>"
    using fold_upd_t [of "\<lambda>t. t\<lparr>t_termios := ttydflt\<rparr>"] by (metis tty_init_def)
  then have "\<exists>x. snd (d_open tty 0 (tty_init (s\<lparr>inint := False, u_insys := True\<rparr>)))
      = s\<lparr>inint := False, u_insys := True, ttydata := T, u_error := x\<rparr>"
    using d_open_state [of tty 0 "s\<lparr>inint := False, u_insys := True, ttydata := T\<rparr>"] by simp
  then obtain x where t: "t = fstabinit (bufinit (s\<lparr>inint := False, u_insys := True, ttydata := T, u_error := x, ptab_end := n\<rparr>))"
    by (auto simp: t_def)
  show f: "plat t = plat s" "i_tab t = i_tab s" "ptab t = ptab s" "ptab_end t = n" "u_cwd t = None" "u_root t = None"
    "kmem t = kmem s"
    using c by (simp_all add: t fstabinit_table bufinit_table cold_def)
  have g: "nbufs t = nbufs s" "disk t = disk s"
    "bufpool t = (\<lambda>b. if b < nbufs s then (bufpool s b)\<lparr>bf_dev := NO_DEVICE, bf_busy := BF_FREE\<rparr> else bufpool s b)"
    "\<And>m. m < NMOUNTS \<Longrightarrow> m_dev (fs_tab t m) = NO_DEVICE"
    by (simp_all add: t fstabinit_table bufinit_table cong: if_cong)
  have "cache_ok t"
    using c by (auto simp: cache_ok_def same_block_def buf_ok_def g cold_def)
  then show "disk_ok t dev" using c by (simp add: disk_ok_def media_ok_def f cold_def)
  show "nothing_mounted t" using c by (auto simp: nothing_mounted_def busy_set_def f g cold_def)
  have "dev \<noteq> NO_DEVICE" using c by (simp add: cold_def)
  then have "bfind dev k t = None" for k by (auto simp: bfind_None buf_holds_def g)
  then show "view t dev = disk s dev" by (simp add: fun_eq_iff view_miss g)
  show "fst (d_open dev 0 t) = 0" using c d_open_plat [OF f(1), of dev 0] by (simp add: cold_def)
qed

lemma mount_root_boots:
  assumes line: "boot_line e names line" and e: "plain_env e known P"
    and b: "boot_area P (krn b)" "argv_at P [init_name] b"
    and cmd: "cmdline b = Some a" "cstr (kmem (krn b)) a = Some line" "boot_choice names line = dev"
    and disk: "disk_ok (krn b) dev" "nothing_mounted (krn b)" "fst (d_open dev 0 (krn b)) = 0"
    and img: "view (krn b) dev = img" "mountable img" "image_free img bs"
  defines "args \<equiv> init_name # filter (boot_arg known) (boot_words (boot_tail names line))"
  obtains b' where "mount_root e b = Some b'" "argv_at P args b'" "boot_area P (krn b')" "root_dev (krn b') = dev"
    "disk_ok (krn b') dev" "busy_set (krn b') = {}" "nbufs (krn b') = nbufs (krn b)" "i_tab (krn b') = i_tab (krn b)"
    "fs_tab_get dev (krn b') = Some 0" "free_ok (krn b') dev 0 bs" "s_isize (fs_at (krn b') 0) = s_isize (image_super img)"
    "\<And>k. k \<noteq> 1 \<Longrightarrow> view (krn b') dev k = img k"
proof -
  note ln = line [unfolded boot_line_def] and env = e [unfolded plain_env_def]
  let ?tail = "boot_tail names line"
  let ?c = "snd (parse_args e ?tail b)"
  have tail: "length ?tail \<le> 240" "0 \<notin> set ?tail" using boot_tail_part [of names line] ln by auto
  have param: "be_param e = (\<lambda>p s. (known p, s))" using env by simp
  note vec = boot_vector [OF b param tail, folded args_def]
  obtain mu where mu: "krn ?c = krn b\<lparr>umem := mu\<rparr>" using vec(2) by blast
  have nm: "be_names e = names_text names" "names \<noteq> []" "\<forall>(n, h)\<in>set names. plain_name n" "line \<noteq> []"
    "boot_choice names line \<noteq> BAD_ROOT_DEV" using ln by auto
  obtain mk where rd: "get_root_dev e b = Some (dev, ?c\<lparr>krn := (krn ?c)\<lparr>kmem := mk\<rparr>, cmdline := None\<rparr>)"
    using get_root_dev_cmdline [OF nm(1-3) cmd(1,2) nm(4,5)] unfolding cmd(3) by blast
  define s where "s = (krn ?c)\<lparr>kmem := mk, root_dev := dev\<rparr>"
  have same: "store_same (krn b) s" by (simp add: s_def mu store_same_def)
  note keep = store_same_keeps [OF same]
  have ds: "disk_ok s dev" "nothing_mounted s" "fst (d_open dev 0 s) = 0" "img = view s dev"
    using disk img(1) keep by simp_all
  obtain t where t: "fmount dev None (ucast (ro ?c)) s = Some (False, t)" "disk_ok t dev" "busy_set t = {}" "mount_frame s t"
    "fs_tab_get dev t = Some 0" "free_ok t dev 0 bs" "s_isize (fs_at t 0) = s_isize (image_super img)"
    "\<And>k. k \<noteq> 1 \<Longrightarrow> view t dev k = img k" "m_flags (fs_tab t 0) = mount_flags (ucast (ro ?c)) (image_super img)"
    by (rule mounted_free [OF ds(1-4) img(2,3)]) (rule that, assumption+)
  note fr = mount_frame_fields [OF t(4)]
  define d where "d = ?c\<lparr>krn := t, cmdline := None\<rparr>"
  have run: "mount_root e b = Some d"
    using rd t(1) by (subst mount_root.simps) (simp add: s_def d_def)
  show ?thesis
  proof (rule that [OF run])
    have "umem t = umem (krn ?c)" using fr(5) by (simp add: s_def)
    then show "argv_at P args d" using vec(1) by (simp add: argv_at_def d_def)
    show "boot_area P (krn d)" using b(1) fr(3,12) by (simp add: boot_area_def d_def s_def mu)
    show "root_dev (krn d) = dev" using fr(13) by (simp add: d_def s_def)
    show "nbufs (krn d) = nbufs (krn b)" "i_tab (krn d) = i_tab (krn b)" using fr(1,4) by (simp_all add: d_def s_def mu)
  qed (use t in \<open>simp_all add: d_def\<close>)
qed

text \<open>What /init finds.\<close>

definition booted :: "kst \<Rightarrow> u16 \<Rightarrow> dinode \<Rightarrow> u16 list \<Rightarrow> u8 list list \<Rightarrow> bool" where
  "booted s dev rootnode bs args \<longleftrightarrow> root_dev s = dev \<and> u_cwd s = Some 19 \<and> u_root s = Some 19
     \<and> c_dev (i_tab s 19) = dev \<and> c_num (i_tab s 19) = ROOTINODE \<and> c_node (i_tab s 19) = rootnode
     \<and> c_refs (i_tab s 19) = 3 \<and> free_ok s dev 0 bs \<and> disk_ok s dev \<and> busy_set s = {}
     \<and> rargs (u_argn1 s) s = (Some \<lparr>a_argc = length args, a_arglen = length (flat args), a_buf = flat args\<rparr>, s)
     \<and> get_range (umem s) (u_argn s) 6 = init_name @ [0]"

lemma free_ok_cong:
  assumes "fs_tab t = fs_tab s" "\<And>k. view t dev k = view s dev k"
  shows "free_ok t dev m bs = free_ok s dev m bs"
proof -
  have "view t dev = view s dev" using assms(2) by (simp add: fun_eq_iff)
  then show ?thesis using fs_tab_get_cong [OF assms(1)] assms(1) by (simp add: free_ok_def)
qed

lemma complete_init_frame:
  "store_same (krn b) (krn (complete_init e b))"
  "root_dev (krn (complete_init e b)) = root_dev (krn b)"
  by (auto simp: complete_init_def uputw_def valaddr_def Let_def upd_p_def store_same_def)

lemma enter_root:
  assumes e: "be_progload e = of_nat P" and b: "boot_area P (krn b)" "argv_at P args b"
    and fit: "2 * length args + 2 \<le> 2048" "taken args \<le> 2048" "length (flat args) \<le> 500" "\<forall>a\<in>set args. 0 \<notin> set a"
      "args \<noteq> []" "hd args = init_name"
    and opn: "i_open dev ROOTINODE s = Some (Some 19, u)" "root_dev s = dev" "krn b = u"
    and core: "io_core (u\<lparr>i_tab := i_tab s\<rparr>) = io_core s" "io_step s u (view s)"
    and tab: "i_tab u = (i_tab s)(19 := c)" "c_dev c = dev" "c_num c = ROOTINODE" "c_node c = node" "c_refs c = 1"
    and s: "free_ok s dev 0 bs" "disk_ok s dev" "busy_set s = {}"
  defines "v \<equiv> i_ref 19 (i_ref 19 (krn (complete_init e b)))"
  shows "booted (v\<lparr>u_cwd := Some 19, u_root := Some 19, u_time := rdtime32 v\<rparr>) dev node bs args"
proof -
  let ?w = "krn (complete_init e b)" and ?x = "v\<lparr>u_cwd := Some 19, u_root := Some 19, u_time := rdtime32 v\<rparr>"
  note vec = complete_init_vec [OF b e fit(1,2,4)]
  have st: "store_same u ?w" "root_dev ?w = root_dev u" using complete_init_frame [where b = b and e = e, unfolded opn(3)] by simp_all
  have fu: "fs_tab u = fs_tab s" "plat u = plat s" "root_dev u = root_dev s"
    using io_core_fields [OF core(1)] by simp_all
  have x: "fs_tab ?x = fs_tab ?w" "bufpool ?x = bufpool ?w" "nbufs ?x = nbufs ?w" "disk ?x = disk ?w" "plat ?x = plat ?w"
    "umem ?x = umem ?w" "u_argn1 ?x = u_argn1 ?w" "u_argn2 ?x = u_argn2 ?w" "u_argn ?x = u_argn ?w" "u_top ?x = u_top ?w"
    by (simp_all add: v_def i_ref_def upd_i_def)
  have it: "i_tab ?x 19 = c\<lparr>c_refs := c_refs c + 1 + 1\<rparr>"
    using st(1) tab(1) by (simp add: v_def i_ref_def upd_i_def store_same_def)
  have dn: "dev \<noteq> NO_DEVICE" using s(2) by (simp add: disk_ok_def)
  have du: "disk_ok u dev" "busy_set u = {}" "view u dev k = view s dev k" for k
    using io_step_disk [OF core(2) s(2)] core(2) s(3) dn by (simp_all add: io_step_def)
  have view: "view ?x dev k = view s dev k" for k
    using cache_cong(2) [of ?x ?w] x(2-5) store_same_keeps(2) [OF st(1)] du(3) by simp
  have "disk_ok ?x dev = disk_ok ?w dev" using cache_cong(1) [of ?x ?w] x(2-5) by (simp add: disk_ok_def media_ok_def)
  then have disk: "disk_ok ?x dev" using store_same_keeps(1) [OF st(1)] du(1) by simp
  have busy: "busy_set ?x = {}"
    using store_same_keeps(5) [OF st(1)] du(2) x(2,3) by (simp add: busy_set_def)
  have free: "free_ok ?x dev 0 bs"
  proof -
    have "fs_tab ?x = fs_tab s" using x(1) st(1) fu(1) by (simp add: store_same_def)
    then show ?thesis using free_ok_cong [of ?x s dev] view s(1) by simp
  qed
  have user: "user_vec ?x a as = user_vec ?w a as" for a as
  proof -
    have "user_ok ?x a n = user_ok ?w a n" for a n using x(5,10) by (simp add: user_ok_def)
    then show ?thesis using x(6) by (induction as arbitrary: a) (simp_all add: Let_def)
  qed
  have "rargs (u_argn1 ?x) ?x = (Some \<lparr>a_argc = length args, a_arglen = length (flat args), a_buf = flat args\<rparr>, ?x)"
    using rargs_loop_ok [of ?x "u_argn1 ?x" args "[]" 0] vec(1) user x(7) fit(3) by (simp add: rargs_def)
  moreover have "get_range (umem ?x) (u_argn ?x) 6 = init_name @ [0]"
  proof -
    have "length init_name + 1 = 6" by (simp add: init_name_def)
    then show ?thesis using vec(5) [OF fit(5)] x(6,9) fit(6) by simp
  qed
  ultimately show ?thesis
    using free disk busy it tab opn(2) fu(3) st(2)
    by (simp add: booted_def) (simp add: v_def i_ref_def upd_i_def)
qed

text \<open>The device holds a file system that can be mounted, with the free blocks \<open>bs\<close> and a root directory.\<close>

definition root_image :: "image \<Rightarrow> u16 list \<Rightarrow> bool" where
  "root_image img bs \<longleftrightarrow> mountable img \<and> image_free img bs \<and> 1 < (s_isize (image_super img) - 2) * 8
     \<and> i_nlink (image_inode img 1) \<noteq> 0 \<and> i_mode (image_inode img 1) AND F_MASK \<noteq> 0"

lemma boots:
  assumes c: "cold e P dev (krn b)" and e: "plain_env e known P" and line: "boot_line e names line"
    and cmd: "cmdline b = Some a" "cstr (uput_raw (replicate 32 0) (of_nat (P + 2048)) (kmem (krn b))) a = Some line"
      "boot_choice names line = dev"
    and img: "root_image (disk (krn b) dev) bs"
  defines "args \<equiv> init_name # filter (boot_arg known) (boot_words (boot_tail names line))"
  shows "\<exists>b'. fuzix_main e b = Some b' \<and> booted (krn b') dev (image_inode (disk (krn b) dev) 1) bs args"
proof -
  let ?img = "disk (krn b) dev"
  note env = e [unfolded plain_env_def] and im = img [unfolded root_image_def] and ln = line [unfolded boot_line_def]
  define s1 where "s1 = snd (d_open (be_ttydev e) 0 (tty_init ((krn b)\<lparr>inint := False, u_insys := True\<rparr>)))"
  define t where "t = fstabinit (bufinit (s1\<lparr>ptab_end := be_ptabsize e\<rparr>))"
  note fs = first_state [OF c, where tty = "be_ttydev e" and n = "be_ptabsize e", folded s1_def, folded t_def]
  have opn: "d_open (be_ttydev e) 0 (tty_init ((krn b)\<lparr>inint := False, u_insys := True\<rparr>)) = (0, s1)"
  proof -
    obtain T where "tty_init ((krn b)\<lparr>inint := False, u_insys := True\<rparr>) = (krn b)\<lparr>inint := False, u_insys := True, ttydata := T\<rparr>"
      using fold_upd_t [of "\<lambda>t. t\<lparr>t_termios := ttydflt\<rparr>"] by (metis tty_init_def)
    then have "fst (d_open (be_ttydev e) 0 (tty_init ((krn b)\<lparr>inint := False, u_insys := True\<rparr>))) = 0"
      using c d_open_plat [of "(krn b)\<lparr>inint := False, u_insys := True, ttydata := T\<rparr>" "krn b"] by (simp add: cold_def)
    then show ?thesis by (simp add: s1_def prod_eq_iff)
  qed
  obtain b1 where b1: "create_init e (b\<lparr>krn := t\<rparr>) = Some b1" "store_same t (krn b1)" "argv_at P [init_name] b1"
    "boot_area P (krn b1)" "kmem (krn b1) = uput_raw (replicate 32 0) (of_nat (P + 2048)) (kmem t)"
    "cmdline b1 = cmdline b" "ro b1 = ro b"
    by (rule create_init_builds [OF e, of "b\<lparr>krn := t\<rparr>"]) (use c fs in \<open>simp_all add: cold_def\<close>)
  define b2 where "b2 = b1\<lparr>krn := (krn b1)\<lparr>ticks_per_dsecond := of_nat (be_tickspersec e div 10)\<rparr>\<rparr>"
  have same: "store_same t (krn b2)" using b1(2) by (simp add: b2_def store_same_def)
  note keep = store_same_keeps [OF same]
  have b2: "boot_area P (krn b2)" "argv_at P [init_name] b2" "cmdline b2 = Some a" "cstr (kmem (krn b2)) a = Some line"
    using b1 cmd fs(11) by (simp_all add: b2_def boot_area_def argv_at_def)
  have d2: "disk_ok (krn b2) dev" "nothing_mounted (krn b2)" "fst (d_open dev 0 (krn b2)) = 0" "view (krn b2) dev = ?img"
    "mountable ?img" "image_free ?img bs"
    using fs keep im by simp_all
  obtain b3 where b3: "mount_root e b2 = Some b3" "argv_at P args b3" "boot_area P (krn b3)" "root_dev (krn b3) = dev"
    "disk_ok (krn b3) dev" "busy_set (krn b3) = {}" "nbufs (krn b3) = nbufs (krn b2)" "i_tab (krn b3) = i_tab (krn b2)"
    "fs_tab_get dev (krn b3) = Some 0" "free_ok (krn b3) dev 0 bs" "s_isize (fs_at (krn b3) 0) = s_isize (image_super ?img)"
    "\<And>k. k \<noteq> 1 \<Longrightarrow> view (krn b3) dev k = ?img k"
    by (rule mount_root_boots [OF line e b2 cmd(3) d2, folded args_def]) (rule that, assumption+)
  let ?s = "krn b3"
  have it: "c_refs (i_tab ?s i) = 0" "c_num (i_tab ?s i) \<noteq> 1" if "i < ITABSIZE" for i
    using that c b3(8) same fs(6) by (simp_all add: store_same_def cold_def)
  have nb: "0 < nbufs ?s" using b3(7) d2(2) by (simp add: nothing_mounted_def)
  have two: "inode_blk 1 \<noteq> 1" by code_simp
  have node: "disk_inode ?s dev 1 = image_inode ?img 1" using b3(12) [OF two] by (simp add: disk_inode_def image_inode_def)
  have bound: "\<not> (ROOTINODE < ROOTINODE \<or> ROOTINODE \<ge> (s_isize (fs_at ?s 0) - 2) * 8)"
    using im b3(11) by (simp add: not_le)
  obtain u where u: "i_open dev 1 ?s = Some (Some 19, u)" "io_core (u\<lparr>i_tab := i_tab ?s\<rparr>) = io_core ?s" "io_step ?s u (view ?s)"
    "i_tab u = (i_tab ?s)(19 := (i_tab ?s 19)\<lparr>c_node := disk_inode ?s dev 1, c_dev := dev, c_num := 1, c_magic := CMAGIC,
       c_flags := (if m_flags (fs_tab ?s 0) AND MS_RDONLY \<noteq> 0 then CRDONLY else 0), c_refs := 1\<rparr>)"
    by (rule i_open_loads [OF b3(5,6) nb b3(9) bound it]) (use im node in auto)
  define v where "v = i_ref 19 (i_ref 19 (krn (complete_init e (b3\<lparr>krn := u\<rparr>))))"
  define b4 where "b4 = (complete_init e (b3\<lparr>krn := u\<rparr>))\<lparr>krn := v\<lparr>u_cwd := Some 19, u_root := Some 19, u_time := rdtime32 v\<rparr>\<rparr>"
  have run: "fuzix_main e b = Some b4"
    using opn b1(1) b3(1,4) u(1) env by (simp add: fuzix_main_def t_def b2_def b4_def v_def Let_def)
  have um: "umem u = umem ?s" "plat u = plat ?s" "u_top u = u_top ?s"
    using io_core_fields(4,13) [OF u(2)] u(2) [THEN arg_cong, of u_top] by (simp_all add: io_core_def)
  have area: "boot_area P (krn (b3\<lparr>krn := u\<rparr>))" "argv_at P args (b3\<lparr>krn := u\<rparr>)"
    using b3(2,3) um by (simp_all add: boot_area_def argv_at_def)
  have tail: "length (boot_tail names line) \<le> 240" "0 \<notin> set (boot_tail names line)"
    using boot_tail_part [of names line] ln by auto
  note fit = boot_args_fit [OF tail(1), of known, folded args_def]
  have clean: "\<forall>x\<in>set args. 0 \<notin> set x"
    using tail(2) boot_words_chars [of _ "boot_tail names line" 0] by (auto simp: args_def init_name_def)
  have head: "args \<noteq> []" "hd args = init_name" by (simp_all add: args_def)
  have P: "be_progload e = of_nat P" using env by simp
  have "booted (krn b4) dev (image_inode ?img 1) bs args"
    using enter_root [OF P area fit clean head u(1) b3(4) _ u(2,3,4) _ _ _ _ b3(10,5,6), where node = "image_inode ?img 1"] node
    by (simp add: b4_def v_def)
  then show ?thesis using run by blast
qed

subsection \<open>A lost file table entry\<close>

text \<open>create\_init() calls newproc() while udata.u\_files still is all zeroes: ten descriptors that name entry 0 of the open
  file table, whose reference count becomes ten. The descriptors are wiped afterwards, the count is not.\<close>

lemma first_process_leaks_file:
  assumes "u_cwd s = None" "u_root s = None" "u_files s = (\<lambda>_. 0)"
  shows "o_refs (of_tab (newproc p s) 0) = o_refs (of_tab s 0) + 10"
proof -
  define P where "P t \<longleftrightarrow> u_files t = u_files s \<and> of_tab t = of_tab s \<and> u_cwd t = None \<and> u_root t = None" for t :: kst
  define Q where "Q t \<longleftrightarrow> o_refs (of_tab t 0) = o_refs (of_tab s 0) + 10" for t :: kst
  have "Q (fold (\<lambda>j s. if u_files s j \<noteq> NO_FILE
      then upd_o (unat (u_files s j)) (\<lambda>f. f\<lparr>o_refs := o_refs f + 1\<rparr>) s else s) [0..<UFTSIZE] t)" if "P t" for t
    using that assms(3) by (simp add: P_def Q_def upt_rec upd_o_def)
  moreover have "P s" using assms by (simp add: P_def)
  ultimately have "Q (newproc p s)"
    unfolding newproc_def
    by (intro let_keeps [where P = P and Q = Q]) (simp_all add: P_def upd_p_def i_ref_opt_def)
  then show ?thesis by (simp add: Q_def)
qed

end
