(* ===== verification/BlkDev.thy ===== *)
theory BlkDev
  imports BufCache
begin

text \<open>
  Kernel/dev/blkdev.c and Kernel/dev/mbr.c: the block layer that ports put under the device switch for their
  drives, and the reading of PC partition tables. The layer's tables
  stand beside the kernel's state (\<open>kern\<close>) in the record \<open>bds\<close>, with the content of the drives. What a driver supplies is
  its transfer function: how many sectors a request moves, 0 for a failure; which sectors and which memory these are is
  what struct blkparam asks for. The letters and numbers written to the console are left out. None stands for
  an access outside a table or buffer, a call through a null pointer, or a loop that does not end.
\<close>

unbundle bit_operations_syntax

subsection \<open>The tables\<close>

abbreviation (input) MAX_PARTITIONS :: u8 where "MAX_PARTITIONS \<equiv> 15"

text \<open>Where a transfer goes: into a buffer of the pool, or to an address in the memory that \<open>is_user\<close> selects.\<close>

datatype iobuf = Pool nat nat | Mem u16

record blkparam =
  addr :: iobuf
  is_user :: u8
  swap_page :: u8
  blkdev :: nat
  lba :: u32
  nblock :: u16
  is_read :: bool

record blkdev_t =
  transfer :: "(blkparam \<Rightarrow> u8) option"
  flush :: "u16 option"
  drive_lba_count :: u32
  lba_first :: "nat \<Rightarrow> u32"
  lba_count :: "nat \<Rightarrow> u32"

record bds =
  kern :: kst
  u_dptr :: iobuf
  swappage :: u16
  blk_op :: blkparam
  blkdev_table :: "nat \<Rightarrow> blkdev_t"
  sectors :: "nat \<Rightarrow> u32 \<Rightarrow> block"
  swapmem :: "u8 \<Rightarrow> u16 \<Rightarrow> u8"

definition upd_op :: "(blkparam \<Rightarrow> blkparam) \<Rightarrow> bds \<Rightarrow> bds" where
  "upd_op f st = st\<lparr>blk_op := f (blk_op st)\<rparr>"

definition upd_drive :: "nat \<Rightarrow> (blkdev_t \<Rightarrow> blkdev_t) \<Rightarrow> bds \<Rightarrow> bds" where
  "upd_drive d f st = st\<lparr>blkdev_table := (blkdev_table st)(d := f (blkdev_table st d))\<rparr>"

definition blk_error :: "u16 \<Rightarrow> bds \<Rightarrow> u16 \<times> bds" where
  "blk_error e st = (0xFFFF, st\<lparr>kern := (kern st)\<lparr>u_error := e\<rparr>\<rparr>)"

subsection \<open>A transfer\<close>

fun ptr_add :: "iobuf \<Rightarrow> nat \<Rightarrow> iobuf" where
  "ptr_add (Pool b off) n = Pool b (off + n)"
| "ptr_add (Mem a) n = Mem (a + of_nat n)"

definition space :: "bds \<Rightarrow> u16 \<Rightarrow> u8" where
  "space st = (if is_user (blk_op st) = 0 then kmem (kern st) else if is_user (blk_op st) = 1 then umem (kern st)
     else swapmem st (swap_page (blk_op st)))"

definition set_space :: "(u16 \<Rightarrow> u8) \<Rightarrow> bds \<Rightarrow> bds" where
  "set_space m st = (if is_user (blk_op st) = 0 then st\<lparr>kern := (kern st)\<lparr>kmem := m\<rparr>\<rparr>
     else if is_user (blk_op st) = 1 then st\<lparr>kern := (kern st)\<lparr>umem := m\<rparr>\<rparr>
     else st\<lparr>swapmem := (swapmem st)(swap_page (blk_op st) := m)\<rparr>)"

fun sector_in :: "iobuf \<Rightarrow> block \<Rightarrow> bds \<Rightarrow> bds option" where
  "sector_in (Pool b off) x st =
     (if is_user (blk_op st) = 0 \<and> off = 0 then Some (st\<lparr>kern := upd_b b (\<lambda>e. e\<lparr>bf_data := x\<rparr>) (kern st)\<rparr>) else None)"
| "sector_in (Mem a) x st = Some (set_space (put_range a (get_bytes x 0 BLKSIZE) (space st)) st)"

fun sector_out :: "iobuf \<Rightarrow> bds \<Rightarrow> block option" where
  "sector_out (Pool b off) st =
     (if is_user (blk_op st) = 0 \<and> off = 0 then Some (bf_data (bufpool (kern st) b)) else None)"
| "sector_out (Mem a) st = Some (put_bytes zero_block 0 (get_range (space st) a BLKSIZE))"

definition move_sector :: "u32 \<Rightarrow> iobuf \<Rightarrow> bds \<Rightarrow> bds option" where
  "move_sector n p st =
     (let d = blkdev (blk_op st) in
      if is_read (blk_op st) then sector_in p (sectors st d n) st
      else do { x \<leftarrow> sector_out p st; Some (st\<lparr>sectors := (sectors st)(d := (sectors st d)(n := x))\<rparr>) })"

fun move_sectors :: "nat \<Rightarrow> u32 \<Rightarrow> iobuf \<Rightarrow> bds \<Rightarrow> bds option" where
  "move_sectors 0 n p st = Some st"
| "move_sectors (Suc k) n p st = do { st \<leftarrow> move_sector n p st; move_sectors k (n + 1) (ptr_add p BLKSIZE) st }"

text \<open>\<^verbatim>\<open>blk_op.blkdev->transfer()\<close>\<close>

definition call_transfer :: "bds \<Rightarrow> (u8 \<times> bds) option" where
  "call_transfer st = do {
     f \<leftarrow> transfer (blkdev_table st (blkdev (blk_op st)));
     let n = f (blk_op st);
     st \<leftarrow> move_sectors (unat n) (lba (blk_op st)) (addr (blk_op st)) st;
     Some (n, st)
   }"

subsection \<open>blkdev.c\<close>

text \<open>\<open>m\<close> is MAX\_BLKDEV.\<close>

definition blkdev_open :: "nat \<Rightarrow> u8 \<Rightarrow> u16 \<Rightarrow> bds \<Rightarrow> u16 \<times> bds" where
  "blkdev_open m mn flags st =
     (let drive = unat (drop_bit 4 mn); pt = unat (mn AND 0x0F) in
      if drive < m \<and> drive_lba_count (blkdev_table st drive) \<noteq> 0
          \<and> (pt = 0 \<or> lba_count (blkdev_table st drive) (pt - 1) \<noteq> 0)
      then (0, st) else blk_error ENODEV st)"

text \<open>d\_blkoff(BLKSHIFT), with the pointer that it sets beside the kernel's fields.\<close>

definition raw_setup :: "bds \<Rightarrow> u16 \<times> bds" where
  "raw_setup st =
     (let (bad, k) = d_blkoff 9 (kern st) in
      if bad then (0xFFFF, st\<lparr>kern := k\<rparr>) else (0, st\<lparr>kern := k, u_dptr := Mem (u_base k)\<rparr>))"

partial_function (option) blkdev_loop :: "u16 \<Rightarrow> bds \<Rightarrow> (u16 option \<times> bds) option" where
  "blkdev_loop count st =
     (if nblock (blk_op st) = 0 then Some (Some count, st)
      else do {
        (n, st) \<leftarrow> call_transfer st;
        if n = 0 then Some (None, st)
        else blkdev_loop (count + ucast n)
          (upd_op (\<lambda>p. p\<lparr>nblock := nblock p - ucast n, addr := ptr_add (addr p) (unat n * BLKSIZE), lba := lba p + ucast n\<rparr>) st)
      })"

definition blkdev_setup :: "u8 \<Rightarrow> bds \<Rightarrow> (bool \<times> bds)" where
  "blkdev_setup pt st =
     (let st = upd_op (\<lambda>p. p\<lparr>nblock := u_nblock (kern st), lba := ucast (u_block (kern st)), addr := u_dptr st\<rparr>) st;
          d = blkdev_table st (blkdev (blk_op st)); i = unat pt - 1 in
      if pt = 0 then (lba (blk_op st) < drive_lba_count d, st)
      else if lba (blk_op st) \<ge> lba_count d i then (False, st)
      else (True, upd_op (\<lambda>p. p\<lparr>lba := lba p + lba_first d i\<rparr>) st))"

definition blkdev_transfer :: "nat \<Rightarrow> u8 \<Rightarrow> u8 \<Rightarrow> bds \<Rightarrow> (u16 \<times> bds) option" where
  "blkdev_transfer m mn rawflag st =
     (if unat (drop_bit 4 mn) \<ge> m then None
      else let st = upd_op (\<lambda>p. p\<lparr>blkdev := unat (drop_bit 4 mn), is_user := rawflag\<rparr>) st;
               (r, st) = (if rawflag = 1 then raw_setup st
                          else if rawflag = 2 then (0, upd_op (\<lambda>p. p\<lparr>swap_page := ucast (swappage st)\<rparr>) st)
                          else (0, st))
           in if r \<noteq> 0 then Some (0xFFFF, st)
              else if rawflag > 2 then Some (blk_error EIO st)
              else let (ok, st) = blkdev_setup (mn AND 0x0F) st
                   in if \<not> ok then Some (blk_error EIO st)
                      else do {
                        (c, st) \<leftarrow> blkdev_loop 0 st;
                        case c of None \<Rightarrow> Some (blk_error EIO st) | Some count \<Rightarrow> Some (push_bit 9 count, st)
                      })"

definition blkdev_read :: "nat \<Rightarrow> u8 \<Rightarrow> u8 \<Rightarrow> u8 \<Rightarrow> bds \<Rightarrow> (u16 \<times> bds) option" where
  "blkdev_read m mn rawflag flag st = blkdev_transfer m mn rawflag (upd_op (\<lambda>p. p\<lparr>is_read := True\<rparr>) st)"

definition blkdev_write :: "nat \<Rightarrow> u8 \<Rightarrow> u8 \<Rightarrow> u8 \<Rightarrow> bds \<Rightarrow> (u16 \<times> bds) option" where
  "blkdev_write m mn rawflag flag st = blkdev_transfer m mn rawflag (upd_op (\<lambda>p. p\<lparr>is_read := False\<rparr>) st)"

definition blkdev_ioctl :: "nat \<Rightarrow> u8 \<Rightarrow> u16 \<Rightarrow> u16 \<Rightarrow> bds \<Rightarrow> (u16 \<times> bds) option" where
  "blkdev_ioctl m mn request data st =
     (if request \<noteq> BLKFLSBUF then Some (0xFFFF, st)
      else if unat (drop_bit 4 mn) \<ge> m then None
      else let st = upd_op (\<lambda>p. p\<lparr>blkdev := unat (drop_bit 4 mn)\<rparr>) st
           in Some (case flush (blkdev_table st (unat (drop_bit 4 mn))) of Some r \<Rightarrow> r | None \<Rightarrow> 0, st))"

definition blkdev_alloc :: "nat \<Rightarrow> bds \<Rightarrow> nat option" where
  "blkdev_alloc m st = first_index m (\<lambda>d. transfer (blkdev_table st d) = None)"

subsection \<open>mbr.c\<close>

text \<open>The boot record in the buffer \<open>br\<close>: four entries of 16 bytes from byte 446 on, then the signature.\<close>

definition entry_pos :: "nat \<Rightarrow> nat" where
  "entry_pos i = 446 + 16 * i"

definition part_type :: "block \<Rightarrow> nat \<Rightarrow> u8" where
  "part_type x i = x (entry_pos i + 4)"

definition part_first :: "block \<Rightarrow> nat \<Rightarrow> u32" where
  "part_first x i = rd32 (get_bytes x (entry_pos i + 8) 4) 0"

definition part_count :: "block \<Rightarrow> nat \<Rightarrow> u32" where
  "part_count x i = rd32 (get_bytes x (entry_pos i + 12) 4) 0"

definition signature_ok :: "block \<Rightarrow> bool" where
  "signature_ok x \<longleftrightarrow> rd16 (get_bytes x 510 2) 0 = 0xAA55"

definition is_extended :: "u8 \<Rightarrow> bool" where
  "is_extended t \<longleftrightarrow> t = 0x05 \<or> t = 0x0F \<or> t = 0x85"

abbreviation buf :: "nat \<Rightarrow> bds \<Rightarrow> block" where
  "buf br st \<equiv> bf_data (bufpool (kern st) br)"

text \<open>One entry that is not free, at the slot \<open>next\<close>: the default case of the switch.\<close>

definition add_partition :: "nat \<Rightarrow> u32 \<Rightarrow> nat \<Rightarrow> u8 \<Rightarrow> bds \<Rightarrow> u8 \<times> bds" where
  "add_partition br br_offset i next st =
     (next + 1, upd_drive (blkdev (blk_op st)) (\<lambda>d. d\<lparr>
        lba_first := (lba_first d)(unat next := br_offset + part_first (buf br st) i),
        lba_count := (lba_count d)(unat next := part_count (buf br st) i)\<rparr>) st)"

definition mbr_entry :: "nat \<Rightarrow> u32 \<Rightarrow> u32 \<Rightarrow> nat \<Rightarrow> u8 \<times> bds \<Rightarrow> u8 \<times> bds" where
  "mbr_entry br ep_offset br_offset i = (\<lambda>(next, st).
     let t = part_type (buf br st) i in
     if t = 0 then (next, st)
     else if is_extended t then
       let st = upd_op (\<lambda>p. p\<lparr>lba := ep_offset + part_first (buf br st) i\<rparr>) st in
       if next \<ge> 4 then (next, st)
       else add_partition br br_offset i next
         (st\<lparr>kern := upd_b br (\<lambda>e. e\<lparr>bf_data := put_bytes (bf_data e) (entry_pos i + 12) (le32 2)\<rparr>) (kern st)\<rparr>)
     else add_partition br br_offset i next st)"

fun mbr_entries :: "nat \<Rightarrow> u32 \<Rightarrow> u32 \<Rightarrow> nat list \<Rightarrow> u8 \<times> bds \<Rightarrow> u8 \<times> bds" where
  "mbr_entries br ep_offset br_offset [] x = x"
| "mbr_entries br ep_offset br_offset (i # is) x =
     (if fst x < MAX_PARTITIONS then mbr_entries br ep_offset br_offset is (mbr_entry br ep_offset br_offset i x) else x)"

text \<open>
  The body of the do loop, with \<open>seen\<close>, \<open>next\<close> and \<open>ep_offset\<close> passed along. The flag tells whether the loop goes on to its condition;
  \<open>mo\<close> is CONFIG\_MBR\_OFFSET where a port has it.
\<close>

definition mbr_step :: "u32 option \<Rightarrow> nat \<Rightarrow> u8 \<Rightarrow> u8 \<Rightarrow> u32 \<Rightarrow> bds \<Rightarrow> (bool \<times> u8 \<times> u8 \<times> u32 \<times> bds) option" where
  "mbr_step mo br seen next ep_offset st = do {
     (n, st) \<leftarrow> call_transfer (upd_op (\<lambda>p. p\<lparr>nblock := 1\<rparr>) st);
     if n = 0 \<or> \<not> signature_ok (buf br st) then
       (case mo of
          Some x \<Rightarrow> if lba (blk_op st) = 0 then Some (True, seen, next, ep_offset, upd_op (\<lambda>p. p\<lparr>lba := x\<rparr>) st)
                    else Some (False, seen, next, ep_offset, st)
        | None \<Rightarrow> Some (False, seen, next, ep_offset, st))
     else if seen \<ge> 50 then Some (False, seen, next, ep_offset, st)
     else let (ep_offset, next) = (if seen = 1 then (lba (blk_op st), 4) else (ep_offset, next));
              br_offset = lba (blk_op st);
              (next, st) = mbr_entries br ep_offset br_offset [0..<4] (next, upd_op (\<lambda>p. p\<lparr>lba := 0\<rparr>) st)
          in Some (True, seen + 1, next, ep_offset, st)
   }"

lemma sector_in_op: "sector_in p x st = Some t \<Longrightarrow> blk_op t = blk_op st"
  by (cases p) (auto simp: set_space_def split: if_splits)

lemma move_sector_op: "move_sector n p st = Some t \<Longrightarrow> blk_op t = blk_op st"
  by (auto simp: move_sector_def Let_def sector_in_op split: if_splits Option.bind_splits)

lemma move_sectors_op: "move_sectors k n p st = Some t \<Longrightarrow> blk_op t = blk_op st"
  by (induction k arbitrary: n p st) (auto simp: move_sector_op split: Option.bind_splits)

lemma call_transfer_op: "call_transfer st = Some (n, t) \<Longrightarrow> blk_op t = blk_op st"
  by (auto simp: call_transfer_def Let_def move_sectors_op split: Option.bind_splits)

text \<open>The body either adds one to \<open>seen\<close>, which stays below 51, or goes from sector 0 to another one.\<close>

lemma mbr_step_progress:
  assumes "mbr_step mo br seen next ep st = Some (True, seen', next', ep', st')" "lba (blk_op st') \<noteq> 0"
  shows "seen < 50 \<and> seen' = seen + 1 \<or> seen' = seen \<and> lba (blk_op st) = 0"
proof -
  obtain n u where "call_transfer (upd_op (\<lambda>p. p\<lparr>nblock := 1\<rparr>) st) = Some (n, u)"
    using assms(1) by (auto simp: mbr_step_def split: Option.bind_splits)
  moreover from call_transfer_op [OF this] have "lba (blk_op u) = lba (blk_op st)" by (simp add: upd_op_def)
  ultimately show ?thesis
    using assms by (auto simp: mbr_step_def upd_op_def Let_def split: if_splits option.splits prod.splits)
qed

function mbr_loop :: "u32 option \<Rightarrow> nat \<Rightarrow> u8 \<Rightarrow> u8 \<Rightarrow> u32 \<Rightarrow> bds \<Rightarrow> (u8 \<times> u32 \<times> bds) option" where
  "mbr_loop mo br seen next ep_offset st =
     (case mbr_step mo br seen next ep_offset st of
        None \<Rightarrow> None
      | Some (again, seen, next, ep_offset, st) \<Rightarrow>
          if again \<and> lba (blk_op st) \<noteq> 0 then mbr_loop mo br seen next ep_offset st else Some (next, ep_offset, st))"
  by pat_completeness auto

termination
proof (relation "measure (\<lambda>(mo, br, seen, next, ep, st). 2 * (51 - unat seen) + (if lba (blk_op st) = 0 then 1 else 0))")
  show "wf (measure (\<lambda>(mo :: u32 option, br :: nat, seen :: u8, next :: u8, ep :: u32, st).
    2 * (51 - unat seen) + (if lba (blk_op st) = 0 then 1 else 0)))" by simp
next
  fix mo :: "u32 option" and br :: nat and seen nx seen' nx' :: u8 and ep ep' :: u32 and st st' again x xa xb xc
  assume a: "mbr_step mo br seen nx ep st = Some x" "(again, xa) = x" "(seen', xb) = xa" "(nx', xc) = xb" "(ep', st') = xc"
    "again \<and> lba (blk_op st') \<noteq> 0"
  then have "seen < 50 \<and> seen' = seen + 1 \<or> seen' = seen \<and> lba (blk_op st) = 0" by (intro mbr_step_progress) auto
  moreover have "unat (seen + 1) = unat seen + 1 \<and> unat seen < 50" if "seen < 50"
  proof -
    have "unat seen < 50" using that by (simp add: word_less_nat_alt)
    then show ?thesis by (simp add: unat_word_ariths)
  qed
  ultimately show "((mo, br, seen', nx', ep', st'), mo, br, seen, nx, ep, st) \<in> measure (\<lambda>(mo, br, seen, next, ep, st).
    2 * (51 - unat seen) + (if lba (blk_op st) = 0 then 1 else 0))" using a(6) by auto
qed

declare mbr_loop.simps [simp del]

definition mbr_parse :: "u32 option \<Rightarrow> bds \<Rightarrow> (unit \<times> bds) option" where
  "mbr_parse mo st = do {
     (br, k) \<leftarrow> tmpbuf (kern st);
     let st = upd_op (\<lambda>p. p\<lparr>is_read := True, is_user := 0, addr := Pool br 0, lba := 0\<rparr>) (st\<lparr>kern := k\<rparr>);
     (_, _, st) \<leftarrow> mbr_loop mo br 0 0 0 st;
     (_, k) \<leftarrow> brelse br (kern st);
     Some ((), st\<lparr>kern := k\<rparr>)
   }"

definition blkdev_scan :: "u32 option \<Rightarrow> nat \<Rightarrow> u8 \<Rightarrow> bds \<Rightarrow> (unit \<times> bds) option" where
  "blkdev_scan mo blk flags st = mbr_parse mo (upd_op (\<lambda>p. p\<lparr>blkdev := blk\<rparr>) st)"

end
