(* ===== verification/BlkSpec.thy ===== *)
theory BlkSpec
  imports BlkDev BufSpec Sample
begin

text \<open>
  What the block layer of BlkDev gives to the kernel: each partition is a disk of its own, as the device switch of the
  buffer cache expects it (the function \<open>as_seen\<close>), raw transfers, and the reading of partition tables.
\<close>

subsection \<open>Partitions as disks\<close>

definition drive_of :: "u16 \<Rightarrow> nat" where
  "drive_of dev = unat (drop_bit 4 (ucast dev :: u8))"

text \<open>The first sector of a device and the number of its sectors.\<close>

definition extent :: "bds \<Rightarrow> u16 \<Rightarrow> u32 \<times> u32" where
  "extent st dev =
     (let d = blkdev_table st (drive_of dev); pt = (ucast dev :: u8) AND 0x0F in
      if pt = 0 then (0, drive_lba_count d) else (lba_first d (unat pt - 1), lba_count d (unat pt - 1)))"

definition part_disk :: "bds \<Rightarrow> u16 \<Rightarrow> u16 \<Rightarrow> block" where
  "part_disk st dev k =
     (let (a, n) = extent st dev in
      if ucast k < n then sectors st (drive_of dev) (a + ucast k) else disk (kern st) dev k)"

definition part_ok :: "(nat \<Rightarrow> u32 \<Rightarrow> bool) \<Rightarrow> bds \<Rightarrow> u16 \<Rightarrow> u16 \<Rightarrow> bool" where
  "part_ok good st dev k =
     (let (a, n) = extent st dev in ucast k < n \<and> good (drive_of dev) (a + ucast k))"

text \<open>The state of the kernel as its buffer cache sees it: the devices \<open>D\<close> are disks, whose blocks can be read
  or written where the drive can.\<close>

definition as_seen :: "u16 set \<Rightarrow> (nat \<Rightarrow> u32 \<Rightarrow> bool) \<Rightarrow> (nat \<Rightarrow> u32 \<Rightarrow> bool) \<Rightarrow> bds \<Rightarrow> kst" where
  "as_seen D rd wr st = (kern st)\<lparr>
     disk := (\<lambda>d. if d \<in> D then part_disk st d else disk (kern st) d),
     plat := (plat (kern st))\<lparr>
       blk_rd_ok := (\<lambda>d. if d \<in> D then part_ok rd st d else blk_rd_ok (plat (kern st)) d),
       blk_wr_ok := (\<lambda>d. if d \<in> D then part_ok wr st d else blk_wr_ok (plat (kern st)) d)\<rparr>\<rparr>"

definition last_sector :: "bds \<Rightarrow> u16 \<Rightarrow> nat" where
  "last_sector st dev = unat (fst (extent st dev)) + unat (snd (extent st dev))"

text \<open>No two of the devices share a sector.\<close>

definition apart :: "u16 set \<Rightarrow> bds \<Rightarrow> bool" where
  "apart D st \<longleftrightarrow> (\<forall>d\<in>D. last_sector st d \<le> 2 ^ 32) \<and> (\<forall>d\<in>D. \<forall>e\<in>D. d \<noteq> e \<longrightarrow> drive_of d \<noteq> drive_of e
     \<or> last_sector st d \<le> unat (fst (extent st e)) \<or> last_sector st e \<le> unat (fst (extent st d)))"

text \<open>Asked for one sector, the driver moves it or answers 0.\<close>

definition answers :: "(nat \<Rightarrow> u32 \<Rightarrow> bool) \<Rightarrow> (nat \<Rightarrow> u32 \<Rightarrow> bool) \<Rightarrow> nat \<Rightarrow> (blkparam \<Rightarrow> u8) \<Rightarrow> bool" where
  "answers rd wr d f \<longleftrightarrow>
     (\<forall>p. nblock p = 1 \<longrightarrow> f p = (if (if is_read p then rd d (lba p) else wr d (lba p)) then 1 else 0))"

definition drivers_ok :: "nat \<Rightarrow> u16 set \<Rightarrow> (nat \<Rightarrow> u32 \<Rightarrow> bool) \<Rightarrow> (nat \<Rightarrow> u32 \<Rightarrow> bool) \<Rightarrow> bds \<Rightarrow> bool" where
  "drivers_ok m D rd wr st \<longleftrightarrow> (\<forall>d\<in>D. drive_of d < m
     \<and> (\<exists>f. transfer (blkdev_table st (drive_of d)) = Some f \<and> answers rd wr (drive_of d) f))"

text \<open>bdread() and bdwrite() of a device whose entries in the device switch are blkdev\_read() and blkdev\_write().\<close>

definition blk_bdread :: "nat \<Rightarrow> nat \<Rightarrow> bds \<Rightarrow> (u16 \<times> bds) option" where
  "blk_bdread m bp st = do {
     let dev = bf_dev (bufpool (kern st) bp);
     (_, k) \<leftarrow> validchk dev ''bdread'' (kern st);
     blkdev_read m (ucast dev) 0 0 (st\<lparr>kern := bdsetup bp k, u_dptr := Pool bp 0\<rparr>)
   }"

definition blk_bdwrite :: "nat \<Rightarrow> nat \<Rightarrow> bds \<Rightarrow> (u16 \<times> bds) option" where
  "blk_bdwrite m bp st = do {
     let dev = bf_dev (bufpool (kern st) bp);
     (_, k) \<leftarrow> validchk dev ''bdwrite'' (kern st);
     blkdev_write m (ucast dev) 0 0 (st\<lparr>kern := bdsetup bp k, u_dptr := Pool bp 0\<rparr>)
   }"

definition op_of :: "u16 \<Rightarrow> nat \<Rightarrow> bool \<Rightarrow> u16 \<Rightarrow> bds \<Rightarrow> blkparam" where
  "op_of dev bp r k st = (blk_op st)\<lparr>addr := Pool bp 0, is_user := 0, blkdev := drive_of dev, lba := fst (extent st dev) + ucast k,
     nblock := 1, is_read := r\<rparr>"

lemma one_sector:
  assumes "transfer (blkdev_table st d) = Some f" "answers rd wr d f" "blk_op st = p" "blkdev p = d" "nblock p = 1"
    "addr p = Pool bp 0" "is_user p = 0"
  shows "call_transfer st = Some (if is_read p then
       if rd d (lba p) then (1, st\<lparr>kern := upd_b bp (\<lambda>e. e\<lparr>bf_data := sectors st d (lba p)\<rparr>) (kern st)\<rparr>) else (0, st)
     else if wr d (lba p) then (1, st\<lparr>sectors := (sectors st)(d := (sectors st d)(lba p := buf bp st))\<rparr>) else (0, st))"
  using assms by (simp add: call_transfer_def answers_def move_sector_def Let_def)

lemma setup_extent:
  assumes "blkdev (blk_op st) = drive_of dev"
  shows "\<exists>p. blkdev_setup (ucast dev AND 0x0F) st = (ucast (u_block (kern st)) < snd (extent st dev), st\<lparr>blk_op := p\<rparr>)
    \<and> is_user p = is_user (blk_op st) \<and> is_read p = is_read (blk_op st) \<and> swap_page p = swap_page (blk_op st) \<and> blkdev p = drive_of dev
    \<and> nblock p = u_nblock (kern st) \<and> addr p = u_dptr st
    \<and> (ucast (u_block (kern st)) < snd (extent st dev) \<longrightarrow> lba p = fst (extent st dev) + ucast (u_block (kern st)))"
  using assms by (intro exI [of _ "blk_op (snd (blkdev_setup (ucast dev AND 0x0F) st))"])
    (auto simp: blkdev_setup_def extent_def Let_def upd_op_def not_le not_less ac_simps)

lemma loop_one:
  assumes "nblock (blk_op st) = 1" "call_transfer st = Some (n, t)" "n = 0 \<or> n = 1"
  shows "\<exists>p. blkdev_loop 0 st = Some (if n = 0 then None else Some 1, t\<lparr>blk_op := p\<rparr>)"
proof -
  have p: "blk_op t = blk_op st" by (rule call_transfer_op [OF assms(2)])
  show ?thesis
  proof (cases "n = 0")
    case True
    with assms have "blkdev_loop 0 st = Some (None, t\<lparr>blk_op := blk_op t\<rparr>)" by (subst blkdev_loop.simps) simp
    with True show ?thesis by (intro exI [of _ "blk_op t"]) simp
  next
    case False
    let ?u = "upd_op (\<lambda>p. p\<lparr>nblock := nblock p - 1, addr := ptr_add (addr p) BLKSIZE, lba := lba p + 1\<rparr>) t"
    have "blkdev_loop 0 st = blkdev_loop 1 ?u" using False assms by (subst blkdev_loop.simps) simp
    also have "\<dots> = Some (Some 1, ?u)" using assms(1) p by (subst blkdev_loop.simps) (simp add: upd_op_def)
    finally show ?thesis using False by (auto simp: upd_op_def)
  qed
qed

definition one_done :: "bool \<Rightarrow> nat \<Rightarrow> nat \<Rightarrow> u32 \<Rightarrow> bds \<Rightarrow> bds" where
  "one_done r bp d n st = (if r then st\<lparr>kern := upd_b bp (\<lambda>e. e\<lparr>bf_data := sectors st d n\<rparr>) (kern st)\<rparr>
     else st\<lparr>sectors := (sectors st)(d := (sectors st d)(n := buf bp st))\<rparr>)"

lemma block_transfer:
  assumes d: "drive_of dev < m" "transfer (blkdev_table st (drive_of dev)) = Some f" "answers rd wr (drive_of dev) f"
    and u: "u_nblock (kern st) = 1" "u_dptr st = Pool bp 0"
  shows "\<exists>p. blkdev_transfer m (ucast dev) 0 (upd_op (\<lambda>p. p\<lparr>is_read := r\<rparr>) st) = Some
    (if part_ok (if r then rd else wr) st dev (u_block (kern st))
     then (512, (one_done r bp (drive_of dev) (fst (extent st dev) + ucast (u_block (kern st))) st)\<lparr>blk_op := p\<rparr>)
     else blk_error EIO (st\<lparr>blk_op := p\<rparr>))"
proof -
  let ?s = "upd_op (\<lambda>p. p\<lparr>blkdev := drive_of dev, is_user := 0\<rparr>) (upd_op (\<lambda>p. p\<lparr>is_read := r\<rparr>) st)"
  let ?k = "ucast (u_block (kern st)) :: u32" and ?e = "extent st dev"
  have same: "kern ?s = kern st" "extent ?s dev = ?e" "u_dptr ?s = u_dptr st" "blkdev_table ?s = blkdev_table st"
    "sectors ?s = sectors st" "blkdev (blk_op ?s) = drive_of dev" "is_user (blk_op ?s) = 0" "is_read (blk_op ?s) = r"
    by (simp_all add: upd_op_def extent_def)
  obtain p where p: "blkdev_setup (ucast dev AND 0x0F) ?s = (?k < snd ?e, ?s\<lparr>blk_op := p\<rparr>)" "is_user p = 0" "is_read p = r"
    "blkdev p = drive_of dev" "nblock p = 1" "addr p = Pool bp 0" "?k < snd ?e \<longrightarrow> lba p = fst ?e + ?k"
    using setup_extent [of ?s dev] u unfolding same by auto
  have eq: "?s\<lparr>blk_op := q\<rparr> = st\<lparr>blk_op := q\<rparr>" for q by (simp add: upd_op_def)
  have tr: "blkdev_transfer m (ucast dev) 0 (upd_op (\<lambda>p. p\<lparr>is_read := r\<rparr>) st) =
    (if \<not> ?k < snd ?e then Some (blk_error EIO (st\<lparr>blk_op := p\<rparr>))
     else do { (c, st) \<leftarrow> blkdev_loop 0 (st\<lparr>blk_op := p\<rparr>);
               case c of None \<Rightarrow> Some (blk_error EIO st) | Some count \<Rightarrow> Some (push_bit 9 count, st) })"
    using d(1) p(1) by (simp add: blkdev_transfer_def Let_def drive_of_def upd_op_def)
  show ?thesis
  proof (cases "?k < snd ?e")
    case False
    then have "\<not> part_ok (if r then rd else wr) st dev (u_block (kern st))" by (simp add: part_ok_def split_beta)
    with False tr show ?thesis by auto
  next
    case True
    let ?u = "st\<lparr>blk_op := p\<rparr>" and ?n = "fst ?e + ?k"
    have "part_ok (if r then rd else wr) st dev (u_block (kern st)) = (if r then rd else wr) (drive_of dev) ?n"
      using True by (simp add: part_ok_def split_beta)
    moreover obtain c t where c: "call_transfer ?u = Some (c, t)" "c = (if (if r then rd else wr) (drive_of dev) ?n then 1 else 0)"
      "t = (if c = 1 then one_done r bp (drive_of dev) ?n ?u else ?u)"
      using one_sector [of ?u "drive_of dev" f rd wr p bp] d p True by (auto simp: one_done_def)
    moreover have "\<exists>q. blkdev_loop 0 ?u = Some (if c = 0 then None else Some 1, t\<lparr>blk_op := q\<rparr>)"
      by (rule loop_one [OF _ c(1)]) (use p c(2) in auto)
    moreover have "push_bit 9 (1 :: u16) = 512" by code_simp
    ultimately show ?thesis using tr True by (auto simp: one_done_def blk_error_def)
  qed
qed

lemma extent_frame: "blkdev_table t = blkdev_table st \<Longrightarrow> extent t dev = extent st dev"
  by (simp add: extent_def)

lemma part_frame:
  assumes "blkdev_table t = blkdev_table st"
  shows "part_ok g t = part_ok g st"
    and "sectors t = sectors st \<Longrightarrow> disk (kern t) = disk (kern st) \<Longrightarrow> part_disk t = part_disk st"
  by (intro ext; simp add: part_ok_def part_disk_def extent_frame [OF assms] split_beta cong: if_cong)+

text \<open>What changes nothing on the media or in the tables is seen as the same change.\<close>

lemma as_seen_kern:
  assumes "blkdev_table t = blkdev_table st" "sectors t = sectors st" "disk (kern t) = disk (kern st)"
    "plat (kern t) = plat (kern st)"
  shows "as_seen D rd wr t = (kern t)\<lparr>disk := disk (as_seen D rd wr st), plat := plat (as_seen D rd wr st)\<rparr>"
  using assms by (simp add: as_seen_def part_frame(1) [OF assms(1)] part_frame(2) [OF assms(1-3)] cong: if_cong)

lemma as_seen_self: "as_seen D rd wr st = (kern st)\<lparr>disk := disk (as_seen D rd wr st), plat := plat (as_seen D rd wr st)\<rparr>"
  by (rule as_seen_kern) simp_all

lemma as_seen_cong:
  assumes "blkdev_table t = blkdev_table st" "sectors t = sectors st" "kern t = kern st"
  shows "as_seen D rd wr t = as_seen D rd wr st"
  by (subst as_seen_kern [of t st]) (simp_all add: assms flip: as_seen_self)

lemma as_seen_setup:
  "as_seen D rd wr (st\<lparr>kern := bdsetup bp (kern st), u_dptr := Pool bp 0\<rparr>) = bdsetup bp (as_seen D rd wr st)"
  by (subst as_seen_kern [of _ st], simp_all add: bdsetup_def, subst (3) as_seen_self, simp add: as_seen_def)

lemma as_seen_read:
  assumes "dev \<in> D" "part_ok good st dev k"
  shows "as_seen D rd wr (one_done True bp (drive_of dev) (fst (extent st dev) + ucast k) st)
    = upd_b bp (\<lambda>b. b\<lparr>bf_data := disk (as_seen D rd wr st) dev k\<rparr>) (as_seen D rd wr st)"
proof -
  have "disk (as_seen D rd wr st) dev k = sectors st (drive_of dev) (fst (extent st dev) + ucast k)"
    using assms by (simp add: as_seen_def part_disk_def part_ok_def split_beta)
  then show ?thesis
    by (subst as_seen_kern [of _ st], simp_all add: one_done_def upd_b_def, subst (3) as_seen_self, simp add: as_seen_def)
qed

lemma apart_sectors:
  assumes "apart D st" "d \<in> D" "e \<in> D" "drive_of d = drive_of e" "d \<noteq> e"
    and "k < snd (extent st d)" "l < snd (extent st e)"
  shows "fst (extent st d) + k \<noteq> fst (extent st e) + l"
proof -
  have k: "unat k < unat (snd (extent st d))" and l: "unat l < unat (snd (extent st e))"
    using assms(6,7) by (simp_all add: word_less_nat_alt)
  have "last_sector st d \<le> 2 ^ 32" "last_sector st e \<le> 2 ^ 32"
    "last_sector st d \<le> unat (fst (extent st e)) \<or> last_sector st e \<le> unat (fst (extent st d))"
    using assms(1-5) by (auto simp: apart_def)
  moreover from this have "unat (fst (extent st d) + k) = unat (fst (extent st d)) + unat k"
    "unat (fst (extent st e) + l) = unat (fst (extent st e)) + unat l"
    using k l by (auto simp: last_sector_def unat_word_ariths)
  ultimately show ?thesis using k l by (auto simp: last_sector_def)
qed

lemma ucast_up_eq: "(ucast (l :: u16) :: u32) = ucast k \<longleftrightarrow> l = k"
  by (auto simp: word_unat_eq_iff unat_ucast_u16 dest: arg_cong [of _ _ unat])

lemma as_seen_write:
  assumes a: "apart D st" and d: "dev \<in> D" and ok: "part_ok good st dev k"
  shows "as_seen D rd wr (one_done False bp (drive_of dev) (fst (extent st dev) + ucast k) st)
    = (let s = as_seen D rd wr st in s\<lparr>disk := (disk s)(dev := (disk s dev)(k := bf_data (bufpool s bp)))\<rparr>)"
proof -
  let ?t = "one_done False bp (drive_of dev) (fst (extent st dev) + ucast k) st"
  have t: "kern ?t = kern st"
    "sectors ?t = (sectors st)(drive_of dev := (sectors st (drive_of dev))(fst (extent st dev) + ucast k := buf bp st))"
    by (simp_all add: one_done_def)
  have ext: "extent ?t e = extent st e" for e by (rule extent_frame) (simp add: one_done_def)
  have k: "ucast k < snd (extent st dev)" using ok by (simp add: part_ok_def split_beta)
  have "part_disk ?t e l = (if e = dev \<and> l = k then buf bp st else part_disk st e l)" if "e \<in> D" for e l
  proof (cases "e = dev")
    case True
    have "(ucast l :: u32) = ucast k \<longleftrightarrow> l = k" by (simp add: ucast_up_eq)
    with True k show ?thesis by (auto simp: part_disk_def t ext split_beta)
  next
    case False
    then show ?thesis using apart_sectors [OF a that d _ False _ k, of "ucast l"]
      by (auto simp: part_disk_def t ext split_beta)
  qed
  then have "(\<lambda>e. if e \<in> D then part_disk ?t e else disk (kern st) e) =
    (\<lambda>e. if e \<in> D then part_disk st e else disk (kern st) e)(dev := (part_disk st dev)(k := buf bp st))"
    using d by (auto simp: fun_eq_iff)
  moreover have "part_ok g ?t = part_ok g st" for g by (rule part_frame(1)) (simp add: one_done_def)
  ultimately show ?thesis using d by (simp add: as_seen_def t Let_def cong: if_cong)
qed

lemma as_seen_simps:
  "bf_dev (bufpool (as_seen D rd wr st) bp) = bf_dev (bufpool (kern st) bp)"
  "validdev (plat (as_seen D rd wr st)) = validdev (plat (kern st))"
  "dev \<in> D \<Longrightarrow> blk_rd_ok (plat (as_seen D rd wr st)) dev k = part_ok rd st dev k"
  "dev \<in> D \<Longrightarrow> blk_wr_ok (plat (as_seen D rd wr st)) dev k = part_ok wr st dev k"
  "bufpool (as_seen D rd wr st) = bufpool (kern st)"
  by (simp_all add: as_seen_def)

text \<open>C17: Partitions are disks. When bdread() and bdwrite() reach blkdev\_read() and blkdev\_write(), they do to
  the disks that the buffer cache knows (\<open>as_seen\<close>) exactly what the buffer cache expects of a driver: one block of one
  partition is read or written, no block of another partition of the set changes, and a block beyond the end of the
  partition, or one the drive cannot move, is EIO.\<close>

theorem partitions_are_disks:
  assumes "drivers_ok m D rd wr st" and "apart D st" and "bf_dev (bufpool (kern st) bp) \<in> D"
  shows "map_option (\<lambda>(r, t). (r, as_seen D rd wr t)) (blk_bdread m bp st) = bdread bp (as_seen D rd wr st)
    \<and> map_option (\<lambda>(r, t). (r, as_seen D rd wr t)) (blk_bdwrite m bp st) = bdwrite bp (as_seen D rd wr st)"
proof -
  define dev where "dev = bf_dev (bufpool (kern st) bp)"
  let ?u = "st\<lparr>kern := bdsetup bp (kern st), u_dptr := Pool bp 0\<rparr>" and ?k = "bf_blk (bufpool (kern st) bp)"
  have D: "dev \<in> D" using assms(3) by (simp add: dev_def)
  obtain f where f: "drive_of dev < m" "transfer (blkdev_table ?u (drive_of dev)) = Some f" "answers rd wr (drive_of dev) f"
    using assms(1) D by (auto simp: drivers_ok_def)
  have ext: "extent ?u d = extent st d" for d by (rule extent_frame) simp
  have u: "u_nblock (kern ?u) = 1" "u_dptr ?u = Pool bp 0" "u_block (kern ?u) = ?k" by (simp_all add: bdsetup_def)
  have u4: "part_ok g ?u = part_ok g st" for g by (rule part_frame(1)) simp
  have ap: "apart D ?u" using assms(2) by (simp add: apart_def last_sector_def ext)
  have B: "\<exists>p. blkdev_transfer m (ucast dev) 0 (upd_op (\<lambda>p. p\<lparr>is_read := r\<rparr>) ?u) = Some
    (if part_ok (if r then rd else wr) st dev ?k
     then (512, (one_done r bp (drive_of dev) (fst (extent ?u dev) + ucast ?k) ?u)\<lparr>blk_op := p\<rparr>)
     else blk_error EIO (?u\<lparr>blk_op := p\<rparr>))" for r
    using block_transfer [OF f u(1,2), of r] unfolding u(3) u4 .
  have cong: "as_seen D rd wr (x\<lparr>blk_op := p\<rparr>) = as_seen D rd wr x" for x p by (rule as_seen_cong) simp_all
  have err: "(\<lambda>(r, t). (r, as_seen D rd wr t)) (blk_error e (?u\<lparr>blk_op := p\<rparr>)) =
    (0xFFFF, (bdsetup bp (as_seen D rd wr st))\<lparr>u_error := e\<rparr>)" for e p
  proof -
    have "as_seen D rd wr (?u\<lparr>blk_op := p, kern := (kern ?u)\<lparr>u_error := e\<rparr>\<rparr>) = (as_seen D rd wr ?u)\<lparr>u_error := e\<rparr>"
      by (subst as_seen_kern [of _ ?u], simp_all) (subst (3) as_seen_self, simp)
    then show ?thesis by (simp add: blk_error_def as_seen_setup)
  qed
  have k: "u_block (bdsetup bp s) = bf_blk (bufpool s bp)" "plat (bdsetup bp s) = plat s" "disk (bdsetup bp s) = disk s"
    "bufpool (bdsetup bp s) = bufpool s" for s :: kst
    by (simp_all add: bdsetup_def)
  have "map_option (\<lambda>(r, t). (r, as_seen D rd wr t)) (blk_bdread m bp st) = bdread bp (as_seen D rd wr st)"
  proof (cases "validdev (plat (kern st)) dev")
    case True
    obtain p where p: "blk_bdread m bp st = Some
      (if part_ok rd st dev ?k then (512, (one_done True bp (drive_of dev) (fst (extent ?u dev) + ucast ?k) ?u)\<lparr>blk_op := p\<rparr>)
       else blk_error EIO (?u\<lparr>blk_op := p\<rparr>))"
      using B [of True] True by (auto simp: blk_bdread_def blkdev_read_def validchk_def Let_def simp flip: dev_def)
    have "as_seen D rd wr (one_done True bp (drive_of dev) (fst (extent ?u dev) + ucast ?k) ?u)
      = upd_b bp (\<lambda>b. b\<lparr>bf_data := disk (as_seen D rd wr ?u) dev ?k\<rparr>) (as_seen D rd wr ?u)" if "part_ok rd st dev ?k"
      using as_seen_read [OF D, of rd ?u ?k rd wr bp] that unfolding u4 .
    then show ?thesis using True D p err [of EIO]
      by (simp add: bdread_def validchk_def as_seen_simps as_seen_setup cong k Let_def flip: dev_def)
  qed (simp add: blk_bdread_def bdread_def validchk_def panic_def as_seen_simps Let_def flip: dev_def)
  moreover have "map_option (\<lambda>(r, t). (r, as_seen D rd wr t)) (blk_bdwrite m bp st) = bdwrite bp (as_seen D rd wr st)"
  proof (cases "validdev (plat (kern st)) dev")
    case True
    obtain p where p: "blk_bdwrite m bp st = Some
      (if part_ok wr st dev ?k then (512, (one_done False bp (drive_of dev) (fst (extent ?u dev) + ucast ?k) ?u)\<lparr>blk_op := p\<rparr>)
       else blk_error EIO (?u\<lparr>blk_op := p\<rparr>))"
      using B [of False] True by (auto simp: blk_bdwrite_def blkdev_write_def validchk_def Let_def simp flip: dev_def)
    have "as_seen D rd wr (one_done False bp (drive_of dev) (fst (extent ?u dev) + ucast ?k) ?u)
      = (let s = as_seen D rd wr ?u in s\<lparr>disk := (disk s)(dev := (disk s dev)(?k := bf_data (bufpool s bp)))\<rparr>)"
      if "part_ok wr st dev ?k"
      using as_seen_write [OF ap D, of wr ?k rd wr bp] that unfolding u4 .
    then show ?thesis using True D p err [of EIO]
      by (simp add: bdwrite_def validchk_def as_seen_simps as_seen_setup cong k Let_def flip: dev_def)
  qed (simp add: blk_bdwrite_def bdwrite_def validchk_def panic_def as_seen_simps Let_def flip: dev_def)
  ultimately show ?thesis ..
qed

text \<open>A drive with a partition of 10 sectors and an extended partition at sector 100 with two data partitions.\<close>

definition entry_bytes :: "u8 \<times> u32 \<times> u32 \<Rightarrow> u8 list" where
  "entry_bytes e = [0, 0, 0, 0, fst e, 0, 0, 0] @ le32 (fst (snd e)) @ le32 (snd (snd e))"

definition record_block :: "(u8 \<times> u32 \<times> u32) list \<Rightarrow> block" where
  "record_block es = put_bytes (put_bytes zero_block 446 (concat (map entry_bytes es))) 510 [0x55, 0xAA]"

definition sample_drive :: "u32 \<Rightarrow> block" where
  "sample_drive a =
     (if a = 0 then record_block [(6, 1, 10), (5, 100, 80)]
      else if a = 100 then record_block [(6, 1, 5), (5, 50, 20)]
      else if a = 150 then record_block [(6, 1, 7)] else zero_block)"

definition one_by_one :: "blkparam \<Rightarrow> u8" where
  "one_by_one p = (if nblock p = 0 then 0 else 1)"

definition sample_blkdev :: blkdev_t where
  "sample_blkdev = \<lparr>transfer = Some one_by_one, flush = None, drive_lba_count = 200, lba_first = (\<lambda>_. 0), lba_count = (\<lambda>_. 0)\<rparr>"

definition sample_bds :: bds where
  "sample_bds = \<lparr>kern = sample, u_dptr = Mem 0, swappage = 0,
     blk_op = \<lparr>addr = Mem 0, is_user = 0, swap_page = 0, blkdev = 0, lba = 0, nblock = 0, is_read = True\<rparr>,
     blkdev_table = (\<lambda>_. sample_blkdev), sectors = (\<lambda>_. sample_drive), swapmem = (\<lambda>_ _. 0)\<rparr>"

lemma sample_answers: "answers (\<lambda>_ _. True) (\<lambda>_ _. True) d one_by_one"
  by (simp add: answers_def one_by_one_def)

text \<open>The same drive with its partitions entered, and a buffer that stands for block 3 of the second one.\<close>

definition sample_parts :: bds where
  "sample_parts = sample_bds\<lparr>
     kern := sample\<lparr>bufpool := (\<lambda>_. sample_buf\<lparr>bf_dev := 2, bf_blk := 3\<rparr>)\<rparr>,
     blkdev_table := (\<lambda>_. sample_blkdev\<lparr>lba_first := (\<lambda>i. if i = 0 then 1 else if i = 1 then 100 else 0),
       lba_count := (\<lambda>i. if i = 0 then 10 else if i = 1 then 80 else 0)\<rparr>)\<rparr>"

theorem partitions_are_disks_witness:
  "\<exists>t. blk_bdread 1 0 sample_parts = Some (512, t) \<and> buf 0 t = sample_drive 103"
proof -
  let ?s = "sample_parts" and ?T = "\<lambda>_ _. True"
  have ext: "extent ?s 1 = (1, 10)" "extent ?s 2 = (100, 80)" "drive_of 1 = 0" "drive_of 2 = 0"
    by (simp_all add: extent_def sample_parts_def drive_of_def Let_def sample_blkdev_def)
  have "drivers_ok 1 {1, 2} ?T ?T ?s"
    using sample_answers by (auto simp: drivers_ok_def ext sample_parts_def sample_blkdev_def)
  moreover have "apart {1, 2} ?s" by (auto simp: apart_def last_sector_def ext)
  moreover have dev: "bf_dev (bufpool (kern ?s) 0) = 2" "bf_blk (bufpool (kern ?s) 0) = 3" by (simp_all add: sample_parts_def)
  ultimately have eq: "map_option (\<lambda>(r, t). (r, as_seen {1, 2} ?T ?T t)) (blk_bdread 1 0 ?s) = bdread 0 (as_seen {1, 2} ?T ?T ?s)"
    using partitions_are_disks [of 1 "{1, 2}" ?T ?T ?s 0] by simp
  have v: "validdev (plat (as_seen {1, 2} ?T ?T ?s)) 2" by (simp add: as_seen_simps sample_parts_def sample_defs)
  have ok: "blk_rd_ok (plat (as_seen {1, 2} ?T ?T ?s)) 2 3" by (simp add: as_seen_simps part_ok_def ext)
  have disk: "disk (as_seen {1, 2} ?T ?T ?s) 2 3 = sample_drive 103"
    by (simp add: as_seen_def part_disk_def ext) (simp add: sample_parts_def sample_bds_def)
  have "\<exists>u. bdread 0 (as_seen {1, 2} ?T ?T ?s) = Some (512, u) \<and> bf_data (bufpool u 0) = sample_drive 103"
    using v ok disk dev by (simp add: bdread_def validchk_def bdsetup_def as_seen_simps upd_b_def Let_def)
  then show ?thesis using eq by (auto simp: as_seen_simps)
qed

end
