(* ===== verification/MbrSpec.thy ===== *)
theory MbrSpec
  imports BlkSpec
begin

text \<open>
  What mbr\_parse() puts into the partition table of a drive: for every content of the drive exactly the partitions of the
  reference functions \<open>primaries\<close> and \<open>logicals\<close>, which read the boot records without any of the loop's bookkeeping.
\<close>

subsection \<open>The partitions on a drive\<close>

definition primary :: "u32 \<Rightarrow> block \<Rightarrow> nat \<Rightarrow> u32 \<times> u32" where
  "primary a x i = (a + part_first x i, if is_extended (part_type x i) then 2 else part_count x i)"

definition primaries :: "u32 \<Rightarrow> block \<Rightarrow> nat list \<Rightarrow> (u32 \<times> u32) list" where
  "primaries a x is = map (primary a x) (filter (\<lambda>i. part_type x i \<noteq> 0) is)"

definition data_parts :: "u32 \<Rightarrow> block \<Rightarrow> nat list \<Rightarrow> (u32 \<times> u32) list" where
  "data_parts a x is = map (primary a x) (filter (\<lambda>i. part_type x i \<noteq> 0 \<and> \<not> is_extended (part_type x i)) is)"

text \<open>The next boot record of the chain: the last extended entry, relative to the start \<open>ep\<close> of the extended partition.\<close>

fun link :: "u32 \<Rightarrow> block \<Rightarrow> nat list \<Rightarrow> u32 \<Rightarrow> u32" where
  "link ep x [] l = l"
| "link ep x (i # is) l = link ep x is (if is_extended (part_type x i) then ep + part_first x i else l)"

fun logicals :: "(u32 \<Rightarrow> block) \<Rightarrow> (u32 \<Rightarrow> bool) \<Rightarrow> u32 \<Rightarrow> nat \<Rightarrow> u32 \<Rightarrow> (u32 \<times> u32) list" where
  "logicals D rd ep 0 a = []"
| "logicals D rd ep (Suc n) a =
     (if a = 0 \<or> \<not> rd a \<or> \<not> signature_ok (D a) then []
      else data_parts a (D a) [0..<4] @ logicals D rd ep n (link ep (D a) [0..<4] 0))"

text \<open>\<open>its\<close> at the slots from \<open>n\<close> on.\<close>

definition put_items :: "nat \<Rightarrow> nat \<Rightarrow> (u32 \<times> u32) list \<Rightarrow> (nat \<Rightarrow> blkdev_t) \<Rightarrow> nat \<Rightarrow> blkdev_t" where
  "put_items d n its T = T(d := (T d)\<lparr>
     lba_first := (\<lambda>i. if n \<le> i \<and> i < n + length its then fst (its ! (i - n)) else lba_first (T d) i),
     lba_count := (\<lambda>i. if n \<le> i \<and> i < n + length its then snd (its ! (i - n)) else lba_count (T d) i)\<rparr>)"

lemma put_items_Nil [simp]: "put_items d n [] T = T"
  by (auto simp: put_items_def fun_eq_iff intro!: blkdev_t.equality)

lemma put_items_append: "put_items d (n + length xs) ys (put_items d n xs T) = put_items d n (xs @ ys) T"
  by (auto simp: put_items_def nth_append fun_eq_iff intro!: blkdev_t.equality)

lemma put_items_one:
  "put_items d n [(a, c)] T = T(d := (T d)\<lparr>lba_first := (lba_first (T d))(n := a), lba_count := (lba_count (T d))(n := c)\<rparr>)"
  by (auto simp: put_items_def fun_eq_iff intro!: blkdev_t.equality)

lemma put_items_Cons:
  "put_items d (Suc n) its (T(d := (T d)\<lparr>lba_first := (lba_first (T d))(n := a), lba_count := (lba_count (T d))(n := c)\<rparr>))
    = put_items d n ((a, c) # its) T"
  using put_items_append [of d n "[(a, c)]" its T] by (simp add: put_items_one)

lemma put_items_drive [simp]: "transfer (put_items d n its T e) = transfer (T e)"
  by (simp add: put_items_def)

subsection \<open>The entries of one boot record\<close>

lemma put_count:
  fixes x :: block
  assumes "i < 4" "j < 4"
  defines "y \<equiv> put_bytes x (entry_pos i + 12) (le32 2)"
  shows "part_type y j = part_type x j" "part_first y j = part_first x j"
    "part_count y j = (if j = i then 2 else part_count x j)"
proof -
  have far: "j < i \<Longrightarrow> entry_pos j + 16 \<le> entry_pos i" "i < j \<Longrightarrow> entry_pos i + 16 \<le> entry_pos j"
    by (simp_all add: entry_pos_def)
  consider "j < i" | "j = i" | "i < j" by linarith
  then show "part_type y j = part_type x j"
    using far by cases (auto simp: part_type_def y_def put_bytes_def)
  have "entry_pos j + 8 + 4 \<le> entry_pos i + 12 \<or> entry_pos i + 12 + length (le32 2) \<le> entry_pos j + 8"
    by (simp add: entry_pos_def) linarith
  then show "part_first y j = part_first x j"
    unfolding part_first_def y_def by (simp only: get_put_bytes_other)
  show "part_count y j = (if j = i then 2 else part_count x j)"
  proof (cases "j = i")
    case True
    have "rd32 (le32 2 @ []) 0 = 2" by (rule rd32_le32)
    with True show ?thesis by (simp add: part_count_def y_def get_put_bytes_same)
  next
    case False
    then have "entry_pos j + 12 + 4 \<le> entry_pos i + 12 \<or> entry_pos i + 12 + length (le32 2) \<le> entry_pos j + 12"
      by (simp add: entry_pos_def) linarith
    then have "get_bytes y (entry_pos j + 12) 4 = get_bytes x (entry_pos j + 12) 4"
      unfolding y_def by (rule get_put_bytes_other)
    with False show ?thesis by (simp add: part_count_def)
  qed
qed

definition same_entries :: "block \<Rightarrow> block \<Rightarrow> nat list \<Rightarrow> bool" where
  "same_entries x y is \<longleftrightarrow> (\<forall>i\<in>set is. part_type y i = part_type x i \<and> part_first y i = part_first x i
     \<and> part_count y i = part_count x i)"

text \<open>What a scan of boot records leaves alone.\<close>

definition scan_frame :: "bds \<Rightarrow> bds \<Rightarrow> bool" where
  "scan_frame st t \<longleftrightarrow> sectors t = sectors st
     \<and> (\<exists>l n. blk_op t = (blk_op st)\<lparr>lba := l, nblock := n\<rparr>)"

lemma scan_frame_refl [simp]: "scan_frame st st"
  unfolding scan_frame_def by (auto intro!: exI [of _ "lba (blk_op st)"] exI [of _ "nblock (blk_op st)"])

lemma scan_frame_trans: "scan_frame s t \<Longrightarrow> scan_frame t u \<Longrightarrow> scan_frame s u"
  unfolding scan_frame_def by (elim conjE exE, simp) (intro exI, rule refl)

lemma scan_frame_lba: "scan_frame st (upd_op (\<lambda>p. p\<lparr>lba := l\<rparr>) st)"
  unfolding scan_frame_def by (auto simp: upd_op_def intro!: exI [of _ l] exI [of _ "nblock (blk_op st)"])

lemma scan_frame_nblock: "scan_frame st (upd_op (\<lambda>p. p\<lparr>nblock := n\<rparr>) st)"
  unfolding scan_frame_def by (auto simp: upd_op_def intro!: exI [of _ "lba (blk_op st)"] exI [of _ n])

lemma scan_frame_other: "sectors t = sectors st \<Longrightarrow> blk_op t = blk_op st \<Longrightarrow> scan_frame st t"
  unfolding scan_frame_def by (auto intro!: exI [of _ "lba (blk_op st)"] exI [of _ "nblock (blk_op st)"])

lemma unat_slot: "n < 15 \<Longrightarrow> unat (n + 1 :: u8) = Suc (unat n)"
proof -
  assume "n < 15"
  then have "unat n < 15" by (simp add: word_less_nat_alt)
  then show ?thesis by (simp add: unat_word_ariths)
qed

text \<open>An extended boot record: the data partitions as far as there is room, and the link unless the table is full.\<close>

definition ebr_result :: "nat \<Rightarrow> u32 \<Rightarrow> u32 \<Rightarrow> block \<Rightarrow> nat list \<Rightarrow> u8 \<Rightarrow> bds \<Rightarrow> u8 \<Rightarrow> bds \<Rightarrow> bool" where
  "ebr_result d ep a x is n st n' t \<longleftrightarrow>
     (let its = data_parts a x is in
      n' = n + of_nat (min (15 - unat n) (length its)) \<and> n' \<le> 15 \<and> unat n' = min 15 (unat n + length its)
      \<and> scan_frame st t
      \<and> blkdev_table t = put_items d (unat n) (take (15 - unat n) its) (blkdev_table st)
      \<and> (unat n + length its < 15 \<longrightarrow> lba (blk_op t) = link ep x is (lba (blk_op st))))"

lemma ebr_entries:
  assumes "4 \<le> n" "n \<le> 15" "blkdev (blk_op st) = d"
  shows "\<exists>n' t. mbr_entries br ep a is (n, st) = (n', t) \<and> ebr_result d ep a (buf br st) is n st n' t"
  using assms
proof (induction "is" arbitrary: n st)
  case Nil
  then have "unat n \<le> 15" by (simp add: word_le_nat_alt)
  with Nil show ?case by (simp add: ebr_result_def data_parts_def)
next
  case (Cons i "is")
  show ?case
  proof (cases "n = 15")
    case True
    then show ?thesis by (simp add: ebr_result_def)
  next
    case False
    then have n: "n < 15" using Cons.prems(2) by simp
    then have un: "unat n < 15" "unat (n + 1) = Suc (unat n)" by (simp add: word_less_nat_alt) (rule unat_slot [OF n])
    let ?x = "buf br st"
    consider "part_type ?x i = 0" | "part_type ?x i \<noteq> 0" "is_extended (part_type ?x i)" | "part_type ?x i \<noteq> 0" "\<not> is_extended (part_type ?x i)"
      by blast
    then show ?thesis
    proof cases
      case 1
      then have "\<not> is_extended (part_type ?x i)" by (simp add: is_extended_def)
      with 1 Cons.IH [OF Cons.prems] n show ?thesis by (simp add: mbr_entry_def ebr_result_def data_parts_def)
    next
      case 2
      let ?u = "upd_op (\<lambda>p. p\<lparr>lba := ep + part_first ?x i\<rparr>) st"
      have u: "buf br ?u = ?x" "blkdev_table ?u = blkdev_table st" "lba (blk_op ?u) = ep + part_first ?x i" "scan_frame st ?u"
        by (auto simp: upd_op_def scan_frame_def intro!: exI [of _ "nblock (blk_op st)"])
      obtain n' t where t: "mbr_entries br ep a is (n, ?u) = (n', t)" "ebr_result d ep a ?x is n ?u n' t"
        using Cons.IH [of n ?u] Cons.prems u by (auto simp: upd_op_def)
      have "mbr_entries br ep a (i # is) (n, st) = (n', t)"
        using 2 n t(1) Cons.prems(1) by (simp add: mbr_entry_def Let_def)
      moreover have "ebr_result d ep a ?x (i # is) n st n' t"
        using t(2) 2 u scan_frame_trans [OF u(4)] by (auto simp: ebr_result_def data_parts_def Let_def)
      ultimately show ?thesis by blast
    next
      case 3
      let ?u = "snd (add_partition br a i n st)"
      have u: "buf br ?u = ?x" "blk_op ?u = blk_op st" "scan_frame st ?u"
        "blkdev_table ?u = put_items d (unat n) [primary a ?x i] (blkdev_table st)" "add_partition br a i n st = (n + 1, ?u)"
        using Cons.prems 3 by (auto simp: add_partition_def upd_drive_def scan_frame_def put_items_one primary_def
          intro!: exI [of _ "lba (blk_op st)"] exI [of _ "nblock (blk_op st)"])
      have "4 \<le> n + 1" "n + 1 \<le> 15" using un Cons.prems(1) by (simp_all add: word_le_nat_alt)
      then obtain n' t where t: "mbr_entries br ep a is (n + 1, ?u) = (n', t)" "ebr_result d ep a ?x is (n + 1) ?u n' t"
        using Cons.IH [of "n + 1" ?u] Cons.prems(3) u by auto
      have "mbr_entries br ep a (i # is) (n, st) = (n', t)"
        using 3 n t(1) u(5) by (simp add: mbr_entry_def Let_def)
      moreover have "ebr_result d ep a ?x (i # is) n st n' t"
      proof -
        obtain k where k: "15 - unat n = Suc k" "15 - unat (n + 1) = k" using un by (metis Suc_diff_Suc diff_Suc_Suc Suc_diff_le)
        have "put_items d (Suc (unat n)) its (put_items d (unat n) [primary a ?x i] T) = put_items d (unat n) (primary a ?x i # its) T" for its T
          using put_items_append [of d "unat n" "[primary a ?x i]" its T] by simp
        then show ?thesis
          using t(2) 3 u un k scan_frame_trans [OF u(3)] by (auto simp: ebr_result_def data_parts_def Let_def)
      qed
      ultimately show ?thesis by blast
    qed
  qed
qed

lemma same_entries_put:
  assumes "same_entries x y (i # is)" "distinct (i # is)" "set (i # is) \<subseteq> {..<4}"
  shows "same_entries x (put_bytes y (entry_pos i + 12) (le32 2)) is"
  unfolding same_entries_def
proof
  fix j assume j: "j \<in> set is"
  then have "i < 4" "j < 4" "j \<noteq> i" using assms(2,3) by auto
  then show "part_type (put_bytes y (entry_pos i + 12) (le32 2)) j = part_type x j
    \<and> part_first (put_bytes y (entry_pos i + 12) (le32 2)) j = part_first x j
    \<and> part_count (put_bytes y (entry_pos i + 12) (le32 2)) j = part_count x j"
    using assms(1) j by (simp add: put_count same_entries_def)
qed

lemma add_partition_frame:
  assumes "blkdev (blk_op st) = d"
  shows "add_partition br a i n st = (n + 1, snd (add_partition br a i n st))"
    "buf br (snd (add_partition br a i n st)) = buf br st" "blk_op (snd (add_partition br a i n st)) = blk_op st"
    "scan_frame st (snd (add_partition br a i n st))"
    "blkdev_table (snd (add_partition br a i n st)) =
       put_items d (unat n) [(a + part_first (buf br st) i, part_count (buf br st) i)] (blkdev_table st)"
  using assms by (auto simp: add_partition_def upd_drive_def scan_frame_def put_items_one
    intro!: exI [of _ "lba (blk_op st)"] exI [of _ "nblock (blk_op st)"])

text \<open>The first boot record: every entry in use becomes a partition, an extended one with two sectors only.\<close>

lemma mbr_first:
  assumes "unat n + length is \<le> 4" "blkdev (blk_op st) = d" "distinct is" "set is \<subseteq> {..<4}" "same_entries x (buf br st) is"
  shows "\<exists>n' t. mbr_entries br ep a is (n, st) = (n', t) \<and> unat n' \<le> 4 \<and> scan_frame st t
    \<and> blkdev_table t = put_items d (unat n) (primaries a x is) (blkdev_table st) \<and> lba (blk_op t) = link ep x is (lba (blk_op st))"
  using assms
proof (induction "is" arbitrary: n st)
  case Nil
  then show ?case by (auto simp: primaries_def)
next
  case (Cons i "is")
  let ?y = "buf br st"
  have un: "unat n < 4" using Cons.prems(1) by simp
  then have n: "n < 15" "\<not> n \<ge> 4" by (simp_all add: word_less_nat_alt word_le_nat_alt)
  have sc: "unat (n + 1) = Suc (unat n)" by (rule unat_slot [OF n(1)])
  have i: "i < 4" using Cons.prems(4) by simp
  have y: "part_type ?y i = part_type x i" "part_first ?y i = part_first x i" "part_count ?y i = part_count x i"
    using Cons.prems(5) by (simp_all add: same_entries_def)
  have put: "put_items d (Suc (unat n)) its (put_items d (unat n) [e] T) = put_items d (unat n) (e # its) T" for its e T
    using put_items_append [of d "unat n" "[e]" its T] by simp
  show ?case
  proof (cases "part_type x i = 0")
    case True
    then have "\<not> is_extended (part_type x i)" by (simp add: is_extended_def)
    with True Cons.IH [of n st] Cons.prems n y show ?thesis by (simp add: mbr_entry_def primaries_def same_entries_def)
  next
    case used: False
    show ?thesis
    proof (cases "is_extended (part_type x i)")
      case True
      let ?z = "put_bytes ?y (entry_pos i + 12) (le32 2)"
      define v where "v = (upd_op (\<lambda>p. p\<lparr>lba := ep + part_first x i\<rparr>) st)
        \<lparr>kern := upd_b br (\<lambda>e. e\<lparr>bf_data := put_bytes (bf_data e) (entry_pos i + 12) (le32 2)\<rparr>) (kern st)\<rparr>"
      have v: "buf br v = ?z" "blkdev (blk_op v) = d" "scan_frame st v" "blkdev_table v = blkdev_table st"
        "lba (blk_op v) = ep + part_first x i"
        using Cons.prems(2) by (auto simp: v_def upd_op_def upd_b_def scan_frame_def intro!: exI [of _ "nblock (blk_op st)"])
      define u where "u = snd (add_partition br a i n v)"
      note ap = add_partition_frame [OF v(2), of br a i n, folded u_def]
      have z: "part_first ?z i = part_first x i" "part_count ?z i = 2" using put_count [OF i i, of ?y] y by simp_all
      have pu: "blkdev_table u = put_items d (unat n) [primary a x i] (blkdev_table st)"
        using ap(5) True by (simp add: v(1,4) z primary_def)
      have "same_entries x (buf br u) is" using same_entries_put [OF Cons.prems(5,3,4)] by (simp add: ap(2) v(1))
      then obtain n' t where t: "mbr_entries br ep a is (n + 1, u) = (n', t)" "unat n' \<le> 4" "scan_frame u t"
        "blkdev_table t = put_items d (unat (n + 1)) (primaries a x is) (blkdev_table u)" "lba (blk_op t) = link ep x is (lba (blk_op u))"
        using Cons.IH [of "n + 1" u] Cons.prems(1,3,4) v(2) ap(3) sc by auto
      have "mbr_entries br ep a (i # is) (n, st) = (n', t)"
        using used True n t(1) ap(1) y by (simp add: mbr_entry_def Let_def v_def upd_op_def)
      moreover have "scan_frame st t" using v(3) ap(4) t(3) by (blast intro: scan_frame_trans)
      ultimately show ?thesis using t used True v(5) ap(3) by (auto simp: pu sc put primaries_def)
    next
      case False
      define u where "u = snd (add_partition br a i n st)"
      note ap = add_partition_frame [OF Cons.prems(2), of br a i n, folded u_def]
      have pu: "blkdev_table u = put_items d (unat n) [primary a x i] (blkdev_table st)"
        using ap(5) False by (simp add: y primary_def)
      obtain n' t where t: "mbr_entries br ep a is (n + 1, u) = (n', t)" "unat n' \<le> 4" "scan_frame u t"
        "blkdev_table t = put_items d (unat (n + 1)) (primaries a x is) (blkdev_table u)" "lba (blk_op t) = link ep x is (lba (blk_op u))"
        using Cons.IH [of "n + 1" u] Cons.prems ap(2,3) sc by (auto simp: same_entries_def)
      have "mbr_entries br ep a (i # is) (n, st) = (n', t)"
        using used False n t(1) ap(1) y by (simp add: mbr_entry_def Let_def)
      moreover have "scan_frame st t" using ap(4) t(3) by (blast intro: scan_frame_trans)
      ultimately show ?thesis using t used False ap(3) by (auto simp: pu sc put primaries_def)
    qed
  qed
qed

subsection \<open>The chain of boot records\<close>

definition scanning :: "nat \<Rightarrow> nat \<Rightarrow> (nat \<Rightarrow> u32 \<Rightarrow> bool) \<Rightarrow> bds \<Rightarrow> bool" where
  "scanning d br rd st \<longleftrightarrow>
     (let p = blk_op st in blkdev p = d \<and> is_read p \<and> is_user p = 0 \<and> addr p = Pool br 0)
     \<and> (\<exists>f wr. transfer (blkdev_table st d) = Some f \<and> answers rd wr d f)"

lemma scanning_frame:
  assumes "scanning d br rd st" "scan_frame st t" "transfer (blkdev_table t d) = transfer (blkdev_table st d)"
  shows "scanning d br rd t"
  using assms by (auto simp: scanning_def scan_frame_def Let_def)

lemma read_record:
  assumes "scanning d br rd st"
  obtains u where "call_transfer (upd_op (\<lambda>p. p\<lparr>nblock := 1\<rparr>) st) = Some (if rd d (lba (blk_op st)) then 1 else 0, u)"
    "scan_frame st u" "blkdev_table u = blkdev_table st" "lba (blk_op u) = lba (blk_op st)"
    "rd d (lba (blk_op st)) \<longrightarrow> buf br u = sectors st d (lba (blk_op st))"
proof -
  let ?s = "upd_op (\<lambda>p. p\<lparr>nblock := 1\<rparr>) st" and ?l = "lba (blk_op st)"
  obtain f wr where f: "transfer (blkdev_table st d) = Some f" "answers rd wr d f" using assms by (auto simp: scanning_def)
  have s: "blk_op ?s = (blk_op st)\<lparr>nblock := 1\<rparr>" "blkdev_table ?s = blkdev_table st" "sectors ?s = sectors st" "kern ?s = kern st"
    by (simp_all add: upd_op_def)
  define u where "u = (if rd d ?l then ?s\<lparr>kern := upd_b br (\<lambda>e. e\<lparr>bf_data := sectors st d ?l\<rparr>) (kern st)\<rparr> else ?s)"
  have "call_transfer ?s = Some (if rd d ?l then 1 else 0, u)"
    using one_sector [of ?s d f rd wr "blk_op ?s" br] f assms s by (simp add: scanning_def u_def Let_def)
  moreover have "scan_frame st ?s" "scan_frame ?s u" by (rule scan_frame_nblock, rule scan_frame_other) (simp_all add: u_def)
  then have "scan_frame st u" by (rule scan_frame_trans)
  moreover have "blkdev_table u = blkdev_table st" "lba (blk_op u) = ?l"
    "rd d ?l \<longrightarrow> buf br u = sectors st d ?l"
    using s by (auto simp: u_def upd_b_def)
  ultimately show ?thesis by (rule that)
qed

lemma logicals_0 [simp]: "logicals D rd ep k 0 = []"
  by (cases k) simp_all

lemma chain_read:
  assumes "scanning d br rd st" "lba (blk_op st) \<noteq> 0" "seen \<noteq> 0"
    and "if seen = 1 then nx = 4 \<and> e = lba (blk_op st) else nx = n \<and> e = ep" "4 \<le> nx" "nx \<le> 15"
  shows "\<exists>n' e' t. mbr_loop mo br seen n ep st = Some (n', e', t) \<and> sectors t = sectors st
    \<and> blkdev_table t = put_items d (unat nx)
        (take (15 - unat nx) (logicals (sectors st d) (rd d) e (50 - unat seen) (lba (blk_op st)))) (blkdev_table st)"
  using assms
proof (induction "50 - unat seen" arbitrary: seen n ep nx e st rule: less_induct)
  case less
  let ?l = "lba (blk_op st)" and ?D = "sectors st d"
  let ?x = "?D ?l"
  obtain u where u: "call_transfer (upd_op (\<lambda>p. p\<lparr>nblock := 1\<rparr>) st) = Some (if rd d ?l then 1 else 0, u)"
    "scan_frame st u" "blkdev_table u = blkdev_table st" "lba (blk_op u) = ?l" "rd d ?l \<longrightarrow> buf br u = ?x"
    by (rule read_record [OF less.prems(1)])
  have su: "sectors u = sectors st" using u(2) by (simp add: scan_frame_def)
  show ?case
  proof (cases "rd d ?l \<and> signature_ok ?x \<and> unat seen < 50")
    case False
    then have "logicals ?D (rd d) e (50 - unat seen) ?l = []"
      by (cases "50 - unat seen") (auto simp: less.prems(2))
    moreover have "mbr_step mo br seen n ep st = Some (False, seen, n, ep, u)"
      using False u less.prems(2) by (auto simp: mbr_step_def word_le_nat_alt split: option.splits)
    then have "mbr_loop mo br seen n ep st = Some (n, ep, u)" by (subst mbr_loop.simps) simp
    ultimately show ?thesis using u(3) su by simp
  next
    case True
    let ?u = "upd_op (\<lambda>p. p\<lparr>lba := 0\<rparr>) u" and ?its = "data_parts ?l ?x [0..<4]"
    have fu: "scan_frame u ?u" "blkdev_table ?u = blkdev_table st" "buf br ?u = ?x" "lba (blk_op ?u) = 0"
      using u True by (simp_all add: scan_frame_lba) (simp_all add: upd_op_def)
    have scu: "scanning d br rd ?u"
      by (rule scanning_frame [OF less.prems(1) scan_frame_trans [OF u(2) fu(1)]]) (simp add: fu(2))
    then have d: "blkdev (blk_op ?u) = d" by (simp add: scanning_def Let_def)
    obtain n' t where t: "mbr_entries br e ?l [0..<4] (nx, ?u) = (n', t)" and "ebr_result d e ?l (buf br ?u) [0..<4] nx ?u n' t"
      using ebr_entries [OF less.prems(5,6) d] by blast
    then have r: "n' \<le> 15" "unat n' = min 15 (unat nx + length ?its)" "scan_frame ?u t"
      "blkdev_table t = put_items d (unat nx) (take (15 - unat nx) ?its) (blkdev_table st)"
      "unat nx + length ?its < 15 \<Longrightarrow> lba (blk_op t) = link e ?x [0..<4] 0"
      unfolding fu by (auto simp: ebr_result_def Let_def fu)
    have st: "sectors t = sectors st" using r(3) fu(1) su by (simp add: scan_frame_def)
    have nx: "unat nx \<le> 15" "4 \<le> unat nx" using less.prems(5,6) by (simp_all add: word_le_nat_alt)
    have step: "mbr_step mo br seen n ep st = Some (True, seen + 1, n', e, t)"
      using u True t less.prems(4) by (auto simp: mbr_step_def Let_def word_le_nat_alt split: if_splits)
    have sn: "unat (seen + 1) = Suc (unat seen)" "seen + 1 \<noteq> 0" "seen + 1 \<noteq> 1"
    proof -
      show a: "unat (seen + 1) = Suc (unat seen)" using True by (simp add: unat_word_ariths)
      then show "seen + 1 \<noteq> 0" by auto
      show "seen + 1 \<noteq> 1" using less.prems(3) by simp
    qed
    define rest where "rest = logicals ?D (rd d) e (50 - unat (seen + 1)) (link e ?x [0..<4] 0)"
    have all: "logicals ?D (rd d) e (50 - unat seen) ?l = ?its @ rest"
    proof -
      have "unat seen < 50" using True by simp
      then have "50 - unat seen = Suc (50 - unat (seen + 1))" using sn(1) by linarith
      then show ?thesis using True less.prems(2) by (simp add: rest_def)
    qed
    have join: "put_items d (unat n') (take (15 - unat n') rest) (blkdev_table t)
      = put_items d (unat nx) (take (15 - unat nx) (?its @ rest)) (blkdev_table st)"
    proof -
      have n': "unat n' = unat nx + length (take (15 - unat nx) ?its)" using r(2) nx by auto
      have m: "15 - unat n' = 15 - unat nx - length ?its" using r(2) nx by auto
      show ?thesis unfolding r(4) m by (simp only: n' put_items_append take_append)
    qed
    show ?thesis
    proof (cases "lba (blk_op t) = 0")
      case True
      then have "mbr_loop mo br seen n ep st = Some (n', e, t)" using step by (subst mbr_loop.simps) simp
      moreover have "take (15 - unat n') rest = []"
        using r(2,5) True nx by (cases "unat nx + length ?its < 15") (auto simp: rest_def)
      ultimately show ?thesis using st join all by auto
    next
      case False
      then have "mbr_loop mo br seen n ep st = mbr_loop mo br (seen + 1) n' e t" using step by (subst mbr_loop.simps) simp
      moreover have "scanning d br rd t" by (rule scanning_frame [OF scu r(3)]) (simp add: r(4) fu(2))
      moreover have "4 \<le> n'" using r(2) nx by (simp add: word_le_nat_alt)
      moreover have "50 - unat (seen + 1) < 50 - unat seen" using True sn(1) by linarith
      ultimately obtain n2 e2 t2 where t2: "mbr_loop mo br seen n ep st = Some (n2, e2, t2)" "sectors t2 = sectors t"
        "blkdev_table t2 = put_items d (unat n') (take (15 - unat n')
          (logicals (sectors t d) (rd d) e (50 - unat (seen + 1)) (lba (blk_op t)))) (blkdev_table t)"
        using less.hyps [where seen = "seen + 1" and st = t and nx = n' and n = n' and ep = e and e = e] False sn r(1) by auto
      moreover have "take (15 - unat n') (logicals (sectors t d) (rd d) e (50 - unat (seen + 1)) (lba (blk_op t))) = take (15 - unat n') rest"
        using r(2,5) nx by (cases "unat nx + length ?its < 15") (auto simp: rest_def st)
      ultimately show ?thesis using st join all by auto
    qed
  qed
qed

subsection \<open>The whole table\<close>

text \<open>The boot record is sector 0, or the one at CONFIG\_MBR\_OFFSET where sector 0 has none. \<open>partitions\<close> gives the partitions
  of the boot record and those of the extended partition.\<close>

definition partitions :: "u32 option \<Rightarrow> (u32 \<Rightarrow> block) \<Rightarrow> (u32 \<Rightarrow> bool) \<Rightarrow> (u32 \<times> u32) list \<times> (u32 \<times> u32) list" where
  "partitions mo D rd =
     (let ok = (\<lambda>a. rd a \<and> signature_ok (D a));
          from = (\<lambda>a. (primaries a (D a) [0..<4],
                    let e = link 0 (D a) [0..<4] 0 in take 11 (logicals D rd e 49 e)))
      in if ok 0 then from 0
         else case mo of Some x \<Rightarrow> if x \<noteq> 0 \<and> ok x then from x else ([], []) | None \<Rightarrow> ([], []))"

lemma from_record:
  assumes sc: "scanning d br rd st" and ok: "rd d (lba (blk_op st))" "signature_ok (sectors st d (lba (blk_op st)))"
  defines "D \<equiv> sectors st d" and "a \<equiv> lba (blk_op st)"
  shows "\<exists>n' e' t. mbr_loop mo br 0 0 0 st = Some (n', e', t) \<and> sectors t = sectors st
    \<and> blkdev_table t = put_items d 4 (let e = link 0 (D a) [0..<4] 0 in take 11 (logicals D (rd d) e 49 e))
        (put_items d 0 (primaries a (D a) [0..<4]) (blkdev_table st))"
proof -
  obtain u where u: "call_transfer (upd_op (\<lambda>p. p\<lparr>nblock := 1\<rparr>) st) = Some (1, u)"
    "scan_frame st u" "blkdev_table u = blkdev_table st" "lba (blk_op u) = a" "buf br u = D a"
    using read_record [OF sc] ok by (auto simp: D_def a_def)
  let ?u = "upd_op (\<lambda>p. p\<lparr>lba := 0\<rparr>) u"
  have fu: "scan_frame st ?u" "blkdev_table ?u = blkdev_table st" "buf br ?u = D a" "lba (blk_op ?u) = 0"
    using u scan_frame_trans [OF u(2) scan_frame_lba] by (simp_all add: upd_op_def)
  have scu: "scanning d br rd ?u" by (rule scanning_frame [OF sc fu(1)]) (simp add: fu(2))
  then have d: "blkdev (blk_op ?u) = d" by (simp add: scanning_def Let_def)
  have four: "set [0..<4] \<subseteq> {..<4 :: nat}" by auto
  obtain n' t where t: "mbr_entries br 0 a [0..<4] (0, ?u) = (n', t)" "unat n' \<le> 4" "scan_frame ?u t"
    "blkdev_table t = put_items d 0 (primaries a (D a) [0..<4]) (blkdev_table st)" "lba (blk_op t) = link 0 (D a) [0..<4] 0"
    using mbr_first [of 0 "[0..<4]" ?u d "D a" br 0 a, OF _ d _ four] fu by (auto simp: same_entries_def)
  have st: "sectors t = sectors st" using t(3) fu(1) by (simp add: scan_frame_def)
  have step: "mbr_step mo br 0 0 0 st = Some (True, 1, n', 0, t)"
    using u t(1) ok by (simp add: mbr_step_def Let_def D_def a_def)
  show ?thesis
  proof (cases "lba (blk_op t) = 0")
    case True
    then have "mbr_loop mo br 0 0 0 st = Some (n', 0, t)" using step by (subst mbr_loop.simps) simp
    with True show ?thesis using st t(4,5) by (simp add: Let_def)
  next
    case False
    then have "mbr_loop mo br 0 0 0 st = mbr_loop mo br 1 n' 0 t" using step by (subst mbr_loop.simps) simp
    moreover have "scanning d br rd t" by (rule scanning_frame [OF scu t(3)]) (simp add: t(4) fu(2))
    ultimately show ?thesis
      using chain_read [of d br rd t 1 4 "lba (blk_op t)" n' 0 mo] False st t(4,5) by (simp add: D_def Let_def)
  qed
qed

text \<open>C16: Whatever is on a drive, blkdev\_scan() returns and the partition table of the drive is then what the boot records say: the entries
  in use of the boot record one after the other from slot 0 on, an extended one with two sectors, and from slot 4 on the first 11
  data partitions in the chain of at most 49 extended boot records, also when the chain forms a loop, breaks off or
  fills the table. Nothing is written to any drive, and no slot beyond the 15 of the table, no other slot and no other drive
  is touched.\<close>

theorem mbr_reads_table:
  assumes "transfer (blkdev_table st d) = Some f" and "answers rd wr d f" and "tmpbuf (kern st) = Some (br, k)"
  shows "\<exists>t. blkdev_scan mo d flags st = Some ((), t) \<and> sectors t = sectors st
    \<and> blkdev_table t = (let (ps, ls) = partitions mo (sectors st d) (rd d)
        in put_items d 4 ls (put_items d 0 ps (blkdev_table st)))
    \<and> (let (ps, ls) = partitions mo (sectors st d) (rd d) in length ps \<le> 4 \<and> length ls \<le> 11)"
proof -
  define u where "u = upd_op (\<lambda>p. p\<lparr>is_read := True, is_user := 0, addr := Pool br 0, lba := 0\<rparr>)
    ((upd_op (\<lambda>p. p\<lparr>blkdev := d\<rparr>) st)\<lparr>kern := k\<rparr>)"
  let ?D = "sectors st d"
  have u: "scanning d br rd u" "lba (blk_op u) = 0" "sectors u = sectors st" "blkdev_table u = blkdev_table st"
    using assms(1,2) by (auto simp: u_def upd_op_def scanning_def Let_def)
  have len: "length (primaries a x [0..<4]) \<le> 4" for a x
    using length_filter_le [of "\<lambda>i. part_type x i \<noteq> 0" "[0..<4]"] by (simp add: primaries_def del: length_filter_le)
  have bound: "length ps \<le> 4 \<and> length ls \<le> 11" if "partitions mo ?D (rd d) = (ps, ls)" for ps ls
    using that len by (auto simp: partitions_def Let_def split: if_splits option.splits)
  have "\<exists>n' e' t. mbr_loop mo br 0 0 0 u = Some (n', e', t) \<and> sectors t = sectors st
    \<and> blkdev_table t = (let (ps, ls) = partitions mo ?D (rd d) in put_items d 4 ls (put_items d 0 ps (blkdev_table st)))"
  proof (cases "rd d 0 \<and> signature_ok (?D 0)")
    case True
    then show ?thesis using from_record [OF u(1), of mo] u(2-4) by (simp add: partitions_def Let_def)
  next
    case False
    obtain v where v: "call_transfer (upd_op (\<lambda>p. p\<lparr>nblock := 1\<rparr>) u) = Some (if rd d 0 then 1 else 0, v)"
      "scan_frame u v" "blkdev_table v = blkdev_table st" "lba (blk_op v) = 0" "rd d 0 \<longrightarrow> buf br v = ?D 0"
      using read_record [OF u(1)] unfolding u(2-4) by metis
    have sv: "sectors v = sectors st" using v(2) u(3) by (simp add: scan_frame_def)
    show ?thesis
    proof (cases mo)
      case None
      then have "mbr_loop mo br 0 0 0 u = Some (0, 0, v)" using v False by (subst mbr_loop.simps) (auto simp: mbr_step_def)
      moreover have "partitions mo ?D (rd d) = ([], [])" using None False by (auto simp: partitions_def)
      ultimately show ?thesis using v(3) sv by simp
    next
      case (Some x)
      let ?w = "upd_op (\<lambda>p. p\<lparr>lba := x\<rparr>) v"
      have w: "lba (blk_op ?w) = x" "sectors ?w = sectors st" "blkdev_table ?w = blkdev_table st"
        using sv v(3) by (simp_all add: upd_op_def)
      have sw: "scanning d br rd ?w"
        by (rule scanning_frame [OF u(1) scan_frame_trans [OF v(2) scan_frame_lba]]) (simp add: w u(4))
      have step: "mbr_step mo br 0 0 0 u = Some (True, 0, 0, 0, ?w)" using v False Some by (auto simp: mbr_step_def)
      show ?thesis
      proof (cases "x = 0")
        case True
        then have "mbr_loop mo br 0 0 0 u = Some (0, 0, ?w)" using step w(1) by (subst mbr_loop.simps) simp
        moreover have "partitions mo ?D (rd d) = ([], [])" using Some False True by (auto simp: partitions_def)
        ultimately show ?thesis using w by simp
      next
        case x: False
        then have eq: "mbr_loop mo br 0 0 0 u = mbr_loop mo br 0 0 0 ?w" using step w(1) by (subst mbr_loop.simps) simp
        show ?thesis
        proof (cases "rd d x \<and> signature_ok (?D x)")
          case True
          moreover have "partitions mo ?D (rd d) = (primaries x (?D x) [0..<4],
              let e = link 0 (?D x) [0..<4] 0 in take 11 (logicals ?D (rd d) e 49 e))"
            using Some False True x by (auto simp: partitions_def Let_def)
          ultimately show ?thesis using from_record [OF sw, of mo] w by (simp add: eq)
        next
          case bad: False
          obtain y where y: "call_transfer (upd_op (\<lambda>p. p\<lparr>nblock := 1\<rparr>) ?w) = Some (if rd d x then 1 else 0, y)"
            "scan_frame ?w y" "blkdev_table y = blkdev_table st" "lba (blk_op y) = x" "rd d x \<longrightarrow> buf br y = ?D x"
            using read_record [OF sw] unfolding w by metis
          then have "mbr_loop mo br 0 0 0 ?w = Some (0, 0, y)"
            using bad x Some by (subst mbr_loop.simps) (auto simp: mbr_step_def)
          moreover have "sectors y = sectors st" using y(2) w(2) by (simp add: scan_frame_def)
          moreover have "partitions mo ?D (rd d) = ([], [])" using Some False bad by (auto simp: partitions_def)
          ultimately show ?thesis using y(3) eq by simp
        qed
      qed
    qed
  qed
  then obtain n' e' t where t: "mbr_loop mo br 0 0 0 u = Some (n', e', t)" "sectors t = sectors st"
    "blkdev_table t = (let (ps, ls) = partitions mo ?D (rd d) in put_items d 4 ls (put_items d 0 ps (blkdev_table st)))"
    by blast
  obtain k' where "brelse br (kern t) = Some ((), k')" by (auto simp: brelse_def bfree_def Let_def)
  then have "blkdev_scan mo d flags st = Some ((), t\<lparr>kern := k'\<rparr>)"
    using t(1) assms(3) by (simp add: blkdev_scan_def mbr_parse_def u_def upd_op_def Let_def)
  then show ?thesis using t(2,3) bound [OF prod.collapse [symmetric]] by (auto simp: split_beta)
qed

lemma sample_partitions:
  "partitions None sample_drive (\<lambda>_. True) = ([(1, 10), (100, 2)], [(101, 5), (151, 7)])"
  by code_simp

theorem mbr_reads_table_witness:
  "\<exists>t. blkdev_scan None 0 0 sample_bds = Some ((), t)
     \<and> blkdev_table t = put_items 0 4 [(101, 5), (151, 7)] (put_items 0 0 [(1, 10), (100, 2)] (\<lambda>_. sample_blkdev))"
proof -
  obtain br k where "tmpbuf sample = Some (br, k)"
    by (simp add: tmpbuf_def freebuf_def oldest_def oldest_step_def sample_defs upt_rec numeral_2_eq_2)
  then show ?thesis
    using mbr_reads_table [of sample_bds 0 one_by_one "\<lambda>_ _. True" "\<lambda>_ _. True" br k None 0] sample_answers
      sample_partitions by (auto simp: sample_bds_def sample_blkdev_def)
qed

end
