(* ===== verification/RawSpec.thy ===== *)
theory RawSpec
  imports BlkSpec FileSpec
begin

text \<open>
  Raw transfers of the block layer: however the driver splits a request, blkdev\_transfer() moves all its sectors
  in order, and what it moves depends on the first sector only being inside the partition.
\<close>

subsection \<open>The loop\<close>

lemma ptr_add_add [simp]: "ptr_add (ptr_add p a) b = ptr_add p (a + b)"
  by (cases p) (simp_all add: ac_simps)

lemma move_sectors_add:
  "move_sectors (j + k) n p st = do { st \<leftarrow> move_sectors j n p st; move_sectors k (n + of_nat j) (ptr_add p (j * BLKSIZE)) st }"
proof (induction j arbitrary: n p st)
  case 0
  have "ptr_add p 0 = p" by (cases p) simp_all
  then show ?case by simp
next
  case (Suc j)
  then show ?case by (cases "move_sector n p st") (simp_all add: ac_simps)
qed

text \<open>Where the sectors go depends on four fields of the request.\<close>

definition same_target :: "blkparam \<Rightarrow> blkparam \<Rightarrow> bool" where
  "same_target p q \<longleftrightarrow> is_user q = is_user p \<and> is_read q = is_read p \<and> blkdev q = blkdev p \<and> swap_page q = swap_page p"

lemma sector_in_target:
  "same_target (blk_op st) q \<Longrightarrow> sector_in p x (st\<lparr>blk_op := q\<rparr>) = map_option (\<lambda>t. t\<lparr>blk_op := q\<rparr>) (sector_in p x st)"
  by (cases p) (auto simp: same_target_def set_space_def space_def)

lemma sector_out_target: "same_target (blk_op st) q \<Longrightarrow> sector_out p (st\<lparr>blk_op := q\<rparr>) = sector_out p st"
  by (cases p) (auto simp: same_target_def space_def)

lemma move_sector_target:
  "same_target (blk_op st) q \<Longrightarrow> move_sector n p (st\<lparr>blk_op := q\<rparr>) = map_option (\<lambda>t. t\<lparr>blk_op := q\<rparr>) (move_sector n p st)"
  using sector_in_target [of st q p "sectors st (blkdev (blk_op st)) n"] sector_out_target [of st q p]
  by (cases "sector_out p st") (auto simp: move_sector_def same_target_def Let_def)

lemma move_sectors_target:
  "same_target (blk_op st) q \<Longrightarrow> move_sectors k n p (st\<lparr>blk_op := q\<rparr>) = map_option (\<lambda>t. t\<lparr>blk_op := q\<rparr>) (move_sectors k n p st)"
proof (induction k arbitrary: n p st)
  case 0
  then show ?case by simp
next
  case (Suc k)
  show ?case
  proof (cases "move_sector n p st")
    case None
    then show ?thesis using move_sector_target [OF Suc.prems] by simp
  next
    case (Some u)
    then have "same_target (blk_op u) q" using Suc.prems by (simp add: move_sector_op)
    then show ?thesis using Some move_sector_target [OF Suc.prems] Suc.IH by simp
  qed
qed

lemma move_sector_table: "move_sector n p st = Some t \<Longrightarrow> blkdev_table t = blkdev_table st"
  by (cases p) (auto simp: move_sector_def set_space_def Let_def split: if_splits Option.bind_splits)

lemma move_sectors_table: "move_sectors k n p st = Some t \<Longrightarrow> blkdev_table t = blkdev_table st"
  by (induction k arbitrary: n p st) (auto simp: move_sector_table split: Option.bind_splits)

text \<open>A driver that moves at least one sector and no more than it is asked for.\<close>

definition chunks :: "(blkparam \<Rightarrow> u8) \<Rightarrow> bool" where
  "chunks f \<longleftrightarrow> (\<forall>p. nblock p \<noteq> 0 \<longrightarrow> f p \<noteq> 0 \<and> ucast (f p) \<le> nblock p)"

lemma loop_moves:
  assumes "transfer (blkdev_table st (blkdev (blk_op st))) = Some f" "chunks f"
    and "move_sectors (unat (nblock (blk_op st))) (lba (blk_op st)) (addr (blk_op st)) st = Some t"
  shows "\<exists>p. blkdev_loop c st = Some (Some (c + nblock (blk_op st)), t\<lparr>blk_op := p\<rparr>)"
  using assms
proof (induction "unat (nblock (blk_op st))" arbitrary: c st t rule: less_induct)
  case less
  let ?p = "blk_op st"
  show ?case
  proof (cases "nblock ?p = 0")
    case True
    then have "t = st" using less.prems(3) by simp
    with True show ?thesis by (subst blkdev_loop.simps) (auto intro!: exI [of _ ?p])
  next
    case False
    let ?n = "f ?p"
    have n: "?n \<noteq> 0" "ucast ?n \<le> nblock ?p" using less.prems(2) False by (auto simp: chunks_def)
    have un: "unat (ucast ?n :: u16) = unat ?n" using u8_bound [of ?n] by (simp add: unsigned_ucast_eq take_bit_nat_eq_self)
    have le: "unat ?n \<le> unat (nblock ?p)" using n(2) un by (simp add: word_le_nat_alt)
    have pos: "0 < unat ?n" using n(1) by (simp add: unat_gt_0)
    have left: "unat (nblock ?p - ucast ?n) = unat (nblock ?p) - unat ?n" using n(2) un by (simp add: unat_sub)
    have "move_sectors (unat ?n + (unat (nblock ?p) - unat ?n)) (lba ?p) (addr ?p) st = Some t" using le less.prems(3) by simp
    then obtain u where u: "move_sectors (unat ?n) (lba ?p) (addr ?p) st = Some u"
      "move_sectors (unat (nblock ?p) - unat ?n) (lba ?p + of_nat (unat ?n)) (ptr_add (addr ?p) (unat ?n * BLKSIZE)) u = Some t"
      unfolding move_sectors_add by (auto elim!: bind_SomeD)
    have bu: "blk_op u = ?p" by (rule move_sectors_op [OF u(1)])
    let ?q = "?p\<lparr>nblock := nblock ?p - ucast ?n, addr := ptr_add (addr ?p) (unat ?n * BLKSIZE), lba := lba ?p + ucast ?n\<rparr>"
    let ?v = "u\<lparr>blk_op := ?q\<rparr>"
    have call: "call_transfer st = Some (?n, u)" using less.prems(1) u(1) by (simp add: call_transfer_def Let_def)
    have lba: "(of_nat (unat ?n) :: u32) = ucast ?n" by (simp add: of_nat_unat)
    have "same_target (blk_op u) ?q" by (simp add: same_target_def bu)
    from move_sectors_target [OF this] u(2)
    have "move_sectors (unat (nblock ?q)) (lba ?q) (addr ?q) ?v = Some (t\<lparr>blk_op := ?q\<rparr>)" by (simp add: left lba)
    moreover have "transfer (blkdev_table ?v (blkdev (blk_op ?v))) = Some f"
      using less.prems(1) move_sectors_table [OF u(1)] by simp
    ultimately have "\<exists>p. blkdev_loop (c + ucast ?n) ?v = Some (Some (c + ucast ?n + nblock (blk_op ?v)), t\<lparr>blk_op := ?q, blk_op := p\<rparr>)"
      using less.hyps [of ?v "t\<lparr>blk_op := ?q\<rparr>" "c + ucast ?n"] less.prems(2) left pos le by auto
    moreover have "blkdev_loop c st = blkdev_loop (c + ucast ?n) ?v"
      using False call n(1) by (subst blkdev_loop.simps) (simp add: upd_op_def bu)
    ultimately show ?thesis by simp
  qed
qed

subsection \<open>Raw reads\<close>

definition sector_bytes :: "(u32 \<Rightarrow> block) \<Rightarrow> u32 \<Rightarrow> nat \<Rightarrow> u8 list" where
  "sector_bytes D a n = concat (map (\<lambda>i. get_bytes (D (a + of_nat i)) 0 BLKSIZE) [0..<n])"

lemma length_sector_bytes [simp]: "length (sector_bytes D a n) = n * BLKSIZE"
  by (induction n) (simp_all add: sector_bytes_def)

lemma sector_bytes_Suc: "sector_bytes D a (Suc k) = sector_bytes D a k @ get_bytes (D (a + of_nat k)) 0 BLKSIZE"
  by (simp add: sector_bytes_def)

lemma sectors_to_user:
  assumes "is_read (blk_op st)" "is_user (blk_op st) = 1" "k * BLKSIZE \<le> 65536"
  shows "move_sectors k n (Mem a) st = Some (st\<lparr>kern := (kern st)
    \<lparr>umem := put_range a (sector_bytes (sectors st (blkdev (blk_op st))) n k) (umem (kern st))\<rparr>\<rparr>)"
  using assms(3)
proof (induction k)
  case 0
  then show ?case by (simp add: sector_bytes_def)
next
  case (Suc k)
  let ?D = "sectors st (blkdev (blk_op st))"
  have "put_range (a + of_nat (k * BLKSIZE)) (get_bytes (?D (n + of_nat k)) 0 BLKSIZE) (put_range a (sector_bytes ?D n k) m)
    = put_range a (sector_bytes ?D n (Suc k)) m" for m
    using put_range_append [of "sector_bytes ?D n k" "get_bytes (?D (n + of_nat k)) 0 BLKSIZE" a m] Suc.prems
    by (simp add: sector_bytes_Suc)
  then show ?case using Suc assms(1,2) move_sectors_add [of k 1 n "Mem a" st]
    by (simp add: move_sector_def set_space_def space_def Let_def)
qed

lemma mask_9: "x AND 0x1FF = take_bit 9 (x :: 'a::len word)"
proof -
  have "(0x1FF :: 'a word) = mask 9" by (simp add: mask_eq_exp_minus_1)
  then show ?thesis by (simp add: take_bit_eq_mask)
qed

text \<open>C26: A raw read of a partition delivers the sectors of the drive to the caller's memory in order, whatever pieces the
  driver moves at a time, and returns their length: ceil(u\_count / 512) sectors from u\_offset / 512 on. The block layer
  compares only the first of them with the end of the partition, so the rest may be sectors of the next one, and it
  rounds the count up, so up to 511 bytes behind the caller's buffer are overwritten.\<close>

theorem raw_read_delivers:
  assumes "drive_of dev < m" and "transfer (blkdev_table st (drive_of dev)) = Some f" and "chunks f"
    and "u_offset (kern st) AND 0x1FF = 0" and "u_count (kern st) \<le> 0xFE00"
    and "extent st dev = (a, n)" and "ucast (ucast (drop_bit 9 (u_offset (kern st))) :: u16) < n"
  shows "\<exists>t. blkdev_read m (ucast dev) 1 flag st = Some (of_nat (512 * ((unat (u_count (kern st)) + 511) div 512)), t)
    \<and> umem (kern t) = put_range (u_base (kern st))
        (sector_bytes (sectors st (drive_of dev)) (a + ucast (ucast (drop_bit 9 (u_offset (kern st))) :: u16))
          ((unat (u_count (kern st)) + 511) div 512)) (umem (kern st))
    \<and> sectors t = sectors st"
proof -
  define b :: u16 where "b = ucast (drop_bit 9 (u_offset (kern st)))"
  define c where "c = (unat (u_count (kern st)) + 511) div 512"
  define v where "v = (upd_op (\<lambda>p. p\<lparr>blkdev := drive_of dev, is_user := 1\<rparr>) (upd_op (\<lambda>p. p\<lparr>is_read := True\<rparr>) st))
    \<lparr>kern := (kern st)\<lparr>u_block := b, u_nblock := drop_bit 9 (u_count (kern st) + 0x1FF)\<rparr>, u_dptr := Mem (u_base (kern st))\<rparr>"
  have nb: "unat (u_nblock (kern v)) = c" "c \<le> 127" "(of_nat c :: u16) = u_nblock (kern v)"
  proof -
    have "unat (u_count (kern st)) \<le> 0xFE00" using assms(5) by (simp add: word_le_nat_alt)
    then have "unat (u_count (kern st) + 0x1FF) = unat (u_count (kern st)) + 511" "c \<le> 127"
      by (simp_all add: unat_word_ariths c_def)
    then show a: "unat (u_nblock (kern v)) = c" and "c \<le> 127"
      by (simp_all add: v_def c_def unat_drop_bit_eq drop_bit_eq_div unat_div_distrib)
    show "(of_nat c :: u16) = u_nblock (kern v)" unfolding a [symmetric] by (simp add: of_nat_unat)
  qed
  have ev: "extent v dev = (a, n)" "blkdev (blk_op v) = drive_of dev" "u_block (kern v) = b" "u_dptr v = Mem (u_base (kern st))"
    "sectors v = sectors st" "blkdev_table v = blkdev_table st" "umem (kern v) = umem (kern st)"
    using assms(6) extent_frame [of v st dev] by (simp_all add: v_def upd_op_def)
  obtain p where p: "blkdev_setup (ucast dev AND 0x0F) v = (True, v\<lparr>blk_op := p\<rparr>)" "is_user p = 1" "is_read p" "blkdev p = drive_of dev"
    "nblock p = u_nblock (kern v)" "addr p = Mem (u_base (kern st))" "lba p = a + ucast b"
    using setup_extent [OF ev(2)] assms(7) unfolding ev by (auto simp: b_def v_def upd_op_def)
  let ?w = "v\<lparr>blk_op := p\<rparr>"
  let ?t = "?w\<lparr>kern := (kern v)\<lparr>umem := put_range (u_base (kern st)) (sector_bytes (sectors st (drive_of dev)) (a + ucast b) c) (umem (kern st))\<rparr>\<rparr>"
  have mv: "move_sectors (unat (nblock p)) (lba p) (addr p) ?w = Some ?t"
    using sectors_to_user [of ?w c "a + ucast b" "u_base (kern st)"] p nb ev by simp
  have "transfer (blkdev_table ?w (blkdev (blk_op ?w))) = Some f" using assms(2) ev p by simp
  then obtain q where q: "blkdev_loop 0 ?w = Some (Some (of_nat c), ?t\<lparr>blk_op := q\<rparr>)"
    using loop_moves [of ?w f ?t 0] assms(3) mv p nb by auto
  have "u_offset (kern st) AND ucast ([0x7F, 0xFF, 0x1FF :: u16] ! (9 - 7)) = 0"
    using assms(4) by simp
  then have "raw_setup (upd_op (\<lambda>p. p\<lparr>blkdev := drive_of dev, is_user := 1\<rparr>) (upd_op (\<lambda>p. p\<lparr>is_read := True\<rparr>) st)) = (0, v)"
    by (simp add: raw_setup_def d_blkoff_def Let_def v_def b_def upd_op_def)
  then have "blkdev_transfer m (ucast dev) 1 (upd_op (\<lambda>p. p\<lparr>is_read := True\<rparr>) st) = Some (push_bit 9 (of_nat c), ?t\<lparr>blk_op := q\<rparr>)"
    using assms(1) p(1) q by (simp add: blkdev_transfer_def Let_def drive_of_def)
  moreover have "push_bit 9 (of_nat c :: u16) = of_nat (512 * c)" by (simp add: push_bit_eq_mult)
  ultimately show ?thesis by (simp add: blkdev_read_def c_def b_def ev)
qed

text \<open>The caller reads 1024 bytes from block 9 on, the last of a partition of ten sectors that starts at sector 1: the second
  sector it gets, number 11, is not in the partition.\<close>

theorem raw_read_delivers_witness:
  "\<exists>t. blkdev_read 1 1 1 0 (sample_parts\<lparr>kern := sample\<lparr>u_offset := 0x1200, u_count := 1024, u_base := 0x4000\<rparr>\<rparr>) = Some (1024, t)
     \<and> umem (kern t) = put_range 0x4000 (get_bytes (sample_drive 10) 0 512 @ get_bytes (sample_drive 11) 0 512) (\<lambda>_. 0)"
proof -
  let ?s = "sample_parts\<lparr>kern := sample\<lparr>u_offset := 0x1200, u_count := 1024, u_base := 0x4000\<rparr>\<rparr>"
  have drive: "drive_of 1 = 0" by (simp add: drive_of_def)
  have ext: "extent ?s 1 = (1, 10)"
    by (simp add: extent_def sample_parts_def drive_of_def Let_def sample_blkdev_def)
  have f: "transfer (blkdev_table ?s 0) = Some one_by_one" by (simp add: sample_parts_def sample_blkdev_def)
  have "x \<noteq> 0 \<Longrightarrow> 1 \<le> x" for x :: u16 by (simp add: word_le_nat_alt unat_gt_0 Suc_le_eq)
  then have c: "chunks one_by_one" by (auto simp: chunks_def one_by_one_def)
  have b: "drop_bit 9 (0x1200 :: u32) = 9" "(0x1200 AND 0x1FF :: u32) = 0" by code_simp+
  have um: "umem sample = (\<lambda>_. 0)" by (simp add: sample_def)
  have "sectors ?s 0 = sample_drive" by (simp add: sample_parts_def sample_bds_def)
  then have bytes: "sector_bytes (sectors ?s 0) 10 2 = get_bytes (sample_drive 10) 0 512 @ get_bytes (sample_drive 11) 0 512"
    by (simp add: sector_bytes_def numeral_2_eq_2)
  show ?thesis
    using raw_read_delivers [of 1 1 ?s one_by_one 1 10 0] f c ext b bytes um by (auto simp: drive)
qed

text \<open>A raw write of two sectors to the last block of a partition changes the sector behind it.\<close>

declare blkdev_loop.simps [code]

definition two_at_end :: bds where
  "two_at_end = sample_parts\<lparr>kern := sample\<lparr>u_offset := 0x1200, u_count := 1024, umem := (\<lambda>_. 0xE5)\<rparr>\<rparr>"

lemma raw_write_leaves_partition:
  "extent two_at_end 1 = (1, 10)"
  "map_option (\<lambda>(r, t). (r, sectors t 0 11 7)) (blkdev_write 1 1 1 0 two_at_end) = Some (1024, 0xE5)"
  by (simp add: two_at_end_def extent_def drive_of_def sample_parts_def sample_blkdev_def Let_def) code_simp

end
