(* ===== verification/DevSys.thy ===== *)
theory DevSys
  imports FileSpec
begin

text \<open>
  Kernel/devsys.c: /dev/null, /dev/kmem, /dev/zero and /dev/proc, in the build without CONFIG\_DEV\_MEM, CONFIG\_RTC\_FULL,
  CONFIG\_NET\_NATIVE and CONFIG\_AUDIO. The address \<open>pa\<close> of the process table and the size \<open>psz\<close> of an entry are
  parameters: the linker and the compiler choose them. The table has PTABSIZE = 15 entries.
\<close>

unbundle bit_operations_syntax

definition kmem_to_user :: "u16 \<Rightarrow> kst \<Rightarrow> u16 \<times> kst" where
  "kmem_to_user a s =
     (let (bad, t) = uput (get_range (kmem s) a (unat (u_count s))) (u_base s) (u_count s) s
      in if bad then (0xFFFF, t) else (u_count t, t))"

definition sys_read :: "u16 \<Rightarrow> u16 \<Rightarrow> u8 \<Rightarrow> u8 \<Rightarrow> u8 \<Rightarrow> kst \<Rightarrow> u16 \<times> kst" where
  "sys_read pa psz mn rawflag flag s =
     (if mn = 0 then (0, s)
      else if mn = 1 then kmem_to_user (ucast (u_offset s)) s
      else if mn = 2 then
        if u_sysio s then (u_count s, s\<lparr>kmem := put_range (u_base s) (replicate (unat (u_count s)) 0) (kmem s)\<rparr>)
        else let (_, t) = uzero (u_base s) (u_count s) s in (u_count t, t)
      else if mn = 3 then
        let s = (if u_count s > psz then s\<lparr>u_count := psz\<rparr> else s) in
        if u_offset s + ucast (u_count s) > ucast (15 * psz) then (0, s)
        else kmem_to_user (pa + ucast (u_offset s)) s
      else (0xFFFF, s\<lparr>u_error := ENXIO\<rparr>))"

definition sys_write :: "u8 \<Rightarrow> u8 \<Rightarrow> u8 \<Rightarrow> kst \<Rightarrow> u16 \<times> kst" where
  "sys_write mn rawflag flag s =
     (if mn = 0 \<or> mn = 2 then (u_count s, s)
      else if mn = 1 then
        case uget (u_base s) (u_count s) s of
          (None, t) \<Rightarrow> (0xFFFF, t)
        | (Some bs, t) \<Rightarrow> (u_count t, t\<lparr>kmem := put_range (ucast (u_offset t)) bs (kmem t)\<rparr>)
      else if mn = 3 then (0xFFFF, s\<lparr>u_error := EINVAL\<rparr>)
      else (0xFFFF, s\<lparr>u_error := ENXIO\<rparr>))"

definition sys_ioctl :: "u16 \<Rightarrow> u16 \<Rightarrow> u8 \<Rightarrow> u16 \<Rightarrow> u16 \<Rightarrow> kst \<Rightarrow> u16 \<times> kst" where
  "sys_ioctl maxproc psz mn request data s =
     (if mn \<noteq> 3 then (0xFFFF, s\<lparr>u_error := ENOTTY\<rparr>)
      else if request = 1 then (0, snd (uputw maxproc data s))
      else if request = 2 then (0, snd (uputw psz data s))
      else (0xFFFF, s\<lparr>u_error := EINVAL\<rparr>))"

definition sys_close :: "u8 \<Rightarrow> kst \<Rightarrow> u16 \<times> kst" where
  "sys_close mn s = (0, s)"

lemma kmem_to_user_ok:
  assumes "u_base s \<noteq> 0" "progbase (plat s) \<le> u_base s" "unat (u_base s) + unat (u_count s) \<le> unat (u_top s)" "u_count s \<noteq> 0"
  shows "kmem_to_user a s =
    (u_count s, s\<lparr>umem := put_range (u_base s) (get_range (kmem s) a (unat (u_count s))) (umem s)\<rparr>)"
proof -
  have "0 < unat (u_count s)" using assms(4) by (simp add: unat_gt_0)
  from valaddr_inside(1) [OF assms(1-3) this] have "valaddr (u_base s) (u_count s) s = (u_count s, s)" by simp
  moreover have "unat (u_count s) \<le> 65536" using u16_bound [of "u_count s"] by simp
  ultimately show ?thesis using assms(4) by (simp add: kmem_to_user_def uput_def uput_raw_range)
qed

text \<open>/dev/proc gives the bytes of the process table at the offset, at most one entry at a time, and nothing at its end.\<close>

lemma proc_read:
  assumes "u_base s \<noteq> 0" "progbase (plat s) \<le> u_base s" "unat (u_base s) + unat (u_count s) \<le> unat (u_top s)"
    and "u_count s \<noteq> 0" "u_count s \<le> psz" "unat psz * 15 < 65536" "unat (u_offset s) + unat (u_count s) < 2 ^ 32"
  shows "sys_read pa psz 3 rawflag flag s =
    (if unat (u_offset s) + unat (u_count s) \<le> 15 * unat psz
     then (u_count s, s\<lparr>umem := put_range (u_base s) (get_range (kmem s) (pa + ucast (u_offset s)) (unat (u_count s))) (umem s)\<rparr>)
     else (0, s))"
proof -
  have "unat (15 * psz) = 15 * unat psz" using assms(6) by (simp add: unat_word_ariths)
  then have "unat (ucast (15 * psz) :: u32) = 15 * unat psz" by (simp add: unat_ucast_u16)
  moreover have "unat (u_offset s + ucast (u_count s)) = unat (u_offset s) + unat (u_count s)"
    using assms(7) by (simp add: unat_word_ariths unat_ucast_u16)
  ultimately have "u_offset s + ucast (u_count s) > ucast (15 * psz) \<longleftrightarrow> \<not> unat (u_offset s) + unat (u_count s) \<le> 15 * unat psz"
    by (simp add: word_less_nat_alt not_le)
  moreover have "\<not> psz < u_count s" using assms(5) by simp
  ultimately show ?thesis using kmem_to_user_ok [OF assms(1-4)] by (simp add: sys_read_def Let_def)
qed

text \<open>An offset just below 2^32 passes the test, because the sum wraps, and reads the kernel's memory in front of the table.\<close>

lemma proc_read_in_front:
  assumes "u_base s \<noteq> 0" "progbase (plat s) \<le> u_base s" "unat (u_base s) + 32 \<le> unat (u_top s)"
    and "u_count s = 32" "32 \<le> psz" "unat psz * 15 < 65536" "u_offset s = 0xFFFFFFF0"
  shows "sys_read pa psz 3 rawflag flag s =
    (32, s\<lparr>umem := put_range (u_base s) (get_range (kmem s) (pa - 16) 32) (umem s)\<rparr>)"
proof -
  have wraps: "(0x100000010 :: u32) = 16" "(0xFFFFFFF0 :: u16) = - 16" by code_simp+
  have psz: "32 \<le> unat psz" using assms(5) by (simp add: word_le_nat_alt)
  have "unat (15 * psz) = 15 * unat psz" using assms(6) by (simp add: unat_word_ariths)
  then have "unat (ucast (15 * psz) :: u32) = 15 * unat psz" by (simp add: unat_ucast_u16)
  then have "\<not> (ucast (15 * psz) :: u32) < 16" using psz by (simp add: word_less_nat_alt)
  moreover have "\<not> psz < 32" using assms(5) by simp
  ultimately show ?thesis
    using assms(3,4,7) kmem_to_user_ok [OF assms(1,2), of "pa - 16"]
    by (simp add: sys_read_def Let_def wraps)
qed

text \<open>With the C version of uzero() a read of /dev/zero leaves the caller's buffer as it was and clears the kernel's memory at
  the same address.\<close>

lemma zero_read_clears_kernel:
  assumes "u_base s \<noteq> 0" "progbase (plat s) \<le> u_base s" "unat (u_base s) + unat (u_count s) \<le> unat (u_top s)"
    and "u_count s \<noteq> 0" "\<not> u_sysio s"
  shows "sys_read pa psz 2 rawflag flag s =
    (u_count s, s\<lparr>kmem := put_range (u_base s) (replicate (unat (u_count s)) 0) (kmem s)\<rparr>)"
proof -
  have "0 < unat (u_count s)" using assms(4) by (simp add: unat_gt_0)
  from valaddr_inside(1) [OF assms(1-3) this] have "valaddr (u_base s) (u_count s) s = (u_count s, s)" by simp
  moreover have "unat (u_count s) \<le> 65536" using u16_bound [of "u_count s"] by simp
  ultimately show ?thesis using assms(4,5) by (simp add: sys_read_def uzero_def uput_raw_range)
qed

text \<open>What is written to /dev/kmem is read back from there.\<close>

lemma kmem_roundtrip:
  assumes "u_base s \<noteq> 0" "progbase (plat s) \<le> u_base s" "unat (u_base s) + unat (u_count s) \<le> unat (u_top s)" "u_count s \<noteq> 0"
  shows "get_range (kmem (snd (sys_write 1 rawflag flag s))) (ucast (u_offset s)) (unat (u_count s))
    = get_range (umem s) (u_base s) (unat (u_count s))"
proof -
  have "0 < unat (u_count s)" using assms(4) by (simp add: unat_gt_0)
  from valaddr_inside(1) [OF assms(1-3) this] have "valaddr (u_base s) (u_count s) s = (u_count s, s)" by simp
  moreover have "unat (u_count s) \<le> 65536" using u16_bound [of "u_count s"] by simp
  ultimately show ?thesis using assms(4) by (simp add: sys_write_def uget_def uget_raw_range get_put_range)
qed

end
