(* ===== verification/KMalloc.thy ===== *)
theory KMalloc
  imports Prelude
begin

text \<open>
  Kernel/malloc.c: the allocator of the ports with one 32-bit address space. Memory is a map of 32-bit words; a block
  header at \<open>b\<close> is the two words \<open>next\<close> and \<open>length\<close>, the high bit of which marks a used block. ALIGNUP is the identity, as on the 68000.
  A header at an address that is not a multiple of 4 is outside the model (None), as is a search that does not end. A size is a
  size\_t, 32 bits without sign, and so is sizeof: the comparison of \<open>newsize\<close>, which \<^emph>\<open>might be negative\<close>, is one of unsigned numbers.
\<close>

unbundle bit_operations_syntax

type_synonym words = "u32 \<Rightarrow> u32"

record kheap =
  start :: u32
  dummy :: u32
  wd :: words

abbreviation (input) blk_next :: "words \<Rightarrow> u32 \<Rightarrow> u32" where
  "blk_next m b \<equiv> m b"

abbreviation (input) blk_length :: "words \<Rightarrow> u32 \<Rightarrow> u32" where
  "blk_length m b \<equiv> m (b + 4)"

definition unused :: "words \<Rightarrow> u32 \<Rightarrow> bool" where
  "unused m b \<longleftrightarrow> blk_length m b AND 0x80000000 = 0"

definition aligned :: "u32 \<Rightarrow> bool" where
  "aligned a \<longleftrightarrow> a AND 3 = 0"

partial_function (option) last_block :: "words \<Rightarrow> u32 \<Rightarrow> u32 option" where
  "last_block m b = (if blk_next m b = 0 then Some b else last_block m (blk_next m b))"

definition kmemaddblk :: "u32 \<Rightarrow> u32 \<Rightarrow> kheap \<Rightarrow> (unit \<times> kheap) option" where
  "kmemaddblk base sz h = do {
     b \<leftarrow> last_block (wd h) (start h);
     if \<not> aligned base then None
     else Some ((), h\<lparr>wd := (wd h)(b := base, base := 0, base + 4 := sz)\<rparr>)
   }"

text \<open>The loop of find\_smallest(): the pair of \<open>b\<close> and \<open>smallest\<close> at its end.\<close>

partial_function (option) smallest_loop :: "words \<Rightarrow> u32 \<Rightarrow> u32 \<Rightarrow> u32 \<Rightarrow> (u32 \<times> u32) option" where
  "smallest_loop m n b smallest =
     (if blk_next m b = 0 then Some (b, smallest)
      else smallest_loop m n (blk_next m b)
        (if unused m b \<and> blk_length m b \<ge> n \<and> blk_length m b < blk_length m smallest then b else smallest))"

definition find_smallest :: "u32 \<Rightarrow> kheap \<Rightarrow> u32 option option" where
  "find_smallest n h = do {
     (b, smallest) \<leftarrow> smallest_loop (wd h) n (start h) (dummy h);
     Some (if b = dummy h then None else Some b)
   }"

definition split_block :: "u32 \<Rightarrow> u32 \<Rightarrow> kheap \<Rightarrow> (unit \<times> kheap) option" where
  "split_block b sz h =
     (let m = wd h; newsize = blk_length m b - sz in do {
        m \<leftarrow> (if newsize > 8 * 4 then
                let n = b + sz in
                if \<not> aligned n then None
                else let m = m(n := blk_next m b); m = m(b := n); m = m(b + 4 := sz); m = m(n + 4 := newsize) in Some m
              else Some m);
        Some ((), h\<lparr>wd := m(b + 4 := blk_length m b OR 0x80000000)\<rparr>)
      })"

definition kmalloc :: "u32 \<Rightarrow> kheap \<Rightarrow> (u32 \<times> kheap) option" where
  "kmalloc sz h =
     (let sz = sz + 8 in do {
        b \<leftarrow> find_smallest sz h;
        case b of None \<Rightarrow> Some (0, h)
        | Some b \<Rightarrow> do { (_, h) \<leftarrow> split_block b sz h; Some (b + 8, h) }
      })"

partial_function (option) merge_from :: "words \<Rightarrow> u32 \<Rightarrow> words option" where
  "merge_from m b =
     (if blk_next m b = 0 then Some m
      else let n = blk_next m b in
        if unused m b \<and> unused m n \<and> b + blk_length m b = n
        then let m = m(b := blk_next m n) in merge_from (m(b + 4 := blk_length m b + blk_length m n)) b
        else merge_from m n)"

definition kfree :: "u32 \<Rightarrow> kheap \<Rightarrow> (unit \<times> kheap) option" where
  "kfree p h =
     (let b = p - 8 in
      if unused (wd h) b then None
      else do {
        m \<leftarrow> merge_from ((wd h)(b + 4 := blk_length (wd h) b AND 0x7FFFFFFF)) (start h);
        Some ((), h\<lparr>wd := m\<rparr>)
      })"

subsection \<open>The chain of blocks\<close>

fun chain :: "words \<Rightarrow> u32 \<Rightarrow> u32 list \<Rightarrow> bool" where
  "chain m b [] \<longleftrightarrow> blk_next m b = 0"
| "chain m b (c # cs) \<longleftrightarrow> blk_next m b = c \<and> c \<noteq> 0 \<and> chain m c cs"

lemma last_block_chain: "chain m b cs \<Longrightarrow> last_block m b = Some (last (b # cs))"
proof (induction cs arbitrary: b)
  case Nil
  then show ?case by (subst last_block.simps) simp
next
  case (Cons c cs)
  then have "last_block m b = last_block m c" by (subst last_block.simps) simp
  with Cons show ?case by simp
qed

lemma smallest_chain: "chain m b cs \<Longrightarrow> \<exists>x. smallest_loop m n b s = Some (last (b # cs), x)"
proof (induction cs arbitrary: b s)
  case Nil
  then show ?case by (subst smallest_loop.simps) simp
next
  case (Cons c cs)
  then have "smallest_loop m n b s = smallest_loop m n c (if unused m b \<and> n \<le> blk_length m b \<and> blk_length m b < blk_length m s then b else s)"
    by (subst smallest_loop.simps) simp
  moreover have "\<exists>x. smallest_loop m n c y = Some (last (c # cs), x)" for y using Cons by simp
  ultimately show ?case by simp
qed

text \<open>find\_smallest() computes the smallest block that fits and then returns the last block of the chain, used or not.\<close>

lemma find_smallest_last:
  assumes "chain (wd h) (start h) cs" "dummy h \<notin> set (start h # cs)"
  shows "find_smallest n h = Some (Some (last (start h # cs)))"
proof -
  obtain x where "smallest_loop (wd h) n (start h) (dummy h) = Some (last (start h # cs), x)"
    using smallest_chain [OF assms(1)] by blast
  moreover have "last (start h # cs) \<noteq> dummy h" using assms(2) last_in_set [of "start h # cs"] by auto
  ultimately show ?thesis by (simp add: find_smallest_def)
qed

lemma kmalloc_last:
  assumes "chain (wd h) (start h) cs" "dummy h \<notin> set (start h # cs)"
  defines "b \<equiv> last (start h # cs)"
  shows "kmalloc sz h = do { (_, h) \<leftarrow> split_block b (sz + 8) h; Some (b + 8, h) }"
  by (simp add: kmalloc_def find_smallest_last [OF assms(1,2)] b_def)

subsection \<open>What the allocator gives out\<close>

lemma chain_frame: "chain m b cs \<Longrightarrow> \<forall>c\<in>set (b # cs). n c = m c \<Longrightarrow> chain n b cs"
  by (induction cs arbitrary: b) auto

lemma chain_extend: "chain m b cs \<Longrightarrow> n \<noteq> 0 \<Longrightarrow> n \<notin> set (b # cs) \<Longrightarrow> m' n = 0 \<Longrightarrow> m' (last (b # cs)) = n
    \<Longrightarrow> \<forall>c\<in>set (b # cs) - {last (b # cs)}. m' c = m c \<Longrightarrow> distinct (b # cs) \<Longrightarrow> chain m' b (cs @ [n])"
proof (induction cs arbitrary: b)
  case Nil
  then show ?case by simp
next
  case (Cons c cs)
  have "b \<noteq> last (c # cs)" using Cons.prems(7) last_in_set [of "c # cs"] by auto
  then have "m' b = c" using Cons.prems(1,6) by auto
  moreover have "chain m' c (cs @ [n])" using Cons.prems \<open>b \<noteq> last (c # cs)\<close> by (intro Cons.IH) auto
  ultimately show ?case using Cons.prems(1) by simp
qed

text \<open>malloc.c hands out memory that is in use. When the last block of the chain is free and fits a request so closely that
  it is not split, kmalloc() returns it and marks it used; the next call, for any size and although there is
  no memory left, returns the same address again, because find\_smallest() returns the last block it has visited and not
  the smallest one it has found.\<close>

theorem kmalloc_hands_out_twice:
  assumes "chain (wd h) (start h) cs" and "dummy h \<notin> set (start h # cs)" and "b = last (start h # cs)"
    and "unused (wd h) b" and "size1 + 8 \<le> wd h (b + 4)" and "wd h (b + 4) - (size1 + 8) \<le> 32"
    and "\<forall>c\<in>set (start h # cs). c \<noteq> b + 4" and "aligned (b + (size2 + 8))"
  shows "\<exists>h1 h2. kmalloc size1 h = Some (b + 8, h1) \<and> \<not> unused (wd h1) b \<and> kmalloc size2 h1 = Some (b + 8, h2)"
proof -
  let ?h = "h\<lparr>wd := (wd h)(b + 4 := wd h (b + 4) OR 0x80000000)\<rparr>"
  have "kmalloc size1 h = do { (_, h) \<leftarrow> split_block b (size1 + 8) h; Some (b + 8, h) }"
    using kmalloc_last [OF assms(1,2)] assms(3) by simp
  moreover have "split_block b (size1 + 8) h = Some ((), ?h)"
    using assms(6) by (simp add: split_block_def Let_def not_less [symmetric])
  moreover have "\<not> unused (wd ?h) b"
  proof -
    have "(wd h (b + 4) OR 0x80000000) AND 0x80000000 = 0x80000000" by (simp add: bit_eq_iff bit_simps)
    then show ?thesis by (simp add: unused_def)
  qed
  moreover have "chain (wd ?h) (start ?h) cs" using chain_frame [OF assms(1), of "wd ?h"] assms(7) by simp
  then have "kmalloc size2 ?h = do { (_, h) \<leftarrow> split_block b (size2 + 8) ?h; Some (b + 8, h) }"
    using kmalloc_last [of ?h cs size2] assms(2,3) by simp
  moreover have "\<exists>h2. split_block b (size2 + 8) ?h = Some ((), h2)" using assms(8) by (simp add: split_block_def Let_def)
  ultimately show ?thesis by auto
qed

text \<open>A pool of 16 bytes at 8192: the first call takes all of it, and the second, for 4096 bytes, gets it again.\<close>

definition sample_heap :: kheap where
  "sample_heap = \<lparr>start = 4096, dummy = 4104,
     wd = (\<lambda>_. 0)(4096 := 8192, 4100 := 8, 8196 := 16, 4108 := 0x7FFFFFFF)\<rparr>"

theorem kmalloc_hands_out_twice_witness:
  "\<exists>h1 h2. kmalloc 8 sample_heap = Some (8200, h1) \<and> kmalloc 4096 h1 = Some (8200, h2)"
proof -
  have "unused (wd sample_heap) 8192" by code_simp
  moreover have "aligned (8192 + (4096 + 8))" by code_simp
  ultimately show ?thesis
    using kmalloc_hands_out_twice [of sample_heap "[8192]" 8192 8 4096] by (auto simp: sample_heap_def)
qed

text \<open>While there is room, requests are carved off the last block one after the other.\<close>

definition room :: "kheap \<Rightarrow> u32 list \<Rightarrow> u32 \<Rightarrow> nat \<Rightarrow> bool" where
  "room h cs b n \<longleftrightarrow> chain (wd h) (start h) cs \<and> b = last (start h # cs) \<and> distinct (start h # cs) \<and> dummy h \<notin> set (start h # cs)
     \<and> unat (wd h (b + 4)) = n \<and> n < 2 ^ 31 \<and> unat b + n < 2 ^ 32 \<and> aligned b
     \<and> (\<forall>c\<in>insert (dummy h) (set (start h # cs)). aligned c \<and> (unat c \<le> unat b \<or> unat b + n \<le> unat c))"

lemma chain_end: "chain m b cs \<Longrightarrow> m (last (b # cs)) = 0"
  by (induction cs arbitrary: b) auto

lemma aligned_dvd: "aligned a \<longleftrightarrow> 4 dvd unat a"
proof -
  have "(3 :: u32) = mask 2" by (simp add: mask_eq_exp_minus_1)
  then have "a AND 3 = take_bit 2 a" by (simp add: take_bit_eq_mask)
  moreover have "unat (take_bit 2 a) = unat a mod 4" by (simp add: unsigned_take_bit_eq take_bit_nat_def)
  ultimately show ?thesis unfolding aligned_def by (metis mod_0_imp_dvd dvd_imp_mod_0 unat_eq_zero)
qed

lemma kmalloc_carves:
  assumes r: "room h cs b n" and s: "unat (sz :: u32) + 40 < n" "aligned sz"
  shows "\<exists>h'. kmalloc sz h = Some (b + 8, h') \<and> room h' (cs @ [b + sz + 8]) (b + sz + 8) (n - (unat sz + 8))"
proof -
  let ?n = "b + sz + 8" and ?l = "wd h (b + 4)"
  define m where "m = (wd h)(?n := 0, b := ?n, ?n + 4 := ?l - (sz + 8), b + 4 := (sz + 8) OR 0x80000000)"
  have b: "chain (wd h) (start h) cs" "b = last (start h # cs)" "distinct (start h # cs)" "dummy h \<notin> set (start h # cs)"
    "unat ?l = n" "n < 2 ^ 31" "unat b + n < 2 ^ 32" "4 dvd unat b"
    "\<And>c. c \<in> insert (dummy h) (set (start h # cs)) \<Longrightarrow> 4 dvd unat c \<and> (unat c \<le> unat b \<or> unat b + n \<le> unat c)"
    using r unfolding room_def aligned_dvd by blast+
  have un: "unat ?n = unat b + unat sz + 8" "unat (b + 4) = unat b + 4" "unat (?n + 4) = unat b + unat sz + 12" "unat (sz + 8) = unat sz + 8"
    using s b(7) by (simp_all add: unat_word_ariths)
  have new: "unat (?l - (sz + 8)) = n - (unat sz + 8)" using s b(5) un(4) by (simp add: unat_sub word_le_nat_alt)
  have out: "c \<noteq> ?n \<and> c \<noteq> b + 4 \<and> c \<noteq> ?n + 4" if "c \<in> insert (dummy h) (set (start h # cs))" for c
    using b(9) [OF that] un s b(7) by auto
  have mem: "b \<in> set (start h # cs)" unfolding b(2) by (rule last_in_set) simp
  have dif: "b \<noteq> b + 4" "?n \<noteq> b + 4" "?n \<noteq> b" "?n + 4 \<noteq> b" "?n + 4 \<noteq> b + 4" "?n + 4 \<noteq> ?n"
    unfolding word_unat_eq_iff un by simp_all
  have al: "aligned ?n" using b(8) s(2) un(1) unfolding aligned_dvd by (simp add: dvd_add)
  have "wd h b = 0" using chain_end [OF b(1)] b(2) by simp
  moreover have "32 < ?l - (sz + 8)" using new s by (simp add: word_less_nat_alt)
  ultimately have "split_block b (sz + 8) h = Some ((), h\<lparr>wd := m\<rparr>)"
    using al dif by (simp add: split_block_def Let_def m_def add.assoc fun_upd_twist)
  then have k: "kmalloc sz h = Some (b + 8, h\<lparr>wd := m\<rparr>)" using kmalloc_last [OF b(1,4)] b(2) by simp
  have "chain m (start h) (cs @ [?n])"
  proof (rule chain_extend [OF b(1)])
    show "?n \<noteq> 0" using un(1) by auto
    show "?n \<notin> set (start h # cs)" using out by blast
    show "m ?n = 0" "m (last (start h # cs)) = ?n" using dif b(2) by (auto simp: m_def)
    show "\<forall>c\<in>set (start h # cs) - {last (start h # cs)}. m c = wd h c" using out b(2) by (auto simp: m_def)
  qed (rule b(3))
  moreover have "unat (m (?n + 4)) = n - (unat sz + 8)" using dif new by (simp add: m_def)
  moreover have "unat c \<le> unat ?n \<or> unat ?n + (n - (unat sz + 8)) \<le> unat c" if "c \<in> insert (dummy h) (set (start h # cs))" for c
    using b(9) [OF that] un(1) s by auto
  moreover have "?n \<notin> insert (dummy h) (set (start h # cs))" using out by blast
  ultimately have "room (h\<lparr>wd := m\<rparr>) (cs @ [?n]) ?n (n - (unat sz + 8))"
    using b un(1) s al out unfolding room_def by (auto simp: aligned_dvd)
  with k show ?thesis by blast
qed

fun kmallocs :: "u32 list \<Rightarrow> kheap \<Rightarrow> (u32 list \<times> kheap) option" where
  "kmallocs [] h = Some ([], h)"
| "kmallocs (sz # szs) h = do { (p, h) \<leftarrow> kmalloc sz h; (ps, h) \<leftarrow> kmallocs szs h; Some (p # ps, h) }"

fun carved :: "u32 \<Rightarrow> u32 list \<Rightarrow> u32 list" where
  "carved b [] = []"
| "carved b (sz # szs) = (b + 8) # carved (b + sz + 8) szs"

lemma kmallocs_apart:
  assumes "room h cs b n" "sum_list (map (\<lambda>sz. unat sz + 8) szs) + 32 < n" "\<forall>sz\<in>set szs. aligned sz"
  shows "\<exists>h'. kmallocs szs h = Some (carved b szs, h')"
  using assms
proof (induction szs arbitrary: h cs b n)
  case Nil
  then show ?case by simp
next
  case (Cons sz szs)
  obtain h1 where h1: "kmalloc sz h = Some (b + 8, h1)" "room h1 (cs @ [b + sz + 8]) (b + sz + 8) (n - (unat sz + 8))"
    using kmalloc_carves [OF Cons.prems(1), of sz] Cons.prems(2,3) by auto
  have "sum_list (map (\<lambda>sz. unat sz + 8) szs) + 32 < n - (unat sz + 8)" using Cons.prems(2) unfolding list.map sum_list.Cons by linarith
  then show ?case using Cons.IH [OF h1(2)] h1(1) Cons.prems(3) by auto
qed

end
