(* ===== verification/Fsck.thy ===== *)
theory Fsck
  imports Mkfs
begin

text \<open>
  Standalone/fsck.c: the file system checker. The globals of the program and the image it works on are the record \<open>fsck\<close>;
  the answers of the user are the list of the first bytes of what fgets(3) returns. What is printed is left out. The program ends
  before its last pass where a read or write fails (\<open>fdok\<close>), the input ends, or it panics; this is None, as are accesses outside
  its tables and loops that do not end because a 16-bit counter wraps. \<open>fjunk\<close> is what follows the superblock in memory, taken as fixed:
  it goes to the medium behind the superblock and the lists of free blocks and is not read again.
  The depth of the directory search is the number of levels that are left: MAXDEPTH = 20 at the root.
\<close>

unbundle bit_operations_syntax

record fsck =
  fimg :: image
  fsb :: filesys
  fmnt :: u16
  ferror :: u32
  fbits :: "nat \<Rightarrow> bool"
  fnbits :: nat
  flinks :: "nat \<Rightarrow> u16"
  fnlinks :: nat
  finput :: "u8 list"
  fyes :: bool
  fswz :: bool
  fdok :: "u16 \<Rightarrow> bool"
  fjunk :: block

type_synonym 'a fck = "fsck \<Rightarrow> ('a \<times> fsck) option"

subsection \<open>Answers\<close>

definition fold_case :: "u8 \<Rightarrow> u8" where
  "fold_case c = (if 0x41 \<le> c \<and> c \<le> 0x5A then c + 0x20 else c)"

definition yes_noerror :: "bool fck" where
  "yes_noerror s =
     (if fyes s then Some (True, s)
      else case dropWhile (\<lambda>c. fold_case c \<noteq> 0x6E \<and> fold_case c \<noteq> 0x79) (finput s) of
        [] \<Rightarrow> None
      | c # cs \<Rightarrow> Some (fold_case c = 0x79, s\<lparr>finput := cs\<rparr>))"

definition set_error :: "u32 \<Rightarrow> fsck \<Rightarrow> fsck" where
  "set_error e s = s\<lparr>ferror := ferror s OR e\<rparr>"

definition yes :: "bool fck" where
  "yes s = do { (r, s) \<leftarrow> yes_noerror s; Some (r, set_error (if r then 1 else 4) s) }"

subsection \<open>The image\<close>

text \<open>swizzle16() of a 16-bit number.\<close>

definition sz :: "fsck \<Rightarrow> u16 \<Rightarrow> u16" where
  "sz s v = (if fswz s then push_bit 8 (v AND 0xFF) OR drop_bit 8 (v AND 0xFF00) else v)"

definition sz32 :: "fsck \<Rightarrow> u32 \<Rightarrow> u32" where
  "sz32 s v = swizzle32 (fswz s) v"

definition daread :: "u16 \<Rightarrow> fsck \<Rightarrow> block option" where
  "daread blk s = (if fdok s blk then Some (fimg s blk) else None)"

definition fwrite :: "u16 \<Rightarrow> block \<Rightarrow> unit fck" where
  "fwrite blk x s = do { img \<leftarrow> dwrite (fdok s) blk x (fimg s); Some ((), s\<lparr>fimg := img\<rparr>) }"

definition sb_bytes :: "fsck \<Rightarrow> u8 list" where
  "sb_bytes s = take 220 (filesys_bytes 0 (fsb s)) @ le16 (fmnt s)"

definition write_super :: "unit fck" where
  "write_super s = fwrite 1 (mem512 (sb_bytes s) (fjunk s)) s"

definition upd_sb :: "(filesys \<Rightarrow> filesys) \<Rightarrow> fsck \<Rightarrow> fsck" where
  "upd_sb f s = s\<lparr>fsb := f (fsb s)\<rparr>"

definition iread :: "u16 \<Rightarrow> fsck \<Rightarrow> dinode option" where
  "iread ino s = do { x \<leftarrow> daread (inode_blk ino) s; Some (dinode_of (get_bytes x (inode_off ino) 64)) }"

definition iwrite :: "u16 \<Rightarrow> dinode \<Rightarrow> unit fck" where
  "iwrite ino d s = do { x \<leftarrow> daread (inode_blk ino) s; fwrite (inode_blk ino) (put_bytes x (inode_off ino) (dinode_bytes d)) s }"

definition word_at :: "block \<Rightarrow> nat \<Rightarrow> u16" where
  "word_at x i = rd16 (get_bytes x (2 * i) 2) 0"

definition set_word :: "nat \<Rightarrow> u16 \<Rightarrow> block \<Rightarrow> block" where
  "set_word i v x = put_bytes x (2 * i) (le16 v)"

text \<open>The sizes in the superblock, and the number of inodes, 8 * (isize - 2), as the int that C computes.\<close>

definition isz :: "fsck \<Rightarrow> u16" where
  "isz s = sz s (s_isize (fsb s))"

definition fsz :: "fsck \<Rightarrow> u16" where
  "fsz s = sz s (s_fsize (fsb s))"

definition icnt :: "fsck \<Rightarrow> int" where
  "icnt s = 8 * (int (unat (isz s)) - 2)"

text \<open>\<^verbatim>\<open>for (n = ROOTINODE; n < 8 * (isize - 2); ++n)\<close> with a 16-bit n.\<close>

definition all_inodes :: "(nat \<Rightarrow> unit fck) \<Rightarrow> unit fck" where
  "all_inodes body s = (if icnt s > 65535 then None else for_each [1..<nat (icnt s)] body s)"

definition bitset :: "u16 \<Rightarrow> unit fck" where
  "bitset b s = (if unat b < fnbits s then Some ((), s\<lparr>fbits := (fbits s)(unat b := True)\<rparr>) else None)"

definition bitclear :: "u16 \<Rightarrow> unit fck" where
  "bitclear b s = (if unat b < fnbits s then Some ((), s\<lparr>fbits := (fbits s)(unat b := False)\<rparr>) else None)"

definition bittest :: "u16 \<Rightarrow> fsck \<Rightarrow> bool option" where
  "bittest b s = (if unat b < fnbits s then Some (fbits s (unat b)) else None)"

definition get_link :: "u16 \<Rightarrow> fsck \<Rightarrow> u16 option" where
  "get_link n s = (if unat n < fnlinks s then Some (flinks s (unat n)) else None)"

definition set_link :: "u16 \<Rightarrow> u16 \<Rightarrow> unit fck" where
  "set_link n v s = (if unat n < fnlinks s then Some ((), s\<lparr>flinks := (flinks s)(unat n := v)\<rparr>) else None)"

definition out_of_range :: "u16 \<Rightarrow> fsck \<Rightarrow> bool" where
  "out_of_range b s \<longleftrightarrow> b < isz s \<or> b \<ge> fsz s"

subsection \<open>Blocks of a file\<close>

definition getblkno :: "dinode \<Rightarrow> u16 \<Rightarrow> fsck \<Rightarrow> u16 option" where
  "getblkno ino num s =
     (if num < 18 then Some (sz s (i_addr ino ! unat num))
      else if num < 256 + 18 then
        let indb = sz s (i_addr ino ! 18) in
        if indb = 0 then Some 0
        else do { x \<leftarrow> daread indb s; Some (sz s (word_at x (unat (num - 18)))) }
      else
        let indb = sz s (i_addr ino ! 19); k = num - (18 + 256) in
        if indb = 0 then Some 0
        else do {
          x \<leftarrow> daread indb s;
          y \<leftarrow> daread (sz s (word_at x (unat (drop_bit 8 k)))) s;
          Some (sz s (word_at y (unat (k AND 0xFF))))
        })"

definition setblkno :: "dinode \<Rightarrow> u16 \<Rightarrow> u16 \<Rightarrow> dinode fck" where
  "setblkno ino num dnum s =
     (if num < 18 then Some (ino\<lparr>i_addr := (i_addr ino)[unat num := sz s dnum]\<rparr>, s)
      else if num < 256 + 18 then
        let indb = sz s (i_addr ino ! 18) in
        if indb = 0 then None
        else do { x \<leftarrow> daread indb s; (_, s) \<leftarrow> fwrite indb (set_word (unat (num - 18)) (sz s dnum) x) s; Some (ino, s) }
      else
        let indb = sz s (i_addr ino ! 19); k = num - (18 + 256) in
        if indb = 0 then None
        else do {
          x \<leftarrow> daread indb s;
          let dindb = sz s (word_at x (unat (drop_bit 8 k)));
          if dindb = 0 then None
          else do {
            y \<leftarrow> daread dindb s;
            (_, s) \<leftarrow> fwrite indb (set_word (unat (k AND 0xFF)) (sz s num) y) s;
            Some (ino, s)
          }
        })"

text \<open>blk\_alloc0(): \<open>s_nfree\<close> is an int16\_t that is decremented twice; an index outside the table has no meaning.\<close>

definition blk_alloc0 :: "u16 fck" where
  "blk_alloc0 s = do {
     nf \<leftarrow> swizzle16 (fswz s) (ucast (sz s (s_nfree (fsb s))) - 1);
     let s = upd_sb (\<lambda>f. f\<lparr>s_nfree := nf - 1\<rparr>) s;
     if unat (nf - 1) \<ge> 50 then None
     else let newno = sz s (s_free (fsb s) ! unat (nf - 1)) in
       if newno = 0 then do {
         nf \<leftarrow> swizzle16 (fswz s) (ucast (sz s (s_nfree (fsb s))) + 1);
         Some (0, upd_sb (\<lambda>f. f\<lparr>s_nfree := nf\<rparr>) s)
       } else do {
         s \<leftarrow> (if s_nfree (fsb s) = 0 then do {
             x \<leftarrow> daread newno s;
             Some (upd_sb (load_free_list (get_bytes x 0 102)) s)
           } else Some s);
         tf \<leftarrow> swizzle16 (fswz s) (ucast (sz s (s_tfree (fsb s))) - 1);
         let s = upd_sb (\<lambda>f. f\<lparr>s_tfree := tf\<rparr>) s;
         if out_of_range newno s then Some (0, s)
         else do { (_, s) \<leftarrow> write_super s; Some (newno, s) }
       }
   }"

subsection \<open>Pass 1: the inodes\<close>

text \<open>"Zap?" of one block pointer of an inode.\<close>

definition zap_addr :: "u16 \<Rightarrow> nat \<Rightarrow> bool \<Rightarrow> dinode \<Rightarrow> dinode fck" where
  "zap_addr n b bad ino s =
     (if \<not> bad then Some (ino, s)
      else do {
        (y, s) \<leftarrow> yes s;
        if y then let ino = ino\<lparr>i_addr := (i_addr ino)[b := 0]\<rparr> in do { (_, s) \<leftarrow> iwrite n ino s; Some (ino, s) }
        else Some (ino, s)
      })"

definition check_indirect :: "u16 \<Rightarrow> nat \<Rightarrow> dinode \<Rightarrow> dinode fck" where
  "check_indirect n b ino s = do {
     (ino, s) \<leftarrow> zap_addr n b (i_addr ino ! b \<noteq> 0 \<and> out_of_range (sz s (i_addr ino ! b)) s) ino s;
     (ino, s) \<leftarrow> zap_addr n b (i_addr ino ! b \<noteq> 0 \<and> sz32 s (i_size ino) < 18 * 512) ino s;
     (_, s) \<leftarrow> (if i_addr ino ! b \<noteq> 0 then bitset (sz s (i_addr ino ! b)) s else Some ((), s));
     Some (ino, s)
   }"

text \<open>The entries of the double indirect block, in the buffer \<open>x\<close>; a zapped one is written with \<^verbatim>\<open>dwrite(b, buf)\<close>.\<close>

fun check_double :: "nat list \<Rightarrow> block \<Rightarrow> unit fck" where
  "check_double [] x s = Some ((), s)"
| "check_double (b # bs) x s = do {
     (x, s) \<leftarrow> (if word_at x b \<noteq> 0 \<and> out_of_range (sz s (word_at x b)) s then do {
         (y, s) \<leftarrow> yes s;
         if y then let x = set_word b 0 x in do { (_, s) \<leftarrow> fwrite (of_nat b) x s; Some (x, s) } else Some (x, s)
       } else Some (x, s));
     (_, s) \<leftarrow> (if word_at x b \<noteq> 0 then bitset (sz s (word_at x b)) s else Some ((), s));
     check_double bs x s
   }"

text \<open>\<^verbatim>\<open>for (bno = 0; bno <= size/512; ++bno)\<close> with a 16-bit bno and the inode in a local variable.\<close>

fun each_block :: "nat list \<Rightarrow> (u16 \<Rightarrow> dinode \<Rightarrow> dinode fck) \<Rightarrow> dinode \<Rightarrow> dinode fck" where
  "each_block [] body ino s = Some (ino, s)"
| "each_block (b # bs) body ino s = do { (ino, s) \<leftarrow> body (of_nat b) ino s; each_block bs body ino s }"

definition all_blocks :: "(u16 \<Rightarrow> dinode \<Rightarrow> dinode fck) \<Rightarrow> dinode \<Rightarrow> dinode fck" where
  "all_blocks body ino s =
     (let k = unat (sz32 s (i_size ino)) div 512 in
      if k \<ge> 65535 then None else each_block [0..<Suc k] body ino s)"

definition check_block :: "u16 \<Rightarrow> u16 \<Rightarrow> dinode \<Rightarrow> dinode fck" where
  "check_block n bno ino s = do {
     b \<leftarrow> getblkno ino bno s;
     (ino, s) \<leftarrow> (if b \<noteq> 0 \<and> out_of_range b s then do {
         (y, s) \<leftarrow> yes s;
         if y then do { (ino, s) \<leftarrow> setblkno ino bno 0 s; (_, s) \<leftarrow> iwrite n ino s; Some (ino, s) } else Some (ino, s)
       } else Some (ino, s));
     (_, s) \<leftarrow> (if b \<noteq> 0 then bitset b s else Some ((), s));
     Some (ino, s)
   }"

abbreviation (input) is_type :: "u16 \<Rightarrow> bool" where
  "is_type m \<equiv> m = F_REG \<or> m = F_DIR \<or> m = F_BDEV \<or> m = F_CDEV"

text \<open>One turn of the loop of pass 1; it also answers whether the inode counts (\<open>++icount\<close>). A size is unsigned and never
  negative, so that check of the code does nothing.\<close>

definition pass1_inode :: "u16 \<Rightarrow> bool fck" where
  "pass1_inode n s = do {
     ino \<leftarrow> iread n s;
     (_, s) \<leftarrow> set_link n 0xFFFF s;
     if i_mode ino = 0 then Some (False, s)
     else let mode = sz s (i_mode ino) AND F_MASK in do {
       (zap, s) \<leftarrow> (if \<not> is_type mode then yes s else Some (False, s));
       if zap then do { (_, s) \<leftarrow> iwrite n (ino\<lparr>i_mode := 0, i_nlink := 0\<rparr>) s; Some (False, s) }
       else do {
         (_, s) \<leftarrow> set_link n 0 s;
         if \<not> (mode = F_REG \<or> mode = F_DIR) then Some (True, s)
         else do {
           (ino, s) \<leftarrow> check_indirect n 18 ino s;
           (ino, s) \<leftarrow> check_indirect n 19 ino s;
           (_, s) \<leftarrow> (if i_addr ino ! 19 \<noteq> 0 then do {
               x \<leftarrow> daread (sz s (i_addr ino ! 19)) s;
               check_double [0..<256] x s
             } else Some ((), s));
           (ino, s) \<leftarrow> all_blocks (check_block n) ino s;
           Some (True, s)
         }
       }
     }
   }"

fun pass1_loop :: "nat list \<Rightarrow> u16 \<Rightarrow> u16 fck" where
  "pass1_loop [] icount s = Some (icount, s)"
| "pass1_loop (n # ns) icount s = do {
     (c, s) \<leftarrow> pass1_inode (of_nat n) s;
     pass1_loop ns (if c then icount + 1 else icount) s
   }"

definition pass1 :: "unit fck" where
  "pass1 s =
     (if icnt s > 65535 then None
      else do {
        (icount, s) \<leftarrow> pass1_loop [1..<nat (icnt s)] 0 s;
        let free = icnt s - 1 - int (unat icount);
        if int (unat (sz s (s_tinode (fsb s)))) \<noteq> free then do {
          (y, s) \<leftarrow> yes s;
          if y then do {
            ti \<leftarrow> swizzle16 (fswz s) (word_of_int free);
            write_super (upd_sb (\<lambda>f. f\<lparr>s_tinode := ti\<rparr>) s)
          } else Some ((), s)
        } else Some ((), s)
      })"

subsection \<open>Pass 2: the free list\<close>

definition free_one :: "nat \<Rightarrow> unit fck" where
  "free_one j s = do {
     used \<leftarrow> bittest (of_nat j) s;
     if used then Some ((), s)
     else do {
       (_, s) \<leftarrow> (if sz s (s_nfree (fsb s)) = 50 then do {
           (_, s) \<leftarrow> fwrite (of_nat j) (mem512 (drop 6 (sb_bytes s)) (fjunk s)) s;
           Some ((), upd_sb (\<lambda>f. f\<lparr>s_nfree := 0\<rparr>) s)
         } else Some ((), s));
       tf \<leftarrow> swizzle16 (fswz s) (ucast (sz s (s_tfree (fsb s))) + 1);
       let k = sz s (s_nfree (fsb s));
       nf \<leftarrow> swizzle16 (fswz s) (ucast k + 1);
       if unat k \<ge> 50 then None
       else Some ((), upd_sb (\<lambda>f. f\<lparr>s_tfree := tf, s_free := (s_free f)[unat k := sz s (of_nat j)], s_nfree := nf\<rparr>) s)
     }
   }"

definition pass2 :: "unit fck" where
  "pass2 s = do {
     (y, s) \<leftarrow> yes_noerror s;
     if \<not> y then Some ((), s)
     else let s = set_error 1 s;
              s = upd_sb (\<lambda>f. f\<lparr>s_ninode := 0, s_nfree := sz s 1, s_free := (s_free f)[0 := 0], s_tfree := 0\<rparr>) s in
       if isz s = 0 then None
       else do {
         (_, s) \<leftarrow> for_each (rev [unat (isz s)..<Suc (unat (fsz s - 1))]) free_one s;
         write_super s
       }
   }"

subsection \<open>Pass 3: blocks that belong to two files\<close>

definition dup_indirect :: "u16 \<Rightarrow> nat \<Rightarrow> dinode \<Rightarrow> dinode fck" where
  "dup_indirect n b ino s =
     (let v = sz s (i_addr ino ! b) in
      if i_addr ino ! b = 0 then Some (ino, s)
      else do {
        dup \<leftarrow> bittest v s;
        if \<not> dup then do { (_, s) \<leftarrow> bitset v s; Some (ino, s) }
        else do {
          (y, s) \<leftarrow> yes s;
          if \<not> y then Some (ino, s)
          else do {
            (newno, s) \<leftarrow> blk_alloc0 s;
            if newno = 0 then Some (ino, set_error 4 s)
            else do {
              x \<leftarrow> daread v s;
              (_, s) \<leftarrow> fwrite newno x s;
              let ino = ino\<lparr>i_addr := (i_addr ino)[b := sz s newno]\<rparr>;
              (_, s) \<leftarrow> iwrite n ino s;
              Some (ino, s)
            }
          }
        }
      })"

definition dup_block :: "u16 \<Rightarrow> u16 \<Rightarrow> dinode \<Rightarrow> dinode fck" where
  "dup_block n bno ino s = do {
     b \<leftarrow> getblkno ino bno s;
     if b = 0 then Some (ino, s)
     else do {
       dup \<leftarrow> bittest b s;
       if \<not> dup then do { (_, s) \<leftarrow> bitset b s; Some (ino, s) }
       else do {
         (y, s) \<leftarrow> yes s;
         if \<not> y then Some (ino, s)
         else do {
           (newno, s) \<leftarrow> blk_alloc0 s;
           if newno = 0 then Some (ino, set_error 4 s)
           else do {
             x \<leftarrow> daread b s;
             (_, s) \<leftarrow> fwrite newno x s;
             (ino, s) \<leftarrow> setblkno ino bno newno s;
             (_, s) \<leftarrow> iwrite n ino s;
             Some (ino, s)
           }
         }
       }
     }
   }"

definition pass3_inode :: "nat \<Rightarrow> unit fck" where
  "pass3_inode n s = do {
     ino \<leftarrow> iread (of_nat n) s;
     let mode = sz s (i_mode ino) AND F_MASK;
     if mode \<noteq> F_REG \<and> mode \<noteq> F_DIR then Some ((), s)
     else do {
       (ino, s) \<leftarrow> dup_indirect (of_nat n) 18 ino s;
       (ino, s) \<leftarrow> dup_indirect (of_nat n) 19 ino s;
       (ino, s) \<leftarrow> all_blocks (dup_block (of_nat n)) ino s;
       Some ((), s)
     }
   }"

definition pass3 :: "unit fck" where
  "pass3 s = do {
     (_, s) \<leftarrow> for_each [unat (isz s)..<unat (fsz s)] (\<lambda>b. bitclear (of_nat b)) s;
     all_inodes pass3_inode s
   }"

subsection \<open>Pass 4: the directory tree\<close>

definition dirread :: "dinode \<Rightarrow> nat \<Rightarrow> fsck \<Rightarrow> direct option" where
  "dirread ino j s = do {
     blkno \<leftarrow> getblkno ino (of_nat (j div 16)) s;
     if blkno = 0 then None
     else do { x \<leftarrow> daread blkno s; Some (direct_of (get_bytes x (32 * (j mod 16)) 32)) }
   }"

definition dirwrite :: "dinode \<Rightarrow> nat \<Rightarrow> direct \<Rightarrow> unit fck" where
  "dirwrite ino j e s = do {
     blkno \<leftarrow> getblkno ino (of_nat (j div 16)) s;
     if blkno = 0 then None
     else do { x \<leftarrow> daread blkno s; fwrite blkno (put_bytes x (32 * (j mod 16)) (direct_bytes e)) s }
   }"

text \<open>The bytes of a name after the first zero byte are cleared.\<close>

definition clean_name :: "u8 list \<Rightarrow> u8 list" where
  "clean_name nm = pad30 (takeWhile (\<lambda>c. c \<noteq> 0) nm)"

text \<open>"Zap?" or "Fix?" of an entry: whether the answer was yes, and the new entry is written.\<close>

definition mend_entry :: "dinode \<Rightarrow> nat \<Rightarrow> bool \<Rightarrow> direct \<Rightarrow> direct \<Rightarrow> (bool \<times> direct) fck" where
  "mend_entry ino j bad e e' s =
     (if \<not> bad then Some ((False, e), s)
      else do {
        (y, s) \<leftarrow> yes s;
        if y then do { (_, s) \<leftarrow> dirwrite ino j e' s; Some ((True, e'), s) } else Some ((False, e), s)
      })"

definition zapped :: "direct \<Rightarrow> direct" where
  "zapped e = \<lparr>d_ino = 0, d_name = (d_name e)[0 := 0]\<rparr>"

text \<open>The loop that replaces slashes, up to the end of the name.\<close>

fun fix_slashes :: "dinode \<Rightarrow> nat \<Rightarrow> nat list \<Rightarrow> direct \<Rightarrow> direct fck" where
  "fix_slashes ino j [] e s = Some (e, s)"
| "fix_slashes ino j (c # cs) e s =
     (if d_name e ! c = 0 then Some (e, s)
      else do {
        ((_, e), s) \<leftarrow> mend_entry ino j (d_name e ! c = 0x2F) e (e\<lparr>d_name := (d_name e)[c := 0x58]\<rparr>) s;
        fix_slashes ino j cs e s
      })"

definition name_is :: "u8 list \<Rightarrow> direct \<Rightarrow> bool" where
  "name_is nm e \<longleftrightarrow> takeWhile (\<lambda>c. c \<noteq> 0) (d_name e) = nm"

type_synonym descend = "u16 \<Rightarrow> u16 \<Rightarrow> unit fck"

definition ckentry :: "descend option \<Rightarrow> u16 \<Rightarrow> u16 \<Rightarrow> dinode \<Rightarrow> nat \<Rightarrow> unit fck" where
  "ckentry down inum par ino j s = do {
     e \<leftarrow> dirread ino j s;
     let e = e\<lparr>d_name := clean_name (d_name e)\<rparr>;
     (_, s) \<leftarrow> dirwrite ino j e s;
     if d_ino e = 0 then Some ((), s)
     else do {
       ((z, e), s) \<leftarrow> mend_entry ino j (sz s (d_ino e) < 1 \<or> int (unat (sz s (d_ino e))) \<ge> 8 * int (unat (isz s))) e (zapped e) s;
       if z then Some ((), s)
       else do {
         bogus \<leftarrow> (if d_ino e \<noteq> 0 then do { l \<leftarrow> get_link (sz s (d_ino e)) s; Some (l = 0xFFFF) } else Some False);
         ((z, e), s) \<leftarrow> mend_entry ino j bogus e (zapped e) s;
         if z then Some ((), s)
         else do {
           l \<leftarrow> get_link (sz s (d_ino e)) s;
           (_, s) \<leftarrow> set_link (sz s (d_ino e)) (l + 1) s;
           (e, s) \<leftarrow> fix_slashes ino j [0..<30] e s;
           ((_, e), s) \<leftarrow> mend_entry ino j (name_is [0x2E] e \<and> sz s (d_ino e) \<noteq> inum) e (e\<lparr>d_ino := sz s inum\<rparr>) s;
           ((_, e), s) \<leftarrow> mend_entry ino j (name_is [0x2E, 0x2E] e \<and> sz s (d_ino e) \<noteq> par) e (e\<lparr>d_ino := sz s par\<rparr>) s;
           if sz s (d_ino e) \<noteq> par \<and> sz s (d_ino e) \<noteq> inum then
             (case down of Some f \<Rightarrow> f (sz s (d_ino e)) inum s | None \<Rightarrow> Some ((), s))
           else Some ((), s)
         }
       }
     }
   }"

definition ckdir_body :: "descend option \<Rightarrow> descend" where
  "ckdir_body down inum par s = do {
     ino \<leftarrow> iread inum s;
     if sz s (i_mode ino) AND F_MASK \<noteq> F_DIR then Some ((), s)
     else do {
       (ino, s) \<leftarrow> (if sz32 s (i_size ino) mod 32 \<noteq> 0 then do {
           (y, s) \<leftarrow> yes s;
           if y then let ino = ino\<lparr>i_size := sz32 s (sz32 s (i_size ino) AND NOT 0x1F)\<rparr>
             in do { (_, s) \<leftarrow> iwrite inum ino s; Some (ino, s) }
           else Some (ino, s)
         } else Some (ino, s));
       let nentries = unat (sz32 s (i_size ino)) div 32;
       if nentries > 65535 then None else for_each [0..<nentries] (ckentry down inum par ino) s
     }
   }"

text \<open>ckdir() with \<open>k\<close> levels below this one: the test \<^verbatim>\<open>depth < MAXDEPTH\<close> is \<open>k > 0\<close>.\<close>

primrec ckdir :: "nat \<Rightarrow> descend" where
  "ckdir 0 = ckdir_body None"
| "ckdir (Suc k) = ckdir_body (Some (ckdir k))"

definition pass4 :: "unit fck" where
  "pass4 s = do { (_, s) \<leftarrow> set_link 1 1 s; ckdir 19 1 1 s }"

subsection \<open>Pass 5: link counts\<close>

function digits10 :: "nat \<Rightarrow> u8 list" where
  "digits10 n = (if n < 10 then [0x30 + of_nat n] else digits10 (n div 10) @ [0x30 + of_nat (n mod 10)])"
  by pat_completeness auto

termination
  by (relation "measure id") auto

declare digits10.simps [simp del]

text \<open>sprintf(d\_name, "l+f\%u", inum) writes the characters and a zero byte.\<close>

definition lost_name :: "u16 \<Rightarrow> u8 list \<Rightarrow> u8 list" where
  "lost_name inum nm = (let t = [0x6C, 0x2B, 0x66] @ digits10 (unat inum) @ [0] in t @ drop (length t) nm)"

fun mkentry_loop :: "nat list \<Rightarrow> u16 \<Rightarrow> dinode \<Rightarrow> bool fck" where
  "mkentry_loop [] inum root s = Some (False, s)"
| "mkentry_loop (d # ds) inum root s = do {
     e \<leftarrow> dirread root d s;
     if d_ino e = 0 \<and> d_name e ! 0 = 0
     then do { (_, s) \<leftarrow> dirwrite root d \<lparr>d_ino = sz s inum, d_name = lost_name inum (d_name e)\<rparr> s; Some (True, s) }
     else mkentry_loop ds inum root s
   }"

definition mkentry :: "u16 \<Rightarrow> unit fck" where
  "mkentry inum s = do {
     root \<leftarrow> iread 1 s;
     let n = unat (sz32 s (i_size root)) div 32;
     (found, s) \<leftarrow> mkentry_loop [0..<min n 65536] inum root s;
     if found then Some ((), s) else if n > 65535 then None else Some ((), set_error 4 s)
   }"

definition drop_inode :: "u16 \<Rightarrow> dinode \<Rightarrow> unit fck" where
  "drop_inode n ino s = do {
     (_, s) \<leftarrow> iwrite n (ino\<lparr>i_nlink := 0, i_mode := 0\<rparr>) s;
     ti \<leftarrow> swizzle16 (fswz s) (ucast (sz s (s_tinode (fsb s))) + 1);
     write_super (upd_sb (\<lambda>f. f\<lparr>s_tinode := ti\<rparr>) s)
   }"

definition pass5_inode :: "nat \<Rightarrow> unit fck" where
  "pass5_inode n s = do {
     ino \<leftarrow> iread (of_nat n) s;
     l \<leftarrow> get_link (of_nat n) s;
     if i_mode ino = 0 then (if l \<noteq> 0xFFFF then None else Some ((), s))
     else if l = 0xFFFF then None
     else do {
       (ino, s) \<leftarrow> (if 0 <s l \<and> sint l \<noteq> int (unat (sz s (i_nlink ino))) then do {
           (y, s) \<leftarrow> yes s;
           if y then let ino = ino\<lparr>i_nlink := sz s l\<rparr> in do { (_, s) \<leftarrow> iwrite (of_nat n) ino s; Some (ino, s) }
           else Some (ino, s)
         } else Some (ino, s));
       if l \<noteq> 0 then Some ((), s)
       else let mode = sz s (i_mode ino) AND F_MASK in
         if mode = F_BDEV \<or> mode = F_CDEV \<or> i_size ino = 0 then do {
           (y, s) \<leftarrow> yes s;
           if y then drop_inode (of_nat n) ino s else Some ((), s)
         } else do {
           (y, s) \<leftarrow> yes s;
           if \<not> y then Some ((), s)
           else if i_nlink ino = 0 then drop_inode (of_nat n) ino s
           else do {
             (_, s) \<leftarrow> iwrite (of_nat n) (ino\<lparr>i_nlink := sz s 1\<rparr>) s;
             mkentry (of_nat n) s
           }
         }
     }
   }"

definition pass5 :: "unit fck" where
  "pass5 s = all_inodes pass5_inode s"

subsection \<open>main()\<close>

definition swizzled_magic :: u16 where
  "swizzled_magic = 50737"

text \<open>The five passes and the end of main(), once the sizes have been accepted and the tables allocated.\<close>

definition run_passes :: "unit fck" where
  "run_passes s = do {
     let s = s\<lparr>fbits := (\<lambda>_. False), fnbits := 8 * ((unat (fsz s) + 7) div 8), flinks := (\<lambda>_. 0), fnlinks := 8 * unat (isz s)\<rparr>;
     (_, s) \<leftarrow> pass1 s;
     (_, s) \<leftarrow> pass2 s;
     (_, s) \<leftarrow> pass3 s;
     (_, s) \<leftarrow> pass4 s;
     (_, s) \<leftarrow> pass5 s;
     if ferror s AND 5 = 1 then write_super (upd_sb (\<lambda>f. f\<lparr>s_fmod := FMOD_CLEAN\<rparr>) s) else Some ((), s)
   }"

text \<open>main() after its arguments: the exit status and the image.\<close>

definition fsck_main :: "bool \<Rightarrow> fsck \<Rightarrow> (u32 \<times> image) option" where
  "fsck_main aflag s = do {
     x \<leftarrow> daread 1 s;
     let s = s\<lparr>fsb := filesys_of (get_bytes x 0 222), fmnt := rd16 (get_bytes x 220 2) 0, ferror := 0, fswz := False\<rparr>;
     if s_fmod (fsb s) \<noteq> FMOD_DIRTY \<and> aflag then Some (0, fimg s)
     else do {
       let s = (if s_fmod (fsb s) = FMOD_DIRTY then set_error 1 s else s);
       let s = s\<lparr>fswz := (s_mounted (fsb s) = swizzled_magic)\<rparr>;
       (ok, s) \<leftarrow> (if sz s (s_mounted (fsb s)) \<noteq> SMOUNTED then do {
           (y, s) \<leftarrow> yes s;
           if y then do { (_, s) \<leftarrow> write_super (upd_sb (\<lambda>f. f\<lparr>s_mounted := sz s SMOUNTED\<rparr>) s); Some (True, s) }
           else Some (False, s)
         } else Some (True, s));
       if \<not> ok then Some (ferror s OR 32, fimg s)
       else do {
         (y, s) \<leftarrow> yes_noerror s;
         if \<not> y then Some (ferror s OR 32, fimg s)
         else do { (_, s) \<leftarrow> run_passes s; Some (ferror s, fimg s) }
       }
     }
   }"

end
