(* ===== verification/FsckSpec.thy ===== *)
theory FsckSpec
  imports Fsck
begin

text \<open>
  What fsck does. Pass 2 rebuilds the free list from the bitmap, whatever file system it is; an empty file system, as mkfs makes it or as
  it is after a crash before anything was written, goes through all five passes with its inodes and directories as they were
  and ends up marked clean. Last, places where fsck damages what it repairs.
\<close>

subsection \<open>A run that answers yes, on a medium without errors\<close>

definition easy :: "fsck \<Rightarrow> bool" where
  "easy s \<longleftrightarrow> fyes s \<and> \<not> fswz s \<and> fdok s = (\<lambda>_. True)"

lemma easy_steps:
  assumes "easy s"
  shows "sz s v = v" "sz32 s w = w" "daread b s = Some (fimg s b)" "fwrite b x s = Some ((), s\<lparr>fimg := (fimg s)(b := x)\<rparr>)"
    "iread n s = Some (image_inode (fimg s) n)" "yes_noerror s = Some (True, s)"
    "isz s = s_isize (fsb s)" "fsz s = s_fsize (fsb s)"
  using assms by (simp_all add: easy_def sz_def sz32_def swizzle32_def daread_def fwrite_def dwrite_def iread_def image_inode_def
      yes_noerror_def isz_def fsz_def)

lemma easy_upd:
  "easy s \<Longrightarrow> easy (s\<lparr>fimg := i\<rparr>)" "easy s \<Longrightarrow> easy (s\<lparr>fbits := b\<rparr>)" "easy s \<Longrightarrow> easy (s\<lparr>flinks := l\<rparr>)"
  "easy s \<Longrightarrow> easy (upd_sb g s)" "easy s \<Longrightarrow> easy (set_error e s)"
  by (simp_all add: easy_def upd_sb_def set_error_def)

text \<open>The tables fit the sizes of the file system \<open>img\<close>.\<close>

definition sized :: "u16 \<Rightarrow> u16 \<Rightarrow> fsck \<Rightarrow> bool" where
  "sized isize fsize s \<longleftrightarrow> easy s \<and> s_isize (fsb s) = isize \<and> s_fsize (fsb s) = fsize
     \<and> 2 < unat isize \<and> unat isize < unat fsize \<and> unat isize \<le> 8193
     \<and> unat fsize \<le> fnbits s \<and> fnlinks s = 8 * unat isize"

text \<open>Inode 1 is the root directory of an empty file system, the others are free.\<close>

definition empty_inodes :: "u16 \<Rightarrow> image \<Rightarrow> bool" where
  "empty_inodes isize img \<longleftrightarrow> image_inode img 1 = root_dinode isize
     \<and> (\<forall>num. 2 \<le> num \<and> unat num < 8 * (unat isize - 2) \<longrightarrow> image_inode img num = zero_dinode)"

lemma icnt_sized:
  assumes "sized isize fsize s"
  shows "nat (icnt s) = 8 * (unat isize - 2)" "\<not> icnt s > 65535" "8 \<le> nat (icnt s)" "nat (icnt s) \<le> 65528" "nat (icnt s) \<le> fnlinks s"
proof -
  define k where "k = unat isize"
  have k: "2 < k" "k \<le> 8193" "fnlinks s = 8 * k" "isz s = isize" using assms easy_steps(7) [of s] by (auto simp: sized_def k_def)
  then have i: "icnt s = 8 * (int k - 2)" unfolding icnt_def k_def by simp
  then have "nat (icnt s) = 8 * (k - 2)" using k(1) by (simp add: nat_mult_distrib nat_diff_distrib)
  then show "nat (icnt s) = 8 * (unat isize - 2)" "8 \<le> nat (icnt s)" "nat (icnt s) \<le> 65528" "nat (icnt s) \<le> fnlinks s"
    using k by (simp_all flip: k_def)
  show "\<not> icnt s > 65535" using i k(2) by simp
qed

lemma root_mode: "i_mode (root_dinode isize) \<noteq> 0" "i_mode (root_dinode isize) AND F_MASK = F_DIR"
  "i_size (root_dinode isize) = 64" "i_addr (root_dinode isize) ! 0 = isize" "i_addr (root_dinode isize) ! 18 = 0"
  "i_addr (root_dinode isize) ! 19 = 0" "i_nlink (root_dinode isize) = 3"
proof -
  have "(0x41FF AND F_MASK :: u16) = F_DIR" by code_simp
  then show "i_mode (root_dinode isize) AND F_MASK = F_DIR" by (simp add: root_dinode_def)
qed (simp_all add: root_dinode_def zero_dinode_def)

lemma free_mode: "i_mode zero_dinode = 0"
  by (simp add: zero_dinode_def)

lemma in_range:
  assumes "sized isize fsize s"
  shows "\<not> out_of_range isize s" "unat isize < fnbits s"
  using assms easy_steps(7,8) [of s] by (auto simp: sized_def out_of_range_def word_less_nat_alt word_le_nat_alt)

lemma root_block: "easy s \<Longrightarrow> getblkno (root_dinode isize) 0 s = Some isize"
  by (simp add: getblkno_def easy_steps root_mode)

lemma root_blocks: "easy s \<Longrightarrow> all_blocks body (root_dinode isize) s = body 0 (root_dinode isize) s"
  by (cases "body 0 (root_dinode isize) s") (auto simp: all_blocks_def easy_steps root_mode upt_rec)

subsection \<open>Pass 1\<close>

lemma sized_upd:
  "sized isize fsize s \<Longrightarrow> sized isize fsize (s\<lparr>flinks := l\<rparr>)" "sized isize fsize s \<Longrightarrow> sized isize fsize (s\<lparr>fbits := b\<rparr>)"
  "sized isize fsize s \<Longrightarrow> sized isize fsize (s\<lparr>fimg := i\<rparr>)" "sized isize fsize s \<Longrightarrow> sized isize fsize (set_error e s)"
  by (simp_all add: sized_def easy_def set_error_def)

lemma sizedD: "sized isize fsize s \<Longrightarrow> easy s" "sized isize fsize s \<Longrightarrow> isize \<noteq> 0" "sized isize fsize s \<Longrightarrow> 24 \<le> fnlinks s"
  "sized isize fsize s \<Longrightarrow> unat isize < unat fsize" "sized isize fsize s \<Longrightarrow> 2 < unat isize" "sized isize fsize s \<Longrightarrow> unat fsize \<le> fnbits s"
  "sized isize fsize s \<Longrightarrow> isz s = isize" "sized isize fsize s \<Longrightarrow> fsz s = fsize"
  using easy_steps(7,8) [of s] by (auto simp: sized_def)

lemma check_root:
  assumes "sized isize fsize s"
  shows "check_block n 0 (root_dinode isize) s = Some (root_dinode isize, s\<lparr>fbits := (fbits s)(unat isize := True)\<rparr>)"
  using in_range [OF assms] sizedD [OF assms] by (simp add: check_block_def root_block bitset_def)

lemma check_no_indirect:
  "b = 18 \<or> b = 19 \<Longrightarrow> check_indirect n b (root_dinode isize) s = Some (root_dinode isize, s)"
  by (auto simp: check_indirect_def zap_addr_def root_mode)

lemma pass1_root:
  assumes s: "sized isize fsize s" and img: "image_inode (fimg s) 1 = root_dinode isize"
  shows "pass1_inode 1 s = Some (True, s\<lparr>flinks := (flinks s)(1 := 0), fbits := (fbits s)(unat isize := True)\<rparr>)"
proof -
  note e = sizedD(1) [OF s]
  have l: "Suc 0 < fnlinks s" using sizedD(3) [OF s] by simp
  let ?t = "s\<lparr>flinks := (flinks s)(Suc 0 := 0)\<rparr>"
  have "sized isize fsize ?t" "easy ?t" "easy (s\<lparr>flinks := (flinks s)(Suc 0 := 0xFFFF)\<rparr>)"
    using sized_upd(1) [OF s] easy_upd(3) [OF e] by blast+
  then show ?thesis
    using l by (simp add: pass1_inode_def easy_steps [OF e] easy_steps img set_link_def Let_def root_mode root_blocks check_root check_no_indirect)
qed

lemma pass1_free:
  assumes "easy s" "image_inode (fimg s) (of_nat n) = zero_dinode" "n < fnlinks s" "n < 65536"
  shows "pass1_inode (of_nat n) s = Some (False, s\<lparr>flinks := (flinks s)(n := 0xFFFF)\<rparr>)"
  using assms by (simp add: pass1_inode_def easy_steps set_link_def free_mode unat_of_nat)

lemma pass1_free_loop:
  assumes "easy s" "\<And>n. n \<in> set ns \<Longrightarrow> image_inode (fimg s) (of_nat n) = zero_dinode \<and> n < fnlinks s \<and> n < 65536"
  shows "pass1_loop ns c s = Some (c, s\<lparr>flinks := (\<lambda>k. if k \<in> set ns then 0xFFFF else flinks s k)\<rparr>)"
  using assms
proof (induction ns arbitrary: s)
  case Nil
  then show ?case by simp
next
  case (Cons n ns)
  have "pass1_inode (of_nat n) s = Some (False, s\<lparr>flinks := (flinks s)(n := 0xFFFF)\<rparr>)"
    by (rule pass1_free) (use Cons.prems in auto)
  moreover have "pass1_loop ns c (s\<lparr>flinks := (flinks s)(n := 0xFFFF)\<rparr>) = Some (c, s\<lparr>flinks := (\<lambda>k. if k \<in> set ns then 0xFFFF
      else ((flinks s)(n := 0xFFFF)) k)\<rparr>)"
    using Cons.IH [of "s\<lparr>flinks := (flinks s)(n := 0xFFFF)\<rparr>"] Cons.prems easy_upd(3) by (simp cong: if_cong)
  moreover have "(\<lambda>k. if k \<in> set ns then 0xFFFF else ((flinks s)(n := 0xFFFF)) k) = (\<lambda>k. if k \<in> set (n # ns) then 0xFFFF else flinks s k)"
    by auto
  ultimately show ?case by simp
qed

text \<open>The table of links after pass 1: the root has none yet, the free inodes have the mark -1.\<close>

definition links_after :: "u16 \<Rightarrow> u16 \<Rightarrow> fsck \<Rightarrow> bool" where
  "links_after isize v s \<longleftrightarrow> flinks s 1 = v \<and> (\<forall>n. 2 \<le> n \<and> n < 8 * (unat isize - 2) \<longrightarrow> flinks s n = 0xFFFF)"

lemma inode_numbers:
  assumes "sized isize fsize s"
  shows "[1..<nat (icnt s)] = 1 # [2..<8 * (unat isize - 2)]"
    "n \<in> set [2..<8 * (unat isize - 2)] \<Longrightarrow> n < 65536 \<and> n < fnlinks s \<and> 2 \<le> (of_nat n :: u16) \<and> unat (of_nat n :: u16) = n"
proof -
  have k: "8 \<le> 8 * (unat isize - 2)" "8 * (unat isize - 2) \<le> 65528" "8 * (unat isize - 2) \<le> fnlinks s"
    using icnt_sized(3-5) [OF assms] unfolding icnt_sized(1) [OF assms] .
  then show "[1..<nat (icnt s)] = 1 # [2..<8 * (unat isize - 2)]"
    unfolding icnt_sized(1) [OF assms] by (simp add: upt_conv_Cons numeral_2_eq_2 del: upt_Suc)
  assume "n \<in> set [2..<8 * (unat isize - 2)]"
  with k show "n < 65536 \<and> n < fnlinks s \<and> 2 \<le> (of_nat n :: u16) \<and> unat (of_nat n :: u16) = n"
    by (auto simp: word_le_nat_alt unat_of_nat)
qed

lemma pass1_empty:
  assumes s: "sized isize fsize s" and img: "empty_inodes isize (fimg s)" and ti: "s_tinode (fsb s) = 8 * (isize - 2) - 2"
  shows "\<exists>l. pass1 s = Some ((), s\<lparr>flinks := l, fbits := (fbits s)(unat isize := True)\<rparr>) \<and> links_after isize 0 (s\<lparr>flinks := l\<rparr>)"
proof -
  let ?u = "s\<lparr>flinks := (flinks s)(1 := 0), fbits := (fbits s)(unat isize := True)\<rparr>" and ?ns = "[2..<8 * (unat isize - 2)]"
  let ?l = "\<lambda>k. if k \<in> set ?ns then 0xFFFF else ((flinks s)(1 := 0)) k"
  have su: "sized isize fsize ?u" using s by (simp add: sized_def easy_def)
  have "image_inode (fimg ?u) (of_nat n) = zero_dinode \<and> n < fnlinks ?u \<and> n < 65536" if "n \<in> set ?ns" for n
    using inode_numbers(2) [OF su that] img that by (auto simp: empty_inodes_def)
  note loop = pass1_free_loop [OF sizedD(1) [OF su] this, of ?ns 1, simplified]
  define t where "t = ?u\<lparr>flinks := ?l\<rparr>"
  have L: "pass1_loop [1..<nat (icnt s)] 0 s = Some (1, t)"
    using pass1_root [OF s] img loop unfolding inode_numbers(1) [OF s] t_def by (simp add: empty_inodes_def cong: if_cong)
  have F: "int (unat (sz t (s_tinode (fsb t)))) = icnt t - 1 - int (unat (1 :: u16))"
  proof -
    have st: "sized isize fsize t" and ft: "fsb t = fsb s" using sized_upd(1) [OF su] by (simp_all add: t_def)
    have k: "2 < unat isize" "unat isize \<le> 8193" using s by (auto simp: sized_def)
    have "(8 * (isize - 2) - 2 :: u16) = of_nat (8 * (unat isize - 2) - 2)" using k by (simp add: of_nat_diff of_nat_unat)
    then have ts: "unat (s_tinode (fsb t)) = 8 * (unat isize - 2) - 2" unfolding ti ft using k by (simp add: unat_of_nat del: of_nat_diff)
    have ic: "icnt t = int (8 * (unat isize - 2))" using sizedD(7) [OF st] k by (simp add: icnt_def of_nat_diff)
    have "int (8 * m - 2) = int (8 * m) - 1 - int (unat (1 :: u16))" if "0 < m" for m using that by (simp add: of_nat_diff)
    from this [of "unat isize - 2"] k show ?thesis unfolding easy_steps(1) [OF sizedD(1) [OF st]] ts ic by simp
  qed
  have "pass1 s = Some ((), t)" using icnt_sized(2) [OF s]
    by (simp only: pass1_def L bind.bind_lunit prod.case Let_def F if_False simp_thms)
  then have "pass1 s = Some ((), s\<lparr>flinks := ?l, fbits := (fbits s)(unat isize := True)\<rparr>)" unfolding t_def by simp
  then show ?thesis by (intro exI [of _ ?l]) (simp add: links_after_def)
qed

subsection \<open>Pass 2\<close>

lemma sb_head: "take 102 (drop 6 (sb_bytes s)) = free_list_bytes (fsb s)" if "length (s_free (fsb s)) = 50"
  using that by (simp add: sb_bytes_def filesys_bytes_def free_list_bytes_def le16_def)

lemma spill_mem:
  assumes "length (s_free (fsb s)) = 50" "length (s_inode (fsb s)) = 50"
  shows "get_bytes (mem512 (drop 6 (sb_bytes s)) junk) 0 102 = free_list_bytes (fsb s)"
  using sb_head [OF assms(1)] assms(1) by (intro get_mem512) (simp_all add: free_list_bytes_def)

text \<open>One more free block goes in front of the list, as in the kernel and in mkfs.\<close>

lemma free_one_chain:
  assumes e: "easy s" and ch: "chain (fimg s) (s_nfree (fsb s)) (s_free (fsb s)) bs" and i: "length (s_inode (fsb s)) = 50"
    and j: "j < 65536" "of_nat j \<noteq> (0 :: u16)" "of_nat j \<notin> set bs" "j < fnbits s" "\<not> fbits s j" and t: "unat (s_tfree (fsb s)) < 65535"
  shows "\<exists>n' tab' img'. free_one j s
      = Some ((), (upd_sb (\<lambda>f. f\<lparr>s_tfree := s_tfree f + 1, s_free := tab', s_nfree := n'\<rparr>) s)\<lparr>fimg := img'\<rparr>)
    \<and> chain img' n' tab' (of_nat j # bs) \<and> (\<forall>k. k \<noteq> of_nat j \<longrightarrow> img' k = fimg s k)"
proof -
  let ?f = "fsb s"
  have uj: "unat (of_nat j :: u16) = j" using j(1) by (simp add: unat_of_nat)
  have test: "bittest (of_nat j) s = Some False" using j(4,5) by (simp add: bittest_def uj)
  have len: "length (s_free ?f) = 50" using chain_basic(3) [OF ch] by simp
  have sw: "fswz s = False" and dok: "fdok s b" for b using e by (simp_all add: easy_def)
  have one: "swizzle16 False 1 = Some 1" using swizzle16_nat [of 1] by simp
  show ?thesis
  proof (cases "s_nfree ?f = 50")
    case True
    let ?D = "mem512 (drop 6 (sb_bytes s)) (fjunk s)" and ?u = "upd_sb (\<lambda>f. f\<lparr>s_nfree := 0\<rparr>) (s\<lparr>fimg := (fimg s)(of_nat j := mem512 (drop 6 (sb_bytes s)) (fjunk s))\<rparr>)"
    have "link_count ?D = 50" "link_table ?D = s_free ?f"
      using free_list_decode [OF _ spill_mem [OF len i]] len True by simp_all
    with ch True j len have "chain ((fimg s)(of_nat j := ?D)) 1 ((s_free ?f)[0 := of_nat j]) (of_nat j # bs)"
      by (intro chain_spill) simp_all
    moreover have "free_one j s = Some ((), (upd_sb (\<lambda>f. f\<lparr>s_tfree := s_tfree f + 1, s_free := (s_free ?f)[0 := of_nat j], s_nfree := 1\<rparr>) s)
        \<lparr>fimg := (fimg s)(of_nat j := ?D)\<rparr>)"
      using True test t by (simp add: free_one_def sz_def sw fwrite_def dwrite_def dok upd_sb_def swizzle16_inc one Let_def)
    ultimately show ?thesis by fastforce
  next
    case False
    then have n: "s_nfree ?f < 50" using chain_basic(2) [OF ch] by simp
    then have "unat (s_nfree ?f) < 50" by (simp add: word_less_nat_alt)
    then have "free_one j s = Some ((), upd_sb (\<lambda>f. f\<lparr>s_tfree := s_tfree f + 1, s_free := (s_free ?f)[unat (s_nfree ?f) := of_nat j],
        s_nfree := s_nfree ?f + 1\<rparr>) s)"
      using False test t by (simp add: free_one_def sz_def sw swizzle16_inc Let_def upd_sb_def)
    then show ?thesis using chain_push [OF ch n, of "of_nat j"]
      by (intro exI [of _ "s_nfree ?f + 1"] exI [of _ "(s_free ?f)[unat (s_nfree ?f) := of_nat j]"] exI [of _ "fimg s"])
        (simp add: upd_sb_def)
  qed
qed

text \<open>The state after freeing some blocks: only the list, its count and blocks of the list have changed.\<close>

definition listed :: "fsck \<Rightarrow> u16 list \<Rightarrow> fsck \<Rightarrow> bool" where
  "listed s bs t \<longleftrightarrow> (\<exists>n tab img. t = (upd_sb (\<lambda>f. f\<lparr>s_tfree := of_nat (length bs), s_free := tab, s_nfree := n\<rparr>) s)\<lparr>fimg := img\<rparr>
     \<and> chain img n tab bs \<and> (\<forall>k. k \<notin> set bs \<longrightarrow> img k = fimg s k))"

lemma listed_step:
  assumes l: "listed s bs t" and e: "easy s" and i: "length (s_inode (fsb s)) = 50" and len: "length bs < 65535"
    and j: "j < 65536" "of_nat j \<noteq> (0 :: u16)" "of_nat j \<notin> set bs" "j < fnbits s" "\<not> fbits s j"
  shows "\<exists>u. free_one j t = Some ((), u) \<and> listed s (of_nat j # bs) u"
proof -
  obtain n tab img where t: "t = (upd_sb (\<lambda>f. f\<lparr>s_tfree := of_nat (length bs), s_free := tab, s_nfree := n\<rparr>) s)\<lparr>fimg := img\<rparr>"
    and ch: "chain img n tab bs" and fr: "\<forall>k. k \<notin> set bs \<longrightarrow> img k = fimg s k"
    using l by (auto simp: listed_def)
  have e': "easy t" using e by (simp add: t easy_def upd_sb_def)
  have cnt: "unat (of_nat (length bs) :: u16) < 65535" using len by (simp add: unat_of_nat)
  have pre: "chain (fimg t) (s_nfree (fsb t)) (s_free (fsb t)) bs" "length (s_inode (fsb t)) = 50" "j < fnbits t" "\<not> fbits t j"
    "unat (s_tfree (fsb t)) < 65535"
    using ch i j cnt by (simp_all add: t upd_sb_def)
  obtain n' tab' img' where u: "free_one j t = Some ((), (upd_sb (\<lambda>f. f\<lparr>s_tfree := s_tfree f + 1, s_free := tab', s_nfree := n'\<rparr>) t)\<lparr>fimg := img'\<rparr>)"
    "chain img' n' tab' (of_nat j # bs)" "\<forall>k. k \<noteq> of_nat j \<longrightarrow> img' k = fimg t k"
    using free_one_chain [OF e' pre(1,2) j(1-3) pre(3-5)] by blast
  have "(upd_sb (\<lambda>f. f\<lparr>s_tfree := s_tfree f + 1, s_free := tab', s_nfree := n'\<rparr>) t)\<lparr>fimg := img'\<rparr>
    = (upd_sb (\<lambda>f. f\<lparr>s_tfree := of_nat (length (of_nat j # bs :: u16 list)), s_free := tab', s_nfree := n'\<rparr>) s)\<lparr>fimg := img'\<rparr>"
    by (simp add: t upd_sb_def add.commute)
  moreover have "\<forall>k. k \<notin> set (of_nat j # bs) \<longrightarrow> img' k = fimg s k" using fr u(3) by (simp add: t)
  ultimately have "listed s (of_nat j # bs) ((upd_sb (\<lambda>f. f\<lparr>s_tfree := s_tfree f + 1, s_free := tab', s_nfree := n'\<rparr>) t)\<lparr>fimg := img'\<rparr>)"
    using u(2) unfolding listed_def by (intro exI conjI)
  with u(1) show ?thesis by blast
qed

lemma listed_same: "listed s bs t \<Longrightarrow> fbits t = fbits s \<and> fnbits t = fnbits s \<and> (easy s \<longrightarrow> easy t)"
  by (auto simp: listed_def easy_def upd_sb_def)

lemma free_used: "easy s \<Longrightarrow> j < fnbits s \<Longrightarrow> j < 65536 \<Longrightarrow> fbits s j \<Longrightarrow> free_one j s = Some ((), s)"
  by (simp add: free_one_def bittest_def unat_of_nat)

text \<open>The blocks from \<open>lo\<close> to \<open>hi\<close> that are not marked.\<close>

definition unmarked :: "(nat \<Rightarrow> bool) \<Rightarrow> nat \<Rightarrow> nat \<Rightarrow> u16 list" where
  "unmarked bits lo hi = map of_nat (filter (\<lambda>j. \<not> bits j) [lo..<hi])"

lemma unmarked_set: "k \<in> set (unmarked bits lo hi) \<longleftrightarrow> (\<exists>b\<in>{lo..<hi}. \<not> bits b \<and> k = of_nat b)"
  by (auto simp: unmarked_def)

lemma unmarked_length: "length (unmarked bits lo hi) \<le> hi - lo"
  using length_filter_le [of _ "[lo..<hi]"] by (simp add: unmarked_def)

lemma free_run:
  assumes "easy s" "length (s_inode (fsb s)) = 50" "0 < lo" "hi < 65536" "hi \<le> fnbits s" "lo \<le> hi"
    and "chain (fimg s) (s_nfree (fsb s)) (s_free (fsb s)) []" "s_tfree (fsb s) = 0"
  shows "\<exists>t. for_each (rev [lo..<hi]) free_one s = Some ((), t) \<and> listed s (unmarked (fbits s) lo hi) t"
proof -
  have "\<exists>t. for_each (rev [hi - d..<hi]) free_one s = Some ((), t) \<and> listed s (unmarked (fbits s) (hi - d) hi) t" if "d \<le> hi - lo" for d
    using that
  proof (induction d)
    case 0
    have "s = (upd_sb (\<lambda>f. f\<lparr>s_tfree := 0, s_free := s_free (fsb s), s_nfree := s_nfree (fsb s)\<rparr>) s)\<lparr>fimg := fimg s\<rparr>"
      using assms(8) by (simp add: upd_sb_def)
    then show ?case using assms(7) unfolding listed_def unmarked_def
      by (auto intro!: exI [of _ "s_nfree (fsb s)"] exI [of _ "s_free (fsb s)"] exI [of _ "fimg s"])
  next
    case (Suc d)
    let ?j = "hi - Suc d" and ?bs = "unmarked (fbits s) (hi - d) hi"
    have sp: "[?j..<hi] = ?j # [hi - d..<hi]" using Suc.prems assms(3) by (simp add: upt_conv_Cons Suc_diff_Suc)
    obtain t where t: "for_each (rev [hi - d..<hi]) free_one s = Some ((), t)" "listed s ?bs t"
      using Suc by auto
    have bd: "?j < 65536" "?j < fnbits s" using assms(3-6) Suc.prems by auto
    show ?case
    proof (cases "fbits s ?j")
      case True
      then have "free_one ?j t = Some ((), t)" using listed_same [OF t(2)] assms(1) bd by (intro free_used) simp_all
      moreover have "unmarked (fbits s) ?j hi = ?bs" using True unfolding unmarked_def sp by simp
      ultimately show ?thesis using t unfolding sp by (simp add: for_each_append del: of_nat_diff)
    next
      case False
      have inj: "of_nat ?j \<notin> set ?bs"
      proof
        assume "of_nat ?j \<in> set ?bs"
        then obtain b where b: "of_nat ?j = (of_nat b :: u16)" "b \<in> {hi - d..<hi}" unfolding unmarked_set by blast
        then have "hi - d \<le> b" "b < hi" by simp_all
        with b show False using area_u16 [OF _ less_trans [OF \<open>b < hi\<close> assms(4)], of ?j] Suc.prems assms(3) by linarith
      qed
      have nz: "of_nat ?j \<noteq> (0 :: u16)" using area_u16 [of 0 ?j] assms(3,4,6) Suc.prems by simp
      have len: "length ?bs < 65535" using unmarked_length [of "fbits s" "hi - d" hi] Suc.prems assms(3,4) by linarith
      obtain u where u: "free_one ?j t = Some ((), u)" "listed s (of_nat ?j # ?bs) u"
        using listed_step [OF t(2) assms(1,2) len] inj nz bd False by blast
      have "unmarked (fbits s) ?j hi = of_nat ?j # ?bs" using False unfolding unmarked_def sp by simp
      then show ?thesis using t(1) u unfolding sp by (simp add: for_each_append del: of_nat_diff)
    qed
  qed
  from this [of "hi - lo"] assms(6) show ?thesis by simp
qed

text \<open>The free list was rebuilt from the blocks \<open>bs\<close>: the superblock on the medium is the one in memory, and no block that
  is in use has changed.\<close>

definition refreed :: "u16 list \<Rightarrow> fsck \<Rightarrow> fsck \<Rightarrow> bool" where
  "refreed bs s t \<longleftrightarrow> (\<exists>n tab img.
     t = (upd_sb (\<lambda>f. f\<lparr>s_ninode := 0, s_nfree := n, s_free := tab, s_tfree := of_nat (length bs)\<rparr>) (set_error 1 s))\<lparr>fimg := img\<rparr>
     \<and> chain img n tab bs \<and> img 1 = mem512 (sb_bytes t) (fjunk t) \<and> (\<forall>k. k \<noteq> 1 \<and> k \<notin> set bs \<longrightarrow> img k = fimg s k))"

lemma pass2_run:
  assumes e: "easy s" and sz: "2 \<le> isz s" "isz s \<le> fsz s" "unat (fsz s) \<le> fnbits s"
    and len: "length (s_free (fsb s)) = 50" "length (s_inode (fsb s)) = 50"
  shows "\<exists>t. pass2 s = Some ((), t) \<and> refreed (unmarked (fbits s) (unat (isz s)) (unat (fsz s))) s t"
proof -
  let ?lo = "unat (isz s)" and ?hi = "unat (fsz s)"
  let ?bs = "unmarked (fbits s) ?lo ?hi"
  have nb: "2 \<le> ?lo" "?lo \<le> ?hi" "?hi < 65536" using sz u16_bound [of "fsz s"] by (simp_all add: word_le_nat_alt)
  define q where "q = upd_sb (\<lambda>f. f\<lparr>s_ninode := 0, s_nfree := 1, s_free := (s_free f)[0 := 0], s_tfree := 0\<rparr>) (set_error 1 s)"
  have eq: "easy q" unfolding q_def by (intro easy_upd e)
  have bq: "fbits q = fbits s" "fnbits q = fnbits s" "fimg q = fimg s" "s_inode (fsb q) = s_inode (fsb s)" "s_tfree (fsb q) = 0"
    by (simp_all add: q_def upd_sb_def set_error_def)
  have "chain (fimg q) 1 (s_free (fsb q)) (on_top 1 (s_free (fsb q)))"
    by (rule chain_end) (simp_all add: q_def upd_sb_def set_error_def len)
  then have ch: "chain (fimg q) (s_nfree (fsb q)) (s_free (fsb q)) []"
    by (simp add: on_top_1) (simp add: q_def upd_sb_def)
  obtain t where run: "for_each (rev [?lo..<?hi]) free_one q = Some ((), t)" and l: "listed q ?bs t"
    using free_run [OF eq _ _ nb(3) _ nb(2) ch] sz(3) len(2) nb(1) bq by auto
  obtain n tab img where t: "t = (upd_sb (\<lambda>f. f\<lparr>s_tfree := of_nat (length ?bs), s_free := tab, s_nfree := n\<rparr>) q)\<lparr>fimg := img\<rparr>"
    and cht: "chain img n tab ?bs" and fr: "\<forall>k. k \<notin> set ?bs \<longrightarrow> img k = fimg s k"
    using l unfolding listed_def bq by blast
  have et: "easy t" using listed_same [OF l] eq by simp
  have "fsz s \<noteq> 0" using nb by auto
  then have hi: "Suc (unat (fsz s - 1)) = ?hi" using unat_minus_one [of "fsz s"] nb by simp
  have iq: "isz q = isz s" "fsz q = fsz s" unfolding easy_steps(7,8) [OF e] easy_steps(7,8) [OF eq]
    by (simp_all add: q_def upd_sb_def set_error_def)
  have z: "isz s \<noteq> 0" using nb(1) by auto
  let ?w = "mem512 (sb_bytes t) (fjunk t)"
  have "pass2 s = Some ((), t\<lparr>fimg := (fimg t)(1 := ?w)\<rparr>)"
    using run iq hi z by (simp add: pass2_def easy_steps(6) [OF e] easy_steps(1) [OF easy_upd(5) [OF e]] Let_def write_super_def easy_steps(4) [OF et]
        del: upt_Suc flip: q_def)
  moreover have "refreed ?bs s (t\<lparr>fimg := (fimg t)(1 := ?w)\<rparr>)"
  proof -
    have c: "chain (img(1 := ?w)) n tab ?bs"
    proof (rule chain_cong [OF cht])
      fix L assume "L \<in> set ?bs"
      then obtain b where "?lo \<le> b" "b < ?hi" "L = of_nat b" unfolding unmarked_set by auto
      then have "L \<noteq> 1" using area_u16 [of 1 b] nb by auto
      then show "(img(1 := ?w)) L = img L" by simp
    qed
    have A: "t\<lparr>fimg := (fimg t)(1 := ?w)\<rparr>
      = (upd_sb (\<lambda>f. f\<lparr>s_ninode := 0, s_nfree := n, s_free := tab, s_tfree := of_nat (length ?bs)\<rparr>) (set_error 1 s))\<lparr>fimg := img(1 := ?w)\<rparr>"
      by (simp add: t q_def upd_sb_def set_error_def)
    have B: "(img(1 := ?w)) 1 = mem512 (sb_bytes (t\<lparr>fimg := (fimg t)(1 := ?w)\<rparr>)) (fjunk (t\<lparr>fimg := (fimg t)(1 := ?w)\<rparr>))"
      by (simp add: sb_bytes_def)
    show ?thesis using fr unfolding refreed_def by (intro exI [of _ n] exI [of _ tab] exI [of _ "img(1 := ?w)"] conjI A B c) simp
  qed
  ultimately show ?thesis by blast
qed

text \<open>The blocks above the root directory.\<close>

lemma area_blocks:
  fixes isize fsize k :: u16
  shows "k \<in> set (map of_nat [unat isize + 1..<unat fsize]) \<longleftrightarrow> isize < k \<and> k < fsize"
proof
  assume "k \<in> set (map of_nat [unat isize + 1..<unat fsize])"
  then obtain j where "k = of_nat j" "unat isize < j" "j < unat fsize" by auto
  then show "isize < k \<and> k < fsize" using u16_bound [of fsize] by (simp add: word_less_nat_alt unat_of_nat)
next
  assume "isize < k \<and> k < fsize"
  then have "unat k \<in> {unat isize + 1..<unat fsize}" by (simp add: word_less_nat_alt)
  then have "k \<in> of_nat ` {unat isize + 1..<unat fsize}" by (intro image_eqI [of _ _ "unat k"]) simp
  then show "k \<in> set (map of_nat [unat isize + 1..<unat fsize])" by (simp only: set_map set_upt)
qed

lemma pass2_empty:
  assumes s: "sized isize fsize s" and bits: "\<forall>j. fbits s j = (j = unat isize)"
    and len: "length (s_free (fsb s)) = 50" "length (s_inode (fsb s)) = 50"
  shows "\<exists>t. pass2 s = Some ((), t) \<and> refreed (map of_nat [unat isize + 1..<unat fsize]) s t"
proof -
  note szd = sizedD(4-8) [OF s]
  have "filter (\<lambda>j. j \<noteq> a) [a..<b] = [a + 1..<b]" if "a < b" for a b :: nat
    using that by (simp add: upt_conv_Cons filter_id_conv)
  then have "unmarked (fbits s) (unat isize) (unat fsize) = map of_nat [unat isize + 1..<unat fsize]"
    using bits szd(1) by (simp add: unmarked_def)
  then show ?thesis using pass2_run [OF sizedD(1) [OF s] _ _ _ len] szd by (simp add: word_le_nat_alt)
qed

subsection \<open>Passes 3 to 5\<close>

lemma for_each_idle:
  assumes "\<And>n. n \<in> set ns \<Longrightarrow> body n s = Some ((), s)" shows "for_each ns body s = Some ((), s)"
  using assms by (induction ns) simp_all

lemma bitclear_run:
  "(\<And>n. n \<in> set ns \<Longrightarrow> n < fnbits s \<and> n < 65536) \<Longrightarrow>
   for_each ns (\<lambda>b. bitclear (of_nat b)) s = Some ((), s\<lparr>fbits := \<lambda>k. k \<notin> set ns \<and> fbits s k\<rparr>)"
proof (induction ns arbitrary: s)
  case Nil
  then show ?case by simp
next
  case (Cons n ns)
  have "(\<lambda>k. k \<notin> set ns \<and> ((fbits s)(n := False)) k) = (\<lambda>k. k \<notin> set (n # ns) \<and> fbits s k)" by auto
  then show ?case using Cons.IH [of "s\<lparr>fbits := (fbits s)(n := False)\<rparr>"] Cons.prems
    by (simp add: bitclear_def unat_of_nat)
qed

text \<open>The loops over the inodes do something for the root only.\<close>

lemma all_inodes_root:
  assumes s: "sized isize fsize s" and root: "body 1 s = Some ((), t)" and free: "\<And>n. n \<in> set [2..<8 * (unat isize - 2)] \<Longrightarrow> body n t = Some ((), t)"
  shows "all_inodes body s = Some ((), t)"
  using icnt_sized(2) [OF s] root for_each_idle [of "[2..<8 * (unat isize - 2)]" body t, OF free] unfolding all_inodes_def inode_numbers(1) [OF s] by simp

lemma free_inode:
  "sized isize fsize s \<Longrightarrow> empty_inodes isize (fimg s) \<Longrightarrow> n \<in> set [2..<8 * (unat isize - 2)] \<Longrightarrow> image_inode (fimg s) (of_nat n) = zero_dinode"
  using inode_numbers(2) [of isize fsize s n] by (auto simp: empty_inodes_def)

lemma pass3_empty:
  assumes s: "sized isize fsize s" and img: "empty_inodes isize (fimg s)"
  shows "\<exists>b. pass3 s = Some ((), s\<lparr>fbits := b\<rparr>)"
proof -
  note szd = sizedD(2,4-6) [OF s]
  define c where "c = s\<lparr>fbits := \<lambda>k. k \<notin> set [unat isize..<unat fsize] \<and> fbits s k\<rparr>"
  have clear: "for_each [unat (isz s)..<unat (fsz s)] (\<lambda>b. bitclear (of_nat b)) s = Some ((), c)"
    unfolding sizedD(7,8) [OF s] c_def by (rule bitclear_run) (use szd u16_bound [of fsize] in auto)
  have sc: "sized isize fsize c" unfolding c_def by (rule sized_upd(2) [OF s])
  note ec = sizedD(1) [OF sc]
  let ?t = "c\<lparr>fbits := (fbits c)(unat isize := True)\<rparr>"
  have st: "sized isize fsize ?t" by (rule sized_upd(2) [OF sc])
  note et = sizedD(1) [OF st]
  have "\<not> fbits c (unat isize)" "unat isize < fnbits c" using szd by (simp_all add: c_def)
  then have "dup_block 1 0 (root_dinode isize) c = Some (root_dinode isize, ?t)"
    using szd(1) by (simp add: dup_block_def root_block [OF ec] bittest_def bitset_def)
  moreover have img1: "image_inode (fimg c) 1 = root_dinode isize" "empty_inodes isize (fimg ?t)" using img by (simp_all add: c_def empty_inodes_def)
  ultimately have "pass3_inode 1 c = Some ((), ?t)" using root_mode [of isize]
    by (simp add: pass3_inode_def easy_steps(1,5) [OF ec] dup_indirect_def root_blocks [OF ec] Let_def)
  moreover have "pass3_inode n ?t = Some ((), ?t)" if "n \<in> set [2..<8 * (unat isize - 2)]" for n
    using free_inode [OF st img1(2) that] by (simp add: pass3_inode_def easy_steps(1,5) [OF et] free_mode)
  ultimately have "all_inodes pass3_inode c = Some ((), ?t)" by (rule all_inodes_root [OF sc])
  then show ?thesis using clear by (auto simp: pass3_def c_def)
qed

text \<open>The entries of the root directory.\<close>

lemma dots:
  assumes "j < 2"
  shows "direct_of (direct_bytes (dirbuf ! j)) = dirbuf ! j" "length (direct_bytes (dirbuf ! j)) = 32" "d_ino (dirbuf ! j) = 1"
    "clean_name (d_name (dirbuf ! j)) = d_name (dirbuf ! j)" "\<And>c. c < 30 \<Longrightarrow> d_name (dirbuf ! j) ! c \<noteq> 0x2F"
proof -
  have j: "j = 0 \<or> j = 1" using assms by auto
  have a: "\<forall>c \<in> {0..<30}. d_name (dirbuf ! 0) ! c \<noteq> 0x2F" "\<forall>c \<in> {0..<30}. d_name (dirbuf ! 1) ! c \<noteq> 0x2F" by code_simp+
  have b: "direct_of (direct_bytes (dirbuf ! 0)) = dirbuf ! 0" "direct_of (direct_bytes (dirbuf ! 1)) = dirbuf ! 1"
    "length (direct_bytes (dirbuf ! 0)) = 32" "length (direct_bytes (dirbuf ! 1)) = 32" "d_ino (dirbuf ! 0) = 1" "d_ino (dirbuf ! 1) = 1"
    "clean_name (d_name (dirbuf ! 0)) = d_name (dirbuf ! 0)" "clean_name (d_name (dirbuf ! 1)) = d_name (dirbuf ! 1)" by code_simp+
  show "direct_of (direct_bytes (dirbuf ! j)) = dirbuf ! j" "length (direct_bytes (dirbuf ! j)) = 32" "d_ino (dirbuf ! j) = 1"
    "clean_name (d_name (dirbuf ! j)) = d_name (dirbuf ! j)" using j b by metis+
  show "d_name (dirbuf ! j) ! c \<noteq> 0x2F" if "c < 30" for c using j a that by auto
qed

lemma no_slashes: "(\<And>c. c \<in> set cs \<Longrightarrow> d_name e ! c \<noteq> 0x2F) \<Longrightarrow> fix_slashes ino j cs e s = Some (e, s)"
  by (induction cs) (simp_all add: mend_entry_def)

definition dots_at :: "u16 \<Rightarrow> image \<Rightarrow> bool" where
  "dots_at isize img \<longleftrightarrow> (\<forall>j<2. get_bytes (img isize) (32 * j) 32 = direct_bytes (dirbuf ! j))"

lemma put_get_bytes: "put_bytes x off (get_bytes x off n) = x"
  by (rule ext) (auto simp: put_bytes_def)

lemma ckentry_dots:
  assumes s: "sized isize fsize s" and d: "dots_at isize (fimg s)" and j: "j < 2" and l: "flinks s 1 \<noteq> 0xFFFF"
  shows "ckentry down 1 1 (root_dinode isize) j s = Some ((), s\<lparr>flinks := (flinks s)(1 := flinks s 1 + 1)\<rparr>)"
proof -
  note e = sizedD(1) [OF s]
  let ?e = "dirbuf ! j"
  define t where "t = s\<lparr>flinks := (flinks s)(1 := flinks s 1 + 1)\<rparr>"
  have st: "sized isize fsize t" unfolding t_def by (rule sized_upd(1) [OF s])
  note et = sizedD(1) [OF st]
  have j0: "j div 16 = 0" "j mod 16 = j" using j by auto
  have bytes: "get_bytes (fimg s isize) (32 * j) 32 = direct_bytes ?e" using d j by (simp add: dots_at_def)
  note dj = dots [OF j]
  have rd: "dirread (root_dinode isize) j s = Some ?e"
    unfolding dirread_def j0(1,2) by (simp add: root_block [OF e] easy_steps(3) [OF e] sizedD(2) [OF s] bytes dj(1))
  have "put_bytes (fimg s isize) (32 * j) (direct_bytes ?e) = fimg s isize" unfolding bytes [symmetric] by (rule put_get_bytes)
  then have wr: "dirwrite (root_dinode isize) j ?e s = Some ((), s)"
    unfolding dirwrite_def j0(1,2) by (simp add: root_block [OF e] easy_steps(3,4) [OF e] sizedD(2) [OF s])
  have links: "get_link 1 s = Some (flinks s 1)" "set_link 1 (flinks s 1 + 1) s = Some ((), t)"
    using sizedD(3) [OF s] by (simp_all add: get_link_def set_link_def t_def)
  have clean: "?e\<lparr>d_name := clean_name (d_name ?e)\<rparr> = ?e" by (simp add: dj(4))
  have "\<not> 8 * int (unat (isz s)) \<le> int (unat (1 :: u16))" using sizedD(5) [OF s] unfolding sizedD(7) [OF s] unat_1 by linarith
  then have range: "\<not> 8 * uint (isz s) \<le> 1" by simp
  have m: "mend_entry (root_dinode isize) j False x y u = Some ((False, x), u)" for x y u by (simp add: mend_entry_def)
  have fx: "fix_slashes (root_dinode isize) j [0..<30] ?e t = Some (?e, t)" by (rule no_slashes) (use dj(5) in auto)
  show ?thesis
    using l unfolding ckentry_def rd bind.bind_lunit Let_def clean wr prod.case t_def [symmetric]
    by (simp add: links [unfolded One_nat_def] fx dj(3) easy_steps(1) [OF e] easy_steps(1) [OF et] range m)
qed

lemma pass4_empty:
  assumes s: "sized isize fsize s" and img: "empty_inodes isize (fimg s)" and d: "dots_at isize (fimg s)"
  shows "pass4 s = Some ((), s\<lparr>flinks := (flinks s)(1 := 3)\<rparr>)"
proof -
  define u where "u = (\<lambda>v. s\<lparr>flinks := (flinks s)(1 := v)\<rparr>)"
  have su: "sized isize fsize (u v)" for v unfolding u_def by (rule sized_upd(1) [OF s])
  note eu = sizedD(1) [OF su]
  have ck: "ckentry down 1 1 (root_dinode isize) j (u v) = Some ((), u (v + 1))" if "j < 2" "v \<noteq> 0xFFFF" for down j v
    using ckentry_dots [OF su _ that(1), of v down] d that(2) by (simp add: u_def)
  have root: "image_inode (fimg (u v)) 1 = root_dinode isize" for v using img by (simp add: u_def empty_inodes_def)
  have "ckdir_body down 1 1 (u 1) = Some ((), u 3)" for down
    using ck [of 0 1 down] ck [of 1 2 down]
    by (simp add: ckdir_body_def easy_steps(1,2,5) [OF eu] root root_mode Let_def upt_rec)
  then have "ckdir 19 1 1 (u 1) = Some ((), u 3)" by (simp add: numeral_eq_Suc)
  moreover have "set_link 1 1 s = Some ((), u 1)" using sizedD(3) [OF s] by (simp add: set_link_def u_def)
  ultimately show ?thesis by (simp add: pass4_def u_def)
qed

lemma pass5_empty:
  assumes s: "sized isize fsize s" and img: "empty_inodes isize (fimg s)" and l: "links_after isize 3 s"
  shows "pass5 s = Some ((), s)"
  unfolding pass5_def
proof (rule all_inodes_root [OF s])
  note e = sizedD(1) [OF s]
  have i1: "image_inode (fimg s) 1 = root_dinode isize" "flinks s 1 = 3" "1 < fnlinks s"
    using img l sizedD(3) [OF s] by (simp_all add: empty_inodes_def links_after_def)
  have three: "(0 :: u16) <s 3" "sint (3 :: u16) = int (unat (3 :: u16))" "(3 :: u16) \<noteq> 0" by code_simp+
  show "pass5_inode 1 s = Some ((), s)"
    using i1 three root_mode [of isize] by (simp add: pass5_inode_def easy_steps(1,5) [OF e] get_link_def)
  show "pass5_inode n s = Some ((), s)" if n: "n \<in> set [2..<8 * (unat isize - 2)]" for n
    using free_inode [OF s img n] inode_numbers(2) [OF s n] l n
    by (simp add: pass5_inode_def easy_steps(5) [OF e] get_link_def free_mode links_after_def)
qed


subsection \<open>The whole program\<close>

lemma empty_fsD:
  assumes "empty_fs m isize fsize img"
  shows "empty_inodes isize img" "dots_at isize img"
proof -
  show "empty_inodes isize img" using assms by (simp add: empty_fs_def empty_inodes_def)
  have b: "get_bytes (img isize) 0 BLKSIZE = take BLKSIZE root_entries" using assms by (simp add: empty_fs_def)
  have at: "img isize i = root_entries ! i" if "i < 64" for i
  proof -
    have "i < BLKSIZE" "length root_entries = 2048" using that by (simp, unfold root_entries_def, code_simp)
    then show ?thesis using arg_cong [OF b, of "\<lambda>xs. xs ! i"] by simp
  qed
  have r: "take 32 root_entries = direct_bytes (dirbuf ! 0)" "take 32 (drop 32 root_entries) = direct_bytes (dirbuf ! 1)"
    "length root_entries = 2048"
    unfolding root_entries_def by code_simp+
  show "dots_at isize img" unfolding dots_at_def
  proof (intro allI impI)
    fix j :: nat assume "j < 2"
    then consider "j = 0" | "j = 1" by linarith
    then show "get_bytes (img isize) (32 * j) 32 = direct_bytes (dirbuf ! j)"
    proof cases
      case 1
      then show ?thesis using r(3) unfolding 1 r(1) [symmetric] by (intro nth_equalityI) (simp_all add: at)
    next
      case 2
      then show ?thesis using r(3) unfolding 2 r(2) [symmetric] by (intro nth_equalityI) (simp_all add: at)
    qed
  qed
qed

text \<open>A superblock as write\_super() leaves it reads back as the one in memory, but for the in-core pointer.\<close>

lemma sb_decode:
  assumes "length (s_free (fsb s)) = 50" "length (s_inode (fsb s)) = 50" "img 1 = mem512 (sb_bytes s) junk"
  shows "image_super img = (fsb s)\<lparr>s_mntpt := None\<rparr>"
proof -
  have cong: "filesys_of bs = filesys_of cs" if "\<And>i. i < 220 \<Longrightarrow> bs ! i = cs ! i" for bs cs
    using that by (auto simp: filesys_of_def rd16_def rd32_def)
  have len: "length (filesys_bytes 0 (fsb s)) = 222" by (rule length_filesys_bytes) (use assms in simp_all)
  then have "length (sb_bytes s) = 222" by (simp add: sb_bytes_def)
  then have "get_bytes (img 1) 0 222 = sb_bytes s" unfolding assms(3) by (intro get_mem512) simp_all
  then have "image_super img = filesys_of (sb_bytes s)" by (simp add: image_super_def)
  also have "\<dots> = filesys_of (filesys_bytes 0 (fsb s))" by (rule cong) (use len in \<open>simp add: sb_bytes_def nth_append\<close>)
  also have "\<dots> = (fsb s)\<lparr>s_mntpt := None\<rparr>" by (rule filesys_decode) (use assms in simp_all)
  finally show ?thesis .
qed

lemma low_blocks:
  assumes "2 < unat isize" "empty_fs m isize fsize img" "\<forall>k. k \<noteq> 1 \<and> k \<le> isize \<longrightarrow> img' k = img k"
  shows "empty_inodes isize img'" "dots_at isize img'" "image_inode img' 0 = reserved_dinode" "get_bytes (img' isize) 0 BLKSIZE = take BLKSIZE root_entries"
proof -
  have "isize \<noteq> 1" using assms(1) by auto
  with assms(3) have r: "img' isize = img isize" by simp
  have i: "image_inode img' num = image_inode img num" if "unat num < 8 * (unat isize - 2)" for num
  proof -
    have "unat (inode_blk num) < unat isize" "unat (inode_blk num) \<noteq> unat (1 :: u16)" using inode_place(1) [of num] that by auto
    then have "inode_blk num \<noteq> 1 \<and> inode_blk num \<le> isize" by (auto simp: word_le_nat_alt)
    with assms(3) show ?thesis by (simp add: image_inode_def)
  qed
  have "unat (0 :: u16) < 8 * (unat isize - 2)" "unat (1 :: u16) < 8 * (unat isize - 2)" using assms(1) by simp_all
  note i0 = this [THEN i]
  show "dots_at isize img'" using empty_fsD(2) [of m isize fsize img] assms(2) by (simp add: dots_at_def r)
  show "empty_inodes isize img'" using empty_fsD(1) [of m isize fsize img] assms(2) i i0(2) by (simp add: empty_inodes_def)
  show "image_inode img' 0 = reserved_dinode" "get_bytes (img' isize) 0 BLKSIZE = take BLKSIZE root_entries"
    using assms(2) i0(1) r by (simp_all add: empty_fs_def)
qed

lemma run_empty:
  assumes e: "easy s" and fs: "empty_fs m isize fsize (fimg s)" "fsb s = image_super (fimg s)" and err: "ferror s = 0 \<or> ferror s = 1"
    and sizes: "2 < unat isize" "unat isize < unat fsize" "unat isize \<le> 8193"
  shows "\<exists>t. run_passes s = Some ((), t) \<and> ferror t = 1 \<and> empty_fs FMOD_CLEAN isize fsize (fimg t)"
proof -
  let ?p = "\<lambda>s. s\<lparr>fbits := (\<lambda>_. False), fnbits := 8 * ((unat (fsz s) + 7) div 8), flinks := (\<lambda>_. 0), fnlinks := 8 * unat (isz s)\<rparr>"
  define p where "p = ?p s"
  have sb: "s_isize (fsb s) = isize" "s_fsize (fsb s) = fsize" "s_tinode (fsb s) = 8 * (isize - 2) - 2" "s_mounted (fsb s) = SMOUNTED"
    using fs by (simp_all add: empty_fs_def Let_def)
  have len: "length (s_free (fsb s)) = 50" "length (s_inode (fsb s)) = 50" unfolding fs(2) by (simp_all add: image_super_def filesys_of_def)
  have sp: "sized isize fsize p" using e sizes sb easy_steps(7,8) [OF e] by (simp add: p_def sized_def easy_def)
  have ip: "fimg p = fimg s" "fsb p = fsb s" "ferror p = ferror s" "fbits p = (\<lambda>_. False)" by (simp_all add: p_def)
  obtain l where p1: "pass1 p = Some ((), p\<lparr>flinks := l, fbits := (fbits p)(unat isize := True)\<rparr>)" "links_after isize 0 (p\<lparr>flinks := l\<rparr>)"
    using pass1_empty [OF sp] empty_fsD(1) [of m isize fsize "fimg s"] fs sb by (auto simp: ip)
  define q where "q = p\<lparr>flinks := l, fbits := (fbits p)(unat isize := True)\<rparr>"
  have sq: "sized isize fsize q" unfolding q_def by (intro sized_upd(1,2) sp)
  have iq: "fimg q = fimg s" "fsb q = fsb s" "ferror q = ferror s" "\<forall>j. fbits q j = (j = unat isize)" "flinks q = l" by (simp_all add: q_def ip)
  obtain r where p2: "pass2 q = Some ((), r)" and rf: "refreed (map of_nat [unat isize + 1..<unat fsize]) q r" using pass2_empty [OF sq iq(4)] len iq by auto
  have tf: "of_nat (length (map of_nat [unat isize + 1..<unat fsize] :: u16 list)) = fsize - isize - 1"
    using sizes(2) by (simp add: of_nat_diff of_nat_unat)
  obtain n tab img where r: "r = (upd_sb (\<lambda>f. f\<lparr>s_ninode := 0, s_nfree := n, s_free := tab, s_tfree := fsize - isize - 1\<rparr>) (set_error 1 q))\<lparr>fimg := img\<rparr>"
    and ch: "chain img n tab (map of_nat [unat isize + 1..<unat fsize])"
    and rest: "\<forall>k. k \<noteq> 1 \<and> k \<notin> set (map of_nat [unat isize + 1..<unat fsize]) \<longrightarrow> img k = fimg s k"
    using rf unfolding refreed_def iq tf by blast
  have low: "\<forall>k. k \<noteq> 1 \<and> k \<le> isize \<longrightarrow> img k = fimg s k" using rest unfolding area_blocks by (auto simp: not_less)
  have sr: "sized isize fsize r" using sq by (simp add: r sized_def easy_def upd_sb_def set_error_def)
  have ir: "fimg r = img" "flinks r = l" "ferror r = ferror s OR 1"
    "fsb r = (fsb s)\<lparr>s_ninode := 0, s_nfree := n, s_free := tab, s_tfree := fsize - isize - 1\<rparr>" by (simp_all add: r upd_sb_def set_error_def iq)
  note lows = low_blocks [OF sizes(1) fs(1) low]
  obtain b where p3: "pass3 r = Some ((), r\<lparr>fbits := b\<rparr>)" using pass3_empty [OF sr] lows(1) ir by auto
  define v where "v = r\<lparr>fbits := b\<rparr>"
  have sv: "sized isize fsize v" unfolding v_def by (rule sized_upd(2) [OF sr])
  have iv: "fimg v = img" "flinks v = l" "ferror v = ferror s OR 1" "fsb v = fsb r" by (simp_all add: v_def ir)
  define w where "w = v\<lparr>flinks := (flinks v)(1 := 3)\<rparr>"
  have p4: "pass4 v = Some ((), w)" unfolding w_def by (rule pass4_empty [OF sv]) (simp_all add: iv lows)
  have sw: "sized isize fsize w" unfolding w_def by (rule sized_upd(1) [OF sv])
  have iw: "fimg w = img" "ferror w = ferror s OR 1" "fsb w = fsb r" by (simp_all add: w_def iv)
  have "links_after isize 3 w" using p1(2) by (simp add: links_after_def w_def iv)
  then have p5: "pass5 w = Some ((), w)" by (intro pass5_empty [OF sw]) (simp_all add: iw lows)
  have err1: "ferror w = 1" using err by (auto simp: iw)
  define x where "x = upd_sb (\<lambda>f. f\<lparr>s_fmod := FMOD_CLEAN\<rparr>) w"
  have ex: "easy x" unfolding x_def by (rule easy_upd(4) [OF sizedD(1) [OF sw]])
  define y where "y = x\<lparr>fimg := (fimg x)(1 := mem512 (sb_bytes x) (fjunk x))\<rparr>"
  have "run_passes s = Some ((), y)"
    unfolding run_passes_def Let_def p_def [symmetric] p1(1) q_def [symmetric] p2 bind.bind_lunit prod.case p3 v_def [symmetric] p4 p5 err1
      x_def [symmetric]
    by (simp add: write_super_def easy_steps(4) [OF ex] y_def)
  moreover have "ferror y = 1" using err1 by (simp add: y_def x_def upd_sb_def)
  moreover have "empty_fs FMOD_CLEAN isize fsize (fimg y)"
  proof -
    have ix: "fimg x = img" "fsb x = (fsb r)\<lparr>s_fmod := FMOD_CLEAN\<rparr>" by (simp_all add: x_def upd_sb_def iw)
    have sup: "image_super (fimg y) = (fsb x)\<lparr>s_mntpt := None\<rparr>"
      by (rule sb_decode) (use chain_basic(3) [OF ch] len in \<open>simp_all add: y_def ix ir\<close>)
    have "chain (fimg y) n tab (map of_nat [unat isize + 1..<unat fsize])"
    proof (rule chain_cong [OF ch])
      fix L assume "L \<in> set (map of_nat [unat isize + 1..<unat fsize] :: u16 list)"
      then have "L \<noteq> 1" using sizes(1) unfolding area_blocks by (auto simp: word_less_nat_alt)
      then show "fimg y L = img L" by (simp add: y_def ix)
    qed
    moreover have "\<forall>k. k \<noteq> 1 \<and> k \<le> isize \<longrightarrow> fimg y k = fimg s k" using low by (simp add: y_def ix)
    note low_blocks [OF sizes(1) fs(1) this]
    ultimately show ?thesis using sb by (simp add: empty_fs_def sup ix ir empty_inodes_def)
  qed
  ultimately show ?thesis by blast
qed

text \<open>C14: fsck rebuilds the free list from what the inodes use, whatever it was before. When pass 1 has marked the blocks of the
  files in the bitmap, and in a run that answers yes, in the byte order of the machine and on a medium without errors, pass 2 ends with a free list that hands out exactly the blocks of the data area that are not marked,
  in ascending order and each one once; the count of free blocks agrees, the cache of free inodes is empty, the
  superblock on the medium reads back as the one in memory, and every other block that is in use is as it was.\<close>

theorem fsck_rebuilds_free_list:
  assumes "easy s" and "2 \<le> isz s" "isz s \<le> fsz s" "unat (fsz s) \<le> fnbits s"
    and "length (s_free (fsb s)) = 50" "length (s_inode (fsb s)) = 50"
  shows "\<exists>t. pass2 s = Some ((), t)
    \<and> (let free = map of_nat (filter (\<lambda>j. \<not> fbits s j) [unat (isz s)..<unat (fsz s)]) in
        chain (fimg t) (s_nfree (fsb t)) (s_free (fsb t)) free \<and> distinct free \<and> s_tfree (fsb t) = of_nat (length free)
        \<and> s_ninode (fsb t) = 0 \<and> image_super (fimg t) = (fsb t)\<lparr>s_mntpt := None\<rparr>
        \<and> (\<forall>k. k \<noteq> 1 \<and> k \<notin> set free \<longrightarrow> fimg t k = fimg s k))"
proof -
  let ?bs = "unmarked (fbits s) (unat (isz s)) (unat (fsz s))"
  obtain t where p: "pass2 s = Some ((), t)" and r: "refreed ?bs s t" using pass2_run [OF assms] by blast
  have "inj_on (of_nat :: nat \<Rightarrow> u16) {..<65536}" by (rule inj_onI) (metis area_u16 lessThan_iff linorder_neqE_nat)
  then have "distinct ?bs" unfolding unmarked_def distinct_map
    using u16_bound [of "fsz s"] by (auto intro: inj_on_subset)
  moreover have "image_super (fimg t) = (fsb t)\<lparr>s_mntpt := None\<rparr>"
    by (rule sb_decode [of t "fimg t" "fjunk t"])
      (use r chain_basic(3) assms(6) in \<open>auto simp: refreed_def upd_sb_def set_error_def\<close>)
  ultimately show ?thesis using p r unfolding Let_def unmarked_def [symmetric]
    by (intro exI [of _ t]) (auto simp: refreed_def upd_sb_def set_error_def)
qed

definition fsck_sample :: "image \<Rightarrow> fsck" where
  "fsck_sample img = \<lparr>fimg = img, fsb = fs_super\<lparr>s_isize := 3, s_fsize := 10\<rparr>, fmnt = 0, ferror = 0, fbits = (\<lambda>j. j = 3 \<or> j = 5), fnbits = 16,
     flinks = (\<lambda>_. 0), fnlinks = 24, finput = [], fyes = True, fswz = False, fdok = (\<lambda>_. True), fjunk = zero_block\<rparr>"

theorem fsck_rebuilds_free_list_witness:
  "\<exists>t. pass2 (fsck_sample (\<lambda>_. zero_block)) = Some ((), t)
     \<and> chain (fimg t) (s_nfree (fsb t)) (s_free (fsb t)) [4, 6, 7, 8, 9] \<and> s_tfree (fsb t) = 5"
proof -
  let ?s = "fsck_sample (\<lambda>_. zero_block)"
  have e: "easy ?s" by (simp add: easy_def fsck_sample_def)
  have z: "isz ?s = 3" "fsz ?s = 10" unfolding easy_steps(7,8) [OF e] by (simp_all add: fsck_sample_def)
  have f: "fbits ?s = (\<lambda>j. j = 3 \<or> j = 5)" by (simp add: fsck_sample_def)
  have l: "map of_nat (filter (\<lambda>j. \<not> (j = 3 \<or> j = 5)) [unat (3 :: u16)..<unat (10 :: u16)]) = ([4, 6, 7, 8, 9] :: u16 list)" by code_simp
  have "2 \<le> isz ?s" "isz ?s \<le> fsz ?s" "unat (fsz ?s) \<le> fnbits ?s" "length (s_free (fsb ?s)) = 50" "length (s_inode (fsb ?s)) = 50"
    unfolding z by (simp_all add: fsck_sample_def fs_super_def)
  then show ?thesis using fsck_rebuilds_free_list [OF e] unfolding z f l Let_def by force
qed




subsection \<open>What repairing damages\<close>

lemma swizzle16_dec:
  assumes "(v :: u16) \<noteq> 0"
  shows "swizzle16 False (ucast v - 1) = Some (v - 1)"
proof -
  have v: "1 \<le> unat v" "unat v - 1 < 65536" using assms u16_bound [of v] by (simp_all add: Suc_leI unat_gt_0)
  have "ucast v - 1 = (of_nat (unat v - 1) :: u32)" "v - 1 = of_nat (unat v - 1)" using v(1) by (simp_all add: of_nat_diff of_nat_unat)
  then show ?thesis using swizzle16_nat [OF v(2)] by (simp del: of_nat_diff)
qed

text \<open>blk\_alloc0() decrements the count of free blocks twice: it hands out the second block of the list, and the first one is
  lost.\<close>

lemma alloc0_loses_block:
  assumes e: "easy s" and ch: "chain (fimg s) (s_nfree (fsb s)) (s_free (fsb s)) (x # y # bs)" and n: "3 \<le> s_nfree (fsb s)"
    and y: "\<not> out_of_range y s" "y \<noteq> 0" and b: "1 \<notin> set bs" and t: "s_tfree (fsb s) \<noteq> 0"
  shows "\<exists>t. blk_alloc0 s = Some (y, t) \<and> chain (fimg t) (s_nfree (fsb t)) (s_free (fsb t)) bs
    \<and> s_tfree (fsb t) = s_tfree (fsb s) - 1"
proof -
  let ?f = "fsb s" and ?n = "s_nfree (fsb s)"
  have nn: "3 \<le> unat ?n" "unat ?n \<le> 50" using n chain_basic(2) [OF ch] by (simp_all add: word_le_nat_alt)
  have n1: "unat (?n - 1) = unat ?n - 1" using nn by (subst unat_minus_one) auto
  then have n2: "unat (?n - 1 - 1) = unat ?n - 2" using nn by (subst unat_minus_one) (auto simp: word_unat_eq_iff)
  have gt: "1 < ?n" "1 < ?n - 1" "?n \<noteq> 0" using nn n1 by (auto simp: word_less_nat_alt)
  have c2: "y = s_free ?f ! unat (?n - 1 - 1)" "chain (fimg s) (?n - 1 - 1) (s_free ?f) bs"
    using chain_pop [OF chain_pop(2) [OF ch gt(1)] gt(2)] by simp_all
  have top: "s_free ?f ! unat (?n - 2) = y" using c2(1) by simp
  have nz: "?n - 1 - 1 \<noteq> 0" using n2 nn by (auto simp: word_unat_eq_iff)
  define u where "u = upd_sb (\<lambda>f. f\<lparr>s_nfree := ?n - 1 - 1\<rparr>) s"
  define v where "v = upd_sb (\<lambda>f. f\<lparr>s_tfree := s_tfree ?f - 1\<rparr>) u"
  have eu: "easy u" and ev: "easy v" unfolding v_def u_def by (intro easy_upd(4) e)+
  have iu: "s_free (fsb u) = s_free ?f" "s_nfree (fsb u) = ?n - 1 - 1" "s_tfree (fsb u) = s_tfree ?f"
    and iv: "fimg v = fimg s" "s_free (fsb v) = s_free ?f" "s_nfree (fsb v) = ?n - 1 - 1" "s_tfree (fsb v) = s_tfree ?f - 1"
    by (simp_all add: v_def u_def upd_sb_def)
  have sw: "fswz s = False" "fswz u = False" using e eu by (simp_all add: easy_def)
  have range: "\<not> out_of_range y v" using y(1) easy_steps(7,8) [OF e] easy_steps(7,8) [OF ev]
    by (simp add: out_of_range_def v_def u_def upd_sb_def)
  let ?t = "v\<lparr>fimg := (fimg v)(1 := mem512 (sb_bytes v) (fjunk v))\<rparr>"
  have "\<not> unat (?n - 1 - 1) \<ge> 50" using n2 nn by simp
  then have "blk_alloc0 s = Some (y, ?t)"
    using nz y(2) range
    unfolding blk_alloc0_def easy_steps(1) [OF e] sw swizzle16_dec [OF gt(3)] bind.bind_lunit Let_def u_def [symmetric]
    by (simp add: easy_steps(1) [OF eu] iu top sw swizzle16_dec [OF t] v_def [symmetric] write_super_def
        easy_steps(4) [OF ev])
  moreover have "chain (fimg ?t) (?n - 1 - 1) (s_free ?f) bs" by (rule chain_cong [OF c2(2)]) (use b in \<open>auto simp: iv\<close>)
  ultimately show ?thesis by (intro exI [of _ ?t]) (simp add: iv)
qed

text \<open>A zapped entry of a double indirect block is written to the block whose number is the index of the entry: with
  b = 1 over the superblock; the double indirect block keeps the bad entry.\<close>

lemma double_zap_misplaced:
  assumes "easy s" and "word_at x b \<noteq> 0" "out_of_range (word_at x b) s" and "b < 256"
  shows "\<exists>t. check_double [b] x s = Some ((), t) \<and> fimg t = (fimg s)(of_nat b := set_word b 0 x)"
proof -
  have z: "word_at (set_word b 0 x) b = 0"
    using rd16_le16 [of "0 :: u16" "[]"] by (simp add: word_at_def set_word_def get_put_bytes_same)
  have y: "yes s = Some (True, set_error 1 s)" using easy_steps(6) [OF assms(1)] by (simp add: yes_def)
  note e1 = easy_upd(5) [OF assms(1)]
  show ?thesis using assms(2,3)
    by (simp add: easy_steps(1) [OF assms(1)] y easy_steps(4) [OF e1] z Let_def) (simp add: set_error_def)
qed

text \<open>A block number beyond the bitmap is entered in it although it has just been zapped: the pass that looks for such numbers
  writes outside its table when it meets one.\<close>

lemma zapped_block_overrun:
  assumes "easy s" and "getblkno ino bno s = Some b" "b \<noteq> 0" "out_of_range b s" and "fnbits s \<le> unat b"
  shows "check_block n bno ino s = None"
proof -
  have y: "yes s = Some (True, set_error 1 s)" using easy_steps(6) [OF assms(1)] by (simp add: yes_def)
  have fw: "fnbits t = fnbits s" if "fwrite k x s = Some (r, t)" for k x r s t
    using that by (auto simp: fwrite_def split: bind_splits)
  have st: "fnbits t = fnbits s" if "setblkno i k v s = Some (r, t)" for i k v r s t
    using that by (auto simp: setblkno_def Let_def split: if_splits bind_splits dest: fw)
  have iw: "fnbits t = fnbits s" if "iwrite k d s = Some (r, t)" for k d r s t
    using that by (auto simp: iwrite_def split: bind_splits dest: fw)
  have "fnbits (set_error 1 s) = fnbits s" by (simp add: set_error_def)
  then show ?thesis using assms(2-5)
    by (auto simp: check_block_def y bitset_def split: bind_splits dest!: st iw)
qed

text \<open>Where a block of the double indirect range is given to two files, the repair writes the second-level table over the
  double indirect block, with the number of the block in the file instead of the new block.\<close>

lemma double_repair_misplaced:
  assumes e: "easy s" and num: "\<not> num < 256 + 18" and d: "i_addr ino ! 19 \<noteq> 0"
    and dd: "word_at (fimg s (i_addr ino ! 19)) (unat (drop_bit 8 (num - (18 + 256)))) \<noteq> 0"
  shows "\<exists>t. setblkno ino num dnum s = Some (ino, t) \<and> fimg t = (fimg s)(i_addr ino ! 19 :=
     set_word (unat ((num - (18 + 256)) AND 0xFF)) num
       (fimg s (word_at (fimg s (i_addr ino ! 19)) (unat (drop_bit 8 (num - (18 + 256)))))))"
proof -
  have "\<not> num < 18" using num by (auto simp: word_less_nat_alt)
  then show ?thesis using num d dd by (simp add: setblkno_def easy_steps(1,3,4) [OF e] Let_def)
qed

text \<open>A file system with isize = 8194, which mkfs makes, has 65536 inodes for the 16-bit counter of the loops: fsck never ends.\<close>

lemma pass1_never_ends:
  assumes "easy s" and "8194 \<le> s_isize (fsb s)"
  shows "run_passes s = None"
proof -
  have "8194 \<le> unat (s_isize (fsb s))" using assms(2) by (simp add: word_le_nat_alt)
  moreover have "8 * (int k - 2) > 65535" if "8194 \<le> k" for k using that by simp
  ultimately have "8 * (int (unat (s_isize (fsb s))) - 2) > 65535" by blast
  moreover define p where "p = s\<lparr>fbits := (\<lambda>_. False), fnbits := 8 * ((unat (fsz s) + 7) div 8), flinks := (\<lambda>_. 0), fnlinks := 8 * unat (isz s)\<rparr>"
  moreover have "easy p" using assms(1) by (simp add: p_def easy_def)
  ultimately have "icnt p > 65535" using easy_steps(7) [of p] by (simp add: icnt_def p_def)
  then show ?thesis unfolding run_passes_def Let_def p_def [symmetric] by (simp add: pass1_def)
qed

end
