(* ===== verification/Spec2Isabelle.thy ===== *)
theory Spec2Isabelle
  imports ProcProps Storage InodeTab DescSpec DirSpec TtySpec LifeSpec TypeSpec VtSpec ExecSpec BankProps Defects Privilege BootSpec MbrSpec RawSpec DevSys KMalloc FsckSpec
begin

text \<open>
  A model of the kernel of FUZIX (src/Kernel), the Unix for small processors, with the programs that make and check its file systems, and
  the theorems that make it correct.

  \<^bold>\<open>The program.\<close> The kernel is one C program that a platform port completes with drivers, assembly and a memory layout.
  A system call enters unix\_syscall() (process.c), which goes through the table syscall\_dispatch (kdata.c) to one of
  the routines of syscall\_*.c. These work on global tables: the processes \<open>ptab\<close> with \<open>udata\<close> for the current one, the
  in-core inodes \<open>i_tab\<close>, the open files \<open>of_tab\<close>, the mounts \<open>fs_tab\<close> and the buffer pool. The file system
  (filesys.c, inode.c) reaches the medium through the pool only (devio.c), the pool reaches it through the device
  switch, and terminals (tty.c) are fed by interrupts through character queues. The clock interrupt drives the
  scheduler (process.c), which hands the processor over in switchout(), and memory is given out by a bank
  manager that may swap processes out (bank16k.c, swap.c).

  \<^bold>\<open>The build.\<close> The definitions are the 16-bit little-endian build of cpu-z80 without CONFIG\_LEVEL\_2, CONFIG\_NET,
  CONFIG\_BLKBUF\_EXTERNAL, CONFIG\_DEV\_PTY, CONFIG\_ACCT, CONFIG\_PROFIL and CONFIG\_UNIKEY: int and pointers have 16 bits.

  \<^bold>\<open>How the code is represented.\<close> The kernel's state is the record \<open>kst\<close> of KernelState. A kernel routine is a function of
  the state with the value \<open>(result \<times> state) option\<close>, composed with the option monad; None is a call that never
  returns, a panic, or an access outside a table, which has no meaning in C. Integers are words of the width
  the code gives them, so that all arithmetic wraps as there. A pointer into a table is an index, a pointer that may be
  NULL is an option, an int result of -1 is 0xFFFF with the reason in \<open>u_error\<close>, and structures on a disk are
  byte strings that the code's layout gives. A loop is a structural recursion where it counts, a function with a
  termination measure where it consumes something, and \<open>partial_function (option)\<close> where the code may wait or search forever;
  no definition has fuel. Where such a loop does end, this is a theorem: process ids (\<open>ptab_alloc_distinct\<close>), the
  scheduler (\<open>getproc_round_robin\<close>), the search for pages (\<open>pagemap_alloc_returns\<close>), the queue of a terminal (\<open>tty_read_line\<close>),
  the screen (\<open>vtoutput_stays_on_screen\<close>) and the chain of boot records (\<open>mbr_reads_table\<close>).

  \<^bold>\<open>What is a parameter.\<close> Code that a port supplies is not made up. The drivers of the device switch are the field \<open>plat\<close> of
  the state; switchout() is the argument \<open>sw\<close> (other processes run and come back, or never do), platform\_idle() is
  \<open>idle\<close>, tty\_writeready() and tty\_carrier() are \<open>rdy\<close> and \<open>car\<close>, the memory maps and fork are \<open>pmalloc\<close>, \<open>pmfree\<close> and \<open>dofork\<close>, the
  transfer functions of drives are fields of \<open>blkdev_t\<close>, the screen layout of the console is the record \<open>vt_cfg\<close>, that of the banks \<open>bank_cfg\<close>. Theorems that need something of
  these say so in a hypothesis, and each witness gives a concrete instance.

  \<^bold>\<open>The theories, by part of the program.\<close>

  \<^item> Data. Prelude: integer types, byte strings, the collections \<open>codec\<close> and \<open>frame\<close>. KernelState: kernel.h, kdata.c. Sample: a
  small running kernel at which hypotheses are shown to hold.

  \<^item> Processes (process.c, timer.c). Process, Timer: sleeping, waking, the scheduler, signals, the clock interrupt,
  process creation. ProcInv: \<open>nready\<close> counts the runnable slots, as an invariant of the step relation \<open>proc_step\<close>.
  ProcSpec, ProcProps: what getproc(), ptab\_alloc(), wakeup() and chksigs() do. SysProc, LifeSpec: exit, wait, kill,
  fork and the other calls of syscall\_proc.c; a dead process is collected once and with the times it left.

  \<^item> Memory (usermem.c, bank16k.c, swap.c). UserMem: the checked copies. Banks, BankSpec, BankProps: the pages of a process, swapping; pages and
  swap slots are conserved over any run (\<open>mem_step\<close>), and a process comes back from the swap device as it went. KMalloc (malloc.c): the
  allocator of the 32-bit ports, which is not part of the 16-bit build of the rest.

  \<^item> Character devices (devio.c, tty.c, vt.c). CharQueue: the rings, an interpretation of the locale \<open>editable_fifo\<close>. Tty, TtySpec: the
  line discipline refines an editor of lists of bytes. Vt, VtSpec: the console keeps to its screen. DevSys (devsys.c): /dev/null, /dev/zero,
  /dev/kmem and /dev/proc.

  \<^item> Blocks (devio.c). BufCache: the pool and the device switch. BufSpec: \<open>view\<close>, the content of a block as the kernel sees
  it, and that every operation keeps the pool coherent. Storage: the contract \<open>block_store\<close> that the pool gives to
  the file system, and what a failing device does to it. BlkDev (dev/blkdev.c, dev/mbr.c): the layer that ports put under the
  device switch for drives with partitions. BlkSpec: each partition is a disk as the buffer cache expects it. MbrSpec: what is read from
  a partition table, for any content of the drive. RawSpec: raw transfers.

  \<^item> File system (filesys.c, inode.c). FsBase: layouts, superblocks, allocation. FreeSpec, FreePool: blk\_alloc() and
  blk\_free() are pop and push on the list of free blocks, an interpretation of the locale \<open>free_pool\<close>. Inode, InodeSpec:
  inodes, the block map against the tree of blocks on disk. IoFrame, InodeTab, TypeSpec: what file system
  operations leave alone, and the types of their tables. FileIO, FileSpec, FileWrite: readi() and writei() against a
  file as a sequence of bytes. Directory, DirSpec: path names and directories against lists of entries.

  \<^item> System calls (syscall\_*.c). FileTable, SysFile, SysAttr, SysOpen, SysAdmin: descriptors and the calls on files. DescSpec: every
  open file counts its descriptors. SysExec, ExecSpec: execve and the arguments it hands over. Dispatch: the
  table of calls. Ident, Privilege: no call but execve makes an ordinary process a privileged one; execve is left
  out because it is the way the system gives privileges (set-user-id programs). Defects: behaviour
  of the calls that is not what their callers expect.

  \<^item> Starting (start.c, src/Standalone/mkfs.c and util.c). Mkfs: the program that writes an empty file system, and that
  what it writes is one. Start: fuzix\_main(), the boot line and the argument vector of /init. StartSpec: bootdevice() as
  its comment says, the words of the boot line arriving as arguments. MountSpec: the first mount and the first i\_open().
  BootSpec: a cold machine comes up. The theorem that joins them with mkfs is below, in this theory.

  \<^item> Checking (src/Standalone/fsck.c). Fsck: the five passes and main() on an image of a disk. FsckSpec: the free list that pass 2 builds
  hands out exactly the blocks that no file uses, an empty file system comes through unharmed, and the repairs that do damage.

  \<^bold>\<open>Hypotheses that recur.\<close> \<open>disk_ok s dev\<close>: the device answers transfers of its blocks and the pool agrees with it. \<open>busy_set s = {}\<close>: no
  buffer is locked, as between two system calls. \<open>free_ok s dev m bs\<close>: the free list of mount \<open>m\<close> holds exactly the
  blocks \<open>bs\<close>. \<open>file_wf\<close>: the block map of the file gives no block to two positions.

  \<^bold>\<open>Not modelled.\<close> The ports, their drivers and assembly; the messages on the console (kprintf); the calls of LEVEL\_2 and NET; the other bank managers, which are
  alternatives to bank16k.c; execve for 32-bit machines; the applications, libraries and tools but mkfs and fsck. Interrupts are
  steps between the steps of the model, never in the middle of one: the code disables them where this matters.
\<close>

section \<open>A fresh system\<close>

lemma root_of_fresh:
  assumes f: "fresh_fs isize fsize img" and b: "2 < isize" "isize < fsize" "isize \<le> 8193"
  shows "root_image img (map of_nat [unat isize + 1..<unat fsize])"
proof -
  have n: "2 < unat isize" "unat isize \<le> 8193" using b by (simp_all add: word_less_nat_alt word_le_nat_alt)
  have "(isize - 2) * 8 = of_nat ((unat isize - 2) * 8)" using n(1) by (simp add: of_nat_diff of_nat_unat)
  then have "unat ((isize - 2) * 8) = (unat isize - 2) * 8" using n by (simp only: unat_of_nat) simp
  then have "1 < (isize - 2) * 8" using n by (simp add: word_less_nat_alt)
  moreover have "s_isize (image_super img) = isize" using f by (simp add: empty_fs_def Let_def)
  moreover have "i_mode (root_dinode isize) AND F_MASK \<noteq> 0"
  proof -
    have "(0x41FF AND F_MASK :: u16) = 0x4000" by code_simp
    then show ?thesis by (simp add: root_dinode_def)
  qed
  ultimately show ?thesis using fresh_image [OF f b(1,2)] by (simp add: root_image_def root_dinode_def)
qed

text \<open>C6: A system on a fresh disk comes up. If mkfs has made a file system on the boot device (with at most 8193
  blocks before the data) and the boot line names that device, then fuzix\_main() of a cold machine ends: the file system is mounted
  as the root, its free list is the list of all data blocks above the root directory, the root directory is the
  current and the root directory of the first process with all its references counted, and what execve will read is
  the path "/init" with exactly the arguments of the boot line.\<close>

theorem fresh_system_boots:
  assumes "2 < isize" and "isize < fsize" and "isize \<le> 8193"
    and "mkfs_main False (\<lambda>_. True) junk isize fsize old = Some (disk (krn b) dev)"
    and "cold e P dev (krn b)" and "plain_env e known P" and "boot_line e names line" and "cmdline b = Some a"
    and "cstr (uput_raw (replicate 32 0) (of_nat (P + 2048)) (kmem (krn b))) a = Some line"
    and "boot_choice names line = dev"
  shows "\<exists>b'. fuzix_main e b = Some b' \<and> booted (krn b') dev (root_dinode isize)
    (map of_nat [unat isize + 1..<unat fsize]) (init_name # filter (boot_arg known) (boot_words (boot_tail names line)))"
proof -
  have "isize \<le> 8194" using assms(3) by (rule order.trans) simp
  then have f: "fresh_fs isize fsize (disk (krn b) dev)"
    by (rule mkfs_builds [OF assms(1,2), of junk old]) (use assms(4) in auto)
  have "image_inode (disk (krn b) dev) 1 = root_dinode isize" by (rule fresh_image(4) [OF f assms(1,2)])
  then show ?thesis using boots [OF assms(5-10) root_of_fresh [OF f assms(1-3)]] by simp
qed

text \<open>The line "hda x" and a disk of 200 blocks.\<close>

definition boot_disk :: "u16 \<Rightarrow> block" where
  "boot_disk = the (mkfs_main False (\<lambda>_. True) zero_block 3 200 (\<lambda>_. zero_block))"

definition boot_sample :: boot where
  "boot_sample = \<lparr>krn = sample\<lparr>ptab := (\<lambda>_. sample_ptab), disk := (\<lambda>_. boot_disk),
      kmem := (\<lambda>_. 0)(0xE000 := 0x68, 0xE001 := 0x64, 0xE002 := 0x61, 0xE003 := 0x20, 0xE004 := 0x78)\<rparr>,
     ro = 0, progptr = 0, argptr = 0, cmdline = Some 0xE000\<rparr>"

theorem fresh_system_boots_witness:
  "\<exists>b'. fuzix_main sample_env boot_sample = Some b'
     \<and> booted (krn b') 0 (root_dinode 3) (map of_nat [4..<200]) [init_name, [0x78]]"
proof -
  let ?line = "[0x68, 0x64, 0x61, 0x20, 0x78] :: u8 list"
  have m: "mkfs_main False (\<lambda>_. True) zero_block 3 200 (\<lambda>_. zero_block) = Some (disk (krn boot_sample) 0)"
    by (rule mkfs_builds [of 3 200 zero_block "\<lambda>_. zero_block"]) (simp_all add: boot_sample_def boot_disk_def)
  have gives: "pagemap_gives (\<lambda>p s. (0, s))"
    unfolding pagemap_gives_def
  proof (intro allI)
    fix p and t :: kst
    show "\<exists>pg pg2. (0 :: u16, t) = (0, upd_p p (\<lambda>e. e\<lparr>p_page := pg, p_page2 := pg2\<rparr>) t)"
      by (intro exI [of _ "p_page (ptab t p)"] exI [of _ "p_page2 (ptab t p)"]) (simp add: upd_p_def)
  qed
  have plain: "plain_env sample_env (\<lambda>_. False) 256" by (simp add: plain_env_def sample_env_def gives)
  have cold: "cold sample_env 256 0 (krn boot_sample)"
    by (simp add: cold_def boot_sample_def sample_env_def sample_defs media_ok_def d_open_def drv_error_def)
  have names: "boot_line sample_env sample_names ?line"
  proof -
    have "boot_choice sample_names ?line \<noteq> BAD_ROOT_DEV" by code_simp
    then show ?thesis by (simp add: boot_line_def sample_env_def sample_names_def plain_name_def)
  qed
  have choice: "boot_choice sample_names ?line = 0" by code_simp
  have other: "uput_raw (replicate 32 0) 2304 (kmem (krn boot_sample)) x = kmem (krn boot_sample) x" if "0xE000 \<le> x" for x
  proof (rule uput_raw_other)
    have "unat (0xE000 :: u16) \<le> unat x" using that by (simp add: word_le_nat_alt)
    then show "length (replicate 32 (0 :: u8)) \<le> unat (x - 2304)" by (simp add: unat_sub word_le_nat_alt)
  qed simp
  define M where "M = uput_raw (replicate 32 0) (of_nat (256 + 2048)) (kmem (krn boot_sample))"
  have km: "M x = kmem (krn boot_sample) x" if "0xE000 \<le> x" for x using other [OF that] by (simp add: M_def)
  have "cstr M 0xE005 = Some []" by (subst cstr.simps) (simp add: km boot_sample_def)
  then have "cstr M 0xE004 = Some [0x78]" by (subst cstr.simps) (simp add: km boot_sample_def)
  then have "cstr M 0xE003 = Some [0x20, 0x78]" by (subst cstr.simps) (simp add: km boot_sample_def)
  then have "cstr M 0xE002 = Some [0x61, 0x20, 0x78]" by (subst cstr.simps) (simp add: km boot_sample_def)
  then have "cstr M 0xE001 = Some [0x64, 0x61, 0x20, 0x78]" by (subst cstr.simps) (simp add: km boot_sample_def)
  then have str: "cstr M 0xE000 = Some [0x68, 0x64, 0x61, 0x20, 0x78]" by (subst cstr.simps) (simp add: km boot_sample_def)
  have words: "filter (boot_arg (\<lambda>_. False)) (boot_words (boot_tail sample_names ?line)) = [[0x78]]"
  proof -
    have "boot_tail sample_names ?line = [0x20, 0x78]" by code_simp
    then show ?thesis by (simp add: boot_words.simps blank_def boot_arg_def is_ro_def is_rw_def at_def)
  qed
  show ?thesis
    using fresh_system_boots [OF _ _ _ m cold plain names _ str [unfolded M_def] choice] words by (simp add: boot_sample_def)
qed

text \<open>With one block of inodes more than that, mkfs still goes on, but the kernel's 16-bit product
  (s\_isize - 2) * 8 is 0 and i\_open() refuses every inode.\<close>

lemma inode_limit_wraps: "(8194 - 2) * 8 = (0 :: u16)" "swizzle16 False (8 * (ucast (8194 :: u16) - 2) - 2) \<noteq> None"
  by (code_simp, code_simp)

end
